(* ===== verification/Prelude.thy ===== *)
theory Prelude
  imports Main "HOL-Library.Word"
begin

text \<open>
  What every component of the development shares.

  \<^item> The machine integers of the C code as words, and the faults that stand for what a C
    program must not do (a failed \<^verbatim>\<open>assert\<close>, a call of \<^verbatim>\<open>abort\<close>, a read through a null
    or a dangling pointer, an access outside an array, a signed overflow, a division by zero, a variable read before it
    is set).
  \<^item> Programs that thread a state and may fault: type \<open>('s, 'a) prog\<close> with its
    combinators.  A C function that changes a struct through a pointer is a \<open>prog\<close> over
    that struct.
  \<^item> The weakest-precondition predicate \<open>wpe\<close>, whose equations (collection \<open>wp\<close>) turn a
    statement about a program into one about its straight-line pieces.
  \<^item> Checked array access.
\<close>

unbundle bit_operations_syntax

type_synonym u8 = "8 word"
type_synonym u16 = "16 word"
type_synonym u32 = "32 word"
type_synonym u64 = "64 word"

section \<open>Faults and results\<close>

datatype fault =
    AssertFail
  | AbortCall
  | NullDeref
  | DanglingPtr
  | OutOfBounds
  | SignedOverflow
  | UnsetVar
  | DivByZero
  | OutOfFuel

text \<open>\<open>OutOfFuel\<close> is no fault of the code: it marks a recursion the model cut off.\<close>

section \<open>Programs over a state\<close>

type_synonym ('s, 'a) prog = "'s \<Rightarrow> fault + ('a \<times> 's)"

definition ret :: "'a \<Rightarrow> ('s, 'a) prog" where
  "ret a = (\<lambda>s. Inr (a, s))"

definition err :: "fault \<Rightarrow> ('s, 'a) prog" where
  "err f = (\<lambda>s. Inl f)"

definition bnd :: "('s, 'a) prog \<Rightarrow> ('a \<Rightarrow> ('s, 'b) prog) \<Rightarrow> ('s, 'b) prog" where
  "bnd m f = (\<lambda>s. case m s of Inl e \<Rightarrow> Inl e | Inr (a, t) \<Rightarrow> f a t)"

definition sq :: "('s, 'a) prog \<Rightarrow> ('s, 'b) prog \<Rightarrow> ('s, 'b) prog" where
  "sq m n = bnd m (\<lambda>_. n)"

definition rd :: "('s \<Rightarrow> 'a) \<Rightarrow> ('s, 'a) prog" where
  "rd f = (\<lambda>s. Inr (f s, s))"

definition upd :: "('s \<Rightarrow> 's) \<Rightarrow> ('s, unit) prog" where
  "upd f = (\<lambda>s. Inr ((), f s))"

definition assert_p :: "bool \<Rightarrow> ('s, unit) prog" where
  "assert_p b = (if b then ret () else err AssertFail)"

definition when_p :: "bool \<Rightarrow> ('s, unit) prog \<Rightarrow> ('s, unit) prog" where
  "when_p b m = (if b then m else ret ())"

text \<open>The value under an optional (nullable) pointer, or the fault its use raises.\<close>

definition deref :: "fault \<Rightarrow> 'a option \<Rightarrow> ('s, 'a) prog" where
  "deref e p = (case p of None \<Rightarrow> err e | Some a \<Rightarrow> ret a)"

text \<open>A value that is itself a result: used where a pure helper may fault.\<close>

definition lift_r :: "fault + 'a \<Rightarrow> ('s, 'a) prog" where
  "lift_r r = (case r of Inl e \<Rightarrow> err e | Inr a \<Rightarrow> ret a)"

section \<open>Checked arrays\<close>

definition arr_get :: "'a list \<Rightarrow> int \<Rightarrow> fault + 'a" where
  "arr_get xs i = (if 0 \<le> i \<and> i < int (length xs) then Inr (xs ! nat i) else Inl OutOfBounds)"

definition arr_set :: "'a list \<Rightarrow> int \<Rightarrow> 'a \<Rightarrow> fault + 'a list" where
  "arr_set xs i v =
     (if 0 \<le> i \<and> i < int (length xs) then Inr (xs[nat i := v]) else Inl OutOfBounds)"

section \<open>Weakest preconditions\<close>

named_theorems wp

definition wpe :: "('s, 'a) prog \<Rightarrow> ('a \<Rightarrow> 's \<Rightarrow> bool) \<Rightarrow> (fault \<Rightarrow> bool) \<Rightarrow> 's \<Rightarrow> bool" where
  "wpe m Q E s = (case m s of Inl e \<Rightarrow> E e | Inr (a, t) \<Rightarrow> Q a t)"

lemma wpe_ret [wp, simp]: "wpe (ret a) Q E s = Q a s"
  by (simp add: wpe_def ret_def)

lemma wpe_err [wp, simp]: "wpe (err f) Q E s = E f"
  by (simp add: wpe_def err_def)

lemma wpe_bnd [wp, simp]: "wpe (bnd m f) Q E s = wpe m (\<lambda>a. wpe (f a) Q E) E s"
  by (simp add: wpe_def bnd_def split: sum.split prod.split)

lemma wpe_sq [wp, simp]: "wpe (sq m n) Q E s = wpe m (\<lambda>_. wpe n Q E) E s"
  by (simp add: sq_def)

lemma wpe_rd [wp, simp]: "wpe (rd f) Q E s = Q (f s) s"
  by (simp add: wpe_def rd_def)

lemma wpe_upd [wp, simp]: "wpe (upd f) Q E s = Q () (f s)"
  by (simp add: wpe_def upd_def)

lemma wpe_assert_p [wp, simp]:
  "wpe (assert_p b) Q E s = ((b \<longrightarrow> Q () s) \<and> (\<not> b \<longrightarrow> E AssertFail))"
  by (simp add: assert_p_def)

lemma wpe_if [wp, simp]:
  "wpe (if b then m else n) Q E s = ((b \<longrightarrow> wpe m Q E s) \<and> (\<not> b \<longrightarrow> wpe n Q E s))"
  by simp

lemma wpe_when_p [wp, simp]:
  "wpe (when_p b m) Q E s = ((b \<longrightarrow> wpe m Q E s) \<and> (\<not> b \<longrightarrow> Q () s))"
  by (simp add: when_p_def)

lemma wpe_deref [wp, simp]:
  "wpe (deref f p) Q E s = ((p = None \<longrightarrow> E f) \<and> (\<forall>a. p = Some a \<longrightarrow> Q a s))"
  by (simp add: deref_def split: option.split)

lemma wpe_lift_r [wp, simp]:
  "wpe (lift_r r) Q E s = ((\<forall>e. r = Inl e \<longrightarrow> E e) \<and> (\<forall>a. r = Inr a \<longrightarrow> Q a s))"
  by (simp add: lift_r_def split: sum.split)

lemma wpe_mono:
  assumes "wpe m Q E s"
    and "\<And>a t. Q a t \<Longrightarrow> Q' a t"
    and "\<And>f. E f \<Longrightarrow> E' f"
  shows "wpe m Q' E' s"
  using assms by (auto simp: wpe_def split: sum.splits)

lemma wpe_conj:
  "wpe m Q E s \<Longrightarrow> wpe m Q' E' s \<Longrightarrow> wpe m (\<lambda>a t. Q a t \<and> Q' a t) (\<lambda>f. E f \<and> E' f) s"
  by (auto simp: wpe_def split: sum.splits)

lemma wpe_Inr: "wpe m Q E s \<Longrightarrow> m s = Inr (a, t) \<Longrightarrow> Q a t"
  by (simp add: wpe_def)

lemma wpe_Inl: "wpe m Q E s \<Longrightarrow> m s = Inl f \<Longrightarrow> E f"
  by (simp add: wpe_def)

lemma wpeI:
  "(\<And>f. m s = Inl f \<Longrightarrow> E f) \<Longrightarrow> (\<And>a t. m s = Inr (a, t) \<Longrightarrow> Q a t) \<Longrightarrow> wpe m Q E s"
  by (auto simp: wpe_def split: sum.split)

text \<open>No fault at all: the program returns, and its result satisfies the postcondition.\<close>

lemma wpe_no_fault: "wpe m Q (\<lambda>_. False) s \<Longrightarrow> \<exists>a t. m s = Inr (a, t) \<and> Q a t"
  by (auto simp: wpe_def split: sum.splits)

section \<open>Evaluation of programs\<close>

text \<open>Running a program on a state, step by step.  These rules drive the witnesses.\<close>

named_theorems run

lemma run_ret [run]: "ret a s = Inr (a, s)"
  by (simp add: ret_def)

lemma run_err [run]: "err f s = Inl f"
  by (simp add: err_def)

lemma run_bnd [run]: "bnd m f s = (case m s of Inl e \<Rightarrow> Inl e | Inr (a, t) \<Rightarrow> f a t)"
  by (simp add: bnd_def)

lemma run_sq [run]: "sq m n s = (case m s of Inl e \<Rightarrow> Inl e | Inr (a, t) \<Rightarrow> n t)"
  by (simp add: sq_def bnd_def)

lemma run_rd [run]: "rd f s = Inr (f s, s)"
  by (simp add: rd_def)

lemma run_upd [run]: "upd f s = Inr ((), f s)"
  by (simp add: upd_def)

lemma run_assert_p [run]: "assert_p b s = (if b then Inr ((), s) else Inl AssertFail)"
  by (simp add: assert_p_def ret_def err_def)

lemma run_when_p [run]: "when_p b m s = (if b then m s else Inr ((), s))"
  by (simp add: when_p_def ret_def)

lemma run_deref [run]: "deref f p s = (case p of None \<Rightarrow> Inl f | Some a \<Rightarrow> Inr (a, s))"
  by (simp add: deref_def ret_def err_def split: option.split)

lemma run_lift_r [run]: "lift_r r s = (case r of Inl e \<Rightarrow> Inl e | Inr a \<Rightarrow> Inr (a, s))"
  by (simp add: lift_r_def ret_def err_def split: sum.split)

section \<open>Array lemmas\<close>

lemma arr_get_Inr_iff:
  "arr_get xs i = Inr v \<longleftrightarrow> 0 \<le> i \<and> i < int (length xs) \<and> v = xs ! nat i"
  by (auto simp: arr_get_def)

lemma arr_get_Inl_iff:
  "arr_get xs i = Inl e \<longleftrightarrow> \<not> (0 \<le> i \<and> i < int (length xs)) \<and> e = OutOfBounds"
  by (auto simp: arr_get_def)

lemma arr_set_Inr_iff:
  "arr_set xs i v = Inr ys \<longleftrightarrow> 0 \<le> i \<and> i < int (length xs) \<and> ys = xs[nat i := v]"
  by (auto simp: arr_set_def)

lemma arr_set_Inl_iff:
  "arr_set xs i v = Inl e \<longleftrightarrow> \<not> (0 \<le> i \<and> i < int (length xs)) \<and> e = OutOfBounds"
  by (auto simp: arr_set_def)

lemmas arr_iffs = arr_get_Inr_iff arr_get_Inl_iff arr_set_Inr_iff arr_set_Inl_iff

lemma arr_get_ok [simp]: "0 \<le> i \<Longrightarrow> i < int (length xs) \<Longrightarrow> arr_get xs i = Inr (xs ! nat i)"
  by (simp add: arr_get_def)

lemma arr_set_ok [simp]:
  "0 \<le> i \<Longrightarrow> i < int (length xs) \<Longrightarrow> arr_set xs i v = Inr (xs[nat i := v])"
  by (simp add: arr_set_def)

section \<open>Invariants of programs\<close>

text \<open>
  \<open>keeps I F m\<close>: from a state with \<open>I\<close> the program \<open>m\<close> ends in a state with \<open>I\<close>, or in a
  fault allowed by \<open>F\<close>.  \<open>keepsR\<close> says in addition what the returned value satisfies.
\<close>

named_theorems keeps_intro

definition keepsR :: "('s \<Rightarrow> bool) \<Rightarrow> (fault \<Rightarrow> bool) \<Rightarrow> ('a \<Rightarrow> bool) \<Rightarrow> ('s, 'a) prog \<Rightarrow> bool" where
  "keepsR I F R m \<longleftrightarrow> (\<forall>s. I s \<longrightarrow> wpe m (\<lambda>a t. I t \<and> R a) F s)"

definition keeps :: "('s \<Rightarrow> bool) \<Rightarrow> (fault \<Rightarrow> bool) \<Rightarrow> ('s, 'a) prog \<Rightarrow> bool" where
  "keeps I F m \<longleftrightarrow> (\<forall>s. I s \<longrightarrow> wpe m (\<lambda>_. I) F s)"

lemma keepsI: "(\<And>s. I s \<Longrightarrow> wpe m (\<lambda>_. I) F s) \<Longrightarrow> keeps I F m"
  by (simp add: keeps_def)

lemma keepsD: "keeps I F m \<Longrightarrow> I s \<Longrightarrow> wpe m (\<lambda>_. I) F s"
  by (simp add: keeps_def)

lemma keepsRI: "(\<And>s. I s \<Longrightarrow> wpe m (\<lambda>a t. I t \<and> R a) F s) \<Longrightarrow> keepsR I F R m"
  by (simp add: keepsR_def)

lemma keepsRD: "keepsR I F R m \<Longrightarrow> I s \<Longrightarrow> wpe m (\<lambda>a t. I t \<and> R a) F s"
  by (simp add: keepsR_def)

lemma keeps_ret [keeps_intro]: "keeps I F (ret a)"
  by (simp add: keeps_def)

lemma keeps_err [keeps_intro]: "F f \<Longrightarrow> keeps I F (err f)"
  by (simp add: keeps_def)

lemma keeps_rd [keeps_intro]: "keeps I F (rd f)"
  by (simp add: keeps_def)

lemma keeps_bnd [keeps_intro]:
  "keeps I F m \<Longrightarrow> (\<And>a. keeps I F (f a)) \<Longrightarrow> keeps I F (bnd m f)"
  by (auto simp: keeps_def elim!: wpe_mono)

lemma keepsR_bnd:
  "keepsR I F R m \<Longrightarrow> (\<And>a. R a \<Longrightarrow> keeps I F (f a)) \<Longrightarrow> keeps I F (bnd m f)"
  by (auto simp: keeps_def keepsR_def elim!: wpe_mono)

lemma keeps_sq [keeps_intro]: "keeps I F m \<Longrightarrow> keeps I F n \<Longrightarrow> keeps I F (sq m n)"
  by (simp add: sq_def keeps_bnd)

lemma keeps_if [keeps_intro]:
  "(b \<Longrightarrow> keeps I F m) \<Longrightarrow> (\<not> b \<Longrightarrow> keeps I F n) \<Longrightarrow> keeps I F (if b then m else n)"
  by simp

lemma keeps_when_p [keeps_intro]: "(b \<Longrightarrow> keeps I F m) \<Longrightarrow> keeps I F (when_p b m)"
  by (simp add: when_p_def keeps_ret)

lemma keeps_assert_p [keeps_intro]: "F AssertFail \<Longrightarrow> keeps I F (assert_p b)"
  by (simp add: keeps_def)

lemma keeps_deref [keeps_intro]: "F f \<Longrightarrow> keeps I F (deref f p)"
  by (simp add: keeps_def)

lemma keeps_lift_r: "(\<And>e. r = Inl e \<Longrightarrow> F e) \<Longrightarrow> keeps I F (lift_r r)"
  by (simp add: keeps_def)

lemma keeps_upd: "(\<And>s. I s \<Longrightarrow> I (f s)) \<Longrightarrow> keeps I F (upd f)"
  by (simp add: keeps_def)

section \<open>Case distinctions\<close>

lemma keeps_case_option [keeps_intro]:
  "(x = None \<Longrightarrow> keeps I F m) \<Longrightarrow> (\<And>y. x = Some y \<Longrightarrow> keeps I F (f y)) \<Longrightarrow>
   keeps I F (case x of None \<Rightarrow> m | Some y \<Rightarrow> f y)"
  by (simp split: option.split)

lemma keeps_case_prod [keeps_intro]:
  "(\<And>a b. x = (a, b) \<Longrightarrow> keeps I F (f a b)) \<Longrightarrow> keeps I F (case x of (a, b) \<Rightarrow> f a b)"
  by (simp split: prod.split)

lemma keeps_let [keeps_intro]: "keeps I F (f x) \<Longrightarrow> keeps I F (let y = x in f y)"
  by simp

section \<open>Programs that only read\<close>

named_theorems readonly_intro

definition readonly :: "('s, 'a) prog \<Rightarrow> bool" where
  "readonly m \<longleftrightarrow> (\<forall>s a t. m s = Inr (a, t) \<longrightarrow> t = s)"

lemma readonlyD: "readonly m \<Longrightarrow> m s = Inr (a, t) \<Longrightarrow> t = s"
  by (auto simp: readonly_def)

lemma readonly_ret [readonly_intro]: "readonly (ret a)"
  by (simp add: readonly_def ret_def)

lemma readonly_err [readonly_intro]: "readonly (err f)"
  by (simp add: readonly_def err_def)

lemma readonly_rd [readonly_intro]: "readonly (rd f)"
  by (simp add: readonly_def rd_def)

lemma readonly_bnd [readonly_intro]:
  "readonly m \<Longrightarrow> (\<And>a. readonly (f a)) \<Longrightarrow> readonly (bnd m f)"
  by (fastforce simp: readonly_def bnd_def split: sum.splits)

lemma readonly_sq [readonly_intro]: "readonly m \<Longrightarrow> readonly n \<Longrightarrow> readonly (sq m n)"
  by (simp add: sq_def readonly_bnd)

lemma readonly_if [readonly_intro]:
  "(b \<Longrightarrow> readonly m) \<Longrightarrow> (\<not> b \<Longrightarrow> readonly n) \<Longrightarrow> readonly (if b then m else n)"
  by simp

lemma readonly_assert_p [readonly_intro]: "readonly (assert_p b)"
  by (simp add: assert_p_def readonly_ret readonly_err)

lemma readonly_deref [readonly_intro]: "readonly (deref f p)"
  by (simp add: deref_def readonly_ret readonly_err split: option.split)

lemma readonly_lift_r [readonly_intro]: "readonly (lift_r r)"
  by (simp add: lift_r_def readonly_ret readonly_err split: sum.split)

lemma readonly_case_option [readonly_intro]:
  "(x = None \<Longrightarrow> readonly m) \<Longrightarrow> (\<And>y. x = Some y \<Longrightarrow> readonly (f y)) \<Longrightarrow>
   readonly (case x of None \<Rightarrow> m | Some y \<Rightarrow> f y)"
  by (simp split: option.split)

lemma readonly_case_prod [readonly_intro]:
  "(\<And>a b. x = (a, b) \<Longrightarrow> readonly (f a b)) \<Longrightarrow> readonly (case x of (a, b) \<Rightarrow> f a b)"
  by (simp split: prod.split)

lemma readonly_let [readonly_intro]: "readonly (f x) \<Longrightarrow> readonly (let y = x in f y)"
  by simp

lemma readonly_keeps: "readonly m \<Longrightarrow> keeps I (\<lambda>_. True) m"
  by (auto simp: keeps_def wpe_def split: sum.split dest: readonlyD)

section \<open>What a program yields\<close>

text \<open>\<open>yields R m\<close>: every value \<open>m\<close> returns satisfies \<open>R\<close>, whatever the state.\<close>

named_theorems yields_intro

definition yields :: "('a \<Rightarrow> bool) \<Rightarrow> ('s, 'a) prog \<Rightarrow> bool" where
  "yields R m \<longleftrightarrow> (\<forall>s a t. m s = Inr (a, t) \<longrightarrow> R a)"

lemma yieldsD: "yields R m \<Longrightarrow> m s = Inr (a, t) \<Longrightarrow> R a"
  by (auto simp: yields_def)

lemma yields_ret [yields_intro]: "R a \<Longrightarrow> yields R (ret a)"
  by (simp add: yields_def ret_def)

lemma yields_err [yields_intro]: "yields R (err f)"
  by (simp add: yields_def err_def)

lemma yields_bnd [yields_intro]: "(\<And>a. yields R (f a)) \<Longrightarrow> yields R (bnd m f)"
  by (fastforce simp: yields_def bnd_def split: sum.splits)

lemma yields_bnd2: "yields R m \<Longrightarrow> (\<And>a. R a \<Longrightarrow> yields R' (f a)) \<Longrightarrow> yields R' (bnd m f)"
  by (fastforce simp: yields_def bnd_def split: sum.splits)

lemma yields_sq [yields_intro]: "yields R n \<Longrightarrow> yields R (sq m n)"
  by (simp add: sq_def yields_bnd)

lemma yields_if [yields_intro]:
  "(b \<Longrightarrow> yields R m) \<Longrightarrow> (\<not> b \<Longrightarrow> yields R n) \<Longrightarrow> yields R (if b then m else n)"
  by simp

section \<open>Partial correctness\<close>

text \<open>\<open>triple P m Q\<close>: when \<open>m\<close> returns from a state with \<open>P\<close>, value and state satisfy \<open>Q\<close>.\<close>

definition triple :: "('s \<Rightarrow> bool) \<Rightarrow> ('s, 'a) prog \<Rightarrow> ('a \<Rightarrow> 's \<Rightarrow> bool) \<Rightarrow> bool" where
  "triple P m Q \<longleftrightarrow> (\<forall>s. P s \<longrightarrow> wpe m Q (\<lambda>_. True) s)"

lemma tripleI: "(\<And>s a t. P s \<Longrightarrow> m s = Inr (a, t) \<Longrightarrow> Q a t) \<Longrightarrow> triple P m Q"
  by (auto simp: triple_def wpe_def split: sum.split)

lemma tripleD: "triple P m Q \<Longrightarrow> P s \<Longrightarrow> m s = Inr (a, t) \<Longrightarrow> Q a t"
  by (auto simp: triple_def wpe_def split: sum.splits)

lemma triple_weaken:
  "triple P m Q \<Longrightarrow> (\<And>s. P' s \<Longrightarrow> P s) \<Longrightarrow> (\<And>a s. Q a s \<Longrightarrow> Q' a s) \<Longrightarrow> triple P' m Q'"
  by (rule tripleI) (blast dest: tripleD)

lemma triple_bnd:
  "triple P m R \<Longrightarrow> (\<And>a. triple (R a) (f a) Q) \<Longrightarrow> triple P (bnd m f) Q"
  by (auto simp: triple_def elim!: wpe_mono)

lemma triple_keeps: "keeps I (\<lambda>_. True) m \<longleftrightarrow> triple I m (\<lambda>_. I)"
  by (simp add: keeps_def triple_def)

lemma triple_err: "triple P (err f) Q"
  by (simp add: triple_def)

lemma triple_keeps_bnd:
  "keeps I (\<lambda>_. True) m \<Longrightarrow> (\<And>a. triple I (f a) Q) \<Longrightarrow> triple I (bnd m f) Q"
  by (rule triple_bnd) (simp_all add: triple_keeps)

lemma triple_keeps_sq: "keeps I (\<lambda>_. True) m \<Longrightarrow> triple I n Q \<Longrightarrow> triple I (sq m n) Q"
  by (simp add: sq_def triple_keeps_bnd)

lemma triple_if:
  "(b \<Longrightarrow> triple P m Q) \<Longrightarrow> (\<not> b \<Longrightarrow> triple P n Q) \<Longrightarrow> triple P (if b then m else n) Q"
  by simp

section \<open>Fuel\<close>

text \<open>
  \<open>fuel_le m n\<close>: where \<open>m\<close> was not cut off, \<open>n\<close> does the same.  This is how a program with
  some fuel relates to the same program with more.
\<close>

named_theorems fuel_intro

definition fuel_le :: "('s, 'a) prog \<Rightarrow> ('s, 'a) prog \<Rightarrow> bool" where
  "fuel_le m n \<longleftrightarrow> (\<forall>s. m s = Inl OutOfFuel \<or> m s = n s)"

lemma fuel_leD: "fuel_le m n \<Longrightarrow> m s \<noteq> Inl OutOfFuel \<Longrightarrow> n s = m s"
  by (auto simp: fuel_le_def)

lemma fuel_le_refl [fuel_intro]: "fuel_le m m"
  by (simp add: fuel_le_def)

lemma fuel_le_out: "fuel_le (err OutOfFuel) m"
  by (simp add: fuel_le_def err_def)

lemma fuel_le_trans: "fuel_le m n \<Longrightarrow> fuel_le n k \<Longrightarrow> fuel_le m k"
  by (auto simp: fuel_le_def) metis

lemma fuel_le_bnd [fuel_intro]:
  "fuel_le m m' \<Longrightarrow> (\<And>a. fuel_le (f a) (f' a)) \<Longrightarrow> fuel_le (bnd m f) (bnd m' f')"
proof -
  assume m: "fuel_le m m'" and f: "\<And>a. fuel_le (f a) (f' a)"
  have "bnd m f s = Inl OutOfFuel \<or> bnd m f s = bnd m' f' s" for s
  proof (cases "m s = Inl OutOfFuel")
    case True
    then show ?thesis by (simp add: bnd_def)
  next
    case False
    with fuel_leD [OF m] have eq: "m' s = m s" by blast
    show ?thesis
      using f unfolding bnd_def eq fuel_le_def by (auto split: sum.split)
  qed
  then show "fuel_le (bnd m f) (bnd m' f')" by (simp add: fuel_le_def)
qed

lemma fuel_le_sq [fuel_intro]: "fuel_le m m' \<Longrightarrow> fuel_le n n' \<Longrightarrow> fuel_le (sq m n) (sq m' n')"
  by (simp add: sq_def fuel_le_bnd)

lemma fuel_le_if [fuel_intro]:
  "fuel_le m m' \<Longrightarrow> fuel_le n n' \<Longrightarrow> fuel_le (if b then m else n) (if b then m' else n')"
  by simp

lemma fuel_le_case_option [fuel_intro]:
  "fuel_le m m' \<Longrightarrow> (\<And>y. fuel_le (f y) (f' y)) \<Longrightarrow>
   fuel_le (case x of None \<Rightarrow> m | Some y \<Rightarrow> f y) (case x of None \<Rightarrow> m' | Some y \<Rightarrow> f' y)"
  by (simp split: option.split)

lemma fuel_le_case_prod [fuel_intro]:
  "(\<And>a b. fuel_le (f a b) (f' a b)) \<Longrightarrow>
   fuel_le (case x of (a, b) \<Rightarrow> f a b) (case x of (a, b) \<Rightarrow> f' a b)"
  by (simp split: prod.split)

text \<open>Programs that are never cut off.\<close>

named_theorems uncut_intro

definition uncut :: "('s, 'a) prog \<Rightarrow> bool" where
  "uncut m \<longleftrightarrow> (\<forall>s. m s \<noteq> Inl OutOfFuel)"

lemma uncut_basic [uncut_intro]:
  "uncut (ret a)" "uncut (rd f)" "uncut (upd g)" "uncut (assert_p b)"
  by (simp_all add: uncut_def run)

lemma uncut_err [uncut_intro]: "f \<noteq> OutOfFuel \<Longrightarrow> uncut (err f)"
  by (simp add: uncut_def err_def)

lemma uncut_deref [uncut_intro]: "f \<noteq> OutOfFuel \<Longrightarrow> uncut (deref f p)"
  by (simp add: uncut_def run split: option.split)

lemma uncut_lift_r [uncut_intro]: "r \<noteq> Inl OutOfFuel \<Longrightarrow> uncut (lift_r r)"
  by (auto simp: uncut_def run split: sum.split)

lemma uncut_arr [simp]: "arr_get xs i \<noteq> Inl OutOfFuel" "arr_set xs i x \<noteq> Inl OutOfFuel"
  by (simp_all add: arr_get_def arr_set_def)

lemma uncut_bnd [uncut_intro]: "uncut m \<Longrightarrow> (\<And>a. uncut (f a)) \<Longrightarrow> uncut (bnd m f)"
  by (auto simp: uncut_def bnd_def split: sum.split)

lemma uncut_sq [uncut_intro]: "uncut m \<Longrightarrow> uncut n \<Longrightarrow> uncut (sq m n)"
  by (simp add: sq_def uncut_bnd)

lemma uncut_if [uncut_intro]:
  "(b \<Longrightarrow> uncut m) \<Longrightarrow> (\<not> b \<Longrightarrow> uncut n) \<Longrightarrow> uncut (if b then m else n)"
  by simp

lemma uncut_when_p [uncut_intro]: "uncut m \<Longrightarrow> uncut (when_p b m)"
  by (simp add: when_p_def uncut_basic)

lemma uncut_case_option [uncut_intro]:
  "uncut m \<Longrightarrow> (\<And>y. uncut (f y)) \<Longrightarrow> uncut (case x of None \<Rightarrow> m | Some y \<Rightarrow> f y)"
  by (simp split: option.split)

lemma uncut_case_prod [uncut_intro]:
  "(\<And>a b. uncut (f a b)) \<Longrightarrow> uncut (case x of (a, b) \<Rightarrow> f a b)"
  by (simp split: prod.split)

lemma keeps_uncut: "keeps I (\<lambda>_. True) m \<Longrightarrow> uncut m \<Longrightarrow> keeps I (\<lambda>f. f \<noteq> OutOfFuel) m"
  by (auto simp: keeps_def uncut_def wpe_def split: sum.splits)

lemma keepsR_yields: "keeps I F m \<Longrightarrow> yields R m \<Longrightarrow> keepsR I F R m"
  by (auto simp: keeps_def keepsR_def yields_def wpe_def split: sum.splits)

section \<open>Sessions\<close>

text \<open>
  A client that calls operations one after the other: \<open>run c\<close> is the program of call \<open>c\<close>, \<open>ok c\<close>
  what the caller must guarantee of it.  A session ends where an operation faults.
\<close>

inductive reaches :: "('c \<Rightarrow> ('s, 'a) prog) \<Rightarrow> ('c \<Rightarrow> bool) \<Rightarrow> 's \<Rightarrow> 's \<Rightarrow> bool"
  for run ok where
  reaches_refl: "reaches run ok s s"
| reaches_step: "reaches run ok s t \<Longrightarrow> ok c \<Longrightarrow> run c t = Inr (a, u) \<Longrightarrow> reaches run ok s u"

locale session =
  fixes inv :: "'s \<Rightarrow> bool" and run :: "'c \<Rightarrow> ('s, 'a) prog" and ok :: "'c \<Rightarrow> bool"
  assumes run_keeps: "ok c \<Longrightarrow> keeps inv (\<lambda>_. True) (run c)"
begin

lemma reaches_inv: "reaches run ok s t \<Longrightarrow> inv s \<Longrightarrow> inv t"
  by (induction rule: reaches.induct) (auto dest: keepsD [OF run_keeps] wpe_Inr)

end

section \<open>Refinement\<close>

text \<open>
  The calls of a client run one after the other, the same calls on an abstract state, and what the
  caller must guarantee of each call in the state it is made in.
\<close>

fun run_all :: "('c \<Rightarrow> ('s, 'r) prog) \<Rightarrow> 'c list \<Rightarrow> ('s, 'r list) prog" where
  "run_all run [] = ret []"
| "run_all run (c # cs) = bnd (run c) (\<lambda>r. bnd (run_all run cs) (\<lambda>rs. ret (r # rs)))"

fun spec_all :: "('c \<Rightarrow> 'a \<Rightarrow> 'r \<times> 'a) \<Rightarrow> 'c list \<Rightarrow> 'a \<Rightarrow> 'r list \<times> 'a" where
  "spec_all spec [] a = ([], a)"
| "spec_all spec (c # cs) a =
     (case spec c a of (r, b) \<Rightarrow> case spec_all spec cs b of (rs, b') \<Rightarrow> (r # rs, b'))"

fun ok_all :: "('c \<Rightarrow> ('s, 'r) prog) \<Rightarrow> ('c \<Rightarrow> 's \<Rightarrow> bool) \<Rightarrow> 'c list \<Rightarrow> 's \<Rightarrow> bool" where
  "ok_all run ok [] s = True"
| "ok_all run ok (c # cs) s =
     (ok c s \<and> (case run c s of Inl f \<Rightarrow> True | Inr (r, t) \<Rightarrow> ok_all run ok cs t))"

text \<open>
  A client whose calls, made when they are allowed, all return and keep an invariant: so does every
  sequence of allowed calls.
\<close>

locale total_session =
  fixes inv :: "'s \<Rightarrow> bool" and run :: "'c \<Rightarrow> ('s, 'r) prog" and ok :: "'c \<Rightarrow> 's \<Rightarrow> bool"
  assumes total_step: "inv s \<Longrightarrow> ok c s \<Longrightarrow> \<exists>r t. run c s = Inr (r, t) \<and> inv t"
begin

lemma total_all:
  "inv s \<Longrightarrow> ok_all run ok cs s \<Longrightarrow> \<exists>rs t. run_all run cs s = Inr (rs, t) \<and> length rs = length cs \<and> inv t"
proof (induction cs arbitrary: s)
  case Nil
  then show ?case by (simp add: run_ret)
next
  case (Cons c cs)
  then obtain r t where rt: "run c s = Inr (r, t)" "inv t" using total_step by fastforce
  with Cons obtain rs u where "run_all run cs t = Inr (rs, u)" "length rs = length cs" "inv u" by fastforce
  with rt show ?case by (simp add: run_bnd run_ret)
qed

end

locale simulation =
  fixes inv :: "'s \<Rightarrow> bool" and abs :: "'s \<Rightarrow> 'a" and run :: "'c \<Rightarrow> ('s, 'r) prog"
    and spec :: "'c \<Rightarrow> 'a \<Rightarrow> 'r \<times> 'a" and ok :: "'c \<Rightarrow> 's \<Rightarrow> bool"
  assumes sim_step: "inv s \<Longrightarrow> ok c s \<Longrightarrow>
    \<exists>r t. run c s = Inr (r, t) \<and> inv t \<and> spec c (abs s) = (r, abs t)"
begin

lemma sim_all:
  "inv s \<Longrightarrow> ok_all run ok cs s \<Longrightarrow>
   \<exists>rs t. run_all run cs s = Inr (rs, t) \<and> inv t \<and> spec_all spec cs (abs s) = (rs, abs t)"
proof (induction cs arbitrary: s)
  case Nil
  then show ?case by (simp add: run_ret)
next
  case (Cons c cs)
  then obtain r t where rt: "run c s = Inr (r, t)" "inv t" "spec c (abs s) = (r, abs t)"
    using sim_step by fastforce
  with Cons obtain rs u where "run_all run cs t = Inr (rs, u)" "inv u"
    "spec_all spec cs (abs t) = (rs, abs u)" by fastforce
  with rt show ?case by (simp add: run_bnd run_ret)
qed

end

sublocale simulation < total: total_session inv run ok
  using sim_step by unfold_locales blast

text \<open>
  The same with a relation in the place of an abstraction function, where one concrete state may
  stand for several abstract ones; what the caller guarantees is said of the abstract state.
\<close>

fun pre_all :: "('c \<Rightarrow> 'a \<Rightarrow> 'r \<times> 'a) \<Rightarrow> ('c \<Rightarrow> 'a \<Rightarrow> bool) \<Rightarrow> 'c list \<Rightarrow> 'a \<Rightarrow> bool" where
  "pre_all spec pre [] a = True"
| "pre_all spec pre (c # cs) a = (pre c a \<and> pre_all spec pre cs (snd (spec c a)))"

locale rel_simulation =
  fixes rel :: "'s \<Rightarrow> 'a \<Rightarrow> bool" and run :: "'c \<Rightarrow> ('s, 'r) prog"
    and spec :: "'c \<Rightarrow> 'a \<Rightarrow> 'r \<times> 'a" and pre :: "'c \<Rightarrow> 'a \<Rightarrow> bool"
  assumes rel_step: "rel s a \<Longrightarrow> pre c a \<Longrightarrow>
    \<exists>t. run c s = Inr (fst (spec c a), t) \<and> rel t (snd (spec c a))"
begin

lemma rel_all:
  "rel s a \<Longrightarrow> pre_all spec pre cs a \<Longrightarrow>
   \<exists>t. run_all run cs s = Inr (fst (spec_all spec cs a), t) \<and> rel t (snd (spec_all spec cs a))"
proof (induction cs arbitrary: s a)
  case Nil
  then show ?case by (simp add: run_ret)
next
  case (Cons c cs)
  then obtain t where t: "run c s = Inr (fst (spec c a), t)" "rel t (snd (spec c a))"
    using rel_step by fastforce
  with Cons obtain u where "run_all run cs t = Inr (fst (spec_all spec cs (snd (spec c a))), u)"
    "rel u (snd (spec_all spec cs (snd (spec c a))))" by fastforce
  with t(1) show ?case by (cases "spec c a"; cases "spec_all spec cs (snd (spec c a))") (simp add: run_bnd run_ret)
qed

end

end
