(* ===== verification/Decoder.thy ===== *)
theory Decoder
  imports Prelude
begin

text \<open>
  The DVD virtual machine's instruction decoder, \<^verbatim>\<open>lib/libdvd/libdvdnav/src/vm/decoder.c\<close>
  and \<^verbatim>\<open>decoder.h\<close>: the registers, the extraction of bit fields from the 64-bit
  instruction, the evaluation of one instruction, and the loop that runs a command table.

  Every function that takes a \<^verbatim>\<open>command_t *\<close> is a program over the record \<open>command\<close>.  The
  pointer \<^verbatim>\<open>return_values\<close> is passed in and handed back as a value of type \<open>link\<close>.  Where C
  leaves the order of evaluation of arguments open, the model evaluates from left to right.
  The clock and the random source are oracles in the record \<open>os\<close>: the n-th call of
  \<^verbatim>\<open>gettimeofday\<close> returns \<open>tod n\<close>, the n-th call of \<^verbatim>\<open>rand\<close> returns \<open>rnd n\<close>.
\<close>

section \<open>Data\<close>

text \<open>
  The link commands.  The C enumeration leaves the codes 4, 8, 14 and 15 unnamed, but
  \<^verbatim>\<open>eval_link_subins\<close> stores any code up to 16 in the field: such a value is \<open>LinkReserved\<close>.
\<close>

datatype link_cmd =
    LinkNoLink
  | LinkTopC | LinkNextC | LinkPrevC
  | LinkTopPG | LinkNextPG | LinkPrevPG
  | LinkTopPGC | LinkNextPGC | LinkPrevPGC | LinkGoUpPGC | LinkTailPGC
  | LinkRSM
  | LinkPGCN | LinkPTTN | LinkPGN | LinkCN
  | Exit
  | JumpTT | JumpVTS_TT | JumpVTS_PTT
  | JumpSS_FP | JumpSS_VMGM_MENU | JumpSS_VTSM | JumpSS_VMGM_PGC
  | CallSS_FP | CallSS_VMGM_MENU | CallSS_VTSM | CallSS_VMGM_PGC
  | PlayThis
  | LinkReserved u8

record link =
  link_command :: link_cmd
  data1 :: u16
  data2 :: u16
  data3 :: u16

definition link_zero :: link where
  "link_zero = \<lparr>link_command = LinkNoLink, data1 = 0, data2 = 0, data3 = 0\<rparr>"

record timeval =
  tv_sec :: int
  tv_usec :: int

record registers =
  SPRM :: "u16 list"
  GPRM :: "u16 list"
  GPRM_mode :: "u8 list"
  GPRM_time :: "timeval list"

record os =
  tod :: "nat \<Rightarrow> timeval"
  tod_n :: nat
  rnd :: "nat \<Rightarrow> nat"
  rnd_n :: nat

text \<open>What a command table runs on, and the decoder's view of one instruction.\<close>

record machine =
  regs :: registers
  env :: os

record command = machine +
  instruction :: u64
  examined :: u64

text \<open>An instruction as it stands on the disc (\<^verbatim>\<open>vm_cmd_t\<close>): eight bytes.\<close>

datatype vm_cmd = VmCmd u8 u8 u8 u8 u8 u8 u8 u8

section \<open>Library calls\<close>

definition gettimeofday :: "('r machine_scheme, timeval) prog" where
  "gettimeofday =
     bnd (rd (\<lambda>c. tod (env c) (tod_n (env c)))) (\<lambda>t.
     sq (upd (\<lambda>c. c\<lparr>env := (env c)\<lparr>tod_n := Suc (tod_n (env c))\<rparr>\<rparr>)) (ret t))"

definition rand :: "('r machine_scheme, nat) prog" where
  "rand =
     bnd (rd (\<lambda>c. rnd (env c) (rnd_n (env c)))) (\<lambda>r.
     sq (upd (\<lambda>c. c\<lparr>env := (env c)\<lparr>rnd_n := Suc (rnd_n (env c))\<rparr>\<rparr>)) (ret r))"

text \<open>\<^verbatim>\<open>RAND_MAX\<close> of glibc, and rounding to the 24-bit significand of \<^verbatim>\<open>float\<close>.\<close>

definition RAND_MAX :: nat where
  "RAND_MAX = 2147483647"

fun nbits :: "nat \<Rightarrow> nat" where
  "nbits n = (if n = 0 then 0 else Suc (nbits (n div 2)))"

declare nbits.simps [simp del]

definition float_round :: "nat \<Rightarrow> nat" where
  "float_round n =
     (let e = nbits n - 24; q = n div 2 ^ e; r = n mod 2 ^ e
      in if 2 * r < 2 ^ e \<or> e = 0 then q * 2 ^ e
         else if 2 ^ e < 2 * r then (q + 1) * 2 ^ e
         else (if even q then q else q + 1) * 2 ^ e)"

section \<open>Register access\<close>

definition get_SPRM :: "int \<Rightarrow> ('r machine_scheme, u16) prog" where
  "get_SPRM i = bnd (rd (\<lambda>c. SPRM (regs c))) (\<lambda>xs. lift_r (arr_get xs i))"

definition put_SPRM :: "int \<Rightarrow> u16 \<Rightarrow> ('r machine_scheme, unit) prog" where
  "put_SPRM i v =
     bnd (rd (\<lambda>c. SPRM (regs c))) (\<lambda>xs.
     bnd (lift_r (arr_set xs i v)) (\<lambda>ys.
     upd (\<lambda>c. c\<lparr>regs := (regs c)\<lparr>SPRM := ys\<rparr>\<rparr>)))"

definition load_GPRM :: "int \<Rightarrow> ('r machine_scheme, u16) prog" where
  "load_GPRM i = bnd (rd (\<lambda>c. GPRM (regs c))) (\<lambda>xs. lift_r (arr_get xs i))"

definition put_GPRM :: "int \<Rightarrow> u16 \<Rightarrow> ('r machine_scheme, unit) prog" where
  "put_GPRM i v =
     bnd (rd (\<lambda>c. GPRM (regs c))) (\<lambda>xs.
     bnd (lift_r (arr_set xs i v)) (\<lambda>ys.
     upd (\<lambda>c. c\<lparr>regs := (regs c)\<lparr>GPRM := ys\<rparr>\<rparr>)))"

definition get_mode :: "int \<Rightarrow> ('r machine_scheme, u8) prog" where
  "get_mode i = bnd (rd (\<lambda>c. GPRM_mode (regs c))) (\<lambda>xs. lift_r (arr_get xs i))"

definition put_mode :: "int \<Rightarrow> u8 \<Rightarrow> ('r machine_scheme, unit) prog" where
  "put_mode i v =
     bnd (rd (\<lambda>c. GPRM_mode (regs c))) (\<lambda>xs.
     bnd (lift_r (arr_set xs i v)) (\<lambda>ys.
     upd (\<lambda>c. c\<lparr>regs := (regs c)\<lparr>GPRM_mode := ys\<rparr>\<rparr>)))"

definition get_time :: "int \<Rightarrow> ('r machine_scheme, timeval) prog" where
  "get_time i = bnd (rd (\<lambda>c. GPRM_time (regs c))) (\<lambda>xs. lift_r (arr_get xs i))"

definition put_time :: "int \<Rightarrow> timeval \<Rightarrow> ('r machine_scheme, unit) prog" where
  "put_time i v =
     bnd (rd (\<lambda>c. GPRM_time (regs c))) (\<lambda>xs.
     bnd (lift_r (arr_set xs i v)) (\<lambda>ys.
     upd (\<lambda>c. c\<lparr>regs := (regs c)\<lparr>GPRM_time := ys\<rparr>\<rparr>)))"

definition get_GPRM :: "u8 \<Rightarrow> ('r machine_scheme, u16) prog" where
  "get_GPRM reg =
     bnd (get_mode (uint reg)) (\<lambda>mode.
     if mode AND 1 \<noteq> 0 then
       bnd gettimeofday (\<lambda>current_time.
       bnd (get_time (uint reg)) (\<lambda>t.
       let offset = \<lparr>tv_sec = tv_sec current_time - tv_sec t,
                     tv_usec = tv_usec current_time - tv_usec t\<rparr>;
           time_offset =
             (if tv_usec offset < 0
              then \<lparr>tv_sec = tv_sec offset - 1, tv_usec = tv_usec offset + 1000000\<rparr>
              else offset);
           result = (word_of_int (tv_sec time_offset) :: u16)
       in sq (put_GPRM (uint reg) result) (ret result)))
     else load_GPRM (uint reg))"

definition set_GPRM :: "u8 \<Rightarrow> u16 \<Rightarrow> ('r machine_scheme, unit) prog" where
  "set_GPRM reg value =
     sq (bnd (get_mode (uint reg)) (\<lambda>mode.
         when_p (mode AND 1 \<noteq> 0)
           (bnd gettimeofday (\<lambda>current_time.
            put_time (uint reg) (current_time\<lparr>tv_sec := tv_sec current_time - uint value\<rparr>)))))
       (put_GPRM (uint reg) value)"

section \<open>Fields of the instruction\<close>

definition vm_getbits :: "int \<Rightarrow> int \<Rightarrow> (command, u32) prog" where
  "vm_getbits start count =
     (if count = 0 then ret 0
      else if start - count < -1 \<or> count > 32 \<or> start > 63 \<or> count < 0 \<or> start < 0
      then err AbortCall
      else
        let bit_mask = drop_bit (nat (63 - start)) (- 1 :: u64);
            bits = nat (start + 1 - count);
            examining = push_bit bits (drop_bit bits bit_mask)
        in sq (upd (\<lambda>c. c\<lparr>examined := examined c OR examining\<rparr>))
             (rd (\<lambda>c. ucast (drop_bit bits (instruction c AND bit_mask)))))"

definition eval_reg :: "u8 \<Rightarrow> (command, u16) prog" where
  "eval_reg reg =
     (if reg AND 0x80 \<noteq> 0 then get_SPRM (uint (reg AND 0x1f))
      else get_GPRM (reg AND 0x0f))"

definition eval_reg_or_data :: "u32 \<Rightarrow> int \<Rightarrow> (command, u16) prog" where
  "eval_reg_or_data imm start =
     (if imm \<noteq> 0 then bnd (vm_getbits start 16) (\<lambda>b. ret (ucast b))
      else bnd (vm_getbits (start - 8) 8) (\<lambda>b. eval_reg (ucast b)))"

definition eval_reg_or_data_2 :: "u32 \<Rightarrow> int \<Rightarrow> (command, u16) prog" where
  "eval_reg_or_data_2 imm start =
     (if imm \<noteq> 0 then bnd (vm_getbits (start - 1) 7) (\<lambda>b. ret (ucast b))
      else bnd (vm_getbits (start - 4) 4) (\<lambda>b. get_GPRM (ucast b)))"

section \<open>Conditions\<close>

definition eval_compare :: "u8 \<Rightarrow> u16 \<Rightarrow> u16 \<Rightarrow> int" where
  "eval_compare operation d1 d2 =
     (if operation = 1 then uint (d1 AND d2)
      else if operation = 2 then of_bool (d1 = d2)
      else if operation = 3 then of_bool (d1 \<noteq> d2)
      else if operation = 4 then of_bool (d1 \<ge> d2)
      else if operation = 5 then of_bool (d1 > d2)
      else if operation = 6 then of_bool (d1 \<le> d2)
      else if operation = 7 then of_bool (d1 < d2)
      else 0)"

definition eval_if_version_1 :: "(command, int) prog" where
  "eval_if_version_1 =
     bnd (vm_getbits 54 3) (\<lambda>op.
     if op \<noteq> 0 then
       bnd (vm_getbits 39 8) (\<lambda>r.
       bnd (eval_reg (ucast r)) (\<lambda>a.
       bnd (vm_getbits 55 1) (\<lambda>imm.
       bnd (eval_reg_or_data imm 31) (\<lambda>b.
       ret (eval_compare (ucast op) a b)))))
     else ret 1)"

definition eval_if_version_2 :: "(command, int) prog" where
  "eval_if_version_2 =
     bnd (vm_getbits 54 3) (\<lambda>op.
     if op \<noteq> 0 then
       bnd (vm_getbits 15 8) (\<lambda>r.
       bnd (eval_reg (ucast r)) (\<lambda>a.
       bnd (vm_getbits 7 8) (\<lambda>r2.
       bnd (eval_reg (ucast r2)) (\<lambda>b.
       ret (eval_compare (ucast op) a b)))))
     else ret 1)"

definition eval_if_version_3 :: "(command, int) prog" where
  "eval_if_version_3 =
     bnd (vm_getbits 54 3) (\<lambda>op.
     if op \<noteq> 0 then
       bnd (vm_getbits 47 8) (\<lambda>r.
       bnd (eval_reg (ucast r)) (\<lambda>a.
       bnd (vm_getbits 55 1) (\<lambda>imm.
       bnd (eval_reg_or_data imm 15) (\<lambda>b.
       ret (eval_compare (ucast op) a b)))))
     else ret 1)"

definition eval_if_version_4 :: "(command, int) prog" where
  "eval_if_version_4 =
     bnd (vm_getbits 54 3) (\<lambda>op.
     if op \<noteq> 0 then
       bnd (vm_getbits 51 4) (\<lambda>r.
       bnd (eval_reg (ucast r)) (\<lambda>a.
       bnd (vm_getbits 55 1) (\<lambda>imm.
       bnd (eval_reg_or_data imm 31) (\<lambda>b.
       ret (eval_compare (ucast op) a b)))))
     else ret 1)"

section \<open>Special, link and jump instructions\<close>

definition eval_special_instruction :: "int \<Rightarrow> (command, int) prog" where
  "eval_special_instruction cond =
     bnd (vm_getbits 51 4) (\<lambda>op.
     if op = 0 then ret 0
     else if op = 1 then
       bnd (vm_getbits 7 8) (\<lambda>line. ret (if cond \<noteq> 0 then uint line else 0))
     else if op = 2 then ret (if cond \<noteq> 0 then 256 else 0)
     else if op = 3 then
       bnd (vm_getbits 7 8) (\<lambda>line.
       bnd (vm_getbits 11 4) (\<lambda>level.
       sq (when_p (cond \<noteq> 0) (put_SPRM 13 (ucast level)))
          (ret (if cond \<noteq> 0 then uint line else 0))))
     else ret 0)"

text \<open>The value of the enumeration a sub-instruction code is stored as.\<close>

definition link_cmd_of :: "u8 \<Rightarrow> link_cmd" where
  "link_cmd_of c =
     (if c = 0 then LinkNoLink
      else if c = 1 then LinkTopC else if c = 2 then LinkNextC else if c = 3 then LinkPrevC
      else if c = 5 then LinkTopPG else if c = 6 then LinkNextPG else if c = 7 then LinkPrevPG
      else if c = 9 then LinkTopPGC else if c = 10 then LinkNextPGC
      else if c = 11 then LinkPrevPGC else if c = 12 then LinkGoUpPGC
      else if c = 13 then LinkTailPGC
      else if c = 16 then LinkRSM
      else LinkReserved c)"

definition eval_link_subins :: "int \<Rightarrow> link \<Rightarrow> (command, int \<times> link) prog" where
  "eval_link_subins cond rv =
     bnd (vm_getbits 15 6) (\<lambda>button.
     bnd (vm_getbits 4 5) (\<lambda>linkop.
     if (ucast linkop :: u8) > 0x10 then ret (0, rv)
     else ret (cond, rv\<lparr>link_command := link_cmd_of (ucast linkop), data1 := ucast button\<rparr>)))"

definition eval_link_instruction :: "int \<Rightarrow> link \<Rightarrow> (command, int \<times> link) prog" where
  "eval_link_instruction cond rv =
     bnd (vm_getbits 51 4) (\<lambda>op.
     if op = 1 then eval_link_subins cond rv
     else if op = 4 then
       bnd (vm_getbits 14 15) (\<lambda>a.
       ret (cond, rv\<lparr>link_command := LinkPGCN, data1 := ucast a\<rparr>))
     else if op = 5 then
       bnd (vm_getbits 9 10) (\<lambda>a.
       bnd (vm_getbits 15 6) (\<lambda>b.
       ret (cond, rv\<lparr>link_command := LinkPTTN, data1 := ucast a, data2 := ucast b\<rparr>)))
     else if op = 6 then
       bnd (vm_getbits 6 7) (\<lambda>a.
       bnd (vm_getbits 15 6) (\<lambda>b.
       ret (cond, rv\<lparr>link_command := LinkPGN, data1 := ucast a, data2 := ucast b\<rparr>)))
     else if op = 7 then
       bnd (vm_getbits 7 8) (\<lambda>a.
       bnd (vm_getbits 15 6) (\<lambda>b.
       ret (cond, rv\<lparr>link_command := LinkCN, data1 := ucast a, data2 := ucast b\<rparr>)))
     else ret (0, rv))"

definition eval_jump_instruction :: "int \<Rightarrow> link \<Rightarrow> (command, int \<times> link) prog" where
  "eval_jump_instruction cond rv =
     bnd (vm_getbits 51 4) (\<lambda>op.
     if op = 1 then ret (cond, rv\<lparr>link_command := Exit\<rparr>)
     else if op = 2 then
       bnd (vm_getbits 22 7) (\<lambda>a.
       ret (cond, rv\<lparr>link_command := JumpTT, data1 := ucast a\<rparr>))
     else if op = 3 then
       bnd (vm_getbits 22 7) (\<lambda>a.
       ret (cond, rv\<lparr>link_command := JumpVTS_TT, data1 := ucast a\<rparr>))
     else if op = 5 then
       bnd (vm_getbits 22 7) (\<lambda>a.
       bnd (vm_getbits 41 10) (\<lambda>b.
       ret (cond, rv\<lparr>link_command := JumpVTS_PTT, data1 := ucast a, data2 := ucast b\<rparr>)))
     else if op = 6 then
       bnd (vm_getbits 23 2) (\<lambda>k.
       if k = 0 then ret (cond, rv\<lparr>link_command := JumpSS_FP\<rparr>)
       else if k = 1 then
         bnd (vm_getbits 19 4) (\<lambda>a.
         ret (cond, rv\<lparr>link_command := JumpSS_VMGM_MENU, data1 := ucast a\<rparr>))
       else if k = 2 then
         bnd (vm_getbits 31 8) (\<lambda>a.
         bnd (vm_getbits 39 8) (\<lambda>b.
         bnd (vm_getbits 19 4) (\<lambda>c.
         ret (cond, rv\<lparr>link_command := JumpSS_VTSM,
                       data1 := ucast a, data2 := ucast b, data3 := ucast c\<rparr>))))
       else if k = 3 then
         bnd (vm_getbits 46 15) (\<lambda>a.
         ret (cond, rv\<lparr>link_command := JumpSS_VMGM_PGC, data1 := ucast a\<rparr>))
       else ret (0, rv))
     else if op = 8 then
       bnd (vm_getbits 23 2) (\<lambda>k.
       if k = 0 then
         bnd (vm_getbits 31 8) (\<lambda>a.
         ret (cond, rv\<lparr>link_command := CallSS_FP, data1 := ucast a\<rparr>))
       else if k = 1 then
         bnd (vm_getbits 19 4) (\<lambda>a.
         bnd (vm_getbits 31 8) (\<lambda>b.
         ret (cond, rv\<lparr>link_command := CallSS_VMGM_MENU, data1 := ucast a, data2 := ucast b\<rparr>)))
       else if k = 2 then
         bnd (vm_getbits 19 4) (\<lambda>a.
         bnd (vm_getbits 31 8) (\<lambda>b.
         ret (cond, rv\<lparr>link_command := CallSS_VTSM, data1 := ucast a, data2 := ucast b\<rparr>)))
       else if k = 3 then
         bnd (vm_getbits 46 15) (\<lambda>a.
         bnd (vm_getbits 31 8) (\<lambda>b.
         ret (cond, rv\<lparr>link_command := CallSS_VMGM_PGC, data1 := ucast a, data2 := ucast b\<rparr>)))
       else ret (0, rv))
     else ret (0, rv))"

section \<open>Set instructions\<close>

text \<open>One round of the loop over the stream registers 1, 2 and 3.\<close>

definition eval_system_set_stream :: "int \<Rightarrow> int \<Rightarrow> (command, unit) prog" where
  "eval_system_set_stream cond i =
     bnd (vm_getbits (63 - (2 + i) * 8) 1) (\<lambda>set.
     if set \<noteq> 0 then
       bnd (vm_getbits 60 1) (\<lambda>imm.
       bnd (eval_reg_or_data_2 imm (47 - i * 8)) (\<lambda>data.
       when_p (cond \<noteq> 0) (put_SPRM i data)))
     else ret ())"

definition eval_system_set_mode :: "int \<Rightarrow> (command, unit) prog" where
  "eval_system_set_mode cond =
     bnd (vm_getbits 60 1) (\<lambda>imm.
     bnd (eval_reg_or_data imm 47) (\<lambda>data.
     bnd (vm_getbits 19 4) (\<lambda>data2.
     bnd (vm_getbits 23 1) (\<lambda>counter.
     bnd (get_mode (uint data2)) (\<lambda>mode.
     sq (put_mode (uint data2) (if counter \<noteq> 0 then mode OR 1 else mode AND NOT 1))
        (when_p (cond \<noteq> 0) (set_GPRM (ucast data2) data)))))))"

definition eval_system_set :: "int \<Rightarrow> link \<Rightarrow> (command, int \<times> link) prog" where
  "eval_system_set cond rv =
     bnd (vm_getbits 59 4) (\<lambda>op.
     sq (if op = 1 then
           sq (eval_system_set_stream cond 1)
             (sq (eval_system_set_stream cond 2) (eval_system_set_stream cond 3))
         else if op = 2 then
           bnd (vm_getbits 60 1) (\<lambda>imm.
           bnd (eval_reg_or_data imm 47) (\<lambda>data.
           bnd (vm_getbits 23 8) (\<lambda>data2.
           when_p (cond \<noteq> 0) (sq (put_SPRM 9 data) (put_SPRM 10 (ucast data2))))))
         else if op = 3 then eval_system_set_mode cond
         else if op = 6 then
           bnd (vm_getbits 60 1) (\<lambda>imm.
           bnd (eval_reg_or_data imm 31) (\<lambda>data.
           when_p (cond \<noteq> 0) (put_SPRM 8 data)))
         else ret ())
        (bnd (vm_getbits 51 4) (\<lambda>l.
         if l \<noteq> 0 then eval_link_instruction cond rv else ret (0, rv))))"

text \<open>
  \<^verbatim>\<open>eval_set_op\<close>.  The arithmetic is done in \<^verbatim>\<open>int32_t\<close>; a product beyond its range is a
  signed overflow, which C leaves undefined.
\<close>

definition eval_rnd :: "u16 \<Rightarrow> nat \<Rightarrow> u16" where
  "eval_rnd data r =
     word_of_nat (1 + unat (word_of_nat
       (float_round (unat data * float_round r) div (RAND_MAX + 1)) :: u16))"

definition eval_set_op :: "u8 \<Rightarrow> u8 \<Rightarrow> u8 \<Rightarrow> u16 \<Rightarrow> (command, unit) prog" where
  "eval_set_op op reg reg2 data =
     (if op = 1 then set_GPRM reg data
      else if op = 2 then
        sq (bnd (get_GPRM reg) (\<lambda>v. set_GPRM reg2 v)) (set_GPRM reg data)
      else if op = 3 then
        bnd (get_GPRM reg) (\<lambda>v.
        let tmp = uint v + uint data
        in set_GPRM reg (word_of_int (if tmp > 0xffff then 0xffff else tmp)))
      else if op = 4 then
        bnd (get_GPRM reg) (\<lambda>v.
        let tmp = uint v - uint data
        in set_GPRM reg (word_of_int (if tmp < 0 then 0 else tmp)))
      else if op = 5 then
        bnd (get_GPRM reg) (\<lambda>v.
        let tmp = uint v * uint data
        in if tmp > 0x7fffffff then err SignedOverflow
           else set_GPRM reg (word_of_int (if tmp > 0xffff then 0xffff else tmp)))
      else if op = 6 then
        (if data \<noteq> 0 then bnd (get_GPRM reg) (\<lambda>v. set_GPRM reg (v div data))
         else set_GPRM reg 0xffff)
      else if op = 7 then
        (if data \<noteq> 0 then bnd (get_GPRM reg) (\<lambda>v. set_GPRM reg (v mod data))
         else set_GPRM reg 0xffff)
      else if op = 8 then bnd rand (\<lambda>r. set_GPRM reg (eval_rnd data r))
      else if op = 9 then bnd (get_GPRM reg) (\<lambda>v. set_GPRM reg (v AND data))
      else if op = 10 then bnd (get_GPRM reg) (\<lambda>v. set_GPRM reg (v OR data))
      else if op = 11 then bnd (get_GPRM reg) (\<lambda>v. set_GPRM reg (v XOR data))
      else ret ())"

definition eval_set_version_1 :: "int \<Rightarrow> (command, unit) prog" where
  "eval_set_version_1 cond =
     bnd (vm_getbits 59 4) (\<lambda>op.
     bnd (vm_getbits 35 4) (\<lambda>reg.
     bnd (vm_getbits 19 4) (\<lambda>reg2.
     bnd (vm_getbits 60 1) (\<lambda>imm.
     bnd (eval_reg_or_data imm 31) (\<lambda>data.
     when_p (cond \<noteq> 0) (eval_set_op (ucast op) (ucast reg) (ucast reg2) data))))))"

definition eval_set_version_2 :: "int \<Rightarrow> (command, unit) prog" where
  "eval_set_version_2 cond =
     bnd (vm_getbits 59 4) (\<lambda>op.
     bnd (vm_getbits 51 4) (\<lambda>reg.
     bnd (vm_getbits 35 4) (\<lambda>reg2.
     bnd (vm_getbits 60 1) (\<lambda>imm.
     bnd (eval_reg_or_data imm 47) (\<lambda>data.
     when_p (cond \<noteq> 0) (eval_set_op (ucast op) (ucast reg) (ucast reg2) data))))))"

section \<open>One instruction, and a table of them\<close>

fun instruction_of :: "vm_cmd \<Rightarrow> u64" where
  "instruction_of (VmCmd b0 b1 b2 b3 b4 b5 b6 b7) =
     push_bit 56 (ucast b0) OR push_bit 48 (ucast b1) OR push_bit 40 (ucast b2) OR
     push_bit 32 (ucast b3) OR push_bit 24 (ucast b4) OR push_bit 16 (ucast b5) OR
     push_bit 8 (ucast b6) OR ucast b7"

text \<open>\<^verbatim>\<open>if(res) res = -1;\<close>\<close>

definition link_res :: "int \<times> link \<Rightarrow> int \<times> link" where
  "link_res r = (if fst r \<noteq> 0 then (-1, snd r) else r)"

definition eval_command_switch :: "u32 \<Rightarrow> link \<Rightarrow> (command, int \<times> link) prog" where
  "eval_command_switch op rv =
     (if op = 0 then
       bnd eval_if_version_1 (\<lambda>cond.
       bnd (eval_special_instruction cond) (\<lambda>res.
       if res = -1 then err AbortCall else ret (res, rv)))
     else if op = 1 then
       bnd (vm_getbits 60 1) (\<lambda>jump.
       if jump \<noteq> 0 then
         bnd eval_if_version_2 (\<lambda>cond.
         bnd (eval_jump_instruction cond rv) (\<lambda>res. ret (link_res res)))
       else
         bnd eval_if_version_1 (\<lambda>cond.
         bnd (eval_link_instruction cond rv) (\<lambda>res. ret (link_res res))))
     else if op = 2 then
       bnd eval_if_version_2 (\<lambda>cond.
       bnd (eval_system_set cond rv) (\<lambda>res. ret (link_res res)))
     else if op = 3 then
       bnd eval_if_version_3 (\<lambda>cond.
       sq (eval_set_version_1 cond)
         (bnd (vm_getbits 51 4) (\<lambda>l.
          bnd (if l \<noteq> 0 then eval_link_instruction cond rv else ret (0, rv)) (\<lambda>res.
          ret (link_res res)))))
     else if op = 4 then
       sq (eval_set_version_2 1)
         (bnd eval_if_version_4 (\<lambda>cond.
          bnd (eval_link_subins cond rv) (\<lambda>res. ret (link_res res))))
     else if op = 5 then
       bnd eval_if_version_4 (\<lambda>cond.
       sq (eval_set_version_2 cond)
         (bnd (eval_link_subins cond rv) (\<lambda>res. ret (link_res res))))
     else if op = 6 then
       bnd eval_if_version_4 (\<lambda>cond.
       sq (eval_set_version_2 cond)
         (bnd (eval_link_subins 1 rv) (\<lambda>res. ret (link_res res))))
     else err AbortCall)"

definition eval_command_body :: "link \<Rightarrow> (command, int \<times> link) prog" where
  "eval_command_body rv = bnd (vm_getbits 63 3) (\<lambda>op. eval_command_switch op rv)"

text \<open>
  \<^verbatim>\<open>eval_command\<close>: the decoder record is built on the machine, the body runs, and the machine
  is what remains.  (The warning about unexamined bits is output only.)
\<close>

definition eval_command :: "vm_cmd \<Rightarrow> (machine, int \<times> link) prog" where
  "eval_command cmd =
     (\<lambda>m. case eval_command_body link_zero
              (machine.extend m (command.fields (instruction_of cmd) 0)) of
         Inl f \<Rightarrow> Inl f
       | Inr (r, c) \<Rightarrow> Inr (r, machine.truncate c))"

text \<open>
  \<^verbatim>\<open>vmEval_CMD\<close>: at most 100000 instructions are executed, a link ends the run, a goto sets the
  (one-based) next row.
\<close>

function vmEval_loop :: "vm_cmd list \<Rightarrow> int \<Rightarrow> nat \<Rightarrow> (machine, bool \<times> link) prog" where
  "vmEval_loop commands i done_n =
     (if i < int (length commands) \<and> done_n < 100000 then
        bnd (lift_r (arr_get commands i)) (\<lambda>cmd.
        bnd (eval_command cmd) (\<lambda>(line, rv).
        if line < 0 then ret (True, rv)
        else vmEval_loop commands (if line > 0 then line - 1 else i + 1) (Suc done_n)))
      else ret (False, link_zero))"
  by pat_completeness auto
termination
  by (relation "measure (\<lambda>(commands, i, done_n). 100000 - done_n)") auto

declare vmEval_loop.simps [simp del]

definition vmEval_CMD :: "vm_cmd list \<Rightarrow> (machine, bool \<times> link) prog" where
  "vmEval_CMD commands = vmEval_loop commands 0 0"

end
