(* ===== verification/Decoder_Lemmas.thy ===== *)
theory Decoder_Lemmas
  imports Decoder
begin

text \<open>
  The lemma library of the decoder: what a well-formed register set is, the bit fields
  \<^verbatim>\<open>vm_getbits\<close> reads, and that every instruction and every table keeps the register set
  well formed and meets no fault but those of \<open>decoder_fault\<close>.
\<close>

section \<open>Well-formed register sets\<close>

definition wf_registers :: "registers \<Rightarrow> bool" where
  "wf_registers r \<longleftrightarrow> length (SPRM r) = 24 \<and> length (GPRM r) = 16 \<and>
     length (GPRM_mode r) = 16 \<and> length (GPRM_time r) = 16"

abbreviation wf_machine :: "'r machine_scheme \<Rightarrow> bool" where
  "wf_machine m \<equiv> wf_registers (regs m)"

text \<open>The faults a wellformed machine can meet in an instruction.\<close>

definition decoder_fault :: "fault \<Rightarrow> bool" where
  "decoder_fault f \<longleftrightarrow> f = OutOfBounds \<or> f = SignedOverflow"

section \<open>Bit fields\<close>

text \<open>The field of \<open>count\<close> bits whose highest bit is \<open>start\<close>.\<close>

definition bit_field :: "u64 \<Rightarrow> nat \<Rightarrow> nat \<Rightarrow> u64" where
  "bit_field w start count = take_bit count (drop_bit (start + 1 - count) w)"

definition getbits_ok :: "int \<Rightarrow> int \<Rightarrow> bool" where
  "getbits_ok start count \<longleftrightarrow> 0 < count \<and> count \<le> 32 \<and> start \<le> 63 \<and> count \<le> start + 1"

lemma vm_getbits_mask:
  assumes "n \<le> s + 1" and "s \<le> 63"
  shows "drop_bit (s + 1 - n) (w AND drop_bit (63 - s) (- 1 :: u64)) = bit_field w s n"
proof (rule bit_eqI)
  fix k assume "possible_bit TYPE(u64) k"
  then have k: "k < 64" by simp
  show "bit (drop_bit (s + 1 - n) (w AND drop_bit (63 - s) (- 1 :: u64))) k =
        bit (bit_field w s n) k"
    using assms k
    by (auto simp: bit_field_def bit_simps dest: bit_imp_le_length)
qed

lemma wpe_vm_getbits [wp, simp]:
  assumes "getbits_ok start count"
  shows "wpe (vm_getbits start count) Q E c =
    Q (ucast (bit_field (instruction c) (nat start) (nat count)))
      (c\<lparr>examined := examined c OR
           push_bit (nat (start + 1 - count))
             (drop_bit (nat (start + 1 - count)) (drop_bit (nat (63 - start)) (- 1)))\<rparr>)"
proof -
  have n: "nat (63 - start) = 63 - nat start"
    "nat (start + 1 - count) = nat start + 1 - nat count"
    using assms by (auto simp: getbits_ok_def)
  have "nat count \<le> nat start + 1" "nat start \<le> 63"
    using assms by (auto simp: getbits_ok_def)
  note m = vm_getbits_mask [OF this]
  show ?thesis
    using assms m unfolding vm_getbits_def Let_def n
    by (simp add: getbits_ok_def)
qed

lemma bit_field_less: "unat (bit_field w start count) < 2 ^ count"
  by (simp add: bit_field_def unsigned_take_bit_eq take_bit_nat_less_exp)

lemma keepsR_vm_getbits:
  assumes "getbits_ok start count"
    and "\<And>c e. I (c\<lparr>examined := e\<rparr>) = I c"
  shows "keepsR I F (\<lambda>v. unat v < 2 ^ nat count) (vm_getbits start count)"
proof (rule keepsRI)
  fix c assume "I c"
  have "unat (bit_field (instruction c) (nat start) (nat count)) < 2 ^ nat count"
    by (rule bit_field_less)
  then have "unat (ucast (bit_field (instruction c) (nat start) (nat count)) :: u32) < 2 ^ nat count"
    by (metis unsigned_ucast_eq take_bit_nat_less_eq_self le_less_trans)
  with \<open>I c\<close> show "wpe (vm_getbits start count) (\<lambda>v t. I t \<and> unat v < 2 ^ nat count) F c"
    using assms by simp
qed

lemma wf_examined [simp]: "wf_machine (c\<lparr>examined := e\<rparr>) = wf_machine c"
  by simp

lemmas keepsR_getbits_wf = keepsR_vm_getbits [where I = wf_machine, OF _ wf_examined]

lemma keeps_vm_getbits [keeps_intro]:
  "getbits_ok start count \<Longrightarrow> keeps wf_machine F (vm_getbits start count)"
  by (simp add: keeps_def)


section \<open>Register access\<close>

lemma keeps_gettimeofday [keeps_intro]: "keeps wf_machine F gettimeofday"
  by (rule keepsI) (simp add: gettimeofday_def)

lemma keeps_rand [keeps_intro]: "keeps wf_machine F rand"
  by (rule keepsI) (simp add: rand_def)

lemma keeps_get_SPRM:
  "(\<not> (0 \<le> i \<and> i < 24) \<Longrightarrow> F OutOfBounds) \<Longrightarrow> keeps wf_machine F (get_SPRM i)"
  by (rule keepsI) (auto simp: get_SPRM_def arr_iffs wf_registers_def)

lemma keeps_put_SPRM [keeps_intro]:
  "0 \<le> i \<Longrightarrow> i < 24 \<Longrightarrow> keeps wf_machine F (put_SPRM i v)"
  by (rule keepsI) (auto simp: put_SPRM_def arr_iffs wf_registers_def)

lemma keeps_load_GPRM [keeps_intro]:
  "0 \<le> i \<Longrightarrow> i < 16 \<Longrightarrow> keeps wf_machine F (load_GPRM i)"
  by (rule keepsI) (auto simp: load_GPRM_def arr_iffs wf_registers_def)

lemma keeps_put_GPRM [keeps_intro]:
  "0 \<le> i \<Longrightarrow> i < 16 \<Longrightarrow> keeps wf_machine F (put_GPRM i v)"
  by (rule keepsI) (auto simp: put_GPRM_def arr_iffs wf_registers_def)

lemma keeps_get_mode [keeps_intro]:
  "0 \<le> i \<Longrightarrow> i < 16 \<Longrightarrow> keeps wf_machine F (get_mode i)"
  by (rule keepsI) (auto simp: get_mode_def arr_iffs wf_registers_def)

lemma keeps_put_mode [keeps_intro]:
  "0 \<le> i \<Longrightarrow> i < 16 \<Longrightarrow> keeps wf_machine F (put_mode i v)"
  by (rule keepsI) (auto simp: put_mode_def arr_iffs wf_registers_def)

lemma keeps_get_time [keeps_intro]:
  "0 \<le> i \<Longrightarrow> i < 16 \<Longrightarrow> keeps wf_machine F (get_time i)"
  by (rule keepsI) (auto simp: get_time_def arr_iffs wf_registers_def)

lemma keeps_put_time [keeps_intro]:
  "0 \<le> i \<Longrightarrow> i < 16 \<Longrightarrow> keeps wf_machine F (put_time i v)"
  by (rule keepsI) (auto simp: put_time_def arr_iffs wf_registers_def)

lemma keeps_get_GPRM [keeps_intro]: "uint reg < 16 \<Longrightarrow> keeps wf_machine F (get_GPRM reg)"
  by (auto simp: get_GPRM_def Let_def intro!: keeps_intro)

lemma keeps_set_GPRM [keeps_intro]: "uint reg < 16 \<Longrightarrow> keeps wf_machine F (set_GPRM reg v)"
  by (auto simp: set_GPRM_def intro!: keeps_intro)

lemma uint_and_15 [simp]: "uint (reg AND 15 :: u8) < 16"
  using AND_upper2' [of 15 15 "uint reg"] by (simp add: unsigned_and_eq)

text \<open>A decoded four-bit field is a register number.\<close>

lemma uint_less_16 [simp]: "unat (v :: u32) < 16 \<Longrightarrow> uint v < 16"
  by (simp only: uint_nat of_nat_less_numeral_iff)

lemma uint_ucast_u8 [simp]: "unat (v :: u32) < 16 \<Longrightarrow> uint (ucast v :: u8) < 16"
proof -
  assume "unat v < 16"
  then have "uint v < 16" by simp
  moreover have "uint (ucast v :: u8) \<le> uint v"
    by (simp add: unsigned_ucast_eq take_bit_int_less_eq_self_iff)
  ultimately show ?thesis by linarith
qed


section \<open>Every instruction keeps the register set well formed\<close>

lemma keeps_eval_reg: "F OutOfBounds \<Longrightarrow> keeps wf_machine F (eval_reg reg)"
  by (auto simp: eval_reg_def intro!: keeps_intro keeps_get_SPRM)

lemma keeps_eval_reg_or_data:
  "F OutOfBounds \<Longrightarrow> 15 \<le> start \<Longrightarrow> start \<le> 63 \<Longrightarrow>
   keeps wf_machine F (eval_reg_or_data imm start)"
  by (auto simp: eval_reg_or_data_def getbits_ok_def intro!: keeps_intro keeps_eval_reg)

lemma keeps_eval_reg_or_data_2:
  "8 \<le> start \<Longrightarrow> start \<le> 63 \<Longrightarrow> keeps wf_machine F (eval_reg_or_data_2 imm start)"
  by (auto simp: eval_reg_or_data_2_def getbits_ok_def
      intro!: keeps_intro keepsR_bnd [OF keepsR_getbits_wf])

lemmas keeps_operand [keeps_intro] =
  keeps_eval_reg keeps_eval_reg_or_data keeps_eval_reg_or_data_2

lemma keeps_eval_if [keeps_intro]:
  assumes "F OutOfBounds"
  shows "keeps wf_machine F eval_if_version_1" "keeps wf_machine F eval_if_version_2"
    "keeps wf_machine F eval_if_version_3" "keeps wf_machine F eval_if_version_4"
  using assms
  by (auto simp: eval_if_version_1_def eval_if_version_2_def eval_if_version_3_def
      eval_if_version_4_def getbits_ok_def intro!: keeps_intro)

lemma keeps_eval_special [keeps_intro]: "keeps wf_machine F (eval_special_instruction cond)"
  by (auto simp: eval_special_instruction_def getbits_ok_def intro!: keeps_intro)

lemma keeps_eval_link_subins [keeps_intro]: "keeps wf_machine F (eval_link_subins cond rv)"
  by (auto simp: eval_link_subins_def getbits_ok_def intro!: keeps_intro)

lemma keeps_eval_link [keeps_intro]: "keeps wf_machine F (eval_link_instruction cond rv)"
  by (auto simp: eval_link_instruction_def getbits_ok_def intro!: keeps_intro)

lemma keeps_eval_jump [keeps_intro]: "keeps wf_machine F (eval_jump_instruction cond rv)"
  by (auto simp: eval_jump_instruction_def getbits_ok_def intro!: keeps_intro)

lemma keeps_eval_system_set_stream [keeps_intro]:
  "1 \<le> i \<Longrightarrow> i \<le> 3 \<Longrightarrow> keeps wf_machine F (eval_system_set_stream cond i)"
  by (auto simp: eval_system_set_stream_def getbits_ok_def intro!: keeps_intro)

lemma keeps_eval_system_set_mode [keeps_intro]:
  "F OutOfBounds \<Longrightarrow> keeps wf_machine F (eval_system_set_mode cond)"
  by (auto simp: eval_system_set_mode_def getbits_ok_def
      intro!: keeps_intro keepsR_bnd [OF keepsR_getbits_wf])

lemma keeps_eval_system_set [keeps_intro]:
  "F OutOfBounds \<Longrightarrow> keeps wf_machine F (eval_system_set cond rv)"
  by (auto simp: eval_system_set_def getbits_ok_def intro!: keeps_intro)

lemma keeps_eval_set_op [keeps_intro]:
  "F SignedOverflow \<Longrightarrow> uint reg < 16 \<Longrightarrow> uint reg2 < 16 \<Longrightarrow>
   keeps wf_machine F (eval_set_op op reg reg2 data)"
  by (auto simp: eval_set_op_def Let_def intro!: keeps_intro)

lemma keeps_eval_set_version [keeps_intro]:
  assumes "F OutOfBounds" "F SignedOverflow"
  shows "keeps wf_machine F (eval_set_version_1 cond)"
    "keeps wf_machine F (eval_set_version_2 cond)"
  using assms
  by (auto simp: eval_set_version_1_def eval_set_version_2_def getbits_ok_def
      intro!: keeps_intro keepsR_bnd [OF keepsR_getbits_wf])

section \<open>One instruction and a table of instructions\<close>

definition opcode :: "vm_cmd \<Rightarrow> u64" where
  "opcode cmd = bit_field (instruction_of cmd) 63 3"

lemma unat_ucast_bit_field:
  "n \<le> 32 \<Longrightarrow> unat (ucast (bit_field w s n) :: u32) = unat (bit_field w s n)"
  unfolding bit_field_def
  by (simp add: unsigned_ucast_eq unsigned_take_bit_eq min_def)

lemma keepsR_eval_special:
  "keepsR wf_machine F (\<lambda>r. 0 \<le> r \<and> r \<le> 256) (eval_special_instruction cond)"
proof (rule keepsRI)
  fix c :: command
  assume wf: "wf_machine c"
  have "uint (ucast (bit_field (instruction c) 7 8) :: u32) \<le> 256"
  proof -
    have "unat (ucast (bit_field (instruction c) 7 8) :: u32) < 256"
      using bit_field_less [of "instruction c" 7 8] by (simp add: unat_ucast_bit_field)
    then show ?thesis unfolding uint_nat by linarith
  qed
  with wf show "wpe (eval_special_instruction cond)
      (\<lambda>a t. wf_machine t \<and> 0 \<le> a \<and> a \<le> 256) F c"
    by (auto simp: eval_special_instruction_def getbits_ok_def put_SPRM_def arr_iffs
        wf_registers_def)
qed

lemma body_ok_result:
  "keeps wf_machine F m \<Longrightarrow> wf_machine c \<Longrightarrow>
   wpe (bnd m (\<lambda>res. ret (link_res res)))
     (\<lambda>(line, rv) t. wf_machine t \<and> (line = 0 \<or> line = -1)) F c"
  by (auto simp: keeps_def link_res_def split: prod.splits elim!: wpe_mono)

lemma keepsR_link_result:
  "keeps wf_machine F m \<Longrightarrow>
   keepsR wf_machine F (\<lambda>(line, rv). line = 0 \<or> line = -1) (bnd m (\<lambda>res. ret (link_res res)))"
  using body_ok_result by (force intro!: keepsRI elim!: wpe_mono)

lemma keepsR_chain:
  "keeps I F m \<Longrightarrow> (\<And>a. keepsR I F R (f a)) \<Longrightarrow> keepsR I F R (bnd m f)"
  by (auto simp: keeps_def keepsR_def elim!: wpe_mono)

lemma keepsR_chain_sq: "keeps I F m \<Longrightarrow> keepsR I F R n \<Longrightarrow> keepsR I F R (sq m n)"
  by (simp add: sq_def keepsR_chain)

lemma keepsR_if:
  "(b \<Longrightarrow> keepsR I F R m) \<Longrightarrow> (\<not> b \<Longrightarrow> keepsR I F R n) \<Longrightarrow>
   keepsR I F R (if b then m else n)"
  by simp

lemma keepsR_weaken: "keepsR I F R m \<Longrightarrow> (\<And>a. R a \<Longrightarrow> R' a) \<Longrightarrow> keepsR I F R' m"
  by (auto simp: keepsR_def elim!: wpe_mono)

definition line_ok :: "int \<times> link \<Rightarrow> bool" where
  "line_ok r \<longleftrightarrow> -1 \<le> fst r \<and> fst r \<le> 256"

lemma keepsR_link_line:
  "keeps wf_machine F m \<Longrightarrow> keepsR wf_machine F line_ok (bnd m (\<lambda>res. ret (link_res res)))"
  by (rule keepsR_weaken [OF keepsR_link_result]) (auto simp: line_ok_def)

lemma keepsR_special_line:
  "keepsR wf_machine F line_ok (bnd (eval_special_instruction cond)
     (\<lambda>res. if res = -1 then err AbortCall else ret (res, rv)))"
  using keepsR_eval_special [of F cond]
  by (auto simp: keepsR_def line_ok_def elim!: wpe_mono)

lemma u32_below_8: "unat (v :: u32) < 8 \<Longrightarrow>
  v = 0 \<or> v = 1 \<or> v = 2 \<or> v = 3 \<or> v = 4 \<or> v = 5 \<or> v = 6 \<or> v = 7"
  by (simp add: word_unat_eq_iff) arith

lemma keepsR_eval_command_switch:
  assumes "unat op < 8" "op \<noteq> 7"
  shows "keepsR wf_machine decoder_fault line_ok (eval_command_switch op rv)"
proof -
  note rules = keepsR_chain [where R = line_ok] keepsR_chain_sq [where R = line_ok]
  have F: "decoder_fault OutOfBounds" "decoder_fault SignedOverflow"
    by (auto simp: decoder_fault_def)
  note k = keeps_eval_if [where F = decoder_fault, OF F(1)]
    keeps_eval_set_version [where F = decoder_fault, OF F] keeps_eval_jump keeps_eval_link
    keeps_eval_link_subins keeps_eval_system_set [where F = decoder_fault, OF F(1)]
  have getbits: "keeps wf_machine decoder_fault (vm_getbits 60 1)"
    "keeps wf_machine decoder_fault (vm_getbits 51 4)"
    by (simp_all add: keeps_vm_getbits getbits_ok_def)
  have link: "keeps wf_machine decoder_fault
      (if l \<noteq> 0 then eval_link_instruction cond rv else ret (0, rv))" for l :: u32 and cond
    by (simp add: keeps_eval_link keeps_ret)
  have "keepsR wf_machine decoder_fault line_ok (eval_command_switch 0 rv)"
    by (simp add: eval_command_switch_def rules k keepsR_special_line)
  moreover have "keepsR wf_machine decoder_fault line_ok (eval_command_switch 1 rv)"
    by (simp add: eval_command_switch_def rules k keepsR_link_line getbits del: One_nat_def)
  moreover have "keepsR wf_machine decoder_fault line_ok (eval_command_switch 2 rv)"
    by (simp add: eval_command_switch_def rules k keepsR_link_line)
  moreover have "keepsR wf_machine decoder_fault line_ok (eval_command_switch 3 rv)"
    by (simp add: eval_command_switch_def rules k keepsR_link_line getbits link)
  moreover have "keepsR wf_machine decoder_fault line_ok (eval_command_switch 4 rv)"
    "keepsR wf_machine decoder_fault line_ok (eval_command_switch 5 rv)"
    "keepsR wf_machine decoder_fault line_ok (eval_command_switch 6 rv)"
    by (simp_all add: eval_command_switch_def rules k keepsR_link_line)
  ultimately show ?thesis
    using u32_below_8 [OF assms(1)] assms(2) by blast
qed

text \<open>The body of an instruction whose opcode is not 7: a line, and no \<^verbatim>\<open>abort\<close>.\<close>

lemma eval_command_body_ok:
  assumes wf: "wf_machine c" and op: "bit_field (instruction c) 63 3 \<noteq> 7"
  shows "wpe (eval_command_body rv) (\<lambda>r t. wf_machine t \<and> line_ok r) decoder_fault c"
proof -
  define k where "k = (ucast (bit_field (instruction c) 63 3) :: u32)"
  have "unat k = unat (bit_field (instruction c) 63 3)"
    unfolding k_def by (rule unat_ucast_bit_field) simp
  then have "unat k < 8" "k \<noteq> 7"
    using bit_field_less [of "instruction c" 63 3] op by (auto simp: word_unat_eq_iff)
  then have "keepsR wf_machine decoder_fault line_ok (eval_command_switch k rv)"
    by (rule keepsR_eval_command_switch)
  with wf show ?thesis
    by (simp add: eval_command_body_def getbits_ok_def keepsR_def k_def)
qed

lemma wf_truncate [simp]: "wf_machine (machine.truncate c) = wf_machine c"
  by (simp add: machine.defs)

lemma wpe_eval_command:
  "wpe (eval_command cmd) Q E m =
   wpe (eval_command_body link_zero) (\<lambda>r c. Q r (machine.truncate c)) E
     (machine.extend m (command.fields (instruction_of cmd) 0))"
  by (simp add: wpe_def eval_command_def split: sum.split prod.split)

lemma eval_command_keeps:
  assumes "wf_machine m" and "opcode cmd \<noteq> 7"
  shows "wpe (eval_command cmd) (\<lambda>r t. wf_machine t \<and> line_ok r) decoder_fault m"
  using eval_command_body_ok
    [of "machine.extend m (command.fields (instruction_of cmd) 0)" link_zero] assms
  by (simp add: wpe_eval_command opcode_def machine.defs command.defs)

lemma eval_command_abort:
  assumes "opcode cmd = 7"
  shows "eval_command cmd m = Inl AbortCall"
proof -
  have "ucast (bit_field (instruction_of cmd) 63 3) = (7 :: u32)"
    using assms by (simp add: opcode_def)
  then have "wpe (eval_command cmd) (\<lambda>_ _. False) (\<lambda>f. f = AbortCall) m"
    by (simp add: wpe_eval_command eval_command_body_def getbits_ok_def
        eval_command_switch_def machine.defs command.defs)
  then show ?thesis by (auto simp: wpe_def split: sum.splits)
qed

section \<open>Running a table\<close>

definition no_abort :: "vm_cmd list \<Rightarrow> bool" where
  "no_abort cmds \<longleftrightarrow> (\<forall>c \<in> set cmds. opcode c \<noteq> 7)"

lemma vmEval_loop_keeps:
  assumes "wf_machine m" and "no_abort cmds" and "0 \<le> i"
  shows "wpe (vmEval_loop cmds i k)
    (\<lambda>(linked, rv) t. wf_machine t \<and> (\<not> linked \<longrightarrow> rv = link_zero)) decoder_fault m"
  using assms
proof (induction cmds i k arbitrary: m rule: vmEval_loop.induct)
  case (1 cmds i k)
  show ?case
  proof (cases "i < int (length cmds) \<and> k < 100000")
    case True
    define cmd where "cmd = cmds ! nat i"
    have "opcode cmd \<noteq> 7"
      using True 1(3,4) nth_mem [of "nat i" cmds] by (auto simp: cmd_def no_abort_def)
    then have "wpe (eval_command cmd) (\<lambda>r t. wf_machine t \<and> line_ok r) decoder_fault m"
      using 1(2) by (rule eval_command_keeps [rotated])
    then show ?thesis
      unfolding vmEval_loop.simps [of cmds i k]
      using True 1(4) "1.IH" [OF True _ _ 1(3)]
      by (auto simp: cmd_def elim!: wpe_mono)
  next
    case False
    with 1(2) show ?thesis by (auto simp: vmEval_loop.simps [of cmds i k])
  qed
qed

section \<open>Evaluating instructions\<close>

lemma run_vm_getbits [run]:
  "vm_getbits start count c =
     (if count = 0 then Inr (0, c)
      else if getbits_ok start count
      then Inr (ucast (bit_field (instruction c) (nat start) (nat count)),
                c\<lparr>examined := examined c OR
                    push_bit (nat (start + 1 - count))
                      (drop_bit (nat (start + 1 - count)) (drop_bit (nat (63 - start)) (- 1)))\<rparr>)
      else Inl AbortCall)"
proof (cases "getbits_ok start count")
  case True
  have "wpe (vm_getbits start count) (\<lambda>a t.
      a = ucast (bit_field (instruction c) (nat start) (nat count)) \<and>
      t = c\<lparr>examined := examined c OR
             push_bit (nat (start + 1 - count))
               (drop_bit (nat (start + 1 - count)) (drop_bit (nat (63 - start)) (- 1)))\<rparr>)
      (\<lambda>_. False) c"
    by (simp only: wpe_vm_getbits [OF True])
  from wpe_no_fault [OF this] True show ?thesis
    by (auto simp: getbits_ok_def)
next
  case False
  then show ?thesis
    by (auto simp: vm_getbits_def getbits_ok_def ret_def err_def)
qed

lemma not_bit_u8 [simp]: "8 \<le> k \<Longrightarrow> \<not> bit (b :: u8) k"
  using bit_imp_le_length [of b k] by auto

lemma bit_byte:
  "k < 64 \<Longrightarrow> bit (push_bit s (ucast (b :: u8) :: u64)) k \<longleftrightarrow> s \<le> k \<and> bit b (k - s)"
  "k < 64 \<Longrightarrow> bit (ucast (b :: u8) :: u64) k \<longleftrightarrow> bit b k"
  by (auto simp: bit_push_bit_iff bit_unsigned_iff)

lemma bit_instruction_of:
  "k < 64 \<Longrightarrow> bit (instruction_of (VmCmd b0 b1 b2 b3 b4 b5 b6 b7)) k \<longleftrightarrow>
    (56 \<le> k \<and> bit b0 (k - 56)) \<or> (48 \<le> k \<and> bit b1 (k - 48)) \<or>
    (40 \<le> k \<and> bit b2 (k - 40)) \<or> (32 \<le> k \<and> bit b3 (k - 32)) \<or>
    (24 \<le> k \<and> bit b4 (k - 24)) \<or> (16 \<le> k \<and> bit b5 (k - 16)) \<or>
    (8 \<le> k \<and> bit b6 (k - 8)) \<or> bit b7 k"
  by (simp only: instruction_of.simps bit_or_iff bit_byte disj_assoc)

lemma bit_field_bit:
  "k < 64 \<Longrightarrow> bit (bit_field w s n) k \<longleftrightarrow> k < n \<and> bit w (s + 1 - n + k)"
  by (auto simp: bit_field_def bit_take_bit_iff bit_drop_bit_eq add.commute)

lemma goto_self: "eval_command (VmCmd 0 1 0 0 0 0 0 1) m = Inr ((1, link_zero), m)"
  by (simp add: eval_command_def eval_command_body_def eval_command_switch_def getbits_ok_def bit_field_def
     eval_if_version_1_def eval_special_instruction_def machine.defs command.defs run)

lemma break_line: "eval_command (VmCmd 0 2 0 0 0 0 0 0) m = Inr ((256, link_zero), m)"
  by (simp add: eval_command_def eval_command_body_def eval_command_switch_def getbits_ok_def bit_field_def
     eval_if_version_1_def eval_special_instruction_def machine.defs command.defs run)

end
