(* ===== verification/Decoder_Props.thy ===== *)
theory Decoder_Props
  imports Decoder_Lemmas
begin

text \<open>
  What is proved of the decoder: totality and the faults of an instruction and of a table, the
  byte order and the bit fields, the arithmetic of the set instructions against unbounded
  integers, the counter registers against the clock, the random operation against its range,
  and the behaviour of Goto and Break at the edges of a table.
\<close>

section \<open>A machine for the witnesses\<close>

definition example_regs :: registers where
  "example_regs =
     \<lparr>SPRM = replicate 24 0, GPRM = [7, 3, 40000, 0, 0, 0, 0, 0, 0, 0, 0, 0, 0, 0, 0, 0],
      GPRM_mode = [0, 0, 0, 1, 0, 0, 0, 0, 0, 0, 0, 0, 0, 0, 0, 0],
      GPRM_time = replicate 16 \<lparr>tv_sec = 0, tv_usec = 0\<rparr>\<rparr>"

definition example_os :: os where
  "example_os = \<lparr>tod = (\<lambda>n. \<lparr>tv_sec = 100 + int n * 5, tv_usec = 0\<rparr>), tod_n = 0,
                 rnd = (\<lambda>n. n), rnd_n = 0\<rparr>"

definition example_machine :: machine where
  "example_machine = \<lparr>regs = example_regs, env = example_os\<rparr>"

definition example_command :: command where
  "example_command = \<lparr>regs = example_regs, env = example_os, instruction = 0, examined = 0\<rparr>"

lemma example_wf [simp]:
  "wf_machine example_machine" "wf_machine example_command"
  by (simp_all add: example_machine_def example_command_def example_regs_def wf_registers_def)

text \<open>The instruction Break, unconditional.\<close>

definition break_cmd :: vm_cmd where
  "break_cmd = VmCmd 0 2 0 0 0 0 0 0"

section \<open>Instructions and tables\<close>

text \<open>
  C20: The result of one instruction, for every instruction and every well-formed register set.
  The \<^verbatim>\<open>abort\<close> is reached exactly by the unused instruction type 7.  Any other instruction either
  meets one of two faults, an access outside a register array or the signed overflow of a
  product, or leaves a well-formed register set and a line number between -1 (a link was taken)
  and 256 (Break).
\<close>

theorem eval_command_result:
  assumes "wf_machine m"
  shows "(eval_command cmd m = Inl AbortCall \<longleftrightarrow> opcode cmd = 7) \<and>
    (case eval_command cmd m of
       Inl f \<Rightarrow> f = OutOfBounds \<or> f = SignedOverflow \<or> f = AbortCall
     | Inr ((line, rv), m') \<Rightarrow> wf_machine m' \<and> -1 \<le> line \<and> line \<le> 256)"
proof (cases "opcode cmd = 7")
  case True
  then show ?thesis by (simp add: eval_command_abort)
next
  case False
  with eval_command_keeps [OF assms False] show ?thesis
    by (auto simp: wpe_def line_ok_def decoder_fault_def split: sum.splits)
qed

lemma eval_command_result_witness:
  "(eval_command break_cmd example_machine = Inl AbortCall \<longleftrightarrow> opcode break_cmd = 7) \<and>
    (case eval_command break_cmd example_machine of
       Inl f \<Rightarrow> f = OutOfBounds \<or> f = SignedOverflow \<or> f = AbortCall
     | Inr ((line, rv), m') \<Rightarrow> wf_machine m' \<and> -1 \<le> line \<and> line \<le> 256)"
  by (rule eval_command_result) simp

text \<open>
  C19: The run of a command table ends for every table without type-7 instructions: the limit of
  100000 executed instructions makes it total.  Afterwards the registers are well formed, and
  a table that ended without a link hands back the zeroed link record.
\<close>

theorem vmEval_CMD_result:
  assumes "wf_machine m" and "no_abort cmds"
  shows "case vmEval_CMD cmds m of
      Inl f \<Rightarrow> f = OutOfBounds \<or> f = SignedOverflow
    | Inr ((linked, rv), m') \<Rightarrow> wf_machine m' \<and> (\<not> linked \<longrightarrow> rv = link_zero)"
  using vmEval_loop_keeps [OF assms, of 0 0]
  by (auto simp: vmEval_CMD_def wpe_def decoder_fault_def split: sum.splits)

lemma vmEval_CMD_result_witness:
  "case vmEval_CMD [break_cmd, break_cmd] example_machine of
      Inl f \<Rightarrow> f = OutOfBounds \<or> f = SignedOverflow
    | Inr ((linked, rv), m') \<Rightarrow> wf_machine m' \<and> (\<not> linked \<longrightarrow> rv = link_zero)"
  by (rule vmEval_CMD_result) (simp_all add: no_abort_def opcode_def bit_field_def break_cmd_def)

text \<open>
  When exactly reading a register operand leaves the register arrays: for a system register
  numbered 24 to 31 (the mask admits 32 of them, the array has 24), and never for a general
  one.
\<close>

theorem eval_reg_beyond_sprm:
  assumes "wf_machine c"
  shows "eval_reg reg c = Inl OutOfBounds \<longleftrightarrow>
    reg AND 0x80 \<noteq> 0 \<and> 24 \<le> uint (reg AND 0x1f)"
proof (cases "reg AND 0x80 = 0")
  case True
  have "keeps wf_machine (\<lambda>_. False) (get_GPRM (reg AND 15) :: (command, u16) prog)"
    by (rule keeps_get_GPRM) simp
  from keepsD [OF this assms] True show ?thesis
    by (auto simp: eval_reg_def wpe_def split: sum.splits)
next
  case False
  with assms show ?thesis
    by (auto simp: eval_reg_def get_SPRM_def run arr_get_def wf_registers_def)
qed

lemma eval_reg_beyond_sprm_witness:
  "eval_reg 0x98 example_command = Inl OutOfBounds"
  using eval_reg_beyond_sprm [of example_command "0x98"] by simp

section \<open>Arithmetic of the set instructions\<close>

text \<open>
  What a set instruction computes from the value \<open>v\<close> of its register and its operand \<open>d\<close>,
  on unbounded integers; \<open>None\<close> where the C code's \<^verbatim>\<open>int32_t\<close> overflows or the operation
  has another shape (swap, random, unused codes).
\<close>

definition set_op_spec :: "u8 \<Rightarrow> int \<Rightarrow> int \<Rightarrow> int option" where
  "set_op_spec op v d =
     (if op = 1 then Some d
      else if op = 3 then Some (min 65535 (v + d))
      else if op = 4 then Some (max 0 (v - d))
      else if op = 5 then (if v * d < 2 ^ 31 then Some (min 65535 (v * d)) else None)
      else if op = 6 then Some (if d = 0 then 65535 else v div d)
      else if op = 7 then Some (if d = 0 then 65535 else v mod d)
      else if op = 9 then Some (v AND d)
      else if op = 10 then Some (v OR d)
      else if op = 11 then Some (v XOR d)
      else None)"

definition arith_op :: "u8 \<Rightarrow> bool" where
  "arith_op op \<longleftrightarrow> op \<in> {1, 3, 4, 5, 6, 7, 9, 10, 11}"

text \<open>Register \<open>reg\<close> is in register mode (its counter bit is clear).\<close>

definition register_mode :: "'r machine_scheme \<Rightarrow> u8 \<Rightarrow> bool" where
  "register_mode m reg \<longleftrightarrow> (GPRM_mode (regs m) ! unat reg) AND 1 = 0"

definition put_reg :: "u8 \<Rightarrow> u16 \<Rightarrow> 'r machine_scheme \<Rightarrow> 'r machine_scheme" where
  "put_reg reg v m = m\<lparr>regs := (regs m)\<lparr>GPRM := (GPRM (regs m))[unat reg := v]\<rparr>\<rparr>"

lemma run_get_mode:
  "wf_machine c \<Longrightarrow> uint reg < 16 \<Longrightarrow>
   get_mode (uint (reg :: u8)) c = Inr (GPRM_mode (regs c) ! unat reg, c)"
  by (simp add: get_mode_def run wf_registers_def)

lemma run_get_GPRM_register:
  "wf_machine c \<Longrightarrow> uint reg < 16 \<Longrightarrow> register_mode c reg \<Longrightarrow>
   get_GPRM reg c = Inr (GPRM (regs c) ! unat reg, c)"
  by (simp add: get_GPRM_def run_bnd run_get_mode register_mode_def load_GPRM_def run
      wf_registers_def)

lemma run_set_GPRM_register:
  "wf_machine c \<Longrightarrow> uint reg < 16 \<Longrightarrow> register_mode c reg \<Longrightarrow>
   set_GPRM reg v c = Inr ((), put_reg reg v c)"
  by (simp add: set_GPRM_def run_sq run_bnd run_get_mode register_mode_def run_when_p
      put_GPRM_def put_reg_def run wf_registers_def)

text \<open>
  The arithmetic set instructions on a register in register mode compute their specification
  over unbounded integers: saturation at 65535 for sums and products, at 0 for differences,
  65535 for a division by zero.  The only exception is a product of at least 2 to the 31,
  where the C code's signed multiplication overflows before the saturation is applied.
\<close>

theorem eval_set_op_arith:
  assumes "wf_machine c" and "uint reg < 16" and "register_mode c reg" and "arith_op op"
  shows "eval_set_op op reg reg2 data c =
    (case set_op_spec op (uint (GPRM (regs c) ! unat reg)) (uint data) of
       None \<Rightarrow> Inl SignedOverflow
     | Some r \<Rightarrow> Inr ((), put_reg reg (word_of_int r) c))"
proof -
  note run_regs = run_get_GPRM_register [OF assms(1-3)] run_set_GPRM_register [OF assms(1-3)]
  show ?thesis
    using assms(4)
    unfolding arith_op_def
    by (elim insertE emptyE)
      (auto simp: eval_set_op_def set_op_spec_def run_bnd run_regs run_err Let_def min_def
        max_def word_div_def word_mod_def word_and_def word_or_def word_xor_def uint_0_iff)
qed

lemma eval_set_op_arith_witness:
  "eval_set_op 3 2 0 30000 example_command = Inr ((), put_reg 2 65535 example_command) \<and>
   eval_set_op 5 2 0 60000 example_command = Inl SignedOverflow"
  using eval_set_op_arith [of example_command 2 3 0 30000]
    eval_set_op_arith [of example_command 2 5 0 60000]
  by (simp_all add: register_mode_def arith_op_def set_op_spec_def example_command_def
      example_regs_def wf_registers_def)

section \<open>Counter registers\<close>

definition counter_mode :: "'r machine_scheme \<Rightarrow> u8 \<Rightarrow> bool" where
  "counter_mode m reg \<longleftrightarrow> (GPRM_mode (regs m) ! unat reg) AND 1 \<noteq> 0"

text \<open>Whole seconds from \<open>s\<close> to \<open>t\<close>, rounded down.\<close>

definition seconds_between :: "timeval \<Rightarrow> timeval \<Rightarrow> int" where
  "seconds_between s t =
     tv_sec t - tv_sec s - (if tv_usec t < tv_usec s then 1 else 0)"

lemma run_set_GPRM_counter:
  assumes "wf_machine c" "uint reg < 16" "counter_mode c reg"
  shows "set_GPRM reg v c =
    (let t = tod (env c) (tod_n (env c))
     in Inr ((), c\<lparr>regs := (regs c)\<lparr>
          GPRM := (GPRM (regs c))[unat reg := v],
          GPRM_time := (GPRM_time (regs c))[unat reg := t\<lparr>tv_sec := tv_sec t - uint v\<rparr>]\<rparr>,
        env := (env c)\<lparr>tod_n := Suc (tod_n (env c))\<rparr>\<rparr>))"
  using assms
  by (simp add: set_GPRM_def run_sq run_bnd run_get_mode run_when_p counter_mode_def
      gettimeofday_def put_time_def put_GPRM_def run_rd run_upd run_ret run_lift_r
      wf_registers_def Let_def)

lemma run_get_GPRM_counter:
  assumes "wf_machine c" "uint reg < 16" "counter_mode c reg"
  shows "get_GPRM reg c =
    (let t = tod (env c) (tod_n (env c));
         w = word_of_int (seconds_between (GPRM_time (regs c) ! unat reg) t)
     in Inr (w, c\<lparr>regs := (regs c)\<lparr>GPRM := (GPRM (regs c))[unat reg := w]\<rparr>,
                  env := (env c)\<lparr>tod_n := Suc (tod_n (env c))\<rparr>\<rparr>))"
  using assms
  by (simp add: get_GPRM_def run_bnd run_get_mode counter_mode_def gettimeofday_def
      get_time_def put_GPRM_def run_sq run_rd run_upd run_ret run_lift_r
      wf_registers_def Let_def seconds_between_def diff_right_commute)

text \<open>
  A register in counter mode counts seconds: reading it yields the value written to it plus
  the whole seconds the clock has gone on since, modulo 2 to the 16.
\<close>

theorem counter_counts_seconds:
  assumes wf: "wf_machine c" and reg: "uint reg < 16" and cnt: "counter_mode c reg"
    and set: "set_GPRM reg v c = Inr ((), c1)"
    and get: "get_GPRM reg c1 = Inr (w, c2)"
  shows "w = word_of_int (uint v + seconds_between (tod (env c) (tod_n (env c)))
                                     (tod (env c) (Suc (tod_n (env c)))))"
proof -
  have len: "unat reg < 16" using reg by (simp only: uint_nat of_nat_less_numeral_iff)
  have c1: "wf_machine c1" "counter_mode c1 reg"
    "GPRM_time (regs c1) ! unat reg = (tod (env c) (tod_n (env c)))
       \<lparr>tv_sec := tv_sec (tod (env c) (tod_n (env c))) - uint v\<rparr>"
    "tod (env c1) (tod_n (env c1)) = tod (env c) (Suc (tod_n (env c)))"
    using set wf cnt len unfolding run_set_GPRM_counter [OF wf reg cnt]
    by (auto simp: Let_def wf_registers_def counter_mode_def)
  have "w = word_of_int (seconds_between (GPRM_time (regs c1) ! unat reg)
                          (tod (env c1) (tod_n (env c1))))"
    using get unfolding run_get_GPRM_counter [OF c1(1) reg c1(2)] Let_def by blast
  moreover have "seconds_between (t\<lparr>tv_sec := tv_sec t - k\<rparr>) u = k + seconds_between t u" for t u k
    by (simp add: seconds_between_def)
  ultimately show ?thesis by (simp only: c1(3,4))
qed

lemma counter_counts_seconds_witness:
  "\<exists>c1 c2. set_GPRM 3 10 example_command = Inr ((), c1) \<and> get_GPRM 3 c1 = Inr (15, c2)"
proof -
  have cnt: "counter_mode example_command 3"
    by (simp add: counter_mode_def example_command_def example_regs_def)
  obtain c1 where set: "set_GPRM 3 10 example_command = Inr ((), c1)"
    and c1: "wf_machine c1" "counter_mode c1 3"
    using run_set_GPRM_counter [OF example_wf(2) _ cnt, of 10]
    by (simp add: Let_def example_command_def example_regs_def wf_registers_def
        counter_mode_def)
  obtain w c2 where get: "get_GPRM 3 c1 = Inr (w, c2)"
    using run_get_GPRM_counter [OF c1(1) _ c1(2)] by (simp add: Let_def)
  have "w = 15"
    using counter_counts_seconds [OF example_wf(2) _ cnt set get]
    by (simp add: example_command_def example_os_def seconds_between_def)
  with set get show ?thesis by blast
qed

section \<open>The random operation\<close>

lemma nbits_bounds: "n > 0 \<Longrightarrow> 2 ^ (nbits n - 1) \<le> n \<and> n < 2 ^ nbits n"
proof (induction n rule: nbits.induct)
  case (1 n)
  show ?case
  proof (cases "n div 2 = 0")
    case True
    with "1.prems" have "n = 1" by (simp add: div_eq_0_iff)
    moreover have "nbits 1 = 1" by (simp add: nbits.simps)
    ultimately show ?thesis by simp
  next
    case False
    with 1 have IH: "2 ^ (nbits (n div 2) - 1) \<le> n div 2" "n div 2 < 2 ^ nbits (n div 2)"
      by auto
    have n: "nbits n = Suc (nbits (n div 2))"
      using "1.prems" by (subst nbits.simps) simp
    have "nbits (n div 2) = Suc (nbits (n div 2) - 1)"
      using False by (subst (1 2) nbits.simps) simp
    then have "(2::nat) ^ nbits (n div 2) = 2 * 2 ^ (nbits (n div 2) - 1)"
      by (metis power_Suc)
    moreover have "2 * (n div 2) \<le> n" "n < 2 * (n div 2) + 2" by linarith+
    ultimately show ?thesis using IH unfolding n by (simp; linarith)
  qed
qed

lemma nbits_le: "n < 2 ^ k \<Longrightarrow> nbits n \<le> k"
proof (cases "n = 0")
  case True
  then show ?thesis by (simp add: nbits.simps)
next
  case False
  assume "n < 2 ^ k"
  with False nbits_bounds [of n] have "(2::nat) ^ (nbits n - 1) < 2 ^ k" by linarith
  then have "nbits n - 1 < k" by (simp add: power_strict_increasing_iff)
  then show ?thesis by linarith
qed

lemma float_round_exact: "n < 2 ^ 24 \<Longrightarrow> float_round n = n"
  using nbits_le [of n 24] by (simp add: float_round_def)

text \<open>Rounding to 24 significant bits adds at most one part in two to the 24.\<close>

lemma float_round_error: "float_round n * 2 ^ 24 \<le> n * (2 ^ 24 + 1)"
proof (cases "nbits n \<le> 24")
  case True
  then show ?thesis by (simp add: float_round_def)
next
  case False
  define e where "e = nbits n - 24"
  define q where "q = n div 2 ^ e"
  define r where "r = n mod 2 ^ e"
  have e: "e > 0" "nbits n - 1 = (e - 1) + 24" using False by (auto simp: e_def)
  have pe: "(2::nat) ^ e = 2 * 2 ^ (e - 1)" using e(1) by (metis power_minus_mult mult.commute)
  have n: "n = q * 2 ^ e + r" unfolding q_def r_def by (rule div_mult_mod_eq [symmetric])
  have "n > 0" using False by (cases n) (auto simp: nbits.simps [of 0])
  then have big: "2 ^ (e - 1) * 2 ^ 24 \<le> n"
    using nbits_bounds [of n] unfolding e(2) power_add by blast
  have "float_round n \<le> n + 2 ^ (e - 1)"
  proof -
    have "float_round n = (if 2 * r < 2 ^ e then q * 2 ^ e
        else if 2 ^ e < 2 * r then (q + 1) * 2 ^ e
        else (if even q then q else q + 1) * 2 ^ e)"
      using e(1) by (simp add: float_round_def Let_def flip: e_def q_def r_def)
    moreover have "r < 2 ^ e" by (simp add: r_def)
    ultimately show ?thesis using n pe by (auto simp: algebra_simps)
  qed
  then have "float_round n * 2 ^ 24 \<le> n * 2 ^ 24 + 2 ^ (e - 1) * 2 ^ 24"
    by simp
  with big show ?thesis by simp
qed

lemma float_round_rand:
  assumes "r < 2 ^ 31 - 64"
  shows "float_round r \<le> 2 ^ 31 - 128"
proof (cases "r < 2 ^ 30")
  case True
  then show ?thesis using float_round_error [of r] by simp
next
  case False
  have "nbits r \<le> 31" using assms by (intro nbits_le) simp
  moreover have "2 ^ 30 < (2::nat) ^ nbits r"
    using False nbits_bounds [of r] by simp
  then have "30 < nbits r" by (simp only: power_strict_increasing_iff [of "2::nat"])
  ultimately have n: "nbits r - 24 = 7" by simp
  define q m where "q = r div 128" and "m = r mod 128"
  have r: "r = 128 * q + m" "m < 128" by (simp_all add: q_def m_def)
  have "float_round r = (if 2 * m < 128 then q * 128
      else if 128 < 2 * m then (q + 1) * 128 else (if even q then q else q + 1) * 128)"
    unfolding float_round_def Let_def n by (simp add: q_def m_def)
  then show ?thesis using assms r by auto
qed

text \<open>
  The random set instruction stays between 1 and its operand for every result of \<^verbatim>\<open>rand\<close>
  below 2 to the 31 less 64, although the computation goes through single-precision floats.
\<close>

theorem eval_rnd_range:
  assumes "1 \<le> unat d" and "r < 2 ^ 31 - 64"
  shows "1 \<le> unat (eval_rnd d r) \<and> unat (eval_rnd d r) \<le> unat d"
proof -
  define x where "x = unat d * float_round r"
  have d: "unat d < 65536" using unsigned_less [of d] by simp
  have "x \<le> unat d * (2 ^ 31 - 128)"
    unfolding x_def using float_round_rand [OF assms(2)] by (rule mult_le_mono2)
  then have "float_round x * 2 ^ 24 \<le> unat d * (2 ^ 31 - 128) * (2 ^ 24 + 1)"
    using float_round_error [of x] mult_le_mono1 order_trans by blast
  then have "float_round x < unat d * 2 ^ 31" using assms(1) by simp
  then have q: "float_round x div (RAND_MAX + 1) < unat d"
    by (simp add: RAND_MAX_def less_mult_imp_div_less)
  then have "unat (word_of_nat (float_round x div (RAND_MAX + 1)) :: u16) =
      float_round x div (RAND_MAX + 1)"
    using d by (simp add: unat_of_nat)
  then have "unat (eval_rnd d r) = 1 + float_round x div (RAND_MAX + 1)"
    using q d unfolding eval_rnd_def x_def [symmetric] by (simp only: unat_of_nat) simp
  then show ?thesis using q by simp
qed

lemma eval_rnd_range_witness:
  "1 \<le> unat (eval_rnd 6 2000000000) \<and> unat (eval_rnd 6 2000000000) \<le> unat (6 :: u16)"
  by (rule eval_rnd_range) simp_all

text \<open>
  For the largest result of \<^verbatim>\<open>rand\<close> the rounding of the float arithmetic makes the random
  operation exceed its operand: a request for 1 to 6 yields 7.
\<close>

theorem eval_rnd_too_big: "unat (eval_rnd 6 RAND_MAX) = 7"
  by (simp add: eval_rnd_def RAND_MAX_def float_round_def nbits.simps)

section \<open>Runs of a table\<close>

text \<open>
  A table whose only row jumps to itself does not hang the machine: the run ends after the
  100000th instruction, with no link and with the machine unchanged.
\<close>

theorem goto_self_ends: "vmEval_CMD [VmCmd 0 1 0 0 0 0 0 1] m = Inr ((False, link_zero), m)"
proof -
  let ?t = "[VmCmd 0 1 0 0 0 0 0 1]"
  have "vmEval_loop ?t 0 k m = Inr ((False, link_zero), m)" for k
  proof (induction "100000 - k" arbitrary: k)
    case 0
    then show ?case by (simp add: vmEval_loop.simps run)
  next
    case (Suc n)
    then show ?case by (subst vmEval_loop.simps) (simp add: run goto_self)
  qed
  then show ?thesis by (simp add: vmEval_CMD_def)
qed

text \<open>
  What Break does: in a table of at most 255 rows it ends the run without a link; in a longer
  one the run goes on at row 256 (index 255).
\<close>

theorem break_next_row:
  assumes "0 \<le> i" and "i < int (length cmds)" and "cmds ! nat i = break_cmd" and "k < 100000"
  shows "vmEval_loop cmds i k m =
    (if length cmds \<le> 255 then Inr ((False, link_zero), m)
     else vmEval_loop cmds 255 (Suc k) m)"
  using assms
  by (simp add: vmEval_loop.simps [of cmds i k] run break_cmd_def break_line)
     (simp add: vmEval_loop.simps [of cmds 255 "Suc k"] run)

lemma break_next_row_witness:
  "vmEval_loop [break_cmd] 0 0 example_machine = Inr ((False, link_zero), example_machine)"
  using break_next_row [of 0 "[break_cmd]" 0 example_machine] by simp

end
