(* ===== verification/Vm_State.thy ===== *)
theory Vm_State
  imports Decoder_Lemmas
begin

text \<open>
  The data of the DVD virtual machine: the navigation tables of an open IFO file
  (\<^verbatim>\<open>lib/libdvd/libdvdread/src/dvdread/ifo_types.h\<close>) and the state of the machine
  (\<^verbatim>\<open>lib/libdvd/libdvdnav/src/vm/vm.h\<close>), with the checked accesses the rest of the model is
  written in.

  \<^item> An array with its element count is a list; the two 8-bit counts of a \<^verbatim>\<open>pgc_t\<close> are kept
    beside the arrays, because \<^verbatim>\<open>ifoRead_PGC\<close> leaves an array unallocated when its offset is
    0 and only warns about it.
  \<^item> Program chains (\<^verbatim>\<open>pgc_t\<close>) are shared objects: several entries of a table can point to one
    of them and the machine keeps a pointer to the current one.  An open handle owns a list
    \<open>objs\<close> of them and has an identity \<open>hid\<close> no other handle ever had; a pointer is the pair of
    the owner's identity and the position in its list.  Once the owner is closed the pointer
    dangles, and its use is the fault \<open>DanglingPtr\<close>.
  \<^item> The disc is a parameter: what \<^verbatim>\<open>ifoOpenVMGI\<close> and \<^verbatim>\<open>ifoOpenVTSI\<close> find, and which of the
    tables can be read.
  \<^item> The C \<^verbatim>\<open>int\<close>s and the \<^verbatim>\<open>time_t\<close> of the state (\<open>hop_channel\<close>, \<open>cell_restart\<close>, \<open>tv_sec\<close>, the
    numbers of chains, programs and cells) are \<open>int\<close>: the counters only ever go up by one (or by
    \<open>HOP_SEEK\<close>), and no result here depends on their wrapping around after 2 ^ 31 steps.
\<close>

section \<open>Tables of an IFO file\<close>

record dvd_time =
  dt_hour :: u8
  dt_minute :: u8
  dt_second :: u8
  dt_frame_u :: u8

record user_ops =
  uop_zero :: "7 word"
  video_pres_mode_change :: "1 word"
  karaoke_audio_pres_mode_change :: "1 word"
  angle_change :: "1 word"
  subpic_stream_change :: "1 word"
  audio_stream_change :: "1 word"
  pause_on :: "1 word"
  still_off :: "1 word"
  button_select_or_activate :: "1 word"
  uop_resume :: "1 word"
  chapter_menu_call :: "1 word"
  angle_menu_call :: "1 word"
  audio_menu_call :: "1 word"
  subpic_menu_call :: "1 word"
  root_menu_call :: "1 word"
  title_menu_call :: "1 word"
  backward_scan :: "1 word"
  forward_scan :: "1 word"
  next_pg_search :: "1 word"
  prev_or_top_pg_search :: "1 word"
  time_or_chapter_search :: "1 word"
  go_up :: "1 word"
  uop_stop :: "1 word"
  title_play :: "1 word"
  chapter_search_or_play :: "1 word"
  title_or_time_play :: "1 word"

record cell_playback =
  block_mode :: "2 word"
  block_type :: "2 word"
  cell_still_time :: u8
  cell_cmd_nr :: u8
  cell_playback_time :: dvd_time
  first_sector :: u32
  first_ilvu_end_sector :: u32
  last_vobu_start_sector :: u32
  last_sector :: u32

record pgc_command_tbl =
  pre_cmds :: "vm_cmd list"
  post_cmds :: "vm_cmd list"
  cell_cmds :: "vm_cmd list"

record pgc =
  nr_of_programs :: u8
  nr_of_cells :: u8
  pgc_playback_time :: dvd_time
  prohibited_ops :: user_ops
  audio_control :: "u16 list"
  subp_control :: "u32 list"
  next_pgc_nr :: u16
  prev_pgc_nr :: u16
  goup_pgc_nr :: u16
  pgc_still_time :: u8
  palette :: "u32 list"
  command_tbl :: "pgc_command_tbl option"
  program_map :: "u8 list"
  cell_playback :: "cell_playback list"

record pgci_srp =
  entry_id :: u8
  srp_pgc :: nat

record pgci_lu =
  lang_code :: u16
  lu_pgcit :: "pgci_srp list"

record ptt_info =
  ptt_pgcn :: u16
  ptt_pgn :: u16

record title_info =
  nr_of_angles :: u8
  title_nr_of_ptts :: u16
  title_set_nr :: u8
  title_vts_ttn :: u8

record video_attr =
  video_format :: "2 word"
  display_aspect_ratio :: "2 word"
  permitted_df :: "2 word"
  picture_size :: "2 word"

text \<open>A time map: the entry \<open>i\<close> is the sector at \<open>(i + 1) * tmu\<close> seconds.\<close>

record vts_tmap =
  tmu :: u8
  map_ent :: "u32 list"

record ifo_handle =
  hid :: nat
  objs :: "pgc list"
  mat_first_play_pgc :: u32
  first_play_pgc :: "nat option"
  pgci_ut :: "pgci_lu list option"
  vts_pgcit :: "pgci_srp list option"
  vts_ptt_srpt :: "ptt_info list list option"
  tt_srpt :: "title_info list option"
  menu_vobu_admap :: "u32 list option"
  vts_vobu_admap :: "u32 list option"
  vts_tmapt :: "vts_tmap list option"
  menu_video_attr :: video_attr
  vts_video_attr :: video_attr

text \<open>
  What the disc holds of a title set: the complete handle, and for each table whether it can
  be read.
\<close>

record vts_source =
  vts_handle :: ifo_handle
  ok_ptt_srpt :: bool
  ok_pgcit :: bool
  ok_pgci_ut :: bool
  ok_vobu_admap :: bool
  ok_title_vobu_admap :: bool
  ok_tmapt :: bool
  ok_title_c_adt :: bool

record vmg_source =
  vmg_handle :: ifo_handle
  ok_fp_pgc :: bool
  ok_tt_srpt :: bool
  ok_vmg_pgci_ut :: bool

record disc =
  disc_vmg :: "vmg_source option"
  disc_vts :: "int \<Rightarrow> vts_source option"

section \<open>State of the machine\<close>

text \<open>\<open>NO_DOMAIN\<close> is the value 0 of the field before \<^verbatim>\<open>vm_reset\<close> has set it.\<close>

datatype domain = NO_DOMAIN | FP_DOMAIN | VTS_DOMAIN | VMGM_DOMAIN | VTSM_DOMAIN

type_synonym pgc_ptr = "nat \<times> nat"

record dvd_state =
  registers :: registers
  domain :: domain
  vtsN :: int
  cur_pgc :: "pgc_ptr option"
  pgcN :: int
  pgN :: int
  cellN :: int
  cell_restart :: int
  blockN :: int
  rsm_vtsN :: int
  rsm_blockN :: int
  rsm_regs :: "u16 list"
  rsm_pgcN :: int
  rsm_cellN :: int

record vm =
  vm_dvd :: "disc option"
  vmgi :: "ifo_handle option"
  vtsi :: "ifo_handle option"
  state :: dvd_state
  hop_channel :: int
  stopped :: bool
  vm_env :: os
  next_hid :: nat

section \<open>Access to the state\<close>

definition get_st :: "(dvd_state \<Rightarrow> 'a) \<Rightarrow> (vm, 'a) prog" where
  "get_st f = rd (\<lambda>v. f (state v))"

definition upd_st :: "(dvd_state \<Rightarrow> dvd_state) \<Rightarrow> (vm, unit) prog" where
  "upd_st f = upd (\<lambda>v. v\<lparr>state := f (state v)\<rparr>)"

definition get_sprm :: "int \<Rightarrow> (vm, u16) prog" where
  "get_sprm i = bnd (get_st (\<lambda>s. SPRM (registers s))) (\<lambda>xs. lift_r (arr_get xs i))"

definition put_sprm :: "int \<Rightarrow> u16 \<Rightarrow> (vm, unit) prog" where
  "put_sprm i x =
     bnd (get_st (\<lambda>s. SPRM (registers s))) (\<lambda>xs.
     bnd (lift_r (arr_set xs i x)) (\<lambda>ys.
     upd_st (\<lambda>s. s\<lparr>registers := (registers s)\<lparr>SPRM := ys\<rparr>\<rparr>)))"

text \<open>The register names of \<^verbatim>\<open>vm.h\<close>.\<close>

definition AST_REG :: int where [simp]: "AST_REG = 1"
definition SPST_REG :: int where [simp]: "SPST_REG = 2"
definition AGL_REG :: int where [simp]: "AGL_REG = 3"
definition TTN_REG :: int where [simp]: "TTN_REG = 4"
definition VTS_TTN_REG :: int where [simp]: "VTS_TTN_REG = 5"
definition TT_PGCN_REG :: int where [simp]: "TT_PGCN_REG = 6"
definition PTTN_REG :: int where [simp]: "PTTN_REG = 7"
definition HL_BTNN_REG :: int where [simp]: "HL_BTNN_REG = 8"
definition PTL_REG :: int where [simp]: "PTL_REG = 13"

text \<open>The object behind a pointer, while its owner is open.\<close>

definition handle_obj :: "ifo_handle option \<Rightarrow> pgc_ptr \<Rightarrow> pgc option" where
  "handle_obj h p =
     (case h of None \<Rightarrow> None
      | Some i \<Rightarrow> if hid i = fst p \<and> snd p < length (objs i) then Some (objs i ! snd p)
                  else None)"

definition find_pgc :: "vm \<Rightarrow> pgc_ptr \<Rightarrow> pgc option" where
  "find_pgc v p =
     (case handle_obj (vtsi v) p of
        Some g \<Rightarrow> Some g
      | None \<Rightarrow> handle_obj (vmgi v) p)"

text \<open>\<^verbatim>\<open>*(vm->state).pgc\<close>\<close>

definition the_pgc :: "(vm, pgc) prog" where
  "the_pgc =
     bnd (get_st cur_pgc) (\<lambda>q.
     bnd (deref NullDeref q) (\<lambda>p.
     bnd (rd (\<lambda>v. find_pgc v p)) (\<lambda>g. deref DanglingPtr g)))"

text \<open>\<^verbatim>\<open>(vm->state).pgc->cell_playback[i]\<close> and \<^verbatim>\<open>program_map[i]\<close>\<close>

definition the_cell :: "int \<Rightarrow> (vm, cell_playback) prog" where
  "the_cell i = bnd the_pgc (\<lambda>g. lift_r (arr_get (cell_playback g) i))"

text \<open>\<^verbatim>\<open>vm->vmgi->tt_srpt\<close> and \<^verbatim>\<open>vm->vtsi->vts_ptt_srpt\<close>\<close>

definition the_tt_srpt :: "(vm, title_info list) prog" where
  "the_tt_srpt =
     bnd (rd vmgi) (\<lambda>h. bnd (deref NullDeref h) (\<lambda>i. deref NullDeref (tt_srpt i)))"

definition the_ptt_srpt :: "(vm, ptt_info list list) prog" where
  "the_ptt_srpt =
     bnd (rd vtsi) (\<lambda>h. bnd (deref NullDeref h) (\<lambda>i. deref NullDeref (vts_ptt_srpt i)))"

section \<open>Running commands on the machine's registers\<close>

definition eval_cmds :: "vm_cmd list \<Rightarrow> (vm, bool \<times> link) prog" where
  "eval_cmds cmds =
     (\<lambda>v. case vmEval_CMD cmds \<lparr>regs = registers (state v), env = vm_env v\<rparr> of
         Inl f \<Rightarrow> Inl f
       | Inr (r, m) \<Rightarrow>
           Inr (r, v\<lparr>state := (state v)\<lparr>registers := regs m\<rparr>, vm_env := env m\<rparr>))"

end
