(* ===== verification/Vm_Nav.thy ===== *)
theory Vm_Nav
  imports Vm_State
begin

text \<open>
  The functions of \<^verbatim>\<open>vm.c\<close> that read the navigation tables (\<^verbatim>\<open>get_PGCIT\<close>, \<^verbatim>\<open>get_PGCN\<close>,
  \<^verbatim>\<open>get_ID\<close>, \<^verbatim>\<open>get_TT\<close>, \<^verbatim>\<open>vm_get_current_title_part\<close>), that open a title set
  (\<^verbatim>\<open>ifoOpenNewVTSI\<close>), and that set the machine's position in the tables (\<^verbatim>\<open>set_PGCN\<close> to
  \<^verbatim>\<open>set_RSMinfo\<close>).  A C result 1 or 0 is \<open>True\<close> or \<open>False\<close>.
\<close>

section \<open>Tables of program chains\<close>

text \<open>A pointer to a table: the identity of its owner and its entries.\<close>

type_synonym pgcit_ptr = "nat \<times> pgci_srp list"

text \<open>The search loop of \<^verbatim>\<open>get_MENU_PGCIT\<close> for a language.\<close>

fun find_lang :: "pgci_lu list \<Rightarrow> u16 \<Rightarrow> nat" where
  "find_lang [] lang = 0"
| "find_lang (l # ls) lang = (if lang_code l = lang then 0 else Suc (find_lang ls lang))"

definition get_MENU_PGCIT :: "ifo_handle option \<Rightarrow> u16 \<Rightarrow> (vm, pgcit_ptr option) prog" where
  "get_MENU_PGCIT h lang =
     (case h of None \<Rightarrow> ret None
      | Some i \<Rightarrow>
          (case pgci_ut i of None \<Rightarrow> ret None
           | Some lus \<Rightarrow>
               let k = find_lang lus lang
               in bnd (lift_r (arr_get lus (if k = length lus then 0 else int k))) (\<lambda>lu.
                  ret (Some (hid i, lu_pgcit lu)))))"

definition get_PGCIT :: "(vm, pgcit_ptr option) prog" where
  "get_PGCIT =
     bnd (get_st domain) (\<lambda>d.
     case d of
       VTS_DOMAIN \<Rightarrow>
         bnd (rd vtsi) (\<lambda>h.
         case h of None \<Rightarrow> ret None
         | Some i \<Rightarrow> ret (map_option (\<lambda>t. (hid i, t)) (vts_pgcit i)))
     | VTSM_DOMAIN \<Rightarrow>
         bnd (rd vtsi) (\<lambda>h.
         case h of None \<Rightarrow> ret None
         | Some i \<Rightarrow> bnd (get_sprm 0) (\<lambda>lang. get_MENU_PGCIT h lang))
     | VMGM_DOMAIN \<Rightarrow>
         bnd (rd vmgi) (\<lambda>h. bnd (get_sprm 0) (\<lambda>lang. get_MENU_PGCIT h lang))
     | FP_DOMAIN \<Rightarrow>
         bnd (rd vmgi) (\<lambda>h. bnd (get_sprm 0) (\<lambda>lang. get_MENU_PGCIT h lang))
     | NO_DOMAIN \<Rightarrow> err AbortCall)"

text \<open>The loop of \<^verbatim>\<open>get_PGCN\<close>: the first entry, counted from \<open>n\<close>, that holds the pointer.\<close>

fun find_pgcn :: "nat \<Rightarrow> pgci_srp list \<Rightarrow> pgc_ptr option \<Rightarrow> int \<Rightarrow> int option" where
  "find_pgcn h [] p n = None"
| "find_pgcn h (s # ss) p n =
     (if p = Some (h, srp_pgc s) then Some n else find_pgcn h ss p (n + 1))"

definition get_PGCN :: "(vm, int) prog" where
  "get_PGCN =
     bnd get_PGCIT (\<lambda>t.
     case t of None \<Rightarrow> ret 0
     | Some (h, srps) \<Rightarrow>
         bnd (get_st cur_pgc) (\<lambda>p.
         case find_pgcn h srps p 1 of
           None \<Rightarrow> ret 0
         | Some n \<Rightarrow>
             bnd (get_st pgcN) (\<lambda>m. sq (assert_p (m = n)) (ret n))))"

text \<open>The loop of \<^verbatim>\<open>get_ID\<close>: the entry, counted from \<open>n\<close>, with the given entry identifier.\<close>

fun find_entry :: "pgci_srp list \<Rightarrow> int \<Rightarrow> int \<Rightarrow> int" where
  "find_entry [] ident n = 0"
| "find_entry (s # ss) ident n =
     (if uint (entry_id s) = ident then n else find_entry ss ident (n + 1))"

definition get_ID :: "int \<Rightarrow> (vm, int) prog" where
  "get_ID ident =
     bnd get_PGCIT (\<lambda>t.
     case t of None \<Rightarrow> err AssertFail
     | Some (h, srps) \<Rightarrow> ret (find_entry srps (ident OR 0x80) 1))"

text \<open>The loop of \<^verbatim>\<open>get_TT\<close>: titles counted from \<open>n\<close>.\<close>

fun find_title :: "title_info list \<Rightarrow> int \<Rightarrow> int \<Rightarrow> int \<Rightarrow> int" where
  "find_title [] vts ttn n = 0"
| "find_title (t # ts) vts ttn n =
     (if uint (title_set_nr t) = vts \<and> uint (title_vts_ttn t) = ttn then n
      else find_title ts vts ttn (n + 1))"

definition get_TT :: "int \<Rightarrow> int \<Rightarrow> (vm, int) prog" where
  "get_TT vts ttn = bnd the_tt_srpt (\<lambda>ts. ret (find_title ts vts ttn 1))"

section \<open>The current part of the title\<close>

text \<open>\<^verbatim>\<open>int16_t\<close> conversion of an \<^verbatim>\<open>int\<close>.\<close>

definition to_int16 :: "int \<Rightarrow> int" where
  "to_int16 k = sint (word_of_int k :: u16)"

text \<open>
  The two loops of \<^verbatim>\<open>vm_get_current_title_part\<close>.  \<open>find_part\<close> searches one title for the
  program \<open>g\<close> of chain \<open>c\<close>, \<open>prev\<close> being the part before; parts count from 0.  A program
  between two parts of the same chain belongs to the earlier one.
\<close>

fun find_part :: "ptt_info option \<Rightarrow> ptt_info list \<Rightarrow> int \<Rightarrow> int \<Rightarrow> int \<Rightarrow> int option" where
  "find_part prev [] c g part = None"
| "find_part prev (p # ps) c g part =
     (if uint (ptt_pgcn p) = c then
        if uint (ptt_pgn p) = g then Some part
        else if (case prev of None \<Rightarrow> False
                 | Some q \<Rightarrow> uint (ptt_pgn p) > g \<and> uint (ptt_pgn q) < g)
        then Some (part - 1)
        else find_part (Some p) ps c g (part + 1)
      else find_part (Some p) ps c g (part + 1))"

fun find_title_part :: "ptt_info list list \<Rightarrow> int \<Rightarrow> int \<Rightarrow> int \<Rightarrow> (int \<times> int) option" where
  "find_title_part [] c g ttn = None"
| "find_title_part (t # ts) c g ttn =
     (case find_part None t c g 0 of
        Some part \<Rightarrow> Some (ttn, part)
      | None \<Rightarrow> find_title_part ts c g (ttn + 1))"

definition vm_get_current_title_part :: "(vm, (int \<times> int) option) prog" where
  "vm_get_current_title_part =
     bnd the_ptt_srpt (\<lambda>titles.
     bnd get_PGCN (\<lambda>c.
     bnd (get_st pgN) (\<lambda>g.
     case find_title_part titles (to_int16 c) (to_int16 g) 0 of
       None \<Rightarrow> ret None
     | Some (ttn, part) \<Rightarrow>
         bnd (get_st vtsN) (\<lambda>vts.
         bnd (get_TT vts (ttn + 1)) (\<lambda>title. ret (Some (title, part + 1)))))))"

section \<open>Opening a title set\<close>

text \<open>
  What the reads of \<^verbatim>\<open>ifoOpenNewVTSI\<close> leave: the handle with the tables read before the first
  failure, and whether there was none.
\<close>

definition read_vtsi :: "vts_source \<Rightarrow> nat \<Rightarrow> bool \<times> ifo_handle" where
  "read_vtsi s n =
     (let f = vts_handle s;
          h0 = f\<lparr>hid := n, vts_ptt_srpt := None, vts_pgcit := None, pgci_ut := None,
                 menu_vobu_admap := None, vts_vobu_admap := None, vts_tmapt := None\<rparr>;
          h1 = h0\<lparr>vts_ptt_srpt := vts_ptt_srpt f\<rparr>;
          h2 = h1\<lparr>vts_pgcit := vts_pgcit f\<rparr>;
          h3 = h2\<lparr>pgci_ut := pgci_ut f\<rparr>;
          h4 = h3\<lparr>menu_vobu_admap := menu_vobu_admap f\<rparr>;
          h5 = h4\<lparr>vts_vobu_admap := vts_vobu_admap f\<rparr>;
          h6 = h5\<lparr>vts_tmapt := vts_tmapt f\<rparr>
      in if \<not> ok_ptt_srpt s then (False, h0)
         else if \<not> ok_pgcit s then (False, h1)
         else if \<not> ok_pgci_ut s then (False, h2)
         else if \<not> ok_vobu_admap s then (False, h3)
         else if \<not> ok_title_vobu_admap s then (False, h4)
         else if \<not> ok_tmapt s then (False, h5)
         else if \<not> ok_title_c_adt s then (False, h6)
         else (True, h6))"

text \<open>\<^verbatim>\<open>ifoOpenVTSI\<close> refuses a title outside 1 to 99 and finds nothing without a disc.\<close>

definition ifoOpenVTSI :: "disc option \<Rightarrow> int \<Rightarrow> vts_source option" where
  "ifoOpenVTSI d title =
     (if title \<le> 0 \<or> title > 99 then None
      else case d of None \<Rightarrow> None | Some c \<Rightarrow> disc_vts c title)"

definition ifoOpenNewVTSI :: "int \<Rightarrow> (vm, bool) prog" where
  "ifoOpenNewVTSI n =
     bnd (get_st vtsN) (\<lambda>cur.
     if cur = n then ret True
     else
       bnd (rd (\<lambda>v. ifoOpenVTSI (vm_dvd v) n)) (\<lambda>src.
       case src of
         None \<Rightarrow> sq (upd (\<lambda>v. v\<lparr>vtsi := None\<rparr>)) (ret False)
       | Some s \<Rightarrow>
           bnd (rd next_hid) (\<lambda>k.
           sq (upd (\<lambda>v. v\<lparr>vtsi := Some (snd (read_vtsi s k)), next_hid := Suc k\<rparr>))
             (if fst (read_vtsi s k)
              then sq (upd_st (\<lambda>t. t\<lparr>vtsN := n\<rparr>)) (ret True)
              else ret False))))"

section \<open>Set functions\<close>

definition set_PGCN :: "int \<Rightarrow> (vm, bool) prog" where
  "set_PGCN n =
     bnd get_PGCIT (\<lambda>t.
     case t of None \<Rightarrow> ret False
     | Some (h, srps) \<Rightarrow>
         if n < 1 \<or> n > int (length srps) then ret False
         else
           bnd (lift_r (arr_get srps (n - 1))) (\<lambda>s.
           sq (upd_st (\<lambda>t. t\<lparr>cur_pgc := Some (h, srp_pgc s), pgcN := n, pgN := 1\<rparr>))
             (bnd (get_st domain) (\<lambda>d.
              sq (when_p (d = VTS_DOMAIN) (put_sprm TT_PGCN_REG (word_of_int n)))
                (ret True)))))"

text \<open>The loop of \<^verbatim>\<open>set_PGN\<close>: programs from \<open>n\<close> on that start at or before the cell.\<close>

function set_PGN_loop :: "pgc \<Rightarrow> int \<Rightarrow> int \<Rightarrow> fault + int" where
  "set_PGN_loop g cell n =
     (if n < uint (nr_of_programs g) then
        case arr_get (program_map g) n of
          Inl f \<Rightarrow> Inl f
        | Inr first \<Rightarrow>
            if cell \<ge> uint first then set_PGN_loop g cell (n + 1) else Inr n
      else Inr n)"
  by pat_completeness auto
termination
  by (relation "measure (\<lambda>(g, cell, n). nat (uint (nr_of_programs g) - n))") auto

declare set_PGN_loop.simps [simp del]

definition set_PGN :: "(vm, bool) prog" where
  "set_PGN =
     bnd the_pgc (\<lambda>g.
     bnd (get_st cellN) (\<lambda>cell.
     bnd (lift_r (set_PGN_loop g cell 0)) (\<lambda>new_pgN.
     if new_pgN = uint (nr_of_programs g) \<and> cell > uint (nr_of_cells g) then ret False
     else
       sq (upd_st (\<lambda>t. t\<lparr>pgN := new_pgN\<rparr>))
         (bnd (get_st domain) (\<lambda>d.
          if d = VTS_DOMAIN then
            bnd (get_sprm TTN_REG) (\<lambda>ttn.
            bnd the_tt_srpt (\<lambda>titles.
            if uint ttn > int (length titles) then ret False
            else
              bnd vm_get_current_title_part (\<lambda>r.
              sq (put_sprm PTTN_REG (case r of None \<Rightarrow> 0 | Some (_, part) \<Rightarrow> word_of_int part))
                (ret True))))
          else ret True)))))"

definition set_VTS_PTT :: "int \<Rightarrow> int \<Rightarrow> int \<Rightarrow> (vm, bool) prog" where
  "set_VTS_PTT vts ttn part =
     sq (upd_st (\<lambda>t. t\<lparr>domain := VTS_DOMAIN\<rparr>))
       (bnd (get_st vtsN) (\<lambda>cur.
        bnd (if vts \<noteq> cur then ifoOpenNewVTSI vts else ret True) (\<lambda>opened.
        if \<not> opened then ret False
        else
          bnd the_ptt_srpt (\<lambda>titles.
          if ttn < 1 \<or> ttn > int (length titles) then ret False
          else
            bnd (lift_r (arr_get titles (ttn - 1))) (\<lambda>ptts.
            if part < 1 \<or> part > int (length ptts) then ret False
            else
              bnd (lift_r (arr_get ptts (part - 1))) (\<lambda>p.
              sq (put_sprm TT_PGCN_REG (ptt_pgcn p))
                (sq (put_sprm PTTN_REG (word_of_int part))
                  (bnd (get_TT vts ttn) (\<lambda>tt.
                   sq (put_sprm TTN_REG (word_of_int tt))
                     (bnd (get_sprm TTN_REG) (\<lambda>reg.
                      if reg = 0 then ret False
                      else
                        sq (put_sprm VTS_TTN_REG (word_of_int ttn))
                          (sq (upd_st (\<lambda>t. t\<lparr>vtsN := vts\<rparr>))
                            (bnd (set_PGCN (uint (ptt_pgcn p))) (\<lambda>res.
                             sq (upd_st (\<lambda>t. t\<lparr>pgN := uint (ptt_pgn p)\<rparr>))
                               (ret res)))))))))))))))"

definition set_VTS_TT :: "int \<Rightarrow> int \<Rightarrow> (vm, bool) prog" where
  "set_VTS_TT vts ttn = set_VTS_PTT vts ttn 1"

definition set_PTT :: "int \<Rightarrow> int \<Rightarrow> (vm, bool) prog" where
  "set_PTT tt ptt =
     bnd the_tt_srpt (\<lambda>titles.
     sq (assert_p (tt \<le> int (length titles)))
       (bnd (lift_r (arr_get titles (tt - 1))) (\<lambda>t.
        set_VTS_PTT (uint (title_set_nr t)) (uint (title_vts_ttn t)) ptt)))"

definition set_TT :: "int \<Rightarrow> (vm, bool) prog" where
  "set_TT tt = set_PTT tt 1"

definition set_VTS_PROG :: "int \<Rightarrow> int \<Rightarrow> int \<Rightarrow> int \<Rightarrow> (vm, bool) prog" where
  "set_VTS_PROG vts ttn pgcn pgn =
     sq (upd_st (\<lambda>t. t\<lparr>domain := VTS_DOMAIN\<rparr>))
       (bnd (get_st vtsN) (\<lambda>cur.
        bnd (if vts \<noteq> cur then ifoOpenNewVTSI vts else ret True) (\<lambda>opened.
        if \<not> opened then ret False
        else
          bnd the_ptt_srpt (\<lambda>titles.
          if ttn < 1 \<or> ttn > int (length titles) then ret False
          else
            sq (put_sprm TT_PGCN_REG (word_of_int pgcn))
              (bnd (get_TT vts ttn) (\<lambda>tt.
               sq (put_sprm TTN_REG (word_of_int tt))
                 (bnd (get_sprm TTN_REG) (\<lambda>reg.
                  sq (assert_p (reg \<noteq> 0))
                    (sq (put_sprm VTS_TTN_REG (word_of_int ttn))
                      (sq (upd_st (\<lambda>t. t\<lparr>vtsN := vts\<rparr>))
                        (bnd (set_PGCN pgcn) (\<lambda>res.
                         sq (upd_st (\<lambda>t. t\<lparr>pgN := pgn\<rparr>))
                           (bnd vm_get_current_title_part (\<lambda>r.
                            sq (put_sprm PTTN_REG
                                 (case r of None \<Rightarrow> 0 | Some (_, part) \<Rightarrow> word_of_int part))
                              (ret res)))))))))))))))"

definition set_PROG :: "int \<Rightarrow> int \<Rightarrow> int \<Rightarrow> (vm, bool) prog" where
  "set_PROG tt pgcn pgn =
     bnd the_tt_srpt (\<lambda>titles.
     sq (assert_p (tt \<le> int (length titles)))
       (bnd (lift_r (arr_get titles (tt - 1))) (\<lambda>t.
        set_VTS_PROG (uint (title_set_nr t)) (uint (title_vts_ttn t)) pgcn pgn)))"

definition set_FP_PGC :: "(vm, bool) prog" where
  "set_FP_PGC =
     sq (upd_st (\<lambda>t. t\<lparr>domain := FP_DOMAIN\<rparr>))
       (bnd (rd vmgi) (\<lambda>h.
        bnd (deref NullDeref h) (\<lambda>i.
        case first_play_pgc i of
          None \<Rightarrow> set_PGCN 1
        | Some k \<Rightarrow>
            sq (upd_st (\<lambda>t. t\<lparr>cur_pgc := Some (hid i, k),
                              pgcN := sint (mat_first_play_pgc i)\<rparr>))
              (ret True))))"

definition set_MENU :: "int \<Rightarrow> (vm, bool) prog" where
  "set_MENU menu =
     bnd (get_st domain) (\<lambda>d.
     sq (assert_p (d = VMGM_DOMAIN \<or> d = VTSM_DOMAIN))
       (bnd (get_ID menu) (\<lambda>n. set_PGCN n)))"

definition set_RSMinfo :: "int \<Rightarrow> int \<Rightarrow> (vm, unit) prog" where
  "set_RSMinfo cell block =
     sq (upd_st (\<lambda>t. t\<lparr>rsm_cellN := (if cell \<noteq> 0 then cell else cellN t),
                       rsm_blockN := block\<rparr>))
       (sq (upd_st (\<lambda>t. t\<lparr>rsm_vtsN := vtsN t\<rparr>))
         (bnd get_PGCN (\<lambda>n.
          sq (upd_st (\<lambda>t. t\<lparr>rsm_pgcN := n\<rparr>))
            (bnd (get_st (\<lambda>t. SPRM (registers t))) (\<lambda>xs.
             if length xs < 9 then err OutOfBounds
             else upd_st (\<lambda>t. t\<lparr>rsm_regs := take 5 (drop 4 xs)\<rparr>))))))"

end
