(* ===== verification/Vm_Inv.thy ===== *)
theory Vm_Inv
  imports Vm_Nav
begin

text \<open>
  The invariant of the machine and its preservation by everything below playback.

  \<^item> The decoder never yields \<^verbatim>\<open>PlayThis\<close>: only \<^verbatim>\<open>play_Cell\<close> and a resume do.
  \<^item> \<open>vm_inv\<close>: the register arrays have their sizes, the open tables and the tables on the disc
    are well formed (\<open>wf_pgc\<close>, a condition on the disc), cell numbers are not negative.
  \<^item> The readers change nothing (\<open>readonly\<close>), the set functions keep the invariant (\<open>inv_prog\<close>).
\<close>

section \<open>The decoder never yields PlayThis\<close>

definition no_play :: "link \<Rightarrow> bool" where
  "no_play l \<longleftrightarrow> link_command l \<noteq> PlayThis"

lemma link_cmd_of_no_play [simp]: "link_cmd_of c \<noteq> PlayThis"
  by (simp add: link_cmd_of_def)

lemma yields_eval_link_subins [yields_intro]:
  "no_play rv \<Longrightarrow> yields (\<lambda>r. no_play (snd r)) (eval_link_subins cond rv)"
  by (auto simp: eval_link_subins_def no_play_def intro!: yields_intro)

lemma yields_eval_link [yields_intro]:
  "no_play rv \<Longrightarrow> yields (\<lambda>r. no_play (snd r)) (eval_link_instruction cond rv)"
  by (auto simp: eval_link_instruction_def intro!: yields_intro) (auto simp: no_play_def)

lemma yields_eval_jump [yields_intro]:
  "no_play rv \<Longrightarrow> yields (\<lambda>r. no_play (snd r)) (eval_jump_instruction cond rv)"
  by (auto simp: eval_jump_instruction_def intro!: yields_intro) (auto simp: no_play_def)

lemma yields_eval_system_set [yields_intro]:
  "no_play rv \<Longrightarrow> yields (\<lambda>r. no_play (snd r)) (eval_system_set cond rv)"
  by (auto simp: eval_system_set_def intro!: yields_intro)

lemma yields_link_res:
  "yields (\<lambda>r. no_play (snd r)) m \<Longrightarrow>
   yields (\<lambda>r. no_play (snd r)) (bnd m (\<lambda>res. ret (link_res res)))"
  by (erule yields_bnd2) (auto simp: link_res_def intro!: yields_intro)

lemma yields_eval_command_body:
  assumes "no_play rv"
  shows "yields (\<lambda>r. no_play (snd r)) (eval_command_body rv)"
proof -
  note y = yields_link_res [OF yields_eval_link_subins [OF assms]]
    yields_link_res [OF yields_eval_link [OF assms]]
    yields_link_res [OF yields_eval_jump [OF assms]]
    yields_link_res [OF yields_eval_system_set [OF assms]]
  have l: "yields (\<lambda>r. no_play (snd r))
     (bnd (if l \<noteq> 0 then eval_link_instruction cond rv else ret (0, rv))
       (\<lambda>res. ret (link_res res)))" for l :: u32 and cond
    by (rule yields_link_res) (auto intro!: yields_intro simp: assms)
  have special: "yields (\<lambda>r. no_play (snd r)) (if res = -1 then err AbortCall else ret (res, rv))"
    for res :: int
    using assms by (auto intro!: yields_intro)
  show ?thesis
    unfolding eval_command_body_def eval_command_switch_def
    by (rule y l special yields_if yields_err | rule yields_bnd yields_sq)+
qed

lemma yields_eval_command: "yields (\<lambda>r. no_play (snd r)) (eval_command cmd)"
  using yields_eval_command_body [of link_zero]
  by (auto simp: yields_def eval_command_def no_play_def link_zero_def split: sum.splits)

lemma yields_vmEval_loop: "yields (\<lambda>r. no_play (snd r)) (vmEval_loop cmds i k)"
proof (induction cmds i k rule: vmEval_loop.induct)
  case (1 cmds i k)
  show ?case
  proof (cases "i < int (length cmds) \<and> k < 100000")
    case True
    have step: "yields (\<lambda>r. no_play (snd r))
      ((\<lambda>(line, rv). if line < 0 then ret (True, rv)
        else vmEval_loop cmds (if line > 0 then line - 1 else i + 1) (Suc k)) r)"
      if "no_play (snd r)" for r
    proof (cases r)
      case (Pair line rv)
      show ?thesis
      proof (cases "line < 0")
        case True
        with that Pair show ?thesis by (simp add: yields_ret)
      next
        case False
        with "1.IH" [OF True False] Pair show ?thesis by simp
      qed
    qed
    show ?thesis
      unfolding vmEval_loop.simps [of cmds i k] using True
      by (simp del: split_paired_All) (intro yields_bnd yields_bnd2 [OF yields_eval_command] step)
  next
    case False
    then show ?thesis
      by (auto simp: vmEval_loop.simps [of cmds i k] no_play_def link_zero_def intro!: yields_intro)
  qed
qed

lemma yields_eval_cmds: "yields (\<lambda>r. no_play (snd r)) (eval_cmds cmds)"
  using yields_vmEval_loop [of cmds 0 0]
  by (auto simp: yields_def eval_cmds_def vmEval_CMD_def split: sum.splits)

section \<open>Wellformed tables and states\<close>

text \<open>
  A well-formed chain: the program map and the cell array are as long as their counts say, and
  every program starts in a cell of the chain.  This is a condition on the disc, not something
  the reader establishes: \<^verbatim>\<open>ifoRead_PGC\<close> of \<^verbatim>\<open>ifo_read.c\<close> leaves an array NULL when its offset is 0,
  whatever its count, only prints a warning where a \<^verbatim>\<open>CHECK_VALUE\<close> fails, and never compares the
  program map with the number of cells.  (The sizes of the audio and subpicture arrays are those
  of the C arrays.)  The theory \<open>Vm_Tables\<close> shows what discs without it lead to.
\<close>

definition wf_pgc :: "pgc \<Rightarrow> bool" where
  "wf_pgc g \<longleftrightarrow>
     int (length (program_map g)) = uint (nr_of_programs g) \<and>
     int (length (cell_playback g)) = uint (nr_of_cells g) \<and>
     (\<forall>f \<in> set (program_map g). 1 \<le> uint f \<and> uint f \<le> uint (nr_of_cells g)) \<and>
     length (audio_control g) = 8 \<and> length (subp_control g) = 32"

definition wf_handle :: "ifo_handle \<Rightarrow> bool" where
  "wf_handle h \<longleftrightarrow> (\<forall>g \<in> set (objs h). wf_pgc g)"

definition wf_disc :: "disc option \<Rightarrow> bool" where
  "wf_disc d \<longleftrightarrow>
     (\<forall>c. d = Some c \<longrightarrow>
        (\<forall>s. disc_vmg c = Some s \<longrightarrow> wf_handle (vmg_handle s)) \<and>
        (\<forall>n s. disc_vts c n = Some s \<longrightarrow> wf_handle (vts_handle s)))"

definition vm_inv :: "vm \<Rightarrow> bool" where
  "vm_inv v \<longleftrightarrow>
     wf_registers (registers (state v)) \<and> length (rsm_regs (state v)) = 5 \<and>
     (\<forall>h. vmgi v = Some h \<longrightarrow> wf_handle h) \<and> (\<forall>h. vtsi v = Some h \<longrightarrow> wf_handle h) \<and>
     wf_disc (vm_dvd v) \<and> 0 \<le> cellN (state v) \<and> 0 \<le> rsm_cellN (state v)"

lemma vm_invI_upd [intro]:
  "vm_inv v \<Longrightarrow> registers (f (state v)) = registers (state v) \<Longrightarrow>
   rsm_regs (f (state v)) = rsm_regs (state v) \<Longrightarrow> 0 \<le> cellN (f (state v)) \<Longrightarrow>
   0 \<le> rsm_cellN (f (state v)) \<Longrightarrow> vm_inv (v\<lparr>state := f (state v)\<rparr>)"
  by (simp add: vm_inv_def)

section \<open>Readers\<close>

lemma readonly_get_st [readonly_intro]: "readonly (get_st f)"
  by (simp add: get_st_def readonly_rd)

lemma readonly_get_sprm [readonly_intro]: "readonly (get_sprm i)"
  by (auto simp: get_sprm_def intro!: readonly_intro)

lemma readonly_the_pgc [readonly_intro]: "readonly the_pgc"
  by (auto simp: the_pgc_def intro!: readonly_intro)

lemma readonly_the_cell [readonly_intro]: "readonly (the_cell i)"
  by (auto simp: the_cell_def intro!: readonly_intro)

lemma readonly_the_tt_srpt [readonly_intro]: "readonly the_tt_srpt"
  by (auto simp: the_tt_srpt_def intro!: readonly_intro)

lemma readonly_the_ptt_srpt [readonly_intro]: "readonly the_ptt_srpt"
  by (auto simp: the_ptt_srpt_def intro!: readonly_intro)

lemma readonly_get_MENU_PGCIT [readonly_intro]: "readonly (get_MENU_PGCIT h lang)"
  by (auto simp: get_MENU_PGCIT_def Let_def intro!: readonly_intro)

lemma readonly_get_PGCIT [readonly_intro]: "readonly get_PGCIT"
  unfolding get_PGCIT_def
  by (rule readonly_bnd) (auto split: domain.split intro!: readonly_intro)

lemma readonly_get_PGCN [readonly_intro]: "readonly get_PGCN"
  by (auto simp: get_PGCN_def intro!: readonly_intro)

lemma readonly_get_ID [readonly_intro]: "readonly (get_ID i)"
  by (auto simp: get_ID_def intro!: readonly_intro)

lemma readonly_get_TT [readonly_intro]: "readonly (get_TT a b)"
  by (auto simp: get_TT_def intro!: readonly_intro)

lemma readonly_title_part [readonly_intro]: "readonly vm_get_current_title_part"
  by (auto simp: vm_get_current_title_part_def intro!: readonly_intro)

lemmas keeps_readers [keeps_intro] =
  readonly_get_st [THEN readonly_keeps] readonly_get_sprm [THEN readonly_keeps]
  readonly_the_pgc [THEN readonly_keeps] readonly_the_cell [THEN readonly_keeps]
  readonly_the_tt_srpt [THEN readonly_keeps] readonly_the_ptt_srpt [THEN readonly_keeps]
  readonly_get_PGCIT [THEN readonly_keeps] readonly_get_PGCN [THEN readonly_keeps]
  readonly_get_ID [THEN readonly_keeps] readonly_get_TT [THEN readonly_keeps]
  readonly_title_part [THEN readonly_keeps] readonly_lift_r [THEN readonly_keeps]

section \<open>Writers keep the invariant\<close>

abbreviation inv_prog :: "(vm, 'a) prog \<Rightarrow> bool" where
  "inv_prog m \<equiv> keeps vm_inv (\<lambda>_. True) m"

lemma inv_upd_st [keeps_intro]:
  "(\<And>v. vm_inv v \<Longrightarrow> vm_inv (v\<lparr>state := f (state v)\<rparr>)) \<Longrightarrow> inv_prog (upd_st f)"
  by (simp add: upd_st_def keeps_upd)

lemma inv_put_sprm [keeps_intro]: "inv_prog (put_sprm i x)"
  by (rule keepsI)
    (auto simp: put_sprm_def get_st_def upd_st_def arr_iffs vm_inv_def wf_registers_def)

lemma find_pgc_cases:
  "find_pgc v p = Some g \<Longrightarrow> \<exists>h. (vtsi v = Some h \<or> vmgi v = Some h) \<and> g \<in> set (objs h)"
  by (auto simp: find_pgc_def handle_obj_def split: option.splits if_splits)

lemma vm_inv_find_pgc: "vm_inv v \<Longrightarrow> find_pgc v p = Some g \<Longrightarrow> wf_pgc g"
  using find_pgc_cases [of v p g] by (auto simp: vm_inv_def wf_handle_def)

lemma wf_read_vtsi: "wf_handle (vts_handle s) \<Longrightarrow> wf_handle (snd (read_vtsi s n))"
  by (simp add: read_vtsi_def wf_handle_def Let_def)

lemma ifoOpenVTSI_wf: "wf_disc d \<Longrightarrow> ifoOpenVTSI d n = Some s \<Longrightarrow> wf_handle (vts_handle s)"
  by (auto simp: wf_disc_def ifoOpenVTSI_def split: if_splits option.splits)

lemma inv_ifoOpenNewVTSI [keeps_intro]: "inv_prog (ifoOpenNewVTSI n)"
proof (rule keepsI)
  fix v assume inv: "vm_inv v"
  then have wf: "wf_handle (vts_handle s)" if "ifoOpenVTSI (vm_dvd v) n = Some s" for s
    using that by (auto simp: vm_inv_def dest: ifoOpenVTSI_wf)
  show "wpe (ifoOpenNewVTSI n) (\<lambda>_. vm_inv) (\<lambda>_. True) v"
    using inv wf unfolding ifoOpenNewVTSI_def
    by (auto simp: get_st_def upd_st_def split: option.split)
      (auto simp: vm_inv_def wf_read_vtsi)
qed

lemma vmEval_wf_regs:
  assumes "wf_registers (regs m)" and "vmEval_CMD cmds m = Inr (r, t)"
  shows "wf_registers (regs t)"
proof -
  have "keeps wf_machine (\<lambda>_. True) (eval_command cmd)" for cmd
  proof (cases "opcode cmd = 7")
    case True
    then show ?thesis by (auto simp: keeps_def wpe_def eval_command_abort)
  next
    case False
    then show ?thesis
      by (auto intro!: keepsI elim!: wpe_mono dest: eval_command_keeps)
  qed
  note cmd = this
  have "keeps wf_machine (\<lambda>_. True) (vmEval_loop cmds i k)" for i k
  proof (induction cmds i k rule: vmEval_loop.induct)
    case (1 cmds i k)
    show ?case
      unfolding vmEval_loop.simps [of cmds i k]
      by (intro keeps_if keeps_bnd keeps_case_prod keeps_ret cmd readonly_keeps
          readonly_lift_r "1.IH") auto
  qed
  from keepsD [OF this [of 0 0] assms(1)] assms(2) show ?thesis
    by (simp add: vmEval_CMD_def wpe_def)
qed

lemma inv_eval_cmds [keeps_intro]: "inv_prog (eval_cmds cmds)"
  by (rule keepsI)
    (auto simp: wpe_def eval_cmds_def vm_inv_def split: sum.split dest: vmEval_wf_regs [rotated])

section \<open>Set functions keep the invariant\<close>

lemma inv_set_PGCN [keeps_intro]: "inv_prog (set_PGCN n)"
  unfolding set_PGCN_def by (intro keeps_intro vm_invI_upd) (auto simp: vm_inv_def)

lemma inv_set_PGN [keeps_intro]: "inv_prog set_PGN"
  unfolding set_PGN_def by (intro keeps_intro vm_invI_upd) (auto simp: vm_inv_def)

lemma inv_set_VTS_PTT [keeps_intro]: "inv_prog (set_VTS_PTT a b c)"
  unfolding set_VTS_PTT_def by (intro keeps_intro vm_invI_upd) (auto simp: vm_inv_def)

lemma inv_set_VTS_PROG [keeps_intro]: "inv_prog (set_VTS_PROG a b c d)"
  unfolding set_VTS_PROG_def by (intro keeps_intro vm_invI_upd) (auto simp: vm_inv_def)

lemma inv_set_PTT [keeps_intro]: "inv_prog (set_PTT a b)"
  unfolding set_PTT_def by (intro keeps_intro) auto

lemma inv_set_title [keeps_intro]:
  "inv_prog (set_TT a)" "inv_prog (set_VTS_TT a b)" "inv_prog (set_PROG a c d)"
  unfolding set_TT_def set_VTS_TT_def set_PROG_def by (intro keeps_intro; simp)+

lemma inv_set_FP_PGC [keeps_intro]: "inv_prog set_FP_PGC"
  unfolding set_FP_PGC_def by (intro keeps_intro vm_invI_upd) (auto simp: vm_inv_def)

lemma inv_set_MENU [keeps_intro]: "inv_prog (set_MENU n)"
  unfolding set_MENU_def by (intro keeps_intro) auto

lemma inv_set_RSMinfo [keeps_intro]: "0 \<le> cell \<Longrightarrow> inv_prog (set_RSMinfo cell block)"
  unfolding set_RSMinfo_def
  by (intro keeps_intro) (auto simp: vm_inv_def wf_registers_def)

end
