(* ===== verification/Vm_Play.thy ===== *)
theory Vm_Play
  imports Vm_Nav
begin

text \<open>
  Playback control and link processing of \<^verbatim>\<open>vm.c\<close>: \<^verbatim>\<open>play_PGC\<close> to \<^verbatim>\<open>play_Cell_post\<close> and
  \<^verbatim>\<open>process_command\<close>.

  \<^verbatim>\<open>play_PG\<close> and \<^verbatim>\<open>play_Cell\<close> call \<^verbatim>\<open>play_PGC_post\<close> when they run past the end of the program
  chain, and \<^verbatim>\<open>play_PGC_post\<close> goes on with \<^verbatim>\<open>play_PGC\<close> of the next chain: a disc of empty
  chains can keep this recursion going, so it takes fuel, one unit per \<^verbatim>\<open>play_PGC_post\<close>.  The
  functions that call it take it as their first argument (\<open>_with\<close>).  The \<^verbatim>\<open>while\<close> loop of
  \<^verbatim>\<open>process_command\<close> takes fuel too, one unit per link.

  An assertion that fails stops the program (\<open>AssertFail\<close>); the statements after an
  \<^verbatim>\<open>assert(0)\<close> are not reached.
\<close>

section \<open>Playing\<close>

definition play_this :: link where
  "play_this = link_zero\<lparr>link_command := PlayThis\<rparr>"

text \<open>The angle block of \<^verbatim>\<open>play_Cell\<close>: go to the cell of the selected angle, if it is one.\<close>

definition enter_angle_block :: "(vm, unit) prog" where
  "enter_angle_block =
     bnd (get_sprm AGL_REG) (\<lambda>agl.
     sq (upd_st (\<lambda>t. t\<lparr>cellN := cellN t + (uint agl - 1)\<rparr>))
       (bnd the_pgc (\<lambda>g.
        bnd (get_st cellN) (\<lambda>n.
        bnd (if n \<le> uint (nr_of_cells g)
             then bnd (the_cell (n - 1)) (\<lambda>c. ret (block_mode c = 0 \<or> block_type c \<noteq> 1))
             else ret True) (\<lambda>invalid.
        when_p invalid (upd_st (\<lambda>t. t\<lparr>cellN := cellN t - (uint agl - 1)\<rparr>)))))))"

text \<open>What \<^verbatim>\<open>play_Cell\<close> does with a cell \<open>c\<close> of the chain.\<close>

definition play_Cell_body :: "cell_playback \<Rightarrow> (vm, link) prog" where
  "play_Cell_body c =
     sq (if block_mode c = 0 then assert_p (block_type c = 0)
         else if block_mode c = 1 then
           (if block_type c = 1 then enter_angle_block else err AssertFail)
         else ret ())
       (bnd set_PGN (\<lambda>ok.
        if \<not> ok then err AssertFail
        else
          sq (upd_st (\<lambda>t. t\<lparr>cell_restart := cell_restart t + 1, blockN := 0\<rparr>))
            (ret play_this)))"

definition play_Cell_with :: "(vm, link) prog \<Rightarrow> (vm, link) prog" where
  "play_Cell_with post =
     bnd (get_st cellN) (\<lambda>n.
     sq (assert_p (n > 0))
       (bnd the_pgc (\<lambda>g.
        if n > uint (nr_of_cells g) then
          sq (assert_p (n = uint (nr_of_cells g) + 1)) post
        else bnd (the_cell (n - 1)) play_Cell_body)))"

definition play_PG_with :: "(vm, link) prog \<Rightarrow> (vm, link) prog" where
  "play_PG_with post =
     bnd (get_st pgN) (\<lambda>n.
     sq (assert_p (n > 0))
       (bnd the_pgc (\<lambda>g.
        if n > uint (nr_of_programs g) then
          sq (assert_p (n = uint (nr_of_programs g) + 1)) post
        else
          bnd (lift_r (arr_get (program_map g) (n - 1))) (\<lambda>cell.
          sq (upd_st (\<lambda>t. t\<lparr>cellN := uint cell\<rparr>)) (play_Cell_with post)))))"

text \<open>\<^verbatim>\<open>play_PGC_PG\<close>; \<^verbatim>\<open>play_PGC\<close> is the same code with program 1.\<close>

definition play_PGC_PG_with :: "(vm, link) prog \<Rightarrow> int \<Rightarrow> (vm, link) prog" where
  "play_PGC_PG_with post n =
     sq (upd_st (\<lambda>t. t\<lparr>pgN := n, cellN := 0, blockN := 0\<rparr>))
       (bnd the_pgc (\<lambda>g.
        case command_tbl g of
          Some tbl \<Rightarrow>
            if pre_cmds tbl \<noteq> [] then
              bnd (eval_cmds (pre_cmds tbl)) (\<lambda>(linked, lv).
              if linked then ret lv else play_PG_with post)
            else play_PG_with post
        | None \<Rightarrow> play_PG_with post))"

definition play_PGC_with :: "(vm, link) prog \<Rightarrow> (vm, link) prog" where
  "play_PGC_with post = play_PGC_PG_with post 1"

definition play_PGC_post_with :: "(vm, link) prog \<Rightarrow> (vm, link) prog" where
  "play_PGC_post_with next =
     bnd the_pgc (\<lambda>g.
     bnd (case command_tbl g of
            Some tbl \<Rightarrow>
              if post_cmds tbl \<noteq> [] then eval_cmds (post_cmds tbl) else ret (False, link_zero)
          | None \<Rightarrow> ret (False, link_zero)) (\<lambda>(linked, lv).
     if linked then ret lv
     else
       bnd (set_PGCN (uint (next_pgc_nr g))) (\<lambda>ok.
       if \<not> ok then ret (lv\<lparr>link_command := Exit\<rparr>) else next)))"

primrec play_PGC_post :: "nat \<Rightarrow> (vm, link) prog" where
  "play_PGC_post 0 = err OutOfFuel"
| "play_PGC_post (Suc n) = play_PGC_post_with (play_PGC_with (play_PGC_post n))"

definition play_PGC :: "nat \<Rightarrow> (vm, link) prog" where
  "play_PGC n = play_PGC_with (play_PGC_post n)"

definition play_PGC_PG :: "nat \<Rightarrow> int \<Rightarrow> (vm, link) prog" where
  "play_PGC_PG n p = play_PGC_PG_with (play_PGC_post n) p"

definition play_PG :: "nat \<Rightarrow> (vm, link) prog" where
  "play_PG n = play_PG_with (play_PGC_post n)"

definition play_Cell :: "nat \<Rightarrow> (vm, link) prog" where
  "play_Cell n = play_Cell_with (play_PGC_post n)"

text \<open>The loop of \<^verbatim>\<open>play_Cell_post\<close> over the other cells of an angle block.\<close>

function skip_angles :: "pgc \<Rightarrow> int \<Rightarrow> fault + int" where
  "skip_angles g n =
     (if n \<le> uint (nr_of_cells g) then
        case arr_get (cell_playback g) (n - 1) of
          Inl f \<Rightarrow> Inl f
        | Inr c \<Rightarrow> if block_mode c \<ge> 2 then skip_angles g (n + 1) else Inr n
      else Inr n)"
  by pat_completeness auto
termination
  by (relation "measure (\<lambda>(g, n). nat (uint (nr_of_cells g) + 1 - n))") auto

declare skip_angles.simps [simp del]

text \<open>The cell command of \<^verbatim>\<open>play_Cell_post\<close>; a command number beyond the table is ignored.\<close>

definition run_cell_command :: "pgc \<Rightarrow> cell_playback \<Rightarrow> (vm, bool \<times> link) prog" where
  "run_cell_command g c =
     (if cell_cmd_nr c \<noteq> 0 then
        case command_tbl g of
          None \<Rightarrow> ret (False, link_zero)
        | Some tbl \<Rightarrow>
            if int (length (cell_cmds tbl)) \<ge> uint (cell_cmd_nr c) then
              bnd (lift_r (arr_get (cell_cmds tbl) (uint (cell_cmd_nr c) - 1))) (\<lambda>cmd.
              eval_cmds [cmd])
            else ret (False, link_zero)
      else ret (False, link_zero))"

definition play_Cell_post :: "nat \<Rightarrow> (vm, link) prog" where
  "play_Cell_post fuel =
     bnd the_pgc (\<lambda>g.
     bnd (get_st cellN) (\<lambda>n.
     bnd (the_cell (n - 1)) (\<lambda>c.
     bnd (run_cell_command g c) (\<lambda>(linked, lv).
     if linked then ret lv
     else
       sq (if block_mode c = 0 then
             sq (assert_p (block_type c = 0)) (upd_st (\<lambda>t. t\<lparr>cellN := cellN t + 1\<rparr>))
           else if block_type c = 1 then
             bnd (lift_r (skip_angles g (n + 1))) (\<lambda>m. upd_st (\<lambda>t. t\<lparr>cellN := m\<rparr>))
           else err AssertFail)
         (bnd set_PGN (\<lambda>ok.
          if \<not> ok then play_PGC_post fuel else play_Cell fuel))))))"

section \<open>Links\<close>

text \<open>What one turn of the loop of \<^verbatim>\<open>process_command\<close> does: return 0, or go on with a link.\<close>

datatype verdict = Stop | Go link

definition go_on :: "(vm, link) prog \<Rightarrow> (vm, verdict) prog" where
  "go_on m = bnd m (\<lambda>l. ret (Go l))"

definition exit_with :: "link \<Rightarrow> (vm, verdict) prog" where
  "exit_with lv = ret (Go (lv\<lparr>link_command := Exit\<rparr>))"

text \<open>\<^verbatim>\<open>if(button != 0) HL_BTNN_REG = button << 10;\<close>\<close>

definition set_button :: "u16 \<Rightarrow> (vm, unit) prog" where
  "set_button b = when_p (b \<noteq> 0) (put_sprm HL_BTNN_REG (push_bit 10 b))"

text \<open>Links to another chain of the same table.\<close>

definition link_pgc :: "nat \<Rightarrow> (pgc \<Rightarrow> u16) \<Rightarrow> link \<Rightarrow> (vm, verdict) prog" where
  "link_pgc fuel field lv =
     sq (set_button (data1 lv))
       (bnd the_pgc (\<lambda>g.
        sq (assert_p (field g \<noteq> 0))
          (bnd (set_PGCN (uint (field g))) (\<lambda>ok.
           if ok then go_on (play_PGC fuel) else exit_with lv))))"

text \<open>The loop that restores the five saved registers.\<close>

fun restore_regs :: "int \<Rightarrow> u16 list \<Rightarrow> (vm, unit) prog" where
  "restore_regs i [] = ret ()"
| "restore_regs i (x # xs) = sq (put_sprm i x) (restore_regs (i + 1) xs)"

definition link_RSM :: "nat \<Rightarrow> link \<Rightarrow> (vm, verdict) prog" where
  "link_RSM fuel lv =
     bnd (get_st rsm_vtsN) (\<lambda>vts.
     if vts = 0 then exit_with lv
     else
       sq (upd_st (\<lambda>t. t\<lparr>domain := VTS_DOMAIN\<rparr>))
         (bnd (ifoOpenNewVTSI vts) (\<lambda>ok.
          sq (assert_p ok)
            (bnd (get_st rsm_pgcN) (\<lambda>n.
             bnd (set_PGCN n) (\<lambda>_.
             bnd (get_st rsm_regs) (\<lambda>xs.
             sq (restore_regs 4 xs)
               (sq (set_button (data1 lv))
                 (bnd (get_st rsm_cellN) (\<lambda>cell.
                  if cell = 0 then
                    bnd (get_st cellN) (\<lambda>c.
                    sq (assert_p (c \<noteq> 0))
                      (sq (upd_st (\<lambda>t. t\<lparr>pgN := 1\<rparr>)) (go_on (play_PG fuel))))
                  else
                    sq (upd_st (\<lambda>t. t\<lparr>cellN := cell\<rparr>))
                      (bnd (get_st rsm_blockN) (\<lambda>b.
                       bnd set_PGN (\<lambda>found.
                       sq (assert_p found)
                         (ret (Go (lv\<lparr>link_command := PlayThis,
                                     data1 := word_of_int (b AND 0xffff),
                                     data2 := word_of_int (drop_bit 16 b)\<rparr>))))))))))))))))"

definition pgci_ut_missing :: "ifo_handle option \<Rightarrow> bool" where
  "pgci_ut_missing h = (case h of None \<Rightarrow> True | Some i \<Rightarrow> pgci_ut i = None)"

definition to_menu :: "nat \<Rightarrow> domain \<Rightarrow> (vm, bool) prog \<Rightarrow> (vm, verdict) prog" where
  "to_menu fuel d goto =
     sq (upd_st (\<lambda>t. t\<lparr>domain := d\<rparr>))
       (bnd goto (\<lambda>ok. sq (assert_p ok) (go_on (play_PGC fuel))))"

definition jumpSS_VTSM :: "nat \<Rightarrow> link \<Rightarrow> (vm, verdict) prog" where
  "jumpSS_VTSM fuel lv =
     bnd (get_st domain) (\<lambda>d.
     bnd (get_st vtsN) (\<lambda>cur.
     bnd (if data1 lv \<noteq> 0 then
            sq (if uint (data1 lv) \<noteq> cur then
                  sq (assert_p (d = VMGM_DOMAIN \<or> d = FP_DOMAIN))
                    (bnd (ifoOpenNewVTSI (uint (data1 lv))) (\<lambda>ok. assert_p ok))
                else assert_p (d = VTSM_DOMAIN \<or> d = VMGM_DOMAIN \<or> d = FP_DOMAIN))
              (bnd (rd vtsi) (\<lambda>h.
               if pgci_ut_missing h then ret False
               else sq (upd_st (\<lambda>t. t\<lparr>domain := VTSM_DOMAIN\<rparr>)) (ret True)))
          else sq (assert_p (d = VTSM_DOMAIN)) (ret True)) (\<lambda>ready.
     if \<not> ready then exit_with lv
     else
       sq (put_sprm VTS_TTN_REG (data2 lv))
         (bnd (get_st vtsN) (\<lambda>vts.
          bnd (get_sprm VTS_TTN_REG) (\<lambda>ttn.
          bnd (get_TT vts (uint ttn)) (\<lambda>tt.
          sq (put_sprm TTN_REG (word_of_int tt))
            (bnd (set_MENU (uint (data3 lv))) (\<lambda>ok.
             sq (assert_p ok) (go_on (play_PGC fuel)))))))))))"

text \<open>
  The jumps and calls into system space share a shape: check the domain, check the menu
  table, save the resume information (calls only), then enter the menu.
\<close>

definition call_SS ::
  "nat \<Rightarrow> (vm \<Rightarrow> ifo_handle option) \<Rightarrow> domain \<Rightarrow> (vm, bool) prog \<Rightarrow> link \<Rightarrow> (vm, verdict) prog"
where
  "call_SS fuel handle d goto lv =
     bnd (get_st domain) (\<lambda>cur.
     sq (assert_p (cur = VTS_DOMAIN))
       (bnd (rd handle) (\<lambda>h.
        if pgci_ut_missing h then exit_with lv
        else sq (set_RSMinfo (uint (data2 lv)) 0) (to_menu fuel d goto))))"

definition jump_SS_VMGM :: "nat \<Rightarrow> (vm, bool) prog \<Rightarrow> link \<Rightarrow> (vm, verdict) prog" where
  "jump_SS_VMGM fuel goto lv =
     bnd (get_st domain) (\<lambda>cur.
     sq (assert_p (cur \<noteq> VTS_DOMAIN))
       (bnd (rd vmgi) (\<lambda>h.
        if pgci_ut_missing h then exit_with lv else to_menu fuel VMGM_DOMAIN goto)))"

definition process_link :: "nat \<Rightarrow> link \<Rightarrow> (vm, verdict) prog" where
  "process_link fuel lv =
     (case link_command lv of
        LinkNoLink \<Rightarrow> sq (set_button (data1 lv)) (ret Stop)
      | LinkTopC \<Rightarrow> sq (set_button (data1 lv)) (go_on (play_Cell fuel))
      | LinkNextC \<Rightarrow>
          sq (set_button (data1 lv))
            (sq (upd_st (\<lambda>t. t\<lparr>cellN := cellN t + 1\<rparr>)) (go_on (play_Cell fuel)))
      | LinkPrevC \<Rightarrow>
          sq (set_button (data1 lv))
            (bnd (get_st cellN) (\<lambda>n.
             sq (assert_p (n > 1))
               (sq (upd_st (\<lambda>t. t\<lparr>cellN := cellN t - 1\<rparr>)) (go_on (play_Cell fuel)))))
      | LinkTopPG \<Rightarrow> sq (set_button (data1 lv)) (go_on (play_PG fuel))
      | LinkNextPG \<Rightarrow>
          sq (set_button (data1 lv))
            (sq (upd_st (\<lambda>t. t\<lparr>pgN := pgN t + 1\<rparr>)) (go_on (play_PG fuel)))
      | LinkPrevPG \<Rightarrow>
          sq (set_button (data1 lv))
            (bnd (get_st pgN) (\<lambda>n.
             sq (assert_p (n > 1))
               (sq (upd_st (\<lambda>t. t\<lparr>pgN := pgN t - 1\<rparr>)) (go_on (play_PG fuel)))))
      | LinkTopPGC \<Rightarrow> sq (set_button (data1 lv)) (go_on (play_PGC fuel))
      | LinkNextPGC \<Rightarrow> link_pgc fuel next_pgc_nr lv
      | LinkPrevPGC \<Rightarrow> link_pgc fuel prev_pgc_nr lv
      | LinkGoUpPGC \<Rightarrow> link_pgc fuel goup_pgc_nr lv
      | LinkTailPGC \<Rightarrow> sq (set_button (data1 lv)) (go_on (play_PGC_post fuel))
      | LinkRSM \<Rightarrow> link_RSM fuel lv
      | LinkPGCN \<Rightarrow>
          bnd (set_PGCN (uint (data1 lv))) (\<lambda>ok.
          sq (assert_p ok) (go_on (play_PGC fuel)))
      | LinkPTTN \<Rightarrow>
          bnd (get_st domain) (\<lambda>d.
          sq (assert_p (d = VTS_DOMAIN))
            (sq (set_button (data2 lv))
              (bnd (get_st vtsN) (\<lambda>vts.
               bnd (get_sprm VTS_TTN_REG) (\<lambda>ttn.
               bnd (set_VTS_PTT vts (uint ttn) (uint (data1 lv))) (\<lambda>ok.
               if \<not> ok then exit_with lv else go_on (play_PG fuel)))))))
      | LinkPGN \<Rightarrow>
          sq (set_button (data2 lv))
            (sq (upd_st (\<lambda>t. t\<lparr>pgN := uint (data1 lv)\<rparr>)) (go_on (play_PG fuel)))
      | LinkCN \<Rightarrow>
          sq (set_button (data2 lv))
            (sq (upd_st (\<lambda>t. t\<lparr>cellN := uint (data1 lv)\<rparr>)) (go_on (play_Cell fuel)))
      | Exit \<Rightarrow> sq (upd (\<lambda>v. v\<lparr>stopped := True\<rparr>)) (ret Stop)
      | JumpTT \<Rightarrow>
          bnd (get_st domain) (\<lambda>d.
          sq (assert_p (d = VMGM_DOMAIN \<or> d = FP_DOMAIN))
            (bnd (set_TT (uint (data1 lv))) (\<lambda>ok.
             if ok then go_on (play_PGC fuel) else exit_with lv)))
      | JumpVTS_TT \<Rightarrow>
          bnd (get_st domain) (\<lambda>d.
          sq (assert_p (d = VTSM_DOMAIN \<or> d = VTS_DOMAIN))
            (bnd (get_st vtsN) (\<lambda>vts.
             bnd (set_VTS_TT vts (uint (data1 lv))) (\<lambda>ok.
             if \<not> ok then exit_with lv else go_on (play_PGC fuel)))))
      | JumpVTS_PTT \<Rightarrow>
          bnd (get_st domain) (\<lambda>d.
          sq (assert_p (d = VTSM_DOMAIN \<or> d = VTS_DOMAIN))
            (bnd (get_st vtsN) (\<lambda>vts.
             bnd (set_VTS_PTT vts (uint (data1 lv)) (uint (data2 lv))) (\<lambda>ok.
             if \<not> ok then exit_with lv
             else bnd (get_st pgN) (\<lambda>n. go_on (play_PGC_PG fuel n))))))
      | JumpSS_FP \<Rightarrow>
          bnd (get_st domain) (\<lambda>d.
          sq (assert_p (d = VMGM_DOMAIN \<or> d = VTSM_DOMAIN))
            (bnd set_FP_PGC (\<lambda>ok. sq (assert_p ok) (go_on (play_PGC fuel)))))
      | JumpSS_VMGM_MENU \<Rightarrow> jump_SS_VMGM fuel (set_MENU (uint (data1 lv))) lv
      | JumpSS_VTSM \<Rightarrow> jumpSS_VTSM fuel lv
      | JumpSS_VMGM_PGC \<Rightarrow> jump_SS_VMGM fuel (set_PGCN (uint (data1 lv))) lv
      | CallSS_FP \<Rightarrow>
          bnd (get_st domain) (\<lambda>d.
          sq (assert_p (d = VTS_DOMAIN))
            (sq (set_RSMinfo (uint (data1 lv)) 0)
              (bnd set_FP_PGC (\<lambda>_. go_on (play_PGC fuel)))))
      | CallSS_VMGM_MENU \<Rightarrow> call_SS fuel vmgi VMGM_DOMAIN (set_MENU (uint (data1 lv))) lv
      | CallSS_VTSM \<Rightarrow> call_SS fuel vtsi VTSM_DOMAIN (set_MENU (uint (data1 lv))) lv
      | CallSS_VMGM_PGC \<Rightarrow> call_SS fuel vmgi VMGM_DOMAIN (set_PGCN (uint (data1 lv))) lv
      | PlayThis \<Rightarrow> err AssertFail
      | LinkReserved c \<Rightarrow> ret (Go lv))"

text \<open>\<^verbatim>\<open>link_values.data1 | (link_values.data2 << 16)\<close>, an \<^verbatim>\<open>int\<close>\<close>

definition block_of_link :: "link \<Rightarrow> int" where
  "block_of_link lv = sint (ucast (data1 lv) OR push_bit 16 (ucast (data2 lv)) :: u32)"

primrec process_command :: "nat \<Rightarrow> link \<Rightarrow> (vm, bool) prog" where
  "process_command 0 lv = err OutOfFuel"
| "process_command (Suc fuel) lv =
     (if link_command lv = PlayThis then
        sq (upd_st (\<lambda>t. t\<lparr>blockN := block_of_link lv\<rparr>)) (ret True)
      else
        bnd (process_link fuel lv) (\<lambda>r.
        case r of Stop \<Rightarrow> ret False | Go lv' \<Rightarrow> process_command fuel lv'))"

end
