(* ===== verification/Vm_Playing.thy ===== *)
theory Vm_Playing
  imports Vm_Inv Vm_Play
begin

text \<open>
  Playback and links.  \<open>playing\<close>: the machine stands in an existing cell of an existing chain.
  A link record together with the state is in order (\<open>plays\<close>) when a \<^verbatim>\<open>PlayThis\<close> comes only with
  such a state; the play functions, \<^verbatim>\<open>play_Cell_post\<close> and every branch of \<^verbatim>\<open>process_command\<close>
  keep that.  The last section shows that fuel only cuts off: where a run ends, more fuel gives
  the same result.
\<close>

section \<open>Playing\<close>

text \<open>The machine stands in an existing cell of an existing program chain.\<close>

definition at_cell :: "pgc_ptr \<Rightarrow> pgc \<Rightarrow> vm \<Rightarrow> bool" where
  "at_cell p g v \<longleftrightarrow>
     vm_inv v \<and> cur_pgc (state v) = Some p \<and> find_pgc v p = Some g \<and>
     1 \<le> cellN (state v) \<and> cellN (state v) \<le> uint (nr_of_cells g)"

definition playing :: "vm \<Rightarrow> bool" where
  "playing v \<longleftrightarrow> (\<exists>p g. at_cell p g v)"

text \<open>A link and the state it comes with: a \<^verbatim>\<open>PlayThis\<close> only with a playable state.\<close>

definition plays :: "link \<Rightarrow> vm \<Rightarrow> bool" where
  "plays l v \<longleftrightarrow> vm_inv v \<and> (link_command l = PlayThis \<longrightarrow> playing v)"

abbreviation play_prog :: "(vm, link) prog \<Rightarrow> bool" where
  "play_prog m \<equiv> triple vm_inv m plays"

lemma find_pgc_upd [simp]:
  "find_pgc (v\<lparr>state := s\<rparr>) p = find_pgc v p"
  by (simp add: find_pgc_def cong: option.case_cong)

lemma at_cell_put_sprm: "keeps (at_cell p g) (\<lambda>_. True) (put_sprm i x)"
proof (rule keepsI)
  fix v assume v: "at_cell p g v"
  then have "wpe (put_sprm i x) (\<lambda>_. vm_inv) (\<lambda>_. True) v"
    using inv_put_sprm by (auto simp: at_cell_def keeps_def)
  moreover have "wpe (put_sprm i x) (\<lambda>_ t. vm_inv t \<longrightarrow> at_cell p g t) (\<lambda>_. True) v"
    using v by (auto simp: put_sprm_def get_st_def upd_st_def at_cell_def)
  ultimately show "wpe (put_sprm i x) (\<lambda>_. at_cell p g) (\<lambda>_. True) v"
    by (auto simp: wpe_def split: sum.splits)
qed

lemma at_cell_upd_st:
  "(\<And>v. at_cell p g v \<Longrightarrow> at_cell p g (v\<lparr>state := f (state v)\<rparr>)) \<Longrightarrow>
   keeps (at_cell p g) (\<lambda>_. True) (upd_st f)"
  by (simp add: upd_st_def keeps_upd)

lemma at_cell_set_PGN: "keeps (at_cell p g) (\<lambda>_. True) set_PGN"
  unfolding set_PGN_def
  by (intro keeps_intro at_cell_put_sprm at_cell_upd_st) (auto simp: at_cell_def vm_inv_def)

lemma wpe_the_pgc:
  "wpe the_pgc Q (\<lambda>_. True) v =
   (\<forall>p g. cur_pgc (state v) = Some p \<longrightarrow> find_pgc v p = Some g \<longrightarrow> Q g v)"
  by (auto simp: the_pgc_def get_st_def)

lemma at_cell_enter_angle_block: "keeps (at_cell p g) (\<lambda>_. True) enter_angle_block"
proof (rule keepsI)
  fix v assume v: "at_cell p g v"
  have "0 \<le> uint (SPRM (registers (state v)) ! 3)" by simp
  with v show "wpe enter_angle_block (\<lambda>_. at_cell p g) (\<lambda>_. True) v"
    by (auto simp: enter_angle_block_def get_sprm_def get_st_def upd_st_def the_cell_def
        wpe_the_pgc at_cell_def vm_inv_def arr_iffs)
qed

lemma play_Cell_body_plays: "triple (at_cell p g) (play_Cell_body c) plays"
  unfolding play_Cell_body_def
proof (intro triple_keeps_sq triple_keeps_bnd triple_if triple_err at_cell_set_PGN)
  show "keeps (at_cell p g) (\<lambda>_. True)
    (if block_mode c = 0 then assert_p (block_type c = 0)
     else if block_mode c = 1 then
       (if block_type c = 1 then enter_angle_block else err AssertFail)
     else ret ())"
    by (intro keeps_intro at_cell_enter_angle_block) auto
  show "keeps (at_cell p g) (\<lambda>_. True)
    (upd_st (\<lambda>t. t\<lparr>cell_restart := cell_restart t + 1, blockN := 0\<rparr>))"
    by (rule at_cell_upd_st) (simp add: at_cell_def vm_inv_def)
  show "triple (at_cell p g) (ret play_this) plays"
    by (auto simp: triple_def plays_def playing_def at_cell_def)
qed

lemma play_Cell_with_plays:
  assumes "play_prog post"
  shows "play_prog (play_Cell_with post)"
  unfolding triple_def
proof (intro allI impI)
  fix v assume v: "vm_inv v"
  have body: "wpe (play_Cell_body c) plays (\<lambda>_. True) v"
    if "cur_pgc (state v) = Some p" "find_pgc v p = Some g"
      "0 < cellN (state v)" "cellN (state v) \<le> uint (nr_of_cells g)" for p g c
    using play_Cell_body_plays [of p g c] v that by (simp add: triple_def at_cell_def)
  show "wpe (play_Cell_with post) plays (\<lambda>_. True) v"
    using v assms body unfolding play_Cell_with_def
    by (auto simp: get_st_def wpe_the_pgc the_cell_def triple_def)
qed

lemma play_no_link: "link_command l \<noteq> PlayThis \<Longrightarrow> play_prog (ret l)"
  by (simp add: triple_def plays_def)

lemma triple_eval_cmds:
  "triple vm_inv (eval_cmds cmds) (\<lambda>r v. vm_inv v \<and> no_play (snd r))"
proof (rule tripleI)
  fix v r t assume v: "vm_inv v" "eval_cmds cmds v = Inr (r, t)"
  from keepsD [OF inv_eval_cmds v(1)] v(2) have "vm_inv t" by (rule wpe_Inr)
  moreover from yields_eval_cmds v(2) have "no_play (snd r)" by (rule yieldsD)
  ultimately show "vm_inv t \<and> no_play (snd r)" ..
qed

lemma play_linked:
  assumes "play_prog m"
  shows "play_prog (bnd (eval_cmds cmds) (\<lambda>(linked, lv). if linked then ret lv else m))"
  by (rule triple_bnd [OF triple_eval_cmds])
    (use assms in \<open>auto simp: triple_def plays_def no_play_def split: prod.split\<close>)

lemma play_PG_with_plays:
  assumes "play_prog post"
  shows "play_prog (play_PG_with post)"
proof -
  note cell = play_Cell_with_plays [OF assms]
  show ?thesis
    unfolding play_PG_with_def
    by (intro triple_keeps_bnd triple_keeps_sq triple_if assms cell keeps_intro vm_invI_upd)
      (auto simp: vm_inv_def)
qed

lemma play_PGC_PG_with_plays:
  assumes "play_prog post"
  shows "play_prog (play_PGC_PG_with post n)"
proof -
  note pg = play_PG_with_plays [OF assms]
  show ?thesis
    unfolding play_PGC_PG_with_def
  proof (intro triple_keeps_bnd triple_keeps_sq)
    show "inv_prog (upd_st (\<lambda>t. t\<lparr>pgN := n, cellN := 0, blockN := 0\<rparr>))"
      by (intro keeps_intro vm_invI_upd) (auto simp: vm_inv_def)
    show "inv_prog the_pgc" by (rule keeps_intro)
    show "play_prog (case command_tbl g of
        None \<Rightarrow> play_PG_with post
      | Some tbl \<Rightarrow>
          if pre_cmds tbl \<noteq> [] then
            bnd (eval_cmds (pre_cmds tbl)) (\<lambda>(linked, lv). if linked then ret lv else play_PG_with post)
          else play_PG_with post)" for g
      by (auto split: option.split intro: pg play_linked [OF pg])
  qed
qed

lemma play_PGC_post_with_plays:
  assumes "play_prog next"
  shows "play_prog (play_PGC_post_with next)"
proof -
  have run: "triple vm_inv
      (case command_tbl g of
         Some tbl \<Rightarrow>
           if post_cmds tbl \<noteq> [] then eval_cmds (post_cmds tbl) else ret (False, link_zero)
       | None \<Rightarrow> ret (False, link_zero)) (\<lambda>r v. vm_inv v \<and> no_play (snd r))" for g
    using triple_eval_cmds
    by (auto split: option.split) (auto simp: triple_def no_play_def link_zero_def)
  have tail: "triple (\<lambda>v. vm_inv v \<and> no_play lv)
      (if linked then ret lv
       else bnd (set_PGCN n) (\<lambda>ok. if \<not> ok then ret (lv\<lparr>link_command := Exit\<rparr>) else next)) plays"
    for linked lv n
  proof -
    have "play_prog (bnd (set_PGCN n) (\<lambda>ok. if \<not> ok then ret (lv\<lparr>link_command := Exit\<rparr>) else next))"
      by (intro triple_keeps_bnd keeps_intro triple_if assms play_no_link) auto
    then show ?thesis by (auto simp: triple_def plays_def no_play_def)
  qed
  have tail2: "triple (\<lambda>v. vm_inv v \<and> no_play (snd r))
      (case r of (linked, lv) \<Rightarrow> if linked then ret lv
       else bnd (set_PGCN n) (\<lambda>ok. if \<not> ok then ret (lv\<lparr>link_command := Exit\<rparr>) else next)) plays"
    for r n
    by (cases r) (simp only: prod.case snd_conv tail)
  show ?thesis
    unfolding play_PGC_post_with_def
    by (rule triple_keeps_bnd, rule keeps_intro, rule triple_bnd [OF run], rule tail2)
qed

lemma play_PGC_post_plays: "play_prog (play_PGC_post fuel)"
  by (induction fuel)
    (simp_all add: triple_err play_PGC_post_with_plays play_PGC_with_def play_PGC_PG_with_plays)

lemma play_plays:
  "play_prog (play_PGC fuel)" "play_prog (play_PGC_PG fuel n)"
  "play_prog (play_PG fuel)" "play_prog (play_Cell fuel)"
  by (simp_all add: play_PGC_def play_PGC_with_def play_PGC_PG_def play_PG_def play_Cell_def
      play_PGC_PG_with_plays play_PG_with_plays play_Cell_with_plays play_PGC_post_plays)

lemma skip_angles_ge: "skip_angles g n = Inr m \<Longrightarrow> n \<le> m"
proof (induction g n rule: skip_angles.induct)
  case (1 g n)
  show ?case
    using "1.prems" "1.IH" unfolding skip_angles.simps [of g n]
    by (fastforce split: if_splits sum.splits)
qed

lemma triple_run_cell_command:
  "triple vm_inv (run_cell_command g c) (\<lambda>r v. vm_inv v \<and> no_play (snd r))"
proof -
  have "triple vm_inv (ret (False, link_zero)) (\<lambda>r v. vm_inv v \<and> no_play (snd r))"
    by (simp add: triple_def no_play_def link_zero_def)
  then show ?thesis
    unfolding run_cell_command_def
    by (auto split: option.split intro!: triple_keeps_bnd triple_eval_cmds keeps_intro)
qed

lemma play_Cell_post_plays: "play_prog (play_Cell_post fuel)"
proof -
  have adv: "inv_prog
      (if block_mode c = 0 then
         sq (assert_p (block_type c = 0)) (upd_st (\<lambda>t. t\<lparr>cellN := cellN t + 1\<rparr>))
       else if block_type c = 1 then
         bnd (lift_r (skip_angles g (n + 1))) (\<lambda>m. upd_st (\<lambda>t. t\<lparr>cellN := m\<rparr>))
       else err AssertFail)" if "0 \<le> n" for c g n
    unfolding keeps_def upd_st_def using that
    by (auto simp: vm_inv_def dest!: skip_angles_ge)
  have rest: "play_prog
      (sq (if block_mode c = 0 then
             sq (assert_p (block_type c = 0)) (upd_st (\<lambda>t. t\<lparr>cellN := cellN t + 1\<rparr>))
           else if block_type c = 1 then
             bnd (lift_r (skip_angles g (n + 1))) (\<lambda>m. upd_st (\<lambda>t. t\<lparr>cellN := m\<rparr>))
           else err AssertFail)
         (bnd set_PGN (\<lambda>ok. if \<not> ok then play_PGC_post fuel else play_Cell fuel)))"
    if "0 \<le> n" for c g n
    by (intro triple_keeps_sq adv that triple_keeps_bnd triple_if play_plays
        play_PGC_post_plays keeps_intro)
  have step: "triple vm_inv
      (bnd (run_cell_command g c) (\<lambda>(linked, lv). if linked then ret lv else m)) plays"
    if "play_prog m" for g c m
    by (rule triple_bnd [OF triple_run_cell_command])
      (use that in \<open>auto simp: triple_def plays_def no_play_def split: prod.split\<close>)
  show ?thesis
    unfolding triple_def
  proof (intro allI impI)
    fix v assume v: "vm_inv v"
    then have "0 \<le> cellN (state v)" by (simp add: vm_inv_def)
    note step = step [OF rest [OF this], unfolded triple_def, rule_format, OF v]
    show "wpe (play_Cell_post fuel) plays (\<lambda>_. True) v"
      unfolding play_Cell_post_def get_st_def the_cell_def
      by (simp only: wpe_bnd [of the_pgc] wpe_bnd [of "rd f" for f] wpe_bnd [of "lift_r f" for f]
          wpe_bnd [of "bnd f g" for f g]
          wpe_the_pgc wpe_rd wpe_lift_r) (use step in blast)
  qed
qed

section \<open>Links\<close>

definition verdict_ok :: "verdict \<Rightarrow> vm \<Rightarrow> bool" where
  "verdict_ok r v \<longleftrightarrow> (case r of Stop \<Rightarrow> vm_inv v | Go l \<Rightarrow> plays l v)"

abbreviation link_prog :: "(vm, verdict) prog \<Rightarrow> bool" where
  "link_prog m \<equiv> triple vm_inv m verdict_ok"

named_theorems link_intro

lemma link_go_on [link_intro]: "play_prog m \<Longrightarrow> link_prog (go_on m)"
  unfolding go_on_def by (erule triple_bnd) (simp add: triple_def verdict_ok_def)

lemma link_stop [link_intro]: "link_prog (ret Stop)"
  by (simp add: triple_def verdict_ok_def)

lemma link_exit [link_intro]: "link_prog (exit_with lv)"
  by (simp add: triple_def verdict_ok_def plays_def exit_with_def)

lemma inv_set_button [keeps_intro]: "inv_prog (set_button b)"
  unfolding set_button_def by (intro keeps_intro)

lemma inv_restore_regs [keeps_intro]: "inv_prog (restore_regs i xs)"
  by (induction i xs rule: restore_regs.induct) (auto intro!: keeps_intro)

lemma inv_upd_trivial:
  "(\<And>s. registers (f s) = registers s \<and> rsm_regs (f s) = rsm_regs s \<and> cellN (f s) = cellN s \<and>
       rsm_cellN (f s) = rsm_cellN s) \<Longrightarrow> inv_prog (upd_st f)"
  by (intro keeps_intro vm_invI_upd) (auto simp: vm_inv_def)

lemmas link_steps = triple_keeps_bnd triple_keeps_sq triple_if triple_err link_intro
  play_plays play_PGC_post_plays

lemma link_link_pgc [link_intro]: "link_prog (link_pgc fuel field lv)"
  unfolding link_pgc_def by (intro link_steps keeps_intro) simp_all

lemma link_to_menu [link_intro]:
  "inv_prog goto \<Longrightarrow> link_prog (to_menu fuel d goto)"
  unfolding to_menu_def by (intro inv_upd_trivial link_steps keeps_intro) simp_all

lemma link_prev_cell [link_intro]:
  assumes "play_prog m"
  shows "link_prog (bnd (get_st cellN) (\<lambda>n.
     sq (assert_p (n > 1)) (sq (upd_st (\<lambda>t. t\<lparr>cellN := cellN t - 1\<rparr>)) (go_on m))))"
  unfolding triple_def
proof (intro allI impI)
  fix v assume v: "vm_inv v"
  let ?v = "v\<lparr>state := (state v)\<lparr>cellN := cellN (state v) - 1\<rparr>\<rparr>"
  have "wpe (go_on m) verdict_ok (\<lambda>_. True) ?v" if "cellN (state v) > 1"
    using link_go_on [OF assms] v that by (auto simp: triple_def vm_inv_def)
  then show "wpe (bnd (get_st cellN) (\<lambda>n.
     sq (assert_p (n > 1)) (sq (upd_st (\<lambda>t. t\<lparr>cellN := cellN t - 1\<rparr>)) (go_on m))))
     verdict_ok (\<lambda>_. True) v"
    by (simp add: get_st_def upd_st_def)
qed

lemma link_jumpSS_VTSM [link_intro]: "link_prog (jumpSS_VTSM fuel lv)"
  unfolding jumpSS_VTSM_def by (intro inv_upd_trivial link_steps keeps_intro) simp_all

lemma link_call_SS [link_intro]: "inv_prog goto \<Longrightarrow> link_prog (call_SS fuel handle d goto lv)"
  unfolding call_SS_def by (intro inv_upd_trivial link_intro link_steps keeps_intro) simp_all

lemma link_jump_SS_VMGM [link_intro]: "inv_prog goto \<Longrightarrow> link_prog (jump_SS_VMGM fuel goto lv)"
  unfolding jump_SS_VMGM_def by (intro inv_upd_trivial link_intro link_steps keeps_intro) simp_all


text \<open>\<open>set_PGN\<close> counts the programs that start at or before the cell.\<close>

lemma set_PGN_loop_takeWhile:
  assumes "wf_pgc g" and "0 \<le> n" and "n \<le> uint (nr_of_programs g)"
  shows "set_PGN_loop g cell n = Inr (n + int (length
    (takeWhile (\<lambda>f. uint f \<le> cell) (drop (nat n) (program_map g)))))"
  using assms
proof (induction g cell n rule: set_PGN_loop.induct)
  case (1 g cell n)
  have len: "int (length (program_map g)) = uint (nr_of_programs g)"
    using "1.prems"(1) by (simp add: wf_pgc_def)
  show ?case
  proof (cases "n < uint (nr_of_programs g)")
    case True
    then have "nat n < length (program_map g)" using len "1.prems"(2) by linarith
    then have drop: "drop (nat n) (program_map g) =
        program_map g ! nat n # drop (nat (n + 1)) (program_map g)"
      using "1.prems"(2) by (simp add: Cons_nth_drop_Suc nat_add_distrib)
    show ?thesis
      unfolding set_PGN_loop.simps [of g cell n] drop
      using "1.prems" "1.IH" [OF True] True len by simp
  next
    case False
    then have "drop (nat n) (program_map g) = []" using len by simp
    with False show ?thesis
      unfolding set_PGN_loop.simps [of g cell n] using "1.prems" by simp
  qed
qed

lemma set_PGN_past_end:
  assumes "vm_inv v" "cur_pgc (state v) = Some p" "find_pgc v p = Some g"
    "cellN (state v) > uint (nr_of_cells g)"
  shows "set_PGN v = Inr (False, v)"
proof -
  have wf: "wf_pgc g" using vm_inv_find_pgc [OF assms(1,3)] .
  then have all: "takeWhile (\<lambda>f. uint f \<le> cellN (state v)) (program_map g) = program_map g"
    using assms(4) by (auto simp: takeWhile_eq_all_conv wf_pgc_def)
  have len: "int (length (program_map g)) = uint (nr_of_programs g)"
    using wf by (simp add: wf_pgc_def)
  have "set_PGN_loop g (cellN (state v)) 0 = Inr (uint (nr_of_programs g))"
    using set_PGN_loop_takeWhile [OF wf, of 0 "cellN (state v)"] unfolding drop_0 all len nat_0
    by simp
  then show ?thesis
    using assms by (simp add: set_PGN_def the_pgc_def get_st_def run)
qed

lemma set_PGN_playing:
  "triple (\<lambda>v. vm_inv v \<and> 1 \<le> cellN (state v)) set_PGN
     (\<lambda>ok v. vm_inv v \<and> (ok \<longrightarrow> playing v))"
proof (rule tripleI)
  fix v ok t assume v: "vm_inv v \<and> 1 \<le> cellN (state v)" and run: "set_PGN v = Inr (ok, t)"
  have "wpe the_pgc (\<lambda>g t. t = v \<and> (\<exists>p. cur_pgc (state v) = Some p \<and> find_pgc v p = Some g))
      (\<lambda>_. True) v"
    by (simp add: wpe_the_pgc)
  then obtain p g where p: "cur_pgc (state v) = Some p" "find_pgc v p = Some g"
    using run unfolding set_PGN_def run_bnd [of the_pgc] wpe_def
    by (auto split: sum.splits)
  show "vm_inv t \<and> (ok \<longrightarrow> playing t)"
  proof (cases "cellN (state v) \<le> uint (nr_of_cells g)")
    case True
    with v p have "at_cell p g v" by (simp add: at_cell_def)
    from wpe_Inr [OF keepsD [OF at_cell_set_PGN this] run] show ?thesis
      by (auto simp: playing_def at_cell_def)
  next
    case False
    with set_PGN_past_end [OF _ p] v run show ?thesis by auto
  qed
qed

lemma link_link_RSM [link_intro]: "link_prog (link_RSM fuel lv)"
proof -
  let ?c = "\<lambda>v. vm_inv v \<and> 1 \<le> cellN (state v)"
  have resume: "link_prog (sq (upd_st (\<lambda>t. t\<lparr>cellN := cell\<rparr>))
      (bnd (get_st rsm_blockN) (\<lambda>b.
       bnd set_PGN (\<lambda>found.
       sq (assert_p found)
         (ret (Go (lv\<lparr>link_command := PlayThis, data1 := f b, data2 := h b\<rparr>)))))))"
    if "1 \<le> cell" for cell f h
  proof -
    have set: "wpe set_PGN (\<lambda>found t. vm_inv t \<and> (found \<longrightarrow> playing t)) (\<lambda>_. True)
        (v\<lparr>state := (state v)\<lparr>cellN := cell\<rparr>\<rparr>)" if "vm_inv v" for v
      using set_PGN_playing \<open>1 \<le> cell\<close> that by (auto simp: triple_def vm_inv_def)
    have "wpe set_PGN (\<lambda>found. wpe (sq (assert_p found) (ret (Go l))) verdict_ok (\<lambda>_. True))
        (\<lambda>_. True) (v\<lparr>state := (state v)\<lparr>cellN := cell\<rparr>\<rparr>)" if "vm_inv v" for v l
      by (rule wpe_mono [OF set [OF that]]) (auto simp: verdict_ok_def plays_def)
    then show ?thesis
      unfolding triple_def get_st_def upd_st_def
      by (simp only: wpe_sq wpe_bnd wpe_upd wpe_rd) blast
  qed
  have cell: "triple vm_inv (get_st rsm_cellN) (\<lambda>cell v. vm_inv v \<and> 0 \<le> cell)"
    by (simp add: triple_def get_st_def vm_inv_def)
  have rest: "link_prog (bnd (get_st rsm_cellN) (\<lambda>cell.
      if cell = 0 then
        bnd (get_st cellN) (\<lambda>c.
        sq (assert_p (c \<noteq> 0))
          (sq (upd_st (\<lambda>t. t\<lparr>pgN := 1\<rparr>)) (go_on (play_PG fuel))))
      else
        sq (upd_st (\<lambda>t. t\<lparr>cellN := cell\<rparr>))
          (bnd (get_st rsm_blockN) (\<lambda>b.
           bnd set_PGN (\<lambda>found.
           sq (assert_p found)
             (ret (Go (lv\<lparr>link_command := PlayThis, data1 := f b, data2 := h b\<rparr>))))))))"
    for f h
  proof (rule triple_bnd [OF cell])
    have zero: "link_prog (bnd (get_st cellN) (\<lambda>c.
        sq (assert_p (c \<noteq> 0))
          (sq (upd_st (\<lambda>t. t\<lparr>pgN := 1\<rparr>)) (go_on (play_PG fuel)))))"
      by (intro inv_upd_trivial link_intro link_steps keeps_intro; simp)
    show "triple (\<lambda>v. vm_inv v \<and> 0 \<le> a)
       (if a = 0 then
        bnd (get_st cellN) (\<lambda>c.
        sq (assert_p (c \<noteq> 0))
          (sq (upd_st (\<lambda>t. t\<lparr>pgN := 1\<rparr>)) (go_on (play_PG fuel))))
      else
        sq (upd_st (\<lambda>t. t\<lparr>cellN := a\<rparr>))
          (bnd (get_st rsm_blockN) (\<lambda>b.
           bnd set_PGN (\<lambda>found.
           sq (assert_p found)
             (ret (Go (lv\<lparr>link_command := PlayThis, data1 := f b, data2 := h b\<rparr>)))))))
       verdict_ok" for a
    proof (rule triple_if)
      show "triple (\<lambda>v. vm_inv v \<and> 0 \<le> a) (bnd (get_st cellN) (\<lambda>c.
        sq (assert_p (c \<noteq> 0))
          (sq (upd_st (\<lambda>t. t\<lparr>pgN := 1\<rparr>)) (go_on (play_PG fuel))))) verdict_ok"
        by (rule triple_weaken [OF zero]) auto
    next
      assume "a \<noteq> 0"
      then show "triple (\<lambda>v. vm_inv v \<and> 0 \<le> a) (sq (upd_st (\<lambda>t. t\<lparr>cellN := a\<rparr>))
          (bnd (get_st rsm_blockN) (\<lambda>b.
           bnd set_PGN (\<lambda>found.
           sq (assert_p found)
             (ret (Go (lv\<lparr>link_command := PlayThis, data1 := f b, data2 := h b\<rparr>))))))) verdict_ok"
        using resume [where cell = a and f = f and h = h] by (cases "0 \<le> a") (auto simp: triple_def)
    qed
  qed
  show ?thesis
    unfolding link_RSM_def
    by (intro rest inv_upd_trivial link_intro link_steps keeps_intro; simp)
qed

lemma process_link_ok:
  assumes "link_command lv \<noteq> PlayThis"
  shows "link_prog (process_link fuel lv)"
proof -
  have next_cell: "inv_prog (upd_st (\<lambda>t. t\<lparr>cellN := cellN t + 1\<rparr>))"
    and cell: "inv_prog (upd_st (\<lambda>t. t\<lparr>cellN := uint k\<rparr>))" for k :: u16
    by (intro keeps_intro vm_invI_upd; simp add: vm_inv_def)+
  have stopped: "inv_prog (upd (\<lambda>v. v\<lparr>stopped := True\<rparr>))"
    by (rule keeps_upd) (simp add: vm_inv_def find_pgc_def)
  have reserved: "link_prog (ret (Go lv))"
    using assms by (simp add: triple_def verdict_ok_def plays_def)
  show ?thesis
    unfolding process_link_def
    by (cases "link_command lv"; simp only: link_cmd.case;
        intro next_cell cell stopped reserved inv_upd_trivial link_intro link_steps keeps_intro;
        simp)
qed

lemma process_command_ok:
  "triple (plays lv) (process_command fuel lv) (\<lambda>r v. vm_inv v \<and> (r \<longrightarrow> playing v))"
proof (induction fuel arbitrary: lv)
  case 0
  then show ?case by (simp add: triple_err)
next
  case (Suc fuel)
  show ?case
  proof (cases "link_command lv = PlayThis")
    case True
    have "vm_inv (v\<lparr>state := (state v)\<lparr>blockN := b\<rparr>\<rparr>) = vm_inv v" for v b
      by (simp add: vm_inv_def)
    moreover from this have "playing v \<Longrightarrow> playing (v\<lparr>state := (state v)\<lparr>blockN := b\<rparr>\<rparr>)" for v b
      by (auto simp: playing_def at_cell_def)
    ultimately show ?thesis
      using True by (auto simp: triple_def plays_def upd_st_def)
  next
    case False
    have "triple (plays lv) (process_link fuel lv) verdict_ok"
      by (rule triple_weaken [OF process_link_ok [OF False]]) (simp_all add: plays_def)
    moreover have "triple (verdict_ok r)
        (case r of Stop \<Rightarrow> ret False | Go lv' \<Rightarrow> process_command fuel lv')
        (\<lambda>r v. vm_inv v \<and> (r \<longrightarrow> playing v))" for r
      using Suc by (auto simp: triple_def verdict_ok_def split: verdict.split)
    ultimately show ?thesis
      using False by (simp add: triple_bnd)
  qed
qed

section \<open>More fuel\<close>

lemma fuel_play_Cell_with [fuel_intro]:
  "fuel_le m n \<Longrightarrow> fuel_le (play_Cell_with m) (play_Cell_with n)"
  unfolding play_Cell_with_def by (intro fuel_intro)

lemma fuel_play_PG_with [fuel_intro]:
  "fuel_le m n \<Longrightarrow> fuel_le (play_PG_with m) (play_PG_with n)"
  unfolding play_PG_with_def by (intro fuel_intro)

lemma fuel_play_PGC_PG_with [fuel_intro]:
  "fuel_le m n \<Longrightarrow> fuel_le (play_PGC_PG_with m k) (play_PGC_PG_with n k)"
  unfolding play_PGC_PG_with_def by (intro fuel_intro)

lemma fuel_play_PGC_post: "fuel_le (play_PGC_post k) (play_PGC_post (k + d))"
proof (induction k)
  case 0
  then show ?case by (simp add: fuel_le_out)
next
  case (Suc k)
  then show ?case
    unfolding add_Suc play_PGC_post.simps play_PGC_post_with_def play_PGC_with_def
    by (intro fuel_intro)
qed

lemma fuel_play [fuel_intro]:
  "k \<le> l \<Longrightarrow> fuel_le (play_PGC_post k) (play_PGC_post l)"
  "k \<le> l \<Longrightarrow> fuel_le (play_PGC k) (play_PGC l)"
  "k \<le> l \<Longrightarrow> fuel_le (play_PGC_PG k n) (play_PGC_PG l n)"
  "k \<le> l \<Longrightarrow> fuel_le (play_PG k) (play_PG l)"
  "k \<le> l \<Longrightarrow> fuel_le (play_Cell k) (play_Cell l)"
  using fuel_play_PGC_post [of k "l - k"]
  unfolding play_PGC_def play_PGC_with_def play_PGC_PG_def play_PG_def play_Cell_def
  by (simp_all add: fuel_play_PGC_PG_with fuel_play_PG_with fuel_play_Cell_with)

lemma fuel_process_link: "k \<le> l \<Longrightarrow> fuel_le (process_link k lv) (process_link l lv)"
  unfolding process_link_def
  by (cases "link_command lv"; simp only: link_cmd.case link_pgc_def link_RSM_def to_menu_def
        jumpSS_VTSM_def call_SS_def jump_SS_VMGM_def go_on_def; intro fuel_intro; assumption)

lemma fuel_process_command:
  "k \<le> l \<Longrightarrow> fuel_le (process_command k lv) (process_command l lv)"
proof (induction k arbitrary: l lv)
  case 0
  then show ?case by (simp add: fuel_le_out)
next
  case (Suc k)
  then obtain m where l: "l = Suc m" "k \<le> m" by (cases l) auto
  have rest: "fuel_le (case r of Stop \<Rightarrow> ret False | Go lv' \<Rightarrow> process_command k lv')
      (case r of Stop \<Rightarrow> ret False | Go lv' \<Rightarrow> process_command m lv')" for r
    using Suc.IH [OF l(2)] by (cases r) (simp_all add: fuel_le_refl)
  show ?case
    unfolding l(1) process_command.simps
    by (intro fuel_le_if fuel_le_bnd fuel_le_refl fuel_process_link l(2) rest)
qed

end
