(* ===== verification/Vm_Api.thy ===== *)
theory Vm_Api
  imports Vm_Play
begin

text \<open>
  The operations of \<^verbatim>\<open>vm.h\<close> that the rest of libdvdnav calls: starting and stopping, the jumps,
  running one command, saving, restoring and copying the state, and the queries for the
  position and the streams.  The device name, the serial number and the remap table of
  \<^verbatim>\<open>vm_t\<close> are not part of the model's state.
\<close>

section \<open>Basic handling\<close>

definition vm_start :: "nat \<Rightarrow> (vm, bool) prog" where
  "vm_start fuel =
     bnd set_FP_PGC (\<lambda>_.
     bnd (play_PGC fuel) (\<lambda>lv.
     bnd (process_command fuel lv) (\<lambda>_.
     rd (\<lambda>v. \<not> stopped v))))"

definition vm_stop :: "(vm, unit) prog" where
  "vm_stop = upd (\<lambda>v. v\<lparr>vmgi := None, vtsi := None, vm_dvd := None, stopped := True\<rparr>)"

text \<open>
  The state \<^verbatim>\<open>vm_reset\<close> sets up.  What it leaves alone (the current chain, the block, the saved
  registers) stays.
\<close>

definition reset_registers :: registers where
  "reset_registers =
     \<lparr>SPRM = [0x656E, 15, 62, 1, 1, 1, 0, 1, 1024, 0, 0, 0, 0x5553, 15, 0x100, 0,
              0x656E, 0, 0x656E, 0, 1, 0, 0, 0],
      GPRM = replicate 16 0, GPRM_mode = replicate 16 0,
      GPRM_time = replicate 16 \<lparr>tv_sec = 0, tv_usec = 0\<rparr>\<rparr>"

definition reset_state :: "dvd_state \<Rightarrow> dvd_state" where
  "reset_state s = s\<lparr>registers := reset_registers, pgN := 0, cellN := 0, cell_restart := 0,
     domain := FP_DOMAIN, rsm_vtsN := 0, rsm_cellN := 0, rsm_blockN := 0, vtsN := -1\<rparr>"

text \<open>
  \<^verbatim>\<open>vm_reset(vm, dvdroot)\<close>: \<open>root\<close> says whether \<^verbatim>\<open>dvdroot\<close> is given, \<open>found\<close> is what
  \<^verbatim>\<open>DVDOpen\<close> returns for it.  The failures of the reads after the menu table (\<^verbatim>\<open>ifoRead_PTL_MAIT\<close>,
  \<^verbatim>\<open>ifoRead_VTS_ATRT\<close>, \<^verbatim>\<open>ifoRead_VOBU_ADMAP\<close>) are ignored as in the code, whose \<^verbatim>\<open>return 0\<close> after
  them is commented out; a menu address map that cannot be read is \<open>None\<close>.
\<close>

definition vm_reset :: "bool \<Rightarrow> disc option \<Rightarrow> (vm, bool) prog" where
  "vm_reset root found =
     sq (upd (\<lambda>v. v\<lparr>state := reset_state (state v), hop_channel := 0\<rparr>))
       (bnd (rd vm_dvd) (\<lambda>d.
        sq (when_p (d \<noteq> None \<and> root) vm_stop)
          (bnd (rd vm_dvd) (\<lambda>d2.
           if d2 \<noteq> None then ret True
           else
             sq (upd (\<lambda>v. v\<lparr>vm_dvd := found\<rparr>))
               (case found of None \<Rightarrow> ret False
                | Some c \<Rightarrow>
                    (case disc_vmg c of
                       None \<Rightarrow> sq (upd (\<lambda>v. v\<lparr>vmgi := None\<rparr>)) (ret False)
                     | Some s \<Rightarrow>
                         bnd (rd next_hid) (\<lambda>k.
                         let f = vmg_handle s;
                             h0 = f\<lparr>hid := k, first_play_pgc := None, tt_srpt := None,
                                    pgci_ut := None, menu_vobu_admap := None\<rparr>;
                             h1 = h0\<lparr>first_play_pgc := first_play_pgc f\<rparr>;
                             h2 = h1\<lparr>tt_srpt := tt_srpt f\<rparr>;
                             h3 = h2\<lparr>pgci_ut := pgci_ut f, menu_vobu_admap := menu_vobu_admap f\<rparr>;
                             h = (if \<not> ok_fp_pgc s then h0 else if \<not> ok_tt_srpt s then h1
                                  else if \<not> ok_vmg_pgci_ut s then h2 else h3)
                         in sq (upd (\<lambda>v. v\<lparr>vmgi := Some h, next_hid := Suc k\<rparr>))
                              (ret (ok_fp_pgc s \<and> ok_tt_srpt s \<and> ok_vmg_pgci_ut s)))))))))"

section \<open>Copying and merging\<close>

text \<open>
  \<^verbatim>\<open>vm_new_copy\<close> returns a machine of its own with a new handle of the title set; the source
  only loses the identity the new handle takes.  \<^verbatim>\<open>vm_merge\<close> replaces the whole target, the title set
  of the target, which the code closes, included; the code then zeroes the source, which its
  callers drop, so the source has no state afterwards here.
\<close>

definition reopen_copy :: "int \<Rightarrow> (vm, unit) prog" where
  "reopen_copy n =
     sq (upd (\<lambda>v. v\<lparr>vtsi := None\<rparr>))
       (bnd (get_st vtsN) (\<lambda>vts.
        bnd (get_st pgN) (\<lambda>pg.
        when_p (vts > 0)
          (sq (upd_st (\<lambda>t. t\<lparr>vtsN := 0\<rparr>))
            (bnd (ifoOpenNewVTSI vts) (\<lambda>ok.
             sq (assert_p ok)
               (bnd (set_PGCN n) (\<lambda>ok2.
                sq (assert_p ok2) (upd_st (\<lambda>t. t\<lparr>pgN := pg\<rparr>))))))))))"

definition vm_new_copy :: "(vm, vm) prog" where
  "vm_new_copy =
     bnd get_PGCN (\<lambda>n.
     sq (assert_p (n \<noteq> 0))
       (\<lambda>v. case reopen_copy n v of
           Inl f \<Rightarrow> Inl f
         | Inr (_, t) \<Rightarrow> Inr (t, v\<lparr>next_hid := next_hid t\<rparr>)))"

definition vm_merge :: "vm \<Rightarrow> (vm, unit) prog" where
  "vm_merge source = upd (\<lambda>_. source)"

section \<open>Jumping\<close>

definition vm_get_next_cell :: "nat \<Rightarrow> (vm, unit) prog" where
  "vm_get_next_cell fuel =
     bnd (play_Cell_post fuel) (\<lambda>lv. bnd (process_command fuel lv) (\<lambda>_. ret ()))"

definition vm_jump_top_pg :: "nat \<Rightarrow> (vm, bool) prog" where
  "vm_jump_top_pg fuel =
     bnd (play_PG fuel) (\<lambda>lv. bnd (process_command fuel lv) (\<lambda>_. ret True))"

definition vm_jump_pg :: "nat \<Rightarrow> int \<Rightarrow> (vm, bool) prog" where
  "vm_jump_pg fuel pg =
     sq (upd_st (\<lambda>t. t\<lparr>pgN := pg\<rparr>))
       (bnd (play_PG fuel) (\<lambda>lv. bnd (process_command fuel lv) (\<lambda>_. ret True)))"

definition vm_jump_cell_block :: "nat \<Rightarrow> int \<Rightarrow> int \<Rightarrow> (vm, bool) prog" where
  "vm_jump_cell_block fuel cell block =
     sq (upd_st (\<lambda>t. t\<lparr>cellN := cell\<rparr>))
       (bnd (play_Cell fuel) (\<lambda>lv.
        bnd (process_command fuel lv) (\<lambda>_.
        bnd (get_st cellN) (\<lambda>c.
        sq (when_p (c = cell) (upd_st (\<lambda>t. t\<lparr>blockN := block\<rparr>))) (ret True)))))"

text \<open>The common tail of the two title jumps: a jump of the pre-commands is ignored.\<close>

definition play_title :: "nat \<Rightarrow> (vm, bool) prog" where
  "play_title fuel =
     bnd (get_st pgN) (\<lambda>n.
     bnd (play_PGC_PG fuel n) (\<lambda>lv.
     bnd (if link_command lv \<noteq> PlayThis then play_PG fuel else ret lv) (\<lambda>lv2.
     bnd (process_command fuel lv2) (\<lambda>_. ret True))))"

definition vm_jump_title_program :: "nat \<Rightarrow> int \<Rightarrow> int \<Rightarrow> int \<Rightarrow> (vm, bool) prog" where
  "vm_jump_title_program fuel title pgcn pgn =
     bnd (set_PROG title pgcn pgn) (\<lambda>ok. if \<not> ok then ret False else play_title fuel)"

definition vm_jump_title_part :: "nat \<Rightarrow> int \<Rightarrow> int \<Rightarrow> (vm, bool) prog" where
  "vm_jump_title_part fuel title part =
     bnd (set_PTT title part) (\<lambda>ok. if \<not> ok then ret False else play_title fuel)"

definition vm_jump_next_pg :: "nat \<Rightarrow> (vm, bool) prog" where
  "vm_jump_next_pg fuel =
     bnd (get_st pgN) (\<lambda>n.
     bnd the_pgc (\<lambda>g.
     if n \<ge> uint (nr_of_programs g) then
       bnd (play_PGC_post fuel) (\<lambda>lv. bnd (process_command fuel lv) (\<lambda>_. ret True))
     else bnd (vm_jump_pg fuel (n + 1)) (\<lambda>_. ret True)))"

definition vm_jump_prev_pg :: "nat \<Rightarrow> (vm, bool) prog" where
  "vm_jump_prev_pg fuel =
     bnd (get_st pgN) (\<lambda>n.
     if n \<le> 1 then
       bnd the_pgc (\<lambda>g.
       bnd (if prev_pgc_nr g \<noteq> 0 then set_PGCN (uint (prev_pgc_nr g)) else ret False) (\<lambda>ok.
       if ok then
         bnd (play_PGC fuel) (\<lambda>lv.
         bnd (process_command fuel lv) (\<lambda>_.
         bnd the_pgc (\<lambda>g2.
         bnd (vm_jump_pg fuel (uint (nr_of_programs g2))) (\<lambda>_. ret True))))
       else ret False))
     else bnd (vm_jump_pg fuel (n - 1)) (\<lambda>_. ret True))"

definition vm_jump_up :: "nat \<Rightarrow> (vm, bool) prog" where
  "vm_jump_up fuel =
     bnd the_pgc (\<lambda>g.
     bnd (if goup_pgc_nr g \<noteq> 0 then set_PGCN (uint (goup_pgc_nr g)) else ret False) (\<lambda>ok.
     if ok then bnd (play_PGC fuel) (\<lambda>lv. bnd (process_command fuel lv) (\<lambda>_. ret True))
     else ret False))"

text \<open>\<^verbatim>\<open>DVDMenuID_t\<close> and its values.\<close>

datatype menu_id =
    DVD_MENU_Escape | DVD_MENU_Title | DVD_MENU_Root | DVD_MENU_Subpicture
  | DVD_MENU_Audio | DVD_MENU_Angle | DVD_MENU_Part

fun menu_value :: "menu_id \<Rightarrow> int" where
  "menu_value DVD_MENU_Escape = 0"
| "menu_value DVD_MENU_Title = 2"
| "menu_value DVD_MENU_Root = 3"
| "menu_value DVD_MENU_Subpicture = 4"
| "menu_value DVD_MENU_Audio = 5"
| "menu_value DVD_MENU_Angle = 6"
| "menu_value DVD_MENU_Part = 7"

definition vm_jump_menu :: "nat \<Rightarrow> menu_id \<Rightarrow> (vm, bool) prog" where
  "vm_jump_menu fuel menuid =
     bnd (get_st domain) (\<lambda>old.
     if old = FP_DOMAIN \<or> old = NO_DOMAIN then ret False
     else
       sq (when_p (old = VTS_DOMAIN) (bnd (get_st blockN) (\<lambda>b. set_RSMinfo 0 b)))
         (let vmg = (menuid = DVD_MENU_Title \<or> menuid = DVD_MENU_Escape) in
          bnd (rd (if vmg then vmgi else vtsi)) (\<lambda>h.
          if pgci_ut_missing h then ret False
          else
            sq (upd_st (\<lambda>t. t\<lparr>domain := (if vmg then VMGM_DOMAIN else VTSM_DOMAIN)\<rparr>))
              (bnd get_PGCIT (\<lambda>p.
               bnd (if p = None then ret False else set_MENU (menu_value menuid)) (\<lambda>ok.
               if ok then
                 bnd (play_PGC fuel) (\<lambda>lv. bnd (process_command fuel lv) (\<lambda>_. ret True))
               else sq (upd_st (\<lambda>t. t\<lparr>domain := old\<rparr>)) (ret False)))))))"

definition vm_jump_resume :: "nat \<Rightarrow> (vm, bool) prog" where
  "vm_jump_resume fuel =
     bnd (get_st rsm_vtsN) (\<lambda>n.
     if n = 0 then ret False
     else process_command fuel (link_zero\<lparr>link_command := LinkRSM\<rparr>))"

definition vm_exec_cmd :: "nat \<Rightarrow> vm_cmd \<Rightarrow> (vm, bool) prog" where
  "vm_exec_cmd fuel cmd =
     bnd (eval_cmds [cmd]) (\<lambda>(linked, lv).
     if linked then process_command fuel lv else ret False)"

section \<open>Saving and restoring the state\<close>

definition vm_get_state :: "(vm, dvd_state) prog" where
  "vm_get_state = rd (\<lambda>v. (state v)\<lparr>cur_pgc := None\<rparr>)"

definition vm_set_state :: "dvd_state \<Rightarrow> (vm, bool) prog" where
  "vm_set_state save =
     bnd (ifoOpenNewVTSI (vtsN save)) (\<lambda>ok.
     if \<not> ok then ret False
     else
       sq (upd_st (\<lambda>_. save))
         (bnd (set_PGCN (pgcN save)) (\<lambda>ok2.
          if \<not> ok2 then ret False
          else
            sq (upd_st (\<lambda>t. save\<lparr>cur_pgc := cur_pgc t\<rparr>))
              (sq (upd_st (\<lambda>t. if domain t \<noteq> VTS_DOMAIN then t\<lparr>blockN := 0\<rparr> else t))
                (sq (upd (\<lambda>v. v\<lparr>hop_channel := hop_channel v + 1\<rparr>)) (ret True))))))"

end
