(* ===== verification/Vm_Query.thy ===== *)
theory Vm_Query
  imports Vm_Api
begin

text \<open>
  The queries of \<^verbatim>\<open>vm.h\<close>: the playing position (\<^verbatim>\<open>vm_position_get\<close>), the current menu, the
  audio and subpicture streams, the angle and the video attributes.
\<close>

section \<open>Position\<close>

record vm_position =
  p_button :: int
  p_vts :: int
  p_domain :: domain
  p_spu_channel :: int
  p_angle_channel :: int
  p_audio_channel :: int
  p_hop_channel :: int
  p_cell :: int
  p_cell_restart :: int
  p_cell_start :: int
  p_still :: int
  p_block :: int

text \<open>A playback time in seconds, from its binary coded digits.\<close>

definition bcd_seconds :: "dvd_time \<Rightarrow> int" where
  "bcd_seconds t =
     uint (drop_bit 4 (dt_hour t)) * 36000 + uint (dt_hour t AND 0x0f) * 3600 +
     uint (drop_bit 4 (dt_minute t)) * 600 + uint (dt_minute t AND 0x0f) * 60 +
     uint (drop_bit 4 (dt_second t)) * 10 + uint (dt_second t AND 0x0f)"

text \<open>The still time \<^verbatim>\<open>vm_position_get\<close> makes up for a short cell with a long playback time.\<close>

definition guessed_still :: "cell_playback \<Rightarrow> int" where
  "guessed_still c =
     (if last_sector c = last_vobu_start_sector c \<and> last_sector c - first_sector c < 1024 then
        let time = bcd_seconds (cell_playback_time c);
            size = uint (last_sector c - first_sector c)
        in if time = 0 \<or> size div time > 30 then 0
           else if time > 0xff then 0xff else time
      else 0)"

definition vm_position_get :: "(vm, vm_position) prog" where
  "vm_position_get =
     bnd (get_sprm HL_BTNN_REG) (\<lambda>btn.
     bnd (get_sprm SPST_REG) (\<lambda>spu.
     bnd (get_sprm AST_REG) (\<lambda>ast.
     bnd (get_sprm AGL_REG) (\<lambda>agl.
     bnd (rd (\<lambda>v. v)) (\<lambda>v.
     bnd (the_cell (cellN (state v) - 1)) (\<lambda>c.
     bnd the_pgc (\<lambda>g.
     let still = uint (cell_still_time c) +
           (if cellN (state v) = uint (nr_of_cells g) then uint (pgc_still_time g) else 0)
     in ret \<lparr>p_button = uint (drop_bit 10 btn), p_vts = vtsN (state v),
             p_domain = domain (state v), p_spu_channel = uint spu,
             p_angle_channel = uint agl, p_audio_channel = uint ast,
             p_hop_channel = hop_channel v, p_cell = cellN (state v),
             p_cell_restart = cell_restart (state v), p_cell_start = sint (first_sector c),
             p_still = (if still \<noteq> 0 then still else guessed_still c),
             p_block = blockN (state v)\<rparr>)))))))"

definition vm_get_current_menu :: "(vm, int option) prog" where
  "vm_get_current_menu =
     bnd (get_st pgcN) (\<lambda>n.
     bnd get_PGCIT (\<lambda>t.
     case t of None \<Rightarrow> ret None
     | Some (h, srps) \<Rightarrow>
         bnd (lift_r (arr_get srps (n - 1))) (\<lambda>s. ret (Some (uint (entry_id s AND 0xf))))))"

section \<open>Video attributes\<close>

definition vm_get_video_attr :: "(vm, video_attr) prog" where
  "vm_get_video_attr =
     bnd (get_st domain) (\<lambda>d.
     case d of
       VTS_DOMAIN \<Rightarrow> bnd (rd vtsi) (\<lambda>h. bnd (deref NullDeref h) (\<lambda>i. ret (vts_video_attr i)))
     | VTSM_DOMAIN \<Rightarrow> bnd (rd vtsi) (\<lambda>h. bnd (deref NullDeref h) (\<lambda>i. ret (menu_video_attr i)))
     | VMGM_DOMAIN \<Rightarrow> bnd (rd vmgi) (\<lambda>h. bnd (deref NullDeref h) (\<lambda>i. ret (menu_video_attr i)))
     | FP_DOMAIN \<Rightarrow> bnd (rd vmgi) (\<lambda>h. bnd (deref NullDeref h) (\<lambda>i. ret (menu_video_attr i)))
     | NO_DOMAIN \<Rightarrow> err AbortCall)"

definition vm_get_video_aspect :: "(vm, int) prog" where
  "vm_get_video_aspect =
     bnd vm_get_video_attr (\<lambda>a.
     let aspect = uint (display_aspect_ratio a)
     in sq (assert_p (aspect = 0 \<or> aspect = 3))
         (bnd (get_sprm 14) (\<lambda>x.
          sq (put_sprm 14 ((x AND NOT (push_bit 10 3)) OR push_bit 10 (word_of_int aspect)))
            (ret aspect))))"

definition vm_get_video_scale_permission :: "(vm, int) prog" where
  "vm_get_video_scale_permission = bnd vm_get_video_attr (\<lambda>a. ret (uint (permitted_df a)))"

definition vm_get_video_res :: "(vm, int \<times> int) prog" where
  "vm_get_video_res =
     bnd vm_get_video_attr (\<lambda>a.
     let height = (if video_format a \<noteq> 0 then 576 else 480)
     in ret (if picture_size a = 0 then (720, height)
             else if picture_size a = 1 then (704, height)
             else if picture_size a = 2 then (352, height)
             else (352, height div 2)))"

section \<open>Streams\<close>

definition vm_get_audio_stream :: "int \<Rightarrow> (vm, int) prog" where
  "vm_get_audio_stream n =
     bnd (get_st domain) (\<lambda>d.
     let audioN = (if d \<noteq> VTS_DOMAIN then 0 else n)
     in bnd (if audioN < 8 then
               bnd the_pgc (\<lambda>g.
               bnd (lift_r (arr_get (audio_control g) audioN)) (\<lambda>ctl.
               ret (if bit ctl 15 then uint (drop_bit 8 ctl AND 7) else -1)))
             else ret (-1)) (\<lambda>streamN.
        ret (if d \<noteq> VTS_DOMAIN \<and> streamN = -1 then 0 else streamN)))"

text \<open>The field of a subpicture control word that the aspect and the mode select.\<close>

definition subp_field :: "int \<Rightarrow> int \<Rightarrow> u32 \<Rightarrow> int" where
  "subp_field aspect mode ctl =
     (if aspect = 0 then uint (drop_bit 24 ctl AND 0x1f)
      else if aspect = 3 then
        (if mode = 0 then uint (drop_bit 16 ctl AND 0x1f)
         else if mode = 1 then uint (drop_bit 8 ctl AND 0x1f)
         else if mode = 2 then uint (ctl AND 0x1f)
         else -1)
      else -1)"

definition vm_get_subp_stream :: "int \<Rightarrow> int \<Rightarrow> (vm, int) prog" where
  "vm_get_subp_stream n mode =
     bnd vm_get_video_aspect (\<lambda>aspect.
     bnd (get_st domain) (\<lambda>d.
     let subpN = (if d \<noteq> VTS_DOMAIN then 0 else n)
     in bnd (if subpN < 32 then
               bnd the_pgc (\<lambda>g.
               bnd (lift_r (arr_get (subp_control g) subpN)) (\<lambda>ctl.
               ret (if bit ctl 31 then subp_field aspect mode ctl else -1)))
             else ret (-1)) (\<lambda>streamN.
        ret (if d \<noteq> VTS_DOMAIN \<and> streamN = -1 then 0 else streamN))))"

text \<open>
  The search loops: the first of the streams \<open>ns\<close> that is present and has an id; \<open>lastN\<close> is
  the value the variable had before.
\<close>

fun first_audio :: "int list \<Rightarrow> int \<Rightarrow> (vm, int) prog" where
  "first_audio [] lastN = ret lastN"
| "first_audio (n # ns) lastN =
     bnd the_pgc (\<lambda>g.
     bnd (lift_r (arr_get (audio_control g) n)) (\<lambda>ctl.
     if bit ctl 15 then
       bnd (vm_get_audio_stream n) (\<lambda>s. if s \<ge> 0 then ret s else first_audio ns s)
     else first_audio ns lastN))"

definition vm_get_audio_active_stream :: "(vm, int) prog" where
  "vm_get_audio_active_stream =
     bnd (get_sprm AST_REG) (\<lambda>n.
     bnd (vm_get_audio_stream (uint n)) (\<lambda>s.
     if s = -1 then first_audio [0..7] s else ret s))"

fun first_subp :: "int \<Rightarrow> int list \<Rightarrow> int \<Rightarrow> (vm, int) prog" where
  "first_subp mode [] lastN = ret lastN"
| "first_subp mode (n # ns) lastN =
     bnd the_pgc (\<lambda>g.
     bnd (lift_r (arr_get (subp_control g) n)) (\<lambda>ctl.
     if bit ctl 31 then
       bnd (vm_get_subp_stream n mode) (\<lambda>s. if s \<ge> 0 then ret s else first_subp mode ns s)
     else first_subp mode ns lastN))"

definition vm_get_subp_active_stream :: "int \<Rightarrow> (vm, int) prog" where
  "vm_get_subp_active_stream mode =
     bnd (get_sprm SPST_REG) (\<lambda>n.
     bnd (vm_get_subp_stream (uint (n AND NOT 0x40)) mode) (\<lambda>s.
     bnd (if s = -1 then first_subp mode [0..31] s else ret s) (\<lambda>streamN.
     bnd (get_st domain) (\<lambda>d.
     bnd (get_sprm SPST_REG) (\<lambda>spst.
     ret (if d = VTS_DOMAIN \<and> spst AND 0x40 = 0 then streamN OR 0x80 else streamN))))))"

section \<open>Angles\<close>

text \<open>The current angle and the number of angles.\<close>

definition vm_get_angle_info :: "(vm, int \<times> int) prog" where
  "vm_get_angle_info =
     bnd (get_st domain) (\<lambda>d.
     if d \<noteq> VTS_DOMAIN then ret (1, 1)
     else
       bnd (get_sprm TTN_REG) (\<lambda>ttn.
       bnd the_tt_srpt (\<lambda>titles.
       if uint ttn > int (length titles) then ret (1, 1)
       else
         bnd (lift_r (arr_get titles (uint ttn - 1))) (\<lambda>t.
         bnd (get_st vtsN) (\<lambda>vts.
         bnd (get_sprm VTS_TTN_REG) (\<lambda>vts_ttn.
         if uint (title_set_nr t) \<noteq> vts \<or> uint (title_vts_ttn t) \<noteq> uint vts_ttn
         then ret (1, 1)
         else bnd (get_sprm AGL_REG) (\<lambda>agl. ret (uint agl, uint (nr_of_angles t)))))))))"

end
