(* ===== verification/Vm_Session.thy ===== *)
theory Vm_Session
  imports Vm_Playing Vm_Api Vm_Query
begin

text \<open>
  The operations of \<^verbatim>\<open>vm.h\<close> keep the invariant, one lemma each, and so does every sequence of
  them: the calls form a datatype, \<open>api_run\<close> runs one, and the interpretation of the locale
  \<open>session\<close> carries the invariant to all reachable states.
\<close>

section \<open>Every operation keeps the invariant\<close>

lemma inv_play_process:
  assumes "play_prog m" and k: "\<And>r. inv_prog (k r)"
  shows "inv_prog (bnd m (\<lambda>lv. bnd (process_command fuel lv) k))"
proof -
  have "triple (\<lambda>v. vm_inv v \<and> (r \<longrightarrow> playing v)) (k r) (\<lambda>_. vm_inv)" for r
    using k [unfolded triple_keeps] by (rule triple_weaken) auto
  then have "triple (plays lv) (bnd (process_command fuel lv) k) (\<lambda>_. vm_inv)" for lv
    by (rule triple_bnd [OF process_command_ok])
  then show ?thesis unfolding triple_keeps using assms(1) by (rule triple_bnd [rotated])
qed

lemma inv_process_command:
  "link_command lv \<noteq> PlayThis \<Longrightarrow> inv_prog (process_command fuel lv)"
  unfolding triple_keeps
  by (rule triple_weaken [OF process_command_ok]) (auto simp: plays_def)

section \<open>The operations of the machine\<close>

lemma inv_vm_start: "inv_prog (vm_start fuel)"
  unfolding vm_start_def by (intro inv_play_process play_plays keeps_intro)

lemma inv_vm_stop: "inv_prog vm_stop"
  unfolding vm_stop_def by (rule keeps_upd) (simp add: vm_inv_def wf_disc_def)

lemma wf_vmg_handle:
  "wf_handle f \<Longrightarrow> wf_handle (f\<lparr>hid := k, first_play_pgc := a, tt_srpt := b, pgci_ut := c\<rparr>)"
  by (simp add: wf_handle_def)

lemma reset_state_inv: "vm_inv v \<Longrightarrow> vm_inv (v\<lparr>state := reset_state (state v), hop_channel := h\<rparr>)"
  by (simp add: vm_inv_def reset_state_def reset_registers_def wf_registers_def)

lemma inv_vm_reset:
  assumes "wf_disc found"
  shows "inv_prog (vm_reset root found)"
proof -
  have src: "wf_handle (vmg_handle s)" if "found = Some c" "disc_vmg c = Some s" for c s
    using assms that by (simp add: wf_disc_def)
  show ?thesis
    unfolding vm_reset_def
    by (intro keeps_intro keeps_upd reset_state_inv inv_vm_stop)
      (use assms src in \<open>auto simp: vm_inv_def wf_handle_def Let_def\<close>)
qed

lemma inv_vm_jumps:
  "inv_prog (vm_get_next_cell fuel)" "inv_prog (vm_jump_top_pg fuel)"
  "inv_prog (vm_jump_pg fuel pg)"
  unfolding vm_get_next_cell_def vm_jump_top_pg_def vm_jump_pg_def
  by (intro inv_upd_trivial keeps_sq inv_play_process play_plays play_Cell_post_plays
      keeps_ret; simp)+

lemma inv_vm_jump_cell_block: "inv_prog (vm_jump_cell_block fuel cell block)"
proof (cases "0 \<le> cell")
  case True
  then have set: "inv_prog (upd_st (\<lambda>t. t\<lparr>cellN := cell\<rparr>))"
    by (intro keeps_intro vm_invI_upd) (auto simp: vm_inv_def)
  show ?thesis
    unfolding vm_jump_cell_block_def
    by (rule keeps_sq [OF set], intro inv_play_process play_plays inv_upd_trivial keeps_intro; simp)
next
  case False
  then show ?thesis
    by (simp add: vm_jump_cell_block_def keeps_def play_Cell_def play_Cell_with_def get_st_def
        upd_st_def)
qed

lemma play_title_first:
  "play_prog m \<Longrightarrow> triple (plays lv) (if link_command lv \<noteq> PlayThis then m else ret lv) plays"
  by (auto simp: triple_def plays_def)

lemma play_prog_title:
  "play_prog (bnd (play_PGC_PG fuel n) (\<lambda>lv.
     if link_command lv \<noteq> PlayThis then play_PG fuel else ret lv))"
  by (rule triple_bnd [OF play_plays(2)]) (rule play_title_first [OF play_plays(3)])

lemma bnd_assoc: "bnd (bnd m f) g = bnd m (\<lambda>a. bnd (f a) g)"
  by (auto simp: bnd_def fun_eq_iff split: sum.split)

lemma inv_play_title: "inv_prog (play_title fuel)"
  unfolding play_title_def bnd_assoc [symmetric, of "play_PGC_PG fuel n" for n]
  by (intro keeps_bnd inv_play_process play_prog_title keeps_intro)

lemma inv_vm_jump_title:
  "inv_prog (vm_jump_title_part fuel title part)"
  "inv_prog (vm_jump_title_program fuel title pgcn pgn)"
  unfolding vm_jump_title_part_def vm_jump_title_program_def
  by (intro inv_play_title keeps_intro; simp)+

lemma inv_vm_jump_next_pg: "inv_prog (vm_jump_next_pg fuel)"
  unfolding vm_jump_next_pg_def
  by (intro inv_vm_jumps inv_play_process play_PGC_post_plays keeps_intro; simp)

lemma inv_vm_jump_prev_pg: "inv_prog (vm_jump_prev_pg fuel)"
  unfolding vm_jump_prev_pg_def
  by (intro inv_vm_jumps inv_play_process play_plays keeps_intro; simp)

lemma inv_vm_jump_up: "inv_prog (vm_jump_up fuel)"
  unfolding vm_jump_up_def
  by (intro inv_play_process play_plays keeps_intro; simp)

lemma inv_vm_jump_menu: "inv_prog (vm_jump_menu fuel menuid)"
  unfolding vm_jump_menu_def Let_def
  by (intro inv_play_process play_plays inv_upd_trivial keeps_intro; simp)

lemma inv_vm_jump_resume: "inv_prog (vm_jump_resume fuel)"
  unfolding vm_jump_resume_def by (intro inv_process_command keeps_intro; simp)

lemma inv_vm_exec_cmd: "inv_prog (vm_exec_cmd fuel cmd)"
proof -
  have "triple (\<lambda>v. vm_inv v \<and> no_play (snd r))
      (case r of (linked, lv) \<Rightarrow> if linked then process_command fuel lv else ret False)
      (\<lambda>_. vm_inv)" for r
    using inv_process_command [of "snd r" fuel]
    by (auto simp: triple_def keeps_def no_play_def split: prod.split)
  then show ?thesis
    unfolding vm_exec_cmd_def triple_keeps by (rule triple_bnd [OF triple_eval_cmds])
qed

text \<open>A saved state that can be restored: what \<^verbatim>\<open>vm_get_state\<close> returns from a well-formed machine.\<close>

definition wf_save :: "dvd_state \<Rightarrow> bool" where
  "wf_save s \<longleftrightarrow> wf_registers (registers s) \<and> length (rsm_regs s) = 5 \<and>
     0 \<le> cellN s \<and> 0 \<le> rsm_cellN s"

lemma inv_vm_set_state:
  assumes "wf_save s"
  shows "inv_prog (vm_set_state s)"
proof -
  have "inv_prog (upd_st (\<lambda>_. s))" "inv_prog (upd_st (\<lambda>t. s\<lparr>cur_pgc := cur_pgc t\<rparr>))"
    using assms by (simp_all add: upd_st_def keeps_def vm_inv_def wf_save_def)
  moreover have "inv_prog (upd_st (\<lambda>t. if domain t \<noteq> VTS_DOMAIN then t\<lparr>blockN := 0\<rparr> else t))"
    "inv_prog (upd (\<lambda>v. v\<lparr>hop_channel := hop_channel v + 1\<rparr>))"
    by (simp_all add: upd_st_def keeps_def vm_inv_def)
  ultimately show ?thesis
    unfolding vm_set_state_def
    by (intro keeps_bnd keeps_sq keeps_if keeps_ret inv_ifoOpenNewVTSI inv_set_PGCN)
qed

section \<open>Sequences of operations\<close>

text \<open>A call, with the fuel it may use.\<close>

datatype api_call =
    CallStart nat | CallStop | CallReset bool "disc option"
  | CallNextCell nat | CallTopPg nat | CallPg nat int | CallCellBlock nat int int
  | CallTitleProgram nat int int int | CallTitlePart nat int int
  | CallNextPg nat | CallPrevPg nat | CallUp nat | CallMenu nat menu_id
  | CallResume nat | CallCmd nat vm_cmd | CallSetState dvd_state

fun api_run :: "api_call \<Rightarrow> (vm, bool) prog" where
  "api_run (CallStart n) = vm_start n"
| "api_run CallStop = sq vm_stop (ret True)"
| "api_run (CallReset root found) = vm_reset root found"
| "api_run (CallNextCell n) = sq (vm_get_next_cell n) (ret True)"
| "api_run (CallTopPg n) = vm_jump_top_pg n"
| "api_run (CallPg n pg) = vm_jump_pg n pg"
| "api_run (CallCellBlock n cell block) = vm_jump_cell_block n cell block"
| "api_run (CallTitleProgram n title pgcn pgn) = vm_jump_title_program n title pgcn pgn"
| "api_run (CallTitlePart n title part) = vm_jump_title_part n title part"
| "api_run (CallNextPg n) = vm_jump_next_pg n"
| "api_run (CallPrevPg n) = vm_jump_prev_pg n"
| "api_run (CallUp n) = vm_jump_up n"
| "api_run (CallMenu n menu) = vm_jump_menu n menu"
| "api_run (CallResume n) = vm_jump_resume n"
| "api_run (CallCmd n cmd) = vm_exec_cmd n cmd"
| "api_run (CallSetState save) = vm_set_state save"

text \<open>What a caller must supply: a disc with well-formed tables, a state of the right shape.\<close>

fun api_ok :: "api_call \<Rightarrow> bool" where
  "api_ok (CallReset root found) = wf_disc found"
| "api_ok (CallSetState save) = wf_save save"
| "api_ok _ = True"

lemma api_keeps:
  assumes "api_ok c"
  shows "inv_prog (api_run c)"
  using assms
  by (cases c)
    (auto intro: inv_vm_start inv_vm_reset inv_vm_jumps inv_vm_jump_cell_block
      inv_vm_jump_title inv_vm_jump_next_pg inv_vm_jump_prev_pg inv_vm_jump_up inv_vm_jump_menu
      inv_vm_jump_resume inv_vm_exec_cmd inv_vm_set_state keeps_sq inv_vm_stop keeps_ret)

interpretation api: session vm_inv api_run api_ok
  by unfold_locales (rule api_keeps)

text \<open>\<^verbatim>\<open>vm_new_vm\<close>: a machine of zeros, in the environment \<open>e\<close>.\<close>

definition vm_new_vm :: "os \<Rightarrow> vm" where
  "vm_new_vm e =
     \<lparr>vm_dvd = None, vmgi = None, vtsi = None,
      state = \<lparr>registers = \<lparr>SPRM = replicate 24 0, GPRM = replicate 16 0,
                 GPRM_mode = replicate 16 0,
                 GPRM_time = replicate 16 \<lparr>tv_sec = 0, tv_usec = 0\<rparr>\<rparr>,
               domain = NO_DOMAIN, vtsN = 0, cur_pgc = None, pgcN = 0, pgN = 0, cellN = 0,
               cell_restart = 0, blockN = 0, rsm_vtsN = 0, rsm_blockN = 0,
               rsm_regs = replicate 5 0, rsm_pgcN = 0, rsm_cellN = 0\<rparr>,
      hop_channel = 0, stopped = False, vm_env = e, next_hid = 0\<rparr>"

lemma vm_new_vm_inv: "vm_inv (vm_new_vm e)"
  by (simp add: vm_new_vm_def vm_inv_def wf_registers_def wf_disc_def)

end
