(* ===== verification/Vm_Example.thy ===== *)
theory Vm_Example
  imports Vm_Session Decoder_Props
begin

text \<open>
  A small disc for the witnesses: a video manager with a first-play chain and a menu, and one
  title set with a title of two parts.
\<close>

definition ex_cell :: cell_playback where
  "ex_cell = \<lparr>block_mode = 0, block_type = 0, cell_still_time = 0, cell_cmd_nr = 0,
     cell_playback_time = \<lparr>dt_hour = 0, dt_minute = 0, dt_second = 0x45, dt_frame_u = 0\<rparr>,
     first_sector = 100, first_ilvu_end_sector = 0, last_vobu_start_sector = 110,
     last_sector = 110\<rparr>"

definition ex_uops :: user_ops where
  "ex_uops = \<lparr>uop_zero = 0, video_pres_mode_change = 0, karaoke_audio_pres_mode_change = 0,
     angle_change = 0, subpic_stream_change = 0, audio_stream_change = 0, pause_on = 0,
     still_off = 0, button_select_or_activate = 0, uop_resume = 0, chapter_menu_call = 0,
     angle_menu_call = 0, audio_menu_call = 0, subpic_menu_call = 0, root_menu_call = 0,
     title_menu_call = 0, backward_scan = 0, forward_scan = 0, next_pg_search = 0,
     prev_or_top_pg_search = 0, time_or_chapter_search = 0, go_up = 0, uop_stop = 0,
     title_play = 0, chapter_search_or_play = 0, title_or_time_play = 0\<rparr>"

definition ex_pgc :: pgc where
  "ex_pgc = \<lparr>nr_of_programs = 2, nr_of_cells = 3,
     pgc_playback_time = \<lparr>dt_hour = 0, dt_minute = 2, dt_second = 0x15, dt_frame_u = 0\<rparr>,
     prohibited_ops = ex_uops,
     audio_control = 0x8200 # replicate 7 0, subp_control = 0x81020304 # replicate 31 0,
     next_pgc_nr = 0, prev_pgc_nr = 0, goup_pgc_nr = 0, pgc_still_time = 0,
     palette = replicate 16 0,
     command_tbl = None, program_map = [1, 3], cell_playback = [ex_cell, ex_cell, ex_cell]\<rparr>"

definition ex_attr :: video_attr where
  "ex_attr = \<lparr>video_format = 1, display_aspect_ratio = 3, permitted_df = 0, picture_size = 0\<rparr>"

definition ex_vmg :: "pgc \<Rightarrow> ifo_handle" where
  "ex_vmg g = \<lparr>hid = 0, objs = [g], mat_first_play_pgc = 1024, first_play_pgc = Some 0,
     pgci_ut = Some [\<lparr>lang_code = 0x656E,
                      lu_pgcit = [\<lparr>entry_id = 0x82, srp_pgc = 0\<rparr>]\<rparr>],
     vts_pgcit = None, vts_ptt_srpt = None,
     tt_srpt = Some [\<lparr>nr_of_angles = 1, title_nr_of_ptts = 2, title_set_nr = 1,
                      title_vts_ttn = 1\<rparr>],
     menu_vobu_admap = None, vts_vobu_admap = None, vts_tmapt = None,
     menu_video_attr = ex_attr, vts_video_attr = ex_attr\<rparr>"

definition ex_vts :: ifo_handle where
  "ex_vts = \<lparr>hid = 1, objs = [ex_pgc], mat_first_play_pgc = 0, first_play_pgc = None,
     pgci_ut = Some [\<lparr>lang_code = 0x656E,
                      lu_pgcit = [\<lparr>entry_id = 0x83, srp_pgc = 0\<rparr>]\<rparr>],
     vts_pgcit = Some [\<lparr>entry_id = 0x81, srp_pgc = 0\<rparr>],
     vts_ptt_srpt = Some [[\<lparr>ptt_pgcn = 1, ptt_pgn = 1\<rparr>, \<lparr>ptt_pgcn = 1, ptt_pgn = 2\<rparr>]],
     tt_srpt = None, menu_vobu_admap = Some [0, 3], vts_vobu_admap = Some [0, 100, 105, 111, 120],
     vts_tmapt = Some [\<lparr>tmu = 10, map_ent = [100, 105, 111]\<rparr>],
     menu_video_attr = ex_attr, vts_video_attr = ex_attr\<rparr>"

definition ex_disc :: "pgc \<Rightarrow> disc" where
  "ex_disc g = \<lparr>disc_vmg = Some \<lparr>vmg_handle = ex_vmg g, ok_fp_pgc = True, ok_tt_srpt = True,
                               ok_vmg_pgci_ut = True\<rparr>,
     disc_vts = (\<lambda>n. if n = 1 then Some \<lparr>vts_handle = ex_vts, ok_ptt_srpt = True,
                          ok_pgcit = True, ok_pgci_ut = True, ok_vobu_admap = True,
                          ok_title_vobu_admap = True, ok_tmapt = True, ok_title_c_adt = True\<rparr>
                     else None)\<rparr>"

definition ex_os :: os where
  "ex_os = \<lparr>tod = (\<lambda>n. \<lparr>tv_sec = int n, tv_usec = 0\<rparr>), tod_n = 0, rnd = (\<lambda>n. n), rnd_n = 0\<rparr>"

text \<open>
  The machine after \<^verbatim>\<open>vm_reset\<close> on the disc, and in cell \<open>c\<close> (program \<open>p\<close>) of the title.
\<close>

definition ex_reset :: "pgc \<Rightarrow> vm" where
  "ex_reset g = (vm_new_vm ex_os)\<lparr>vm_dvd := Some (ex_disc g), vmgi := Some (ex_vmg g),
     state := reset_state (state (vm_new_vm ex_os)), next_hid := 1\<rparr>"

definition ex_title :: "int \<Rightarrow> int \<Rightarrow> vm" where
  "ex_title p c = (ex_reset ex_pgc)\<lparr>vtsi := Some ex_vts, next_hid := 2,
     state := (state (ex_reset ex_pgc))\<lparr>domain := VTS_DOMAIN, vtsN := 1,
       cur_pgc := Some (1, 0), pgcN := 1, pgN := p, cellN := c\<rparr>\<rparr>"

lemma ex_wf_pgc: "wf_pgc ex_pgc"
  by (simp add: wf_pgc_def ex_pgc_def)

lemma ex_inv:
  "wf_pgc g \<Longrightarrow> vm_inv (ex_reset g)" "0 \<le> c \<Longrightarrow> vm_inv (ex_title p c)"
  using ex_wf_pgc
  by (simp_all add: ex_reset_def ex_title_def vm_inv_def vm_new_vm_def reset_state_def
      reset_registers_def wf_registers_def wf_handle_def ex_vmg_def ex_vts_def wf_disc_def
      ex_disc_def)

lemma ex_reset_run: "vm_reset True (Some (ex_disc g)) (vm_new_vm ex_os) = Inr (True, ex_reset g)"
  by (simp add: vm_reset_def run vm_new_vm_def ex_disc_def ex_reset_def ex_vmg_def)

lemmas ex_defs = ex_reset_def ex_title_def vm_new_vm_def reset_state_def reset_registers_def
  ex_vmg_def ex_vts_def ex_pgc_def ex_cell_def ex_disc_def ex_attr_def

lemmas table_runs = get_st_def upd_st_def get_sprm_def put_sprm_def the_pgc_def the_cell_def
  the_tt_srpt_def the_ptt_srpt_def find_pgc_def handle_obj_def get_PGCIT_def get_MENU_PGCIT_def
  get_PGCN_def get_TT_def vm_get_current_title_part_def set_PGN_def set_PGCN_def
  set_PGN_loop.simps to_int16_def

lemmas play_runs = play_Cell_def play_Cell_with_def play_Cell_body_def enter_angle_block_def
  play_PG_def play_PG_with_def play_PGC_PG_with_def play_PGC_PG_def play_PGC_def play_PGC_with_def

lemma ex_play: "\<exists>t. play_Cell 0 (ex_title 1 3) = Inr (play_this, t) \<and> pgN (state t) = 2"
  by (simp add: ex_defs table_runs play_runs run)

end
