(* ===== verification/Vm_Frame.thy ===== *)
theory Vm_Frame
  imports Vm_Session
begin

text \<open>
  What the jumps leave alone.  The locale \<open>vm_frame\<close> takes a property of the machine that
  depends on nothing but the open tables, the disc and the stop flag, and shows once that every
  operation below \<^verbatim>\<open>vm_reset\<close> and \<^verbatim>\<open>vm_stop\<close> keeps it, calls on copies that are merged back
  included.  Its interpretations: the disc and the tables of the video manager never change and
  the open title set is one of the disc's, a stopped machine stays stopped, and a property of all
  open chains stays true when the disc's chains have it.
\<close>

text \<open>The calls that neither stop the machine nor load another disc.\<close>

fun api_plain :: "api_call \<Rightarrow> bool" where
  "api_plain (CallReset root found) = False"
| "api_plain CallStop = False"
| "api_plain _ = True"

text \<open>
  The sessions of a player: such calls, and what the searches do: make a copy, run a session on
  it, and merge it back.
\<close>

inductive with_copies :: "vm \<Rightarrow> vm \<Rightarrow> bool" where
  with_copies_done: "with_copies v v"
| with_copies_call: "with_copies v w \<Longrightarrow> api_plain c \<Longrightarrow> api_run c w = Inr (r, u) \<Longrightarrow> with_copies v u"
| with_copies_merge: "with_copies v w \<Longrightarrow> vm_new_copy w = Inr (t, w') \<Longrightarrow> with_copies t t' \<Longrightarrow>
    vm_merge t' w' = Inr ((), u) \<Longrightarrow> with_copies v u"

locale vm_frame =
  fixes I :: "vm \<Rightarrow> bool"
  assumes frame_state: "I v \<Longrightarrow> I (v\<lparr>state := s\<rparr>)"
    and frame_eval: "I v \<Longrightarrow> I (v\<lparr>state := s, vm_env := e\<rparr>)"
    and frame_close: "I v \<Longrightarrow> I (v\<lparr>vtsi := None\<rparr>)"
    and frame_open: "I v \<Longrightarrow> ifoOpenVTSI (vm_dvd v) n = Some src \<Longrightarrow>
      I (v\<lparr>vtsi := Some (snd (read_vtsi src k)), next_hid := l\<rparr>)"
    and frame_exit: "I v \<Longrightarrow> I (v\<lparr>stopped := True\<rparr>)"
    and frame_hop: "I v \<Longrightarrow> I (v\<lparr>hop_channel := h\<rparr>)"
    and frame_hid: "I v \<Longrightarrow> I (v\<lparr>next_hid := k\<rparr>)"
begin

lemma frame_upd_st [keeps_intro]: "keeps I (\<lambda>_. True) (upd_st f)"
  unfolding upd_st_def by (rule keeps_upd) (rule frame_state)

lemma frame_put_sprm [keeps_intro]: "keeps I (\<lambda>_. True) (put_sprm i x)"
  unfolding put_sprm_def by (intro keeps_intro)

lemma frame_eval_cmds [keeps_intro]: "keeps I (\<lambda>_. True) (eval_cmds cmds)"
  by (rule keepsI) (auto simp: eval_cmds_def wpe_def frame_eval split: sum.split)

lemma frame_ifoOpenNewVTSI [keeps_intro]: "keeps I (\<lambda>_. True) (ifoOpenNewVTSI n)"
  by (rule keepsI)
    (auto simp: ifoOpenNewVTSI_def get_st_def upd_st_def split: option.split
      intro!: frame_close frame_state frame_open)

lemma frame_set [keeps_intro]:
  "keeps I (\<lambda>_. True) (set_PGCN n)" "keeps I (\<lambda>_. True) set_PGN"
  "keeps I (\<lambda>_. True) (set_VTS_PTT a b c)" "keeps I (\<lambda>_. True) (set_VTS_PROG a b c d)"
  unfolding set_PGCN_def set_PGN_def set_VTS_PTT_def set_VTS_PROG_def
  by (intro keeps_intro; simp)+

lemma frame_set_title [keeps_intro]:
  "keeps I (\<lambda>_. True) (set_PTT a b)" "keeps I (\<lambda>_. True) (set_TT a)"
  "keeps I (\<lambda>_. True) (set_VTS_TT a b)" "keeps I (\<lambda>_. True) (set_PROG a c d)"
  "keeps I (\<lambda>_. True) set_FP_PGC" "keeps I (\<lambda>_. True) (set_MENU n)"
  "keeps I (\<lambda>_. True) (set_RSMinfo cell block)"
  unfolding set_PTT_def set_TT_def set_VTS_TT_def set_PROG_def set_FP_PGC_def set_MENU_def
    set_RSMinfo_def
  by (intro keeps_intro; simp)+

lemma frame_play_Cell_body [keeps_intro]: "keeps I (\<lambda>_. True) (play_Cell_body c)"
proof -
  have angle: "keeps I (\<lambda>_. True) enter_angle_block"
    unfolding enter_angle_block_def by (intro keeps_intro; simp)
  show ?thesis
    unfolding play_Cell_body_def by (intro angle keeps_intro; simp)
qed

lemma frame_play_with [keeps_intro]:
  assumes "keeps I (\<lambda>_. True) m"
  shows "keeps I (\<lambda>_. True) (play_Cell_with m)" "keeps I (\<lambda>_. True) (play_PG_with m)"
    "keeps I (\<lambda>_. True) (play_PGC_PG_with m n)" "keeps I (\<lambda>_. True) (play_PGC_post_with m)"
proof -
  show cell: "keeps I (\<lambda>_. True) (play_Cell_with m)"
    unfolding play_Cell_with_def by (intro assms keeps_intro; simp)
  show pg: "keeps I (\<lambda>_. True) (play_PG_with m)"
    unfolding play_PG_with_def by (intro assms cell keeps_intro; simp)
  show "keeps I (\<lambda>_. True) (play_PGC_PG_with m n)"
    unfolding play_PGC_PG_with_def by (intro pg keeps_intro; simp)
  show "keeps I (\<lambda>_. True) (play_PGC_post_with m)"
    unfolding play_PGC_post_with_def by (intro assms keeps_intro; simp)
qed

lemma frame_play_PGC_post [keeps_intro]: "keeps I (\<lambda>_. True) (play_PGC_post n)"
  by (induction n) (simp_all add: keeps_err frame_play_with play_PGC_with_def)

lemma frame_play [keeps_intro]:
  "keeps I (\<lambda>_. True) (play_PGC n)" "keeps I (\<lambda>_. True) (play_PGC_PG n p)"
  "keeps I (\<lambda>_. True) (play_PG n)" "keeps I (\<lambda>_. True) (play_Cell n)"
  unfolding play_PGC_def play_PGC_with_def play_PGC_PG_def play_PG_def play_Cell_def
  by (intro frame_play_with frame_play_PGC_post)+

lemma frame_play_Cell_post [keeps_intro]: "keeps I (\<lambda>_. True) (play_Cell_post n)"
  unfolding play_Cell_post_def run_cell_command_def by (intro keeps_intro; simp)

lemma frame_restore_regs [keeps_intro]: "keeps I (\<lambda>_. True) (restore_regs i xs)"
  by (induction i xs rule: restore_regs.induct) (auto intro!: keeps_intro)

lemma frame_process_link [keeps_intro]: "keeps I (\<lambda>_. True) (process_link n lv)"
proof -
  have stop: "keeps I (\<lambda>_. True) (upd (\<lambda>v. v\<lparr>stopped := True\<rparr>))"
    by (rule keeps_upd) (rule frame_exit)
  show ?thesis
    unfolding process_link_def
    by (cases "link_command lv"; simp only: link_cmd.case link_pgc_def link_RSM_def to_menu_def
        jumpSS_VTSM_def call_SS_def jump_SS_VMGM_def go_on_def exit_with_def set_button_def;
        intro stop keeps_intro; simp)
qed

lemma frame_process_command [keeps_intro]: "keeps I (\<lambda>_. True) (process_command n lv)"
proof (induction n arbitrary: lv)
  case (Suc n)
  have "keeps I (\<lambda>_. True) (case r of Stop \<Rightarrow> ret False | Go lv' \<Rightarrow> process_command n lv')" for r
    using Suc by (cases r) (simp_all add: keeps_ret)
  then show ?case by (auto intro!: keeps_intro)
qed (simp add: keeps_err)

lemma frame_api:
  assumes "\<forall>root found. c \<noteq> CallReset root found" and "c \<noteq> CallStop"
  shows "keeps I (\<lambda>_. True) (api_run c)"
proof -
  have pg: "keeps I (\<lambda>_. True) (vm_jump_pg n p)" for n p
    unfolding vm_jump_pg_def by (intro keeps_intro)
  have title: "keeps I (\<lambda>_. True) (play_title n)" for n
    unfolding play_title_def by (intro keeps_intro)
  have hop: "keeps I (\<lambda>_. True) (upd (\<lambda>v. v\<lparr>hop_channel := hop_channel v + 1\<rparr>))"
    by (rule keeps_upd) (rule frame_hop)
  show ?thesis
    using assms
    by (cases c; simp only: api_run.simps vm_start_def vm_get_next_cell_def vm_jump_top_pg_def
        vm_jump_cell_block_def vm_jump_title_program_def vm_jump_title_part_def
        vm_jump_next_pg_def vm_jump_prev_pg_def vm_jump_up_def vm_jump_menu_def Let_def
        vm_jump_resume_def vm_exec_cmd_def vm_set_state_def;
        (intro pg title hop keeps_intro)?; simp)
qed

text \<open>A copy, and a session with copies that are merged back.\<close>

lemma frame_reopen_copy: "keeps I (\<lambda>_. True) (reopen_copy n)"
proof -
  have "keeps I (\<lambda>_. True) (upd (\<lambda>v. v\<lparr>vtsi := None\<rparr>))" by (rule keeps_upd) (rule frame_close)
  then show ?thesis unfolding reopen_copy_def by (intro keeps_intro; simp)
qed

lemma frame_new_copy:
  assumes "vm_new_copy v = Inr (t, w)" and "I v"
  shows "I t \<and> I w"
proof -
  from assms(1) obtain n where n: "(sq (assert_p (n \<noteq> 0)) (\<lambda>v. case reopen_copy n v of
       Inl f \<Rightarrow> Inl f | Inr (_, t) \<Rightarrow> Inr (t, v\<lparr>next_hid := next_hid t\<rparr>))) v = Inr (t, w)"
    unfolding vm_new_copy_def
    by (auto simp: run_bnd dest: readonlyD [OF readonly_get_PGCN] split: sum.splits)
  then have "reopen_copy n v = Inr ((), t)" and w: "w = v\<lparr>next_hid := next_hid t\<rparr>"
    by (auto simp: run split: sum.splits prod.splits if_splits)
  with frame_reopen_copy [of n] assms(2) have "I t" by (blast dest: keepsD wpe_Inr)
  then show ?thesis using frame_hid [OF assms(2)] w by simp
qed

lemma frame_with_copies: "with_copies v u \<Longrightarrow> I v \<Longrightarrow> I u"
proof (induction rule: with_copies.induct)
  case (with_copies_call v w c r u)
  have "keeps I (\<lambda>_. True) (api_run c)" using with_copies_call.hyps(2) by (intro frame_api) auto
  with with_copies_call show ?case by (blast dest: keepsD wpe_Inr)
next
  case (with_copies_merge v w t w' t' u)
  then show ?case by (auto simp: vm_merge_def run dest: frame_new_copy)
qed

end

sublocale vm_frame < plain: session I api_run api_plain
  by unfold_locales (rule frame_api; auto)

section \<open>Interpretations\<close>

definition same_disc :: "disc option \<Rightarrow> ifo_handle option \<Rightarrow> vm \<Rightarrow> bool" where
  "same_disc d h v \<longleftrightarrow> vm_dvd v = d \<and> vmgi v = h"

interpretation disc: vm_frame "same_disc d h" for d h
  by unfold_locales (simp_all add: same_disc_def)

text \<open>The open title set is the one open at the beginning, or one read from the disc since.\<close>

definition own_tables :: "disc option \<Rightarrow> ifo_handle option \<Rightarrow> ifo_handle option \<Rightarrow> vm \<Rightarrow> bool" where
  "own_tables d g s v \<longleftrightarrow> same_disc d g v \<and>
     (\<forall>h. vtsi v = Some h \<longrightarrow> s = Some h \<or>
        (\<exists>n src k. ifoOpenVTSI d n = Some src \<and> h = snd (read_vtsi src k)))"

interpretation own: vm_frame "own_tables d g s" for d g s
  by unfold_locales (auto simp: own_tables_def same_disc_def)

interpretation stopped: vm_frame stopped
  by unfold_locales simp_all

text \<open>Not even \<^verbatim>\<open>vm_reset\<close> takes the stop flag back.\<close>

lemma stopped_api: "keeps stopped (\<lambda>_. True) (api_run c)"
proof (cases "api_plain c")
  case True
  then show ?thesis by (rule stopped.plain.run_keeps)
next
  case False
  have "keeps stopped (\<lambda>_. True) vm_stop"
    unfolding vm_stop_def by (rule keeps_upd) simp
  then show ?thesis
    using False
    by (cases c) (auto simp: vm_reset_def Let_def intro!: keeps_intro keeps_upd)
qed

interpretation stopped_api: session stopped api_run api_ok
  by unfold_locales (rule stopped_api)

text \<open>A property of every chain of the open tables and of the disc's title sets.\<close>

definition all_chains :: "(pgc \<Rightarrow> bool) \<Rightarrow> vm \<Rightarrow> bool" where
  "all_chains P v \<longleftrightarrow>
     (\<forall>h. vmgi v = Some h \<or> vtsi v = Some h \<longrightarrow> (\<forall>g \<in> set (objs h). P g)) \<and>
     (\<forall>c n s. vm_dvd v = Some c \<longrightarrow> disc_vts c n = Some s \<longrightarrow>
        (\<forall>g \<in> set (objs (vts_handle s)). P g))"

lemma objs_read_vtsi [simp]: "objs (snd (read_vtsi s k)) = objs (vts_handle s)"
  by (simp add: read_vtsi_def Let_def)

interpretation chains: vm_frame "all_chains P" for P
  by unfold_locales
    (auto simp: all_chains_def ifoOpenVTSI_def split: if_splits option.splits)

end
