(* ===== verification/Vm_Live.thy ===== *)
theory Vm_Live
  imports Vm_Frame
begin

text \<open>
  When \<^verbatim>\<open>process_command\<close> ends.  On a disc whose chains have programs and no pre- or
  post-commands, two units of fuel are enough for every assigned link: the play functions reach
  a cell without coming back to \<^verbatim>\<open>play_PGC_post\<close> more than once, and the link they return is
  \<^verbatim>\<open>PlayThis\<close> or \<^verbatim>\<open>Exit\<close>.
\<close>

definition plain_pgc :: "pgc \<Rightarrow> bool" where
  "plain_pgc g \<longleftrightarrow> 1 \<le> uint (nr_of_programs g) \<and>
     (\<forall>tbl. command_tbl g = Some tbl \<longrightarrow> pre_cmds tbl = [] \<and> post_cmds tbl = [])"

definition plain_vm :: "vm \<Rightarrow> bool" where
  "plain_vm v \<longleftrightarrow> vm_inv v \<and> all_chains plain_pgc v"

abbreviation uncut_prog :: "(vm, 'a) prog \<Rightarrow> bool" where
  "uncut_prog m \<equiv> keeps plain_vm (\<lambda>f. f \<noteq> OutOfFuel) m"

definition ends :: "link \<Rightarrow> bool" where
  "ends l \<longleftrightarrow> link_command l = PlayThis \<or> link_command l = Exit"

abbreviation ends_prog :: "(vm, link) prog \<Rightarrow> bool" where
  "ends_prog m \<equiv> keepsR plain_vm (\<lambda>f. f \<noteq> OutOfFuel) ends m"

lemma plain_vmI:
  "inv_prog m \<Longrightarrow> keeps (all_chains plain_pgc) (\<lambda>_. True) m \<Longrightarrow> uncut m \<Longrightarrow> uncut_prog m"
  by (rule keeps_uncut) (auto simp: keeps_def plain_vm_def wpe_def split: sum.splits)

lemma plain_vm_find: "plain_vm v \<Longrightarrow> find_pgc v p = Some g \<Longrightarrow> wf_pgc g \<and> plain_pgc g"
  using find_pgc_cases [of v p g]
  by (auto simp: plain_vm_def all_chains_def dest: vm_inv_find_pgc)

section \<open>Programs without recursion\<close>

lemma set_PGN_loop_uncut [simp]: "set_PGN_loop g c n \<noteq> Inl OutOfFuel"
proof (induction g c n rule: set_PGN_loop.induct)
  case (1 g c n)
  then show ?case
    by (subst set_PGN_loop.simps) (auto split: sum.split dest: sym)
qed

lemma uncut_state [uncut_intro]:
  "uncut (get_st f)" "uncut (upd_st g)" "uncut (get_sprm i)" "uncut (put_sprm i x)"
  "uncut the_pgc" "uncut (the_cell i)" "uncut the_tt_srpt" "uncut the_ptt_srpt"
  unfolding get_st_def upd_st_def get_sprm_def put_sprm_def the_pgc_def the_cell_def
    the_tt_srpt_def the_ptt_srpt_def
  by (intro uncut_intro; simp)+

lemma uncut_tables [uncut_intro]:
  "uncut get_PGCIT" "uncut get_PGCN" "uncut (get_ID n)" "uncut (get_TT a b)"
  "uncut vm_get_current_title_part"
proof -
  have menu: "uncut (get_MENU_PGCIT h lang)" for h lang
    unfolding get_MENU_PGCIT_def Let_def by (intro uncut_intro; simp)
  show t: "uncut get_PGCIT"
    unfolding get_PGCIT_def
    by (rule uncut_bnd) (auto split: domain.split intro!: menu uncut_intro)
  show "uncut get_PGCN" "uncut (get_ID n)" "uncut (get_TT a b)" "uncut vm_get_current_title_part"
    unfolding get_PGCN_def get_ID_def get_TT_def vm_get_current_title_part_def
    by (intro t uncut_intro; simp)+
qed

lemma uncut_set [uncut_intro]:
  "uncut (ifoOpenNewVTSI n)" "uncut (set_PGCN n)" "uncut set_PGN" "uncut (set_VTS_PTT a b c)"
  "uncut (set_PTT a b)" "uncut (set_TT a)" "uncut (set_VTS_TT a b)" "uncut set_FP_PGC"
  "uncut (set_MENU n)" "uncut (set_RSMinfo c d)" "uncut (set_button x)"
  unfolding ifoOpenNewVTSI_def set_PGCN_def set_PGN_def set_VTS_PTT_def set_PTT_def set_TT_def
    set_VTS_TT_def set_FP_PGC_def set_MENU_def set_RSMinfo_def set_button_def
  by (intro uncut_intro; simp)+

lemma uncut_restore_regs [uncut_intro]: "uncut (restore_regs i xs)"
  by (induction i xs rule: restore_regs.induct) (auto intro!: uncut_intro)

section \<open>Playing\<close>

text \<open>The postcondition of the play functions: an intact machine and a link that ends.\<close>

abbreviation ends_wpe :: "(vm, link) prog \<Rightarrow> vm \<Rightarrow> bool" where
  "ends_wpe m v \<equiv> wpe m (\<lambda>l t. plain_vm t \<and> ends l) (\<lambda>f. f \<noteq> OutOfFuel) v"

lemma play_Cell_body_ends:
  assumes "plain_vm v" and "at_cell p g v"
  shows "ends_wpe (play_Cell_body c) v"
proof -
  have angle: "uncut enter_angle_block"
    unfolding enter_angle_block_def by (intro uncut_intro; simp)
  have "uncut (play_Cell_body c)"
    unfolding play_Cell_body_def by (intro angle uncut_intro; simp)
  moreover have "yields ends (play_Cell_body c)"
    unfolding play_Cell_body_def
    by (auto intro!: yields_intro simp: ends_def play_this_def)
  moreover have "wpe (play_Cell_body c) plays (\<lambda>_. True) v"
    using play_Cell_body_plays assms(2) by (simp add: triple_def)
  moreover have "wpe (play_Cell_body c) (\<lambda>_. all_chains plain_pgc) (\<lambda>_. True) v"
    using assms(1) by (intro keepsD [OF chains.frame_play_Cell_body]) (simp add: plain_vm_def)
  ultimately show ?thesis
    by (auto simp: wpe_def uncut_def yields_def plays_def plain_vm_def split: sum.splits)
qed

lemma play_Cell_inside:
  assumes "plain_vm v" and "cur_pgc (state v) = Some p" and "find_pgc v p = Some g"
    and "1 \<le> cellN (state v)" and "cellN (state v) \<le> uint (nr_of_cells g)"
  shows "ends_wpe (play_Cell_with m) v"
proof -
  have "at_cell p g v" using assms by (simp add: at_cell_def plain_vm_def)
  note body = play_Cell_body_ends [OF assms(1) this]
  have "wf_pgc g" using plain_vm_find [OF assms(1,3)] ..
  then have "int (length (cell_playback g)) = uint (nr_of_cells g)" by (simp add: wf_pgc_def)
  then show ?thesis
    unfolding play_Cell_with_def using assms body
    by (simp add: get_st_def the_cell_def the_pgc_def)
qed

lemma play_PG_inside:
  assumes "plain_vm v" and "cur_pgc (state v) = Some p" and "find_pgc v p = Some g"
    and "1 \<le> pgN (state v)" and "pgN (state v) \<le> uint (nr_of_programs g)"
  shows "ends_wpe (play_PG_with m) v"
proof -
  let ?cell = "program_map g ! nat (pgN (state v) - 1)"
  let ?v = "v\<lparr>state := (state v)\<lparr>cellN := uint ?cell\<rparr>\<rparr>"
  have "wf_pgc g" using plain_vm_find [OF assms(1,3)] ..
  then have len: "int (length (program_map g)) = uint (nr_of_programs g)"
    and range: "\<And>f. f \<in> set (program_map g) \<Longrightarrow> 1 \<le> uint f \<and> uint f \<le> uint (nr_of_cells g)"
    by (auto simp: wf_pgc_def)
  have "?cell \<in> set (program_map g)" using assms(4,5) len by (intro nth_mem) linarith
  note cell = range [OF this]
  have v: "plain_vm ?v"
    using assms(1) by (simp add: plain_vm_def all_chains_def vm_inv_def)
  have "ends_wpe (play_Cell_with m) ?v"
    using cell assms by (intro play_Cell_inside [OF v, of p g]) simp_all
  then show ?thesis
    unfolding play_PG_with_def using assms len
    by (simp add: get_st_def upd_st_def the_pgc_def)
qed

lemma uncut_play_upd:
  "plain_vm v \<Longrightarrow> 0 \<le> c \<Longrightarrow> plain_vm (v\<lparr>state := (state v)\<lparr>pgN := n, cellN := c, blockN := b\<rparr>\<rparr>)"
  by (simp add: plain_vm_def all_chains_def vm_inv_def)

lemma wpe_play_chain:
  assumes "plain_vm v"
    and "\<And>p g. cur_pgc (state v) = Some p \<Longrightarrow> find_pgc v p = Some g \<Longrightarrow>
      plain_pgc g \<Longrightarrow> wpe (f g) Q (\<lambda>f. f \<noteq> OutOfFuel) v"
  shows "wpe (bnd the_pgc f) Q (\<lambda>f. f \<noteq> OutOfFuel) v"
  using assms plain_vm_find [OF assms(1)] by (auto simp: the_pgc_def get_st_def)

lemma play_PGC_ends: "ends_prog (play_PGC_with m)"
proof (rule keepsRI)
  fix v assume v: "plain_vm v"
  let ?v = "v\<lparr>state := (state v)\<lparr>pgN := 1, cellN := 0, blockN := 0\<rparr>\<rparr>"
  have pl: "plain_vm ?v" using v by (rule uncut_play_upd) simp
  have "ends_wpe (bnd the_pgc (\<lambda>g. case command_tbl g of
      None \<Rightarrow> play_PG_with m
    | Some tbl \<Rightarrow> if pre_cmds tbl \<noteq> [] then
          bnd (eval_cmds (pre_cmds tbl)) (\<lambda>(linked, lv). if linked then ret lv else play_PG_with m)
        else play_PG_with m)) ?v"
  proof (rule wpe_play_chain [OF pl])
    fix p g assume p: "cur_pgc (state ?v) = Some p" "find_pgc ?v p = Some g" and g: "plain_pgc g"
    have "ends_wpe (play_PG_with m) ?v"
      using g by (intro play_PG_inside [OF pl p]) (simp_all add: plain_pgc_def)
    then show "ends_wpe (case command_tbl g of
      None \<Rightarrow> play_PG_with m
    | Some tbl \<Rightarrow> if pre_cmds tbl \<noteq> [] then
          bnd (eval_cmds (pre_cmds tbl)) (\<lambda>(linked, lv). if linked then ret lv else play_PG_with m)
        else play_PG_with m) ?v"
      using g by (auto simp: plain_pgc_def split: option.split)
  qed
  then show "ends_wpe (play_PGC_with m) v"
    unfolding play_PGC_with_def play_PGC_PG_with_def by (simp only: wpe_sq upd_st_def wpe_upd)
qed

lemma uncut_set_PGCN: "uncut_prog (set_PGCN n)"
  by (intro plain_vmI inv_set_PGCN chains.frame_set uncut_intro)

lemma play_PGC_post_ends: "ends_prog (play_PGC_post (Suc k))"
proof (rule keepsRI)
  fix v assume v: "plain_vm v"
  show "ends_wpe (play_PGC_post (Suc k)) v"
    unfolding play_PGC_post.simps play_PGC_post_with_def
  proof (rule wpe_play_chain [OF v])
    fix p g assume g: "plain_pgc g"
    let ?next = "play_PGC_with (play_PGC_post k)"
    have "ends_wpe (bnd (set_PGCN n) (\<lambda>ok.
        if \<not> ok then ret (lv\<lparr>link_command := Exit\<rparr>) else ?next)) v" for n lv
      unfolding wpe_bnd
      by (rule wpe_mono [OF keepsD [OF uncut_set_PGCN v]])
        (auto simp: ends_def dest: keepsRD [OF play_PGC_ends])
    then show "ends_wpe (bnd (case command_tbl g of
        Some tbl \<Rightarrow>
          if post_cmds tbl \<noteq> [] then eval_cmds (post_cmds tbl) else ret (False, link_zero)
      | None \<Rightarrow> ret (False, link_zero)) (\<lambda>(linked, lv).
      if linked then ret lv
      else
        bnd (set_PGCN (uint (next_pgc_nr g))) (\<lambda>ok.
        if \<not> ok then ret (lv\<lparr>link_command := Exit\<rparr>) else ?next))) v"
      using g by (auto simp: plain_pgc_def split: option.split)
  qed
qed

lemma play_with_ends:
  assumes "ends_prog m"
  shows "ends_prog (play_Cell_with m)" and "ends_prog (play_PG_with m)"
proof -
  show cell: "ends_prog (play_Cell_with m)"
  proof (rule keepsRI)
    fix v assume v: "plain_vm v"
    note m = keepsRD [OF assms v]
    show "ends_wpe (play_Cell_with m) v"
    proof (cases "cellN (state v) > 0")
      case True
      have "ends_wpe (bnd the_pgc (\<lambda>g.
        if cellN (state v) > uint (nr_of_cells g) then
          sq (assert_p (cellN (state v) = uint (nr_of_cells g) + 1)) m
        else bnd (the_cell (cellN (state v) - 1)) play_Cell_body)) v"
      proof (rule wpe_play_chain [OF v])
        fix p g assume p: "cur_pgc (state v) = Some p" "find_pgc v p = Some g"
        show "ends_wpe (if cellN (state v) > uint (nr_of_cells g) then
          sq (assert_p (cellN (state v) = uint (nr_of_cells g) + 1)) m
        else bnd (the_cell (cellN (state v) - 1)) play_Cell_body) v"
          using play_Cell_inside [OF v p, of m] True m p
          by (auto simp: play_Cell_with_def get_st_def the_pgc_def)
      qed
      with True show ?thesis by (simp add: play_Cell_with_def get_st_def)
    qed (simp add: play_Cell_with_def get_st_def)
  qed
  show "ends_prog (play_PG_with m)"
  proof (rule keepsRI)
    fix v assume v: "plain_vm v"
    note m = keepsRD [OF assms v]
    show "ends_wpe (play_PG_with m) v"
    proof (cases "pgN (state v) > 0")
      case True
      have "ends_wpe (bnd the_pgc (\<lambda>g.
        if pgN (state v) > uint (nr_of_programs g) then
          sq (assert_p (pgN (state v) = uint (nr_of_programs g) + 1)) m
        else bnd (lift_r (arr_get (program_map g) (pgN (state v) - 1))) (\<lambda>cell.
          sq (upd_st (\<lambda>t. t\<lparr>cellN := uint cell\<rparr>)) (play_Cell_with m)))) v"
      proof (rule wpe_play_chain [OF v])
        fix p g assume p: "cur_pgc (state v) = Some p" "find_pgc v p = Some g"
        show "ends_wpe (if pgN (state v) > uint (nr_of_programs g) then
          sq (assert_p (pgN (state v) = uint (nr_of_programs g) + 1)) m
        else bnd (lift_r (arr_get (program_map g) (pgN (state v) - 1))) (\<lambda>cell.
          sq (upd_st (\<lambda>t. t\<lparr>cellN := uint cell\<rparr>)) (play_Cell_with m))) v"
          using play_PG_inside [OF v p, of m] True m p
          by (auto simp: play_PG_with_def get_st_def the_pgc_def)
      qed
      with True show ?thesis by (simp add: play_PG_with_def get_st_def)
    qed (simp add: play_PG_with_def get_st_def)
  qed
qed

lemma play_PGC_PG_ends:
  assumes "ends_prog m"
  shows "ends_prog (play_PGC_PG_with m n)"
proof (rule keepsRI)
  fix v assume v: "plain_vm v"
  let ?v = "v\<lparr>state := (state v)\<lparr>pgN := n, cellN := 0, blockN := 0\<rparr>\<rparr>"
  have pl: "plain_vm ?v" using v by (rule uncut_play_upd) simp
  have "ends_wpe (bnd the_pgc (\<lambda>g. case command_tbl g of
      None \<Rightarrow> play_PG_with m
    | Some tbl \<Rightarrow> if pre_cmds tbl \<noteq> [] then
          bnd (eval_cmds (pre_cmds tbl)) (\<lambda>(linked, lv). if linked then ret lv else play_PG_with m)
        else play_PG_with m)) ?v"
    by (rule wpe_play_chain [OF pl])
      (use keepsRD [OF play_with_ends(2) [OF assms] pl] in
        \<open>auto simp: plain_pgc_def split: option.split\<close>)
  then show "ends_wpe (play_PGC_PG_with m n) v"
    unfolding play_PGC_PG_with_def by (simp only: wpe_sq upd_st_def wpe_upd)
qed

lemma play_ends:
  "ends_prog (play_PGC (Suc k))" "ends_prog (play_PGC_PG (Suc k) n)"
  "ends_prog (play_PG (Suc k))" "ends_prog (play_Cell (Suc k))"
  unfolding play_PGC_def play_PGC_PG_def play_PG_def play_Cell_def
  by (intro play_PGC_ends play_PGC_PG_ends play_with_ends play_PGC_post_ends)+

section \<open>Links\<close>

definition ends_verdict :: "verdict \<Rightarrow> bool" where
  "ends_verdict r \<longleftrightarrow> (case r of Stop \<Rightarrow> True | Go l \<Rightarrow> ends l)"

abbreviation ends_link :: "(vm, verdict) prog \<Rightarrow> bool" where
  "ends_link m \<equiv> keepsR plain_vm (\<lambda>f. f \<noteq> OutOfFuel) ends_verdict m"

named_theorems ends_intro

lemma ends_bnd [ends_intro]:
  "uncut_prog m \<Longrightarrow> (\<And>a. ends_link (f a)) \<Longrightarrow> ends_link (bnd m f)"
  by (auto simp: keeps_def keepsR_def elim!: wpe_mono)

lemma ends_sq [ends_intro]: "uncut_prog m \<Longrightarrow> ends_link n \<Longrightarrow> ends_link (sq m n)"
  by (simp add: sq_def ends_bnd)

lemma ends_if [ends_intro]:
  "(b \<Longrightarrow> ends_link m) \<Longrightarrow> (\<not> b \<Longrightarrow> ends_link n) \<Longrightarrow> ends_link (if b then m else n)"
  by simp

lemma ends_go_on [ends_intro]: "ends_prog m \<Longrightarrow> ends_link (go_on m)"
  by (auto simp: keepsR_def go_on_def ends_verdict_def elim!: wpe_mono)

lemma ends_ret [ends_intro]: "ends_verdict r \<Longrightarrow> ends_link (ret r)"
  by (simp add: keepsR_def)

lemma ends_exit [ends_intro]: "ends_link (exit_with lv)"
  by (simp add: exit_with_def ends_ret ends_verdict_def ends_def)

lemma uncut_upd_st:
  "(\<And>s. registers (f s) = registers s \<and> rsm_regs (f s) = rsm_regs s \<and> cellN (f s) = cellN s \<and>
       rsm_cellN (f s) = rsm_cellN s) \<Longrightarrow> uncut_prog (upd_st f)"
  by (intro plain_vmI inv_upd_trivial chains.frame_upd_st uncut_intro) simp

lemma uncut_cell:
  "uncut_prog (upd_st (\<lambda>t. t\<lparr>cellN := cellN t + 1\<rparr>))"
  "uncut_prog (upd_st (\<lambda>t. t\<lparr>cellN := uint (k :: u16)\<rparr>))"
  by (simp_all add: keeps_def upd_st_def plain_vm_def all_chains_def vm_inv_def)

lemma uncut_readers [ends_intro]:
  "uncut_prog (get_st f)" "uncut_prog (rd h)" "uncut_prog (get_sprm i)" "uncut_prog the_pgc"
  "uncut_prog (assert_p b)" "uncut_prog (get_TT c d)"
  by (intro keeps_uncut readonly_keeps readonly_intro uncut_intro)+

lemma uncut_writers [ends_intro]:
  "uncut_prog (put_sprm i x)" "uncut_prog (ifoOpenNewVTSI n)" "uncut_prog (set_PGCN n)"
  "uncut_prog (set_VTS_PTT c d e)" "uncut_prog (set_VTS_TT c d)" "uncut_prog (set_TT c)"
  "uncut_prog set_FP_PGC" "uncut_prog (set_MENU n)" "uncut_prog (restore_regs j xs)"
  "uncut_prog set_PGN"
  by (intro plain_vmI inv_put_sprm inv_ifoOpenNewVTSI inv_set_VTS_PTT inv_set_title
      inv_set_FP_PGC inv_set_MENU inv_restore_regs inv_set_PGCN inv_set_PGN uncut_intro
      chains.frame_set chains.frame_set_title chains.frame_put_sprm chains.frame_restore_regs
      chains.frame_ifoOpenNewVTSI)+

lemma uncut_set_RSMinfo [ends_intro]: "uncut_prog (set_RSMinfo (uint (k :: u16)) b)"
  by (intro plain_vmI inv_set_RSMinfo uncut_intro chains.frame_set_title) simp

lemma uncut_set_button [ends_intro]: "uncut_prog (set_button b)"
  unfolding set_button_def by (simp add: when_p_def keeps_ret uncut_writers)

lemma ends_link_pgc [ends_intro]: "ends_link (link_pgc (Suc k) field lv)"
  unfolding link_pgc_def by (intro ends_intro play_ends)

lemma ends_to_menu [ends_intro]: "uncut_prog goto \<Longrightarrow> ends_link (to_menu (Suc k) d goto)"
  unfolding to_menu_def by (intro ends_intro uncut_upd_st play_ends) simp_all

lemma ends_jumpSS_VTSM [ends_intro]: "ends_link (jumpSS_VTSM (Suc k) lv)"
  unfolding jumpSS_VTSM_def
  by (intro ends_intro uncut_upd_st play_ends keeps_intro; (intro uncut_readers)?; simp)

lemma ends_SS [ends_intro]:
  "uncut_prog goto \<Longrightarrow> ends_link (call_SS (Suc k) handle d goto lv)"
  "uncut_prog goto \<Longrightarrow> ends_link (jump_SS_VMGM (Suc k) goto lv)"
  unfolding call_SS_def jump_SS_VMGM_def by (intro ends_intro; simp)+

lemma ends_bndR:
  "keepsR plain_vm (\<lambda>f. f \<noteq> OutOfFuel) R m \<Longrightarrow> (\<And>a. R a \<Longrightarrow> ends_link (f a)) \<Longrightarrow> ends_link (bnd m f)"
  by (auto simp: keepsR_def elim!: wpe_mono)

lemma ends_link_RSM [ends_intro]: "ends_link (link_RSM (Suc k) lv)"
proof -
  have cell: "keepsR plain_vm (\<lambda>f. f \<noteq> OutOfFuel) (\<lambda>c. 0 \<le> c) (get_st rsm_cellN)"
    by (simp add: keepsR_def get_st_def plain_vm_def vm_inv_def)
  have upd: "uncut_prog (upd_st (\<lambda>t. t\<lparr>cellN := c\<rparr>))" if "0 \<le> c" for c
    using that by (simp add: keeps_def upd_st_def plain_vm_def all_chains_def vm_inv_def)
  show ?thesis
    unfolding link_RSM_def
    by (intro ends_bndR [OF cell] upd ends_intro uncut_upd_st play_ends;
        simp add: ends_verdict_def ends_def)
qed

lemma ends_prev_cell [ends_intro]:
  assumes "ends_prog m"
  shows "ends_link (bnd (get_st cellN) (\<lambda>n.
     sq (assert_p (n > 1)) (sq (upd_st (\<lambda>t. t\<lparr>cellN := cellN t - 1\<rparr>)) (go_on m))))"
proof (rule keepsRI)
  fix v assume v: "plain_vm v"
  let ?v = "v\<lparr>state := (state v)\<lparr>cellN := cellN (state v) - 1\<rparr>\<rparr>"
  have "plain_vm ?v" if "cellN (state v) > 1"
    using v that by (simp add: plain_vm_def all_chains_def vm_inv_def)
  from keepsRD [OF ends_go_on [OF assms] this]
  show "wpe (bnd (get_st cellN) (\<lambda>n.
     sq (assert_p (n > 1)) (sq (upd_st (\<lambda>t. t\<lparr>cellN := cellN t - 1\<rparr>)) (go_on m))))
     (\<lambda>r t. plain_vm t \<and> ends_verdict r) (\<lambda>f. f \<noteq> OutOfFuel) v"
    by (simp add: get_st_def upd_st_def)
qed

lemma process_link_ends:
  assumes "\<forall>c. link_command lv \<noteq> LinkReserved c"
  shows "ends_link (process_link (Suc k) lv)"
proof -
  have stop: "uncut_prog (upd (\<lambda>v. v\<lparr>stopped := True\<rparr>))"
    by (rule keeps_upd) (simp add: plain_vm_def vm_inv_def all_chains_def)
  have stop2: "ends_verdict Stop" by (simp add: ends_verdict_def)
  have fails: "ends_link (err AssertFail)" by (simp add: keepsR_def)
  show ?thesis
    unfolding process_link_def
    by (cases "link_command lv"; simp only: link_cmd.case;
        (intro stop stop2 fails uncut_cell uncut_upd_st ends_intro play_ends play_PGC_post_ends)?;
        (use assms in simp)?)
qed

lemma process_command_plain_ends:
  assumes "plain_vm v" and "\<forall>c. link_command lv \<noteq> LinkReserved c"
  shows "process_command (Suc (Suc k)) lv v \<noteq> Inl OutOfFuel"
proof (cases "link_command lv = PlayThis")
  case True
  then show ?thesis by (simp add: run upd_st_def)
next
  case False
  have go: "process_command (Suc k) l t \<noteq> Inl OutOfFuel" if "ends l" for l t
    using that by (auto simp: ends_def run upd_st_def process_link_def)
  have "wpe (process_link (Suc k) lv) (\<lambda>r _. ends_verdict r) (\<lambda>f. f \<noteq> OutOfFuel) v"
    by (rule wpe_mono [OF keepsRD [OF process_link_ends [OF assms(2)] assms(1)]]) auto
  with False go show ?thesis
    unfolding process_command.simps(2) [of "Suc k" lv]
    by (auto simp: wpe_def ends_verdict_def run_bnd run_ret simp del: process_command.simps
        split: sum.splits verdict.splits)
qed

end
