(* ===== verification/Vm_Props.thy ===== *)
theory Vm_Props
  imports Vm_Example Vm_Live
begin

text \<open>
  What is proved of the virtual machine: where its jumps lead, that they end and when they do
  not, what its sessions preserve, the search functions against their specifications, the round
  trips of resuming and of saving a state, and the places where a failure leaves a pointer to
  freed tables behind.
\<close>

section \<open>Links and playback\<close>

text \<open>
  C1: When \<^verbatim>\<open>process_command\<close> reports a jump, the machine stands in an existing cell of an
  existing program chain of an open IFO file.  This holds for every amount of fuel and for every
  link but \<^verbatim>\<open>PlayThis\<close> (which is not a jump but the end of one, and says nothing about the
  machine), on a machine whose tables and disc are well formed (\<open>vm_inv\<close>): in every chain the
  arrays are as long as their counts and every entry of the program map names a cell.
  \<^verbatim>\<open>ifoRead_PGC\<close> does not check this; without it the statement fails (\<open>resume_past_cells\<close> in the
  theory \<open>Vm_Tables\<close>).
\<close>

theorem process_command_playing:
  assumes "vm_inv v" and "link_command lv \<noteq> PlayThis"
    and "process_command fuel lv v = Inr (True, t)"
  shows "\<exists>p g. cur_pgc (state t) = Some p \<and> find_pgc t p = Some g \<and>
    1 \<le> cellN (state t) \<and> cellN (state t) \<le> int (length (cell_playback g))"
proof -
  have "plays lv v" using assms(1,2) by (simp add: plays_def)
  from tripleD [OF process_command_ok this assms(3)] show ?thesis
    by (auto simp: playing_def at_cell_def wf_pgc_def dest: vm_inv_find_pgc)
qed

lemma process_command_playing_witness:
  "\<exists>t. process_command (Suc (Suc 0)) (link_zero\<lparr>link_command := LinkTopC\<rparr>) (ex_title 1 3) = Inr (True, t) \<and>
    (\<exists>p g. cur_pgc (state t) = Some p \<and> find_pgc t p = Some g \<and>
      1 \<le> cellN (state t) \<and> cellN (state t) \<le> int (length (cell_playback g)))"
proof -
  let ?l = "link_zero\<lparr>link_command := LinkTopC\<rparr>"
  obtain t where t: "process_command (Suc (Suc 0)) ?l (ex_title 1 3) = Inr (True, t)"
    by (simp add: process_link_def go_on_def set_button_def link_zero_def
        ex_defs table_runs play_runs play_this_def run)
  from process_command_playing [OF ex_inv(2) _ t] t show ?thesis
    by (simp add: link_zero_def)
qed

text \<open>
  In an existing cell the position query never faults; it names that cell and its first
  sector, and the still time is the cell's own (plus the chain's in the last cell) when there
  is one, else a guess of at most 255 seconds.
\<close>

theorem vm_position_get_playing:
  assumes "vm_inv v" and "cur_pgc (state v) = Some p" and "find_pgc v p = Some g"
    and "1 \<le> cellN (state v)" and "cellN (state v) \<le> uint (nr_of_cells g)"
  shows "\<exists>pos. vm_position_get v = Inr (pos, v) \<and> p_cell pos = cellN (state v) \<and>
    p_cell_start pos = sint (first_sector (cell_playback g ! nat (cellN (state v) - 1))) \<and>
    0 \<le> p_still pos \<and> p_still pos \<le> 510 \<and> 0 \<le> p_button pos \<and> p_button pos < 64"
proof -
  let ?c = "cell_playback g ! nat (cellN (state v) - 1)"
  have "wf_pgc g" using vm_inv_find_pgc [OF assms(1,3)] .
  then have len: "int (length (cell_playback g)) = uint (nr_of_cells g)"
    by (simp add: wf_pgc_def)
  have regs: "length (SPRM (registers (state v))) = 24"
    using assms(1) by (simp add: vm_inv_def wf_registers_def)
  have guess: "0 \<le> guessed_still ?c" "guessed_still ?c \<le> 255"
    by (auto simp: guessed_still_def Let_def bcd_seconds_def)
  have u8: "0 \<le> uint b" "uint b \<le> 255" for b :: u8
    using uint_lt_0 [of b] uint_bounded [of b] by auto
  have btn: "uint (drop_bit 10 (b :: u16)) < 64" for b
  proof -
    have "uint b < 65536" using uint_bounded [of b] by simp
    then show ?thesis by (simp add: drop_bit_eq_div uint_div)
  qed
  show ?thesis
    using assms len regs guess u8(2) [of "cell_still_time ?c"] u8(2) [of "pgc_still_time g"]
    by (auto simp: vm_position_get_def get_sprm_def get_st_def the_cell_def the_pgc_def
        run Let_def btn)
qed

lemma vm_position_get_playing_witness:
  "\<exists>pos. vm_position_get (ex_title 2 3) = Inr (pos, ex_title 2 3) \<and> p_cell pos = 3 \<and>
    p_cell_start pos = 100 \<and> 0 \<le> p_still pos \<and> p_still pos \<le> 510"
  using vm_position_get_playing [of "ex_title 2 3" "(1, 0)" ex_pgc] ex_inv(2) [of 3 2]
  by (fastforce simp: ex_defs find_pgc_def handle_obj_def)

text \<open>
  C2: The position after a jump, at the end of any session.  On a new machine any sequence of the
  operations of \<^verbatim>\<open>vm.h\<close> may run, with any discs of well-formed tables (\<open>wf_disc\<close>) and restored
  states of the right shape (\<open>wf_save\<close>); when then a command of a disc (\<^verbatim>\<open>vm_exec_cmd\<close>) or a resume
  reports that it jumped, the machine is in an existing cell of an open chain, and the position
  query that follows meets no fault, changes nothing, and names that cell, its first sector and a
  still time of at most 510 seconds.
\<close>

theorem session_jump_position:
  assumes "reaches api_run api_ok (vm_new_vm e) v"
    and "vm_exec_cmd fuel cmd v = Inr (True, t) \<or> vm_jump_resume fuel v = Inr (True, t)"
  shows "\<exists>p g pos. cur_pgc (state t) = Some p \<and> find_pgc t p = Some g \<and>
    1 \<le> cellN (state t) \<and> cellN (state t) \<le> int (length (cell_playback g)) \<and>
    vm_position_get t = Inr (pos, t) \<and> p_cell pos = cellN (state t) \<and>
    p_cell_start pos = sint (first_sector (cell_playback g ! nat (cellN (state t) - 1))) \<and>
    0 \<le> p_still pos \<and> p_still pos \<le> 510"
proof -
  have v: "vm_inv v" using api.reaches_inv [OF assms(1) vm_new_vm_inv] .
  have jump: "playing t" if "process_command fuel lv w = Inr (True, t)" "vm_inv w" "no_play lv" for lv w
    using tripleD [OF process_command_ok _ that(1)] that(2,3) by (auto simp: plays_def no_play_def)
  have "playing t"
    using assms(2)
  proof
    assume "vm_exec_cmd fuel cmd v = Inr (True, t)"
    then obtain lv w where "eval_cmds [cmd] v = Inr ((True, lv), w)" "process_command fuel lv w = Inr (True, t)"
      by (auto simp: vm_exec_cmd_def run_bnd run_ret split: sum.splits if_splits)
    with tripleD [OF triple_eval_cmds v] jump show ?thesis by fastforce
  next
    assume "vm_jump_resume fuel v = Inr (True, t)"
    then have "process_command fuel (link_zero\<lparr>link_command := LinkRSM\<rparr>) v = Inr (True, t)"
      by (auto simp: vm_jump_resume_def run_bnd run_ret get_st_def run_rd split: if_splits)
    with jump v show ?thesis by (simp add: no_play_def)
  qed
  then obtain p g where t: "vm_inv t" "cur_pgc (state t) = Some p" "find_pgc t p = Some g"
    "1 \<le> cellN (state t)" "cellN (state t) \<le> uint (nr_of_cells g)"
    by (auto simp: playing_def at_cell_def)
  from vm_inv_find_pgc [OF t(1,3)] have "int (length (cell_playback g)) = uint (nr_of_cells g)"
    by (simp add: wf_pgc_def)
  with vm_position_get_playing [OF t] t show ?thesis by metis
qed

lemma ex_reset_reaches: "reaches api_run api_ok (vm_new_vm ex_os) (ex_reset ex_pgc)"
proof -
  have "wf_disc (Some (ex_disc ex_pgc))"
    using ex_wf_pgc by (simp add: wf_disc_def ex_disc_def ex_vmg_def ex_vts_def wf_handle_def)
  then show ?thesis
    using reaches_step [OF reaches_refl, of api_ok "CallReset True (Some (ex_disc ex_pgc))"
        api_run "vm_new_vm ex_os"] ex_reset_run by simp
qed

text \<open>A jump command to title 1, run in the first-play domain.\<close>

definition ex_jump_title :: vm_cmd where
  "ex_jump_title = VmCmd 0x30 0x02 0 0 0 1 0 0"

lemma session_jump_position_witness:
  "\<exists>t pos. vm_exec_cmd (Suc (Suc 0)) ex_jump_title (ex_reset ex_pgc) = Inr (True, t) \<and>
    vm_position_get t = Inr (pos, t) \<and> p_cell pos = 1 \<and> p_still pos \<le> 510"
proof -
  have cmd: "eval_command ex_jump_title m =
      Inr ((-1, link_zero\<lparr>link_command := JumpTT, data1 := 1\<rparr>), m)" for m
    by (simp add: ex_jump_title_def eval_command_def eval_command_body_def eval_command_switch_def
        getbits_ok_def bit_field_def eval_if_version_2_def eval_jump_instruction_def link_res_def
        link_zero_def machine.defs command.defs run)
  have "eval_cmds [ex_jump_title] w = Inr ((True, link_zero\<lparr>link_command := JumpTT, data1 := 1\<rparr>), w)" for w
    by (simp add: eval_cmds_def vmEval_CMD_def vmEval_loop.simps [of _ 0 0] run cmd)
  then have "\<exists>t. vm_exec_cmd (Suc (Suc 0)) ex_jump_title (ex_reset ex_pgc) = Inr (True, t) \<and> cellN (state t) = 1"
    by (simp add: vm_exec_cmd_def process_link_def set_TT_def set_PTT_def set_VTS_PTT_def
        ifoOpenNewVTSI_def ifoOpenVTSI_def read_vtsi_def go_on_def link_zero_def play_this_def
        ex_defs table_runs play_runs run)
  then obtain t where t: "vm_exec_cmd (Suc (Suc 0)) ex_jump_title (ex_reset ex_pgc) = Inr (True, t)" "cellN (state t) = 1"
    by blast
  with session_jump_position [OF ex_reset_reaches, of "Suc (Suc 0)" ex_jump_title t] show ?thesis by auto
qed

text \<open>
  Fuel only cuts off.  When \<^verbatim>\<open>process_command\<close> ends with some fuel, with a result or with a
  fault of the program, it ends the same way with any larger amount.
\<close>

theorem process_command_fuel:
  assumes "process_command k lv v \<noteq> Inl OutOfFuel" and "k \<le> l"
  shows "process_command l lv v = process_command k lv v"
  by (rule fuel_leD [OF fuel_process_command [OF assms(2)] assms(1)])

lemma process_command_fuel_witness:
  "process_command 9 (link_zero\<lparr>link_command := LinkNoLink\<rparr>) (ex_title 1 1) =
   Inr (False, ex_title 1 1)"
proof -
  have "process_command 1 (link_zero\<lparr>link_command := LinkNoLink\<rparr>) (ex_title 1 1) =
      Inr (False, ex_title 1 1)"
    by (simp add: process_link_def set_button_def link_zero_def run)
  with process_command_fuel [of 1 "link_zero\<lparr>link_command := LinkNoLink\<rparr>" "ex_title 1 1" 9]
  show ?thesis by simp
qed

text \<open>
  A link sub-instruction with one of the unassigned codes 4, 8, 14 or 15 is decoded and
  taken, and then hangs the player: no turn of the loop of \<^verbatim>\<open>process_command\<close> handles it, so no
  amount of fuel ends it.
\<close>

theorem process_command_reserved:
  assumes "c \<in> {4, 8, 14, 15}"
  shows "\<exists>lv. eval_command (VmCmd 0x20 0x01 0 0 0 0 0 c) m = Inr ((-1, lv), m) \<and>
    (\<forall>fuel. process_command fuel lv v = Inl OutOfFuel)"
proof -
  let ?lv = "link_zero\<lparr>link_command := LinkReserved c\<rparr>"
  have "eval_command (VmCmd 0x20 0x01 0 0 0 0 0 c) m = Inr ((-1, ?lv), m)"
    using assms
    by (elim insertE emptyE; simp add: eval_command_def eval_command_body_def eval_command_switch_def getbits_ok_def
        bit_field_def eval_if_version_1_def eval_link_instruction_def eval_link_subins_def
        link_res_def link_zero_def link_cmd_of_def machine.defs command.defs run)
  moreover have "process_command fuel ?lv v = Inl OutOfFuel" for fuel
    by (induction fuel) (simp_all add: run process_link_def link_zero_def)
  ultimately show ?thesis by blast
qed

lemma process_command_reserved_witness:
  "\<exists>lv. eval_command (VmCmd 0x20 0x01 0 0 0 0 0 4) example_machine = Inr ((-1, lv), example_machine) \<and>
    (\<forall>fuel. process_command fuel lv (ex_title 1 1) = Inl OutOfFuel)"
  by (rule process_command_reserved) simp

text \<open>
  C12: On a machine whose tables and disc are well formed (\<open>vm_inv\<close>: every entry of a program map
  names a cell of its chain) and whose chains all have a program and neither pre- nor
  post-commands, every assigned link ends: two turns of the loop are enough, whatever the
  position and however the chains are linked.  \<^verbatim>\<open>ifoRead_PGC\<close> does not check the program maps;
  with a program behind the last cell of its chain the links can recurse without end
  (\<open>empty_chain_hangs\<close> in the theory \<open>Vm_Tables\<close>).
\<close>

theorem process_command_plain:
  assumes "vm_inv v" and "all_chains plain_pgc v"
    and "\<forall>c. link_command lv \<noteq> LinkReserved c" and "2 \<le> fuel"
  shows "process_command fuel lv v \<noteq> Inl OutOfFuel"
proof -
  obtain k where "fuel = Suc (Suc k)"
    using assms(4) by (metis add_2_eq_Suc le_Suc_ex)
  then show ?thesis
    using process_command_plain_ends [of v lv k] assms(1-3) by (simp add: plain_vm_def)
qed

lemma ex_title_plain: "all_chains plain_pgc (ex_title p c)"
  by (auto simp: all_chains_def plain_pgc_def ex_defs split: if_splits)

lemma process_command_plain_witness:
  "process_command 2 (link_zero\<lparr>link_command := LinkTailPGC\<rparr>) (ex_title 1 2) \<noteq> Inl OutOfFuel"
  by (rule process_command_plain [OF ex_inv(2) ex_title_plain]) (simp_all add: link_zero_def)

section \<open>What sessions preserve\<close>

text \<open>
  C35: No session of a player changes the disc or the tables of the video manager, and the open
  title set is always the one open at the beginning or one read from that disc.  A session is any
  sequence of the calls of \<^verbatim>\<open>vm.h\<close> other than \<^verbatim>\<open>vm_reset\<close> and \<^verbatim>\<open>vm_stop\<close>, and of what the searches
  do: copy the machine with \<^verbatim>\<open>vm_new_copy\<close>, run such a session on the copy, and merge the copy
  back with \<^verbatim>\<open>vm_merge\<close>.  (\<^verbatim>\<open>vm_merge\<close> with a machine that is not such a copy replaces everything.)
\<close>

theorem vm_session_disc:
  assumes "with_copies v t"
  shows "vm_dvd t = vm_dvd v \<and> vmgi t = vmgi v \<and>
    (\<forall>h. vtsi t = Some h \<longrightarrow> vtsi v = Some h \<or>
       (\<exists>n src k. ifoOpenVTSI (vm_dvd v) n = Some src \<and> h = snd (read_vtsi src k)))"
  using own.frame_with_copies [OF assms, of "vm_dvd v" "vmgi v" "vtsi v"]
  by (auto simp: own_tables_def same_disc_def)

lemma ex_copy_jump:
  "\<exists>u. with_copies (ex_title 1 1) u \<and> cellN (state u) = 3 \<and> blockN (state u) = 7 \<and>
    vtsi u = Some (ex_vts\<lparr>hid := 2\<rparr>)"
proof -
  have "\<exists>t w. vm_new_copy (ex_title 1 1) = Inr (t, w) \<and> vtsi t = Some (ex_vts\<lparr>hid := 2\<rparr>) \<and>
      vmgi t = vmgi (ex_title 1 1) \<and> state t = (state (ex_title 1 1))\<lparr>cur_pgc := Some (2, 0),
      registers := (registers (state (ex_title 1 1)))\<lparr>SPRM := (SPRM (registers (state (ex_title 1 1))))[6 := 1]\<rparr>\<rparr>"
    by (simp add: vm_new_copy_def reopen_copy_def ifoOpenNewVTSI_def ifoOpenVTSI_def read_vtsi_def
        ex_defs table_runs run)
  then obtain t w where copy: "vm_new_copy (ex_title 1 1) = Inr (t, w)" and
    t: "vtsi t = Some (ex_vts\<lparr>hid := 2\<rparr>)" "vmgi t = vmgi (ex_title 1 1)"
    "state t = (state (ex_title 1 1))\<lparr>cur_pgc := Some (2, 0),
      registers := (registers (state (ex_title 1 1)))\<lparr>SPRM := (SPRM (registers (state (ex_title 1 1))))[6 := 1]\<rparr>\<rparr>" by blast
  have "\<exists>u. vm_jump_cell_block 1 3 7 t = Inr (True, u) \<and> cellN (state u) = 3 \<and>
      blockN (state u) = 7 \<and> vtsi u = Some (ex_vts\<lparr>hid := 2\<rparr>)"
    by (simp add: vm_jump_cell_block_def play_this_def t run ex_defs table_runs play_runs
        process_command.simps Let_def)
  then obtain u where u: "vm_jump_cell_block 1 3 7 t = Inr (True, u)" "cellN (state u) = 3"
    "blockN (state u) = 7" "vtsi u = Some (ex_vts\<lparr>hid := 2\<rparr>)" by blast
  have "with_copies t u"
    using u(1) by (intro with_copies_call [OF with_copies_done, of "CallCellBlock 1 3 7"]) simp_all
  then have "with_copies (ex_title 1 1) u"
    by (rule with_copies_merge [OF with_copies_done copy]) (simp add: vm_merge_def run)
  with u show ?thesis by blast
qed

lemma vm_session_disc_witness:
  "\<exists>u. with_copies (ex_title 1 1) u \<and> cellN (state u) = 3 \<and> vtsi u \<noteq> vtsi (ex_title 1 1) \<and>
    vm_dvd u = Some (ex_disc ex_pgc) \<and> vmgi u = Some (ex_vmg ex_pgc)"
proof -
  obtain u where u: "with_copies (ex_title 1 1) u" "cellN (state u) = 3" "vtsi u = Some (ex_vts\<lparr>hid := 2\<rparr>)"
    using ex_copy_jump by blast
  from vm_session_disc [OF u(1)] u show ?thesis
    by (intro exI [of _ u]) (simp add: ex_title_def ex_reset_def ex_vts_def)
qed

text \<open>
  A machine that was stopped once never starts again: \<^verbatim>\<open>vm_start\<close> reports failure after every
  session, even one that calls \<^verbatim>\<open>vm_reset\<close> with a new disc, because nothing clears the flag.
\<close>

theorem vm_start_after_stop:
  assumes "stopped v" and "reaches api_run api_ok v t"
    and "vm_start fuel t = Inr (started, u)"
  shows "\<not> started"
proof -
  have "stopped t" using stopped_api.reaches_inv [OF assms(2,1)] .
  moreover have "keeps stopped (\<lambda>_. True) (vm_start fuel)"
    using stopped_api [of "CallStart fuel"] by simp
  ultimately have "stopped u" using assms(3) by (auto dest: keepsD wpe_Inr)
  with assms(3) show ?thesis
    by (auto simp: vm_start_def run_bnd run_rd split: sum.splits)
qed

lemma vm_start_after_stop_witness:
  "\<exists>t u. reaches api_run api_ok ((vm_new_vm ex_os)\<lparr>stopped := True\<rparr>) t \<and>
    vm_dvd t = Some (ex_disc ex_pgc) \<and> vm_start 1 t = Inr (False, u)"
proof -
  let ?v = "(vm_new_vm ex_os)\<lparr>stopped := True\<rparr>"
  let ?t = "(ex_reset ex_pgc)\<lparr>stopped := True\<rparr>"
  have "vm_reset True (Some (ex_disc ex_pgc)) ?v = Inr (True, ?t)"
    by (simp add: vm_reset_def run vm_new_vm_def ex_disc_def ex_reset_def ex_vmg_def)
  moreover have "wf_disc (Some (ex_disc ex_pgc))"
    using ex_wf_pgc by (simp add: wf_disc_def ex_disc_def ex_vmg_def ex_vts_def wf_handle_def)
  ultimately have r: "reaches api_run api_ok ?v ?t"
    using reaches_step [OF reaches_refl, of api_ok "CallReset True (Some (ex_disc ex_pgc))" api_run ?v]
    by simp
  obtain started u where run: "vm_start 1 ?t = Inr (started, u)"
    by (simp add: vm_start_def set_FP_PGC_def ex_defs table_runs play_runs play_this_def
        link_zero_def run) blast
  from vm_start_after_stop [OF _ r run] r run show ?thesis
    by (auto simp: ex_reset_def)
qed

text \<open>
  A first-play chain whose pre-commands begin with the link to nothing makes \<^verbatim>\<open>vm_start\<close>
  report success although no cell was entered: the cell number is 0 and the position query that
  follows reads in front of the cell array.
\<close>

theorem vm_start_no_link:
  assumes "vm_inv v" and "\<not> stopped v" and "vtsi v = None" and "vmgi v = Some h"
    and "first_play_pgc h = Some k" and "k < length (objs h)"
    and "command_tbl (objs h ! k) = Some tbl"
    and "pre_cmds tbl = VmCmd 0x20 0x01 0 0 0 0 0 0 # cmds"
  shows "\<exists>t. vm_start (Suc n) v = Inr (True, t) \<and> cellN (state t) = 0 \<and>
    vm_position_get t = Inl OutOfBounds"
proof -
  have len: "length (SPRM (registers (state v))) = 24"
    using assms(1) by (simp add: vm_inv_def wf_registers_def)
  have cmd: "eval_command (VmCmd 0x20 0x01 0 0 0 0 0 0) m = Inr ((-1, link_zero), m)" for m
    by (simp add: eval_command_def eval_command_body_def eval_command_switch_def getbits_ok_def
        bit_field_def eval_if_version_1_def eval_link_instruction_def eval_link_subins_def
        link_res_def link_zero_def link_cmd_of_def machine.defs command.defs run)
  have "eval_cmds (VmCmd 0x20 0x01 0 0 0 0 0 0 # cmds) w = Inr ((True, link_zero), w)" for w
    by (simp add: eval_cmds_def vmEval_CMD_def vmEval_loop.simps [of _ 0 0] run cmd)
  with assms len show ?thesis
    by (simp add: vm_start_def set_FP_PGC_def get_st_def upd_st_def play_PGC_def play_PGC_with_def
        play_PGC_PG_with_def the_pgc_def find_pgc_def handle_obj_def link_zero_def
        process_link_def set_button_def vm_position_get_def get_sprm_def the_cell_def run
        arr_get_def)
qed

definition ex_no_link_pgc :: pgc where
  "ex_no_link_pgc = ex_pgc\<lparr>command_tbl :=
     Some \<lparr>pre_cmds = [VmCmd 0x20 0x01 0 0 0 0 0 0], post_cmds = [], cell_cmds = []\<rparr>\<rparr>"

lemma vm_start_no_link_witness:
  "\<exists>t. vm_start 1 (ex_reset ex_no_link_pgc) = Inr (True, t) \<and> cellN (state t) = 0 \<and>
    vm_position_get t = Inl OutOfBounds"
proof -
  have "wf_pgc ex_no_link_pgc" using ex_wf_pgc by (simp add: ex_no_link_pgc_def wf_pgc_def)
  from ex_inv(1) [OF this] show ?thesis
    using vm_start_no_link [of "ex_reset ex_no_link_pgc" "ex_vmg ex_no_link_pgc" 0
        "\<lparr>pre_cmds = [VmCmd 0x20 0x01 0 0 0 0 0 0], post_cmds = [], cell_cmds = []\<rparr>" "[]" 0]
    by (simp add: ex_reset_def ex_vmg_def vm_new_vm_def ex_no_link_pgc_def)
qed

section \<open>Searching the tables\<close>

text \<open>
  The program number \<^verbatim>\<open>set_PGN\<close> computes for a cell: the number of programs, from the first
  on, that start at or before the cell; the next program, if there is one, starts after it.
\<close>

theorem set_PGN_counts:
  assumes "wf_pgc g"
  shows "\<exists>n. set_PGN_loop g cell 0 = Inr (int n) \<and> n \<le> length (program_map g) \<and>
    (\<forall>i < n. uint (program_map g ! i) \<le> cell) \<and>
    (n < length (program_map g) \<longrightarrow> cell < uint (program_map g ! n))"
proof -
  let ?n = "length (takeWhile (\<lambda>f. uint f \<le> cell) (program_map g))"
  have "set_PGN_loop g cell 0 = Inr (int ?n)"
    using set_PGN_loop_takeWhile [OF assms, of 0 cell] by simp
  moreover have "?n \<le> length (program_map g)" by (rule length_takeWhile_le)
  moreover have "\<forall>i < ?n. uint (program_map g ! i) \<le> cell"
    by (metis nth_mem set_takeWhileD takeWhile_nth)
  moreover have "?n < length (program_map g) \<longrightarrow> cell < uint (program_map g ! ?n)"
    using nth_length_takeWhile [of "\<lambda>f. uint f \<le> cell" "program_map g"] by (auto simp: not_le)
  ultimately show ?thesis by blast
qed

lemma set_PGN_counts_witness:
  "\<exists>n. set_PGN_loop ex_pgc 2 0 = Inr (int n) \<and> n \<le> length (program_map ex_pgc) \<and>
    (\<forall>i < n. uint (program_map ex_pgc ! i) \<le> 2) \<and>
    (n < length (program_map ex_pgc) \<longrightarrow> 2 < uint (program_map ex_pgc ! n))"
  by (rule set_PGN_counts [OF ex_wf_pgc])

text \<open>
  \<^verbatim>\<open>set_PGCN\<close> on a table: a number outside the table is refused and nothing changes; any
  other makes the entry's chain current, with its number and program 1, and records the number
  in the title register in the title domain only.
\<close>

theorem set_PGCN_result:
  assumes "vm_inv v" and "get_PGCIT v = Inr (Some (h, srps), v)"
  shows "set_PGCN n v =
    (if 1 \<le> n \<and> n \<le> int (length srps)
     then Inr (True, v\<lparr>state := (state v)\<lparr>
       cur_pgc := Some (h, srp_pgc (srps ! nat (n - 1))), pgcN := n, pgN := 1,
       registers := (if domain (state v) = VTS_DOMAIN
         then (registers (state v))\<lparr>SPRM := (SPRM (registers (state v)))[6 := word_of_int n]\<rparr>
         else registers (state v))\<rparr>\<rparr>)
     else Inr (False, v))"
  using assms
  by (auto simp: set_PGCN_def run get_st_def upd_st_def put_sprm_def vm_inv_def wf_registers_def)

lemma ex_title_pgcit:
  fixes p c :: int
  shows "get_PGCIT (ex_title p c) = Inr (Some (1, [\<lparr>entry_id = 0x81, srp_pgc = 0\<rparr>]), ex_title p c)"
  by (simp add: get_PGCIT_def get_st_def run ex_defs)

lemma set_PGCN_result_witness:
  "set_PGCN 2 (ex_title 1 1) = Inr (False, ex_title 1 1)"
proof -
  have "vm_inv (ex_title 1 1)" by (rule ex_inv(2)) simp
  from set_PGCN_result [OF this ex_title_pgcit, of 2] show ?thesis by simp
qed

text \<open>The search of \<^verbatim>\<open>get_PGCN\<close> finds the first entry that shares the chain.\<close>

lemma find_pgcn_first:
  assumes "i < length ss" and "\<forall>j < i. srp_pgc (ss ! j) \<noteq> srp_pgc (ss ! i)"
  shows "find_pgcn h ss (Some (h, srp_pgc (ss ! i))) n = Some (n + int i)"
  using assms
proof (induction ss arbitrary: i n)
  case (Cons s ss)
  show ?case
  proof (cases i)
    case (Suc k)
    have "srp_pgc s \<noteq> srp_pgc (ss ! k)"
      using Cons.prems(2) Suc by (metis nth_Cons_0 nth_Cons_Suc zero_less_Suc)
    moreover have "\<forall>j < k. srp_pgc (ss ! j) \<noteq> srp_pgc (ss ! k)"
      using Cons.prems(2) Suc by (metis Suc_mono nth_Cons_Suc)
    ultimately show ?thesis using Cons.IH [of k "n + 1"] Cons.prems(1) Suc by simp
  qed simp
qed simp

lemma find_pgcn_bound:
  "find_pgcn h ss p n = Some m \<Longrightarrow>
   \<exists>j < length ss. m = n + int j \<and> p = Some (h, srp_pgc (ss ! j))"
proof (induction ss arbitrary: n)
  case (Cons s ss)
  show ?case
  proof (cases "p = Some (h, srp_pgc s)")
    case True
    then show ?thesis using Cons.prems by (intro exI [of _ 0]) simp
  next
    case False
    then obtain j where "j < length ss" "m = n + 1 + int j" "p = Some (h, srp_pgc (ss ! j))"
      using Cons by fastforce
    then show ?thesis by (intro exI [of _ "Suc j"]) simp
  qed
qed simp

text \<open>
  \<^verbatim>\<open>get_PGCN\<close> after a successful \<^verbatim>\<open>set_PGCN\<close> returns the number that was set when no earlier
  entry of the table points to the same chain; when one does, its assertion fails and takes the
  player down, although the reader of the tables shares the chains of equal entries on purpose.
\<close>

theorem get_PGCN_shared:
  assumes "get_PGCIT v = Inr (Some (h, srps), v)"
    and "1 \<le> n" and "n \<le> int (length srps)" and "pgcN (state v) = n"
    and "cur_pgc (state v) = Some (h, srp_pgc (srps ! nat (n - 1)))"
  shows "get_PGCN v =
    (if \<forall>j < nat (n - 1). srp_pgc (srps ! j) \<noteq> srp_pgc (srps ! nat (n - 1))
     then Inr (n, v) else Inl AssertFail)"
proof -
  let ?i = "nat (n - 1)"
  have i: "?i < length srps" using assms(2,3) by linarith
  obtain j where j: "j \<le> ?i" "srp_pgc (srps ! j) = srp_pgc (srps ! ?i)"
    "\<forall>l < j. srp_pgc (srps ! l) \<noteq> srp_pgc (srps ! j)"
  proof -
    define j where "j = (LEAST l. srp_pgc (srps ! l) = srp_pgc (srps ! ?i))"
    have "srp_pgc (srps ! j) = srp_pgc (srps ! ?i)" "j \<le> ?i"
      unfolding j_def by (rule LeastI [of _ ?i], simp, rule Least_le, simp)
    moreover have "\<forall>l < j. srp_pgc (srps ! l) \<noteq> srp_pgc (srps ! j)"
      using \<open>srp_pgc (srps ! j) = srp_pgc (srps ! ?i)\<close> unfolding j_def
      by (auto dest: not_less_Least)
    ultimately show ?thesis using that by blast
  qed
  have "find_pgcn h srps (Some (h, srp_pgc (srps ! ?i))) 1 = Some (1 + int j)"
    using find_pgcn_first [of j srps h 1] i j by simp
  then have "get_PGCN v = (if n = 1 + int j then Inr (n, v) else Inl AssertFail)"
    using assms by (auto simp: get_PGCN_def run get_st_def)
  moreover have "(\<forall>l < ?i. srp_pgc (srps ! l) \<noteq> srp_pgc (srps ! ?i)) \<longleftrightarrow> j = ?i"
    using j by (metis le_neq_implies_less)
  moreover have "j = ?i \<longleftrightarrow> n = 1 + int j" using assms(2) by linarith
  ultimately show ?thesis by simp
qed

lemma get_PGCN_shared_witness:
  "get_PGCN (ex_title 1 1) = Inr (1, ex_title 1 1)"
  using get_PGCN_shared [OF ex_title_pgcit, of 1 1 1]
  by (simp add: ex_title_def)

section \<open>The current part\<close>

definition part_at :: "ptt_info list \<Rightarrow> int \<Rightarrow> nat \<Rightarrow> bool" where
  "part_at ptts g j \<longleftrightarrow> uint (ptt_pgn (ptts ! j)) = g \<or>
     (j + 1 < length ptts \<and> uint (ptt_pgn (ptts ! j)) < g \<and> g < uint (ptt_pgn (ptts ! (j + 1))))"

lemma part_at_Cons:
  "part_at (p # ps) g 0 \<longleftrightarrow> uint (ptt_pgn p) = g \<or>
     (ps \<noteq> [] \<and> uint (ptt_pgn p) < g \<and> g < uint (ptt_pgn (hd ps)))"
  "part_at (p # ps) g (Suc j) \<longleftrightarrow> part_at ps g j"
  by (cases ps; auto simp: part_at_def)+

lemma part_at_above:
  assumes "sorted_wrt (\<lambda>p q. uint (ptt_pgn p) < uint (ptt_pgn q)) (p # ps)"
    and "g \<le> uint (ptt_pgn p)" and "j < length ps"
  shows "\<not> part_at ps g j"
proof -
  have "uint (ptt_pgn p) < uint (ptt_pgn (ps ! j))" using assms(1,3) by simp
  with assms(2) have "g < uint (ptt_pgn (ps ! j))" by linarith
  then show ?thesis by (auto simp: part_at_def)
qed

lemma find_part_from:
  assumes "\<forall>p \<in> set ps. uint (ptt_pgcn p) = c"
    and "sorted_wrt (\<lambda>p q. uint (ptt_pgn p) < uint (ptt_pgn q)) ps"
  shows "find_part prev ps c g n = Some k \<longleftrightarrow>
    (\<exists>q. prev = Some q \<and> ps \<noteq> [] \<and> uint (ptt_pgn q) < g \<and> g < uint (ptt_pgn (hd ps)) \<and> k = n - 1) \<or>
    (\<exists>j < length ps. k = n + int j \<and> part_at ps g j)"
  using assms
proof (induction ps arbitrary: prev n)
  case Nil
  then show ?case by simp
next
  case (Cons p ps)
  have split: "(\<exists>j < length (p # ps). k = n + int j \<and> part_at (p # ps) g j) \<longleftrightarrow>
      (k = n \<and> part_at (p # ps) g 0) \<or> (\<exists>j < length ps. k = n + 1 + int j \<and> part_at ps g j)"
  proof
    assume "\<exists>j < length (p # ps). k = n + int j \<and> part_at (p # ps) g j"
    then obtain j where j: "j < length (p # ps)" "k = n + int j" "part_at (p # ps) g j" by blast
    then show "(k = n \<and> part_at (p # ps) g 0) \<or> (\<exists>j < length ps. k = n + 1 + int j \<and> part_at ps g j)"
      by (cases j) (auto simp: part_at_Cons)
  next
    assume "(k = n \<and> part_at (p # ps) g 0) \<or> (\<exists>j < length ps. k = n + 1 + int j \<and> part_at ps g j)"
    then show "\<exists>j < length (p # ps). k = n + int j \<and> part_at (p # ps) g j"
    proof
      assume "\<exists>j < length ps. k = n + 1 + int j \<and> part_at ps g j"
      then obtain j where "j < length ps" "k = n + 1 + int j" "part_at ps g j" by blast
      then show ?thesis by (intro exI [of _ "Suc j"]) (simp add: part_at_Cons)
    qed (intro exI [of _ 0], simp)
  qed
  have above: "\<not> (\<exists>j < length ps. k = n + 1 + int j \<and> part_at ps g j)" if "g \<le> uint (ptt_pgn p)"
    using part_at_above [OF Cons.prems(2) that] by blast
  have IH: "find_part (Some p) ps c g (n + 1) = Some k \<longleftrightarrow>
      (k = n \<and> ps \<noteq> [] \<and> uint (ptt_pgn p) < g \<and> g < uint (ptt_pgn (hd ps))) \<or>
      (\<exists>j < length ps. k = n + 1 + int j \<and> part_at ps g j)"
    using Cons.IH [of "Some p" "n + 1"] Cons.prems by auto
  have c: "uint (ptt_pgcn p) = c" using Cons.prems(1) by simp
  show ?case
    unfolding split using above
    by (cases prev) (auto simp: c IH part_at_Cons)
qed

text \<open>
  The search for the current part in a title whose parts are all programs of one chain, in
  increasing order: it finds the last part that starts at or before the program, except that a
  program after the start of the last part is not found at all.
\<close>

theorem find_part_result:
  assumes "\<forall>p \<in> set ptts. uint (ptt_pgcn p) = c"
    and "sorted_wrt (\<lambda>p q. uint (ptt_pgn p) < uint (ptt_pgn q)) ptts"
  shows "(find_part None ptts c g 0 = Some (int k) \<longleftrightarrow> k < length ptts \<and>
      (uint (ptt_pgn (ptts ! k)) = g \<or>
       k + 1 < length ptts \<and> uint (ptt_pgn (ptts ! k)) < g \<and> g < uint (ptt_pgn (ptts ! (k + 1))))) \<and>
    (ptts \<noteq> [] \<and> uint (ptt_pgn (last ptts)) < g \<longrightarrow> find_part None ptts c g 0 = None)"
proof (intro conjI impI)
  show "find_part None ptts c g 0 = Some (int k) \<longleftrightarrow> k < length ptts \<and>
      (uint (ptt_pgn (ptts ! k)) = g \<or>
       k + 1 < length ptts \<and> uint (ptt_pgn (ptts ! k)) < g \<and> g < uint (ptt_pgn (ptts ! (k + 1))))"
    using find_part_from [OF assms, of None g 0 "int k"] by (auto simp: part_at_def)
next
  assume last: "ptts \<noteq> [] \<and> uint (ptt_pgn (last ptts)) < g"
  then have ne: "ptts \<noteq> []" and g: "uint (ptt_pgn (last ptts)) < g" by simp_all
  have "uint (ptt_pgn (ptts ! j)) < g" if "j < length ptts" for j
  proof -
    have "uint (ptt_pgn (ptts ! j)) \<le> uint (ptt_pgn (last ptts))"
    proof (cases "j = length ptts - 1")
      case True
      then show ?thesis using ne by (simp add: last_conv_nth)
    next
      case False
      with that have "j < length ptts - 1" by linarith
      with sorted_wrt_nth_less [OF assms(2) this] ne show ?thesis
        by (simp add: last_conv_nth)
    qed
    with g show ?thesis by simp
  qed
  then have "\<not> part_at ptts g j" if "j < length ptts" for j
    using that by (fastforce simp: part_at_def)
  then show "find_part None ptts c g 0 = None"
    using find_part_from [OF assms, of None g 0] by (cases "find_part None ptts c g 0") auto
qed

lemma find_part_result_witness:
  "find_part None [\<lparr>ptt_pgcn = 1, ptt_pgn = 1\<rparr>, \<lparr>ptt_pgcn = 1, ptt_pgn = 4\<rparr>] 1 3 0 = Some 0 \<and>
   find_part None [\<lparr>ptt_pgcn = 1, ptt_pgn = 1\<rparr>, \<lparr>ptt_pgcn = 1, ptt_pgn = 4\<rparr>] 1 5 0 = None"
proof -
  let ?ptts = "[\<lparr>ptt_pgcn = 1, ptt_pgn = 1\<rparr>, \<lparr>ptt_pgcn = 1, ptt_pgn = 4\<rparr>]"
  have "find_part None ?ptts 1 3 0 = Some (int 0)"
    using find_part_result [of ?ptts 1 3 0] by force
  moreover have "find_part None ?ptts 1 5 0 = None"
    using find_part_result [of ?ptts 1 5 0] by force
  ultimately show ?thesis by simp
qed

section \<open>Resuming\<close>

lemma block_of_link_split:
  assumes "- (2 ^ 31) \<le> b" and "b < 2 ^ 31"
  shows "block_of_link (l\<lparr>link_command := PlayThis, data1 := word_of_int (b AND 0xffff),
    data2 := word_of_int (drop_bit 16 b)\<rparr>) = b"
proof -
  have "ucast (word_of_int (b AND 0xffff) :: u16) OR
      push_bit 16 (ucast (word_of_int (drop_bit 16 b) :: u16)) = (word_of_int b :: u32)"
  proof (rule bit_eqI)
    fix k assume "possible_bit TYPE(u32) k"
    then have k: "k < 32" by simp
    have mask: "bit (0xffff :: int) j \<longleftrightarrow> j < 16" for j
    proof -
      have "(0xffff :: int) = mask 16" by (simp add: mask_eq_exp_minus_1)
      then show ?thesis by (simp only: bit_mask_iff) simp
    qed
    show "bit (ucast (word_of_int (b AND 0xffff) :: u16) OR
        push_bit 16 (ucast (word_of_int (drop_bit 16 b) :: u16)) :: u32) k =
      bit (word_of_int b :: u32) k"
      using k by (cases "k < 16")
        (auto simp: bit_or_iff bit_push_bit_iff bit_unsigned_iff bit_word_of_int_iff
          bit_and_iff mask bit_drop_bit_eq)
  qed
  then have "block_of_link (l\<lparr>link_command := PlayThis, data1 := word_of_int (b AND 0xffff),
    data2 := word_of_int (drop_bit 16 b)\<rparr>) = sint (word_of_int b :: u32)"
    by (simp add: block_of_link_def)
  also have "\<dots> = b" using assms by (simp add: signed_of_int signed_take_bit_int_eq_self)
  finally show ?thesis .
qed

text \<open>
  The stages of a resume: the title set is open (\<open>rsm_open\<close>), the five registers are back
  (\<open>rsm_regs_back\<close>), the cell is set (\<open>rsm_done\<close>; \<^verbatim>\<open>set_PGN\<close> recomputes register 7).
\<close>

definition rsm_of :: "dvd_state \<Rightarrow> int \<times> int \<times> u16 list \<times> int \<times> int" where
  "rsm_of s = (rsm_vtsN s, rsm_blockN s, rsm_regs s, rsm_pgcN s, rsm_cellN s)"

definition rsm_open :: "int \<times> int \<times> u16 list \<times> int \<times> int \<Rightarrow> vm \<Rightarrow> bool" where
  "rsm_open r t \<longleftrightarrow> domain (state t) = VTS_DOMAIN \<and> vtsN (state t) = fst r \<and>
     rsm_of (state t) = r \<and> length (SPRM (registers (state t))) = 24"

definition rsm_done :: "int \<times> int \<times> u16 list \<times> int \<times> int \<Rightarrow> vm \<Rightarrow> bool" where
  "rsm_done r t \<longleftrightarrow> rsm_open r t \<and>
     (\<forall>i \<in> {0, 1, 2, 4}. SPRM (registers (state t)) ! (4 + i) = fst (snd (snd r)) ! i)"

lemma keeps_put_sprm:
  assumes "\<And>v. P v \<Longrightarrow> 0 \<le> i \<Longrightarrow> i < int (length (SPRM (registers (state v)))) \<Longrightarrow>
    P (v\<lparr>state := (state v)\<lparr>registers := (registers (state v))\<lparr>
      SPRM := (SPRM (registers (state v)))[nat i := x]\<rparr>\<rparr>\<rparr>)"
  shows "keeps P (\<lambda>_. True) (put_sprm i x)"
  by (rule keepsI) (auto simp: put_sprm_def get_st_def upd_st_def arr_iffs intro: assms)

lemma keeps_upd_st:
  "(\<And>v. P v \<Longrightarrow> P (v\<lparr>state := f (state v)\<rparr>)) \<Longrightarrow> keeps P (\<lambda>_. True) (upd_st f)"
  unfolding upd_st_def by (rule keeps_upd)

lemma rsm_open_set_PGCN: "keeps (rsm_open r) (\<lambda>_. True) (set_PGCN n)"
  unfolding set_PGCN_def
  by (intro keeps_bnd keeps_sq keeps_if keeps_when_p keeps_case_option keeps_case_prod keeps_ret
      keeps_readers keeps_put_sprm keeps_upd_st)
    (auto simp: rsm_open_def rsm_of_def)

lemma rsm_done_set_PGN:
  "keeps (\<lambda>t. rsm_done r t \<and> cellN (state t) = c) (\<lambda>_. True) set_PGN"
  unfolding set_PGN_def
  by (intro keeps_bnd keeps_sq keeps_if keeps_when_p keeps_case_option keeps_case_prod keeps_ret
      keeps_readers keeps_put_sprm keeps_upd_st)
    (auto simp: rsm_open_def rsm_of_def rsm_done_def)

lemma rsm_restore:
  assumes "length (fst (snd (snd r))) = 5"
  shows "triple (rsm_open r) (restore_regs 4 (fst (snd (snd r)))) (\<lambda>_. rsm_done r)"
proof -
  obtain a b c d e where "fst (snd (snd r)) = [a, b, c, d, e]"
    using assms by (auto simp: length_Suc_conv eval_nat_numeral)
  then show ?thesis
    by (auto simp: triple_def put_sprm_def get_st_def upd_st_def rsm_open_def rsm_done_def
        rsm_of_def arr_iffs)
qed


lemma rsm_link:
  assumes "vm_inv t" and "rsm_of (state t) = (n, b, xs, m, c)" and "c \<noteq> 0" and "length xs = 5"
    and "link_RSM fuel (link_zero\<lparr>link_command := LinkRSM\<rparr>) t = Inr (res, u)"
  shows "rsm_done (n, b, xs, m, c) u \<and> cellN (state u) = c \<and>
    (\<exists>l. res = Go (l\<lparr>link_command := PlayThis, data1 := word_of_int (b AND 0xffff),
       data2 := word_of_int (drop_bit 16 b)\<rparr>)) \<or> n = 0"
proof (cases "n = 0")
  case False
  let ?r = "(n, b, xs, m, c)"
  let ?Q = "\<lambda>res u. rsm_done ?r u \<and> cellN (state u) = c \<and>
    (\<exists>l. res = Go (l\<lparr>link_command := PlayThis, data1 := word_of_int (b AND 0xffff),
       data2 := word_of_int (drop_bit 16 b)\<rparr>))"
  let ?t = "t\<lparr>state := (state t)\<lparr>domain := VTS_DOMAIN\<rparr>\<rparr>"
  have opened: "wpe (ifoOpenNewVTSI n) (\<lambda>ok v. ok \<longrightarrow> rsm_open ?r v) (\<lambda>_. True) ?t"
    using assms(1,2)
    by (auto simp: ifoOpenNewVTSI_def get_st_def upd_st_def rsm_open_def rsm_of_def vm_inv_def
        wf_registers_def split: option.split)
  have set: "triple (\<lambda>v. rsm_done ?r v \<and> cellN (state v) = c) set_PGN
      (\<lambda>_ v. rsm_done ?r v \<and> cellN (state v) = c)"
    using rsm_done_set_PGN by (simp add: triple_keeps)
  have tail: "triple (rsm_done ?r) (sq (upd_st (\<lambda>t. t\<lparr>cellN := c\<rparr>))
      (bnd (get_st rsm_blockN) (\<lambda>b.
       bnd set_PGN (\<lambda>found.
       sq (assert_p found)
         (ret (Go (l\<lparr>link_command := PlayThis, data1 := word_of_int (b AND 0xffff),
            data2 := word_of_int (drop_bit 16 b)\<rparr>))))))) ?Q" for l
  proof -
    have "wpe set_PGN (\<lambda>found. wpe (sq (assert_p found)
         (ret (Go (l\<lparr>link_command := PlayThis, data1 := word_of_int (b AND 0xffff),
            data2 := word_of_int (drop_bit 16 b)\<rparr>)))) ?Q (\<lambda>_. True)) (\<lambda>_. True)
        (v\<lparr>state := (state v)\<lparr>cellN := c\<rparr>\<rparr>)" if "rsm_done ?r v" for v
      by (rule wpe_mono [OF set [unfolded triple_def, rule_format]])
        (use that in \<open>auto simp: rsm_done_def rsm_open_def rsm_of_def\<close>)
    moreover have "rsm_done ?r v \<Longrightarrow> rsm_blockN (state v) = b" for v
      by (simp add: rsm_done_def rsm_open_def rsm_of_def)
    ultimately show ?thesis
      unfolding triple_def get_st_def upd_st_def by (simp only: wpe_sq wpe_bnd wpe_upd wpe_rd) simp
  qed
  have cells: "triple (rsm_done ?r) (bnd (get_st rsm_cellN) (\<lambda>cell.
      if cell = 0 then k
      else sq (upd_st (\<lambda>t. t\<lparr>cellN := cell\<rparr>))
        (bnd (get_st rsm_blockN) (\<lambda>b.
         bnd set_PGN (\<lambda>found.
         sq (assert_p found)
           (ret (Go (l\<lparr>link_command := PlayThis, data1 := word_of_int (b AND 0xffff),
              data2 := word_of_int (drop_bit 16 b)\<rparr>)))))))) ?Q" for k l
    unfolding triple_def get_st_def [of rsm_cellN]
  proof (intro allI impI)
    fix v assume v: "rsm_done ?r v"
    then have "rsm_cellN (state v) = c" by (simp add: rsm_done_def rsm_open_def rsm_of_def)
    with tail [unfolded triple_def, rule_format, OF v] assms(3)
    show "wpe (bnd (rd (\<lambda>v. rsm_cellN (state v))) (\<lambda>cell.
      if cell = 0 then k
      else sq (upd_st (\<lambda>t. t\<lparr>cellN := cell\<rparr>))
        (bnd (get_st rsm_blockN) (\<lambda>b.
         bnd set_PGN (\<lambda>found.
         sq (assert_p found)
           (ret (Go (l\<lparr>link_command := PlayThis, data1 := word_of_int (b AND 0xffff),
              data2 := word_of_int (drop_bit 16 b)\<rparr>)))))))) ?Q (\<lambda>_. True) v"
      by (simp only: wpe_bnd [of "rd f" for f] wpe_rd if_False)
  qed
  let ?lv = "link_zero\<lparr>link_command := LinkRSM\<rparr>"
  have button: "triple (rsm_done ?r) (sq (set_button (data1 ?lv)) m) ?Q"
    if "triple (rsm_done ?r) m ?Q" for m
    using that by (simp add: set_button_def link_zero_def triple_def)
  have regs: "triple (rsm_open ?r) (bnd (get_st rsm_regs) (\<lambda>ys. sq (restore_regs 4 ys) m)) ?Q"
    if m: "triple (rsm_done ?r) m ?Q" for m
  proof -
    have "triple (rsm_open ?r) (sq (restore_regs 4 xs) m) ?Q"
      unfolding sq_def using rsm_restore [of ?r] assms(4) m by (auto intro: triple_bnd)
    then show ?thesis
      by (auto simp: triple_def get_st_def rsm_open_def rsm_of_def)
  qed
  have opened2: "triple (rsm_open ?r) (bnd (get_st rsm_pgcN) (\<lambda>n. bnd (set_PGCN n) (\<lambda>_. m))) ?Q"
    if "triple (rsm_open ?r) m ?Q" for m
    by (intro triple_keeps_bnd rsm_open_set_PGCN keeps_readers that)
  note rest = opened2 [OF regs [OF button [OF cells]], unfolded triple_def, rule_format]
  have "wpe (bnd (ifoOpenNewVTSI n) (\<lambda>ok. sq (assert_p ok) m)) ?Q (\<lambda>_. True) ?t"
    if "\<And>v. rsm_open ?r v \<Longrightarrow> wpe m ?Q (\<lambda>_. True) v" for m
    unfolding wpe_bnd
    by (rule wpe_mono [OF opened]) (use that in auto)
  note run = this [OF rest]
  have "wpe (link_RSM fuel ?lv) ?Q (\<lambda>_. True) t"
    unfolding link_RSM_def get_st_def [of rsm_vtsN] upd_st_def [of "\<lambda>t. t\<lparr>domain := VTS_DOMAIN\<rparr>"]
    using run assms(2) False
    by (simp only: wpe_bnd [of "rd f" for f] wpe_rd wpe_sq wpe_upd rsm_of_def prod.inject if_False)
  from wpe_Inr [OF this assms(5)] show ?thesis by blast
qed simp

text \<open>
  C16: The round trip of leaving a title for a menu and resuming it.  When \<^verbatim>\<open>set_RSMinfo\<close> saved a
  cell and a block, and later \<^verbatim>\<open>vm_jump_resume\<close> succeeds from any well-formed state with that
  resume information, the machine is back in the title set, cell and block that were saved, with
  the title, title-set title, chain and button registers (4, 5, 6 and 8) as they were.
\<close>

theorem resume_restores:
  assumes "vm_inv v" and "set_RSMinfo cell block v = Inr ((), s)"
    and "rsm_cellN (state s) \<noteq> 0" and "- (2 ^ 31) \<le> block" and "block < 2 ^ 31"
    and "vm_inv t" and "rsm_of (state t) = rsm_of (state s)"
    and "vm_jump_resume (Suc (Suc fuel)) t = Inr (True, u)"
  shows "domain (state u) = VTS_DOMAIN \<and> vtsN (state u) = vtsN (state v) \<and>
    cellN (state u) = (if cell \<noteq> 0 then cell else cellN (state v)) \<and> blockN (state u) = block \<and>
    (\<forall>i \<in> {4, 5, 6, 8}. SPRM (registers (state u)) ! i = SPRM (registers (state v)) ! i)"
proof -
  let ?c = "if cell \<noteq> 0 then cell else cellN (state v)"
  let ?xs = "take 5 (drop 4 (SPRM (registers (state v))))"
  have len: "length (SPRM (registers (state v))) = 24"
    using assms(1) by (simp add: vm_inv_def wf_registers_def)
  have "wpe (set_RSMinfo cell block) (\<lambda>_ s. rsm_vtsN (state s) = vtsN (state v) \<and>
      rsm_blockN (state s) = block \<and> rsm_regs (state s) = ?xs \<and> rsm_cellN (state s) = ?c)
      (\<lambda>_. True) v"
  proof -
    let ?K = "\<lambda>s. rsm_vtsN (state s) = vtsN (state v) \<and> rsm_blockN (state s) = block \<and>
        SPRM (registers (state s)) = SPRM (registers (state v)) \<and> rsm_cellN (state s) = ?c"
    have pgcn: "wpe get_PGCN (\<lambda>_. ?K) (\<lambda>_. True) w" if "?K w" for w
      using keepsD [of ?K, OF keeps_readers(8) that] .
    show ?thesis
      unfolding set_RSMinfo_def get_st_def upd_st_def
      by (simp only: wpe_sq wpe_bnd wpe_upd wpe_rd) (rule wpe_mono [OF pgcn]; simp add: len)
  qed
  from wpe_Inr [OF this assms(2)]
  have r: "rsm_of (state t) = (vtsN (state v), block, ?xs, rsm_pgcN (state s), ?c)" and c: "?c \<noteq> 0"
    using assms(3,7) by (auto simp: rsm_of_def)
  have xs: "length ?xs = 5" using len by simp
  have n: "vtsN (state v) \<noteq> 0"
    using assms(8) r by (auto simp: vm_jump_resume_def get_st_def run rsm_of_def)
  let ?lv = "link_zero\<lparr>link_command := LinkRSM\<rparr>"
  have "process_command (Suc (Suc fuel)) ?lv t = Inr (True, u)"
    using assms(8) r n by (simp add: vm_jump_resume_def get_st_def run rsm_of_def link_zero_def)
  then obtain res w where w: "link_RSM (Suc fuel) ?lv t = Inr (res, w)"
    and rest: "(case res of Stop \<Rightarrow> ret False | Go lv' \<Rightarrow> process_command (Suc fuel) lv') w = Inr (True, u)"
    unfolding process_command.simps(2) [of "Suc fuel"] process_link_def
    by (auto simp: run_bnd link_zero_def split: sum.splits)
  from rsm_link [OF assms(6) r c xs w] n
  have fin: "rsm_done (vtsN (state v), block, ?xs, rsm_pgcN (state s), ?c) w"
    "cellN (state w) = ?c" and res: "\<exists>l. res = Go (l\<lparr>link_command := PlayThis,
       data1 := word_of_int (block AND 0xffff), data2 := word_of_int (drop_bit 16 block)\<rparr>)"
    by auto
  from res rest have "u = w\<lparr>state := (state w)\<lparr>blockN := block\<rparr>\<rparr>"
    using block_of_link_split [OF assms(4,5)] by (auto simp: run upd_st_def)
  with fin len show ?thesis
    by (auto simp: rsm_done_def rsm_open_def rsm_of_def)
qed

lemma resume_restores_witness:
  "\<exists>s t u. set_RSMinfo 0 70000 (ex_title 2 3) = Inr ((), s) \<and>
    rsm_of (state t) = rsm_of (state s) \<and> cellN (state t) = 1 \<and>
    vm_jump_resume (Suc (Suc 0)) t = Inr (True, u) \<and>
    cellN (state u) = 3 \<and> blockN (state u) = 70000"
proof -
  obtain s where s: "set_RSMinfo 0 70000 (ex_title 2 3) = Inr ((), s)"
    "rsm_of (state s) = (1, 70000, [1, 1, 0, 1, 1024], 1, 3)"
    by (simp add: set_RSMinfo_def ex_defs table_runs rsm_of_def run)
  let ?t = "(ex_title 1 1)\<lparr>state := (state (ex_title 1 1))\<lparr>rsm_vtsN := 1, rsm_blockN := 70000,
     rsm_regs := [1, 1, 0, 1, 1024], rsm_pgcN := 1, rsm_cellN := 3\<rparr>\<rparr>"
  have t: "vm_inv ?t" using ex_inv(2) [of 1 1] by (simp add: vm_inv_def)
  have "rsm_of (state ?t) = rsm_of (state s)" using s(2) by (simp add: rsm_of_def)
  moreover obtain u where u: "vm_jump_resume (Suc (Suc 0)) ?t = Inr (True, u)"
    by (simp add: vm_jump_resume_def process_link_def link_RSM_def ifoOpenNewVTSI_def
        set_button_def link_zero_def ex_defs table_runs run)
  moreover have "cellN (state u) = 3 \<and> blockN (state u) = 70000"
    using resume_restores [OF _ s(1) _ _ _ t _ u] s ex_inv(2) [of 3 2]
    by (simp add: rsm_of_def) (simp add: ex_title_def)
  ultimately show ?thesis
    using s(1) by (intro exI [of _ s] exI [of _ ?t] exI [of _ u]) (simp add: ex_title_def)
qed

section \<open>Saving and restoring\<close>

text \<open>
  C22: The round trip of \<^verbatim>\<open>vm_get_state\<close> and \<^verbatim>\<open>vm_set_state\<close>, for a state whose chain number is the
  place of the current chain in the table of its domain (the title set's chains, or the menu
  chains of the language).  Restored on a machine with the same open tables, whatever it did in
  between, the saved state comes back complete, the pointer to the current chain included, except
  that outside the title domain the block is set to 0; the hop counter goes up by one.  The
  condition excludes the first-play chain, whose state cannot be restored
  (\<open>first_play_not_restored\<close> in the theory \<open>Vm_Tables\<close>).
\<close>

theorem vm_state_roundtrip:
  assumes "vm_inv v" and "get_PGCIT v = Inr (Some (h, srps), v)"
    and "1 \<le> pgcN (state v)" and "pgcN (state v) \<le> int (length srps)"
    and "cur_pgc (state v) = Some (h, srp_pgc (srps ! nat (pgcN (state v) - 1)))"
    and "vm_get_state v = Inr (save, v)" and "vtsN s' = vtsN (state v)"
  shows "vm_set_state save (v\<lparr>state := s'\<rparr>) = Inr (True, v\<lparr>
    state := (state v)\<lparr>blockN := (if domain (state v) = VTS_DOMAIN then blockN (state v) else 0)\<rparr>,
    hop_channel := hop_channel v + 1\<rparr>)"
proof -
  have save: "save = (state v)\<lparr>cur_pgc := None\<rparr>"
    using assms(6) by (simp add: vm_get_state_def run)
  let ?w = "v\<lparr>state := save\<rparr>"
  have w: "vm_inv ?w" using assms(1) by (simp add: vm_inv_def save)
  have "get_PGCIT ?w = (case get_PGCIT v of Inl f \<Rightarrow> Inl f | Inr (r, u) \<Rightarrow> Inr (r, ?w))"
    by (cases "domain (state v)"; cases "vtsi v"; cases "vmgi v")
      (simp_all add: save get_PGCIT_def get_MENU_PGCIT_def get_st_def get_sprm_def run Let_def
        split: option.split sum.split)
  then have pgcit: "get_PGCIT ?w = Inr (Some (h, srps), ?w)" using assms(2) by simp
  note set = set_PGCN_result [OF w pgcit, of "pgcN (state v)"]
  have "set_PGCN (pgcN save) ?w = Inr (True, ?w\<lparr>state := (state ?w)\<lparr>
       cur_pgc := cur_pgc (state v), pgcN := pgcN (state v), pgN := 1,
       registers := (if domain (state v) = VTS_DOMAIN
         then (registers (state v))\<lparr>SPRM := (SPRM (registers (state v)))[6 := word_of_int (pgcN (state v))]\<rparr>
         else registers (state v))\<rparr>\<rparr>)"
    using set assms(3-5) by (simp add: save)
  then show ?thesis
    using assms(7)
    by (simp add: vm_set_state_def ifoOpenNewVTSI_def get_st_def upd_st_def run save)
qed

lemma vm_state_roundtrip_witness:
  "\<exists>save. vm_get_state (ex_title 2 3) = Inr (save, ex_title 2 3) \<and>
    vm_set_state save (ex_title 1 1) = Inr (True, (ex_title 2 3)\<lparr>hop_channel := 1\<rparr>)"
proof -
  let ?s = "state (ex_title 1 1)"
  have e: "(ex_title 2 3)\<lparr>state := ?s\<rparr> = ex_title 1 1" by (simp add: ex_title_def)
  obtain save where save: "vm_get_state (ex_title 2 3) = Inr (save, ex_title 2 3)"
    by (simp add: vm_get_state_def run)
  have "vm_set_state save ((ex_title 2 3)\<lparr>state := ?s\<rparr>) = Inr (True, (ex_title 2 3)\<lparr>
      state := (state (ex_title 2 3))\<lparr>blockN := (if domain (state (ex_title 2 3)) = VTS_DOMAIN
        then blockN (state (ex_title 2 3)) else 0)\<rparr>,
      hop_channel := hop_channel (ex_title 2 3) + 1\<rparr>)"
    by (rule vm_state_roundtrip [OF ex_inv(2) ex_title_pgcit _ _ _ save])
      (simp_all add: ex_title_def)
  then show ?thesis
    using save unfolding e by (auto simp: ex_title_def ex_reset_def vm_new_vm_def)
qed

section \<open>After a failure to open a title set\<close>

text \<open>
  A jump to a title whose title set cannot be opened reports failure, but the tables of the
  set that was playing are already closed: the current chain is a pointer to freed memory, and
  the next position query uses it.
\<close>

theorem vm_jump_title_part_dangling:
  assumes "vm_inv v" and "vtsi v = Some h" and "cur_pgc (state v) = Some (hid h, k)"
    and "vmgi v = Some m" and "hid m \<noteq> hid h"
    and "tt_srpt m = Some titles" and "1 \<le> title" and "title \<le> int (length titles)"
    and "uint (title_set_nr (titles ! nat (title - 1))) \<noteq> vtsN (state v)"
    and "ifoOpenVTSI (vm_dvd v) (uint (title_set_nr (titles ! nat (title - 1)))) = None"
  shows "\<exists>t. vm_jump_title_part fuel title part v = Inr (False, t) \<and>
    vm_position_get t = Inl DanglingPtr"
proof -
  have "length (SPRM (registers (state v))) = 24"
    using assms(1) by (simp add: vm_inv_def wf_registers_def)
  then show ?thesis
    using assms
    by (simp add: vm_jump_title_part_def set_PTT_def the_tt_srpt_def set_VTS_PTT_def
        ifoOpenNewVTSI_def get_st_def upd_st_def vm_position_get_def get_sprm_def the_cell_def
        the_pgc_def find_pgc_def handle_obj_def run)
qed

definition ex_two_titles :: vm where
  "ex_two_titles = (ex_title 1 1)\<lparr>vmgi := Some ((ex_vmg ex_pgc)\<lparr>tt_srpt := Some
     [\<lparr>nr_of_angles = 1, title_nr_of_ptts = 2, title_set_nr = 1, title_vts_ttn = 1\<rparr>,
      \<lparr>nr_of_angles = 1, title_nr_of_ptts = 1, title_set_nr = 2, title_vts_ttn = 1\<rparr>]\<rparr>)\<rparr>"

lemma ex_two_titles_inv: "vm_inv ex_two_titles"
  using ex_inv(2) [of 1 1] by (simp add: ex_two_titles_def vm_inv_def ex_title_def ex_reset_def
      wf_handle_def)

lemma vm_jump_title_part_dangling_witness:
  "\<exists>t. vm_jump_title_part 1 2 1 ex_two_titles = Inr (False, t) \<and>
    vm_position_get t = Inl DanglingPtr"
proof -
  let ?titles = "[\<lparr>nr_of_angles = 1, title_nr_of_ptts = 2, title_set_nr = 1, title_vts_ttn = 1\<rparr>,
      \<lparr>nr_of_angles = 1, title_nr_of_ptts = 1, title_set_nr = 2, title_vts_ttn = 1\<rparr>]"
  show ?thesis
    by (rule vm_jump_title_part_dangling [OF ex_two_titles_inv, of ex_vts 0
          "(ex_vmg ex_pgc)\<lparr>tt_srpt := Some ?titles\<rparr>" ?titles])
      (simp_all add: ex_two_titles_def ex_title_def ex_reset_def ex_vts_def ex_vmg_def
        ifoOpenVTSI_def ex_disc_def)
qed

text \<open>
  \<^verbatim>\<open>ifoOpenNewVTSI\<close> remembers the number of the title set it closed: after a failed open, a
  request for the old title set reports success without opening it, and no tables are there.
\<close>

theorem ifoOpenNewVTSI_stale:
  assumes "n \<noteq> vtsN (state v)" and "ifoOpenVTSI (vm_dvd v) n = None"
  shows "\<exists>t. ifoOpenNewVTSI n v = Inr (False, t) \<and>
    ifoOpenNewVTSI (vtsN (state v)) t = Inr (True, t) \<and> vtsi t = None \<and>
    the_ptt_srpt t = Inl NullDeref"
  using assms by (simp add: ifoOpenNewVTSI_def get_st_def the_ptt_srpt_def run)

lemma ifoOpenNewVTSI_stale_witness:
  "\<exists>t. ifoOpenNewVTSI 2 (ex_title 1 1) = Inr (False, t) \<and>
    ifoOpenNewVTSI 1 t = Inr (True, t) \<and> vtsi t = None \<and> the_ptt_srpt t = Inl NullDeref"
  using ifoOpenNewVTSI_stale [of 2 "ex_title 1 1"]
  by (simp add: ex_title_def ex_reset_def ifoOpenVTSI_def ex_disc_def)

section \<open>Audio streams\<close>

text \<open>The stream number in an audio control word.\<close>

definition audio_id :: "u16 \<Rightarrow> int" where
  "audio_id ctl = uint (drop_bit 8 ctl AND 7)"

lemma run_the_pgc:
  "cur_pgc (state v) = Some p \<Longrightarrow> find_pgc v p = Some g \<Longrightarrow> the_pgc v = Inr (g, v)"
  by (simp add: the_pgc_def get_st_def run)

lemma run_audio_stream:
  assumes "the_pgc v = Inr (g, v)" and "length (audio_control g) = 8"
    and "domain (state v) = VTS_DOMAIN" and "0 \<le> n" and "n < 8"
  shows "vm_get_audio_stream n v =
    Inr (if bit (audio_control g ! nat n) 15 then audio_id (audio_control g ! nat n) else -1, v)"
  using assms by (simp add: vm_get_audio_stream_def get_st_def run audio_id_def)

lemma first_audio_find:
  assumes "the_pgc v = Inr (g, v)" and "length (audio_control g) = 8"
    and "domain (state v) = VTS_DOMAIN"
  shows "\<forall>n \<in> set ns. 0 \<le> n \<and> n < 8 \<Longrightarrow> first_audio ns (-1) v =
    Inr (case List.find (\<lambda>n. bit (audio_control g ! nat n) 15) ns of
           None \<Rightarrow> -1 | Some n \<Rightarrow> audio_id (audio_control g ! nat n), v)"
proof (induction ns)
  case (Cons n ns)
  have "0 \<le> audio_id c" for c by (simp add: audio_id_def)
  then show ?case
    using Cons assms run_audio_stream [OF assms, of n] by (simp add: run)
qed (simp add: run)

lemma find_map: "List.find P (map f xs) = map_option f (List.find (\<lambda>x. P (f x)) xs)"
  by (induction xs) auto

lemma find_index:
  "List.find P xs =
   map_option (\<lambda>n. xs ! nat n) (List.find (\<lambda>n. P (xs ! nat n)) (map int [0..<length xs]))"
proof -
  have "map (\<lambda>n. xs ! nat n) (map int [0..<length xs]) = xs"
    by (simp add: comp_def map_nth)
  then show ?thesis
    using find_map [of P "\<lambda>n. xs ! nat n" "map int [0..<length xs]"] by simp
qed

text \<open>
  The audio stream that plays in the title domain: the one the audio register names, if the
  chain has it; else the first stream the chain has; -1 when it has none.  The query neither
  faults nor changes the machine.
\<close>

theorem vm_get_audio_active_stream_result:
  assumes "vm_inv v" and "cur_pgc (state v) = Some p" and "find_pgc v p = Some g"
    and "domain (state v) = VTS_DOMAIN"
  shows "vm_get_audio_active_stream v = Inr
    (let a = unat (SPRM (registers (state v)) ! 1); present = (\<lambda>ctl. bit ctl 15)
     in if a < 8 \<and> present (audio_control g ! a) then audio_id (audio_control g ! a)
        else case List.find present (audio_control g) of
               None \<Rightarrow> -1 | Some ctl \<Rightarrow> audio_id ctl, v)"
proof -
  let ?a = "SPRM (registers (state v)) ! 1"
  have g: "length (audio_control g) = 8"
    using vm_inv_find_pgc [OF assms(1,3)] by (simp add: wf_pgc_def)
  have the_g: "the_pgc v = Inr (g, v)" using assms(2,3) by (rule run_the_pgc)
  have reg: "get_sprm AST_REG v = Inr (?a, v)"
    using assms(1) by (simp add: get_sprm_def get_st_def run vm_inv_def wf_registers_def)
  have "0 \<le> audio_id c" for c by (simp add: audio_id_def)
  then have nonneg: "audio_id c \<noteq> -1" for c by (metis neg_0_le_iff_le not_one_le_zero)
  have first: "first_audio [0..7] (-1) v =
      Inr (case List.find (\<lambda>ctl. bit ctl 15) (audio_control g) of
             None \<Rightarrow> -1 | Some ctl \<Rightarrow> audio_id ctl, v)"
  proof -
    have eq: "[0..7] = map int [0..<length (audio_control g)]"
      unfolding g by (simp add: upto.simps upt_rec)
    have "\<forall>n \<in> set [0..7]. 0 \<le> n \<and> n < (8 :: int)" by simp
    from first_audio_find [OF the_g g assms(4) this] show ?thesis
      unfolding find_index [of "\<lambda>ctl. bit ctl 15" "audio_control g"] eq
      by (auto split: option.split)
  qed
  show ?thesis
  proof (cases "uint ?a < 8")
    case True
    then have "unat ?a < 8" by (simp only: uint_nat of_nat_less_numeral_iff)
    with True show ?thesis
      using run_audio_stream [OF the_g g assms(4), of "uint ?a"] first nonneg
      by (auto simp: vm_get_audio_active_stream_def run_bnd reg run_ret Let_def
          simp del: AST_REG_def)
  next
    case False
    then have "\<not> unat ?a < 8" unfolding uint_nat of_nat_less_numeral_iff .
    moreover have "vm_get_audio_stream (uint ?a) v = Inr (-1, v)"
      using False assms(4) by (simp add: vm_get_audio_stream_def get_st_def run)
    ultimately show ?thesis
      using first
      by (simp add: vm_get_audio_active_stream_def run_bnd reg run_ret Let_def
          del: AST_REG_def)
  qed
qed

lemma vm_get_audio_active_stream_witness:
  "vm_get_audio_active_stream (ex_title 1 1) = Inr (2, ex_title 1 1)"
  using vm_get_audio_active_stream_result [OF ex_inv(2), of 1 1 "(1, 0)" ex_pgc]
  by (simp add: ex_defs find_pgc_def handle_obj_def audio_id_def)

end
