(* ===== verification/Vm_Tables.thy ===== *)
theory Vm_Tables
  imports Vm_Props
begin

text \<open>
  What \<open>wf_pgc\<close> rules out.  \<^verbatim>\<open>ifoRead_PGC\<close> warns about some odd values and refuses none: it
  never compares the program map with the number of cells.  Two discs it accepts show that the
  side condition of the properties about links is needed: on one a resume reports a jump to a
  cell the chain does not have, on the other a link recurses without end.  The third result is
  about the first-play chain, which has no number in any table.
\<close>

section \<open>A resume behind the last cell\<close>

lemma find_pgcn_current:
  assumes "1 \<le> n" and "n \<le> int (length srps)"
    and "\<forall>j < nat (n - 1). srp_pgc (srps ! j) \<noteq> srp_pgc (srps ! nat (n - 1))"
  shows "find_pgcn h srps (Some (h, srp_pgc (srps ! nat (n - 1)))) 1 = Some n"
  using find_pgcn_first [of "nat (n - 1)" srps h 1] assms by auto

text \<open>
  The saved cell is trusted.  Let the resume information name the open title set and a chain of
  its table that no earlier entry shares, and let the saved title number be in the title table.
  When it names a cell behind the chain's last one, and the first program starts behind that cell
  too, \<^verbatim>\<open>set_PGN\<close> answers program 0, the resume reports success, and the next position query
  reads behind the cell array.
\<close>

theorem resume_past_cells:
  assumes "vtsi v = Some h" and "vts_pgcit h = Some srps" and "vts_ptt_srpt h = Some parts"
    and "vmgi v = Some m" and "tt_srpt m = Some titles"
    and "length (SPRM (registers (state v))) = 24" and "rsm_regs (state v) = a # xs"
    and "length xs = 4" and "uint a \<le> int (length titles)"
    and "rsm_vtsN (state v) = vtsN (state v)" and "vtsN (state v) \<noteq> 0"
    and "rsm_pgcN (state v) = n" and "1 \<le> n" and "n \<le> int (length srps)"
    and "\<forall>j < nat (n - 1). srp_pgc (srps ! j) \<noteq> srp_pgc (srps ! nat (n - 1))"
    and "srp_pgc (srps ! nat (n - 1)) < length (objs h)"
    and "objs h ! srp_pgc (srps ! nat (n - 1)) = g"
    and "nr_of_programs g \<noteq> 0" and "program_map g = f # fs" and "rsm_cellN (state v) < uint f"
    and "length (cell_playback g) \<le> unat (nr_of_cells g)"
    and "uint (nr_of_cells g) < rsm_cellN (state v)"
  shows "\<exists>t. vm_jump_resume (Suc (Suc k)) v = Inr (True, t) \<and>
    cellN (state t) = rsm_cellN (state v) \<and> pgN (state t) = 0 \<and>
    vm_position_get t = Inl OutOfBounds"
proof -
  obtain b c d e where xs: "xs = [b, c, d, e]"
    using assms(8) by (auto simp: length_Suc_conv eval_nat_numeral)
  have nr: "0 < uint (nr_of_programs g)"
    using assms(18) by (metis linorder_neqE_linordered_idom uint_0_iff uint_ge_0 not_le)
  have loop: "set_PGN_loop g (rsm_cellN (state v)) 0 = Inr 0"
    using nr assms(19,20) by (simp add: set_PGN_loop.simps)
  have "int (length (cell_playback g)) < rsm_cellN (state v)"
    using assms(21,22) by (metis le_less_trans of_nat_le_iff uint_nat)
  then have cells: "arr_get (cell_playback g) (rsm_cellN (state v) - 1) = Inl OutOfBounds"
    by (simp add: arr_get_def)
  have pos: "rsm_cellN (state v) \<noteq> 0" using assms(22) uint_ge_0 [of "nr_of_cells g"] by linarith
  note cur = find_pgcn_current [OF assms(13-15)]
  show ?thesis
    using assms(1-7,9-12) assms(13,14) assms(16-18) xs nr pos cells loop cur
    by (simp add: vm_jump_resume_def process_link_def link_RSM_def ifoOpenNewVTSI_def
        set_button_def link_zero_def get_st_def upd_st_def get_sprm_def put_sprm_def the_pgc_def
        the_cell_def the_tt_srpt_def the_ptt_srpt_def find_pgc_def handle_obj_def get_PGCIT_def
        get_PGCN_def get_TT_def vm_get_current_title_part_def set_PGN_def set_PGCN_def
        vm_position_get_def run split: option.split)
qed

definition ex_short_vts :: ifo_handle where
  "ex_short_vts = ex_vts\<lparr>objs := [ex_pgc\<lparr>program_map := [50, 60]\<rparr>]\<rparr>"

definition ex_short :: vm where
  "ex_short = (ex_title 1 1)\<lparr>vtsi := Some ex_short_vts, state := (state (ex_title 1 1))\<lparr>
     rsm_vtsN := 1, rsm_pgcN := 1, rsm_cellN := 10, rsm_regs := [1, 1, 0, 1, 1024]\<rparr>\<rparr>"

lemma resume_past_cells_witness:
  "\<exists>t. vm_jump_resume (Suc (Suc 0)) ex_short = Inr (True, t) \<and> cellN (state t) = 10 \<and>
    pgN (state t) = 0 \<and> vm_position_get t = Inl OutOfBounds"
  using resume_past_cells [of ex_short ex_short_vts "[\<lparr>entry_id = 0x81, srp_pgc = 0\<rparr>]"
      "[[\<lparr>ptt_pgcn = 1, ptt_pgn = 1\<rparr>, \<lparr>ptt_pgcn = 1, ptt_pgn = 2\<rparr>]]" "ex_vmg ex_pgc"
      "[\<lparr>nr_of_angles = 1, title_nr_of_ptts = 2, title_set_nr = 1, title_vts_ttn = 1\<rparr>]"
      1 "[1, 0, 1, 1024]" 1 "ex_pgc\<lparr>program_map := [50, 60]\<rparr>" 50 "[60]" 0]
  by (simp add: ex_short_def ex_short_vts_def ex_defs)

section \<open>Chains whose first program is behind their cells\<close>

text \<open>
  The state of the title domain in which chain \<open>n\<close> of the table is current, has no commands, and
  starts its first program right behind its last cell.
\<close>

definition empty_chain :: "pgc \<Rightarrow> bool" where
  "empty_chain g \<longleftrightarrow>
     (\<forall>tbl. command_tbl g = Some tbl \<longrightarrow> pre_cmds tbl = [] \<and> post_cmds tbl = []) \<and>
     nr_of_programs g \<noteq> 0 \<and> program_map g \<noteq> [] \<and>
     uint (hd (program_map g)) = uint (nr_of_cells g) + 1"

definition in_chain :: "ifo_handle \<Rightarrow> pgci_srp list \<Rightarrow> int \<Rightarrow> vm \<Rightarrow> bool" where
  "in_chain h srps n v \<longleftrightarrow>
     domain (state v) = VTS_DOMAIN \<and> vtsi v = Some h \<and> vts_pgcit h = Some srps \<and>
     length (SPRM (registers (state v))) = 24 \<and> 1 \<le> n \<and> n \<le> int (length srps) \<and>
     srp_pgc (srps ! nat (n - 1)) < length (objs h) \<and>
     cur_pgc (state v) = Some (hid h, srp_pgc (srps ! nat (n - 1)))"

lemma empty_chain_play:
  assumes "in_chain h srps n v" and "objs h ! srp_pgc (srps ! nat (n - 1)) = g"
    and "empty_chain g"
  shows "\<exists>w. in_chain h srps n w \<and> play_PGC_with m v = m w"
proof -
  obtain f fs where map: "program_map g = f # fs" and f: "uint f = uint (nr_of_cells g) + 1"
    using assms(3) by (cases "program_map g") (auto simp: empty_chain_def)
  have nr: "1 \<le> uint (nr_of_programs g)"
    using assms(3) uint_ge_0 [of "nr_of_programs g"]
    by (metis empty_chain_def int_one_le_iff_zero_less order_le_less uint_0_iff)
  let ?w = "v\<lparr>state := (state v)\<lparr>pgN := 1, blockN := 0, cellN := uint f\<rparr>\<rparr>"
  have "play_PGC_with m v = m ?w"
    using assms map f nr uint_ge_0 [of "nr_of_cells g"]
    by (cases "command_tbl g")
      (simp_all add: play_PGC_with_def play_PGC_PG_with_def play_PG_with_def play_Cell_with_def
        empty_chain_def in_chain_def get_st_def upd_st_def the_pgc_def find_pgc_def
        handle_obj_def run)
  moreover have "in_chain h srps n ?w" using assms(1) by (simp add: in_chain_def)
  ultimately show ?thesis by blast
qed

lemma empty_chain_post:
  assumes "in_chain h srps n v" and "objs h ! srp_pgc (srps ! nat (n - 1)) = g"
    and "empty_chain g" and "uint (next_pgc_nr g) = n"
  shows "play_PGC_post fuel v = Inl OutOfFuel"
  using assms(1)
proof (induction fuel arbitrary: v)
  case (Suc fuel)
  let ?w = "v\<lparr>state := (state v)\<lparr>cur_pgc := Some (hid h, srp_pgc (srps ! nat (n - 1))),
     pgcN := n, pgN := 1, registers := (registers (state v))\<lparr>
     SPRM := (SPRM (registers (state v)))[6 := word_of_int n]\<rparr>\<rparr>\<rparr>"
  have w: "in_chain h srps n ?w" using Suc.prems by (simp add: in_chain_def)
  have "play_PGC_post (Suc fuel) v = play_PGC_with (play_PGC_post fuel) ?w"
    using Suc.prems assms(2-4)
    by (cases "command_tbl g")
      (simp_all add: play_PGC_post_with_def empty_chain_def in_chain_def get_st_def upd_st_def
        put_sprm_def the_pgc_def find_pgc_def handle_obj_def set_PGCN_def get_PGCIT_def run)
  also have "\<dots> = Inl OutOfFuel"
    using empty_chain_play [OF w assms(2,3)] Suc.IH by metis
  finally show ?case .
qed (simp add: run)

text \<open>
  C33: In the title domain, a chain without pre- and post-commands whose first program starts right
  behind its last cell and whose successor is itself hangs the player: \<^verbatim>\<open>play_PGC\<close>, \<^verbatim>\<open>play_Cell\<close>
  and \<^verbatim>\<open>play_PGC_post\<close> call each other without end, whatever the amount of fuel, so the links to
  the chain's top and tail never return.  \<^verbatim>\<open>ifoRead_PGC\<close> accepts such a chain.
\<close>

theorem empty_chain_hangs:
  assumes "in_chain h srps n v" and "objs h ! srp_pgc (srps ! nat (n - 1)) = g"
    and "empty_chain g" and "uint (next_pgc_nr g) = n"
    and "link_command lv \<in> {LinkTopPGC, LinkTailPGC}"
  shows "play_PGC fuel v = Inl OutOfFuel \<and> process_command fuel lv v = Inl OutOfFuel"
proof
  have play: "play_PGC k w = Inl OutOfFuel" if "in_chain h srps n w" for k w
    using empty_chain_play [OF that assms(2,3), of "play_PGC_post k"]
      empty_chain_post [OF _ assms(2-4)] by (auto simp: play_PGC_def)
  then show "play_PGC fuel v = Inl OutOfFuel" using assms(1) .
  have button: "\<exists>w. in_chain h srps n w \<and> set_button (data1 lv) v = Inr ((), w)"
    using assms(1)
    by (auto simp: set_button_def put_sprm_def get_st_def upd_st_def in_chain_def run)
  show "process_command fuel lv v = Inl OutOfFuel"
  proof (cases fuel)
    case (Suc k)
    from button obtain w where w: "in_chain h srps n w" "set_button (data1 lv) v = Inr ((), w)"
      by blast
    show ?thesis
      using assms(5) w play [OF w(1), of k] empty_chain_post [OF w(1) assms(2-4), of k] Suc
      by (auto simp: process_link_def go_on_def run)
  qed (simp add: run)
qed

definition ex_loop_vts :: ifo_handle where
  "ex_loop_vts = ex_vts\<lparr>objs := [ex_pgc\<lparr>nr_of_programs := 1, nr_of_cells := 1,
     program_map := [2], cell_playback := [ex_cell], next_pgc_nr := 1\<rparr>]\<rparr>"

lemma empty_chain_hangs_witness:
  "\<forall>fuel. process_command fuel (link_zero\<lparr>link_command := LinkTopPGC\<rparr>)
     ((ex_title 1 1)\<lparr>vtsi := Some ex_loop_vts\<rparr>) = Inl OutOfFuel"
  using empty_chain_hangs [of ex_loop_vts "[\<lparr>entry_id = 0x81, srp_pgc = 0\<rparr>]" 1
      "(ex_title 1 1)\<lparr>vtsi := Some ex_loop_vts\<rparr>" _ "link_zero\<lparr>link_command := LinkTopPGC\<rparr>"]
  by (simp add: ex_loop_vts_def in_chain_def empty_chain_def ex_defs)

section \<open>The first-play chain\<close>

text \<open>
  C3: A state saved in the first-play chain is not restored.  \<^verbatim>\<open>set_FP_PGC\<close> stores the chain's byte
  offset in the IFO file as its number.  If the video manager has no menu tables, or has some and
  each has fewer entries than that offset, \<^verbatim>\<open>vm_set_state\<close> finds no such number and fails, whatever
  the machine did in the same title set in between; the current chain is then a null pointer,
  which the next position query uses.
\<close>

theorem first_play_not_restored:
  assumes "vmgi v = Some m" and "first_play_pgc m = Some k"
    and "\<forall>lus. pgci_ut m = Some lus \<longrightarrow> lus \<noteq> [] \<and>
      (\<forall>lu \<in> set lus. int (length (lu_pgcit lu)) < sint (mat_first_play_pgc m))"
    and "length (SPRM (registers (state v))) = 24" and "vtsN s = vtsN (state v)"
  shows "\<exists>w save t. set_FP_PGC v = Inr (True, w) \<and> cur_pgc (state w) = Some (hid m, k) \<and>
    vm_get_state w = Inr (save, w) \<and> vm_set_state save (w\<lparr>state := s\<rparr>) = Inr (False, t) \<and>
    cur_pgc (state t) = None \<and> vm_position_get t = Inl NullDeref"
proof -
  let ?s = "(state v)\<lparr>domain := FP_DOMAIN, cur_pgc := Some (hid m, k),
    pgcN := sint (mat_first_play_pgc m)\<rparr>"
  let ?w = "v\<lparr>state := ?s\<rparr>"
  let ?save = "?s\<lparr>cur_pgc := None\<rparr>"
  have "set_FP_PGC v = Inr (True, ?w)"
    using assms(1,2) by (simp add: set_FP_PGC_def upd_st_def run)
  moreover have "vm_get_state ?w = Inr (?save, ?w)" by (simp add: vm_get_state_def run)
  moreover have "set_PGCN (pgcN ?save) (v\<lparr>state := ?save\<rparr>) = Inr (False, v\<lparr>state := ?save\<rparr>)"
  proof (cases "pgci_ut m")
    case None
    then show ?thesis
      using assms(1,4)
      by (simp add: set_PGCN_def get_PGCIT_def get_MENU_PGCIT_def get_st_def get_sprm_def run)
  next
    case (Some lus)
    define i where "i = (let j = find_lang lus (SPRM (registers (state v)) ! 0)
      in if j = length lus then 0 else j)"
    have bound: "find_lang ls x \<le> length ls" for ls x by (induction ls) auto
    have i: "i < length lus"
      using assms(3) Some bound [of lus "SPRM (registers (state v)) ! 0"]
      by (auto simp: i_def Let_def)
    then have "int (length (lu_pgcit (lus ! i))) < sint (mat_first_play_pgc m)"
      using assms(3) Some by simp
    moreover have "get_PGCIT (v\<lparr>state := ?save\<rparr>) =
        Inr (Some (hid m, lu_pgcit (lus ! i)), v\<lparr>state := ?save\<rparr>)"
      using i assms(1,4) Some
      by (auto simp: get_PGCIT_def get_MENU_PGCIT_def get_st_def get_sprm_def run i_def Let_def)
    ultimately show ?thesis by (simp add: set_PGCN_def run)
  qed
  ultimately show ?thesis
    using assms(4,5)
    by (intro exI [of _ ?w] exI [of _ ?save] exI [of _ "v\<lparr>state := ?save\<rparr>"])
      (simp add: vm_set_state_def ifoOpenNewVTSI_def get_st_def upd_st_def vm_position_get_def
        get_sprm_def the_cell_def the_pgc_def run)
qed

lemma first_play_not_restored_witness:
  "\<exists>w save t. set_FP_PGC (ex_reset ex_pgc) = Inr (True, w) \<and> vm_get_state w = Inr (save, w) \<and>
    vm_set_state save (w\<lparr>state := state (ex_reset ex_pgc)\<rparr>) = Inr (False, t) \<and>
    vm_position_get t = Inl NullDeref"
  using first_play_not_restored [of "ex_reset ex_pgc" "ex_vmg ex_pgc" 0 "state (ex_reset ex_pgc)"]
  by (auto simp: ex_defs)

end
