(* ===== verification/Bitreader.thy ===== *)
theory Bitreader
  imports Prelude
begin

text \<open>
  The bit reader of libdvdread, \<^verbatim>\<open>lib/libdvd/libdvdread/src/bitreader.c\<close>, and that it refines a
  list of bits from which the first ones are taken.  Reading behind the end of the buffer is
  the fault \<open>OutOfBounds\<close>.
\<close>

record getbits_state =
  gb_start :: "u8 list"
  gb_byte_position :: u32
  gb_bit_position :: u32
  gb_byte :: u8

definition dvdread_getbits_init :: "u8 list option \<Rightarrow> fault + (bool \<times> getbits_state option)" where
  "dvdread_getbits_init start =
     (case start of
        None \<Rightarrow> Inr (False, None)
      | Some xs \<Rightarrow>
          (case arr_get xs 0 of
             Inl f \<Rightarrow> Inl f
           | Inr b \<Rightarrow> Inr (True, Some \<lparr>gb_start = xs, gb_byte_position = 0,
               gb_bit_position = 0, gb_byte = b\<rparr>)))"

text \<open>\<^verbatim>\<open>state->byte_position++; state->byte = state->start[state->byte_position];\<close>\<close>

definition next_byte :: "(getbits_state, unit) prog" where
  "next_byte =
     sq (upd (\<lambda>s. s\<lparr>gb_byte_position := gb_byte_position s + 1\<rparr>))
       (bnd (rd (\<lambda>s. arr_get (gb_start s) (uint (gb_byte_position s)))) (\<lambda>r.
        bnd (lift_r r) (\<lambda>b. upd (\<lambda>s. s\<lparr>gb_byte := b\<rparr>))))"

text \<open>The block for a call that begins in the middle of a byte: the bits still to read, and the result so far.\<close>

definition getbits_middle :: "nat \<Rightarrow> (getbits_state, nat \<times> u32) prog" where
  "getbits_middle n =
     bnd (rd (\<lambda>s. unat (gb_bit_position s))) (\<lambda>bp.
     bnd (rd gb_byte) (\<lambda>byte.
     if n > 8 - bp then
       sq (upd (\<lambda>s. s\<lparr>gb_bit_position := 0\<rparr>))
         (sq next_byte (ret (n - (8 - bp), ucast (drop_bit bp byte))))
     else
       sq (upd (\<lambda>s. s\<lparr>gb_byte := push_bit n byte, gb_bit_position := word_of_nat (bp + n)\<rparr>))
         (sq (when_p (bp + n = 8)
               (sq (upd (\<lambda>s. s\<lparr>gb_bit_position := 0\<rparr>)) next_byte))
           (ret (0, ucast (drop_bit (8 - n) byte))))))"

function getbits_bytes :: "nat \<Rightarrow> u32 \<Rightarrow> (getbits_state, nat \<times> u32) prog" where
  "getbits_bytes n result =
     (if n > 7 then
        bnd (rd gb_byte) (\<lambda>byte.
        sq next_byte (getbits_bytes (n - 8) (push_bit 8 result + ucast byte)))
      else ret (n, result))"
  by auto
termination by (relation "measure fst") auto

declare getbits_bytes.simps [simp del]

definition getbits_rest :: "nat \<Rightarrow> u32 \<Rightarrow> (getbits_state, u32) prog" where
  "getbits_rest n result =
     bnd (getbits_bytes n result) (\<lambda>(m, result).
     if m > 0 then
       bnd (rd gb_byte) (\<lambda>byte.
       sq (upd (\<lambda>s. s\<lparr>gb_byte := push_bit m byte, gb_bit_position := gb_bit_position s + word_of_nat m\<rparr>))
         (ret (push_bit m result + ucast (drop_bit (8 - m) byte))))
     else ret result)"

definition dvdread_getbits :: "u32 \<Rightarrow> (getbits_state, u32) prog" where
  "dvdread_getbits number_of_bits =
     (if number_of_bits > 32 then err AbortCall
      else
        bnd (rd (\<lambda>s. gb_bit_position s > 0)) (\<lambda>middle.
        bnd (if middle then getbits_middle (unat number_of_bits) else ret (unat number_of_bits, 0)) (\<lambda>(n, result).
        bnd (rd (\<lambda>s. gb_bit_position s = 0)) (\<lambda>aligned.
        if aligned then getbits_rest n result else ret result))))"

section \<open>Bits\<close>

text \<open>The bits of a byte, the most significant first, and the number a list of bits stands for.\<close>

definition bits8 :: "u8 \<Rightarrow> bool list" where
  "bits8 b = map (\<lambda>i. bit b (7 - i)) [0..<8]"

definition bits_value :: "bool list \<Rightarrow> nat" where
  "bits_value bs = foldl (\<lambda>v b. 2 * v + of_bool b) 0 bs"

text \<open>What a reader has still to read, and the invariant of its fields.\<close>

definition gb_stream :: "getbits_state \<Rightarrow> bool list" where
  "gb_stream s = take (8 - unat (gb_bit_position s)) (bits8 (gb_byte s)) @
     concat (map bits8 (drop (Suc (unat (gb_byte_position s))) (gb_start s)))"

definition gb_ok :: "getbits_state \<Rightarrow> bool" where
  "gb_ok s \<longleftrightarrow> unat (gb_bit_position s) < 8 \<and> unat (gb_byte_position s) < length (gb_start s) \<and>
     length (gb_start s) < 2 ^ 32"

lemma length_bits8 [simp]: "length (bits8 b) = 8"
  by (simp add: bits8_def)

lemma length_concat_bits8 [simp]: "length (concat (map bits8 xs)) = 8 * length xs"
  by (induction xs) simp_all

lemma bits_value_Nil [simp]: "bits_value [] = 0"
  by (simp add: bits_value_def)

lemma bits_value_snoc: "bits_value (xs @ [b]) = 2 * bits_value xs + of_bool b"
  by (simp add: bits_value_def)

lemma bits_value_append: "bits_value (xs @ ys) = 2 ^ length ys * bits_value xs + bits_value ys"
proof (induction ys rule: rev_induct)
  case (snoc b ys)
  then show ?case by (simp add: bits_value_snoc flip: append_assoc)
qed simp

lemma bits_value_less: "bits_value xs < 2 ^ length xs"
  by (induction xs rule: rev_induct) (auto simp: bits_value_snoc)

lemma bits8_push: "m \<le> 8 \<Longrightarrow> bits8 (push_bit m b) = drop m (bits8 b) @ replicate m False"
  by (rule nth_equalityI) (auto simp: bits8_def bit_simps nth_append ac_simps)

lemma take_bits8_push: "m + k \<le> 8 \<Longrightarrow> take k (bits8 (push_bit m b)) = take k (drop m (bits8 b))"
  by (simp add: bits8_push)

lemma bits_value_top: "k \<le> 8 \<Longrightarrow> bits_value (take k (bits8 b)) = unat (drop_bit (8 - k) b)"
proof (induction k)
  case 0
  have "drop_bit 8 b = 0" by (rule bit_word_eqI) (auto simp: bit_simps dest: bit_imp_le_length)
  then show ?case by simp
next
  case (Suc k)
  have "take (Suc k) (bits8 b) = take k (bits8 b) @ [bit b (7 - k)]"
    using Suc.prems by (simp add: take_Suc_conv_app_nth) (simp add: bits8_def)
  moreover have "unat (drop_bit (8 - Suc k) b) = 2 * unat (drop_bit (8 - k) b) + of_bool (bit b (7 - k))"
  proof -
    define j where "j = 7 - k"
    have j: "8 - Suc k = j" "8 - k = Suc j" using Suc.prems by (simp_all add: j_def)
    have d: "unat (drop_bit i b) = unat b div 2 ^ i" for i
      unfolding unat_drop_bit_eq by (rule drop_bit_eq_div)
    have "bit b j = odd (unat b div 2 ^ j)"
      using bit_iff_odd [of "unat b" j] bit_unsigned_iff [where 'a = nat, of b j] by (simp only: possible_bit_nat simp_thms)
    then show ?thesis
      by (simp only: j j_def [symmetric] d power_Suc2 flip: div_mult2_eq)
        (auto simp: div_mult2_eq)
  qed
  ultimately show ?case using Suc by (simp add: bits_value_snoc)
qed


lemma take_bits8_value:
  "m + k \<le> 8 \<Longrightarrow> bits_value (take k (bits8 (push_bit m b))) = bits_value (take k (drop m (bits8 b)))"
  by (simp add: take_bits8_push)

lemma bits_value_ucast: "k \<le> 8 \<Longrightarrow> (ucast (drop_bit (8 - k) b) :: u32) = word_of_nat (bits_value (take k (bits8 b)))"
  by (simp add: bits_value_top)

section \<open>Reading refines taking bits from the front\<close>

lemma next_position:
  assumes "unat p + 1 < 2 ^ 32"
  shows "unat (p + 1 :: u32) = Suc (unat p)" "uint (p + 1) = int (Suc (unat p))"
proof -
  have "word_of_nat (Suc (unat p)) = p + 1" by simp
  then show "unat (p + 1) = Suc (unat p)"
    by (rule of_nat_inverse) (use assms in simp)
  then show "uint (p + 1) = int (Suc (unat p))" by (metis of_nat_unat)
qed

lemma arr_get_nat: "i < length xs \<Longrightarrow> arr_get xs (int i) = Inr (xs ! i)"
  by simp

lemma next_byte_run:
  assumes "unat (gb_byte_position s) + 1 < length (gb_start s)" and "length (gb_start s) < 2 ^ 32"
  shows "next_byte s = Inr ((), s\<lparr>gb_byte_position := gb_byte_position s + 1,
    gb_byte := gb_start s ! Suc (unat (gb_byte_position s))\<rparr>)"
proof -
  have "unat (gb_byte_position s) + 1 < 2 ^ 32" using assms by linarith
  then have "arr_get (gb_start s) (uint (gb_byte_position s + 1)) =
      Inr (gb_start s ! Suc (unat (gb_byte_position s)))"
    using assms(1) by (simp only: next_position arr_get_nat Suc_eq_plus1)
  then show ?thesis by (simp add: next_byte_def run)
qed

lemma next_byte_end:
  assumes "unat (gb_byte_position s) + 1 = length (gb_start s)" and "length (gb_start s) < 2 ^ 32"
  shows "next_byte s = Inl OutOfBounds"
proof -
  have "unat (gb_byte_position s) + 1 < 2 ^ 32" using assms by linarith
  then have "arr_get (gb_start s) (uint (gb_byte_position s + 1)) = Inl OutOfBounds"
    using assms(1) by (simp only: next_position) (simp add: arr_get_def)
  then show ?thesis by (simp add: next_byte_def run)
qed

text \<open>
  \<open>gb_reads n m g\<close>: from a reader with more than \<open>n\<close> bits left, \<open>m\<close> takes \<open>n\<close> bits and answers \<open>g\<close> of them.
\<close>

definition gb_reads :: "nat \<Rightarrow> (getbits_state, 'a) prog \<Rightarrow> (bool list \<Rightarrow> 'a) \<Rightarrow> bool" where
  "gb_reads n m g \<longleftrightarrow> (\<forall>s. gb_ok s \<and> n < length (gb_stream s) \<longrightarrow>
     (\<exists>s'. m s = Inr (g (take n (gb_stream s)), s') \<and> gb_ok s' \<and> gb_stream s' = drop n (gb_stream s)))"

text \<open>A reader at the start of a byte.\<close>

lemma stream_aligned:
  assumes "gb_bit_position s = 0"
  shows "gb_stream s = bits8 (gb_byte s) @ concat (map bits8 (drop (Suc (unat (gb_byte_position s))) (gb_start s)))"
  using assms by (simp add: gb_stream_def)

lemma next_byte_stream:
  assumes ok: "gb_ok s" and z: "gb_bit_position s = 0" and more: "8 < length (gb_stream s)"
  shows "\<exists>s'. next_byte s = Inr ((), s') \<and> gb_ok s' \<and> gb_bit_position s' = 0 \<and>
    gb_stream s' = drop 8 (gb_stream s)"
proof -
  let ?p = "unat (gb_byte_position s)"
  have lt: "?p + 1 < length (gb_start s)" "length (gb_start s) < 2 ^ 32"
    using more ok by (simp_all add: gb_ok_def gb_stream_def z)
  then have "unat (gb_byte_position s) + 1 < 2 ^ 32" by linarith
  note pos = next_position [OF this]
  have "drop (Suc ?p) (gb_start s) = gb_start s ! Suc ?p # drop (Suc (Suc ?p)) (gb_start s)"
    using lt by (intro Cons_nth_drop_Suc [symmetric]) simp
  then show ?thesis
    using next_byte_run [OF lt] ok lt z by (simp add: gb_ok_def gb_stream_def pos)
qed

lemma push_value:
  "push_bit a (push_bit b r + word_of_nat x) + word_of_nat y =
   push_bit (b + a) r + (word_of_nat (2 ^ a * x + y) :: u32)"
  by (simp add: push_bit_eq_mult power_add algebra_simps)

lemma getbits_bytes_run:
  "gb_ok s \<Longrightarrow> gb_bit_position s = 0 \<Longrightarrow> n < length (gb_stream s) \<Longrightarrow> n \<le> 32 \<Longrightarrow>
   \<exists>s'. getbits_bytes n r s = Inr ((n mod 8, push_bit (n - n mod 8) r +
       word_of_nat (bits_value (take (n - n mod 8) (gb_stream s)))), s') \<and>
     gb_ok s' \<and> gb_bit_position s' = 0 \<and> gb_stream s' = drop (n - n mod 8) (gb_stream s)"
proof (induction n r arbitrary: s rule: getbits_bytes.induct)
  case (1 n r)
  show ?case
  proof (cases "n > 7")
    case False
    then show ?thesis using 1 by (subst getbits_bytes.simps) (simp add: run)
  next
    case True
    then have "8 < length (gb_stream s) \<or> n = 8" "8 \<le> n" using 1 by auto
    then have "8 < length (gb_stream s)" using 1(4) by auto
    from next_byte_stream [OF 1(2,3) this] obtain s1 where
      s1: "next_byte s = Inr ((), s1)" "gb_ok s1" "gb_bit_position s1 = 0" "gb_stream s1 = drop 8 (gb_stream s)"
      by blast
    let ?m = "n - 8"
    have "?m < length (gb_stream s1)" using 1(4) True s1(4) by simp
    from 1(1) [where x = "gb_byte s", OF True s1(2,3) this] 1(5) obtain s2 where
      s2: "getbits_bytes ?m (push_bit 8 r + ucast (gb_byte s)) s1 =
        Inr ((?m mod 8, push_bit (?m - ?m mod 8) (push_bit 8 r + ucast (gb_byte s)) +
          word_of_nat (bits_value (take (?m - ?m mod 8) (gb_stream s1)))), s2)"
        "gb_ok s2" "gb_bit_position s2 = 0" "gb_stream s2 = drop (?m - ?m mod 8) (gb_stream s1)"
      by fastforce
    have mod: "?m mod 8 = n mod 8" "n - n mod 8 = 8 + (?m - ?m mod 8)"
      using True by (simp_all add: le_mod_geq)
    have split: "take (n - n mod 8) (gb_stream s) = bits8 (gb_byte s) @ take (?m - ?m mod 8) (gb_stream s1)"
      by (simp add: mod(2) s1(4) stream_aligned [OF 1(3)])
    have len: "length (take (?m - ?m mod 8) (gb_stream s1)) = ?m - ?m mod 8"
      using \<open>?m < length (gb_stream s1)\<close> by simp
    have byte: "(ucast (gb_byte s) :: u32) = word_of_nat (bits_value (bits8 (gb_byte s)))"
      using bits_value_ucast [of 8 "gb_byte s"] by simp
    have "push_bit (n - n mod 8) r + word_of_nat (bits_value (take (n - n mod 8) (gb_stream s))) =
        push_bit (?m - ?m mod 8) (push_bit 8 r + ucast (gb_byte s)) +
        word_of_nat (bits_value (take (?m - ?m mod 8) (gb_stream s1)))"
      unfolding split bits_value_append len byte push_value unfolding mod(2) ..
    moreover have "getbits_bytes n r s = getbits_bytes ?m (push_bit 8 r + ucast (gb_byte s)) s1"
      using True s1(1) by (subst getbits_bytes.simps) (simp add: run)
    moreover have "gb_stream s2 = drop (n - n mod 8) (gb_stream s)"
      unfolding s2(4) s1(4) drop_drop mod(2) by (simp only: add.commute)
    ultimately show ?thesis
      using s2(1-3) unfolding mod(1) by (intro exI [of _ s2]) (simp only: simp_thms)
  qed
qed

lemma getbits_rest_run:
  assumes "gb_ok s" and "gb_bit_position s = 0" and "n < length (gb_stream s)" and "n \<le> 32"
  shows "\<exists>s'. getbits_rest n r s =
      Inr (push_bit n r + word_of_nat (bits_value (take n (gb_stream s))), s') \<and>
    gb_ok s' \<and> gb_stream s' = drop n (gb_stream s)"
proof -
  define m where "m = n mod 8"
  have m: "m < 8" "m \<le> n" by (simp_all add: m_def)
  from getbits_bytes_run [OF assms, of r] obtain s1 where
    s1: "getbits_bytes n r s = Inr ((m, push_bit (n - m) r +
       word_of_nat (bits_value (take (n - m) (gb_stream s)))), s1)"
     "gb_ok s1" "gb_bit_position s1 = 0" "gb_stream s1 = drop (n - m) (gb_stream s)"
    by (auto simp: m_def)
  show ?thesis
  proof (cases "m = 0")
    case True
    with s1 show ?thesis by (auto simp: getbits_rest_def run)
  next
    case False
    define s2 where "s2 = s1\<lparr>gb_byte := push_bit m (gb_byte s1), gb_bit_position := word_of_nat m\<rparr>"
    have um: "unat (word_of_nat m :: u32) = m" using m by (intro of_nat_inverse) simp_all
    have st: "gb_stream s2 = drop m (gb_stream s1)"
      using m s1(3) by (simp add: s2_def gb_stream_def um bits8_push)
    have ok: "gb_ok s2" using s1(2) m by (simp add: s2_def gb_ok_def um)
    have val: "(ucast (drop_bit (8 - m) (gb_byte s1)) :: u32) = word_of_nat (bits_value (take m (gb_stream s1)))"
      using bits_value_ucast [of m "gb_byte s1"] m by (simp add: stream_aligned [OF s1(3)])
    have split: "take n (gb_stream s) = take (n - m) (gb_stream s) @ take m (gb_stream s1)"
      using m s1(4) by (metis le_add_diff_inverse2 take_add)
    have len: "length (take m (gb_stream s1)) = m" using assms(3) m s1(4) by simp
    have "push_bit m (push_bit (n - m) r + word_of_nat (bits_value (take (n - m) (gb_stream s)))) +
        word_of_nat (bits_value (take m (gb_stream s1))) =
        push_bit n r + word_of_nat (bits_value (take n (gb_stream s)))"
      unfolding split bits_value_append len
      using m by (simp add: push_bit_eq_mult algebra_simps flip: power_add)
    moreover have "gb_stream s2 = drop n (gb_stream s)"
      using m st s1(4) by simp
    ultimately show ?thesis
      using False s1 ok by (simp add: getbits_rest_def run val s2_def)
  qed
qed

lemma getbits_middle_run:
  assumes ok: "gb_ok s" and mid: "gb_bit_position s \<noteq> 0" and more: "n < length (gb_stream s)" and n: "n \<le> 32"
  shows "\<exists>k s'. getbits_middle n s = Inr ((n - k, word_of_nat (bits_value (take k (gb_stream s)))), s') \<and>
    k \<le> n \<and> gb_ok s' \<and> gb_stream s' = drop k (gb_stream s) \<and> (gb_bit_position s' = 0 \<or> k = n)"
proof -
  define bp where "bp = unat (gb_bit_position s)"
  have bp: "0 < bp" "bp < 8" using mid ok by (simp_all add: bp_def gb_ok_def unat_gt_0)
  let ?p = "unat (gb_byte_position s)"
  have lt: "?p < length (gb_start s)" "length (gb_start s) < 2 ^ 32" using ok by (simp_all add: gb_ok_def)
  let ?rest = "concat (map bits8 (drop (Suc ?p) (gb_start s)))"
  have str: "gb_stream s = take (8 - bp) (bits8 (gb_byte s)) @ ?rest"
    by (simp add: gb_stream_def bp_def)
  have rest: "8 - bp \<le> n \<Longrightarrow> ?p + 1 < length (gb_start s)"
    using more by (simp add: str)
  have nxt: "next_byte t = Inr ((), t\<lparr>gb_byte_position := gb_byte_position s + 1, gb_byte := gb_start s ! Suc ?p\<rparr>) \<and>
      gb_stream (t\<lparr>gb_byte_position := gb_byte_position s + 1, gb_byte := gb_start s ! Suc ?p\<rparr>) = ?rest \<and>
      gb_ok (t\<lparr>gb_byte_position := gb_byte_position s + 1, gb_byte := gb_start s ! Suc ?p\<rparr>)"
    if "8 - bp \<le> n" "gb_bit_position t = 0" "gb_byte_position t = gb_byte_position s" "gb_start t = gb_start s" for t
  proof -
    have l: "unat (gb_byte_position t) + 1 < length (gb_start t)" "length (gb_start t) < 2 ^ 32"
      using rest [OF that(1)] lt that by simp_all
    then have "unat (gb_byte_position s) + 1 < 2 ^ 32" using that by simp
    note pos = next_position [OF this]
    have "drop (Suc ?p) (gb_start s) = gb_start s ! Suc ?p # drop (Suc (Suc ?p)) (gb_start s)"
      using rest [OF that(1)] by (intro Cons_nth_drop_Suc [symmetric]) simp
    then show ?thesis
      using next_byte_run [OF l] l that by (simp add: gb_ok_def gb_stream_def pos)
  qed
  show ?thesis
  proof (cases "n > 8 - bp")
    case True
    have val: "(ucast (drop_bit bp (gb_byte s)) :: u32) = word_of_nat (bits_value (take (8 - bp) (gb_stream s)))"
      using bits_value_ucast [of "8 - bp" "gb_byte s"] bp by (simp add: str)
    from True nxt [of "s\<lparr>gb_bit_position := 0\<rparr>"] bp val show ?thesis
      by (intro exI [of _ "8 - bp"]) (auto simp: getbits_middle_def run bp_def [symmetric] str)
  next
    case False
    have val: "(ucast (drop_bit (8 - n) (gb_byte s)) :: u32) = word_of_nat (bits_value (take n (gb_stream s)))"
      using bits_value_ucast [of n "gb_byte s"] bp False by (simp add: str)
    let ?s1 = "s\<lparr>gb_byte := push_bit n (gb_byte s), gb_bit_position := word_of_nat (bp + n)\<rparr>"
    show ?thesis
    proof (cases "bp + n = 8")
      case True
      then have "8 - bp \<le> n" "drop n (gb_stream s) = ?rest" using bp by (auto simp: str)
      with True nxt [of "?s1\<lparr>gb_bit_position := 0\<rparr>"] False val show ?thesis
        by (intro exI [of _ n]) (auto simp: getbits_middle_def run bp_def [symmetric])
    next
      case neq: False
      have um: "unat (word_of_nat (bp + n) :: u32) = bp + n"
        using bp False by (intro of_nat_inverse) simp_all
      have "gb_stream ?s1 = drop n (gb_stream s)"
        unfolding gb_stream_def [of ?s1] using bp False neq
        by (simp add: um str bits8_push del: of_nat_add) (simp add: drop_take diff_diff_add add.commute)
      moreover have "gb_ok ?s1"
        using ok False neq bp by (simp add: gb_ok_def um del: of_nat_add)
      ultimately show ?thesis
        using False neq val by (intro exI [of _ n]) (simp add: getbits_middle_def run bp_def [symmetric])
    qed
  qed
qed

lemma getbits_reads: "n \<le> 32 \<Longrightarrow> gb_reads n (dvdread_getbits (word_of_nat n)) (\<lambda>xs. word_of_nat (bits_value xs))"
  unfolding gb_reads_def
proof (intro allI impI)
  fix s
  assume n: "n \<le> 32" and s: "gb_ok s \<and> n < length (gb_stream s)"
  have un: "unat (word_of_nat n :: u32) = n" using n by (intro of_nat_inverse) simp_all
  then have small: "\<not> (word_of_nat n :: u32) > 32" using n by (simp add: word_less_nat_alt)
  show "\<exists>s'. dvdread_getbits (word_of_nat n) s = Inr (word_of_nat (bits_value (take n (gb_stream s))), s') \<and>
      gb_ok s' \<and> gb_stream s' = drop n (gb_stream s)"
  proof (cases "gb_bit_position s = 0")
    case True
    with getbits_rest_run [of s n 0] s n small show ?thesis
      by (auto simp: dvdread_getbits_def run un)
  next
    case False
    from getbits_middle_run [of s n] s n False obtain k s1 where
      s1: "getbits_middle n s = Inr ((n - k, word_of_nat (bits_value (take k (gb_stream s)))), s1)"
        "k \<le> n" "gb_ok s1" "gb_stream s1 = drop k (gb_stream s)" "gb_bit_position s1 = 0 \<or> k = n"
      by blast
    have pos: "gb_bit_position s > 0" using False by (simp add: word_neq_0_conv)
    show ?thesis
    proof (cases "gb_bit_position s1 = 0")
      case True
      have "n - k < length (gb_stream s1)" using s s1(2,4) by (simp add: diff_less_mono)
      from getbits_rest_run [OF s1(3) True this, of "word_of_nat (bits_value (take k (gb_stream s)))"] n
      obtain s2 where s2: "getbits_rest (n - k) (word_of_nat (bits_value (take k (gb_stream s)))) s1 =
          Inr (push_bit (n - k) (word_of_nat (bits_value (take k (gb_stream s)))) +
            word_of_nat (bits_value (take (n - k) (gb_stream s1))), s2)"
        "gb_ok s2" "gb_stream s2 = drop (n - k) (gb_stream s1)" by fastforce
      have split: "take n (gb_stream s) = take k (gb_stream s) @ take (n - k) (gb_stream s1)"
        using s1(2,4) by (metis le_add_diff_inverse take_add)
      have len: "length (take (n - k) (gb_stream s1)) = n - k"
        using \<open>n - k < length (gb_stream s1)\<close> by simp
      have "push_bit (n - k) (word_of_nat (bits_value (take k (gb_stream s)))) +
            word_of_nat (bits_value (take (n - k) (gb_stream s1))) =
          (word_of_nat (bits_value (take n (gb_stream s))) :: u32)"
        unfolding split bits_value_append len by (simp add: push_bit_eq_mult)
      with s1 s2 pos small True False show ?thesis
        by (simp add: dvdread_getbits_def run un)
    next
      case neq: False
      with s1 have "k = n" by simp
      with s1 neq pos small False show ?thesis
        by (auto simp: dvdread_getbits_def run un)
    qed
  qed
qed

section \<open>Sequences of reads\<close>

text \<open>The abstract reader: a list of bits, of which a call takes the first \<open>n\<close> as a number.\<close>

definition take_bits :: "nat \<Rightarrow> bool list \<Rightarrow> u32 \<times> bool list" where
  "take_bits n bs = (word_of_nat (bits_value (take n bs)), drop n bs)"

definition read_bits :: "nat \<Rightarrow> (getbits_state, u32) prog" where
  "read_bits n = dvdread_getbits (word_of_nat n)"

interpretation reader: simulation gb_ok gb_stream read_bits take_bits
  "\<lambda>n s. n \<le> 32 \<and> n < length (gb_stream s)"
proof
  fix s n
  assume "gb_ok s" and "n \<le> 32 \<and> n < length (gb_stream s)"
  with getbits_reads [of n] show "\<exists>r t. read_bits n s = Inr (r, t) \<and> gb_ok t \<and>
      take_bits n (gb_stream s) = (r, gb_stream t)"
    by (auto simp: gb_reads_def read_bits_def take_bits_def)
qed

lemma reads_allowed:
  "gb_ok s \<Longrightarrow> \<forall>w\<in>set ws. w \<le> 32 \<Longrightarrow> sum_list ws < length (gb_stream s) \<Longrightarrow>
   ok_all read_bits (\<lambda>n s. n \<le> 32 \<and> n < length (gb_stream s)) ws s"
proof (induction ws arbitrary: s)
  case (Cons w ws)
  then have w: "w \<le> 32 \<and> w < length (gb_stream s)" by simp
  from reader.sim_step [OF Cons.prems(1) w] obtain r t where
    "read_bits w s = Inr (r, t)" "gb_ok t" "gb_stream t = drop w (gb_stream s)"
    by (auto simp: take_bits_def)
  with Cons w show ?case by auto
qed simp

text \<open>A reader over a buffer.\<close>

lemma init_reader:
  assumes "xs \<noteq> []" and "length xs < 2 ^ 32"
  shows "\<exists>s. dvdread_getbits_init (Some xs) = Inr (True, Some s) \<and> gb_ok s \<and>
    gb_stream s = concat (map bits8 xs)"
  using assms by (cases xs) (simp_all add: dvdread_getbits_init_def gb_ok_def gb_stream_def)

text \<open>
  C14: From a buffer, any sequence of reads of at most 32 bits that leaves at least one bit gives
  the numbers the successive groups of bits stand for, the most significant bit first.
\<close>

theorem getbits_refines_bits:
  assumes "length xs < 2 ^ 32" and "\<forall>w\<in>set ws. w \<le> 32" and "sum_list ws < 8 * length xs"
  shows "\<exists>s s'. dvdread_getbits_init (Some xs) = Inr (True, Some s) \<and>
    run_all read_bits ws s = Inr (fst (spec_all take_bits ws (concat (map bits8 xs))), s')"
proof -
  from assms have "xs \<noteq> []" by auto
  with init_reader assms(1) obtain s where
    s: "dvdread_getbits_init (Some xs) = Inr (True, Some s)" "gb_ok s" "gb_stream s = concat (map bits8 xs)"
    by blast
  from reader.sim_all [OF s(2) reads_allowed [OF s(2) assms(2)]] assms(3) s show ?thesis
    by fastforce
qed

theorem getbits_refines_bits_witness:
  "\<exists>s s'. dvdread_getbits_init (Some [0xAB, 0xCD, 0xEF]) = Inr (True, Some s) \<and>
    run_all read_bits [4, 2, 10, 7] s =
      Inr (fst (spec_all take_bits [4, 2, 10, 7] (concat (map bits8 [0xAB, 0xCD, 0xEF]))), s')"
  by (rule getbits_refines_bits) simp_all

section \<open>The last byte\<close>

lemma getbits_bytes_end:
  "gb_ok s \<Longrightarrow> gb_bit_position s = 0 \<Longrightarrow> n = length (gb_stream s) \<Longrightarrow>
   getbits_bytes n r s = Inl OutOfBounds"
proof (induction n r arbitrary: s rule: getbits_bytes.induct)
  case (1 n r)
  have n: "n = 8 + 8 * (length (gb_start s) - Suc (unat (gb_byte_position s)))" "n > 7"
    using 1(4) stream_aligned [OF 1(3)] by simp_all
  show ?case
  proof (cases "8 < length (gb_stream s)")
    case True
    from next_byte_stream [OF 1(2,3) this] obtain s1 where
      s1: "next_byte s = Inr ((), s1)" "gb_ok s1" "gb_bit_position s1 = 0" "gb_stream s1 = drop 8 (gb_stream s)"
      by blast
    with 1(1) [OF n(2) s1(2,3)] 1(4) n(2) show ?thesis
      by (subst getbits_bytes.simps) (simp add: run)
  next
    case False
    with n 1 have "unat (gb_byte_position s) + 1 = length (gb_start s)" "length (gb_start s) < 2 ^ 32"
      by (auto simp: gb_ok_def)
    from next_byte_end [OF this] n(2) show ?thesis
      by (subst getbits_bytes.simps) (simp add: run)
  qed
qed

lemma getbits_end:
  assumes "gb_ok s" and "n = length (gb_stream s)" and "n \<le> 32"
  shows "dvdread_getbits (word_of_nat n) s = Inl OutOfBounds"
proof -
  have un: "unat (word_of_nat n :: u32) = n" using assms(3) by (intro of_nat_inverse) simp_all
  then have small: "\<not> (word_of_nat n :: u32) > 32" using assms(3) by (simp add: word_less_nat_alt)
  show ?thesis
  proof (cases "gb_bit_position s = 0")
    case True
    with getbits_bytes_end [OF assms(1) True assms(2)] small show ?thesis
      by (simp add: dvdread_getbits_def getbits_rest_def run un)
  next
    case False
    define bp where "bp = unat (gb_bit_position s)"
    have bp: "0 < bp" "bp < 8" using False assms(1) by (simp_all add: bp_def gb_ok_def unat_gt_0)
    have pos: "gb_bit_position s > 0" using False by (simp add: word_neq_0_conv)
    let ?p = "unat (gb_byte_position s)"
    have lt: "?p < length (gb_start s)" "length (gb_start s) < 2 ^ 32"
      using assms(1) by (simp_all add: gb_ok_def)
    have n: "n = 8 - bp + 8 * (length (gb_start s) - Suc ?p)"
      using assms(2) bp by (simp add: gb_stream_def bp_def)
    show ?thesis
    proof (cases "n > 8 - bp")
      case True
      define t where "t = s\<lparr>gb_bit_position := 0, gb_byte_position := gb_byte_position s + 1,
        gb_byte := gb_start s ! Suc ?p\<rparr>"
      have l: "?p + 1 < length (gb_start s)" using True n by simp
      then have "?p + 1 < 2 ^ 32" using lt by linarith
      note p1 = next_position [OF this]
      have t: "gb_ok t" "gb_bit_position t = 0" using l lt by (simp_all add: t_def gb_ok_def p1)
      have len: "n - (8 - bp) = length (gb_stream t)"
        using l n unfolding stream_aligned [OF t(2)] by (simp add: t_def p1)
      have mid: "getbits_middle n s = Inr ((n - (8 - bp), ucast (drop_bit bp (gb_byte s))), t)"
        using True next_byte_run [of "s\<lparr>gb_bit_position := 0\<rparr>"] l lt
        by (simp add: getbits_middle_def run bp_def [symmetric] t_def)
      with getbits_bytes_end [OF t len] small pos t(2) show ?thesis
        by (simp add: dvdread_getbits_def getbits_rest_def run un)
    next
      case False
      with n bp lt have e: "bp + n = 8" "?p + 1 = length (gb_start s)" by auto
      then have "getbits_middle n s = Inl OutOfBounds"
        using next_byte_end [of "s\<lparr>gb_byte := push_bit n (gb_byte s), gb_bit_position := 0\<rparr>"] False lt
        by (simp add: getbits_middle_def run bp_def [symmetric])
      with small pos show ?thesis by (simp add: dvdread_getbits_def run un)
    qed
  qed
qed

text \<open>
  Reading a buffer to its last bit reads one byte behind it, so the callers that copy
  exactly the bytes of a structure into a buffer and read all its fields are out of bounds.
\<close>

theorem getbits_whole_overreads:
  assumes "xs \<noteq> []" and "length xs < 2 ^ 32" and "\<forall>w\<in>set (ws @ [w]). w \<le> 32" and "0 < w"
    and "sum_list (ws @ [w]) = 8 * length xs"
  shows "\<exists>s. dvdread_getbits_init (Some xs) = Inr (True, Some s) \<and>
    run_all read_bits (ws @ [w]) s = Inl OutOfBounds"
proof -
  from init_reader [OF assms(1,2)] obtain s where
    s: "dvdread_getbits_init (Some xs) = Inr (True, Some s)" "gb_ok s" "gb_stream s = concat (map bits8 xs)"
    by blast
  have "\<forall>w\<in>set (ws @ [w]). w \<le> 32 \<Longrightarrow> 0 < w \<Longrightarrow> gb_ok s \<Longrightarrow> sum_list (ws @ [w]) = length (gb_stream s) \<Longrightarrow>
    run_all read_bits (ws @ [w]) s = Inl OutOfBounds" for s
  proof (induction ws arbitrary: s)
    case Nil
    then show ?case by (simp add: run read_bits_def getbits_end)
  next
    case (Cons v ws)
    then have "v \<le> 32 \<and> v < length (gb_stream s)" by auto
    from reader.sim_step [OF Cons.prems(3) this] obtain r t where
      "read_bits v s = Inr (r, t)" "gb_ok t" "gb_stream t = drop v (gb_stream s)"
      by (auto simp: take_bits_def)
    with Cons.IH [of t] Cons.prems show ?case by (simp add: run)
  qed
  from this [of s] assms s show ?thesis by auto
qed

theorem getbits_whole_overreads_witness:
  "\<exists>s. dvdread_getbits_init (Some [0x40, 0x12]) = Inr (True, Some s) \<and>
    run_all read_bits ([2, 2, 2, 2, 1, 1, 1, 1, 2, 1] @ [1]) s = Inl OutOfBounds"
  by (rule getbits_whole_overreads) simp_all

end
