(* ===== verification/Nav_Read.thy ===== *)
theory Nav_Read
  imports Bitreader Vm_State
begin

text \<open>
  The two packets of a DVD navigation pack, \<^verbatim>\<open>lib/libdvd/libdvdread/src/dvdread/nav_types.h\<close>,
  and their parsers in \<^verbatim>\<open>lib/libdvd/libdvdread/src/nav_read.c\<close>, with the layout they implement:
  every field is the number in a fixed range of bits of the buffer.

  A bit-field of \<open>n\<close> bits is an \<open>n word\<close>, and an assignment to it truncates.  The trailing
  members \<open>zero1\<close> of the two packets are not written by the parsers and are left out.
\<close>

section \<open>The packets\<close>

record pci_gi =
  nv_pck_lbn :: u32
  vobu_cat :: u16
  gi_zero1 :: u16
  vobu_uop_ctl :: user_ops
  vobu_s_ptm :: u32
  vobu_e_ptm :: u32
  vobu_se_e_ptm :: u32
  e_eltm :: dvd_time
  vobu_isrc :: "u8 list"

record hl_gi =
  hli_ss :: u16
  hli_s_ptm :: u32
  hli_e_ptm :: u32
  btn_se_e_ptm :: u32
  hl_zero1 :: "2 word"
  btngr_ns :: "2 word"
  hl_zero2 :: "1 word"
  btngr1_dsp_ty :: "3 word"
  hl_zero3 :: "1 word"
  btngr2_dsp_ty :: "3 word"
  hl_zero4 :: "1 word"
  btngr3_dsp_ty :: "3 word"
  btn_ofn :: u8
  btn_ns :: u8
  nsl_btn_ns :: u8
  hl_zero5 :: u8
  fosl_btnn :: u8
  foac_btnn :: u8

record btni =
  btn_coln :: "2 word"
  x_start :: "10 word"
  btn_zero1 :: "2 word"
  x_end :: "10 word"
  auto_action_mode :: "2 word"
  y_start :: "10 word"
  btn_zero2 :: "2 word"
  y_end :: "10 word"
  btn_zero3 :: "2 word"
  btn_up :: "6 word"
  btn_zero4 :: "2 word"
  btn_down :: "6 word"
  btn_zero5 :: "2 word"
  btn_left :: "6 word"
  btn_zero6 :: "2 word"
  btn_right :: "6 word"
  btn_cmd :: vm_cmd

record hli =
  hli_gi :: hl_gi
  btn_coli :: "u32 list list"
  btnit :: "btni list"

record pci =
  pci_pci_gi :: pci_gi
  nsml_agl_dsta :: "u32 list"
  pci_hli :: hli

record dsi_gi =
  nv_pck_scr :: u32
  dsi_nv_pck_lbn :: u32
  vobu_ea :: u32
  vobu_1stref_ea :: u32
  vobu_2ndref_ea :: u32
  vobu_3rdref_ea :: u32
  vobu_vob_idn :: u16
  dsi_zero1 :: u8
  vobu_c_idn :: u8
  c_eltm :: dvd_time

record vob_a =
  stp_ptm1 :: u32
  stp_ptm2 :: u32
  gap_len1 :: u32
  gap_len2 :: u32

record sml_pbi =
  pbi_category :: u16
  ilvu_ea :: u32
  ilvu_sa :: u32
  pbi_size :: u16
  vob_v_s_s_ptm :: u32
  vob_v_e_e_ptm :: u32
  pbi_vob_a :: "vob_a list"

record sml_agl_data =
  agl_address :: u32
  agl_size :: u16

record vobu_sri =
  next_video :: u32
  fwda :: "u32 list"
  next_vobu :: u32
  prev_vobu :: u32
  bwda :: "u32 list"
  prev_video :: u32

record synci =
  a_synca :: "u16 list"
  sp_synca :: "u32 list"

record dsi =
  dsi_dsi_gi :: dsi_gi
  dsi_sml_pbi :: sml_pbi
  sml_agli :: "sml_agl_data list"
  dsi_vobu_sri :: vobu_sri
  dsi_synci :: synci

section \<open>Reading fields\<close>

text \<open>\<^verbatim>\<open>field = getbits(&state, n)\<close> and \<^verbatim>\<open>for(i = 0; i < k; i++) ...\<close>.\<close>

definition getfield :: "nat \<Rightarrow> (getbits_state, 'a::len word) prog" where
  "getfield n = bnd (dvdread_getbits (word_of_nat n)) (\<lambda>v. ret (ucast v))"

fun repeat_p :: "nat \<Rightarrow> ('s, 'a) prog \<Rightarrow> ('s, 'a list) prog" where
  "repeat_p 0 m = ret []"
| "repeat_p (Suc k) m = bnd m (\<lambda>x. bnd (repeat_p k m) (\<lambda>xs. ret (x # xs)))"

definition read_time :: "(getbits_state, dvd_time) prog" where
  "read_time =
     bnd (getfield 8) (\<lambda>hour. bnd (getfield 8) (\<lambda>minute. bnd (getfield 8) (\<lambda>second. bnd (getfield 8) (\<lambda>frame_u.
     ret \<lparr>dt_hour = hour, dt_minute = minute, dt_second = second, dt_frame_u = frame_u\<rparr>))))"

definition read_cmd :: "(getbits_state, vm_cmd) prog" where
  "read_cmd =
     bnd (getfield 8) (\<lambda>b0. bnd (getfield 8) (\<lambda>b1. bnd (getfield 8) (\<lambda>b2. bnd (getfield 8) (\<lambda>b3.
     bnd (getfield 8) (\<lambda>b4. bnd (getfield 8) (\<lambda>b5. bnd (getfield 8) (\<lambda>b6. bnd (getfield 8) (\<lambda>b7.
     ret (VmCmd b0 b1 b2 b3 b4 b5 b6 b7)))))))))"

definition read_uop_fields :: "(getbits_state, user_ops) prog" where
  "read_uop_fields =
     bnd (getfield 7) (\<lambda>z. bnd (getfield 1) (\<lambda>u24.
     bnd (getfield 1) (\<lambda>u23. bnd (getfield 1) (\<lambda>u22. bnd (getfield 1) (\<lambda>u21. bnd (getfield 1) (\<lambda>u20.
     bnd (getfield 1) (\<lambda>u19. bnd (getfield 1) (\<lambda>u18. bnd (getfield 1) (\<lambda>u17. bnd (getfield 1) (\<lambda>u16.
     bnd (getfield 1) (\<lambda>u15. bnd (getfield 1) (\<lambda>u14. bnd (getfield 1) (\<lambda>u13. bnd (getfield 1) (\<lambda>u12.
     bnd (getfield 1) (\<lambda>u11. bnd (getfield 1) (\<lambda>u10. bnd (getfield 1) (\<lambda>u9. bnd (getfield 1) (\<lambda>u8.
     bnd (getfield 1) (\<lambda>u7. bnd (getfield 1) (\<lambda>u6. bnd (getfield 1) (\<lambda>u5. bnd (getfield 1) (\<lambda>u4.
     bnd (getfield 1) (\<lambda>u3. bnd (getfield 1) (\<lambda>u2. bnd (getfield 1) (\<lambda>u1. bnd (getfield 1) (\<lambda>u0.
     ret \<lparr>uop_zero = z, video_pres_mode_change = u24, karaoke_audio_pres_mode_change = u23,
       angle_change = u22, subpic_stream_change = u21, audio_stream_change = u20, pause_on = u19,
       still_off = u18, button_select_or_activate = u17, uop_resume = u16, chapter_menu_call = u15,
       angle_menu_call = u14, audio_menu_call = u13, subpic_menu_call = u12, root_menu_call = u11,
       title_menu_call = u10, backward_scan = u9, forward_scan = u8, next_pg_search = u7,
       prev_or_top_pg_search = u6, time_or_chapter_search = u5, go_up = u4, uop_stop = u3,
       title_play = u2, chapter_search_or_play = u1, title_or_time_play = u0\<rparr>))))))))))))))))))))))))))"

section \<open>The PCI packet\<close>

definition read_pci_gi :: "(getbits_state, pci_gi) prog" where
  "read_pci_gi =
     bnd (getfield 32) (\<lambda>lbn. bnd (getfield 16) (\<lambda>cat. bnd (getfield 16) (\<lambda>z1.
     bnd read_uop_fields (\<lambda>uop.
     bnd (getfield 32) (\<lambda>s_ptm. bnd (getfield 32) (\<lambda>e_ptm. bnd (getfield 32) (\<lambda>se_e_ptm.
     bnd read_time (\<lambda>time.
     bnd (repeat_p 32 (getfield 8)) (\<lambda>isrc.
     ret \<lparr>nv_pck_lbn = lbn, vobu_cat = cat, gi_zero1 = z1, vobu_uop_ctl = uop, vobu_s_ptm = s_ptm,
       vobu_e_ptm = e_ptm, vobu_se_e_ptm = se_e_ptm, e_eltm = time, vobu_isrc = isrc\<rparr>)))))))))"

definition read_hl_gi :: "(getbits_state, hl_gi) prog" where
  "read_hl_gi =
     bnd (getfield 16) (\<lambda>ss. bnd (getfield 32) (\<lambda>s_ptm. bnd (getfield 32) (\<lambda>e_ptm. bnd (getfield 32) (\<lambda>se.
     bnd (getfield 2) (\<lambda>z1. bnd (getfield 2) (\<lambda>grps.
     bnd (getfield 1) (\<lambda>z2. bnd (getfield 3) (\<lambda>ty1. bnd (getfield 1) (\<lambda>z3. bnd (getfield 3) (\<lambda>ty2.
     bnd (getfield 1) (\<lambda>z4. bnd (getfield 3) (\<lambda>ty3.
     bnd (getfield 8) (\<lambda>ofn. bnd (getfield 8) (\<lambda>ns. bnd (getfield 8) (\<lambda>nsl. bnd (getfield 8) (\<lambda>z5.
     bnd (getfield 8) (\<lambda>fosl. bnd (getfield 8) (\<lambda>foac.
     ret \<lparr>hli_ss = ss, hli_s_ptm = s_ptm, hli_e_ptm = e_ptm, btn_se_e_ptm = se, hl_zero1 = z1,
       btngr_ns = grps, hl_zero2 = z2, btngr1_dsp_ty = ty1, hl_zero3 = z3, btngr2_dsp_ty = ty2,
       hl_zero4 = z4, btngr3_dsp_ty = ty3, btn_ofn = ofn, btn_ns = ns, nsl_btn_ns = nsl,
       hl_zero5 = z5, fosl_btnn = fosl, foac_btnn = foac\<rparr>))))))))))))))))))"

definition read_btni :: "(getbits_state, btni) prog" where
  "read_btni =
     bnd (getfield 2) (\<lambda>coln. bnd (getfield 10) (\<lambda>xs. bnd (getfield 2) (\<lambda>z1. bnd (getfield 10) (\<lambda>xe.
     bnd (getfield 2) (\<lambda>auto. bnd (getfield 10) (\<lambda>ys. bnd (getfield 2) (\<lambda>z2. bnd (getfield 10) (\<lambda>ye.
     bnd (getfield 2) (\<lambda>z3. bnd (getfield 6) (\<lambda>u. bnd (getfield 2) (\<lambda>z4. bnd (getfield 6) (\<lambda>d.
     bnd (getfield 2) (\<lambda>z5. bnd (getfield 6) (\<lambda>l. bnd (getfield 2) (\<lambda>z6. bnd (getfield 6) (\<lambda>r.
     bnd read_cmd (\<lambda>cmd.
     ret \<lparr>btn_coln = coln, x_start = xs, btn_zero1 = z1, x_end = xe, auto_action_mode = auto,
       y_start = ys, btn_zero2 = z2, y_end = ye, btn_zero3 = z3, btn_up = u, btn_zero4 = z4,
       btn_down = d, btn_zero5 = z5, btn_left = l, btn_zero6 = z6, btn_right = r, btn_cmd = cmd\<rparr>)))))))))))))))))"

definition read_pci_fields :: "(getbits_state, pci) prog" where
  "read_pci_fields =
     bnd read_pci_gi (\<lambda>gi.
     bnd (repeat_p 9 (getfield 32)) (\<lambda>agl.
     bnd read_hl_gi (\<lambda>hl.
     bnd (repeat_p 3 (repeat_p 2 (getfield 32))) (\<lambda>coli.
     bnd (repeat_p 36 read_btni) (\<lambda>btns.
     ret \<lparr>pci_pci_gi = gi, nsml_agl_dsta = agl,
       pci_hli = \<lparr>hli_gi = hl, btn_coli = coli, btnit = btns\<rparr>\<rparr>)))))"

text \<open>
  The arguments of the \<open>CHECK_VALUE\<close> calls in the order they are made; each one that is false
  prints a warning.
\<close>

definition cmd_bytes :: "vm_cmd \<Rightarrow> u8 list" where
  "cmd_bytes c = (case c of VmCmd b0 b1 b2 b3 b4 b5 b6 b7 \<Rightarrow> [b0, b1, b2, b3, b4, b5, b6, b7])"

definition check_button :: "hl_gi \<Rightarrow> nat \<Rightarrow> btni \<Rightarrow> bool list" where
  "check_button hl j b =
     [btn_zero1 b = 0, btn_zero2 b = 0, btn_zero3 b = 0, btn_zero4 b = 0, btn_zero5 b = 0, btn_zero6 b = 0] @
     (if j < unat (btn_ns hl) then
        [x_start b \<le> x_end b, y_start b \<le> y_end b,
         unat (btn_up b) \<le> unat (btn_ns hl), unat (btn_down b) \<le> unat (btn_ns hl),
         unat (btn_left b) \<le> unat (btn_ns hl), unat (btn_right b) \<le> unat (btn_ns hl)]
      else
        [btn_coln b = 0, auto_action_mode b = 0, x_start b = 0, y_start b = 0, x_end b = 0,
         y_end b = 0, btn_up b = 0, btn_down b = 0, btn_left b = 0, btn_right b = 0] @
        map (\<lambda>x. x = 0) (cmd_bytes (btn_cmd b)))"

fun check_buttons :: "hl_gi \<Rightarrow> btni list \<Rightarrow> (nat \<times> nat) list \<Rightarrow> fault + bool list" where
  "check_buttons hl bs [] = Inr []"
| "check_buttons hl bs ((i, j) # ijs) =
     (case arr_get bs (int (36 div unat (btngr_ns hl) * i + j)) of
        Inl f \<Rightarrow> Inl f
      | Inr b \<Rightarrow>
          (case check_buttons hl bs ijs of
             Inl f \<Rightarrow> Inl f
           | Inr cs \<Rightarrow> Inr (check_button hl j b @ cs)))"

definition pci_checks :: "pci \<Rightarrow> fault + bool list" where
  "pci_checks p =
     (let hl = hli_gi (pci_hli p); k = unat (btngr_ns hl)
      in case check_buttons hl (btnit (pci_hli p))
             (concat (map (\<lambda>i. map (Pair i) [0..<36 div k]) [0..<k])) of
           Inl f \<Rightarrow> Inl f
         | Inr cs \<Rightarrow>
             Inr ([gi_zero1 (pci_pci_gi p) = 0, hl_zero1 hl = 0, hl_zero2 hl = 0, hl_zero3 hl = 0,
                hl_zero4 hl = 0, hl_zero5 hl = 0] @
               (if hli_ss hl AND 3 \<noteq> 0 then [btn_ns hl \<noteq> 0, btngr_ns hl \<noteq> 0]
                else [btn_ns hl \<noteq> 0 \<and> btngr_ns hl \<noteq> 0 \<or> btn_ns hl = 0 \<and> btngr_ns hl = 0]) @ cs))"

definition navRead_PCI :: "u8 list option \<Rightarrow> fault + (pci \<times> bool list)" where
  "navRead_PCI buffer =
     (case dvdread_getbits_init buffer of
        Inl f \<Rightarrow> Inl f
      | Inr (_, None) \<Rightarrow> Inl AbortCall
      | Inr (_, Some st) \<Rightarrow>
          (case read_pci_fields st of
             Inl f \<Rightarrow> Inl f
           | Inr (p, _) \<Rightarrow>
               (case pci_checks p of Inl f \<Rightarrow> Inl f | Inr cs \<Rightarrow> Inr (p, cs))))"

section \<open>The DSI packet\<close>

definition read_dsi_gi :: "(getbits_state, dsi_gi) prog" where
  "read_dsi_gi =
     bnd (getfield 32) (\<lambda>scr. bnd (getfield 32) (\<lambda>lbn. bnd (getfield 32) (\<lambda>ea.
     bnd (getfield 32) (\<lambda>ref1. bnd (getfield 32) (\<lambda>ref2. bnd (getfield 32) (\<lambda>ref3.
     bnd (getfield 16) (\<lambda>vob. bnd (getfield 8) (\<lambda>z1. bnd (getfield 8) (\<lambda>cell. bnd read_time (\<lambda>time.
     ret \<lparr>nv_pck_scr = scr, dsi_nv_pck_lbn = lbn, vobu_ea = ea, vobu_1stref_ea = ref1,
       vobu_2ndref_ea = ref2, vobu_3rdref_ea = ref3, vobu_vob_idn = vob, dsi_zero1 = z1,
       vobu_c_idn = cell, c_eltm = time\<rparr>))))))))))"

definition read_vob_a :: "(getbits_state, vob_a) prog" where
  "read_vob_a =
     bnd (getfield 32) (\<lambda>p1. bnd (getfield 32) (\<lambda>p2. bnd (getfield 32) (\<lambda>g1. bnd (getfield 32) (\<lambda>g2.
     ret \<lparr>stp_ptm1 = p1, stp_ptm2 = p2, gap_len1 = g1, gap_len2 = g2\<rparr>))))"

definition read_sml_pbi :: "(getbits_state, sml_pbi) prog" where
  "read_sml_pbi =
     bnd (getfield 16) (\<lambda>cat. bnd (getfield 32) (\<lambda>ea. bnd (getfield 32) (\<lambda>sa. bnd (getfield 16) (\<lambda>sz.
     bnd (getfield 32) (\<lambda>s_ptm. bnd (getfield 32) (\<lambda>e_ptm. bnd (repeat_p 8 read_vob_a) (\<lambda>as.
     ret \<lparr>pbi_category = cat, ilvu_ea = ea, ilvu_sa = sa, pbi_size = sz, vob_v_s_s_ptm = s_ptm,
       vob_v_e_e_ptm = e_ptm, pbi_vob_a = as\<rparr>)))))))"

definition read_sml_agl :: "(getbits_state, sml_agl_data) prog" where
  "read_sml_agl =
     bnd (getfield 32) (\<lambda>a. bnd (getfield 16) (\<lambda>s. ret \<lparr>agl_address = a, agl_size = s\<rparr>))"

definition read_vobu_sri :: "(getbits_state, vobu_sri) prog" where
  "read_vobu_sri =
     bnd (getfield 32) (\<lambda>nv. bnd (repeat_p 19 (getfield 32)) (\<lambda>fw. bnd (getfield 32) (\<lambda>nu.
     bnd (getfield 32) (\<lambda>pu. bnd (repeat_p 19 (getfield 32)) (\<lambda>bw. bnd (getfield 32) (\<lambda>pv.
     ret \<lparr>next_video = nv, fwda = fw, next_vobu = nu, prev_vobu = pu, bwda = bw, prev_video = pv\<rparr>))))))"

definition read_synci :: "(getbits_state, synci) prog" where
  "read_synci =
     bnd (repeat_p 8 (getfield 16)) (\<lambda>as. bnd (repeat_p 32 (getfield 32)) (\<lambda>sps.
     ret \<lparr>a_synca = as, sp_synca = sps\<rparr>))"

definition read_dsi_fields :: "(getbits_state, dsi) prog" where
  "read_dsi_fields =
     bnd read_dsi_gi (\<lambda>gi. bnd read_sml_pbi (\<lambda>pbi. bnd (repeat_p 9 read_sml_agl) (\<lambda>agl.
     bnd read_vobu_sri (\<lambda>sri. bnd read_synci (\<lambda>syn.
     ret \<lparr>dsi_dsi_gi = gi, dsi_sml_pbi = pbi, sml_agli = agl, dsi_vobu_sri = sri, dsi_synci = syn\<rparr>)))))"

definition navRead_DSI :: "u8 list option \<Rightarrow> fault + (dsi \<times> bool list)" where
  "navRead_DSI buffer =
     (case dvdread_getbits_init buffer of
        Inl f \<Rightarrow> Inl f
      | Inr (_, None) \<Rightarrow> Inl AbortCall
      | Inr (_, Some st) \<Rightarrow>
          (case read_dsi_fields st of
             Inl f \<Rightarrow> Inl f
           | Inr (d, _) \<Rightarrow> Inr (d, [dsi_zero1 (dsi_dsi_gi d) = 0])))"

end
