(* ===== verification/Nav_Layout.thy ===== *)
theory Nav_Layout
  imports Nav_Read
begin

text \<open>
  The layout of the packets of a navigation pack, and that the parsers of \<open>Nav_Read\<close> implement
  it without reading outside a buffer that is one byte longer than the fields.
\<close>

section \<open>Fields at offsets\<close>

definition fld :: "bool list \<Rightarrow> nat \<Rightarrow> nat \<Rightarrow> 'a::len word" where
  "fld xs off n = word_of_nat (bits_value (take n (drop off xs)))"

text \<open>
  \<open>gb_at xs off m r off'\<close>: at bit \<open>off\<close> of \<open>xs\<close> the program \<open>m\<close> answers \<open>r\<close> and stops at bit \<open>off'\<close>.
\<close>

named_theorems gb_at_intro

definition gb_at :: "bool list \<Rightarrow> nat \<Rightarrow> (getbits_state, 'a) prog \<Rightarrow> 'a \<Rightarrow> nat \<Rightarrow> bool" where
  "gb_at xs off m r off' \<longleftrightarrow> off \<le> off' \<and>
     (\<forall>s. gb_ok s \<and> gb_stream s = drop off xs \<and> off' < length xs \<longrightarrow>
        (\<exists>s'. m s = Inr (r, s') \<and> gb_ok s' \<and> gb_stream s' = drop off' xs))"

lemma gb_at_ret [gb_at_intro]: "gb_at xs off (ret a) a off"
  by (simp add: gb_at_def run)

lemma gb_at_bnd [gb_at_intro]:
  assumes "gb_at xs off m r off'" and "gb_at xs off' (f r) r' off''"
  shows "gb_at xs off (bnd m f) r' off''"
  unfolding gb_at_def
proof (intro conjI allI impI)
  show "off \<le> off''" using assms by (simp add: gb_at_def)
next
  fix s
  assume s: "gb_ok s \<and> gb_stream s = drop off xs \<and> off'' < length xs"
  then have "off' < length xs" using assms(2) by (simp add: gb_at_def)
  with s assms(1) obtain t where "m s = Inr (r, t)" "gb_ok t" "gb_stream t = drop off' xs"
    unfolding gb_at_def by blast
  with s assms(2) show "\<exists>s'. bnd m f s = Inr (r', s') \<and> gb_ok s' \<and> gb_stream s' = drop off'' xs"
    by (auto simp: gb_at_def run)
qed

lemma gb_at_eq: "gb_at xs off m r off' \<Longrightarrow> r = r' \<Longrightarrow> off' = off'' \<Longrightarrow> gb_at xs off m r' off''"
  by simp

lemma gb_at_getfield [gb_at_intro]:
  "n \<le> 32 \<Longrightarrow> gb_at xs off (getfield n :: (getbits_state, 'a::len word) prog) (fld xs off n) (off + n)"
  unfolding gb_at_def
proof (intro conjI allI impI)
  fix s
  assume n: "n \<le> 32" and s: "gb_ok s \<and> gb_stream s = drop off xs \<and> off + n < length xs"
  have "length (take n (drop off xs)) \<le> 32" using n by simp
  then have "bits_value (take n (drop off xs)) < 2 ^ 32"
    using bits_value_less [of "take n (drop off xs)"]
      power_increasing [of "length (take n (drop off xs))" 32 "2::nat"] by linarith
  then have "ucast (word_of_nat (bits_value (take n (drop off xs))) :: u32) = (fld xs off n :: 'a word)"
    unfolding fld_def by (simp add: unsigned_of_nat take_bit_nat_eq_self)
  moreover from getbits_reads [OF n] s obtain t where
    "dvdread_getbits (word_of_nat n) s = Inr (word_of_nat (bits_value (take n (drop off xs))), t)"
    "gb_ok t" "gb_stream t = drop n (drop off xs)"
    unfolding gb_reads_def by (metis add.commute length_drop less_diff_conv)
  ultimately show "\<exists>s'. getfield n s = Inr (fld xs off n :: 'a word, s') \<and> gb_ok s' \<and>
      gb_stream s' = drop (off + n) xs"
    by (simp add: getfield_def run add.commute)
qed simp

lemma gb_at_map:
  assumes "\<And>i. i < k \<Longrightarrow> gb_at xs (off + i * w) m (g i) (off + i * w + w)"
  shows "gb_at xs off (repeat_p k m) (map g [0..<k]) (off + k * w)"
  using assms
proof (induction k arbitrary: off g)
  case 0
  then show ?case by (simp add: gb_at_ret)
next
  case (Suc k)
  have "gb_at xs (off + w) (repeat_p k m) (map (\<lambda>i. g (Suc i)) [0..<k]) (off + w + k * w)"
    using Suc.prems [of "Suc i" for i] by (intro Suc.IH) (simp add: ac_simps)
  moreover have "gb_at xs off m (g 0) (off + w)" using Suc.prems [of 0] by simp
  moreover have "map g [0..<Suc k] = g 0 # map (\<lambda>i. g (Suc i)) [0..<k]"
    by (simp add: map_upt_Suc del: upt_Suc)
  ultimately show ?case
    by (simp add: ac_simps del: upt_Suc) (blast intro: gb_at_bnd gb_at_ret)
qed

section \<open>The layout\<close>

definition time_at :: "bool list \<Rightarrow> nat \<Rightarrow> dvd_time" where
  "time_at xs p = \<lparr>dt_hour = fld xs p 8, dt_minute = fld xs (p + 8) 8, dt_second = fld xs (p + 16) 8,
     dt_frame_u = fld xs (p + 24) 8\<rparr>"

definition cmd_at :: "bool list \<Rightarrow> nat \<Rightarrow> vm_cmd" where
  "cmd_at xs p = VmCmd (fld xs p 8) (fld xs (p + 8) 8) (fld xs (p + 16) 8) (fld xs (p + 24) 8)
     (fld xs (p + 32) 8) (fld xs (p + 40) 8) (fld xs (p + 48) 8) (fld xs (p + 56) 8)"

definition uop_at :: "bool list \<Rightarrow> nat \<Rightarrow> user_ops" where
  "uop_at xs p =
     \<lparr>uop_zero = fld xs p 7, video_pres_mode_change = fld xs (p + 7) 1,
      karaoke_audio_pres_mode_change = fld xs (p + 8) 1, angle_change = fld xs (p + 9) 1,
      subpic_stream_change = fld xs (p + 10) 1, audio_stream_change = fld xs (p + 11) 1,
      pause_on = fld xs (p + 12) 1, still_off = fld xs (p + 13) 1,
      button_select_or_activate = fld xs (p + 14) 1, uop_resume = fld xs (p + 15) 1,
      chapter_menu_call = fld xs (p + 16) 1, angle_menu_call = fld xs (p + 17) 1,
      audio_menu_call = fld xs (p + 18) 1, subpic_menu_call = fld xs (p + 19) 1,
      root_menu_call = fld xs (p + 20) 1, title_menu_call = fld xs (p + 21) 1,
      backward_scan = fld xs (p + 22) 1, forward_scan = fld xs (p + 23) 1,
      next_pg_search = fld xs (p + 24) 1, prev_or_top_pg_search = fld xs (p + 25) 1,
      time_or_chapter_search = fld xs (p + 26) 1, go_up = fld xs (p + 27) 1,
      uop_stop = fld xs (p + 28) 1, title_play = fld xs (p + 29) 1,
      chapter_search_or_play = fld xs (p + 30) 1, title_or_time_play = fld xs (p + 31) 1\<rparr>"

definition pci_gi_at :: "bool list \<Rightarrow> nat \<Rightarrow> pci_gi" where
  "pci_gi_at xs p =
     \<lparr>nv_pck_lbn = fld xs p 32, vobu_cat = fld xs (p + 32) 16, gi_zero1 = fld xs (p + 48) 16,
      vobu_uop_ctl = uop_at xs (p + 64), vobu_s_ptm = fld xs (p + 96) 32,
      vobu_e_ptm = fld xs (p + 128) 32, vobu_se_e_ptm = fld xs (p + 160) 32,
      e_eltm = time_at xs (p + 192), vobu_isrc = map (\<lambda>i. fld xs (p + 224 + i * 8) 8) [0..<32]\<rparr>"

definition hl_gi_at :: "bool list \<Rightarrow> nat \<Rightarrow> hl_gi" where
  "hl_gi_at xs p =
     \<lparr>hli_ss = fld xs p 16, hli_s_ptm = fld xs (p + 16) 32, hli_e_ptm = fld xs (p + 48) 32,
      btn_se_e_ptm = fld xs (p + 80) 32, hl_zero1 = fld xs (p + 112) 2, btngr_ns = fld xs (p + 114) 2,
      hl_zero2 = fld xs (p + 116) 1, btngr1_dsp_ty = fld xs (p + 117) 3,
      hl_zero3 = fld xs (p + 120) 1, btngr2_dsp_ty = fld xs (p + 121) 3,
      hl_zero4 = fld xs (p + 124) 1, btngr3_dsp_ty = fld xs (p + 125) 3,
      btn_ofn = fld xs (p + 128) 8, btn_ns = fld xs (p + 136) 8, nsl_btn_ns = fld xs (p + 144) 8,
      hl_zero5 = fld xs (p + 152) 8, fosl_btnn = fld xs (p + 160) 8, foac_btnn = fld xs (p + 168) 8\<rparr>"

definition btni_at :: "bool list \<Rightarrow> nat \<Rightarrow> btni" where
  "btni_at xs p =
     \<lparr>btn_coln = fld xs p 2, x_start = fld xs (p + 2) 10, btn_zero1 = fld xs (p + 12) 2,
      x_end = fld xs (p + 14) 10, auto_action_mode = fld xs (p + 24) 2, y_start = fld xs (p + 26) 10,
      btn_zero2 = fld xs (p + 36) 2, y_end = fld xs (p + 38) 10, btn_zero3 = fld xs (p + 48) 2,
      btn_up = fld xs (p + 50) 6, btn_zero4 = fld xs (p + 56) 2, btn_down = fld xs (p + 58) 6,
      btn_zero5 = fld xs (p + 64) 2, btn_left = fld xs (p + 66) 6, btn_zero6 = fld xs (p + 72) 2,
      btn_right = fld xs (p + 74) 6, btn_cmd = cmd_at xs (p + 80)\<rparr>"

definition pci_at :: "bool list \<Rightarrow> pci" where
  "pci_at xs =
     \<lparr>pci_pci_gi = pci_gi_at xs 0,
      nsml_agl_dsta = map (\<lambda>i. fld xs (480 + i * 32) 32) [0..<9],
      pci_hli = \<lparr>hli_gi = hl_gi_at xs 768,
        btn_coli = map (\<lambda>i. map (\<lambda>j. fld xs (944 + i * 64 + j * 32) 32) [0..<2]) [0..<3],
        btnit = map (\<lambda>i. btni_at xs (1136 + i * 144)) [0..<36]\<rparr>\<rparr>"

definition dsi_at :: "bool list \<Rightarrow> dsi" where
  "dsi_at xs =
     \<lparr>dsi_dsi_gi =
        \<lparr>nv_pck_scr = fld xs 0 32, dsi_nv_pck_lbn = fld xs 32 32, vobu_ea = fld xs 64 32,
         vobu_1stref_ea = fld xs 96 32, vobu_2ndref_ea = fld xs 128 32, vobu_3rdref_ea = fld xs 160 32,
         vobu_vob_idn = fld xs 192 16, dsi_zero1 = fld xs 208 8, vobu_c_idn = fld xs 216 8,
         c_eltm = time_at xs 224\<rparr>,
      dsi_sml_pbi =
        \<lparr>pbi_category = fld xs 256 16, ilvu_ea = fld xs 272 32, ilvu_sa = fld xs 304 32,
         pbi_size = fld xs 336 16, vob_v_s_s_ptm = fld xs 352 32, vob_v_e_e_ptm = fld xs 384 32,
         pbi_vob_a = map (\<lambda>i. \<lparr>stp_ptm1 = fld xs (416 + i * 128) 32, stp_ptm2 = fld xs (448 + i * 128) 32,
           gap_len1 = fld xs (480 + i * 128) 32, gap_len2 = fld xs (512 + i * 128) 32\<rparr>) [0..<8]\<rparr>,
      sml_agli = map (\<lambda>i. \<lparr>agl_address = fld xs (1440 + i * 48) 32, agl_size = fld xs (1472 + i * 48) 16\<rparr>) [0..<9],
      dsi_vobu_sri =
        \<lparr>next_video = fld xs 1872 32, fwda = map (\<lambda>i. fld xs (1904 + i * 32) 32) [0..<19],
         next_vobu = fld xs 2512 32, prev_vobu = fld xs 2544 32,
         bwda = map (\<lambda>i. fld xs (2576 + i * 32) 32) [0..<19], prev_video = fld xs 3184 32\<rparr>,
      dsi_synci =
        \<lparr>a_synca = map (\<lambda>i. fld xs (3216 + i * 16) 16) [0..<8],
         sp_synca = map (\<lambda>i. fld xs (3344 + i * 32) 32) [0..<32]\<rparr>\<rparr>"

section \<open>The parsers read the layout\<close>

lemma read_time_at [gb_at_intro]: "gb_at xs p read_time (time_at xs p) (p + 32)"
  unfolding read_time_def
  by (rule gb_at_eq, (rule gb_at_intro; simp?)+) (simp_all add: time_at_def ac_simps)

lemma read_cmd_at [gb_at_intro]: "gb_at xs p read_cmd (cmd_at xs p) (p + 64)"
  unfolding read_cmd_def
  by (rule gb_at_eq, (rule gb_at_intro; simp?)+) (simp_all add: cmd_at_def ac_simps)

lemma read_uop_fields_at [gb_at_intro]: "gb_at xs p read_uop_fields (uop_at xs p) (p + 32)"
  unfolding read_uop_fields_def
  by (rule gb_at_eq, (rule gb_at_intro; simp?)+) (simp_all add: uop_at_def ac_simps)

lemma read_fields_at [gb_at_intro]:
  "n \<le> 32 \<Longrightarrow> gb_at xs p (repeat_p k (getfield n)) (map (\<lambda>i. fld xs (p + i * n) n) [0..<k]) (p + k * n)"
  by (rule gb_at_map) (rule gb_at_getfield)

lemma read_pci_gi_at [gb_at_intro]: "gb_at xs p read_pci_gi (pci_gi_at xs p) (p + 480)"
  unfolding read_pci_gi_def
  by (rule gb_at_eq, (rule gb_at_intro; simp?)+) (simp_all add: pci_gi_at_def ac_simps)

lemma read_hl_gi_at [gb_at_intro]: "gb_at xs p read_hl_gi (hl_gi_at xs p) (p + 176)"
  unfolding read_hl_gi_def
  by (rule gb_at_eq, (rule gb_at_intro; simp?)+) (simp_all add: hl_gi_at_def ac_simps)

lemma read_btni_at: "gb_at xs p read_btni (btni_at xs p) (p + 144)"
  unfolding read_btni_def
  by (rule gb_at_eq, (rule gb_at_intro; simp?)+) (simp_all add: btni_at_def ac_simps)

lemma read_btnit_at [gb_at_intro]:
  "gb_at xs p (repeat_p k read_btni) (map (\<lambda>i. btni_at xs (p + i * 144)) [0..<k]) (p + k * 144)"
  by (rule gb_at_map) (rule read_btni_at)

lemma read_coli_at [gb_at_intro]:
  "gb_at xs p (repeat_p k (repeat_p 2 (getfield 32)))
     (map (\<lambda>i. map (\<lambda>j. fld xs (p + i * 64 + j * 32) 32) [0..<2]) [0..<k]) (p + k * 64)"
  by (rule gb_at_map) (rule gb_at_eq [OF read_fields_at]; simp)

lemma read_pci_fields_at: "gb_at xs 0 read_pci_fields (pci_at xs) 6320"
  unfolding read_pci_fields_def
  by (rule gb_at_eq, (rule gb_at_intro; simp?)+) (simp_all add: pci_at_def)

lemma read_vob_a_at [gb_at_intro]:
  "gb_at xs p (repeat_p k read_vob_a) (map (\<lambda>i. \<lparr>stp_ptm1 = fld xs (p + i * 128) 32,
     stp_ptm2 = fld xs (p + 32 + i * 128) 32, gap_len1 = fld xs (p + 64 + i * 128) 32,
     gap_len2 = fld xs (p + 96 + i * 128) 32\<rparr>) [0..<k]) (p + k * 128)"
  by (rule gb_at_map, unfold read_vob_a_def, rule gb_at_eq, (rule gb_at_intro; simp?)+)
    (simp_all add: ac_simps)

lemma read_sml_agl_at [gb_at_intro]:
  "gb_at xs p (repeat_p k read_sml_agl) (map (\<lambda>i. \<lparr>agl_address = fld xs (p + i * 48) 32,
     agl_size = fld xs (p + 32 + i * 48) 16\<rparr>) [0..<k]) (p + k * 48)"
  by (rule gb_at_map, unfold read_sml_agl_def, rule gb_at_eq, (rule gb_at_intro; simp?)+)
    (simp_all add: ac_simps)

lemma read_dsi_fields_at: "gb_at xs 0 read_dsi_fields (dsi_at xs) 4368"
  unfolding read_dsi_fields_def read_dsi_gi_def read_sml_pbi_def read_vobu_sri_def read_synci_def
  by (rule gb_at_eq, (rule gb_at_intro; simp?)+) (simp_all add: dsi_at_def ac_simps)

section \<open>The packets read\<close>

lemma check_buttons_Inr:
  "\<forall>(i, j) \<in> set ijs. 36 div unat (btngr_ns hl) * i + j < length bs \<Longrightarrow> \<exists>cs. check_buttons hl bs ijs = Inr cs"
  by (induction hl bs ijs rule: check_buttons.induct) (auto simp: arr_get_nat simp del: arr_get_ok of_nat_add of_nat_mult)

lemma button_index:
  assumes "i < k" and "j < 36 div k"
  shows "36 div k * i + j < (36::nat)"
proof -
  have "36 div k * i + j < 36 div k * Suc i" using assms(2) by simp
  also have "\<dots> \<le> 36 div k * k" using assms(1) by (intro mult_le_mono2) simp
  also have "\<dots> \<le> 36" by simp
  finally show ?thesis .
qed

lemma pci_checks_Inr:
  assumes "length (btnit (pci_hli p)) = 36"
  shows "\<exists>cs. pci_checks p = Inr cs"
proof -
  let ?hl = "hli_gi (pci_hli p)"
  let ?k = "unat (btngr_ns ?hl)"
  have "\<exists>cs. check_buttons ?hl (btnit (pci_hli p))
      (concat (map (\<lambda>i. map (Pair i) [0..<36 div ?k]) [0..<?k])) = Inr cs"
    using assms by (intro check_buttons_Inr) (auto intro: button_index)
  then show ?thesis by (auto simp: pci_checks_def Let_def)
qed

lemma gb_at_init:
  assumes "gb_at (concat (map bits8 buf)) 0 m r n" and "n < 8 * length buf" and "length buf < 2 ^ 32"
  shows "\<exists>s s'. dvdread_getbits_init (Some buf) = Inr (True, Some s) \<and> m s = Inr (r, s')"
proof -
  have "buf \<noteq> []" using assms(2) by auto
  from init_reader [OF this assms(3)] obtain s where "dvdread_getbits_init (Some buf) = Inr (True, Some s)"
    "gb_ok s" "gb_stream s = concat (map bits8 buf)" by blast
  with assms(1,2) show ?thesis by (auto simp: gb_at_def)
qed

lemma navRead_PCI_run:
  assumes "790 < length buf" and "length buf < 2 ^ 32"
  shows "\<exists>cs. navRead_PCI (Some buf) = Inr (pci_at (concat (map bits8 buf)), cs)"
proof -
  from gb_at_init [OF read_pci_fields_at _ assms(2)] assms(1) obtain s s' where
    "dvdread_getbits_init (Some buf) = Inr (True, Some s)"
    "read_pci_fields s = Inr (pci_at (concat (map bits8 buf)), s')" by fastforce
  moreover from pci_checks_Inr [of "pci_at (concat (map bits8 buf))"] obtain cs where
    "pci_checks (pci_at (concat (map bits8 buf))) = Inr cs" by (auto simp: pci_at_def)
  ultimately show ?thesis by (simp add: navRead_PCI_def)
qed

text \<open>
  C15: \<open>navRead_PCI\<close> on a buffer of more than 790 bytes reads nothing behind it, and every
  field of the packet is the number in its range of bits of the layout.
\<close>

theorem navRead_PCI_layout:
  assumes "790 < length buf" and "length buf < 2 ^ 32"
  shows "\<exists>cs. navRead_PCI (Some buf) = Inr (pci_at (concat (map bits8 buf)), cs)"
  using assms by (rule navRead_PCI_run)

theorem navRead_PCI_layout_witness:
  "\<exists>cs. navRead_PCI (Some (replicate 979 7)) = Inr (pci_at (concat (map bits8 (replicate 979 7))), cs)"
  by (rule navRead_PCI_layout) simp_all

lemma navRead_DSI_run:
  assumes "546 < length buf" and "length buf < 2 ^ 32"
  shows "\<exists>cs. navRead_DSI (Some buf) = Inr (dsi_at (concat (map bits8 buf)), cs)"
proof -
  from gb_at_init [OF read_dsi_fields_at _ assms(2)] assms(1) obtain s s' where
    "dvdread_getbits_init (Some buf) = Inr (True, Some s)"
    "read_dsi_fields s = Inr (dsi_at (concat (map bits8 buf)), s')" by fastforce
  then show ?thesis by (simp add: navRead_DSI_def)
qed

text \<open>
  \<open>navRead_DSI\<close> on a buffer of more than 546 bytes reads nothing behind it, and every
  field of the packet is the number in its range of bits of the layout.
\<close>

theorem navRead_DSI_layout:
  assumes "546 < length buf" and "length buf < 2 ^ 32"
  shows "\<exists>cs. navRead_DSI (Some buf) = Inr (dsi_at (concat (map bits8 buf)), cs)"
  using assms by (rule navRead_DSI_run)

theorem navRead_DSI_layout_witness:
  "\<exists>cs. navRead_DSI (Some (replicate 1017 9)) = Inr (dsi_at (concat (map bits8 (replicate 1017 9))), cs)"
  by (rule navRead_DSI_layout) simp_all

section \<open>Bytes\<close>

lemma bits8_at: "k < length buf \<Longrightarrow> take 8 (drop (8 * k) (concat (map bits8 buf))) = bits8 (buf ! k)"
proof (induction buf arbitrary: k)
  case (Cons b buf)
  then show ?case by (cases k) simp_all
qed simp

lemma fld_byte: "k < length buf \<Longrightarrow> fld (concat (map bits8 buf)) (8 * k) 8 = buf ! k"
  using bits_value_top [of 8 "buf ! k"] by (simp add: fld_def bits8_at)

lemma upto_8: "[0..<8] = [0, 1, 2, 3, 4, 5, 6, 7]"
  by (simp add: upt_rec)

lemma cmd_at_bytes:
  assumes "k + 8 \<le> length buf" and "p = 8 * k"
  shows "cmd_bytes (cmd_at (concat (map bits8 buf)) p) = take 8 (drop k buf)"
proof -
  have f: "fld (concat (map bits8 buf)) (p + 8 * i) 8 = buf ! (k + i)" if "i < 8" for i
    using assms that fld_byte [of "k + i" buf] by simp
  have "cmd_bytes (cmd_at (concat (map bits8 buf)) p) = map (\<lambda>i. buf ! (k + i)) [0..<8]"
    using f [of 0] f [of 1] f [of 2] f [of 3] f [of 4] f [of 5] f [of 6] f [of 7]
    by (simp add: cmd_bytes_def cmd_at_def upto_8)
  also have "\<dots> = take 8 (drop k buf)" using assms(1) by (intro nth_equalityI) simp_all
  finally show ?thesis .
qed

text \<open>
  The shape of a PCI packet read from a buffer, and its raw parts: 36 buttons, 9 angle cells,
  three pairs of colours, and as the command of button \<open>i\<close> the eight bytes at offset
  \<open>152 + 18 * i\<close>.
\<close>

theorem navRead_PCI_shape:
  assumes "790 < length buf" and "length buf < 2 ^ 32" and "navRead_PCI (Some buf) = Inr (p, cs)"
  shows "length (btnit (pci_hli p)) = 36 \<and> length (nsml_agl_dsta p) = 9 \<and>
    length (vobu_isrc (pci_pci_gi p)) = 32 \<and> map length (btn_coli (pci_hli p)) = [2, 2, 2] \<and>
    (\<forall>i<36. cmd_bytes (btn_cmd (btnit (pci_hli p) ! i)) = take 8 (drop (152 + 18 * i) buf))"
proof -
  have p: "p = pci_at (concat (map bits8 buf))" using navRead_PCI_run [OF assms(1,2)] assms(3) by auto
  have "cmd_bytes (cmd_at (concat (map bits8 buf)) (1216 + i * 144)) = take 8 (drop (152 + 18 * i) buf)"
    if "i < 36" for i
    using assms(1) that by (intro cmd_at_bytes) simp_all
  moreover have "map length (btn_coli (pci_hli p)) = [2, 2, 2]" by (simp add: p pci_at_def upt_rec)
  ultimately show ?thesis by (simp add: p pci_at_def pci_gi_at_def btni_at_def)
qed

theorem navRead_PCI_shape_witness:
  "\<exists>p cs. navRead_PCI (Some (replicate 979 7)) = Inr (p, cs) \<and> length (btnit (pci_hli p)) = 36 \<and>
    cmd_bytes (btn_cmd (btnit (pci_hli p) ! 35)) = replicate 8 7"
proof -
  obtain p cs where p: "navRead_PCI (Some (replicate 979 7)) = Inr (p, cs)"
    using gb_at_init [OF read_pci_fields_at, of "replicate 979 7"]
      pci_checks_Inr [of "pci_at (concat (map bits8 (replicate 979 7)))"]
    by (fastforce simp: navRead_PCI_def pci_at_def)
  from navRead_PCI_shape [OF _ _ this] p show ?thesis by (intro exI [of _ p] exI [of _ cs]) simp
qed

end
