(* ===== verification/Remap.thy ===== *)
theory Remap
  imports Prelude
begin

text \<open>
  The block remapping table of libdvdnav, \<^verbatim>\<open>lib/libdvd/libdvdnav/src/remap.c\<close>: a sorted array of
  sector ranges, each tied to a domain, a title and a program, read from a text file.
  \<^verbatim>\<open>remap_block\<close> redirects a jump into such a range to the end of the range.

  The array with its element count is a list.  \<^verbatim>\<open>unsigned long\<close> has 64 bits.  The file is a
  parameter: the lines \<^verbatim>\<open>fgets\<close> returns.
\<close>

section \<open>The table\<close>

record block =
  b_domain :: int
  b_title :: int
  b_program :: int
  start_block :: u64
  end_block :: u64

record remap =
  map_title :: string
  maxblocks :: int
  map_debug :: bool
  blocks :: "block list"

definition remap_new :: "string \<Rightarrow> remap" where
  "remap_new title = \<lparr>map_title = title, maxblocks = 0, map_debug = False, blocks = []\<rparr>"

definition compare_block :: "block \<Rightarrow> block \<Rightarrow> int" where
  "compare_block a b =
     (if b_domain a < b_domain b then -1 else if b_domain a > b_domain b then 1
      else if b_title a < b_title b then -1 else if b_title a > b_title b then 1
      else if b_program a < b_program b then -1 else if b_program a > b_program b then 1
      else if end_block a < start_block b then -1 else if start_block a > end_block b then 1
      else 0)"

text \<open>The loop of \<^verbatim>\<open>findblock\<close>: the index of a block that overlaps the key.\<close>

function find_loop :: "block list \<Rightarrow> block \<Rightarrow> int \<Rightarrow> int \<Rightarrow> fault + nat option" where
  "find_loop bs key lb ub =
     (if lb \<le> ub then
        let mid = lb + (ub - lb) div 2
        in case arr_get bs mid of
             Inl f \<Rightarrow> Inl f
           | Inr b \<Rightarrow>
               if compare_block key b < 0 then find_loop bs key lb (mid - 1)
               else if compare_block key b > 0 then find_loop bs key (mid + 1) ub
               else Inr (Some (nat mid))
      else Inr None)"
  by auto
termination by (relation "measure (\<lambda>(bs, key, lb, ub). nat (ub - lb + 1))") auto

declare find_loop.simps [simp del]

definition findblock :: "remap \<Rightarrow> block \<Rightarrow> fault + nat option" where
  "findblock m key = find_loop (blocks m) key 0 (int (length (blocks m)) - 1)"

definition mergeblock :: "block \<Rightarrow> block \<Rightarrow> block" where
  "mergeblock b tmp =
     (let b1 = (if start_block tmp < start_block b then b\<lparr>start_block := start_block tmp\<rparr> else b)
      in if end_block tmp > end_block b1 then b1\<lparr>end_block := end_block tmp\<rparr> else b1)"

text \<open>Where the shifting loop of \<^verbatim>\<open>remap_add_node\<close> stops.\<close>

fun insert_pos :: "block \<Rightarrow> block list \<Rightarrow> nat \<Rightarrow> nat" where
  "insert_pos b bs 0 = 0"
| "insert_pos b bs (Suc n) = (if compare_block b (bs ! n) < 0 then insert_pos b bs n else Suc n)"

definition remap_add_node :: "remap \<Rightarrow> block \<Rightarrow> fault + remap" where
  "remap_add_node m b =
     (case findblock m b of
        Inl f \<Rightarrow> Inl f
      | Inr (Some i) \<Rightarrow> Inr (m\<lparr>blocks := (blocks m)[i := mergeblock (blocks m ! i) b]\<rparr>)
      | Inr None \<Rightarrow>
          let n = insert_pos b (blocks m) (length (blocks m))
          in Inr (m\<lparr>maxblocks := (if int (length (blocks m)) \<ge> maxblocks m then maxblocks m + 20 else maxblocks m),
                    blocks := take n (blocks m) @ b # drop n (blocks m)\<rparr>))"

definition remap_block :: "remap \<Rightarrow> int \<Rightarrow> int \<Rightarrow> int \<Rightarrow> u64 \<Rightarrow> u64 \<Rightarrow> fault + u64" where
  "remap_block m domn title program cblock off =
     (let key = \<lparr>b_domain = domn, b_title = title, b_program = program,
                 start_block = cblock + off, end_block = cblock + off\<rparr>
      in case findblock m key of
           Inl f \<Rightarrow> Inl f
         | Inr (Some i) \<Rightarrow> Inr (end_block (blocks m ! i) - cblock)
         | Inr None \<Rightarrow> Inr off)"

section \<open>The file\<close>

text \<open>The tokens successive calls \<^verbatim>\<open>strtok(buf, " ")\<close>, \<^verbatim>\<open>strtok(NULL, " ")\<close>, ... return.\<close>

function strtok_all :: "string \<Rightarrow> string list" where
  "strtok_all s =
     (case dropWhile (\<lambda>c. c = CHR '' '') s of
        [] \<Rightarrow> []
      | c # cs \<Rightarrow> (c # takeWhile (\<lambda>c. c \<noteq> CHR '' '') cs) # strtok_all (dropWhile (\<lambda>c. c \<noteq> CHR '' '') cs))"
  by auto
termination
proof (relation "measure length")
  fix s c cs
  assume "dropWhile (\<lambda>c. c = CHR '' '') s = c # cs"
  then have "length (c # cs) \<le> length s" by (metis length_dropWhile_le)
  moreover have "length (dropWhile (\<lambda>c. c \<noteq> CHR '' '') cs) \<le> length cs" by (rule length_dropWhile_le)
  ultimately show "(dropWhile (\<lambda>c. c \<noteq> CHR '' '') cs, s) \<in> measure length" by simp
qed simp

declare strtok_all.simps [simp del]

text \<open>\<^verbatim>\<open>strtol(tok, &epos, 0)\<close>: the value and the rest behind it.\<close>

definition is_space :: "char \<Rightarrow> bool" where
  "is_space c \<longleftrightarrow> c = CHR '' '' \<or> (9 \<le> (of_char c :: nat) \<and> (of_char c :: nat) \<le> 13)"

definition digit_of :: "char \<Rightarrow> nat option" where
  "digit_of c =
     (let n = of_char c :: nat
      in if 48 \<le> n \<and> n \<le> 57 then Some (n - 48)
         else if 97 \<le> n \<and> n \<le> 122 then Some (n - 87)
         else if 65 \<le> n \<and> n \<le> 90 then Some (n - 55) else None)"

definition is_digit :: "nat \<Rightarrow> char \<Rightarrow> bool" where
  "is_digit base c = (case digit_of c of None \<Rightarrow> False | Some d \<Rightarrow> d < base)"

fun strtol_digits :: "nat \<Rightarrow> string \<Rightarrow> int \<Rightarrow> int \<times> string" where
  "strtol_digits base [] acc = (acc, [])"
| "strtol_digits base (c # cs) acc =
     (if is_digit base c then strtol_digits base cs (int base * acc + int (the (digit_of c)))
      else (acc, c # cs))"

definition strtol :: "string \<Rightarrow> int \<times> string" where
  "strtol tok =
     (let s = dropWhile is_space tok;
          neg = (s \<noteq> [] \<and> hd s = CHR ''-'');
          t = (if s \<noteq> [] \<and> (hd s = CHR ''-'' \<or> hd s = CHR ''+'') then tl s else s);
          hex = (2 < length t \<and> t ! 0 = CHR ''0'' \<and> (t ! 1 = CHR ''x'' \<or> t ! 1 = CHR ''X'') \<and> is_digit 16 (t ! 2));
          base = (if hex then 16 else if t \<noteq> [] \<and> hd t = CHR ''0'' then 8 else 10);
          u = (if hex then drop 2 t else t)
      in if u = [] \<or> \<not> is_digit base (hd u) then (0, tok)
         else case strtol_digits base u 0 of (v, rest) \<Rightarrow>
           (max (- (2 ^ 63)) (min (2 ^ 63 - 1) (if neg then - v else v)), rest))"

definition marker :: "nat \<Rightarrow> string" where
  "marker st = [''domain'', ''title'', ''program'', ''start'', ''end''] ! st"

definition store_field :: "nat \<Rightarrow> int \<Rightarrow> block \<Rightarrow> block" where
  "store_field st v b =
     (if st = 0 then b\<lparr>b_domain := sint (word_of_int v :: u32)\<rparr>
      else if st = 1 then b\<lparr>b_title := sint (word_of_int v :: u32)\<rparr>
      else if st = 2 then b\<lparr>b_program := sint (word_of_int v :: u32)\<rparr>
      else if st = 3 then b\<lparr>start_block := word_of_int v\<rparr>
      else b\<lparr>end_block := word_of_int v\<rparr>)"

text \<open>The loop of \<^verbatim>\<open>parseblock\<close>; comparing a missing token is a null dereference.\<close>

function parse_loop :: "nat \<Rightarrow> string list \<Rightarrow> block \<Rightarrow> fault + (int \<times> block)" where
  "parse_loop st toks b =
     (if st < 5 then
        case toks of
          [] \<Rightarrow> Inl NullDeref
        | tok # toks1 \<Rightarrow>
            if tok \<noteq> marker st then Inr (- int st - 1000, b)
            else (case toks1 of
                [] \<Rightarrow> Inr (- int st - 2000, b)
              | num # toks2 \<Rightarrow>
                  (case strtol num of (v, rest) \<Rightarrow>
                     if rest \<noteq> [] \<and> hd rest \<noteq> CHR '','' then Inr (- int st - 3000, b)
                     else parse_loop (Suc st) toks2 (store_field st v b)))
      else Inr (int st, b))"
  by auto
termination by (relation "measure (\<lambda>(st, toks, b). 5 - st)") auto

declare parse_loop.simps [simp del]

definition parseblock :: "string \<Rightarrow> block \<Rightarrow> fault + (int \<times> block)" where
  "parseblock buf b = parse_loop 0 (strtok_all buf) b"

definition to_lower :: "char \<Rightarrow> char" where
  "to_lower c = (let n = of_char c :: nat in if 65 \<le> n \<and> n \<le> 90 then char_of (n + 32) else c)"

text \<open>The loop over the lines of the file; the block parsed last is kept from line to line.\<close>

fun load_lines :: "string list \<Rightarrow> block \<Rightarrow> remap \<Rightarrow> fault + remap" where
  "load_lines [] tmp m = Inr m"
| "load_lines (buf # bufs) tmp m =
     (if buf = [] \<or> hd buf = CHR 0x0A \<or> hd buf = CHR ''#'' then load_lines bufs tmp m
      else if map to_lower (take 5 buf) = ''debug'' then load_lines bufs tmp (m\<lparr>map_debug := True\<rparr>)
      else case parseblock buf tmp of
             Inl f \<Rightarrow> Inl f
           | Inr (res, b) \<Rightarrow>
               if res \<noteq> 5 then load_lines bufs b m
               else (case remap_add_node m b of Inl f \<Rightarrow> Inl f | Inr m' \<Rightarrow> load_lines bufs b m'))"

text \<open>\<open>lines\<close> is \<open>None\<close> when the home directory or the file is missing.\<close>

definition remap_loadmap :: "string \<Rightarrow> string list option \<Rightarrow> fault + remap option" where
  "remap_loadmap title lines =
     (case lines of
        None \<Rightarrow> Inr None
      | Some bufs \<Rightarrow>
          (case load_lines bufs \<lparr>b_domain = 0, b_title = 0, b_program = 0, start_block = 0, end_block = 0\<rparr>
                  (remap_new title) of
             Inl f \<Rightarrow> Inl f
           | Inr m \<Rightarrow> Inr (if blocks m = [] \<and> \<not> map_debug m then None else Some m)))"

section \<open>Lookups in a well-formed table\<close>

definition valid_block :: "block \<Rightarrow> bool" where
  "valid_block b \<longleftrightarrow> start_block b \<le> end_block b"

text \<open>The ranges are in order and do not overlap.\<close>

definition wf_blocks :: "block list \<Rightarrow> bool" where
  "wf_blocks bs \<longleftrightarrow> (\<forall>b \<in> set bs. valid_block b) \<and> sorted_wrt (\<lambda>a b. compare_block a b = -1) bs"

definition covers :: "block \<Rightarrow> int \<Rightarrow> int \<Rightarrow> int \<Rightarrow> u64 \<Rightarrow> bool" where
  "covers b d t p s \<longleftrightarrow> b_domain b = d \<and> b_title b = t \<and> b_program b = p \<and>
     start_block b \<le> s \<and> s \<le> end_block b"

lemma compare_cases: "compare_block a b = -1 \<or> compare_block a b = 0 \<or> compare_block a b = 1"
  by (simp add: compare_block_def)

lemma compare_less_trans:
  "valid_block b \<Longrightarrow> compare_block a b = -1 \<Longrightarrow> compare_block b c = -1 \<Longrightarrow> compare_block a c = -1"
  by (auto simp: compare_block_def valid_block_def split: if_splits)

lemma compare_swap: "valid_block a \<Longrightarrow> valid_block b \<Longrightarrow> compare_block a b = 1 \<longleftrightarrow> compare_block b a = -1"
  by (auto simp: compare_block_def valid_block_def split: if_splits)

text \<open>The search finds a block that overlaps the key when there is one between the bounds.\<close>

lemma wf_blocks_less:
  "wf_blocks bs \<Longrightarrow> i < j \<Longrightarrow> j < length bs \<Longrightarrow> compare_block (bs ! i) (bs ! j) = -1"
  using sorted_wrt_nth_less [of "\<lambda>a b. compare_block a b = -1" bs i j] by (simp add: wf_blocks_def)

lemma wf_blocks_valid: "wf_blocks bs \<Longrightarrow> i < length bs \<Longrightarrow> valid_block (bs ! i)"
  by (simp add: wf_blocks_def)

lemma below_mid:
  assumes "wf_blocks bs" and "valid_block key" and "m < length bs" and "compare_block key (bs ! m) < 0"
    and "m \<le> j" and "j < length bs"
  shows "compare_block key (bs ! j) \<noteq> 0"
proof -
  have k: "compare_block key (bs ! m) = -1" using assms(4) compare_cases [of key "bs ! m"] by auto
  have "compare_block key (bs ! j) = -1"
    using compare_less_trans [OF wf_blocks_valid k] wf_blocks_less [of bs m j] assms(1,3,5,6) k
    by (cases "m = j") auto
  then show ?thesis by simp
qed

lemma above_mid:
  assumes "wf_blocks bs" and "valid_block key" and "m < length bs" and "compare_block key (bs ! m) > 0"
    and "j \<le> m"
  shows "compare_block key (bs ! j) \<noteq> 0"
proof -
  have "compare_block key (bs ! m) = 1" using assms(4) compare_cases [of key "bs ! m"] by auto
  then have k: "compare_block (bs ! m) key = -1"
    using compare_swap [OF assms(2) wf_blocks_valid] assms(1,3) by blast
  have "compare_block (bs ! j) key = -1"
    using compare_less_trans [OF wf_blocks_valid _ k] wf_blocks_less [of bs j m] assms(1,3,5) k
    by (cases "j = m") auto
  then have "compare_block key (bs ! j) = 1"
    using compare_swap [OF assms(2) wf_blocks_valid [OF assms(1), of j]] assms(3,5) by simp
  then show ?thesis by simp
qed

definition found_in :: "block list \<Rightarrow> block \<Rightarrow> int \<Rightarrow> int \<Rightarrow> nat option \<Rightarrow> bool" where
  "found_in bs key lb ub r =
     (case r of
        Some i \<Rightarrow> i < length bs \<and> compare_block key (bs ! i) = 0
      | None \<Rightarrow> \<forall>j. lb \<le> int j \<and> int j \<le> ub \<longrightarrow> compare_block key (bs ! j) \<noteq> 0)"

lemma find_loop_spec:
  "wf_blocks bs \<Longrightarrow> valid_block key \<Longrightarrow> 0 \<le> lb \<Longrightarrow> ub < int (length bs) \<Longrightarrow>
   \<exists>r. find_loop bs key lb ub = Inr r \<and> found_in bs key lb ub r"
proof (induction bs key lb ub rule: find_loop.induct)
  case (1 bs key lb ub)
  show ?case
  proof (cases "lb \<le> ub")
    case False
    then show ?thesis by (auto simp: find_loop.simps found_in_def)
  next
    case True
    define mid where "mid = lb + (ub - lb) div 2"
    have mid: "lb \<le> mid" "mid \<le> ub" using True by (simp_all add: mid_def)
    then have m: "nat mid < length bs" "0 \<le> mid" "mid < int (length bs)" using 1 by auto
    then have get: "arr_get bs mid = Inr (bs ! nat mid)" by simp
    show ?thesis
    proof (cases "compare_block key (bs ! nat mid) = 0")
      case True
      with \<open>lb \<le> ub\<close> m get show ?thesis
        by (subst find_loop.simps) (simp add: mid_def [symmetric] Let_def found_in_def)
    next
      case False
      then consider "compare_block key (bs ! nat mid) < 0" | "compare_block key (bs ! nat mid) > 0"
        by linarith
      then show ?thesis
      proof cases
        case 1
        from "1.IH"(1) [OF True mid_def get 1 "1.prems"(1-3)] m "1.prems"(4) obtain r where
          r: "find_loop bs key lb (mid - 1) = Inr r" "found_in bs key lb (mid - 1) r" by auto
        have "compare_block key (bs ! j) \<noteq> 0" if "mid \<le> int j" "int j \<le> ub" for j
          using below_mid [OF "1.prems"(1,2) m(1) 1] that "1.prems"(4) by auto
        with r(2) have "found_in bs key lb ub r"
          by (auto simp: found_in_def split: option.splits) (metis linorder_not_less zle_diff1_eq)
        with r True get 1 show ?thesis
          by (subst find_loop.simps) (simp add: mid_def [symmetric] Let_def)
      next
        case 2
        then have "\<not> compare_block key (bs ! nat mid) < 0" by simp
        from "1.IH"(2) [OF True mid_def get this 2 "1.prems"(1,2)] m mid "1.prems"(4) obtain r where
          r: "find_loop bs key (mid + 1) ub = Inr r" "found_in bs key (mid + 1) ub r" by auto
        have "compare_block key (bs ! j) \<noteq> 0" if "lb \<le> int j" "int j \<le> mid" for j
          using above_mid [OF "1.prems"(1,2) m(1) 2] that by auto
        with r(2) have "found_in bs key lb ub r"
          by (auto simp: found_in_def split: option.splits) (metis linorder_not_less zless_imp_add1_zle)
        with r True get 2 show ?thesis
          by (subst find_loop.simps) (simp add: mid_def [symmetric] Let_def)
      qed
    qed
  qed
qed

lemma findblock_spec:
  assumes "wf_blocks (blocks m)" and "valid_block key"
  shows "\<exists>r. findblock m key = Inr r \<and> found_in (blocks m) key 0 (int (length (blocks m)) - 1) r"
  unfolding findblock_def using find_loop_spec [OF assms] by simp

lemma covers_compare:
  "valid_block b \<Longrightarrow> compare_block \<lparr>b_domain = d, b_title = t, b_program = p, start_block = s, end_block = s\<rparr> b = 0
   \<longleftrightarrow> covers b d t p s"
  by (auto simp: compare_block_def covers_def)

text \<open>
  C24: On a well-formed table \<open>remap_block\<close> redirects a jump to the end of the block that holds
  its target, and leaves it alone when there is none.
\<close>

theorem remap_block_result:
  assumes "wf_blocks (blocks m)"
  shows "remap_block m d t p cblock off =
    Inr (case find (\<lambda>b. covers b d t p (cblock + off)) (blocks m) of
           Some b \<Rightarrow> end_block b - cblock
         | None \<Rightarrow> off)"
proof -
  let ?key = "\<lparr>b_domain = d, b_title = t, b_program = p, start_block = cblock + off, end_block = cblock + off\<rparr>"
  let ?P = "\<lambda>b. covers b d t p (cblock + off)"
  have P: "i < length (blocks m) \<Longrightarrow> compare_block ?key (blocks m ! i) = 0 \<longleftrightarrow> ?P (blocks m ! i)" for i
    using covers_compare [OF wf_blocks_valid [OF assms]] by blast
  have uniq: "i = j" if "i < length (blocks m)" "j < length (blocks m)" "?P (blocks m ! i)" "?P (blocks m ! j)" for i j
    using wf_blocks_less [OF assms, of i j] wf_blocks_less [OF assms, of j i] that
    by (cases i j rule: linorder_cases) (auto simp: covers_def compare_block_def split: if_splits)
  from findblock_spec [OF assms, of ?key] obtain r where
    r: "findblock m ?key = Inr r" "found_in (blocks m) ?key 0 (int (length (blocks m)) - 1) r"
    by (auto simp: valid_block_def)
  show ?thesis
  proof (cases r)
    case None
    then have "\<forall>i < length (blocks m). \<not> ?P (blocks m ! i)"
      using r(2) P by (auto simp: found_in_def)
    then have "find ?P (blocks m) = None" by (auto simp: find_None_iff in_set_conv_nth)
    with r(1) None show ?thesis by (simp add: remap_block_def)
  next
    case (Some i)
    then have i: "i < length (blocks m)" "?P (blocks m ! i)" using r(2) P by (auto simp: found_in_def)
    have "\<not> ?P (blocks m ! j)" if "j < i" for j
    proof
      assume "?P (blocks m ! j)"
      with uniq [of i j] i that show False by simp
    qed
    with i have "find ?P (blocks m) = Some (blocks m ! i)"
      unfolding find_Some_iff by blast
    with r(1) Some show ?thesis by (simp add: remap_block_def)
  qed
qed

theorem remap_block_result_witness:
  "remap_block \<lparr>map_title = ''X'', maxblocks = 20, map_debug = False,
     blocks = [\<lparr>b_domain = 2, b_title = 1, b_program = 3, start_block = 100, end_block = 150\<rparr>,
               \<lparr>b_domain = 2, b_title = 1, b_program = 3, start_block = 200, end_block = 260\<rparr>]\<rparr> 2 1 3 90 120 = Inr 170"
  by (subst remap_block_result) (simp_all add: wf_blocks_def valid_block_def compare_block_def covers_def)

section \<open>Adding blocks\<close>

lemma insert_pos_spec:
  assumes wf: "wf_blocks bs" and b: "valid_block b" and no: "\<forall>x \<in> set bs. compare_block b x \<noteq> 0"
  shows "n \<le> length bs \<Longrightarrow> insert_pos b bs n \<le> n \<and>
    (\<forall>i < insert_pos b bs n. compare_block (bs ! i) b = -1) \<and>
    (\<forall>i < n. insert_pos b bs n \<le> i \<longrightarrow> compare_block b (bs ! i) = -1)"
proof (induction n)
  case (Suc n)
  show ?case
  proof (cases "compare_block b (bs ! n) < 0")
    case True
    then have "compare_block b (bs ! n) = -1" using compare_cases [of b "bs ! n"] by auto
    with Suc True show ?thesis by (auto simp: less_Suc_eq)
  next
    case False
    have n: "n < length bs" using Suc.prems by simp
    then have "compare_block b (bs ! n) \<noteq> 0" using no by simp
    with False have "compare_block b (bs ! n) = 1" using compare_cases [of b "bs ! n"] by auto
    then have k: "compare_block (bs ! n) b = -1" using compare_swap [OF b wf_blocks_valid [OF wf n]] by simp
    have "compare_block (bs ! i) b = -1" if "i < Suc n" for i
      using that k compare_less_trans [OF wf_blocks_valid [OF wf n] wf_blocks_less [OF wf _ n] k]
      by (auto simp: less_Suc_eq)
    with False show ?thesis by simp
  qed
qed simp

lemma wf_blocks_insert:
  assumes "wf_blocks bs" and "valid_block b"
    and "\<forall>x \<in> set (take n bs). compare_block x b = -1" and "\<forall>x \<in> set (drop n bs). compare_block b x = -1"
  shows "wf_blocks (take n bs @ b # drop n bs)"
proof -
  have "\<forall>x \<in> set (take n bs). \<forall>y \<in> set (drop n bs). compare_block x y = -1"
    using compare_less_trans [OF assms(2)] assms(3,4) by blast
  with assms show ?thesis
    by (auto simp: wf_blocks_def sorted_wrt_append sorted_wrt_take sorted_wrt_drop
        dest: in_set_takeD in_set_dropD)
qed

text \<open>
  Adding a block that overlaps none of a well-formed table keeps it well-formed and adds
  exactly this block.
\<close>

theorem remap_add_node_new:
  assumes "wf_blocks (blocks m)" and "valid_block b" and "\<forall>x \<in> set (blocks m). compare_block b x \<noteq> 0"
  shows "\<exists>m'. remap_add_node m b = Inr m' \<and> wf_blocks (blocks m') \<and>
    set (blocks m') = insert b (set (blocks m)) \<and> length (blocks m') = Suc (length (blocks m))"
proof -
  from findblock_spec [OF assms(1,2)] obtain r where
    r: "findblock m b = Inr r" "found_in (blocks m) b 0 (int (length (blocks m)) - 1) r" by blast
  then have none: "r = None" using assms(3) by (auto simp: found_in_def split: option.splits)
  let ?n = "insert_pos b (blocks m) (length (blocks m))"
  note pos = insert_pos_spec [OF assms, of "length (blocks m)", simplified]
  have "wf_blocks (take ?n (blocks m) @ b # drop ?n (blocks m))"
    using pos by (intro wf_blocks_insert assms) (auto simp: in_set_conv_nth)
  moreover have "set (take ?n (blocks m)) \<union> set (drop ?n (blocks m)) = set (blocks m)"
    by (metis append_take_drop_id set_append)
  ultimately show ?thesis
    using r(1) none pos by (auto simp: remap_add_node_def Let_def)
qed

theorem remap_add_node_new_witness:
  "\<exists>m'. remap_add_node \<lparr>map_title = ''X'', maxblocks = 20, map_debug = False,
      blocks = [\<lparr>b_domain = 2, b_title = 1, b_program = 3, start_block = 100, end_block = 150\<rparr>]\<rparr>
      \<lparr>b_domain = 2, b_title = 1, b_program = 3, start_block = 40, end_block = 60\<rparr> = Inr m' \<and>
    wf_blocks (blocks m') \<and> length (blocks m') = 2"
proof -
  let ?m = "\<lparr>map_title = ''X'', maxblocks = 20, map_debug = False,
      blocks = [\<lparr>b_domain = 2, b_title = 1, b_program = 3, start_block = 100, end_block = 150\<rparr>]\<rparr>"
  let ?b = "\<lparr>b_domain = 2, b_title = 1, b_program = 3, start_block = 40, end_block = 60\<rparr>"
  have "wf_blocks (blocks ?m)" "valid_block ?b" "\<forall>x \<in> set (blocks ?m). compare_block ?b x \<noteq> 0"
    by (simp_all add: wf_blocks_def valid_block_def compare_block_def)
  from remap_add_node_new [OF this] show ?thesis by auto
qed

section \<open>Lines of the file\<close>

lemma strtok_word:
  assumes "w \<noteq> []" and "CHR '' '' \<notin> set w"
  shows "strtok_all w = [w]" "strtok_all (w @ CHR '' '' # s) = w # strtok_all s"
proof -
  obtain c cs where w: "w = c # cs" using assms(1) by (cases w) auto
  have n: "c \<noteq> CHR '' ''" "\<forall>x \<in> set cs. x \<noteq> CHR '' ''" using assms(2) w by auto
  have t: "takeWhile (\<lambda>c. c \<noteq> CHR '' '') cs = cs" "dropWhile (\<lambda>c. c \<noteq> CHR '' '') cs = []"
    "takeWhile (\<lambda>c. c \<noteq> CHR '' '') (cs @ CHR '' '' # s) = cs"
    "dropWhile (\<lambda>c. c \<noteq> CHR '' '') (cs @ CHR '' '' # s) = CHR '' '' # s"
    using n(2) by (simp_all add: takeWhile_eq_all_conv dropWhile_eq_Nil_conv takeWhile_append2 dropWhile_append2)
  have e: "strtok_all [] = []" by (simp add: strtok_all.simps)
  show "strtok_all w = [w]"
    using n(1) t(1,2) e by (subst strtok_all.simps) (simp only: w dropWhile.simps if_False list.case)
  have "strtok_all (CHR '' '' # s) = strtok_all s"
    by (simp add: strtok_all.simps [of "CHR '' '' # s"] strtok_all.simps [of s])
  then show "strtok_all (w @ CHR '' '' # s) = w # strtok_all s"
    using n(1) t(3,4)
    by (subst strtok_all.simps) (simp only: w dropWhile.simps if_False list.case append_Cons)
qed

text \<open>A number in decimal digits.\<close>

definition decimal :: "string \<Rightarrow> bool" where
  "decimal s \<longleftrightarrow> s \<noteq> [] \<and> hd s \<noteq> CHR ''0'' \<and> (\<forall>c \<in> set s. is_digit 10 c)"

lemma digit_chars:
  assumes "is_digit 10 c"
  shows "c \<noteq> CHR '' ''" "c \<noteq> CHR ''-''" "c \<noteq> CHR ''+''" "\<not> is_space c"
  using assms by (auto simp: is_digit_def digit_of_def is_space_def Let_def split: if_splits)

lemma decimal_digits:
  "\<forall>c \<in> set ds. is_digit base c \<Longrightarrow> rest = [] \<or> \<not> is_digit base (hd rest) \<Longrightarrow>
   \<exists>v. strtol_digits base (ds @ rest) acc = (v, rest)"
proof (induction ds arbitrary: acc)
  case Nil
  then show ?case by (cases rest) auto
qed simp

lemma strtol_decimal:
  assumes "decimal s" and "rest = [] \<or> \<not> is_digit 10 (hd rest)"
  shows "\<exists>v. strtol (s @ rest) = (v, rest)"
proof -
  obtain c cs where s: "s = c # cs" using assms(1) by (cases s) (auto simp: decimal_def)
  have c: "is_digit 10 c" "c \<noteq> CHR ''0''" using assms(1) by (auto simp: decimal_def s)
  have ds: "\<forall>c \<in> set s. is_digit 10 c" using assms(1) by (simp add: decimal_def)
  from decimal_digits [OF ds assms(2), of 0] obtain v where v: "strtol_digits 10 (s @ rest) 0 = (v, rest)" by blast
  have "dropWhile is_space (s @ rest) = s @ rest" using digit_chars(4) [OF c(1)] by (simp add: s)
  then have "strtol (s @ rest) = (max (- (2 ^ 63)) (min (2 ^ 63 - 1) v), rest)"
    using digit_chars [OF c(1)] c v unfolding strtol_def by (simp add: s Let_def)
  then show ?thesis by blast
qed

lemma decimal_word: "decimal s \<Longrightarrow> s \<noteq> [] \<and> CHR '' '' \<notin> set s"
  using digit_chars(1) by (auto simp: decimal_def)

definition map_line :: "string \<Rightarrow> string \<Rightarrow> string \<Rightarrow> string \<Rightarrow> string \<Rightarrow> string \<Rightarrow> string" where
  "map_line d t p s e rest =
     marker 0 @ CHR '' '' # d @ CHR '' '' # marker 1 @ CHR '' '' # t @ CHR '' '' # marker 2 @ CHR '' '' #
     p @ CHR '' '' # marker 3 @ CHR '' '' # s @ CHR '' '' # marker 4 @ CHR '' '' # e @ rest"

lemma strtok_marker: "st < 5 \<Longrightarrow> strtok_all (marker st @ CHR '' '' # s) = marker st # strtok_all s"
  by (rule strtok_word(2); cases st rule: nat.exhaust) (auto simp: marker_def less_Suc_eq numeral_eq_Suc)

lemma strtok_decimal: "decimal d \<Longrightarrow> strtok_all (d @ CHR '' '' # s) = d # strtok_all s"
  using decimal_word by (intro strtok_word(2)) auto

lemma map_line_tokens:
  assumes "decimal d" "decimal t" "decimal p" "decimal s" "decimal e" and "CHR '' '' \<notin> set rest"
  shows "strtok_all (map_line d t p s e rest) =
    [marker 0, d, marker 1, t, marker 2, p, marker 3, s, marker 4, e @ rest]"
proof -
  have "e @ rest \<noteq> []" "CHR '' '' \<notin> set (e @ rest)" using decimal_word [OF assms(5)] assms(6) by auto
  from strtok_word(1) [OF this] show ?thesis
    unfolding map_line_def by (simp only: strtok_marker strtok_decimal assms(1-5) rel_simps)
qed

lemma parse_step:
  assumes "st < 5" and "decimal num" and "rest = [] \<or> \<not> is_digit 10 (hd rest)"
  shows "\<exists>b'. parse_loop st (marker st # (num @ rest) # toks) b =
    (if rest \<noteq> [] \<and> hd rest \<noteq> CHR '','' then Inr (- int st - 3000, b) else parse_loop (Suc st) toks b')"
proof -
  from strtol_decimal [OF assms(2,3)] obtain v where "strtol (num @ rest) = (v, rest)" by blast
  then show ?thesis using assms(1) by (subst parse_loop.simps) auto
qed

lemma parse_line:
  assumes "decimal d" "decimal t" "decimal p" "decimal s" "decimal e" and "CHR '' '' \<notin> set rest"
    and "rest = [] \<or> \<not> is_digit 10 (hd rest)"
  shows "\<exists>b'. parseblock (map_line d t p s e rest) b =
    Inr (if rest \<noteq> [] \<and> hd rest \<noteq> CHR '','' then -3004 else 5, b')"
proof -
  have step: "\<exists>b'. parse_loop st (marker st # num # toks) b = parse_loop (Suc st) toks b'"
    if "st < 5" "decimal num" for st num toks b
    using parse_step [OF that, of "[]" toks b] by simp
  have toks: "parseblock (map_line d t p s e rest) b = parse_loop 0
      [marker 0, d, marker 1, t, marker 2, p, marker 3, s, marker 4, e @ rest] b"
    by (simp only: parseblock_def map_line_tokens [OF assms(1-6)])
  obtain b0 where "parseblock (map_line d t p s e rest) b = parse_loop 1
      [marker 1, t, marker 2, p, marker 3, s, marker 4, e @ rest] b0"
    using step [OF _ assms(1), of 0] toks by (metis One_nat_def zero_less_numeral)
  moreover obtain b1 where "parse_loop 1 [marker 1, t, marker 2, p, marker 3, s, marker 4, e @ rest] b0 =
      parse_loop 2 [marker 2, p, marker 3, s, marker 4, e @ rest] b1"
    using step [OF _ assms(2), of 1] by (metis Suc_1 one_less_numeral_iff semiring_norm(77))
  moreover obtain b2 where "parse_loop 2 [marker 2, p, marker 3, s, marker 4, e @ rest] b1 =
      parse_loop 3 [marker 3, s, marker 4, e @ rest] b2"
    using step [OF _ assms(3), of 2 "[marker 3, s, marker 4, e @ rest]" b1] by (auto simp: eval_nat_numeral)
  moreover obtain b3 where "parse_loop 3 [marker 3, s, marker 4, e @ rest] b2 = parse_loop 4 [marker 4, e @ rest] b3"
    using step [OF _ assms(4), of 3 "[marker 4, e @ rest]" b2] by (auto simp: eval_nat_numeral)
  moreover have "parse_loop (Suc 4) [] b' = Inr (5, b')" for b' by (simp add: parse_loop.simps)
  moreover obtain b4 where "parse_loop 4 [marker 4, e @ rest] b3 =
      (if rest \<noteq> [] \<and> hd rest \<noteq> CHR '','' then Inr (- int 4 - 3000, b3) else parse_loop (Suc 4) [] b4)"
    using parse_step [OF _ assms(5,7), of 4 "[]" b3] by auto
  ultimately show ?thesis by auto
qed

lemma load_newlines:
  assumes "\<forall>(d, t, p, s, e) \<in> set ls. decimal d \<and> decimal t \<and> decimal p \<and> decimal s \<and> decimal e"
  shows "load_lines (map (\<lambda>(d, t, p, s, e). map_line d t p s e [CHR 0x0A]) ls) tmp m = Inr m"
  using assms
proof (induction ls arbitrary: tmp)
  case (Cons l ls)
  obtain d t p s e where l: "l = (d, t, p, s, e)" by (cases l)
  let ?buf = "map_line d t p s e [CHR 0x0A]"
  have "is_digit 10 (CHR 0x0A) = False" by (simp add: is_digit_def digit_of_def)
  with parse_line [of d t p s e "[CHR 0x0A]" tmp] Cons.prems obtain b where
    "parseblock ?buf tmp = Inr (-3004, b)" by (auto simp: l)
  moreover have "?buf \<noteq> []" "hd ?buf = CHR ''d''" "map to_lower (take 5 ?buf) = ''domai''"
    by (simp_all add: map_line_def marker_def to_lower_def Let_def)
  ultimately show ?case using Cons by (simp add: l)
qed simp

text \<open>
  A map file whose lines each end right behind the last number, the newline that \<open>fgets\<close>
  keeps included, loads nothing: \<open>parseblock\<close> rejects every such line.
\<close>

theorem loadmap_newlines:
  assumes "\<forall>(d, t, p, s, e) \<in> set ls. decimal d \<and> decimal t \<and> decimal p \<and> decimal s \<and> decimal e"
  shows "remap_loadmap title (Some (map (\<lambda>(d, t, p, s, e). map_line d t p s e [CHR 0x0A]) ls)) = Inr None"
  using load_newlines [OF assms] by (simp add: remap_loadmap_def remap_new_def)

theorem loadmap_newlines_witness:
  "remap_loadmap ''X'' (Some [map_line ''2'' ''1'' ''3'' ''100'' ''150'' [CHR 0x0A]]) = Inr None"
  using loadmap_newlines [of "[(''2'', ''1'', ''3'', ''100'', ''150'')]" "''X''"]
  by (simp add: decimal_def is_digit_def digit_of_def)

end
