(* ===== verification/Dvdnav_State.thy ===== *)
theory Dvdnav_State
  imports Nav_Layout Remap Vm_Session
begin

text \<open>
  The state of the DVD navigation library, \<^verbatim>\<open>struct dvdnav_s\<close> of
  \<^verbatim>\<open>lib/libdvd/libdvdnav/src/dvdnav_internal.h\<close>, and from \<^verbatim>\<open>dvdnav.c\<close> the operations that set
  it up, the time conversion and the parser of navigation packs.

  \<^item> The virtual machine is the record \<open>vm\<close>; its table of remapped blocks, \<^verbatim>\<open>vm->map\<close>, stands
    beside it as \<open>dn_map\<close>.
  \<^item> The disc's VOB files are two parameters kept in the state: which of them can be opened
    (\<open>can_open\<close>, by title set and by menu or title) and what a sector of an open one holds
    (\<open>media\<close>; \<open>None\<close> where the read fails).  The read-ahead cache is transparent to its caller
    and left out, and so are the mutex and the messages on the standard error stream.
  \<^item> An assignment of an \<^verbatim>\<open>int32_t\<close> sum that does not fit is the fault \<open>SignedOverflow\<close>.
\<close>

section \<open>State\<close>

record dvdnav_vobu =
  vobu_start :: int
  vobu_length :: int
  vobu_blockN :: int
  vobu_next :: int

record dvdnav =
  nav_file :: "(int \<times> bool) option"
  position_next :: vm_position
  position_current :: vm_position
  vobu :: dvdnav_vobu
  nav_pci :: pci
  nav_dsi :: dsi
  last_cmd_nav_lbn :: u32
  skip_still :: bool
  sync_wait :: bool
  sync_wait_skip :: bool
  spu_clut_changed :: bool
  started :: bool
  use_read_ahead :: int
  pgc_based :: int
  cur_cell_time :: int
  nav_vm :: vm
  nav_map :: "remap option"
  err_str :: string
  can_open :: "int \<Rightarrow> bool \<Rightarrow> bool"
  media :: "int \<Rightarrow> bool \<Rightarrow> int \<Rightarrow> u8 list option"

definition SRI_END_OF_CELL :: int where [simp]: "SRI_END_OF_CELL = 0x3fffffff"
definition HOP_SEEK :: int where [simp]: "HOP_SEEK = 0x1000"

text \<open>A call of the virtual machine.\<close>

definition in_vm :: "(vm, 'a) prog \<Rightarrow> (dvdnav, 'a) prog" where
  "in_vm m = (\<lambda>d. case m (nav_vm d) of Inl f \<Rightarrow> Inl f | Inr (a, v) \<Rightarrow> Inr (a, d\<lparr>nav_vm := v\<rparr>))"

definition printerr :: "string \<Rightarrow> (dvdnav, unit) prog" where
  "printerr msg = upd (\<lambda>d. d\<lparr>err_str := msg\<rparr>)"

text \<open>An error with a message, the value \<open>r\<close> returned.\<close>

definition fail_with :: "string \<Rightarrow> 'a \<Rightarrow> (dvdnav, 'a) prog" where
  "fail_with msg r = sq (printerr msg) (ret r)"

definition int32 :: "int \<Rightarrow> ('s, int) prog" where
  "int32 x = (if - (2 ^ 31) \<le> x \<and> x < 2 ^ 31 then ret x else err SignedOverflow)"

section \<open>Setting up\<close>

definition pos_zero :: vm_position where
  "pos_zero = \<lparr>p_button = 0, p_vts = 0, p_domain = NO_DOMAIN, p_spu_channel = 0, p_angle_channel = 0,
     p_audio_channel = 0, p_hop_channel = 0, p_cell = 0, p_cell_restart = 0, p_cell_start = 0,
     p_still = 0, p_block = 0\<rparr>"

definition vobu_zero :: dvdnav_vobu where
  "vobu_zero = \<lparr>vobu_start = 0, vobu_length = 0, vobu_blockN = 0, vobu_next = 0\<rparr>"

text \<open>Packets of zeros: what the layout gives where there are no bits.\<close>

definition pci_zero :: pci where
  "pci_zero = pci_at []"

definition dsi_zero :: dsi where
  "dsi_zero = dsi_at []"

definition dvdnav_clear :: "(dvdnav, bool) prog" where
  "dvdnav_clear =
     sq (upd (\<lambda>d. d\<lparr>nav_file := None, position_current := pos_zero, nav_pci := pci_zero,
       nav_dsi := dsi_zero, last_cmd_nav_lbn := word_of_int SRI_END_OF_CELL, skip_still := False,
       sync_wait := False, sync_wait_skip := False, spu_clut_changed := False, started := False,
       cur_cell_time := 0\<rparr>)) (ret True)"

text \<open>
  \<^verbatim>\<open>dvdnav_open\<close>: \<open>e\<close> is the environment of the machine, \<open>found\<close> what \<^verbatim>\<open>DVDOpen\<close> finds and \<open>m\<close> the
  remapping file of the disc; nothing is returned when the machine cannot be reset.
\<close>

definition dvdnav_alloc :: "os \<Rightarrow> (int \<Rightarrow> bool \<Rightarrow> bool) \<Rightarrow> (int \<Rightarrow> bool \<Rightarrow> int \<Rightarrow> u8 list option) \<Rightarrow> dvdnav" where
  "dvdnav_alloc e op med =
     \<lparr>nav_file = None, position_next = pos_zero, position_current = pos_zero, vobu = vobu_zero,
      nav_pci = pci_zero, nav_dsi = dsi_zero, last_cmd_nav_lbn = 0, skip_still = False,
      sync_wait = False, sync_wait_skip = False, spu_clut_changed = False, started = False,
      use_read_ahead = 0, pgc_based = 0, cur_cell_time = 0, nav_vm = vm_new_vm e, nav_map = None,
      err_str = '''', can_open = op, media = med\<rparr>"

definition dvdnav_open ::
  "os \<Rightarrow> disc option \<Rightarrow> remap option \<Rightarrow> (int \<Rightarrow> bool \<Rightarrow> bool) \<Rightarrow> (int \<Rightarrow> bool \<Rightarrow> int \<Rightarrow> u8 list option) \<Rightarrow>
   fault + dvdnav option" where
  "dvdnav_open e found m op med =
     (case bnd (in_vm (vm_reset True found)) (\<lambda>ok.
        if \<not> ok then ret False
        else sq (upd (\<lambda>d. d\<lparr>nav_map := m, nav_file := (if op 0 False then Some (0, False) else None)\<rparr>))
               dvdnav_clear) (dvdnav_alloc e op med) of
        Inl f \<Rightarrow> Inl f
      | Inr (ok, d) \<Rightarrow> Inr (if ok then Some d else None))"

definition dvdnav_reset :: "(dvdnav, bool) prog" where
  "dvdnav_reset =
     bnd (in_vm (vm_reset False None)) (\<lambda>ok.
     if \<not> ok then fail_with ''Error restarting the VM.'' False else dvdnav_clear)"

section \<open>Times\<close>

text \<open>
  \<^verbatim>\<open>dvdnav_convert_time\<close>: the tens of hours are multiplied as \<^verbatim>\<open>unsigned long long\<close>, the other
  digits as \<^verbatim>\<open>int\<close>.
\<close>

definition dvdnav_convert_time :: "dvd_time \<Rightarrow> fault + int" where
  "dvdnav_convert_time t =
     (let h = uint (dt_hour t AND 0x0f) * 60 * 60 * 90000;
          frames = uint (drop_bit 4 (dt_frame_u t AND 0x30)) * 10 + uint (dt_frame_u t AND 0x0f)
      in if h \<ge> 2 ^ 31 then Inl SignedOverflow
         else Inr (uint (drop_bit 4 (dt_hour t)) * 10 * 60 * 60 * 90000 + h +
           uint (drop_bit 4 (dt_minute t)) * 10 * 60 * 90000 + uint (dt_minute t AND 0x0f) * 60 * 90000 +
           uint (drop_bit 4 (dt_second t)) * 10 * 90000 + uint (dt_second t AND 0x0f) * 90000 +
           (if dt_frame_u t AND 0x80 \<noteq> 0 then frames * 3000 else frames * 3600)))"

text \<open>A cell of an angle block that is not its first: the loops over cells skip it.\<close>

definition other_angle :: "cell_playback \<Rightarrow> bool" where
  "other_angle c \<longleftrightarrow> block_type c = 1 \<and> block_mode c \<noteq> 1"

fun sum_times :: "(cell_playback \<Rightarrow> bool) \<Rightarrow> int list \<Rightarrow> (vm, int) prog" where
  "sum_times skip [] = ret 0"
| "sum_times skip (i # is) =
     bnd (the_cell i) (\<lambda>c.
     if skip c then sum_times skip is
     else
       bnd (lift_r (dvdnav_convert_time (cell_playback_time c))) (\<lambda>t.
       bnd (sum_times skip is) (\<lambda>s. ret (t + s))))"

definition dvdnav_get_current_time :: "(dvdnav, int) prog" where
  "dvdnav_get_current_time =
     bnd (in_vm (bnd (get_st cellN) (\<lambda>c. sum_times other_angle [0..c - 2]))) (\<lambda>tm.
     bnd (rd cur_cell_time) (\<lambda>t. ret (tm + t)))"

section \<open>Navigation packs\<close>

text \<open>The byte at offset \<open>p\<close> of the block.\<close>

definition byte_at :: "u8 list \<Rightarrow> nat \<Rightarrow> ('s, u8) prog" where
  "byte_at buf p = lift_r (arr_get buf (int p))"

definition word16_at :: "u8 list \<Rightarrow> nat \<Rightarrow> ('s, nat) prog" where
  "word16_at buf p = bnd (byte_at buf p) (\<lambda>h. bnd (byte_at buf (p + 1)) (\<lambda>l. ret (unat h * 256 + unat l)))"

text \<open>The pack header, then the system header: the offset behind them.\<close>

definition skip_pack_header :: "u8 list \<Rightarrow> ('s, nat) prog" where
  "skip_pack_header buf =
     bnd (byte_at buf 3) (\<lambda>id.
     if id = 0xBA then
       bnd (byte_at buf 4) (\<lambda>b.
       if b AND 0x40 = 0 then ret 12
       else bnd (byte_at buf 13) (\<lambda>n. ret (14 + unat (n AND 7))))
     else ret 0)"

definition skip_system_header :: "u8 list \<Rightarrow> nat \<Rightarrow> ('s, nat) prog" where
  "skip_system_header buf p =
     bnd (byte_at buf (p + 3)) (\<lambda>id.
     if id = 0xBB then bnd (word16_at buf (p + 4)) (\<lambda>n. ret (p + 6 + n)) else ret p)"

text \<open>A parse of the rest of the block at an offset; an offset behind the block reads outside it.\<close>

definition read_pci_at :: "u8 list \<Rightarrow> nat \<Rightarrow> (dvdnav, unit) prog" where
  "read_pci_at buf p =
     bnd (lift_r (navRead_PCI (Some (drop p buf)))) (\<lambda>r. upd (\<lambda>d. d\<lparr>nav_pci := fst r\<rparr>))"

definition read_dsi_at :: "u8 list \<Rightarrow> nat \<Rightarrow> (dvdnav, unit) prog" where
  "read_dsi_at buf p =
     bnd (lift_r (navRead_DSI (Some (drop p buf)))) (\<lambda>r. upd (\<lambda>d. d\<lparr>nav_dsi := fst r\<rparr>))"

definition dvdnav_decode_packet :: "u8 list \<Rightarrow> (dvdnav, bool) prog" where
  "dvdnav_decode_packet buf =
     bnd (skip_pack_header buf) (\<lambda>p0.
     bnd (skip_system_header buf p0) (\<lambda>p.
     bnd (byte_at buf p) (\<lambda>b0. bnd (if b0 = 0 then byte_at buf (p + 1) else ret 1) (\<lambda>b1.
     bnd (if b0 = 0 \<and> b1 = 0 then byte_at buf (p + 2) else ret 0) (\<lambda>b2.
     if b0 \<noteq> 0 \<or> b1 \<noteq> 0 \<or> b2 \<noteq> 1 then ret False
     else
       bnd (word16_at buf (p + 4)) (\<lambda>packet_len.
       bnd (byte_at buf (p + 3)) (\<lambda>id.
       if id = 0xBF then
         bnd (byte_at buf (p + 6)) (\<lambda>sub.
         sq (when_p (sub = 0) (read_pci_at buf (p + 7)))
           (bnd (byte_at buf (p + 6 + packet_len + 6)) (\<lambda>sub2.
            sq (when_p (sub2 = 1) (read_dsi_at buf (p + 6 + packet_len + 7))) (ret True))))
       else ret False)))))))"

text \<open>Where the next VOBU is; the angle number indexes arrays of nine entries.\<close>

definition ilvu_offset :: "u32 \<Rightarrow> int" where
  "ilvu_offset n = (if n AND 0x80000000 \<noteq> 0 then - uint (n AND 0x3fffffff) else uint (n AND 0x3fffffff))"

definition dvdnav_get_vobu :: "(dvdnav, unit) prog" where
  "dvdnav_get_vobu =
     bnd (rd nav_dsi) (\<lambda>dsi.
     bnd (rd nav_pci) (\<lambda>pci.
     sq (upd (\<lambda>d. d\<lparr>vobu := (vobu d)\<lparr>vobu_start := sint (dsi_nv_pck_lbn (dsi_dsi_gi dsi)),
           vobu_length := sint (vobu_ea (dsi_dsi_gi dsi)),
           vobu_next := uint (next_vobu (dsi_vobu_sri dsi) AND 0x3fffffff)\<rparr>\<rparr>))
     (bnd (in_vm vm_get_angle_info) (\<lambda>(angle, num_angle).
      if num_angle \<noteq> 0 \<and> pbi_category (dsi_sml_pbi dsi) AND 0xf000 = 0x5000 then
        bnd (lift_r (arr_get (nsml_agl_dsta pci) (angle - 1))) (\<lambda>n.
        if n \<noteq> 0 then
          when_p (n AND 0x3fffffff \<noteq> 0) (upd (\<lambda>d. d\<lparr>vobu := (vobu d)\<lparr>vobu_next := ilvu_offset n\<rparr>\<rparr>))
        else
          bnd (lift_r (arr_get (sml_agli dsi) (angle - 1))) (\<lambda>a.
          when_p (agl_address a \<noteq> 0)
            (upd (\<lambda>d. d\<lparr>vobu := (vobu d)\<lparr>vobu_length := sint (ilvu_ea (dsi_sml_pbi dsi)),
               vobu_next := ilvu_offset (agl_address a)\<rparr>\<rparr>))))
      else ret ()))))"

text \<open>One sector of the open file; the read fails without a file and before its start.\<close>

definition read_block :: "int \<Rightarrow> (dvdnav, u8 list option) prog" where
  "read_block sector =
     rd (\<lambda>d. case nav_file d of
               None \<Rightarrow> None
             | Some (n, title) \<Rightarrow> if sector < 0 then None else media d n title sector)"

end
