(* ===== verification/Dvdnav_Menu.thy ===== *)
theory Dvdnav_Menu
  imports Dvdnav_State
begin

text \<open>
  The highlight calls of \<^verbatim>\<open>lib/libdvd/libdvdnav/src/highlight.c\<close>: selecting and activating the
  buttons of a menu.  A button's command runs on the virtual machine.  The packet is an argument,
  as in the code; applications pass the current one.  The squared distances of the mouse cannot
  overflow, because they are taken only for a point inside a button, whose sides have ten bits.
\<close>

definition the_button :: "pci \<Rightarrow> int \<Rightarrow> ('s, btni) prog" where
  "the_button p n = lift_r (arr_get (btnit (pci_hli p)) (n - 1))"

text \<open>\<^verbatim>\<open>this->vm->state.HL_BTNN_REG >> 10\<close>\<close>

definition button_reg :: "(dvdnav, int) prog" where
  "button_reg = bnd (in_vm (get_sprm HL_BTNN_REG)) (\<lambda>r. ret (uint (drop_bit 10 r)))"

definition dvdnav_get_current_highlight :: "(dvdnav, int) prog" where
  "dvdnav_get_current_highlight =
     bnd (rd (\<lambda>d. p_button (position_current d))) (\<lambda>b. if b = -1 then button_reg else ret b)"

text \<open>The two tests every call begins with: its message, if one of them fails.\<close>

definition menu_error :: "pci \<Rightarrow> dvdnav \<Rightarrow> string option" where
  "menu_error p d =
     (if hli_ss (hli_gi (pci_hli p)) = 0 then Some ''Not in a menu.''
      else if last_cmd_nav_lbn d = nv_pck_lbn (pci_pci_gi p) then Some ''This NAV has already been left.''
      else None)"

text \<open>Run \<open>m\<close> unless the call has to be refused, in which case the answer is \<open>r\<close>.\<close>

definition in_menu :: "pci \<Rightarrow> 'a \<Rightarrow> (dvdnav, 'a) prog \<Rightarrow> (dvdnav, 'a) prog" where
  "in_menu p r m = bnd (rd (menu_error p)) (\<lambda>e. case e of Some msg \<Rightarrow> fail_with msg r | None \<Rightarrow> m)"

definition get_current_button :: "pci \<Rightarrow> (dvdnav, btni option) prog" where
  "get_current_button p =
     in_menu p None (bnd button_reg (\<lambda>b. bnd (the_button p b) (\<lambda>x. ret (Some x))))"

definition dvdnav_button_activate :: "nat \<Rightarrow> pci \<Rightarrow> (dvdnav, bool) prog" where
  "dvdnav_button_activate fuel p =
     in_menu p False
       (bnd button_reg (\<lambda>button.
        if button \<le> 0 \<or> button > uint (btn_ns (hli_gi (pci_hli p))) then
          bnd (rd (\<lambda>d. p_still (position_current d))) (\<lambda>still.
          if still \<noteq> 0 then
            sq (in_vm (vm_get_next_cell fuel))
              (sq (upd (\<lambda>d. d\<lparr>position_current := (position_current d)\<lparr>p_still := 0\<rparr>, sync_wait := False,
                     last_cmd_nav_lbn := nv_pck_lbn (pci_pci_gi p), err_str := ''''\<rparr>))
                (ret True))
          else ret False)
        else
          bnd (get_current_button p) (\<lambda>btn.
          bnd (deref NullDeref btn) (\<lambda>b.
          bnd (in_vm (vm_exec_cmd fuel (btn_cmd b))) (\<lambda>jump.
          sq (when_p jump
                (sq (in_vm (upd (\<lambda>v. v\<lparr>hop_channel := hop_channel v + 1\<rparr>)))
                  (upd (\<lambda>d. d\<lparr>position_current := (position_current d)\<lparr>p_still := 0\<rparr>,
                     last_cmd_nav_lbn := nv_pck_lbn (pci_pci_gi p)\<rparr>))))
            (ret True))))))"

definition set_button_reg :: "int \<Rightarrow> (dvdnav, unit) prog" where
  "set_button_reg button =
     bnd (int32 (button * 1024)) (\<lambda>r. in_vm (put_sprm HL_BTNN_REG (word_of_int r)))"

definition dvdnav_button_activate_cmd :: "nat \<Rightarrow> int \<Rightarrow> vm_cmd \<Rightarrow> (dvdnav, bool) prog" where
  "dvdnav_button_activate_cmd fuel button cmd =
     sq (when_p (button > 0)
           (sq (set_button_reg button)
             (bnd (in_vm (vm_exec_cmd fuel cmd)) (\<lambda>jump.
              when_p jump (in_vm (upd (\<lambda>v. v\<lparr>hop_channel := hop_channel v + 1\<rparr>)))))))
       (sq (upd (\<lambda>d. d\<lparr>position_current := (position_current d)\<lparr>p_still := 0\<rparr>, sync_wait := False\<rparr>))
         (ret True))"

definition dvdnav_button_select :: "pci \<Rightarrow> int \<Rightarrow> (dvdnav, bool) prog" where
  "dvdnav_button_select p button =
     in_menu p False
       (if button \<le> 0 \<or> button > uint (btn_ns (hli_gi (pci_hli p))) then
          fail_with ''Button does not exist.'' False
        else
          sq (set_button_reg button)
            (sq (upd (\<lambda>d. d\<lparr>position_current := (position_current d)\<lparr>p_button := -1\<rparr>\<rparr>)) (ret True)))"

definition dvdnav_button_select_and_activate :: "nat \<Rightarrow> pci \<Rightarrow> int \<Rightarrow> (dvdnav, bool) prog" where
  "dvdnav_button_select_and_activate fuel p button =
     bnd (dvdnav_button_select p button) (\<lambda>ok. if ok then dvdnav_button_activate fuel p else ret False)"

text \<open>\<^verbatim>\<open>get_current_button\<close> is dereferenced here without a test.\<close>

definition button_auto_action :: "nat \<Rightarrow> pci \<Rightarrow> (dvdnav, bool) prog" where
  "button_auto_action fuel p =
     bnd (get_current_button p) (\<lambda>btn.
     bnd (deref NullDeref btn) (\<lambda>b.
     if auto_action_mode b \<noteq> 0 then dvdnav_button_activate fuel p else ret True))"

text \<open>The four moves differ in the field of the button.\<close>

definition move_button :: "(btni \<Rightarrow> 6 word) \<Rightarrow> nat \<Rightarrow> pci \<Rightarrow> (dvdnav, bool) prog" where
  "move_button dir fuel p =
     bnd (get_current_button p) (\<lambda>btn.
     case btn of
       None \<Rightarrow> ret False
     | Some b \<Rightarrow>
         bnd (dvdnav_button_select p (uint (dir b))) (\<lambda>_. button_auto_action fuel p))"

definition dvdnav_upper_button_select :: "nat \<Rightarrow> pci \<Rightarrow> (dvdnav, bool) prog" where
  "dvdnav_upper_button_select = move_button btn_up"

definition dvdnav_lower_button_select :: "nat \<Rightarrow> pci \<Rightarrow> (dvdnav, bool) prog" where
  "dvdnav_lower_button_select = move_button btn_down"

definition dvdnav_right_button_select :: "nat \<Rightarrow> pci \<Rightarrow> (dvdnav, bool) prog" where
  "dvdnav_right_button_select = move_button btn_right"

definition dvdnav_left_button_select :: "nat \<Rightarrow> pci \<Rightarrow> (dvdnav, bool) prog" where
  "dvdnav_left_button_select = move_button btn_left"

record highlight_area =
  ha_palette :: u32
  ha_sx :: int
  ha_sy :: int
  ha_ex :: int
  ha_ey :: int
  ha_pts :: u32
  ha_buttonN :: int

definition dvdnav_get_highlight_area :: "pci \<Rightarrow> int \<Rightarrow> int \<Rightarrow> fault + highlight_area option" where
  "dvdnav_get_highlight_area p button mode =
     (let hl = hli_gi (pci_hli p)
      in if hli_ss hl = 0 \<or> button \<le> 0 \<or> button > uint (btn_ns hl) then Inr None
         else case arr_get (btnit (pci_hli p)) (button - 1) of
           Inl f \<Rightarrow> Inl f
         | Inr b \<Rightarrow>
             (case if btn_coln b \<noteq> 0 then
                     case arr_get (btn_coli (pci_hli p)) (uint (btn_coln b) - 1) of
                       Inl f \<Rightarrow> Inl f | Inr row \<Rightarrow> arr_get row mode
                   else Inr 0 of
                Inl f \<Rightarrow> Inl f
              | Inr pal \<Rightarrow>
                  Inr (Some \<lparr>ha_palette = pal, ha_sx = uint (x_start b), ha_sy = uint (y_start b),
                    ha_ex = uint (x_end b), ha_ey = uint (y_end b), ha_pts = hli_s_ptm hl,
                    ha_buttonN = button\<rparr>)))"

section \<open>The mouse\<close>

definition inside :: "btni \<Rightarrow> int \<Rightarrow> int \<Rightarrow> bool" where
  "inside b x y \<longleftrightarrow> uint (x_start b) \<le> x \<and> x \<le> uint (x_end b) \<and> uint (y_start b) \<le> y \<and> y \<le> uint (y_end b)"

text \<open>The square of the distance to the centre of the button.\<close>

definition centre_dist :: "btni \<Rightarrow> int \<Rightarrow> int \<Rightarrow> int" where
  "centre_dist b x y =
     ((uint (x_start b) + uint (x_end b)) div 2 - x)\<^sup>2 + ((uint (y_start b) + uint (y_end b)) div 2 - y)\<^sup>2"

fun mouse_loop :: "btni list \<Rightarrow> int \<Rightarrow> int \<Rightarrow> int list \<Rightarrow> int \<Rightarrow> int \<Rightarrow> fault + int" where
  "mouse_loop bs x y [] best dist = Inr best"
| "mouse_loop bs x y (button # buttons) best dist =
     (case arr_get bs (button - 1) of
        Inl f \<Rightarrow> Inl f
      | Inr b \<Rightarrow>
          if inside b x y \<and> centre_dist b x y < dist
          then mouse_loop bs x y buttons button (centre_dist b x y)
          else mouse_loop bs x y buttons best dist)"

definition dvdnav_mouse_select :: "pci \<Rightarrow> int \<Rightarrow> int \<Rightarrow> (dvdnav, bool) prog" where
  "dvdnav_mouse_select p x y =
     in_menu p False
       (bnd button_reg (\<lambda>cur.
        bnd (lift_r (mouse_loop (btnit (pci_hli p)) x y [1..uint (btn_ns (hli_gi (pci_hli p)))] 0 0x08000000)) (\<lambda>best.
        sq (if best \<noteq> 0 \<and> best \<noteq> cur then bnd (dvdnav_button_select p best) (\<lambda>_. ret ()) else ret ())
          (ret (best \<noteq> 0)))))"

definition dvdnav_mouse_activate :: "nat \<Rightarrow> pci \<Rightarrow> int \<Rightarrow> int \<Rightarrow> (dvdnav, bool) prog" where
  "dvdnav_mouse_activate fuel p x y =
     bnd (dvdnav_mouse_select p x y) (\<lambda>ok. if ok then dvdnav_button_activate fuel p else ret False)"

end
