(* ===== verification/Dvdnav_Block.thy ===== *)
theory Dvdnav_Block
  imports Dvdnav_State
begin

text \<open>
  \<^verbatim>\<open>dvdnav_get_next_cache_block\<close> of \<^verbatim>\<open>lib/libdvd/libdvdnav/src/dvdnav.c\<close>: the function an
  application calls over and over, which answers with one event or one block of the stream and
  brings the position it has reported (\<open>position_current\<close>) a step closer to the position of the
  virtual machine (\<open>position_next\<close>).

  A call returns its status and the event it has stored, with the data it puts into the buffer;
  no event is stored when the machine does not start.  The size of the event's structure, the
  third result of the code, is left out.  The code is built with \<^verbatim>\<open>_XBMC\<close> defined.
\<close>

section \<open>Events\<close>

record cell_event =
  ce_cellN :: int
  ce_pgN :: int
  ce_cell_length :: int
  ce_pg_length :: int
  ce_pgc_length :: int
  ce_cell_start :: int
  ce_pg_start :: int

datatype event =
    BLOCK_OK "u8 list"
  | NOP
  | STILL_FRAME int
  | SPU_STREAM_CHANGE int int int
  | AUDIO_STREAM_CHANGE int int
  | VTS_CHANGE int domain int domain
  | CELL_CHANGE cell_event
  | NAV_PACKET "u8 list"
  | STOP
  | HIGHLIGHT int
  | SPU_CLUT_CHANGE "u32 list"
  | HOP_CHANNEL
  | WAIT

section \<open>The branches\<close>

text \<open>A hop: when it was a seek among several angles, the first VOBU is skipped.\<close>

definition seek_angles :: "nat \<Rightarrow> (dvdnav, bool) prog" where
  "seek_angles fuel =
     bnd (rd position_next) (\<lambda>pos.
     bnd (int32 (p_cell_start pos + p_block pos)) (\<lambda>block.
     bnd (read_block block) (\<lambda>r.
     case r of
       None \<Rightarrow> fail_with ''Error reading NAV packet.'' False
     | Some buf \<Rightarrow>
         bnd (dvdnav_decode_packet buf) (\<lambda>ok.
         if \<not> ok then
           sq (printerr ''Expected NAV packet but none found.'')
             (sq (in_vm (vm_get_next_cell fuel)) (ret False))
         else
           sq dvdnav_get_vobu
             (bnd (rd vobu) (\<lambda>u.
              sq (if vobu_next u \<noteq> SRI_END_OF_CELL then
                    bnd (int32 (vobu_start u + vobu_next u)) (\<lambda>s.
                    upd (\<lambda>d. d\<lparr>vobu := (vobu d)\<lparr>vobu_start := s, vobu_next := 0\<rparr>\<rparr>))
                  else ret ())
                (bnd (rd (\<lambda>d. vobu_start (vobu d))) (\<lambda>s.
                 bnd (int32 (s - p_cell_start pos)) (\<lambda>b.
                 sq (in_vm (upd_st (\<lambda>t. t\<lparr>blockN := b\<rparr>))) (ret True))))))))))"

definition hop_event :: "nat \<Rightarrow> (dvdnav, bool \<times> event) prog" where
  "hop_event fuel =
     bnd (rd (\<lambda>d. p_hop_channel (position_next d) - p_hop_channel (position_current d) \<ge> HOP_SEEK)) (\<lambda>seek.
     bnd (if seek then
            bnd (in_vm vm_get_angle_info) (\<lambda>(_, num_angles).
            if num_angles > 1 then seek_angles fuel else ret True)
          else ret True) (\<lambda>ok.
     if \<not> ok then ret (False, HOP_CHANNEL)
     else
       bnd (rd position_next) (\<lambda>pos.
       bnd (int32 (p_cell_start pos + p_block pos)) (\<lambda>s.
       sq (upd (\<lambda>d. d\<lparr>position_current := (position_current d)\<lparr>p_hop_channel := p_hop_channel pos\<rparr>,
             vobu := \<lparr>vobu_start = s, vobu_length = 0, vobu_blockN = 0, vobu_next = 0\<rparr>,
             sync_wait := False\<rparr>))
         (ret (True, HOP_CHANNEL))))))"

definition highlight_event :: "(dvdnav, bool \<times> event) prog" where
  "highlight_event =
     bnd (rd (\<lambda>d. p_button (position_next d))) (\<lambda>b.
     sq (upd (\<lambda>d. d\<lparr>position_current := (position_current d)\<lparr>p_button := b\<rparr>\<rparr>))
       (ret (True, HIGHLIGHT b)))"

text \<open>The VOB file of a domain: the title set and whether it is its title part.\<close>

definition vob_of :: "domain \<Rightarrow> int \<Rightarrow> (int \<times> bool) option" where
  "vob_of dm vts =
     (case dm of
        FP_DOMAIN \<Rightarrow> Some (0, False)
      | VMGM_DOMAIN \<Rightarrow> Some (0, False)
      | VTSM_DOMAIN \<Rightarrow> Some (vts, False)
      | VTS_DOMAIN \<Rightarrow> Some (vts, True)
      | NO_DOMAIN \<Rightarrow> None)"

definition vts_event :: "(dvdnav, bool \<times> event) prog" where
  "vts_event =
     bnd (rd position_next) (\<lambda>next_pos.
     bnd (rd position_current) (\<lambda>cur_pos.
     sq (upd (\<lambda>d. d\<lparr>nav_file := None\<rparr>))
       (case vob_of (p_domain next_pos) (p_vts next_pos) of
          None \<Rightarrow> fail_with ''Unknown domain when changing VTS.'' (False, NOP)
        | Some (n, title) \<Rightarrow>
            sq (upd (\<lambda>d. d\<lparr>position_current := (position_current d)\<lparr>p_vts := p_vts next_pos,
                  p_domain := p_domain next_pos\<rparr>,
                  nav_file := (if can_open d n title then Some (n, title) else None)\<rparr>))
              (bnd (rd nav_file) (\<lambda>file.
               if file = None then fail_with ''Error opening vtsN, domain.'' (False, NOP)
               else
                 sq (upd (\<lambda>d. d\<lparr>spu_clut_changed := True,
                       position_current := (position_current d)\<lparr>p_cell := -1, p_spu_channel := -1,
                         p_audio_channel := -1\<rparr>\<rparr>))
                   (ret (True, VTS_CHANGE (p_vts cur_pos) (p_domain cur_pos)
                      (p_vts next_pos) (p_domain next_pos))))))))"

text \<open>What a cell change reports of the program chain.\<close>

definition cell_info :: "(vm, cell_event) prog" where
  "cell_info =
     bnd (get_st cellN) (\<lambda>cell.
     bnd (get_st pgN) (\<lambda>pg.
     bnd (the_cell (cell - 1)) (\<lambda>c.
     bnd (lift_r (dvdnav_convert_time (cell_playback_time c))) (\<lambda>len.
     bnd the_pgc (\<lambda>g.
     bnd (lift_r (arr_get (program_map g) (pg - 1))) (\<lambda>first.
     bnd (if pg < uint (nr_of_programs g)
          then bnd (lift_r (arr_get (program_map g) pg)) (\<lambda>n. ret (uint n - 1))
          else ret (uint (nr_of_cells g))) (\<lambda>last_cell.
     bnd (sum_times (\<lambda>_. False) [uint first - 1..last_cell - 1]) (\<lambda>pg_len.
     bnd (lift_r (dvdnav_convert_time (pgc_playback_time g))) (\<lambda>pgc_len.
     bnd (sum_times other_angle [0..cell - 1]) (\<lambda>cell_end.
     bnd (sum_times (\<lambda>_. False) [0..uint first - 2]) (\<lambda>pg_start.
     ret \<lparr>ce_cellN = cell, ce_pgN = pg, ce_cell_length = len, ce_pg_length = pg_len,
       ce_pgc_length = pgc_len, ce_cell_start = cell_end - len, ce_pg_start = pg_start\<rparr>)))))))))))"

definition cell_change_event :: "(dvdnav, bool \<times> event) prog" where
  "cell_change_event =
     sq (upd (\<lambda>d. d\<lparr>cur_cell_time := 0\<rparr>))
       (bnd (in_vm cell_info) (\<lambda>info.
        bnd (rd position_next) (\<lambda>pos.
        bnd (int32 (p_cell_start pos + p_block pos)) (\<lambda>s.
        sq (upd (\<lambda>d. d\<lparr>position_current := (position_current d)\<lparr>p_cell := p_cell pos,
              p_cell_restart := p_cell_restart pos, p_cell_start := p_cell_start pos,
              p_block := p_block pos, p_spu_channel := -1, p_audio_channel := -1\<rparr>,
              vobu := \<lparr>vobu_start = s, vobu_length = 0, vobu_blockN = 0, vobu_next = 0\<rparr>,
              spu_clut_changed := True\<rparr>))
          (ret (True, CELL_CHANGE info))))))"

definition clut_event :: "(dvdnav, bool \<times> event) prog" where
  "clut_event =
     bnd (in_vm the_pgc) (\<lambda>g.
     sq (upd (\<lambda>d. d\<lparr>spu_clut_changed := False\<rparr>)) (ret (True, SPU_CLUT_CHANGE (palette g))))"

definition spu_event :: "(dvdnav, bool \<times> event) prog" where
  "spu_event =
     bnd (in_vm (vm_get_subp_active_stream 0)) (\<lambda>wide.
     bnd (in_vm (vm_get_subp_active_stream 1)) (\<lambda>letterbox.
     bnd (in_vm (vm_get_subp_active_stream 2)) (\<lambda>pan_scan.
     sq (upd (\<lambda>d. d\<lparr>position_current := (position_current d)\<lparr>p_spu_channel := p_spu_channel (position_next d)\<rparr>\<rparr>))
       (ret (True, SPU_STREAM_CHANGE wide letterbox pan_scan)))))"

definition audio_event :: "(dvdnav, bool \<times> event) prog" where
  "audio_event =
     bnd (in_vm vm_get_audio_active_stream) (\<lambda>physical.
     bnd (rd (\<lambda>d. p_audio_channel (position_next d))) (\<lambda>logical.
     sq (upd (\<lambda>d. d\<lparr>position_current := (position_current d)\<lparr>p_audio_channel := logical\<rparr>\<rparr>))
       (ret (True, AUDIO_STREAM_CHANGE physical logical))))"

text \<open>The end of a cell: wait for the application, hold a still, or go to the next cell.\<close>

definition end_of_cell :: "nat \<Rightarrow> (dvdnav, bool \<times> event) prog" where
  "end_of_cell fuel =
     sq (upd (\<lambda>d. d\<lparr>position_current := (position_current d)\<lparr>p_still := p_still (position_next d)\<rparr>\<rparr>))
       (bnd (rd (\<lambda>d. p_still (position_current d))) (\<lambda>still.
        bnd (rd (\<lambda>d. hli_ss (hli_gi (pci_hli (nav_pci d))) \<noteq> 0)) (\<lambda>menu.
        bnd (rd sync_wait_skip) (\<lambda>skip_wait.
        bnd (rd skip_still) (\<lambda>skip.
        sq (if (still \<noteq> 0 \<or> menu) \<and> \<not> skip_wait then upd (\<lambda>d. d\<lparr>sync_wait := True\<rparr>)
            else if still = 0 \<or> skip then
              sq (in_vm (vm_get_next_cell fuel))
                (upd (\<lambda>d. d\<lparr>position_current := (position_current d)\<lparr>p_still := 0\<rparr>,
                   skip_still := False, sync_wait_skip := False\<rparr>))
            else ret ())
          (ret (True, NOP)))))))"

fun domain_value :: "domain \<Rightarrow> int" where
  "domain_value NO_DOMAIN = 0"
| "domain_value FP_DOMAIN = 1"
| "domain_value VTS_DOMAIN = 2"
| "domain_value VMGM_DOMAIN = 4"
| "domain_value VTSM_DOMAIN = 8"

definition remap_next :: "(dvdnav, unit) prog" where
  "remap_next =
     bnd (rd nav_map) (\<lambda>m.
     case m of
       None \<Rightarrow> ret ()
     | Some rmap \<Rightarrow>
         bnd (in_vm (get_st (\<lambda>t. domain_value (domain t)))) (\<lambda>dm.
         bnd (in_vm (get_sprm TTN_REG)) (\<lambda>ttn.
         bnd (in_vm (get_st pgN)) (\<lambda>pg.
         bnd (rd vobu) (\<lambda>u.
         bnd (lift_r (remap_block rmap dm (uint ttn) pg (word_of_int (vobu_start u)) (word_of_int (vobu_next u)))) (\<lambda>r.
         upd (\<lambda>d. d\<lparr>vobu := (vobu d)\<lparr>vobu_next := sint (ucast r :: u32)\<rparr>\<rparr>)))))))"

text \<open>The next VOBU: its first block is a navigation pack.\<close>

definition next_vobu_event :: "nat \<Rightarrow> (dvdnav, bool \<times> event) prog" where
  "next_vobu_event fuel =
     sq remap_next
       (bnd (rd vobu) (\<lambda>u.
        bnd (int32 (vobu_start u + vobu_next u)) (\<lambda>sector.
        bnd (read_block sector) (\<lambda>r.
        case r of
          None \<Rightarrow> fail_with ''Error reading NAV packet.'' (False, NOP)
        | Some buf \<Rightarrow>
            bnd (dvdnav_decode_packet buf) (\<lambda>ok.
            if \<not> ok then
              sq (printerr ''Expected NAV packet but none found.'')
                (sq (in_vm (vm_get_next_cell fuel)) (ret (False, NOP)))
            else
              bnd (rd (\<lambda>d. vobu_start (vobu d) - p_cell_start (position_current d))) (\<lambda>b0.
              bnd (int32 b0) (\<lambda>b.
              sq (in_vm (upd_st (\<lambda>t. t\<lparr>blockN := b\<rparr>)))
              (sq dvdnav_get_vobu
              (sq (upd (\<lambda>d. d\<lparr>vobu := (vobu d)\<lparr>vobu_blockN := 0\<rparr>,
                    last_cmd_nav_lbn := (if last_cmd_nav_lbn d = nv_pck_lbn (pci_pci_gi (nav_pci d))
                      then word_of_int SRI_END_OF_CELL else last_cmd_nav_lbn d)\<rparr>))
              (bnd (rd (\<lambda>d. c_eltm (dsi_dsi_gi (nav_dsi d)))) (\<lambda>t.
               bnd (lift_r (dvdnav_convert_time t)) (\<lambda>time.
               sq (upd (\<lambda>d. d\<lparr>cur_cell_time := sint (word_of_int time :: u32)\<rparr>))
                 (ret (True, NAV_PACKET buf))))))))))))))"

definition block_event :: "(dvdnav, bool \<times> event) prog" where
  "block_event =
     bnd (rd nav_file) (\<lambda>file.
     if file = None then fail_with ''Attempting to read without opening file.'' (False, NOP)
     else
       bnd (rd vobu) (\<lambda>u.
       bnd (int32 (vobu_blockN u + 1)) (\<lambda>n.
       sq (upd (\<lambda>d. d\<lparr>vobu := (vobu d)\<lparr>vobu_blockN := n\<rparr>\<rparr>))
         (bnd (int32 (vobu_start u + n)) (\<lambda>sector.
          bnd (read_block sector) (\<lambda>r.
          case r of
            None \<Rightarrow> fail_with ''Error reading from DVD.'' (False, NOP)
          | Some buf \<Rightarrow> ret (True, BLOCK_OK buf)))))))"

section \<open>The function\<close>

text \<open>The tests in their order, on the two positions.\<close>

definition vts_changed :: "dvdnav \<Rightarrow> bool" where
  "vts_changed d \<longleftrightarrow> p_vts (position_current d) \<noteq> p_vts (position_next d) \<or>
     p_domain (position_current d) \<noteq> p_domain (position_next d)"

definition cell_changed :: "dvdnav \<Rightarrow> bool" where
  "cell_changed d \<longleftrightarrow> p_cell (position_current d) \<noteq> p_cell (position_next d) \<or>
     p_cell_restart (position_current d) \<noteq> p_cell_restart (position_next d) \<or>
     p_cell_start (position_current d) \<noteq> p_cell_start (position_next d)"

definition next_event :: "nat \<Rightarrow> (dvdnav, bool \<times> event) prog" where
  "next_event fuel = (\<lambda>d.
     if p_hop_channel (position_current d) \<noteq> p_hop_channel (position_next d) then hop_event fuel d
     else if p_button (position_current d) \<noteq> p_button (position_next d) then highlight_event d
     else if sync_wait d then ret (True, WAIT) d
     else if vts_changed d then vts_event d
     else if cell_changed d then cell_change_event d
     else if spu_clut_changed d then clut_event d
     else if p_spu_channel (position_current d) \<noteq> p_spu_channel (position_next d) then spu_event d
     else if p_audio_channel (position_current d) \<noteq> p_audio_channel (position_next d) then audio_event d
     else if p_still (position_current d) \<noteq> 0 then ret (True, STILL_FRAME (p_still (position_current d))) d
     else if vobu_blockN (vobu d) \<ge> vobu_length (vobu d) then
       (if vobu_next (vobu d) = SRI_END_OF_CELL then end_of_cell fuel d else next_vobu_event fuel d)
     else block_event d)"

definition nav_start :: "nat \<Rightarrow> (dvdnav, bool) prog" where
  "nav_start fuel =
     bnd (rd started) (\<lambda>s.
     if s then ret True
     else
       bnd (in_vm (vm_start fuel)) (\<lambda>ok.
       if \<not> ok then fail_with ''Encrypted or faulty DVD'' False
       else sq (upd (\<lambda>d. d\<lparr>started := True\<rparr>)) (ret True)))"

definition dvdnav_get_next_cache_block :: "nat \<Rightarrow> (dvdnav, bool \<times> event option) prog" where
  "dvdnav_get_next_cache_block fuel =
     bnd (nav_start fuel) (\<lambda>ok.
     if \<not> ok then ret (False, None)
     else
       bnd (rd (\<lambda>d. stopped (nav_vm d))) (\<lambda>stop.
       if stop then
         sq (in_vm vm_stop) (sq (upd (\<lambda>d. d\<lparr>started := False\<rparr>)) (ret (True, Some STOP)))
       else
         bnd (in_vm vm_position_get) (\<lambda>pos.
         sq (upd (\<lambda>d. d\<lparr>position_next := pos\<rparr>))
           (bnd (next_event fuel) (\<lambda>(status, event). ret (status, Some event))))))"

end
