(* ===== verification/Dvdnav_Search.thy ===== *)
theory Dvdnav_Search
  imports Dvdnav_Menu Dvdnav_Block
begin

text \<open>
  The calls of \<^verbatim>\<open>lib/libdvd/libdvdnav/src/navigation.c\<close>, \<^verbatim>\<open>settings.c\<close>, the queries of
  \<^verbatim>\<open>dvdnav.c\<close> and the first half of \<^verbatim>\<open>searching.c\<close>: jumping to titles, parts, programs, menus,
  sectors and times, and reading the position.

  A call that stores its result through a pointer answers \<open>Some\<close> of it when its status is
  \<^verbatim>\<open>DVDNAV_STATUS_OK\<close> and \<open>None\<close> otherwise.
\<close>

section \<open>Flags and registers\<close>

definition dvdnav_still_skip :: "(dvdnav, bool) prog" where
  "dvdnav_still_skip =
     sq (upd (\<lambda>d. d\<lparr>position_current := (position_current d)\<lparr>p_still := 0\<rparr>, skip_still := True,
       sync_wait := False, sync_wait_skip := True\<rparr>)) (ret True)"

definition dvdnav_wait_skip :: "(dvdnav, bool) prog" where
  "dvdnav_wait_skip = sq (upd (\<lambda>d. d\<lparr>sync_wait := False, sync_wait_skip := True\<rparr>)) (ret True)"

definition dvdnav_stop :: "(dvdnav, bool) prog" where
  "dvdnav_stop = sq (in_vm (upd (\<lambda>v. v\<lparr>stopped := True\<rparr>))) (ret True)"

definition dvdnav_get_region_mask :: "(dvdnav, int) prog" where
  "dvdnav_get_region_mask = in_vm (bnd (get_sprm 20) (\<lambda>r. ret (uint r)))"

definition dvdnav_set_region_mask :: "int \<Rightarrow> (dvdnav, bool) prog" where
  "dvdnav_set_region_mask region = sq (in_vm (put_sprm 20 (word_of_int region AND 0xff))) (ret True)"

definition dvdnav_set_readahead_flag :: "int \<Rightarrow> (dvdnav, bool) prog" where
  "dvdnav_set_readahead_flag use = sq (upd (\<lambda>d. d\<lparr>use_read_ahead := use\<rparr>)) (ret True)"

definition dvdnav_get_readahead_flag :: "(dvdnav, int) prog" where
  "dvdnav_get_readahead_flag = rd use_read_ahead"

text \<open>A language code is its first two bytes; \<^verbatim>\<open>char\<close> is signed.\<close>

definition set_language_register :: "u8 \<Rightarrow> u8 \<Rightarrow> int \<Rightarrow> (dvdnav, bool) prog" where
  "set_language_register c0 c1 reg =
     (if c0 = 0 \<or> c1 = 0 then fail_with ''Passed illegal language code.'' False
      else sq (in_vm (put_sprm reg (push_bit 8 (scast c0) OR scast c1))) (ret True))"

definition dvdnav_menu_language_select :: "u8 \<Rightarrow> u8 \<Rightarrow> (dvdnav, bool) prog" where
  "dvdnav_menu_language_select c0 c1 = set_language_register c0 c1 0"

definition dvdnav_audio_language_select :: "u8 \<Rightarrow> u8 \<Rightarrow> (dvdnav, bool) prog" where
  "dvdnav_audio_language_select c0 c1 = set_language_register c0 c1 16"

definition dvdnav_spu_language_select :: "u8 \<Rightarrow> u8 \<Rightarrow> (dvdnav, bool) prog" where
  "dvdnav_spu_language_select c0 c1 = set_language_register c0 c1 18"

definition dvdnav_set_PGC_positioning_flag :: "int \<Rightarrow> (dvdnav, bool) prog" where
  "dvdnav_set_PGC_positioning_flag pgc = sq (upd (\<lambda>d. d\<lparr>pgc_based := pgc\<rparr>)) (ret True)"

definition dvdnav_get_PGC_positioning_flag :: "(dvdnav, int) prog" where
  "dvdnav_get_PGC_positioning_flag = rd pgc_based"

section \<open>Titles and parts\<close>

definition dvdnav_get_number_of_titles :: "(dvdnav, int option) prog" where
  "dvdnav_get_number_of_titles =
     bnd (rd (\<lambda>d. vmgi (nav_vm d))) (\<lambda>h.
     if h = None then fail_with ''Bad VM state.'' None
     else bnd (in_vm the_tt_srpt) (\<lambda>ts. ret (Some (int (length ts)))))"

definition dvdnav_get_number_of_parts :: "int \<Rightarrow> (dvdnav, int option) prog" where
  "dvdnav_get_number_of_parts title =
     bnd (rd (\<lambda>d. vmgi (nav_vm d))) (\<lambda>h.
     if h = None then fail_with ''Bad VM state.'' None
     else
       bnd (in_vm the_tt_srpt) (\<lambda>ts.
       if title < 1 \<or> title > int (length ts) then fail_with ''Passed a title number out of range.'' None
       else bnd (lift_r (arr_get ts (title - 1))) (\<lambda>t. ret (Some (uint (title_nr_of_ptts t))))))"

text \<open>The tests the two position queries begin with: the message, if one fails.\<close>

definition title_error :: "dvdnav \<Rightarrow> string option" where
  "title_error d =
     (if vtsi (nav_vm d) = None \<or> vmgi (nav_vm d) = None then Some ''Bad VM state.''
      else if \<not> started d then Some ''Virtual DVD machine not started.''
      else if cur_pgc (state (nav_vm d)) = None then Some ''No current PGC.'' else None)"

text \<open>The current title and part, a menu having the title 0; \<open>in_title\<close> asks for a title's numbers.\<close>

definition current_position :: "(int option \<Rightarrow> (dvdnav, 'a option) prog) \<Rightarrow> (dvdnav, 'a option) prog \<Rightarrow> (dvdnav, 'a option) prog" where
  "current_position in_a_menu in_title =
     bnd (rd title_error) (\<lambda>e.
     case e of Some msg \<Rightarrow> fail_with msg None
     | None \<Rightarrow>
         bnd (in_vm (get_st domain)) (\<lambda>dm.
         bnd (if dm = VTSM_DOMAIN \<or> dm = VMGM_DOMAIN then bnd (in_vm vm_get_current_menu) (\<lambda>m. ret (Some m))
              else ret None) (\<lambda>m.
         case m of
           Some menu \<Rightarrow>
             (case menu of
                None \<Rightarrow> ret None
              | Some n \<Rightarrow>
                  if n > -1 then in_a_menu menu
                  else fail_with ''Not in a title or menu.'' None)
         | None \<Rightarrow>
             if dm = VTS_DOMAIN then in_title else fail_with ''Not in a title or menu.'' None)))"

definition dvdnav_current_title_info :: "(dvdnav, (int \<times> int) option) prog" where
  "dvdnav_current_title_info =
     current_position (\<lambda>menu. ret (map_option (Pair 0) menu)) (in_vm vm_get_current_title_part)"

definition dvdnav_current_title_program :: "(dvdnav, (int \<times> int \<times> int) option) prog" where
  "dvdnav_current_title_program =
     bnd (rd (\<lambda>d. (pgcN (state (nav_vm d)), pgN (state (nav_vm d))))) (\<lambda>nums.
     current_position (\<lambda>_. ret (Some (0, nums)))
       (bnd (in_vm vm_get_current_title_part) (\<lambda>r. ret (map_option (\<lambda>(title, _). (title, nums)) r))))"

text \<open>The machine is started on demand, and a failure to start it is not reported.\<close>

definition start_on_demand :: "nat \<Rightarrow> (dvdnav, unit) prog" where
  "start_on_demand fuel =
     bnd (rd started) (\<lambda>s.
     when_p (\<not> s) (bnd (in_vm (vm_start fuel)) (\<lambda>_. upd (\<lambda>d. d\<lparr>started := True\<rparr>))))"

definition hop :: "int \<Rightarrow> (dvdnav, unit) prog" where
  "hop n = in_vm (upd (\<lambda>v. v\<lparr>hop_channel := hop_channel v + n\<rparr>))"

text \<open>The common part of \<^verbatim>\<open>dvdnav_program_play\<close> and \<^verbatim>\<open>dvdnav_part_play\<close>, the jump an argument.\<close>

definition play_in_title ::
  "nat \<Rightarrow> int \<Rightarrow> (title_info \<Rightarrow> string option) \<Rightarrow> (vm, bool) prog \<Rightarrow> (dvdnav, bool) prog" where
  "play_in_title fuel title refused jump =
     bnd (rd (\<lambda>d. vmgi (nav_vm d))) (\<lambda>h.
     if h = None then fail_with ''Bad VM state.'' False
     else
       sq (start_on_demand fuel)
         (bnd (in_vm (get_st cur_pgc)) (\<lambda>g.
          if g = None then fail_with ''No current PGC.'' False
          else
            bnd (in_vm the_tt_srpt) (\<lambda>ts.
            if title < 1 \<or> title > int (length ts) then fail_with ''Title out of range.'' False
            else
              bnd (lift_r (arr_get ts (title - 1))) (\<lambda>t.
              case refused t of
                Some msg \<Rightarrow> fail_with msg False
              | None \<Rightarrow>
                  bnd (in_vm jump) (\<lambda>ok. sq (when_p ok (hop 1)) (ret ok)))))))"

definition dvdnav_program_play :: "nat \<Rightarrow> int \<Rightarrow> int \<Rightarrow> int \<Rightarrow> (dvdnav, bool) prog" where
  "dvdnav_program_play fuel title pgcn pgn =
     play_in_title fuel title (\<lambda>_. None) (vm_jump_title_program fuel title pgcn pgn)"

definition dvdnav_part_play :: "nat \<Rightarrow> int \<Rightarrow> int \<Rightarrow> (dvdnav, bool) prog" where
  "dvdnav_part_play fuel title part =
     play_in_title fuel title
       (\<lambda>t. if part < 1 \<or> part > uint (title_nr_of_ptts t) then Some ''Part out of range.'' else None)
       (vm_jump_title_part fuel title part)"

definition dvdnav_title_play :: "nat \<Rightarrow> int \<Rightarrow> (dvdnav, bool) prog" where
  "dvdnav_title_play fuel title = dvdnav_part_play fuel title 1"

definition dvdnav_part_play_auto_stop :: "nat \<Rightarrow> int \<Rightarrow> int \<Rightarrow> int \<Rightarrow> (dvdnav, bool) prog" where
  "dvdnav_part_play_auto_stop fuel title part parts =
     bnd (dvdnav_part_play fuel title part) (\<lambda>ok.
     sq (when_p ok (printerr ''Not implemented yet.'')) (ret False))"

definition dvdnav_time_play :: "int \<Rightarrow> int \<Rightarrow> (dvdnav, bool) prog" where
  "dvdnav_time_play title time = fail_with ''Not implemented yet.'' False"

definition dvdnav_go_up :: "nat \<Rightarrow> (dvdnav, bool) prog" where
  "dvdnav_go_up fuel = in_vm (vm_jump_up fuel)"

section \<open>Queries of a started machine\<close>

text \<open>The answer \<open>-1\<close> when the machine is not started, and in some queries without a chain.\<close>

definition when_started :: "(vm, int) prog \<Rightarrow> (dvdnav, int) prog" where
  "when_started m =
     bnd (rd started) (\<lambda>s. if \<not> s then fail_with ''Virtual DVD machine not started.'' (-1) else in_vm m)"

definition when_playing :: "(vm, int) prog \<Rightarrow> (dvdnav, int) prog" where
  "when_playing m =
     bnd (rd started) (\<lambda>s.
     if \<not> s then fail_with ''Virtual DVD machine not started.'' (-1)
     else
       bnd (in_vm (get_st cur_pgc)) (\<lambda>g.
       if g = None then fail_with ''No current PGC.'' (-1) else in_vm m))"

definition dvdnav_get_audio_logical_stream :: "int \<Rightarrow> (dvdnav, int) prog" where
  "dvdnav_get_audio_logical_stream n = when_playing (vm_get_audio_stream n)"

definition dvdnav_get_spu_logical_stream :: "int \<Rightarrow> (dvdnav, int) prog" where
  "dvdnav_get_spu_logical_stream n = when_playing (vm_get_subp_stream n 0)"

definition dvdnav_get_active_audio_stream :: "(dvdnav, int) prog" where
  "dvdnav_get_active_audio_stream = when_playing vm_get_audio_active_stream"

definition dvdnav_get_active_spu_stream :: "(dvdnav, int) prog" where
  "dvdnav_get_active_spu_stream = when_playing (vm_get_subp_active_stream 0)"

definition dvdnav_is_domain :: "domain \<Rightarrow> (dvdnav, int) prog" where
  "dvdnav_is_domain dm = when_started (bnd (get_st domain) (\<lambda>x. ret (of_bool (x = dm))))"

definition dvdnav_is_domain_fp :: "(dvdnav, int) prog" where
  "dvdnav_is_domain_fp = dvdnav_is_domain FP_DOMAIN"

definition dvdnav_is_domain_vmgm :: "(dvdnav, int) prog" where
  "dvdnav_is_domain_vmgm = dvdnav_is_domain VMGM_DOMAIN"

definition dvdnav_is_domain_vtsm :: "(dvdnav, int) prog" where
  "dvdnav_is_domain_vtsm = dvdnav_is_domain VTSM_DOMAIN"

definition dvdnav_is_domain_vts :: "(dvdnav, int) prog" where
  "dvdnav_is_domain_vts = dvdnav_is_domain VTS_DOMAIN"

definition dvdnav_get_video_aspect :: "(dvdnav, u8) prog" where
  "dvdnav_get_video_aspect = bnd (when_started vm_get_video_aspect) (\<lambda>r. ret (word_of_int r))"

definition dvdnav_get_video_scale_permission :: "(dvdnav, u8) prog" where
  "dvdnav_get_video_scale_permission =
     bnd (when_started vm_get_video_scale_permission) (\<lambda>r. ret (word_of_int r))"

definition dvdnav_get_video_resolution :: "(dvdnav, (int \<times> int) option) prog" where
  "dvdnav_get_video_resolution =
     bnd (rd started) (\<lambda>s.
     if \<not> s then fail_with ''Virtual DVD machine not started.'' None
     else bnd (in_vm vm_get_video_res) (\<lambda>r. ret (Some r)))"

definition dvdnav_angle_change :: "int \<Rightarrow> (dvdnav, bool) prog" where
  "dvdnav_angle_change angle =
     bnd (in_vm vm_get_angle_info) (\<lambda>(_, num).
     if 0 < angle \<and> angle \<le> num then sq (in_vm (put_sprm AGL_REG (word_of_int angle))) (ret True)
     else fail_with ''Passed an invalid angle number.'' False)"

definition dvdnav_get_angle_info :: "(dvdnav, int \<times> int) prog" where
  "dvdnav_get_angle_info = in_vm vm_get_angle_info"

definition dvdnav_get_next_still_flag :: "(dvdnav, u32) prog" where
  "dvdnav_get_next_still_flag = rd (\<lambda>d. word_of_int (p_still (position_next d)))"

text \<open>The union of two sets of prohibitions, as an OR of the 32 bits.\<close>

definition or_uops :: "user_ops \<Rightarrow> user_ops \<Rightarrow> user_ops" where
  "or_uops a b =
     \<lparr>uop_zero = uop_zero a OR uop_zero b,
      video_pres_mode_change = video_pres_mode_change a OR video_pres_mode_change b,
      karaoke_audio_pres_mode_change = karaoke_audio_pres_mode_change a OR karaoke_audio_pres_mode_change b,
      angle_change = angle_change a OR angle_change b,
      subpic_stream_change = subpic_stream_change a OR subpic_stream_change b,
      audio_stream_change = audio_stream_change a OR audio_stream_change b,
      pause_on = pause_on a OR pause_on b, still_off = still_off a OR still_off b,
      button_select_or_activate = button_select_or_activate a OR button_select_or_activate b,
      uop_resume = uop_resume a OR uop_resume b,
      chapter_menu_call = chapter_menu_call a OR chapter_menu_call b,
      angle_menu_call = angle_menu_call a OR angle_menu_call b,
      audio_menu_call = audio_menu_call a OR audio_menu_call b,
      subpic_menu_call = subpic_menu_call a OR subpic_menu_call b,
      root_menu_call = root_menu_call a OR root_menu_call b,
      title_menu_call = title_menu_call a OR title_menu_call b,
      backward_scan = backward_scan a OR backward_scan b, forward_scan = forward_scan a OR forward_scan b,
      next_pg_search = next_pg_search a OR next_pg_search b,
      prev_or_top_pg_search = prev_or_top_pg_search a OR prev_or_top_pg_search b,
      time_or_chapter_search = time_or_chapter_search a OR time_or_chapter_search b,
      go_up = go_up a OR go_up b, uop_stop = uop_stop a OR uop_stop b,
      title_play = title_play a OR title_play b,
      chapter_search_or_play = chapter_search_or_play a OR chapter_search_or_play b,
      title_or_time_play = title_or_time_play a OR title_or_time_play b\<rparr>"

definition uops_none :: user_ops where
  "uops_none = uop_at [] 0"

definition dvdnav_get_restrictions :: "(dvdnav, user_ops) prog" where
  "dvdnav_get_restrictions =
     bnd (rd started) (\<lambda>s.
     if \<not> s then fail_with ''Virtual DVD machine not started.'' uops_none
     else
       bnd (rd (\<lambda>d. vobu_uop_ctl (pci_pci_gi (nav_pci d)))) (\<lambda>ops.
       bnd (in_vm (get_st cur_pgc)) (\<lambda>g.
       if g = None then ret ops
       else bnd (in_vm the_pgc) (\<lambda>c. ret (or_uops ops (prohibited_ops c))))))"

text \<open>
  \<^verbatim>\<open>dvdnav_get_button_info\<close>: the transparency and colour numbers of the two colour words of the
  current button.
\<close>

definition nibbles :: "u32 \<Rightarrow> int \<Rightarrow> int list" where
  "nibbles w from = map (\<lambda>k. uint (drop_bit (nat from + 4 * k) w AND 0xf)) [0..<4]"

definition dvdnav_get_button_info :: "(dvdnav, int list list \<times> int list list) prog" where
  "dvdnav_get_button_info =
     bnd dvdnav_get_current_highlight (\<lambda>button.
     bnd (rd nav_pci) (\<lambda>p.
     bnd (the_button p button) (\<lambda>b.
     bnd (lift_r (arr_get (btn_coli (pci_hli p)) (uint (btn_coln b) - 1))) (\<lambda>row.
     bnd (lift_r (arr_get row 0)) (\<lambda>w0.
     bnd (lift_r (arr_get row 1)) (\<lambda>w1.
     ret ([nibbles w0 0, nibbles w1 0], [nibbles w0 16, nibbles w1 16])))))))"

end
