(* ===== verification/Dvdnav_Seek.thy ===== *)
theory Dvdnav_Seek
  imports Dvdnav_Search
begin

text \<open>
  Seeking, from \<^verbatim>\<open>lib/libdvd/libdvdnav/src/searching.c\<close>: by time, by sector, by part and by
  program, the calls of menus, the position, and saving and restoring the state.  The search by
  the time map of a title is in \<open>Dvdnav_Time\<close>.
\<close>

section \<open>The VOBU address map\<close>

text \<open>
  The loop of \<^verbatim>\<open>dvdnav_scan_admap\<close>: the last two addresses read, the second one unset before the
  first read.
\<close>

fun admap_loop :: "u32 list \<Rightarrow> u32 \<Rightarrow> u32 \<Rightarrow> u32 option \<Rightarrow> u32 \<times> u32 option" where
  "admap_loop [] seekto start nxt = (start, nxt)"
| "admap_loop (a # as) seekto start nxt =
     (if start \<le> seekto \<and> a > seekto then (start, Some a) else admap_loop as seekto a (Some a))"

text \<open>The map of a domain: \<open>None\<close> when the table was not read.\<close>

definition domain_admap :: "domain \<Rightarrow> (vm, u32 list option) prog" where
  "domain_admap dm =
     (case dm of
        FP_DOMAIN \<Rightarrow> bnd (rd vmgi) (\<lambda>h. bnd (deref NullDeref h) (\<lambda>i. ret (menu_vobu_admap i)))
      | VMGM_DOMAIN \<Rightarrow> bnd (rd vmgi) (\<lambda>h. bnd (deref NullDeref h) (\<lambda>i. ret (menu_vobu_admap i)))
      | VTSM_DOMAIN \<Rightarrow> bnd (rd vtsi) (\<lambda>h. bnd (deref NullDeref h) (\<lambda>i. ret (menu_vobu_admap i)))
      | VTS_DOMAIN \<Rightarrow> bnd (rd vtsi) (\<lambda>h. bnd (deref NullDeref h) (\<lambda>i. ret (vts_vobu_admap i)))
      | NO_DOMAIN \<Rightarrow> ret None)"

definition dvdnav_scan_admap :: "domain \<Rightarrow> u32 \<Rightarrow> bool \<Rightarrow> (vm, u32 option) prog" where
  "dvdnav_scan_admap dm seekto nxt =
     bnd (domain_admap dm) (\<lambda>m.
     case m of
       None \<Rightarrow> ret None
     | Some as \<Rightarrow>
         (case admap_loop as seekto (word_of_int SRI_END_OF_CELL) None of
            (start, nv) \<Rightarrow>
              if nxt then bnd (deref UnsetVar nv) (\<lambda>a. ret (Some a)) else ret (Some start)))"

text \<open>The cells a search ranges over: all of the chain, or those of the current program.\<close>

definition cell_range :: "bool \<Rightarrow> (vm, int \<times> int) prog" where
  "cell_range whole_pgc =
     bnd the_pgc (\<lambda>g.
     if whole_pgc then ret (1, uint (nr_of_cells g))
     else
       bnd (get_st pgN) (\<lambda>pg.
       bnd (lift_r (arr_get (program_map g) (pg - 1))) (\<lambda>first.
       if pg < uint (nr_of_programs g)
       then bnd (lift_r (arr_get (program_map g) pg)) (\<lambda>n. ret (uint first, uint n - 1))
       else ret (uint first, uint (nr_of_cells g)))))"

definition u32_of :: "int \<Rightarrow> int" where
  "u32_of x = uint (word_of_int x :: u32)"

text \<open>The jump all seeks end with.\<close>

definition seek_to :: "nat \<Rightarrow> domain \<Rightarrow> (int \<times> u32) option \<Rightarrow> (dvdnav, bool) prog" where
  "seek_to fuel dm found =
     (case found of
        None \<Rightarrow> fail_with ''Error when seeking.'' False
      | Some (cell_nr, target) \<Rightarrow>
          bnd (in_vm (dvdnav_scan_admap dm target False)) (\<lambda>r.
          case r of
            None \<Rightarrow> fail_with ''Error when seeking.'' False
          | Some addr \<Rightarrow>
              bnd (in_vm (the_cell (cell_nr - 1))) (\<lambda>c.
              bnd (in_vm (vm_jump_cell_block fuel cell_nr (sint (addr - first_sector c)))) (\<lambda>ok.
              if ok then sq (hop HOP_SEEK) (ret True) else fail_with ''Error when seeking.'' False))))"

section \<open>Seeking by time\<close>

text \<open>
  The sector the time map gives; \<^verbatim>\<open>dvdnav_time_search\<close> computes it and then starts over without it.
\<close>

definition tmap_target :: "vts_tmap \<Rightarrow> u64 \<Rightarrow> int \<Rightarrow> (vm, u64) prog" where
  "tmap_target tm time first =
     (let n = int (length (map_ent tm));
          e0 = sint (ucast (time div ucast (tmu tm) div 90000 - 1) :: u32);
          entry = (if e0 > n then n - 1 else e0);
          tunit = (ucast (tmu tm) * 90000 :: u64)
      in bnd (if entry > 0
              then bnd (lift_r (arr_get (map_ent tm) entry)) (\<lambda>a. ret (ucast (a AND 0x7fffffff)))
              else bnd (the_cell (first - 1)) (\<lambda>c. ret (ucast (first_sector c)))) (\<lambda>target.
         if entry < n - 1 then
           bnd (lift_r (arr_get (map_ent tm) (entry + 1))) (\<lambda>target2.
           if target2 AND 0x80000000 = 0
           then ret (target + ucast (ucast ((ucast target2 - target) * (time - word_of_int (entry + 1) * tunit) div tunit) :: u32))
           else ret target)
         else ret target))"

definition time_map_target :: "u64 \<Rightarrow> int \<Rightarrow> (vm, unit) prog" where
  "time_map_target time first =
     bnd (rd vtsi) (\<lambda>h. bnd (deref NullDeref h) (\<lambda>i.
     case vts_tmapt i of
       None \<Rightarrow> ret ()
     | Some ts \<Rightarrow>
         bnd (get_st pgcN) (\<lambda>n.
         if int (length ts) < n then ret ()
         else
           bnd (lift_r (arr_get ts (n - 1))) (\<lambda>tm.
           if tmu tm = 0 then ret () else bnd (tmap_target tm time first) (\<lambda>_. ret ())))))"

text \<open>The cell a time falls into, and the sector by interpolation in the cell.\<close>

fun time_loop :: "int list \<Rightarrow> u64 \<Rightarrow> (vm, (int \<times> u32) option) prog" where
  "time_loop [] time = ret None"
| "time_loop (cell_nr # cells) time =
     bnd (the_cell (cell_nr - 1)) (\<lambda>c.
     if other_angle c then time_loop cells time
     else
       bnd (lift_r (dvdnav_convert_time (cell_playback_time c))) (\<lambda>len.
       let len = (word_of_int len :: u64)
       in if time \<ge> len then time_loop cells (time - len)
          else ret (Some (cell_nr, ucast (time * ucast (last_sector c - first_sector c + 1) div len +
                 ucast (first_sector c))))))"

definition dvdnav_time_search :: "nat \<Rightarrow> u64 \<Rightarrow> (dvdnav, bool) prog" where
  "dvdnav_time_search fuel time =
     bnd (rd (\<lambda>d. p_still (position_current d))) (\<lambda>still.
     if still \<noteq> 0 then fail_with ''Cannot seek in a still frame.'' False
     else
       bnd (in_vm (get_st cur_pgc)) (\<lambda>q.
       if q = None then fail_with ''No current PGC.'' False
       else
         bnd (in_vm the_pgc) (\<lambda>g.
         bnd (rd (\<lambda>d. title_or_time_play (vobu_uop_ctl (pci_pci_gi (nav_pci d))))) (\<lambda>forbidden.
         if title_or_time_play (prohibited_ops g) = 1 \<or> forbidden = 1 then fail_with ''operation forbidden.'' False
         else
           sq (upd (\<lambda>d. d\<lparr>cur_cell_time := 0\<rparr>))
             (bnd (rd (\<lambda>d. pgc_based d \<noteq> 0)) (\<lambda>whole.
              bnd (in_vm (cell_range whole)) (\<lambda>(first, last_nr).
              sq (when_p whole (in_vm (time_map_target time first)))
                (bnd (in_vm (time_loop [first..u32_of last_nr] time)) (\<lambda>found.
                 bnd (in_vm (get_st domain)) (\<lambda>dm. seek_to fuel dm found))))))))))"

section \<open>The position\<close>

text \<open>The offset of the current sector and the length of the cells, in sectors.\<close>

fun position_loop :: "int list \<Rightarrow> u32 \<Rightarrow> u32 \<Rightarrow> u32 \<Rightarrow> (vm, u32 \<times> u32) prog" where
  "position_loop [] cur pos len = ret (pos, len)"
| "position_loop (cell_nr # cells) cur pos len =
     bnd (the_cell (cell_nr - 1)) (\<lambda>c.
     bnd (get_st cellN) (\<lambda>n.
     position_loop cells cur (if cell_nr = n then len + cur - first_sector c else pos)
       (len + (last_sector c - first_sector c + 1))))"

definition cur_sector :: "(dvdnav, u32) prog" where
  "cur_sector =
     bnd (rd vobu) (\<lambda>u. bnd (int32 (vobu_start u + vobu_blockN u)) (\<lambda>s. ret (word_of_int s)))"

definition dvdnav_get_position :: "(dvdnav, (u32 \<times> u32) option) prog" where
  "dvdnav_get_position =
     bnd (rd started) (\<lambda>s.
     if \<not> s then fail_with ''Virtual DVD machine not started.'' None
     else
       bnd (rd (\<lambda>d. cur_pgc (state (nav_vm d)) = None \<or> stopped (nav_vm d))) (\<lambda>none.
       if none then fail_with ''No current PGC.'' None
       else
         bnd (rd (\<lambda>d. p_hop_channel (position_current d) \<noteq> hop_channel (nav_vm d) \<or>
             p_domain (position_current d) \<noteq> domain (state (nav_vm d)) \<or>
             p_vts (position_current d) \<noteq> vtsN (state (nav_vm d)) \<or>
             p_cell_restart (position_current d) \<noteq> cell_restart (state (nav_vm d)))) (\<lambda>moved.
         if moved then fail_with ''New position not yet determined.'' None
         else
           bnd cur_sector (\<lambda>cur.
           bnd (rd (\<lambda>d. pgc_based d \<noteq> 0)) (\<lambda>whole.
           bnd (in_vm (cell_range whole)) (\<lambda>(first, last_nr).
           bnd (in_vm (position_loop [first..last_nr] cur (-1) 0)) (\<lambda>(pos, len).
           sq (assert_p (pos \<noteq> -1)) (ret (Some (pos, len))))))))))"

definition dvdnav_get_position_in_title :: "(dvdnav, (u32 \<times> u32) option) prog" where
  "dvdnav_get_position_in_title =
     bnd (in_vm (get_st cur_pgc)) (\<lambda>q.
     if q = None then fail_with ''No current PGC.'' None
     else
       bnd cur_sector (\<lambda>cur.
       bnd (in_vm the_pgc) (\<lambda>g.
       bnd (lift_r (arr_get (program_map g) 0)) (\<lambda>first.
       bnd (in_vm (the_cell (uint first - 1))) (\<lambda>fc.
       bnd (in_vm (the_cell (uint (nr_of_cells g) - 1))) (\<lambda>lc.
       ret (Some (cur - first_sector fc, last_sector lc - first_sector fc))))))))"

section \<open>Seeking by sector\<close>

datatype origin = SEEK_SET | SEEK_CUR | SEEK_END | SEEK_OTHER

text \<open>The target of a seek, from the position and the length, or the message of the error.\<close>

definition seek_target :: "origin \<Rightarrow> u64 \<Rightarrow> u32 \<Rightarrow> u32 \<Rightarrow> string + u32" where
  "seek_target org off pos len =
     (case org of
        SEEK_SET \<Rightarrow> if off \<ge> ucast len then Inl ''Request to seek behind end.'' else Inr (ucast off)
      | SEEK_CUR \<Rightarrow> if ucast pos + off \<ge> ucast len then Inl ''Request to seek behind end.'' else Inr (pos + ucast off)
      | SEEK_END \<Rightarrow> if ucast len < off then Inl ''Request to seek before start.'' else Inr (ucast (ucast len - off))
      | SEEK_OTHER \<Rightarrow> Inl ''Illegal seek mode.'')"

text \<open>
  A forward seek within the current cell must not go back to the VOBU it is in: the cell and the
  sector to seek to, when there is one.
\<close>

definition forward_target :: "domain \<Rightarrow> u32 \<Rightarrow> int \<Rightarrow> int \<Rightarrow> cell_playback \<Rightarrow> u32 \<Rightarrow> (vm, (int \<times> u32) option) prog" where
  "forward_target dm cur last_nr cell_nr c target =
     bnd (dvdnav_scan_admap dm target False) (\<lambda>r.
     case r of
       None \<Rightarrow> ret None
     | Some addr \<Rightarrow>
         if addr \<le> cur then
           bnd (dvdnav_scan_admap dm target True) (\<lambda>r2.
           case r2 of
             None \<Rightarrow> ret None
           | Some addr2 \<Rightarrow>
               if addr2 > last_sector c then
                 (if cell_nr = last_nr then ret None
                  else bnd (the_cell cell_nr) (\<lambda>c2. ret (Some (cell_nr + 1, first_sector c2))))
               else ret (Some (cell_nr, addr2)))
         else ret (Some (cell_nr, target)))"

fun sector_loop :: "domain \<Rightarrow> bool \<Rightarrow> u32 \<Rightarrow> int \<Rightarrow> int \<Rightarrow> int list \<Rightarrow> u32 \<Rightarrow> (vm, (int \<times> u32) option) prog" where
  "sector_loop dm forward cur cur_cell last_nr [] target = ret None"
| "sector_loop dm forward cur cur_cell last_nr (cell_nr # cells) target =
     bnd (the_cell (cell_nr - 1)) (\<lambda>c.
     if other_angle c then sector_loop dm forward cur cur_cell last_nr cells target
     else
       let len = last_sector c - first_sector c + 1
       in if target \<ge> len then sector_loop dm forward cur cur_cell last_nr cells (target - len)
          else if forward \<and> cell_nr = cur_cell
          then forward_target dm cur last_nr cell_nr c (target + first_sector c)
          else ret (Some (cell_nr, target + first_sector c)))"

definition dvdnav_sector_search :: "nat \<Rightarrow> u64 \<Rightarrow> origin \<Rightarrow> (dvdnav, bool) prog" where
  "dvdnav_sector_search fuel off org =
     bnd (rd (\<lambda>d. p_still (position_current d))) (\<lambda>still.
     if still \<noteq> 0 then fail_with ''Cannot seek in a still frame.'' False
     else
       bnd dvdnav_get_position (\<lambda>r.
       case r of
         None \<Rightarrow> fail_with ''Cannot get current position'' False
       | Some (pos, len) \<Rightarrow>
           bnd (in_vm (get_st cur_pgc)) (\<lambda>q.
           if q = None then fail_with ''No current PGC.'' False
           else
             bnd cur_sector (\<lambda>cur.
             bnd (in_vm (get_st cellN)) (\<lambda>cur_cell.
             case seek_target org off pos len of
               Inl msg \<Rightarrow> fail_with msg False
             | Inr target \<Rightarrow>
                 sq (upd (\<lambda>d. d\<lparr>cur_cell_time := 0\<rparr>))
                   (bnd (rd (\<lambda>d. pgc_based d \<noteq> 0)) (\<lambda>whole.
                    bnd (in_vm (cell_range whole)) (\<lambda>(first, last_nr).
                    bnd (in_vm (get_st domain)) (\<lambda>dm.
                    bnd (in_vm (sector_loop dm (target > pos) cur (u32_of cur_cell) (u32_of last_nr)
                           [first..u32_of last_nr] target)) (\<lambda>found.
                    seek_to fuel dm found))))))))))"

section \<open>Parts, programs and menus\<close>

definition dvdnav_part_search :: "nat \<Rightarrow> int \<Rightarrow> (dvdnav, bool) prog" where
  "dvdnav_part_search fuel part =
     bnd dvdnav_current_title_info (\<lambda>r.
     case r of None \<Rightarrow> ret False | Some (title, _) \<Rightarrow> dvdnav_part_play fuel title part)"

text \<open>What every successful jump does to the state.\<close>

definition jumped :: "(dvdnav, unit) prog" where
  "jumped = sq (upd (\<lambda>d. d\<lparr>position_current := (position_current d)\<lparr>p_still := 0\<rparr>\<rparr>)) (hop 1)"

definition with_pgc :: "(dvdnav, bool) prog \<Rightarrow> (dvdnav, bool) prog" where
  "with_pgc m =
     bnd (in_vm (get_st cur_pgc)) (\<lambda>q. if q = None then fail_with ''No current PGC.'' False else m)"

definition dvdnav_prev_pg_search :: "nat \<Rightarrow> (dvdnav, bool) prog" where
  "dvdnav_prev_pg_search fuel =
     with_pgc
       (bnd (in_vm (vm_jump_prev_pg fuel)) (\<lambda>ok.
        if \<not> ok then fail_with ''Skip to previous chapter failed.'' False
        else sq (upd (\<lambda>d. d\<lparr>cur_cell_time := 0\<rparr>)) (sq jumped (ret True))))"

definition dvdnav_top_pg_search :: "nat \<Rightarrow> (dvdnav, bool) prog" where
  "dvdnav_top_pg_search fuel =
     with_pgc
       (bnd (in_vm (vm_jump_top_pg fuel)) (\<lambda>ok.
        if \<not> ok then fail_with ''Skip to top chapter failed.'' False
        else sq (upd (\<lambda>d. d\<lparr>cur_cell_time := 0\<rparr>)) (sq jumped (ret True))))"

text \<open>
  A call on a copy of the machine.  The clock, the random numbers and the identities of handles
  are the environment's and go on in the original.
\<close>

definition on_copy :: "vm \<Rightarrow> (vm, 'a) prog \<Rightarrow> (dvdnav, 'a \<times> vm) prog" where
  "on_copy t m = (\<lambda>d.
     case m (t\<lparr>vm_env := vm_env (nav_vm d), next_hid := next_hid (nav_vm d)\<rparr>) of
       Inl f \<Rightarrow> Inl f
     | Inr (a, t') \<Rightarrow>
         Inr ((a, t'), d\<lparr>nav_vm := (nav_vm d)\<lparr>vm_env := vm_env t', next_hid := next_hid t'\<rparr>\<rparr>))"

definition dvdnav_next_pg_search :: "nat \<Rightarrow> (dvdnav, bool) prog" where
  "dvdnav_next_pg_search fuel =
     with_pgc
       (bnd (in_vm vm_new_copy) (\<lambda>copy.
        bnd (on_copy copy (vm_jump_next_pg fuel)) (\<lambda>(ok, t).
        if ok \<and> \<not> stopped t then
          sq (upd (\<lambda>d. d\<lparr>cur_cell_time := 0\<rparr>)) (sq (in_vm (vm_merge t)) (sq jumped (ret True)))
        else
          bnd (in_vm vm_new_copy) (\<lambda>copy2.
          bnd (on_copy copy2 (vm_get_next_cell fuel)) (\<lambda>(_, t2).
          if stopped t2 then fail_with ''Skip to next chapter failed.'' False
          else
            sq (upd (\<lambda>d. d\<lparr>cur_cell_time := 0\<rparr>)) (sq (in_vm (vm_merge t2)) (sq jumped (ret True))))))))"

definition try_menu :: "nat \<Rightarrow> menu_id \<Rightarrow> vm \<Rightarrow> (dvdnav, bool) prog" where
  "try_menu fuel menu t =
     bnd (on_copy t (vm_jump_menu fuel (if menu = DVD_MENU_Escape then DVD_MENU_Root else menu))) (\<lambda>(ok, t2).
     if ok \<and> \<not> stopped t2 then sq (in_vm (vm_merge t2)) (sq jumped (ret True))
     else fail_with ''No such menu or menu not reachable.'' False)"

definition dvdnav_menu_call :: "nat \<Rightarrow> menu_id \<Rightarrow> (dvdnav, bool) prog" where
  "dvdnav_menu_call fuel menu =
     with_pgc
       (sq (upd (\<lambda>d. d\<lparr>cur_cell_time := 0\<rparr>))
         (bnd (in_vm vm_new_copy) (\<lambda>copy.
          bnd (in_vm (get_st domain)) (\<lambda>dm.
          if menu = DVD_MENU_Escape \<and> dm \<noteq> VTS_DOMAIN then
            bnd (on_copy copy (vm_jump_resume fuel)) (\<lambda>(ok, t).
            if ok \<and> \<not> stopped t then sq (in_vm (vm_merge t)) (sq jumped (ret True))
            else try_menu fuel menu t)
          else try_menu fuel menu copy))))"

section \<open>Saving and restoring\<close>

definition dvdnav_get_state :: "(dvdnav, dvd_state) prog" where
  "dvdnav_get_state = in_vm vm_get_state"

definition dvdnav_set_state :: "dvd_state \<Rightarrow> (dvdnav, bool) prog" where
  "dvdnav_set_state save =
     bnd (rd started) (\<lambda>s.
     if \<not> s then fail_with ''Virtual DVD machine not started.'' False
     else
       sq (upd (\<lambda>d. d\<lparr>nav_pci := pci_zero, nav_dsi := dsi_zero,
             last_cmd_nav_lbn := word_of_int SRI_END_OF_CELL,
             position_current := (position_current d)\<lparr>p_still := 0\<rparr>, skip_still := False,
             sync_wait := False, sync_wait_skip := False, spu_clut_changed := False\<rparr>))
         (bnd (in_vm (vm_set_state save)) (\<lambda>ok.
          if \<not> ok then fail_with ''Failed to set vm state.'' False else ret True)))"

end
