(* ===== verification/Dvdnav_Time.thy ===== *)
theory Dvdnav_Time
  imports Dvdnav_Seek
begin

text \<open>
  The search by the time map of a title, \<^verbatim>\<open>dvdnav_jump_to_sector_by_time\<close>, and the list of chapters,
  \<^verbatim>\<open>dvdnav_describe_title_chapters\<close>, of \<^verbatim>\<open>lib/libdvd/libdvdnav/src/searching.c\<close>.

  A helper that answers 0 for a failure yields \<open>None\<close>.  The member \<^verbatim>\<open>vobu_idx\<close> of a position is
  always written right before it is read, and is a local value here.
\<close>

section \<open>Positions\<close>

record pos_data =
  pd_time :: u64
  pd_sector :: u32
  pd_tmap_idx :: int

record cell_data =
  cd_idx :: int
  cd_bgn :: pos_data
  cd_end :: pos_data

record jump_args =
  ja_admap :: "u32 list"
  ja_tmap :: vts_tmap
  ja_interval :: int

definition pos_data_zero :: pos_data where
  "pos_data_zero = \<lparr>pd_time = 0, pd_sector = 0, pd_tmap_idx = 0\<rparr>"

definition TMAP_IDX_EDGE_BGN :: int where [simp]: "TMAP_IDX_EDGE_BGN = -1"
definition TMAP_IDX_EDGE_END :: int where [simp]: "TMAP_IDX_EDGE_END = -2"

text \<open>\<^verbatim>\<open>if (!result) return 0;\<close>\<close>

definition when_found :: "('s, 'a option) prog \<Rightarrow> ('a \<Rightarrow> ('s, 'b option) prog) \<Rightarrow> ('s, 'b option) prog" where
  "when_found m f = bnd m (\<lambda>r. case r of None \<Rightarrow> ret None | Some a \<Rightarrow> f a)"

section \<open>The maps\<close>

definition dvdnav_admap_get :: "(vm, u32 list option) prog" where
  "dvdnav_admap_get =
     bnd (get_st domain) (\<lambda>dm.
     bnd (domain_admap dm) (\<lambda>m.
     case m of None \<Rightarrow> ret None | Some as \<Rightarrow> if as = [] then ret None else ret (Some as)))"

text \<open>
  \<^verbatim>\<open>ifoRead_VTS_TMAPT\<close> on an open handle: \<open>reread\<close> says what another attempt finds in the title
  set's file.  The video manager has no such table and fails.
\<close>

definition title_tmapt :: "(ifo_handle \<Rightarrow> vts_tmap list option) \<Rightarrow> (vm, vts_tmap list option) prog" where
  "title_tmapt reread =
     bnd (rd vtsi) (\<lambda>h.
     case h of
       None \<Rightarrow> ret None
     | Some i \<Rightarrow>
         (case vts_tmapt i of
            Some ts \<Rightarrow> ret (Some ts)
          | None \<Rightarrow> sq (upd (\<lambda>v. v\<lparr>vtsi := Some (i\<lparr>vts_tmapt := reread i\<rparr>)\<rparr>)) (ret (reread i))))"

definition manager_tmapt :: "(vm, vts_tmap list option) prog" where
  "manager_tmapt = bnd (rd vmgi) (\<lambda>h. case h of None \<Rightarrow> ret None | Some i \<Rightarrow> ret (vts_tmapt i))"

definition tmap_of_domain :: "domain \<Rightarrow> int \<Rightarrow> vts_tmap list \<Rightarrow> vts_tmap option" where
  "tmap_of_domain dm n ts =
     (if dm = VTS_DOMAIN then if n \<ge> int (length ts) then None else Some (ts ! nat n)
      else if ts = [] then None else Some (hd ts))"

definition dvdnav_tmap_get :: "(ifo_handle \<Rightarrow> vts_tmap list option) \<Rightarrow> (vm, (vts_tmap \<times> int) option) prog" where
  "dvdnav_tmap_get reread =
     bnd (get_st domain) (\<lambda>dm.
     if dm = NO_DOMAIN then ret None
     else
       when_found (if dm = VTS_DOMAIN then title_tmapt reread else manager_tmapt) (\<lambda>ts.
       bnd (get_st pgcN) (\<lambda>n.
       if n - 1 < 0 then ret None
       else
         case tmap_of_domain dm (n - 1) ts of
           None \<Rightarrow> ret None
         | Some tm \<Rightarrow>
             if tmu tm = 0 then ret None
             else if map_ent tm = [] then ret None
             else ret (Some (tm, uint (tmu tm) * 1000)))))"

definition dvdnav_tmap_get_entry :: "vts_tmap \<Rightarrow> int \<Rightarrow> u32 option" where
  "dvdnav_tmap_get_entry tm idx =
     (if idx = TMAP_IDX_EDGE_BGN then Some 0
      else if idx < TMAP_IDX_EDGE_BGN \<or> idx \<ge> int (length (map_ent tm)) then None
      else Some (map_ent tm ! nat idx AND 0x7fffffff))"

section \<open>The binary searches\<close>

text \<open>The next index to look at: half of the last distance away, but inside the table.\<close>

definition half :: "int \<Rightarrow> int" where
  "half n = n div 2 + (if n mod 2 = 1 then 1 else 0)"

definition probe :: "int \<Rightarrow> int \<Rightarrow> int \<Rightarrow> int \<Rightarrow> int" where
  "probe len pos dist adj =
     (let i = pos + dist * adj in if i < 0 then 0 else if i \<ge> len then len - 1 else i)"

text \<open>
  The loop both searches share, \<open>get\<close> reading an element: it ends with an index, its sector and
  whether that is above the sector searched for.  A distance that no longer shrinks (only with
  length 0, which the callers exclude) would go on for ever.
\<close>

function bisect ::
  "(int \<Rightarrow> fault + u32 option) \<Rightarrow> int \<Rightarrow> u32 \<Rightarrow> int \<Rightarrow> int \<Rightarrow> int \<Rightarrow> fault + (int \<times> u32 \<times> bool) option" where
  "bisect get len tgt adj pos prv =
     (let cur = half prv; i = probe len pos cur adj
      in case get i of
           Inl f \<Rightarrow> Inl f
         | Inr None \<Rightarrow> Inr None
         | Inr (Some s) \<Rightarrow>
             if tgt = s then Inr (Some (i, s, False))
             else if cur = 1 then Inr (Some (i, s, tgt < s))
             else if nat cur < nat prv then bisect get len tgt (if tgt < s then -1 else 1) i cur
             else Inl OutOfFuel)"
  by pat_completeness auto
termination
  by (relation "measure (\<lambda>(get, len, tgt, adj, pos, prv). nat prv)") auto

declare bisect.simps [simp del]

definition admap_probe :: "u32 list \<Rightarrow> int \<Rightarrow> fault + u32 option" where
  "admap_probe as i = (case arr_get as i of Inl f \<Rightarrow> Inl f | Inr s \<Rightarrow> Inr (Some s))"

definition dvdnav_admap_search :: "u32 list \<Rightarrow> u32 \<Rightarrow> fault + u32 option" where
  "dvdnav_admap_search as tgt =
     (case bisect (admap_probe as) (int (length as)) tgt 1 0 (int (length as)) of
        Inl f \<Rightarrow> Inl f
      | Inr None \<Rightarrow> Inr None
      | Inr (Some (i, s, over)) \<Rightarrow>
          if over then (case arr_get as (i - 1) of Inl f \<Rightarrow> Inl f | Inr _ \<Rightarrow> Inr (Some (word_of_int (i - 1))))
          else Inr (Some (word_of_int i)))"

definition dvdnav_tmap_search :: "vts_tmap \<Rightarrow> u32 \<Rightarrow> fault + (int \<times> u32) option" where
  "dvdnav_tmap_search tm tgt =
     (let n = int (length (map_ent tm))
      in case bisect (\<lambda>i. Inr (dvdnav_tmap_get_entry tm i)) n tgt 1 0 n of
           Inl f \<Rightarrow> Inl f
         | Inr None \<Rightarrow> Inr None
         | Inr (Some (i, s, over)) \<Rightarrow>
             if \<not> over then Inr (Some (i, s))
             else if i = 0 then Inr (Some (TMAP_IDX_EDGE_BGN, 0))
             else (case dvdnav_tmap_get_entry tm (i - 1) of
                     None \<Rightarrow> Inr None | Some s' \<Rightarrow> Inr (Some (i - 1, s'))))"

section \<open>The cell\<close>

fun cell_find_loop :: "int list \<Rightarrow> u64 \<Rightarrow> cell_data \<Rightarrow> (vm, cell_data option) prog" where
  "cell_find_loop [] tgt cd = ret None"
| "cell_find_loop (n # ns) tgt cd =
     bnd (the_cell (n - 1)) (\<lambda>c.
     if other_angle c then cell_find_loop ns tgt cd
     else
       bnd (lift_r (dvdnav_convert_time (cell_playback_time c))) (\<lambda>t.
       let e = pd_time (cd_end cd) + word_of_int (t div 90);
           cd1 = cd\<lparr>cd_bgn := (cd_bgn cd)\<lparr>pd_sector := first_sector c\<rparr>,
                    cd_end := (cd_end cd)\<lparr>pd_sector := last_sector c, pd_time := e\<rparr>\<rparr>
       in if tgt \<ge> pd_time (cd_bgn cd1) \<and> tgt \<le> e then ret (Some (cd1\<lparr>cd_idx := n\<rparr>))
          else cell_find_loop ns tgt (cd1\<lparr>cd_bgn := (cd_bgn cd1)\<lparr>pd_time := e\<rparr>\<rparr>)))"

definition dvdnav_cell_find :: "bool \<Rightarrow> u64 \<Rightarrow> (vm, cell_data option) prog" where
  "dvdnav_cell_find whole tgt =
     bnd (get_st cur_pgc) (\<lambda>q.
     if q = None then ret None
     else
       bnd the_pgc (\<lambda>g.
       if nr_of_cells g = 0 then ret None
       else
         bnd (cell_range whole) (\<lambda>(first, last_nr).
         cell_find_loop [first..u32_of last_nr] tgt
           \<lparr>cd_idx = 0, cd_bgn = pos_data_zero, cd_end = pos_data_zero\<rparr>)))"

section \<open>Interpolation\<close>

text \<open>Unsigned division of C.\<close>

definition udiv :: "'w::len word \<Rightarrow> 'w word \<Rightarrow> ('s, 'w word) prog" where
  "udiv a b = (if b = 0 then err DivByZero else ret (a div b))"

definition dvdnav_admap_interpolate_vobu :: "u32 list \<Rightarrow> u32 \<Rightarrow> u32 \<Rightarrow> u32 \<Rightarrow> ('s, u32 option) prog" where
  "dvdnav_admap_interpolate_vobu as bgn fin fraction =
     when_found (lift_r (dvdnav_admap_search as bgn)) (\<lambda>b.
     when_found (lift_r (dvdnav_admap_search as fin)) (\<lambda>e.
     let adj = (fraction * (e - b) + 500) div 1000 + 1; i = b + adj
     in if uint i \<ge> int (length as) then ret None
        else bnd (lift_r (arr_get as (uint i))) (\<lambda>s. ret (Some s))))"

definition dvdnav_tmap_calc_time_for_tmap_entry ::
  "jump_args \<Rightarrow> pos_data \<Rightarrow> pos_data \<Rightarrow> pos_data \<Rightarrow> ('s, u64 option) prog" where
  "dvdnav_tmap_calc_time_for_tmap_entry args lo hi pos =
     (if pd_sector lo = pd_sector hi then ret None
      else
        when_found (lift_r (dvdnav_admap_search (ja_admap args) (pd_sector lo))) (\<lambda>l.
        when_found (lift_r (dvdnav_admap_search (ja_admap args) (pd_sector hi))) (\<lambda>h.
        when_found (lift_r (dvdnav_admap_search (ja_admap args) (pd_sector pos))) (\<lambda>p.
        bnd (udiv ((p - l) * 1000) (h - l)) (\<lambda>pct.
        if pct > 1000 then ret None
        else ret (Some (pd_time pos - ucast (word_of_int (ja_interval args) * pct div 1000 :: u32))))))))"

definition dvdnav_tmap_get_entries_for_sector ::
  "jump_args \<Rightarrow> cell_data \<Rightarrow> u32 \<Rightarrow> ('s, (pos_data \<times> pos_data) option) prog" where
  "dvdnav_tmap_get_entries_for_sector args cd tgt =
     when_found (lift_r (dvdnav_tmap_search (ja_tmap args) tgt)) (\<lambda>(i, s).
     let lo = pos_data_zero\<lparr>pd_tmap_idx := i,
                pd_sector := if i = TMAP_IDX_EDGE_BGN then pd_sector (cd_bgn cd) else s\<rparr>
     in if i = int (length (map_ent (ja_tmap args))) - 1
        then ret (Some (lo, pos_data_zero\<lparr>pd_tmap_idx := TMAP_IDX_EDGE_END, pd_sector := pd_sector (cd_end cd)\<rparr>))
        else
          case dvdnav_tmap_get_entry (ja_tmap args) (i + 1) of
            None \<Rightarrow> ret None
          | Some s' \<Rightarrow> ret (Some (lo, pos_data_zero\<lparr>pd_tmap_idx := i + 1, pd_sector := s'\<rparr>)))"

text \<open>The time map entries around the target, \<open>n\<close> entries behind those of the beginning of the cell.\<close>

definition jump_entries ::
  "vts_tmap \<Rightarrow> pos_data \<Rightarrow> pos_data \<Rightarrow> u32 \<Rightarrow> (u32 \<times> u32) option" where
  "jump_entries tm lo hi n =
     (if n = 0 then Some (pd_sector lo, pd_sector hi)
      else
        let i = sint (word_of_int (pd_tmap_idx lo) + n)
        in case dvdnav_tmap_get_entry tm i of
             None \<Rightarrow> None
           | Some a \<Rightarrow>
               (case dvdnav_tmap_get_entry tm (i + 1) of None \<Rightarrow> None | Some b \<Rightarrow> Some (a, b)))"

definition dvdnav_find_vobu_by_tmap ::
  "(ifo_handle \<Rightarrow> vts_tmap list option) \<Rightarrow> u32 list \<Rightarrow> cell_data \<Rightarrow> u64 \<Rightarrow> (vm, u32 option) prog" where
  "dvdnav_find_vobu_by_tmap reread as cd time =
     when_found (dvdnav_tmap_get reread) (\<lambda>(tm, interval).
     let args = \<lparr>ja_admap = as, ja_tmap = tm, ja_interval = interval\<rparr>;
         iv = (word_of_int interval :: u64)
     in when_found (dvdnav_tmap_get_entries_for_sector args cd (pd_sector (cd_bgn cd))) (\<lambda>(lo, hi).
        when_found (dvdnav_tmap_calc_time_for_tmap_entry args lo hi (cd_bgn cd)) (\<lambda>lo_time.
        let off = time - lo_time;
            idx = (ucast (off div iv) :: u32);
            rest = (ucast (off - ucast (idx * word_of_int interval)) :: u32);
            pct = rest * 1000 div word_of_int interval
        in case jump_entries tm lo hi idx of
             None \<Rightarrow> ret None
           | Some (a, b) \<Rightarrow> dvdnav_admap_interpolate_vobu as a b pct)))"

definition dvdnav_find_vobu_by_cell_boundaries :: "u32 list \<Rightarrow> cell_data \<Rightarrow> u64 \<Rightarrow> ('s, u32 option) prog" where
  "dvdnav_find_vobu_by_cell_boundaries as cd time =
     bnd (udiv ((time - pd_time (cd_bgn cd)) * 1000) (pd_time (cd_end cd) - pd_time (cd_bgn cd))) (\<lambda>pct.
     dvdnav_admap_interpolate_vobu as (pd_sector (cd_bgn cd)) (pd_sector (cd_end cd) + 1) (ucast pct))"

text \<open>The time map first, the cell when that fails; and the jump to the sector found.\<close>

definition find_vobu ::
  "(ifo_handle \<Rightarrow> vts_tmap list option) \<Rightarrow> u32 list \<Rightarrow> cell_data \<Rightarrow> u64 \<Rightarrow> (vm, u32 option) prog" where
  "find_vobu reread as cd time =
     bnd (dvdnav_find_vobu_by_tmap reread as cd time) (\<lambda>r.
     if r = None then dvdnav_find_vobu_by_cell_boundaries as cd time else ret r)"

definition jump_to_vobu :: "nat \<Rightarrow> cell_data \<Rightarrow> u32 option \<Rightarrow> (dvdnav, bool) prog" where
  "jump_to_vobu fuel cd r =
     (case r of
        None \<Rightarrow> ret False
      | Some sector \<Rightarrow>
          sq (upd (\<lambda>d. d\<lparr>cur_cell_time := 0\<rparr>))
            (bnd (in_vm (vm_jump_cell_block fuel (cd_idx cd) (sint (sector - pd_sector (cd_bgn cd))))) (\<lambda>ok.
             sq (when_p ok (hop HOP_SEEK)) (ret True))))"

text \<open>
  \<^verbatim>\<open>result\<close> keeps the value 1 of \<^verbatim>\<open>dvdnav_cell_find\<close>, which is also \<^verbatim>\<open>DVDNAV_STATUS_OK\<close>, where the
  address map is missing and where the jump fails.
\<close>

definition dvdnav_jump_to_sector_by_time ::
  "(ifo_handle \<Rightarrow> vts_tmap list option) \<Rightarrow> nat \<Rightarrow> u64 \<Rightarrow> int \<Rightarrow> (dvdnav, bool) prog" where
  "dvdnav_jump_to_sector_by_time reread fuel ticks mode =
     (if mode \<noteq> 0 then ret False
      else
        bnd (rd (\<lambda>d. pgc_based d \<noteq> 0)) (\<lambda>whole.
        bnd (in_vm (dvdnav_cell_find whole (ticks div 90))) (\<lambda>r.
        case r of
          None \<Rightarrow> ret False
        | Some cd \<Rightarrow>
            bnd (in_vm dvdnav_admap_get) (\<lambda>m.
            case m of
              None \<Rightarrow> ret True
            | Some as \<Rightarrow> bnd (in_vm (find_vobu reread as cd (ticks div 90))) (jump_to_vobu fuel cd)))))"

section \<open>Chapters\<close>

text \<open>
  What \<^verbatim>\<open>ifoOpen\<close> finds in the file of a title set: the program chain table with the start and the
  chain of each entry, and the parts of each title.  \<open>ifo_of n\<close> is \<open>None\<close> when title set \<open>n\<close> cannot be
  opened or has no program chain table.  The allocation of the result succeeds.
\<close>

record title_ifo =
  ti_last_byte :: u32
  ti_pgcs :: "(u32 \<times> pgc option) list"
  ti_ptts :: "ptt_info list list"

definition vm_get_title_ifo :: "(u8 \<Rightarrow> title_ifo option) \<Rightarrow> int \<Rightarrow> (vm, title_ifo option) prog" where
  "vm_get_title_ifo ifo_of title =
     bnd the_tt_srpt (\<lambda>ts.
     if title < 1 \<or> title > int (length ts) then ret None
     else bnd (lift_r (arr_get ts (title - 1))) (\<lambda>t. ret (ifo_of (title_set_nr t))))"

text \<open>The \<^verbatim>\<open>do\<close> loop over the cells of a chapter: the chapter's end, if a cell counts, and the length so far.\<close>

function chapter_cells :: "cell_playback list \<Rightarrow> int \<Rightarrow> int \<Rightarrow> u64 \<Rightarrow> u64 \<Rightarrow> fault + u64 \<times> u64" where
  "chapter_cells cs n fin time len =
     (case arr_get cs (n - 1) of
        Inl f \<Rightarrow> Inl f
      | Inr c \<Rightarrow>
          (case if other_angle c then Inr (time, len)
                else (case dvdnav_convert_time (cell_playback_time c) of
                        Inl f \<Rightarrow> Inl f | Inr t \<Rightarrow> Inr (len + word_of_int t, len + word_of_int t)) of
             Inl f \<Rightarrow> Inl f
           | Inr (time', len') \<Rightarrow>
               if n + 1 < fin then chapter_cells cs (n + 1) fin time' len' else Inr (time', len')))"
  by pat_completeness auto
termination
  by (relation "measure (\<lambda>(cs, n, fin, time, len). nat (fin - n))") auto

declare chapter_cells.simps [simp del]

text \<open>What is wrong with an entry: a chapter that is passed over, or the end of the call.\<close>

datatype part_entry = Skip string | Refuse string | Part pgc int int

definition chapter_of :: "title_ifo \<Rightarrow> ptt_info \<Rightarrow> fault + part_entry" where
  "chapter_of ifo p =
     (if ptt_pgcn p = 0 \<or> uint (ptt_pgcn p) > int (length (ti_pgcs ifo)) then Inr (Skip ''PGCN out of bounds.'')
      else
        case ti_pgcs ifo ! (unat (ptt_pgcn p) - 1) of
          (start, q) \<Rightarrow>
            if start \<ge> ti_last_byte ifo then Inr (Skip ''PGC start out of bounds'')
            else
              case q of
                None \<Rightarrow> Inr (Skip ''PGC missing.'')
              | Some g \<Rightarrow>
                  if program_map g = [] then Inr (Skip ''Program map missing.'')
                  else if ptt_pgn p = 0 \<or> uint (ptt_pgn p) > uint (nr_of_programs g)
                  then Inr (Refuse ''WRONG part number.'')
                  else if nr_of_cells g = 0 then Inr (Skip ''Number of cells cannot be 0'')
                  else
                    case arr_get (program_map g) (uint (ptt_pgn p) - 1) of
                      Inl f \<Rightarrow> Inl f
                    | Inr first \<Rightarrow>
                        if first = 0 then Inr (Skip ''Cell new row cannot be 0'')
                        else if cell_playback g = [] then Inr (Skip ''Cell missing'')
                        else if uint (ptt_pgn p) < uint (nr_of_programs g)
                        then (case arr_get (program_map g) (uint (ptt_pgn p)) of
                                Inl f \<Rightarrow> Inl f | Inr n \<Rightarrow> Inr (Part g (uint first) (uint n)))
                        else Inr (Part g (uint first) 0))"

text \<open>The loop over the parts: the ends of the chapters and the length, or \<open>None\<close> for a refused title.\<close>

fun chapters_loop :: "title_ifo \<Rightarrow> ptt_info list \<Rightarrow> nat \<Rightarrow> nat \<Rightarrow> u64 \<Rightarrow> (dvdnav, (u64 list \<times> u64) option) prog" where
  "chapters_loop ifo ptts 0 i len = ret (Some ([], len))"
| "chapters_loop ifo ptts (Suc n) i len =
     bnd (lift_r (arr_get ptts (int i))) (\<lambda>p.
     bnd (lift_r (chapter_of ifo p)) (\<lambda>c.
     case c of
       Refuse msg \<Rightarrow> fail_with msg None
     | Skip msg \<Rightarrow>
         sq (printerr msg)
           (when_found (chapters_loop ifo ptts n (Suc i) len) (\<lambda>(ts, l). ret (Some (0 # ts, l))))
     | Part g first fin \<Rightarrow>
         bnd (lift_r (chapter_cells (cell_playback g) first fin 0 len)) (\<lambda>(t, len').
         when_found (chapters_loop ifo ptts n (Suc i) len') (\<lambda>(ts, l). ret (Some (t # ts, l))))))"

text \<open>The result, \<^verbatim>\<open>*times\<close> (\<open>None\<close> is NULL) and \<^verbatim>\<open>*duration\<close>.\<close>

definition dvdnav_describe_title_chapters ::
  "(u8 \<Rightarrow> title_ifo option) \<Rightarrow> nat \<Rightarrow> int \<Rightarrow> (dvdnav, nat \<times> u64 list option \<times> u64) prog" where
  "dvdnav_describe_title_chapters ifo_of fuel title =
     bnd (rd (\<lambda>d. vmgi (nav_vm d))) (\<lambda>h.
     if h = None then fail_with ''Bad VM state or missing VTSI.'' (0, None, 0)
     else
       bnd (rd started) (\<lambda>s.
       sq (when_p (\<not> s) (sq (in_vm (bnd (vm_start fuel) (\<lambda>_. ret ()))) (upd (\<lambda>d. d\<lparr>started := True\<rparr>))))
         (bnd (in_vm (vm_get_title_ifo ifo_of title)) (\<lambda>r.
          case r of
            None \<Rightarrow> fail_with ''Couldn't open IFO for chosen title, exit.'' (0, None, 0)
          | Some ifo \<Rightarrow>
              bnd (in_vm the_tt_srpt) (\<lambda>ts.
              bnd (lift_r (arr_get ts (title - 1))) (\<lambda>t.
              bnd (lift_r (arr_get (ti_ptts ifo) (uint (title_vts_ttn t) - 1))) (\<lambda>ptts.
              bnd (chapters_loop ifo ptts (unat (title_nr_of_ptts t)) 0 0) (\<lambda>r2.
              case r2 of
                None \<Rightarrow> ret (0, None, 0)
              | Some (tmp, len) \<Rightarrow> ret (unat (title_nr_of_ptts t), Some tmp, len)))))))))"

end
