(* ===== verification/Dvdnav_Inv.thy ===== *)
theory Dvdnav_Inv
  imports Dvdnav_Time
begin

text \<open>
  The invariant of the navigation library: the virtual machine keeps its own invariant, the
  packets have the shape of their structures and the fields of the VOBU fit an \<^verbatim>\<open>int32_t\<close>.
  Every call keeps it, and so does every session of calls.
\<close>

section \<open>The invariant\<close>

definition wf_pci :: "pci \<Rightarrow> bool" where
  "wf_pci p \<longleftrightarrow> length (btnit (pci_hli p)) = 36 \<and> length (nsml_agl_dsta p) = 9 \<and>
     map length (btn_coli (pci_hli p)) = [2, 2, 2]"

definition wf_dsi :: "dsi \<Rightarrow> bool" where
  "wf_dsi d \<longleftrightarrow> length (sml_agli d) = 9"

definition fits32 :: "int \<Rightarrow> bool" where
  "fits32 x \<longleftrightarrow> - (2 ^ 31) \<le> x \<and> x < 2 ^ 31"

definition wf_vobu :: "dvdnav_vobu \<Rightarrow> bool" where
  "wf_vobu u \<longleftrightarrow> fits32 (vobu_start u) \<and> fits32 (vobu_length u) \<and> fits32 (vobu_blockN u) \<and> fits32 (vobu_next u)"

definition dvdnav_inv :: "dvdnav \<Rightarrow> bool" where
  "dvdnav_inv d \<longleftrightarrow> vm_inv (nav_vm d) \<and> wf_pci (nav_pci d) \<and> wf_dsi (nav_dsi d) \<and> wf_vobu (vobu d)"

abbreviation nav_prog :: "(dvdnav, 'a) prog \<Rightarrow> bool" where
  "nav_prog m \<equiv> keeps dvdnav_inv (\<lambda>_. True) m"

lemma wf_pci_at: "wf_pci (pci_at xs)"
  by (simp add: wf_pci_def pci_at_def upt_rec)

lemma wf_dsi_at: "wf_dsi (dsi_at xs)"
  by (simp add: wf_dsi_def dsi_at_def)

lemma fits32_sint: "fits32 (sint (x :: u32))"
  using sint_ge [of x] sint_lt [of x] by (simp add: fits32_def)

lemma and_bounds: "0 \<le> uint (x AND 0x3fffffff :: u32)" "uint (x AND 0x3fffffff :: u32) \<le> 0x3fffffff"
proof -
  have "x AND 0x3fffffff \<le> 0x3fffffff" by (rule word_and_le1)
  then show "uint (x AND 0x3fffffff) \<le> 0x3fffffff" by (simp add: word_le_def)
qed simp

lemma fits32_mono: "0 \<le> k \<Longrightarrow> k \<le> 0x3fffffff \<Longrightarrow> fits32 k \<and> fits32 (- k)"
  by (simp add: fits32_def)

lemma fits32_and: "fits32 (uint (x AND 0x3fffffff :: u32))" "fits32 (ilvu_offset x)"
  using fits32_mono [OF and_bounds, of x] by (simp_all add: ilvu_offset_def)

section \<open>Rules\<close>

named_theorems nav_intro

lemma nav_in_vm [nav_intro]: "inv_prog m \<Longrightarrow> nav_prog (in_vm m)"
  by (fastforce simp: keeps_def wpe_def in_vm_def dvdnav_inv_def split: sum.splits)

lemma nav_upd:
  "(\<And>d. nav_vm (f d) = nav_vm d \<and> nav_pci (f d) = nav_pci d \<and> nav_dsi (f d) = nav_dsi d \<and> vobu (f d) = vobu d) \<Longrightarrow>
   nav_prog (upd f)"
  by (simp add: keeps_def dvdnav_inv_def)

lemma nav_upd_vobu: "(\<And>d. dvdnav_inv d \<Longrightarrow> dvdnav_inv (f d)) \<Longrightarrow> nav_prog (upd f)"
  by (simp add: keeps_def)

lemma nav_int32 [nav_intro]: "(\<And>y. fits32 y \<Longrightarrow> nav_prog (f y)) \<Longrightarrow> nav_prog (bnd (int32 x) f)"
  by (simp add: keeps_def int32_def fits32_def)

lemma nav_lift_r [nav_intro]: "keeps I (\<lambda>_. True) (lift_r r)"
  by (simp add: keeps_lift_r)

lemma nav_printerr [nav_intro]: "nav_prog (printerr s)"
  unfolding printerr_def by (rule nav_upd) simp

lemma nav_fail_with [nav_intro]: "nav_prog (fail_with s r)"
  unfolding fail_with_def by (intro nav_intro keeps_intro)

lemma nav_read_block [nav_intro]: "nav_prog (read_block n)"
  unfolding read_block_def by (intro keeps_intro)

lemma nav_hop [nav_intro]: "nav_prog (hop n)"
  unfolding hop_def by (intro nav_intro keeps_upd) (simp add: vm_inv_def)

lemma inv_readonly: "readonly m \<Longrightarrow> inv_prog m"
  by (rule readonly_keeps)

section \<open>Reading the machine\<close>

lemma readonly_sum_times [readonly_intro]: "readonly (sum_times skip is)"
  by (induction "is") (auto intro!: readonly_intro)

lemma readonly_vm_position_get [readonly_intro]: "readonly vm_position_get"
  unfolding vm_position_get_def by (intro readonly_intro)

lemma readonly_vm_get_angle_info [readonly_intro]: "readonly vm_get_angle_info"
  unfolding vm_get_angle_info_def by (intro readonly_intro)

lemma readonly_vm_get_audio_stream [readonly_intro]: "readonly (vm_get_audio_stream n)"
  unfolding vm_get_audio_stream_def by (intro readonly_intro)

lemma readonly_first_audio [readonly_intro]: "readonly (first_audio is r)"
  by (induction "is" r rule: first_audio.induct) (auto intro!: readonly_intro)

lemma readonly_active [readonly_intro]: "readonly vm_get_audio_active_stream"
  unfolding vm_get_audio_active_stream_def by (intro readonly_intro)

lemma readonly_vm_get_current_menu [readonly_intro]: "readonly vm_get_current_menu"
  unfolding vm_get_current_menu_def by (intro readonly_intro)

lemma readonly_case_domain [readonly_intro]:
  "readonly a \<Longrightarrow> readonly b \<Longrightarrow> readonly c \<Longrightarrow> readonly d \<Longrightarrow> readonly e \<Longrightarrow>
   readonly (case x of NO_DOMAIN \<Rightarrow> a | FP_DOMAIN \<Rightarrow> b | VTS_DOMAIN \<Rightarrow> c | VMGM_DOMAIN \<Rightarrow> d | VTSM_DOMAIN \<Rightarrow> e)"
  by (cases x) simp_all

lemma readonly_video_attr [readonly_intro]: "readonly vm_get_video_attr"
  unfolding vm_get_video_attr_def by (intro readonly_intro)

lemma readonly_video [readonly_intro]:
  "readonly vm_get_video_scale_permission" "readonly vm_get_video_res"
  unfolding vm_get_video_scale_permission_def vm_get_video_res_def Let_def by (intro readonly_intro)+

lemma inv_video_aspect: "inv_prog vm_get_video_aspect"
  unfolding vm_get_video_aspect_def Let_def
  by (intro keeps_intro inv_readonly [OF readonly_video_attr] inv_readonly [OF readonly_get_sprm]) simp

lemma inv_vm_get_subp_stream: "inv_prog (vm_get_subp_stream n m)"
  unfolding vm_get_subp_stream_def by (intro keeps_intro inv_video_aspect inv_readonly [OF readonly_the_pgc]
      inv_readonly [OF readonly_get_st] keeps_lift_r) simp

lemma inv_first_subp: "inv_prog (first_subp m is r)"
  by (induction m "is" r rule: first_subp.induct)
    (auto intro!: keeps_intro inv_vm_get_subp_stream inv_readonly [OF readonly_the_pgc] keeps_lift_r)

lemma inv_vm_get_subp_active_stream: "inv_prog (vm_get_subp_active_stream m)"
  unfolding vm_get_subp_active_stream_def
  by (intro keeps_intro inv_first_subp inv_vm_get_subp_stream inv_readonly [OF readonly_get_sprm])

lemma readonly_cell_info [readonly_intro]: "readonly cell_info"
  unfolding cell_info_def by (intro readonly_intro)

lemma readonly_cell_range [readonly_intro]: "readonly (cell_range w)"
  unfolding cell_range_def by (intro readonly_intro)

lemma readonly_scan_admap [readonly_intro]: "readonly (dvdnav_scan_admap dm a b)"
proof -
  have "readonly (domain_admap dm)"
    by (cases dm) (auto simp: domain_admap_def intro!: readonly_intro)
  then show ?thesis unfolding dvdnav_scan_admap_def by (intro readonly_intro)
qed

lemma readonly_time_map_target [readonly_intro]: "readonly (time_map_target time first)"
  unfolding time_map_target_def tmap_target_def Let_def by (intro readonly_intro)

lemma readonly_time_loop [readonly_intro]: "readonly (time_loop is time)"
  by (induction "is" arbitrary: time) (auto simp: Let_def intro!: readonly_intro)

lemma readonly_position_loop [readonly_intro]: "readonly (position_loop is cur pos len)"
  by (induction "is" arbitrary: pos len) (auto simp: Let_def intro!: readonly_intro)

lemma readonly_sector_loop [readonly_intro]: "readonly (sector_loop dm fw cur cc ln is target)"
  by (induction "is" arbitrary: target)
    (auto simp: Let_def forward_target_def intro!: readonly_intro)

section \<open>Packets\<close>

lemma yields_repeat: "yields (\<lambda>xs. length xs = k) (repeat_p k m)"
  by (induction k) (auto simp: yields_ret yields_def run split: sum.splits)

lemma yields_repeat2: "yields (\<lambda>xss. map length xss = replicate k n) (repeat_p k (repeat_p n m))"
proof (induction k)
  case 0
  then show ?case by (simp add: yields_ret)
next
  case (Suc k)
  then show ?case
    using yields_repeat [of n m] by (fastforce simp: yields_def run split: sum.splits)
qed

lemma yields_pci: "yields wf_pci read_pci_fields"
proof -
  have coli: "yields (\<lambda>xss. map length xss = [2, 2, 2]) (repeat_p 3 (repeat_p 2 (getfield 32)))"
    using yields_repeat2 [of 3 2] by (simp add: numeral_3_eq_3)
  show ?thesis
    unfolding read_pci_fields_def
    by (intro yields_bnd yields_bnd2 [OF yields_repeat [of 9]] yields_bnd2 [OF coli] yields_bnd2 [OF yields_repeat [of 36]]
        yields_ret) (simp add: wf_pci_def)
qed

lemma yields_dsi: "yields wf_dsi read_dsi_fields"
  unfolding read_dsi_fields_def
  by (intro yields_bnd [where m = read_dsi_gi] yields_bnd [where m = read_sml_pbi] yields_bnd2 [OF yields_repeat [of 9]]
      yields_bnd [where m = read_vobu_sri] yields_bnd [where m = read_synci] yields_ret) (simp add: wf_dsi_def)

lemma navRead_wf: "navRead_PCI b = Inr (p, cs) \<Longrightarrow> wf_pci p" "navRead_DSI b = Inr (q, cs) \<Longrightarrow> wf_dsi q"
proof -
  show "wf_pci p" if "navRead_PCI b = Inr (p, cs)"
  proof -
    from that obtain s t where "read_pci_fields s = Inr (p, t)"
      by (auto simp: navRead_PCI_def split: sum.splits option.splits)
    then show ?thesis by (rule yieldsD [OF yields_pci])
  qed
  show "wf_dsi q" if "navRead_DSI b = Inr (q, cs)"
  proof -
    from that obtain s t where "read_dsi_fields s = Inr (q, t)"
      by (auto simp: navRead_DSI_def split: sum.splits option.splits)
    then show ?thesis by (rule yieldsD [OF yields_dsi])
  qed
qed

lemma nav_decode_packet [nav_intro]: "nav_prog (dvdnav_decode_packet buf)"
proof -
  have b: "nav_prog (byte_at buf p)" "nav_prog (word16_at buf p)" for p
    unfolding word16_at_def byte_at_def by (intro keeps_intro nav_lift_r)+
  have "nav_prog (read_pci_at buf p)" for p
    by (auto simp: read_pci_at_def keeps_def wpe_def run dvdnav_inv_def dest: navRead_wf split: sum.splits)
  moreover have "nav_prog (read_dsi_at buf p)" for p
    by (auto simp: read_dsi_at_def keeps_def wpe_def run dvdnav_inv_def dest: navRead_wf split: sum.splits)
  ultimately show ?thesis
    unfolding dvdnav_decode_packet_def skip_pack_header_def skip_system_header_def
    by (intro keeps_intro b)
qed

lemma nav_set_next: "fits32 n \<Longrightarrow> nav_prog (upd (\<lambda>d. d\<lparr>vobu := (vobu d)\<lparr>vobu_next := n\<rparr>\<rparr>))"
  by (rule keeps_upd) (simp add: dvdnav_inv_def wf_vobu_def)

lemma nav_get_vobu [nav_intro]: "nav_prog dvdnav_get_vobu"
proof -
  have "nav_prog (upd (\<lambda>d. d\<lparr>vobu := (vobu d)\<lparr>vobu_start := sint a, vobu_length := sint b,
      vobu_next := uint (c AND 0x3fffffff)\<rparr>\<rparr>))" for a b c :: u32
    by (rule keeps_upd) (simp add: dvdnav_inv_def wf_vobu_def fits32_sint fits32_and)
  moreover have "nav_prog (upd (\<lambda>d. d\<lparr>vobu := (vobu d)\<lparr>vobu_length := sint b, vobu_next := ilvu_offset c\<rparr>\<rparr>))"
    for b c :: u32
    by (rule keeps_upd) (simp add: dvdnav_inv_def wf_vobu_def fits32_sint fits32_and)
  ultimately show ?thesis
    unfolding dvdnav_get_vobu_def
    by (intro keeps_intro nav_set_next nav_lift_r nav_in_vm inv_readonly [OF readonly_vm_get_angle_info] fits32_and)
qed

section \<open>The block loop\<close>

text \<open>The machine's own operations.\<close>

lemma inv_upd_block: "inv_prog (upd_st (\<lambda>t. t\<lparr>blockN := b\<rparr>))"
  by (intro inv_upd_st) (simp add: vm_inv_def)

lemmas nav_vm_ops = inv_vm_start inv_vm_stop inv_vm_jumps inv_vm_jump_cell_block inv_vm_jump_title
  inv_vm_jump_next_pg inv_vm_jump_prev_pg inv_vm_jump_up inv_vm_jump_menu inv_vm_jump_resume
  inv_vm_exec_cmd inv_upd_block inv_vm_get_subp_active_stream inv_vm_get_subp_stream inv_video_aspect
  inv_put_sprm

lemmas nav_vm_reads = readonly_vm_position_get readonly_vm_get_angle_info readonly_get_st readonly_get_sprm
  readonly_the_pgc readonly_the_cell readonly_cell_info readonly_active readonly_the_tt_srpt
  readonly_vm_get_current_menu readonly_title_part readonly_video readonly_vm_get_audio_stream
  readonly_cell_range readonly_scan_admap readonly_time_map_target readonly_time_loop readonly_position_loop
  readonly_sector_loop

lemmas nav_vm_intro = nav_vm_ops nav_vm_reads [THEN inv_readonly]

lemma nav_seek_angles [nav_intro]: "nav_prog (seek_angles fuel)"
proof -
  have "fits32 s \<Longrightarrow> nav_prog (upd (\<lambda>d. d\<lparr>vobu := (vobu d)\<lparr>vobu_start := s, vobu_next := 0\<rparr>\<rparr>))" for s
    by (rule keeps_upd) (simp add: dvdnav_inv_def wf_vobu_def fits32_def)
  then show ?thesis
    unfolding seek_angles_def by (intro nav_intro keeps_intro nav_vm_intro) auto
qed

lemma nav_new_vobu:
  assumes "fits32 s"
    and "\<And>d. nav_vm (f d) = nav_vm d \<and> nav_pci (f d) = nav_pci d \<and> nav_dsi (f d) = nav_dsi d \<and>
      vobu (f d) = \<lparr>vobu_start = s, vobu_length = 0, vobu_blockN = 0, vobu_next = 0\<rparr>"
  shows "nav_prog (upd f)"
  using assms by (intro keeps_upd) (simp add: dvdnav_inv_def wf_vobu_def fits32_def)

lemma nav_hop_event [nav_intro]: "nav_prog (hop_event fuel)"
  unfolding hop_event_def
  by (intro nav_intro keeps_intro nav_vm_intro; (rule nav_new_vobu; simp)?)

lemma nav_vts_event [nav_intro]: "nav_prog vts_event"
  unfolding vts_event_def
  by (intro nav_intro keeps_intro nav_upd; simp)

lemma nav_simple_events [nav_intro]:
  "nav_prog highlight_event" "nav_prog clut_event" "nav_prog spu_event" "nav_prog audio_event"
  unfolding highlight_event_def clut_event_def spu_event_def audio_event_def
  by (intro nav_intro keeps_intro nav_vm_intro nav_upd; simp)+

lemma nav_cell_change_event [nav_intro]: "nav_prog cell_change_event"
  unfolding cell_change_event_def
  by (intro nav_intro keeps_intro nav_vm_intro; (rule nav_new_vobu nav_upd; simp)?)

lemma nav_end_of_cell [nav_intro]: "nav_prog (end_of_cell fuel)"
  unfolding end_of_cell_def
  by (intro nav_intro keeps_intro nav_vm_intro nav_upd; simp)

lemma nav_remap_next [nav_intro]: "nav_prog remap_next"
  unfolding remap_next_def
  by (intro nav_intro keeps_intro nav_vm_intro nav_set_next fits32_sint)

lemma nav_next_vobu_event [nav_intro]: "nav_prog (next_vobu_event fuel)"
proof -
  have "nav_prog (upd (\<lambda>d. d\<lparr>vobu := (vobu d)\<lparr>vobu_blockN := 0\<rparr>, last_cmd_nav_lbn := g d\<rparr>))" for g
    by (rule keeps_upd) (simp add: dvdnav_inv_def wf_vobu_def fits32_def)
  moreover have "nav_prog (upd (cur_cell_time_update f))" for f by (rule nav_upd) simp
  ultimately show ?thesis
    unfolding next_vobu_event_def
    by (intro nav_in_vm [OF inv_upd_block] nav_intro keeps_intro nav_vm_intro)
qed

lemma nav_block_event [nav_intro]: "nav_prog block_event"
proof -
  have "fits32 n \<Longrightarrow> nav_prog (upd (\<lambda>d. d\<lparr>vobu := (vobu d)\<lparr>vobu_blockN := n\<rparr>\<rparr>))" for n
    by (rule keeps_upd) (simp add: dvdnav_inv_def wf_vobu_def)
  then show ?thesis
    unfolding block_event_def by (intro nav_intro keeps_intro) auto
qed

lemma keeps_if_state:
  "(\<And>s. b s \<Longrightarrow> wpe m Q E s) \<Longrightarrow> (\<And>s. \<not> b s \<Longrightarrow> wpe n Q E s) \<Longrightarrow> wpe (\<lambda>s. if b s then m s else n s) Q E s"
  by (simp add: wpe_def)

lemma nav_next_event [nav_intro]: "nav_prog (next_event fuel)"
proof (rule keepsI)
  fix d
  assume d: "dvdnav_inv d"
  have "wpe m (\<lambda>_. dvdnav_inv) (\<lambda>_. True) d" if "nav_prog m" for m :: "(dvdnav, bool \<times> event) prog"
    using that d by (rule keepsD)
  note * = this [unfolded wpe_def]
  show "wpe (next_event fuel) (\<lambda>_. dvdnav_inv) (\<lambda>_. True) d"
    unfolding wpe_def next_event_def by (simp add: run_ret d) (auto intro!: * nav_intro)
qed

lemma nav_get_next_cache_block [nav_intro]: "nav_prog (dvdnav_get_next_cache_block fuel)"
  unfolding dvdnav_get_next_cache_block_def nav_start_def
  by (intro nav_intro keeps_intro nav_vm_intro nav_upd; simp)

section \<open>The other calls\<close>

lemma inv_vm_fields: "inv_prog (upd (\<lambda>v. v\<lparr>hop_channel := h v\<rparr>))" "inv_prog (upd (\<lambda>v. v\<lparr>stopped := b\<rparr>))"
  by (intro keeps_upd; simp add: vm_inv_def)+

lemma nav_in_menu: "nav_prog m \<Longrightarrow> nav_prog (in_menu p r m)"
  unfolding in_menu_def by (intro nav_intro keeps_intro)

lemma nav_button_reg [nav_intro]: "nav_prog button_reg"
  unfolding button_reg_def by (intro nav_intro keeps_intro nav_vm_intro)

lemma nav_the_button [nav_intro]: "nav_prog (the_button p n)"
  unfolding the_button_def by (rule nav_lift_r)

lemma nav_get_current_button [nav_intro]: "nav_prog (get_current_button p)"
  unfolding get_current_button_def by (intro nav_in_menu nav_intro keeps_intro)

lemma nav_button_activate [nav_intro]: "nav_prog (dvdnav_button_activate fuel p)"
  unfolding dvdnav_button_activate_def
  by (intro nav_in_menu nav_in_vm [OF inv_vm_fields(1)] nav_intro keeps_intro nav_vm_intro nav_upd; simp)

lemma nav_set_button_reg [nav_intro]: "nav_prog (set_button_reg b)"
  unfolding set_button_reg_def by (intro nav_intro keeps_intro nav_vm_intro)

lemma nav_button_activate_cmd: "nav_prog (dvdnav_button_activate_cmd fuel b cmd)"
  unfolding dvdnav_button_activate_cmd_def
  by (intro nav_in_vm [OF inv_vm_fields(1)] nav_intro keeps_intro nav_vm_intro nav_upd; simp)

lemma nav_button_select [nav_intro]: "nav_prog (dvdnav_button_select p b)"
  unfolding dvdnav_button_select_def
  by (intro nav_in_menu nav_intro keeps_intro nav_upd; simp)

lemma nav_select_and_activate: "nav_prog (dvdnav_button_select_and_activate fuel p b)"
  unfolding dvdnav_button_select_and_activate_def by (intro nav_intro keeps_intro)

lemma nav_move_button: "nav_prog (move_button dir fuel p)"
  unfolding move_button_def button_auto_action_def by (intro nav_intro keeps_intro; simp)

lemma nav_mouse_select [nav_intro]: "nav_prog (dvdnav_mouse_select p x y)"
  unfolding dvdnav_mouse_select_def by (intro nav_in_menu nav_intro keeps_intro)

lemma nav_mouse_activate: "nav_prog (dvdnav_mouse_activate fuel p x y)"
  unfolding dvdnav_mouse_activate_def by (intro nav_intro keeps_intro)

lemma nav_flags:
  "nav_prog dvdnav_still_skip" "nav_prog dvdnav_wait_skip" "nav_prog dvdnav_stop"
  "nav_prog (dvdnav_set_region_mask m)" "nav_prog (dvdnav_set_readahead_flag r)"
  "nav_prog (set_language_register c0 c1 reg)" "nav_prog (dvdnav_set_PGC_positioning_flag b)"
  "nav_prog (dvdnav_angle_change a)"
  unfolding dvdnav_still_skip_def dvdnav_wait_skip_def dvdnav_stop_def dvdnav_set_region_mask_def
    dvdnav_set_readahead_flag_def set_language_register_def dvdnav_set_PGC_positioning_flag_def
    dvdnav_angle_change_def
  by (intro nav_in_vm [OF inv_vm_fields(2)] nav_intro keeps_intro nav_vm_intro nav_upd; simp)+

lemma nav_play_in_title: "inv_prog jump \<Longrightarrow> nav_prog (play_in_title fuel title refused jump)"
  unfolding play_in_title_def start_on_demand_def
  by (intro nav_intro keeps_intro nav_vm_intro nav_upd; simp)

lemma nav_plays:
  "nav_prog (dvdnav_program_play fuel title pgcn pgn)" "nav_prog (dvdnav_part_play fuel title part)"
  "nav_prog (dvdnav_title_play fuel title)" "nav_prog (dvdnav_part_play_auto_stop fuel title part n)"
  "nav_prog (dvdnav_go_up fuel)"
  unfolding dvdnav_program_play_def dvdnav_part_play_def dvdnav_title_play_def
    dvdnav_part_play_auto_stop_def dvdnav_go_up_def
  by (intro nav_play_in_title nav_intro keeps_intro nav_vm_intro)+

lemma nav_current_title_info [nav_intro]: "nav_prog dvdnav_current_title_info"
  unfolding dvdnav_current_title_info_def current_position_def
  by (intro nav_intro keeps_intro nav_vm_intro)

lemma nav_seek_to [nav_intro]: "nav_prog (seek_to fuel dm found)"
  unfolding seek_to_def by (intro nav_intro keeps_intro nav_vm_intro)

lemma nav_time_search: "nav_prog (dvdnav_time_search fuel time)"
  unfolding dvdnav_time_search_def
  by (intro nav_intro keeps_intro nav_vm_intro nav_upd; simp)

lemma nav_cur_sector [nav_intro]: "nav_prog cur_sector"
  unfolding cur_sector_def by (intro nav_intro keeps_intro)

lemma nav_get_position [nav_intro]: "nav_prog dvdnav_get_position"
  unfolding dvdnav_get_position_def by (intro nav_intro keeps_intro nav_vm_intro) simp

lemma nav_sector_search: "nav_prog (dvdnav_sector_search fuel off org)"
proof -
  have "keeps I F m \<Longrightarrow> (\<And>y. keeps I F (f y)) \<Longrightarrow> keeps I F (case x of Inl a \<Rightarrow> m | Inr y \<Rightarrow> f y)"
    for I F and m :: "(dvdnav, bool) prog" and f and x :: "string + u32"
    by (cases x) simp_all
  moreover have "nav_prog (fail_with e False)" for e by (rule nav_fail_with)
  ultimately have sum: "(\<And>y. nav_prog (f y)) \<Longrightarrow> nav_prog (case x of Inl e \<Rightarrow> fail_with e False | Inr y \<Rightarrow> f y)"
    for f and x :: "string + u32"
    by (cases x) simp_all
  show ?thesis
    unfolding dvdnav_sector_search_def
    by (intro sum nav_intro keeps_intro nav_vm_intro nav_upd; simp)
qed

section \<open>Copies of the machine\<close>

lemma keepsR_in_vm:
  "keepsR vm_inv (\<lambda>_. True) R m \<Longrightarrow> keepsR dvdnav_inv (\<lambda>_. True) R (in_vm m)"
  by (fastforce simp: keepsR_def wpe_def in_vm_def dvdnav_inv_def split: sum.splits)

lemma copy_vm_inv: "keepsR vm_inv (\<lambda>_. True) vm_inv vm_new_copy"
proof -
  have "inv_prog (upd (\<lambda>v. v\<lparr>vtsi := None\<rparr>))" by (rule keeps_upd) (simp add: vm_inv_def)
  then have re: "inv_prog (reopen_copy n)" for n
    unfolding reopen_copy_def
    by (intro keeps_intro inv_ifoOpenNewVTSI inv_set_PGCN inv_upd_st nav_vm_intro) (simp_all add: vm_inv_def)
  have "keepsR vm_inv (\<lambda>_. True) vm_inv (\<lambda>v. case reopen_copy n v of Inl f \<Rightarrow> Inl f
      | Inr (_, t) \<Rightarrow> Inr (t, v\<lparr>next_hid := next_hid t\<rparr>))" for n
    using re [of n] by (fastforce simp: keepsR_def keeps_def wpe_def vm_inv_def split: sum.splits)
  then show ?thesis
    unfolding vm_new_copy_def sq_def
    by (intro keepsRI; fastforce simp: keepsR_def elim!: wpe_mono
        dest: keepsD [OF inv_readonly [OF readonly_get_PGCN]])
qed

lemma on_copy_inv:
  assumes "vm_inv t" and "inv_prog m"
  shows "keepsR dvdnav_inv (\<lambda>_. True) (\<lambda>(a, t'). vm_inv t') (on_copy t m)"
proof (rule keepsRI)
  fix d
  assume d: "dvdnav_inv d"
  let ?t = "t\<lparr>vm_env := vm_env (nav_vm d), next_hid := next_hid (nav_vm d)\<rparr>"
  have "vm_inv ?t" using assms(1) by (simp add: vm_inv_def)
  with assms(2) have "wpe m (\<lambda>_. vm_inv) (\<lambda>_. True) ?t" by (rule keepsD)
  then show "wpe (on_copy t m) (\<lambda>r u. dvdnav_inv u \<and> (case r of (a, t') \<Rightarrow> vm_inv t')) (\<lambda>_. True) d"
    using d by (auto simp: wpe_def on_copy_def dvdnav_inv_def vm_inv_def split: sum.splits)
qed

lemma inv_vm_merge: "vm_inv t \<Longrightarrow> inv_prog (vm_merge t)"
  by (simp add: vm_merge_def keeps_def)

lemma nav_jumped [nav_intro]: "nav_prog jumped"
  unfolding jumped_def by (intro nav_intro keeps_intro nav_upd) simp

lemma nav_with_pgc: "nav_prog m \<Longrightarrow> nav_prog (with_pgc m)"
  unfolding with_pgc_def by (intro nav_intro keeps_intro nav_vm_intro)

lemma nav_pg_searches:
  "nav_prog (dvdnav_prev_pg_search fuel)" "nav_prog (dvdnav_top_pg_search fuel)"
  unfolding dvdnav_prev_pg_search_def dvdnav_top_pg_search_def
  by (intro nav_with_pgc nav_intro keeps_intro nav_vm_intro nav_upd; simp)+

lemma nav_merge: "vm_inv t \<Longrightarrow> nav_prog (sq (in_vm (vm_merge t)) (sq jumped (ret True)))"
  by (intro nav_intro keeps_intro inv_vm_merge)

lemma nav_on_copy:
  assumes "vm_inv t" and "inv_prog m" and "\<And>a t'. vm_inv t' \<Longrightarrow> nav_prog (f (a, t'))"
  shows "nav_prog (bnd (on_copy t m) f)"
  using assms(3) by (intro keepsR_bnd [OF on_copy_inv [OF assms(1,2)]]) auto

lemma nav_copy: "(\<And>t. vm_inv t \<Longrightarrow> nav_prog (f t)) \<Longrightarrow> nav_prog (bnd (in_vm vm_new_copy) f)"
  by (rule keepsR_bnd [OF keepsR_in_vm [OF copy_vm_inv]])

lemma nav_zero_time: "nav_prog (upd (\<lambda>d. d\<lparr>cur_cell_time := 0\<rparr>))"
  by (rule nav_upd) simp

lemma nav_next_pg_search: "nav_prog (dvdnav_next_pg_search fuel)"
  unfolding dvdnav_next_pg_search_def
  by (rule nav_with_pgc, rule nav_copy, rule nav_on_copy, assumption, rule nav_vm_intro)
    (auto intro!: keeps_if keeps_sq nav_zero_time nav_in_vm inv_vm_merge nav_jumped keeps_ret nav_copy
      nav_on_copy nav_fail_with inv_vm_jumps)

lemma nav_menu_call: "nav_prog (dvdnav_menu_call fuel menu)"
proof -
  have tm: "vm_inv t \<Longrightarrow> nav_prog (try_menu fuel menu t)" for t
    unfolding try_menu_def
    by (rule nav_on_copy, assumption, rule inv_vm_jump_menu) (auto intro!: keeps_if nav_merge nav_fail_with)
  have resume: "nav_prog (bnd (on_copy t (vm_jump_resume fuel)) (\<lambda>(ok, t).
      if ok \<and> \<not> stopped t then sq (in_vm (vm_merge t)) (sq jumped (ret True)) else try_menu fuel menu t))"
    if "vm_inv t" for t
    by (rule nav_on_copy [OF that inv_vm_jump_resume]) (auto intro!: nav_merge tm)
  have "nav_prog (in_vm (get_st domain))" by (intro nav_intro nav_vm_intro)
  then show ?thesis
    unfolding dvdnav_menu_call_def
    by (intro nav_with_pgc keeps_sq [OF nav_zero_time] nav_copy keeps_bnd [of _ _ "in_vm (get_st domain)"]
        keeps_if resume tm)
qed

lemma nav_set_state: "wf_save save \<Longrightarrow> nav_prog (dvdnav_set_state save)"
proof -
  assume save: "wf_save save"
  have "nav_prog (upd (\<lambda>d. d\<lparr>nav_pci := pci_zero, nav_dsi := dsi_zero,
      last_cmd_nav_lbn := word_of_int SRI_END_OF_CELL,
      position_current := (position_current d)\<lparr>p_still := 0\<rparr>, skip_still := False,
      sync_wait := False, sync_wait_skip := False, spu_clut_changed := False\<rparr>))"
    by (rule keeps_upd) (simp add: dvdnav_inv_def pci_zero_def dsi_zero_def wf_pci_at wf_dsi_at)
  then show ?thesis
    unfolding dvdnav_set_state_def
    by (intro nav_intro keeps_intro inv_vm_set_state [OF save])
qed

lemma nav_clear [nav_intro]: "nav_prog dvdnav_clear"
  unfolding dvdnav_clear_def
  by (intro keeps_intro keeps_upd) (simp add: dvdnav_inv_def pci_zero_def dsi_zero_def wf_pci_at wf_dsi_at)

lemma nav_reset: "nav_prog dvdnav_reset"
  unfolding dvdnav_reset_def
  by (intro nav_intro keeps_intro inv_vm_reset) (simp add: wf_disc_def)

section \<open>The search by the time map and the chapters\<close>

lemma inv_title_tmapt [keeps_intro]: "inv_prog (title_tmapt reread)"
  by (rule keepsI) (auto simp: title_tmapt_def vm_inv_def wf_handle_def split: option.splits)

lemma keeps_when_found [keeps_intro]:
  "keeps I F m \<Longrightarrow> (\<And>a. keeps I F (f a)) \<Longrightarrow> keeps I F (when_found m f)"
  unfolding when_found_def by (intro keeps_bnd keeps_case_option keeps_ret)

lemma readonly_when_found [readonly_intro]:
  "readonly m \<Longrightarrow> (\<And>a. readonly (f a)) \<Longrightarrow> readonly (when_found m f)"
  unfolding when_found_def by (intro readonly_intro)

lemma readonly_udiv [readonly_intro]: "readonly (udiv a b)"
  unfolding udiv_def by (intro readonly_intro)

lemma readonly_manager_tmapt [readonly_intro]: "readonly manager_tmapt"
  unfolding manager_tmapt_def by (intro readonly_intro)

lemma readonly_admap_get: "readonly dvdnav_admap_get"
proof -
  have "readonly (domain_admap dm)" for dm
    unfolding domain_admap_def by (cases dm) (auto intro!: readonly_intro)
  then show ?thesis unfolding dvdnav_admap_get_def get_st_def by (intro readonly_intro)
qed

lemma readonly_cell_find_loop [readonly_intro]: "readonly (cell_find_loop ns tgt cd)"
  by (induction ns arbitrary: cd) (auto simp: Let_def intro!: readonly_intro)

lemma readonly_cell_find: "readonly (dvdnav_cell_find whole tgt)"
  unfolding dvdnav_cell_find_def cell_range_def by (intro readonly_intro)

lemma readonly_interpolate [readonly_intro]: "readonly (dvdnav_admap_interpolate_vobu as a b n)"
  unfolding dvdnav_admap_interpolate_vobu_def by (intro readonly_intro)

lemma readonly_boundaries: "readonly (dvdnav_find_vobu_by_cell_boundaries as cd t)"
  unfolding dvdnav_find_vobu_by_cell_boundaries_def by (intro readonly_intro)

lemma readonly_tmap_times [readonly_intro]:
  "readonly (dvdnav_tmap_calc_time_for_tmap_entry args lo hi pos)"
  "readonly (dvdnav_tmap_get_entries_for_sector args cd n)"
  unfolding dvdnav_tmap_calc_time_for_tmap_entry_def dvdnav_tmap_get_entries_for_sector_def
  by (intro readonly_intro)+

lemma inv_tmap_get: "inv_prog (dvdnav_tmap_get reread)"
  unfolding dvdnav_tmap_get_def
  by (intro keeps_intro readonly_keeps [OF readonly_manager_tmapt] nav_vm_intro)

lemma inv_find_vobu_by_tmap: "inv_prog (dvdnav_find_vobu_by_tmap reread as cd t)"
  unfolding dvdnav_find_vobu_by_tmap_def
  by (intro keeps_intro inv_tmap_get readonly_keeps readonly_tmap_times readonly_interpolate)

lemma inv_find_vobu: "inv_prog (find_vobu reread as cd t)"
  unfolding find_vobu_def
  by (intro keeps_intro inv_find_vobu_by_tmap readonly_keeps [OF readonly_boundaries])

lemma nav_jump_to_vobu: "nav_prog (jump_to_vobu fuel cd r)"
  unfolding jump_to_vobu_def by (intro nav_intro keeps_intro nav_vm_intro nav_upd; simp)

lemma nav_jump_by_time: "nav_prog (dvdnav_jump_to_sector_by_time reread fuel ticks mode)"
  unfolding dvdnav_jump_to_sector_by_time_def
  by (intro nav_intro keeps_intro inv_find_vobu nav_jump_to_vobu
      readonly_keeps [OF readonly_admap_get] readonly_keeps [OF readonly_cell_find])

lemma nav_chapters_loop [nav_intro]: "nav_prog (chapters_loop ifo ptts n i len)"
proof (induction n arbitrary: i len)
  case (Suc n)
  have cases: "nav_prog (case c of Skip msg \<Rightarrow> f msg | Refuse msg \<Rightarrow> g msg | Part p a b \<Rightarrow> h p a b)"
    if "\<And>msg. nav_prog (f msg)" "\<And>msg. nav_prog (g msg)" "\<And>p a b. nav_prog (h p a b)"
    for c and f g :: "string \<Rightarrow> (dvdnav, 'a) prog" and h
    using that by (cases c) simp_all
  then show ?case by (auto intro!: cases Suc nav_intro keeps_intro)
qed (simp add: keeps_ret)

lemma nav_describe_chapters: "nav_prog (dvdnav_describe_title_chapters ifo_of fuel title)"
proof -
  have "readonly (vm_get_title_ifo ifo_of title)" "readonly the_tt_srpt"
    unfolding vm_get_title_ifo_def the_tt_srpt_def by (intro readonly_intro)+
  then show ?thesis
    unfolding dvdnav_describe_title_chapters_def
    by (intro nav_intro keeps_intro nav_vm_intro nav_upd; simp add: readonly_keeps)
qed

end
