(* ===== verification/Dvdnav_Session.thy ===== *)
theory Dvdnav_Session
  imports Dvdnav_Inv Vm_Example
begin

text \<open>
  Sessions with the navigation library: the calls of its interface as a datatype, and the
  invariant of \<open>Dvdnav_Inv\<close> in every state a sequence of calls can reach.
\<close>

section \<open>The calls\<close>

text \<open>Packets the calls of a menu get are the library's own, as in applications.\<close>

datatype nav_call =
    NavNext nat | NavReset | NavStop | NavStillSkip | NavWaitSkip
  | NavRegion int | NavReadAhead int | NavPgcBased int | NavLanguage u8 u8 int | NavAngle int
  | NavActivate nat | NavActivateCmd nat int vm_cmd | NavSelect int | NavSelectActivate nat int
  | NavUpper nat | NavLower nat | NavRight nat | NavLeft nat | NavMouse int int | NavMouseActivate nat int int
  | NavTitle nat int | NavPart nat int int | NavProgram nat int int int | NavUp nat
  | NavTime nat u64 | NavSector nat u64 origin | NavPartSearch nat int
  | NavPrev nat | NavTop nat | NavNextPg nat | NavMenu nat menu_id | NavPosition | NavSetState dvd_state
  | NavTimeMap "ifo_handle \<Rightarrow> vts_tmap list option" nat u64 int | NavChapters "u8 \<Rightarrow> title_ifo option" nat int

definition with_packet :: "(pci \<Rightarrow> (dvdnav, 'a) prog) \<Rightarrow> (dvdnav, 'a) prog" where
  "with_packet m = bnd (rd nav_pci) m"

fun nav_run :: "nav_call \<Rightarrow> (dvdnav, bool) prog" where
  "nav_run (NavNext n) = bnd (dvdnav_get_next_cache_block n) (\<lambda>(ok, _). ret ok)"
| "nav_run NavReset = dvdnav_reset"
| "nav_run NavStop = dvdnav_stop"
| "nav_run NavStillSkip = dvdnav_still_skip"
| "nav_run NavWaitSkip = dvdnav_wait_skip"
| "nav_run (NavRegion m) = dvdnav_set_region_mask m"
| "nav_run (NavReadAhead r) = dvdnav_set_readahead_flag r"
| "nav_run (NavPgcBased b) = dvdnav_set_PGC_positioning_flag b"
| "nav_run (NavLanguage c0 c1 reg) = set_language_register c0 c1 reg"
| "nav_run (NavAngle a) = dvdnav_angle_change a"
| "nav_run (NavActivate n) = with_packet (dvdnav_button_activate n)"
| "nav_run (NavActivateCmd n b c) = dvdnav_button_activate_cmd n b c"
| "nav_run (NavSelect b) = with_packet (\<lambda>p. dvdnav_button_select p b)"
| "nav_run (NavSelectActivate n b) = with_packet (\<lambda>p. dvdnav_button_select_and_activate n p b)"
| "nav_run (NavUpper n) = with_packet (dvdnav_upper_button_select n)"
| "nav_run (NavLower n) = with_packet (dvdnav_lower_button_select n)"
| "nav_run (NavRight n) = with_packet (dvdnav_right_button_select n)"
| "nav_run (NavLeft n) = with_packet (dvdnav_left_button_select n)"
| "nav_run (NavMouse x y) = with_packet (\<lambda>p. dvdnav_mouse_select p x y)"
| "nav_run (NavMouseActivate n x y) = with_packet (\<lambda>p. dvdnav_mouse_activate n p x y)"
| "nav_run (NavTitle n t) = dvdnav_title_play n t"
| "nav_run (NavPart n t p) = dvdnav_part_play n t p"
| "nav_run (NavProgram n t c p) = dvdnav_program_play n t c p"
| "nav_run (NavUp n) = dvdnav_go_up n"
| "nav_run (NavTime n t) = dvdnav_time_search n t"
| "nav_run (NavSector n off org) = dvdnav_sector_search n off org"
| "nav_run (NavPartSearch n p) = dvdnav_part_search n p"
| "nav_run (NavPrev n) = dvdnav_prev_pg_search n"
| "nav_run (NavTop n) = dvdnav_top_pg_search n"
| "nav_run (NavNextPg n) = dvdnav_next_pg_search n"
| "nav_run (NavMenu n m) = dvdnav_menu_call n m"
| "nav_run NavPosition = bnd dvdnav_get_position (\<lambda>r. ret (r \<noteq> None))"
| "nav_run (NavSetState s) = dvdnav_set_state s"
| "nav_run (NavTimeMap reread n t mode) = dvdnav_jump_to_sector_by_time reread n t mode"
| "nav_run (NavChapters ifo_of n t) = bnd (dvdnav_describe_title_chapters ifo_of n t) (\<lambda>(k, _). ret (k \<noteq> 0))"

fun nav_ok :: "nav_call \<Rightarrow> bool" where
  "nav_ok (NavSetState s) = wf_save s"
| "nav_ok _ = True"

lemma nav_with_packet: "(\<And>p. nav_prog (m p)) \<Longrightarrow> nav_prog (with_packet m)"
  unfolding with_packet_def by (intro keeps_bnd keeps_rd)

lemma nav_part_search: "nav_prog (dvdnav_part_search fuel part)"
  unfolding dvdnav_part_search_def by (intro nav_intro keeps_intro nav_plays)

lemma nav_call_keeps: "nav_ok c \<Longrightarrow> nav_prog (nav_run c)"
  by (cases c)
    (auto simp: dvdnav_upper_button_select_def dvdnav_lower_button_select_def
      dvdnav_right_button_select_def dvdnav_left_button_select_def
      intro!: nav_with_packet keeps_ret nav_reset nav_flags nav_button_activate nav_button_activate_cmd
        nav_button_select nav_select_and_activate nav_move_button nav_mouse_select nav_mouse_activate
        nav_plays nav_time_search nav_sector_search nav_part_search nav_pg_searches nav_next_pg_search
        nav_menu_call nav_set_state nav_jump_by_time keeps_bnd [OF nav_describe_chapters] keeps_bnd [OF nav_get_next_cache_block] keeps_bnd [OF nav_get_position])

interpretation nav: session dvdnav_inv nav_run nav_ok
  by unfold_locales (rule nav_call_keeps)

section \<open>Opening\<close>

lemma open_inv:
  assumes "wf_disc found" and "dvdnav_open e found m op med = Inr (Some d)"
  shows "dvdnav_inv d"
proof -
  let ?m = "bnd (in_vm (vm_reset True found)) (\<lambda>ok. if \<not> ok then ret False
    else sq (upd (\<lambda>d. d\<lparr>nav_map := m, nav_file := (if op 0 False then Some (0, False) else None)\<rparr>)) dvdnav_clear)"
  have "dvdnav_inv (dvdnav_alloc e op med)"
    by (simp add: dvdnav_inv_def dvdnav_alloc_def vm_new_vm_inv pci_zero_def dsi_zero_def wf_pci_at wf_dsi_at
        wf_vobu_def vobu_zero_def fits32_def)
  moreover have "nav_prog ?m"
    by (intro nav_intro keeps_intro inv_vm_reset assms(1) nav_upd; simp)
  ultimately have "wpe ?m (\<lambda>_. dvdnav_inv) (\<lambda>_. True) (dvdnav_alloc e op med)" by (rule keepsD [rotated])
  then show ?thesis
    using assms(2) by (auto simp: dvdnav_open_def wpe_def split: sum.splits if_splits)
qed

text \<open>
  The invariant in every state a session of calls can reach from \<open>dvdnav_open\<close> on a disc with
  well-formed tables.
\<close>

lemma nav_reaches_inv:
  assumes "wf_disc found" and "dvdnav_open e found m op med = Inr (Some d)"
    and "reaches nav_run nav_ok d d'"
  shows "dvdnav_inv d'"
  using nav.reaches_inv [OF assms(3) open_inv [OF assms(1,2)]] .

end
