(* ===== verification/Dvdnav_Events.thy ===== *)
theory Dvdnav_Events
  imports Dvdnav_Session
begin

text \<open>
  The order of the events of \<^verbatim>\<open>dvdnav_get_next_cache_block\<close>: which events announce a change of
  the position, in which order they come, and that there are at most seven of them in a row.
\<close>

section \<open>The position the machine reports\<close>

text \<open>\<open>stays v v'\<close>: the machine \<open>v'\<close> reports the position of \<open>v\<close>, except for the block.\<close>

definition stays :: "vm \<Rightarrow> vm \<Rightarrow> bool" where
  "stays v v' \<longleftrightarrow> (\<forall>pos t. vm_position_get v = Inr (pos, t) \<longrightarrow>
     (\<exists>b t'. vm_position_get v' = Inr (pos\<lparr>p_block := b\<rparr>, t')))"

lemma stays_refl: "stays v v"
proof -
  have "pos = pos\<lparr>p_block := p_block pos\<rparr>" for pos :: vm_position by simp
  then show ?thesis unfolding stays_def by metis
qed

lemma stays_trans: "stays u v \<Longrightarrow> stays v w \<Longrightarrow> stays u w"
  by (fastforce simp: stays_def)

text \<open>What a position is made of.\<close>

definition position_at :: "vm \<Rightarrow> u16 \<Rightarrow> u16 \<Rightarrow> u16 \<Rightarrow> u16 \<Rightarrow> pgc \<Rightarrow> cell_playback \<Rightarrow> vm_position" where
  "position_at v btn spu ast agl g c =
     (let still = uint (cell_still_time c) +
            (if cellN (state v) = uint (nr_of_cells g) then uint (pgc_still_time g) else 0)
      in \<lparr>p_button = uint (drop_bit 10 btn), p_vts = vtsN (state v), p_domain = domain (state v),
          p_spu_channel = uint spu, p_angle_channel = uint agl, p_audio_channel = uint ast,
          p_hop_channel = hop_channel v, p_cell = cellN (state v), p_cell_restart = cell_restart (state v),
          p_cell_start = sint (first_sector c), p_still = (if still \<noteq> 0 then still else guessed_still c),
          p_block = blockN (state v)\<rparr>)"

definition position_parts :: "vm \<Rightarrow> vm_position \<Rightarrow> bool" where
  "position_parts v pos \<longleftrightarrow> (\<exists>btn spu ast agl p g c.
     arr_get (SPRM (registers (state v))) 8 = Inr btn \<and> arr_get (SPRM (registers (state v))) 2 = Inr spu \<and>
     arr_get (SPRM (registers (state v))) 1 = Inr ast \<and> arr_get (SPRM (registers (state v))) 3 = Inr agl \<and>
     cur_pgc (state v) = Some p \<and> find_pgc v p = Some g \<and>
     arr_get (cell_playback g) (cellN (state v) - 1) = Inr c \<and> pos = position_at v btn spu ast agl g c)"

lemma get_sprm_Inr: "get_sprm i v = Inr (x, t) \<longleftrightarrow> t = v \<and> arr_get (SPRM (registers (state v))) i = Inr x"
  by (auto simp: get_sprm_def get_st_def run split: sum.splits)

lemma the_pgc_Inr:
  "the_pgc v = Inr (g, t) \<longleftrightarrow> t = v \<and> (\<exists>p. cur_pgc (state v) = Some p \<and> find_pgc v p = Some g)"
  by (auto simp: the_pgc_def get_st_def run split: option.splits)

lemma bnd_Inr: "bnd m f s = Inr (b, t) \<longleftrightarrow> (\<exists>a u. m s = Inr (a, u) \<and> f a u = Inr (b, t))"
  by (auto simp: run split: sum.splits)

lemma lift_r_Inr: "lift_r r s = Inr (a, t) \<longleftrightarrow> r = Inr a \<and> t = s"
  by (auto simp: run split: sum.splits)

lemma the_cell_Inr:
  "the_cell i v = Inr (c, t) \<longleftrightarrow> t = v \<and> (\<exists>g. the_pgc v = Inr (g, v) \<and> arr_get (cell_playback g) i = Inr c)"
  by (auto simp: the_cell_def bnd_Inr the_pgc_Inr lift_r_Inr)

lemma vm_position_get_alt:
  "vm_position_get =
     bnd (get_sprm HL_BTNN_REG) (\<lambda>btn. bnd (get_sprm SPST_REG) (\<lambda>spu. bnd (get_sprm AST_REG) (\<lambda>ast.
     bnd (get_sprm AGL_REG) (\<lambda>agl. bnd (rd (\<lambda>v. v)) (\<lambda>v. bnd (the_cell (cellN (state v) - 1)) (\<lambda>c.
     bnd the_pgc (\<lambda>g. ret (position_at v btn spu ast agl g c))))))))"
  by (simp only: vm_position_get_def position_at_def Let_def)

lemma rd_Inr: "rd f s = Inr (a, t) \<longleftrightarrow> a = f s \<and> t = s"
  by (auto simp: run)

lemma ret_Inr: "ret x s = Inr (a, t) \<longleftrightarrow> a = x \<and> t = s"
  by (auto simp: run)

lemmas read_Inr = bnd_Inr rd_Inr ret_Inr lift_r_Inr get_sprm_Inr the_pgc_Inr the_cell_Inr


lemma bnd_readonlyE:
  "readonly m \<Longrightarrow> bnd m f s = Inr (b, t) \<Longrightarrow> (\<And>a. m s = Inr (a, s) \<Longrightarrow> f a s = Inr (b, t) \<Longrightarrow> P) \<Longrightarrow> P"
  by (auto simp: bnd_Inr dest: readonlyD)

lemmas read_elims = bnd_readonlyE [OF readonly_get_sprm] bnd_readonlyE [OF readonly_rd]
  bnd_readonlyE [OF readonly_the_cell] bnd_readonlyE [OF readonly_the_pgc]

lemma position_partsI: 
  assumes "vm_position_get v = Inr (pos, t)"
  shows "position_parts v pos"
proof -
  from assms obtain btn spu ast agl c g where
    1: "get_sprm HL_BTNN_REG v = Inr (btn, v)" "get_sprm SPST_REG v = Inr (spu, v)" "get_sprm AST_REG v = Inr (ast, v)"
      "get_sprm AGL_REG v = Inr (agl, v)" and
    2: "the_cell (cellN (state v) - 1) v = Inr (c, v)" "the_pgc v = Inr (g, v)" "pos = position_at v btn spu ast agl g c"
    unfolding vm_position_get_alt
    by (elim read_elims) (auto simp only: rd_Inr ret_Inr)
  from 2(1,2) obtain p where "cur_pgc (state v) = Some p" "find_pgc v p = Some g"
    "arr_get (cell_playback g) (cellN (state v) - 1) = Inr c"
    by (auto simp only: the_cell_Inr the_pgc_Inr option.inject prod.inject sum.inject)
  with 1 2(3) show ?thesis
    unfolding position_parts_def get_sprm_Inr HL_BTNN_REG_def SPST_REG_def AST_REG_def AGL_REG_def by blast
qed

lemma position_partsD: 
  assumes "position_parts v pos"
  shows "vm_position_get v = Inr (pos, v)"
proof -
  from assms obtain btn spu ast agl p g c where
    1: "get_sprm HL_BTNN_REG v = Inr (btn, v)" "get_sprm SPST_REG v = Inr (spu, v)" "get_sprm AST_REG v = Inr (ast, v)"
      "get_sprm AGL_REG v = Inr (agl, v)" and
    2: "the_pgc v = Inr (g, v)" and 3: "the_cell (cellN (state v) - 1) v = Inr (c, v)" "pos = position_at v btn spu ast agl g c"
    unfolding position_parts_def get_sprm_Inr the_cell_Inr the_pgc_Inr HL_BTNN_REG_def SPST_REG_def AST_REG_def AGL_REG_def
    by blast
  then show ?thesis
    unfolding vm_position_get_alt by (simp only: run sum.case prod.case)
qed
lemma stays_iff: "stays v v' \<longleftrightarrow> (\<forall>pos. position_parts v pos \<longrightarrow> (\<exists>b. position_parts v' (pos\<lparr>p_block := b\<rparr>)))"
  unfolding stays_def by (meson position_partsD position_partsI)

lemma find_pgc_upd_st: "find_pgc (v\<lparr>state := s\<rparr>) p = find_pgc v p"
  by (simp add: find_pgc_def split: option.split)

lemma stays_block: "stays v (v\<lparr>state := (state v)\<lparr>blockN := b\<rparr>\<rparr>)"
  unfolding stays_iff
proof (intro allI impI exI)
  fix pos assume "position_parts v pos"
  then show "position_parts (v\<lparr>state := (state v)\<lparr>blockN := b\<rparr>\<rparr>) (pos\<lparr>p_block := b\<rparr>)"
    unfolding position_parts_def by (elim exE, intro exI) (auto simp: find_pgc_upd_st position_at_def Let_def)
qed

lemma stays_sprm14:
  assumes "arr_set (SPRM (registers (state v))) 14 x = Inr ys"
  shows "stays v (v\<lparr>state := (state v)\<lparr>registers := (registers (state v))\<lparr>SPRM := ys\<rparr>\<rparr>\<rparr>)"
  unfolding stays_iff
proof (intro allI impI exI)
  fix pos assume "position_parts v pos"
  moreover have "i \<noteq> 14 \<Longrightarrow> 0 \<le> i \<Longrightarrow> arr_get ys i = arr_get (SPRM (registers (state v))) i" for i
    using assms by (auto simp: arr_iffs arr_get_def nth_list_update)
  ultimately show "position_parts (v\<lparr>state := (state v)\<lparr>registers := (registers (state v))\<lparr>SPRM := ys\<rparr>\<rparr>\<rparr>)
      (pos\<lparr>p_block := p_block pos\<rparr>)"
    unfolding position_parts_def by (elim exE, intro exI) (auto simp: find_pgc_upd_st position_at_def Let_def)
qed

text \<open>Programs of the machine after which it reports the same position.\<close>

definition stays_put :: "(vm, 'a) prog \<Rightarrow> bool" where
  "stays_put m \<longleftrightarrow> (\<forall>v. triple (stays v) m (\<lambda>_. stays v))"

lemma stays_putD: "stays_put m \<Longrightarrow> m v = Inr (a, v') \<Longrightarrow> stays v v'"
  unfolding stays_put_def using stays_refl by (blast dest: tripleD)

lemma stays_put_keeps: "stays_put m \<longleftrightarrow> (\<forall>v. keeps (stays v) (\<lambda>_. True) m)"
  by (simp add: stays_put_def triple_keeps)

lemma stays_put_readonly: "readonly m \<Longrightarrow> stays_put m"
  by (simp add: stays_put_keeps readonly_keeps)

lemma stays_put_sprm14: "stays_put (put_sprm 14 x)"
  unfolding stays_put_def
proof (intro allI tripleI)
  fix v s t a assume "stays v s" and "put_sprm 14 x s = Inr (a, t)"
  then show "stays v t"
    using stays_trans [OF _ stays_sprm14] by (fastforce simp: put_sprm_def get_st_def upd_st_def run split: sum.splits)
qed

lemma keeps_stays:
  "readonly m \<Longrightarrow> keeps (stays v) (\<lambda>_. True) m"
  by (rule readonly_keeps)

lemma stays_put_aspect: "stays_put vm_get_video_aspect"
proof -
  have "keeps (stays v) (\<lambda>_. True) (put_sprm 14 x)" for v x
    using stays_put_sprm14 by (simp add: stays_put_keeps)
  then show ?thesis
    unfolding stays_put_keeps vm_get_video_aspect_def Let_def
    by (intro allI keeps_intro keeps_stays [OF readonly_video_attr] keeps_stays [OF readonly_get_sprm]) auto
qed

lemma stays_put_subp: "stays_put (vm_get_subp_stream n m)"
  using stays_put_aspect unfolding stays_put_keeps vm_get_subp_stream_def
  by (intro allI keeps_intro keeps_stays [OF readonly_the_pgc] keeps_stays [OF readonly_get_st] keeps_lift_r) auto

lemma stays_put_first_subp: "stays_put (first_subp m is r)"
  using stays_put_subp unfolding stays_put_keeps
  by (intro allI, induction m "is" r rule: first_subp.induct)
    (auto intro!: keeps_intro keeps_stays [OF readonly_the_pgc] keeps_lift_r)

lemma stays_put_active_subp: "stays_put (vm_get_subp_active_stream m)"
  using stays_put_subp stays_put_first_subp unfolding stays_put_keeps vm_get_subp_active_stream_def
  by (intro allI keeps_intro keeps_stays [OF readonly_get_sprm]) auto


section \<open>The order of the tests\<close>

text \<open>The first test of \<open>next_event\<close> that applies, and the test an event belongs to.\<close>

definition stage :: "dvdnav \<Rightarrow> nat" where
  "stage d =
     (if p_hop_channel (position_current d) \<noteq> p_hop_channel (position_next d) then 0
      else if p_button (position_current d) \<noteq> p_button (position_next d) then 1
      else if sync_wait d then 2
      else if vts_changed d then 3
      else if cell_changed d then 4
      else if spu_clut_changed d then 5
      else if p_spu_channel (position_current d) \<noteq> p_spu_channel (position_next d) then 6
      else if p_audio_channel (position_current d) \<noteq> p_audio_channel (position_next d) then 7
      else 8)"

lemma stage_gt:
  "0 < stage d \<longleftrightarrow> p_hop_channel (position_current d) = p_hop_channel (position_next d)"
  "Suc 0 < stage d \<longleftrightarrow> 0 < stage d \<and> p_button (position_current d) = p_button (position_next d)"
  "2 < stage d \<longleftrightarrow> Suc 0 < stage d \<and> \<not> sync_wait d"
  "3 < stage d \<longleftrightarrow> 2 < stage d \<and> \<not> vts_changed d"
  "4 < stage d \<longleftrightarrow> 3 < stage d \<and> \<not> cell_changed d"
  "5 < stage d \<longleftrightarrow> 4 < stage d \<and> \<not> spu_clut_changed d"
  "6 < stage d \<longleftrightarrow> 5 < stage d \<and> p_spu_channel (position_current d) = p_spu_channel (position_next d)"
  "7 < stage d \<longleftrightarrow> 6 < stage d \<and> p_audio_channel (position_current d) = p_audio_channel (position_next d)"
  by (simp_all add: stage_def)

lemma stage_eq:
  "stage d = 0 \<longleftrightarrow> p_hop_channel (position_current d) \<noteq> p_hop_channel (position_next d)"
  "stage d = Suc 0 \<longleftrightarrow> 0 < stage d \<and> p_button (position_current d) \<noteq> p_button (position_next d)"
  "stage d = 2 \<longleftrightarrow> Suc 0 < stage d \<and> sync_wait d"
  "stage d = 3 \<longleftrightarrow> 2 < stage d \<and> vts_changed d"
  "stage d = 4 \<longleftrightarrow> 3 < stage d \<and> cell_changed d"
  "stage d = 5 \<longleftrightarrow> 4 < stage d \<and> spu_clut_changed d"
  "stage d = 6 \<longleftrightarrow> 5 < stage d \<and> p_spu_channel (position_current d) \<noteq> p_spu_channel (position_next d)"
  "stage d = 7 \<longleftrightarrow> 6 < stage d \<and> p_audio_channel (position_current d) \<noteq> p_audio_channel (position_next d)"
  by (simp_all add: stage_def)

lemmas stage_simps = stage_gt stage_eq

fun rank :: "event \<Rightarrow> nat" where
  "rank HOP_CHANNEL = 0"
| "rank (HIGHLIGHT _) = 1"
| "rank (VTS_CHANGE _ _ _ _) = 3"
| "rank (CELL_CHANGE _) = 4"
| "rank (SPU_CLUT_CHANGE _) = 5"
| "rank (SPU_STREAM_CHANGE _ _ _) = 6"
| "rank (AUDIO_STREAM_CHANGE _ _) = 7"
| "rank _ = 8"

abbreviation announces :: "event \<Rightarrow> bool" where
  "announces e \<equiv> rank e < 8"

text \<open>The machine still reports \<open>n\<close>, up to the block.\<close>

definition settled :: "vm \<Rightarrow> vm_position \<Rightarrow> dvdnav \<Rightarrow> bool" where
  "settled v n d \<longleftrightarrow> started d \<and> position_next d = n \<and> stays v (nav_vm d)"

abbreviation settles :: "vm \<Rightarrow> vm_position \<Rightarrow> (dvdnav, 'a) prog \<Rightarrow> bool" where
  "settles v n m \<equiv> keeps (settled v n) (\<lambda>_. True) m"

named_theorems settles_intro

lemma settles_in_vm [settles_intro]: "stays_put m \<Longrightarrow> settles v n (in_vm m)"
  by (auto simp: keeps_def wpe_def in_vm_def settled_def dest: stays_putD elim: stays_trans split: sum.splits)

lemma settles_upd:
  "(\<And>d. started (f d) = started d \<and> position_next (f d) = position_next d \<and> nav_vm (f d) = nav_vm d) \<Longrightarrow>
   settles v n (upd f)"
  by (simp add: keeps_def settled_def)

lemma settles_int32 [settles_intro]: "settles v n (int32 x)"
  by (simp add: keeps_def int32_def)

lemma settles_lift_r [settles_intro]: "settles v n (lift_r r)"
  by (rule keeps_lift_r) simp

lemma settles_printerr [settles_intro]: "settles v n (printerr msg)"
  unfolding printerr_def by (rule settles_upd) simp

lemma settles_read_block [settles_intro]: "settles v n (read_block b)"
  unfolding read_block_def by (rule keeps_rd)

lemma settles_decode [settles_intro]: "settles v n (dvdnav_decode_packet buf)"
proof -
  have b: "settles v n (byte_at buf p)" "settles v n (word16_at buf p)" for p
    unfolding word16_at_def byte_at_def by (intro keeps_intro settles_intro)+
  have "settles v n (read_pci_at buf p)" "settles v n (read_dsi_at buf p)" for p
    unfolding read_pci_at_def read_dsi_at_def by (intro keeps_intro settles_intro settles_upd; simp)+
  then show ?thesis
    unfolding dvdnav_decode_packet_def skip_pack_header_def skip_system_header_def
    by (intro keeps_intro b)
qed

lemma settles_get_vobu [settles_intro]: "settles v n dvdnav_get_vobu"
  unfolding dvdnav_get_vobu_def
  by (intro keeps_intro settles_intro settles_upd stays_put_readonly readonly_vm_get_angle_info; simp)

lemma stays_put_block: "stays_put (upd_st (\<lambda>t. t\<lparr>blockN := b\<rparr>))"
  unfolding stays_put_def upd_st_def
  by (auto intro!: tripleI simp: run elim: stays_trans [OF _ stays_block])


section \<open>The events\<close>

lemma readonly_in_vm: "readonly m \<Longrightarrow> readonly (in_vm m)"
  by (fastforce simp: readonly_def in_vm_def split: sum.splits)

lemma triple_ok: "keeps I (\<lambda>_. True) m \<Longrightarrow> triple I m (\<lambda>ok d. ok \<longrightarrow> I d)"
  by (auto simp: triple_keeps elim: triple_weaken)

lemma triple_case_option:
  "triple I m Q \<Longrightarrow> (\<And>x. triple I (f x) Q) \<Longrightarrow> triple I (case r of None \<Rightarrow> m | Some x \<Rightarrow> f x) Q"
  by (simp split: option.split)

lemma triple_not_ok: "triple I (sq m (ret False)) (\<lambda>ok d. ok \<longrightarrow> J d)"
  by (auto intro!: tripleI simp: run split: sum.splits)

lemma triple_fail_with: "triple I (fail_with msg False) (\<lambda>ok d. ok \<longrightarrow> J d)"
  unfolding fail_with_def by (rule triple_not_ok)

lemma seek_angles_settles: "triple (settled v n) (seek_angles fuel) (\<lambda>ok. if ok then settled v n else (\<lambda>_. True))"
proof -
  have eq: "(\<lambda>ok. if ok then settled v n else (\<lambda>_. True)) = (\<lambda>ok d. ok \<longrightarrow> settled v n d)" by auto
  show ?thesis
    unfolding seek_angles_def eq
    by (intro triple_keeps_bnd triple_keeps_sq triple_if triple_case_option triple_fail_with triple_not_ok
        triple_ok keeps_intro settles_intro stays_put_block settles_upd; simp)
qed


text \<open>What an event that announces a change leaves behind.\<close>

definition announced :: "vm \<Rightarrow> vm_position \<Rightarrow> nat \<Rightarrow> event \<Rightarrow> dvdnav \<Rightarrow> bool" where
  "announced v n k e d \<longleftrightarrow> rank e = k \<and> settled v n d \<and> k < stage d"

lemma hop_announced:
  assumes "hop_event fuel d = Inr ((True, e), d')" and "started d"
  shows "announced (nav_vm d) (position_next d) 0 e d'"
proof -
  let ?I = "settled (nav_vm d) (position_next d)"
  have "?I d" using assms(2) by (simp add: settled_def stays_refl)
  have angles: "stays_put vm_get_angle_info" by (rule stays_put_readonly [OF readonly_vm_get_angle_info])
  have "triple ?I (hop_event fuel) (\<lambda>(ok, e) d'. ok \<longrightarrow> announced (nav_vm d) (position_next d) 0 e d')"
    unfolding hop_event_def
  proof (intro triple_keeps_bnd [OF keeps_rd] triple_bnd)
    fix seek
    show "triple ?I (if seek then bnd (in_vm vm_get_angle_info) (\<lambda>(_, num_angles). if num_angles > 1 then seek_angles fuel else ret True)
        else ret True) (\<lambda>ok. if ok then ?I else (\<lambda>_. True))"
      using seek_angles_settles
      by (intro triple_if triple_keeps_bnd [OF settles_in_vm [OF angles]])
        (auto simp: split_beta intro!: triple_if intro: tripleI simp: run)
  next
    fix ok
    show "triple (if ok then ?I else (\<lambda>_. True))
      (if \<not> ok then ret (False, HOP_CHANNEL)
       else bnd (rd position_next) (\<lambda>pos. bnd (int32 (p_cell_start pos + p_block pos)) (\<lambda>s.
         sq (upd (\<lambda>d. d\<lparr>position_current := (position_current d)\<lparr>p_hop_channel := p_hop_channel pos\<rparr>,
               vobu := \<lparr>vobu_start = s, vobu_length = 0, vobu_blockN = 0, vobu_next = 0\<rparr>, sync_wait := False\<rparr>))
           (ret (True, HOP_CHANNEL)))))
      (\<lambda>(ok, e) d'. ok \<longrightarrow> announced (nav_vm d) (position_next d) 0 e d')"
      by (cases ok) (auto intro!: tripleI simp: run int32_def announced_def settled_def stage_simps
          split: if_splits sum.splits)
  qed
  from tripleD [OF this \<open>?I d\<close> assms(1)] show ?thesis by simp
qed

lemma highlight_announced:
  "stage d = 1 \<Longrightarrow> started d \<Longrightarrow> highlight_event d = Inr ((True, e), d') \<Longrightarrow>
   announced (nav_vm d) (position_next d) 1 e d'"
  by (auto simp: highlight_event_def run announced_def settled_def stays_refl stage_simps split: if_splits)

lemma vts_announced:
  assumes "stage d = 3" and "started d" and "vts_event d = Inr ((True, e), d')"
  shows "announced (nav_vm d) (position_next d) 3 e d'"
proof -
  let ?pos = "position_next d"
  obtain n title where n: "vob_of (p_domain ?pos) (p_vts ?pos) = Some (n, title)"
    using assms(3) by (cases "vob_of (p_domain ?pos) (p_vts ?pos)") (auto simp: vts_event_def fail_with_def printerr_def run)
  have "rank e = 3" "d' = d\<lparr>nav_file := Some (n, title), spu_clut_changed := True,
      position_current := (position_current d)\<lparr>p_vts := p_vts ?pos, p_domain := p_domain ?pos, p_cell := -1,
        p_spu_channel := -1, p_audio_channel := -1\<rparr>\<rparr>"
    using assms(3) n by (simp_all add: vts_event_def fail_with_def run printerr_def split: if_splits)
       (clarsimp)
  with assms(1,2) show ?thesis
    by (simp add: announced_def settled_def stays_refl stage_simps vts_changed_def split: if_splits)
qed

lemma cell_announced:
  assumes "stage d = 4" and "started d" and "cell_change_event d = Inr ((True, e), d')"
  shows "announced (nav_vm d) (position_next d) 4 e d'"
proof -
  have "readonly (in_vm cell_info)" by (rule readonly_in_vm [OF readonly_cell_info])
  let ?d = "d\<lparr>cur_cell_time := 0\<rparr>"
  from assms(3) obtain i d1 where i: "in_vm cell_info ?d = Inr (i, d1)" and e: "e = CELL_CHANGE i"
    by (auto simp: cell_change_event_def run int32_def split: sum.splits if_splits)
  then have "d1 = ?d" by (blast dest: readonlyD [OF \<open>readonly (in_vm cell_info)\<close>])
  with assms e i show ?thesis
    by (auto simp: cell_change_event_def run int32_def announced_def settled_def stays_refl stage_simps vts_changed_def
        cell_changed_def split: if_splits)
qed

lemma clut_announced:
  "stage d = 5 \<Longrightarrow> started d \<Longrightarrow> clut_event d = Inr ((True, e), d') \<Longrightarrow>
   announced (nav_vm d) (position_next d) 5 e d'"
  by (auto simp: clut_event_def run announced_def settled_def stays_refl stage_simps vts_changed_def cell_changed_def
      dest: readonlyD [OF readonly_in_vm [OF readonly_the_pgc]] split: if_splits sum.splits)

lemma audio_announced:
  "stage d = 7 \<Longrightarrow> started d \<Longrightarrow> audio_event d = Inr ((True, e), d') \<Longrightarrow>
   announced (nav_vm d) (position_next d) 7 e d'"
  by (auto simp: audio_event_def run announced_def settled_def stays_refl stage_simps vts_changed_def cell_changed_def
      dest: readonlyD [OF readonly_in_vm [OF readonly_active]] split: if_splits sum.splits)

lemma in_vm_stays:
  "stays_put m \<Longrightarrow> in_vm m d = Inr (a, d') \<Longrightarrow> \<exists>v. d' = d\<lparr>nav_vm := v\<rparr> \<and> stays (nav_vm d) v"
  by (auto simp: in_vm_def dest: stays_putD split: sum.splits)

lemma spu_announced:
  assumes "stage d = 6" and "started d" and "spu_event d = Inr ((True, e), d')"
  shows "announced (nav_vm d) (position_next d) 6 e d'"
proof -
  from assms(3) obtain w l p v d1 d2 where
    d1: "in_vm (vm_get_subp_active_stream 0) d = Inr (w, d1)" and d2: "in_vm (vm_get_subp_active_stream 1) d1 = Inr (l, d2)"
    and d3: "in_vm (vm_get_subp_active_stream 2) d2 = Inr (p, v)" and e: "e = SPU_STREAM_CHANGE w l p"
    and d': "d' = v\<lparr>position_current := (position_current v)\<lparr>p_spu_channel := p_spu_channel (position_next v)\<rparr>\<rparr>"
    by (auto simp: spu_event_def run split: sum.splits)
  from in_vm_stays [OF stays_put_active_subp d1] obtain v1 where v1: "d1 = d\<lparr>nav_vm := v1\<rparr>" "stays (nav_vm d) v1" by blast
  from in_vm_stays [OF stays_put_active_subp d2] v1 obtain v2 where v2: "d2 = d\<lparr>nav_vm := v2\<rparr>" "stays v1 v2" by auto
  from in_vm_stays [OF stays_put_active_subp d3] v2 obtain v3 where v3: "v = d\<lparr>nav_vm := v3\<rparr>" "stays v2 v3" by auto
  have "stays (nav_vm d) v3" using v1(2) v2(2) v3(2) by (blast intro: stays_trans)
  then show ?thesis
    using assms(1,2) e d' v3(1) by (auto simp: announced_def settled_def stage_simps vts_changed_def cell_changed_def split: if_splits)
qed


section \<open>The order of the events\<close>

lemma quiet_events:
  "yields (\<lambda>(ok, e). rank e = 8) (end_of_cell fuel)"
  "yields (\<lambda>(ok, e). rank e = 8) (next_vobu_event fuel)"
  "yields (\<lambda>(ok, e). rank e = 8) block_event"
proof -
  have opt: "yields R m \<Longrightarrow> (\<And>x. yields R (f x)) \<Longrightarrow> yields R (case r of None \<Rightarrow> m | Some x \<Rightarrow> f x)"
    for R :: "'a \<Rightarrow> bool" and m f and r :: "'b option" by (simp split: option.split)
  show "yields (\<lambda>(ok, e). rank e = 8) (end_of_cell fuel)"
    unfolding end_of_cell_def by (intro yields_intro; simp)
  show "yields (\<lambda>(ok, e). rank e = 8) (next_vobu_event fuel)"
    unfolding next_vobu_event_def fail_with_def by (intro yields_intro opt; simp)
  show "yields (\<lambda>(ok, e). rank e = 8) block_event"
    unfolding block_event_def fail_with_def by (intro yields_intro opt; simp)
qed

lemma next_event_stage:
  "stage d = 0 \<Longrightarrow> next_event fuel d = hop_event fuel d"
  "stage d = Suc 0 \<Longrightarrow> next_event fuel d = highlight_event d"
  "stage d = 2 \<Longrightarrow> next_event fuel d = ret (True, WAIT) d"
  "stage d = 3 \<Longrightarrow> next_event fuel d = vts_event d"
  "stage d = 4 \<Longrightarrow> next_event fuel d = cell_change_event d"
  "stage d = 5 \<Longrightarrow> next_event fuel d = clut_event d"
  "stage d = 6 \<Longrightarrow> next_event fuel d = spu_event d"
  "stage d = 7 \<Longrightarrow> next_event fuel d = audio_event d"
  by (simp_all add: next_event_def stage_simps)

lemma next_event_announced:
  assumes "next_event fuel d = Inr ((True, e), d')" and "announces e" and "started d"
  shows "announced (nav_vm d) (position_next d) (stage d) e d'"
proof -
  have "stage d < 8"
    using assms(1,2)
    by (rule_tac ccontr) (auto simp: next_event_def stage_def run split: if_splits dest!: quiet_events [THEN yieldsD])
  then consider "stage d = 0" | "stage d = 1" | "stage d = 2" | "stage d = 3" | "stage d = 4" | "stage d = 5"
    | "stage d = 6" | "stage d = 7" by linarith
  then show ?thesis
    using assms hop_announced [of fuel d e d'] highlight_announced [of d e d'] vts_announced [of d e d']
      cell_announced [of d e d'] clut_announced [of d e d'] spu_announced [of d e d'] audio_announced [of d e d']
    by cases (simp_all add: next_event_stage run)
qed


text \<open>After an event of rank below the stage the machine's position is compared with again.\<close>

definition ready :: "dvdnav \<Rightarrow> nat \<Rightarrow> bool" where
  "ready d k \<longleftrightarrow> started d \<and>
     (\<forall>pos t. vm_position_get (nav_vm d) = Inr (pos, t) \<longrightarrow> k < stage (d\<lparr>position_next := pos\<rparr>))"

lemma stage_block: "stage (d\<lparr>position_next := n\<lparr>p_block := b\<rparr>\<rparr>) = stage (d\<lparr>position_next := n\<rparr>)"
  by (simp add: stage_def vts_changed_def cell_changed_def)

lemma announced_ready:
  assumes "announced v n k e d" and "vm_position_get v = Inr (n, t)"
  shows "ready d k"
proof -
  from assms obtain b t' where "vm_position_get (nav_vm d) = Inr (n\<lparr>p_block := b\<rparr>, t')" "started d" "position_next d = n"
    "k < stage d"
    by (auto simp: announced_def settled_def stays_def)
  moreover from this have "stage (d\<lparr>position_next := n\<rparr>) = stage d" by (intro arg_cong [where f = stage]) simp
  ultimately show ?thesis by (metis ready_def stage_block Inr_inject prod.inject)
qed

lemma block_call:
  assumes "dvdnav_get_next_cache_block fuel d = Inr ((True, Some e), d')" and "announces e"
  shows "ready d' (rank e) \<and> (ready d k \<longrightarrow> k < rank e)"
proof -
  from assms(1) obtain d0 where d0: "nav_start fuel d = Inr (True, d0)"
    by (fastforce simp: dvdnav_get_next_cache_block_def run split: sum.splits if_splits)
  then have s0: "started d0" and same: "started d \<Longrightarrow> d0 = d"
    by (auto simp: nav_start_def fail_with_def run split: sum.splits if_splits)
  from assms d0 have run0: "\<not> stopped (nav_vm d0)"
    by (auto simp: dvdnav_get_next_cache_block_def run split: sum.splits if_splits)
  with assms(1) d0 obtain pos d1 where pos: "in_vm vm_position_get d0 = Inr (pos, d1)"
    and ev: "next_event fuel (d1\<lparr>position_next := pos\<rparr>) = Inr ((True, e), d')"
    by (fastforce simp: dvdnav_get_next_cache_block_def run split: sum.splits)
  then have "d1 = d0" by (blast dest: readonlyD [OF readonly_in_vm [OF readonly_vm_position_get]])
  with pos obtain t where t: "vm_position_get (nav_vm d0) = Inr (pos, t)" by (auto simp: in_vm_def split: sum.splits)
  let ?d = "d0\<lparr>position_next := pos\<rparr>"
  from next_event_announced [OF _ assms(2), of fuel ?d d'] ev s0 \<open>d1 = d0\<close>
  have a: "announced (nav_vm d0) pos (stage ?d) e d'" by simp
  then have "rank e = stage ?d" by (simp add: announced_def)
  moreover from announced_ready [OF a t] have "ready d' (stage ?d)" .
  ultimately show ?thesis using same t by (auto simp: ready_def)
qed

lemma announcements_sorted:
  assumes "run_all dvdnav_get_next_cache_block fuels d = Inr (rs, d')"
    and "list_all (\<lambda>(ok, e). ok \<and> (\<exists>x. e = Some x \<and> announces x)) rs"
  shows "sorted_wrt (<) (map (\<lambda>(ok, e). rank (the e)) rs) \<and>
    (ready d k \<longrightarrow> (\<forall>(ok, e)\<in>set rs. k < rank (the e)))"
  using assms
proof (induction fuels arbitrary: d rs k)
  case Nil
  then show ?case by (simp add: run)
next
  case (Cons f fs)
  then obtain x d1 qs where c: "dvdnav_get_next_cache_block f d = Inr ((True, Some x), d1)" "announces x"
    and qs: "run_all dvdnav_get_next_cache_block fs d1 = Inr (qs, d')" "rs = (True, Some x) # qs"
    and all: "list_all (\<lambda>(ok, e). ok \<and> (\<exists>x. e = Some x \<and> announces x)) qs"
    by (auto simp: run split: sum.splits)
  from block_call [OF c] Cons.IH [OF qs(1) all, of "rank x"]
  have "sorted_wrt (<) (map (\<lambda>(ok, e). rank (the e)) qs)" and "\<forall>(ok, e)\<in>set qs. rank x < rank (the e)"
    and "ready d k \<Longrightarrow> k < rank x" by blast+
  then show ?case by (auto simp: qs(2))
qed

lemma sorted_length:
  "sorted_wrt (<) ks \<Longrightarrow> set ks \<subseteq> {0, 1, 3, 4, 5, 6, 7::nat} \<Longrightarrow> length ks \<le> 7"
proof -
  assume "sorted_wrt (<) ks" "set ks \<subseteq> {0, 1, 3, 4, 5, 6, 7::nat}"
  then have "length ks = card (set ks)" by (simp add: distinct_card strict_sorted_iff)
  also have "\<dots> \<le> card {0, 1, 3, 4, 5, 6, 7::nat}" using \<open>set ks \<subseteq> _\<close> by (intro card_mono) simp
  finally show ?thesis by simp
qed

lemma announces_ranks: "announces e \<Longrightarrow> rank e \<in> {0, 1, 3, 4, 5, 6, 7}"
  by (cases e) simp_all

text \<open>
  C13: In a row of successful calls of \<open>dvdnav_get_next_cache_block\<close> that only announce changes,
  the announcements come in a fixed order (hop, highlight, title set, cell, colours, subpicture,
  audio), none twice; so after at most seven of them the caller gets a block, a still, a wait or
  the end.
\<close>

theorem announcements_in_order:
  assumes "run_all dvdnav_get_next_cache_block fuels d = Inr (rs, d')"
    and "list_all (\<lambda>(ok, e). ok \<and> (\<exists>x. e = Some x \<and> announces x)) rs"
  shows "sorted_wrt (<) (map (\<lambda>(ok, e). rank (the e)) rs) \<and> length rs \<le> 7"
proof -
  let ?ks = "map (\<lambda>(ok, e). rank (the e)) rs"
  from announcements_sorted [OF assms] have "sorted_wrt (<) ?ks" by blast
  moreover have "set ?ks \<subseteq> {0, 1, 3, 4, 5, 6, 7}"
    using assms(2) announces_ranks by (fastforce simp: list_all_iff)
  ultimately show ?thesis using sorted_length [of ?ks] by simp
qed


text \<open>The example machine in cell 3 of its title, seen by a library that has reported nothing yet.\<close>

definition ex_playing :: dvdnav where
  "ex_playing = (dvdnav_alloc ex_os (\<lambda>_ _. True) (\<lambda>_ _ _. None))\<lparr>nav_vm := ex_title 2 3, started := True\<rparr>"

lemmas event_runs = dvdnav_get_next_cache_block_def nav_start_def next_event_def in_vm_def vm_position_get_def
  guessed_still_def bcd_seconds_def highlight_event_def vts_event_def vob_of_def vts_changed_def cell_changed_def

theorem announcements_in_order_witness:
  "\<exists>rs d'. run_all dvdnav_get_next_cache_block [0, 0] ex_playing = Inr (rs, d') \<and>
    map (\<lambda>(ok, e). rank (the e)) rs = [1, 3] \<and> length rs \<le> 7"
proof -
  have "\<exists>d'. run_all dvdnav_get_next_cache_block [0, 0] ex_playing =
    Inr ([(True, Some (HIGHLIGHT 1)), (True, Some (VTS_CHANGE 0 NO_DOMAIN 1 VTS_DOMAIN))], d')"
    by (simp add: ex_playing_def dvdnav_alloc_def pos_zero_def event_runs run ex_defs table_runs Let_def)
  then obtain d' where r: "run_all dvdnav_get_next_cache_block [0, 0] ex_playing =
    Inr ([(True, Some (HIGHLIGHT 1)), (True, Some (VTS_CHANGE 0 NO_DOMAIN 1 VTS_DOMAIN))], d')" by blast
  from announcements_in_order [OF r] r show ?thesis by (intro exI) auto
qed

end
