(* ===== verification/Dvdnav_Props.thy ===== *)
theory Dvdnav_Props
  imports Dvdnav_Events
begin

text \<open>
  What the calls of the navigation library do, beyond keeping their invariant: failed searches
  leave the machine where it is, the address map and the mouse find what they look for, positions
  and seeks are inverse to each other, navigation packs are read from their places.
\<close>

section \<open>Failed searches\<close>

text \<open>Nothing has moved: only the clock, the random numbers, the message and the cell time may differ.\<close>

definition same_place :: "vm \<Rightarrow> vm \<Rightarrow> bool" where
  "same_place v v' \<longleftrightarrow> v'\<lparr>vm_env := vm_env v, next_hid := next_hid v\<rparr> = v"

definition unmoved :: "dvdnav \<Rightarrow> dvdnav \<Rightarrow> bool" where
  "unmoved d0 d \<longleftrightarrow> same_place (nav_vm d0) (nav_vm d) \<and>
     d\<lparr>nav_vm := nav_vm d0, err_str := err_str d0, cur_cell_time := cur_cell_time d0\<rparr> = d0"

abbreviation unmoving :: "dvdnav \<Rightarrow> (dvdnav, 'a) prog \<Rightarrow> bool" where
  "unmoving d0 m \<equiv> keeps (unmoved d0) (\<lambda>_. True) m"

named_theorems unmoving_intro

lemma unmoved_refl: "unmoved d d"
  by (simp add: unmoved_def same_place_def)

lemma same_place_trans:
  assumes "same_place u v" and "same_place v w"
  shows "same_place u w"
proof -
  have "w\<lparr>vm_env := vm_env u, next_hid := next_hid u\<rparr> =
      (w\<lparr>vm_env := vm_env v, next_hid := next_hid v\<rparr>)\<lparr>vm_env := vm_env u, next_hid := next_hid u\<rparr>" by simp
  also have "\<dots> = u" using assms by (simp only: same_place_def)
  finally show ?thesis by (simp only: same_place_def)
qed

lemma unmoving_in_vm: "(\<And>v a v'. m v = Inr (a, v') \<Longrightarrow> same_place v v') \<Longrightarrow> unmoving d0 (in_vm m)"
  by (auto simp: keeps_def wpe_def in_vm_def unmoved_def elim: same_place_trans split: sum.splits)

lemma unmoving_readonly [unmoving_intro]: "readonly m \<Longrightarrow> unmoving d0 (in_vm m)"
  by (rule unmoving_in_vm) (auto simp: same_place_def dest: readonlyD)

lemma unmoving_copy [unmoving_intro]: "unmoving d0 (in_vm vm_new_copy)"
proof (rule unmoving_in_vm)
  fix v a v' assume "vm_new_copy v = Inr (a, v')"
  then obtain n t k where "get_PGCN v = Inr (n, t)" and "v' = t\<lparr>next_hid := k\<rparr>"
    by (auto simp: vm_new_copy_def run split: sum.splits if_splits)
  moreover from this have "t = v" by (auto dest: readonlyD [OF readonly_get_PGCN])
  ultimately show "same_place v v'" by (auto simp: same_place_def)
qed

lemma unmoving_on_copy [unmoving_intro]: "unmoving d0 (on_copy t m)"
  by (auto simp: keeps_def wpe_def on_copy_def unmoved_def same_place_def split: sum.split)

lemma unmoving_fail_with [unmoving_intro]: "unmoving d0 (fail_with msg r)"
  by (simp add: keeps_def fail_with_def printerr_def unmoved_def same_place_def)

lemma unmoving_zero_time [unmoving_intro]: "unmoving d0 (upd (\<lambda>d. d\<lparr>cur_cell_time := 0\<rparr>))"
  by (simp add: keeps_def unmoved_def)

text \<open>Either the call succeeds or nothing has moved.\<close>

definition all_or_nothing :: "(dvdnav, bool) prog \<Rightarrow> bool" where
  "all_or_nothing m \<longleftrightarrow> (\<forall>d0. triple (unmoved d0) m (\<lambda>ok d. \<not> ok \<longrightarrow> unmoved d0 d))"

lemma all_or_nothingI: "(\<And>d0. triple (unmoved d0) m (\<lambda>ok d. \<not> ok \<longrightarrow> unmoved d0 d)) \<Longrightarrow> all_or_nothing m"
  by (simp add: all_or_nothing_def)

lemma triple_failed: "unmoving d0 m \<Longrightarrow> triple (unmoved d0) m (\<lambda>ok d. \<not> ok \<longrightarrow> unmoved d0 d)"
  by (auto simp: triple_keeps elim: triple_weaken)

lemma triple_done: "triple I (sq m (sq n (ret True))) (\<lambda>ok d. \<not> ok \<longrightarrow> J d)"
  "triple I (sq m (sq n (sq k (ret True)))) (\<lambda>ok d. \<not> ok \<longrightarrow> J d)"
  by (auto intro!: tripleI simp: run split: sum.splits)

lemma triple_prod: "(\<And>a b. triple I (f a b) Q) \<Longrightarrow> triple I (case r of (a, b) \<Rightarrow> f a b) Q"
  by (simp split: prod.split)

lemma next_pg_search_all_or_nothing: "all_or_nothing (dvdnav_next_pg_search fuel)"
  unfolding dvdnav_next_pg_search_def with_pgc_def
  by (intro all_or_nothingI triple_keeps_bnd triple_if triple_prod triple_done triple_failed [OF unmoving_fail_with]
      unmoving_intro readonly_get_st)

lemma menu_call_all_or_nothing: "all_or_nothing (dvdnav_menu_call fuel menu)"
  unfolding dvdnav_menu_call_def try_menu_def with_pgc_def
  by (intro all_or_nothingI triple_keeps_bnd triple_keeps_sq triple_if triple_prod triple_done
      triple_failed [OF unmoving_fail_with] unmoving_intro readonly_get_st)

text \<open>
  C18: A skip to the next chapter or a menu call that fails leaves the machine where it is, whatever
  commands ran on the copy it was tried on: only the message, the cell time and the environment
  (clock, random numbers) may have changed.
\<close>

theorem failed_searches_keep:
  assumes "dvdnav_next_pg_search fuel d = Inr (False, d') \<or> dvdnav_menu_call fuel menu d = Inr (False, d')"
  shows "unmoved d d'"
  using assms next_pg_search_all_or_nothing [of fuel] menu_call_all_or_nothing [of fuel menu] unmoved_refl [of d]
  unfolding all_or_nothing_def by (blast dest: tripleD)

lemmas menu_runs = dvdnav_menu_call_def with_pgc_def in_vm_def vm_new_copy_def reopen_copy_def find_pgcn.simps
  ifoOpenNewVTSI_def ifoOpenVTSI_def read_vtsi_def try_menu_def on_copy_def vm_jump_menu_def set_RSMinfo_def
  pgci_ut_missing_def find_lang.simps set_MENU_def get_ID_def find_entry.simps fail_with_def printerr_def

theorem failed_searches_keep_witness:
  "\<exists>d'. dvdnav_menu_call 0 DVD_MENU_Audio ex_playing = Inr (False, d') \<and>
    err_str d' = ''No such menu or menu not reachable.'' \<and> unmoved ex_playing d'"
proof -
  have "\<exists>d'. dvdnav_menu_call 0 DVD_MENU_Audio ex_playing = Inr (False, d') \<and>
      err_str d' = ''No such menu or menu not reachable.''"
    by (simp add: ex_playing_def dvdnav_alloc_def menu_runs run ex_defs table_runs Let_def)
  then show ?thesis using failed_searches_keep by blast
qed

section \<open>Times\<close>

text \<open>The frames of a time, in ticks of 1/90000 second.\<close>

definition frame_ticks :: "dvd_time \<Rightarrow> int" where
  "frame_ticks t =
     (uint (drop_bit 4 (dt_frame_u t AND 0x30)) * 10 + uint (dt_frame_u t AND 0x0f)) *
     (if dt_frame_u t AND 0x80 \<noteq> 0 then 3000 else 3600)"

text \<open>
  A time is converted to its seconds and frames in ticks, unless the low digit of its hours is
  7 or more: then a product of the conversion exceeds an \<open>int\<close>.
\<close>

theorem convert_time_result:
  "dvdnav_convert_time t =
     (if uint (dt_hour t AND 0x0f) \<ge> 7 then Inl SignedOverflow
      else Inr (bcd_seconds t * 90000 + frame_ticks t))"
  by (simp add: dvdnav_convert_time_def Let_def bcd_seconds_def frame_ticks_def algebra_simps)


section \<open>The address map\<close>

lemma admap_loop_below:
  "sorted as \<Longrightarrow> start \<le> seekto \<Longrightarrow> as = us @ a # vs \<Longrightarrow> \<forall>u\<in>set us. u \<le> seekto \<Longrightarrow> seekto < a \<Longrightarrow>
   admap_loop as seekto start nxt = (last (start # us), Some a)"
proof (induction us arbitrary: "as" start nxt)
  case (Cons u us)
  then have "admap_loop (us @ a # vs) seekto u (Some u) = (last (u # us), Some a)" by simp
  then show ?case using Cons.prems by auto
qed simp

lemma admap_loop_end:
  "(\<forall>a\<in>set as. a \<le> seekto) \<Longrightarrow> as \<noteq> [] \<Longrightarrow> admap_loop as seekto start nxt = (last as, Some (last as))"
  by (induction "as" arbitrary: start nxt) (auto split: if_splits)

lemma admap_loop_above:
  "(\<forall>a\<in>set as. seekto < a) \<Longrightarrow> seekto < start \<Longrightarrow> as \<noteq> [] \<Longrightarrow>
   admap_loop as seekto start nxt = (last as, Some (last as))"
  by (induction "as" arbitrary: start nxt) auto

text \<open>
  C37: On a sorted address map the scan finds the last VOBU that starts at or before the target and,
  where it is asked for it, the first one behind the target.  A target before the first VOBU is
  answered with the last VOBU of the map.
\<close>

theorem scan_admap_result:
  assumes "domain_admap dm v = Inr (Some as, v)" and "as \<noteq> []" and "sorted as" and "seekto < 0x3fffffff"
  shows "dvdnav_scan_admap dm seekto False v =
      Inr (Some (if hd as \<le> seekto then last (takeWhile (\<lambda>a. a \<le> seekto) as) else last as), v) \<and>
    (hd as \<le> seekto \<longrightarrow> dvdnav_scan_admap dm seekto True v =
      Inr (Some (if \<forall>a\<in>set as. a \<le> seekto then last as else hd (dropWhile (\<lambda>a. a \<le> seekto) as)), v))"
proof (cases "hd as \<le> seekto")
  case False
  then have "\<forall>a\<in>set as. seekto < a" using assms(2,3) by (cases "as") auto
  from admap_loop_above [OF this _ assms(2)] assms False show ?thesis
    by (simp add: dvdnav_scan_admap_def run)
next
  case True
  show ?thesis
  proof (cases "\<forall>a\<in>set as. a \<le> seekto")
    case True
    with admap_loop_end [OF this assms(2)] assms show ?thesis
      by (simp add: dvdnav_scan_admap_def run takeWhile_eq_all_conv [THEN iffD2])
  next
    case False
    let ?us = "takeWhile (\<lambda>a. a \<le> seekto) as"
    from False obtain a vs where d: "dropWhile (\<lambda>a. a \<le> seekto) as = a # vs"
      by (cases "dropWhile (\<lambda>a. a \<le> seekto) as") (auto simp: dropWhile_eq_Nil_conv)
    then have eq: "as = ?us @ a # vs" and "seekto < a"
      using hd_dropWhile [of "\<lambda>a. a \<le> seekto" "as"] by (metis takeWhile_dropWhile_id, simp)
    obtain u us where us: "?us = u # us" using True assms(2) by (cases "as") auto
    have u: "\<forall>u\<in>set (u # us). u \<le> seekto" using us by (metis set_takeWhileD)
    have "admap_loop (us @ a # vs) seekto u (Some u) = (last (u # us), Some a)"
      using assms(3) eq us u \<open>seekto < a\<close> by (intro admap_loop_below) (auto simp: sorted_append)
    moreover have "as = u # us @ a # vs" using eq us by simp
    ultimately have "admap_loop as seekto 0x3fffffff None = (last (u # us), Some a)"
      using assms(4) by (simp add: not_le [symmetric])
    then show ?thesis using assms(1) True False d us by (auto simp: dvdnav_scan_admap_def run)
  qed
qed

theorem scan_admap_result_witness:
  "dvdnav_scan_admap VTS_DOMAIN 107 False (ex_title 1 1) = Inr (Some 105, ex_title 1 1) \<and>
   dvdnav_scan_admap VTS_DOMAIN 107 True (ex_title 1 1) = Inr (Some 111, ex_title 1 1)"
  using scan_admap_result [of VTS_DOMAIN "ex_title 1 1" "[0, 100, 105, 111, 120]" 107]
  by (simp add: domain_admap_def run ex_defs)


section \<open>The mouse\<close>

lemma mouse_loop_spec:
  assumes "\<forall>n\<in>set ns. 1 \<le> n \<and> n \<le> int (length bs)"
  defines "b \<equiv> \<lambda>n. bs ! nat (n - 1)"
  shows "\<exists>r. mouse_loop bs x y ns best dist = Inr r \<and>
    (if \<exists>n\<in>set ns. inside (b n) x y \<and> centre_dist (b n) x y < dist
     then r \<in> set ns \<and> inside (b r) x y \<and> centre_dist (b r) x y < dist \<and>
       (\<forall>n\<in>set ns. inside (b n) x y \<longrightarrow> centre_dist (b r) x y \<le> centre_dist (b n) x y)
     else r = best)"
  using assms(1)
proof (induction ns arbitrary: best dist)
  case (Cons n ns)
  have get: "arr_get bs (n - 1) = Inr (b n)" using Cons.prems by (simp add: b_def)
  show ?case
  proof (cases "inside (b n) x y \<and> centre_dist (b n) x y < dist")
    case True
    from Cons.IH [of n "centre_dist (b n) x y"] Cons.prems obtain r where
      "mouse_loop bs x y ns n (centre_dist (b n) x y) = Inr r" and
      "if \<exists>m\<in>set ns. inside (b m) x y \<and> centre_dist (b m) x y < centre_dist (b n) x y
       then r \<in> set ns \<and> inside (b r) x y \<and> centre_dist (b r) x y < centre_dist (b n) x y \<and>
         (\<forall>m\<in>set ns. inside (b m) x y \<longrightarrow> centre_dist (b r) x y \<le> centre_dist (b m) x y)
       else r = n" by auto
    with True get show ?thesis by (auto split: if_splits simp: not_less)
  next
    case False
    from Cons.IH [of best dist] Cons.prems obtain r where
      "mouse_loop bs x y ns best dist = Inr r" and
      "if \<exists>m\<in>set ns. inside (b m) x y \<and> centre_dist (b m) x y < dist
       then r \<in> set ns \<and> inside (b r) x y \<and> centre_dist (b r) x y < dist \<and>
         (\<forall>m\<in>set ns. inside (b m) x y \<longrightarrow> centre_dist (b r) x y \<le> centre_dist (b m) x y)
       else r = best" by auto
    with False get show ?thesis by (auto split: if_splits)
  qed
qed simp

lemma centre_dist_bound: "inside b x y \<Longrightarrow> centre_dist b x y < 0x08000000"
proof -
  assume i: "inside b x y"
  have sq: "((l + h) div 2 - z)\<^sup>2 \<le> 1023\<^sup>2" if "0 \<le> l" "l \<le> z" "z \<le> h" "h < 1024" for l h z :: int
    using that by (intro power2_le_iff_abs_le [THEN iffD2]) (simp_all add: abs_le_iff, linarith)
  have "uint w < 1024" "0 \<le> uint w" for w :: "10 word" using uint_bounded [of w] by simp_all
  with i sq [of "uint (x_start b)" x "uint (x_end b)"] sq [of "uint (y_start b)" y "uint (y_end b)"] show ?thesis
    by (simp add: inside_def centre_dist_def)
qed

text \<open>Button \<open>n\<close> of a packet, and the number of the selected one.\<close>

definition button_at :: "pci \<Rightarrow> int \<Rightarrow> btni" where
  "button_at p n = btnit (pci_hli p) ! nat (n - 1)"

definition selected_button :: "dvdnav \<Rightarrow> int" where
  "selected_button d = uint (drop_bit 10 (SPRM (registers (state (nav_vm d))) ! 8))"

text \<open>The buttons of a packet that contain a point.\<close>

definition buttons_under :: "pci \<Rightarrow> int \<Rightarrow> int \<Rightarrow> int list" where
  "buttons_under p x y = filter (\<lambda>n. inside (button_at p n) x y) [1..uint (btn_ns (hli_gi (pci_hli p)))]"

lemma button_register: "0 \<le> n \<Longrightarrow> n \<le> 36 \<Longrightarrow> uint (drop_bit 10 (word_of_int n * 1024 :: u16)) = n"
  by (simp add: drop_bit_eq_div uint_div uint_word_ariths uint_word_of_int)

lemma run_button_select:
  assumes "menu_error p d = None" and "0 < n" and "n \<le> uint (btn_ns (hli_gi (pci_hli p)))" and "n \<le> 36"
    and "length (SPRM (registers (state (nav_vm d)))) = 24"
  shows "\<exists>d'. dvdnav_button_select p n d = Inr (True, d') \<and> selected_button d' = n"
  using assms by (simp add: dvdnav_button_select_def in_menu_def set_button_reg_def int32_def in_vm_def table_runs run
      selected_button_def button_register)

text \<open>
  C40: In a menu of at most 36 buttons the mouse selects a button that contains the point and whose
  centre is not farther from it than the centre of any other such button; when no button contains
  the point the call fails and changes nothing.
\<close>

theorem mouse_select_best:
  assumes "menu_error p d = None" and "wf_pci p" and "uint (btn_ns (hli_gi (pci_hli p))) \<le> 36"
    and "wf_registers (registers (state (nav_vm d)))"
  shows "\<exists>ok d'. dvdnav_mouse_select p x y d = Inr (ok, d') \<and>
    (if buttons_under p x y = [] then \<not> ok \<and> d' = d
     else ok \<and> selected_button d' \<in> set (buttons_under p x y) \<and>
       (\<forall>n\<in>set (buttons_under p x y). centre_dist (button_at p (selected_button d')) x y \<le> centre_dist (button_at p n) x y))"
proof -
  let ?n = "uint (btn_ns (hli_gi (pci_hli p)))"
  let ?hits = "set (buttons_under p x y)"
  have hits: "?hits = {n. 1 \<le> n \<and> n \<le> ?n \<and> inside (button_at p n) x y}" by (auto simp: buttons_under_def)
  have regs: "length (SPRM (registers (state (nav_vm d)))) = 24" using assms(4) by (simp add: wf_registers_def)
  have "\<forall>n\<in>set [1..?n]. 1 \<le> n \<and> n \<le> int (length (btnit (pci_hli p)))" using assms(2,3) by (simp add: wf_pci_def)
  from mouse_loop_spec [OF this, of x y 0 "0x08000000", folded button_at_def] obtain r where
    r: "mouse_loop (btnit (pci_hli p)) x y [1..?n] 0 0x08000000 = Inr r" and
    c: "if \<exists>n\<in>set [1..?n]. inside (button_at p n) x y \<and> centre_dist (button_at p n) x y < 0x08000000
      then r \<in> set [1..?n] \<and> inside (button_at p r) x y \<and> centre_dist (button_at p r) x y < 0x08000000 \<and>
        (\<forall>n\<in>set [1..?n]. inside (button_at p n) x y \<longrightarrow>
          centre_dist (button_at p r) x y \<le> centre_dist (button_at p n) x y)
      else r = 0" by blast
  have ex: "(\<exists>n\<in>set [1..?n]. inside (button_at p n) x y \<and> centre_dist (button_at p n) x y < 0x08000000) \<longleftrightarrow> ?hits \<noteq> {}"
    using centre_dist_bound by (auto simp: hits)
  have best: "if ?hits \<noteq> {} then r \<in> ?hits \<and> (\<forall>n\<in>?hits. centre_dist (button_at p r) x y \<le> centre_dist (button_at p n) x y)
      else r = 0"
    using c unfolding ex by (cases "?hits = {}") (simp_all add: hits)
  have run: "dvdnav_mouse_select p x y d =
    (if r \<noteq> 0 \<and> r \<noteq> selected_button d then
       (case dvdnav_button_select p r d of Inl f \<Rightarrow> Inl f | Inr (_, d') \<Rightarrow> Inr (True, d'))
     else Inr (r \<noteq> 0, d))"
    using assms(1) r regs by (simp add: dvdnav_mouse_select_def in_menu_def button_reg_def in_vm_def table_runs run
        selected_button_def split: sum.split)
  show ?thesis
  proof (cases "?hits = {}")
    case True
    with best run show ?thesis by auto
  next
    case False
    then have "r \<in> ?hits" using best by simp
    then have "0 < r" "r \<le> ?n" by (simp_all add: hits)
    with run_button_select [OF assms(1) _ _ _ regs, of r] assms(3) obtain d' where
      "dvdnav_button_select p r d = Inr (True, d')" "selected_button d' = r" by auto
    with run best False \<open>0 < r\<close> show ?thesis by (cases "r = selected_button d") auto
  qed
qed


text \<open>A menu with a small button on top of a large one.\<close>

definition ex_button :: "10 word \<Rightarrow> 10 word \<Rightarrow> btni" where
  "ex_button l h = (btni_at [] 0)\<lparr>x_start := l, x_end := h, y_start := l, y_end := h\<rparr>"

definition ex_menu :: pci where
  "ex_menu = (pci_at [])\<lparr>pci_pci_gi := (pci_gi_at [] 0)\<lparr>nv_pck_lbn := 100\<rparr>,
     pci_hli := (pci_hli (pci_at []))\<lparr>hli_gi := (hl_gi_at [] 0)\<lparr>hli_ss := 1, btn_ns := 2\<rparr>,
       btnit := ex_button 0 100 # ex_button 20 40 # replicate 34 (btni_at [] 0)\<rparr>\<rparr>"

lemma ex_menu_wf: "wf_pci ex_menu" "menu_error ex_menu ex_playing = None"
  by (simp_all add: wf_pci_def ex_menu_def pci_at_def upt_rec menu_error_def ex_playing_def dvdnav_alloc_def)

theorem mouse_select_best_witness:
  "\<exists>d'. dvdnav_mouse_select ex_menu 30 30 ex_playing = Inr (True, d') \<and> selected_button d' = 2"
proof -
  have hits: "buttons_under ex_menu 30 30 = [1, 2]"
    by (simp add: buttons_under_def ex_menu_def button_at_def upto_rec1 inside_def ex_button_def)
  have regs: "wf_registers (registers (state (nav_vm ex_playing)))"
    using ex_inv(2) [of 3 2] by (simp add: ex_playing_def vm_inv_def)
  have d: "centre_dist (button_at ex_menu 1) 30 30 = 800" "centre_dist (button_at ex_menu 2) 30 30 = 0"
    by (simp_all add: centre_dist_def button_at_def ex_menu_def ex_button_def)
  from mouse_select_best [OF ex_menu_wf(2) ex_menu_wf(1) _ regs, of 30 30] hits obtain d' where
    "dvdnav_mouse_select ex_menu 30 30 ex_playing = Inr (True, d')" "selected_button d' = 1 \<or> selected_button d' = 2"
    "\<forall>n\<in>{1, 2}. centre_dist (button_at ex_menu (selected_button d')) 30 30 \<le> centre_dist (button_at ex_menu n) 30 30"
    by (auto simp: ex_menu_def)
  with d show ?thesis by auto
qed

section \<open>Navigation packs\<close>

text \<open>
  A navigation pack as discs have it: a pack header of 14 bytes, a system header of 24, a PCI
  packet of 986 and a DSI packet.
\<close>

definition nav_pack :: "u8 list \<Rightarrow> bool" where
  "nav_pack buf \<longleftrightarrow> length buf = 2048 \<and>
     buf ! 3 = 0xBA \<and> buf ! 4 AND 0x40 \<noteq> 0 \<and> buf ! 13 AND 7 = 0 \<and>
     buf ! 17 = 0xBB \<and> unat (buf ! 18) * 256 + unat (buf ! 19) = 18 \<and>
     buf ! 38 = 0 \<and> buf ! 39 = 0 \<and> buf ! 40 = 1 \<and> buf ! 41 = 0xBF \<and>
     unat (buf ! 42) * 256 + unat (buf ! 43) = 980 \<and> buf ! 44 = 0 \<and> buf ! 1030 = 1"

lemma run_byte_at: "p < length buf \<Longrightarrow> byte_at buf p d = Inr (buf ! p, d)"
  by (simp add: byte_at_def run)

lemma run_word16_at: "Suc p < length buf \<Longrightarrow> word16_at buf p d = Inr (unat (buf ! p) * 256 + unat (buf ! Suc p), d)"
  by (simp add: word16_at_def run_byte_at run)

lemma run_skip_pack_header:
  "nav_pack buf \<Longrightarrow> skip_pack_header buf d = Inr (14, d)"
  by (simp add: nav_pack_def skip_pack_header_def run run_byte_at)

lemma run_skip_system_header:
  "nav_pack buf \<Longrightarrow> skip_system_header buf 14 d = Inr (38, d)"
  by (simp add: nav_pack_def skip_system_header_def run run_byte_at run_word16_at)

text \<open>
  C26: On a navigation pack \<open>dvdnav_decode_packet\<close> answers yes and stores the fields of the PCI
  packet from byte 45 on and of the DSI packet from byte 1031 on, and nothing else changes.
\<close>

theorem decode_nav_pack:
  assumes "nav_pack buf"
  shows "dvdnav_decode_packet buf d =
    Inr (True, d\<lparr>nav_pci := pci_at (concat (map bits8 (drop 45 buf))),
                 nav_dsi := dsi_at (concat (map bits8 (drop 1031 buf)))\<rparr>)"
proof -
  have len: "length buf = 2048" using assms by (simp add: nav_pack_def)
  obtain cs where pci: "navRead_PCI (Some (drop 45 buf)) = Inr (pci_at (concat (map bits8 (drop 45 buf))), cs)"
    using navRead_PCI_run [of "drop 45 buf"] len by auto
  obtain ds where dsi: "navRead_DSI (Some (drop 1031 buf)) = Inr (dsi_at (concat (map bits8 (drop 1031 buf))), ds)"
    using navRead_DSI_run [of "drop 1031 buf"] len by auto
  have "read_pci_at buf 45 d = Inr ((), d\<lparr>nav_pci := pci_at (concat (map bits8 (drop 45 buf)))\<rparr>)" for d
    by (simp add: read_pci_at_def run pci)
  moreover have "read_dsi_at buf 1031 d = Inr ((), d\<lparr>nav_dsi := dsi_at (concat (map bits8 (drop 1031 buf)))\<rparr>)" for d
    by (simp add: read_dsi_at_def run dsi)
  ultimately show ?thesis
    using assms
    by (simp add: dvdnav_decode_packet_def run run_byte_at run_word16_at nav_pack_def
        run_skip_pack_header [OF assms] run_skip_system_header [OF assms])
qed

definition ex_pack :: "u8 list" where
  "ex_pack = [0, 0, 1, 0xBA, 0x44] @ replicate 12 0 @ [0xBB, 0, 0x12] @ replicate 20 0 @
     [1, 0xBF, 3, 0xD4, 0] @ replicate 985 0 @ [1] @ replicate 1017 0"

theorem decode_nav_pack_witness:
  "nav_pack ex_pack \<and> dvdnav_decode_packet ex_pack ex_playing =
    Inr (True, ex_playing\<lparr>nav_pci := pci_at (concat (map bits8 (drop 45 ex_pack))),
                          nav_dsi := dsi_at (concat (map bits8 (drop 1031 ex_pack)))\<rparr>)"
proof -
  have "nav_pack ex_pack" by (simp add: nav_pack_def ex_pack_def nth_append)
  then show ?thesis using decode_nav_pack by blast
qed

section \<open>Positions\<close>

definition cell_sectors :: "cell_playback \<Rightarrow> u32" where
  "cell_sectors c = last_sector c - first_sector c + 1"

text \<open>The cells \<open>cs\<close> of a machine, in a range: no second angles, and not too long for 32 bits.\<close>

definition plain_cells :: "vm \<Rightarrow> (int \<Rightarrow> cell_playback) \<Rightarrow> int list \<Rightarrow> bool" where
  "plain_cells v cs ks \<longleftrightarrow>
     (\<forall>k\<in>set ks. the_cell (k - 1) v = Inr (cs k, v) \<and> \<not> other_angle (cs k) \<and> first_sector (cs k) \<le> last_sector (cs k)) \<and>
     (\<Sum>k\<leftarrow>ks. uint (last_sector (cs k)) - uint (first_sector (cs k)) + 1) < 2 ^ 32"

lemma uint_cell_sectors:
  "first_sector c \<le> last_sector c \<Longrightarrow> uint (last_sector c) - uint (first_sector c) + 1 < 2 ^ 32 \<Longrightarrow>
   uint (cell_sectors c) = uint (last_sector c) - uint (first_sector c) + 1"
  by (simp add: cell_sectors_def uint_word_ariths uint_sub_if' word_le_def)


lemma plain_cells_Cons:
  "plain_cells v cs (k # ks) \<Longrightarrow> plain_cells v cs ks \<and>
   uint (cell_sectors (cs k)) = uint (last_sector (cs k)) - uint (first_sector (cs k)) + 1"
proof -
  assume p: "plain_cells v cs (k # ks)"
  then have pos: "\<forall>i\<in>set ks. first_sector (cs i) \<le> last_sector (cs i)" by (simp add: plain_cells_def)
  have "0 \<le> (\<Sum>k\<leftarrow>ks. uint (last_sector (cs k)) - uint (first_sector (cs k)) + 1)"
    using pos by (intro sum_list_nonneg) (auto simp: word_le_def)
  moreover have "0 \<le> uint (last_sector (cs k)) - uint (first_sector (cs k))"
    using p by (simp add: plain_cells_def word_le_def)
  ultimately show ?thesis using p uint_cell_sectors [of "cs k"] by (simp add: plain_cells_def)
qed

text \<open>The cells in front of one: their lengths add up, and a search behind them skips them.\<close>

lemma position_prefix:
  "plain_cells v cs ks \<Longrightarrow> cellN (state v) \<notin> set ks \<Longrightarrow>
   position_loop (ks @ js) cur pos len v = position_loop js cur pos (len + (\<Sum>k\<leftarrow>ks. cell_sectors (cs k))) v"
proof (induction ks arbitrary: len)
  case (Cons k ks)
  then have "the_cell (k - 1) v = Inr (cs k, v)" by (simp add: plain_cells_def)
  with Cons plain_cells_Cons [OF Cons.prems(1)] show ?case
    by (simp add: run get_st_def cell_sectors_def add.assoc)
qed simp

lemma sector_prefix:
  "plain_cells v cs ks \<Longrightarrow> (\<Sum>k\<leftarrow>ks. uint (cell_sectors (cs k))) + uint t < 2 ^ 32 \<Longrightarrow>
   uint ((\<Sum>k\<leftarrow>ks. cell_sectors (cs k)) + t) = (\<Sum>k\<leftarrow>ks. uint (cell_sectors (cs k))) + uint t \<and>
   sector_loop dm False cur cc ln (ks @ js) ((\<Sum>k\<leftarrow>ks. cell_sectors (cs k)) + t) v =
     sector_loop dm False cur cc ln js t v"
proof (induction ks)
  case (Cons k ks)
  let ?rest = "(\<Sum>k\<leftarrow>ks. cell_sectors (cs k)) + t"
  have "0 \<le> uint (cell_sectors (cs k))" by simp
  with Cons.prems(2) have "(\<Sum>k\<leftarrow>ks. uint (cell_sectors (cs k))) + uint t < 2 ^ 32"
    unfolding list.map sum_list.Cons by linarith
  from Cons.IH [OF _ this] plain_cells_Cons [OF Cons.prems(1)] have
    IH: "uint ?rest = (\<Sum>k\<leftarrow>ks. uint (cell_sectors (cs k))) + uint t"
      "sector_loop dm False cur cc ln (ks @ js) ?rest v = sector_loop dm False cur cc ln js t v"
    by blast+
  then have sum: "uint (cell_sectors (cs k) + ?rest) = uint (cell_sectors (cs k)) + uint ?rest"
    using Cons.prems(2) by (simp add: uint_word_ariths)
  then have "cell_sectors (cs k) \<le> cell_sectors (cs k) + ?rest" by (simp add: word_le_def)
  moreover have "the_cell (k - 1) v = Inr (cs k, v)" "\<not> other_angle (cs k)"
    using Cons.prems(1) by (simp_all add: plain_cells_def)
  ultimately show ?case
    using IH sum by (simp add: run Let_def cell_sectors_def [symmetric] add.assoc)
qed simp


lemma plain_cells_sum:
  "plain_cells v cs ks \<Longrightarrow>
   (\<Sum>k\<leftarrow>ks. uint (cell_sectors (cs k))) = (\<Sum>k\<leftarrow>ks. uint (last_sector (cs k)) - uint (first_sector (cs k)) + 1)"
proof (induction ks)
  case (Cons k ks)
  then show ?case using plain_cells_Cons [OF Cons.prems] by simp
qed simp

lemma plain_cells_append: "plain_cells v cs (ks @ js) \<Longrightarrow> plain_cells v cs ks \<and> plain_cells v cs js"
proof -
  assume p: "plain_cells v cs (ks @ js)"
  then have "0 \<le> (\<Sum>k\<leftarrow>is. uint (last_sector (cs k)) - uint (first_sector (cs k)) + 1)" if "set is \<subseteq> set (ks @ js)" for "is"
    using that by (intro sum_list_nonneg) (fastforce simp: plain_cells_def word_le_def)
  from this [of ks] this [of js] p show ?thesis by (auto simp: plain_cells_def)
qed

text \<open>
  C25: Seeking to the position \<open>dvdnav_get_position\<close> reports is seeking to the current sector of the
  current cell, when the cells have no second angles and fewer than \<open>2 ^ 32\<close> sectors in all.
\<close>

theorem position_seek_roundtrip:
  assumes "dvdnav_get_position d = Inr (Some (pos, len), d)" and "cur_sector d = Inr (cur, d)"
    and "p_still (position_current d) = 0"
    and "cell_range (pgc_based d \<noteq> 0) (nav_vm d) = Inr ((first, ln), nav_vm d)"
    and "plain_cells (nav_vm d) cs [first..ln]" and "k = cellN (state (nav_vm d))"
    and "0 \<le> first" and "first \<le> k" and "k \<le> ln" and "ln < 2 ^ 32"
    and "first_sector (cs k) \<le> cur" and "cur \<le> last_sector (cs k)"
  shows "dvdnav_sector_search fuel (ucast pos) SEEK_SET d =
    seek_to fuel (domain (state (nav_vm d))) (Some (k, cur)) (d\<lparr>cur_cell_time := 0\<rparr>)"
proof -
  let ?v = "nav_vm d" and ?pre = "[first..k - 1]" and ?post = "[k + 1..ln]" and ?S = "\<lambda>ks. \<Sum>k\<leftarrow>ks. cell_sectors (cs k)"
  have split: "[first..ln] = ?pre @ k # ?post" using assms(8,9) by (rule upto_split3)
  have pre: "plain_cells ?v cs ?pre" and all: "plain_cells ?v cs (?pre @ k # ?post)" and post: "plain_cells ?v cs ?post"
    using assms(5) split plain_cells_append [of ?v cs ?pre "k # ?post"] plain_cells_Cons by auto
  have cell: "the_cell (k - 1) ?v = Inr (cs k, ?v)" "\<not> other_angle (cs k)" using all by (simp_all add: plain_cells_def)
  let ?t = "cur - first_sector (cs k)"
  have t: "?t < cell_sectors (cs k)" and ut: "uint ?t < uint (cell_sectors (cs k))"
    using plain_cells_Cons [of ?v cs k ?post] plain_cells_append [OF all] assms(11,12)
    by (auto simp: word_less_def uint_sub_if' word_le_def)
  have total: "(\<Sum>k\<leftarrow>?pre @ k # ?post. uint (cell_sectors (cs k))) < 2 ^ 32"
    using all plain_cells_sum [OF all] by (simp only: plain_cells_def)
  have post0: "0 \<le> (\<Sum>k\<leftarrow>?post. uint (cell_sectors (cs k)))" by (intro sum_list_nonneg) auto
  with total ut have below: "(\<Sum>k\<leftarrow>?pre. uint (cell_sectors (cs k))) + uint ?t < 2 ^ 32" by simp
  have "position_loop [first..ln] cur (-1) 0 ?v = Inr ((?S ?pre + ?t, ?S (?pre @ k # ?post)), ?v)"
    unfolding split using position_prefix [OF pre] position_prefix [OF post, where js = "[]"] cell assms(6)
    by (simp add: run get_st_def cell_sectors_def algebra_simps)
  moreover have "position_loop [first..ln] cur (-1) 0 ?v = Inr ((pos, len), ?v)" and q: "cur_pgc (state ?v) \<noteq> None"
    using assms(1,2,4) calculation by (auto simp: dvdnav_get_position_def fail_with_def printerr_def run in_vm_def split: if_splits)
  ultimately have pos: "pos = ?S ?pre + ?t" and len: "len = ?S (?pre @ k # ?post)" by auto
  note seek = sector_prefix [OF pre below]
  have "uint len = (\<Sum>k\<leftarrow>?pre @ k # ?post. uint (cell_sectors (cs k)))"
    using sector_prefix [OF all, of 0] total len by simp
  then have lt: "pos < len"
    using seek pos ut post0 by (simp add: word_less_def)
  have "sector_loop dm False cur cc (u32_of ln) [first..ln] pos ?v = Inr (Some (k, cur), ?v)" for dm cc
    unfolding split using seek pos t cell by (simp add: run Let_def cell_sectors_def [symmetric] not_le)
  moreover have "u32_of ln = ln" using assms(7-10) by (simp add: u32_of_def uint_word_of_int)
  moreover have "take_bit 64 (uint w) = uint w" for w :: u32
    using uint_bounded [of w] by (simp add: take_bit_int_eq_self)
  then have "seek_target SEEK_SET (ucast pos) pos len = Inr pos"
    using lt by (simp add: seek_target_def word_less_def word_le_def unsigned_ucast_eq take_bit_word_eq_self)
  ultimately show ?thesis
    using assms(1-4) q by (auto simp: dvdnav_sector_search_def run in_vm_def get_st_def)
qed


definition ex_seek :: dvdnav where
  "ex_seek = ex_playing\<lparr>position_current := pos_zero\<lparr>p_domain := VTS_DOMAIN, p_vts := 1\<rparr>,
     vobu := \<lparr>vobu_start = 105, vobu_length = 5, vobu_blockN = 1, vobu_next = 6\<rparr>, pgc_based := 1\<rparr>"

theorem position_seek_roundtrip_witness:
  "dvdnav_get_position ex_seek = Inr (Some (28, 33), ex_seek) \<and>
   dvdnav_sector_search 0 28 SEEK_SET ex_seek = seek_to 0 VTS_DOMAIN (Some (3, 106)) (ex_seek\<lparr>cur_cell_time := 0\<rparr>)"
proof -
  have s: "domain (state (nav_vm ex_seek)) = VTS_DOMAIN" "cellN (state (nav_vm ex_seek)) = 3"
    by (simp_all add: ex_seek_def ex_playing_def ex_defs)
  have c: "cur_sector ex_seek = Inr (106, ex_seek)"
    by (simp add: cur_sector_def run int32_def ex_seek_def)
  have r: "cell_range (pgc_based ex_seek \<noteq> 0) (nav_vm ex_seek) = Inr ((1, 3), nav_vm ex_seek)"
    by (simp add: cell_range_def run table_runs ex_seek_def ex_playing_def ex_defs)
  have p: "plain_cells (nav_vm ex_seek) (\<lambda>_. ex_cell) [1..3]"
    by (simp add: plain_cells_def run table_runs ex_seek_def ex_playing_def ex_defs other_angle_def upto_rec1)
  have g: "dvdnav_get_position ex_seek = Inr (Some (28, 33), ex_seek)"
    using c r by (simp add: dvdnav_get_position_def run in_vm_def table_runs ex_seek_def ex_playing_def dvdnav_alloc_def
        pos_zero_def ex_defs upto_rec1)
  from position_seek_roundtrip [OF g c _ r p, of 3 0] g s show ?thesis
    by (simp add: ex_seek_def pos_zero_def ex_cell_def)
qed

end
