(* ===== verification/Dvdnav_Time_Props.thy ===== *)
theory Dvdnav_Time_Props
  imports Dvdnav_Props
begin

text \<open>
  The search by the time map: what its two binary searches find, where a jump can land, and the
  chapters of a title as sums of cell lengths.
\<close>

section \<open>The binary searches\<close>

text \<open>
  \<open>marks f n tgt t\<close>: of the increasing \<open>f 0\<close> to \<open>f (n - 1)\<close>, exactly those up to \<open>f t\<close> are at most \<open>tgt\<close>.
  \<open>near\<close>: where \<open>t\<close> can be, seen from the index last looked at and the last distance.
\<close>

definition marks :: "(int \<Rightarrow> u32) \<Rightarrow> int \<Rightarrow> u32 \<Rightarrow> int \<Rightarrow> bool" where
  "marks f n tgt t \<longleftrightarrow> t < n \<and> (\<forall>i j. 0 \<le> i \<longrightarrow> i < j \<longrightarrow> j < n \<longrightarrow> f i < f j) \<and>
     (\<forall>i. 0 \<le> i \<longrightarrow> i < n \<longrightarrow> (f i \<le> tgt \<longleftrightarrow> i \<le> t))"

definition near :: "int \<Rightarrow> int \<Rightarrow> int \<Rightarrow> int \<Rightarrow> bool" where
  "near adj pos prv t \<longleftrightarrow> adj = 1 \<and> pos \<le> t \<and> t < pos + prv \<or> adj = -1 \<and> pos - prv \<le> t \<and> t < pos"

lemma half_eq: "0 \<le> n \<Longrightarrow> half n = (n + 1) div 2"
  by (simp add: half_def) presburger

lemma probe_range: "0 < n \<Longrightarrow> 0 \<le> probe n pos d adj \<and> probe n pos d adj < n"
  by (simp add: probe_def Let_def)

lemma near_probe:
  assumes "near adj pos prv t" and "0 \<le> t" and "t < n" and "1 \<le> prv" and "i = probe n pos (half prv) adj"
  shows "i \<le> t \<Longrightarrow> near 1 i (half prv) t" and "\<not> i \<le> t \<Longrightarrow> near (-1) i (half prv) t"
  using assms by (auto simp: near_def probe_def Let_def half_eq)

lemma marks_eq:
  assumes "marks f n tgt t" and "0 \<le> i" and "i < n" and "f i = tgt"
  shows "i = t"
proof -
  from assms have "i \<le> t" "t < n" by (auto simp: marks_def)
  moreover have False if "i < t"
  proof -
    from that \<open>t < n\<close> assms have "f i < f t" "f t \<le> tgt" by (auto simp: marks_def)
    with assms(4) show False by simp
  qed
  ultimately show ?thesis by force
qed

lemma bisect_run:
  assumes get: "\<And>i. 0 \<le> i \<Longrightarrow> i < n \<Longrightarrow> get i = Inr (Some (f i))"
    and "marks f n tgt t" and "0 \<le> t" and "near adj pos prv t" and "1 \<le> prv"
  shows "\<exists>i over. bisect get n tgt adj pos prv = Inr (Some (i, f i, over)) \<and>
    0 \<le> i \<and> i < n \<and> t = (if over then i - 1 else i)"
  using assms(4,5)
proof (induction "nat prv" arbitrary: adj pos prv rule: less_induct)
  case less
  let ?i = "probe n pos (half prv) adj"
  from assms(2,3) have n: "t < n" "0 < n" by (auto simp: marks_def)
  then have i: "0 \<le> ?i" "?i < n" using probe_range by auto
  show ?case
  proof (cases "tgt = f ?i")
    case True
    with i marks_eq [OF assms(2)] get show ?thesis
      by (subst bisect.simps) (auto simp: Let_def)
  next
    case False
    have le: "f ?i \<le> tgt \<longleftrightarrow> ?i \<le> t" using assms(2) i by (auto simp: marks_def)
    show ?thesis
    proof (cases "half prv = 1")
      case True
      with less.prems have "prv = 1 \<or> prv = 2" by (auto simp: half_eq)
      with near_probe [OF less.prems(1) assms(3) n(1) less.prems(2) refl] True i False get le
      show ?thesis
        by (subst bisect.simps) (auto simp: Let_def near_def)
    next
      case False
      with less.prems have sm: "half prv < prv" "1 \<le> half prv" by (auto simp: half_eq)
      have "near (if tgt < f ?i then -1 else 1) ?i (half prv) t"
        using near_probe [OF less.prems(1) assms(3) n(1) less.prems(2) refl] le by auto
      from less.hyps [OF _ this sm(2)] sm i get False \<open>tgt \<noteq> f ?i\<close> show ?thesis
        by (subst bisect.simps) (simp add: Let_def)
    qed
  qed
qed

text \<open>The number of marks at or before a sector.\<close>

lemma sorted_marks:
  assumes "sorted_wrt (<) as"
  shows "marks (\<lambda>i. as ! nat i) (int (length as)) tgt (int (length (takeWhile (\<lambda>a. a \<le> tgt) as)) - 1)"
proof -
  let ?k = "length (takeWhile (\<lambda>a. a \<le> tgt) as)"
  have k: "?k \<le> length as" by (rule length_takeWhile_le)
  have "as ! i \<le> tgt \<longleftrightarrow> i < ?k" if "i < length as" for i
  proof
    assume "i < ?k"
    then show "as ! i \<le> tgt" using nth_mem [of i "takeWhile (\<lambda>a. a \<le> tgt) as"] takeWhile_nth [of i "\<lambda>a. a \<le> tgt" as]
      by (auto dest: set_takeWhileD)
  next
    assume le: "as ! i \<le> tgt"
    show "i < ?k"
    proof (rule ccontr)
      assume "\<not> i < ?k"
      then have "?k \<le> i" by simp
      with that have "?k < length as" by simp
      then have "\<not> as ! ?k \<le> tgt" by (rule nth_length_takeWhile)
      moreover have "as ! ?k \<le> as ! i"
        using assms that \<open>?k \<le> i\<close> by (metis order.refl order_less_imp_le sorted_wrt_nth_less le_neq_implies_less)
      ultimately show False using le by simp
    qed
  qed
  then have le: "as ! nat i \<le> tgt \<longleftrightarrow> i \<le> int ?k - 1" if "0 \<le> i" "i < int (length as)" for i
    using that by (simp add: nat_less_iff)
  have lt: "as ! nat i < as ! nat j" if "0 \<le> i" "i < j" "j < int (length as)" for i j
    using that by (intro sorted_wrt_nth_less [OF assms]) (simp_all add: nat_less_iff)
  from k have "int ?k - 1 < int (length as)" by simp
  with le lt show ?thesis unfolding marks_def by blast
qed

text \<open>
  C38: On an increasing address map whose first sector is not behind the target,
  \<^verbatim>\<open>dvdnav_admap_search\<close> ends and finds the last VOBU that starts at or before the target: its
  halving search, which keeps no bounds but a position and a distance, answers what a linear scan
  answers.
\<close>

theorem admap_search_result:
  assumes "sorted_wrt (<) as" and "as \<noteq> []" and "hd as \<le> tgt"
  shows "dvdnav_admap_search as tgt =
    Inr (Some (of_nat (length (takeWhile (\<lambda>a. a \<le> tgt) as) - 1)))"
proof -
  let ?t = "int (length (takeWhile (\<lambda>a. a \<le> tgt) as)) - 1" and ?n = "int (length as)"
  have pos: "0 \<le> ?t" using assms(2,3) by (cases as) auto
  have m: "marks (\<lambda>i. as ! nat i) ?n tgt ?t" by (rule sorted_marks [OF assms(1)])
  then have "?t < ?n" by (simp add: marks_def)
  with pos have "near 1 0 ?n ?t" "1 \<le> ?n" unfolding near_def by linarith+
  from bisect_run [OF _ m pos this, of "admap_probe as"] obtain i over where
    "bisect (admap_probe as) ?n tgt 1 0 ?n = Inr (Some (i, as ! nat i, over))"
    "0 \<le> i" "i < ?n" "?t = (if over then i - 1 else i)"
    by (auto simp: admap_probe_def)
  with pos have "dvdnav_admap_search as tgt = Inr (Some (word_of_int ?t))"
    by (auto simp: dvdnav_admap_search_def)
  also have "word_of_int ?t = (of_nat (length (takeWhile (\<lambda>a. a \<le> tgt) as) - 1) :: u32)"
  proof -
    have "?t = int (length (takeWhile (\<lambda>a. a \<le> tgt) as) - 1)" using pos by linarith
    then show ?thesis by (simp only: of_int_of_nat_eq)
  qed
  finally show ?thesis .
qed


theorem admap_search_result_witness:
  "dvdnav_admap_search [0, 100, 105, 111, 120] 110 = Inr (Some 2)"
  using admap_search_result [of "[0, 100, 105, 111, 120]" 110] by simp

text \<open>The sectors of a time map, and the same for the search in it.\<close>

definition tmap_sectors :: "vts_tmap \<Rightarrow> u32 list" where
  "tmap_sectors tm = map (\<lambda>e. e AND 0x7fffffff) (map_ent tm)"

lemma tmap_entry_nth:
  "0 \<le> i \<Longrightarrow> i < int (length (map_ent tm)) \<Longrightarrow> dvdnav_tmap_get_entry tm i = Some (tmap_sectors tm ! nat i)"
  by (simp add: dvdnav_tmap_get_entry_def tmap_sectors_def)

lemma tmap_search_result:
  assumes "sorted_wrt (<) (tmap_sectors tm)" and "map_ent tm \<noteq> []" and "hd (tmap_sectors tm) \<le> tgt"
  shows "dvdnav_tmap_search tm tgt =
    (let n = length (takeWhile (\<lambda>a. a \<le> tgt) (tmap_sectors tm))
     in Inr (Some (int n - 1, tmap_sectors tm ! (n - 1))))"
proof -
  let ?as = "tmap_sectors tm"
  let ?t = "int (length (takeWhile (\<lambda>a. a \<le> tgt) ?as)) - 1" and ?n = "int (length (map_ent tm))"
  have len: "length ?as = length (map_ent tm)" by (simp add: tmap_sectors_def)
  with assms(2,3) have pos: "0 \<le> ?t" by (cases ?as) (auto simp: tmap_sectors_def)
  have m: "marks (\<lambda>i. ?as ! nat i) ?n tgt ?t" using sorted_marks [OF assms(1)] len by simp
  then have "?t < ?n" by (simp add: marks_def)
  with pos have "near 1 0 ?n ?t" "1 \<le> ?n" unfolding near_def by linarith+
  from bisect_run [OF _ m pos this, of "\<lambda>i. Inr (dvdnav_tmap_get_entry tm i)"] obtain i over where
    b: "bisect (\<lambda>i. Inr (dvdnav_tmap_get_entry tm i)) ?n tgt 1 0 ?n = Inr (Some (i, ?as ! nat i, over))"
    "0 \<le> i" "i < ?n" "?t = (if over then i - 1 else i)"
    by (auto simp: tmap_entry_nth)
  then have "dvdnav_tmap_search tm tgt = Inr (Some (?t, ?as ! nat ?t))"
    using pos by (auto simp: dvdnav_tmap_search_def tmap_entry_nth)
  moreover have "nat ?t = length (takeWhile (\<lambda>a. a \<le> tgt) ?as) - 1" by simp
  ultimately show ?thesis by (simp only: Let_def)
qed

lemma pow_ne: "2 * 2 ^ j \<noteq> (1::int)"
  by presburger

lemma bisect_below:
  assumes "\<And>i. 0 \<le> i \<Longrightarrow> i < n \<Longrightarrow> get i = Inr (Some (f i)) \<and> tgt < f i" and "2 ^ Suc j < n"
  shows "bisect get n tgt (-1) (2 ^ Suc j) (2 ^ Suc j) = Inr (Some (1, f 1, True))"
  using assms(2)
proof (induction j)
  case 0
  with assms(1) [of 1] show ?case by (subst bisect.simps) (auto simp: half_def probe_def Let_def)
next
  case (Suc j)
  have h: "half (2 ^ Suc (Suc j)) = 2 ^ Suc j" by (simp add: half_def)
  have lt: "2 ^ Suc j < n" using Suc.prems by (rule le_less_trans [rotated]) simp
  then have pr: "probe n (2 ^ Suc (Suc j)) (2 ^ Suc j) (-1) = 2 ^ Suc j"
    by (simp add: probe_def Let_def)
  note lt
  moreover from assms(1) [OF _ this] have "get (2 ^ Suc j) = Inr (Some (f (2 ^ Suc j)))" "tgt < f (2 ^ Suc j)" by auto
  moreover have "(2::int) ^ Suc j \<noteq> 1" "nat (2 ^ Suc j) < nat (2 ^ Suc (Suc j))" using pow_ne by simp_all
  ultimately show ?case
    using Suc.IH by (subst bisect.simps) (simp add: h pr Let_def del: power_Suc)
qed

text \<open>
  A time map whose length is a power of two, from 2 on: for a sector before its first entry
  (the beginning of a title) \<^verbatim>\<open>dvdnav_tmap_search\<close> answers entry 0, whose sector is behind the one
  searched for, and not the entry in front of the table that the code provides for this case,
  because the halving search never looks at index 0.
\<close>

theorem tmap_search_misses_begin:
  assumes "length (map_ent tm) = 2 ^ Suc k" and "\<forall>a \<in> set (tmap_sectors tm). tgt < a"
  shows "dvdnav_tmap_search tm tgt = Inr (Some (0, tmap_sectors tm ! 0))"
proof -
  let ?get = "\<lambda>i. Inr (dvdnav_tmap_get_entry tm i) :: fault + u32 option" and ?f = "\<lambda>i. tmap_sectors tm ! nat i"
  let ?n = "2 ^ Suc k :: int"
  have len: "length (tmap_sectors tm) = 2 ^ Suc k" using assms(1) by (simp add: tmap_sectors_def)
  have *: "?get i = Inr (Some (?f i)) \<and> tgt < ?f i" if "0 \<le> i" "i < ?n" for i
  proof -
    have "nat i < 2 ^ Suc k" using that by (simp add: nat_less_iff)
    with len have "?f i \<in> set (tmap_sectors tm)" by (metis nth_mem)
    with that assms show ?thesis by (simp add: tmap_entry_nth)
  qed
  have "bisect ?get ?n tgt 1 0 ?n = Inr (Some (1, ?f 1, True))"
  proof (cases k)
    case 0
    with * [of 1] show ?thesis by (subst bisect.simps) (auto simp: half_def probe_def Let_def)
  next
    case (Suc j)
    have pr: "probe ?n 0 (2 ^ k) 1 = 2 ^ k" "half ?n = 2 ^ k" by (simp_all add: probe_def half_def Let_def)
    moreover have "(2::int) ^ k \<noteq> 1" using Suc pow_ne by simp
    moreover have "nat (2 ^ k) < nat ?n" by simp
    moreover have lt: "(2::int) ^ k < ?n" by simp
    moreover note * [OF _ lt] bisect_below [of ?n ?get ?f tgt j, OF *] Suc
    ultimately show ?thesis by (subst bisect.simps) (auto simp: Let_def simp del: power_Suc)
  qed
  moreover have "dvdnav_tmap_get_entry tm 0 = Some (tmap_sectors tm ! 0)"
    using assms(1) by (simp add: tmap_entry_nth)
  ultimately show ?thesis using assms(1) by (simp add: dvdnav_tmap_search_def Let_def)
qed



theorem tmap_search_misses_begin_witness:
  "dvdnav_tmap_search \<lparr>tmu = 10, map_ent = [100, 105]\<rparr> 0 = Inr (Some (0, 100))"
  using tmap_search_misses_begin [of "\<lparr>tmu = 10, map_ent = [100, 105]\<rparr>" 0 0]
  by (simp add: tmap_sectors_def)

section \<open>Where a jump lands\<close>

lemma bnd_readonly_in_vmE:
  assumes "readonly m" and "bnd (in_vm m) f d = Inr (b, d')"
  obtains a where "m (nav_vm d) = Inr (a, nav_vm d)" "f a d = Inr (b, d')"
  using assms by (auto simp: bnd_def in_vm_def split: sum.splits dest: readonlyD)

text \<open>The machine \<open>v'\<close> is \<open>v\<close>, or \<open>v\<close> with the time maps of its title set read again.\<close>

definition new_tmapt :: "vm \<Rightarrow> vm \<Rightarrow> bool" where
  "new_tmapt v v' \<longleftrightarrow> v' = v \<or> (\<exists>i ts. vtsi v = Some i \<and> v' = v\<lparr>vtsi := Some (i\<lparr>vts_tmapt := ts\<rparr>)\<rparr>)"

lemma new_tmapt_title: "keeps (new_tmapt v) (\<lambda>_. True) (title_tmapt reread)"
  by (rule keepsI) (auto simp: title_tmapt_def new_tmapt_def split: option.splits, blast)

lemma find_vobu_tmapt:
  assumes "find_vobu reread as cd t v = Inr (r, v')"
  shows "new_tmapt v v'"
proof -
  have "keeps (new_tmapt v) (\<lambda>_. True) (dvdnav_tmap_get reread)"
    unfolding dvdnav_tmap_get_def get_st_def
    by (intro keeps_intro new_tmapt_title readonly_keeps [OF readonly_manager_tmapt])
  then have "keeps (new_tmapt v) (\<lambda>_. True) (find_vobu reread as cd t)"
    unfolding find_vobu_def dvdnav_find_vobu_by_tmap_def
    by (intro keeps_intro readonly_keeps [OF readonly_tmap_times(1)] readonly_keeps [OF readonly_tmap_times(2)]
        readonly_keeps [OF readonly_interpolate] readonly_keeps [OF readonly_boundaries])
  moreover have "new_tmapt v v" by (simp add: new_tmapt_def)
  ultimately show ?thesis using assms by (blast dest: keepsD wpe_Inr)
qed

definition in_map :: "u32 list \<Rightarrow> u32 option \<Rightarrow> bool" where
  "in_map as r \<longleftrightarrow> (\<forall>x. r = Some x \<longrightarrow> x \<in> set as)"

lemma yields_when_found: "(\<And>a. yields (in_map as) (f a)) \<Longrightarrow> yields (in_map as) (when_found m f)"
  unfolding when_found_def by (intro yields_intro) (auto simp: in_map_def split: option.split intro!: yields_intro)

lemma nth_unat_in: "\<not> int (length xs) \<le> uint i \<Longrightarrow> xs ! unat i \<in> set xs"
  by (rule nth_mem) (simp add: not_le nat_less_iff flip: nat_uint_eq)

lemma interpolate_in_map: "yields (in_map as) (dvdnav_admap_interpolate_vobu as a b n)"
  unfolding dvdnav_admap_interpolate_vobu_def Let_def
  by (intro yields_when_found yields_if)
    (auto simp: yields_def in_map_def run arr_iffs nth_unat_in split: sum.splits)

lemma find_vobu_in_map: "yields (in_map as) (find_vobu reread as cd t)"
proof -
  have cases: "(\<And>x y. yields (in_map as) (f x y)) \<Longrightarrow>
      yields (in_map as) (case r of None \<Rightarrow> ret None | Some (x, y) \<Rightarrow> f x y)" for f :: "'a \<Rightarrow> 'b \<Rightarrow> ('s, u32 option) prog" and r
    by (auto simp: in_map_def split: option.split intro!: yields_intro)
  have prod: "(\<And>x y. yields (in_map as) (f x y)) \<Longrightarrow> yields (in_map as) (case q of (x, y) \<Rightarrow> f x y)"
    for f :: "'a \<Rightarrow> 'b \<Rightarrow> ('s, u32 option) prog" and q
    by (cases q) simp
  have tmap: "yields (in_map as) (dvdnav_find_vobu_by_tmap reread as cd t)"
    unfolding dvdnav_find_vobu_by_tmap_def Let_def
    by (intro yields_when_found prod cases interpolate_in_map)
  show ?thesis
    unfolding find_vobu_def
    by (rule yields_bnd2 [OF tmap])
      (auto simp: dvdnav_find_vobu_by_cell_boundaries_def intro!: yields_intro interpolate_in_map)
qed

lemma in_vm_Inr: "in_vm m d = Inr (a, d') \<longleftrightarrow> (\<exists>v. m (nav_vm d) = Inr (a, v) \<and> d' = d\<lparr>nav_vm := v\<rparr>)"
  by (auto simp: in_vm_def split: sum.split)

text \<open>
  The cells a search by time looks at (\<open>search_cells\<close>: all of the chain, or those of the current
  program), the times, in milliseconds, at which they begin (the cells of other angles take no
  time), and the cell a time lies in.
\<close>

definition search_cells :: "bool \<Rightarrow> int \<Rightarrow> pgc \<Rightarrow> int \<times> int" where
  "search_cells whole pg g =
     (if whole then 1 else uint (program_map g ! nat (pg - 1)),
      if whole \<or> uint (nr_of_programs g) \<le> pg then uint (nr_of_cells g)
      else u32_of (uint (program_map g ! nat pg) - 1))"

definition cell_millis :: "cell_playback \<Rightarrow> u64" where
  "cell_millis c =
     (case dvdnav_convert_time (cell_playback_time c) of Inl _ \<Rightarrow> 0 | Inr t \<Rightarrow> word_of_int (t div 90))"

definition cell_begins :: "pgc \<Rightarrow> int \<Rightarrow> int \<Rightarrow> u64" where
  "cell_begins g first n = sum_list (map cell_millis (filter (\<lambda>c. \<not> other_angle c)
     (map (\<lambda>i. cell_playback g ! nat (i - 1)) [first..n - 1])))"

definition in_cell :: "pgc \<Rightarrow> int \<Rightarrow> u64 \<Rightarrow> int \<Rightarrow> bool" where
  "in_cell g first time n \<longleftrightarrow>
     \<not> other_angle (cell_playback g ! nat (n - 1)) \<and> cell_begins g first n \<le> time \<and>
     time \<le> cell_begins g first n + cell_millis (cell_playback g ! nat (n - 1))"

lemma cell_begins_step:
  "first \<le> n \<Longrightarrow> cell_begins g first (n + 1) = cell_begins g first n +
     (if other_angle (cell_playback g ! nat (n - 1)) then 0 else cell_millis (cell_playback g ! nat (n - 1)))"
  using upto_rec2 [of first n] by (simp add: cell_begins_def)

lemma the_cell_run:
  assumes "cur_pgc (state v) = Some p" and "find_pgc v p = Some g"
  shows "the_cell i v = (case arr_get (cell_playback g) i of Inl f \<Rightarrow> Inl f | Inr c \<Rightarrow> Inr (c, v))"
  using assms by (simp add: the_cell_def the_pgc_def get_st_def run split: sum.split)

lemma cell_find_loop_cell:
  assumes "cur_pgc (state v) = Some p" and "find_pgc v p = Some g"
    and "cell_find_loop [m..l] tgt cd0 v = Inr (Some cd, v')" and "first \<le> m"
    and "pd_time (cd_bgn cd0) = cell_begins g first m" and "pd_time (cd_end cd0) = cell_begins g first m"
  shows "\<exists>n. m \<le> n \<and> n \<le> l \<and> 1 \<le> n \<and> n \<le> int (length (cell_playback g)) \<and> in_cell g first tgt n \<and>
    (\<forall>k. m \<le> k \<and> k < n \<longrightarrow> \<not> in_cell g first tgt k) \<and> cd_idx cd = n \<and>
    pd_sector (cd_bgn cd) = first_sector (cell_playback g ! nat (n - 1))"
  using assms(3-6)
proof (induction "nat (l + 1 - m)" arbitrary: m cd0)
  case 0
  then show ?case by (simp add: run)
next
  case (Suc k)
  from Suc.hyps(2) have ml: "m \<le> l" and k: "k = nat (l + 1 - (m + 1))" by linarith+
  then have upto: "[m..l] = m # [m + 1..l]" by (simp add: upto_rec1)
  let ?c = "cell_playback g ! nat (m - 1)"
  have next_found: ?case if cd1: "cell_find_loop [m + 1..l] tgt cd1 v = Inr (Some cd, v')"
    "pd_time (cd_bgn cd1) = cell_begins g first (m + 1)" "pd_time (cd_end cd1) = cell_begins g first (m + 1)"
    and not: "\<not> in_cell g first tgt m" for cd1
  proof -
    from Suc.hyps(1) [OF k cd1(1) _ cd1(2,3)] Suc.prems(2)
    obtain n where n: "m + 1 \<le> n" "n \<le> l" "1 \<le> n" "n \<le> int (length (cell_playback g))" "in_cell g first tgt n"
      "\<forall>k. m + 1 \<le> k \<and> k < n \<longrightarrow> \<not> in_cell g first tgt k" "cd_idx cd = n"
      "pd_sector (cd_bgn cd) = first_sector (cell_playback g ! nat (n - 1))" by auto
    have "\<forall>k. m \<le> k \<and> k < n \<longrightarrow> \<not> in_cell g first tgt k"
      using n(6) not by (metis add1_zle_eq order_le_less)
    then show ?thesis using n by (intro exI [of _ n]) simp
  qed
  from Suc.prems(1) obtain c where c: "arr_get (cell_playback g) (m - 1) = Inr c"
    unfolding upto by (auto simp: run the_cell_run [OF assms(1,2)] split: sum.splits)
  then have m: "1 \<le> m" "m \<le> int (length (cell_playback g))" "c = ?c" by (auto simp: arr_iffs)
  show ?case
  proof (cases "other_angle ?c")
    case True
    with Suc.prems next_found [of cd0] show ?thesis
      unfolding upto using c m
      by (simp add: run the_cell_run [OF assms(1,2)] cell_begins_step in_cell_def)
  next
    case False
    from Suc.prems(1) c m(3) False obtain t where t: "dvdnav_convert_time (cell_playback_time ?c) = Inr t"
      unfolding upto by (auto simp: run the_cell_run [OF assms(1,2)] split: sum.splits)
    then have e: "cell_begins g first (m + 1) = cell_begins g first m + word_of_int (t div 90)"
      "cell_millis ?c = word_of_int (t div 90)"
      using False Suc.prems(2) by (simp_all add: cell_begins_step cell_millis_def)
    show ?thesis
    proof (cases "in_cell g first tgt m")
      case True
      with Suc.prems c m t e False ml show ?thesis
        unfolding upto
        by (intro exI [of _ m]) (auto simp: run the_cell_run [OF assms(1,2)] in_cell_def Let_def)
    next
      case not_in: False
      let ?cd1 = "cd0\<lparr>cd_end := (cd_end cd0)\<lparr>pd_sector := last_sector ?c, pd_time := cell_begins g first (m + 1)\<rparr>,
         cd_bgn := (cd_bgn cd0)\<lparr>pd_sector := first_sector ?c, pd_time := cell_begins g first (m + 1)\<rparr>\<rparr>"
      have "cell_find_loop [m + 1..l] tgt ?cd1 v = Inr (Some cd, v')"
        using Suc.prems c m t e False not_in
        unfolding upto
        by (auto simp: run the_cell_run [OF assms(1,2)] in_cell_def Let_def split: if_splits)
      from next_found [OF this] not_in show ?thesis by simp
    qed
  qed
qed

lemma cell_find_cell:
  assumes "cur_pgc (state v) = Some p" and "find_pgc v p = Some g"
    and "dvdnav_cell_find whole tgt v = Inr (Some cd, v')"
    and "search_cells whole (pgN (state v)) g = (first, final)"
  shows "\<exists>n. first \<le> n \<and> n \<le> final \<and> 1 \<le> n \<and> n \<le> int (length (cell_playback g)) \<and> in_cell g first tgt n \<and>
    (\<forall>k. first \<le> k \<and> k < n \<longrightarrow> \<not> in_cell g first tgt k) \<and> cd_idx cd = n \<and>
    pd_sector (cd_bgn cd) = first_sector (cell_playback g ! nat (n - 1))"
proof -
  have u: "u32_of (uint (nr_of_cells g)) = uint (nr_of_cells g)"
    using uint_bounded [of "nr_of_cells g"] unfolding u32_of_def uint_word_of_int
    by (intro mod_pos_pos_trivial) simp_all
  have "cell_find_loop [first..final] tgt \<lparr>cd_idx = 0, cd_bgn = pos_data_zero, cd_end = pos_data_zero\<rparr> v = Inr (Some cd, v')"
    using assms u
    by (auto simp: dvdnav_cell_find_def cell_range_def search_cells_def the_pgc_def get_st_def run arr_iffs
        split: sum.splits if_splits)
  from cell_find_loop_cell [OF assms(1,2) this, of first] show ?thesis
    by (simp add: cell_begins_def pos_data_zero_def)
qed

text \<open>
  Where \<^verbatim>\<open>play_Cell\<close> goes from the first cell of an angle block: the cell of the selected angle,
  if that is one of the block.
\<close>

definition angle_cell :: "pgc \<Rightarrow> u16 \<Rightarrow> int \<Rightarrow> int" where
  "angle_cell g angle n =
     (let c = cell_playback g ! nat (n - 1); m = n + (uint angle - 1); c' = cell_playback g ! nat (m - 1)
      in if block_mode c = 1 \<and> m \<le> uint (nr_of_cells g) \<and> block_mode c' \<noteq> 0 \<and> block_type c' = 1 then m else n)"

definition stands_at :: "pgc_ptr \<Rightarrow> int \<Rightarrow> vm \<Rightarrow> vm \<Rightarrow> bool" where
  "stands_at p n v t \<longleftrightarrow> cur_pgc (state t) = Some p \<and> cellN (state t) = n \<and>
     hop_channel t = hop_channel v \<and> (\<forall>q. find_pgc t q = find_pgc v q)"

lemma stands_at_put_sprm: "keeps (stands_at p n v) (\<lambda>_. True) (put_sprm i x)"
  unfolding put_sprm_def get_st_def upd_st_def
  by (intro keeps_intro keeps_upd) (simp add: stands_at_def)

lemma stands_at_set_PGN: "keeps (stands_at p n v) (\<lambda>_. True) set_PGN"
  unfolding set_PGN_def upd_st_def
  by (intro keeps_intro keeps_upd stands_at_put_sprm) (auto simp: stands_at_def)

lemma stands_at_body:
  assumes "cur_pgc (state v) = Some p" and "find_pgc v p = Some g" and "n = cellN (state v)" and "1 \<le> n"
    and "length (cell_playback g) \<le> unat (nr_of_cells g)" and "SPRM (registers (state v)) ! 3 = angle"
    and "arr_get (cell_playback g) (n - 1) = Inr c" and "play_Cell_body c v = Inr (l, t)"
  shows "l = play_this \<and> stands_at p (angle_cell g angle n) v t"
proof -
  let ?m = "angle_cell g angle n"
  let ?enter = "if block_mode c = 0 then assert_p (block_type c = 0)
         else if block_mode c = 1 then
           (if block_type c = 1 then enter_angle_block else err AssertFail)
         else ret ()"
  have c: "c = cell_playback g ! nat (n - 1)" using assms(7) by (auto simp: arr_iffs)
  from assms(8) obtain w where w: "?enter v = Inr ((), w)" and
    r: "(bnd set_PGN (\<lambda>ok. if \<not> ok then err AssertFail
        else sq (upd_st (\<lambda>t. t\<lparr>cell_restart := cell_restart t + 1, blockN := 0\<rparr>)) (ret play_this))) w = Inr (l, t)"
    unfolding play_Cell_body_def by (auto simp: run_sq split: sum.splits)
  have the_c: "the_cell i v' = (case arr_get (cell_playback g) i of Inl f \<Rightarrow> Inl f | Inr c \<Rightarrow> Inr (c, v'))"
    and the_g: "the_pgc v' = Inr (g, v')"
    if "cur_pgc (state v') = Some p" "find_pgc v' p = Some g" for i v'
    using that by (simp_all add: the_cell_run the_pgc_def get_st_def run)
  have w: "stands_at p ?m v w"
  proof (cases "block_mode c = 1")
    case True
    with w have "enter_angle_block v = Inr ((), w)" by (simp add: run split: if_splits)
    then show ?thesis
      using assms(1-6) c True
      by (auto simp: stands_at_def angle_cell_def enter_angle_block_def get_sprm_def get_st_def upd_st_def
          the_c the_g run arr_iffs Let_def split: if_splits sum.splits)
  next
    case False
    with w have "w = v" by (auto simp: run split: if_splits)
    then show ?thesis using assms(1-3) c False by (simp add: stands_at_def angle_cell_def Let_def)
  qed
  from r obtain ok u where u: "set_PGN w = Inr (ok, u)" "l = play_this"
    "t = u\<lparr>state := (state u)\<lparr>cell_restart := cell_restart (state u) + 1, blockN := 0\<rparr>\<rparr>"
    by (auto simp: run_bnd upd_st_def run split: sum.splits if_splits)
  have "stands_at p ?m v u" using wpe_Inr [OF keepsD [OF stands_at_set_PGN w] u(1)] .
  then show ?thesis using u(2,3) by (simp add: stands_at_def)
qed

lemma process_play_this:
  "process_command (Suc k) play_this w = Inr (True, w\<lparr>state := (state w)\<lparr>blockN := 0\<rparr>\<rparr>)"
  by (simp add: play_this_def link_zero_def block_of_link_def upd_st_def run)

lemma jump_cell_block_lands:
  assumes "cur_pgc (state v) = Some p" and "find_pgc v p = Some g" and "1 \<le> n"
    and "n \<le> int (length (cell_playback g))" and "length (cell_playback g) \<le> unat (nr_of_cells g)"
    and "SPRM (registers (state v)) ! 3 = angle" and "vm_jump_cell_block fuel n b v = Inr (ok, t)"
  shows "stands_at p (angle_cell g angle n) v t \<and> blockN (state t) = (if angle_cell g angle n = n then b else 0)"
proof -
  let ?v = "v\<lparr>state := (state v)\<lparr>cellN := n\<rparr>\<rparr>"
  from assms(3,4) obtain c where c: "arr_get (cell_playback g) (n - 1) = Inr c" by (auto simp: arr_get_def)
  have "n \<le> uint (nr_of_cells g)" using assms(4,5) by (metis of_nat_le_iff order_trans uint_nat)
  with assms(1-3) c have "play_Cell fuel ?v = play_Cell_body c ?v"
    by (simp add: play_Cell_def play_Cell_with_def get_st_def the_pgc_def the_cell_def run)
  moreover from assms(7) obtain l w where w: "play_Cell fuel ?v = Inr (l, w)" and
    r: "(bnd (process_command fuel l) (\<lambda>_. bnd (get_st cellN) (\<lambda>c.
        sq (when_p (c = n) (upd_st (\<lambda>t. t\<lparr>blockN := b\<rparr>))) (ret True)))) w = Inr (ok, t)"
    unfolding vm_jump_cell_block_def upd_st_def by (auto simp: run_sq run_bnd run_upd split: sum.splits)
  ultimately have "l = play_this" "stands_at p (angle_cell g angle n) ?v w"
    using stands_at_body [of ?v p g n angle c l w] assms(1-3,5,6) c by simp_all
  obtain k where "fuel = Suc k"
    using r by (cases fuel) (simp_all add: run)
  with r \<open>l = play_this\<close> have "t = (if cellN (state w) = n then w\<lparr>state := (state w)\<lparr>blockN := b\<rparr>\<rparr>
      else w\<lparr>state := (state w)\<lparr>blockN := 0\<rparr>\<rparr>)"
    by (simp add: run_bnd process_play_this del: process_command.simps)
      (simp add: get_st_def upd_st_def run split: if_splits)
  with \<open>stands_at p (angle_cell g angle n) ?v w\<close> show ?thesis
    by (simp add: stands_at_def)
qed

section \<open>The jump\<close>

lemma new_tmapt_same:
  "new_tmapt v w \<Longrightarrow> state w = state v \<and> hop_channel w = hop_channel v \<and> find_pgc w q = find_pgc v q"
  by (auto simp: new_tmapt_def find_pgc_def handle_obj_def cong: option.case_cong)

text \<open>
  \<open>time_cell\<close>: \<open>n\<close> is the first cell the search looks at that contains the time.  \<open>vobu_jump\<close>: the
  machine stands in that cell at the beginning of a VOBU of the address map, or, when the cell
  begins an angle block and \<^verbatim>\<open>play_Cell\<close> has gone on to the cell of another angle, at the
  beginning of that one.
\<close>

definition time_cell :: "dvdnav \<Rightarrow> pgc \<Rightarrow> u64 \<Rightarrow> int \<Rightarrow> bool" where
  "time_cell d g time n \<longleftrightarrow>
     (case search_cells (pgc_based d \<noteq> 0) (pgN (state (nav_vm d))) g of
        (first, final) \<Rightarrow> first \<le> n \<and> n \<le> final \<and> in_cell g first time n \<and>
          (\<forall>k. first \<le> k \<and> k < n \<longrightarrow> \<not> in_cell g first time k))"

definition vobu_jump :: "pgc_ptr \<Rightarrow> pgc \<Rightarrow> u32 list \<Rightarrow> int \<Rightarrow> dvdnav \<Rightarrow> dvdnav \<Rightarrow> bool" where
  "vobu_jump p g as n d d' \<longleftrightarrow>
     (let s = state (nav_vm d'); m = angle_cell g (SPRM (registers (state (nav_vm d))) ! 3) n
      in cur_pgc s = Some p \<and> find_pgc (nav_vm d') p = Some g \<and> cellN s = m \<and>
         (if m = n then \<exists>sector \<in> set as. blockN s = sint (sector - first_sector (cell_playback g ! nat (n - 1)))
          else blockN s = 0) \<and>
         hop_channel (nav_vm d') = hop_channel (nav_vm d) + HOP_SEEK \<and> cur_cell_time d' = 0)"

lemma jump_to_vobu_run:
  assumes "jump_to_vobu fuel cd r d = Inr (ok, d')"
  shows "(\<not> ok \<and> d' = d) \<or> ok \<and> (\<exists>sector v'. r = Some sector \<and>
    vm_jump_cell_block fuel (cd_idx cd) (sint (sector - pd_sector (cd_bgn cd))) (nav_vm d) = Inr (True, v') \<and>
    d' = d\<lparr>nav_vm := v'\<lparr>hop_channel := hop_channel v' + HOP_SEEK\<rparr>, cur_cell_time := 0\<rparr>)"
  using assms
  by (auto simp: jump_to_vobu_def vm_jump_cell_block_def run in_vm_def hop_def split: option.splits sum.splits if_splits)

lemma jump_to_vobu_lands:
  assumes "jump_to_vobu fuel cd r (d\<lparr>nav_vm := v\<rparr>) = Inr (True, d')" and "new_tmapt (nav_vm d) v"
    and "cur_pgc (state (nav_vm d)) = Some p" and "find_pgc (nav_vm d) p = Some g"
    and "length (cell_playback g) \<le> unat (nr_of_cells g)" and "in_map as r"
    and "1 \<le> cd_idx cd" and "cd_idx cd \<le> int (length (cell_playback g))"
    and "pd_sector (cd_bgn cd) = first_sector (cell_playback g ! nat (cd_idx cd - 1))"
  shows "vobu_jump p g as (cd_idx cd) d d'"
proof -
  from jump_to_vobu_run [OF assms(1)] obtain sector v' where r: "r = Some sector"
    and j: "vm_jump_cell_block fuel (cd_idx cd) (sint (sector - pd_sector (cd_bgn cd))) v = Inr (True, v')"
    and d': "d' = d\<lparr>nav_vm := v'\<lparr>hop_channel := hop_channel v' + HOP_SEEK\<rparr>, cur_cell_time := 0\<rparr>" by auto
  note same = new_tmapt_same [OF assms(2)]
  have "sector \<in> set as" using assms(6) r by (simp add: in_map_def)
  moreover have "find_pgc (v'\<lparr>hop_channel := h\<rparr>) p = find_pgc v' p" for h
    by (simp add: find_pgc_def cong: option.case_cong)
  ultimately show ?thesis
    using jump_cell_block_lands [OF _ _ assms(7,8,5) refl j, of p] same assms(3,4,9) d'
    by (cases p) (auto simp: vobu_jump_def stands_at_def Let_def)
qed

text \<open>
  C39: \<^verbatim>\<open>dvdnav_jump_to_sector_by_time\<close>, in a program chain whose cell array is not longer than its
  count says (as \<^verbatim>\<open>ifoRead_PGC\<close> allocates it).  When it fails, the position is untouched; when it
  succeeds, the time lies in a cell of the range searched (the whole chain or the current
  program), and the machine stands, with one more seek hop and the cell time cleared, in the
  first such cell, at a block that is the beginning of a VOBU of the address map.  There are two
  exceptions: where the domain has no address map, the status is ok and the position untouched;
  where that cell begins an angle block and another angle is selected, the machine stands at
  block 0 of the selected angle's cell and the VOBU found is lost.  Only the time maps of the open
  title set may have been read again.
\<close>

theorem jump_by_time_result:
  assumes "dvdnav_jump_to_sector_by_time reread fuel ticks 0 d = Inr (ok, d')"
    and "cur_pgc (state (nav_vm d)) = Some p" and "find_pgc (nav_vm d) p = Some g"
    and "length (cell_playback g) \<le> unat (nr_of_cells g)"
  shows "\<exists>v. new_tmapt (nav_vm d) v \<and>
    (if \<not> ok then d' = d\<lparr>nav_vm := v\<rparr>
     else \<exists>n. time_cell d g (ticks div 90) n \<and>
       (case dvdnav_admap_get (nav_vm d) of
          Inr (Some as, _) \<Rightarrow> vobu_jump p g as n d d'
        | _ \<Rightarrow> d' = d\<lparr>nav_vm := v\<rparr>))"
proof -
  let ?t = "ticks div 90"
  have new: "\<exists>v. new_tmapt (nav_vm d) v \<and> d = d\<lparr>nav_vm := v\<rparr>"
    by (rule exI [of _ "nav_vm d"]) (simp add: new_tmapt_def)
  from assms(1) obtain r where r: "dvdnav_cell_find (pgc_based d \<noteq> 0) ?t (nav_vm d) = Inr (r, nav_vm d)" and
    k: "(case r of None \<Rightarrow> ret False
        | Some cd \<Rightarrow> bnd (in_vm dvdnav_admap_get) (\<lambda>m. case m of None \<Rightarrow> ret True
            | Some as \<Rightarrow> bnd (in_vm (find_vobu reread as cd ?t)) (jump_to_vobu fuel cd))) d = Inr (ok, d')"
    unfolding dvdnav_jump_to_sector_by_time_def
    by (simp add: run_bnd [of "rd _"] run_rd) (erule bnd_readonly_in_vmE [OF readonly_cell_find])
  show ?thesis
  proof (cases r)
    case None
    with k new show ?thesis by (auto simp: run)
  next
    case (Some cd)
    obtain first final where range: "search_cells (pgc_based d \<noteq> 0) (pgN (state (nav_vm d))) g = (first, final)"
      by (cases "search_cells (pgc_based d \<noteq> 0) (pgN (state (nav_vm d))) g")
    from cell_find_cell [OF assms(2,3) _ range] r Some
    have cell: "time_cell d g ?t (cd_idx cd)" "1 \<le> cd_idx cd" "cd_idx cd \<le> int (length (cell_playback g))"
      "pd_sector (cd_bgn cd) = first_sector (cell_playback g ! nat (cd_idx cd - 1))"
      by (auto simp: time_cell_def range)
    from k Some obtain m where m: "dvdnav_admap_get (nav_vm d) = Inr (m, nav_vm d)" and
      k2: "(case m of None \<Rightarrow> ret True
        | Some as \<Rightarrow> bnd (in_vm (find_vobu reread as cd ?t)) (jump_to_vobu fuel cd)) d = Inr (ok, d')"
      by simp (erule bnd_readonly_in_vmE [OF readonly_admap_get])
    show ?thesis
    proof (cases m)
      case None
      with k2 new cell(1) m show ?thesis by (auto simp: run)
    next
      case as: (Some as)
      with k2 obtain x v where v: "find_vobu reread as cd ?t (nav_vm d) = Inr (x, v)"
        and j: "jump_to_vobu fuel cd x (d\<lparr>nav_vm := v\<rparr>) = Inr (ok, d')"
        by (auto simp: bnd_Inr in_vm_Inr)
      have x: "in_map as x" using find_vobu_in_map v by (rule yieldsD)
      note new = find_vobu_tmapt [OF v]
      show ?thesis
      proof (cases ok)
        case True
        with jump_to_vobu_lands [OF _ new assms(2-4) x cell(2-4)] j cell(1) m as new show ?thesis
          by auto
      next
        case False
        with jump_to_vobu_run [OF j] new show ?thesis by auto
      qed
    qed
  qed
qed

definition ex_cell_data :: cell_data where
  "ex_cell_data = \<lparr>cd_idx = 3, cd_bgn = \<lparr>pd_time = 0, pd_sector = 100, pd_tmap_idx = 0\<rparr>,
     cd_end = \<lparr>pd_time = 45000, pd_sector = 110, pd_tmap_idx = 0\<rparr>\<rparr>"

lemmas jump_runs = find_vobu_def dvdnav_find_vobu_by_tmap_def dvdnav_tmap_get_def title_tmapt_def when_found_def
  dvdnav_tmap_get_entries_for_sector_def dvdnav_tmap_search_def bisect.simps half_def probe_def
  dvdnav_tmap_get_entry_def tmap_of_domain_def

lemmas map_runs = dvdnav_tmap_calc_time_for_tmap_entry_def dvdnav_admap_search_def when_found_def bisect.simps
  half_def probe_def admap_probe_def arr_get_def udiv_def jump_entries_def dvdnav_tmap_get_entry_def
  dvdnav_find_vobu_by_cell_boundaries_def dvdnav_admap_interpolate_vobu_def

lemma ex_find_vobu:
  "find_vobu (\<lambda>_. None) [0, 100, 105, 111, 120] ex_cell_data 30000 (ex_title 2 3) = Inr (Some 111, ex_title 2 3)"
  by (simp add: ex_cell_data_def jump_runs run ex_defs table_runs Let_def)
    (simp add: map_runs run Let_def)

lemma ex_cell_find: "dvdnav_cell_find False 30000 (ex_title 2 3) = Inr (Some ex_cell_data, ex_title 2 3)"
  by (simp add: ex_cell_data_def dvdnav_cell_find_def cell_range_def run ex_defs table_runs Let_def other_angle_def
      u32_of_def upto_rec1 dvdnav_convert_time_def pos_data_zero_def)

lemma jump_by_time_result_witness:
  "\<exists>d'. dvdnav_jump_to_sector_by_time (\<lambda>_. None) 1 2700000 0 ex_playing = Inr (True, d') \<and>
    vobu_jump (1, 0) ex_pgc [0, 100, 105, 111, 120] 3 ex_playing d'"
proof -
  have "\<exists>v'. vm_jump_cell_block 1 3 11 (ex_title 2 3) = Inr (True, v') \<and> blockN (state v') = 11"
    by (simp add: vm_jump_cell_block_def run ex_defs table_runs play_runs process_command.simps play_this_def Let_def)
  then obtain v' where v': "vm_jump_cell_block 1 3 11 (ex_title 2 3) = Inr (True, v')" "blockN (state v') = 11"
    by blast
  have admap: "dvdnav_admap_get (ex_title 2 3) = Inr (Some [0, 100, 105, 111, 120], ex_title 2 3)"
    by (simp add: dvdnav_admap_get_def domain_admap_def run ex_defs table_runs)
  have p: "nav_vm ex_playing = ex_title 2 3" "pgc_based ex_playing = 0"
    by (simp_all add: ex_playing_def dvdnav_alloc_def)
  have r: "\<exists>d'. dvdnav_jump_to_sector_by_time (\<lambda>_. None) 1 2700000 0 ex_playing = Inr (True, d') \<and>
      blockN (state (nav_vm d')) = 11"
    using v' by (simp add: dvdnav_jump_to_sector_by_time_def run in_vm_def p ex_cell_find admap ex_find_vobu
        jump_to_vobu_def hop_def) (simp add: ex_cell_data_def run)
  then obtain d' where r: "dvdnav_jump_to_sector_by_time (\<lambda>_. None) 1 2700000 0 ex_playing = Inr (True, d')"
    "blockN (state (nav_vm d')) = 11" by blast
  have g: "cur_pgc (state (nav_vm ex_playing)) = Some (1, 0)" "find_pgc (nav_vm ex_playing) (1, 0) = Some ex_pgc"
    "length (cell_playback ex_pgc) \<le> unat (nr_of_cells ex_pgc)"
    by (simp_all add: p(1) ex_defs find_pgc_def handle_obj_def)
  from jump_by_time_result [OF r(1) g] obtain n where n: "time_cell ex_playing ex_pgc 30000 n"
    "vobu_jump (1, 0) ex_pgc [0, 100, 105, 111, 120] n ex_playing d'"
    by (auto simp: p(1) admap)
  have "search_cells False 2 ex_pgc = (3, 3)" by (simp add: search_cells_def ex_pgc_def)
  with n(1) have "n = 3" by (simp add: time_cell_def p) (simp add: ex_title_def)
  with n(2) r show ?thesis by blast
qed

section \<open>Chapters\<close>

text \<open>The cells whose times make up a chapter; its length, and whether it has any such cell.\<close>

definition counted_cells :: "cell_playback list \<Rightarrow> int \<Rightarrow> int \<Rightarrow> cell_playback list" where
  "counted_cells cs n fin =
     filter (\<lambda>c. \<not> other_angle c) (take (nat (max (n + 1) fin - n)) (drop (nat (n - 1)) cs))"

definition cell_ticks :: "cell_playback \<Rightarrow> u64" where
  "cell_ticks c = (case dvdnav_convert_time (cell_playback_time c) of Inl _ \<Rightarrow> 0 | Inr t \<Rightarrow> word_of_int t)"

definition chapter_length :: "title_ifo \<Rightarrow> ptt_info \<Rightarrow> u64" where
  "chapter_length ifo p =
     (case chapter_of ifo p of
        Inr (Part g first fin) \<Rightarrow> sum_list (map cell_ticks (counted_cells (cell_playback g) first fin))
      | _ \<Rightarrow> 0)"

definition chapter_counts :: "title_ifo \<Rightarrow> ptt_info \<Rightarrow> bool" where
  "chapter_counts ifo p =
     (case chapter_of ifo p of
        Inr (Part g first fin) \<Rightarrow> counted_cells (cell_playback g) first fin \<noteq> []
      | _ \<Rightarrow> False)"

lemma counted_cells_step:
  assumes "1 \<le> n" and "n - 1 < int (length cs)"
  shows "counted_cells cs n fin = (if other_angle (cs ! nat (n - 1)) then [] else [cs ! nat (n - 1)]) @
    (if n + 1 < fin then counted_cells cs (n + 1) fin else [])"
proof -
  let ?i = "nat (n - 1)"
  from assms have i: "?i < length cs" "nat (n + 1 - 1) = Suc ?i" by linarith+
  then have d: "drop ?i cs = cs ! ?i # drop (Suc ?i) cs" by (simp add: Cons_nth_drop_Suc)
  have "nat (max (n + 1) fin - n) = Suc (nat (max (n + 1) fin - n - 1))" by linarith
  moreover have "nat (max (n + 1) fin - n - 1) = (if n + 1 < fin then nat (max (n + 1 + 1) fin - (n + 1)) else 0)"
    by (auto simp: max_def)
  ultimately show ?thesis unfolding counted_cells_def d i(2) by simp
qed

lemma chapter_cells_sum:
  "chapter_cells cs n fin t0 len = Inr (t, l) \<Longrightarrow> 1 \<le> n \<Longrightarrow>
   l = len + sum_list (map cell_ticks (counted_cells cs n fin)) \<and>
   t = (if counted_cells cs n fin = [] then t0 else l)"
proof (induction cs n fin t0 len rule: chapter_cells.induct)
  case (1 cs n fin t0 len)
  from 1(2) obtain c t1 l1 where c: "arr_get cs (n - 1) = Inr c" and
    t1: "(if other_angle c then Inr (t0, len)
          else (case dvdnav_convert_time (cell_playback_time c) of
                  Inl f \<Rightarrow> Inl f | Inr x \<Rightarrow> Inr (len + word_of_int x, len + word_of_int x))) = Inr (t1, l1)" and
    r: "(if n + 1 < fin then chapter_cells cs (n + 1) fin t1 l1 else Inr (t1, l1)) = Inr (t, l)"
    by (subst (asm) (1) chapter_cells.simps) (auto split: sum.splits if_splits)
  from c have nth: "n - 1 < int (length cs)" "c = cs ! nat (n - 1)" by (simp_all add: arr_iffs)
  have l1: "l1 = len + (if other_angle c then 0 else cell_ticks c)" "t1 = (if other_angle c then t0 else l1)"
    using t1 by (auto simp: cell_ticks_def split: sum.splits if_splits)
  show ?case
  proof (cases "n + 1 < fin")
    case True
    with r have "chapter_cells cs (n + 1) fin t1 l1 = Inr (t, l)" by simp
    from 1(1) [OF c t1 refl True this] 1(3) l1 nth True
    show ?thesis by (auto simp: counted_cells_step)
  next
    case False
    with r l1 nth 1(3) show ?thesis by (auto simp: counted_cells_step)
  qed
qed

lemma chapter_of_first: "chapter_of ifo p = Inr (Part g first fin) \<Longrightarrow> 1 \<le> first"
proof -
  have "0 < uint a" if "a \<noteq> 0" for a :: u8
    using that by (simp add: word_neq_0_conv word_less_def)
  then show "chapter_of ifo p = Inr (Part g first fin) \<Longrightarrow> 1 \<le> first"
    by (fastforce simp: chapter_of_def split: if_splits option.splits sum.splits prod.splits)
qed

lemma chapters_loop_sums:
  "chapters_loop ifo ptts n i len d = Inr (Some (ts, l), d') \<Longrightarrow>
   length ts = n \<and> l = len + sum_list (map (chapter_length ifo) (take n (drop i ptts))) \<and>
   (\<forall>k < n. ts ! k = (if chapter_counts ifo (ptts ! (i + k))
      then len + sum_list (map (chapter_length ifo) (take (Suc k) (drop i ptts))) else 0))"
proof (induction n arbitrary: i len d ts l)
  case 0
  then show ?case by (simp add: run)
next
  case (Suc n)
  from Suc.prems obtain p c where p: "arr_get ptts (int i) = Inr p" and c: "chapter_of ifo p = Inr c"
    by (auto simp: run split: sum.splits)
  then have i: "i < length ptts" "p = ptts ! i" by (simp_all add: arr_iffs)
  then have d: "drop i ptts = p # drop (Suc i) ptts" by (simp add: Cons_nth_drop_Suc)
  from Suc.prems p c obtain msg where r:
    "(c = Skip msg \<and> (\<exists>d1. (when_found (chapters_loop ifo ptts n (Suc i) len) (\<lambda>(ts, l). ret (Some (0 # ts, l)))) d1 =
        Inr (Some (ts, l), d'))) \<or>
     (\<exists>g first fin t len'. c = Part g first fin \<and> chapter_cells (cell_playback g) first fin 0 len = Inr (t, len') \<and>
        (when_found (chapters_loop ifo ptts n (Suc i) len') (\<lambda>(ts, l). ret (Some (t # ts, l)))) d = Inr (Some (ts, l), d'))"
    by (cases c) (auto simp: run fail_with_def split: sum.splits)
  have step: "\<exists>ts'. ts = t # ts' \<and> chapters_loop ifo ptts n (Suc i) len' d1 = Inr (Some (ts', l), d')"
    if "(when_found (chapters_loop ifo ptts n (Suc i) len') (\<lambda>(ts, l). ret (Some (t # ts, l)))) d1 = Inr (Some (ts, l), d')"
    for t len' d1
    using that by (auto simp: when_found_def run split: sum.splits option.splits)
  have finish: ?case
    if ts: "ts = t # ts'" "chapters_loop ifo ptts n (Suc i) (len + chapter_length ifo p) d1 = Inr (Some (ts', l), d')"
      and t: "t = (if chapter_counts ifo p then len + chapter_length ifo p else 0)" for t ts' d1
    using Suc.IH [OF ts(2)] ts(1) t i(2) by (auto simp: d nth_Cons add.assoc split: nat.split)
  from r show ?case
  proof (elim disjE exE conjE)
    fix d1
    assume k: "c = Skip msg" "(when_found (chapters_loop ifo ptts n (Suc i) len) (\<lambda>(ts, l). ret (Some (0 # ts, l)))) d1 =
        Inr (Some (ts, l), d')"
    with c have "chapter_length ifo p = 0" "\<not> chapter_counts ifo p"
      by (simp_all add: chapter_length_def chapter_counts_def)
    with step [OF k(2)] finish show ?case by force
  next
    fix g first fin t len'
    assume k: "c = Part g first fin" "chapter_cells (cell_playback g) first fin 0 len = Inr (t, len')"
      "(when_found (chapters_loop ifo ptts n (Suc i) len') (\<lambda>(ts, l). ret (Some (t # ts, l)))) d = Inr (Some (ts, l), d')"
    from chapter_cells_sum [OF k(2)] chapter_of_first c k(1)
    have "len' = len + chapter_length ifo p" "t = (if chapter_counts ifo p then len + chapter_length ifo p else 0)"
      by (auto simp: chapter_length_def chapter_counts_def)
    with step [OF k(3)] finish show ?case by blast
  qed
qed

text \<open>
  The times \<^verbatim>\<open>dvdnav_describe_title_chapters\<close> returns are the ends of the chapters: the sums of the
  lengths of the chapters up to each, with 0 for a chapter that has no cell to count, and the
  duration is the sum of all.  The length of a chapter is that of its cells, other angles left
  out, up to the next program; of the last program of a chain it is that of its first cell only.
\<close>

theorem describe_chapters_sums:
  assumes "started d" and "vmgi (nav_vm d) = Some h" and "tt_srpt h = Some titles"
    and "1 \<le> title" and "title \<le> int (length titles)"
    and "t = titles ! nat (title - 1)" and "ifo_of (title_set_nr t) = Some ifo"
    and "arr_get (ti_ptts ifo) (uint (title_vts_ttn t) - 1) = Inr ptts"
    and "dvdnav_describe_title_chapters ifo_of fuel title d = Inr ((n, Some ends, duration), d')"
  shows "n = unat (title_nr_of_ptts t) \<and> length ends = n \<and>
    duration = sum_list (map (chapter_length ifo) (take n ptts)) \<and>
    (\<forall>k < n. ends ! k = (if chapter_counts ifo (ptts ! k)
       then sum_list (map (chapter_length ifo) (take (Suc k) ptts)) else 0))"
proof -
  have tt: "the_tt_srpt (nav_vm d) = Inr (titles, nav_vm d)" using assms(2,3) by (simp add: the_tt_srpt_def run)
  have "chapters_loop ifo ptts (unat (title_nr_of_ptts t)) 0 0 d = Inr (Some (ends, duration), d')"
    and "n = unat (title_nr_of_ptts t)"
    using assms(9) assms(1-8) tt
    by (auto simp: dvdnav_describe_title_chapters_def run in_vm_def vm_get_title_ifo_def split: sum.splits option.splits)
  then show ?thesis by (auto dest!: chapters_loop_sums)
qed


definition ex_ifo :: title_ifo where
  "ex_ifo = \<lparr>ti_last_byte = 1000, ti_pgcs = [(16, Some ex_pgc)],
     ti_ptts = [[\<lparr>ptt_pgcn = 1, ptt_pgn = 1\<rparr>, \<lparr>ptt_pgcn = 1, ptt_pgn = 2\<rparr>]]\<rparr>"

theorem describe_chapters_sums_witness:
  "dvdnav_describe_title_chapters (\<lambda>_. Some ex_ifo) 0 1 ex_playing =
     Inr ((2, Some [8100000, 12150000], 12150000), ex_playing) \<and>
   12150000 = sum_list (map (chapter_length ex_ifo) (take 2 (hd (ti_ptts ex_ifo))))"
proof -
  have p: "vmgi (nav_vm ex_playing) = Some (ex_vmg ex_pgc)" "started ex_playing"
    by (simp_all add: ex_playing_def dvdnav_alloc_def ex_defs)
  then have tt: "the_tt_srpt (nav_vm ex_playing) = Inr ([\<lparr>nr_of_angles = 1, title_nr_of_ptts = 2, title_set_nr = 1,
      title_vts_ttn = 1\<rparr>], nav_vm ex_playing)"
    by (simp add: the_tt_srpt_def run ex_vmg_def)
  have "chapters_loop ex_ifo (hd (ti_ptts ex_ifo)) (Suc (Suc 0)) 0 0 ex_playing =
      Inr (Some ([8100000, 12150000], 12150000), ex_playing)"
    by (simp add: run ex_ifo_def chapter_of_def ex_pgc_def when_found_def chapter_cells.simps ex_cell_def
        other_angle_def dvdnav_convert_time_def)
  then have r: "dvdnav_describe_title_chapters (\<lambda>_. Some ex_ifo) 0 1 ex_playing =
     Inr ((2, Some [8100000, 12150000], 12150000), ex_playing)"
    by (simp add: dvdnav_describe_title_chapters_def run in_vm_def p tt vm_get_title_ifo_def ex_ifo_def flip: numeral_2_eq_2)
  let ?ts = "[\<lparr>nr_of_angles = 1, title_nr_of_ptts = 2, title_set_nr = 1, title_vts_ttn = 1\<rparr>]"
  have 1: "tt_srpt (ex_vmg ex_pgc) = Some ?ts" by (simp add: ex_vmg_def)
  have 2: "arr_get (ti_ptts ex_ifo) (uint (title_vts_ttn (?ts ! nat (1 - 1))) - 1) = Inr (hd (ti_ptts ex_ifo))"
    by (simp add: ex_ifo_def)
  from describe_chapters_sums [OF p(2,1) 1 _ _ refl refl 2 r] r show ?thesis by simp
qed

end
