(* ===== verification/Hdhr_Pkt.thy ===== *)
theory Hdhr_Pkt
  imports Prelude
begin

text \<open>
  The packet buffer of the HDHomeRun protocol, \<^verbatim>\<open>lib/libhdhomerun/hdhomerun_pkt.c\<close>.

  The four pointers of \<^verbatim>\<open>struct hdhomerun_pkt_t\<close> point into its own buffer and are offsets in it;
  an access through a pointer outside the buffer is the fault \<open>OutOfBounds\<close>.  \<^verbatim>\<open>size_t\<close> has 64
  bits, and adding one to a pointer wraps modulo 2 to the 64 as on the machine.
\<close>

record pkt =
  pk_pos :: int
  pk_start :: int
  pk_end :: int
  pk_limit :: int
  pk_buffer :: "u8 list"

definition hdhomerun_pkt_reset :: "(pkt, unit) prog" where
  "hdhomerun_pkt_reset =
     upd (\<lambda>k. k\<lparr>pk_limit := int (length (pk_buffer k)) - 4, pk_start := 1024, pk_end := 1024,
                pk_pos := 1024\<rparr>)"

definition hdhomerun_pkt_create :: pkt where
  "hdhomerun_pkt_create =
     \<lparr>pk_pos = 1024, pk_start = 1024, pk_end = 1024, pk_limit = 3070,
      pk_buffer = replicate 3074 0\<rparr>"

section \<open>Checksum\<close>

definition crc_step :: "u32 \<Rightarrow> u8 \<Rightarrow> u32" where
  "crc_step crc b =
     (let x = (ucast crc :: u8) XOR b;
          crc = drop_bit 8 crc;
          crc = (if x AND 0x01 \<noteq> 0 then crc XOR 0x77073096 else crc);
          crc = (if x AND 0x02 \<noteq> 0 then crc XOR 0xEE0E612C else crc);
          crc = (if x AND 0x04 \<noteq> 0 then crc XOR 0x076DC419 else crc);
          crc = (if x AND 0x08 \<noteq> 0 then crc XOR 0x0EDB8832 else crc);
          crc = (if x AND 0x10 \<noteq> 0 then crc XOR 0x1DB71064 else crc);
          crc = (if x AND 0x20 \<noteq> 0 then crc XOR 0x3B6E20C8 else crc);
          crc = (if x AND 0x40 \<noteq> 0 then crc XOR 0x76DC4190 else crc);
          crc = (if x AND 0x80 \<noteq> 0 then crc XOR 0xEDB88320 else crc)
      in crc)"

fun crc_loop :: "u32 \<Rightarrow> u8 list \<Rightarrow> u32" where
  "crc_loop crc [] = crc"
| "crc_loop crc (b # bs) = crc_loop (crc_step crc b) bs"

text \<open>The bytes from offset \<open>a\<close> up to offset \<open>e\<close>.\<close>

definition pkt_bytes :: "int \<Rightarrow> int \<Rightarrow> (pkt, u8 list) prog" where
  "pkt_bytes a e =
     (if e \<le> a then ret []
      else bnd (rd pk_buffer) (\<lambda>xs.
        if 0 \<le> a \<and> e \<le> int (length xs) then ret (take (nat (e - a)) (drop (nat a) xs))
        else err OutOfBounds))"

definition hdhomerun_pkt_calc_crc :: "int \<Rightarrow> int \<Rightarrow> (pkt, u32) prog" where
  "hdhomerun_pkt_calc_crc start stop =
     bnd (pkt_bytes start stop) (\<lambda>bs. ret (crc_loop 0xFFFFFFFF bs XOR 0xFFFFFFFF))"

section \<open>Reading\<close>

definition hdhomerun_pkt_read_u8 :: "(pkt, u8) prog" where
  "hdhomerun_pkt_read_u8 =
     bnd (rd (\<lambda>k. arr_get (pk_buffer k) (pk_pos k))) (\<lambda>r.
     bnd (lift_r r) (\<lambda>v.
     sq (upd (\<lambda>k. k\<lparr>pk_pos := pk_pos k + 1\<rparr>)) (ret v)))"

definition hdhomerun_pkt_read_u16 :: "(pkt, u16) prog" where
  "hdhomerun_pkt_read_u16 =
     bnd hdhomerun_pkt_read_u8 (\<lambda>a.
     bnd hdhomerun_pkt_read_u8 (\<lambda>b.
     ret (push_bit 8 (ucast a) OR ucast b)))"

definition hdhomerun_pkt_read_u32 :: "(pkt, u32) prog" where
  "hdhomerun_pkt_read_u32 =
     bnd hdhomerun_pkt_read_u8 (\<lambda>a.
     bnd hdhomerun_pkt_read_u8 (\<lambda>b.
     bnd hdhomerun_pkt_read_u8 (\<lambda>c.
     bnd hdhomerun_pkt_read_u8 (\<lambda>d.
     ret (push_bit 24 (ucast a) OR push_bit 16 (ucast b) OR push_bit 8 (ucast c) OR ucast d)))))"

text \<open>A variable length; \<open>-1\<close> when the packet ends inside it.\<close>

definition hdhomerun_pkt_read_var_length :: "(pkt, u64) prog" where
  "hdhomerun_pkt_read_var_length =
     bnd (rd (\<lambda>k. pk_pos k + 1 > pk_end k)) (\<lambda>short.
     if short then ret (-1)
     else
       bnd hdhomerun_pkt_read_u8 (\<lambda>a.
       let len = (ucast a :: u64)
       in if len AND 0x80 \<noteq> 0 then
            bnd (rd (\<lambda>k. pk_pos k + 1 > pk_end k)) (\<lambda>short2.
            if short2 then ret (-1)
            else
              bnd hdhomerun_pkt_read_u8 (\<lambda>b.
              ret ((len AND 0x7F) OR push_bit 7 (ucast b))))
          else ret len))"

text \<open>
  \<^verbatim>\<open>hdhomerun_pkt_read_tlv\<close> returns tag, length and the position behind the value, or nothing
  (\<^verbatim>\<open>NULL\<close>).
\<close>

definition hdhomerun_pkt_read_tlv :: "(pkt, (u8 \<times> u64 \<times> int) option) prog" where
  "hdhomerun_pkt_read_tlv =
     bnd (rd (\<lambda>k. pk_pos k + 2 > pk_end k)) (\<lambda>short.
     if short then ret None
     else
       bnd hdhomerun_pkt_read_u8 (\<lambda>tag.
       bnd hdhomerun_pkt_read_var_length (\<lambda>len.
       bnd (rd (\<lambda>k. pk_pos k + sint len)) (\<lambda>next.
       bnd (rd pk_end) (\<lambda>e.
       if next > e then ret None else ret (Some (tag, len, next)))))))"

section \<open>Writing\<close>

text \<open>\<^verbatim>\<open>*pkt->pos++ = v\<close>, and the update of \<^verbatim>\<open>pkt->end\<close> that ends every write.\<close>

definition pkt_put :: "u8 \<Rightarrow> (pkt, unit) prog" where
  "pkt_put v =
     bnd (rd (\<lambda>k. arr_set (pk_buffer k) (pk_pos k) v)) (\<lambda>r.
     bnd (lift_r r) (\<lambda>xs.
     upd (\<lambda>k. k\<lparr>pk_buffer := xs, pk_pos := pk_pos k + 1\<rparr>)))"

definition pkt_extend :: "(pkt, unit) prog" where
  "pkt_extend = upd (\<lambda>k. if pk_pos k > pk_end k then k\<lparr>pk_end := pk_pos k\<rparr> else k)"

definition hdhomerun_pkt_write_u8 :: "u8 \<Rightarrow> (pkt, unit) prog" where
  "hdhomerun_pkt_write_u8 v = sq (pkt_put v) pkt_extend"

definition hdhomerun_pkt_write_u16 :: "u16 \<Rightarrow> (pkt, unit) prog" where
  "hdhomerun_pkt_write_u16 v =
     sq (pkt_put (ucast (drop_bit 8 v))) (sq (pkt_put (ucast v)) pkt_extend)"

definition hdhomerun_pkt_write_u32 :: "u32 \<Rightarrow> (pkt, unit) prog" where
  "hdhomerun_pkt_write_u32 v =
     sq (pkt_put (ucast (drop_bit 24 v)))
       (sq (pkt_put (ucast (drop_bit 16 v)))
         (sq (pkt_put (ucast (drop_bit 8 v)))
           (sq (pkt_put (ucast v)) pkt_extend)))"

definition hdhomerun_pkt_write_var_length :: "u64 \<Rightarrow> (pkt, unit) prog" where
  "hdhomerun_pkt_write_var_length v =
     sq (if v \<le> 127 then pkt_put (ucast v)
         else sq (pkt_put (ucast (v OR 0x80))) (pkt_put (ucast (drop_bit 7 v))))
       pkt_extend"

fun pkt_copy :: "u8 list \<Rightarrow> (pkt, unit) prog" where
  "pkt_copy [] = ret ()"
| "pkt_copy (b # bs) = sq (pkt_put b) (pkt_copy bs)"

definition hdhomerun_pkt_write_mem :: "u8 list \<Rightarrow> (pkt, unit) prog" where
  "hdhomerun_pkt_write_mem mem = sq (pkt_copy mem) pkt_extend"

section \<open>Frames\<close>

text \<open>
  \<^verbatim>\<open>hdhomerun_pkt_open_frame\<close> returns 1 with the frame type, 0 when the frame is not complete yet,
  -1 when its checksum is wrong (the type has then been stored, too).
\<close>

definition hdhomerun_pkt_open_frame :: "(pkt, int \<times> u16 option) prog" where
  "hdhomerun_pkt_open_frame =
     sq (upd (\<lambda>k. k\<lparr>pk_pos := pk_start k\<rparr>))
       (bnd (rd (\<lambda>k. pk_pos k + 4 > pk_end k)) (\<lambda>short.
        if short then ret (0, None)
        else
          bnd hdhomerun_pkt_read_u16 (\<lambda>ty.
          bnd hdhomerun_pkt_read_u16 (\<lambda>len.
          sq (upd (\<lambda>k. k\<lparr>pk_pos := pk_pos k + uint len\<rparr>))
            (bnd (rd (\<lambda>k. pk_pos k + 4 > pk_end k)) (\<lambda>short2.
             if short2 then sq (upd (\<lambda>k. k\<lparr>pk_pos := pk_start k\<rparr>)) (ret (0, Some ty))
             else
               bnd (rd pk_start) (\<lambda>s.
               bnd (rd pk_pos) (\<lambda>p.
               bnd (hdhomerun_pkt_calc_crc s p) (\<lambda>calc_crc.
               bnd hdhomerun_pkt_read_u8 (\<lambda>a.
               bnd hdhomerun_pkt_read_u8 (\<lambda>b.
               bnd hdhomerun_pkt_read_u8 (\<lambda>c.
               bnd hdhomerun_pkt_read_u8 (\<lambda>d.
               let packet_crc = ucast a OR push_bit 8 (ucast b) OR push_bit 16 (ucast c) OR
                     push_bit 24 (ucast d)
               in if calc_crc \<noteq> packet_crc then ret (-1, Some ty)
                  else
                    sq (upd (\<lambda>k. k\<lparr>pk_start := pk_start k + 4\<rparr>))
                      (sq (upd (\<lambda>k. k\<lparr>pk_end := pk_start k + uint len\<rparr>))
                        (sq (upd (\<lambda>k. k\<lparr>pk_pos := pk_start k\<rparr>))
                          (ret (1, Some ty)))))))))))))))))"

text \<open>\<^verbatim>\<open>*pkt->end++ = v\<close>\<close>

definition pkt_append :: "u8 \<Rightarrow> (pkt, unit) prog" where
  "pkt_append v =
     bnd (rd (\<lambda>k. arr_set (pk_buffer k) (pk_end k) v)) (\<lambda>r.
     bnd (lift_r r) (\<lambda>xs.
     upd (\<lambda>k. k\<lparr>pk_buffer := xs, pk_end := pk_end k + 1\<rparr>)))"

definition hdhomerun_pkt_seal_frame :: "u16 \<Rightarrow> (pkt, unit) prog" where
  "hdhomerun_pkt_seal_frame frame_type =
     bnd (rd (\<lambda>k. pk_end k - pk_start k)) (\<lambda>len.
     sq (upd (\<lambda>k. k\<lparr>pk_start := pk_start k - 4\<rparr>))
       (sq (upd (\<lambda>k. k\<lparr>pk_pos := pk_start k\<rparr>))
         (sq (hdhomerun_pkt_write_u16 frame_type)
           (sq (hdhomerun_pkt_write_u16 (word_of_int len))
             (bnd (rd pk_start) (\<lambda>s.
              bnd (rd pk_end) (\<lambda>e.
              bnd (hdhomerun_pkt_calc_crc s e) (\<lambda>crc.
              sq (pkt_append (ucast crc))
                (sq (pkt_append (ucast (drop_bit 8 crc)))
                  (sq (pkt_append (ucast (drop_bit 16 crc)))
                    (sq (pkt_append (ucast (drop_bit 24 crc)))
                      (upd (\<lambda>k. k\<lparr>pk_pos := pk_start k\<rparr>)))))))))))))"

end
