(* ===== verification/Hdhr_Lemmas.thy ===== *)
theory Hdhr_Lemmas
  imports Hdhr_Pkt
begin

text \<open>
  What the proofs about the packet buffer share: the bitwise CRC-32 (\<open>crc_bit\<close>, \<open>crc32\<close>) and its
  injectivity, the wire format as byte strings (\<open>frame\<close>, \<open>tlv\<close>), and one equation per operation
  of \<^verbatim>\<open>hdhomerun_pkt.c\<close> run on a buffer that is large enough (collection \<open>pkt_run\<close>).
\<close>

section \<open>The bitwise CRC-32\<close>

text \<open>One bit of the reflected CRC with polynomial 0xEDB88320, and the CRC of a byte string.\<close>

definition crc_bit :: "u32 \<Rightarrow> u32" where
  "crc_bit c = (if bit c 0 then drop_bit 1 c XOR 0xEDB88320 else drop_bit 1 c)"

definition crc32 :: "u8 list \<Rightarrow> u32" where
  "crc32 bs = NOT (fold (\<lambda>b c. (crc_bit ^^ 8) (c XOR ucast b)) bs (NOT 0))"

lemma crc_bit_xor: "(crc_bit ^^ n) (x XOR y) = (crc_bit ^^ n) x XOR (crc_bit ^^ n) y"
proof (induction n)
  case (Suc n)
  have "crc_bit (a XOR b) = crc_bit a XOR crc_bit b" for a b
    by (cases "bit a 0"; cases "bit b 0")
      (simp_all add: crc_bit_def bit_xor_iff ac_simps flip: xor.assoc)
  then show ?case by (simp add: Suc)
qed simp

lemma crc_bit_shift: "\<forall>i < n. \<not> bit x i \<Longrightarrow> (crc_bit ^^ n) x = drop_bit n x"
proof (induction n)
  case (Suc n)
  then have "\<not> bit (drop_bit n x) 0" by (simp add: bit_drop_bit_eq)
  with Suc show ?case by (simp add: crc_bit_def)
qed simp

text \<open>The eight constants of the code are the eight single bits, shifted through the polynomial.\<close>

lemma crc_bit_steps:
  "crc_bit 0x80 = 0x40" "crc_bit 0x40 = 0x20" "crc_bit 0x20 = 0x10" "crc_bit 0x10 = 0x08"
  "crc_bit 0x08 = 0x04" "crc_bit 0x04 = 0x02" "crc_bit 0x02 = 0x01" "crc_bit 0x01 = 0xEDB88320"
  "crc_bit 0xEDB88320 = 0x76DC4190" "crc_bit 0x76DC4190 = 0x3B6E20C8"
  "crc_bit 0x3B6E20C8 = 0x1DB71064" "crc_bit 0x1DB71064 = 0x0EDB8832"
  "crc_bit 0x0EDB8832 = 0x076DC419" "crc_bit 0x076DC419 = 0xEE0E612C"
  "crc_bit 0xEE0E612C = 0x77073096" "crc_bit 0 = 0"
  by (simp_all add: crc_bit_def)

lemma funpow_eight: "(f ^^ 8) x = f (f (f (f (f (f (f (f x)))))))"
  by (simp add: numeral_eq_Suc)

lemma crc_bit_singles:
  "(crc_bit ^^ 8) 0x01 = 0x77073096" "(crc_bit ^^ 8) 0x02 = 0xEE0E612C"
  "(crc_bit ^^ 8) 0x04 = 0x076DC419" "(crc_bit ^^ 8) 0x08 = 0x0EDB8832"
  "(crc_bit ^^ 8) 0x10 = 0x1DB71064" "(crc_bit ^^ 8) 0x20 = 0x3B6E20C8"
  "(crc_bit ^^ 8) 0x40 = 0x76DC4190" "(crc_bit ^^ 8) 0x80 = 0xEDB88320" "(crc_bit ^^ 8) 0 = 0"
  by (simp_all only: funpow_eight crc_bit_steps)

lemma byte_as_bits:
  "(ucast (x :: u8) :: u32) =
     (if bit x 0 then 0x01 else 0) XOR (if bit x 1 then 0x02 else 0) XOR
     (if bit x 2 then 0x04 else 0) XOR (if bit x 3 then 0x08 else 0) XOR
     (if bit x 4 then 0x10 else 0) XOR (if bit x 5 then 0x20 else 0) XOR
     (if bit x 6 then 0x40 else 0) XOR (if bit x 7 then 0x80 else 0)"
proof (rule bit_word_eqI)
  fix n :: nat
  assume "n < LENGTH(32)"
  have eight: "m = 0 \<or> m = 1 \<or> m = 2 \<or> m = 3 \<or> m = 4 \<or> m = 5 \<or> m = 6 \<or> m = 7" if "m < 8" for m :: nat
    using that by auto
  show "bit (ucast x :: u32) n = bit
     ((if bit x 0 then 0x01 else 0) XOR (if bit x 1 then 0x02 else 0) XOR
     (if bit x 2 then 0x04 else 0) XOR (if bit x 3 then 0x08 else 0) XOR
     (if bit x 4 then 0x10 else 0) XOR (if bit x 5 then 0x20 else 0) XOR
     (if bit x 6 then 0x40 else 0) XOR (if bit x 7 then 0x80 else 0) :: u32) n"
  proof (cases "n < 8")
    case True
    from eight [OF this] show ?thesis
      by (elim disjE; simp add: bit_simps)
  next
    case False
    then have "n = Suc (Suc (Suc (Suc (Suc (Suc (Suc (Suc (n - 8))))))))" by simp
    then obtain m where n: "n = Suc (Suc (Suc (Suc (Suc (Suc (Suc (Suc m)))))))"
      by blast
    have "\<not> bit x n" using False bit_imp_le_length [of x n] by auto
    with n show ?thesis by (simp add: bit_simps)
  qed
qed

lemma crc_table_bits:
  "x AND 0x01 \<noteq> 0 \<longleftrightarrow> bit x 0" "x AND 0x02 \<noteq> 0 \<longleftrightarrow> bit x 1" "x AND 0x04 \<noteq> 0 \<longleftrightarrow> bit x 2"
  "x AND 0x08 \<noteq> 0 \<longleftrightarrow> bit x 3" "x AND 0x10 \<noteq> 0 \<longleftrightarrow> bit x 4" "x AND 0x20 \<noteq> 0 \<longleftrightarrow> bit x 5"
  "x AND 0x40 \<noteq> 0 \<longleftrightarrow> bit x 6" "x AND 0x80 \<noteq> 0 \<longleftrightarrow> bit x 7" for x :: u8
proof -
  have "x AND 2 ^ n \<noteq> 0 \<longleftrightarrow> bit x n" if "n < 8" for n
    by (simp add: and_exp_eq_0_iff_not_bit)
  from this [of 0] this [of 1] this [of 2] this [of 3] this [of 4] this [of 5] this [of 6] this [of 7]
  show "x AND 0x01 \<noteq> 0 \<longleftrightarrow> bit x 0" "x AND 0x02 \<noteq> 0 \<longleftrightarrow> bit x 1" "x AND 0x04 \<noteq> 0 \<longleftrightarrow> bit x 2"
    "x AND 0x08 \<noteq> 0 \<longleftrightarrow> bit x 3" "x AND 0x10 \<noteq> 0 \<longleftrightarrow> bit x 4" "x AND 0x20 \<noteq> 0 \<longleftrightarrow> bit x 5"
    "x AND 0x40 \<noteq> 0 \<longleftrightarrow> bit x 6" "x AND 0x80 \<noteq> 0 \<longleftrightarrow> bit x 7"
    by simp_all
qed

lemma crc_step_bitwise: "crc_step crc b = (crc_bit ^^ 8) (crc XOR ucast b)"
proof -
  define x where "x = (ucast crc :: u8) XOR b"
  have xor_if: "(if P then y XOR k else y) = y XOR (if P then k else 0)" for P and y k :: u32
    by simp
  have if_pow: "(crc_bit ^^ 8) (if P then k else 0) = (if P then (crc_bit ^^ 8) k else 0)" for P k
    by (simp add: crc_bit_singles)
  have parts: "crc XOR ucast b = push_bit 8 (drop_bit 8 crc) XOR ucast x"
    unfolding x_def by (rule bit_word_eqI) (auto simp: bit_simps)
  have low: "(crc_bit ^^ 8) (push_bit 8 (drop_bit 8 crc)) = drop_bit 8 crc"
  proof -
    have "\<forall>i < 8. \<not> bit (push_bit 8 (drop_bit 8 crc)) i" by (simp add: bit_simps)
    then have "(crc_bit ^^ 8) (push_bit 8 (drop_bit 8 crc)) = drop_bit 8 (push_bit 8 (drop_bit 8 crc))"
      by (rule crc_bit_shift)
    also have "\<dots> = drop_bit 8 crc"
      by (rule bit_word_eqI) (auto simp: bit_simps dest: bit_imp_le_length)
    finally show ?thesis .
  qed
  have "(crc_bit ^^ 8) (crc XOR ucast b) = drop_bit 8 crc XOR (crc_bit ^^ 8) (ucast x)"
    by (simp only: parts crc_bit_xor low)
  also have "\<dots> = crc_step crc b"
    unfolding byte_as_bits crc_bit_xor if_pow crc_bit_singles
    unfolding crc_step_def x_def [symmetric] Let_def crc_table_bits xor_if
    by (simp only: xor.assoc)
  finally show ?thesis by simp
qed

lemma xor_right_inject [simp]: "x XOR z = y XOR z \<longleftrightarrow> x = y" for x y z :: "'a :: len word"
  by (metis xor.assoc xor_self_eq xor.right_neutral)

text \<open>The top bit of the polynomial is set, so a shift loses nothing.\<close>

lemma crc_bit_inject: "crc_bit x = crc_bit y \<longleftrightarrow> x = y"
proof
  assume eq: "crc_bit x = crc_bit y"
  have top: "bit (crc_bit z) 31 \<longleftrightarrow> bit z 0" for z
  proof -
    have "\<not> bit z 32" using bit_imp_le_length [of z 32] by auto
    then show ?thesis by (cases "bit z 0") (simp_all add: crc_bit_def bit_simps)
  qed
  have low: "bit x 0 = bit y 0" using eq top by metis
  have "drop_bit 1 x = drop_bit 1 y"
    using eq low by (cases "bit x 0") (simp_all add: crc_bit_def)
  then have high: "bit x (Suc n) = bit y (Suc n)" for n
    by (metis bit_drop_bit_eq comp_apply plus_1_eq_Suc)
  show "x = y"
    by (rule bit_word_eqI) (metis low high not0_implies_Suc)
qed simp

lemma crc_bits_inject: "(crc_bit ^^ n) x = (crc_bit ^^ n) y \<longleftrightarrow> x = y"
  by (induction n) (simp_all add: crc_bit_inject)

lemma crc_step_inject:
  "crc_step c b = crc_step d b \<longleftrightarrow> c = d"
  "crc_step c a = crc_step c b \<longleftrightarrow> a = b"
proof -
  show "crc_step c b = crc_step d b \<longleftrightarrow> c = d"
    by (simp add: crc_step_bitwise crc_bits_inject)
  have "(ucast a :: u32) = ucast b \<longleftrightarrow> a = b"
  proof -
    have "ucast (ucast z :: u32) = z" for z :: u8
      by (rule bit_word_eqI) (simp add: bit_simps)
    then show ?thesis by metis
  qed
  then show "crc_step c a = crc_step c b \<longleftrightarrow> a = b"
    by (simp add: crc_step_bitwise crc_bits_inject xor.commute [of c])
qed

lemma crc_loop_append: "crc_loop c (xs @ ys) = crc_loop (crc_loop c xs) ys"
  by (induction xs arbitrary: c) simp_all

lemma crc_loop_inject: "crc_loop c bs = crc_loop d bs \<longleftrightarrow> c = d"
  by (induction bs arbitrary: c d) (simp_all add: crc_step_inject)

lemma crc_loop_fold: "crc_loop c bs = fold (\<lambda>b c. (crc_bit ^^ 8) (c XOR ucast b)) bs c"
  by (induction bs arbitrary: c) (simp_all add: crc_step_bitwise)

lemma crc_loop_one_byte: "a \<noteq> b \<Longrightarrow> crc_loop c (xs @ a # ys) \<noteq> crc_loop c (xs @ b # ys)"
  by (simp add: crc_loop_append crc_loop_inject crc_step_inject)

lemma crc32_loop: "crc_loop 0xFFFFFFFF bs XOR 0xFFFFFFFF = crc32 bs"
proof -
  have m: "(0xFFFFFFFF :: u32) = - 1" by simp
  show ?thesis unfolding m by (simp add: crc32_def crc_loop_fold)
qed

section \<open>Frames\<close>

text \<open>The four bytes of a checksum on the wire, and the frame of a type and a payload.\<close>

definition crc_bytes :: "u32 \<Rightarrow> u8 list" where
  "crc_bytes c = [ucast c, ucast (drop_bit 8 c), ucast (drop_bit 16 c), ucast (drop_bit 24 c)]"

definition frame_head :: "u16 \<Rightarrow> u8 list \<Rightarrow> u8 list" where
  "frame_head ty p =
     (let n = word_of_nat (length p) :: u16
      in [ucast (drop_bit 8 ty), ucast ty, ucast (drop_bit 8 n), ucast n])"

definition frame :: "u16 \<Rightarrow> u8 list \<Rightarrow> u8 list" where
  "frame ty p = frame_head ty p @ p @ crc_bytes (crc32 (frame_head ty p @ p))"

lemma length_frame [simp]:
  "length (frame_head ty p) = 4" "length (crc_bytes c) = 4" "length (frame ty p) = length p + 8"
  by (simp_all add: frame_def frame_head_def crc_bytes_def Let_def)

definition join16 :: "u8 \<Rightarrow> u8 \<Rightarrow> u16" where
  "join16 a b = push_bit 8 (ucast a) OR ucast b"

definition join32 :: "u8 \<Rightarrow> u8 \<Rightarrow> u8 \<Rightarrow> u8 \<Rightarrow> u32" where
  "join32 a b c d = ucast a OR push_bit 8 (ucast b) OR push_bit 16 (ucast c) OR push_bit 24 (ucast d)"

lemma join16_split [simp]: "join16 (ucast (drop_bit 8 x)) (ucast x) = x"
  unfolding join16_def by (rule bit_word_eqI) (auto simp: bit_simps)

lemma join32_split [simp]:
  "join32 (ucast x) (ucast (drop_bit 8 x)) (ucast (drop_bit 16 x)) (ucast (drop_bit 24 x)) = x"
proof (rule bit_word_eqI)
  fix n :: nat
  assume "n < LENGTH(32)"
  then show "bit (join32 (ucast x) (ucast (drop_bit 8 x)) (ucast (drop_bit 16 x)) (ucast (drop_bit 24 x))) n = bit x n"
    unfolding join32_def by (cases "n < 24"; cases "n < 16") (auto simp: bit_simps)
qed

lemma join32_inject: "join32 a b c d = join32 a' b' c' d' \<longleftrightarrow> a = a' \<and> b = b' \<and> c = c' \<and> d = d'"
proof
  have parts: "ucast (join32 a b c d) = a" "ucast (drop_bit 8 (join32 a b c d)) = b"
    "ucast (drop_bit 16 (join32 a b c d)) = c" "ucast (drop_bit 24 (join32 a b c d)) = d" for a b c d
    unfolding join32_def by (rule bit_word_eqI; auto simp: bit_simps dest: bit_imp_le_length)+
  assume "join32 a b c d = join32 a' b' c' d'"
  then show "a = a' \<and> b = b' \<and> c = c' \<and> d = d'"
    using parts by metis
qed simp

subsection \<open>The reads and writes, run on a buffer\<close>

named_theorems pkt_run

lemma read_u8_run [pkt_run]:
  "0 \<le> pk_pos k \<Longrightarrow> pk_pos k < int (length (pk_buffer k)) \<Longrightarrow>
   hdhomerun_pkt_read_u8 k =
     Inr (pk_buffer k ! nat (pk_pos k), k\<lparr>pk_pos := pk_pos k + 1\<rparr>)"
  by (simp add: hdhomerun_pkt_read_u8_def run)

lemma pkt_put_run [pkt_run]:
  "0 \<le> pk_pos k \<Longrightarrow> pk_pos k < int (length (pk_buffer k)) \<Longrightarrow>
   pkt_put v k =
     Inr ((), k\<lparr>pk_buffer := (pk_buffer k)[nat (pk_pos k) := v], pk_pos := pk_pos k + 1\<rparr>)"
  by (simp add: pkt_put_def run)

lemma pkt_append_run [pkt_run]:
  "0 \<le> pk_end k \<Longrightarrow> pk_end k < int (length (pk_buffer k)) \<Longrightarrow>
   pkt_append v k =
     Inr ((), k\<lparr>pk_buffer := (pk_buffer k)[nat (pk_end k) := v], pk_end := pk_end k + 1\<rparr>)"
  by (simp add: pkt_append_def run)

lemma pkt_extend_run [pkt_run]: "pkt_extend k = Inr ((), k\<lparr>pk_end := max (pk_pos k) (pk_end k)\<rparr>)"
  by (simp add: pkt_extend_def run max_def)

lemma calc_crc_run [pkt_run]:
  "0 \<le> a \<Longrightarrow> a \<le> e \<Longrightarrow> e \<le> int (length (pk_buffer k)) \<Longrightarrow>
   hdhomerun_pkt_calc_crc a e k =
     Inr (crc32 (take (nat (e - a)) (drop (nat a) (pk_buffer k))), k)"
  by (auto simp: hdhomerun_pkt_calc_crc_def pkt_bytes_def run crc32_loop)

lemma read_u16_run [pkt_run]:
  "0 \<le> pk_pos k \<Longrightarrow> pk_pos k + 1 < int (length (pk_buffer k)) \<Longrightarrow>
   hdhomerun_pkt_read_u16 k =
     Inr (join16 (pk_buffer k ! nat (pk_pos k)) (pk_buffer k ! nat (pk_pos k + 1)),
       k\<lparr>pk_pos := pk_pos k + 2\<rparr>)"
  by (simp add: hdhomerun_pkt_read_u16_def run pkt_run join16_def)

lemma write_u16_run [pkt_run]:
  "0 \<le> pk_pos k \<Longrightarrow> pk_pos k + 1 < int (length (pk_buffer k)) \<Longrightarrow>
   hdhomerun_pkt_write_u16 v k =
     Inr ((), k\<lparr>pk_buffer := (pk_buffer k)[nat (pk_pos k) := ucast (drop_bit 8 v),
       nat (pk_pos k + 1) := ucast v], pk_pos := pk_pos k + 2, pk_end := max (pk_pos k + 2) (pk_end k)\<rparr>)"
  by (simp add: hdhomerun_pkt_write_u16_def run pkt_run)

lemma take_head [simp]: "take (4 + length p) (a # b # c # d # p @ q) = a # b # c # d # p"
  by (simp add: eval_nat_numeral)

lemma seal_frame_eq:
  assumes buf: "pk_buffer k = A @ [a, b, c, d] @ P @ [e, f, g, h] @ R"
    and start: "pk_start k = int (length A) + 4"
    and stop: "pk_end k = pk_start k + int (length P)"
  shows "hdhomerun_pkt_seal_frame ty k =
     Inr ((), k\<lparr>pk_buffer := A @ frame ty P @ R, pk_pos := int (length A), pk_start := int (length A),
       pk_end := int (length A) + int (length P) + 8\<rparr>)"
proof -
  have n: "word_of_int (pk_end k - pk_start k) = (word_of_nat (length P) :: u16)"
    by (simp add: stop)
  show ?thesis
    by (simp add: hdhomerun_pkt_seal_frame_def run pkt_run buf start stop nat_add_distrib
        list_update_append frame_def frame_head_def crc_bytes_def Let_def max_def add.assoc)
qed

lemma open_frame_eq:
  assumes buf: "pk_buffer k = A @ [a, b, c, d] @ P @ [e, f, g, h] @ R"
    and start: "pk_start k = int (length A)"
    and stop: "pk_start k + int (length P) + 8 \<le> pk_end k"
    and len: "length P = unat (join16 c d)"
  shows "hdhomerun_pkt_open_frame k =
     (if crc32 ([a, b, c, d] @ P) = join32 e f g h
      then Inr ((1, Some (join16 a b)), k\<lparr>pk_pos := pk_start k + 4, pk_start := pk_start k + 4,
        pk_end := pk_start k + 4 + int (length P)\<rparr>)
      else Inr ((-1, Some (join16 a b)), k\<lparr>pk_pos := pk_start k + int (length P) + 8\<rparr>))"
proof -
  have u: "uint (join16 c d) = int (length P)" by (simp add: len)
  show ?thesis
    using stop
    by (simp add: hdhomerun_pkt_open_frame_def run pkt_run buf start nat_add_distrib nth_append u
        join32_def [symmetric] Let_def add.assoc)
qed


subsection \<open>Elements\<close>

lemma write_u8_run [pkt_run]:
  "0 \<le> pk_pos k \<Longrightarrow> pk_pos k < int (length (pk_buffer k)) \<Longrightarrow>
   hdhomerun_pkt_write_u8 v k =
     Inr ((), k\<lparr>pk_buffer := (pk_buffer k)[nat (pk_pos k) := v], pk_pos := pk_pos k + 1,
       pk_end := max (pk_pos k + 1) (pk_end k)\<rparr>)"
  by (simp add: hdhomerun_pkt_write_u8_def run pkt_run)

lemma pkt_copy_run:
  "pk_buffer k = A @ M @ R \<Longrightarrow> length M = length bs \<Longrightarrow> pk_pos k = int (length A) \<Longrightarrow>
   pkt_copy bs k = Inr ((), k\<lparr>pk_buffer := A @ bs @ R, pk_pos := pk_pos k + int (length bs)\<rparr>)"
proof (induction bs arbitrary: k A M)
  case Nil
  then show ?case by (cases k) (simp add: run)
next
  case (Cons b bs)
  then obtain m M' where m: "M = m # M'" "length M' = length bs" by (cases M) auto
  define k' where "k' = k\<lparr>pk_buffer := (A @ [b]) @ M' @ R, pk_pos := pk_pos k + 1\<rparr>"
  have "pkt_put b k = Inr ((), k')"
    using Cons.prems m by (simp add: pkt_run k'_def list_update_append)
  moreover have "pkt_copy bs k' =
      Inr ((), k'\<lparr>pk_buffer := (A @ [b]) @ bs @ R, pk_pos := pk_pos k' + int (length bs)\<rparr>)"
    using Cons.prems m Cons.IH [of k' "A @ [b]" M'] by (simp add: k'_def)
  ultimately show ?case by (simp add: run k'_def ac_simps)
qed

text \<open>The bytes of an element: tag, length in one or two bytes, value.\<close>

definition length_bytes :: "nat \<Rightarrow> u8 list" where
  "length_bytes n =
     (if n \<le> 127 then [word_of_nat n] else [word_of_nat n OR 0x80, word_of_nat (n div 128)])"

definition tlv :: "u8 \<Rightarrow> u8 list \<Rightarrow> u8 list" where
  "tlv tag v = tag # length_bytes (length v) @ v"

definition write_tlv :: "u8 \<Rightarrow> u8 list \<Rightarrow> (pkt, unit) prog" where
  "write_tlv tag v =
     sq (hdhomerun_pkt_write_u8 tag)
       (sq (hdhomerun_pkt_write_var_length (word_of_nat (length v)))
         (hdhomerun_pkt_write_mem v))"

lemma length_bytes_not_Nil [simp]: "length_bytes n \<noteq> []"
  by (simp add: length_bytes_def)

lemma length_length_bytes: "length (length_bytes n) = (if n \<le> 127 then 1 else 2)"
  by (simp add: length_bytes_def)

lemma write_var_length_run [pkt_run]:
  assumes "n < 16384" "0 \<le> pk_pos k"
    and "pk_pos k + int (length (length_bytes n)) \<le> int (length (pk_buffer k))"
    and "pk_buffer k = A @ M @ R" "length M = length (length_bytes n)" "pk_pos k = int (length A)"
  shows "hdhomerun_pkt_write_var_length (word_of_nat n) k =
     Inr ((), k\<lparr>pk_buffer := A @ length_bytes n @ R,
       pk_pos := pk_pos k + int (length (length_bytes n)),
       pk_end := max (pk_pos k + int (length (length_bytes n))) (pk_end k)\<rparr>)"
proof -
  have le: "(word_of_nat n :: u64) \<le> 127 \<longleftrightarrow> n \<le> 127"
    using assms(1) by (simp add: word_le_nat_alt unat_of_nat take_bit_nat_eq_self)
  have lo: "ucast (word_of_nat n :: u64) = (word_of_nat n :: u8)"
    by (rule bit_word_eqI) (simp add: bit_simps)
  have hi: "ucast (drop_bit 7 (word_of_nat n :: u64)) = (word_of_nat (n div 128) :: u8)"
  proof -
    have "n div 128 = drop_bit 7 n" by (simp add: drop_bit_eq_div)
    moreover have "ucast (drop_bit 7 (word_of_nat n :: u64)) = (word_of_nat (drop_bit 7 n) :: u8)"
      by (rule bit_word_eqI) (auto simp: bit_simps)
    ultimately show ?thesis by simp
  qed
  have lo2: "ucast ((word_of_nat n :: u64) OR 0x80) = (word_of_nat n :: u8) OR 0x80"
    by (rule bit_word_eqI) (auto simp: bit_simps)
  show ?thesis
  proof (cases "n \<le> 127")
    case True
    with assms obtain m where "M = [m]" by (auto simp: length_bytes_def length_Suc_conv)
    with True assms show ?thesis
      by (simp add: hdhomerun_pkt_write_var_length_def run pkt_run le lo lo2 hi length_bytes_def
          list_update_append)
  next
    case False
    with assms obtain m1 m2 where "M = [m1, m2]"
      by (auto simp: length_bytes_def length_Suc_conv numeral_2_eq_2)
    with False assms show ?thesis
      by (simp add: hdhomerun_pkt_write_var_length_def run pkt_run le lo lo2 hi length_bytes_def
          list_update_append nat_add_distrib)
  qed
qed

lemma write_mem_run [pkt_run]:
  "pk_buffer k = A @ M @ R \<Longrightarrow> length M = length bs \<Longrightarrow> pk_pos k = int (length A) \<Longrightarrow>
   hdhomerun_pkt_write_mem bs k =
     Inr ((), k\<lparr>pk_buffer := A @ bs @ R, pk_pos := pk_pos k + int (length bs),
       pk_end := max (pk_pos k + int (length bs)) (pk_end k)\<rparr>)"
  by (simp add: hdhomerun_pkt_write_mem_def run pkt_copy_run pkt_run)

lemma length_tlv: "length (tlv tag v) = 1 + length (length_bytes (length v)) + length v"
  by (simp add: tlv_def)

lemma write_tlv_run:
  assumes buf: "pk_buffer k = A @ M @ R" and len: "length M = length (tlv tag v)"
    and pos: "pk_pos k = int (length A)" and small: "length v < 16384"
  shows "write_tlv tag v k =
     Inr ((), k\<lparr>pk_buffer := A @ tlv tag v @ R, pk_pos := pk_pos k + int (length (tlv tag v)),
       pk_end := max (pk_pos k + int (length (tlv tag v))) (pk_end k)\<rparr>)"
proof -
  obtain m M1 M2 where m: "M = m # M1 @ M2" "length M1 = length (length_bytes (length v))"
      "length M2 = length v"
  proof -
    from len obtain m M' where "M = m # M'" by (cases M) (auto simp: length_tlv)
    then show ?thesis
      using len that [of m "take (length (length_bytes (length v))) M'" "drop (length (length_bytes (length v))) M'"]
      by (simp add: length_tlv)
  qed
  let ?n = "length_bytes (length v)"
  define k1 where "k1 = k\<lparr>pk_buffer := (A @ [tag]) @ M1 @ (M2 @ R), pk_pos := pk_pos k + 1,
    pk_end := max (pk_pos k + 1) (pk_end k)\<rparr>"
  define k2 where "k2 = k1\<lparr>pk_buffer := (A @ [tag]) @ ?n @ (M2 @ R),
    pk_pos := pk_pos k1 + int (length ?n), pk_end := max (pk_pos k1 + int (length ?n)) (pk_end k1)\<rparr>"
  have one: "hdhomerun_pkt_write_u8 tag k = Inr ((), k1)"
    using buf pos m by (simp add: pkt_run k1_def list_update_append)
  have two: "hdhomerun_pkt_write_var_length (word_of_nat (length v)) k1 = Inr ((), k2)"
    using pos m small unfolding k2_def
    by (intro write_var_length_run [where M = M1]) (simp_all add: k1_def)
  have three: "hdhomerun_pkt_write_mem v k2 =
      Inr ((), k2\<lparr>pk_buffer := (A @ [tag] @ ?n) @ v @ R, pk_pos := pk_pos k2 + int (length v),
        pk_end := max (pk_pos k2 + int (length v)) (pk_end k2)\<rparr>)"
    using pos m by (intro write_mem_run [where M = M2]) (simp_all add: k2_def k1_def)
  show ?thesis
    by (simp add: write_tlv_def run one two three)
      (simp add: k2_def k1_def tlv_def ac_simps max_def)
qed

lemma read_var_length_run [pkt_run]:
  assumes "n < 16384" and buf: "pk_buffer k = A @ length_bytes n @ R" and pos: "pk_pos k = int (length A)"
    and e: "pk_pos k + int (length (length_bytes n)) \<le> pk_end k"
  shows "hdhomerun_pkt_read_var_length k =
     Inr (word_of_nat n, k\<lparr>pk_pos := pk_pos k + int (length (length_bytes n))\<rparr>)"
proof (cases "n \<le> 127")
  case True
  have "\<not> bit (word_of_nat n :: u8) 7"
  proof -
    have "\<not> bit n 7" using True by (simp add: bit_iff_odd)
    then show ?thesis by (simp add: bit_simps)
  qed
  then have hi: "(ucast (word_of_nat n :: u8) :: u64) AND 0x80 = 0"
    using and_exp_eq_0_iff_not_bit [of "ucast (word_of_nat n :: u8) :: u64" 7] by (simp add: bit_simps)
  have val: "ucast (word_of_nat n :: u8) = (word_of_nat n :: u64)"
  proof -
    have "take_bit 8 n = n" using True by (simp add: take_bit_nat_eq_self)
    then show ?thesis by (metis unsigned_of_nat len_num0 len_bit0 len_num1 mult_2 numeral_Bit0 numeral_One one_add_one)
  qed
  from True assms show ?thesis
    by (simp add: hdhomerun_pkt_read_var_length_def run pkt_run length_bytes_def hi [unfolded val] val Let_def)
next
  case False
  have hi: "(ucast ((word_of_nat n :: u8) OR 0x80) :: u64) AND 0x80 \<noteq> 0"
    using and_exp_eq_0_iff_not_bit [of "ucast ((word_of_nat n :: u8) OR 0x80) :: u64" 7]
    by (simp add: bit_simps)
  have val: "(ucast ((word_of_nat n :: u8) OR 0x80) AND 0x7F) OR push_bit 7 (ucast (word_of_nat (n div 128) :: u8))
      = (word_of_nat n :: u64)"
  proof (rule bit_word_eqI)
    fix m :: nat
    have m7: "(0x7F :: u64) = mask 7" by (simp add: mask_eq_exp_minus_1)
    have "bit (2 ^ 7 :: int) m \<longleftrightarrow> m = 7" by (simp only: bit_exp_iff) simp
    then have e7: "bit (0x80 :: int) m \<longleftrightarrow> m = 7" by simp
    have d: "n div 128 = drop_bit 7 n" by (simp add: drop_bit_eq_div)
    have "take_bit 14 n = n" using assms(1) by (simp add: take_bit_nat_eq_self)
    then have top: "bit n m \<Longrightarrow> m < 14" by (metis bit_take_bit_iff)
    assume "m < LENGTH(64)"
    then show "bit ((ucast ((word_of_nat n :: u8) OR 0x80) AND 0x7F) OR
        push_bit 7 (ucast (word_of_nat (n div 128) :: u8)) :: u64) m = bit (word_of_nat n :: u64) m"
      using top unfolding m7 d by (cases "m < 7") (auto simp: bit_simps e7)
  qed
  from False assms show ?thesis
    by (simp add: hdhomerun_pkt_read_var_length_def run pkt_run length_bytes_def hi val Let_def nth_append nat_add_distrib)
qed

lemma read_tlv_run:
  assumes buf: "pk_buffer k = A @ tlv tag v @ R" and pos: "pk_pos k = int (length A)"
    and small: "length v < 16384" and e: "pk_pos k + int (length (tlv tag v)) \<le> pk_end k"
  shows "hdhomerun_pkt_read_tlv k =
     Inr (Some (tag, word_of_nat (length v), pk_pos k + int (length (tlv tag v))),
       k\<lparr>pk_pos := pk_pos k + int (length (tlv tag v)) - int (length v)\<rparr>)"
proof -
  let ?n = "length_bytes (length v)"
  define k1 where "k1 = k\<lparr>pk_pos := pk_pos k + 1\<rparr>"
  have one: "hdhomerun_pkt_read_u8 k = Inr (tag, k1)"
    using buf pos by (simp add: pkt_run k1_def tlv_def)
  have two: "hdhomerun_pkt_read_var_length k1 =
      Inr (word_of_nat (length v), k1\<lparr>pk_pos := pk_pos k1 + int (length ?n)\<rparr>)"
    using buf pos small e
    by (intro read_var_length_run [where A = "A @ [tag]" and R = "v @ R"])
      (simp_all add: k1_def tlv_def)
  have s: "sint (word_of_nat (length v) :: u64) = int (length v)"
    using small by (simp add: signed_of_nat signed_take_bit_int_eq_self)
  have "pk_pos k + 2 \<le> pk_end k"
    using e by (simp add: length_tlv length_length_bytes split: if_splits)
  then show ?thesis
    using e by (simp add: hdhomerun_pkt_read_tlv_def run one two s) (simp add: k1_def length_tlv)
qed

end
