(* ===== verification/Hdhr_Props.thy ===== *)
theory Hdhr_Props
  imports Hdhr_Lemmas
begin

text \<open>
  The properties of the packet buffer: its checksum is the CRC-32 of the standards, a sealed frame
  opens to the same type and payload, a change of one byte is detected, an element written is
  read back, and the one input on which the element reader answers a position behind its own.
\<close>

text \<open>
  C17: \<^verbatim>\<open>hdhomerun_pkt_calc_crc\<close>, which folds eight bits at a time with eight constants, computes
  the reflected CRC-32 of the bytes between its two pointers, one bit at a time with the
  polynomial 0xEDB88320; it reads and changes nothing else.
\<close>
theorem calc_crc_is_crc32:
  assumes "0 \<le> a" and "a \<le> e" and "e \<le> int (length (pk_buffer k))"
  shows "hdhomerun_pkt_calc_crc a e k =
    Inr (crc32 (take (nat (e - a)) (drop (nat a) (pk_buffer k))), k)"
  using assms by (rule calc_crc_run)

theorem calc_crc_is_crc32_witness:
  "hdhomerun_pkt_calc_crc 1 3 (hdhomerun_pkt_create\<lparr>pk_buffer := [7, 0x61, 0x62, 9]\<rparr>) =
     Inr (crc32 [0x61, 0x62], hdhomerun_pkt_create\<lparr>pk_buffer := [7, 0x61, 0x62, 9]\<rparr>)"
  using calc_crc_is_crc32 [of 1 3 "hdhomerun_pkt_create\<lparr>pk_buffer := [7, 0x61, 0x62, 9]\<rparr>"]
  by (simp add: eval_nat_numeral)

text \<open>The states before sealing: a payload with four free bytes on each side of it.\<close>

definition holds_payload :: "pkt \<Rightarrow> u8 list \<Rightarrow> u8 list \<Rightarrow> u8 list \<Rightarrow> bool" where
  "holds_payload k a p r \<longleftrightarrow>
     4 \<le> length a \<and> 4 \<le> length r \<and> pk_buffer k = a @ p @ r \<and>
     pk_start k = int (length a) \<and> pk_end k = int (length a) + int (length p)"

lemma holds_payload_split:
  assumes "holds_payload k a p r"
  obtains A b1 b2 b3 b4 c1 c2 c3 c4 R where
    "pk_buffer k = A @ [b1, b2, b3, b4] @ p @ [c1, c2, c3, c4] @ R"
    "pk_start k = int (length A) + 4" "pk_end k = pk_start k + int (length p)"
    "A = take (length a - 4) a" "R = drop 4 r"
proof -
  have four: "\<exists>x y z w. xs = [x, y, z, w]" if "length xs = 4" for xs :: "u8 list"
    using that by (auto simp: eval_nat_numeral length_Suc_conv)
  obtain b1 b2 b3 b4 where b: "drop (length a - 4) a = [b1, b2, b3, b4]"
    using four [of "drop (length a - 4) a"] assms by (auto simp: holds_payload_def)
  obtain c1 c2 c3 c4 where c: "take 4 r = [c1, c2, c3, c4]"
    using four [of "take 4 r"] assms by (auto simp: holds_payload_def)
  have "a = take (length a - 4) a @ [b1, b2, b3, b4]" "r = [c1, c2, c3, c4] @ drop 4 r"
    using b c by (metis append_take_drop_id)+
  with assms show ?thesis
    by (intro that [of "take (length a - 4) a" b1 b2 b3 b4 c1 c2 c3 c4 "drop 4 r"])
      (auto simp: holds_payload_def)
qed

lemma seal_frame_holds:
  assumes "holds_payload k a p r"
  shows "hdhomerun_pkt_seal_frame ty k =
    Inr ((), k\<lparr>pk_buffer := take (length a - 4) a @ frame ty p @ drop 4 r,
      pk_pos := int (length a) - 4, pk_start := int (length a) - 4,
      pk_end := int (length a) + int (length p) + 4\<rparr>)"
proof -
  from assms obtain A b1 b2 b3 b4 c1 c2 c3 c4 R where s:
    "pk_buffer k = A @ [b1, b2, b3, b4] @ p @ [c1, c2, c3, c4] @ R"
    "pk_start k = int (length A) + 4" "pk_end k = pk_start k + int (length p)"
    "A = take (length a - 4) a" "R = drop 4 r"
    by (rule holds_payload_split)
  have "int (length A) = int (length a) - 4"
    using assms s(4) by (auto simp: holds_payload_def)
  with seal_frame_eq [OF s(1,2,3), of ty] s(4,5) show ?thesis by simp
qed

lemma frame_split:
  assumes "length p < 65536"
  obtains a b c d e f g h where "frame ty p = [a, b, c, d] @ p @ [e, f, g, h]"
    "join16 a b = ty" "unat (join16 c d) = length p" "crc32 ([a, b, c, d] @ p) = join32 e f g h"
proof -
  define n where "n = (word_of_nat (length p) :: u16)"
  define c where "c = crc32 (frame_head ty p @ p)"
  have n: "unat n = length p"
    using assms by (simp add: n_def unsigned_of_nat take_bit_nat_eq_self)
  have head: "[ucast (drop_bit 8 ty), ucast ty, ucast (drop_bit 8 n), ucast n] = frame_head ty p"
    by (simp only: frame_head_def Let_def n_def)
  have "frame ty p = [ucast (drop_bit 8 ty), ucast ty, ucast (drop_bit 8 n), ucast n] @ p @
      [ucast c, ucast (drop_bit 8 c), ucast (drop_bit 16 c), ucast (drop_bit 24 c)]"
    by (simp only: frame_def head crc_bytes_def c_def)
  then show ?thesis
    by (rule that) (simp_all only: join16_split join32_split n head c_def)
qed

lemma open_frame_short:
  assumes "pk_buffer k = A @ frame ty p @ R" and "pk_start k = int (length A)"
    and "length p < 65536" and "pk_end k < pk_start k + int (length p) + 8"
  shows "\<exists>ty'. hdhomerun_pkt_open_frame k = Inr ((0, ty'), k\<lparr>pk_pos := pk_start k\<rparr>)"
proof (cases "pk_end k < pk_start k + 4")
  case True
  then show ?thesis by (simp add: hdhomerun_pkt_open_frame_def run)
next
  case False
  obtain a b c d e f g h where "frame ty p = [a, b, c, d] @ p @ [e, f, g, h]"
    "unat (join16 c d) = length p"
    using frame_split [OF assms(3)] by metis
  moreover from this have "uint (join16 c d) = int (length p)" by (metis of_nat_unat)
  ultimately show ?thesis
    using False assms
    by (simp add: hdhomerun_pkt_open_frame_def run pkt_run nth_append nat_add_distrib)
qed

lemma open_frame_full:
  assumes "pk_buffer k = A @ frame ty p @ R" and "pk_start k = int (length A)"
    and "length p < 65536" and "pk_start k + int (length p) + 8 \<le> pk_end k"
  shows "hdhomerun_pkt_open_frame k =
    Inr ((1, Some ty), k\<lparr>pk_pos := pk_start k + 4, pk_start := pk_start k + 4,
      pk_end := pk_start k + 4 + int (length p)\<rparr>)"
proof -
  obtain a b c d e f g h where fr: "frame ty p = [a, b, c, d] @ p @ [e, f, g, h]"
    "join16 a b = ty" "unat (join16 c d) = length p" "crc32 ([a, b, c, d] @ p) = join32 e f g h"
    by (rule frame_split [OF assms(3)])
  show ?thesis
    using open_frame_eq [OF _ assms(2) assms(4) fr(3) [symmetric], of a b e f g h R]
      assms(1) fr(1,2,4) by simp
qed

text \<open>
  C11: A payload that is sealed into a frame and received piece by piece: as long as the end of
  what was received lies inside the frame, \<^verbatim>\<open>hdhomerun_pkt_open_frame\<close> answers 0 and moves nothing but
  the position; once the whole frame is there it answers 1 with the type, and start and end
  enclose the payload again.
\<close>
theorem seal_open_roundtrip:
  assumes "holds_payload k a p r" and "length p < 65536"
    and "hdhomerun_pkt_seal_frame ty k = Inr ((), k')"
    and "int (length a) - 4 \<le> e"
  shows "if e < int (length a) + int (length p) + 4
    then \<exists>ty'. hdhomerun_pkt_open_frame (k'\<lparr>pk_end := e\<rparr>) = Inr ((0, ty'), k'\<lparr>pk_end := e\<rparr>)
    else hdhomerun_pkt_open_frame (k'\<lparr>pk_end := e\<rparr>) =
      Inr ((1, Some ty), k\<lparr>pk_buffer := pk_buffer k', pk_pos := pk_start k\<rparr>) \<and>
      take (length p) (drop (length a) (pk_buffer k')) = p"
proof -
  let ?A = "take (length a - 4) a"
  have la: "4 \<le> length a" using assms(1) by (simp add: holds_payload_def)
  then have A: "int (length ?A) = int (length a) - 4" "length ?A + 4 = length a" by auto
  from seal_frame_holds [OF assms(1), of ty] assms(3)
  have k': "k' = k\<lparr>pk_buffer := ?A @ frame ty p @ drop 4 r, pk_pos := int (length a) - 4,
      pk_start := int (length a) - 4, pk_end := int (length a) + int (length p) + 4\<rparr>" by simp
  have st: "pk_start k = int (length a)" "pk_end k = int (length a) + int (length p)"
    using assms(1) by (simp_all add: holds_payload_def)
  show ?thesis
  proof (cases "e < int (length a) + int (length p) + 4")
    case True
    with open_frame_short [of "k'\<lparr>pk_end := e\<rparr>" ?A ty p "drop 4 r"] A assms(2)
    show ?thesis by (cases k) (simp add: k')
  next
    case False
    obtain h q where "frame ty p = h @ p @ q" "length h = 4"
      using that [of "frame_head ty p"] by (simp add: frame_def)
    then have "take (length p) (drop (length a) (pk_buffer k')) = p"
      using A by (simp add: k')
    with False open_frame_full [of "k'\<lparr>pk_end := e\<rparr>" ?A ty p "drop 4 r"] A assms(2) st
    show ?thesis by (cases k) (simp add: k')
  qed
qed

theorem seal_open_roundtrip_witness:
  "\<exists>k'. hdhomerun_pkt_seal_frame 4 (hdhomerun_pkt_create\<lparr>pk_buffer := replicate 1024 0 @ [7, 8] @ replicate 2048 0,
       pk_end := 1026\<rparr>) = Inr ((), k') \<and>
     fst (projr (hdhomerun_pkt_open_frame (k'\<lparr>pk_end := 1030\<rparr>))) = (1, Some 4)"
proof -
  let ?k = "hdhomerun_pkt_create\<lparr>pk_buffer := replicate 1024 0 @ [7, 8] @ replicate 2048 0, pk_end := 1026\<rparr>"
  have h: "holds_payload ?k (replicate 1024 0) [7, 8] (replicate 2048 0)"
    by (simp add: holds_payload_def hdhomerun_pkt_create_def)
  from seal_frame_holds [OF this, of 4] obtain k' where
    k': "hdhomerun_pkt_seal_frame 4 ?k = Inr ((), k')" by blast
  from seal_open_roundtrip [OF h _ k', of 1030] k' show ?thesis by auto
qed

subsection \<open>Corruption\<close>

lemma crc32_update: "i < length bs \<Longrightarrow> x \<noteq> bs ! i \<Longrightarrow> crc32 (bs[i := x]) \<noteq> crc32 bs"
proof -
  assume i: "i < length bs" and x: "x \<noteq> bs ! i"
  have "crc_loop 0xFFFFFFFF (bs[i := x]) \<noteq> crc_loop 0xFFFFFFFF bs"
    using crc_loop_one_byte [OF x, of "0xFFFFFFFF" "take i bs" "drop (Suc i) bs"] i
    by (simp add: upd_conv_take_nth_drop id_take_nth_drop [symmetric])
  then show ?thesis by (simp flip: crc32_loop)
qed

text \<open>
  C23: A frame of which one byte was changed on the way, other than the two bytes of its length, is
  refused: \<^verbatim>\<open>hdhomerun_pkt_open_frame\<close> answers -1, whatever byte it was and whatever it became.
\<close>
theorem open_frame_detects:
  assumes "length p < 65536" and "i < length p + 8" and "i \<noteq> 2" and "i \<noteq> 3"
    and "x \<noteq> frame ty p ! i"
    and "pk_buffer k = A @ (frame ty p)[i := x] @ R" and "pk_start k = int (length A)"
    and "pk_start k + int (length p) + 8 \<le> pk_end k"
  shows "\<exists>ty' k'. hdhomerun_pkt_open_frame k = Inr ((-1, ty'), k')"
proof -
  obtain a b c d e f g h where fr: "frame ty p = [a, b, c, d] @ p @ [e, f, g, h]"
    and len: "unat (join16 c d) = length p" and crc: "crc32 ([a, b, c, d] @ p) = join32 e f g h"
    by (rule frame_split [OF assms(1)])
  have body: "crc32 (([a, b, c, d] @ p)[i := x]) \<noteq> crc32 ([a, b, c, d] @ p)" if "i < 4 + length p"
  proof (rule crc32_update)
    have "frame ty p ! i = ([a, b, c, d] @ p) ! i"
      unfolding fr append_assoc [symmetric] by (subst nth_append) (use that in simp)
    with assms(5) show "x \<noteq> ([a, b, c, d] @ p) ! i" by simp
  qed (use that in simp)
  have bad: ?thesis
    if "(frame ty p)[i := x] = [a', b', c, d] @ p' @ [e', f', g', h']" and "length p' = length p"
      and "crc32 ([a', b', c, d] @ p') \<noteq> join32 e' f' g' h'" for a' b' p' e' f' g' h'
  proof -
    have "length p' = unat (join16 c d)" using that(2) len by simp
    from open_frame_eq [OF _ assms(7) _ this, of a' b' e' f' g' h' R] that assms(6,8)
    show ?thesis by simp
  qed
  consider "i < 2" | "4 \<le> i \<and> i < 4 + length p" | "4 + length p \<le> i"
    using assms(3,4) by linarith
  then show ?thesis
  proof cases
    case 1
    then have "crc32 (([a, b, c, d] @ p)[i := x]) \<noteq> crc32 ([a, b, c, d] @ p)" by (intro body) simp
    moreover have "i = 0 \<or> i = 1" using 1 by auto
    ultimately show ?thesis
      using crc fr by (elim disjE) (auto intro!: bad)
  next
    case 2
    then have "crc32 (([a, b, c, d] @ p)[i := x]) \<noteq> crc32 ([a, b, c, d] @ p)" by (intro body) simp
    moreover obtain j where j: "i = Suc (Suc (Suc (Suc j)))" "j < length p"
      using 2 by (auto intro: that [of "i - 4"])
    ultimately show ?thesis
      using crc fr by (intro bad [of a b "p[j := x]" e f g h]) (simp_all add: list_update_append)
  next
    case 3
    define j where "j = i - 4 - length p"
    have j: "j = 0 \<or> j = 1 \<or> j = 2 \<or> j = 3" "i = 4 + length p + j"
      using 3 assms(2) by (auto simp: j_def)
    show ?thesis
      using j crc fr assms(5) by (elim disjE)
        (auto intro!: bad simp: list_update_append nth_append join32_inject eval_nat_numeral)
  qed
qed

theorem open_frame_detects_witness:
  "\<exists>ty' k'. hdhomerun_pkt_open_frame
     (hdhomerun_pkt_create\<lparr>pk_buffer := (frame 4 [7, 8])[5 := 9], pk_start := 0, pk_end := 10\<rparr>) =
       Inr ((-1, ty'), k')"
proof -
  have "frame 4 [7, 8] ! 5 = 8" by (simp add: frame_def nth_append)
  then show ?thesis
    by (intro open_frame_detects [where p = "[7, 8]" and A = "[]" and R = "[]" and i = 5 and ty = 4 and x = 9])
      simp_all
qed

subsection \<open>Elements\<close>

text \<open>
  C36: An element (tag, length, value) written at the position of a packet is read back from there:
  the tag, the length, and a position that is the end of the value, whose bytes are then what was
  written.  The length takes two bytes from 128 on and must stay below 16384.
\<close>
theorem tlv_roundtrip:
  assumes "pk_buffer k = a @ m @ r" and "length m = length (tlv tag v)"
    and "pk_pos k = int (length a)" and "length v < 16384"
    and "write_tlv tag v k = Inr ((), k1)"
  shows "\<exists>k2. hdhomerun_pkt_read_tlv (k1\<lparr>pk_pos := pk_pos k\<rparr>) =
      Inr (Some (tag, word_of_nat (length v), pk_pos k1), k2) \<and>
    pk_buffer k2 = pk_buffer k1 \<and> pk_pos k2 + int (length v) = pk_pos k1 \<and>
    take (length v) (drop (nat (pk_pos k2)) (pk_buffer k2)) = v"
proof -
  from write_tlv_run [OF assms(1-4)] assms(5)
  have k1: "k1 = k\<lparr>pk_buffer := a @ tlv tag v @ r, pk_pos := pk_pos k + int (length (tlv tag v)),
      pk_end := max (pk_pos k + int (length (tlv tag v))) (pk_end k)\<rparr>" by simp
  have "nat (pk_pos k + int (length (tlv tag v)) - int (length v)) =
      length a + (1 + length (length_bytes (length v)))"
    using assms(3) by (simp add: length_tlv)
  moreover have "take (length v) (drop (length a + (1 + length (length_bytes (length v)))) (a @ tlv tag v @ r)) = v"
    by (simp add: tlv_def)
  ultimately show ?thesis
    using read_tlv_run [of "k1\<lparr>pk_pos := pk_pos k\<rparr>" a tag v r] assms(3,4)
    by (simp add: k1)
qed

text \<open>
  What \<^verbatim>\<open>hdhomerun_pkt_read_tlv\<close> does when the two last bytes of a packet are a tag and a length
  byte that announces a second one: the length is \<^verbatim>\<open>(size_t)-1\<close>, the sum with the position wraps
  around, the test against the end passes, and the position answered lies one byte before the
  position of the packet instead of \<^verbatim>\<open>NULL\<close>.
\<close>
theorem read_tlv_cut_length:
  assumes "0 \<le> pk_pos k" and "pk_end k = pk_pos k + 2" and "pk_end k \<le> int (length (pk_buffer k))"
    and "bit (pk_buffer k ! nat (pk_pos k + 1)) 7"
  shows "hdhomerun_pkt_read_tlv k =
    Inr (Some (pk_buffer k ! nat (pk_pos k), - 1, pk_pos k + 1), k\<lparr>pk_pos := pk_pos k + 2\<rparr>)"
proof -
  have "(ucast (pk_buffer k ! nat (pk_pos k + 1)) :: u64) AND 0x80 \<noteq> 0"
    using assms(4) and_exp_eq_0_iff_not_bit [of "ucast (pk_buffer k ! nat (pk_pos k + 1)) :: u64" 7]
    by (simp add: bit_simps)
  then show ?thesis
    using assms(1-3)
    by (simp add: hdhomerun_pkt_read_tlv_def hdhomerun_pkt_read_var_length_def run pkt_run Let_def)
qed

theorem read_tlv_cut_length_witness:
  "hdhomerun_pkt_read_tlv (hdhomerun_pkt_create\<lparr>pk_buffer := [3, 0x80], pk_pos := 0, pk_end := 2\<rparr>) =
     Inr (Some (3, - 1, 1), hdhomerun_pkt_create\<lparr>pk_buffer := [3, 0x80], pk_pos := 2, pk_end := 2\<rparr>)"
proof -
  have "bit (0x80 :: u8) 7" by (simp flip: and_exp_eq_0_iff_not_bit)
  then show ?thesis
    using read_tlv_cut_length [of "hdhomerun_pkt_create\<lparr>pk_buffer := [3, 0x80], pk_pos := 0, pk_end := 2\<rparr>"]
    by (simp add: hdhomerun_pkt_create_def)
qed

theorem tlv_roundtrip_witness:
  "\<exists>k1 k2. write_tlv 3 [0x41] hdhomerun_pkt_create = Inr ((), k1) \<and>
     hdhomerun_pkt_read_tlv (k1\<lparr>pk_pos := 1024\<rparr>) = Inr (Some (3, 1, pk_pos k1), k2)"
proof -
  have b: "pk_buffer hdhomerun_pkt_create = replicate 1024 0 @ replicate 3 0 @ replicate 2047 0"
    by (simp only: hdhomerun_pkt_create_def pkt.simps flip: replicate_add) simp
  have l: "length (replicate 3 (0 :: u8)) = length (tlv 3 [0x41])"
    "pk_pos hdhomerun_pkt_create = int (length (replicate 1024 (0 :: u8)))"
    by (simp_all add: length_tlv length_length_bytes hdhomerun_pkt_create_def)
  obtain k1 where k1: "write_tlv 3 [0x41] hdhomerun_pkt_create = Inr ((), k1)"
    using write_tlv_run [OF b l] by auto
  from tlv_roundtrip [OF b l _ k1] k1 show ?thesis
    by (auto simp: hdhomerun_pkt_create_def)
qed

end
