(* ===== verification/Kazlib_Hash.thy ===== *)
theory Kazlib_Hash
  imports Prelude
begin

text \<open>
  The hash table of C-Pluff, \<^verbatim>\<open>lib/cpluff/kazlib/hash.c\<close>.

  A node is known by its address; a chain is the list of the nodes reached from the table entry
  through \<^verbatim>\<open>next\<close>, and a node that is in no chain has a null \<^verbatim>\<open>next\<close>.  A node is a value here, so
  what memory does when one node is linked into two chains is not represented:
  \<^verbatim>\<open>hash_alloc_insert\<close>, through which C-Pluff inserts, takes new nodes only.  \<^verbatim>\<open>unsigned long\<close> has 64
  bits.  Comparison and hash function are fields, as in the code; whether an allocation succeeds
  is an argument.  \<^verbatim>\<open>hash_val_t_bit\<close> is 64 (\<open>compute_bits\<close>) once a table exists, and the assertions
  that it is not 0 are left out.
\<close>

record ('k, 'd) hnode =
  hn_addr :: nat
  hn_key :: 'k
  hn_data :: 'd
  hn_hkey :: u64

type_synonym ('k, 'd) chain = "('k, 'd) hnode list"

record ('k, 'd) hash =
  h_table :: "('k, 'd) chain list"
  h_nchains :: u64
  h_nodecount :: u64
  h_maxcount :: u64
  h_highmark :: u64
  h_lowmark :: u64
  h_compare :: "'k \<Rightarrow> 'k \<Rightarrow> int"
  h_function :: "'k \<Rightarrow> u64"
  h_mask :: u64
  h_dynamic :: bool
  h_own_allocator :: bool

record hscan =
  sc_chain :: u64
  sc_next :: "nat option"

definition INIT_BITS :: nat where "INIT_BITS = 6"
definition INIT_SIZE :: u64 where "INIT_SIZE = push_bit INIT_BITS 1"
definition INIT_MASK :: u64 where "INIT_MASK = INIT_SIZE - 1"

section \<open>Sizes\<close>

lemma drop_bit_less: "x \<noteq> 0 \<Longrightarrow> unat (drop_bit (Suc 0) x) < unat x" for x :: u64
proof -
  assume "x \<noteq> 0"
  then have "0 < unat x" by (simp add: unat_gt_0)
  moreover have "unat (drop_bit (Suc 0) x) = unat x div 2"
    by (simp add: drop_bit_Suc unat_div_distrib)
  ultimately show ?thesis by simp
qed

text \<open>\<^verbatim>\<open>compute_bits\<close>, the number of bits of \<^verbatim>\<open>hash_val_t\<close>.\<close>

function compute_bits_loop :: "u64 \<Rightarrow> int \<Rightarrow> int" where
  "compute_bits_loop val bits =
     (if val \<noteq> 0 then compute_bits_loop (drop_bit 1 val) (bits + 1) else bits)"
  by auto
termination
proof (relation "measure (\<lambda>(val, bits). unat val)", goal_cases)
  case (2 val bits)
  then show ?case by (auto intro: drop_bit_less)
qed simp

definition compute_bits :: int where
  "compute_bits = compute_bits_loop (- 1) 0"

text \<open>The shifts of \<^verbatim>\<open>is_power_of_two\<close>; the argument 0 is excluded before.\<close>

function power_loop :: "u64 \<Rightarrow> bool" where
  "power_loop arg =
     (if arg \<noteq> 0 \<and> arg AND 1 = 0 then power_loop (drop_bit 1 arg) else arg = 1)"
  by auto
termination
proof (relation "measure unat", goal_cases)
  case (2 arg)
  then show ?case by (auto intro: drop_bit_less)
qed simp

definition is_power_of_two :: "u64 \<Rightarrow> bool" where
  "is_power_of_two arg = (if arg = 0 then False else power_loop arg)"

definition compute_mask :: "u64 \<Rightarrow> fault + u64" where
  "compute_mask sz =
     (if \<not> is_power_of_two sz then Inl AssertFail
      else if \<not> 2 \<le> sz then Inl AssertFail
      else Inr (sz - 1))"

definition clear_table :: "(('k, 'd) hash, unit) prog" where
  "clear_table = upd (\<lambda>h. h\<lparr>h_table := replicate (unat (h_nchains h)) []\<rparr>)"

section \<open>Verification\<close>

text \<open>
  The loop of \<^verbatim>\<open>hash_verify\<close> over the chains from \<open>i\<close> on with the count so far; nothing when a
  node is in a chain that is not its own.
\<close>

fun verify_chains :: "u64 \<Rightarrow> u64 \<Rightarrow> u64 \<Rightarrow> ('k, 'd) chain list \<Rightarrow> u64 option" where
  "verify_chains m i count [] = Some count"
| "verify_chains m i count (c # cs) =
     (if list_all (\<lambda>n. hn_hkey n AND m = i) c
      then verify_chains m (i + 1) (count + word_of_nat (length c)) cs
      else None)"

definition hash_verify :: "('k, 'd) hash \<Rightarrow> bool" where
  "hash_verify h =
     (if h_dynamic h \<and>
         (h_lowmark h \<ge> h_highmark h \<or> \<not> is_power_of_two (h_highmark h) \<or>
          \<not> is_power_of_two (h_lowmark h))
      then False
      else verify_chains (h_mask h) 0 0 (h_table h) = Some (h_nodecount h))"

definition assert_verify :: "(('k, 'd) hash, unit) prog" where
  "assert_verify = bnd (rd hash_verify) assert_p"

section \<open>Growing and shrinking\<close>

text \<open>A chain split by the exposed bit; each part ends up in reverse order.\<close>

fun split_chain :: "u64 \<Rightarrow> ('k, 'd) chain \<Rightarrow> ('k, 'd) chain \<Rightarrow> ('k, 'd) chain \<Rightarrow>
    ('k, 'd) chain \<times> ('k, 'd) chain" where
  "split_chain b low high [] = (low, high)"
| "split_chain b low high (n # ns) =
     (if hn_hkey n AND b \<noteq> 0 then split_chain b low (n # high) ns
      else split_chain b (n # low) high ns)"

definition grow_table :: "bool \<Rightarrow> (('k, 'd) hash, unit) prog" where
  "grow_table realloc_ok =
     sq (bnd (rd (\<lambda>h. 2 * h_nchains h > h_nchains h)) assert_p)
       (sq (if realloc_ok then
              bnd (rd (\<lambda>h. push_bit 1 (h_mask h) OR 1)) (\<lambda>mask.
              bnd (rd (\<lambda>h. mask XOR h_mask h)) (\<lambda>exposed_bit.
              sq (bnd (rd (\<lambda>h. mask \<noteq> h_mask h)) assert_p)
                (upd (\<lambda>h. let parts = map (split_chain exposed_bit [] []) (h_table h)
                  in h\<lparr>h_table := map fst parts @ map snd parts, h_mask := mask,
                       h_nchains := h_nchains h * 2, h_lowmark := h_lowmark h * 2,
                       h_highmark := h_highmark h * 2\<rparr>))))
            else ret ())
         assert_verify)"

text \<open>
  Every chain of the lower half gets the nodes of its sister appended.  A \<^verbatim>\<open>realloc\<close> that fails
  makes no difference.
\<close>

definition shrink_table :: "(('k, 'd) hash, unit) prog" where
  "shrink_table =
     sq (bnd (rd (\<lambda>h. h_nchains h \<ge> 2)) assert_p)
       (bnd (rd (\<lambda>h. h_nchains h div 2)) (\<lambda>nchains.
        sq (upd (\<lambda>h. h\<lparr>h_table :=
               map (\<lambda>i. h_table h ! i @ h_table h ! (i + unat nchains)) [0..<unat nchains],
             h_mask := drop_bit 1 (h_mask h), h_nchains := nchains,
             h_lowmark := h_lowmark h div 2, h_highmark := h_highmark h div 2\<rparr>))
          assert_verify))"

section \<open>Creation\<close>

text \<open>
  The comparison and the hash function are given: the defaults that \<^verbatim>\<open>hash_create\<close> puts in place of
  NULL (\<^verbatim>\<open>strcmp\<close> and a hash of strings) are arguments like any other.  Its closing
  \<^verbatim>\<open>assert(hash_verify(hash))\<close> is left out; the new table satisfies the invariant.
\<close>

definition hash_create :: "u64 \<Rightarrow> ('k \<Rightarrow> 'k \<Rightarrow> int) \<Rightarrow> ('k \<Rightarrow> u64) \<Rightarrow> bool \<Rightarrow> bool \<Rightarrow>
    ('k, 'd) hash option" where
  "hash_create maxcount compfun hashfun malloc_hash_ok malloc_table_ok =
     (if \<not> malloc_hash_ok then None
      else if \<not> malloc_table_ok then None
      else Some \<lparr>h_table = replicate (unat INIT_SIZE) [], h_nchains = INIT_SIZE, h_nodecount = 0,
        h_maxcount = maxcount, h_highmark = INIT_SIZE * 2, h_lowmark = INIT_SIZE div 2,
        h_compare = compfun, h_function = hashfun, h_mask = INIT_MASK, h_dynamic = True,
        h_own_allocator = False\<rparr>)"

text \<open>The marks of a static table are not set; what is in them is the argument \<open>old\<close>.\<close>

definition hash_init :: "('k, 'd) hash \<Rightarrow> u64 \<Rightarrow> ('k \<Rightarrow> 'k \<Rightarrow> int) \<Rightarrow> ('k \<Rightarrow> u64) \<Rightarrow> u64 \<Rightarrow>
    fault + ('k, 'd) hash" where
  "hash_init old maxcount compfun hashfun nchains =
     (if \<not> is_power_of_two nchains then Inl AssertFail
      else
        (case compute_mask nchains of
           Inl f \<Rightarrow> Inl f
         | Inr m \<Rightarrow>
             let h = old\<lparr>h_table := replicate (unat nchains) [], h_nchains := nchains,
               h_nodecount := 0, h_maxcount := maxcount, h_compare := compfun,
               h_function := hashfun, h_dynamic := False, h_mask := m\<rparr>
             in if hash_verify h then Inr h else Inl AssertFail))"

text \<open>Whether the two routines given are not null; both must be, or neither.\<close>

definition hash_set_allocator :: "bool \<Rightarrow> bool \<Rightarrow> (('k, 'd) hash, unit) prog" where
  "hash_set_allocator al fr =
     sq (bnd (rd (\<lambda>h. h_nodecount h = 0)) assert_p)
       (sq (assert_p (al = fr)) (upd (\<lambda>h. h\<lparr>h_own_allocator := al\<rparr>)))"

section \<open>Lookup, insertion, deletion\<close>

fun find_node :: "('k \<Rightarrow> 'k \<Rightarrow> int) \<Rightarrow> u64 \<Rightarrow> 'k \<Rightarrow> ('k, 'd) chain \<Rightarrow> ('k, 'd) hnode option" where
  "find_node cmp hkey key [] = None"
| "find_node cmp hkey key (n # ns) =
     (if hn_hkey n = hkey \<and> cmp (hn_key n) key = 0 then Some n else find_node cmp hkey key ns)"

definition hash_lookup :: "'k \<Rightarrow> (('k, 'd) hash, ('k, 'd) hnode option) prog" where
  "hash_lookup key =
     bnd (rd (\<lambda>h. h_function h key)) (\<lambda>hkey.
     bnd (rd (\<lambda>h. arr_get (h_table h) (uint (hkey AND h_mask h)))) (\<lambda>r.
     bnd (lift_r r) (\<lambda>c.
     rd (\<lambda>h. find_node (h_compare h) hkey key c))))"

text \<open>The successor of the node at an address, as its \<^verbatim>\<open>next\<close> field would say.\<close>

fun chain_at :: "nat \<Rightarrow> ('k, 'd) chain \<Rightarrow> (('k, 'd) hnode \<times> nat option) option" where
  "chain_at a [] = None"
| "chain_at a (n # ns) =
     (if hn_addr n = a then Some (n, case ns of [] \<Rightarrow> None | m # _ \<Rightarrow> Some (hn_addr m))
      else chain_at a ns)"

fun node_at :: "nat \<Rightarrow> ('k, 'd) chain list \<Rightarrow> (('k, 'd) hnode \<times> nat option) option" where
  "node_at a [] = None"
| "node_at a (c # cs) = (case chain_at a c of None \<Rightarrow> node_at a cs | Some r \<Rightarrow> Some r)"

definition next_is_null :: "nat \<Rightarrow> ('k, 'd) hash \<Rightarrow> bool" where
  "next_is_null a h = (case node_at a (h_table h) of Some (n, Some b) \<Rightarrow> False | _ \<Rightarrow> True)"

text \<open>The node at address \<open>a\<close> with data \<open>d\<close> is inserted under a key.\<close>

definition hash_insert :: "bool \<Rightarrow> nat \<Rightarrow> 'd \<Rightarrow> 'k \<Rightarrow> (('k, 'd) hash, unit) prog" where
  "hash_insert realloc_ok a d key =
     sq (bnd (rd (next_is_null a)) assert_p)
    (sq (bnd (rd (\<lambda>h. h_nodecount h < h_maxcount h)) assert_p)
    (sq (bnd (hash_lookup key) (\<lambda>r. assert_p (r = None)))
    (sq (bnd (rd (\<lambda>h. h_dynamic h \<and> h_nodecount h \<ge> h_highmark h)) (\<lambda>full.
         when_p full (grow_table realloc_ok)))
    (bnd (rd (\<lambda>h. h_function h key)) (\<lambda>hkey.
     bnd (rd (\<lambda>h. hkey AND h_mask h)) (\<lambda>i.
     bnd (rd (\<lambda>h. arr_get (h_table h) (uint i))) (\<lambda>r.
     bnd (lift_r r) (\<lambda>c.
     sq (upd (\<lambda>h. h\<lparr>h_table := (h_table h)
             [unat i := \<lparr>hn_addr = a, hn_key = key, hn_data = d, hn_hkey = hkey\<rparr> # c],
           h_nodecount := h_nodecount h + 1\<rparr>))
       assert_verify))))))))"

text \<open>\<open>malloc\<close> is the address the node allocator returns, if any.\<close>

definition hash_alloc_insert :: "bool \<Rightarrow> nat option \<Rightarrow> 'k \<Rightarrow> 'd \<Rightarrow> (('k, 'd) hash, int) prog" where
  "hash_alloc_insert realloc_ok malloc key d =
     (case malloc of
        None \<Rightarrow> ret 0
      | Some a \<Rightarrow> sq (hash_insert realloc_ok a d key) (ret 1))"

text \<open>The node at an address spliced out of its chain; running off the end reads through null.\<close>

fun unlink :: "nat \<Rightarrow> ('k, 'd) chain \<Rightarrow> fault + ('k, 'd) chain" where
  "unlink a [] = Inl NullDeref"
| "unlink a (n # ns) =
     (if hn_addr n = a then Inr ns
      else (case unlink a ns of Inl f \<Rightarrow> Inl f | Inr ns' \<Rightarrow> Inr (n # ns')))"

text \<open>What \<^verbatim>\<open>hash_delete\<close> and \<^verbatim>\<open>hash_scan_delete\<close> share, after the table has its final size.\<close>

definition remove_node :: "('k, 'd) hnode \<Rightarrow> (('k, 'd) hash, ('k, 'd) hnode) prog" where
  "remove_node node =
     bnd (rd (\<lambda>h. hn_hkey node AND h_mask h)) (\<lambda>i.
     bnd (rd (\<lambda>h. arr_get (h_table h) (uint i))) (\<lambda>r.
     bnd (lift_r r) (\<lambda>c.
     bnd (lift_r (unlink (hn_addr node) c)) (\<lambda>c'.
     sq (upd (\<lambda>h. h\<lparr>h_table := (h_table h)[unat i := c'], h_nodecount := h_nodecount h - 1\<rparr>))
       (sq assert_verify (ret node))))))"

definition assert_found :: "('k, 'd) hnode \<Rightarrow> (('k, 'd) hash, unit) prog" where
  "assert_found node =
     bnd (hash_lookup (hn_key node)) (\<lambda>r. assert_p (map_option hn_addr r = Some (hn_addr node)))"

definition hash_delete :: "('k, 'd) hnode \<Rightarrow> (('k, 'd) hash, ('k, 'd) hnode) prog" where
  "hash_delete node =
     sq (assert_found node)
    (sq (bnd (rd (\<lambda>h. h_dynamic h \<and> h_nodecount h \<le> h_lowmark h \<and> h_nodecount h > INIT_SIZE))
          (\<lambda>sparse. when_p sparse shrink_table))
       (remove_node node))"

definition hash_scan_delete :: "('k, 'd) hnode \<Rightarrow> (('k, 'd) hash, ('k, 'd) hnode) prog" where
  "hash_scan_delete node = sq (assert_found node) (remove_node node)"

text \<open>With the node allocator's \<^verbatim>\<open>free\<close> these answer the address that is freed.\<close>

definition hash_delete_free :: "('k, 'd) hnode \<Rightarrow> (('k, 'd) hash, nat) prog" where
  "hash_delete_free node = bnd (hash_delete node) (\<lambda>n. ret (hn_addr n))"

definition hash_scan_delfree :: "('k, 'd) hnode \<Rightarrow> (('k, 'd) hash, nat) prog" where
  "hash_scan_delfree node = bnd (hash_scan_delete node) (\<lambda>n. ret (hn_addr n))"

section \<open>Scanning\<close>

text \<open>The first non-empty chain from index \<open>i\<close> on, and its first node.\<close>

fun first_chain :: "u64 \<Rightarrow> ('k, 'd) chain list \<Rightarrow> (u64 \<times> nat) option" where
  "first_chain i [] = None"
| "first_chain i ([] # cs) = first_chain (i + 1) cs"
| "first_chain i ((n # ns) # cs) = Some (i, hn_addr n)"

text \<open>The chain index of a scan over an empty table stays what it was.\<close>

definition hash_scan_begin :: "hscan \<Rightarrow> (('k, 'd) hash, hscan) prog" where
  "hash_scan_begin scan =
     rd (\<lambda>h. case first_chain 0 (h_table h) of
         None \<Rightarrow> scan\<lparr>sc_next := None\<rparr>
       | Some (i, a) \<Rightarrow> scan\<lparr>sc_chain := i, sc_next := Some a\<rparr>)"

definition hash_scan_next :: "hscan \<Rightarrow> (('k, 'd) hash, ('k, 'd) hnode option \<times> hscan) prog" where
  "hash_scan_next scan =
     (case sc_next scan of
        None \<Rightarrow> ret (None, scan)
      | Some a \<Rightarrow>
          bnd (rd (\<lambda>h. node_at a (h_table h))) (\<lambda>r.
          bnd (deref DanglingPtr r) (\<lambda>(node, nxt).
          case nxt of
            Some b \<Rightarrow> ret (Some node, scan\<lparr>sc_next := Some b\<rparr>)
          | None \<Rightarrow>
              bnd (rd (\<lambda>h. first_chain (sc_chain scan + 1)
                (drop (unat (sc_chain scan + 1)) (h_table h)))) (\<lambda>f.
              case f of
                None \<Rightarrow> ret (Some node, scan\<lparr>sc_next := None\<rparr>)
              | Some (i, b) \<Rightarrow> ret (Some node, scan\<lparr>sc_chain := i, sc_next := Some b\<rparr>)))))"

text \<open>
  The loop of \<^verbatim>\<open>hash_free_nodes\<close>, with fuel; it answers the addresses in the order they are freed.
\<close>

fun free_loop :: "nat \<Rightarrow> hscan \<Rightarrow> (('k, 'd) hash, nat list) prog" where
  "free_loop 0 scan = err OutOfFuel"
| "free_loop (Suc k) scan =
     bnd (hash_scan_next scan) (\<lambda>(r, scan).
     case r of
       None \<Rightarrow> ret []
     | Some node \<Rightarrow>
         bnd (hash_scan_delete node) (\<lambda>n.
         bnd (free_loop k scan) (\<lambda>as.
         ret (hn_addr n # as))))"

definition hash_free_nodes :: "nat \<Rightarrow> (('k, 'd) hash, nat list) prog" where
  "hash_free_nodes fuel =
     bnd (hash_scan_begin \<lparr>sc_chain = 0, sc_next = None\<rparr>) (\<lambda>scan.
     bnd (free_loop fuel scan) (\<lambda>freed.
     sq (upd (\<lambda>h. h\<lparr>h_nodecount := 0\<rparr>)) (sq clear_table (ret freed))))"

definition hash_isfull :: "('k, 'd) hash \<Rightarrow> bool" where
  "hash_isfull h = (h_nodecount h = h_maxcount h)"

definition hash_isempty :: "('k, 'd) hash \<Rightarrow> bool" where
  "hash_isempty h = (h_nodecount h = 0)"

definition hash_count :: "('k, 'd) hash \<Rightarrow> u64" where
  "hash_count h = h_nodecount h"

definition hash_size :: "('k, 'd) hash \<Rightarrow> u64" where
  "hash_size h = h_nchains h"

definition hash_destroy :: "(('k, 'd) hash, unit) prog" where
  "hash_destroy = bnd (rd hash_isempty) assert_p"

section \<open>The default functions\<close>

text \<open>Keys are then C strings: their bytes without the final zero.\<close>

definition randbox :: "u64 list" where
  "randbox =
     [0x49848f1b, 0xe6255dba, 0x36da5bdc, 0x47bf94e9, 0x8cbcce22, 0x559fc06a, 0xd268f536, 0xe10af79a,
      0xc1af4d69, 0x1d2917b5, 0xec4c304d, 0x9ee5016c, 0x69232f74, 0xfead7bb3, 0xe9089ab6, 0xf012f6ae]"

definition hash_char :: "u8 \<Rightarrow> u64 \<Rightarrow> u64" where
  "hash_char c acc =
     (let acc = acc XOR randbox ! unat ((ucast c + acc) AND 0xf);
          acc = push_bit 1 acc OR drop_bit 31 acc;
          acc = acc AND 0xffffffff;
          acc = acc XOR randbox ! unat ((ucast (drop_bit 4 c) + acc) AND 0xf);
          acc = push_bit 2 acc OR drop_bit 30 acc
      in acc AND 0xffffffff)"

fun hash_string :: "u8 list \<Rightarrow> u64 \<Rightarrow> u64" where
  "hash_string [] acc = acc"
| "hash_string (c # cs) acc = hash_string cs (hash_char c acc)"

definition hash_fun_default :: "u8 list \<Rightarrow> u64" where
  "hash_fun_default key = hash_string key 0"

text \<open>\<^verbatim>\<open>strcmp\<close>: the difference of the first bytes that differ, the final zero included.\<close>

fun hash_comp_default :: "u8 list \<Rightarrow> u8 list \<Rightarrow> int" where
  "hash_comp_default [] [] = 0"
| "hash_comp_default [] (b # bs) = 0 - uint b"
| "hash_comp_default (a # as) [] = uint a"
| "hash_comp_default (a # as) (b # bs) =
     (if a \<noteq> b then uint a - uint b else hash_comp_default as bs)"

text \<open>Keys that are addresses, as C-Pluff's \<^verbatim>\<open>cpi_comp_ptr\<close> and \<^verbatim>\<open>cpi_hashfunc_ptr\<close> take them.\<close>

definition cpi_comp_ptr :: "u64 \<Rightarrow> u64 \<Rightarrow> int" where
  "cpi_comp_ptr p q = (if p = q then 0 else 1)"

definition cpi_hashfunc_ptr :: "u64 \<Rightarrow> u64" where
  "cpi_hashfunc_ptr p = p"

end
