(* ===== verification/Kazlib_Hash_Inv.thy ===== *)
theory Kazlib_Hash_Inv
  imports Kazlib_Hash "HOL-Library.Multiset"
begin

text \<open>
  The representation invariant \<open>hash_ok\<close> of the hash table, and that every operation keeps it.
  \<open>hash_ok cmp f V k h\<close>: the table of \<open>h\<close> has \<open>2 ^ k\<close> chains, each node is in the chain of the low \<open>k\<close>
  bits of its hash value, keys satisfy \<open>V\<close>, keys and addresses are distinct, the counters fit.
\<close>

section \<open>Powers of two\<close>

declare power_loop.simps [simp del] compute_bits_loop.simps [simp del]

lemma power_loop_exp: "j < 64 \<Longrightarrow> power_loop (2 ^ j)"
proof (induction j)
  case 0
  show ?case by (subst power_loop.simps) simp
next
  case (Suc j)
  have "(2 :: u64) ^ Suc j \<noteq> 0" using Suc.prems by (simp add: exp_eq_zero_iff del: power_Suc)
  moreover have "(2 :: u64) ^ Suc j AND 1 = 0"
    using and_exp_eq_0_iff_not_bit [of "(2 :: u64) ^ Suc j" 0] by (simp add: bit_exp_iff del: power_Suc)
  moreover have "drop_bit 1 ((2 :: u64) ^ Suc j) = 2 ^ j"
    using Suc.prems by (intro bit_word_eqI) (auto simp: bit_simps simp del: power_Suc drop_bit_Suc)
  ultimately show ?case using Suc by (subst power_loop.simps) simp
qed

lemma is_power_of_two_exp: "j < 64 \<Longrightarrow> is_power_of_two (2 ^ j)"
  by (simp add: is_power_of_two_def power_loop_exp exp_eq_zero_iff)

lemma unat_exp: "j < 64 \<Longrightarrow> unat ((2 :: u64) ^ j) = 2 ^ j"
proof -
  assume j: "j < 64"
  then have "(2 :: nat) ^ j < 2 ^ 64" by (intro power_strict_increasing) auto
  then have t: "take_bit LENGTH(64) ((2 :: nat) ^ j) = 2 ^ j"
    by (intro take_bit_nat_eq_self) simp
  have "unat (word_of_nat (2 ^ j) :: u64) = 2 ^ j"
    by (simp only: unsigned_of_nat t of_nat_id)
  then show ?thesis by (simp only: of_nat_power of_nat_numeral)
qed

lemma compute_bits_mask: "n \<le> 64 \<Longrightarrow> compute_bits_loop (mask n) b = b + int n"
proof (induction n arbitrary: b)
  case 0
  show ?case by (subst compute_bits_loop.simps) simp
next
  case (Suc n)
  have "bit (mask (Suc n) :: u64) 0" using Suc.prems by (simp add: bit_simps)
  then have "mask (Suc n) \<noteq> (0 :: u64)" by (metis bit_0_eq bot_apply bot_bool_def)
  moreover have "drop_bit 1 (mask (Suc n)) = (mask n :: u64)"
    using Suc.prems by (intro bit_word_eqI) (auto simp: bit_simps simp del: drop_bit_Suc)
  ultimately show ?case using Suc by (subst compute_bits_loop.simps) simp
qed

lemma compute_bits_eq: "compute_bits = 64"
proof -
  have "(mask 64 :: u64) = - 1" by (rule bit_word_eqI) (simp add: bit_simps)
  then show ?thesis using compute_bits_mask [of 64 0] by (simp add: compute_bits_def)
qed

text \<open>The chain of a hash value.\<close>

lemma unat_and_mask: "unat (x AND mask k) = unat x mod 2 ^ k" for x :: u64
  by (simp only: take_bit_eq_mask [symmetric] unsigned_take_bit_eq) (simp add: take_bit_eq_mod)

lemma uint_and_mask: "uint (x AND mask k) = int (unat x mod 2 ^ k)" for x :: u64
  by (metis unat_and_mask of_nat_unat)

section \<open>The invariant\<close>

definition table_ok :: "('k \<Rightarrow> u64) \<Rightarrow> nat \<Rightarrow> ('k, 'd) chain list \<Rightarrow> bool" where
  "table_ok f k t \<longleftrightarrow> length t = 2 ^ k \<and>
     (\<forall>i < 2 ^ k. \<forall>n \<in> set (t ! i). unat (hn_hkey n) mod 2 ^ k = i \<and> hn_hkey n = f (hn_key n))"

definition nodes_ok :: "('k, 'd) hnode list \<Rightarrow> bool" where
  "nodes_ok ns \<longleftrightarrow> distinct (map hn_key ns) \<and> distinct (map hn_addr ns)"

definition nodes :: "('k, 'd) hash \<Rightarrow> ('k, 'd) hnode list" where
  "nodes h = concat (h_table h)"

definition marks_ok :: "nat \<Rightarrow> ('k, 'd) hash \<Rightarrow> bool" where
  "marks_ok k h \<longleftrightarrow> 1 \<le> k \<and> k \<le> 60 \<and> h_nchains h = 2 ^ k \<and> h_mask h = mask k \<and>
     (h_dynamic h \<longrightarrow> h_highmark h = 2 ^ (k + 1) \<and> h_lowmark h = 2 ^ (k - 1))"

definition hash_ok :: "('k \<Rightarrow> 'k \<Rightarrow> int) \<Rightarrow> ('k \<Rightarrow> u64) \<Rightarrow> ('k \<Rightarrow> bool) \<Rightarrow> nat \<Rightarrow> ('k, 'd) hash \<Rightarrow> bool" where
  "hash_ok cmp f V k h \<longleftrightarrow> h_compare h = cmp \<and> h_function h = f \<and> marks_ok k h \<and>
     table_ok f k (h_table h) \<and> nodes_ok (nodes h) \<and>
     h_nodecount h = word_of_nat (length (nodes h)) \<and> length (nodes h) < 2 ^ 60 \<and>
     h_nodecount h \<le> h_maxcount h \<and> (\<forall>n \<in> set (nodes h). V (hn_key n))"

subsection \<open>Multisets of nodes\<close>

lemma mset_concat_update:
  "i < length t \<Longrightarrow> mset (concat (t[i := c])) + mset (t ! i) = mset (concat t) + mset c"
proof (induction t arbitrary: i)
  case (Cons x t)
  then show ?case by (cases i) (auto simp: ac_simps)
qed simp

lemma nodes_ok_mset: "mset xs = mset ys \<Longrightarrow> nodes_ok xs = nodes_ok ys"
  unfolding nodes_ok_def by (metis mset_eq_imp_distinct_iff mset_map)

lemma length_mset: "mset xs = mset ys \<Longrightarrow> length xs = length ys"
  by (rule mset_eq_length)

lemma set_mset_eq: "mset xs = mset ys \<Longrightarrow> set xs = set ys"
  by (rule mset_eq_setD)

lemma table_ok_chain:
  "table_ok f k t \<Longrightarrow> i < 2 ^ k \<Longrightarrow> n \<in> set (t ! i) \<Longrightarrow> unat (hn_hkey n) mod 2 ^ k = i"
  unfolding table_ok_def by blast

lemma table_ok_hkey:
  "table_ok f k t \<Longrightarrow> i < 2 ^ k \<Longrightarrow> n \<in> set (t ! i) \<Longrightarrow> hn_hkey n = f (hn_key n)"
  unfolding table_ok_def by blast

lemma table_ok_length: "table_ok f k t \<Longrightarrow> length t = 2 ^ k"
  by (simp add: table_ok_def)

lemma table_ok_nth:
  "table_ok f k t \<Longrightarrow> n \<in> set (concat t) \<Longrightarrow> n \<in> set (t ! (unat (hn_hkey n) mod 2 ^ k))"
  by (auto simp: in_set_conv_nth [of _ t] table_ok_chain table_ok_length)

lemma table_ok_key: "table_ok f k t \<Longrightarrow> n \<in> set (concat t) \<Longrightarrow> hn_hkey n = f (hn_key n)"
  by (auto simp: table_ok_def in_set_conv_nth [of _ t])

lemma table_ok_concat: "table_ok f k t \<Longrightarrow> i < 2 ^ k \<Longrightarrow> n \<in> set (t ! i) \<Longrightarrow> n \<in> set (concat t)"
  by (auto simp: table_ok_def)

subsection \<open>Verification succeeds\<close>

lemma verify_chains_ok:
  "(\<And>j n. j < length cs \<Longrightarrow> n \<in> set (cs ! j) \<Longrightarrow> hn_hkey n AND m = i + word_of_nat j) \<Longrightarrow>
   verify_chains m i c cs = Some (c + word_of_nat (length (concat cs)))"
proof (induction cs arbitrary: i c)
  case (Cons x cs)
  have "list_all (\<lambda>n. hn_hkey n AND m = i) x"
    using Cons.prems [of 0] by (auto simp: list_all_iff)
  moreover have "hn_hkey n AND m = i + 1 + word_of_nat j" if "j < length cs" "n \<in> set (cs ! j)" for j n
    using Cons.prems [of "Suc j"] that by (simp add: ac_simps)
  ultimately show ?case
    using Cons.IH [of "i + 1" "c + word_of_nat (length x)"] by (simp add: ac_simps)
qed simp

lemma hash_verify_ok: "hash_ok cmp f V k h \<Longrightarrow> hash_verify h"
proof -
  assume ok: "hash_ok cmp f V k h"
  then have k: "1 \<le> k" "k \<le> 60" by (auto simp: hash_ok_def marks_ok_def)
  have m: "x AND mask k = word_of_nat j \<longleftrightarrow> unat x mod 2 ^ k = j" if "j < 2 ^ k" for x :: u64 and j
  proof -
    have "(2 :: nat) ^ k \<le> 2 ^ 60" using k by (intro power_increasing) auto
    then have "j < 2 ^ 64" using that by auto
    then have "unat (word_of_nat j :: u64) = j" by (simp add: unsigned_of_nat take_bit_nat_eq_self)
    then show ?thesis by (metis unat_and_mask word_unat_eq_iff)
  qed
  have "verify_chains (h_mask h) 0 0 (h_table h) = Some (0 + word_of_nat (length (concat (h_table h))))"
  proof (rule verify_chains_ok)
    fix j n
    assume "j < length (h_table h)" and "n \<in> set (h_table h ! j)"
    moreover have t: "table_ok f k (h_table h)" using ok by (simp add: hash_ok_def)
    ultimately have "unat (hn_hkey n) mod 2 ^ k = j" "j < 2 ^ k"
      by (simp_all add: table_ok_length table_ok_chain)
    then show "hn_hkey n AND h_mask h = 0 + word_of_nat j"
      using ok by (simp add: hash_ok_def marks_ok_def m)
  qed
  moreover have "(2 :: u64) ^ (k - 1) < 2 ^ (k + 1)"
    using k by (simp add: word_less_nat_alt unat_exp del: power_Suc)
  ultimately show ?thesis
    using ok k by (auto simp: hash_verify_def hash_ok_def marks_ok_def nodes_def
        is_power_of_two_exp not_le simp del: power_Suc)
qed

lemma assert_verify_ok: "hash_ok cmp f V k h \<Longrightarrow> assert_verify h = Inr ((), h)"
  by (simp add: assert_verify_def run hash_verify_ok)

section \<open>What a table stores\<close>

definition stored :: "('k, 'd) hash \<Rightarrow> 'k \<Rightarrow> ('k, 'd) hnode option" where
  "stored h key = find (\<lambda>n. hn_key n = key) (nodes h)"

lemma find_Some_iff_unique:
  "distinct (map g xs) \<Longrightarrow> find (\<lambda>n. g n = key) xs = Some n \<longleftrightarrow> n \<in> set xs \<and> g n = key"
  by (induction xs) (auto simp: image_iff)

lemma find_None_iff_key: "find (\<lambda>n. g n = key) xs = None \<longleftrightarrow> key \<notin> g ` set xs"
  by (auto simp: find_None_iff)

lemma find_key_eqI:
  assumes "distinct (map g xs)" "distinct (map g ys)"
    and "\<And>n. g n = key \<Longrightarrow> n \<in> set xs \<longleftrightarrow> n \<in> set ys"
  shows "find (\<lambda>n. g n = key) xs = find (\<lambda>n. g n = key) ys"
proof (cases "find (\<lambda>n. g n = key) ys")
  case None
  with assms(3) have "find (\<lambda>n. g n = key) xs = None" by (auto simp: find_None_iff)
  with None show ?thesis by simp
next
  case (Some n)
  with assms have "find (\<lambda>n. g n = key) xs = Some n" by (simp add: find_Some_iff_unique)
  with Some show ?thesis by simp
qed

lemma stored_Some: "nodes_ok (nodes h) \<Longrightarrow> stored h key = Some n \<longleftrightarrow> n \<in> set (nodes h) \<and> hn_key n = key"
  by (simp add: stored_def nodes_ok_def find_Some_iff_unique)

lemma stored_None: "stored h key = None \<longleftrightarrow> key \<notin> hn_key ` set (nodes h)"
  by (simp add: stored_def find_None_iff_key)

lemma stored_mset:
  "nodes_ok (nodes h) \<Longrightarrow> mset (nodes h') = mset (nodes h) \<Longrightarrow> stored h' = stored h"
proof (rule ext)
  fix key
  assume ok: "nodes_ok (nodes h)" and m: "mset (nodes h') = mset (nodes h)"
  have "nodes_ok (nodes h')" "set (nodes h') = set (nodes h)"
    using ok m nodes_ok_mset [OF m] by (auto dest: mset_eq_setD)
  with ok show "stored h' key = stored h key"
    unfolding stored_def by (intro find_key_eqI) (auto simp: nodes_ok_def)
qed

section \<open>Growing and shrinking\<close>

lemma split_chain_filter:
  "split_chain b low high c =
     (rev (filter (\<lambda>n. hn_hkey n AND b = 0) c) @ low, rev (filter (\<lambda>n. hn_hkey n AND b \<noteq> 0) c) @ high)"
  by (induction c arbitrary: low high) simp_all

lemma mask_grow: "push_bit 1 (mask k) OR 1 = (mask (Suc k) :: u64)"
  by (simp add: mask_Suc_double or.commute mult.commute)

lemma mask_exposed: "mask (Suc k) XOR mask k = (2 ^ k :: u64)"
  by (rule bit_word_eqI) (auto simp: bit_simps)

lemma mod_Suc_exp: "unat x mod 2 ^ Suc k = unat x mod 2 ^ k + (if x AND 2 ^ k = 0 then 0 else 2 ^ k)"
  for x :: u64
proof -
  have "x AND 2 ^ k = 0 \<longleftrightarrow> \<not> bit (unat x) k"
    by (simp add: and_exp_eq_0_iff_not_bit bit_unsigned_iff)
  moreover have "take_bit (Suc k) (unat x) = take_bit k (unat x) + of_bool (bit (unat x) k) * 2 ^ k"
    by (simp add: take_bit_Suc_from_most)
  ultimately show ?thesis by (simp add: take_bit_eq_mod)
qed

lemma mset_concat_split:
  "mset (concat (map (\<lambda>c. rev (filter (\<lambda>n. \<not> P n) c)) t)) + mset (concat (map (\<lambda>c. rev (filter P c)) t))
   = mset (concat t)"
  by (induction t) (simp_all add: ac_simps flip: multiset_partition)

lemma table_ok_grow:
  assumes "table_ok f k t"
  shows "table_ok f (Suc k)
    (map (\<lambda>c. rev (filter (\<lambda>n. hn_hkey n AND 2 ^ k = 0) c)) t @
     map (\<lambda>c. rev (filter (\<lambda>n. hn_hkey n AND 2 ^ k \<noteq> 0) c)) t)"
  unfolding table_ok_def
proof (intro conjI allI impI ballI)
  show "length (map (\<lambda>c. rev (filter (\<lambda>n. hn_hkey n AND 2 ^ k = 0) c)) t @
     map (\<lambda>c. rev (filter (\<lambda>n. hn_hkey n AND 2 ^ k \<noteq> 0) c)) t) = 2 ^ Suc k"
    using assms by (simp add: table_ok_length)
  fix i n
  assume i: "i < 2 ^ Suc k"
    and n: "n \<in> set ((map (\<lambda>c. rev (filter (\<lambda>n. hn_hkey n AND 2 ^ k = 0) c)) t @
       map (\<lambda>c. rev (filter (\<lambda>n. hn_hkey n AND 2 ^ k \<noteq> 0) c)) t) ! i)"
  define j where "j = i mod 2 ^ k"
  have j: "j < 2 ^ k" by (simp add: j_def)
  have "i = (if i < 2 ^ k then j else j + 2 ^ k)"
    using i by (simp add: j_def not_less le_mod_geq)
  then have "n \<in> set (t ! j) \<and> (hn_hkey n AND 2 ^ k = 0 \<longleftrightarrow> i < 2 ^ k)"
    using n j assms by (auto simp: nth_append table_ok_length split: if_splits)
  moreover have "i = j + (if i < 2 ^ k then 0 else 2 ^ k)"
    using i by (simp add: j_def not_less le_mod_geq)
  ultimately show "unat (hn_hkey n) mod 2 ^ Suc k = i"
    using table_ok_chain [OF assms j, of n] unfolding mod_Suc_exp by auto
  show "hn_hkey n = f (hn_key n)"
    using \<open>n \<in> set (t ! j) \<and> _\<close> table_ok_hkey [OF assms j] by blast
qed

lemma table_ok_shrink:
  assumes "table_ok f (Suc k) t"
  shows "table_ok f k (map (\<lambda>i. t ! i @ t ! (i + 2 ^ k)) [0..<2 ^ k])"
  unfolding table_ok_def
proof (intro conjI allI impI ballI)
  show "length (map (\<lambda>i. t ! i @ t ! (i + 2 ^ k)) [0..<2 ^ k]) = 2 ^ k" by simp
  fix i n
  assume i: "i < 2 ^ k" and "n \<in> set (map (\<lambda>i. t ! i @ t ! (i + 2 ^ k)) [0..<2 ^ k] ! i)"
  then obtain j where j: "n \<in> set (t ! j)" "j < 2 ^ Suc k" "j mod 2 ^ k = i"
    by (auto split: if_splits)
  then have "unat (hn_hkey n) mod 2 ^ Suc k = j" using assms table_ok_chain by blast
  then have "unat (hn_hkey n) mod 2 ^ k = j mod 2 ^ k"
    by (metis mod_mod_cancel le_imp_power_dvd le_SucI order_refl)
  with j show "unat (hn_hkey n) mod 2 ^ k = i" by simp
  show "hn_hkey n = f (hn_key n)"
    using assms j unfolding table_ok_def by blast
qed

lemma mset_concat_fold:
  "length t = m + m \<Longrightarrow> mset (concat (map (\<lambda>i. t ! i @ t ! (i + m)) [0..<m])) = mset (concat t)"
proof -
  assume len: "length t = m + m"
  have both: "mset (concat (map (\<lambda>i. f i @ g i) xs)) =
      mset (concat (map f xs)) + mset (concat (map g xs))" for f g :: "nat \<Rightarrow> 'a list" and xs
    by (induction xs) (simp_all add: ac_simps)
  have "concat (map (\<lambda>i. t ! i) [0..<m + m]) = concat t"
    using len by (metis map_nth)
  moreover have "[0..<m + m] = [0..<m] @ map (\<lambda>i. i + m) [0..<m]"
    by (metis add_0 map_add_upt upt_add_eq_append zero_le)
  ultimately have "concat (map (\<lambda>i. t ! i) [0..<m]) @ concat (map (\<lambda>i. t ! (i + m)) [0..<m]) = concat t"
    by (simp add: comp_def)
  then have "mset (concat (map (\<lambda>i. t ! i) [0..<m])) + mset (concat (map (\<lambda>i. t ! (i + m)) [0..<m])) =
      mset (concat t)"
    by (metis mset_append)
  then show ?thesis by (simp only: both)
qed

section \<open>The operations\<close>

lemma hash_okD:
  assumes "hash_ok cmp f V k h"
  shows "h_compare h = cmp" "h_function h = f" "marks_ok k h" "table_ok f k (h_table h)"
    "nodes_ok (nodes h)" "h_nodecount h = word_of_nat (length (nodes h))"
    "length (nodes h) < 2 ^ 60" "h_nodecount h \<le> h_maxcount h"
    "\<forall>n \<in> set (nodes h). V (hn_key n)"
  using assms unfolding hash_ok_def by blast+

lemma nodecount_unat: "hash_ok cmp f V k h \<Longrightarrow> unat (h_nodecount h) = length (nodes h)"
proof -
  assume ok: "hash_ok cmp f V k h"
  have "(2 :: nat) ^ 60 < 2 ^ LENGTH(64)" by simp
  with hash_okD(7) [OF ok] have "length (nodes h) < 2 ^ LENGTH(64)" by linarith
  then show ?thesis using hash_okD(6) [OF ok] by (simp add: unsigned_of_nat take_bit_nat_eq_self)
qed

lemma grow_table_ok:
  assumes ok: "hash_ok cmp f V k h" and k: "k < 60"
  shows "\<exists>h' k'. grow_table realloc_ok h = Inr ((), h') \<and> hash_ok cmp f V k' h' \<and>
    mset (nodes h') = mset (nodes h) \<and> h_maxcount h' = h_maxcount h"
proof -
  note d = hash_okD [OF ok]
  have nc: "h_nchains h = 2 ^ k" "h_mask h = mask k" "1 \<le> k"
    using d(3) by (auto simp: marks_ok_def)
  have "2 * (2 :: u64) ^ k > 2 ^ k"
    using k unat_exp [of "Suc k"] by (simp add: word_less_nat_alt unat_exp)
  then have grows: "2 * h_nchains h > h_nchains h" by (simp add: nc)
  have mask: "push_bit (Suc 0) (mask k) OR 1 = (mask (Suc k) :: u64)"
    using mask_grow [of k] by (simp only: One_nat_def)
  have "mask (Suc k) \<noteq> (mask k :: u64)"
  proof
    assume "mask (Suc k) = (mask k :: u64)"
    then have "(2 :: u64) ^ k = 0" by (metis mask_exposed xor_self_eq)
    with k show False by (simp add: exp_eq_zero_iff)
  qed
  define t where "t = map (\<lambda>c. rev (filter (\<lambda>n. hn_hkey n AND 2 ^ k = 0) c)) (h_table h) @
     map (\<lambda>c. rev (filter (\<lambda>n. hn_hkey n AND 2 ^ k \<noteq> 0) c)) (h_table h)"
  define h1 where "h1 = h\<lparr>h_table := t, h_mask := mask (Suc k), h_nchains := h_nchains h * 2,
     h_lowmark := h_lowmark h * 2, h_highmark := h_highmark h * 2\<rparr>"
  have m: "mset (nodes h1) = mset (nodes h)"
    using mset_concat_split [of "\<lambda>n. hn_hkey n AND 2 ^ k \<noteq> 0" "h_table h"]
    by (simp add: nodes_def h1_def t_def)
  have "marks_ok (Suc k) h1"
    using d(3) k by (auto simp: marks_ok_def h1_def simp flip: power_Suc2)
  moreover have "table_ok f (Suc k) (h_table h1)"
    using table_ok_grow [OF d(4)] by (simp add: h1_def t_def)
  moreover have "nodes_ok (nodes h1)" "length (nodes h1) = length (nodes h)" "set (nodes h1) = set (nodes h)"
    using d(5) nodes_ok_mset [OF m] length_mset [OF m] set_mset_eq [OF m] by simp_all
  ultimately have ok1: "hash_ok cmp f V (Suc k) h1"
    using d by (simp add: hash_ok_def) (simp add: h1_def)
  show ?thesis
  proof (cases realloc_ok)
    case True
    then have "grow_table realloc_ok h = Inr ((), h1)"
      using grows \<open>mask (Suc k) \<noteq> mask k\<close> assert_verify_ok [OF ok1]
      by (simp add: grow_table_def run Let_def nc mask mask_exposed split_chain_filter comp_def
          h1_def t_def del: push_bit_Suc)
    with ok1 m show ?thesis by (auto simp: h1_def)
  next
    case False
    then have "grow_table realloc_ok h = Inr ((), h)"
      using grows assert_verify_ok [OF ok] by (simp add: grow_table_def run)
    with ok show ?thesis by blast
  qed
qed

lemma shrink_table_ok:
  assumes ok: "hash_ok cmp f V k h" and k: "2 \<le> k" and dyn: "h_dynamic h"
  shows "\<exists>h' k'. shrink_table h = Inr ((), h') \<and> hash_ok cmp f V k' h' \<and>
    mset (nodes h') = mset (nodes h) \<and> h_maxcount h' = h_maxcount h"
proof -
  note d = hash_okD [OF ok]
  obtain l where l: "k = Suc l" "1 \<le> l" using k by (cases k) auto
  have lk: "l < 60" using d(3) l by (simp add: marks_ok_def)
  have half: "(2 :: u64) ^ Suc j div 2 = 2 ^ j" if "Suc j < 64" for j
    using that by (simp add: word_unat_eq_iff unat_div_distrib unat_exp del: power_Suc) simp
  have nc: "h_nchains h = 2 ^ Suc l" "h_mask h = mask (Suc l)" "h_highmark h = 2 ^ Suc (Suc l)"
    "h_lowmark h = 2 ^ l"
    using d(3) dyn by (auto simp: marks_ok_def l(1))
  have two: "2 \<le> h_nchains h"
    using lk unat_exp [of "Suc l"] by (simp add: nc word_le_nat_alt)
  have shift: "drop_bit 1 (mask (Suc l)) = (mask l :: u64)"
    using lk by (intro bit_word_eqI) (auto simp: bit_simps simp del: drop_bit_Suc)
  define t where "t = map (\<lambda>i. h_table h ! i @ h_table h ! (i + 2 ^ l)) [0..<2 ^ l]"
  define h1 where "h1 = h\<lparr>h_table := t, h_mask := mask l, h_nchains := 2 ^ l,
     h_lowmark := h_lowmark h div 2, h_highmark := h_highmark h div 2\<rparr>"
  have m: "mset (nodes h1) = mset (nodes h)"
    using mset_concat_fold [of "h_table h" "2 ^ l"] table_ok_length [OF d(4)]
    by (simp add: nodes_def h1_def t_def l(1))
  have "marks_ok l h1"
    using d(3) l lk half [of "Suc l"] half [of "l - 1"] by (auto simp: marks_ok_def h1_def)
  moreover have "table_ok f l (h_table h1)"
    using table_ok_shrink d(4) by (auto simp: h1_def t_def l(1))
  moreover have "nodes_ok (nodes h1)" "length (nodes h1) = length (nodes h)" "set (nodes h1) = set (nodes h)"
    using d(5) nodes_ok_mset [OF m] length_mset [OF m] set_mset_eq [OF m] by simp_all
  ultimately have ok1: "hash_ok cmp f V l h1"
    using d by (simp add: hash_ok_def) (simp add: h1_def)
  have "shrink_table h = Inr ((), h1)"
    using two assert_verify_ok [OF ok1] half [of l] lk
    by (simp add: shrink_table_def run nc unat_exp h1_def t_def shift [unfolded One_nat_def] del: power_Suc)
  with ok1 m show ?thesis by (auto simp: h1_def)
qed

section \<open>Keys\<close>

text \<open>
  What the table needs of its two functions: two keys compare to 0 only when they are equal, among
  the keys with \<open>V\<close>.  A key is the content the comparison sees, so that equal keys have the same
  hash value.
\<close>

locale hash_keys =
  fixes cmp :: "'k \<Rightarrow> 'k \<Rightarrow> int" and f :: "'k \<Rightarrow> u64" and V :: "'k \<Rightarrow> bool"
  assumes cmp_eq: "V a \<Longrightarrow> V b \<Longrightarrow> cmp a b = 0 \<longleftrightarrow> a = b"
begin

lemma find_node_find:
  "\<forall>n \<in> set c. hn_hkey n = f (hn_key n) \<and> V (hn_key n) \<Longrightarrow> V key \<Longrightarrow> find_node cmp (f key) key c = find (\<lambda>n. hn_key n = key) c"
  by (induction c) (auto simp: cmp_eq)

lemma lookup_run:
  assumes ok: "hash_ok cmp f V k h" and V: "V key"
  shows "hash_lookup key h = Inr (stored h key, h)"
proof -
  note d = hash_okD [OF ok]
  define i where "i = unat (f key) mod 2 ^ k"
  have i: "i < length (h_table h)" "i < 2 ^ k"
    using table_ok_length [OF d(4)] by (simp_all add: i_def)
  have mask: "h_mask h = mask k" using d(3) by (simp add: marks_ok_def)
  have "distinct (map hn_key (concat (h_table h)))"
    using d(5) by (simp add: nodes_ok_def nodes_def)
  moreover have "\<forall>n \<in> set (h_table h ! i). hn_hkey n = f (hn_key n) \<and> V (hn_key n)"
    using table_ok_hkey [OF d(4) i(2)] table_ok_concat [OF d(4) i(2)] d(9) unfolding nodes_def by blast
  moreover have "find (\<lambda>n. hn_key n = key) (h_table h ! i) = stored h key"
    unfolding stored_def nodes_def
  proof (rule find_key_eqI)
    have "h_table h ! i \<in> set (h_table h)" using i(1) by simp
    then obtain xs ys where "h_table h = xs @ (h_table h ! i) # ys" by (metis split_list)
    then have "concat (h_table h) = concat xs @ (h_table h ! i) @ concat ys"
      by (metis concat.simps(2) concat_append)
    then show "distinct (map hn_key (h_table h ! i))"
      using \<open>distinct (map hn_key (concat (h_table h)))\<close> by simp
    show "n \<in> set (h_table h ! i) \<longleftrightarrow> n \<in> set (concat (h_table h))" if "hn_key n = key" for n
      using that i table_ok_nth [OF d(4), of n] table_ok_key [OF d(4), of n] table_ok_concat [OF d(4) i(2), of n]
      by (auto simp: i_def simp del: set_concat)
  qed fact
  ultimately show ?thesis
    using i d(1,2) V by (simp add: hash_lookup_def run mask uint_and_mask find_node_find i_def [symmetric])
qed

lemma insert_core:
  fixes h :: "('k, 'd) hash" and dat :: 'd
  assumes ok: "hash_ok cmp f V k h" and V: "V key" and new: "stored h key = None" "a \<notin> hn_addr ` set (nodes h)"
    and room: "length (nodes h) < 2 ^ 60 - 1" "h_nodecount h < h_maxcount h"
  defines "i \<equiv> unat (f key) mod 2 ^ k"
  defines "n \<equiv> \<lparr>hn_addr = a, hn_key = key, hn_data = dat, hn_hkey = f key\<rparr>"
  defines "h' \<equiv> h\<lparr>h_table := (h_table h)[i := n # h_table h ! i], h_nodecount := h_nodecount h + 1\<rparr>"
  shows "hash_ok cmp f V k h'" "mset (nodes h') = add_mset n (mset (nodes h))"
proof -
  note d = hash_okD [OF ok]
  have i: "i < length (h_table h)" "i < 2 ^ k"
    using table_ok_length [OF d(4)] by (simp_all add: i_def)
  show m: "mset (nodes h') = add_mset n (mset (nodes h))"
    using mset_concat_update [OF i(1), of "n # h_table h ! i"] by (simp add: nodes_def h'_def)
  then have m': "mset (nodes h') = mset (n # nodes h)" by simp
  have "table_ok f k (h_table h')"
    unfolding table_ok_def
  proof (intro conjI allI impI ballI)
    show "length (h_table h') = 2 ^ k" by (simp add: h'_def table_ok_length [OF d(4)])
    fix j x
    assume "j < 2 ^ k" "x \<in> set (h_table h' ! j)"
    then have "x \<in> set (h_table h ! j) \<or> j = i \<and> x = n"
      using i by (auto simp: h'_def nth_list_update split: if_splits)
    then show "unat (hn_hkey x) mod 2 ^ k = j" "hn_hkey x = f (hn_key x)"
      using table_ok_chain [OF d(4) \<open>j < 2 ^ k\<close>] table_ok_hkey [OF d(4) \<open>j < 2 ^ k\<close>]
      by (auto simp: n_def i_def)
  qed
  moreover have "nodes_ok (nodes h')"
    using new d(5) unfolding nodes_ok_mset [OF m'] by (auto simp: nodes_ok_def n_def stored_None)
  moreover have "length (nodes h') = Suc (length (nodes h))"
    using length_mset [OF m'] by simp
  moreover have "h_nodecount h + 1 \<le> h_maxcount h"
    using room(2) by (simp add: word_less_nat_alt word_le_nat_alt unat_plus_if' ) unat_arith
  moreover have "marks_ok k h'" using d(3) by (simp add: marks_ok_def h'_def)
  ultimately show "hash_ok cmp f V k h'"
    using d room(1) V set_mset_eq [OF m'] by (simp add: hash_ok_def) (simp add: h'_def n_def)
qed

lemma stored_insert:
  assumes "nodes_ok (nodes h')" and "mset (nodes h') = add_mset n (mset (nodes h))"
    and "nodes_ok (nodes h)"
  shows "stored h' = (stored h)(hn_key n \<mapsto> n)"
proof (rule ext)
  fix key
  have s: "set (nodes h') = insert n (set (nodes h))"
    using assms(2) by (metis mset_eq_setD mset.simps(2) list.simps(15))
  show "stored h' key = ((stored h)(hn_key n \<mapsto> n)) key"
  proof (cases "key = hn_key n")
    case True
    then show ?thesis using assms(1) s by (simp add: stored_Some)
  next
    case False
    then have "stored h' key = stored h key"
      unfolding stored_def using assms(1,3) s
      by (intro find_key_eqI) (auto simp: nodes_ok_def)
    with False show ?thesis by simp
  qed
qed

lemma chain_at_None: "a \<notin> hn_addr ` set c \<Longrightarrow> chain_at a c = None"
  by (induction c) auto

lemma node_at_None: "a \<notin> hn_addr ` set (concat t) \<Longrightarrow> node_at a t = None"
  by (induction t) (auto simp: chain_at_None image_Un)

lemma insert_run:
  fixes h :: "('k, 'd) hash" and dat :: 'd
  assumes ok: "hash_ok cmp f V k h" and V: "V key" and new: "stored h key = None" "a \<notin> hn_addr ` set (nodes h)"
    and room: "length (nodes h) < 2 ^ 60 - 1" "h_nodecount h < h_maxcount h"
  defines "n \<equiv> \<lparr>hn_addr = a, hn_key = key, hn_data = dat, hn_hkey = f key\<rparr>"
  shows "\<exists>h' k'. hash_insert realloc_ok a dat key h = Inr ((), h') \<and> hash_ok cmp f V k' h' \<and>
    mset (nodes h') = add_mset n (mset (nodes h)) \<and> stored h' = (stored h)(key \<mapsto> n) \<and>
    h_maxcount h' = h_maxcount h"
proof -
  define grows where "grows = (h_dynamic h \<and> h_nodecount h \<ge> h_highmark h)"
  have "\<exists>h1 k1. (when_p grows (grow_table realloc_ok)) h = Inr ((), h1) \<and> hash_ok cmp f V k1 h1 \<and>
      mset (nodes h1) = mset (nodes h) \<and> h_maxcount h1 = h_maxcount h"
  proof (cases grows)
    case True
    have "k < 60"
    proof (rule ccontr)
      assume "\<not> k < 60"
      moreover have "1 \<le> k" "k \<le> 60" "h_highmark h = 2 ^ (k + 1)"
        using True hash_okD(3) [OF ok] by (auto simp: grows_def marks_ok_def)
      ultimately have "h_highmark h = 2 ^ 61" by simp
      then have "2 ^ 61 \<le> length (nodes h)"
        using True nodecount_unat [OF ok] unat_exp [of 61]
        by (simp add: grows_def word_le_nat_alt)
      with room show False by simp
    qed
    from grow_table_ok [OF ok this] True show ?thesis by (simp add: run)
  next
    case False
    with ok show ?thesis by (auto simp: run)
  qed
  then obtain h1 k1 where h1: "(when_p grows (grow_table realloc_ok)) h = Inr ((), h1)"
    and ok1: "hash_ok cmp f V k1 h1" and m1: "mset (nodes h1) = mset (nodes h)"
    and mx: "h_maxcount h1 = h_maxcount h" by blast
  have st1: "stored h1 = stored h" by (rule stored_mset [OF hash_okD(5) [OF ok] m1])
  have len1: "length (nodes h1) = length (nodes h)" and set1: "set (nodes h1) = set (nodes h)"
    using length_mset [OF m1] set_mset_eq [OF m1] by blast+
  have nc1: "h_nodecount h1 = h_nodecount h"
    using hash_okD(6) [OF ok] hash_okD(6) [OF ok1] len1 by simp
  define i where "i = unat (f key) mod 2 ^ k1"
  define h2 where "h2 = h1\<lparr>h_table := (h_table h1)[i := n # h_table h1 ! i], h_nodecount := h_nodecount h1 + 1\<rparr>"
  have core: "hash_ok cmp f V k1 h2" "mset (nodes h2) = add_mset n (mset (nodes h1))"
    using insert_core [OF ok1, of key a dat] V new room st1 set1 len1 nc1 mx
    by (simp_all add: h2_def i_def n_def)
  have len: "i < length (h_table h1)"
    using table_ok_length [OF hash_okD(4) [OF ok1]] by (simp add: i_def)
  have mask: "h_mask h1 = mask k1" "h_function h = f" "h_function h1 = f"
    using hash_okD [OF ok] hash_okD [OF ok1] by (simp_all add: marks_ok_def)
  have "next_is_null a h"
    using new(2) by (simp add: next_is_null_def node_at_None nodes_def)
  then have "hash_insert realloc_ok a dat key h = Inr ((), h2)"
    using room(2) new(1) h1 len assert_verify_ok [OF core(1)]
    by (simp add: hash_insert_def run lookup_run [OF ok V] grows_def [symmetric] mask uint_and_mask
        unat_and_mask i_def [symmetric] n_def [symmetric] h2_def [symmetric])
  moreover have "stored h2 = (stored h)(key \<mapsto> n)"
    using stored_insert [OF hash_okD(5) [OF core(1)] core(2) hash_okD(5) [OF ok1]] st1
    by (simp add: n_def)
  ultimately show ?thesis using core m1 mx by (auto simp: h2_def)
qed

subsection \<open>Deletion\<close>

lemma unlink_found:
  "distinct (map hn_addr c) \<Longrightarrow> n \<in> set c \<Longrightarrow>
   \<exists>c'. unlink (hn_addr n) c = Inr c' \<and> mset c = add_mset n (mset c')"
proof (induction c)
  case (Cons m c)
  show ?case
  proof (cases "m = n")
    case True
    then show ?thesis by simp
  next
    case False
    with Cons.prems have n: "n \<in> set c" "hn_addr m \<noteq> hn_addr n" by auto
    from Cons.IH n(1) Cons.prems(1) obtain c' where
      "unlink (hn_addr n) c = Inr c'" "mset c = add_mset n (mset c')" by auto
    with n(2) show ?thesis by auto
  qed
qed simp

lemma remove_run:
  assumes ok: "hash_ok cmp f V k h" and n: "n \<in> set (nodes h)"
  shows "\<exists>h'. remove_node n h = Inr (n, h') \<and> hash_ok cmp f V k h' \<and>
    mset (nodes h) = add_mset n (mset (nodes h')) \<and> h_maxcount h' = h_maxcount h"
proof -
  note d = hash_okD [OF ok]
  define i where "i = unat (hn_hkey n) mod 2 ^ k"
  have i: "i < length (h_table h)" "i < 2 ^ k"
    using table_ok_length [OF d(4)] by (simp_all add: i_def)
  have ni: "n \<in> set (h_table h ! i)"
    using n table_ok_nth [OF d(4)] by (simp add: nodes_def i_def)
  obtain xs ys where t: "h_table h = xs @ (h_table h ! i) # ys"
    by (metis split_list nth_mem i(1))
  have "distinct (map hn_addr (concat (h_table h)))" using d(5) by (simp add: nodes_ok_def nodes_def)
  then have "distinct (map hn_addr (h_table h ! i))"
    by (subst (asm) t) simp
  then obtain c' where c': "unlink (hn_addr n) (h_table h ! i) = Inr c'"
    and mc: "mset (h_table h ! i) = add_mset n (mset c')"
    using unlink_found ni by blast
  define h1 where "h1 = h\<lparr>h_table := (h_table h)[i := c'], h_nodecount := h_nodecount h - 1\<rparr>"
  have m: "mset (nodes h) = add_mset n (mset (nodes h1))"
    using mset_concat_update [OF i(1), of c'] mc by (simp add: nodes_def h1_def)
  then have m': "mset (nodes h) = mset (n # nodes h1)" by simp
  have len: "length (nodes h) = Suc (length (nodes h1))" using length_mset [OF m'] by simp
  have "table_ok f k (h_table h1)"
    unfolding table_ok_def
  proof (intro conjI allI impI ballI)
    show "length (h_table h1) = 2 ^ k" by (simp add: h1_def table_ok_length [OF d(4)])
    have "set c' \<subseteq> set (h_table h ! i)" using mc by (metis mset_eq_setD mset.simps(2) set_subset_Cons)
    fix j x
    assume "j < 2 ^ k" "x \<in> set (h_table h1 ! j)"
    then have "x \<in> set (h_table h ! j)"
      using i \<open>set c' \<subseteq> _\<close> by (auto simp: h1_def nth_list_update split: if_splits)
    then show "unat (hn_hkey x) mod 2 ^ k = j" "hn_hkey x = f (hn_key x)"
      using table_ok_chain [OF d(4) \<open>j < 2 ^ k\<close>] table_ok_hkey [OF d(4) \<open>j < 2 ^ k\<close>] by auto
  qed
  moreover have "nodes_ok (nodes h1)"
    using d(5) unfolding nodes_ok_mset [OF m'] by (auto simp: nodes_ok_def)
  moreover have "marks_ok k h1" using d(3) by (simp add: marks_ok_def h1_def)
  moreover have "h_nodecount h - 1 \<le> h_maxcount h"
    using d(8) nodecount_unat [OF ok] len by unat_arith
  moreover have same: "h_compare h1 = cmp" "h_function h1 = f" "h_maxcount h1 = h_maxcount h"
    and nc: "h_nodecount h1 = h_nodecount h - 1"
    using d(1,2) by (simp_all add: h1_def)
  moreover have "h_nodecount h - 1 = word_of_nat (length (nodes h1))"
    unfolding d(6) len by simp
  moreover have "length (nodes h1) < 2 ^ 60" using d(7) len by linarith
  moreover have "\<forall>x \<in> set (nodes h1). V (hn_key x)" using d(9) set_mset_eq [OF m'] by simp
  ultimately have ok1: "hash_ok cmp f V k h1"
    unfolding hash_ok_def by metis
  have mask: "h_mask h = mask k" using d(3) by (simp add: marks_ok_def)
  have "remove_node n h = Inr (n, h1)"
    using i(1) assert_verify_ok [OF ok1]
    by (simp add: remove_node_def run mask uint_and_mask unat_and_mask i_def [symmetric] c'
        h1_def [symmetric])
  with ok1 m show ?thesis by (auto simp: h1_def)
qed

lemma stored_remove:
  assumes "nodes_ok (nodes h)" and "mset (nodes h) = add_mset n (mset (nodes h'))"
  shows "stored h' = (stored h)(hn_key n := None)"
proof (rule ext)
  fix key
  have m: "mset (nodes h) = mset (n # nodes h')" using assms(2) by simp
  have ok: "nodes_ok (n # nodes h')" using assms(1) nodes_ok_mset [OF m] by simp
  have s: "set (nodes h) = insert n (set (nodes h'))" using set_mset_eq [OF m] by simp
  show "stored h' key = ((stored h)(hn_key n := None)) key"
  proof (cases "key = hn_key n")
    case True
    with ok show ?thesis by (auto simp: stored_None nodes_ok_def)
  next
    case False
    then have "stored h' key = stored h key"
      unfolding stored_def using assms(1) ok s
      by (intro find_key_eqI) (auto simp: nodes_ok_def)
    with False show ?thesis by simp
  qed
qed

lemma assert_found_run:
  "hash_ok cmp f V k h \<Longrightarrow> n \<in> set (nodes h) \<Longrightarrow> assert_found n h = Inr ((), h)"
proof -
  assume ok: "hash_ok cmp f V k h" and n: "n \<in> set (nodes h)"
  then have "V (hn_key n)" using hash_okD(9) [OF ok] by blast
  moreover have "stored h (hn_key n) = Some n" using stored_Some [OF hash_okD(5) [OF ok]] n by simp
  ultimately show ?thesis using lookup_run [OF ok, of "hn_key n"] by (simp add: assert_found_def run)
qed

lemma delete_run:
  assumes ok: "hash_ok cmp f V k h" and n: "n \<in> set (nodes h)"
  shows "\<exists>h' k'. hash_delete n h = Inr (n, h') \<and> hash_ok cmp f V k' h' \<and>
    mset (nodes h) = add_mset n (mset (nodes h')) \<and> stored h' = (stored h)(hn_key n := None) \<and>
    h_maxcount h' = h_maxcount h"
proof -
  define shrinks where
    "shrinks = (h_dynamic h \<and> h_nodecount h \<le> h_lowmark h \<and> h_nodecount h > INIT_SIZE)"
  have "\<exists>h1 k1. (when_p shrinks shrink_table) h = Inr ((), h1) \<and> hash_ok cmp f V k1 h1 \<and>
      mset (nodes h1) = mset (nodes h) \<and> h_maxcount h1 = h_maxcount h"
  proof (cases shrinks)
    case True
    have "2 \<le> k"
    proof (rule ccontr)
      assume "\<not> 2 \<le> k"
      then have "h_lowmark h = 1"
        using True hash_okD(3) [OF ok] by (auto simp: shrinks_def marks_ok_def)
      with True show False by (auto simp: shrinks_def INIT_SIZE_def INIT_BITS_def word_less_nat_alt word_le_nat_alt)
    qed
    from shrink_table_ok [OF ok this] True show ?thesis by (simp add: run shrinks_def)
  next
    case False
    with ok show ?thesis by (auto simp: run)
  qed
  then obtain h1 k1 where h1: "(when_p shrinks shrink_table) h = Inr ((), h1)"
    and ok1: "hash_ok cmp f V k1 h1" and m1: "mset (nodes h1) = mset (nodes h)"
    and mx: "h_maxcount h1 = h_maxcount h" by blast
  have "n \<in> set (nodes h1)" using n set_mset_eq [OF m1] by simp
  from remove_run [OF ok1 this] obtain h2 where h2: "remove_node n h1 = Inr (n, h2)"
    "hash_ok cmp f V k1 h2" "mset (nodes h1) = add_mset n (mset (nodes h2))" "h_maxcount h2 = h_maxcount h1"
    by blast
  have "hash_delete n h = Inr (n, h2)"
    using assert_found_run [OF ok n] h1 h2(1) by (simp add: hash_delete_def run shrinks_def)
  moreover have "stored h2 = (stored h)(hn_key n := None)"
    using stored_remove [OF hash_okD(5) [OF ok], of n h2] h2(3) m1 by simp
  ultimately show ?thesis using h2 m1 mx by auto
qed

lemma scan_delete_run:
  assumes ok: "hash_ok cmp f V k h" and n: "n \<in> set (nodes h)"
  shows "\<exists>h'. hash_scan_delete n h = Inr (n, h') \<and> hash_ok cmp f V k h' \<and>
    mset (nodes h) = add_mset n (mset (nodes h')) \<and> stored h' = (stored h)(hn_key n := None)"
proof -
  from remove_run [OF ok n] obtain h2 where h2: "remove_node n h = Inr (n, h2)"
    "hash_ok cmp f V k h2" "mset (nodes h) = add_mset n (mset (nodes h2))" by blast
  then have "hash_scan_delete n h = Inr (n, h2)"
    using assert_found_run [OF ok n] by (simp add: hash_scan_delete_def run)
  with h2 stored_remove [OF hash_okD(5) [OF ok] h2(3)] show ?thesis by auto
qed

end

end
