(* ===== verification/Kazlib_Hash_Props.thy ===== *)
theory Kazlib_Hash_Props
  imports Kazlib_Hash_Inv
begin

text \<open>
  The properties of the hash table: it refines a finite map for the calls C-Pluff makes, no
  assertion of it ever fails, and freeing all nodes ends after freeing each of them once.
\<close>

section \<open>A table as a map\<close>

text \<open>
  The three ways in which C-Pluff uses a table: look a key up; insert under a key that is not
  there, with the answer of the allocations; remove what is under a key.
\<close>

datatype ('k, 'd) dict_op = Find 'k | Put bool nat 'd 'k | Drop 'k

fun dict_run :: "('k, 'd) dict_op \<Rightarrow> (('k, 'd) hash, 'd option) prog" where
  "dict_run (Find key) = bnd (hash_lookup key) (\<lambda>r. ret (map_option hn_data r))"
| "dict_run (Put realloc_ok a d key) =
     bnd (hash_lookup key) (\<lambda>r.
     case r of
       Some n \<Rightarrow> ret (Some (hn_data n))
     | None \<Rightarrow> bnd (hash_alloc_insert realloc_ok (Some a) key d) (\<lambda>_. ret None))"
| "dict_run (Drop key) =
     bnd (hash_lookup key) (\<lambda>r.
     case r of
       None \<Rightarrow> ret None
     | Some n \<Rightarrow> bnd (hash_delete_free n) (\<lambda>_. ret (Some (hn_data n))))"

fun dict_spec :: "('k, 'd) dict_op \<Rightarrow> ('k \<rightharpoonup> 'd) \<Rightarrow> 'd option \<times> ('k \<rightharpoonup> 'd)" where
  "dict_spec (Find key) m = (m key, m)"
| "dict_spec (Put realloc_ok a d key) m = (m key, if m key = None then m(key \<mapsto> d) else m)"
| "dict_spec (Drop key) m = (m key, m(key := None))"

text \<open>\<^verbatim>\<open>malloc\<close> does not answer the address of a live node, and the table is not full.\<close>

fun dict_key :: "('k, 'd) dict_op \<Rightarrow> 'k" where
  "dict_key (Find key) = key"
| "dict_key (Put realloc_ok a d key) = key"
| "dict_key (Drop key) = key"

fun dict_ok :: "('k \<Rightarrow> bool) \<Rightarrow> ('k, 'd) dict_op \<Rightarrow> ('k, 'd) hash \<Rightarrow> bool" where
  "dict_ok V (Put realloc_ok a d key) h \<longleftrightarrow> V key \<and> a \<notin> hn_addr ` set (nodes h) \<and>
     length (nodes h) < 2 ^ 60 - 1 \<and> h_nodecount h < h_maxcount h"
| "dict_ok V c h \<longleftrightarrow> V (dict_key c)"

definition hash_map :: "('k, 'd) hash \<Rightarrow> 'k \<rightharpoonup> 'd" where
  "hash_map h = (\<lambda>key. map_option hn_data (stored h key))"

definition hash_wf :: "('k \<Rightarrow> 'k \<Rightarrow> int) \<Rightarrow> ('k \<Rightarrow> u64) \<Rightarrow> ('k \<Rightarrow> bool) \<Rightarrow> ('k, 'd) hash \<Rightarrow> bool" where
  "hash_wf cmp f V h \<longleftrightarrow> (\<exists>k \<le> 60. hash_ok cmp f V k h)"

lemma hash_wfI: "hash_ok cmp f V k h \<Longrightarrow> hash_wf cmp f V h"
  using hash_okD(3) [of cmp f V k h] by (auto simp: hash_wf_def marks_ok_def)

context hash_keys begin

lemma dict_step:
  assumes "hash_wf cmp f V h" and c: "dict_ok V c h"
  shows "\<exists>r h'. dict_run c h = Inr (r, h') \<and> hash_wf cmp f V h' \<and>
    dict_spec c (hash_map h) = (r, hash_map h')"
proof -
  obtain k where ok: "hash_ok cmp f V k h" using assms(1) by (auto simp: hash_wf_def)
  have V: "V (dict_key c)" using c by (cases c) auto
  note look = lookup_run [OF ok V]
  show ?thesis
  proof (cases c)
    case (Find key)
    with assms(1) look show ?thesis by (simp add: run hash_map_def)
  next
    case (Put realloc_ok a d key)
    show ?thesis
    proof (cases "stored h key")
      case (Some n)
      with Put assms(1) look show ?thesis by (simp add: run hash_map_def)
    next
      case None
      with insert_run [OF ok _ None, where a = a and dat = d and realloc_ok = realloc_ok] Put c
      obtain h' k' where
        h': "hash_insert realloc_ok a d key h = Inr ((), h')" "hash_ok cmp f V k' h'"
          "stored h' = (stored h)(key \<mapsto> \<lparr>hn_addr = a, hn_key = key, hn_data = d, hn_hkey = f key\<rparr>)"
        by auto
      with None Put look hash_wfI [OF h'(2)] show ?thesis
        by (auto simp: run hash_alloc_insert_def hash_map_def)
    qed
  next
    case (Drop key)
    show ?thesis
    proof (cases "stored h key")
      case None
      with Drop assms(1) look show ?thesis
        by (auto simp: run hash_map_def fun_eq_iff)
    next
      case (Some n)
      then have n: "n \<in> set (nodes h)" "hn_key n = key"
        using stored_Some [OF hash_okD(5) [OF ok]] by auto
      with delete_run [OF ok] obtain h' k' where
        h': "hash_delete n h = Inr (n, h')" "hash_ok cmp f V k' h'" "stored h' = (stored h)(key := None)"
        by metis
      with Some Drop look hash_wfI [OF h'(2)] show ?thesis
        by (auto simp: run hash_delete_free_def hash_map_def)
    qed
  qed
qed

end

sublocale hash_keys < sim: simulation "hash_wf cmp f V" hash_map dict_run dict_spec "dict_ok V"
  by unfold_locales (rule dict_step)

text \<open>Strings do not contain the byte that ends them.\<close>

definition c_string :: "u8 list \<Rightarrow> bool" where
  "c_string s \<longleftrightarrow> 0 \<notin> set s"

interpretation strings: hash_keys hash_comp_default hash_fun_default c_string
proof
  fix a b
  show "c_string a \<Longrightarrow> c_string b \<Longrightarrow> hash_comp_default a b = 0 \<longleftrightarrow> a = b"
    by (induction a b rule: hash_comp_default.induct) (auto simp: c_string_def uint_0_iff simp flip: word_uint_eq_iff)
qed

interpretation pointers: hash_keys cpi_comp_ptr cpi_hashfunc_ptr "\<lambda>_. True"
  by unfold_locales (simp add: cpi_comp_ptr_def)

lemma hash_create_ok:
  "hash_create maxcount cmp f True True = Some h \<Longrightarrow> hash_ok cmp f V 6 h \<and> nodes h = []"
  by (auto simp: hash_create_def hash_ok_def marks_ok_def table_ok_def nodes_ok_def nodes_def
      INIT_SIZE_def INIT_BITS_def INIT_MASK_def mask_eq_exp_minus_1)

text \<open>
  C10: A hash table refines a finite map.  From the table \<^verbatim>\<open>hash_create\<close> makes for string keys, any
  sequence of lookups, insertions under new keys and removals runs without a failed assertion
  or any other fault, growing and shrinking the table on the way, whether the reallocations
  succeed or not; every answer is the one of the map, and at the end the table stands for the
  resulting map.  Required: the allocator does not answer the address of a live node, and
  the table is not full at an insertion.
\<close>
theorem hash_refines_map:
  assumes "hash_create maxcount hash_comp_default hash_fun_default True True = Some h"
    and "ok_all dict_run (dict_ok c_string) ops h"
  shows "\<exists>rs h'. run_all dict_run ops h = Inr (rs, h') \<and> hash_verify h' \<and>
    spec_all dict_spec ops Map.empty = (rs, hash_map h')"
proof -
  have h: "hash_wf hash_comp_default hash_fun_default c_string h" "hash_map h = Map.empty"
    using hash_create_ok [OF assms(1), where V = c_string] hash_wfI [where k = 6]
    by (auto simp: hash_map_def stored_def)
  from strings.sim.sim_all [OF h(1) assms(2)] obtain rs h' where
    "run_all dict_run ops h = Inr (rs, h')" "hash_wf hash_comp_default hash_fun_default c_string h'"
    "spec_all dict_spec ops Map.empty = (rs, hash_map h')" by (auto simp: h(2))
  moreover then have "hash_verify h'" by (auto simp: hash_wf_def intro: hash_verify_ok)
  ultimately show ?thesis by blast
qed

theorem hash_refines_map_witness:
  "\<exists>h rs h'. hash_create 100 hash_comp_default hash_fun_default True True = Some h \<and>
     run_all dict_run [Put True 1 (7 :: int) [0x61], Find [0x61], Drop [0x61], Find [0x61]] h = Inr (rs, h') \<and>
     rs = [None, Some 7, Some 7, None]"
proof -
  obtain h :: "(u8 list, int) hash" where
    h: "hash_create 100 hash_comp_default hash_fun_default True True = Some h"
    by (simp add: hash_create_def)
  let ?ops = "[Put True 1 (7 :: int) [0x61], Find [0x61], Drop [0x61], Find [0x61]]"
  have "nodes h = []" "h_nodecount h = 0" "h_maxcount h = 100"
    using h hash_create_ok [OF h] by (auto simp: hash_create_def)
  then have "ok_all dict_run (dict_ok c_string) ?ops h"
    by (auto simp: c_string_def split: sum.split)
  from hash_refines_map [OF h this] h show ?thesis by fastforce
qed

section \<open>Scanning\<close>

text \<open>
  The position of a scan: the chains before the current one are empty and the current one starts
  with the node to be answered next.
\<close>

definition scan_at :: "hscan \<Rightarrow> ('k, 'd) chain list \<Rightarrow> bool" where
  "scan_at scan t \<longleftrightarrow>
     (case sc_next scan of
        None \<Rightarrow> concat t = []
      | Some a \<Rightarrow> \<exists>p n ns rest. t = replicate p [] @ (n # ns) # rest \<and>
          sc_chain scan = word_of_nat p \<and> hn_addr n = a)"

lemma scan_atI:
  "t = replicate p [] @ (n # ns) # rest \<Longrightarrow> sc_next s = Some (hn_addr n) \<Longrightarrow>
   sc_chain s = word_of_nat p \<Longrightarrow> scan_at s t"
  by (auto simp: scan_at_def)

lemma first_chain_spec:
  "case first_chain i t of
     None \<Rightarrow> concat t = []
   | Some (j, a) \<Rightarrow> \<exists>p n ns rest. t = replicate p [] @ (n # ns) # rest \<and>
       j = i + word_of_nat p \<and> hn_addr n = a"
proof (induction i t rule: first_chain.induct)
  case (2 i cs)
  show ?case
  proof (cases "first_chain (i + 1) cs")
    case (Some r)
    then obtain j a where r: "r = (j, a)" by (cases r)
    with 2 Some obtain p n ns rest where
      "cs = replicate p [] @ (n # ns) # rest \<and> j = i + 1 + word_of_nat p \<and> hn_addr n = a" by auto
    then have "[] # cs = replicate (Suc p) [] @ (n # ns) # rest \<and>
        j = i + word_of_nat (Suc p) \<and> hn_addr n = a" by simp
    then have ex: "\<exists>p n ns rest. [] # cs = replicate p [] @ (n # ns) # rest \<and>
        j = i + word_of_nat p \<and> hn_addr n = a" by blast
    have "first_chain i ([] # cs) = Some (j, a)" using Some r by simp
    then show ?thesis using ex by (simp only: option.case prod.case)
  qed (use 2 in simp)
next
  case (3 i n ns cs)
  have "(n # ns) # cs = replicate 0 [] @ (n # ns) # cs \<and> i = i + word_of_nat 0 \<and> hn_addr n = hn_addr n"
    by simp
  then show ?case by (simp only: first_chain.simps option.case prod.case) blast
qed simp

lemma scan_begin_at:
  "hash_scan_begin scan h = Inr (s, h') \<Longrightarrow> h' = h \<and> scan_at s (h_table h)"
proof -
  assume E: "hash_scan_begin scan h = Inr (s, h')"
  show ?thesis
  proof (cases "first_chain 0 (h_table h)")
    case None
    with E show ?thesis
      using first_chain_spec [where i = 0 and t = "h_table h"]
      by (auto simp: hash_scan_begin_def run scan_at_def)
  next
    case (Some r)
    then obtain j a where r: "first_chain 0 (h_table h) = Some (j, a)" by (cases r) auto
    then have "\<exists>p n ns rest. h_table h = replicate p [] @ (n # ns) # rest \<and>
        j = word_of_nat p \<and> hn_addr n = a"
      using first_chain_spec [where i = 0 and t = "h_table h"] by simp
    moreover have "s = scan\<lparr>sc_chain := j, sc_next := Some a\<rparr>" "h' = h"
      using E r by (auto simp: hash_scan_begin_def run)
    ultimately show ?thesis by (simp add: scan_at_def)
  qed
qed

lemma node_at_head:
  "distinct (map hn_addr (concat t)) \<Longrightarrow> t = replicate p [] @ (n # ns) # rest \<Longrightarrow>
   node_at (hn_addr n) t = Some (n, case ns of [] \<Rightarrow> None | m # _ \<Rightarrow> Some (hn_addr m))"
proof (induction p arbitrary: t)
  case (Suc p)
  then show ?case by simp
qed simp

lemma remove_node_result:
  "remove_node n h = Inr (n', h') \<Longrightarrow>
   \<exists>c'. unlink (hn_addr n) (h_table h ! unat (hn_hkey n AND h_mask h)) = Inr c' \<and>
     h_table h' = (h_table h)[unat (hn_hkey n AND h_mask h) := c']"
  by (auto simp: remove_node_def run assert_verify_def arr_get_def split: sum.splits if_splits)

context hash_keys begin

text \<open>One round of \<^verbatim>\<open>hash_free_nodes\<close>: the first node of the table is taken off.\<close>

lemma free_step:
  assumes ok: "hash_ok cmp f V k h" and at: "scan_at scan (h_table h)" and a: "sc_next scan = Some a"
  shows "\<exists>n scan' h'. hash_scan_next scan h = Inr ((Some n, scan'), h) \<and>
    hash_scan_delete n h = Inr (n, h') \<and> hash_ok cmp f V k h' \<and> nodes h = n # nodes h' \<and>
    scan_at scan' (h_table h')"
proof -
  note d = hash_okD [OF ok]
  from at a obtain p n ns rest where t: "h_table h = replicate p [] @ (n # ns) # rest"
    and p: "sc_chain scan = word_of_nat p" and n: "hn_addr n = a"
    by (auto simp: scan_at_def)
  have dis: "distinct (map hn_addr (concat (h_table h)))"
    using d(5) by (simp add: nodes_ok_def nodes_def)
  have len: "length (h_table h) = 2 ^ k" "k \<le> 60"
    using table_ok_length [OF d(4)] d(3) by (simp_all add: marks_ok_def)
  have "length (h_table h) = p + Suc (length rest)" by (simp add: t)
  with len have plen: "p < 2 ^ k" by simp
  moreover have "(2 :: nat) ^ k \<le> 2 ^ 60" using len by (intro power_increasing) auto
  ultimately have "p + 1 < 2 ^ 64" by simp
  then have p1: "unat (word_of_nat p + 1 :: u64) = p + 1"
    by (intro of_nat_inverse) simp_all
  define scan' where "scan' = (case ns of
       m # _ \<Rightarrow> scan\<lparr>sc_next := Some (hn_addr m)\<rparr>
     | [] \<Rightarrow> (case first_chain (word_of_nat p + 1) rest of
         None \<Rightarrow> scan\<lparr>sc_next := None\<rparr>
       | Some (i, b) \<Rightarrow> scan\<lparr>sc_chain := i, sc_next := Some b\<rparr>))"
  have nxt: "hash_scan_next scan h = Inr ((Some n, scan'), h)"
    using node_at_head [OF dis t] a n p
    by (simp add: hash_scan_next_def run scan'_def p1 t split: list.split option.split prod.split)
  have mem: "n \<in> set (nodes h)" by (simp add: nodes_def t)
  from scan_delete_run [OF ok mem] obtain h' where h': "hash_scan_delete n h = Inr (n, h')"
    "hash_ok cmp f V k h'" by blast
  then have "remove_node n h = Inr (n, h')"
    using assert_found_run [OF ok mem] by (simp add: hash_scan_delete_def run)
  then obtain c' where c': "unlink (hn_addr n) (h_table h ! unat (hn_hkey n AND h_mask h)) = Inr c'"
    "h_table h' = (h_table h)[unat (hn_hkey n AND h_mask h) := c']"
    using remove_node_result by blast
  have "unat (hn_hkey n) mod 2 ^ k = p"
    using table_ok_chain [OF d(4) plen, of n] by (simp add: t nth_append)
  then have "unat (hn_hkey n AND h_mask h) = p"
    using d(3) by (simp add: marks_ok_def unat_and_mask)
  with c' have t': "h_table h' = replicate p [] @ ns # rest"
    by (simp add: t nth_append list_update_append)
  have "scan_at scan' (h_table h')"
  proof (cases ns)
    case (Cons m ms)
    then show ?thesis using p by (auto simp: scan_at_def scan'_def t')
  next
    case Nil
    show ?thesis
    proof (cases "first_chain (word_of_nat p + 1) rest")
      case None
      with first_chain_spec [where i = "word_of_nat p + 1" and t = rest] Nil show ?thesis
        by (simp add: scan_at_def scan'_def t')
    next
      case (Some r)
      then obtain i b where r: "r = (i, b)" by (cases r)
      with first_chain_spec [where i = "word_of_nat p + 1" and t = rest] Some obtain q m ms rest' where
        q: "rest = replicate q [] @ (m # ms) # rest'" "i = word_of_nat p + 1 + word_of_nat q" "hn_addr m = b"
        by auto
      then have "h_table h' = replicate (p + Suc q) [] @ (m # ms) # rest'"
        using Nil t' by (simp add: replicate_add replicate_append_same)
      then show ?thesis
        by (rule scan_atI) (use Some r Nil q in \<open>simp_all add: scan'_def\<close>)
    qed
  qed
  moreover have "nodes h = n # nodes h'" by (simp add: nodes_def t t')
  ultimately show ?thesis using nxt h' by blast
qed

lemma free_loop_run:
  "hash_ok cmp f V k h \<Longrightarrow> scan_at scan (h_table h) \<Longrightarrow> length (nodes h) < fuel \<Longrightarrow>
   \<exists>h'. free_loop fuel scan h = Inr (map hn_addr (nodes h), h') \<and> hash_ok cmp f V k h' \<and> nodes h' = []"
proof (induction fuel arbitrary: scan h)
  case (Suc fuel)
  show ?case
  proof (cases "sc_next scan")
    case None
    then have "nodes h = []" using Suc.prems(2) by (simp add: scan_at_def nodes_def)
    with None Suc.prems show ?thesis by (auto simp: hash_scan_next_def run)
  next
    case (Some a)
    from free_step [OF Suc.prems(1,2) this] obtain n scan' h1 where
      one: "hash_scan_next scan h = Inr ((Some n, scan'), h)" "hash_scan_delete n h = Inr (n, h1)"
        "hash_ok cmp f V k h1" "nodes h = n # nodes h1" "scan_at scan' (h_table h1)" by blast
    from Suc.IH [OF one(3,5)] Suc.prems(3) one(4) obtain h2 where
      "free_loop fuel scan' h1 = Inr (map hn_addr (nodes h1), h2)" "hash_ok cmp f V k h2" "nodes h2 = []"
      by auto
    with one show ?thesis by (auto simp: run)
  qed
qed simp

lemma free_nodes_run:
  assumes ok: "hash_ok cmp f V k h" and fuel: "length (nodes h) < fuel"
  shows "\<exists>h'. hash_free_nodes fuel h = Inr (map hn_addr (nodes h), h') \<and> hash_ok cmp f V k h' \<and>
    nodes h' = []"
proof -
  obtain scan where s: "hash_scan_begin \<lparr>sc_chain = 0, sc_next = None\<rparr> h = Inr (scan, h)"
    by (simp add: hash_scan_begin_def run)
  then have "scan_at scan (h_table h)" using scan_begin_at by blast
  from free_loop_run [OF ok this fuel] obtain h1 where
    h1: "free_loop fuel scan h = Inr (map hn_addr (nodes h), h1)" "hash_ok cmp f V k h1" "nodes h1 = []"
    by blast
  note d = hash_okD [OF h1(2)]
  define h2 where "h2 = h1\<lparr>h_nodecount := 0, h_table := replicate (unat (h_nchains h1)) []\<rparr>"
  have "unat (h_nchains h1) = 2 ^ k" using d(3) by (simp add: marks_ok_def unat_exp)
  then have "hash_ok cmp f V k h2 \<and> nodes h2 = []"
    using d by (simp add: hash_ok_def marks_ok_def table_ok_def nodes_ok_def nodes_def)
      (simp add: h2_def)
  moreover have "hash_free_nodes fuel h = Inr (map hn_addr (nodes h), h2)"
    using s h1 by (simp add: hash_free_nodes_def run clear_table_def h2_def)
  ultimately show ?thesis by blast
qed

end

text \<open>
  C27: \<^verbatim>\<open>hash_free_nodes\<close>, which deletes nodes while it scans the table, ends after one round per node
  and one more: it gives every node of a well-formed table to the allocator exactly once and
  leaves a valid empty table.
\<close>
theorem hash_free_nodes_ends:
  assumes "hash_wf hash_comp_default hash_fun_default c_string h" and "length (nodes h) < fuel"
  shows "\<exists>freed h'. hash_free_nodes fuel h = Inr (freed, h') \<and> distinct freed \<and>
    set freed = hn_addr ` set (nodes h) \<and> hash_isempty h' \<and> hash_verify h' \<and> hash_map h' = Map.empty"
proof -
  obtain k where ok: "hash_ok hash_comp_default hash_fun_default c_string k h"
    using assms(1) by (auto simp: hash_wf_def)
  from strings.free_nodes_run [OF ok assms(2)] obtain h' where
    h': "hash_free_nodes fuel h = Inr (map hn_addr (nodes h), h')"
      "hash_ok hash_comp_default hash_fun_default c_string k h'" "nodes h' = []" by blast
  have "hash_isempty h'" using hash_okD(6) [OF h'(2)] h'(3) by (simp add: hash_isempty_def)
  moreover have "hash_map h' = Map.empty" by (simp add: hash_map_def stored_def h'(3))
  moreover have "distinct (map hn_addr (nodes h))" using hash_okD(5) [OF ok] by (simp add: nodes_ok_def)
  ultimately show ?thesis using h' hash_verify_ok by fastforce
qed

theorem hash_free_nodes_ends_witness:
  "\<exists>(h :: (u8 list, int) hash) h'. hash_create 9 hash_comp_default hash_fun_default True True = Some h \<and>
     hash_free_nodes 1 h = Inr ([], h')"
proof -
  obtain h :: "(u8 list, int) hash" where
    h: "hash_create 9 hash_comp_default hash_fun_default True True = Some h"
    by (simp add: hash_create_def)
  have ok: "hash_ok hash_comp_default hash_fun_default c_string 6 h" "nodes h = []"
    using hash_create_ok [OF h] by auto
  from hash_free_nodes_ends [OF hash_wfI [OF ok(1)], of 1] ok(2) obtain freed h' where
    "hash_free_nodes 1 h = Inr (freed, h')" "set freed = {}" by auto
  with h show ?thesis by auto
qed

end
