(* ===== verification/Kazlib_List.thy ===== *)
theory Kazlib_List
  imports Kazlib_Hash
begin

text \<open>
  The doubly linked list of C-Pluff, \<^verbatim>\<open>lib/cpluff/kazlib/list.c\<close>, over an explicit store, and the
  sets of pointers that \<^verbatim>\<open>lib/cpluff/libcpluff/util.c\<close> keeps in such lists.

  \<^item> Addresses are natural numbers, 0 is the null pointer.  The store keeps the fields of every
    \<^verbatim>\<open>lnode_t\<close> apart, with \<open>lh_live\<close> saying which nodes are allocated; a use of another address is
    the fault \<open>DanglingPtr\<close>.  The address of a list is that of its \<^verbatim>\<open>nilnode\<close>, its first member.
  \<^item> \<^verbatim>\<open>malloc\<close> is an argument: the address it answers.
  \<^item> A loop over a damaged list may go on for ever.  The field \<open>lh_bound\<close> is the number of steps
    after which the model cuts a loop off; it changes nothing else.
  \<^item> \<^verbatim>\<open>unsigned long\<close> has 64 bits.  The accessors are the macros of \<^verbatim>\<open>list.h\<close>, as C-Pluff uses them.
\<close>

section \<open>The store\<close>

record 'd lheap =
  lh_live :: "nat \<Rightarrow> bool"
  lh_next :: "nat \<Rightarrow> nat"
  lh_prev :: "nat \<Rightarrow> nat"
  lh_data :: "nat \<Rightarrow> 'd option"
  lh_count :: "nat \<Rightarrow> u64"
  lh_max :: "nat \<Rightarrow> u64"
  lh_bound :: nat

definition touch :: "nat \<Rightarrow> ('d lheap, unit) prog" where
  "touch p = (\<lambda>h. if p = 0 then Inl NullDeref else if lh_live h p then Inr ((), h) else Inl DanglingPtr)"

definition get_next :: "nat \<Rightarrow> ('d lheap, nat) prog" where
  "get_next p = sq (touch p) (rd (\<lambda>h. lh_next h p))"

definition get_prev :: "nat \<Rightarrow> ('d lheap, nat) prog" where
  "get_prev p = sq (touch p) (rd (\<lambda>h. lh_prev h p))"

definition set_next :: "nat \<Rightarrow> nat \<Rightarrow> ('d lheap, unit) prog" where
  "set_next p q = sq (touch p) (upd (\<lambda>h. h\<lparr>lh_next := (lh_next h)(p := q)\<rparr>))"

definition set_prev :: "nat \<Rightarrow> nat \<Rightarrow> ('d lheap, unit) prog" where
  "set_prev p q = sq (touch p) (upd (\<lambda>h. h\<lparr>lh_prev := (lh_prev h)(p := q)\<rparr>))"

definition lnode_get :: "nat \<Rightarrow> ('d lheap, 'd) prog" where
  "lnode_get p = sq (touch p) (bnd (rd (\<lambda>h. lh_data h p)) (deref UnsetVar))"

definition lnode_put :: "nat \<Rightarrow> 'd \<Rightarrow> ('d lheap, unit) prog" where
  "lnode_put p d = sq (touch p) (upd (\<lambda>h. h\<lparr>lh_data := (lh_data h)(p := Some d)\<rparr>))"

definition list_count :: "nat \<Rightarrow> ('d lheap, u64) prog" where
  "list_count l = sq (touch l) (rd (\<lambda>h. lh_count h l))"

definition set_count :: "nat \<Rightarrow> u64 \<Rightarrow> ('d lheap, unit) prog" where
  "set_count l n = upd (\<lambda>h. h\<lparr>lh_count := (lh_count h)(l := n)\<rparr>)"

section \<open>Nodes\<close>

definition lnode_create :: "nat \<Rightarrow> 'd \<Rightarrow> ('d lheap, nat) prog" where
  "lnode_create a d =
     (if a = 0 then ret 0
      else sq (upd (\<lambda>h. h\<lparr>lh_live := (lh_live h)(a := True), lh_data := (lh_data h)(a := Some d),
             lh_next := (lh_next h)(a := 0), lh_prev := (lh_prev h)(a := 0)\<rparr>)) (ret a))"

definition lnode_init :: "nat \<Rightarrow> 'd \<Rightarrow> ('d lheap, nat) prog" where
  "lnode_init p d = sq (lnode_put p d) (sq (set_next p 0) (sq (set_prev p 0) (ret p)))"

definition lnode_is_in_a_list :: "nat \<Rightarrow> ('d lheap, bool) prog" where
  "lnode_is_in_a_list p = bnd (get_next p) (\<lambda>n. bnd (get_prev p) (\<lambda>q. ret (n \<noteq> 0 \<or> q \<noteq> 0)))"

definition free_node :: "nat \<Rightarrow> ('d lheap, unit) prog" where
  "free_node p = sq (touch p) (upd (\<lambda>h. h\<lparr>lh_live := (lh_live h)(p := False)\<rparr>))"

definition lnode_destroy :: "nat \<Rightarrow> ('d lheap, unit) prog" where
  "lnode_destroy p = bnd (lnode_is_in_a_list p) (\<lambda>b. sq (assert_p (\<not> b)) (free_node p))"

section \<open>Lists\<close>

definition list_init :: "nat \<Rightarrow> u64 \<Rightarrow> ('d lheap, nat) prog" where
  "list_init l n =
     sq (assert_p (n \<noteq> 0)) (sq (set_next l l) (sq (set_prev l l) (sq (set_count l 0)
       (sq (upd (\<lambda>h. h\<lparr>lh_max := (lh_max h)(l := n)\<rparr>)) (ret l)))))"

definition list_create :: "nat \<Rightarrow> u64 \<Rightarrow> ('d lheap, nat) prog" where
  "list_create a n =
     (if a = 0 then ret 0
      else sq (upd (\<lambda>h. h\<lparr>lh_live := (lh_live h)(a := True), lh_data := (lh_data h)(a := None)\<rparr>)) (list_init a n))"

definition list_isempty :: "nat \<Rightarrow> ('d lheap, bool) prog" where
  "list_isempty l = bnd (list_count l) (\<lambda>c. ret (c = 0))"

definition list_isfull :: "nat \<Rightarrow> ('d lheap, bool) prog" where
  "list_isfull l = bnd (list_count l) (\<lambda>c. bnd (rd (\<lambda>h. lh_max h l)) (\<lambda>m. ret (c = m)))"

definition list_destroy :: "nat \<Rightarrow> ('d lheap, unit) prog" where
  "list_destroy l = bnd (list_isempty l) (\<lambda>b. sq (assert_p b) (free_node l))"

definition list_next :: "nat \<Rightarrow> nat \<Rightarrow> ('d lheap, nat) prog" where
  "list_next l p = bnd (get_next p) (\<lambda>n. ret (if n = l then 0 else n))"

definition list_prev :: "nat \<Rightarrow> nat \<Rightarrow> ('d lheap, nat) prog" where
  "list_prev l p = bnd (get_prev p) (\<lambda>n. ret (if n = l then 0 else n))"

definition list_first :: "nat \<Rightarrow> ('d lheap, nat) prog" where
  "list_first l = list_next l l"

definition list_last :: "nat \<Rightarrow> ('d lheap, nat) prog" where
  "list_last l = list_prev l l"

fun contains_loop :: "nat \<Rightarrow> nat \<Rightarrow> nat \<Rightarrow> nat \<Rightarrow> ('d lheap, bool) prog" where
  "contains_loop 0 nil x n = err OutOfFuel"
| "contains_loop (Suc k) nil x n =
     (if n = nil then ret False
      else if x = n then ret True
      else bnd (get_next n) (contains_loop k nil x))"

definition list_contains :: "nat \<Rightarrow> nat \<Rightarrow> ('d lheap, bool) prog" where
  "list_contains l x = bnd (get_next l) (\<lambda>n. bnd (rd lh_bound) (\<lambda>k. contains_loop k l x n))"

text \<open>The assertions in front of an insertion.\<close>

definition ins_asserts :: "nat \<Rightarrow> nat \<Rightarrow> nat \<Rightarrow> ('d lheap, unit) prog" where
  "ins_asserts l new this =
     sq (assert_p (new \<noteq> 0))
       (bnd (list_contains l new) (\<lambda>b. sq (assert_p (\<not> b))
       (bnd (lnode_is_in_a_list new) (\<lambda>i. sq (assert_p (\<not> i))
       (bnd (if this = l then ret True else list_contains l this) (\<lambda>t. sq (assert_p t)
       (bnd (list_count l) (\<lambda>c. assert_p (c + 1 > c)))))))))"

text \<open>Counting a new node, with the assertion behind an insertion.\<close>

definition count_node :: "nat \<Rightarrow> ('d lheap, unit) prog" where
  "count_node l =
     bnd (list_count l) (\<lambda>c. sq (set_count l (c + 1))
       (bnd (rd (\<lambda>h. lh_max h l)) (\<lambda>m. assert_p (c + 1 \<le> m))))"

definition list_ins_after :: "nat \<Rightarrow> nat \<Rightarrow> nat \<Rightarrow> ('d lheap, unit) prog" where
  "list_ins_after l new this =
     bnd (get_next this) (\<lambda>that.
     sq (ins_asserts l new this)
       (sq (set_prev new this) (sq (set_next new that) (sq (set_prev that new) (sq (set_next this new)
       (count_node l))))))"

definition list_ins_before :: "nat \<Rightarrow> nat \<Rightarrow> nat \<Rightarrow> ('d lheap, unit) prog" where
  "list_ins_before l new this =
     bnd (get_prev this) (\<lambda>that.
     sq (ins_asserts l new this)
       (sq (set_next new this) (sq (set_prev new that) (sq (set_next that new) (sq (set_prev this new)
       (count_node l))))))"

definition list_append :: "nat \<Rightarrow> nat \<Rightarrow> ('d lheap, unit) prog" where
  "list_append l p = list_ins_before l p l"

definition list_prepend :: "nat \<Rightarrow> nat \<Rightarrow> ('d lheap, unit) prog" where
  "list_prepend l p = list_ins_after l p l"

definition list_delete :: "nat \<Rightarrow> nat \<Rightarrow> ('d lheap, nat) prog" where
  "list_delete l del =
     bnd (get_next del) (\<lambda>n.
     bnd (get_prev del) (\<lambda>p.
     bnd (list_contains l del) (\<lambda>b. sq (assert_p b)
       (sq (set_next p n) (sq (set_prev n p)
         (bnd (list_count l) (\<lambda>c. sq (set_count l (c - 1))
           (sq (set_prev del 0) (sq (set_next del 0) (ret del))))))))))"

definition list_del_first :: "nat \<Rightarrow> ('d lheap, nat) prog" where
  "list_del_first l = bnd (list_first l) (list_delete l)"

definition list_del_last :: "nat \<Rightarrow> ('d lheap, nat) prog" where
  "list_del_last l = bnd (list_last l) (list_delete l)"

section \<open>Loops over all nodes\<close>

fun destroy_loop :: "nat \<Rightarrow> nat \<Rightarrow> nat \<Rightarrow> ('d lheap, unit) prog" where
  "destroy_loop 0 nil p = err OutOfFuel"
| "destroy_loop (Suc k) nil p =
     (if p = nil then ret ()
      else
        bnd (get_next p) (\<lambda>tmp.
        sq (set_next p 0) (sq (set_prev p 0) (sq (lnode_destroy p) (destroy_loop k nil tmp)))))"

definition list_destroy_nodes :: "nat \<Rightarrow> ('d lheap, unit) prog" where
  "list_destroy_nodes l =
     bnd (get_next l) (\<lambda>p. bnd (rd lh_bound) (\<lambda>k.
     sq (destroy_loop k l p)
       (bnd (rd (\<lambda>h. lh_max h l)) (\<lambda>m. sq (list_init l m) (ret ())))))"

text \<open>\<open>f\<close> is the callback with its context, called with the list and a node.\<close>

fun process_loop :: "nat \<Rightarrow> nat \<Rightarrow> (nat \<Rightarrow> nat \<Rightarrow> ('d lheap, unit) prog) \<Rightarrow> nat \<Rightarrow> ('d lheap, unit) prog" where
  "process_loop 0 l f p = err OutOfFuel"
| "process_loop (Suc k) l f p =
     (if p = l then ret ()
      else
        bnd (list_contains l p) (\<lambda>b. sq (assert_p b)
          (bnd (get_next p) (\<lambda>n. sq (f l p) (process_loop k l f n)))))"

definition list_process :: "nat \<Rightarrow> (nat \<Rightarrow> nat \<Rightarrow> ('d lheap, unit) prog) \<Rightarrow> ('d lheap, unit) prog" where
  "list_process l f = bnd (get_next l) (\<lambda>p. bnd (rd lh_bound) (\<lambda>k. process_loop k l f p))"

fun find_node_loop :: "nat \<Rightarrow> nat \<Rightarrow> 'd \<Rightarrow> ('d \<Rightarrow> 'd \<Rightarrow> int) \<Rightarrow> nat \<Rightarrow> ('d lheap, nat) prog" where
  "find_node_loop 0 nil key cmp p = err OutOfFuel"
| "find_node_loop (Suc k) nil key cmp p =
     (if p = nil then ret 0
      else
        bnd (lnode_get p) (\<lambda>d.
        if cmp d key = 0 then ret p else bnd (get_next p) (find_node_loop k nil key cmp)))"

definition list_find :: "nat \<Rightarrow> 'd \<Rightarrow> ('d \<Rightarrow> 'd \<Rightarrow> int) \<Rightarrow> ('d lheap, nat) prog" where
  "list_find l key cmp = bnd (get_next l) (\<lambda>p. bnd (rd lh_bound) (\<lambda>k. find_node_loop k l key cmp p))"

fun sorted_loop :: "nat \<Rightarrow> nat \<Rightarrow> ('d \<Rightarrow> 'd \<Rightarrow> int) \<Rightarrow> nat \<Rightarrow> nat \<Rightarrow> ('d lheap, bool) prog" where
  "sorted_loop 0 nil cmp p n = err OutOfFuel"
| "sorted_loop (Suc k) nil cmp p n =
     (if n = nil then ret True
      else
        bnd (lnode_get p) (\<lambda>d1. bnd (lnode_get n) (\<lambda>d2.
        if cmp d1 d2 > 0 then ret False
        else bnd (get_next n) (\<lambda>m. sorted_loop k nil cmp n m))))"

definition list_is_sorted :: "nat \<Rightarrow> ('d \<Rightarrow> 'd \<Rightarrow> int) \<Rightarrow> ('d lheap, bool) prog" where
  "list_is_sorted l cmp =
     bnd (get_next l) (\<lambda>p.
     bnd (if p \<noteq> l then get_next p else ret l) (\<lambda>n.
     bnd (rd lh_bound) (\<lambda>k. sorted_loop k l cmp p n)))"

text \<open>
  The loop of \<^verbatim>\<open>list_verify\<close>, \<open>c\<close> its counter: all links are sound, and the nodes end where the
  count does.
\<close>

fun verify_loop :: "nat \<Rightarrow> nat \<Rightarrow> nat \<Rightarrow> ('d lheap, bool) prog" where
  "verify_loop 0 nil p = ret (p = nil)"
| "verify_loop (Suc c) nil p =
     (if p = nil then ret False
      else
        bnd (get_next p) (\<lambda>n.
        bnd (get_prev n) (\<lambda>q.
        if q \<noteq> p then ret False else verify_loop c nil n)))"

definition list_verify :: "nat \<Rightarrow> ('d lheap, bool) prog" where
  "list_verify l =
     bnd (get_next l) (\<lambda>p.
     bnd (list_count l) (\<lambda>c.
     bnd (get_prev p) (\<lambda>q.
     if q \<noteq> l then ret False
     else
       bnd (rd (\<lambda>h. lh_max h l)) (\<lambda>m.
       if c > m then ret False else verify_loop (unat c) l p))))"

section \<open>Moving nodes between lists\<close>

text \<open>Counting the nodes from \<open>first\<close> to \<open>last\<close>, one for \<open>first\<close> itself.\<close>

fun count_moved :: "nat \<Rightarrow> nat \<Rightarrow> nat \<Rightarrow> u64 \<Rightarrow> ('d lheap, u64) prog" where
  "count_moved 0 fin p moved = err OutOfFuel"
| "count_moved (Suc k) fin p moved =
     (if p = fin then ret moved else bnd (get_next p) (\<lambda>n. count_moved k fin n (moved + 1)))"

definition move_counts :: "nat \<Rightarrow> nat \<Rightarrow> u64 \<Rightarrow> ('d lheap, unit) prog" where
  "move_counts dest source moved =
     bnd (list_count source) (\<lambda>s.
     bnd (list_count dest) (\<lambda>d.
     sq (assert_p (s - moved \<le> s))
       (sq (assert_p (d + moved \<ge> d))
         (sq (assert_p (moved \<le> s))
           (sq (set_count source (s - moved))
             (bnd (list_count dest) (\<lambda>d2. sq (set_count dest (d2 + moved))
               (bnd (list_verify source) (\<lambda>v. sq (assert_p v)
                 (bnd (list_verify dest) (\<lambda>w. assert_p w)))))))))))"

definition list_transfer :: "nat \<Rightarrow> nat \<Rightarrow> nat \<Rightarrow> ('d lheap, unit) prog" where
  "list_transfer dest source first =
     bnd (if first = 0 then ret True else list_contains source first) (\<lambda>b. sq (assert_p b)
       (if first = 0 then ret ()
        else
          bnd (get_prev source) (\<lambda>last_n.
          bnd (get_prev first) (\<lambda>p.
          sq (set_prev source p) (sq (set_next p source)
            (sq (set_next last_n dest)
              (bnd (get_prev dest) (\<lambda>q. sq (set_prev first q) (sq (set_next q first)
                (sq (set_prev dest last_n)
                  (bnd (rd lh_bound) (\<lambda>k.
                   bnd (count_moved k last_n first 1) (move_counts dest source)))))))))))))"

fun slice_moved :: "nat \<Rightarrow> nat \<Rightarrow> nat \<Rightarrow> nat \<Rightarrow> u64 \<Rightarrow> ('d lheap, u64) prog" where
  "slice_moved 0 nil fin p moved = err OutOfFuel"
| "slice_moved (Suc k) nil fin p moved =
     (if p = fin then ret moved
      else bnd (get_next p) (\<lambda>n. sq (assert_p (n \<noteq> nil)) (slice_moved k nil fin n (moved + 1))))"

definition list_extract :: "nat \<Rightarrow> nat \<Rightarrow> nat \<Rightarrow> nat \<Rightarrow> ('d lheap, unit) prog" where
  "list_extract dest source first last_n =
     bnd (if first = 0 then ret True else list_contains source first) (\<lambda>b. sq (assert_p b)
       (bnd (if last_n = 0 then ret True else list_contains source last_n) (\<lambda>c. sq (assert_p c)
         (if first = 0 \<or> last_n = 0 then ret ()
          else
            bnd (get_next last_n) (\<lambda>n.
            bnd (get_prev first) (\<lambda>p.
            sq (set_next p n) (sq (set_prev n p)
              (sq (set_next last_n dest)
                (bnd (get_prev dest) (\<lambda>q. sq (set_prev first q) (sq (set_next q first)
                  (sq (set_prev dest last_n)
                    (bnd (rd lh_bound) (\<lambda>k.
                     bnd (slice_moved k source last_n first 1) (move_counts dest source)))))))))))))))"

fun merge_loop ::
  "nat \<Rightarrow> nat \<Rightarrow> nat \<Rightarrow> ('d \<Rightarrow> 'd \<Rightarrow> int) \<Rightarrow> nat \<Rightarrow> nat \<Rightarrow> ('d lheap, nat \<times> nat) prog" where
  "merge_loop 0 dest sour cmp dn sn = err OutOfFuel"
| "merge_loop (Suc k) dest sour cmp dn sn =
     (if dn = dest \<or> sn = sour then ret (dn, sn)
      else
        bnd (lnode_get dn) (\<lambda>a. bnd (lnode_get sn) (\<lambda>b.
        if cmp a b \<ge> 0
        then
          bnd (get_next sn) (\<lambda>tn.
          sq (list_delete sour sn) (sq (list_ins_before dest sn dn) (merge_loop k dest sour cmp dn tn)))
        else bnd (get_next dn) (\<lambda>n. merge_loop k dest sour cmp n sn))))"

definition list_merge :: "nat \<Rightarrow> nat \<Rightarrow> ('d \<Rightarrow> 'd \<Rightarrow> int) \<Rightarrow> ('d lheap, unit) prog" where
  "list_merge dest sour cmp =
     (if dest = sour then ret ()
      else
        bnd (list_count sour) (\<lambda>s. bnd (list_count dest) (\<lambda>d. sq (assert_p (s + d \<ge> s))
          (bnd (list_is_sorted sour cmp) (\<lambda>b. sq (assert_p b)
            (bnd (list_is_sorted dest cmp) (\<lambda>c. sq (assert_p c)
              (bnd (get_next dest) (\<lambda>dn. bnd (get_next sour) (\<lambda>sn. bnd (rd lh_bound) (\<lambda>k.
               bnd (merge_loop k dest sour cmp dn sn) (\<lambda>(dn', sn').
               if dn' \<noteq> dest then ret ()
               else if sn' \<noteq> sour then list_transfer dest sour sn' else ret ()))))))))))))"

section \<open>Sorting\<close>

fun advance :: "nat \<Rightarrow> nat \<Rightarrow> ('d lheap, nat) prog" where
  "advance 0 p = ret p"
| "advance (Suc n) p = bnd (get_next p) (advance n)"

text \<open>
  The variable \<^verbatim>\<open>extra\<close> of the activation at depth \<open>i\<close> stands at the address \<open>frame i\<close> of the
  stack, and is gone when the activation ends.
\<close>

definition enter_frame :: "nat \<Rightarrow> ('d lheap, unit) prog" where
  "enter_frame a = upd (\<lambda>h. h\<lparr>lh_live := (lh_live h)(a := True), lh_data := (lh_data h)(a := None)\<rparr>)"

definition leave_frame :: "nat \<Rightarrow> ('d lheap, unit) prog" where
  "leave_frame a = upd (\<lambda>h. h\<lparr>lh_live := (lh_live h)(a := False)\<rparr>)"

fun sort_at :: "nat \<Rightarrow> (nat \<Rightarrow> nat) \<Rightarrow> nat \<Rightarrow> ('d \<Rightarrow> 'd \<Rightarrow> int) \<Rightarrow> nat \<Rightarrow> ('d lheap, unit) prog" where
  "sort_at 0 frame i cmp l = err OutOfFuel"
| "sort_at (Suc k) frame i cmp l =
     bnd (list_count l) (\<lambda>c.
     sq (when_p (c > 1)
          (bnd (get_next l) (\<lambda>first.
           sq (enter_frame (frame i))
             (sq (list_init (frame i) (c - c div 2))
               (bnd (advance (unat (c div 2)) first) (\<lambda>p.
                sq (list_transfer (frame i) l p)
                  (sq (sort_at k frame (Suc i) cmp l)
                    (sq (sort_at k frame (Suc i) cmp (frame i))
                      (sq (list_merge l (frame i) cmp) (leave_frame (frame i)))))))))))
       (bnd (list_is_sorted l cmp) assert_p))"

definition list_sort :: "(nat \<Rightarrow> nat) \<Rightarrow> nat \<Rightarrow> ('d \<Rightarrow> 'd \<Rightarrow> int) \<Rightarrow> ('d lheap, unit) prog" where
  "list_sort frame l cmp = bnd (rd lh_bound) (\<lambda>k. sort_at k frame 0 cmp l)"

section \<open>Node pools\<close>

text \<open>
  A pool hands out the nodes of one array.  An \<^verbatim>\<open>lnode_t\<close> has 24 bytes, so element \<open>i\<close> of the array at
  \<open>b\<close> stands at \<open>b + 24 i\<close>.  The pool itself is a value that the operations take and return.
\<close>

record lnodepool =
  pl_pool :: nat
  pl_fre :: nat
  pl_size :: u64

definition elem_at :: "nat \<Rightarrow> nat \<Rightarrow> nat" where
  "elem_at b i = b + 24 * i"

text \<open>The addresses of the first \<open>k\<close> elements.\<close>

definition in_block :: "nat \<Rightarrow> nat \<Rightarrow> nat \<Rightarrow> bool" where
  "in_block b k x \<longleftrightarrow> b \<le> x \<and> x < b + 24 * k \<and> (x - b) mod 24 = 0"

fun pool_link :: "nat \<Rightarrow> nat \<Rightarrow> nat \<Rightarrow> ('d lheap, unit) prog" where
  "pool_link b 0 i = ret ()"
| "pool_link b (Suc k) i = sq (set_next (elem_at b i) (elem_at b (i + 1))) (pool_link b k (i + 1))"

definition lnode_pool_init :: "nat \<Rightarrow> u64 \<Rightarrow> ('d lheap, lnodepool) prog" where
  "lnode_pool_init b n =
     sq (assert_p (n \<noteq> 0)) (sq (pool_link b (unat (n - 1)) 0)
       (sq (set_next (elem_at b (unat (n - 1))) 0) (sq (set_prev (elem_at b (unat (n - 1))) b)
         (ret \<lparr>pl_pool = b, pl_fre = b, pl_size = n\<rparr>))))"

text \<open>\<open>a\<close> and \<open>b\<close> are what the two calls of \<^verbatim>\<open>malloc\<close> answer; the second gets \<^verbatim>\<open>n * sizeof *nodes\<close>, which wraps.\<close>

definition lnode_pool_create :: "nat \<Rightarrow> nat \<Rightarrow> u64 \<Rightarrow> ('d lheap, lnodepool option) prog" where
  "lnode_pool_create a b n =
     sq (assert_p (n \<noteq> 0))
       (if a = 0 \<or> b = 0 then ret None
        else
          sq (upd (\<lambda>h. h\<lparr>lh_live := (\<lambda>x. lh_live h x \<or> in_block b (unat (n * 24) div 24) x)\<rparr>))
            (bnd (lnode_pool_init b n) (\<lambda>p. ret (Some p))))"

fun isfrom_loop :: "nat \<Rightarrow> nat \<Rightarrow> nat \<Rightarrow> nat \<Rightarrow> bool" where
  "isfrom_loop 0 b i n = False"
| "isfrom_loop (Suc k) b i n = (if elem_at b i = n then True else isfrom_loop k b (i + 1) n)"

definition lnode_pool_isfrom :: "lnodepool \<Rightarrow> nat \<Rightarrow> bool" where
  "lnode_pool_isfrom p n = isfrom_loop (unat (pl_size p)) (pl_pool p) 0 n"

definition lnode_pool_isempty :: "lnodepool \<Rightarrow> bool" where
  "lnode_pool_isempty p \<longleftrightarrow> pl_fre p = 0"

definition lnode_pool_destroy :: "lnodepool \<Rightarrow> ('d lheap, unit) prog" where
  "lnode_pool_destroy p =
     upd (\<lambda>h. h\<lparr>lh_live := (\<lambda>x. lh_live h x \<and> \<not> in_block (pl_pool p) (unat (pl_size p)) x)\<rparr>)"

definition lnode_borrow :: "lnodepool \<Rightarrow> 'd \<Rightarrow> ('d lheap, nat \<times> lnodepool) prog" where
  "lnode_borrow p d =
     (if pl_fre p = 0 then ret (0, p)
      else
        bnd (get_next (pl_fre p)) (\<lambda>n.
        bnd (lnode_init (pl_fre p) d) (\<lambda>new. ret (new, p\<lparr>pl_fre := n\<rparr>))))"

definition lnode_return :: "lnodepool \<Rightarrow> nat \<Rightarrow> ('d lheap, lnodepool) prog" where
  "lnode_return p n =
     sq (assert_p (lnode_pool_isfrom p n))
       (bnd (lnode_is_in_a_list n) (\<lambda>b. sq (assert_p (\<not> b))
         (sq (set_next n (pl_fre p)) (sq (set_prev n n) (ret (p\<lparr>pl_fre := n\<rparr>))))))"

fun return_loop :: "nat \<Rightarrow> nat \<Rightarrow> lnodepool \<Rightarrow> nat \<Rightarrow> ('d lheap, lnodepool) prog" where
  "return_loop 0 nil pool p = err OutOfFuel"
| "return_loop (Suc k) nil pool p =
     (if p = nil then ret pool
      else
        bnd (get_next p) (\<lambda>tmp.
        sq (set_next p 0) (sq (set_prev p 0)
          (bnd (lnode_return pool p) (\<lambda>pool'. return_loop k nil pool' tmp)))))"

definition list_return_nodes :: "nat \<Rightarrow> lnodepool \<Rightarrow> ('d lheap, lnodepool) prog" where
  "list_return_nodes l pool =
     bnd (get_next l) (\<lambda>p. bnd (rd lh_bound) (\<lambda>k.
     bnd (return_loop k l pool p) (\<lambda>pool'.
     bnd (rd (\<lambda>h. lh_max h l)) (\<lambda>m. sq (list_init l m) (ret pool')))))"

section \<open>Sets of pointers\<close>

text \<open>\<^verbatim>\<open>cpi_ptrset_add\<close> and its companions in \<^verbatim>\<open>util.c\<close>; \<open>a\<close> is the address \<^verbatim>\<open>lnode_create\<close> gets.\<close>

definition cpi_ptrset_contains :: "nat \<Rightarrow> u64 \<Rightarrow> (u64 lheap, bool) prog" where
  "cpi_ptrset_contains l p = bnd (list_find l p cpi_comp_ptr) (\<lambda>n. ret (n \<noteq> 0))"

definition cpi_ptrset_add :: "nat \<Rightarrow> nat \<Rightarrow> u64 \<Rightarrow> (u64 lheap, bool) prog" where
  "cpi_ptrset_add a l p =
     bnd (cpi_ptrset_contains l p) (\<lambda>b.
     if b then ret True
     else
       bnd (lnode_create a p) (\<lambda>n.
       if n = 0 then ret False else sq (list_append l n) (ret True)))"

definition cpi_ptrset_remove :: "nat \<Rightarrow> u64 \<Rightarrow> (u64 lheap, bool) prog" where
  "cpi_ptrset_remove l p =
     bnd (list_find l p cpi_comp_ptr) (\<lambda>n.
     if n \<noteq> 0 then sq (list_delete l n) (sq (lnode_destroy n) (ret True)) else ret False)"

end
