(* ===== verification/Kazlib_List_Inv.thy ===== *)
theory Kazlib_List_Inv
  imports Kazlib_List
begin

text \<open>
  What a list in the store represents: \<open>is_list h l xs\<close> says that the list at address \<open>l\<close> consists of
  the nodes \<open>xs\<close>.  One equation per operation runs it on such a list, and one lemma says which
  sequence the list represents afterwards.
\<close>

section \<open>Segments\<close>

text \<open>\<open>dl nx pv p xs q\<close>: from \<open>p\<close> through the nodes \<open>xs\<close> to \<open>q\<close>, linked in both directions.\<close>

fun dl :: "(nat \<Rightarrow> nat) \<Rightarrow> (nat \<Rightarrow> nat) \<Rightarrow> nat \<Rightarrow> nat list \<Rightarrow> nat \<Rightarrow> bool" where
  "dl nx pv p [] q \<longleftrightarrow> nx p = q \<and> pv q = p"
| "dl nx pv p (x # xs) q \<longleftrightarrow> nx p = x \<and> pv x = p \<and> dl nx pv x xs q"

lemma dl_append: "dl nx pv p (xs @ y # ys) q \<longleftrightarrow> dl nx pv p xs y \<and> dl nx pv y ys q"
  by (induction xs arbitrary: p) auto

lemma dl_next_upd [simp]: "u \<noteq> p \<Longrightarrow> u \<notin> set xs \<Longrightarrow> dl (nx(u := v)) pv p xs q = dl nx pv p xs q"
  by (induction xs arbitrary: p) auto

lemma dl_prev_upd [simp]: "u \<noteq> q \<Longrightarrow> u \<notin> set xs \<Longrightarrow> dl nx (pv(u := v)) p xs q = dl nx pv p xs q"
  by (induction xs arbitrary: p) auto

lemma dl_cong:
  "(\<And>x. x \<in> set (p # xs) \<Longrightarrow> nx' x = nx x) \<Longrightarrow> (\<And>x. x \<in> set (q # xs) \<Longrightarrow> pv' x = pv x) \<Longrightarrow>
   dl nx' pv' p xs q = dl nx pv p xs q"
  by (induction xs arbitrary: p) auto

lemma dl_first: "dl nx pv p xs q \<Longrightarrow> nx p = hd (xs @ [q])"
  by (cases xs) auto

lemma dl_last: "dl nx pv p xs q \<Longrightarrow> pv q = last (p # xs)"
  by (induction xs arbitrary: p) auto

section \<open>Lists in the store\<close>

definition is_list :: "'d lheap \<Rightarrow> nat \<Rightarrow> nat list \<Rightarrow> bool" where
  "is_list h l xs \<longleftrightarrow> distinct (l # xs) \<and> 0 \<notin> set (l # xs) \<and> (\<forall>x \<in> set (l # xs). lh_live h x) \<and>
     dl (lh_next h) (lh_prev h) l xs l \<and> lh_count h l = of_nat (length xs) \<and>
     length xs \<le> unat (lh_max h l) \<and> length xs < lh_bound h"

definition is_free :: "'d lheap \<Rightarrow> nat \<Rightarrow> bool" where
  "is_free h p \<longleftrightarrow> p \<noteq> 0 \<and> lh_live h p \<and> lh_next h p = 0 \<and> lh_prev h p = 0"

lemma is_listD:
  assumes "is_list h l xs"
  shows "l \<noteq> 0" "lh_live h l" "l \<notin> set xs" "distinct xs" "0 \<notin> set xs" "x \<in> set xs \<Longrightarrow> lh_live h x"
    "dl (lh_next h) (lh_prev h) l xs l" "lh_count h l = of_nat (length xs)"
    "length xs \<le> unat (lh_max h l)" "length xs < lh_bound h"
  using assms by (auto simp: is_list_def)

lemma list_length: "is_list h l xs \<Longrightarrow> length xs < 2 ^ 64"
  using is_listD(9) [of h l xs] unsigned_less [of "lh_max h l", where 'a = nat] by simp

lemma unat_length: "length xs < 2 ^ 64 \<Longrightarrow> unat (of_nat (length xs) :: u64) = length xs"
  by (simp add: unat_of_nat take_bit_nat_eq_self_iff)

lemma count_unat: "is_list h l xs \<Longrightarrow> unat (lh_count h l) = length xs"
  using list_length [of h l xs] is_listD(8) [of h l xs] by (simp add: unat_length)

lemma count_eq: "is_list h l xs \<Longrightarrow> lh_count h l = 0 \<longleftrightarrow> xs = []"
  using count_unat [of h l xs] by (auto simp: unat_eq_zero)

text \<open>Other lists do not notice a change outside them.\<close>

lemma is_list_cong:
  assumes "is_list h l xs" and "\<And>x. x \<in> set (l # xs) \<Longrightarrow> lh_next h' x = lh_next h x"
    and "\<And>x. x \<in> set (l # xs) \<Longrightarrow> lh_prev h' x = lh_prev h x"
    and "\<And>x. x \<in> set (l # xs) \<Longrightarrow> lh_live h' x = lh_live h x"
    and "lh_count h' l = lh_count h l" and "lh_max h' l = lh_max h l" and "lh_bound h' = lh_bound h"
  shows "is_list h' l xs"
  using assms dl_cong [of l xs "lh_next h'" "lh_next h" l "lh_prev h'" "lh_prev h"] by (auto simp: is_list_def)

named_theorems list_run

lemma get_next_run [list_run]: "p \<noteq> 0 \<Longrightarrow> lh_live h p \<Longrightarrow> get_next p h = Inr (lh_next h p, h)"
  by (simp add: get_next_def touch_def run)

lemma get_prev_run [list_run]: "p \<noteq> 0 \<Longrightarrow> lh_live h p \<Longrightarrow> get_prev p h = Inr (lh_prev h p, h)"
  by (simp add: get_prev_def touch_def run)

lemma set_next_run [list_run]:
  "p \<noteq> 0 \<Longrightarrow> lh_live h p \<Longrightarrow> set_next p q h = Inr ((), h\<lparr>lh_next := (lh_next h)(p := q)\<rparr>)"
  by (simp add: set_next_def touch_def run)

lemma set_prev_run [list_run]:
  "p \<noteq> 0 \<Longrightarrow> lh_live h p \<Longrightarrow> set_prev p q h = Inr ((), h\<lparr>lh_prev := (lh_prev h)(p := q)\<rparr>)"
  by (simp add: set_prev_def touch_def run)

lemma set_count_run [list_run]: "set_count l n h = Inr ((), h\<lparr>lh_count := (lh_count h)(l := n)\<rparr>)"
  by (simp add: set_count_def run)

lemma list_count_run [list_run]: "l \<noteq> 0 \<Longrightarrow> lh_live h l \<Longrightarrow> list_count l h = Inr (lh_count h l, h)"
  by (simp add: list_count_def touch_def run)

lemma lnode_get_run [list_run]:
  "p \<noteq> 0 \<Longrightarrow> lh_live h p \<Longrightarrow> lh_data h p = Some d \<Longrightarrow> lnode_get p h = Inr (d, h)"
  by (simp add: lnode_get_def touch_def run)

lemma contains_loop_run:
  "dl (lh_next h) (lh_prev h) p xs l \<Longrightarrow> l \<notin> set xs \<Longrightarrow> 0 \<notin> set xs \<Longrightarrow> \<forall>x \<in> set xs. lh_live h x \<Longrightarrow>
   length xs < k \<Longrightarrow> contains_loop k l y (hd (xs @ [l])) h = Inr (y \<in> set xs, h)"
proof (induction xs arbitrary: p k)
  case Nil
  then show ?case by (cases k) (simp_all add: run)
next
  case (Cons x xs)
  then obtain j where k: "k = Suc j" "length xs < j" by (cases k) auto
  from Cons.prems have x: "x \<noteq> 0" "lh_live h x" "lh_next h x = hd (xs @ [l])" "x \<noteq> l"
    by (auto dest: dl_first)
  have "contains_loop j l y (hd (xs @ [l])) h = Inr (y \<in> set xs, h)"
    using Cons.prems k(2) by (intro Cons.IH) auto
  with x k(1) show ?case by (auto simp: run list_run)
qed

lemma contains_run [list_run]: "is_list h l xs \<Longrightarrow> list_contains l y h = Inr (y \<in> set xs, h)"
  using contains_loop_run [of h l xs l "lh_bound h" y] dl_first [of "lh_next h" "lh_prev h" l xs l]
  by (simp add: list_contains_def run list_run is_list_def)

lemma find_loop_run:
  "dl (lh_next h) (lh_prev h) p xs l \<Longrightarrow> l \<notin> set xs \<Longrightarrow> 0 \<notin> set xs \<Longrightarrow> \<forall>x \<in> set xs. lh_live h x \<Longrightarrow>
   \<forall>x \<in> set xs. lh_data h x = Some (D x) \<Longrightarrow> length xs < k \<Longrightarrow>
   find_node_loop k l key cmp (hd (xs @ [l])) h =
     Inr (case find (\<lambda>x. cmp (D x) key = 0) xs of None \<Rightarrow> 0 | Some x \<Rightarrow> x, h)"
proof (induction xs arbitrary: p k)
  case Nil
  then show ?case by (cases k) (simp_all add: run)
next
  case (Cons x xs)
  then obtain j where k: "k = Suc j" "length xs < j" by (cases k) auto
  from Cons.prems have x: "x \<noteq> 0" "lh_live h x" "lh_next h x = hd (xs @ [l])" "x \<noteq> l" "lh_data h x = Some (D x)"
    by (auto dest: dl_first)
  have "find_node_loop j l key cmp (hd (xs @ [l])) h =
      Inr (case find (\<lambda>x. cmp (D x) key = 0) xs of None \<Rightarrow> 0 | Some x \<Rightarrow> x, h)"
    using Cons.prems k(2) by (intro Cons.IH) auto
  with x k(1) show ?case by (auto simp: run list_run)
qed

lemma find_run [list_run]:
  "is_list h l xs \<Longrightarrow> \<forall>x \<in> set xs. lh_data h x = Some (D x) \<Longrightarrow>
   list_find l key cmp h = Inr (case find (\<lambda>x. cmp (D x) key = 0) xs of None \<Rightarrow> 0 | Some x \<Rightarrow> x, h)"
  using find_loop_run [of h l xs l D "lh_bound h" key cmp] dl_first [of "lh_next h" "lh_prev h" l xs l]
  by (simp add: list_find_def run list_run is_list_def)

text \<open>The test \<^verbatim>\<open>list_is_sorted\<close> makes: neighbours are in order.\<close>

fun in_order :: "('d \<Rightarrow> 'd \<Rightarrow> int) \<Rightarrow> 'd list \<Rightarrow> bool" where
  "in_order cmp (d # e # ds) \<longleftrightarrow> cmp d e \<le> 0 \<and> in_order cmp (e # ds)"
| "in_order cmp ds \<longleftrightarrow> True"

lemma sorted_loop_run:
  "dl (lh_next h) (lh_prev h) p xs l \<Longrightarrow> l \<notin> set (p # xs) \<Longrightarrow> 0 \<notin> set (p # xs) \<Longrightarrow> \<forall>x \<in> set (p # xs). lh_live h x \<Longrightarrow>
   \<forall>x \<in> set (p # xs). lh_data h x = Some (D x) \<Longrightarrow> length xs < k \<Longrightarrow>
   sorted_loop k l cmp p (hd (xs @ [l])) h = Inr (in_order cmp (map D (p # xs)), h)"
proof (induction xs arbitrary: p k)
  case Nil
  then show ?case by (cases k) (simp_all add: run)
next
  case (Cons x xs)
  then obtain j where k: "k = Suc j" "length xs < j" by (cases k) auto
  from Cons.prems have x: "x \<noteq> 0" "lh_live h x" "lh_next h x = hd (xs @ [l])" "x \<noteq> l" "lh_data h x = Some (D x)"
    by (auto dest: dl_first)
  have "sorted_loop j l cmp x (hd (xs @ [l])) h = Inr (in_order cmp (map D (x # xs)), h)"
    using Cons.prems k(2) by (intro Cons.IH) auto
  with x k(1) Cons.prems show ?case by (auto simp: run list_run)
qed

lemma is_sorted_run [list_run]:
  assumes "is_list h l xs" and "\<forall>x \<in> set xs. lh_data h x = Some (D x)"
  shows "list_is_sorted l cmp h = Inr (in_order cmp (map D xs), h)"
proof (cases xs)
  case Nil
  with assms(1) have "lh_next h l = l" "l \<noteq> 0" "lh_live h l" "0 < lh_bound h" by (auto simp: is_list_def)
  moreover then obtain j where "lh_bound h = Suc j" by (cases "lh_bound h") auto
  ultimately show ?thesis using Nil by (simp add: list_is_sorted_def run list_run)
next
  case (Cons x ys)
  with assms(1) have d: "dl (lh_next h) (lh_prev h) x ys l" and x: "lh_next h l = x" "x \<noteq> l"
    by (auto simp: is_list_def)
  have "sorted_loop (lh_bound h) l cmp x (hd (ys @ [l])) h = Inr (in_order cmp (map D (x # ys)), h)"
    using assms Cons d by (intro sorted_loop_run) (auto simp: is_list_def)
  with assms(1) x d Cons show ?thesis
    by (simp add: list_is_sorted_def run list_run is_list_def dl_first [OF d])
qed

lemma verify_loop_run:
  "dl (lh_next h) (lh_prev h) p xs l \<Longrightarrow> l \<notin> set xs \<Longrightarrow> 0 \<notin> set xs \<Longrightarrow> l \<noteq> 0 \<Longrightarrow> lh_live h l \<Longrightarrow> \<forall>x \<in> set xs. lh_live h x \<Longrightarrow>
   verify_loop (length xs) l (hd (xs @ [l])) h = Inr (True, h)"
proof (induction xs arbitrary: p)
  case Nil
  then show ?case by (simp add: run)
next
  case (Cons x xs)
  from Cons.prems have x: "x \<noteq> 0" "lh_live h x" "lh_next h x = hd (xs @ [l])" "x \<noteq> l"
    by (auto dest: dl_first)
  moreover have "lh_prev h (hd (xs @ [l])) = x" "hd (xs @ [l]) \<noteq> 0" "lh_live h (hd (xs @ [l]))"
    using Cons.prems by (cases xs; auto)+
  moreover have "verify_loop (length xs) l (hd (xs @ [l])) h = Inr (True, h)"
    using Cons.prems by (intro Cons.IH) auto
  ultimately show ?case by (simp add: run list_run)
qed

lemma verify_run [list_run]:
  assumes "is_list h l xs"
  shows "list_verify l h = Inr (True, h)"
proof -
  have "lh_prev h (hd (xs @ [l])) = l" "hd (xs @ [l]) \<noteq> 0" "lh_live h (hd (xs @ [l]))"
    using assms by (cases xs; auto simp: is_list_def)+
  moreover have "verify_loop (length xs) l (hd (xs @ [l])) h = Inr (True, h)"
    using assms by (intro verify_loop_run) (auto simp: is_list_def)
  moreover have "\<not> lh_count h l > lh_max h l"
    using count_unat [OF assms] is_listD(9) [OF assms] by (simp add: word_less_nat_alt)
  ultimately show ?thesis
    using is_listD [OF assms] count_unat [OF assms]
    by (simp add: list_verify_def run list_run dl_first)
qed

end
