(* ===== verification/Kazlib_List_Ins.thy ===== *)
theory Kazlib_List_Ins
  imports Kazlib_List_Inv
begin

text \<open>
  Insertion and deletion of one node: the two links around the place change, and the sequence of
  nodes grows or shrinks there.
\<close>

section \<open>Insertion and deletion\<close>

lemma dl_retarget:
  "dl nx pv p xs q \<Longrightarrow> distinct (p # xs) \<Longrightarrow> r \<notin> set xs \<Longrightarrow>
   dl (nx(last (p # xs) := r)) (pv(r := last (p # xs))) p xs r"
  by (induction xs arbitrary: p) (auto split: if_splits)

lemma dl_link:
  assumes "dl nx pv q ys r" and "nx' p = hd (ys @ [r])" and "pv' (hd (ys @ [r])) = p"
    and "\<And>x. x \<in> set ys \<Longrightarrow> nx' x = nx x" and "\<And>x. x \<in> set (tl (ys @ [r])) \<Longrightarrow> pv' x = pv x"
  shows "dl nx' pv' p ys r"
proof (cases ys)
  case (Cons y zs)
  with assms have "dl nx' pv' y zs r = dl nx pv y zs r"
    by (intro dl_cong) auto
  with assms Cons show ?thesis by simp
qed (use assms in auto)

lemma hd_tl_end:
  assumes "distinct ys" and "r \<notin> set ys"
  shows "hd (ys @ [r]) \<in> set (r # ys)" and "hd (ys @ [r]) \<notin> set (tl (ys @ [r]))" and "set (tl (ys @ [r])) \<subseteq> set (r # ys)"
  using assms by (cases ys; auto)+

lemma dl_split:
  "dl nx pv p (xs @ ys) r \<longleftrightarrow> dl nx pv p xs (hd (ys @ [r])) \<and> dl nx pv (last (p # xs)) ys r"
proof (induction xs arbitrary: p)
  case Nil
  show ?case by (cases ys; simp only: append.simps list.sel last.simps dl.simps simp_thms if_True) blast
next
  case (Cons x xs)
  have l: "last (p # x # xs) = last (x # xs)" by simp
  show ?case unfolding append_Cons dl.simps Cons.IH l by blast
qed

lemma dl_insert:
  assumes "dl nx pv p (xs @ ys) r" and "n \<notin> set (p # r # xs @ ys)" and "distinct (p # xs @ ys)" and "r \<notin> set (xs @ ys)"
  shows "dl (nx(n := hd (ys @ [r]), last (p # xs) := n)) (pv(n := last (p # xs), hd (ys @ [r]) := n)) p (xs @ n # ys) r"
proof -
  let ?a = "last (p # xs)" and ?b = "hd (ys @ [r])"
  have a: "?a \<in> set (p # xs)" by (rule last_in_set) simp
  have ys: "distinct ys" "r \<notin> set ys" using assms(3,4) by auto
  note e = hd_tl_end [OF ys]
  have ne: "?a \<noteq> n" "?b \<noteq> n" "?b \<notin> set xs" "?a \<notin> set ys" using a e(1) assms(2-4) by auto
  from assms(1) have d: "dl nx pv p xs ?b" "dl nx pv ?a ys r" unfolding dl_split by auto
  have "dl (nx(?a := n)) (pv(n := ?a)) p xs n"
    using d(1) assms(2,3) by (intro dl_retarget) auto
  then have "dl (nx(n := ?b, ?a := n)) (pv(n := ?a, ?b := n)) p xs n"
    by (rule dl_cong [THEN iffD2, rotated 2]) (use assms(2) ne in \<open>auto simp del: last.simps\<close>)
  moreover have "dl (nx(n := ?b, ?a := n)) (pv(n := ?a, ?b := n)) n ys r"
    by (rule dl_link [OF d(2)]) (use assms(2) ne e in \<open>auto simp del: last.simps\<close>)
  ultimately show ?thesis by (simp only: dl_append)
qed

lemma dl_remove:
  assumes "dl nx pv p (xs @ n # ys) r" and "distinct (p # xs @ n # ys)" and "r \<notin> set (xs @ n # ys)"
  shows "dl (nx(last (p # xs) := hd (ys @ [r]))) (pv(hd (ys @ [r]) := last (p # xs))) p (xs @ ys) r"
proof -
  let ?a = "last (p # xs)" and ?b = "hd (ys @ [r])"
  have a: "?a \<in> set (p # xs)" by (rule last_in_set) simp
  have ys: "distinct ys" "r \<notin> set ys" using assms(2,3) by auto
  note e = hd_tl_end [OF ys]
  from assms(1) have d: "dl nx pv p xs n" "dl nx pv n ys r" by (simp_all add: dl_append)
  have "dl (nx(?a := ?b)) (pv(?b := ?a)) p xs ?b"
    using d(1) assms(2,3) e(1) by (intro dl_retarget) auto
  moreover have "dl (nx(?a := ?b)) (pv(?b := ?a)) ?a ys r"
    by (rule dl_link [OF d(2)]) (use assms(2) a e in \<open>auto simp del: last.simps\<close>)
  ultimately show ?thesis by (simp only: dl_split)
qed

definition ins_at :: "'d lheap \<Rightarrow> nat \<Rightarrow> nat \<Rightarrow> nat \<Rightarrow> nat \<Rightarrow> 'd lheap" where
  "ins_at h l p n q = h\<lparr>lh_next := (lh_next h)(n := q, p := n), lh_prev := (lh_prev h)(n := p, q := n),
     lh_count := (lh_count h)(l := lh_count h l + 1)\<rparr>"

definition del_at :: "'d lheap \<Rightarrow> nat \<Rightarrow> nat \<Rightarrow> nat \<Rightarrow> nat \<Rightarrow> 'd lheap" where
  "del_at h l p n q = h\<lparr>lh_next := (lh_next h)(p := q, n := 0), lh_prev := (lh_prev h)(q := p, n := 0),
     lh_count := (lh_count h)(l := lh_count h l - 1)\<rparr>"

text \<open>The nodes around a place in a list.\<close>

lemma around:
  assumes "is_list h l (xs @ ys)"
  shows "lh_next h (last (l # xs)) = hd (ys @ [l])" and "lh_prev h (hd (ys @ [l])) = last (l # xs)"
    and "last (l # xs) \<in> set (l # xs)" and "hd (ys @ [l]) \<in> set (l # ys)"
proof -
  have d: "dl (lh_next h) (lh_prev h) l (xs @ ys) l" using assms by (simp add: is_list_def)
  have "lh_next h (last (l # xs)) = hd (ys @ [l]) \<and> lh_prev h (hd (ys @ [l])) = last (l # xs)"
  proof (cases xs rule: rev_cases)
    case Nil
    with d show ?thesis by (cases ys) auto
  next
    case (snoc zs z)
    with d have "dl (lh_next h) (lh_prev h) z ys l" by (simp add: dl_append)
    with snoc show ?thesis by (cases ys) auto
  qed
  then show "lh_next h (last (l # xs)) = hd (ys @ [l])" "lh_prev h (hd (ys @ [l])) = last (l # xs)" by auto
  show "last (l # xs) \<in> set (l # xs)" by (rule last_in_set) simp
  show "hd (ys @ [l]) \<in> set (l # ys)" by (cases ys) auto
qed

lemma free_not_in:
  assumes "is_list h l xs" and "is_free h n"
  shows "n \<notin> set (l # xs)"
proof
  assume "n \<in> set (l # xs)"
  then obtain as bs where s: "l # xs = as @ n # bs" by (meson split_list)
  have "lh_next h n = hd (bs @ [l])"
  proof (cases as)
    case Nil
    with s assms(1) show ?thesis using around(1) [of h l "[]" xs] by simp
  next
    case (Cons a zs)
    with s assms(1) show ?thesis using around(1) [of h l "zs @ [n]" bs] by simp
  qed
  moreover have "hd (bs @ [l]) \<in> set (l # xs)" using s by (cases bs) (auto simp: Cons_eq_append_conv)
  moreover have "0 \<notin> set (l # xs)" using assms(1) unfolding is_list_def by blast
  ultimately have "hd (bs @ [l]) \<noteq> 0" by metis
  with \<open>lh_next h n = hd (bs @ [l])\<close> show False using assms(2) by (simp add: is_free_def)
qed

lemma ins_at_list:
  assumes l: "is_list h l (xs @ ys)" and n: "is_free h n"
    and room: "length (xs @ ys) < unat (lh_max h l)" "Suc (length (xs @ ys)) < lh_bound h"
  shows "is_list (ins_at h l (last (l # xs)) n (hd (ys @ [l]))) l (xs @ n # ys)"
proof -
  have nin: "n \<notin> set (l # xs @ ys)" using free_not_in [OF l n] .
  have "dl ((lh_next h)(n := hd (ys @ [l]), last (l # xs) := n)) ((lh_prev h)(n := last (l # xs), hd (ys @ [l]) := n))
      l (xs @ n # ys) l"
    using l nin by (intro dl_insert) (auto simp: is_list_def)
  with l n nin room show ?thesis by (simp add: is_list_def ins_at_def is_free_def)
qed

lemma del_at_list:
  assumes l: "is_list h l (xs @ n # ys)"
  shows "is_list (del_at h l (last (l # xs)) n (hd (ys @ [l]))) l (xs @ ys)"
    and "is_free (del_at h l (last (l # xs)) n (hd (ys @ [l]))) n"
proof -
  have d: "dl (lh_next h) (lh_prev h) l (xs @ n # ys) l" "distinct (l # xs @ n # ys)" using l by (simp_all add: is_list_def)
  then have "dl ((lh_next h)(last (l # xs) := hd (ys @ [l]))) ((lh_prev h)(hd (ys @ [l]) := last (l # xs))) l (xs @ ys) l"
    by (intro dl_remove) auto
  with l show "is_list (del_at h l (last (l # xs)) n (hd (ys @ [l]))) l (xs @ ys)"
    by (simp add: is_list_def del_at_def)
  show "is_free (del_at h l (last (l # xs)) n (hd (ys @ [l]))) n"
    using l by (simp add: is_free_def del_at_def is_list_def)
qed

lemma plus_one_gt: "unat c < 2 ^ 64 - 1 \<Longrightarrow> c < c + 1" for c :: u64
  by (simp add: word_less_nat_alt unat_word_ariths)

lemma ins_asserts_run:
  assumes l: "is_list h l xs" and n: "is_free h n" and t: "t = l \<or> t \<in> set xs"
    and room: "length xs < unat (lh_max h l)"
  shows "ins_asserts l n t h = Inr ((), h)"
proof -
  have "lh_count h l < lh_count h l + 1"
    using count_unat [OF l] room unsigned_less [of "lh_max h l", where 'a = nat] by (intro plus_one_gt) simp
  moreover have "n \<notin> set xs" using free_not_in [OF l n] by simp
  ultimately show ?thesis
    using is_listD [OF l] n t
    by (auto simp: ins_asserts_def run contains_run [OF l] lnode_is_in_a_list_def list_run is_free_def)
qed

lemma count_node_run:
  assumes l: "is_list h l xs" and room: "length xs < unat (lh_max h l)"
    and h': "lh_live h' l" "lh_count h' l = lh_count h l" "lh_max h' l = lh_max h l"
  shows "count_node l h' = Inr ((), h'\<lparr>lh_count := (lh_count h')(l := lh_count h l + 1)\<rparr>)"
proof -
  have "unat (lh_count h l + 1) = Suc (length xs)"
    using count_unat [OF l] room unsigned_less [of "lh_max h l", where 'a = nat] by (simp add: unat_word_ariths)
  with room have "lh_count h l + 1 \<le> lh_max h l" by (simp add: word_le_nat_alt)
  with h' is_listD(1) [OF l] show ?thesis by (simp add: count_node_def run list_run)
qed

lemma ins_after_run:
  assumes l: "is_list h l (xs @ ys)" and n: "is_free h n" and room: "length (xs @ ys) < unat (lh_max h l)"
  shows "list_ins_after l n (last (l # xs)) h = Inr ((), ins_at h l (last (l # xs)) n (hd (ys @ [l])))"
proof -
  let ?p = "last (l # xs)" and ?q = "hd (ys @ [l])"
  have p: "?p \<noteq> 0" "lh_live h ?p" "?q \<noteq> 0" "lh_live h ?q" and t: "?p = l \<or> ?p \<in> set (xs @ ys)"
    using around(3,4) [OF l] is_listD [OF l] by auto
  moreover have "?p \<noteq> n" "?q \<noteq> n" using free_not_in [OF l n] around(3,4) [OF l] by auto
  ultimately show ?thesis
    using n ins_asserts_run [OF l n t room] around(1) [OF l] is_listD(2) [OF l]
    by (simp add: list_ins_after_def run list_run is_free_def count_node_run [OF l room] ins_at_def del: last.simps)
qed

lemma ins_before_run:
  assumes l: "is_list h l (xs @ ys)" and n: "is_free h n" and room: "length (xs @ ys) < unat (lh_max h l)"
  shows "list_ins_before l n (hd (ys @ [l])) h = Inr ((), ins_at h l (last (l # xs)) n (hd (ys @ [l])))"
proof -
  let ?p = "last (l # xs)" and ?q = "hd (ys @ [l])"
  have p: "?p \<noteq> 0" "lh_live h ?p" "?q \<noteq> 0" "lh_live h ?q" and t: "?q = l \<or> ?q \<in> set (xs @ ys)"
    using around(3,4) [OF l] is_listD [OF l] by auto
  moreover have "?p \<noteq> n" "?q \<noteq> n" using free_not_in [OF l n] around(3,4) [OF l] by auto
  ultimately show ?thesis
    using n ins_asserts_run [OF l n t room] around(2) [OF l] is_listD(2) [OF l]
    by (simp add: list_ins_before_def run list_run is_free_def count_node_run [OF l room] ins_at_def del: last.simps)
qed

lemma list_delete_run:
  assumes l: "is_list h l (xs @ n # ys)"
  shows "list_delete l n h = Inr (n, del_at h l (last (l # xs)) n (hd (ys @ [l])))"
proof -
  let ?p = "last (l # xs)" and ?q = "hd (ys @ [l])"
  have nx: "lh_next h n = ?q" "lh_prev h n = ?p"
    using around(1) [of h l "xs @ [n]" ys] around(2) [of h l xs "n # ys"] l by simp_all
  have "?p \<noteq> 0" "lh_live h ?p" "?q \<noteq> 0" "lh_live h ?q" "n \<noteq> 0" "lh_live h n"
    using around(3) [of h l xs "n # ys"] around(4) [of h l "xs @ [n]" ys] l is_listD [OF l] by auto
  with nx is_listD(1,2) [OF l] show ?thesis
    by (simp add: list_delete_def run list_run contains_run [OF l] del_at_def del: last.simps)
qed

end
