(* ===== verification/Kazlib_List_Move.thy ===== *)
theory Kazlib_List_Move
  imports Kazlib_List_Ins
begin

text \<open>
  \<^verbatim>\<open>list_transfer\<close> and \<^verbatim>\<open>list_extract\<close>: a slice of one list goes to the end of another, with both
  counters and both chains of links.
\<close>

section \<open>Moving a slice\<close>

lemma last_cons_in: "last (p # xs) \<in> set (p # xs)"
  by (rule last_in_set) simp

lemma dl_remove_slice:
  assumes "dl nx pv p (xs @ ys @ zs) r" and "distinct (p # xs @ ys @ zs)" and "r \<notin> set (xs @ ys @ zs)"
  shows "dl (nx(last (p # xs) := hd (zs @ [r]))) (pv(hd (zs @ [r]) := last (p # xs))) p (xs @ zs) r"
proof -
  let ?a = "last (p # xs)" and ?b = "hd (zs @ [r])"
  have a: "?a \<in> set (p # xs)" by (rule last_cons_in)
  have zs: "distinct zs" "r \<notin> set zs" using assms(2,3) by auto
  note e = hd_tl_end [OF zs]
  from assms(1) have d: "dl nx pv p xs (hd ((ys @ zs) @ [r]))" "dl nx pv (last (?a # ys)) zs r"
    by (simp_all only: dl_split)
  have "dl (nx(?a := ?b)) (pv(?b := ?a)) p xs ?b"
    using d(1) assms(2,3) e(1) by (intro dl_retarget) auto
  moreover have "dl (nx(?a := ?b)) (pv(?b := ?a)) ?a zs r"
    by (rule dl_link [OF d(2)]) (use assms(2) a e in \<open>auto simp del: last.simps\<close>)
  ultimately show ?thesis by (simp only: dl_split)
qed

lemma dl_graft:
  assumes "dl nx pv d ds d" and "dl nx pv a ys b" and "ys \<noteq> []" and "distinct (d # ds @ ys)"
  shows "dl (nx(last ys := d, last (d # ds) := hd ys)) (pv(hd ys := last (d # ds), d := last ys)) d (ds @ ys) d"
proof -
  let ?q = "last (d # ds)" and ?x = "hd ys"
  obtain yt where y: "ys = ?x # yt" using assms(3) by (cases ys) auto
  have q: "?q \<in> set (d # ds)" by (rule last_cons_in)
  have l: "last ys \<in> set ys" "?x \<in> set ys" using assms(3) by auto
  have ne: "last ys \<notin> set (d # ds)" "?x \<notin> set (d # ds)" "?q \<notin> set ys" "d \<notin> set ys"
    using q l assms(4) by (auto simp del: last.simps)
  have "dl (nx(?q := ?x)) (pv(?x := ?q)) d ds ?x"
    using assms(1,4) l by (intro dl_retarget) auto
  then have 1: "dl (nx(last ys := d, ?q := ?x)) (pv(?x := ?q, d := last ys)) d ds ?x"
    by (rule dl_cong [THEN iffD2, rotated 2]) (use ne assms(4) in \<open>auto simp del: last.simps\<close>)
  have yt: "?x \<notin> set yt" "set yt \<subseteq> set ys" using assms(4) y by (metis distinct.simps(2) distinct_append, metis set_subset_Cons)
  have "dl nx pv ?x yt b" "last (?x # yt) = last ys" "distinct (?x # yt)" using assms(2,4) y by (metis dl.simps(2), metis, auto)
  then have "dl (nx(last ys := d)) (pv(d := last ys)) ?x yt d"
    using dl_retarget [of nx pv ?x yt b d] ne(4) y by (metis list.set_intros(2))
  then have "dl (nx(last ys := d, ?q := ?x)) (pv(?x := ?q, d := last ys)) ?x yt d"
    by (rule dl_cong [THEN iffD2, rotated 2])
      (use ne yt l(2) in \<open>auto simp del: last.simps\<close>)
  with ne have 2: "dl (nx(last ys := d, ?q := ?x)) (pv(?x := ?q, d := last ys)) ?q (?x # yt) d"
    by (auto simp del: last.simps)
  have "hd (ys @ [d]) = ?x" using assms(3) by simp
  with 1 2 y show ?thesis by (simp only: dl_split)
qed

definition moved_links :: "'d lheap \<Rightarrow> nat \<Rightarrow> nat \<Rightarrow> nat list \<Rightarrow> nat list \<Rightarrow> nat list \<Rightarrow> nat list \<Rightarrow> 'd lheap" where
  "moved_links h d s ds xs ys zs = h\<lparr>
     lh_next := (lh_next h)(last (s # xs) := hd (zs @ [s]), last ys := d, last (d # ds) := hd ys),
     lh_prev := (lh_prev h)(hd (zs @ [s]) := last (s # xs), hd ys := last (d # ds), d := last ys)\<rparr>"

definition moved_at :: "'d lheap \<Rightarrow> nat \<Rightarrow> nat \<Rightarrow> nat list \<Rightarrow> nat list \<Rightarrow> nat list \<Rightarrow> nat list \<Rightarrow> 'd lheap" where
  "moved_at h d s ds xs ys zs = (moved_links h d s ds xs ys zs)\<lparr>
     lh_count := (lh_count h)(s := of_nat (length (xs @ zs)), d := of_nat (length (ds @ ys)))\<rparr>"

lemma moved_links_rest [simp]:
  "lh_bound (moved_links h d s ds xs ys zs) = lh_bound h" "lh_live (moved_links h d s ds xs ys zs) = lh_live h"
  "lh_data (moved_links h d s ds xs ys zs) = lh_data h" "lh_max (moved_links h d s ds xs ys zs) = lh_max h"
  by (simp_all add: moved_links_def)

lemma moved_at_rest [simp]:
  "lh_bound (moved_at h d s ds xs ys zs) = lh_bound h" "lh_live (moved_at h d s ds xs ys zs) = lh_live h"
  "lh_data (moved_at h d s ds xs ys zs) = lh_data h" "lh_max (moved_at h d s ds xs ys zs) = lh_max h"
  by (simp_all add: moved_at_def)

text \<open>Two lists that share no node, a slice of the first to be moved to the end of the second.\<close>

definition can_move :: "'d lheap \<Rightarrow> nat \<Rightarrow> nat \<Rightarrow> nat list \<Rightarrow> nat list \<Rightarrow> nat list \<Rightarrow> nat list \<Rightarrow> bool" where
  "can_move h d s ds xs ys zs \<longleftrightarrow> is_list h s (xs @ ys @ zs) \<and> is_list h d ds \<and> ys \<noteq> [] \<and>
     set (s # xs @ ys @ zs) \<inter> set (d # ds) = {} \<and>
     length (ds @ ys) \<le> unat (lh_max h d) \<and> length (ds @ ys) < lh_bound h"

lemma moved_dl:
  assumes "can_move h d s ds xs ys zs"
  shows "dl (lh_next (moved_links h d s ds xs ys zs)) (lh_prev (moved_links h d s ds xs ys zs)) s (xs @ zs) s"
    and "dl (lh_next (moved_links h d s ds xs ys zs)) (lh_prev (moved_links h d s ds xs ys zs)) d (ds @ ys) d"
proof -
  let ?p = "last (s # xs)" and ?n = "hd (zs @ [s])" and ?q = "last (d # ds)"
  let ?nx = "lh_next h" and ?pv = "lh_prev h"
  from assms have l: "is_list h s (xs @ ys @ zs)" "is_list h d ds" "ys \<noteq> []" "set (s # xs @ ys @ zs) \<inter> set (d # ds) = {}"
    by (auto simp: can_move_def)
  have p: "?p \<in> set (s # xs)" "?q \<in> set (d # ds)" by (rule last_cons_in)+
  have n: "?n \<in> set (s # zs)" by (cases zs) auto
  have y: "last ys \<in> set ys" "hd ys \<in> set ys" using l(3) by auto
  have dist: "distinct (s # xs @ ys @ zs)" "distinct (d # ds)" using l(1,2) by (auto simp: is_list_def)
  have d1: "dl ?nx ?pv s (xs @ ys @ zs) s" "dl ?nx ?pv d ds d" using l(1,2) by (auto simp: is_list_def)
  have sub: "set (s # xs) \<inter> set (d # ds @ ys) = {}" "set (s # zs) \<inter> set (d # ds @ ys) = {}"
    using dist(1) l(4) by auto
  then have out: "?p \<notin> set (d # ds @ ys)" "?n \<notin> set (d # ds @ ys)" using p(1) n by blast+
  have "set (d # ds @ ys) \<inter> set (s # xs @ zs) = {}" using sub by auto
  moreover have "set ys \<subseteq> set (d # ds @ ys)" "set (d # ds) \<subseteq> set (d # ds @ ys)" by auto
  ultimately have off: "last ys \<notin> set (s # xs @ zs)" "hd ys \<notin> set (s # xs @ zs)" "?q \<notin> set (s # xs @ zs)"
    "d \<notin> set (s # xs @ zs)"
    using y p(2) by (blast, blast, blast, auto)
  have "dl (?nx(?p := ?n)) (?pv(?n := ?p)) s (xs @ zs) s"
    using d1(1) dist(1) by (intro dl_remove_slice) auto
  then show "dl (lh_next (moved_links h d s ds xs ys zs)) (lh_prev (moved_links h d s ds xs ys zs)) s (xs @ zs) s"
    unfolding moved_links_def
    by (rule dl_cong [THEN iffD2, rotated 2]) (use off in \<open>simp_all del: last.simps, metis+\<close>)
  have "dl ?nx ?pv ?p ys (hd (zs @ [s]))" using d1(1) by (simp only: dl_split)
  then have "dl (?nx(last ys := d, ?q := hd ys)) (?pv(hd ys := ?q, d := last ys)) d (ds @ ys) d"
    using d1(2) l(3,4) dist by (intro dl_graft) auto
  then show "dl (lh_next (moved_links h d s ds xs ys zs)) (lh_prev (moved_links h d s ds xs ys zs)) d (ds @ ys) d"
    unfolding moved_links_def
    by (rule dl_cong [THEN iffD2, rotated 2]) (use out in \<open>simp_all del: last.simps, metis+\<close>)
qed

lemma moved_lists:
  assumes "can_move h d s ds xs ys zs"
  shows "is_list (moved_at h d s ds xs ys zs) s (xs @ zs)" and "is_list (moved_at h d s ds xs ys zs) d (ds @ ys)"
proof -
  note m = moved_dl [OF assms]
  have eq: "lh_next (moved_at h d s ds xs ys zs) = lh_next (moved_links h d s ds xs ys zs)"
    "lh_prev (moved_at h d s ds xs ys zs) = lh_prev (moved_links h d s ds xs ys zs)"
    "lh_live (moved_at h d s ds xs ys zs) = lh_live h" "lh_max (moved_at h d s ds xs ys zs) = lh_max h"
    "lh_bound (moved_at h d s ds xs ys zs) = lh_bound h"
    by (simp_all add: moved_at_def moved_links_def)
  have ne: "s \<noteq> d" using assms by (auto simp: can_move_def)
  show "is_list (moved_at h d s ds xs ys zs) s (xs @ zs)"
    using assms m(1) ne unfolding is_list_def eq by (auto simp: can_move_def is_list_def moved_at_def)
  show "is_list (moved_at h d s ds xs ys zs) d (ds @ ys)"
    using assms m(2) ne unfolding is_list_def eq by (auto simp: can_move_def is_list_def moved_at_def)
qed

lemma count_moved_run:
  "dl (lh_next h) (lh_prev h) y ys q \<Longrightarrow> distinct (y # ys) \<Longrightarrow> 0 \<notin> set (y # ys) \<Longrightarrow> \<forall>x \<in> set (y # ys). lh_live h x \<Longrightarrow>
   length ys < k \<Longrightarrow> count_moved k (last (y # ys)) y m h = Inr (m + of_nat (length ys), h)"
proof (induction ys arbitrary: y k m)
  case Nil
  then show ?case by (cases k) (simp_all add: run)
next
  case (Cons x ys)
  then obtain j where k: "k = Suc j" "length ys < j" by (cases k) auto
  have "count_moved j (last (x # ys)) x (m + 1) h = Inr (m + 1 + of_nat (length ys), h)"
    using Cons.prems k(2) by (intro Cons.IH) auto
  moreover have "y \<notin> set (x # ys)" using Cons.prems(2) by simp
  then have "y \<noteq> last (x # ys)" using last_cons_in [of x ys] by metis
  ultimately show ?case using Cons.prems k(1) by (simp add: run list_run ac_simps)
qed

lemma slice_moved_run:
  "dl (lh_next h) (lh_prev h) y ys q \<Longrightarrow> distinct (y # ys) \<Longrightarrow> 0 \<notin> set (y # ys) \<Longrightarrow> \<forall>x \<in> set (y # ys). lh_live h x \<Longrightarrow>
   s \<notin> set ys \<Longrightarrow> length ys < k \<Longrightarrow> slice_moved k s (last (y # ys)) y m h = Inr (m + of_nat (length ys), h)"
proof (induction ys arbitrary: y k m)
  case Nil
  then show ?case by (cases k) (simp_all add: run)
next
  case (Cons x ys)
  then obtain j where k: "k = Suc j" "length ys < j" by (cases k) auto
  have "slice_moved j s (last (x # ys)) x (m + 1) h = Inr (m + 1 + of_nat (length ys), h)"
    using Cons.prems k(2) by (intro Cons.IH) auto
  moreover have "y \<notin> set (x # ys)" using Cons.prems(2) by simp
  then have "y \<noteq> last (x # ys)" using last_cons_in [of x ys] by metis
  ultimately show ?case using Cons.prems k(1) by (simp add: run list_run ac_simps)
qed

lemma move_counts_words:
  assumes "lh_live h s" "s \<noteq> 0" "lh_live h d" "d \<noteq> 0" "s \<noteq> d"
    and "lh_count h s - m \<le> lh_count h s" "m \<le> lh_count h s" "lh_count h d \<le> lh_count h d + m"
    and "h' = h\<lparr>lh_count := (lh_count h)(s := lh_count h s - m, d := lh_count h d + m)\<rparr>"
    and "list_verify s h' = Inr (True, h')" "list_verify d h' = Inr (True, h')"
  shows "move_counts d s m h = Inr ((), h')"
proof -
  have u: "h\<lparr>lh_count := (lh_count h)(s := lh_count h s - m, d := lh_count h d + m)\<rparr> = h'"
    using assms(9) by simp
  show ?thesis using assms(1-8,10,11) by (simp add: move_counts_def run list_run u)
qed

lemma move_counts_run:
  assumes c: "can_move h d s ds xs ys zs"
  shows "move_counts d s (of_nat (length ys)) (moved_links h d s ds xs ys zs) = Inr ((), moved_at h d s ds xs ys zs)"
proof -
  let ?h = "moved_links h d s ds xs ys zs"
  from c have l: "is_list h s (xs @ ys @ zs)" "is_list h d ds" "s \<noteq> d" "length (ds @ ys) \<le> unat (lh_max h d)"
    by (auto simp: can_move_def)
  have bd: "length (xs @ ys @ zs) < 2 ^ 64" "length (ds @ ys) < 2 ^ 64"
    using list_length [OF l(1)] l(4) unsigned_less [of "lh_max h d", where 'a = nat] by auto
  have f: "lh_live ?h s" "lh_live ?h d" "s \<noteq> 0" "d \<noteq> 0"
    "lh_count ?h s = of_nat (length xs + length ys + length zs)" "lh_count ?h d = of_nat (length ds)"
    using is_listD(1,2,8) [OF l(1)] is_listD(1,2,8) [OF l(2)] by (simp_all add: moved_links_def ac_simps)
  have w: "lh_count ?h s - of_nat (length ys) = of_nat (length (xs @ zs))"
    "lh_count ?h d + of_nat (length ys) = of_nat (length (ds @ ys))"
    using f(5,6) by simp_all
  have u: "unat (of_nat n :: u64) = n" if "n < 2 ^ 64" for n
    using that by (simp add: unat_of_nat take_bit_nat_eq_self)
  have "unat (lh_count ?h s) = length xs + length ys + length zs" "unat (lh_count ?h d) = length ds"
    "unat (of_nat (length ys) :: u64) = length ys" "unat (of_nat (length (xs @ zs)) :: u64) = length (xs @ zs)"
    "unat (of_nat (length (ds @ ys)) :: u64) = length (ds @ ys)"
    unfolding f(5,6) using bd by (intro u; simp)+
  then have le: "lh_count ?h s - of_nat (length ys) \<le> lh_count ?h s" "of_nat (length ys) \<le> lh_count ?h s"
    "lh_count ?h d \<le> lh_count ?h d + of_nat (length ys)"
    unfolding w word_le_nat_alt by simp_all
  show ?thesis
  proof (rule move_counts_words [OF f(1,3,2,4) l(3) le])
    show "moved_at h d s ds xs ys zs = ?h\<lparr>lh_count := (lh_count ?h)(s := lh_count ?h s - of_nat (length ys),
        d := lh_count ?h d + of_nat (length ys))\<rparr>"
      unfolding w by (simp add: moved_at_def moved_links_def)
  qed (use f verify_run [OF moved_lists(1) [OF c]] verify_run [OF moved_lists(2) [OF c]] in auto)
qed

lemma transfer_run:
  assumes c: "can_move h d s ds xs ys []"
  shows "list_transfer d s (hd ys) h = Inr ((), moved_at h d s ds xs ys [])"
proof -
  from c have l: "is_list h s (xs @ ys)" "is_list h d ds" "ys \<noteq> []" "set (s # xs @ ys) \<inter> set (d # ds) = {}"
    "length (ds @ ys) < lh_bound h"
    by (auto simp: can_move_def)
  let ?p = "last (s # xs)" and ?q = "last (d # ds)" and ?h = "moved_links h d s ds xs ys []"
  obtain y yt where y: "ys = y # yt" using l(3) by (cases ys) auto
  have p: "?p \<in> set (s # xs)" "?q \<in> set (d # ds)" by (rule last_cons_in)+
  have ly: "last ys \<in> set ys" using l(3) by simp
  have live: "x \<noteq> 0 \<and> lh_live h x" if "x \<in> set (s # xs @ ys) \<union> set (d # ds)" for x
    using that l(1,2) by (auto simp: is_list_def)
  have ne: "?p \<noteq> 0 \<and> lh_live h ?p" "?q \<noteq> 0 \<and> lh_live h ?q" "last ys \<noteq> 0 \<and> lh_live h (last ys)"
    "y \<noteq> 0 \<and> lh_live h y" "s \<noteq> 0 \<and> lh_live h s" "d \<noteq> 0 \<and> lh_live h d"
    using p ly y by (intro live; auto simp del: last.simps)+
  have nx: "lh_prev h s = last ys" "lh_prev h y = ?p" "lh_prev h d = ?q"
    using around(2) [of h s "xs @ ys" "[]"] around(2) [of h s xs ys] around(2) [of h d ds "[]"] l(1,2) y
    by simp_all
  have dist: "s \<noteq> d" "s \<noteq> y" "d \<noteq> y" "?p \<noteq> d" "last ys \<noteq> s"
    using l(1,4) y p(1) ly by (auto simp: is_list_def simp del: last.simps)
  have eq: "h\<lparr>lh_next := (lh_next h)(?p := s, last ys := d, ?q := y),
      lh_prev := (lh_prev h)(s := ?p, y := ?q, d := last ys)\<rparr> = ?h"
    using y by (simp add: moved_links_def del: last.simps)
  have "count_moved (lh_bound h) (last ys) y 1 ?h = Inr (of_nat (length ys), ?h)"
  proof -
    have "dl (lh_next ?h) (lh_prev ?h) d (ds @ y # yt) d" using moved_dl(2) [OF c] y by simp
    then have "dl (lh_next ?h) (lh_prev ?h) y yt d" by (simp only: dl_append)
    then have "count_moved (lh_bound h) (last (y # yt)) y 1 ?h = Inr (1 + of_nat (length yt), ?h)"
      using l(1,5) y live by (intro count_moved_run) (auto simp: is_list_def moved_links_def)
    with y show ?thesis by simp
  qed
  moreover note move_counts_run [OF c]
  ultimately show ?thesis
    using ne nx dist contains_run [OF l(1)] y eq
    by (simp add: list_transfer_def run list_run del: last.simps)
qed

lemma extract_run:
  assumes c: "can_move h d s ds xs ys zs"
  shows "list_extract d s (hd ys) (last ys) h = Inr ((), moved_at h d s ds xs ys zs)"
proof -
  from c have l: "is_list h s (xs @ ys @ zs)" "is_list h d ds" "ys \<noteq> []" "set (s # xs @ ys @ zs) \<inter> set (d # ds) = {}"
    "length (ds @ ys) < lh_bound h"
    by (auto simp: can_move_def)
  let ?p = "last (s # xs)" and ?n = "hd (zs @ [s])" and ?q = "last (d # ds)" and ?h = "moved_links h d s ds xs ys zs"
  obtain y yt where y: "ys = y # yt" using l(3) by (cases ys) auto
  have p: "?p \<in> set (s # xs)" "?q \<in> set (d # ds)" by (rule last_cons_in)+
  have n: "?n \<in> set (s # zs)" by (cases zs) auto
  have ly: "last ys \<in> set ys" using l(3) by simp
  have live: "x \<noteq> 0 \<and> lh_live h x" if "x \<in> set (s # xs @ ys @ zs) \<union> set (d # ds)" for x
    using that l(1,2) by (auto simp: is_list_def)
  have ne: "?p \<noteq> 0 \<and> lh_live h ?p" "?q \<noteq> 0 \<and> lh_live h ?q" "last ys \<noteq> 0 \<and> lh_live h (last ys)"
    "y \<noteq> 0 \<and> lh_live h y" "?n \<noteq> 0 \<and> lh_live h ?n" "d \<noteq> 0 \<and> lh_live h d"
    using p n ly y by (intro live; auto simp del: last.simps)+
  have nx: "lh_next h (last ys) = ?n" "lh_prev h y = ?p" "lh_prev h d = ?q"
    using around(1) [of h s "xs @ ys" zs] around(2) [of h s xs "ys @ zs"] around(2) [of h d ds "[]"] l(1,2) y
    by simp_all
  have dist: "d \<noteq> y" "?p \<noteq> d" "?n \<noteq> d" "?n \<noteq> y" "y \<noteq> s" "s \<notin> set yt" "last ys \<in> set (xs @ ys @ zs)"
    using l(1,4) y p(1) ly n by (auto simp: is_list_def simp del: last.simps)
  have eq: "h\<lparr>lh_next := (lh_next h)(?p := ?n, last ys := d, ?q := y),
      lh_prev := (lh_prev h)(?n := ?p, y := ?q, d := last ys)\<rparr> = ?h"
    using y by (simp add: moved_links_def del: last.simps)
  have "slice_moved (lh_bound h) s (last ys) y 1 ?h = Inr (of_nat (length ys), ?h)"
  proof -
    have "dl (lh_next ?h) (lh_prev ?h) d (ds @ y # yt) d" using moved_dl(2) [OF c] y by simp
    then have "dl (lh_next ?h) (lh_prev ?h) y yt d" by (simp only: dl_append)
    then have "slice_moved (lh_bound h) s (last (y # yt)) y 1 ?h = Inr (1 + of_nat (length yt), ?h)"
      using l(1,5) y live dist(6) by (intro slice_moved_run) (auto simp: is_list_def moved_links_def)
    with y show ?thesis by simp
  qed
  moreover note move_counts_run [OF c]
  ultimately show ?thesis
    using ne nx dist contains_run [OF l(1)] y eq
    by (simp add: list_extract_def run list_run del: last.simps)
qed

end
