(* ===== verification/Kazlib_List_Merge.thy ===== *)
theory Kazlib_List_Merge
  imports Kazlib_List_Move
begin

text \<open>
  What an operation leaves alone, and \<^verbatim>\<open>list_merge\<close>: the nodes of the second list go to their places
  in the first.
\<close>

section \<open>What an operation leaves alone\<close>

text \<open>
  Only the links and counters of \<open>N\<close> and the fields of \<open>F\<close> differ; what is allocated stays the same.
\<close>

definition touches :: "nat set \<Rightarrow> nat set \<Rightarrow> 'd lheap \<Rightarrow> 'd lheap \<Rightarrow> bool" where
  "touches N F h h' \<longleftrightarrow> lh_live h' = lh_live h \<and> lh_bound h' = lh_bound h \<and>
     (\<forall>x. x \<notin> F \<longrightarrow> lh_data h' x = lh_data h x \<and> lh_max h' x = lh_max h x) \<and>
     (\<forall>x. x \<notin> N \<longrightarrow> x \<notin> F \<longrightarrow> lh_next h' x = lh_next h x \<and> lh_prev h' x = lh_prev h x \<and> lh_count h' x = lh_count h x)"

lemma touches_refl: "touches N F h h"
  by (simp add: touches_def)

lemma touches_trans: "touches N F h h' \<Longrightarrow> touches N F h' h'' \<Longrightarrow> touches N F h h''"
  by (simp add: touches_def)

lemma touches_mono: "touches N F h h' \<Longrightarrow> N \<subseteq> N' \<Longrightarrow> F \<subseteq> F' \<Longrightarrow> touches N' F' h h'"
  unfolding touches_def by blast

lemma touches_list:
  assumes "touches N F h h'" and "is_list h l xs" and "set (l # xs) \<inter> (N \<union> F) = {}"
  shows "is_list h' l xs"
  by (rule is_list_cong [OF assms(2)]) (use assms(1,3) in \<open>auto simp: touches_def\<close>)

lemma touches_ins:
  "set [l, p, n, q] \<subseteq> N \<Longrightarrow> touches N F h (ins_at h l p n q)"
  by (auto simp: touches_def ins_at_def)

lemma touches_del:
  "set [l, p, n, q] \<subseteq> N \<Longrightarrow> touches N F h (del_at h l p n q)"
  by (auto simp: touches_def del_at_def)

lemma touches_moved:
  assumes "can_move h d s ds xs ys zs" and "set (d # ds) \<union> set (s # xs @ ys @ zs) \<subseteq> N"
  shows "touches N F h (moved_at h d s ds xs ys zs)"
proof -
  from assms(1) have "ys \<noteq> []" by (simp add: can_move_def)
  then have "last (s # xs) \<in> N" "hd (zs @ [s]) \<in> N" "last ys \<in> N" "hd ys \<in> N" "last (d # ds) \<in> N" "s \<in> N" "d \<in> N"
    using assms(2) last_cons_in [of s xs] last_cons_in [of d ds] by (cases zs; auto)+
  then show ?thesis by (auto simp: touches_def moved_at_def moved_links_def simp del: last.simps)
qed

section \<open>Merging\<close>

text \<open>Equal elements: those of the second list come first.\<close>

fun merge_seq :: "('d \<Rightarrow> 'd \<Rightarrow> int) \<Rightarrow> (nat \<Rightarrow> 'd) \<Rightarrow> nat list \<Rightarrow> nat list \<Rightarrow> nat list" where
  "merge_seq cmp D (x # xs) (y # ys) =
     (if cmp (D x) (D y) \<ge> 0 then y # merge_seq cmp D (x # xs) ys else x # merge_seq cmp D xs (y # ys))"
| "merge_seq cmp D [] ys = ys"
| "merge_seq cmp D xs [] = xs"

lemma merge_seq_Nil [simp]: "merge_seq cmp D xs [] = xs"
  by (cases xs) simp_all

definition apart :: "'d lheap \<Rightarrow> nat \<Rightarrow> nat list \<Rightarrow> nat \<Rightarrow> nat list \<Rightarrow> bool" where
  "apart h d ds s ss \<longleftrightarrow> is_list h d ds \<and> is_list h s ss \<and> set (d # ds) \<inter> set (s # ss) = {} \<and>
     length ds + length ss \<le> unat (lh_max h d) \<and> length ds + length ss < lh_bound h"

lemma merge_step:
  assumes a: "apart h d (pre @ rest) s (y # ss)" and q: "q = hd (rest @ [d])"
  shows "\<exists>h0 h1. list_delete s y h = Inr (y, h0) \<and> list_ins_before d y q h0 = Inr ((), h1) \<and>
    apart h1 d (pre @ y # rest) s ss \<and> touches (set (d # pre @ rest) \<union> set (s # y # ss)) F h h1"
proof -
  let ?N = "set (d # pre @ rest) \<union> set (s # y # ss)"
  from a have l: "is_list h d (pre @ rest)" "is_list h s (y # ss)" "set (d # pre @ rest) \<inter> set (s # y # ss) = {}"
    by (auto simp: apart_def)
  let ?h1 = "del_at h s s y (hd (ss @ [s]))" and ?p = "last (d # pre)"
  let ?h2 = "ins_at ?h1 d ?p y q"
  have del: "list_delete s y h = Inr (y, ?h1)" using list_delete_run [of h s "[]" y ss] l(2) by simp
  have s1: "is_list ?h1 s ss" "is_free ?h1 y" using del_at_list [of h s "[]" y ss] l(2) by simp_all
  have hin: "hd (ss @ [s]) \<in> set (s # ss)" by (cases ss) auto
  have t1: "touches (set (s # y # ss)) F h ?h1" using hin by (intro touches_del) auto
  have d1: "is_list ?h1 d (pre @ rest)"
    using hin by (intro touches_list [OF touches_del [of _ _ _ _ "set (s # y # ss)" "{}"] l(1)]) (use l(3) in auto)
  have room: "length (pre @ rest) < unat (lh_max ?h1 d)" "Suc (length (pre @ rest)) < lh_bound ?h1"
    using a by (auto simp: apart_def del_at_def)
  have ins: "list_ins_before d y q ?h1 = Inr ((), ?h2)"
    unfolding q by (rule ins_before_run [OF d1 s1(2) room(1)])
  have d2: "is_list ?h2 d (pre @ y # rest)" unfolding q by (rule ins_at_list [OF d1 s1(2) room])
  have qin: "q \<in> set (d # rest)" unfolding q by (cases rest) auto
  have pin: "?p \<in> set (d # pre)" by (rule last_cons_in)
  have t2: "touches (set (d # y # pre @ rest)) {} ?h1 ?h2"
    by (rule touches_ins) (use qin pin in \<open>auto simp del: last.simps\<close>)
  have "y \<notin> set (s # ss)" using l(2) by (auto simp: is_list_def)
  then have s2: "is_list ?h2 s ss" by (intro touches_list [OF t2 s1(1)]) (use l(3) in auto)
  have "touches ?N F h ?h1" "touches ?N F ?h1 ?h2"
    by (rule touches_mono [OF t1], simp, blast, simp) (rule touches_mono [OF t2], auto)
  then have t: "touches ?N F h ?h2" by (rule touches_trans)
  have "apart ?h2 d (pre @ y # rest) s ss"
    using d2 s2 a \<open>y \<notin> set (s # ss)\<close> by (auto simp: apart_def ins_at_def del_at_def)
  with t del ins show ?thesis by blast
qed

definition has_data :: "'d lheap \<Rightarrow> (nat \<Rightarrow> 'd) \<Rightarrow> nat list \<Rightarrow> bool" where
  "has_data h D xs \<longleftrightarrow> (\<forall>x \<in> set xs. lh_data h x = Some (D x))"

lemma has_data_touches: "touches N {} h h' \<Longrightarrow> has_data h D xs \<Longrightarrow> has_data h' D xs"
  by (simp add: has_data_def touches_def)

lemma merge_loop_run:
  assumes "apart h d (pre @ rest) s ss" and "has_data h D (pre @ rest @ ss)" and "length rest + length ss < k"
  shows "\<exists>h' pre' rest' ss'. merge_loop k d s cmp (hd (rest @ [d])) (hd (ss @ [s])) h =
      Inr ((hd (rest' @ [d]), hd (ss' @ [s])), h') \<and> (rest' = [] \<or> ss' = []) \<and>
      apart h' d (pre' @ rest') s ss' \<and> pre' @ rest' @ ss' = pre @ merge_seq cmp D rest ss \<and>
      touches (set (d # pre @ rest) \<union> set (s # ss)) {} h h'"
  using assms
proof (induction k arbitrary: h pre rest ss)
  case 0
  then show ?case by simp
next
  case (Suc k)
  note a = Suc.prems(1)
  show ?case
  proof (cases "rest = [] \<or> ss = []")
    case True
    then have "merge_loop (Suc k) d s cmp (hd (rest @ [d])) (hd (ss @ [s])) h =
        Inr ((hd (rest @ [d]), hd (ss @ [s])), h)" by (auto simp: run)
    moreover have "merge_seq cmp D rest ss = rest @ ss" using True by auto
    ultimately show ?thesis using a True touches_refl by (intro exI [of _ h] exI [of _ pre] exI [of _ rest] exI [of _ ss]) simp
  next
    case False
    then obtain x xs y ys where c: "rest = x # xs" "ss = y # ys" by (auto simp: neq_Nil_conv)
    from a c have l: "is_list h d (pre @ x # xs)" "is_list h s (y # ys)" by (auto simp: apart_def)
    have ne: "x \<noteq> d" "y \<noteq> s" "x \<noteq> 0" "lh_live h x" "y \<noteq> 0" "lh_live h y"
      using l by (auto simp: is_list_def)
    have dat: "lnode_get x h = Inr (D x, h)" "lnode_get y h = Inr (D y, h)"
      using Suc.prems(2) ne c by (simp_all add: list_run has_data_def)
    have nxt: "lh_next h y = hd (ys @ [s])" "lh_next h x = hd (xs @ [d])"
      using around(1) [of h s "[y]" ys] around(1) [of h d "pre @ [x]" xs] l by simp_all
    show ?thesis
    proof (cases "cmp (D x) (D y) \<ge> 0")
      case True
      from merge_step [of h d pre "x # xs" s y ys x "{}"] a c obtain h0 h1 where
        h1: "list_delete s y h = Inr (y, h0)" "list_ins_before d y x h0 = Inr ((), h1)"
        "apart h1 d (pre @ y # x # xs) s ys" "touches (set (d # pre @ x # xs) \<union> set (s # y # ys)) {} h h1"
        by auto
      have "has_data h1 D ((pre @ [y]) @ (x # xs) @ ys)"
        using has_data_touches [OF h1(4) Suc.prems(2)] c by (auto simp: has_data_def)
      with Suc.IH [of h1 "pre @ [y]" "x # xs" ys] h1(3) Suc.prems(3) c obtain h' pre' rest' ss' where
        r: "merge_loop k d s cmp x (hd (ys @ [s])) h1 = Inr ((hd (rest' @ [d]), hd (ss' @ [s])), h')"
        "rest' = [] \<or> ss' = []" "apart h' d (pre' @ rest') s ss'"
        "pre' @ rest' @ ss' = (pre @ [y]) @ merge_seq cmp D (x # xs) ys"
        "touches (set (d # (pre @ [y]) @ x # xs) \<union> set (s # ys)) {} h1 h'" by auto
      have t: "touches (set (d # pre @ rest) \<union> set (s # ss)) {} h h'"
        by (rule touches_trans [OF touches_mono [OF h1(4)] touches_mono [OF r(5)]]) (use c in auto)
      have "merge_loop (Suc k) d s cmp (hd (rest @ [d])) (hd (ss @ [s])) h = Inr ((hd (rest' @ [d]), hd (ss' @ [s])), h')"
        using c ne dat nxt h1(1,2) r(1) True by (simp add: run list_run)
      moreover have "pre' @ rest' @ ss' = pre @ merge_seq cmp D rest ss" using r(4) c True by simp
      ultimately show ?thesis using r(2,3) t by blast
    next
      case False
      have "apart h d ((pre @ [x]) @ xs) s ss" "has_data h D ((pre @ [x]) @ xs @ ss)"
        using a Suc.prems(2) c by simp_all
      with Suc.IH [of h "pre @ [x]" xs ss] Suc.prems(3) c obtain h' pre' rest' ss' where
        r: "merge_loop k d s cmp (hd (xs @ [d])) (hd (ss @ [s])) h = Inr ((hd (rest' @ [d]), hd (ss' @ [s])), h')"
        "rest' = [] \<or> ss' = []" "apart h' d (pre' @ rest') s ss'"
        "pre' @ rest' @ ss' = (pre @ [x]) @ merge_seq cmp D xs ss"
        "touches (set (d # (pre @ [x]) @ xs) \<union> set (s # ss)) {} h h'" by auto
      have "merge_loop (Suc k) d s cmp (hd (rest @ [d])) (hd (ss @ [s])) h = Inr ((hd (rest' @ [d]), hd (ss' @ [s])), h')"
        using c ne dat nxt r(1) False by (simp add: run list_run)
      moreover have "pre' @ rest' @ ss' = pre @ merge_seq cmp D rest ss" using r(4) c False by simp
      moreover have "touches (set (d # pre @ rest) \<union> set (s # ss)) {} h h'" using r(5) c by simp
      ultimately show ?thesis using r(2,3) by blast
    qed
  qed
qed

text \<open>The merged list is one a sorted list again, and the second list is empty afterwards.\<close>

lemma merge_run:
  assumes a: "apart h d ds s ss" and "has_data h D (ds @ ss)"
    and sorted: "in_order cmp (map D ds)" "in_order cmp (map D ss)"
  shows "\<exists>h'. list_merge d s cmp h = Inr ((), h') \<and> apart h' d (merge_seq cmp D ds ss) s [] \<and>
    touches (set (d # ds) \<union> set (s # ss)) {} h h'"
proof -
  from a have l: "is_list h d ds" "is_list h s ss" "d \<noteq> s" by (auto simp: apart_def)
  have dat: "\<forall>x \<in> set ds. lh_data h x = Some (D x)" "\<forall>x \<in> set ss. lh_data h x = Some (D x)"
    using assms(2) by (auto simp: has_data_def)
  note so = is_sorted_run [OF l(1) dat(1)] is_sorted_run [OF l(2) dat(2)]
  have cnt: "lh_count h s \<le> lh_count h s + lh_count h d"
  proof -
    have "length ds + length ss < 2 ^ 64"
      using a unsigned_less [of "lh_max h d", where 'a = nat] by (auto simp: apart_def)
    then have "unat (lh_count h s + lh_count h d) = length ss + length ds"
      using count_unat [OF l(1)] count_unat [OF l(2)] by (simp add: unat_word_ariths)
    with count_unat [OF l(2)] show ?thesis by (simp add: word_le_nat_alt)
  qed
  have nxt: "lh_next h d = hd (ds @ [d])" "lh_next h s = hd (ss @ [s])"
    using around(1) [of h d "[]" ds] around(1) [of h s "[]" ss] l by simp_all
  from merge_loop_run [of h d "[]" ds s ss D "lh_bound h" cmp] a assms(2) obtain h1 pre rest ss1 where
    r: "merge_loop (lh_bound h) d s cmp (hd (ds @ [d])) (hd (ss @ [s])) h = Inr ((hd (rest @ [d]), hd (ss1 @ [s])), h1)"
    "rest = [] \<or> ss1 = []" "apart h1 d (pre @ rest) s ss1" "pre @ rest @ ss1 = merge_seq cmp D ds ss"
    "touches (set (d # ds) \<union> set (s # ss)) {} h h1"
    by (auto simp: apart_def)
  have ends: "hd (rest @ [d]) = d \<longleftrightarrow> rest = []" "hd (ss1 @ [s]) = s \<longleftrightarrow> ss1 = []"
    using r(3) by (cases rest; auto simp: apart_def is_list_def) (cases ss1; use r(3) in \<open>auto simp: apart_def is_list_def\<close>)
  show ?thesis
  proof (cases "rest = [] \<and> ss1 \<noteq> []")
    case True
    with r(3) have c: "can_move h1 d s pre [] ss1 []" by (auto simp: apart_def can_move_def)
    let ?h2 = "moved_at h1 d s pre [] ss1 []"
    have "list_transfer d s (hd ss1) h1 = Inr ((), ?h2)" by (rule transfer_run [OF c])
    then have "list_merge d s cmp h = Inr ((), ?h2)"
      using l is_listD(1,2) [OF l(1)] is_listD(1,2) [OF l(2)] cnt sorted nxt r(1) ends True
      by (simp add: list_merge_def run list_run so)
    moreover have "apart ?h2 d (merge_seq cmp D ds ss) s []"
      using moved_lists [OF c] r(3) True is_listD(3) [of h1 s ss1] unfolding r(4) [symmetric] by (auto simp: apart_def)
    moreover have "touches (set (d # ds) \<union> set (s # ss)) {} h ?h2"
    proof -
      have "set (merge_seq cmp D ds ss) \<subseteq> set ds \<union> set ss" by (induction cmp D ds ss rule: merge_seq.induct) auto
      then have "touches (set (d # ds) \<union> set (s # ss)) {} h1 ?h2"
        using r(4) True by (intro touches_moved [OF c]) (auto simp flip: r(4))
      with r(5) show ?thesis by (rule touches_trans)
    qed
    ultimately show ?thesis by blast
  next
    case False
    then have "list_merge d s cmp h = Inr ((), h1)"
      using l is_listD(1,2) [OF l(1)] is_listD(1,2) [OF l(2)] cnt sorted nxt r(1,2) ends
      by (auto simp: list_merge_def run list_run so)
    moreover have "ss1 = []" using False r(2) by auto
    ultimately show ?thesis using r(3-5) by auto
  qed
qed

end
