(* ===== verification/Kazlib_List_Sort.thy ===== *)
theory Kazlib_List_Sort
  imports Kazlib_List_Merge "HOL-Library.Multiset"
begin

text \<open>
  \<^verbatim>\<open>list_sort\<close>: what it does to the sequence of nodes (\<open>msort\<close>), that this is the sorted sequence in
  which equal elements stand in reverse order, and that one activation, with the list it keeps in
  its stack frame, does exactly this.
\<close>

section \<open>Sorting\<close>

text \<open>What the caller promises of its comparison.\<close>

definition compares :: "('d \<Rightarrow> 'd \<Rightarrow> int) \<Rightarrow> bool" where
  "compares cmp \<longleftrightarrow> (\<forall>a b. sgn (cmp b a) = - sgn (cmp a b)) \<and>
     (\<forall>a b c. cmp a b \<le> 0 \<longrightarrow> cmp b c \<le> 0 \<longrightarrow> cmp a c \<le> 0)"

lemma compares_swap:
  assumes "compares cmp"
  shows "cmp a b \<ge> 0 \<longleftrightarrow> cmp b a \<le> 0" and "cmp a b < 0 \<longleftrightarrow> cmp b a > 0"
proof -
  have "sgn (cmp b a) = - sgn (cmp a b)" using assms unfolding compares_def by blast
  moreover have "sgn k \<le> 0 \<longleftrightarrow> k \<le> 0" "sgn k > 0 \<longleftrightarrow> k > 0" "sgn k < 0 \<longleftrightarrow> k < 0" "sgn k \<ge> 0 \<longleftrightarrow> k \<ge> 0" for k :: int
    unfolding sgn_if by auto
  ultimately show "cmp a b \<ge> 0 \<longleftrightarrow> cmp b a \<le> 0" "cmp a b < 0 \<longleftrightarrow> cmp b a > 0"
    by (metis neg_le_0_iff_le, metis neg_0_less_iff_less)
qed

lemma compares_trans: "compares cmp \<Longrightarrow> cmp a b \<le> 0 \<Longrightarrow> cmp b c \<le> 0 \<Longrightarrow> cmp a c \<le> 0"
  unfolding compares_def by blast

lemma compares_less: "compares cmp \<Longrightarrow> cmp a b < 0 \<Longrightarrow> cmp b c \<le> 0 \<Longrightarrow> cmp a c < 0"
  by (metis compares_swap compares_trans linorder_not_less)

lemma compares_equal: "compares cmp \<Longrightarrow> cmp k a = 0 \<Longrightarrow> cmp a b < 0 \<Longrightarrow> cmp k b < 0"
  by (metis compares_swap compares_trans linorder_not_less order_refl)

lemma in_order_wrt: "compares cmp \<Longrightarrow> in_order cmp ds \<longleftrightarrow> sorted_wrt (\<lambda>d e. cmp d e \<le> 0) ds"
  by (induction cmp ds rule: in_order.induct) (auto intro: compares_trans)

lemma in_order_append: "in_order cmp (xs @ [d, e]) \<longleftrightarrow> in_order cmp (xs @ [d]) \<and> cmp d e \<le> 0"
  by (induction cmp xs rule: in_order.induct) auto

lemma merge_seq_mset [simp]: "mset (merge_seq cmp D xs ys) = mset xs + mset ys"
  by (induction cmp D xs ys rule: merge_seq.induct) auto

lemma merge_seq_in_order:
  assumes "compares cmp"
  shows "in_order cmp (map D xs) \<Longrightarrow> in_order cmp (map D ys) \<Longrightarrow> in_order cmp (map D (merge_seq cmp D xs ys))"
  using assms
proof (induction cmp D xs ys rule: merge_seq.induct)
  case (1 cmp D x xs y ys)
  show ?case
  proof (cases "cmp (D x) (D y) \<ge> 0")
    case True
    then have "cmp (D y) (D x) \<le> 0" using compares_swap [OF 1(5)] by blast
    with 1 True show ?thesis by (cases ys) auto
  next
    case False
    with 1 show ?thesis by (cases xs) auto
  qed
qed auto

lemma merge_seq_equal:
  "compares cmp \<Longrightarrow> in_order cmp (map D xs) \<Longrightarrow> in_order cmp (map D ys) \<Longrightarrow>
   filter (\<lambda>x. cmp key (D x) = 0) (merge_seq cmp D xs ys) =
     filter (\<lambda>x. cmp key (D x) = 0) ys @ filter (\<lambda>x. cmp key (D x) = 0) xs"
proof (induction cmp D xs ys rule: merge_seq.induct)
  case (1 cmp D x xs y ys)
  show ?case
  proof (cases "cmp (D x) (D y) \<ge> 0")
    case True
    with 1 show ?thesis by (cases ys) auto
  next
    case False
    have "filter (\<lambda>x. cmp key (D x) = 0) (y # ys) = []" if "cmp key (D x) = 0"
    proof -
      have "cmp key (D z) < 0" if "z \<in> set (y # ys)" for z
      proof -
        have "cmp (D x) (D z) < 0"
          using that 1(3,5) False by (auto simp: in_order_wrt intro: compares_less [of cmp _ "D y"])
        with \<open>cmp key (D x) = 0\<close> show ?thesis using 1(3) by (rule compares_equal [rotated])
      qed
      then show ?thesis by (force simp: filter_empty_conv)
    qed
    with 1 False show ?thesis by (cases xs) auto
  qed
qed auto

text \<open>\<^verbatim>\<open>list_sort\<close> on sequences: a merge sort that takes the second half first.\<close>

fun msort :: "('d \<Rightarrow> 'd \<Rightarrow> int) \<Rightarrow> (nat \<Rightarrow> 'd) \<Rightarrow> nat list \<Rightarrow> nat list" where
  "msort cmp D xs =
     (if length xs \<le> 1 then xs
      else merge_seq cmp D (msort cmp D (take (length xs div 2) xs)) (msort cmp D (drop (length xs div 2) xs)))"

declare msort.simps [simp del]

lemma msort_correct:
  assumes "compares cmp"
  shows "mset (msort cmp D xs) = mset xs \<and> in_order cmp (map D (msort cmp D xs)) \<and>
    filter (\<lambda>x. cmp key (D x) = 0) (msort cmp D xs) = rev (filter (\<lambda>x. cmp key (D x) = 0) xs)"
  using assms
proof (induction cmp D xs rule: msort.induct)
  case (1 cmp D xs)
  let ?n = "length xs div 2"
  show ?case
  proof (cases "length xs \<le> 1")
    case True
    then have "msort cmp D xs = xs" by (simp add: msort.simps)
    moreover from True have "xs = [] \<or> (\<exists>x. xs = [x])" by (cases xs) auto
    ultimately show ?thesis by auto
  next
    case False
    then have m: "msort cmp D xs = merge_seq cmp D (msort cmp D (take ?n xs)) (msort cmp D (drop ?n xs))"
      by (simp add: msort.simps [of cmp D xs])
    note a = 1(1) [OF False 1(3)] and b = 1(2) [OF False 1(3)]
    let ?P = "\<lambda>x. cmp key (D x) = 0"
    have x: "mset xs = mset (take ?n xs) + mset (drop ?n xs)"
      "filter ?P xs = filter ?P (take ?n xs) @ filter ?P (drop ?n xs)"
      by (metis append_take_drop_id mset_append, metis append_take_drop_id filter_append)
    have "mset (msort cmp D xs) = mset xs"
      using a b unfolding m merge_seq_mset x(1) by simp
    moreover have "in_order cmp (map D (msort cmp D xs))"
      unfolding m using a b 1(3) by (intro merge_seq_in_order) auto
    moreover have "filter ?P (msort cmp D xs) = rev (filter ?P xs)"
    proof -
      have "filter ?P (msort cmp D xs) =
          filter ?P (msort cmp D (drop ?n xs)) @ filter ?P (msort cmp D (take ?n xs))"
        unfolding m using a b 1(3) by (intro merge_seq_equal) auto
      with a b show ?thesis unfolding x(2) rev_append by simp
    qed
    ultimately show ?thesis by blast
  qed
qed

lemma msort_length: "compares cmp \<Longrightarrow> length (msort cmp D xs) = length xs"
  by (rule mset_eq_length) (simp add: msort_correct)

lemma msort_set: "compares cmp \<Longrightarrow> set (msort cmp D xs) = set xs"
  by (rule mset_eq_setD) (simp add: msort_correct)

section \<open>One activation\<close>

definition entered :: "'d lheap \<Rightarrow> nat \<Rightarrow> u64 \<Rightarrow> 'd lheap" where
  "entered h a m = h\<lparr>lh_live := (lh_live h)(a := True), lh_data := (lh_data h)(a := None),
     lh_next := (lh_next h)(a := a), lh_prev := (lh_prev h)(a := a), lh_count := (lh_count h)(a := 0),
     lh_max := (lh_max h)(a := m)\<rparr>"

lemma enter_run:
  assumes "a \<noteq> 0" and "m \<noteq> 0"
  obtains h0 where "enter_frame a h = Inr ((), h0)" and "list_init a m h0 = Inr (a, entered h a m)"
  using assms by (simp add: enter_frame_def list_init_def run list_run entered_def touch_def)

lemma entered_lists:
  assumes "a \<noteq> 0" and "is_list h l xs" and "a \<notin> set (l # xs)"
  shows "is_list (entered h a m) a []" and "is_list (entered h a m) l xs"
proof -
  show "is_list (entered h a m) a []" using assms by (simp add: is_list_def entered_def)
  show "is_list (entered h a m) l xs"
    by (rule is_list_cong [OF assms(2)]) (use assms(3) in \<open>auto simp: entered_def\<close>)
qed

lemma advance_run:
  "dl (lh_next h) (lh_prev h) p xs q \<Longrightarrow> 0 \<notin> set xs \<Longrightarrow> \<forall>x \<in> set xs. lh_live h x \<Longrightarrow> n \<le> length xs \<Longrightarrow>
   advance n (hd (xs @ [q])) h = Inr (hd (drop n xs @ [q]), h)"
proof (induction xs arbitrary: p n)
  case Nil
  then show ?case by (simp add: run)
next
  case (Cons x xs)
  show ?case
  proof (cases n)
    case 0
    then show ?thesis by (simp add: run)
  next
    case (Suc m)
    have "advance m (hd (xs @ [q])) h = Inr (hd (drop m xs @ [q]), h)"
      using Cons.prems Suc by (intro Cons.IH) auto
    with Cons.prems Suc show ?thesis using dl_first [of "lh_next h" "lh_prev h" x xs q] by (simp add: run list_run)
  qed
qed

text \<open>The stack below: its frames are not yet in use, and do not overlap.\<close>

definition frames_free :: "'d lheap \<Rightarrow> (nat \<Rightarrow> nat) \<Rightarrow> nat \<Rightarrow> bool" where
  "frames_free h frame i \<longleftrightarrow> inj frame \<and> (\<forall>j \<ge> i. frame j \<noteq> 0 \<and> \<not> lh_live h (frame j))"

abbreviation frames :: "(nat \<Rightarrow> nat) \<Rightarrow> nat \<Rightarrow> nat set" where
  "frames frame i \<equiv> frame ` {i..}"

lemma frames_free_Suc: "frames_free h frame i \<Longrightarrow> frames_free (entered h (frame i) m) frame (Suc i)"
  by (auto simp: frames_free_def entered_def inj_eq)

lemma frames_free_touches: "touches N F h h' \<Longrightarrow> frames_free h frame i = frames_free h' frame i"
  by (simp add: frames_free_def touches_def)

lemma frames_outside: "frames_free h frame i \<Longrightarrow> is_list h l xs \<Longrightarrow> set (l # xs) \<inter> frames frame i = {}"
  by (auto simp: frames_free_def is_list_def)

lemma has_data_frames:
  "touches N (frames frame i) h h' \<Longrightarrow> set xs \<inter> frames frame i = {} \<Longrightarrow> has_data h D xs \<Longrightarrow> has_data h' D xs"
  by (auto simp: has_data_def touches_def disjoint_iff)

lemma is_list_leave:
  assumes "is_list h l xs" and "a \<notin> set (l # xs)"
  shows "is_list (h\<lparr>lh_live := (lh_live h)(a := False)\<rparr>) l xs"
  by (rule is_list_cong [OF assms(1)]) (use assms(2) in auto)

lemma half_word: "unat (c div 2) = unat c div 2" for c :: u64
  by (simp add: unat_div)

lemma sort_at_run:
  assumes "compares cmp"
  shows "is_list h l xs \<Longrightarrow> has_data h D xs \<Longrightarrow> frames_free h frame i \<Longrightarrow> length xs < k \<Longrightarrow>
    \<exists>h'. sort_at k frame i cmp l h = Inr ((), h') \<and> is_list h' l (msort cmp D xs) \<and>
      touches (set (l # xs)) (frames frame i) h h'"
proof (induction k arbitrary: h l xs i)
  case 0
  then show ?case by simp
next
  case (Suc k)
  note l = Suc.prems(1)
  let ?c = "lh_count h l"
  have c: "unat ?c = length xs" by (rule count_unat [OF l])
  show ?case
  proof (cases "length xs \<le> 1")
    case True
    then have "\<not> 1 < ?c" using c by (simp add: word_less_nat_alt)
    moreover have "msort cmp D xs = xs" using True by (simp add: msort.simps)
    moreover have "in_order cmp (map D xs)" using True by (cases xs) auto
    ultimately show ?thesis
      using is_listD(1,2) [OF l] is_sorted_run [OF l, of D cmp] Suc.prems(1,2)
      by (intro exI [of _ h]) (simp add: run list_run has_data_def touches_refl)
  next
    case False
    define n where "n = length xs div 2"
    define as where "as = take n xs"
    define bs where "bs = drop n xs"
    define a where "a = frame i"
    have xs: "xs = as @ bs" and len: "length as = n" "length bs = length xs - n" "n < length xs" "0 < n"
      using False by (auto simp: as_def bs_def n_def)
    have lk: "length as < k" "length bs < k" using len Suc.prems(4) by linarith+
    have ne: "as \<noteq> []" "bs \<noteq> []" using len by auto
    have one: "1 < ?c" using False c by (simp add: word_less_nat_alt)
    let ?m = "?c - ?c div 2"
    have "?c div 2 \<le> ?c" using c by (simp add: word_le_nat_alt half_word)
    then have m: "unat ?m = length bs" using c len by (simp add: unat_sub half_word n_def)
    then have m0: "?m \<noteq> 0" using ne by auto
    have a: "a \<noteq> 0" "\<not> lh_live h a" "a \<notin> set (l # xs)"
      using Suc.prems(1,3) by (auto simp: a_def frames_free_def is_list_def)
    let ?h1 = "entered h a ?m"
    note l1 = entered_lists [OF a(1) l a(3), of ?m]
    have cm: "can_move ?h1 a l [] as bs []"
      using l1 a(3) xs ne m is_listD(10) [OF l] by (auto simp: can_move_def entered_def)
    let ?h2 = "moved_at ?h1 a l [] as bs []"
    have adv: "advance (unat (?c div 2)) (hd (xs @ [l])) ?h1 = Inr (hd bs, ?h1)"
      using advance_run [of ?h1 l xs l "unat (?c div 2)"] l1(2) ne c
      by (simp add: half_word is_list_def bs_def n_def)
    have tr: "list_transfer a l (hd bs) ?h1 = Inr ((), ?h2)" using transfer_run [OF cm] by simp
    have l2: "is_list ?h2 l as" "is_list ?h2 a bs" using moved_lists [OF cm] by simp_all
    have t01: "has_data ?h2 D (as @ bs)" "frames_free ?h2 frame (Suc i)"
      using Suc.prems(2,3) a(3) xs frames_free_Suc [OF Suc.prems(3), of ?m]
      by (auto simp: has_data_def entered_def frames_free_def a_def)
    obtain h3 where h3: "sort_at k frame (Suc i) cmp l ?h2 = Inr ((), h3)" "is_list h3 l (msort cmp D as)"
      "touches (set (l # as)) (frames frame (Suc i)) ?h2 h3"
      using Suc.IH [OF l2(1) _ t01(2)] t01(1) lk(1) by (auto simp: has_data_def)
    have f2: "set (l # as) \<inter> frames frame (Suc i) = {}" "set (a # bs) \<inter> frames frame (Suc i) = {}"
      by (rule frames_outside [OF t01(2) l2(1)], rule frames_outside [OF t01(2) l2(2)])
    have f3: "set (as @ bs) \<inter> frames frame (Suc i) = {}" using f2 by auto
    have dis: "set (l # as) \<inter> set (a # bs) = {}" using a(3) xs is_listD(3,4) [OF l] by auto
    have l3: "is_list h3 a bs" by (rule touches_list [OF h3(3) l2(2)]) (use dis f2 in blast)
    have d3: "has_data h3 D (as @ bs)" "frames_free h3 frame (Suc i)"
      using has_data_frames [OF h3(3) f3 t01(1)] frames_free_touches [OF h3(3)] t01(2) by blast+
    obtain h4 where h4: "sort_at k frame (Suc i) cmp a h3 = Inr ((), h4)" "is_list h4 a (msort cmp D bs)"
      "touches (set (a # bs)) (frames frame (Suc i)) h3 h4"
      using Suc.IH [OF l3 _ d3(2)] d3(1) lk(2) by (auto simp: has_data_def)
    let ?as = "msort cmp D as" and ?bs = "msort cmp D bs"
    have sets: "set ?as = set as" "set ?bs = set bs" "length ?as = length as" "length ?bs = length bs"
      using msort_set [OF assms] msort_length [OF assms] by auto
    have l4: "is_list h4 l ?as"
      by (rule touches_list [OF h4(3) h3(2)]) (use dis f2 sets in auto)
    have rest: "lh_max h4 l = lh_max h l" "lh_bound h4 = lh_bound h"
    proof -
      have "l \<notin> frames frame (Suc i)" "l \<noteq> a" using f2(1) a(3) by auto
      with h3(3) h4(3) show "lh_max h4 l = lh_max h l" "lh_bound h4 = lh_bound h"
        by (auto simp: touches_def entered_def)
    qed
    have ap: "apart h4 l ?as a ?bs"
      using l4 h4(2) dis sets len rest is_listD(9,10) [OF l] by (simp add: apart_def)
    have d4: "has_data h4 D (?as @ ?bs)"
      using has_data_frames [OF h4(3) f3 d3(1)] sets by (auto simp: has_data_def)
    obtain h5 where h5: "list_merge l a cmp h4 = Inr ((), h5)" "apart h5 l (merge_seq cmp D ?as ?bs) a []"
      "touches (set (l # ?as) \<union> set (a # ?bs)) {} h4 h5"
      using merge_run [OF ap d4] msort_correct [OF assms] by blast
    let ?h6 = "h5\<lparr>lh_live := (lh_live h5)(a := False)\<rparr>"
    have ms: "merge_seq cmp D ?as ?bs = msort cmp D xs"
      using False by (simp add: msort.simps [of cmp D xs] as_def bs_def n_def)
    have l5: "is_list h5 l (msort cmp D xs)" using h5(2) unfolding apart_def ms by blast
    have l6: "is_list ?h6 l (msort cmp D xs)"
      by (rule is_list_leave [OF l5]) (use a(3) msort_set [OF assms] in auto)
    have t5: "touches (set (l # xs) \<union> {a}) (frames frame (Suc i)) ?h1 h5"
    proof -
      have "touches (set (l # xs) \<union> {a}) (frames frame (Suc i)) ?h1 ?h2"
        by (rule touches_moved [OF cm]) (auto simp: xs)
      moreover have "touches (set (l # xs) \<union> {a}) (frames frame (Suc i)) ?h2 h3"
        by (rule touches_mono [OF h3(3)]) (auto simp: xs)
      moreover have "touches (set (l # xs) \<union> {a}) (frames frame (Suc i)) h3 h4"
        by (rule touches_mono [OF h4(3)]) (auto simp: xs)
      moreover have "touches (set (l # xs) \<union> {a}) (frames frame (Suc i)) h4 h5"
        by (rule touches_mono [OF h5(3)]) (auto simp: xs sets)
      ultimately show ?thesis by (blast intro: touches_trans)
    qed
    have "{i..} = insert i {Suc i..}" by auto
    then have "frames frame i = insert a (frames frame (Suc i))" by (simp add: a_def)
    then have t6: "touches (set (l # xs)) (frames frame i) h ?h6"
      using t5 a(2) by (auto simp: touches_def entered_def fun_eq_iff)
    have s6: "list_is_sorted l cmp ?h6 = Inr (True, ?h6)"
    proof -
      have "has_data ?h6 D (msort cmp D xs)"
        using d4 h5(3) sets msort_set [OF assms, of D xs] by (auto simp: has_data_def touches_def xs)
      then show ?thesis
        using is_sorted_run [OF l6, of D cmp] msort_correct [OF assms, of D xs] by (simp add: has_data_def)
    qed
    have "sort_at (Suc k) frame i cmp l h = Inr ((), ?h6)"
    proof -
      have "get_next l h = Inr (hd (xs @ [l]), h)"
        using is_listD(1,2,7) [OF l] by (simp add: list_run dl_first)
      moreover obtain h0 where "enter_frame a h = Inr ((), h0)" "list_init a ?m h0 = Inr (a, ?h1)"
        by (rule enter_run [OF a(1) m0])
      moreover have "leave_frame a h5 = Inr ((), ?h6)" by (simp add: leave_frame_def run)
      ultimately show ?thesis
        using one is_listD(1,2) [OF l] adv tr h3(1) h4(1) h5(1) s6
        by (simp add: run list_run flip: a_def)
    qed
    with l6 t6 show ?thesis by blast
  qed
qed

end
