(* ===== verification/Kazlib_List_Store.thy ===== *)
theory Kazlib_List_Store
  imports Kazlib_List_Sort
begin

text \<open>
  A store with any number of lists and nodes against sequences: the abstract state says which
  sequence of nodes each list has and what each node carries, and every call of the library runs
  without a fault and does to it what \<open>seq_spec\<close> says.
\<close>

section \<open>The abstract state\<close>

record 'd seqs =
  sq_lists :: "nat \<Rightarrow> nat list option"
  sq_cap :: "nat \<Rightarrow> nat"
  sq_data :: "nat \<Rightarrow> 'd option"

definition unused :: "'d seqs \<Rightarrow> nat \<Rightarrow> bool" where
  "unused A n \<longleftrightarrow> (\<forall>l xs. sq_lists A l = Some xs \<longrightarrow> n \<notin> set xs)"

definition store_ok :: "(nat \<Rightarrow> nat) \<Rightarrow> 'd lheap \<Rightarrow> 'd seqs \<Rightarrow> bool" where
  "store_ok frame h A \<longleftrightarrow>
     (\<forall>l xs. sq_lists A l = Some xs \<longrightarrow> is_list h l xs \<and> set xs \<subseteq> dom (sq_data A) \<and> sq_data A l = None \<and>
        unat (lh_max h l) = sq_cap A l) \<and>
     (\<forall>l k xs ys. sq_lists A l = Some xs \<longrightarrow> sq_lists A k = Some ys \<longrightarrow> l \<noteq> k \<longrightarrow> set xs \<inter> set ys = {}) \<and>
     (\<forall>n d. sq_data A n = Some d \<longrightarrow> n \<noteq> 0 \<and> lh_live h n \<and> lh_data h n = Some d \<and> (unused A n \<longrightarrow> is_free h n)) \<and>
     finite (dom (sq_data A)) \<and> card (dom (sq_data A)) < lh_bound h \<and> frames_free h frame 0 \<and>
     (\<forall>l xs. sq_lists A l = Some xs \<longrightarrow> sq_cap A l \<noteq> 0)"

lemma store_okI:
  assumes "\<And>l xs. sq_lists A l = Some xs \<Longrightarrow> is_list h l xs \<and> set xs \<subseteq> dom (sq_data A) \<and> sq_data A l = None \<and>
      unat (lh_max h l) = sq_cap A l"
    and "\<And>l k xs ys. sq_lists A l = Some xs \<Longrightarrow> sq_lists A k = Some ys \<Longrightarrow> l \<noteq> k \<Longrightarrow> set xs \<inter> set ys = {}"
    and "\<And>n d. sq_data A n = Some d \<Longrightarrow>
      n \<noteq> 0 \<and> lh_live h n \<and> lh_data h n = Some d \<and> (unused A n \<longrightarrow> is_free h n)"
    and "finite (dom (sq_data A))" and "card (dom (sq_data A)) < lh_bound h" and "frames_free h frame 0"
    and "\<And>l xs. sq_lists A l = Some xs \<Longrightarrow> sq_cap A l \<noteq> 0"
  shows "store_ok frame h A"
  unfolding store_ok_def using assms by blast

lemma store_okD:
  assumes "store_ok frame h A" and "sq_lists A l = Some xs"
  shows "is_list h l xs" "set xs \<subseteq> dom (sq_data A)" "sq_data A l = None" "unat (lh_max h l) = sq_cap A l"
    "length xs < lh_bound h" "has_data h (\<lambda>x. the (sq_data A x)) xs"
proof -
  show l: "is_list h l xs" "set xs \<subseteq> dom (sq_data A)" "sq_data A l = None" "unat (lh_max h l) = sq_cap A l"
    using assms unfolding store_ok_def by blast+
  show "length xs < lh_bound h" by (rule is_listD(10) [OF l(1)])
  show "has_data h (\<lambda>x. the (sq_data A x)) xs"
    unfolding has_data_def
  proof
    fix x assume "x \<in> set xs"
    then obtain d where d: "sq_data A x = Some d" using l(2) by blast
    then have "lh_data h x = Some d" using assms(1) unfolding store_ok_def by blast
    with d show "lh_data h x = Some (the (sq_data A x))" by simp
  qed
qed

lemma store_ok_data:
  assumes "store_ok frame h A" and "sq_data A n = Some d"
  shows "n \<noteq> 0" "lh_live h n" "lh_data h n = Some d" "unused A n \<Longrightarrow> is_free h n"
  using assms unfolding store_ok_def by blast+

lemma store_ok_frames: "store_ok frame h A \<Longrightarrow> frames_free h frame 0"
  by (simp add: store_ok_def)

lemma store_ok_cap: "store_ok frame h A \<Longrightarrow> sq_lists A l = Some xs \<Longrightarrow> sq_cap A l \<noteq> 0"
  unfolding store_ok_def by blast

lemma store_ok_apart:
  assumes "store_ok frame h A" and "sq_lists A l = Some xs" and "sq_lists A k = Some ys" and "l \<noteq> k"
  shows "set (l # xs) \<inter> set (k # ys) = {}"
proof -
  have "set xs \<inter> set ys = {}" using assms unfolding store_ok_def by blast
  moreover have "l \<notin> set ys" "k \<notin> set xs"
    using store_okD(2,3) [OF assms(1,2)] store_okD(2,3) [OF assms(1,3)] by auto
  ultimately show ?thesis using assms(4) by auto
qed

lemma store_ok_card:
  assumes "store_ok frame h A" and "set xs \<subseteq> dom (sq_data A)" and "distinct xs"
  shows "length xs < lh_bound h"
  using assms card_mono [of "dom (sq_data A)" "set xs"] by (simp add: store_ok_def distinct_card)

text \<open>
  The lists in \<open>G\<close> are new, their nodes come from \<open>P\<close>, and what is left of \<open>P\<close> is free: then the
  rest of the store is as before.
\<close>

lemma store_touch:
  assumes ok: "store_ok frame h A" and t: "touches N F h h'" and F: "F \<subseteq> frames frame 0"
    and N: "N \<subseteq> dom G \<union> P"
    and G: "\<And>l ys. G l = Some ys \<Longrightarrow> is_list h' l ys \<and> set ys \<subseteq> P \<and> sq_lists A l \<noteq> None"
    and sep: "\<And>l k xs ys. G l = Some xs \<Longrightarrow> G k = Some ys \<Longrightarrow> l \<noteq> k \<Longrightarrow> set xs \<inter> set ys = {}"
    and P: "P \<subseteq> dom (sq_data A)" "\<And>l xs. sq_lists A l = Some xs \<Longrightarrow> if G l = None then set xs \<inter> P = {} else set xs \<subseteq> P"
    and left: "\<And>n. n \<in> P \<Longrightarrow> (\<forall>l ys. G l = Some ys \<longrightarrow> n \<notin> set ys) \<Longrightarrow> is_free h' n"
  shows "store_ok frame h' (A\<lparr>sq_lists := sq_lists A ++ G\<rparr>)"
proof -
  note fr = store_ok_frames [OF ok]
  have live: "x \<notin> frames frame 0" if "lh_live h x" for x using fr that by (auto simp: frames_free_def)
  have same: "lh_live h' = lh_live h" "lh_bound h' = lh_bound h"
    "\<And>x. lh_live h x \<Longrightarrow> lh_data h' x = lh_data h x \<and> lh_max h' x = lh_max h x"
    using t F live by (auto simp: touches_def)
  have hdr: "sq_data A k = None" if k: "k \<in> dom G" for k
  proof -
    from k obtain ys zs where "G k = Some ys" "sq_lists A k = Some zs" using G by blast
    then show ?thesis using store_okD(3) [OF ok] by blast
  qed
  have old: "is_list h' l xs" if "sq_lists A l = Some xs" "G l = None" for l xs
  proof (rule touches_list [OF t])
    note d = store_okD [OF ok that(1)]
    show "is_list h l xs" by (rule d(1))
    have "set (l # xs) \<inter> dom G = {}" using that(2) d(2) hdr by auto
    moreover have "set (l # xs) \<inter> P = {}" using P(1) P(2) [OF that(1)] that(2) d(3) by auto
    ultimately have "set (l # xs) \<inter> N = {}" using N by blast
    moreover have "set (l # xs) \<inter> F = {}" using F live d(1) by (auto simp: is_list_def)
    ultimately show "set (l # xs) \<inter> (N \<union> F) = {}" by blast
  qed
  have lists: "is_list h' l xs \<and> set xs \<subseteq> dom (sq_data A) \<and> sq_data A l = None \<and> unat (lh_max h' l) = sq_cap A l"
    if "(sq_lists A ++ G) l = Some xs" for l xs
  proof (cases "G l")
    case None
    then have l: "sq_lists A l = Some xs" using that by (simp add: map_add_def)
    with old [OF l None] same(3) [of l] store_okD [OF ok l] show ?thesis by (simp add: is_list_def)
  next
    case (Some ys)
    then have "xs = ys" using that by simp
    moreover obtain zs where z: "sq_lists A l = Some zs" using G [OF Some] by auto
    ultimately show ?thesis
      using G [OF Some] P(1) same(3) [of l] store_okD [OF ok z] by (auto simp: is_list_def)
  qed
  have apart: "set xs \<inter> set ys = {}"
    if "(sq_lists A ++ G) l = Some xs" "(sq_lists A ++ G) k = Some ys" "l \<noteq> k" for l k xs ys
  proof (cases "G l"; cases "G k")
    assume "G l = None" "G k = None"
    then show ?thesis using that store_ok_apart [OF ok _ _ that(3)] by (auto simp: map_add_def)
  next
    fix b assume g: "G l = None" "G k = Some b"
    then have "sq_lists A l = Some xs" "b = ys" using that by (auto simp: map_add_def)
    with g P(2) [of l xs] G [of k b] show ?thesis by auto
  next
    fix a assume g: "G l = Some a" "G k = None"
    then have "sq_lists A k = Some ys" "a = xs" using that by (auto simp: map_add_def)
    with g P(2) [of k ys] G [of l a] show ?thesis by auto
  next
    fix a b assume "G l = Some a" "G k = Some b"
    with that sep show ?thesis by (metis map_add_find_right option.inject)
  qed
  have free: "is_free h' n" if n: "sq_data A n = Some d" and u: "unused (A\<lparr>sq_lists := sq_lists A ++ G\<rparr>) n" for n d
  proof (cases "n \<in> P")
    case True
    have "n \<notin> set ys" if "G l = Some ys" for l ys
    proof -
      have "(sq_lists A ++ G) l = Some ys" using that by (simp add: map_add_def)
      with u show ?thesis by (simp add: unused_def del: map_add_Some_iff)
    qed
    then show ?thesis by (intro left [OF True]) blast
  next
    case False
    have "n \<notin> set xs" if "sq_lists A l = Some xs" for l xs
    proof (cases "G l")
      case None
      then have "(sq_lists A ++ G) l = Some xs" using that by (simp add: map_add_def)
      then show ?thesis using u by (simp add: unused_def)
    next
      case (Some b)
      then show ?thesis using P(2) [OF that] False by auto
    qed
    then have "is_free h n" using store_ok_data [OF ok n] by (auto simp: unused_def)
    moreover have "n \<notin> dom G" using hdr [of n] n by auto
    then have "n \<notin> N" using False N by blast
    moreover have "n \<notin> F" using F live [OF store_ok_data(2) [OF ok n]] by blast
    ultimately show ?thesis using t by (simp add: is_free_def touches_def)
  qed
  have "frames_free h' frame 0" using fr same(1) by (simp add: frames_free_def)
  moreover have "n \<noteq> 0 \<and> lh_live h' n \<and> lh_data h' n = Some d" if "sq_data A n = Some d" for n d
    using store_ok_data [OF ok that] same by simp
  moreover have "sq_cap A l \<noteq> 0" if l: "(sq_lists A ++ G) l = Some xs" for l xs
  proof -
    from l obtain zs where "sq_lists A l = Some zs" using G [of l] by (cases "G l") (auto simp: map_add_def)
    then show ?thesis by (rule store_ok_cap [OF ok])
  qed
  ultimately show ?thesis
    using lists apart free ok same(2) by (simp add: store_ok_def del: map_add_Some_iff)
qed

end
