(* ===== verification/Kazlib_List_Session.thy ===== *)
theory Kazlib_List_Session
  imports Kazlib_List_Store
begin

text \<open>
  The calls a client makes on the lists of a store, what each does to the abstract state, what the
  caller has to guarantee, and the simulation: every sequence of such calls runs without a fault and
  answers what sequences of nodes answer.
\<close>

section \<open>Calls\<close>

datatype 'd list_call =
    NewNode nat 'd | DropNode nat | NewList nat u64 | DropList nat | DropNodes nat
  | Append nat nat | Prepend nat nat | InsBefore nat nat nat | InsAfter nat nat nat
  | DeleteNode nat nat | DelFirst nat | DelLast nat
  | Contains nat nat | FindNode nat 'd | Count nat | First nat | Last nat | NextOf nat nat | PrevOf nat nat
  | Transfer nat nat nat | Extract nat nat nat nat | MergeInto nat nat | SortList nat | IsSorted nat

datatype list_answer = Done | Node nat | Truth bool | Amount u64

definition answering :: "('a \<Rightarrow> list_answer) \<Rightarrow> ('s, 'a) prog \<Rightarrow> ('s, list_answer) prog" where
  "answering f p = bnd p (\<lambda>x. ret (f x))"

abbreviation silently :: "('s, unit) prog \<Rightarrow> ('s, list_answer) prog" where
  "silently \<equiv> answering (\<lambda>_. Done)"

text \<open>\<open>NewNode a d\<close> is \<^verbatim>\<open>lnode_create\<close> when \<^verbatim>\<open>malloc\<close> answers \<open>a\<close>, and \<open>NewList\<close> alike.\<close>

fun list_run :: "(nat \<Rightarrow> nat) \<Rightarrow> ('d \<Rightarrow> 'd \<Rightarrow> int) \<Rightarrow> 'd list_call \<Rightarrow> ('d lheap, list_answer) prog" where
  "list_run frame cmp (NewNode a d) = answering Node (lnode_create a d)"
| "list_run frame cmp (DropNode n) = silently (lnode_destroy n)"
| "list_run frame cmp (NewList l m) = answering Node (list_create l m)"
| "list_run frame cmp (DropList l) = silently (list_destroy l)"
| "list_run frame cmp (DropNodes l) = silently (list_destroy_nodes l)"
| "list_run frame cmp (Append l n) = silently (list_append l n)"
| "list_run frame cmp (Prepend l n) = silently (list_prepend l n)"
| "list_run frame cmp (InsBefore l n t) = silently (list_ins_before l n t)"
| "list_run frame cmp (InsAfter l n t) = silently (list_ins_after l n t)"
| "list_run frame cmp (DeleteNode l n) = answering Node (list_delete l n)"
| "list_run frame cmp (DelFirst l) = answering Node (list_del_first l)"
| "list_run frame cmp (DelLast l) = answering Node (list_del_last l)"
| "list_run frame cmp (Contains l n) = answering Truth (list_contains l n)"
| "list_run frame cmp (FindNode l key) = answering Node (list_find l key cmp)"
| "list_run frame cmp (Count l) = answering Amount (list_count l)"
| "list_run frame cmp (First l) = answering Node (list_first l)"
| "list_run frame cmp (Last l) = answering Node (list_last l)"
| "list_run frame cmp (NextOf l n) = answering Node (list_next l n)"
| "list_run frame cmp (PrevOf l n) = answering Node (list_prev l n)"
| "list_run frame cmp (Transfer d s n) = silently (list_transfer d s n)"
| "list_run frame cmp (Extract d s m n) = silently (list_extract d s m n)"
| "list_run frame cmp (MergeInto d s) = silently (list_merge d s cmp)"
| "list_run frame cmp (SortList l) = silently (list_sort frame l cmp)"
| "list_run frame cmp (IsSorted l) = answering Truth (list_is_sorted l cmp)"

section \<open>Sequences\<close>

text \<open>A sequence cut at the first place where \<open>n\<close> stands, \<open>n\<close> itself in the second part.\<close>

definition until :: "nat \<Rightarrow> nat list \<Rightarrow> nat list" where
  "until n xs = takeWhile (\<lambda>x. x \<noteq> n) xs"

definition starting :: "nat \<Rightarrow> nat list \<Rightarrow> nat list" where
  "starting n xs = dropWhile (\<lambda>x. x \<noteq> n) xs"

definition or_null :: "nat list \<Rightarrow> nat" where
  "or_null xs = (case xs of [] \<Rightarrow> 0 | x # _ \<Rightarrow> x)"

abbreviation nodes_of :: "'d seqs \<Rightarrow> nat \<Rightarrow> nat list" where
  "nodes_of A l \<equiv> the (sq_lists A l)"

abbreviation data_of :: "'d seqs \<Rightarrow> nat \<Rightarrow> 'd" where
  "data_of A n \<equiv> the (sq_data A n)"

definition put :: "nat \<Rightarrow> nat list \<Rightarrow> 'd seqs \<Rightarrow> 'd seqs" where
  "put l xs A = A\<lparr>sq_lists := (sq_lists A)(l \<mapsto> xs)\<rparr>"

fun seq_spec :: "('d \<Rightarrow> 'd \<Rightarrow> int) \<Rightarrow> 'd list_call \<Rightarrow> 'd seqs \<Rightarrow> list_answer \<times> 'd seqs" where
  "seq_spec cmp (NewNode a d) A =
     (if a = 0 then (Node 0, A) else (Node a, A\<lparr>sq_data := (sq_data A)(a \<mapsto> d)\<rparr>))"
| "seq_spec cmp (DropNode n) A = (Done, A\<lparr>sq_data := (sq_data A)(n := None)\<rparr>)"
| "seq_spec cmp (NewList l m) A =
     (if l = 0 then (Node 0, A)
      else (Node l, A\<lparr>sq_lists := (sq_lists A)(l \<mapsto> []), sq_cap := (sq_cap A)(l := unat m)\<rparr>))"
| "seq_spec cmp (DropList l) A = (Done, A\<lparr>sq_lists := (sq_lists A)(l := None)\<rparr>)"
| "seq_spec cmp (DropNodes l) A =
     (Done, A\<lparr>sq_lists := (sq_lists A)(l \<mapsto> []), sq_data := sq_data A |` (- set (nodes_of A l))\<rparr>)"
| "seq_spec cmp (Append l n) A = (Done, put l (nodes_of A l @ [n]) A)"
| "seq_spec cmp (Prepend l n) A = (Done, put l (n # nodes_of A l) A)"
| "seq_spec cmp (InsBefore l n t) A =
     (Done, put l (if t = l then nodes_of A l @ [n] else until t (nodes_of A l) @ n # starting t (nodes_of A l)) A)"
| "seq_spec cmp (InsAfter l n t) A =
     (Done, put l (if t = l then n # nodes_of A l
        else until t (nodes_of A l) @ t # n # tl (starting t (nodes_of A l))) A)"
| "seq_spec cmp (DeleteNode l n) A = (Node n, put l (remove1 n (nodes_of A l)) A)"
| "seq_spec cmp (DelFirst l) A = (Node (hd (nodes_of A l)), put l (tl (nodes_of A l)) A)"
| "seq_spec cmp (DelLast l) A = (Node (last (nodes_of A l)), put l (butlast (nodes_of A l)) A)"
| "seq_spec cmp (Contains l n) A = (Truth (n \<in> set (nodes_of A l)), A)"
| "seq_spec cmp (FindNode l key) A =
     (Node (or_null (filter (\<lambda>x. cmp (data_of A x) key = 0) (nodes_of A l))), A)"
| "seq_spec cmp (Count l) A = (Amount (of_nat (length (nodes_of A l))), A)"
| "seq_spec cmp (First l) A = (Node (or_null (nodes_of A l)), A)"
| "seq_spec cmp (Last l) A = (Node (or_null (rev (nodes_of A l))), A)"
| "seq_spec cmp (NextOf l n) A = (Node (or_null (tl (starting n (nodes_of A l)))), A)"
| "seq_spec cmp (PrevOf l n) A = (Node (or_null (rev (until n (nodes_of A l)))), A)"
| "seq_spec cmp (Transfer d s n) A =
     (Done, if n = 0 then A
        else put d (nodes_of A d @ starting n (nodes_of A s)) (put s (until n (nodes_of A s)) A))"
| "seq_spec cmp (Extract d s m n) A =
     (Done, if m = 0 \<or> n = 0 then A
        else
          let rest = starting m (nodes_of A s)
          in put d (nodes_of A d @ until n rest @ [n])
               (put s (until m (nodes_of A s) @ tl (starting n rest)) A))"
| "seq_spec cmp (MergeInto d s) A =
     (Done, if d = s then A
        else put d (merge_seq cmp (data_of A) (nodes_of A d) (nodes_of A s)) (put s [] A))"
| "seq_spec cmp (SortList l) A = (Done, put l (msort cmp (data_of A) (nodes_of A l)) A)"
| "seq_spec cmp (IsSorted l) A = (Truth (in_order cmp (map (data_of A) (nodes_of A l))), A)"

text \<open>What the caller guarantees.  \<open>k\<close> nodes fit into the store the model gives to loops.\<close>

definition room :: "'d seqs \<Rightarrow> nat \<Rightarrow> nat \<Rightarrow> bool" where
  "room A l k \<longleftrightarrow> length (nodes_of A l) + k \<le> sq_cap A l"

definition has_list :: "'d seqs \<Rightarrow> nat \<Rightarrow> bool" where
  "has_list A l \<longleftrightarrow> sq_lists A l \<noteq> None"

definition may_insert :: "'d seqs \<Rightarrow> nat \<Rightarrow> nat \<Rightarrow> nat \<Rightarrow> bool" where
  "may_insert A l n t \<longleftrightarrow> has_list A l \<and> sq_data A n \<noteq> None \<and> unused A n \<and> room A l 1 \<and>
     (t = l \<or> t \<in> set (nodes_of A l))"

fun list_pre :: "(nat \<Rightarrow> nat) \<Rightarrow> ('d \<Rightarrow> 'd \<Rightarrow> int) \<Rightarrow> nat \<Rightarrow> 'd list_call \<Rightarrow> 'd seqs \<Rightarrow> bool" where
  "list_pre frame cmp k (NewNode a d) A \<longleftrightarrow>
     a = 0 \<or> sq_data A a = None \<and> sq_lists A a = None \<and> a \<notin> frames frame 0 \<and> card (dom (sq_data A)) + 1 < k"
| "list_pre frame cmp k (DropNode n) A \<longleftrightarrow> sq_data A n \<noteq> None \<and> unused A n"
| "list_pre frame cmp k (NewList l m) A \<longleftrightarrow>
     l = 0 \<or> m \<noteq> 0 \<and> sq_data A l = None \<and> sq_lists A l = None \<and> l \<notin> frames frame 0"
| "list_pre frame cmp k (DropList l) A \<longleftrightarrow> has_list A l \<and> nodes_of A l = []"
| "list_pre frame cmp k (DropNodes l) A \<longleftrightarrow> has_list A l"
| "list_pre frame cmp k (Append l n) A \<longleftrightarrow> may_insert A l n l"
| "list_pre frame cmp k (Prepend l n) A \<longleftrightarrow> may_insert A l n l"
| "list_pre frame cmp k (InsBefore l n t) A \<longleftrightarrow> may_insert A l n t"
| "list_pre frame cmp k (InsAfter l n t) A \<longleftrightarrow> may_insert A l n t"
| "list_pre frame cmp k (DeleteNode l n) A \<longleftrightarrow> has_list A l \<and> n \<in> set (nodes_of A l)"
| "list_pre frame cmp k (DelFirst l) A \<longleftrightarrow> has_list A l \<and> nodes_of A l \<noteq> []"
| "list_pre frame cmp k (DelLast l) A \<longleftrightarrow> has_list A l \<and> nodes_of A l \<noteq> []"
| "list_pre frame cmp k (NextOf l n) A \<longleftrightarrow> has_list A l \<and> n \<in> set (nodes_of A l)"
| "list_pre frame cmp k (PrevOf l n) A \<longleftrightarrow> has_list A l \<and> n \<in> set (nodes_of A l)"
| "list_pre frame cmp k (Transfer d s n) A \<longleftrightarrow> has_list A d \<and> has_list A s \<and> d \<noteq> s \<and>
     (n = 0 \<or> n \<in> set (nodes_of A s) \<and> room A d (length (starting n (nodes_of A s))))"
| "list_pre frame cmp k (Extract d s m n) A \<longleftrightarrow> has_list A d \<and> has_list A s \<and> d \<noteq> s \<and>
     (m = 0 \<or> m \<in> set (nodes_of A s)) \<and> (n = 0 \<or> n \<in> set (nodes_of A s)) \<and>
     (m = 0 \<or> n = 0 \<or> n \<in> set (starting m (nodes_of A s)) \<and>
        room A d (length (until n (starting m (nodes_of A s))) + 1))"
| "list_pre frame cmp k (MergeInto d s) A \<longleftrightarrow> has_list A d \<and> has_list A s \<and>
     (d = s \<or> room A d (length (nodes_of A s)) \<and> in_order cmp (map (data_of A) (nodes_of A d)) \<and>
        in_order cmp (map (data_of A) (nodes_of A s)))"
| "list_pre frame cmp k (SortList l) A \<longleftrightarrow> has_list A l \<and> compares cmp"
| "list_pre frame cmp k (Contains l n) A \<longleftrightarrow> has_list A l"
| "list_pre frame cmp k (FindNode l d) A \<longleftrightarrow> has_list A l"
| "list_pre frame cmp k (Count l) A \<longleftrightarrow> has_list A l"
| "list_pre frame cmp k (First l) A \<longleftrightarrow> has_list A l"
| "list_pre frame cmp k (Last l) A \<longleftrightarrow> has_list A l"
| "list_pre frame cmp k (IsSorted l) A \<longleftrightarrow> has_list A l"

section \<open>Changes to one or two lists\<close>

lemma put_add: "put l xs A = A\<lparr>sq_lists := sq_lists A ++ [l \<mapsto> xs]\<rparr>"
  by (simp add: put_def)

lemma store_ok_len:
  assumes "store_ok frame h A" and "sq_lists A l = Some xs" and "sq_data A n \<noteq> None" and "n \<notin> set xs"
  shows "Suc (length xs) < lh_bound h"
proof -
  have "length (n # xs) < lh_bound h"
    using assms store_okD(2) [OF assms(1,2)] is_listD(4) [OF store_okD(1) [OF assms(1,2)]]
    by (intro store_ok_card [OF assms(1)]) auto
  then show ?thesis by simp
qed

lemma insert_store:
  assumes ok: "store_ok frame h A" and l: "sq_lists A l = Some (xs @ ys)" and n: "sq_data A n \<noteq> None" "unused A n"
    and room: "length (xs @ ys) < sq_cap A l"
  shows "store_ok frame (ins_at h l (last (l # xs)) n (hd (ys @ [l]))) (put l (xs @ n # ys) A)"
    and "is_free h n" and "is_list h l (xs @ ys)" and "length (xs @ ys) < unat (lh_max h l)"
proof -
  show d: "is_list h l (xs @ ys)" and r: "length (xs @ ys) < unat (lh_max h l)"
    using store_okD(1,4) [OF ok l] room by simp_all
  show f: "is_free h n" using store_ok_data(4) [OF ok] n by auto
  have nin: "n \<notin> set (xs @ ys)" using n(2) l unfolding unused_def by blast
  have new: "is_list (ins_at h l (last (l # xs)) n (hd (ys @ [l]))) l (xs @ n # ys)"
    using store_ok_len [OF ok l n(1) nin] by (intro ins_at_list [OF d f r])
  have pq: "last (l # xs) \<in> set (l # xs @ ys)" "hd (ys @ [l]) \<in> set (l # xs @ ys)"
    using around(3,4) [OF d] by auto
  show "store_ok frame (ins_at h l (last (l # xs)) n (hd (ys @ [l]))) (put l (xs @ n # ys) A)"
    unfolding put_add
  proof (rule store_touch [OF ok touches_ins [OF order_refl], where P = "set (xs @ n # ys)"])
    show "set [l, last (l # xs), n, hd (ys @ [l])] \<subseteq> dom [l \<mapsto> xs @ n # ys] \<union> set (xs @ n # ys)"
      using pq by auto
    show "set (xs @ n # ys) \<subseteq> dom (sq_data A)" using store_okD(2) [OF ok l] n(1) by auto
    show "if [l \<mapsto> xs @ n # ys] k = None then set zs \<inter> set (xs @ n # ys) = {} else set zs \<subseteq> set (xs @ n # ys)"
      if "sq_lists A k = Some zs" for k zs
      using store_ok_apart [OF ok l that] l that n(2) by (auto simp: unused_def)
  qed (use new l in \<open>auto split: if_splits\<close>)
qed

lemma delete_store:
  assumes ok: "store_ok frame h A" and l: "sq_lists A l = Some (xs @ n # ys)"
  shows "store_ok frame (del_at h l (last (l # xs)) n (hd (ys @ [l]))) (put l (xs @ ys) A)"
    and "list_delete l n h = Inr (n, del_at h l (last (l # xs)) n (hd (ys @ [l])))"
proof -
  have d: "is_list h l (xs @ n # ys)" by (rule store_okD(1) [OF ok l])
  show "list_delete l n h = Inr (n, del_at h l (last (l # xs)) n (hd (ys @ [l])))" by (rule list_delete_run [OF d])
  note new = del_at_list [OF d]
  have pq: "last (l # xs) \<in> set (l # xs @ ys)" "hd (ys @ [l]) \<in> set (l # xs @ ys)"
    using around(3) [OF d] around(4) [of h l "xs @ [n]" ys] d by auto
  show "store_ok frame (del_at h l (last (l # xs)) n (hd (ys @ [l]))) (put l (xs @ ys) A)"
    unfolding put_add
  proof (rule store_touch [OF ok touches_del [OF order_refl], where P = "set (xs @ n # ys)"])
    show "set [l, last (l # xs), n, hd (ys @ [l])] \<subseteq> dom [l \<mapsto> xs @ ys] \<union> set (xs @ n # ys)"
      using pq by auto
    show "set (xs @ n # ys) \<subseteq> dom (sq_data A)" by (rule store_okD(2) [OF ok l])
    show "if [l \<mapsto> xs @ ys] k = None then set zs \<inter> set (xs @ n # ys) = {} else set zs \<subseteq> set (xs @ n # ys)"
      if "sq_lists A k = Some zs" for k zs
      using store_ok_apart [OF ok l that] l that by auto
    show "is_free (del_at h l (last (l # xs)) n (hd (ys @ [l]))) m"
      if "m \<in> set (xs @ n # ys)" "\<forall>k zs. [l \<mapsto> xs @ ys] k = Some zs \<longrightarrow> m \<notin> set zs" for m
      using that new(2) by (auto split: if_splits)
  qed (use new l in \<open>auto split: if_splits\<close>)
qed

text \<open>Both lists at once; all their nodes find a place again.\<close>

lemma two_store:
  assumes ok: "store_ok frame h A" and d: "sq_lists A d = Some ds" and s: "sq_lists A s = Some ss" and ne: "d \<noteq> s"
    and t: "touches (set (d # ds) \<union> set (s # ss)) {} h h'"
    and new: "is_list h' d ds'" "is_list h' s ss'" "set ds' \<union> set ss' = set ds \<union> set ss" "set ds' \<inter> set ss' = {}"
  shows "store_ok frame h' (put d ds' (put s ss' A))"
proof -
  have "put d ds' (put s ss' A) = A\<lparr>sq_lists := sq_lists A ++ [s \<mapsto> ss', d \<mapsto> ds']\<rparr>"
    by (simp add: put_def)
  moreover have "store_ok frame h' (A\<lparr>sq_lists := sq_lists A ++ [s \<mapsto> ss', d \<mapsto> ds']\<rparr>)"
  proof (rule store_touch [OF ok t, where P = "set ds \<union> set ss"])
    show "set ds \<union> set ss \<subseteq> dom (sq_data A)" using store_okD(2) [OF ok] d s by blast
    show "if [s \<mapsto> ss', d \<mapsto> ds'] k = None then set zs \<inter> (set ds \<union> set ss) = {} else set zs \<subseteq> set ds \<union> set ss"
      if "sq_lists A k = Some zs" for k zs
      using store_ok_apart [OF ok d that] store_ok_apart [OF ok s that] d s that by auto
    show "is_free h' m"
      if m: "m \<in> set ds \<union> set ss" "\<forall>k zs. [s \<mapsto> ss', d \<mapsto> ds'] k = Some zs \<longrightarrow> m \<notin> set zs" for m
    proof -
      have "m \<notin> set ds'" "m \<notin> set ss'" using m(2) ne by (auto split: if_splits)
      with m(1) new(3) show ?thesis by blast
    qed
  qed (use new d s ne in \<open>auto split: if_splits\<close>)
  ultimately show ?thesis by simp
qed

lemma move_store:
  assumes ok: "store_ok frame h A" and d: "sq_lists A d = Some ds" and s: "sq_lists A s = Some (xs @ ys @ zs)"
    and ne: "d \<noteq> s" "ys \<noteq> []" and room: "length (ds @ ys) \<le> sq_cap A d"
  shows "can_move h d s ds xs ys zs"
    and "store_ok frame (moved_at h d s ds xs ys zs) (put d (ds @ ys) (put s (xs @ zs) A))"
proof -
  have ap: "set (s # xs @ ys @ zs) \<inter> set (d # ds) = {}" using store_ok_apart [OF ok d s ne(1)] by auto
  have "length (ds @ ys) < lh_bound h"
    using store_okD(2) [OF ok d] store_okD(2) [OF ok s] is_listD(4) [OF store_okD(1) [OF ok d]]
      is_listD(4) [OF store_okD(1) [OF ok s]] ap
    by (intro store_ok_card [OF ok]) auto
  then show c: "can_move h d s ds xs ys zs"
    using store_okD(1,4) [OF ok d] store_okD(1) [OF ok s] ap ne(2) room by (simp add: can_move_def)
  have "distinct (xs @ ys @ zs)" by (rule is_listD(4) [OF store_okD(1) [OF ok s]])
  then show "store_ok frame (moved_at h d s ds xs ys zs) (put d (ds @ ys) (put s (xs @ zs) A))"
    using ap moved_lists [OF c]
    by (intro two_store [OF ok d s ne(1) touches_moved [OF c]]) auto
qed

lemma merge_store:
  assumes ok: "store_ok frame h A" and d: "sq_lists A d = Some ds" and s: "sq_lists A s = Some ss"
    and ne: "d \<noteq> s" and room: "length ds + length ss \<le> sq_cap A d"
    and sorted: "in_order cmp (map (data_of A) ds)" "in_order cmp (map (data_of A) ss)"
  shows "\<exists>h'. list_merge d s cmp h = Inr ((), h') \<and> lh_bound h' = lh_bound h \<and>
    store_ok frame h' (put d (merge_seq cmp (data_of A) ds ss) (put s [] A))"
proof -
  note ld = store_okD [OF ok d] and ls = store_okD [OF ok s]
  have ap: "set (d # ds) \<inter> set (s # ss) = {}" by (rule store_ok_apart [OF ok d s ne])
  have "length (ds @ ss) < lh_bound h"
    using ld(2) ls(2) is_listD(4) [OF ld(1)] is_listD(4) [OF ls(1)] ap
    by (intro store_ok_card [OF ok]) auto
  then have "apart h d ds s ss" using ld(1,4) ls(1) ap room by (simp add: apart_def)
  moreover have "has_data h (data_of A) (ds @ ss)" using ld(6) ls(6) by (auto simp: has_data_def)
  ultimately obtain h' where h': "list_merge d s cmp h = Inr ((), h')"
    "apart h' d (merge_seq cmp (data_of A) ds ss) s []" "touches (set (d # ds) \<union> set (s # ss)) {} h h'"
    using merge_run sorted by blast
  have "set (merge_seq cmp (data_of A) ds ss) = set ds \<union> set ss"
    by (rule mset_eq_setD [of _ "ds @ ss", simplified]) simp
  then have "store_ok frame h' (put d (merge_seq cmp (data_of A) ds ss) (put s [] A))"
    using h'(2) by (intro two_store [OF ok d s ne h'(3)]) (auto simp: apart_def)
  with h' show ?thesis by (auto simp: touches_def)
qed

lemma sort_store:
  assumes ok: "store_ok frame h A" and l: "sq_lists A l = Some xs" and "compares cmp"
  shows "\<exists>h'. list_sort frame l cmp h = Inr ((), h') \<and> lh_bound h' = lh_bound h \<and>
    store_ok frame h' (put l (msort cmp (data_of A) xs) A)"
proof -
  note d = store_okD [OF ok l]
  from sort_at_run [OF assms(3) d(1,6) store_ok_frames [OF ok] d(5)] obtain h' where
    h': "sort_at (lh_bound h) frame 0 cmp l h = Inr ((), h')" "is_list h' l (msort cmp (data_of A) xs)"
    "touches (set (l # xs)) (frames frame 0) h h'" by blast
  have "store_ok frame h' (put l (msort cmp (data_of A) xs) A)"
    unfolding put_add
  proof (rule store_touch [OF ok h'(3) order_refl, where P = "set xs"])
    show "if [l \<mapsto> msort cmp (data_of A) xs] k = None then set zs \<inter> set xs = {} else set zs \<subseteq> set xs"
      if "sq_lists A k = Some zs" for k zs
      using store_ok_apart [OF ok l that] l that by auto
  qed (use h'(2) d(2) l msort_set [OF assms(3), of "data_of A" xs] in \<open>auto split: if_splits\<close>)
  moreover have "list_sort frame l cmp h = Inr ((), h')" using h'(1) by (simp add: list_sort_def run)
  moreover have "lh_bound h' = lh_bound h" using h'(3) by (simp add: touches_def)
  ultimately show ?thesis by blast
qed

lemma ins_at_bound [simp]: "lh_bound (ins_at h l p n q) = lh_bound h"
  by (simp add: ins_at_def)

lemma del_at_bound [simp]: "lh_bound (del_at h l p n q) = lh_bound h"
  by (simp add: del_at_def)

section \<open>Every call\<close>

definition stores :: "(nat \<Rightarrow> nat) \<Rightarrow> nat \<Rightarrow> 'd lheap \<Rightarrow> 'd seqs \<Rightarrow> bool" where
  "stores frame k h A \<longleftrightarrow> store_ok frame h A \<and> lh_bound h = k"

definition simulated :: "(nat \<Rightarrow> nat) \<Rightarrow> ('d \<Rightarrow> 'd \<Rightarrow> int) \<Rightarrow> nat \<Rightarrow> 'd lheap \<Rightarrow> 'd seqs \<Rightarrow> 'd list_call \<Rightarrow> bool" where
  "simulated frame cmp k h A c \<longleftrightarrow> (\<exists>h'. list_run frame cmp c h = Inr (fst (seq_spec cmp c A), h') \<and>
     stores frame k h' (snd (seq_spec cmp c A)))"

lemma simulatedI:
  "list_run frame cmp c h = Inr (r, h') \<Longrightarrow> store_ok frame h' A' \<Longrightarrow> lh_bound h' = k \<Longrightarrow> seq_spec cmp c A = (r, A') \<Longrightarrow>
   simulated frame cmp k h A c"
  by (simp add: simulated_def stores_def)

lemma silently_run: "p h = Inr ((), h') \<Longrightarrow> silently p h = Inr (Done, h')"
  by (simp add: answering_def run)

lemma answering_run: "p h = Inr (x, h') \<Longrightarrow> answering f p h = Inr (f x, h')"
  by (simp add: answering_def run)

lemma cut_at:
  assumes "n \<in> set xs"
  obtains us vs where "until n xs = us" and "starting n xs = n # vs" and "xs = us @ n # vs" and "n \<notin> set us"
proof -
  obtain us vs where "xs = us @ n # vs" "n \<notin> set us" using split_list_first [OF assms] by blast
  moreover from this have "until n xs = us" "starting n xs = n # vs"
    by (auto simp: until_def starting_def takeWhile_append dropWhile_append)
  ultimately show ?thesis by (intro that)
qed

lemma insert_simulated:
  assumes "store_ok frame h A" and "may_insert A l n t"
  shows "t = l \<Longrightarrow> simulated frame cmp (lh_bound h) h A (InsBefore l n t)"
    and "t \<noteq> l \<Longrightarrow> simulated frame cmp (lh_bound h) h A (InsBefore l n t)"
    and "t = l \<Longrightarrow> simulated frame cmp (lh_bound h) h A (InsAfter l n t)"
    and "t \<noteq> l \<Longrightarrow> simulated frame cmp (lh_bound h) h A (InsAfter l n t)"
proof -
  from assms(2) obtain xs where l: "sq_lists A l = Some xs" and n: "sq_data A n \<noteq> None" "unused A n"
    and room: "length xs < sq_cap A l" and t: "t = l \<or> t \<in> set xs"
    by (auto simp: may_insert_def has_list_def room_def)
  have gen: "list_ins_before l n (hd (bs @ [l])) h = Inr ((), ins_at h l (last (l # as)) n (hd (bs @ [l])))"
    "list_ins_after l n (last (l # as)) h = Inr ((), ins_at h l (last (l # as)) n (hd (bs @ [l])))"
    "store_ok frame (ins_at h l (last (l # as)) n (hd (bs @ [l]))) (put l (as @ n # bs) A)"
    if "as @ bs = xs" for as bs
  proof -
    note i = insert_store [OF assms(1), of l as bs n] 
    show "list_ins_before l n (hd (bs @ [l])) h = Inr ((), ins_at h l (last (l # as)) n (hd (bs @ [l])))"
      using i l n room that by (intro ins_before_run) auto
    show "list_ins_after l n (last (l # as)) h = Inr ((), ins_at h l (last (l # as)) n (hd (bs @ [l])))"
      using i l n room that by (intro ins_after_run) auto
    show "store_ok frame (ins_at h l (last (l # as)) n (hd (bs @ [l]))) (put l (as @ n # bs) A)"
      using i l n room that by auto
  qed
  show "simulated frame cmp (lh_bound h) h A (InsBefore l n t)" if "t = l"
    by (rule simulatedI [OF _ gen(3) [of xs "[]"]])
      (use gen(1) [of xs "[]"] that l in \<open>auto simp: silently_run simp del: last.simps\<close>)
  show "simulated frame cmp (lh_bound h) h A (InsAfter l n t)" if "t = l"
    by (rule simulatedI [OF _ gen(3) [of "[]" xs]]) (use gen(2) [of "[]" xs] that l in \<open>auto simp: silently_run\<close>)
  show "simulated frame cmp (lh_bound h) h A (InsBefore l n t)" if ne: "t \<noteq> l"
  proof -
    obtain us vs where c: "until t xs = us" "starting t xs = t # vs" "xs = us @ t # vs" using ne t cut_at by blast
    note g = gen(1,3) [of us "t # vs", OF c(3) [symmetric]]
    show ?thesis
      by (rule simulatedI [OF _ g(2)]) (use g(1) ne l c in \<open>auto simp: silently_run simp del: last.simps\<close>)
  qed
  show "simulated frame cmp (lh_bound h) h A (InsAfter l n t)" if ne: "t \<noteq> l"
  proof -
    obtain us vs where c: "until t xs = us" "starting t xs = t # vs" "xs = us @ t # vs" using ne t cut_at by blast
    note g = gen(2,3) [of "us @ [t]" vs]
    show ?thesis
      by (rule simulatedI [OF _ g(2)]) (use g(1) ne l c in \<open>auto simp: silently_run\<close>)
  qed
qed

lemma delete_simulated:
  assumes "store_ok frame h A" and "sq_lists A l = Some (us @ n # vs)"
  shows "\<exists>h'. list_delete l n h = Inr (n, h') \<and> lh_bound h' = lh_bound h \<and> store_ok frame h' (put l (us @ vs) A)"
  using delete_store [OF assms] by (intro exI conjI) (auto simp del: last.simps)

lemma ends_run:
  assumes "is_list h l xs"
  shows "list_first l h = Inr (or_null xs, h)" and "list_last l h = Inr (or_null (rev xs), h)"
proof -
  note d = is_listD [OF assms]
  have "hd (xs @ [l]) = (if xs = [] then l else hd xs)" "last (l # xs) = (if xs = [] then l else last xs)"
    by (cases xs; simp)+
  moreover have "xs \<noteq> [] \<Longrightarrow> hd xs \<noteq> l \<and> last xs \<noteq> l" using d(3) by (metis last_in_set list.set_sel(1))
  moreover have "or_null xs = (if xs = [] then 0 else hd xs)" "or_null (rev xs) = (if xs = [] then 0 else last xs)"
    by (cases xs; simp add: or_null_def) (cases xs rule: rev_cases; simp add: or_null_def)
  ultimately show "list_first l h = Inr (or_null xs, h)" "list_last l h = Inr (or_null (rev xs), h)"
    using d(1,2) dl_first [OF d(7)] dl_last [OF d(7)]
    by (auto simp: list_first_def list_next_def list_last_def list_prev_def run list_run)
qed

lemma neighbours_run:
  assumes "is_list h l (us @ n # vs)"
  shows "list_next l n h = Inr (or_null vs, h)" and "list_prev l n h = Inr (or_null (rev us), h)"
proof -
  note d = is_listD [OF assms]
  have n: "n \<noteq> 0" "lh_live h n" using d(5,6) by auto
  have "lh_next h n = hd (vs @ [l])" "lh_prev h n = last (l # us)"
    using around(1) [of h l "us @ [n]" vs] around(2) [of h l us "n # vs"] assms by simp_all
  moreover have "hd (vs @ [l]) = (if vs = [] then l else hd vs)" "last (l # us) = (if us = [] then l else last us)"
    by (cases vs; simp) (cases us; simp)
  moreover have "vs \<noteq> [] \<Longrightarrow> hd vs \<noteq> l" "us \<noteq> [] \<Longrightarrow> last us \<noteq> l"
    using d(3) by (metis Un_iff list.set_sel(1) set_ConsD set_append list.set_intros(2), metis Un_iff last_in_set set_append)
  moreover have "or_null vs = (if vs = [] then 0 else hd vs)" "or_null (rev us) = (if us = [] then 0 else last us)"
    by (cases vs; simp add: or_null_def) (cases us rule: rev_cases; simp add: or_null_def)
  ultimately show "list_next l n h = Inr (or_null vs, h)" "list_prev l n h = Inr (or_null (rev us), h)"
    using n by (auto simp: list_next_def list_prev_def run list_run)
qed

lemma find_or_null: "(case find P xs of None \<Rightarrow> 0 | Some x \<Rightarrow> x) = or_null (filter P xs)"
  by (induction xs) (auto simp: or_null_def)

lemma new_simulated:
  assumes ok: "store_ok frame h A" and pre: "list_pre frame cmp (lh_bound h) (NewNode a d) A"
  shows "simulated frame cmp (lh_bound h) h A (NewNode a d)"
proof (cases "a = 0")
  case True
  with ok show ?thesis by (intro simulatedI) (auto simp: answering_def lnode_create_def run)
next
  case False
  with pre have a: "sq_data A a = None" "sq_lists A a = None" "a \<notin> frames frame 0" "card (dom (sq_data A)) + 1 < lh_bound h"
    by auto
  define h' where "h' = h\<lparr>lh_live := (lh_live h)(a := True), lh_data := (lh_data h)(a := Some d),
    lh_next := (lh_next h)(a := 0), lh_prev := (lh_prev h)(a := 0)\<rparr>"
  have out: "a \<notin> set (l # xs)" if "sq_lists A l = Some xs" for l xs
    using store_okD(2) [OF ok that] a that by auto
  have lists: "is_list h' l xs" if "sq_lists A l = Some xs" for l xs
    by (rule is_list_cong [OF store_okD(1) [OF ok that]]) (use out [OF that] in \<open>auto simp: h'_def\<close>)
  let ?A = "A\<lparr>sq_data := (sq_data A)(a \<mapsto> d)\<rparr>"
  have u: "unused ?A n = unused A n" for n by (simp add: unused_def)
  have "store_ok frame h' ?A"
  proof (rule store_okI)
    show "is_list h' l xs \<and> set xs \<subseteq> dom (sq_data ?A) \<and> sq_data ?A l = None \<and> unat (lh_max h' l) = sq_cap ?A l"
      if "sq_lists ?A l = Some xs" for l xs
      using lists out store_okD(2-4) [OF ok, of l xs] that by (auto simp: h'_def)
    show "set xs \<inter> set ys = {}" if "sq_lists ?A l = Some xs" "sq_lists ?A k = Some ys" "l \<noteq> k" for l k xs ys
      using store_ok_apart [OF ok] that by force
    show "n \<noteq> 0 \<and> lh_live h' n \<and> lh_data h' n = Some e \<and> (unused ?A n \<longrightarrow> is_free h' n)"
      if "sq_data ?A n = Some e" for n e
      using that False store_ok_data [OF ok, of n] by (auto simp: u h'_def is_free_def split: if_splits)
    show "finite (dom (sq_data ?A))" "card (dom (sq_data ?A)) < lh_bound h'"
      using ok a(1,4) by (auto simp: store_ok_def domIff h'_def)
    show "frames_free h' frame 0" using store_ok_frames [OF ok] a(3) by (auto simp: frames_free_def h'_def)
    show "sq_cap ?A k \<noteq> 0" if "sq_lists ?A k = Some xs" for k xs
      using that store_ok_cap [OF ok, of k] by (auto split: if_splits)
  qed
  then show ?thesis
    using False by (intro simulatedI [where h' = h']) (auto simp: answering_def lnode_create_def run h'_def)
qed

lemma drop_simulated:
  assumes ok: "store_ok frame h A" and n: "sq_data A n \<noteq> None" "unused A n"
  shows "simulated frame cmp (lh_bound h) h A (DropNode n)"
proof -
  have f: "is_free h n" using store_ok_data(4) [OF ok] n by auto
  define h' where "h' = h\<lparr>lh_live := (lh_live h)(n := False)\<rparr>"
  have out: "n \<notin> set (l # xs)" if "sq_lists A l = Some xs" for l xs
    using store_okD(3) [OF ok that] n that by (auto simp: unused_def)
  have lists: "is_list h' l xs" if "sq_lists A l = Some xs" for l xs
    by (rule is_list_cong [OF store_okD(1) [OF ok that]]) (use out [OF that] in \<open>auto simp: h'_def\<close>)
  let ?A = "A\<lparr>sq_data := (sq_data A)(n := None)\<rparr>"
  have u: "unused ?A m = unused A m" for m by (simp add: unused_def)
  have "store_ok frame h' ?A"
  proof (rule store_okI)
    show "is_list h' l xs \<and> set xs \<subseteq> dom (sq_data ?A) \<and> sq_data ?A l = None \<and> unat (lh_max h' l) = sq_cap ?A l"
      if "sq_lists ?A l = Some xs" for l xs
      using lists out store_okD(2-4) [OF ok, of l xs] that by (auto simp: h'_def)
    show "set xs \<inter> set ys = {}" if "sq_lists ?A l = Some xs" "sq_lists ?A k = Some ys" "l \<noteq> k" for l k xs ys
      using store_ok_apart [OF ok] that by force
    show "m \<noteq> 0 \<and> lh_live h' m \<and> lh_data h' m = Some e \<and> (unused ?A m \<longrightarrow> is_free h' m)"
      if "sq_data ?A m = Some e" for m e
      using that store_ok_data [OF ok, of m] by (auto simp: u h'_def is_free_def split: if_splits)
    show "finite (dom (sq_data ?A))" using ok by (simp add: store_ok_def)
    have "card (dom (sq_data ?A)) \<le> card (dom (sq_data A))"
      using ok by (intro card_mono) (auto simp: store_ok_def)
    then show "card (dom (sq_data ?A)) < lh_bound h'" using ok by (simp add: store_ok_def h'_def)
    show "frames_free h' frame 0" using store_ok_frames [OF ok] by (auto simp: frames_free_def h'_def)
    show "sq_cap ?A k \<noteq> 0" if "sq_lists ?A k = Some xs" for k xs
      using that store_ok_cap [OF ok, of k] by (auto split: if_splits)
  qed
  moreover have "lnode_destroy n h = Inr ((), h')"
    using f by (simp add: lnode_destroy_def lnode_is_in_a_list_def free_node_def touch_def run list_run is_free_def h'_def)
  ultimately show ?thesis
    by (intro simulatedI [where h' = h']) (auto simp: silently_run h'_def)
qed

lemma simulated_const:
  assumes "store_ok frame h A" and "list_run frame cmp c h = Inr (fst (seq_spec cmp c A), h)" and "snd (seq_spec cmp c A) = A"
  shows "simulated frame cmp (lh_bound h) h A c"
  using assms by (simp add: simulated_def stores_def)

lemma new_list_simulated:
  assumes ok: "store_ok frame h A" and pre: "list_pre frame cmp k (NewList l m) A"
  shows "simulated frame cmp (lh_bound h) h A (NewList l m)"
proof (cases "l = 0")
  case True
  with ok show ?thesis by (intro simulated_const) (auto simp: answering_def list_create_def run)
next
  case False
  with pre have l: "m \<noteq> 0" "sq_data A l = None" "sq_lists A l = None" "l \<notin> frames frame 0" by auto
  let ?h = "entered h l m"
  let ?A = "A\<lparr>sq_lists := (sq_lists A)(l \<mapsto> []), sq_cap := (sq_cap A)(l := unat m)\<rparr>"
  have out: "l \<notin> set (k # xs)" if "sq_lists A k = Some xs" for k xs
    using store_okD(2) [OF ok that] l that by auto
  have own: "is_list ?h l []"
    using False ok by (simp add: is_list_def entered_def store_ok_def)
  have others: "is_list ?h k xs" if "sq_lists A k = Some xs" for k xs
    by (rule is_list_cong [OF store_okD(1) [OF ok that]]) (use out [OF that] in \<open>auto simp: entered_def\<close>)
  have u: "unused ?A n = unused A n" for n
  proof -
    have "sq_lists ?A k = Some xs \<longleftrightarrow> (if k = l then xs = [] else sq_lists A k = Some xs)" for k xs by auto
    then show ?thesis using l(3) unfolding unused_def
      by (metis empty_iff empty_set option.distinct(1))
  qed
  have "store_ok frame ?h ?A"
  proof (rule store_okI)
    show "is_list ?h k xs \<and> set xs \<subseteq> dom (sq_data ?A) \<and> sq_data ?A k = None \<and> unat (lh_max ?h k) = sq_cap ?A k"
      if "sq_lists ?A k = Some xs" for k xs
      using own l(2) others [of k xs] out [of k xs] store_okD(2-4) [OF ok, of k xs] that
      by (cases "k = l") (auto simp: entered_def)
    show "set xs \<inter> set ys = {}" if "sq_lists ?A j = Some xs" "sq_lists ?A k = Some ys" "j \<noteq> k" for j k xs ys
      using store_ok_apart [OF ok, of j xs k ys] that by (auto split: if_splits)
    show "n \<noteq> 0 \<and> lh_live ?h n \<and> lh_data ?h n = Some e \<and> (unused ?A n \<longrightarrow> is_free ?h n)"
      if "sq_data ?A n = Some e" for n e
      using that l(2) store_ok_data [OF ok, of n e] by (auto simp: u entered_def is_free_def)
    show "finite (dom (sq_data ?A))" "card (dom (sq_data ?A)) < lh_bound ?h"
      using ok by (auto simp: store_ok_def entered_def)
    show "frames_free ?h frame 0" using store_ok_frames [OF ok] l(4) by (auto simp: frames_free_def entered_def)
    show "sq_cap ?A k \<noteq> 0" if "sq_lists ?A k = Some xs" for k xs
      using that l(1) store_ok_cap [OF ok, of k] by (auto simp: unat_gt_0 split: if_splits)
  qed
  moreover obtain h0 where "enter_frame l h = Inr ((), h0)" "list_init l m h0 = Inr (l, ?h)"
    by (rule enter_run [OF False l(1)])
  then have "list_create l m h = Inr (l, ?h)"
    using False by (simp add: list_create_def enter_frame_def run)
  ultimately show ?thesis
    using False by (intro simulatedI [where h' = ?h]) (auto simp: entered_def intro: answering_run)
qed

lemma drop_list_simulated:
  assumes ok: "store_ok frame h A" and l: "sq_lists A l = Some []"
  shows "simulated frame cmp (lh_bound h) h A (DropList l)"
proof -
  define h' where "h' = h\<lparr>lh_live := (lh_live h)(l := False)\<rparr>"
  let ?A = "A\<lparr>sq_lists := (sq_lists A)(l := None)\<rparr>"
  have others: "is_list h' k xs" if "sq_lists A k = Some xs" "k \<noteq> l" for k xs
    unfolding h'_def by (rule is_list_leave [OF store_okD(1) [OF ok that(1)]])
      (use store_okD(2) [OF ok that(1)] store_okD(3) [OF ok l] that(2) in auto)
  have u: "unused ?A n = unused A n" for n
  proof -
    have "n \<notin> set xs" if un: "unused ?A n" and xs: "sq_lists A k = Some xs" for k xs
    proof (cases "k = l")
      case False
      then have "sq_lists ?A k = Some xs" using xs by simp
      with un show ?thesis unfolding unused_def by blast
    qed (use xs l in simp)
    then have "unused A n" if "unused ?A n" using that unfolding unused_def [of A] by blast
    moreover have "unused ?A n" if "unused A n"
      using that unfolding unused_def by (simp split: if_splits)
    ultimately show ?thesis by blast
  qed
  have "store_ok frame h' ?A"
  proof (rule store_okI)
    show "is_list h' k xs \<and> set xs \<subseteq> dom (sq_data ?A) \<and> sq_data ?A k = None \<and> unat (lh_max h' k) = sq_cap ?A k"
      if "sq_lists ?A k = Some xs" for k xs
    proof -
      from that have k: "sq_lists A k = Some xs" "k \<noteq> l" by (simp_all split: if_splits)
      with others [OF k] store_okD(2-4) [OF ok k(1)] show ?thesis by (simp add: h'_def)
    qed
    show "set xs \<inter> set ys = {}" if "sq_lists ?A j = Some xs" "sq_lists ?A k = Some ys" "j \<noteq> k" for j k xs ys
      using store_ok_apart [OF ok, of j xs k ys] that by (auto split: if_splits)
    show "n \<noteq> 0 \<and> lh_live h' n \<and> lh_data h' n = Some e \<and> (unused ?A n \<longrightarrow> is_free h' n)"
      if "sq_data ?A n = Some e" for n e
      using that store_okD(3) [OF ok l] store_ok_data [OF ok, of n e] by (auto simp: u h'_def is_free_def)
    show "finite (dom (sq_data ?A))" "card (dom (sq_data ?A)) < lh_bound h'"
      using ok by (auto simp: store_ok_def h'_def)
    show "frames_free h' frame 0" using store_ok_frames [OF ok] by (auto simp: frames_free_def h'_def)
    show "sq_cap ?A k \<noteq> 0" if "sq_lists ?A k = Some xs" for k xs
      using that store_ok_cap [OF ok, of k] by (auto split: if_splits)
  qed
  moreover have "list_destroy l h = Inr ((), h')"
    using is_listD(1,2) [OF store_okD(1) [OF ok l]] count_eq [OF store_okD(1) [OF ok l]]
    by (simp add: list_destroy_def list_isempty_def free_node_def touch_def run list_run h'_def)
  ultimately show ?thesis
    by (intro simulatedI [where h' = h']) (auto simp: h'_def intro: silently_run)
qed

text \<open>The nodes \<open>xs\<close> freed.\<close>

definition without :: "'d lheap \<Rightarrow> nat list \<Rightarrow> 'd lheap" where
  "without h xs = h\<lparr>lh_live := (\<lambda>x. lh_live h x \<and> x \<notin> set xs), lh_next := (\<lambda>x. if x \<in> set xs then 0 else lh_next h x),
     lh_prev := (\<lambda>x. if x \<in> set xs then 0 else lh_prev h x)\<rparr>"

fun path :: "(nat \<Rightarrow> nat) \<Rightarrow> nat list \<Rightarrow> nat \<Rightarrow> bool" where
  "path nx [] q \<longleftrightarrow> True"
| "path nx (x # xs) q \<longleftrightarrow> nx x = hd (xs @ [q]) \<and> path nx xs q"

lemma path_cong: "(\<And>x. x \<in> set xs \<Longrightarrow> nx' x = nx x) \<Longrightarrow> path nx' xs q = path nx xs q"
  by (induction xs) auto

lemma dl_path: "dl nx pv p xs q \<Longrightarrow> path nx xs q"
  by (induction xs arbitrary: p) (auto dest: dl_first)

lemma without_Cons: "without (without h [x]) xs = without h (x # xs)"
  by (auto simp: without_def fun_eq_iff)

lemma destroy_node_run:
  assumes "x \<noteq> 0" and "lh_live h x"
  obtains h1 h2 where "set_next x 0 h = Inr ((), h1)" "set_prev x 0 h1 = Inr ((), h2)"
    "lnode_destroy x h2 = Inr ((), without h [x])"
proof -
  have "h\<lparr>lh_next := (lh_next h)(x := 0), lh_prev := (lh_prev h)(x := 0), lh_live := (lh_live h)(x := False)\<rparr> = without h [x]"
    by (auto simp: without_def fun_eq_iff)
  with assms show ?thesis
    by (intro that [of "h\<lparr>lh_next := (lh_next h)(x := 0)\<rparr>"
        "h\<lparr>lh_next := (lh_next h)(x := 0), lh_prev := (lh_prev h)(x := 0)\<rparr>"])
      (simp_all add: lnode_destroy_def lnode_is_in_a_list_def free_node_def touch_def run list_run)
qed

lemma destroy_loop_run:
  "path (lh_next h) xs l \<Longrightarrow> distinct (l # xs) \<Longrightarrow> 0 \<notin> set xs \<Longrightarrow> \<forall>x \<in> set xs. lh_live h x \<Longrightarrow> length xs < k \<Longrightarrow>
   destroy_loop k l (hd (xs @ [l])) h = Inr ((), without h xs)"
proof (induction xs arbitrary: h k)
  case Nil
  then show ?case by (cases k) (simp_all add: run without_def)
next
  case (Cons x xs)
  then obtain j where k: "k = Suc j" "length xs < j" by (cases k) auto
  let ?h = "without h [x]"
  have "path (lh_next ?h) xs l = path (lh_next h) xs l"
    using Cons.prems(2) by (intro path_cong) (auto simp: without_def)
  then have "destroy_loop j l (hd (xs @ [l])) ?h = Inr ((), without ?h xs)"
    using Cons.prems k(2) by (intro Cons.IH) (auto simp: without_def)
  moreover obtain h1 h2 where "set_next x 0 h = Inr ((), h1)" "set_prev x 0 h1 = Inr ((), h2)"
    "lnode_destroy x h2 = Inr ((), ?h)"
    using Cons.prems by (auto intro: destroy_node_run)
  moreover have "get_next x h = Inr (hd (xs @ [l]), h)" using Cons.prems by (simp add: list_run)
  ultimately show ?case using Cons.prems k(1) by (simp add: run without_Cons)
qed

lemma destroy_nodes_run:
  assumes "is_list h l xs" and "lh_max h l \<noteq> 0"
  shows "list_destroy_nodes l h = Inr ((), (without h xs)\<lparr>lh_next := (lh_next (without h xs))(l := l),
    lh_prev := (lh_prev (without h xs))(l := l), lh_count := (lh_count h)(l := 0)\<rparr>)"
proof -
  note d = is_listD [OF assms(1)]
  have "destroy_loop (lh_bound h) l (hd (xs @ [l])) h = Inr ((), without h xs)"
    using d dl_path [OF d(7)] by (intro destroy_loop_run) auto
  moreover have "lh_live (without h xs) l" using d(2,3) by (simp add: without_def)
  moreover have "h'\<lparr>lh_max := (lh_max h')(l := lh_max h' l)\<rparr> = h'" for h' :: "'a lheap" by simp
  ultimately show ?thesis
    using d(1,2) dl_first [OF d(7)] assms(2)
    by (simp add: list_destroy_nodes_def list_init_def run list_run) (simp add: without_def)
qed

lemma drop_nodes_simulated:
  assumes ok: "store_ok frame h A" and l: "sq_lists A l = Some xs"
  shows "simulated frame cmp (lh_bound h) h A (DropNodes l)"
proof -
  define h' where "h' = (without h xs)\<lparr>lh_next := (lh_next (without h xs))(l := l),
    lh_prev := (lh_prev (without h xs))(l := l), lh_count := (lh_count h)(l := 0)\<rparr>"
  let ?A = "A\<lparr>sq_lists := (sq_lists A)(l \<mapsto> []), sq_data := sq_data A |` (- set xs)\<rparr>"
  note d = store_okD [OF ok l]
  have own: "is_list h' l []" using d(1) by (auto simp: h'_def without_def is_list_def)
  have others: "is_list h' k ys" if "sq_lists A k = Some ys" "k \<noteq> l" for k ys
    by (rule is_list_cong [OF store_okD(1) [OF ok that(1)]])
      (use store_ok_apart [OF ok l that(1)] that(2) in \<open>auto simp: h'_def without_def\<close>)
  have free: "is_free h' n" if n: "sq_data ?A n = Some e" and u: "unused ?A n" for n e
  proof -
    from n have a: "sq_data A n = Some e" "n \<notin> set xs" by (auto simp: restrict_map_def split: if_splits)
    have "n \<notin> set ys" if ys: "sq_lists A k = Some ys" for k ys
    proof (cases "k = l")
      case False
      then have "sq_lists ?A k = Some ys" using ys by simp
      with u show ?thesis unfolding unused_def by blast
    qed (use ys l a(2) in simp)
    then have "is_free h n" using store_ok_data(4) [OF ok a(1)] unfolding unused_def by blast
    moreover have "n \<noteq> l" using a(1) d(3) by auto
    ultimately show ?thesis using a(2) by (simp add: is_free_def h'_def without_def)
  qed
  have "store_ok frame h' ?A"
  proof (rule store_okI)
    show "is_list h' k ys \<and> set ys \<subseteq> dom (sq_data ?A) \<and> sq_data ?A k = None \<and> unat (lh_max h' k) = sq_cap ?A k"
      if "sq_lists ?A k = Some ys" for k ys
    proof (cases "k = l")
      case True
      with own d(3,4) that show ?thesis by (auto simp: h'_def without_def restrict_map_def)
    next
      case False
      then have k: "sq_lists A k = Some ys" using that by simp
      with False others [OF k] store_okD(2-4) [OF ok k] store_ok_apart [OF ok l k] show ?thesis
        by (auto simp: h'_def without_def restrict_map_def dom_def)
    qed
    show "set ys \<inter> set zs = {}" if "sq_lists ?A j = Some ys" "sq_lists ?A k = Some zs" "j \<noteq> k" for j k ys zs
      using store_ok_apart [OF ok, of j ys k zs] that by (auto split: if_splits)
    show "n \<noteq> 0 \<and> lh_live h' n \<and> lh_data h' n = Some e \<and> (unused ?A n \<longrightarrow> is_free h' n)"
      if "sq_data ?A n = Some e" for n e
      using that free [OF that] store_ok_data [OF ok, of n e] by (auto simp: h'_def without_def restrict_map_def split: if_splits)
    have sub: "dom (sq_data ?A) \<subseteq> dom (sq_data A)" "finite (dom (sq_data A))" using ok by (auto simp: store_ok_def)
    then show "finite (dom (sq_data ?A))" by (rule finite_subset)
    show "card (dom (sq_data ?A)) < lh_bound h'"
      using card_mono [OF sub(2,1)] ok by (simp add: store_ok_def h'_def without_def)
    show "frames_free h' frame 0" using store_ok_frames [OF ok] by (auto simp: frames_free_def h'_def without_def)
    show "sq_cap ?A k \<noteq> 0" if "sq_lists ?A k = Some ys" for k ys
      using that l store_ok_cap [OF ok, of k] by (auto split: if_splits)
  qed
  moreover have "lh_max h l \<noteq> 0" using store_ok_cap [OF ok l] d(4) by auto
  then have "list_destroy_nodes l h = Inr ((), h')" unfolding h'_def by (rule destroy_nodes_run [OF d(1)])
  ultimately show ?thesis
    using l by (intro simulatedI [where h' = h']) (auto simp: h'_def without_def intro: silently_run)
qed

lemma has_listE: "has_list A l \<Longrightarrow> (\<And>xs. sq_lists A l = Some xs \<Longrightarrow> P) \<Longrightarrow> P"
  by (auto simp: has_list_def)

lemma query_simulated:
  assumes ok: "store_ok frame h A" and l: "has_list A l"
  shows "simulated frame cmp (lh_bound h) h A (Contains l n)" and "simulated frame cmp (lh_bound h) h A (FindNode l key)"
    and "simulated frame cmp (lh_bound h) h A (Count l)" and "simulated frame cmp (lh_bound h) h A (First l)"
    and "simulated frame cmp (lh_bound h) h A (Last l)" and "simulated frame cmp (lh_bound h) h A (IsSorted l)"
    and "n \<in> set (nodes_of A l) \<Longrightarrow> simulated frame cmp (lh_bound h) h A (NextOf l n)"
    and "n \<in> set (nodes_of A l) \<Longrightarrow> simulated frame cmp (lh_bound h) h A (PrevOf l n)"
proof -
  from l obtain xs where xs: "sq_lists A l = Some xs" by (rule has_listE)
  note d = store_okD(1,6) [OF ok xs]
  have dat: "\<forall>x \<in> set xs. lh_data h x = Some (data_of A x)" using d(2) by (simp add: has_data_def)
  have "list_find l key cmp h = Inr (or_null (filter (\<lambda>x. cmp (data_of A x) key = 0) xs), h)"
    using find_run [OF d(1) dat, of key cmp] by (simp add: find_or_null)
  then show "simulated frame cmp (lh_bound h) h A (FindNode l key)"
    using xs by (intro simulated_const [OF ok]) (auto intro: answering_run)
  show "simulated frame cmp (lh_bound h) h A (Contains l n)"
    using contains_run [OF d(1)] xs by (intro simulated_const [OF ok]) (auto intro: answering_run)
  show "simulated frame cmp (lh_bound h) h A (Count l)"
    using is_listD(1,2,8) [OF d(1)] xs
    by (intro simulated_const [OF ok]) (simp_all add: answering_run [OF list_count_run])
  show "simulated frame cmp (lh_bound h) h A (First l)" "simulated frame cmp (lh_bound h) h A (Last l)"
    using ends_run [OF d(1)] xs by (auto intro!: simulated_const [OF ok] answering_run)
  show "simulated frame cmp (lh_bound h) h A (IsSorted l)"
    using is_sorted_run [OF d(1) dat] xs by (intro simulated_const [OF ok]) (auto intro: answering_run)
  assume "n \<in> set (nodes_of A l)"
  then have "n \<in> set xs" using xs by simp
  then obtain us vs where c: "until n xs = us" "starting n xs = n # vs" "xs = us @ n # vs" by (rule cut_at)
  show "simulated frame cmp (lh_bound h) h A (NextOf l n)" "simulated frame cmp (lh_bound h) h A (PrevOf l n)"
    using neighbours_run [of h l us n vs] d(1) xs c by (auto intro!: simulated_const [OF ok] answering_run)
qed

lemma removal_simulated:
  assumes ok: "store_ok frame h A" and l: "has_list A l"
  shows "n \<in> set (nodes_of A l) \<Longrightarrow> simulated frame cmp (lh_bound h) h A (DeleteNode l n)"
    and "nodes_of A l \<noteq> [] \<Longrightarrow> simulated frame cmp (lh_bound h) h A (DelFirst l)"
    and "nodes_of A l \<noteq> [] \<Longrightarrow> simulated frame cmp (lh_bound h) h A (DelLast l)"
proof -
  from l obtain xs where xs: "sq_lists A l = Some xs" by (rule has_listE)
  note d = store_okD(1) [OF ok xs]
  show "simulated frame cmp (lh_bound h) h A (DeleteNode l n)" if n: "n \<in> set (nodes_of A l)"
  proof -
    obtain us vs where c: "xs = us @ n # vs" "n \<notin> set us" using n xs cut_at by (metis option.sel)
    from delete_simulated [OF ok, of l us n vs] xs c obtain h' where
      "list_delete l n h = Inr (n, h')" "lh_bound h' = lh_bound h" "store_ok frame h' (put l (us @ vs) A)" by auto
    then show ?thesis using xs c by (intro simulatedI [where h' = h']) (auto simp: remove1_append intro: answering_run)
  qed
  show "simulated frame cmp (lh_bound h) h A (DelFirst l)" if n: "nodes_of A l \<noteq> []"
  proof -
    obtain x vs where c: "xs = x # vs" using n xs by (cases xs) auto
    from delete_simulated [OF ok, of l "[]" x vs] xs c obtain h' where
      h': "list_delete l x h = Inr (x, h')" "lh_bound h' = lh_bound h" "store_ok frame h' (put l vs A)" by auto
    have "list_del_first l h = Inr (x, h')"
      using ends_run(1) [OF d] h'(1) c by (simp add: list_del_first_def run or_null_def)
    then show ?thesis using h' xs c by (intro simulatedI [where h' = h']) (auto intro: answering_run)
  qed
  show "simulated frame cmp (lh_bound h) h A (DelLast l)" if n: "nodes_of A l \<noteq> []"
  proof -
    obtain x us where c: "xs = us @ [x]" using n xs by (cases xs rule: rev_cases) auto
    from delete_simulated [OF ok, of l us x "[]"] xs c obtain h' where
      h': "list_delete l x h = Inr (x, h')" "lh_bound h' = lh_bound h" "store_ok frame h' (put l us A)" by auto
    have "list_del_last l h = Inr (x, h')"
      using ends_run(2) [OF d] h'(1) c by (simp add: list_del_last_def run or_null_def)
    then show ?thesis using h' xs c by (intro simulatedI [where h' = h']) (auto intro: answering_run)
  qed
qed

lemma transfer_simulated:
  assumes ok: "store_ok frame h A" and pre: "list_pre frame cmp k (Transfer d s n) A"
  shows "simulated frame cmp (lh_bound h) h A (Transfer d s n)"
proof (cases "n = 0")
  case True
  with ok show ?thesis
    by (intro simulated_const) (auto simp: answering_def list_transfer_def run)
next
  case False
  from pre False obtain ds ss where l: "sq_lists A d = Some ds" "sq_lists A s = Some ss" "d \<noteq> s" "n \<in> set ss"
    "length ds + length (starting n ss) \<le> sq_cap A d"
    by (auto simp: has_list_def room_def)
  obtain us vs where c: "until n ss = us" "starting n ss = n # vs" "ss = us @ n # vs" using l(4) by (rule cut_at)
  note m = move_store [OF ok l(1), of s us "n # vs" "[]"]
  have "list_transfer d s n h = Inr ((), moved_at h d s ds us (n # vs) [])"
    using transfer_run [of h d s ds us "n # vs"] m(1) l c by simp
  then show ?thesis
    using False l c m(2) by (intro simulatedI [where h' = "moved_at h d s ds us (n # vs) []"]) (auto intro: silently_run)
qed

lemma extract_simulated:
  assumes ok: "store_ok frame h A" and pre: "list_pre frame cmp k (Extract d s m n) A"
  shows "simulated frame cmp (lh_bound h) h A (Extract d s m n)"
proof -
  from pre obtain ds ss where l: "sq_lists A d = Some ds" "sq_lists A s = Some ss" "d \<noteq> s"
    "m = 0 \<or> m \<in> set ss" "n = 0 \<or> n \<in> set ss" by (auto simp: has_list_def)
  note ls = store_okD(1) [OF ok l(2)]
  show ?thesis
  proof (cases "m = 0 \<or> n = 0")
    case True
    with l(4,5) have "list_extract d s m n h = Inr ((), h)"
      by (auto simp: list_extract_def run contains_run [OF ls])
    with ok True show ?thesis by (intro simulated_const) (auto intro: silently_run)
  next
    case False
    with pre l have mn: "m \<in> set ss" "n \<in> set (starting m ss)" "length ds + length (until n (starting m ss)) + 1 \<le> sq_cap A d"
      by (auto simp: room_def)
    obtain us vs where c: "until m ss = us" "starting m ss = m # vs" "ss = us @ m # vs" using mn(1) by (rule cut_at)
    obtain ys zs where e: "until n (m # vs) = ys" "starting n (m # vs) = n # zs" "m # vs = ys @ n # zs"
      using mn(2) unfolding c(2) by (rule cut_at)
    have ss: "ss = us @ (ys @ [n]) @ zs" and first: "hd (ys @ [n]) = m" using c e by (simp, cases ys, auto)
    note mv = move_store [OF ok l(1), of s us "ys @ [n]" zs]
    have "list_extract d s m n h = Inr ((), moved_at h d s ds us (ys @ [n]) zs)"
      using extract_run [of h d s ds us "ys @ [n]" zs] mv(1) l ss first mn(3) c e by simp
    then show ?thesis
      using False l c e ss mn(3) mv(2)
      by (intro simulatedI [where h' = "moved_at h d s ds us (ys @ [n]) zs"]) (auto intro: silently_run)
  qed
qed

lemma list_step:
  assumes "stores frame k h A" and "list_pre frame cmp k c A"
  shows "simulated frame cmp k h A c"
proof -
  from assms(1) have ok: "store_ok frame h A" and k: "k = lh_bound h" by (auto simp: stores_def)
  show ?thesis
  proof (cases c)
    case (Append l n)
    then have "simulated frame cmp k h A (InsBefore l n l)"
      using insert_simulated(1) [OF ok, of l n l] assms(2) k by simp
    with Append show ?thesis by (simp add: simulated_def list_append_def)
  next
    case (Prepend l n)
    then have "simulated frame cmp k h A (InsAfter l n l)"
      using insert_simulated(3) [OF ok, of l n l] assms(2) k by simp
    with Prepend show ?thesis by (simp add: simulated_def list_prepend_def)
  next
    case (InsBefore l n t)
    then show ?thesis using insert_simulated(1,2) [OF ok, of l n t] assms(2) k by (cases "t = l") auto
  next
    case (InsAfter l n t)
    then show ?thesis using insert_simulated(3,4) [OF ok, of l n t] assms(2) k by (cases "t = l") auto
  next
    case (MergeInto d s)
    show ?thesis
    proof (cases "d = s")
      case True
      with MergeInto ok k show ?thesis
        by (auto intro!: simulated_const simp: answering_def list_merge_def run)
    next
      case False
      with MergeInto assms(2) obtain ds ss where l: "sq_lists A d = Some ds" "sq_lists A s = Some ss"
        "length ds + length ss \<le> sq_cap A d" "in_order cmp (map (data_of A) ds)" "in_order cmp (map (data_of A) ss)"
        by (auto simp: has_list_def room_def)
      from merge_store [OF ok l(1,2) False l(3-5)] obtain h' where
        "list_merge d s cmp h = Inr ((), h')" "lh_bound h' = lh_bound h"
        "store_ok frame h' (put d (merge_seq cmp (data_of A) ds ss) (put s [] A))" by blast
      with MergeInto False l k show ?thesis by (intro simulatedI [where h' = h']) (auto intro: silently_run)
    qed
  next
    case (SortList l)
    with assms(2) obtain xs where l: "sq_lists A l = Some xs" "compares cmp" by (auto simp: has_list_def)
    from sort_store [OF ok l] obtain h' where "list_sort frame l cmp h = Inr ((), h')" "lh_bound h' = lh_bound h"
      "store_ok frame h' (put l (msort cmp (data_of A) xs) A)" by blast
    with SortList l k show ?thesis by (intro simulatedI [where h' = h']) (auto intro: silently_run)
  next
    case (NewNode a d)
    with new_simulated [OF ok] assms(2) k show ?thesis by blast
  next
    case (NewList l m)
    with new_list_simulated [OF ok] assms(2) k show ?thesis by blast
  next
    case (DropList l)
    with assms(2) have "sq_lists A l = Some []" by (auto simp: has_list_def)
    with DropList drop_list_simulated [OF ok] k show ?thesis by blast
  next
    case (DropNodes l)
    with assms(2) obtain xs where "sq_lists A l = Some xs" by (auto simp: has_list_def)
    with DropNodes drop_nodes_simulated [OF ok] k show ?thesis by blast
  next
    case (DropNode n)
    with drop_simulated [OF ok] assms(2) k show ?thesis by simp
  next
    case (Transfer d s n)
    with transfer_simulated [OF ok] assms(2) k show ?thesis by blast
  next
    case (Extract d s m n)
    with extract_simulated [OF ok] assms(2) k show ?thesis by blast
  qed (use query_simulated [OF ok] removal_simulated [OF ok] assms(2) k in auto)
qed

end
