(* ===== verification/Kazlib_Pool.thy ===== *)
theory Kazlib_Pool
  imports Kazlib_List_Session
begin

text \<open>
  Node pools: the free nodes form a stack, linked through their \<^verbatim>\<open>next\<close> fields and all marked as
  being in a list, so that a node given back twice is noticed.
\<close>

section \<open>The free nodes\<close>

definition pool_ok :: "'d lheap \<Rightarrow> lnodepool \<Rightarrow> nat list \<Rightarrow> bool" where
  "pool_ok h p fs \<longleftrightarrow> pl_fre p = hd (fs @ [0]) \<and> path (lh_next h) fs 0 \<and> distinct fs \<and> pl_pool p \<noteq> 0 \<and>
     (\<forall>x \<in> set fs. lnode_pool_isfrom p x \<and> (lh_next h x \<noteq> 0 \<or> lh_prev h x \<noteq> 0)) \<and>
     (\<forall>x. lnode_pool_isfrom p x \<longrightarrow> lh_live h x)"

lemma isfrom_loop_iff: "isfrom_loop k b i n \<longleftrightarrow> (\<exists>j < k. n = elem_at b (i + j))"
proof (induction k arbitrary: i)
  case (Suc k)
  have "(\<exists>j < Suc k. n = elem_at b (i + j)) \<longleftrightarrow> n = elem_at b i \<or> (\<exists>j < k. n = elem_at b (i + 1 + j))"
    by (auto simp: less_Suc_eq_0_disj)
  with Suc show ?case by auto
qed simp

lemma isfrom_iff: "lnode_pool_isfrom p n \<longleftrightarrow> (\<exists>j < unat (pl_size p). n = elem_at (pl_pool p) j)"
  by (simp add: lnode_pool_isfrom_def isfrom_loop_iff)

lemma isfrom_fre [simp]: "lnode_pool_isfrom (p\<lparr>pl_fre := x\<rparr>) n = lnode_pool_isfrom p n"
  by (simp add: lnode_pool_isfrom_def)

lemma pool_ok_pos: "pool_ok h p fs \<Longrightarrow> lnode_pool_isfrom p x \<Longrightarrow> x \<noteq> 0 \<and> lh_live h x"
  by (auto simp: pool_ok_def isfrom_iff elem_at_def)

text \<open>A fresh pool holds all of its nodes.\<close>

definition linked :: "'d lheap \<Rightarrow> nat \<Rightarrow> nat \<Rightarrow> nat \<Rightarrow> 'd lheap" where
  "linked h b i k = h\<lparr>lh_next := (\<lambda>x. if x \<in> elem_at b ` {i..<i + k} then x + 24 else lh_next h x)\<rparr>"

lemma pool_link_run:
  "b \<noteq> 0 \<Longrightarrow> \<forall>j < k. lh_live h (elem_at b (i + j)) \<Longrightarrow> pool_link b k i h = Inr ((), linked h b i k)"
proof (induction k arbitrary: h i)
  case 0
  then show ?case by (simp add: run linked_def)
next
  case (Suc k)
  let ?h = "h\<lparr>lh_next := (lh_next h)(elem_at b i := elem_at b (i + 1))\<rparr>"
  have "lh_live ?h (elem_at b (i + 1 + j))" if "j < k" for j using Suc.prems(2) that by (metis Suc_less_eq add.assoc plus_1_eq_Suc lheap.select_convs(1) lheap.surjective lheap.update_convs(2))
  then have "pool_link b k (i + 1) ?h = Inr ((), linked ?h b (i + 1) k)" using Suc.prems(1) by (intro Suc.IH) auto
  moreover have "{i..<i + Suc k} = insert i {i + 1..<i + 1 + k}" by auto
  then have "linked ?h b (i + 1) k = linked h b i (Suc k)"
    by (auto simp: linked_def fun_eq_iff elem_at_def)
  moreover have "lh_live h (elem_at b i)" "elem_at b i \<noteq> 0" using Suc.prems by (force simp: elem_at_def)+
  ultimately show ?case by (simp add: run list_run)
qed

lemma path_nodes:
  "(\<And>j. j < k \<Longrightarrow> nx (elem_at b (i + j)) = (if j = k - 1 then 0 else elem_at b (i + j + 1))) \<Longrightarrow>
   path nx (map (\<lambda>j. elem_at b (i + j)) [0..<k]) 0"
proof (induction k arbitrary: i)
  case (Suc k)
  have "path nx (map (\<lambda>j. elem_at b (Suc i + j)) [0..<k]) 0"
  proof (rule Suc.IH)
    show "nx (elem_at b (Suc i + j)) = (if j = k - 1 then 0 else elem_at b (Suc i + j + 1))" if "j < k" for j
      using Suc.prems [of "Suc j"] that by auto
  qed
  moreover have "map (\<lambda>j. elem_at b (i + j)) [0..<Suc k] = elem_at b i # map (\<lambda>j. elem_at b (Suc i + j)) [0..<k]"
    by (simp add: upt_conv_Cons map_Suc_upt [symmetric] comp_def del: upt_Suc map_Suc_upt)
  moreover have "nx (elem_at b i) = (if k = 0 then 0 else elem_at b (i + 1))" using Suc.prems [of 0] by simp
  ultimately show ?case by (cases k) (auto simp: upt_conv_Cons simp del: upt_Suc)
qed simp

definition all_nodes :: "nat \<Rightarrow> nat \<Rightarrow> nat list" where
  "all_nodes b k = map (elem_at b) [0..<k]"

lemma all_nodes_isfrom: "x \<in> set (all_nodes (pl_pool p) (unat (pl_size p))) \<longleftrightarrow> lnode_pool_isfrom p x"
  by (auto simp: isfrom_iff all_nodes_def)

lemma pool_init_run:
  assumes n: "n \<noteq> 0" and b: "b \<noteq> 0" and live: "\<And>j. j < unat n \<Longrightarrow> lh_live h (elem_at b j)"
  shows "\<exists>h'. lnode_pool_init b n h = Inr (\<lparr>pl_pool = b, pl_fre = b, pl_size = n\<rparr>, h') \<and>
    pool_ok h' \<lparr>pl_pool = b, pl_fre = b, pl_size = n\<rparr> (all_nodes b (unat n)) \<and> lh_live h' = lh_live h"
proof -
  let ?k = "unat (n - 1)" and ?p = "\<lparr>pl_pool = b, pl_fre = b, pl_size = n\<rparr>"
  have k: "unat n = Suc ?k" using n unat_minus_one [OF n] by (simp add: unat_gt_0)
  let ?h1 = "linked h b 0 ?k"
  let ?h2 = "?h1\<lparr>lh_next := (lh_next ?h1)(elem_at b ?k := 0), lh_prev := (lh_prev ?h1)(elem_at b ?k := b)\<rparr>"
  have l: "pool_link b ?k 0 h = Inr ((), ?h1)" using b live k by (intro pool_link_run) auto
  have last: "lh_live ?h1 (elem_at b ?k)" "elem_at b ?k \<noteq> 0" using live k b by (auto simp: linked_def elem_at_def)
  have nx: "lh_next ?h2 (elem_at b j) = (if j = ?k then 0 else elem_at b (j + 1))" if "j < Suc ?k" for j
    using that by (auto simp: linked_def elem_at_def image_iff)
  have "path (lh_next ?h2) (map (\<lambda>j. elem_at b (0 + j)) [0..<Suc ?k]) 0"
    by (rule path_nodes) (use nx in \<open>simp del: upt_Suc\<close>)
  then have path: "path (lh_next ?h2) (all_nodes b (unat n)) 0" unfolding all_nodes_def k by simp
  have mark: "lh_next ?h2 (elem_at b j) \<noteq> 0 \<or> lh_prev ?h2 (elem_at b j) \<noteq> 0" if "j < Suc ?k" for j
    using nx [OF that] b by (auto simp: elem_at_def)
  have dist: "distinct (all_nodes b (unat n))" by (auto simp: all_nodes_def distinct_map elem_at_def intro: inj_onI)
  have hd: "hd (all_nodes b (unat n) @ [0]) = b" unfolding k by (simp add: all_nodes_def upt_conv_Cons elem_at_def del: upt_Suc)
  have "pool_ok ?h2 ?p (all_nodes b (unat n))"
  proof -
    have "lh_live ?h2 x \<and> (lh_next ?h2 x \<noteq> 0 \<or> lh_prev ?h2 x \<noteq> 0)" if fr: "lnode_pool_isfrom ?p x" for x
    proof -
      obtain j where "j < Suc ?k" "x = elem_at b j" using fr k by (auto simp: isfrom_iff)
      with mark [of j] live [of j] k show ?thesis by (simp add: linked_def)
    qed
    moreover have "lnode_pool_isfrom ?p x" if "x \<in> set (all_nodes b (unat n))" for x
      using all_nodes_isfrom [of x ?p] that by simp
    ultimately show ?thesis
      using path b dist hd unfolding pool_ok_def by simp
  qed
  moreover have "lnode_pool_init b n h = Inr (?p, ?h2)"
    using n l last by (simp add: lnode_pool_init_def run list_run)
  ultimately show ?thesis by (intro exI [of _ ?h2]) (simp add: linked_def)
qed

lemma borrow_run:
  assumes "pool_ok h p (x # fs)"
  shows "\<exists>h'. lnode_borrow p d h = Inr ((x, p\<lparr>pl_fre := hd (fs @ [0])\<rparr>), h') \<and> lh_data h' x = Some d \<and>
    is_free h' x \<and> pool_ok h' (p\<lparr>pl_fre := hd (fs @ [0])\<rparr>) fs \<and>
    (\<forall>y. y \<noteq> x \<longrightarrow> lh_next h' y = lh_next h y \<and> lh_prev h' y = lh_prev h y)"
proof -
  let ?h = "h\<lparr>lh_data := (lh_data h)(x := Some d), lh_next := (lh_next h)(x := 0), lh_prev := (lh_prev h)(x := 0)\<rparr>"
  have x: "x \<noteq> 0" "lh_live h x" "lh_next h x = hd (fs @ [0])" "pl_fre p = x" "x \<notin> set fs"
    using assms pool_ok_pos [OF assms, of x] by (auto simp: pool_ok_def)
  have "path (lh_next ?h) fs 0 = path (lh_next h) fs 0" using x(5) by (intro path_cong) auto
  then have "pool_ok ?h (p\<lparr>pl_fre := hd (fs @ [0])\<rparr>) fs"
    using assms x(5) by (auto simp: pool_ok_def)
  moreover have "lnode_borrow p d h = Inr ((x, p\<lparr>pl_fre := hd (fs @ [0])\<rparr>), ?h)"
    using x by (simp add: lnode_borrow_def lnode_init_def lnode_put_def touch_def run list_run)
  ultimately show ?thesis using x by (intro exI [of _ ?h]) (simp add: is_free_def)
qed

lemma return_run:
  assumes ok: "pool_ok h p fs" and x: "lnode_pool_isfrom p x" "is_free h x"
  shows "\<exists>h'. lnode_return p x h = Inr (p\<lparr>pl_fre := x\<rparr>, h') \<and> pool_ok h' (p\<lparr>pl_fre := x\<rparr>) (x # fs) \<and>
    (\<forall>y. y \<noteq> x \<longrightarrow> lh_next h' y = lh_next h y \<and> lh_prev h' y = lh_prev h y)"
proof -
  let ?h = "h\<lparr>lh_next := (lh_next h)(x := pl_fre p), lh_prev := (lh_prev h)(x := x)\<rparr>"
  have nin: "x \<notin> set fs" using ok x(2) by (auto simp: pool_ok_def is_free_def)
  note l = pool_ok_pos [OF ok x(1)]
  have "path (lh_next ?h) fs 0 = path (lh_next h) fs 0" using nin by (intro path_cong) auto
  then have "pool_ok ?h (p\<lparr>pl_fre := x\<rparr>) (x # fs)"
    using ok nin x(1) l by (auto simp: pool_ok_def)
  moreover have "lnode_return p x h = Inr (p\<lparr>pl_fre := x\<rparr>, ?h)"
    using x l by (simp add: lnode_return_def lnode_is_in_a_list_def run list_run is_free_def)
  ultimately show ?thesis by (intro exI [of _ ?h]) simp
qed

lemma return_twice:
  assumes ok: "pool_ok h p fs" and x: "x \<in> set fs"
  shows "lnode_return p x h = Inl AssertFail"
proof -
  have "lnode_pool_isfrom p x" "lh_next h x \<noteq> 0 \<or> lh_prev h x \<noteq> 0" using ok x by (auto simp: pool_ok_def)
  with pool_ok_pos [OF ok this(1)] show ?thesis
    by (auto simp: lnode_return_def lnode_is_in_a_list_def run list_run)
qed

section \<open>A client of a pool\<close>

datatype 'd pool_call = Borrow 'd | Return nat

fun pool_run :: "'d pool_call \<Rightarrow> ('d lheap \<times> lnodepool, nat) prog" where
  "pool_run (Borrow d) (h, p) = map_sum id (\<lambda>((x, q), t). (x, (t, q))) (lnode_borrow p d h)"
| "pool_run (Return n) (h, p) = map_sum id (\<lambda>(q, t). (0, (t, q))) (lnode_return p n h)"

text \<open>The nodes of the pool, and the stack of those that are not lent out.\<close>

fun stack_spec :: "'d pool_call \<Rightarrow> nat list \<times> nat list \<Rightarrow> nat \<times> nat list \<times> nat list" where
  "stack_spec (Borrow d) (all, fs) = (case fs of [] \<Rightarrow> (0, all, []) | x # gs \<Rightarrow> (x, all, gs))"
| "stack_spec (Return n) (all, fs) = (0, all, n # fs)"

fun stack_pre :: "'d pool_call \<Rightarrow> nat list \<times> nat list \<Rightarrow> bool" where
  "stack_pre (Borrow d) s = True"
| "stack_pre (Return n) (all, fs) = (n \<in> set all \<and> n \<notin> set fs)"

fun pool_rel :: "'d lheap \<times> lnodepool \<Rightarrow> nat list \<times> nat list \<Rightarrow> bool" where
  "pool_rel (h, p) (all, fs) \<longleftrightarrow> pool_ok h p fs \<and> (\<forall>x. x \<in> set all \<longleftrightarrow> lnode_pool_isfrom p x) \<and>
     (\<forall>x \<in> set all - set fs. is_free h x)"

lemma is_free_same:
  "is_free h x \<Longrightarrow> lh_live h' x \<Longrightarrow> lh_next h' x = lh_next h x \<Longrightarrow> lh_prev h' x = lh_prev h x \<Longrightarrow> is_free h' x"
  by (simp add: is_free_def)

lemma pool_step:
  assumes "pool_rel s a" and "stack_pre c a"
  shows "\<exists>t. pool_run c s = Inr (fst (stack_spec c a), t) \<and> pool_rel t (snd (stack_spec c a))"
proof -
  obtain h p all fs where s: "s = (h, p)" "a = (all, fs)" by (cases s; cases a)
  from assms(1) have ok: "pool_ok h p fs" and all: "\<And>x. x \<in> set all \<longleftrightarrow> lnode_pool_isfrom p x"
    and lent: "\<And>x. x \<in> set all \<Longrightarrow> x \<notin> set fs \<Longrightarrow> is_free h x" by (auto simp: s)
  show ?thesis
  proof (cases c)
    case (Borrow d)
    show ?thesis
    proof (cases fs)
      case Nil
      with ok have "pl_fre p = 0" by (simp add: pool_ok_def)
      with Borrow Nil assms(1) show ?thesis by (simp add: s lnode_borrow_def run)
    next
      case (Cons x gs)
      let ?p = "p\<lparr>pl_fre := hd (gs @ [0])\<rparr>"
      from borrow_run [OF ok [unfolded Cons]] obtain h' where h': "lnode_borrow p d h = Inr ((x, ?p), h')"
        "is_free h' x" "pool_ok h' ?p gs" "\<And>y. y \<noteq> x \<Longrightarrow> lh_next h' y = lh_next h y \<and> lh_prev h' y = lh_prev h y"
        by blast
      have "is_free h' y" if "y \<in> set all" "y \<notin> set gs" for y
      proof (cases "y = x")
        case False
        then show ?thesis
          using lent [OF that(1)] that Cons h'(4) pool_ok_pos [OF h'(3)] all by (auto intro: is_free_same)
      qed (use h'(2) in simp)
      with h' all Borrow Cons show ?thesis by (simp add: s)
    qed
  next
    case (Return n)
    with assms(2) have n: "lnode_pool_isfrom p n" "is_free h n" using lent all by (auto simp: s)
    from return_run [OF ok n] obtain h' where h': "lnode_return p n h = Inr (p\<lparr>pl_fre := n\<rparr>, h')"
      "pool_ok h' (p\<lparr>pl_fre := n\<rparr>) (n # fs)" "\<And>y. y \<noteq> n \<Longrightarrow> lh_next h' y = lh_next h y \<and> lh_prev h' y = lh_prev h y"
      by blast
    have "is_free h' y" if "y \<in> set all" "y \<noteq> n" "y \<notin> set fs" for y
      using lent [OF that(1,3)] h'(3) [OF that(2)] pool_ok_pos [OF h'(2)] all [of y] that(1) by (auto intro: is_free_same)
    with h' all Return show ?thesis by (simp add: s)
  qed
qed

interpretation lending: rel_simulation pool_rel pool_run stack_spec stack_pre
  by unfold_locales (rule pool_step)

text \<open>
  C30: A pool of \<open>n\<close> nodes over an array lends each of its nodes to one borrower at a time: after
  \<^verbatim>\<open>lnode_pool_init\<close>, any sequence of \<^verbatim>\<open>lnode_borrow\<close> and of \<^verbatim>\<open>lnode_return\<close> of a lent node runs without
  a fault and answers as the stack of the nodes not lent out does, which answers null when all
  nodes are out; a node that is in the stack is refused by \<^verbatim>\<open>lnode_return\<close>'s assertion.
\<close>
theorem pool_refines_stack:
  assumes "n \<noteq> 0" and "b \<noteq> 0" and "\<And>j. j < unat n \<Longrightarrow> lh_live h (elem_at b j)"
    and "pre_all stack_spec stack_pre cs (all_nodes b (unat n), all_nodes b (unat n))"
  shows "\<exists>h1 p h2 q all fs. lnode_pool_init b n h = Inr (p, h1) \<and>
    run_all pool_run cs (h1, p) =
      Inr (fst (spec_all stack_spec cs (all_nodes b (unat n), all_nodes b (unat n))), (h2, q)) \<and>
    snd (spec_all stack_spec cs (all_nodes b (unat n), all_nodes b (unat n))) = (all, fs) \<and> distinct fs \<and>
    (\<forall>x \<in> set fs. lnode_return q x h2 = Inl AssertFail)"
proof -
  let ?all = "all_nodes b (unat n)" and ?p = "\<lparr>pl_pool = b, pl_fre = b, pl_size = n\<rparr>"
  obtain h1 where h1: "lnode_pool_init b n h = Inr (?p, h1)" "pool_ok h1 ?p ?all"
    using pool_init_run [OF assms(1,2,3)] by blast
  have "pool_rel (h1, ?p) (?all, ?all)" using h1(2) all_nodes_isfrom [of _ ?p] by simp
  from lending.rel_all [OF this assms(4)] obtain h2 q where
    r: "run_all pool_run cs (h1, ?p) = Inr (fst (spec_all stack_spec cs (?all, ?all)), (h2, q))"
    "pool_rel (h2, q) (snd (spec_all stack_spec cs (?all, ?all)))" by auto
  obtain all fs where sp: "snd (spec_all stack_spec cs (?all, ?all)) = (all, fs)" by fastforce
  with r(2) have "pool_ok h2 q fs" by simp
  moreover from this have "distinct fs" by (simp add: pool_ok_def)
  ultimately show ?thesis using h1(1) r(1) sp return_twice by blast
qed

theorem pool_refines_stack_witness:
  "\<exists>h1 p h2 q. lnode_pool_init 48 2 (\<lparr>lh_live = \<lambda>x. x = 48 \<or> x = 72, lh_next = \<lambda>_. 0, lh_prev = \<lambda>_. 0,
       lh_data = \<lambda>_. None, lh_count = \<lambda>_. 0, lh_max = \<lambda>_. 0, lh_bound = 9\<rparr> :: int lheap) = Inr (p, h1) \<and>
     run_all pool_run [Borrow 1, Borrow 2, Borrow 3, Return 48, Borrow 4] (h1, p) = Inr ([48, 72, 0, 0, 48], (h2, q))"
proof -
  let ?h = "\<lparr>lh_live = \<lambda>x. x = 48 \<or> x = 72, lh_next = \<lambda>_. 0, lh_prev = \<lambda>_. 0,
       lh_data = \<lambda>_. None, lh_count = \<lambda>_. 0, lh_max = \<lambda>_. 0, lh_bound = 9\<rparr> :: int lheap"
  let ?cs = "[Borrow 1, Borrow 2, Borrow 3, Return 48, Borrow (4 :: int)]"
  have all: "all_nodes 48 (unat (2 :: u64)) = [48, 72]" by (simp add: all_nodes_def elem_at_def upt_rec)
  have "lh_live ?h (elem_at 48 j)" if "j < unat (2 :: u64)" for j
    using that by (auto simp: elem_at_def less_2_cases_iff)
  moreover have "pre_all stack_spec stack_pre ?cs ([48, 72], [48, 72])" by simp
  ultimately show ?thesis
    using pool_refines_stack [of 2 48 ?h ?cs] unfolding all by fastforce
qed

end
