(* ===== verification/Kazlib_List_Props.thy ===== *)
theory Kazlib_List_Props
  imports Kazlib_Pool
begin

text \<open>
  The properties of the list library and of the pointer sets built on it.
\<close>

section \<open>Lists are sequences\<close>

interpretation lists: rel_simulation "stores frame k" "list_run frame cmp" "seq_spec cmp" "list_pre frame cmp k"
  for frame k cmp
  by unfold_locales (use list_step in \<open>auto simp: simulated_def\<close>)

text \<open>
  C4: The list library implements sequences of nodes.  On a store that holds any number of lists and
  free nodes, every sequence of its calls whose caller keeps what the assertions ask for (a node
  that is inserted is in no list, a node that is named is in the list named with it, no list grows
  past its limit, lists are merged in order) runs without a fault, answers what the calls answer on
  sequences, and leaves every list with exactly its sequence and every node with its data.
\<close>
theorem list_refines_sequences:
  assumes "stores frame k h A" and "pre_all (seq_spec cmp) (list_pre frame cmp k) cs A"
  shows "\<exists>h'. run_all (list_run frame cmp) cs h = Inr (fst (spec_all (seq_spec cmp) cs A), h') \<and>
    stores frame k h' (snd (spec_all (seq_spec cmp) cs A))"
  by (rule lists.rel_all [OF assms])

definition ex_store :: "int lheap" where
  "ex_store = \<lparr>lh_live = \<lambda>_. False, lh_next = \<lambda>_. 0, lh_prev = \<lambda>_. 0, lh_data = \<lambda>_. None,
     lh_count = \<lambda>_. 0, lh_max = \<lambda>_. 0, lh_bound = 9\<rparr>"

definition ex_seqs :: "int seqs" where
  "ex_seqs = \<lparr>sq_lists = Map.empty, sq_cap = \<lambda>_. 0, sq_data = Map.empty\<rparr>"

definition ex_frame :: "nat \<Rightarrow> nat" where
  "ex_frame i = 1000 + i"

lemma ex_stores: "stores ex_frame 9 ex_store ex_seqs"
proof -
  have "inj ex_frame" by (auto simp: ex_frame_def intro: injI)
  then show ?thesis
    by (simp add: stores_def store_ok_def ex_store_def ex_seqs_def frames_free_def ex_frame_def)
qed

lemma minus_compares: "compares (\<lambda>a b :: int. a - b)"
  by (auto simp: compares_def sgn_if)

theorem list_refines_sequences_witness:
  "\<exists>h'. run_all (list_run ex_frame (\<lambda>a b. a - b))
      [NewList 10 5, NewNode 1 7, NewNode 2 3, Append 10 1, Append 10 2, SortList 10, First 10, DeleteNode 10 1]
      ex_store = Inr ([Node 10, Node 1, Node 2, Done, Done, Done, Node 2, Node 1], h')"
proof -
  let ?cmp = "\<lambda>a b :: int. a - b"
  let ?cs = "[NewList 10 5, NewNode 1 7, NewNode 2 3, Append 10 1, Append 10 2, SortList 10, First 10, DeleteNode 10 1]"
  have s: "msort ?cmp (\<lambda>n. the (if n = 2 then Some 3 else if n = 1 then Some 7 else None)) [1, 2] = [2, 1]"
    by (simp add: msort.simps)
  have dm: "dom (\<lambda>x. if x = (1 :: nat) then Some (7 :: int) else None) = {1}" by (auto split: if_splits)
  have f: "10 \<notin> frames ex_frame 0" "1 \<notin> frames ex_frame 0" "2 \<notin> frames ex_frame 0" by (auto simp: ex_frame_def)
  have "pre_all (seq_spec ?cmp) (list_pre ex_frame ?cmp 9) ?cs ex_seqs"
    using f s minus_compares dm
    by (simp del: One_nat_def add: ex_seqs_def may_insert_def has_list_def room_def unused_def put_def or_null_def fun_upd_def)
  moreover have "fst (spec_all (seq_spec ?cmp) ?cs ex_seqs) = [Node 10, Node 1, Node 2, Done, Done, Done, Node 2, Node 1]"
    using s by (simp del: One_nat_def add: ex_seqs_def put_def or_null_def fun_upd_def cong: if_cong)
  ultimately show ?thesis using list_refines_sequences [OF ex_stores, of ?cmp ?cs] by metis
qed

text \<open>
  C28: \<^verbatim>\<open>list_sort\<close> sorts: with a comparison that is an order on the data it returns, the list has
  the same nodes afterwards, in order, and nodes that compare equal stand in the reverse of their
  former order (so the sort is not stable); no other list changes.
\<close>
theorem list_sort_sorts:
  assumes "stores frame k h A" and "sq_lists A l = Some xs" and "compares cmp"
  shows "\<exists>h' ys. list_sort frame l cmp h = Inr ((), h') \<and> stores frame k h' (put l ys A) \<and> mset ys = mset xs \<and>
    sorted_wrt (\<lambda>d e. cmp d e \<le> 0) (map (data_of A) ys) \<and>
    (\<forall>key. filter (\<lambda>x. cmp key (data_of A x) = 0) ys = rev (filter (\<lambda>x. cmp key (data_of A x) = 0) xs))"
proof -
  have "simulated frame cmp k h A (SortList l)"
    using assms by (intro list_step) (simp_all add: has_list_def)
  then obtain h' where h': "list_sort frame l cmp h = Inr ((), h')"
    "stores frame k h' (put l (msort cmp (data_of A) xs) A)"
    using assms(2) by (auto simp: simulated_def answering_def run split: sum.splits)
  then show ?thesis
    using msort_correct [OF assms(3), of "data_of A" xs] in_order_wrt [OF assms(3)] by blast
qed

theorem list_sort_sorts_witness:
  "\<exists>h A xs. stores ex_frame 9 h A \<and> xs \<noteq> [] \<and> sq_lists A 10 = Some xs \<and>
     (\<exists>h' ys. list_sort ex_frame 10 (\<lambda>a b :: int. a - b) h = Inr ((), h') \<and> mset ys = mset xs)"
proof -
  let ?cmp = "\<lambda>a b :: int. a - b"
  let ?cs = "[NewList 10 5, NewNode 1 7, Append 10 1]"
  have f: "10 \<notin> frames ex_frame 0" "1 \<notin> frames ex_frame 0" by (auto simp: ex_frame_def)
  have "pre_all (seq_spec ?cmp) (list_pre ex_frame ?cmp 9) ?cs ex_seqs"
    using f by (simp add: ex_seqs_def may_insert_def has_list_def room_def unused_def put_def fun_upd_def)
  then obtain h where h: "stores ex_frame 9 h (snd (spec_all (seq_spec ?cmp) ?cs ex_seqs))"
    using lists.rel_all [OF ex_stores, of ?cmp ?cs] by blast
  have "sq_lists (snd (spec_all (seq_spec ?cmp) ?cs ex_seqs)) 10 = Some [1]"
    by (simp add: ex_seqs_def put_def)
  with list_sort_sorts [OF h this minus_compares] h show ?thesis by blast
qed

section \<open>Pointer sets\<close>

datatype ptr_call = PtrHas u64 | PtrAdd nat u64 | PtrRemove u64

fun ptrset_run :: "nat \<Rightarrow> ptr_call \<Rightarrow> (u64 lheap, bool) prog" where
  "ptrset_run l (PtrHas p) = cpi_ptrset_contains l p"
| "ptrset_run l (PtrAdd a p) = cpi_ptrset_add a l p"
| "ptrset_run l (PtrRemove p) = cpi_ptrset_remove l p"

text \<open>A set of pointers is a map from each pointer to the address of the node that carries it.\<close>

fun ptrset_spec :: "ptr_call \<Rightarrow> (u64 \<Rightarrow> nat option) \<Rightarrow> bool \<times> (u64 \<Rightarrow> nat option)" where
  "ptrset_spec (PtrHas p) m = (m p \<noteq> None, m)"
| "ptrset_spec (PtrAdd a p) m =
     (if m p \<noteq> None then (True, m) else if a = 0 then (False, m) else (True, m(p \<mapsto> a)))"
| "ptrset_spec (PtrRemove p) m = (m p \<noteq> None, m(p := None))"

fun ptrset_pre :: "nat \<Rightarrow> (nat \<Rightarrow> nat) \<Rightarrow> nat \<Rightarrow> nat \<Rightarrow> ptr_call \<Rightarrow> (u64 \<Rightarrow> nat option) \<Rightarrow> bool" where
  "ptrset_pre l frame k cap (PtrAdd a p) m \<longleftrightarrow>
     a \<notin> ran m \<and> a \<noteq> l \<and> a \<notin> frames frame 0 \<and> card (dom m) + 1 < k \<and> card (dom m) < cap"
| "ptrset_pre l frame k cap _ m \<longleftrightarrow> True"

definition ptr_map :: "u64 seqs \<Rightarrow> nat list \<Rightarrow> u64 \<Rightarrow> nat option" where
  "ptr_map A xs = map_of (map (\<lambda>x. (data_of A x, x)) xs)"

definition ptrset_rel :: "nat \<Rightarrow> (nat \<Rightarrow> nat) \<Rightarrow> nat \<Rightarrow> nat \<Rightarrow> u64 lheap \<Rightarrow> (u64 \<Rightarrow> nat option) \<Rightarrow> bool" where
  "ptrset_rel l frame k cap h m \<longleftrightarrow> (\<exists>A xs. stores frame k h A \<and> sq_lists A = [l \<mapsto> xs] \<and> sq_cap A l = cap \<and>
     dom (sq_data A) = set xs \<and> distinct (map (data_of A) xs) \<and> m = ptr_map A xs)"

lemma ptr_map_find:
  "(case find (\<lambda>x. cpi_comp_ptr (data_of A x) p = 0) xs of None \<Rightarrow> 0 | Some x \<Rightarrow> x) =
     (case ptr_map A xs p of None \<Rightarrow> 0 | Some x \<Rightarrow> x)"
  by (induction xs) (auto simp: ptr_map_def cpi_comp_ptr_def)

lemma ptr_map_Some:
  assumes "distinct (map (data_of A) xs)"
  shows "ptr_map A xs p = Some x \<longleftrightarrow> x \<in> set xs \<and> data_of A x = p"
proof -
  have "distinct (map fst (map (\<lambda>x. (data_of A x, x)) xs))" using assms by (simp add: comp_def)
  from map_of_eq_Some_iff [OF this, of p x] show ?thesis by (auto simp: ptr_map_def)
qed

lemma ptr_map_dom: "dom (ptr_map A xs) = data_of A ` set xs"
  by (simp add: ptr_map_def dom_map_of_conv_image_fst image_image)

lemma ptr_map_ran: "distinct (map (data_of A) xs) \<Longrightarrow> ran (ptr_map A xs) = set xs"
  by (auto simp: ran_def ptr_map_Some)

lemma ptr_map_card: "distinct (map (data_of A) xs) \<Longrightarrow> card (dom (ptr_map A xs)) = length xs"
  using distinct_card [of "map (data_of A) xs"] by (simp add: ptr_map_dom)

lemma ptr_map_eqI:
  assumes "distinct (map (data_of A) xs)" and "\<And>p x. m p = Some x \<longleftrightarrow> x \<in> set xs \<and> data_of A x = p"
  shows "m = ptr_map A xs"
proof
  fix p show "m p = ptr_map A xs p"
    using assms by (metis not_Some_eq ptr_map_Some)
qed

lemma ptrset_find:
  assumes "stores frame k h A" and "sq_lists A l = Some xs"
  shows "list_find l p cpi_comp_ptr h = Inr (case ptr_map A xs p of None \<Rightarrow> 0 | Some x \<Rightarrow> x, h)"
proof -
  have ok: "store_ok frame h A" using assms(1) by (simp add: stores_def)
  note d = store_okD(1,6) [OF ok assms(2)]
  have "\<forall>x \<in> set xs. lh_data h x = Some (data_of A x)" using d(2) by (simp add: has_data_def)
  then show ?thesis using find_run [OF d(1), of "data_of A" p cpi_comp_ptr] by (simp add: ptr_map_find)
qed

lemma ptrset_relI:
  "stores frame k h A \<Longrightarrow> sq_lists A = [l \<mapsto> xs] \<Longrightarrow> sq_cap A l = cap \<Longrightarrow> dom (sq_data A) = set xs \<Longrightarrow>
   distinct (map (data_of A) xs) \<Longrightarrow> (\<And>p x. m p = Some x \<longleftrightarrow> x \<in> set xs \<and> data_of A x = p) \<Longrightarrow> ptrset_rel l frame k cap h m"
  unfolding ptrset_rel_def using ptr_map_eqI by blast

lemma simulated_run:
  "simulated frame cmp k h A c \<Longrightarrow> seq_spec cmp c A = (r, A') \<Longrightarrow>
   \<exists>h'. list_run frame cmp c h = Inr (r, h') \<and> stores frame k h' A'"
  by (auto simp: simulated_def)

lemma silently_Inr: "silently p h = Inr (Done, h') \<Longrightarrow> p h = Inr ((), h')"
  by (auto simp: answering_def run split: sum.splits)

lemma answering_Node: "answering Node p h = Inr (Node x, h') \<Longrightarrow> p h = Inr (x, h')"
  by (auto simp: answering_def run split: sum.splits)

lemma ptrset_has:
  assumes "ptrset_rel l frame k cap h m"
  shows "cpi_ptrset_contains l p h = Inr (m p \<noteq> None, h)"
proof -
  from assms obtain A xs where st: "stores frame k h A" "sq_lists A l = Some xs" "dom (sq_data A) = set xs"
    "distinct (map (data_of A) xs)" "m = ptr_map A xs" by (auto simp: ptrset_rel_def)
  note f = ptrset_find [OF st(1,2), of p]
  show ?thesis
  proof (cases "m p")
    case None
    with f st(5) show ?thesis by (simp add: cpi_ptrset_contains_def run)
  next
    case (Some x)
    then have "x \<in> set xs" using ptr_map_Some [OF st(4)] st(5) by simp
    then have "x \<noteq> 0" using st(1,3) store_ok_data(1) [of frame h A x] by (auto simp: stores_def)
    with Some f st(5) show ?thesis by (simp add: cpi_ptrset_contains_def run)
  qed
qed

lemma ptrset_add_step:
  assumes "ptrset_rel l frame k cap h m" and pre: "ptrset_pre l frame k cap (PtrAdd a p) m"
  shows "\<exists>t. cpi_ptrset_add a l p h = Inr (fst (ptrset_spec (PtrAdd a p) m), t) \<and>
    ptrset_rel l frame k cap t (snd (ptrset_spec (PtrAdd a p) m))"
proof -
  from assms(1) obtain A xs where st: "stores frame k h A" and A: "sq_lists A = [l \<mapsto> xs]" "sq_cap A l = cap"
    "dom (sq_data A) = set xs" "distinct (map (data_of A) xs)" and m: "m = ptr_map A xs"
    by (auto simp: ptrset_rel_def)
  have l: "sq_lists A l = Some xs" using A(1) by simp
  note has = ptrset_has [OF assms(1), of p]
  show ?thesis
  proof (cases "m p \<noteq> None \<or> a = 0")
    case True
    with has assms(1) show ?thesis by (auto simp: cpi_ptrset_add_def lnode_create_def run)
  next
    case False
    then have new: "m p = None" "a \<noteq> 0" by auto
    have a: "a \<notin> set xs" "a \<noteq> l" "a \<notin> frames frame 0" "length xs + 1 < k" "length xs < cap"
      using pre ptr_map_ran [OF A(4)] ptr_map_card [OF A(4)] by (auto simp: m)
    have dist: "distinct xs" using A(4) by (simp add: distinct_map)
    let ?A1 = "A\<lparr>sq_data := (sq_data A)(a \<mapsto> p)\<rparr>"
    have p1: "list_pre frame cpi_comp_ptr k (NewNode a p) A"
    proof -
      have "card (dom (sq_data A)) = length xs" using A(3) dist by (simp add: distinct_card)
      moreover have "sq_data A a = None" using a(1) A(3) by auto
      ultimately show ?thesis using a A(1) by simp
    qed
    have "seq_spec cpi_comp_ptr (NewNode a p) A = (Node a, ?A1)" using new(2) by simp
    from simulated_run [OF list_step [OF st p1] this] obtain h1 where
      h1: "list_run frame cpi_comp_ptr (NewNode a p) h = Inr (Node a, h1)" "stores frame k h1 ?A1" by blast
    have p2: "list_pre frame cpi_comp_ptr k (Append l a) ?A1"
      using a(1,5) A(1,2) by (simp add: may_insert_def has_list_def room_def unused_def)
    have "seq_spec cpi_comp_ptr (Append l a) ?A1 = (Done, put l (xs @ [a]) ?A1)" using A(1) by simp
    from simulated_run [OF list_step [OF h1(2) p2] this] obtain h2 where
      h2: "list_run frame cpi_comp_ptr (Append l a) h1 = Inr (Done, h2)" "stores frame k h2 (put l (xs @ [a]) ?A1)" by blast
    have run: "cpi_ptrset_add a l p h = Inr (True, h2)"
      using has new answering_Node [of "lnode_create a p" h a h1] silently_Inr [of "list_append l a" h1 h2] h1(1) h2(1)
      by (simp add: cpi_ptrset_add_def run_bnd run_sq run_ret)
    have data: "data_of ?A1 x = data_of A x" if "x \<in> set xs" for x using that a(1) by auto
    have mp: "map (data_of ?A1) (xs @ [a]) = map (data_of A) xs @ [p]" using data by (auto simp del: map_add_upd)
    have "p \<notin> data_of A ` set xs" using new(1) unfolding m by (metis domIff ptr_map_dom)
    then have dist1: "distinct (map (data_of ?A1) (xs @ [a]))" unfolding mp using A(4) by simp
    have "ptrset_rel l frame k cap h2 (m(p \<mapsto> a))"
    proof (rule ptrset_relI [OF h2(2)])
      show "sq_lists (put l (xs @ [a]) ?A1) = [l \<mapsto> xs @ [a]]" "sq_cap (put l (xs @ [a]) ?A1) l = cap"
        "dom (sq_data (put l (xs @ [a]) ?A1)) = set (xs @ [a])"
        using A(1-3) by (auto simp: put_def)
      show "distinct (map (data_of (put l (xs @ [a]) ?A1)) (xs @ [a]))" using dist1 by (simp add: put_def)
      show "(m(p \<mapsto> a)) q = Some x \<longleftrightarrow> x \<in> set (xs @ [a]) \<and> data_of (put l (xs @ [a]) ?A1) x = q" for q x
      proof -
        have "m q = Some x \<longleftrightarrow> x \<in> set xs \<and> data_of A x = q" using ptr_map_Some [OF A(4)] by (simp add: m)
        then show ?thesis using new(1) a(1) by (auto simp: put_def)
      qed
    qed
    with run new show ?thesis by simp
  qed
qed

lemma ptrset_remove_step:
  assumes "ptrset_rel l frame k cap h m"
  shows "\<exists>t. cpi_ptrset_remove l p h = Inr (m p \<noteq> None, t) \<and> ptrset_rel l frame k cap t (m(p := None))"
proof -
  from assms(1) obtain A xs where st: "stores frame k h A" and A: "sq_lists A = [l \<mapsto> xs]" "sq_cap A l = cap"
    "dom (sq_data A) = set xs" "distinct (map (data_of A) xs)" and m: "m = ptr_map A xs"
    by (auto simp: ptrset_rel_def)
  have l: "sq_lists A l = Some xs" using A(1) by simp
  note f = ptrset_find [OF st l, of p]
  show ?thesis
  proof (cases "m p")
    case None
    then have "m(p := None) = m" by auto
    with None f assms show ?thesis by (auto simp: cpi_ptrset_remove_def run m)
  next
    case (Some x)
    then have x: "x \<in> set xs" "data_of A x = p" using ptr_map_Some [OF A(4), of p x] by (auto simp: m)
    have pos: "x \<noteq> 0" using x(1) A(3) store_ok_data(1) [of frame h A x] st by (auto simp: stores_def)
    have dist: "distinct xs" using A(4) by (simp add: distinct_map)
    let ?A1 = "put l (remove1 x xs) A" and ?A2 = "(put l (remove1 x xs) A)\<lparr>sq_data := (sq_data A)(x := None)\<rparr>"
    have p1: "list_pre frame cpi_comp_ptr k (DeleteNode l x) A" using l x by (simp add: has_list_def)
    have "seq_spec cpi_comp_ptr (DeleteNode l x) A = (Node x, ?A1)" using l by simp
    from simulated_run [OF list_step [OF st p1] this] obtain h1 where
      h1: "list_run frame cpi_comp_ptr (DeleteNode l x) h = Inr (Node x, h1)" "stores frame k h1 ?A1" by blast
    have p2: "list_pre frame cpi_comp_ptr k (DropNode x) ?A1"
      using A(1,3) x(1) dist by (auto simp: unused_def put_def)
    have "seq_spec cpi_comp_ptr (DropNode x) ?A1 = (Done, ?A2)" by (simp add: put_def)
    from simulated_run [OF list_step [OF h1(2) p2] this] obtain h2 where
      h2: "list_run frame cpi_comp_ptr (DropNode x) h1 = Inr (Done, h2)" "stores frame k h2 ?A2" by blast
    have run: "cpi_ptrset_remove l p h = Inr (True, h2)"
      using f Some pos answering_Node [of "list_delete l x" h x h1] silently_Inr [of "lnode_destroy x" h1 h2] h1(1) h2(1)
      by (simp add: cpi_ptrset_remove_def run_bnd run_sq run_ret m)
    have eq: "map (data_of ?A2) (remove1 x xs) = map (data_of A) (remove1 x xs)" using dist by (auto simp: put_def)
    have "ptrset_rel l frame k cap h2 (m(p := None))"
    proof (rule ptrset_relI [OF h2(2)])
      show "sq_lists ?A2 = [l \<mapsto> remove1 x xs]" "sq_cap ?A2 l = cap" "dom (sq_data ?A2) = set (remove1 x xs)"
        using A(1-3) dist by (auto simp: put_def)
      show "distinct (map (data_of ?A2) (remove1 x xs))"
        unfolding eq using A(4) by (simp add: distinct_map inj_on_def)
      show "(m(p := None)) q = Some y \<longleftrightarrow> y \<in> set (remove1 x xs) \<and> data_of ?A2 y = q" for q y
      proof -
        have "m q = Some y \<longleftrightarrow> y \<in> set xs \<and> data_of A y = q" using ptr_map_Some [OF A(4)] by (simp add: m)
        then show ?thesis using Some x dist by (auto simp: put_def)
      qed
    qed
    with run Some show ?thesis by auto
  qed
qed

lemma ptrset_step:
  assumes "ptrset_rel l frame k cap h m" and "ptrset_pre l frame k cap c m"
  shows "\<exists>t. ptrset_run l c h = Inr (fst (ptrset_spec c m), t) \<and> ptrset_rel l frame k cap t (snd (ptrset_spec c m))"
proof (cases c)
  case (PtrHas p)
  with ptrset_has [OF assms(1), of p] assms(1) show ?thesis by simp
next
  case (PtrAdd a p)
  with ptrset_add_step [OF assms(1)] assms(2) show ?thesis by (simp only: ptrset_run.simps)
next
  case (PtrRemove p)
  with ptrset_remove_step [OF assms(1), of p] show ?thesis by simp
qed

interpretation ptrs: rel_simulation "ptrset_rel l frame k cap" "ptrset_run l" ptrset_spec "ptrset_pre l frame k cap"
  for l frame k cap
  by unfold_locales (rule ptrset_step)

text \<open>
  C29: The pointer sets of the framework are sets: on a list that no one else works on, every sequence
  of \<^verbatim>\<open>cpi_ptrset_contains\<close>, \<^verbatim>\<open>cpi_ptrset_add\<close> and \<^verbatim>\<open>cpi_ptrset_remove\<close> answers what a finite map from
  pointers to nodes answers: a pointer is stored once however often it is added, adding fails only
  when \<^verbatim>\<open>malloc\<close> does, and removing says whether the pointer was there.
\<close>
theorem ptrset_refines_set:
  assumes "ptrset_rel l frame k cap h m" and "pre_all ptrset_spec (ptrset_pre l frame k cap) cs m"
  shows "\<exists>h'. run_all (ptrset_run l) cs h = Inr (fst (spec_all ptrset_spec cs m), h') \<and>
    ptrset_rel l frame k cap h' (snd (spec_all ptrset_spec cs m))"
  by (rule ptrs.rel_all [OF assms])

theorem ptrset_refines_set_witness:
  "\<exists>(h :: u64 lheap) h'. run_all (ptrset_run 10) [PtrAdd 1 5, PtrAdd 2 5, PtrHas 5, PtrAdd 0 6, PtrRemove 5, PtrHas 5] h =
     Inr ([True, True, True, False, True, False], h')"
proof -
  let ?cs = "[PtrAdd 1 5, PtrAdd 2 5, PtrHas 5, PtrAdd 0 6, PtrRemove 5, PtrHas 5]"
  define h0 :: "u64 lheap" where "h0 = \<lparr>lh_live = \<lambda>_. False, lh_next = \<lambda>_. 0, lh_prev = \<lambda>_. 0,
    lh_data = \<lambda>_. None, lh_count = \<lambda>_. 0, lh_max = \<lambda>_. 0, lh_bound = 9\<rparr>"
  define A0 :: "u64 seqs" where "A0 = \<lparr>sq_lists = Map.empty, sq_cap = \<lambda>_. 0, sq_data = Map.empty\<rparr>"
  have "inj ex_frame" by (auto simp: ex_frame_def intro: injI)
  then have st: "stores ex_frame 9 h0 A0"
    by (simp add: stores_def store_ok_def h0_def A0_def frames_free_def ex_frame_def)
  have f: "10 \<notin> frames ex_frame 0" "0 \<notin> frames ex_frame 0" "1 \<notin> frames ex_frame 0" "2 \<notin> frames ex_frame 0"
    by (auto simp: ex_frame_def)
  have "list_pre ex_frame cpi_comp_ptr 9 (NewList 10 5) A0" using f by (simp add: A0_def)
  from simulated_run [OF list_step [OF st this]] obtain h where
    h: "stores ex_frame 9 h (snd (seq_spec cpi_comp_ptr (NewList 10 5) A0))" by fastforce
  have rel: "ptrset_rel 10 ex_frame 9 5 h Map.empty"
    by (rule ptrset_relI [OF h, of _ "[]"]) (simp_all add: A0_def)
  have "pre_all ptrset_spec (ptrset_pre 10 ex_frame 9 5) ?cs Map.empty"
    using f by simp
  moreover have "fst (spec_all ptrset_spec ?cs Map.empty) = [True, True, True, False, True, False]" by simp
  ultimately show ?thesis using ptrset_refines_set [OF rel, of ?cs] by metis
qed

end
