(* ===== verification/Cpluff_Vercmp.thy ===== *)
theory Cpluff_Vercmp
  imports Prelude
begin

text \<open>
  The comparison of version strings of C-Pluff, \<^verbatim>\<open>cpi_vercmp\<close> in \<^verbatim>\<open>lib/cpluff/libcpluff/util.c\<close>, and
  what it decides: the order of the versions' keys, which is a total preorder.

  A \<^verbatim>\<open>char\<close> is signed.  A pointer into a string is the rest of the string from there on (without the
  final zero), so that a pointer is before another when its rest is longer.
\<close>

type_synonym str = "u8 list"

fun vercmp_nondigit_end :: "str \<Rightarrow> str" where
  "vercmp_nondigit_end [] = []"
| "vercmp_nondigit_end (c # v) =
     (if sint c < 48 \<or> sint c > 57 then vercmp_nondigit_end v else c # v)"

fun vercmp_digit_end :: "str \<Rightarrow> str" where
  "vercmp_digit_end [] = []"
| "vercmp_digit_end (c # v) =
     (if sint c \<ge> 48 \<and> sint c \<le> 57 then vercmp_digit_end v else c # v)"

definition vercmp_char_value :: "u8 \<Rightarrow> int" where
  "vercmp_char_value ch =
     (let c = sint ch
      in if c = 0 then 0
         else if c \<ge> 65 \<and> c \<le> 90 then 1 + (c - 65)
         else if c \<ge> 97 \<and> c \<le> 122 then 1 + (90 - 65 + 1) + (c - 97)
         else
           (let i = 1 + (90 - 65 + 1) + (122 - 97 + 1) + (c - (-128));
                i = (if c > 122 then i - (122 - 97 + 1) else i);
                i = (if c > 90 then i - (90 - 65 + 1) else i);
                i = (if c > 0 then i - 1 else i)
            in i))"

text \<open>
  \<^verbatim>\<open>atoi\<close> on digits; a value that does not fit an \<^verbatim>\<open>int\<close> is undefined behaviour.
\<close>

definition digits_value :: "str \<Rightarrow> int" where
  "digits_value ds = foldl (\<lambda>n d. 10 * n + (sint d - 48)) 0 ds"

definition atoi :: "str \<Rightarrow> fault + int" where
  "atoi ds = (if digits_value ds < 2 ^ 31 then Inr (digits_value ds) else Inl SignedOverflow)"

fun skip_zeros :: "str \<Rightarrow> str" where
  "skip_zeros [] = []"
| "skip_zeros (c # v) = (if c = 48 then skip_zeros v else c # v)"

text \<open>The digits from \<open>v\<close> up to \<open>vn\<close>; at most 15 of them reach \<^verbatim>\<open>atoi\<close>.\<close>

definition vercmp_num_value :: "str \<Rightarrow> str \<Rightarrow> fault + int" where
  "vercmp_num_value v vn =
     (let ds = skip_zeros (take (length v - length vn) v)
      in if ds = [] then Inr 0
         else if length ds < 16 then atoi ds
         else atoi (take 15 ds))"

text \<open>
  The loop over the non-digit prefixes: the difference it returns, or the two pointers it ends with.
\<close>

function vercmp_nondigits :: "str \<Rightarrow> str \<Rightarrow> str \<Rightarrow> str \<Rightarrow> int + (str \<times> str)" where
  "vercmp_nondigits v1 v1n v2 v2n =
     (if length v1 > length v1n \<or> length v2 > length v2n then
        (let (c1, v1') = (if length v1 > length v1n then (hd v1, tl v1) else (0, v1));
             (c2, v2') = (if length v2 > length v2n then (hd v2, tl v2) else (0, v2));
             diff = vercmp_char_value c1 - vercmp_char_value c2
         in if diff \<noteq> 0 then Inl diff else vercmp_nondigits v1' v1n v2' v2n)
      else Inr (v1, v2))"
  by auto
termination
proof (relation "measure (\<lambda>(v1, v1n, v2, v2n). length v1 + length v2)", goal_cases)
  case (2 v1 v1n v2 v2n x xa y xb xc ya xd)
  then show ?case
    by (cases "length v1 > length v1n"; cases "length v2 > length v2n") (cases v1; cases v2; simp)+
qed simp

declare vercmp_nondigits.simps [simp del]

lemma length_nondigit_end: "length (vercmp_nondigit_end v) \<le> length v"
  by (induction v) auto

lemma length_digit_end: "length (vercmp_digit_end v) \<le> length v"
  by (induction v) auto

lemma ends_shorter: "v \<noteq> [] \<Longrightarrow> length (vercmp_digit_end (vercmp_nondigit_end v)) < length v"
proof (cases v)
  case (Cons c w)
  have w: "length (vercmp_digit_end (vercmp_nondigit_end w)) \<le> length w"
    "length (vercmp_digit_end w) \<le> length w"
    using length_digit_end [of "vercmp_nondigit_end w"] length_nondigit_end [of w] length_digit_end
    by (auto intro: order_trans)
  then show ?thesis using Cons by (cases "sint c < 48 \<or> sint c > 57") auto
qed simp

text \<open>The comparison loop.\<close>

function vercmp_loop :: "str \<Rightarrow> str \<Rightarrow> fault + int" where
  "vercmp_loop v1 v2 =
     (if v1 \<noteq> [] \<or> v2 \<noteq> [] then
        (let v1n = vercmp_nondigit_end v1; v2n = vercmp_nondigit_end v2
         in case vercmp_nondigits v1 v1n v2 v2n of
              Inl diff \<Rightarrow> Inr diff
            | Inr (w1, w2) \<Rightarrow>
                if \<not> (w1 = v1n \<and> w2 = v2n) then Inl AssertFail
                else
                  (case vercmp_num_value v1n (vercmp_digit_end v1n) of
                     Inl f \<Rightarrow> Inl f
                   | Inr i1 \<Rightarrow>
                       (case vercmp_num_value v2n (vercmp_digit_end v2n) of
                          Inl f \<Rightarrow> Inl f
                        | Inr i2 \<Rightarrow>
                            if i1 - i2 \<noteq> 0 then Inr (i1 - i2)
                            else vercmp_loop (vercmp_digit_end v1n) (vercmp_digit_end v2n))))
      else Inr 0)"
  by pat_completeness auto
termination
proof (relation "measure (\<lambda>(v1, v2). length v1 + length v2)", goal_cases)
  case (2 v1 v2)
  have le: "length (vercmp_digit_end (vercmp_nondigit_end v)) \<le> length v" for v
    using ends_shorter [of v] by (cases "v = []") auto
  from 2 show ?case
    using ends_shorter [of v1] ends_shorter [of v2] le [of v1] le [of v2]
    by (cases "v1 = []") (auto intro: add_less_le_mono)
qed simp

declare vercmp_loop.simps [simp del]

definition cpi_vercmp :: "str option \<Rightarrow> str option \<Rightarrow> fault + int" where
  "cpi_vercmp v1 v2 =
     (case v1 of
        None \<Rightarrow> (case v2 of Some b \<Rightarrow> Inr (-1) | None \<Rightarrow> Inr 0)
      | Some a \<Rightarrow> (case v2 of None \<Rightarrow> Inr 1 | Some b \<Rightarrow> vercmp_loop a b))"

section \<open>Keys\<close>

text \<open>
  The key of a version: for each component the values of its non-digits, a zero, and its number.
  Keys are compared at the first place where they differ, a shorter one filled up with zeros.
\<close>

definition nondigits :: "str \<Rightarrow> str" where
  "nondigits v = takeWhile (\<lambda>c. sint c < 48 \<or> sint c > 57) v"

definition number :: "str \<Rightarrow> int" where
  "number v = digits_value (takeWhile (\<lambda>c. sint c \<ge> 48 \<and> sint c \<le> 57) (vercmp_nondigit_end v))"

function version_key :: "str \<Rightarrow> int list" where
  "version_key v =
     (if v = [] then []
      else map vercmp_char_value (nondigits v) @ 0 # number v #
        version_key (vercmp_digit_end (vercmp_nondigit_end v)))"
  by auto
termination
  by (relation "measure length") (auto simp: ends_shorter)

declare version_key.simps [simp del]

fun pad_cmp :: "int list \<Rightarrow> int list \<Rightarrow> int" where
  "pad_cmp [] [] = 0"
| "pad_cmp [] (y # ys) = (if y \<noteq> 0 then 0 - y else pad_cmp [] ys)"
| "pad_cmp (x # xs) [] = (if x \<noteq> 0 then x else pad_cmp xs [])"
| "pad_cmp (x # xs) (y # ys) = (if x \<noteq> y then x - y else pad_cmp xs ys)"

lemma pad_cmp_swap: "pad_cmp ys xs = - pad_cmp xs ys"
  by (induction xs ys rule: pad_cmp.induct) auto

lemma pad_cmp_trans: "pad_cmp xs ys \<le> 0 \<Longrightarrow> pad_cmp ys zs \<le> 0 \<Longrightarrow> pad_cmp xs zs \<le> 0"
proof (induction "length xs + length ys + length zs" arbitrary: xs ys zs rule: less_induct)
  case less
  from less.prems less.hyps [of "tl xs" "tl ys" "tl zs"] show ?case
    by (cases xs; cases ys; cases zs) (auto split: if_splits)
qed

lemma pad_cmp_zero: "pad_cmp (xs @ [0]) ys = pad_cmp xs ys"
proof (induction xs ys rule: pad_cmp.induct)
  case (2 y ys)
  have "pad_cmp [0] ys = pad_cmp [] ys" for ys by (cases ys) auto
  then show ?case by simp
qed auto

text \<open>Every character but the final zero has a positive value, and different ones have different values.\<close>

lemma sint_u8_bounds: "-128 \<le> sint (c :: u8)" "sint c \<le> 127"
  using sint_greater_eq [of c] sint_less [of c] by simp_all

lemma char_value_zero [simp]: "vercmp_char_value 0 = 0"
  by (simp add: vercmp_char_value_def)

lemma char_value_pos: "c \<noteq> 0 \<Longrightarrow> 0 < vercmp_char_value c"
proof -
  assume "c \<noteq> 0"
  then have "sint c \<noteq> 0" by (metis signed_0 signed_word_eqI)
  then show ?thesis using sint_u8_bounds [of c] by (simp add: vercmp_char_value_def Let_def)
qed

lemma char_value_inject: "vercmp_char_value c = vercmp_char_value d \<longleftrightarrow> c = d"
proof
  assume "vercmp_char_value c = vercmp_char_value d"
  then have "sint c = sint d"
    using sint_u8_bounds [of c] sint_u8_bounds [of d]
    by (simp add: vercmp_char_value_def Let_def split: if_splits)
  then show "c = d" by (simp add: signed_word_eqI)
qed simp

section \<open>The comparison decides the order of the keys\<close>

lemma vercmp_nondigits_eq:
  "vercmp_nondigits (p @ r) r (q @ s) s =
     (let d = pad_cmp (map vercmp_char_value p) (map vercmp_char_value q)
      in if d \<noteq> 0 then Inl d else Inr (r, s))"
proof (induction "length p + length q" arbitrary: p q rule: less_induct)
  case less
  from less [of "tl p" "tl q"] show ?case
    by (subst vercmp_nondigits.simps, cases p; cases q) (auto simp: Let_def)
qed

lemma pad_cmp_component:
  "\<forall>c \<in> set xs \<union> set ys. 0 < c \<Longrightarrow>
   pad_cmp (xs @ 0 # k) (ys @ 0 # l) = (if pad_cmp xs ys \<noteq> 0 then pad_cmp xs ys else pad_cmp k l)"
  by (induction xs ys rule: list_induct2') auto

lemma nondigit_split: "v = nondigits v @ vercmp_nondigit_end v"
  by (induction v) (auto simp: nondigits_def)

definition digits :: "str \<Rightarrow> str" where
  "digits v = takeWhile (\<lambda>c. sint c \<ge> 48 \<and> sint c \<le> 57) v"

lemma digit_split: "v = digits v @ vercmp_digit_end v"
  by (induction v) (auto simp: digits_def)

lemma digits_value_app: "digits_value (xs @ [d]) = 10 * digits_value xs + (sint d - 48)"
  by (simp add: digits_value_def)

lemma digits_value_skip: "digits_value (skip_zeros ds) = digits_value ds"
proof (induction ds)
  case (Cons d ds)
  have "digits_value (48 # ds) = digits_value ds" by (simp add: digits_value_def)
  with Cons show ?case by simp
qed simp

lemma digits_value_ge:
  "ds \<noteq> [] \<Longrightarrow> 49 \<le> sint (hd ds) \<Longrightarrow> \<forall>d \<in> set ds. 48 \<le> sint d \<Longrightarrow>
   10 ^ (length ds - 1) \<le> digits_value ds"
proof (induction ds rule: rev_induct)
  case (snoc d ds)
  show ?case
  proof (cases "ds = []")
    case True
    with snoc show ?thesis by (simp add: digits_value_def)
  next
    case False
    with snoc have "10 ^ (length ds - 1) \<le> digits_value ds" by simp
    moreover have "(10 :: int) ^ length ds = 10 * 10 ^ (length ds - 1)"
      using False by (cases ds) auto
    ultimately show ?thesis using snoc.prems by (simp add: digits_value_app)
  qed
qed simp

lemma skip_zeros_hd: "skip_zeros ds \<noteq> [] \<Longrightarrow> \<forall>d \<in> set ds. 48 \<le> sint d \<Longrightarrow> 49 \<le> sint (hd (skip_zeros ds))"
proof (induction ds)
  case (Cons d ds)
  show ?case
  proof (cases "d = 48")
    case False
    then have "sint d \<noteq> sint (48 :: u8)" by (metis signed_word_eqI)
    then show ?thesis using False Cons.prems by simp
  qed (use Cons in simp)
qed simp

lemma skip_zeros_set: "set (skip_zeros ds) \<subseteq> set ds"
  by (induction ds) auto

lemma num_value_eq:
  assumes "digits_value (digits v) < 2 ^ 31"
  shows "vercmp_num_value v (vercmp_digit_end v) = Inr (digits_value (digits v))"
proof -
  have "length v = length (digits v) + length (vercmp_digit_end v)"
    by (metis digit_split length_append)
  moreover have "take (length (digits v)) v = digits v"
    by (metis digit_split append_eq_conv_conj)
  ultimately have t: "take (length v - length (vercmp_digit_end v)) v = digits v" by simp
  define ds where "ds = skip_zeros (digits v)"
  have dig: "\<forall>d \<in> set (digits v). 48 \<le> sint d" by (auto simp: digits_def dest: set_takeWhileD)
  have val: "digits_value ds = digits_value (digits v)" by (simp add: ds_def digits_value_skip)
  have "length ds < 16"
  proof (rule ccontr)
    assume n: "\<not> length ds < 16"
    then have "ds \<noteq> []" by auto
    then have "10 ^ (length ds - 1) \<le> digits_value ds"
      using skip_zeros_hd [of "digits v"] dig skip_zeros_set [of "digits v"]
      by (intro digits_value_ge) (auto simp: ds_def)
    moreover have "(10 :: int) ^ 15 \<le> 10 ^ (length ds - 1)"
      using n by (intro power_increasing) auto
    ultimately show False using assms val by simp
  qed
  then show ?thesis
    using assms val by (auto simp: vercmp_num_value_def t ds_def [symmetric] atoi_def digits_value_def [of "[]"])
qed

text \<open>Every number of the version fits an \<^verbatim>\<open>int\<close>.\<close>

function numbers_fit :: "str \<Rightarrow> bool" where
  "numbers_fit v =
     (if v = [] then True
      else number v < 2 ^ 31 \<and> numbers_fit (vercmp_digit_end (vercmp_nondigit_end v)))"
  by auto
termination
  by (relation "measure length") (auto simp: ends_shorter)

declare numbers_fit.simps [simp del]

lemma number_digits: "number v = digits_value (digits (vercmp_nondigit_end v))"
  by (simp add: number_def digits_def)

lemma nondigits_pos: "0 \<notin> set v \<Longrightarrow> \<forall>c \<in> vercmp_char_value ` set (nondigits v). 0 < c"
  by (auto simp: nondigits_def intro!: char_value_pos dest: set_takeWhileD)

lemma zero_free_rest: "0 \<notin> set v \<Longrightarrow> 0 \<notin> set (vercmp_digit_end (vercmp_nondigit_end v))"
  by (metis UnCI digit_split nondigit_split set_append)

text \<open>The key of the empty version may be taken to be a component of its own.\<close>

definition component :: "str \<Rightarrow> int list" where
  "component v = map vercmp_char_value (nondigits v) @ 0 # number v #
     version_key (vercmp_digit_end (vercmp_nondigit_end v))"

lemma component_key:
  "pad_cmp (component v) k = pad_cmp (version_key v) k" "pad_cmp k (component v) = pad_cmp k (version_key v)"
proof -
  show *: "pad_cmp (component v) k = pad_cmp (version_key v) k" for k
  proof (cases "v = []")
    case True
    then have "component v = ([] @ [0]) @ [0]" "version_key v = []"
      by (simp_all add: component_def nondigits_def number_def digits_value_def version_key.simps)
    then show ?thesis by (simp only: pad_cmp_zero)
  next
    case False
    then show ?thesis by (subst version_key.simps) (simp add: component_def)
  qed
  from * [of k] show "pad_cmp k (component v) = pad_cmp k (version_key v)"
    by (simp add: pad_cmp_swap [of k])
qed

lemma vercmp_loop_key:
  "0 \<notin> set v1 \<Longrightarrow> 0 \<notin> set v2 \<Longrightarrow> numbers_fit v1 \<Longrightarrow> numbers_fit v2 \<Longrightarrow>
   vercmp_loop v1 v2 = Inr (pad_cmp (version_key v1) (version_key v2))"
proof (induction "length v1 + length v2" arbitrary: v1 v2 rule: less_induct)
  case less
  show ?case
  proof (cases "v1 = [] \<and> v2 = []")
    case True
    then show ?thesis by (simp add: vercmp_loop.simps version_key.simps)
  next
    case False
    define r1 r2 where "r1 = vercmp_digit_end (vercmp_nondigit_end v1)"
      and "r2 = vercmp_digit_end (vercmp_nondigit_end v2)"
    have fit: "number v < 2 ^ 31 \<and> numbers_fit (vercmp_digit_end (vercmp_nondigit_end v))"
      if "numbers_fit v" for v
    proof (cases "v = []")
      case True
      with that show ?thesis by (simp add: number_def digits_value_def)
    next
      case False
      with that show ?thesis by (subst (asm) numbers_fit.simps) simp
    qed
    have num: "vercmp_num_value (vercmp_nondigit_end v) (vercmp_digit_end (vercmp_nondigit_end v)) =
        Inr (number v)" if "numbers_fit v" for v
      using num_value_eq [of "vercmp_nondigit_end v"] fit [OF that] by (simp add: number_digits)
    have le: "length (vercmp_digit_end (vercmp_nondigit_end v)) \<le> length v" for v
      using ends_shorter [of v] by (cases "v = []") auto
    have "length r1 + length r2 < length v1 + length v2"
      using False ends_shorter [of v1] ends_shorter [of v2] le [of v1] le [of v2]
      by (cases "v1 = []") (auto simp: r1_def r2_def intro: add_less_le_mono)
    then have IH: "vercmp_loop r1 r2 = Inr (pad_cmp (version_key r1) (version_key r2))"
      using less.prems fit zero_free_rest by (intro less.hyps) (auto simp: r1_def r2_def)
    let ?n1 = "map vercmp_char_value (nondigits v1)" and ?n2 = "map vercmp_char_value (nondigits v2)"
    have nd: "vercmp_nondigits v1 (vercmp_nondigit_end v1) v2 (vercmp_nondigit_end v2) =
        (if pad_cmp ?n1 ?n2 \<noteq> 0 then Inl (pad_cmp ?n1 ?n2)
         else Inr (vercmp_nondigit_end v1, vercmp_nondigit_end v2))"
      using vercmp_nondigits_eq [of "nondigits v1" "vercmp_nondigit_end v1" "nondigits v2" "vercmp_nondigit_end v2"]
      by (simp add: Let_def flip: nondigit_split)
    have "pad_cmp (version_key v1) (version_key v2) = pad_cmp (component v1) (component v2)"
      by (simp only: component_key)
    also have "\<dots> = (if pad_cmp ?n1 ?n2 \<noteq> 0 then pad_cmp ?n1 ?n2
        else pad_cmp (number v1 # version_key r1) (number v2 # version_key r2))"
      unfolding component_def r1_def r2_def
      using nondigits_pos [OF less.prems(1)] nondigits_pos [OF less.prems(2)]
      by (intro pad_cmp_component) auto
    finally show ?thesis
      using False IH num [OF less.prems(3)] num [OF less.prems(4)]
      by (subst vercmp_loop.simps) (simp add: Let_def nd r1_def r2_def)
  qed
qed

definition version_ok :: "str \<Rightarrow> bool" where
  "version_ok v \<longleftrightarrow> 0 \<notin> set v \<and> numbers_fit v"

text \<open>The versions "1" and "2".\<close>

lemma one_digit:
  assumes "c \<in> {0x31, 0x32}"
  shows "version_ok [c]" "version_key [c] = [0, sint c - 48]"
proof -
  have empty: "numbers_fit []" "version_key [] = []"
    by (subst numbers_fit.simps version_key.simps; simp)+
  show "version_ok [c]" "version_key [c] = [0, sint c - 48]"
    using assms unfolding version_ok_def
    by (subst numbers_fit.simps version_key.simps;
        auto simp: empty number_def digits_value_def nondigits_def)+
qed

text \<open>
  C21: \<^verbatim>\<open>cpi_vercmp\<close> on two versions whose numbers fit an \<^verbatim>\<open>int\<close> returns, and what it returns is the
  first difference of their keys: for each component the values of the non-digit characters, a
  zero, and the number, the shorter key filled up with zeros.
\<close>
theorem vercmp_is_key_order:
  assumes "version_ok a" and "version_ok b"
  shows "cpi_vercmp (Some a) (Some b) = Inr (pad_cmp (version_key a) (version_key b))"
  using assms by (simp add: cpi_vercmp_def version_ok_def vercmp_loop_key)

theorem vercmp_is_key_order_witness:
  "cpi_vercmp (Some [0x31]) (Some [0x32]) = Inr (pad_cmp [0, 1] [0, 2])"
  using vercmp_is_key_order [OF one_digit(1) one_digit(1), of "0x31" "0x32"]
    one_digit(2) [of "0x31"] one_digit(2) [of "0x32"] by simp

text \<open>
  \<^verbatim>\<open>cpi_vercmp\<close> is the comparison of a total preorder of the versions, absent ones included: it
  returns, swapping the arguments changes the sign, and "not after" is transitive.
\<close>
theorem vercmp_preorder:
  assumes "\<forall>v \<in> set_option a \<union> set_option b \<union> set_option c. version_ok v"
  shows "\<exists>ab ba bc ac. cpi_vercmp a b = Inr ab \<and> cpi_vercmp b a = Inr ba \<and> ba = - ab \<and>
    cpi_vercmp b c = Inr bc \<and> cpi_vercmp a c = Inr ac \<and> (ab \<le> 0 \<and> bc \<le> 0 \<longrightarrow> ac \<le> 0)"
proof -
  have key: "cpi_vercmp (Some x) (Some y) = Inr (pad_cmp (version_key x) (version_key y))"
    if "version_ok x" "version_ok y" for x y
    using that by (simp add: cpi_vercmp_def version_ok_def vercmp_loop_key)
  have none: "cpi_vercmp None None = Inr 0" "cpi_vercmp None (Some x) = Inr (-1)"
    "cpi_vercmp (Some x) None = Inr 1" for x
    by (simp_all add: cpi_vercmp_def)
  have key_le: "pad_cmp (version_key x) (version_key y) \<le> 0 \<and> pad_cmp (version_key y) (version_key z) \<le> 0 \<longrightarrow>
      pad_cmp (version_key x) (version_key z) \<le> 0" for x y z
    using pad_cmp_trans by blast
  have swap: "pad_cmp (version_key y) (version_key x) = - pad_cmp (version_key x) (version_key y)" for x y
    by (rule pad_cmp_swap)
  show ?thesis
  proof (cases a)
    case None
    with assms show ?thesis by (cases b; cases c) (auto simp: key none)
  next
    case (Some x)
    then show ?thesis
      using assms key_le [of x "the b" "the c"] swap [of "the b" x]
      by (cases b; cases c) (simp_all add: key none)
  qed
qed

theorem vercmp_preorder_witness:
  "\<exists>ab ac. cpi_vercmp (Some [0x31]) (Some [0x32]) = Inr ab \<and> cpi_vercmp (Some [0x32]) (Some [0x31]) = Inr (- ab) \<and>
     cpi_vercmp (Some [0x31]) None = Inr ac"
  using vercmp_preorder [of "Some [0x31]" "Some [0x32]" None] one_digit(1) by auto

end
