(* ===== verification/Cpluff_State.thy ===== *)
theory Cpluff_State
  imports Cpluff_Vercmp
begin

text \<open>
  The state of the plug-in framework: \<^verbatim>\<open>cp_plugin_env_t\<close>, \<^verbatim>\<open>cp_plugin_t\<close> and \<^verbatim>\<open>cp_context_t\<close> of
  \<^verbatim>\<open>libcpluff/internal.h\<close>, the descriptors of \<^verbatim>\<open>cpluff.h\<close> and the reference counts of \<^verbatim>\<open>pinfo.c\<close>.

  \<^item> Plug-ins and descriptors are objects at addresses, 0 the null pointer; a freed object is gone,
    and its use is the fault \<open>DanglingPtr\<close>.  An address is not used twice.
  \<^item> A kazlib list of pointers is the sequence of its data and a kazlib hash table a map, as the
    theories on \<^verbatim>\<open>list.c\<close> and \<^verbatim>\<open>hash.c\<close> show them to be; the order in which a table is scanned is
    the parameter \<open>pe_scan\<close>.
  \<^item> \<^verbatim>\<open>malloc\<close> succeeds or fails as the list \<open>pe_mem\<close> says, and succeeds when it is used up.  So do the
    create and start functions of plug-ins with \<open>pe_script\<close>.  What they do with the framework while
    they run is not part of the model; calls by plug-ins are calls of their own.
  \<^item> What the outside observes (events to listeners, calls into plug-ins, libraries closed) is \<open>pe_log\<close>.
    Messages to loggers, locks and the checks for calls from callbacks are left out, and so are
    fields of the structs that no operation modelled here reads.
\<close>

section \<open>Descriptors\<close>

type_synonym ident = "char list"

datatype cp_status = CP_OK | CP_ERR_RESOURCE | CP_ERR_UNKNOWN | CP_ERR_CONFLICT | CP_ERR_DEPENDENCY
  | CP_ERR_RUNTIME | CP_OK_PRELIMINARY

datatype pstate = UNINSTALLED | INSTALLED | RESOLVED | STARTING | STOPPING | ACTIVE

text \<open>The states in the order of the enumeration.\<close>

instantiation pstate :: linorder
begin

fun pstate_rank :: "pstate \<Rightarrow> nat" where
  "pstate_rank UNINSTALLED = 0"
| "pstate_rank INSTALLED = 1"
| "pstate_rank RESOLVED = 2"
| "pstate_rank STARTING = 3"
| "pstate_rank STOPPING = 4"
| "pstate_rank ACTIVE = 5"

definition less_eq_pstate :: "pstate \<Rightarrow> pstate \<Rightarrow> bool" where
  "s \<le> t \<longleftrightarrow> pstate_rank s \<le> pstate_rank t"

definition less_pstate :: "pstate \<Rightarrow> pstate \<Rightarrow> bool" where
  "s < t \<longleftrightarrow> pstate_rank s < pstate_rank t"

instance
proof
  fix s t :: pstate
  show "s \<le> t \<Longrightarrow> t \<le> s \<Longrightarrow> s = t" by (cases s; cases t) (simp_all add: less_eq_pstate_def)
qed (auto simp: less_eq_pstate_def less_pstate_def)

end

record plugin_import =
  im_plugin_id :: ident
  im_version :: "str option"
  im_optional :: bool

record plugin_info =
  pi_identifier :: ident
  pi_version :: "str option"
  pi_abi_bw_compatibility :: "str option"
  pi_req_cpluff_version :: "str option"
  pi_plugin_path :: ident
  pi_imports :: "plugin_import list"
  pi_runtime_lib_name :: "ident option"
  pi_runtime_funcs_symbol :: "ident option"
  pi_ext_points :: "ident list"
  pi_extensions :: "ident list"

text \<open>A descriptor with its reference count: \<^verbatim>\<open>info_resource_t\<close>.\<close>

record info_resource =
  ir_resource :: plugin_info
  ir_usage_count :: int

text \<open>Which of its functions a plug-in has.\<close>

record plugin_runtime =
  rt_create :: bool
  rt_destroy :: bool
  rt_start :: bool
  rt_stop :: bool

section \<open>Plug-ins\<close>

text \<open>
  Symbols a context has resolved: the users of a symbol and the plug-in that provides it; what
  \<^verbatim>\<open>symbol_provider_info_t\<close> says of a provider.  The two tables of a context are association lists, in
  the order in which a scan meets the entries.
\<close>

record symbol_info =
  sy_usage_count :: int
  sy_provider :: nat

record provider_info =
  pr_imported :: bool
  pr_usage_count :: int

record cp_context =
  cx_resolved_symbols :: "(nat \<times> symbol_info) list option"
  cx_symbol_providers :: "(nat \<times> provider_info) list option"

record cp_plugin =
  cp_context :: "cp_context option"
  cp_info :: nat
  cp_state :: pstate
  cp_imported :: "nat list option"
  cp_importing :: "nat list"
  cp_runtime_lib :: "ident option"
  cp_runtime_funcs :: "plugin_runtime option"
  cp_plugin_data :: bool
  cp_defined_symbols :: "(ident \<Rightarrow> nat option) option"
  cp_processed :: bool

record run_func =
  rf_runfunc :: nat
  rf_plugin :: nat
  rf_in_execution :: bool

datatype log_entry =
    PluginEvent ident pstate pstate
  | CreateCall nat | StartCall nat | StopCall nat | DestroyCall nat | RunCall nat
  | LibClosed nat

text \<open>Elements of the tables of extension points and extensions: the descriptor and the index in it.\<close>

type_synonym ext_ref = "nat \<times> nat"

record plugin_env =
  pe_infos :: "nat \<Rightarrow> info_resource option"
  pe_plugins :: "ident \<Rightarrow> nat option"
  pe_objs :: "nat \<Rightarrow> cp_plugin option"
  pe_next :: nat
  pe_started_plugins :: "nat list"
  pe_ext_points :: "ident \<Rightarrow> ext_ref option"
  pe_extensions :: "ident \<Rightarrow> ext_ref list option"
  pe_run_funcs :: "run_func list"
  pe_run_wait :: nat
  pe_main_context :: cp_context
  pe_mem :: "bool list"
  pe_script :: "bool list"
  pe_scan :: "(ident \<Rightarrow> nat option) \<Rightarrow> ident list"
  pe_dlopen :: "ident \<Rightarrow> bool"
  pe_funcs :: "ident \<Rightarrow> ident \<Rightarrow> plugin_runtime option"
  pe_dlsym :: "ident \<Rightarrow> ident \<Rightarrow> nat"
  pe_cp_version :: str
  pe_cp_abi :: "str option"
  pe_shrext :: ident
  pe_log :: "log_entry list"

type_synonym 'a cp = "(plugin_env, 'a) prog"

section \<open>Access\<close>

definition malloc_p :: "bool cp" where
  "malloc_p = (\<lambda>e. case pe_mem e of [] \<Rightarrow> Inr (True, e) | b # bs \<Rightarrow> Inr (b, e\<lparr>pe_mem := bs\<rparr>))"

definition answer :: "bool cp" where
  "answer = (\<lambda>e. case pe_script e of [] \<Rightarrow> Inr (True, e) | b # bs \<Rightarrow> Inr (b, e\<lparr>pe_script := bs\<rparr>))"

definition log_p :: "log_entry \<Rightarrow> unit cp" where
  "log_p x = upd (\<lambda>e. e\<lparr>pe_log := pe_log e @ [x]\<rparr>)"

definition the_plugin :: "nat \<Rightarrow> cp_plugin cp" where
  "the_plugin a = (if a = 0 then err NullDeref else bnd (rd (\<lambda>e. pe_objs e a)) (deref DanglingPtr))"

definition set_plugin :: "nat \<Rightarrow> (cp_plugin \<Rightarrow> cp_plugin) \<Rightarrow> unit cp" where
  "set_plugin a f = bnd (the_plugin a) (\<lambda>p. upd (\<lambda>e. e\<lparr>pe_objs := (pe_objs e)(a \<mapsto> f p)\<rparr>))"

definition the_info :: "nat \<Rightarrow> plugin_info cp" where
  "the_info i = bnd (rd (\<lambda>e. pe_infos e i)) (\<lambda>r. bnd (deref DanglingPtr r) (\<lambda>ir. ret (ir_resource ir)))"

definition info_of :: "nat \<Rightarrow> plugin_info cp" where
  "info_of a = bnd (the_plugin a) (\<lambda>p. the_info (cp_info p))"

text \<open>A change of state with its event, which goes to all listeners.\<close>

definition change_state :: "nat \<Rightarrow> pstate \<Rightarrow> unit cp" where
  "change_state a s =
     bnd (info_of a) (\<lambda>i. bnd (the_plugin a) (\<lambda>p.
     sq (set_plugin a (\<lambda>q. q\<lparr>cp_state := s\<rparr>)) (log_p (PluginEvent (pi_identifier i) (cp_state p) s))))"

text \<open>A pointer set; \<open>add\<close> needs a node for a new pointer.\<close>

definition set_add :: "nat \<Rightarrow> nat list \<Rightarrow> (nat list) option cp" where
  "set_add p xs = (if p \<in> set xs then ret (Some xs) else bnd malloc_p (\<lambda>b. ret (if b then Some (xs @ [p]) else None)))"

definition imported_list :: "nat \<Rightarrow> nat list cp" where
  "imported_list a = bnd (the_plugin a) (\<lambda>p. deref NullDeref (cp_imported p))"

definition importing_add :: "nat \<Rightarrow> nat \<Rightarrow> bool cp" where
  "importing_add a p =
     bnd (the_plugin a) (\<lambda>q. bnd (set_add p (cp_importing q)) (\<lambda>r.
       case r of None \<Rightarrow> ret False | Some xs \<Rightarrow> sq (set_plugin a (\<lambda>q. q\<lparr>cp_importing := xs\<rparr>)) (ret True)))"

definition importing_remove :: "nat \<Rightarrow> nat \<Rightarrow> unit cp" where
  "importing_remove a p = set_plugin a (\<lambda>q. q\<lparr>cp_importing := remove1 p (cp_importing q)\<rparr>)"

text \<open>The element behind \<open>x\<close> in a list that may have lost \<open>x\<close>, whose node is freed then.\<close>

fun next_of :: "nat \<Rightarrow> nat list \<Rightarrow> nat cp" where
  "next_of x [] = err DanglingPtr"
| "next_of x (y # ys) = (if y = x then ret (case ys of [] \<Rightarrow> 0 | z # _ \<Rightarrow> z) else next_of x ys)"

section \<open>Reference counts\<close>

definition cpi_use_info :: "nat \<Rightarrow> unit cp" where
  "cpi_use_info i =
     bnd (rd (\<lambda>e. pe_infos e i)) (\<lambda>r. case r of
       None \<Rightarrow> err AbortCall
     | Some ir \<Rightarrow> upd (\<lambda>e. e\<lparr>pe_infos := (pe_infos e)(i \<mapsto> ir\<lparr>ir_usage_count := ir_usage_count ir + 1\<rparr>)\<rparr>))"

definition cpi_release_info :: "nat \<Rightarrow> unit cp" where
  "cpi_release_info i =
     bnd (rd (\<lambda>e. pe_infos e i)) (\<lambda>r. case r of
       None \<Rightarrow> err AbortCall
     | Some ir \<Rightarrow>
         upd (\<lambda>e. e\<lparr>pe_infos := (pe_infos e)(i :=
           if ir_usage_count ir - 1 = 0 then None else Some (ir\<lparr>ir_usage_count := ir_usage_count ir - 1\<rparr>))\<rparr>))"

text \<open>\<^verbatim>\<open>cpi_register_info\<close>, for a descriptor that the loader has put at address \<open>i\<close>.\<close>

definition cpi_register_info :: "nat \<Rightarrow> plugin_info \<Rightarrow> cp_status cp" where
  "cpi_register_info i info =
     bnd malloc_p (\<lambda>b. if \<not> b then ret CP_ERR_RESOURCE
     else
       bnd malloc_p (\<lambda>c. if \<not> c then ret CP_ERR_RESOURCE
       else sq (upd (\<lambda>e. e\<lparr>pe_infos := (pe_infos e)(i \<mapsto> \<lparr>ir_resource = info, ir_usage_count = 1\<rparr>)\<rparr>)) (ret CP_OK)))"

section \<open>Contexts\<close>

definition cpi_new_context :: "cp_context option cp" where
  "cpi_new_context =
     bnd malloc_p (\<lambda>b. ret (if b then Some \<lparr>cx_resolved_symbols = None, cx_symbol_providers = None\<rparr> else None))"

definition table_empty :: "'a list option \<Rightarrow> bool" where
  "table_empty t = (case t of None \<Rightarrow> True | Some m \<Rightarrow> m = [])"

definition cpi_free_context :: "nat \<Rightarrow> unit cp" where
  "cpi_free_context a =
     bnd (the_plugin a) (\<lambda>p. bnd (deref AssertFail (cp_context p)) (\<lambda>cx.
     sq (assert_p (table_empty (cx_resolved_symbols cx)))
       (sq (assert_p (table_empty (cx_symbol_providers cx)))
         (set_plugin a (\<lambda>q. q\<lparr>cp_context := None\<rparr>)))))"

end
