(* ===== verification/Cpluff_Control.thy ===== *)
theory Cpluff_Control
  imports Cpluff_State
begin

text \<open>
  Plug-in control: \<^verbatim>\<open>libcpluff/pcontrol.c\<close>, with \<^verbatim>\<open>cp_release_symbol\<close> of \<^verbatim>\<open>psymbol.c\<close> and
  \<^verbatim>\<open>cpi_stop_plugin_run\<close> of \<^verbatim>\<open>serial.c\<close>, which stopping a plug-in calls.

  The recursions over the graph of dependencies take fuel, one unit per level.  A loop that runs
  until a list is empty is cut off after one round more than the list had elements: no operation
  in its body adds to the list, so that a loop which goes on has stopped to make progress.
\<close>

section \<open>Installing\<close>

definition drop_ext_point :: "ext_ref \<Rightarrow> ident \<Rightarrow> plugin_env \<Rightarrow> plugin_env" where
  "drop_ext_point r ep e =
     (if pe_ext_points e ep = Some r then e\<lparr>pe_ext_points := (pe_ext_points e)(ep := None)\<rparr> else e)"

definition drop_extension :: "ext_ref \<Rightarrow> ident \<Rightarrow> plugin_env \<Rightarrow> plugin_env" where
  "drop_extension r ep e =
     (case pe_extensions e ep of
        None \<Rightarrow> e
      | Some el \<Rightarrow> e\<lparr>pe_extensions := (pe_extensions e)(ep := if remove1 r el = [] then None else Some (remove1 r el))\<rparr>)"

text \<open>\<open>i\<close> is the address of the descriptor; its arrays are given with their indices.\<close>

definition unregister_extensions :: "nat \<Rightarrow> unit cp" where
  "unregister_extensions i =
     bnd (the_info i) (\<lambda>info.
     sq (upd (fold (\<lambda>(n, ep). drop_ext_point (i, n) ep) (enumerate 0 (pi_ext_points info))))
       (upd (fold (\<lambda>(n, ep). drop_extension (i, n) ep) (enumerate 0 (pi_extensions info)))))"

fun register_ext_points :: "nat \<Rightarrow> (nat \<times> ident) list \<Rightarrow> cp_status cp" where
  "register_ext_points i [] = ret CP_OK"
| "register_ext_points i ((n, ep) # eps) =
     bnd (rd (\<lambda>e. pe_ext_points e ep)) (\<lambda>r.
     if r \<noteq> None then ret CP_ERR_CONFLICT
     else
       bnd malloc_p (\<lambda>b. if \<not> b then ret CP_ERR_RESOURCE
       else
         sq (upd (\<lambda>e. e\<lparr>pe_ext_points := (pe_ext_points e)(ep \<mapsto> (i, n))\<rparr>)) (register_ext_points i eps)))"

text \<open>An empty list for a new extension point, in the table, or whether that failed.\<close>

definition new_extension_list :: "ident \<Rightarrow> bool cp" where
  "new_extension_list ep =
     bnd malloc_p (\<lambda>b. if \<not> b then ret False
     else
       bnd malloc_p (\<lambda>c. if \<not> c then ret False
       else
         bnd malloc_p (\<lambda>d. if \<not> d then ret False
         else sq (upd (\<lambda>e. e\<lparr>pe_extensions := (pe_extensions e)(ep \<mapsto> [])\<rparr>)) (ret True))))"

fun register_extensions :: "nat \<Rightarrow> (nat \<times> ident) list \<Rightarrow> cp_status cp" where
  "register_extensions i [] = ret CP_OK"
| "register_extensions i ((n, ep) # eps) =
     bnd (rd (\<lambda>e. pe_extensions e ep)) (\<lambda>r.
     bnd (if r = None then new_extension_list ep else ret True) (\<lambda>b.
     if \<not> b then ret CP_ERR_RESOURCE
     else
       bnd malloc_p (\<lambda>c. if \<not> c then ret CP_ERR_RESOURCE
       else
         bnd (rd (\<lambda>e. pe_extensions e ep)) (\<lambda>el. bnd (deref NullDeref el) (\<lambda>xs.
         sq (upd (\<lambda>e. e\<lparr>pe_extensions := (pe_extensions e)(ep \<mapsto> xs @ [(i, n)])\<rparr>)) (register_extensions i eps))))))"

definition fresh_plugin :: "nat \<Rightarrow> cp_plugin" where
  "fresh_plugin i = \<lparr>cp_context = None, cp_info = i, cp_state = INSTALLED, cp_imported = None, cp_importing = [],
     cp_runtime_lib = None, cp_runtime_funcs = None, cp_plugin_data = False, cp_defined_symbols = None,
     cp_processed = False\<rparr>"

text \<open>What \<^verbatim>\<open>cp_install_plugin\<close> does once the identifier is known to be new, with the address of the state.\<close>

definition install_state :: "nat \<Rightarrow> plugin_info \<Rightarrow> (cp_status \<times> nat) cp" where
  "install_state i info =
     sq (cpi_use_info i)
       (bnd malloc_p (\<lambda>b. if \<not> b then ret (CP_ERR_RESOURCE, 0)
       else
         bnd (rd pe_next) (\<lambda>rp.
         sq (upd (\<lambda>e. e\<lparr>pe_next := rp + 1, pe_objs := (pe_objs e)(rp \<mapsto> fresh_plugin i)\<rparr>))
           (bnd malloc_p (\<lambda>c. if \<not> c then ret (CP_ERR_RESOURCE, rp)
           else
             bnd malloc_p (\<lambda>d. if \<not> d then ret (CP_ERR_RESOURCE, rp)
             else
               sq (upd (\<lambda>e. e\<lparr>pe_plugins := (pe_plugins e)(pi_identifier info \<mapsto> rp)\<rparr>))
                 (bnd (register_ext_points i (enumerate 0 (pi_ext_points info))) (\<lambda>s.
                  if s \<noteq> CP_OK then ret (s, rp)
                  else bnd (register_extensions i (enumerate 0 (pi_extensions info))) (\<lambda>t. ret (t, rp))))))))))"

definition cp_install_plugin :: "nat \<Rightarrow> cp_status cp" where
  "cp_install_plugin i =
     bnd (the_info i) (\<lambda>info.
     bnd (rd (\<lambda>e. pe_plugins e (pi_identifier info))) (\<lambda>node.
     bnd (if node \<noteq> None then ret (CP_ERR_CONFLICT, 0) else install_state i info) (\<lambda>(status, rp).
     if status = CP_OK
     then sq (log_p (PluginEvent (pi_identifier info) UNINSTALLED INSTALLED)) (ret CP_OK)
     else
       sq (when_p (rp \<noteq> 0) (upd (\<lambda>e. e\<lparr>pe_objs := (pe_objs e)(rp := None)\<rparr>)))
         (sq (unregister_extensions i) (ret status)))))"

section \<open>Resolving\<close>

definition unresolve_plugin_runtime :: "nat \<Rightarrow> unit cp" where
  "unresolve_plugin_runtime a =
     bnd (the_plugin a) (\<lambda>p.
     sq (when_p (cp_context p \<noteq> None)
          (bnd (deref NullDeref (cp_runtime_funcs p)) (\<lambda>rt. sq (if rt_destroy rt then log_p (DestroyCall a) else err NullDeref)
            (sq (set_plugin a (\<lambda>q. q\<lparr>cp_plugin_data := False\<rparr>)) (cpi_free_context a)))))
       (sq (set_plugin a (\<lambda>q. q\<lparr>cp_runtime_funcs := None\<rparr>))
         (when_p (cp_runtime_lib p \<noteq> None)
           (sq (log_p (LibClosed a)) (set_plugin a (\<lambda>q. q\<lparr>cp_runtime_lib := None\<rparr>))))))"

text \<open>The version of the framework that a plug-in asks for; \<^verbatim>\<open>CP_ABI_COMPATIBILITY\<close> need not be defined.\<close>

definition cpluff_compatible :: "plugin_info \<Rightarrow> bool cp" where
  "cpluff_compatible info =
     bnd (rd (\<lambda>e. (pe_cp_version e, pe_cp_abi e))) (\<lambda>(version, abi).
     case pi_req_cpluff_version info of
       None \<Rightarrow> ret True
     | Some req \<Rightarrow>
         (case abi of
            None \<Rightarrow> bnd (lift_r (cpi_vercmp (Some req) (Some version))) (\<lambda>c. ret (c = 0))
          | Some low \<Rightarrow>
              bnd (lift_r (cpi_vercmp (Some req) (Some version))) (\<lambda>c.
              if c \<le> 0 then bnd (lift_r (cpi_vercmp (Some req) (Some low))) (\<lambda>d. ret (d \<ge> 0)) else ret False)))"

definition runtime_path :: "ident \<Rightarrow> plugin_info \<Rightarrow> ident \<Rightarrow> ident" where
  "runtime_path ext info lib = pi_plugin_path info @ ''/'' @ lib @ ext"

definition load_runtime :: "nat \<Rightarrow> plugin_info \<Rightarrow> ident \<Rightarrow> cp_status cp" where
  "load_runtime a info lib =
     bnd (cpluff_compatible info) (\<lambda>ok. if \<not> ok then ret CP_ERR_DEPENDENCY
     else
       bnd malloc_p (\<lambda>b. if \<not> b then ret CP_ERR_RESOURCE
       else
         bnd (rd (\<lambda>e. runtime_path (pe_shrext e) info lib)) (\<lambda>path.
         bnd (rd (\<lambda>e. pe_dlopen e path)) (\<lambda>opened. if \<not> opened then ret CP_ERR_RUNTIME
         else
           sq (set_plugin a (\<lambda>q. q\<lparr>cp_runtime_lib := Some path\<rparr>))
             (case pi_runtime_funcs_symbol info of
                None \<Rightarrow> ret CP_OK
              | Some name \<Rightarrow>
                  bnd (rd (\<lambda>e. pe_funcs e path name)) (\<lambda>rt. case rt of
                    None \<Rightarrow> ret CP_ERR_RUNTIME
                  | Some fs \<Rightarrow>
                      sq (set_plugin a (\<lambda>q. q\<lparr>cp_runtime_funcs := Some fs\<rparr>))
                        (ret (if rt_create fs \<and> rt_destroy fs then CP_OK else CP_ERR_RUNTIME))))))))"

definition resolve_plugin_runtime :: "nat \<Rightarrow> cp_status cp" where
  "resolve_plugin_runtime a =
     bnd (the_plugin a) (\<lambda>p. sq (assert_p (cp_runtime_lib p = None))
       (bnd (info_of a) (\<lambda>info. case pi_runtime_lib_name info of
          None \<Rightarrow> ret CP_OK
        | Some lib \<Rightarrow>
            bnd (load_runtime a info lib) (\<lambda>status.
            sq (when_p (status \<noteq> CP_OK) (unresolve_plugin_runtime a)) (ret status)))))"

text \<open>Do the versions of the plug-in at \<open>ip\<close> rule the import out?\<close>

definition version_clash :: "plugin_import \<Rightarrow> nat \<Rightarrow> bool cp" where
  "version_clash im ip =
     (case im_version im of
        None \<Rightarrow> ret False
      | Some v \<Rightarrow>
          bnd (info_of ip) (\<lambda>info.
          if pi_version info = None then ret True
          else if pi_abi_bw_compatibility info = None
          then bnd (lift_r (cpi_vercmp (Some v) (pi_version info))) (\<lambda>c. ret (c \<noteq> 0))
          else
            bnd (lift_r (cpi_vercmp (Some v) (pi_version info))) (\<lambda>c. if c > 0 then ret True
            else bnd (lift_r (cpi_vercmp (Some v) (pi_abi_bw_compatibility info))) (\<lambda>d. ret (d < 0)))))"

text \<open>The imported plug-in, 0 for an optional one that is missing.\<close>

definition resolve_plugin_import :: "plugin_import \<Rightarrow> (cp_status \<times> nat) cp" where
  "resolve_plugin_import im =
     bnd (rd (\<lambda>e. pe_plugins e (im_plugin_id im))) (\<lambda>node. case node of
       None \<Rightarrow> ret (if im_optional im then CP_OK else CP_ERR_DEPENDENCY, 0)
     | Some ip \<Rightarrow> bnd (version_clash im ip) (\<lambda>clash. ret (if clash then (CP_ERR_DEPENDENCY, 0) else (CP_OK, ip))))"

text \<open>The loop over the imports of \<open>a\<close>; \<open>rec\<close> resolves an imported plug-in.\<close>

fun resolve_imports :: "(nat \<Rightarrow> cp_status cp) \<Rightarrow> nat \<Rightarrow> plugin_import list \<Rightarrow> cp_status cp" where
  "resolve_imports rec a [] = ret CP_OK"
| "resolve_imports rec a (im # ims) =
     bnd malloc_p (\<lambda>b. if \<not> b then ret CP_ERR_RESOURCE
     else
       bnd (resolve_plugin_import im) (\<lambda>(s, ip). if s \<noteq> CP_OK then ret s
       else if ip = 0 then resolve_imports rec a ims
       else
         bnd (imported_list a) (\<lambda>xs. sq (set_plugin a (\<lambda>q. q\<lparr>cp_imported := Some (xs @ [ip])\<rparr>))
           (bnd (importing_add ip a) (\<lambda>added. if \<not> added then ret CP_ERR_RESOURCE
           else
             bnd (rec ip) (\<lambda>t. if t \<noteq> CP_OK \<and> t \<noteq> CP_OK_PRELIMINARY then ret t else resolve_imports rec a ims))))))"

fun resolve_plugin_prel_rec :: "nat \<Rightarrow> nat \<Rightarrow> cp_status cp" where
  "resolve_plugin_prel_rec 0 a = err OutOfFuel"
| "resolve_plugin_prel_rec (Suc k) a =
     bnd (the_plugin a) (\<lambda>p.
     if cp_state p \<ge> RESOLVED then ret CP_OK
     else if cp_processed p then ret CP_OK_PRELIMINARY
     else
       sq (set_plugin a (\<lambda>q. q\<lparr>cp_processed := True\<rparr>))
         (sq (assert_p (cp_imported p = None))
           (bnd malloc_p (\<lambda>b. if \<not> b then ret CP_ERR_RESOURCE
           else
             sq (set_plugin a (\<lambda>q. q\<lparr>cp_imported := Some []\<rparr>))
               (bnd (info_of a) (\<lambda>info.
                bnd (resolve_imports (resolve_plugin_prel_rec k) a (pi_imports info)) (\<lambda>s.
                if s \<noteq> CP_OK then ret s
                else
                  bnd (the_plugin a) (\<lambda>q. sq (assert_p (cp_state q = INSTALLED))
                    (bnd (resolve_plugin_runtime a) (\<lambda>t. if t \<noteq> CP_OK then ret t
                    else
                      sq (set_plugin a (\<lambda>q. q\<lparr>cp_processed := False\<rparr>))
                        (sq (change_state a RESOLVED) (ret CP_OK))))))))))))"

text \<open>For each element of a list that does not change meanwhile.\<close>

fun each :: "('a \<Rightarrow> unit cp) \<Rightarrow> 'a list \<Rightarrow> unit cp" where
  "each body [] = ret ()"
| "each body (x # xs) = sq (body x) (each body xs)"

fun resolve_plugin_commit_rec :: "nat \<Rightarrow> nat \<Rightarrow> unit cp" where
  "resolve_plugin_commit_rec 0 a = err OutOfFuel"
| "resolve_plugin_commit_rec (Suc k) a =
     bnd (the_plugin a) (\<lambda>p.
     if \<not> cp_processed p then ret ()
     else
       sq (set_plugin a (\<lambda>q. q\<lparr>cp_processed := False\<rparr>))
         (when_p (cp_state p < RESOLVED)
           (bnd (imported_list a) (\<lambda>xs.
            sq (each (resolve_plugin_commit_rec k) xs) (change_state a RESOLVED)))))"

text \<open>Taking nodes off the front of the imported list, \<open>rec\<close> going on to each; \<open>n\<close> rounds at most.\<close>

fun drain_imported :: "nat \<Rightarrow> (nat \<Rightarrow> unit cp) \<Rightarrow> nat \<Rightarrow> unit cp" where
  "drain_imported 0 rec a = err OutOfFuel"
| "drain_imported (Suc n) rec a =
     bnd (imported_list a) (\<lambda>xs. case xs of
       [] \<Rightarrow> ret ()
     | ip # _ \<Rightarrow>
         sq (rec ip) (sq (importing_remove ip a)
           (bnd (imported_list a) (\<lambda>ys.
            sq (set_plugin a (\<lambda>q. q\<lparr>cp_imported := Some (remove1 ip ys)\<rparr>)) (drain_imported n rec a)))))"

fun resolve_plugin_failed_rec :: "nat \<Rightarrow> nat \<Rightarrow> unit cp" where
  "resolve_plugin_failed_rec 0 a = err OutOfFuel"
| "resolve_plugin_failed_rec (Suc k) a =
     bnd (the_plugin a) (\<lambda>p.
     if \<not> cp_processed p then ret ()
     else
       sq (set_plugin a (\<lambda>q. q\<lparr>cp_processed := False\<rparr>))
         (when_p (cp_state p < RESOLVED)
           (bnd (imported_list a) (\<lambda>xs.
            sq (drain_imported (Suc (length xs)) (resolve_plugin_failed_rec k) a)
              (set_plugin a (\<lambda>q. q\<lparr>cp_imported := None\<rparr>))))))"

definition assert_processed_zero :: "unit cp" where
  "assert_processed_zero =
     bnd (rd (\<lambda>e. map (pe_plugins e) (pe_scan e (pe_plugins e)))) (\<lambda>nodes.
     each (\<lambda>node. bnd (deref NullDeref node) (\<lambda>a. bnd (the_plugin a) (\<lambda>p. assert_p (\<not> cp_processed p)))) nodes)"

definition resolve_plugin :: "nat \<Rightarrow> nat \<Rightarrow> cp_status cp" where
  "resolve_plugin k a =
     bnd (resolve_plugin_prel_rec k a) (\<lambda>s.
     if s = CP_OK \<or> s = CP_OK_PRELIMINARY
     then sq (resolve_plugin_commit_rec k a) (sq assert_processed_zero (ret CP_OK))
     else sq (resolve_plugin_failed_rec k a) (sq assert_processed_zero (ret s)))"

section \<open>Starting\<close>

text \<open>The events and calls when a start function fails; the instance is destroyed.\<close>

definition start_failed :: "nat \<Rightarrow> plugin_runtime \<Rightarrow> cp_status cp" where
  "start_failed a rt =
     sq (when_p (rt_stop rt) (sq (change_state a STOPPING) (log_p (StopCall a))))
       (sq (if rt_destroy rt then log_p (DestroyCall a) else err NullDeref) (ret CP_ERR_RUNTIME))"

definition start_instance :: "nat \<Rightarrow> cp_status cp" where
  "start_instance a =
     bnd (the_plugin a) (\<lambda>p. case cp_runtime_funcs p of
       None \<Rightarrow> ret CP_OK
     | Some rt \<Rightarrow>
         bnd (if cp_context p \<noteq> None then ret CP_OK
              else
                bnd cpi_new_context (\<lambda>cx. sq (set_plugin a (\<lambda>q. q\<lparr>cp_context := cx\<rparr>))
                  (if cx = None then ret CP_ERR_RESOURCE
                   else if \<not> rt_create rt then err NullDeref
                   else
                     sq (log_p (CreateCall a)) (bnd answer (\<lambda>b. sq (set_plugin a (\<lambda>q. q\<lparr>cp_plugin_data := b\<rparr>))
                       (ret (if b then CP_OK else CP_ERR_RUNTIME))))))) (\<lambda>s.
         if s \<noteq> CP_OK \<or> \<not> rt_start rt then ret s
         else
           sq (change_state a STARTING) (sq (log_p (StartCall a))
             (bnd answer (\<lambda>b. if b then ret CP_OK else start_failed a rt)))))"

definition start_plugin_runtime :: "nat \<Rightarrow> cp_status cp" where
  "start_plugin_runtime a =
     bnd (info_of a) (\<lambda>_. bnd malloc_p (\<lambda>b.
     bnd (if \<not> b then ret CP_ERR_RESOURCE else start_instance a) (\<lambda>status.
     if status = CP_OK
     then
       sq (upd (\<lambda>e. e\<lparr>pe_started_plugins := pe_started_plugins e @ [a]\<rparr>)) (sq (change_state a ACTIVE) (ret CP_OK))
     else
       bnd (the_plugin a) (\<lambda>p.
       sq (when_p (cp_context p \<noteq> None) (cpi_free_context a))
         (sq (when_p (cp_state p \<noteq> RESOLVED) (change_state a RESOLVED))
           (sq (set_plugin a (\<lambda>q. q\<lparr>cp_plugin_data := False\<rparr>)) (ret status)))))))"

text \<open>Its message needs memory, and is shorter when there is none.\<close>

definition warn_dependency_loop :: "unit cp" where
  "warn_dependency_loop = bnd malloc_p (\<lambda>b. ret ())"

text \<open>\<open>importing\<close> is the stack of the plug-ins whose imports are being started.\<close>

fun start_imports :: "(nat \<Rightarrow> nat list \<Rightarrow> (cp_status \<times> nat list) cp) \<Rightarrow> nat list \<Rightarrow> nat list \<Rightarrow> (cp_status \<times> nat list) cp" where
  "start_imports rec [] importing = ret (CP_OK, importing)"
| "start_imports rec (ip # ips) importing =
     bnd (rec ip importing) (\<lambda>(s, importing'). if s \<noteq> CP_OK then ret (s, importing') else start_imports rec ips importing')"

fun start_plugin_rec :: "nat \<Rightarrow> nat \<Rightarrow> nat list \<Rightarrow> (cp_status \<times> nat list) cp" where
  "start_plugin_rec 0 a importing = err OutOfFuel"
| "start_plugin_rec (Suc k) a importing =
     bnd (the_plugin a) (\<lambda>p.
     if cp_state p = ACTIVE then ret (CP_OK, importing)
     else if cp_state p = STARTING then sq warn_dependency_loop (ret (CP_OK, importing))
     else
       sq (assert_p (cp_state p = RESOLVED))
         (if a \<in> set importing then sq warn_dependency_loop (ret (CP_OK, importing))
          else
            bnd (set_add a importing) (\<lambda>r. case r of
              None \<Rightarrow> ret (CP_ERR_RESOURCE, importing)
            | Some stack \<Rightarrow>
                bnd (imported_list a) (\<lambda>ips.
                bnd (start_imports (start_plugin_rec k) ips stack) (\<lambda>(s, stack').
                if s \<noteq> CP_OK then ret (s, remove1 a stack')
                else bnd (start_plugin_runtime a) (\<lambda>t. ret (t, remove1 a stack')))))))"

definition cpi_start_plugin :: "nat \<Rightarrow> nat \<Rightarrow> cp_status cp" where
  "cpi_start_plugin k a =
     bnd (resolve_plugin k a) (\<lambda>s. if s \<noteq> CP_OK then ret s
     else
       bnd malloc_p (\<lambda>b. if \<not> b then ret CP_ERR_RESOURCE
       else bnd (start_plugin_rec k a []) (\<lambda>(t, importing). sq (assert_p (importing = [])) (ret t))))"

definition cp_start_plugin :: "nat \<Rightarrow> ident \<Rightarrow> cp_status cp" where
  "cp_start_plugin k pid =
     bnd (rd (\<lambda>e. pe_plugins e pid)) (\<lambda>node. case node of
       None \<Rightarrow> ret CP_ERR_UNKNOWN
     | Some a \<Rightarrow> cpi_start_plugin k a)"

section \<open>Releasing symbols\<close>

text \<open>A context is named by its plug-in, 0 for the main program.\<close>

definition get_context :: "nat \<Rightarrow> cp_context cp" where
  "get_context c =
     (if c = 0 then rd pe_main_context else bnd (the_plugin c) (\<lambda>p. deref NullDeref (cp_context p)))"

definition set_context :: "nat \<Rightarrow> (cp_context \<Rightarrow> cp_context) \<Rightarrow> unit cp" where
  "set_context c f =
     (if c = 0 then upd (\<lambda>e. e\<lparr>pe_main_context := f (pe_main_context e)\<rparr>)
      else set_plugin c (\<lambda>p. p\<lparr>cp_context := map_option f (cp_context p)\<rparr>))"

definition del :: "nat \<Rightarrow> (nat \<times> 'a) list \<Rightarrow> (nat \<times> 'a) list" where
  "del x xs = filter (\<lambda>(y, _). y \<noteq> x) xs"

definition put_entry :: "nat \<Rightarrow> 'a \<Rightarrow> (nat \<times> 'a) list \<Rightarrow> (nat \<times> 'a) list" where
  "put_entry x v xs = (if map_of xs x = None then xs @ [(x, v)] else map (\<lambda>(y, w). if y = x then (y, v) else (y, w)) xs)"

text \<open>\<^verbatim>\<open>context->plugin\<close> as a plug-in to work on: the main program has none.\<close>

definition remove_dependency :: "nat \<Rightarrow> nat \<Rightarrow> unit cp" where
  "remove_dependency c pp =
     bnd (imported_list c) (\<lambda>xs. sq (set_plugin c (\<lambda>q. q\<lparr>cp_imported := Some (remove1 pp xs)\<rparr>)) (importing_remove pp c))"

definition cp_release_symbol :: "nat \<Rightarrow> nat \<Rightarrow> unit cp" where
  "cp_release_symbol c ptr =
     bnd (get_context c) (\<lambda>cx. bnd (deref NullDeref (cx_resolved_symbols cx)) (\<lambda>syms.
     case map_of syms ptr of
       None \<Rightarrow> ret ()
     | Some sy \<Rightarrow>
         bnd (deref NullDeref (cx_symbol_providers cx)) (\<lambda>prs.
         bnd (deref DanglingPtr (map_of prs (sy_provider sy))) (\<lambda>pr.
         sq (assert_p (sy_usage_count sy > 0)) (sq (assert_p (pr_usage_count pr > 0))
           (sq (set_context c (\<lambda>x. x\<lparr>
                  cx_resolved_symbols := Some (if sy_usage_count sy - 1 = 0 then del ptr syms
                    else put_entry ptr (sy\<lparr>sy_usage_count := sy_usage_count sy - 1\<rparr>) syms),
                  cx_symbol_providers := Some (if pr_usage_count pr - 1 = 0 then del (sy_provider sy) prs
                    else put_entry (sy_provider sy) (pr\<lparr>pr_usage_count := pr_usage_count pr - 1\<rparr>) prs)\<rparr>))
             (when_p (pr_usage_count pr - 1 = 0 \<and> \<not> pr_imported pr) (remove_dependency c (sy_provider sy)))))))))"

text \<open>
  The loop of \<^verbatim>\<open>stop_plugin_runtime\<close> over the symbols of plug-in \<open>a\<close>, which releases them in the
  context \<open>c\<close> that stopping was called with.
\<close>

fun release_loop :: "nat \<Rightarrow> nat \<Rightarrow> nat \<Rightarrow> unit cp" where
  "release_loop 0 c a = err OutOfFuel"
| "release_loop (Suc n) c a =
     bnd (get_context a) (\<lambda>cx. case cx_resolved_symbols cx of
       None \<Rightarrow> err NullDeref
     | Some [] \<Rightarrow> ret ()
     | Some ((ptr, _) # _) \<Rightarrow> sq (cp_release_symbol c ptr) (release_loop n c a))"

section \<open>Stopping\<close>

text \<open>
  \<^verbatim>\<open>cpi_stop_plugin_run\<close>: the run functions of the plug-in leave the queue.  \<open>pe_run_wait\<close> counts the
  functions in front of the first waiting one.  One that is running would have to end first in
  another thread: \<open>OutOfFuel\<close> stands for waiting.
\<close>

definition cpi_stop_plugin_run :: "nat \<Rightarrow> unit cp" where
  "cpi_stop_plugin_run a =
     bnd (rd pe_run_funcs) (\<lambda>rfs.
     if \<exists>rf \<in> set rfs. rf_plugin rf = a \<and> rf_in_execution rf then err OutOfFuel
     else
       upd (\<lambda>e. e\<lparr>pe_run_wait := length (filter (\<lambda>rf. rf_plugin rf \<noteq> a) (take (pe_run_wait e) rfs)),
         pe_run_funcs := filter (\<lambda>rf. rf_plugin rf \<noteq> a) rfs\<rparr>))"

definition stop_instance :: "nat \<Rightarrow> nat \<Rightarrow> nat \<Rightarrow> unit cp" where
  "stop_instance k c a =
     bnd (the_plugin a) (\<lambda>p.
     when_p (cp_context p \<noteq> None)
       (sq (cpi_stop_plugin_run a)
         (bnd (deref NullDeref (cp_runtime_funcs p)) (\<lambda>rt.
          sq (when_p (rt_stop rt) (sq (change_state a STOPPING) (log_p (StopCall a))))
            (bnd (get_context a) (\<lambda>cx.
             sq (when_p (cx_resolved_symbols cx \<noteq> None) (release_loop k c a))
               (bnd (get_context a) (\<lambda>cx'. sq (assert_p (table_empty (cx_symbol_providers cx')))
                 (set_plugin a (\<lambda>q. q\<lparr>cp_defined_symbols := None\<rparr>))))))))))"

definition stop_plugin_runtime :: "nat \<Rightarrow> nat \<Rightarrow> nat \<Rightarrow> unit cp" where
  "stop_plugin_runtime k c a =
     sq (stop_instance k c a)
       (sq (upd (\<lambda>e. e\<lparr>pe_started_plugins := remove1 a (pe_started_plugins e)\<rparr>)) (change_state a RESOLVED))"

text \<open>Walking the list of importing plug-ins by its nodes, from \<open>x\<close> on, while \<open>body\<close> may change it.\<close>

fun walk :: "nat \<Rightarrow> nat list cp \<Rightarrow> (nat \<Rightarrow> unit cp) \<Rightarrow> nat \<Rightarrow> unit cp" where
  "walk 0 get body x = err OutOfFuel"
| "walk (Suc n) get body x =
     (if x = 0 then ret ()
      else sq (body x) (bnd get (\<lambda>xs. bnd (next_of x xs) (walk n get body))))"

definition importing_list :: "nat \<Rightarrow> nat list cp" where
  "importing_list a = bnd (the_plugin a) (\<lambda>p. ret (cp_importing p))"

definition head_of :: "nat list \<Rightarrow> nat" where
  "head_of xs = (case xs of [] \<Rightarrow> 0 | x # _ \<Rightarrow> x)"

fun stop_plugin_rec :: "nat \<Rightarrow> nat \<Rightarrow> nat \<Rightarrow> unit cp" where
  "stop_plugin_rec 0 c a = err OutOfFuel"
| "stop_plugin_rec (Suc k) c a =
     bnd (the_plugin a) (\<lambda>p.
     if cp_state p < ACTIVE \<or> cp_processed p then ret ()
     else
       sq (set_plugin a (\<lambda>q. q\<lparr>cp_processed := True\<rparr>))
         (bnd (importing_list a) (\<lambda>xs.
          sq (walk (Suc (length xs)) (importing_list a) (stop_plugin_rec k c) (head_of xs))
            (bnd (the_plugin a) (\<lambda>q. sq (assert_p (cp_state q = ACTIVE))
              (sq (stop_plugin_runtime k c a)
                (bnd (the_plugin a) (\<lambda>r. sq (assert_p (cp_state r < ACTIVE))
                  (set_plugin a (\<lambda>q. q\<lparr>cp_processed := False\<rparr>))))))))))"

definition stop_plugin :: "nat \<Rightarrow> nat \<Rightarrow> nat \<Rightarrow> unit cp" where
  "stop_plugin k c a = sq (stop_plugin_rec k c a) assert_processed_zero"

definition cp_stop_plugin :: "nat \<Rightarrow> nat \<Rightarrow> ident \<Rightarrow> cp_status cp" where
  "cp_stop_plugin k c pid =
     bnd (rd (\<lambda>e. pe_plugins e pid)) (\<lambda>node. case node of
       None \<Rightarrow> ret CP_ERR_UNKNOWN
     | Some a \<Rightarrow> sq (stop_plugin k c a) (ret CP_OK))"

fun stop_all :: "nat \<Rightarrow> nat \<Rightarrow> nat \<Rightarrow> unit cp" where
  "stop_all 0 k c = err OutOfFuel"
| "stop_all (Suc n) k c =
     bnd (rd pe_started_plugins) (\<lambda>xs.
     if xs = [] then ret () else sq (stop_plugin k c (last xs)) (stop_all n k c))"

definition cp_stop_plugins :: "nat \<Rightarrow> nat \<Rightarrow> unit cp" where
  "cp_stop_plugins k c = bnd (rd pe_started_plugins) (\<lambda>xs. stop_all (Suc (length xs)) k c)"

section \<open>Uninstalling\<close>

fun unresolve_loop :: "nat \<Rightarrow> (nat \<Rightarrow> unit cp) \<Rightarrow> nat \<Rightarrow> unit cp" where
  "unresolve_loop 0 rec a = err OutOfFuel"
| "unresolve_loop (Suc n) rec a =
     bnd (importing_list a) (\<lambda>xs. case xs of [] \<Rightarrow> ret () | x # _ \<Rightarrow> sq (rec x) (unresolve_loop n rec a))"

fun unresolve_plugin_rec :: "nat \<Rightarrow> nat \<Rightarrow> unit cp" where
  "unresolve_plugin_rec 0 a = err OutOfFuel"
| "unresolve_plugin_rec (Suc k) a =
     bnd (the_plugin a) (\<lambda>p.
     if cp_state p < RESOLVED then ret ()
     else
       sq (assert_p (cp_state p = RESOLVED))
         (bnd (imported_list a) (\<lambda>xs.
          sq (drain_imported (Suc (length xs)) (\<lambda>_. ret ()) a)
            (sq (set_plugin a (\<lambda>q. q\<lparr>cp_imported := None\<rparr>))
              (bnd (importing_list a) (\<lambda>ys.
               sq (unresolve_loop (Suc (length ys)) (unresolve_plugin_rec k) a)
                 (sq (unresolve_plugin_runtime a) (change_state a INSTALLED))))))))"

definition unresolve_plugin :: "nat \<Rightarrow> nat \<Rightarrow> nat \<Rightarrow> unit cp" where
  "unresolve_plugin k c a = sq (stop_plugin k c a) (unresolve_plugin_rec k a)"

definition free_registered_plugin :: "nat \<Rightarrow> unit cp" where
  "free_registered_plugin a =
     bnd (the_plugin a) (\<lambda>p. sq (cpi_release_info (cp_info p))
       (sq (assert_p (cp_importing p = [])) (sq (assert_p (cp_imported p = None))
         (upd (\<lambda>e. e\<lparr>pe_objs := (pe_objs e)(a := None)\<rparr>)))))"

definition uninstall_plugin :: "nat \<Rightarrow> nat \<Rightarrow> nat \<Rightarrow> unit cp" where
  "uninstall_plugin k c a =
     bnd (the_plugin a) (\<lambda>p.
     if cp_state p \<le> UNINSTALLED then ret ()
     else
       sq (unresolve_plugin k c a)
         (bnd (the_plugin a) (\<lambda>q. sq (assert_p (cp_state q = INSTALLED))
           (sq (change_state a UNINSTALLED)
             (bnd (info_of a) (\<lambda>info.
              sq (unregister_extensions (cp_info q))
                (sq (upd (\<lambda>e. e\<lparr>pe_plugins := (pe_plugins e)(pi_identifier info := None)\<rparr>))
                  (free_registered_plugin a))))))))"

definition cp_uninstall_plugin :: "nat \<Rightarrow> nat \<Rightarrow> ident \<Rightarrow> cp_status cp" where
  "cp_uninstall_plugin k c pid =
     bnd (rd (\<lambda>e. pe_plugins e pid)) (\<lambda>node. case node of
       None \<Rightarrow> ret CP_ERR_UNKNOWN
     | Some a \<Rightarrow> sq (uninstall_plugin k c a) (ret CP_OK))"

fun uninstall_all :: "nat \<Rightarrow> nat \<Rightarrow> nat \<Rightarrow> unit cp" where
  "uninstall_all 0 k c = err OutOfFuel"
| "uninstall_all (Suc n) k c =
     bnd (rd (\<lambda>e. map (pe_plugins e) (pe_scan e (pe_plugins e)))) (\<lambda>nodes. case nodes of
       [] \<Rightarrow> ret ()
     | node # _ \<Rightarrow> bnd (deref NullDeref node) (\<lambda>a. sq (uninstall_plugin k c a) (uninstall_all n k c)))"

definition cp_uninstall_plugins :: "nat \<Rightarrow> nat \<Rightarrow> unit cp" where
  "cp_uninstall_plugins k c =
     sq (cp_stop_plugins k c)
       (bnd (rd (\<lambda>e. pe_scan e (pe_plugins e))) (\<lambda>ids. uninstall_all (Suc (length ids)) k c))"

section \<open>Queries\<close>

definition cp_get_plugin_state :: "ident \<Rightarrow> pstate cp" where
  "cp_get_plugin_state pid =
     bnd (rd (\<lambda>e. pe_plugins e pid)) (\<lambda>node. case node of
       None \<Rightarrow> ret UNINSTALLED
     | Some a \<Rightarrow> bnd (the_plugin a) (\<lambda>p. ret (cp_state p)))"

end
