(* ===== verification/Cpluff_Inv.thy ===== *)
theory Cpluff_Inv
  imports Cpluff_Control
begin

text \<open>
  The invariant of the plug-in framework between two calls, and what its leaf operations do to it.

  The graph of dependencies is ranked: every descriptor imports identifiers of a lower rank only,
  so that there are no loops (what the code does with loops is shown by examples in the theory of
  the properties).  \<open>r\<close> is the rank of a plug-in's address, \<open>R\<close> that of an identifier and \<open>k\<close> a bound
  of both.  \<open>D\<close> is the set of plug-ins that an operation under way has not put together or is
  taking apart, \<open>G\<close> the set of those whose imports it is taking away.
\<close>

section \<open>Views of the plug-ins\<close>

type_synonym objs = "nat \<Rightarrow> cp_plugin option"

definition sta :: "objs \<Rightarrow> nat \<Rightarrow> pstate" where
  "sta m a = (case m a of None \<Rightarrow> UNINSTALLED | Some p \<Rightarrow> cp_state p)"

definition imps :: "objs \<Rightarrow> nat \<Rightarrow> nat list option" where
  "imps m a = (case m a of None \<Rightarrow> None | Some p \<Rightarrow> cp_imported p)"

definition ims :: "objs \<Rightarrow> nat \<Rightarrow> nat list" where
  "ims m a = (case imps m a of None \<Rightarrow> [] | Some xs \<Rightarrow> xs)"

definition users :: "objs \<Rightarrow> nat \<Rightarrow> nat list" where
  "users m a = (case m a of None \<Rightarrow> [] | Some p \<Rightarrow> cp_importing p)"

definition procs :: "objs \<Rightarrow> nat set" where
  "procs m = {a. \<exists>p. m a = Some p \<and> cp_processed p}"

text \<open>Plug-in \<open>x\<close> needs plug-in \<open>y\<close>, directly or not.\<close>

definition needs :: "objs \<Rightarrow> (nat \<times> nat) set" where
  "needs m = {(x, y). y \<in> set (ims m x)}\<^sup>*"

lemma sta_upd: "sta (m(a \<mapsto> p)) = (sta m)(a := cp_state p)"
  by (auto simp: sta_def)

lemma imps_upd: "imps (m(a \<mapsto> p)) = (imps m)(a := cp_imported p)"
  by (auto simp: imps_def)

lemma ims_upd: "ims (m(a \<mapsto> p)) = (ims m)(a := (case cp_imported p of None \<Rightarrow> [] | Some xs \<Rightarrow> xs))"
  by (auto simp: ims_def imps_def)

lemma users_upd: "users (m(a \<mapsto> p)) = (users m)(a := cp_importing p)"
  by (auto simp: users_def)

lemma procs_upd: "procs (m(a \<mapsto> p)) = (if cp_processed p then insert a (procs m) else procs m - {a})"
  by (auto simp: procs_def)

lemmas views_upd = sta_upd imps_upd ims_upd users_upd procs_upd

lemma views_Some:
  assumes "m a = Some p"
  shows "sta m a = cp_state p" "imps m a = cp_imported p" "users m a = cp_importing p" "a \<in> procs m \<longleftrightarrow> cp_processed p"
  using assms by (auto simp: sta_def imps_def users_def procs_def)

lemma ims_Some: "m a = Some p \<Longrightarrow> cp_imported p = Some xs \<Longrightarrow> ims m a = xs"
  by (simp add: ims_def imps_def)

section \<open>The parts of the invariant\<close>

definition info_ok :: "(ident \<Rightarrow> nat) \<Rightarrow> nat \<Rightarrow> plugin_info \<Rightarrow> bool" where
  "info_ok R k i \<longleftrightarrow>
     R (pi_identifier i) < k \<and>
     (\<forall>im \<in> set (pi_imports i). R (im_plugin_id im) < R (pi_identifier i) \<and> pred_option version_ok (im_version im)) \<and>
     pred_option version_ok (pi_version i) \<and> pred_option version_ok (pi_abi_bw_compatibility i) \<and>
     pred_option version_ok (pi_req_cpluff_version i)"

text \<open>The descriptor of a plug-in is counted, and the tables lead to the plug-in.\<close>

definition described :: "(ident \<Rightarrow> nat) \<Rightarrow> nat \<Rightarrow> (nat \<Rightarrow> nat) \<Rightarrow> plugin_env \<Rightarrow> nat \<Rightarrow> nat \<Rightarrow> bool" where
  "described R k r e a i \<longleftrightarrow>
     (\<exists>ir. pe_infos e i = Some ir \<and> 0 < ir_usage_count ir \<and> info_ok R k (ir_resource ir) \<and>
        pe_plugins e (pi_identifier (ir_resource ir)) = Some a \<and> r a = R (pi_identifier (ir_resource ir)))"

text \<open>What the framework finds around it: enough memory, no run function under way, tables that are scanned in full.\<close>

definition surroundings :: "(ident \<Rightarrow> nat) \<Rightarrow> nat \<Rightarrow> plugin_env \<Rightarrow> bool" where
  "surroundings R k e \<longleftrightarrow>
     pe_mem e = [] \<and> (\<forall>rf \<in> set (pe_run_funcs e). \<not> rf_in_execution rf) \<and>
     (\<forall>m. finite (dom m) \<and> dom m \<subseteq> {pid. R pid < k} \<longrightarrow> set (pe_scan e m) = dom m) \<and>
     0 < pe_next e \<and> version_ok (pe_cp_version e) \<and> pred_option version_ok (pe_cp_abi e)"

definition tabs :: "(ident \<Rightarrow> nat) \<Rightarrow> nat \<Rightarrow> (nat \<Rightarrow> nat) \<Rightarrow> plugin_env \<Rightarrow> bool" where
  "tabs R k r e \<longleftrightarrow>
     surroundings R k e \<and> finite (dom (pe_plugins e)) \<and>
     (\<forall>a p. pe_objs e a = Some p \<longrightarrow> 0 < a \<and> a < pe_next e \<and> described R k r e a (cp_info p)) \<and>
     (\<forall>pid a. pe_plugins e pid = Some a \<longrightarrow>
        (\<exists>p ir. pe_objs e a = Some p \<and> pe_infos e (cp_info p) = Some ir \<and> pi_identifier (ir_resource ir) = pid))"

lemma tabs_mem: "tabs R k r e \<Longrightarrow> pe_mem e = []"
  by (simp add: tabs_def surroundings_def)

lemma tabs_runs: "tabs R k r e \<Longrightarrow> rf \<in> set (pe_run_funcs e) \<Longrightarrow> \<not> rf_in_execution rf"
  by (simp add: tabs_def surroundings_def)

lemma tabs_versions:
  assumes "tabs R k r e"
  shows "version_ok (pe_cp_version e)" "pe_cp_abi e = Some v \<Longrightarrow> version_ok v"
  using assms by (simp_all add: tabs_def surroundings_def)

lemma tabs_obj:
  assumes "tabs R k r e" "pe_objs e a = Some p"
  obtains ir where "a \<noteq> 0" "pe_infos e (cp_info p) = Some ir" "info_ok R k (ir_resource ir)"
    "pe_plugins e (pi_identifier (ir_resource ir)) = Some a" "r a = R (pi_identifier (ir_resource ir))" "r a < k"
    "0 < ir_usage_count ir"
proof -
  have d: "described R k r e a (cp_info p)" "0 < a"
    using assms unfolding tabs_def by blast+
  then obtain ir where ir: "pe_infos e (cp_info p) = Some ir" "0 < ir_usage_count ir" "info_ok R k (ir_resource ir)"
    "pe_plugins e (pi_identifier (ir_resource ir)) = Some a" "r a = R (pi_identifier (ir_resource ir))"
    unfolding described_def by blast
  moreover have "r a < k" using ir(3,5) by (simp add: info_ok_def)
  ultimately show thesis using that d(2) by blast
qed

lemma tabs_info:
  assumes "tabs R k r e" "pe_objs e a = Some p" "pe_infos e (cp_info p) = Some ir"
  shows "a \<noteq> 0" "info_ok R k (ir_resource ir)" "pe_plugins e (pi_identifier (ir_resource ir)) = Some a"
    "r a = R (pi_identifier (ir_resource ir))" "r a < k" "0 < ir_usage_count ir"
  using tabs_obj [OF assms(1,2)] assms(3) by (metis option.inject)+

lemma tabs_plugin:
  assumes "tabs R k r e" "pe_plugins e pid = Some a"
  obtains p ir where "pe_objs e a = Some p" "pe_infos e (cp_info p) = Some ir" "pi_identifier (ir_resource ir) = pid"
  using assms unfolding tabs_def by blast

lemma tabs_scan:
  assumes t: "tabs R k r e"
  shows "set (pe_scan e (pe_plugins e)) = dom (pe_plugins e)"
proof -
  have "R pid < k" if a: "pe_plugins e pid = Some a" for pid a
  proof -
    obtain p ir where p: "pe_objs e a = Some p" "pe_infos e (cp_info p) = Some ir" "pi_identifier (ir_resource ir) = pid"
      using tabs_plugin [OF t a] .
    then show ?thesis using tabs_info(4,5) [OF t p(1,2)] by simp
  qed
  then have "finite (dom (pe_plugins e)) \<and> dom (pe_plugins e) \<subseteq> {pid. R pid < k}" using t by (auto simp: tabs_def)
  with t show ?thesis unfolding tabs_def surroundings_def by blast
qed

text \<open>What the fields of one plug-in have to do with each other.\<close>

definition shape :: "cp_plugin \<Rightarrow> bool" where
  "shape p \<longleftrightarrow>
     cp_state p \<in> {INSTALLED, RESOLVED, ACTIVE} \<and>
     (cp_state p = INSTALLED \<longrightarrow> cp_runtime_lib p = None \<and> cp_runtime_funcs p = None \<and> cp_context p = None) \<and>
     (\<forall>rt. cp_runtime_funcs p = Some rt \<longrightarrow> rt_create rt \<and> rt_destroy rt) \<and>
     (\<forall>cx. cp_context p = Some cx \<longrightarrow> cx_resolved_symbols cx = None \<and> cx_symbol_providers cx = None \<and>
        cp_runtime_funcs p \<noteq> None)"

lemma shape_upd [simp]:
  "shape (p\<lparr>cp_imported := i\<rparr>) = shape p" "shape (p\<lparr>cp_importing := u\<rparr>) = shape p"
  "shape (p\<lparr>cp_processed := b\<rparr>) = shape p"
  by (simp_all add: shape_def)

text \<open>The lists of imported and importing plug-ins mirror each other and go down in rank.\<close>

definition graph :: "(nat \<Rightarrow> nat) \<Rightarrow> nat set \<Rightarrow> objs \<Rightarrow> bool" where
  "graph r D m \<longleftrightarrow>
     (\<forall>a b. b \<in> set (ims m a) \<longrightarrow> m b \<noteq> None \<and> r b < r a) \<and>
     (\<forall>a b. a \<in> set (users m b) \<longrightarrow> b \<in> set (ims m a)) \<and>
     (\<forall>a b. a \<notin> D \<longrightarrow> b \<in> set (ims m a) \<longrightarrow> a \<in> set (users m b)) \<and>
     (\<forall>b. distinct (users m b))"

lemma graphI:
  assumes "\<And>a b. b \<in> set (ims m a) \<Longrightarrow> m b \<noteq> None \<and> r b < r a"
    and "\<And>a b. a \<in> set (users m b) \<Longrightarrow> b \<in> set (ims m a)"
    and "\<And>a b. a \<notin> D \<Longrightarrow> b \<in> set (ims m a) \<Longrightarrow> a \<in> set (users m b)"
    and "\<And>b. distinct (users m b)"
  shows "graph r D m"
  using assms unfolding graph_def by simp

lemma graphD:
  assumes "graph r D m"
  shows "b \<in> set (ims m a) \<Longrightarrow> m b \<noteq> None" "b \<in> set (ims m a) \<Longrightarrow> r b < r a"
    "a \<in> set (users m b) \<Longrightarrow> b \<in> set (ims m a)"
    "b \<in> set (ims m a) \<Longrightarrow> a \<notin> D \<Longrightarrow> a \<in> set (users m b)"
    "distinct (users m b)"
  using assms unfolding graph_def by simp_all

text \<open>What a plug-in imports has come at least as far as the plug-in; active ones are on the list.\<close>

definition levels :: "nat set \<Rightarrow> objs \<Rightarrow> nat list \<Rightarrow> bool" where
  "levels D m st \<longleftrightarrow>
     (\<forall>a. a \<notin> D \<longrightarrow> m a \<noteq> None \<longrightarrow> (imps m a = None \<longleftrightarrow> sta m a = INSTALLED)) \<and>
     (\<forall>a b. b \<in> set (ims m a) \<longrightarrow> (sta m a \<noteq> INSTALLED \<longrightarrow> sta m b \<noteq> INSTALLED) \<and>
        (sta m a = ACTIVE \<longrightarrow> sta m b = ACTIVE)) \<and>
     distinct st \<and> (\<forall>a. a \<in> set st \<longleftrightarrow> sta m a = ACTIVE)"

lemma levelsI:
  assumes "\<And>a. a \<notin> D \<Longrightarrow> m a \<noteq> None \<Longrightarrow> imps m a = None \<longleftrightarrow> sta m a = INSTALLED"
    and "\<And>a b. b \<in> set (ims m a) \<Longrightarrow> sta m a \<noteq> INSTALLED \<Longrightarrow> sta m b \<noteq> INSTALLED"
    and "\<And>a b. b \<in> set (ims m a) \<Longrightarrow> sta m a = ACTIVE \<Longrightarrow> sta m b = ACTIVE"
    and "distinct st" "\<And>a. a \<in> set st \<longleftrightarrow> sta m a = ACTIVE"
  shows "levels D m st"
  using assms unfolding levels_def by simp

lemma levelsD:
  assumes "levels D m st"
  shows "a \<notin> D \<Longrightarrow> m a \<noteq> None \<Longrightarrow> imps m a = None \<longleftrightarrow> sta m a = INSTALLED"
    "b \<in> set (ims m a) \<Longrightarrow> sta m a \<noteq> INSTALLED \<Longrightarrow> sta m b \<noteq> INSTALLED"
    "b \<in> set (ims m a) \<Longrightarrow> sta m a = ACTIVE \<Longrightarrow> sta m b = ACTIVE"
    "distinct st" "a \<in> set st \<longleftrightarrow> sta m a = ACTIVE"
  using assms unfolding levels_def by simp_all

definition env_ok :: "(ident \<Rightarrow> nat) \<Rightarrow> nat \<Rightarrow> (nat \<Rightarrow> nat) \<Rightarrow> nat set \<Rightarrow> nat set \<Rightarrow> plugin_env \<Rightarrow> bool" where
  "env_ok R k r G D e \<longleftrightarrow>
     tabs R k r e \<and> (\<forall>a p. pe_objs e a = Some p \<longrightarrow> shape p) \<and> graph r G (pe_objs e) \<and>
     levels D (pe_objs e) (pe_started_plugins e)"

lemma env_ok_shape: "env_ok R k r G D e \<Longrightarrow> pe_objs e a = Some p \<Longrightarrow> shape p"
  by (simp add: env_ok_def)

lemma env_ok_sta:
  assumes "env_ok R k r G D e" "pe_objs e a \<noteq> None"
  shows "sta (pe_objs e) a \<in> {INSTALLED, RESOLVED, ACTIVE}"
proof -
  obtain p where p: "pe_objs e a = Some p" using assms(2) by auto
  with env_ok_shape [OF assms(1) p] show ?thesis by (simp add: shape_def sta_def)
qed

section \<open>What operations on installed plug-ins leave alone\<close>

definition same :: "plugin_env \<Rightarrow> plugin_env \<Rightarrow> bool" where
  "same e e' \<longleftrightarrow>
     pe_mem e' = pe_mem e \<and> pe_infos e' = pe_infos e \<and> pe_plugins e' = pe_plugins e \<and> pe_next e' = pe_next e \<and>
     pe_scan e' = pe_scan e \<and> pe_cp_version e' = pe_cp_version e \<and> pe_cp_abi e' = pe_cp_abi e \<and>
     pe_ext_points e' = pe_ext_points e \<and> pe_extensions e' = pe_extensions e \<and>
     set (pe_run_funcs e') \<subseteq> set (pe_run_funcs e) \<and>
     (\<forall>a. map_option cp_info (pe_objs e' a) = map_option cp_info (pe_objs e a))"

lemma same_refl [simp]: "same e e"
  by (simp add: same_def)

lemma same_trans [trans]: "same e f \<Longrightarrow> same f g \<Longrightarrow> same e g"
  by (auto simp: same_def)

lemma same_obj: "same e e' \<Longrightarrow> map_option cp_info (pe_objs e' a) = map_option cp_info (pe_objs e a)"
  by (simp add: same_def)

lemma same_live:
  assumes "same e e'"
  shows "pe_objs e' a = None \<longleftrightarrow> pe_objs e a = None"
proof -
  have "map_option cp_info (pe_objs e' a) = map_option cp_info (pe_objs e a)"
    using assms by (rule same_obj)
  then show ?thesis by (metis option.map_disc_iff)
qed

lemma same_info:
  assumes "same e e'" "pe_objs e a = Some p"
  obtains p' where "pe_objs e' a = Some p'" "cp_info p' = cp_info p"
  using same_obj [OF assms(1), of a] assms(2) by (cases "pe_objs e' a") auto

lemma tabs_same:
  assumes t: "tabs R k r e" and s: "same e e'"
  shows "tabs R k r e'"
proof -
  have fld: "pe_mem e' = pe_mem e" "pe_plugins e' = pe_plugins e" "pe_scan e' = pe_scan e" "pe_infos e' = pe_infos e"
    "pe_next e' = pe_next e" "pe_cp_version e' = pe_cp_version e" "pe_cp_abi e' = pe_cp_abi e" "set (pe_run_funcs e') \<subseteq> set (pe_run_funcs e)"
    using s by (auto simp: same_def)
  have d: "described R k r e' = described R k r e" by (simp add: fun_eq_iff described_def fld)
  have "surroundings R k e'" using t fld unfolding tabs_def surroundings_def by auto
  moreover have "0 < a \<and> a < pe_next e' \<and> described R k r e' a (cp_info p')" if a: "pe_objs e' a = Some p'" for a p'
  proof -
    obtain p where "pe_objs e a = Some p" "cp_info p' = cp_info p"
      using same_obj [OF s, of a] a by (cases "pe_objs e a") auto
    with t show ?thesis unfolding d fld tabs_def by auto
  qed
  moreover have "\<exists>p ir. pe_objs e' a = Some p \<and> pe_infos e' (cp_info p) = Some ir \<and> pi_identifier (ir_resource ir) = pid"
    if a: "pe_plugins e' pid = Some a" for pid a
  proof -
    obtain p ir where p: "pe_objs e a = Some p" "pe_infos e (cp_info p) = Some ir" "pi_identifier (ir_resource ir) = pid"
      using tabs_plugin [OF t] a fld(2) by metis
    from same_info [OF s p(1)] obtain p' where "pe_objs e' a = Some p'" "cp_info p' = cp_info p" .
    with p fld(4) show ?thesis by metis
  qed
  ultimately show ?thesis using t fld(2) unfolding tabs_def by simp
qed

section \<open>Leaf operations\<close>

text \<open>The same object under another state, with the change of one plug-in.\<close>

lemma same_upd:
  "pe_objs e a = Some p \<Longrightarrow> cp_info p' = cp_info p \<Longrightarrow> pe_objs e' = (pe_objs e)(a \<mapsto> p') \<Longrightarrow>
   pe_mem e' = pe_mem e \<and> pe_infos e' = pe_infos e \<and> pe_plugins e' = pe_plugins e \<and> pe_next e' = pe_next e \<and>
     pe_scan e' = pe_scan e \<and> pe_cp_version e' = pe_cp_version e \<and> pe_cp_abi e' = pe_cp_abi e \<and>
     pe_ext_points e' = pe_ext_points e \<and> pe_extensions e' = pe_extensions e \<and>
     set (pe_run_funcs e') \<subseteq> set (pe_run_funcs e) \<Longrightarrow> same e e'"
  by (auto simp: same_def)

named_theorems leaf

lemma wpe_ret_fun [simp]: "wpe (ret x) Q E = Q x"
  by (rule ext) simp

lemma wpe_the_plugin [leaf]: "pe_objs e a = Some p \<Longrightarrow> a \<noteq> 0 \<Longrightarrow> wpe (the_plugin a) Q E e = Q p e"
  by (simp add: the_plugin_def)

lemma wpe_set_plugin [leaf]:
  "pe_objs e a = Some p \<Longrightarrow> a \<noteq> 0 \<Longrightarrow> wpe (set_plugin a f) Q E e = Q () (e\<lparr>pe_objs := (pe_objs e)(a \<mapsto> f p)\<rparr>)"
  by (simp add: set_plugin_def leaf)

lemma wpe_info_of [leaf]:
  "pe_objs e a = Some p \<Longrightarrow> a \<noteq> 0 \<Longrightarrow> pe_infos e (cp_info p) = Some ir \<Longrightarrow> wpe (info_of a) Q E e = Q (ir_resource ir) e"
  by (simp add: info_of_def the_info_def leaf)

lemma wpe_log_p [leaf]: "wpe (log_p x) Q E e = Q () (e\<lparr>pe_log := pe_log e @ [x]\<rparr>)"
  by (simp add: log_p_def)

lemma wpe_change_state [leaf]:
  "pe_objs e a = Some p \<Longrightarrow> a \<noteq> 0 \<Longrightarrow> pe_infos e (cp_info p) = Some ir \<Longrightarrow>
   wpe (change_state a s) Q E e = Q () (e\<lparr>pe_objs := (pe_objs e)(a \<mapsto> p\<lparr>cp_state := s\<rparr>),
     pe_log := pe_log e @ [PluginEvent (pi_identifier (ir_resource ir)) (cp_state p) s]\<rparr>)"
  by (simp add: change_state_def leaf)

lemma wpe_malloc_p [leaf]: "pe_mem e = [] \<Longrightarrow> wpe malloc_p Q E e = Q True e"
  by (simp add: malloc_p_def wpe_def)

lemma wpe_answer [leaf]: "wpe answer Q E e = Q (pe_script e = [] \<or> hd (pe_script e)) (e\<lparr>pe_script := tl (pe_script e)\<rparr>)"
  by (cases e; cases "pe_script e") (simp_all add: answer_def wpe_def)

lemma wpe_imported_list [leaf]:
  "pe_objs e a = Some p \<Longrightarrow> a \<noteq> 0 \<Longrightarrow> cp_imported p = Some xs \<Longrightarrow> wpe (imported_list a) Q E e = Q xs e"
  by (simp add: imported_list_def leaf)

lemma wpe_importing_list [leaf]:
  "pe_objs e a = Some p \<Longrightarrow> a \<noteq> 0 \<Longrightarrow> wpe (importing_list a) Q E e = Q (cp_importing p) e"
  by (simp add: importing_list_def leaf)

lemma wpe_set_add [leaf]:
  "pe_mem e = [] \<Longrightarrow> wpe (set_add p xs) Q E e = Q (Some (if p \<in> set xs then xs else xs @ [p])) e"
  by (simp add: set_add_def leaf)

lemma wpe_importing_add [leaf]:
  "pe_objs e a = Some p \<Longrightarrow> a \<noteq> 0 \<Longrightarrow> pe_mem e = [] \<Longrightarrow>
   wpe (importing_add a x) Q E e = Q True (e\<lparr>pe_objs := (pe_objs e)(a \<mapsto> p\<lparr>cp_importing :=
     if x \<in> set (cp_importing p) then cp_importing p else cp_importing p @ [x]\<rparr>)\<rparr>)"
  by (simp add: importing_add_def leaf)

lemma wpe_importing_remove [leaf]:
  "pe_objs e a = Some p \<Longrightarrow> a \<noteq> 0 \<Longrightarrow>
   wpe (importing_remove a x) Q E e = Q () (e\<lparr>pe_objs := (pe_objs e)(a \<mapsto> p\<lparr>cp_importing := remove1 x (cp_importing p)\<rparr>)\<rparr>)"
  by (simp add: importing_remove_def leaf)

lemma wpe_free_context [leaf]:
  "pe_objs e a = Some p \<Longrightarrow> a \<noteq> 0 \<Longrightarrow> cp_context p = Some cx \<Longrightarrow> cx_resolved_symbols cx = None \<Longrightarrow> cx_symbol_providers cx = None \<Longrightarrow>
   wpe (cpi_free_context a) Q E e = Q () (e\<lparr>pe_objs := (pe_objs e)(a \<mapsto> p\<lparr>cp_context := None\<rparr>)\<rparr>)"
  by (simp add: cpi_free_context_def leaf table_empty_def)

text \<open>Versions that fit are always comparable.\<close>

lemma vercmp_returns: "version_ok a \<Longrightarrow> version_ok b \<Longrightarrow> \<exists>c. cpi_vercmp (Some a) (Some b) = Inr c"
  by (simp add: cpi_vercmp_def version_ok_def vercmp_loop_key)

text \<open>No plug-in is marked between two calls.\<close>

lemma wpe_each_true: "(\<And>x. x \<in> set xs \<Longrightarrow> body x e = Inr ((), e)) \<Longrightarrow> each body xs e = Inr ((), e)"
  by (induction xs) (simp_all add: run)

lemma wpe_assert_processed_zero [leaf]:
  assumes "tabs R k r e" "procs (pe_objs e) = {}"
  shows "wpe assert_processed_zero Q E e = Q () e"
proof -
  have "bnd (deref NullDeref node) (\<lambda>a. bnd (the_plugin a) (\<lambda>p. assert_p (\<not> cp_processed p))) e = Inr ((), e)"
    if "node \<in> set (map (pe_plugins e) (pe_scan e (pe_plugins e)))" for node
  proof -
    from that assms(1) obtain pid a where "pe_plugins e pid = Some a" "node = Some a"
      by (auto simp: tabs_scan)
    with assms(1) obtain p ir where "pe_objs e a = Some p" "node = Some a" "a \<noteq> 0"
      by (metis tabs_plugin tabs_obj)
    with assms(2) show ?thesis by (auto simp: procs_def run the_plugin_def)
  qed
  then have "each (\<lambda>node. bnd (deref NullDeref node) (\<lambda>a. bnd (the_plugin a) (\<lambda>p. assert_p (\<not> cp_processed p))))
    (map (pe_plugins e) (pe_scan e (pe_plugins e))) e = Inr ((), e)"
    by (rule wpe_each_true)
  then show ?thesis by (simp add: assert_processed_zero_def wpe_def [where m = "each _ _"])
qed

end
