(* ===== verification/Cpluff_Resolve.thy ===== *)
theory Cpluff_Resolve
  imports Cpluff_Inv
begin

text \<open>
  Resolving: \<^verbatim>\<open>resolve_plugin\<close> either resolves a plug-in with all it needs, or fails and puts back
  everything it has begun; it keeps the invariant and meets no fault.
\<close>

section \<open>Comparing versions and loading\<close>

lemma wpe_vercmp:
  assumes "version_ok a" "version_ok b" "\<And>c. Q c e"
  shows "wpe (lift_r (cpi_vercmp (Some a) (Some b))) Q E e"
proof -
  obtain c where "cpi_vercmp (Some a) (Some b) = Inr c" using vercmp_returns assms(1,2) by blast
  with assms(3) show ?thesis by simp
qed

lemma wpe_compatible:
  assumes "tabs R k r e" "info_ok R k i" "\<And>b. Q b e"
  shows "wpe (cpluff_compatible i) Q E e"
proof -
  have ok: "version_ok (pe_cp_version e)" "\<And>v. pe_cp_abi e = Some v \<Longrightarrow> version_ok v"
    "\<And>v. pi_req_cpluff_version i = Some v \<Longrightarrow> version_ok v"
    using assms(1,2) by (auto simp: tabs_def surroundings_def info_ok_def)
  show ?thesis
  proof (cases "pi_req_cpluff_version i")
    case None
    with assms(3) show ?thesis by (simp add: cpluff_compatible_def)
  next
    case (Some req)
    with ok assms(3) show ?thesis
      unfolding cpluff_compatible_def
      by (cases "pe_cp_abi e") (auto simp del: wpe_lift_r intro!: wpe_vercmp)
  qed
qed

lemma wpe_version_clash:
  assumes "tabs R k r e" "info_ok R k i" "im \<in> set (pi_imports i)" "pe_plugins e (im_plugin_id im) = Some ip" "\<And>b. Q b e"
  shows "wpe (version_clash im ip) Q E e"
proof (cases "im_version im")
  case None
  with assms(5) show ?thesis by (simp add: version_clash_def)
next
  case (Some v)
  then have v: "version_ok v" using assms(2,3) by (auto simp: info_ok_def)
  obtain p ir where p: "pe_objs e ip = Some p" "pe_infos e (cp_info p) = Some ir"
    using tabs_plugin [OF assms(1,4)] .
  note tabs_info(1,2) [OF assms(1) p]
  with p v Some assms(5) show ?thesis
    unfolding version_clash_def info_ok_def
    by (auto simp: leaf simp del: wpe_lift_r intro!: wpe_vercmp)
qed

text \<open>The import, when it is found, is an installed plug-in of lower rank.\<close>

lemma wpe_resolve_import:
  assumes "tabs R k r e" "pe_objs e a = Some p" "pe_infos e (cp_info p) = Some ir" "im \<in> set (pi_imports (ir_resource ir))"
    and "\<And>s. s \<noteq> CP_OK \<Longrightarrow> s \<noteq> CP_OK_PRELIMINARY \<Longrightarrow> Q (s, 0) e" "Q (CP_OK, 0) e"
    and "\<And>ip q. pe_objs e ip = Some q \<Longrightarrow> ip \<noteq> 0 \<Longrightarrow> r ip < r a \<Longrightarrow> Q (CP_OK, ip) e"
  shows "wpe (resolve_plugin_import im) Q E e"
proof (cases "pe_plugins e (im_plugin_id im)")
  case None
  with assms show ?thesis by (simp add: resolve_plugin_import_def)
next
  case (Some ip)
  note tabs_info [OF assms(1-3)]
  moreover obtain q iq where q: "pe_objs e ip = Some q" "pe_infos e (cp_info q) = Some iq" "pi_identifier (ir_resource iq) = im_plugin_id im"
    using tabs_plugin [OF assms(1) Some] .
  moreover note tabs_info [OF assms(1) q(1,2)]
  ultimately have ip: "pe_objs e ip = Some q" "ip \<noteq> 0" "r ip < r a" "info_ok R k (ir_resource ir)"
    using assms(4) by (auto simp: info_ok_def)
  show ?thesis
    unfolding resolve_plugin_import_def
    using Some assms(5) [of CP_ERR_DEPENDENCY] assms(7) [OF ip(1-3)]
    by (simp add: wpe_version_clash [OF assms(1) ip(4) assms(4)])
qed

text \<open>
  Loading sets the library and the functions, which have a constructor and a destructor if loading
  succeeds; when it fails, nothing stays loaded.
\<close>

lemma wpe_load_runtime:
  assumes "tabs R k r e" "pe_objs e a = Some p" "a \<noteq> 0" "info_ok R k i"
    and Q: "\<And>s l f. s \<noteq> CP_OK_PRELIMINARY \<Longrightarrow> (s = CP_OK \<Longrightarrow> \<forall>rt. f = Some rt \<longrightarrow> rt_create rt \<and> rt_destroy rt) \<Longrightarrow>
       Q s (e\<lparr>pe_objs := (pe_objs e)(a \<mapsto> p\<lparr>cp_runtime_lib := l, cp_runtime_funcs := f\<rparr>)\<rparr>)"
    and Q0: "\<And>s. s \<noteq> CP_OK \<Longrightarrow> s \<noteq> CP_OK_PRELIMINARY \<Longrightarrow> Q s e"
    and none: "cp_runtime_funcs p = None"
  shows "wpe (load_runtime a i lib) Q E e"
proof -
  have mem: "pe_mem e = []" using assms(1) by (simp add: tabs_def surroundings_def)
  have Qn: "Q s (e\<lparr>pe_objs := (pe_objs e)(a \<mapsto> p\<lparr>cp_runtime_lib := l\<rparr>)\<rparr>)" if "s \<noteq> CP_OK_PRELIMINARY" for s l
    using Q [of s None l] that none by (cases p) simp
  have rest: "wpe (bnd malloc_p (\<lambda>b. if \<not> b then ret CP_ERR_RESOURCE
     else
       bnd (rd (\<lambda>e. runtime_path (pe_shrext e) i lib)) (\<lambda>path.
         bnd (rd (\<lambda>e. pe_dlopen e path)) (\<lambda>opened. if \<not> opened then ret CP_ERR_RUNTIME
         else
           sq (set_plugin a (\<lambda>q. q\<lparr>cp_runtime_lib := Some path\<rparr>))
             (case pi_runtime_funcs_symbol i of
                None \<Rightarrow> ret CP_OK
              | Some name \<Rightarrow>
                  bnd (rd (\<lambda>e. pe_funcs e path name)) (\<lambda>rt. case rt of
                    None \<Rightarrow> ret CP_ERR_RUNTIME
                  | Some fs \<Rightarrow>
                      sq (set_plugin a (\<lambda>q. q\<lparr>cp_runtime_funcs := Some fs\<rparr>))
                        (ret (if rt_create fs \<and> rt_destroy fs then CP_OK else CP_ERR_RUNTIME)))))))) Q E e"
    using assms(2,3) mem by (auto simp: leaf intro!: Q Q0 Qn split: option.split)
  show ?thesis
    unfolding load_runtime_def wpe_bnd
    by (rule wpe_compatible [OF assms(1,4)], subst wpe_if) (use rest Q0 in \<open>simp only: wpe_ret; simp\<close>)
qed

lemma wpe_resolve_runtime:
  assumes tabs: "tabs R k r e" and p: "pe_objs e a = Some p" "shape p" "cp_state p = INSTALLED"
    and Qok: "\<And>e' l f. pe_objs e' = (pe_objs e)(a \<mapsto> p\<lparr>cp_runtime_lib := l, cp_runtime_funcs := f\<rparr>) \<Longrightarrow> same e e' \<Longrightarrow>
       pe_started_plugins e' = pe_started_plugins e \<Longrightarrow> \<forall>rt. f = Some rt \<longrightarrow> rt_create rt \<and> rt_destroy rt \<Longrightarrow> Q CP_OK e'"
    and Qerr: "\<And>e' s. s \<noteq> CP_OK \<Longrightarrow> s \<noteq> CP_OK_PRELIMINARY \<Longrightarrow> pe_objs e' = pe_objs e \<Longrightarrow> same e e' \<Longrightarrow>
       pe_started_plugins e' = pe_started_plugins e \<Longrightarrow> Q s e'"
  shows "wpe (resolve_plugin_runtime a) Q E e"
proof -
  obtain ir where ir: "a \<noteq> 0" "pe_infos e (cp_info p) = Some ir" "info_ok R k (ir_resource ir)"
    using tabs_obj [OF tabs p(1)] .
  have none: "cp_runtime_lib p = None" "cp_runtime_funcs p = None" "cp_context p = None"
    using p by (auto simp: shape_def)
  have restored: "(pe_objs e)(a \<mapsto> p\<lparr>cp_runtime_funcs := None, cp_runtime_lib := None\<rparr>) = pe_objs e"
    "(pe_objs e)(a \<mapsto> p\<lparr>cp_runtime_lib := None, cp_runtime_funcs := None\<rparr>) = pe_objs e"
    "(pe_objs e)(a \<mapsto> p\<lparr>cp_runtime_lib := None\<rparr>) = pe_objs e"
    "(pe_objs e)(a \<mapsto> p\<lparr>cp_runtime_funcs := None\<rparr>) = pe_objs e"
    using none p(1) by (auto simp: fun_eq_iff)
  have same: "same e (e\<lparr>pe_objs := (pe_objs e)(a \<mapsto> p\<lparr>cp_runtime_lib := l, cp_runtime_funcs := f\<rparr>)\<rparr>)" for l f
    using p(1) by (simp add: same_def)
  show ?thesis
  proof (cases "pi_runtime_lib_name (ir_resource ir)")
    case None
    have "Q CP_OK e" by (rule Qok [of e None None]) (simp_all add: restored)
    with ir none p(1) None show ?thesis by (simp add: resolve_plugin_runtime_def leaf)
  next
    case (Some lib)
    have "wpe (load_runtime a (ir_resource ir) lib)
      (\<lambda>s. wpe (sq (when_p (s \<noteq> CP_OK) (unresolve_plugin_runtime a)) (ret s)) Q E) E e" (is "wpe _ ?Q _ _")
    proof (rule wpe_load_runtime [where Q = ?Q, OF tabs p(1) ir(1,3)], goal_cases)
      case (1 s l f)
      show ?case
      proof (cases "s = CP_OK")
        case True
        with 1 same show ?thesis by (auto intro!: Qok)
      next
        case False
        have "wpe (unresolve_plugin_runtime a) (\<lambda>_. Q s) E
          (e\<lparr>pe_objs := (pe_objs e)(a \<mapsto> p\<lparr>cp_runtime_lib := l, cp_runtime_funcs := f\<rparr>)\<rparr>)"
          using ir(1) none by (auto simp: unresolve_plugin_runtime_def leaf restored same_def intro!: Qerr False 1)
        with False show ?thesis by simp
      qed
    next
      case (2 s)
      then have "wpe (unresolve_plugin_runtime a) (\<lambda>_. Q s) E e"
        using ir(1) none p(1) by (auto simp: unresolve_plugin_runtime_def leaf restored same_def intro!: Qerr)
      with 2 show ?case by simp
    qed (simp add: none)
    with Some ir none p(1) show ?thesis by (simp add: resolve_plugin_runtime_def leaf)
  qed
qed

section \<open>Resolving one after the other\<close>

text \<open>A new edge from a plug-in that is being put together.\<close>

definition tied :: "nat \<Rightarrow> nat \<Rightarrow> objs \<Rightarrow> objs" where
  "tied a ip m =
     (let n = m(a \<mapsto> (the (m a))\<lparr>cp_imported := Some (ims m a @ [ip])\<rparr>)
      in n(ip \<mapsto> (the (n ip))\<lparr>cp_importing := if a \<in> set (users n ip) then users n ip else users n ip @ [a]\<rparr>))"

lemma linked_views:
  assumes "m a = Some p" "cp_imported p \<noteq> None" "m ip = Some q" "a \<noteq> ip"
  shows "ims (tied a ip m) = (ims m)(a := ims m a @ [ip])"
    "users (tied a ip m) = (users m)(ip := if a \<in> set (users m ip) then users m ip else users m ip @ [a])"
    "sta (tied a ip m) = sta m" "procs (tied a ip m) = procs m"
    "imps (tied a ip m) = (imps m)(a \<mapsto> ims m a @ [ip])"
    "dom (tied a ip m) = dom m" "tied a ip m a = Some (p\<lparr>cp_imported := Some (ims m a @ [ip])\<rparr>)"
    "z \<noteq> a \<Longrightarrow> z \<noteq> ip \<Longrightarrow> tied a ip m z = m z"
    "map_option cp_info (tied a ip m z) = map_option cp_info (m z)"
  using assms by (auto simp: tied_def Let_def fun_eq_iff ims_def imps_def users_def sta_def procs_def)

lemma linked_graph:
  assumes g: "graph r D m" and m: "m a = Some p" "cp_imported p \<noteq> None" "m ip = Some q" and r: "r ip < r a"
  shows "graph r D (tied a ip m)"
proof -
  have "a \<noteq> ip" using r by auto
  note v = linked_views [OF m this]
  have live: "tied a ip m b \<noteq> None \<longleftrightarrow> m b \<noteq> None" for b using v(6) by (metis domIff)
  show ?thesis
    by (rule graphI; unfold live v(1,2)) (use r m in \<open>auto split: if_splits simp: graphD(5) [OF g] dest: graphD(1-4) [OF g]\<close>)
qed

lemma linked_levels:
  assumes l: "levels D m st" and m: "m a = Some p" "cp_imported p \<noteq> None" "m ip = Some q" "a \<noteq> ip"
    and a: "a \<in> D" "sta m a = INSTALLED"
  shows "levels D (tied a ip m) st"
proof -
  note v = linked_views [OF m]
  have live: "tied a ip m b \<noteq> None \<longleftrightarrow> m b \<noteq> None" for b using v(6) by (metis domIff)
  show ?thesis
    by (rule levelsI; (unfold live v(1,3,5))?) (use a in \<open>auto split: if_splits simp: levelsD(4,5) [OF l] dest: levelsD(1-3) [OF l]\<close>)
qed

lemma wpe_link:
  assumes "pe_objs e a = Some p" "cp_imported p = Some xs" "pe_objs e ip = Some q" "a \<noteq> ip" "a \<noteq> 0" "ip \<noteq> 0" "pe_mem e = []"
  shows "wpe (sq (set_plugin a (\<lambda>q. q\<lparr>cp_imported := Some (xs @ [ip])\<rparr>)) (bnd (importing_add ip a) f)) Q E e =
    wpe (f True) Q E (e\<lparr>pe_objs := tied a ip (pe_objs e)\<rparr>)"
proof -
  have "tied a ip (pe_objs e) = (pe_objs e)(a \<mapsto> p\<lparr>cp_imported := Some (xs @ [ip])\<rparr>, ip \<mapsto> q\<lparr>cp_importing :=
      if a \<in> set (cp_importing q) then cp_importing q else cp_importing q @ [a]\<rparr>)"
    using assms(1-4) by (auto simp: tied_def Let_def users_def ims_def imps_def)
  then show ?thesis using assms by (simp add: leaf)
qed

text \<open>
  What resolving leaves alone: everything outside \<open>V\<close>, and the states beyond \<open>INSTALLED\<close>.
\<close>

definition grown :: "(nat \<Rightarrow> bool) \<Rightarrow> plugin_env \<Rightarrow> plugin_env \<Rightarrow> bool" where
  "grown U e e' \<longleftrightarrow>
     same e e' \<and> pe_started_plugins e' = pe_started_plugins e \<and> (\<forall>z. U z \<longrightarrow> pe_objs e' z = pe_objs e z) \<and>
     (\<forall>z. sta (pe_objs e) z \<noteq> INSTALLED \<longrightarrow> sta (pe_objs e') z = sta (pe_objs e) z)"

lemma grown_refl [simp]: "grown U e e"
  by (simp add: grown_def)

lemma grown_trans: "grown U e f \<Longrightarrow> grown V f g \<Longrightarrow> (\<And>z. W z \<Longrightarrow> U z \<and> V z) \<Longrightarrow> grown W e g"
  unfolding grown_def using same_trans by (smt (verit))

text \<open>
  A failed attempt leaves the plug-ins in \<open>C\<close> marked and not put together, each of them imported
  by another of them or the start.
\<close>

definition left_over :: "(ident \<Rightarrow> nat) \<Rightarrow> nat \<Rightarrow> (nat \<Rightarrow> nat) \<Rightarrow> nat set \<Rightarrow> nat set \<Rightarrow> plugin_env \<Rightarrow> bool" where
  "left_over R k r D C e \<longleftrightarrow>
     env_ok R k r {} (D \<union> C) e \<and> procs (pe_objs e) = D \<union> C \<and>
     (\<forall>c \<in> C. sta (pe_objs e) c = INSTALLED \<and> imps (pe_objs e) c \<noteq> None)"

definition prel_post :: "(ident \<Rightarrow> nat) \<Rightarrow> nat \<Rightarrow> (nat \<Rightarrow> nat) \<Rightarrow> nat set \<Rightarrow> nat \<Rightarrow> plugin_env \<Rightarrow> cp_status \<Rightarrow> plugin_env \<Rightarrow> bool" where
  "prel_post R k r D a e s e' \<longleftrightarrow>
     grown (\<lambda>z. r a < r z) e e' \<and>
     (if s = CP_OK
      then env_ok R k r {} D e' \<and> procs (pe_objs e') = D \<and> sta (pe_objs e') a \<noteq> INSTALLED
      else s \<noteq> CP_OK_PRELIMINARY \<and>
        (\<exists>C. a \<in> C \<and> left_over R k r D C e' \<and>
           (\<forall>c \<in> C. r c \<le> r a \<and> (c = a \<or> (\<exists>b \<in> C. c \<in> set (ims (pe_objs e') b))))))"

definition prel_pre :: "(ident \<Rightarrow> nat) \<Rightarrow> nat \<Rightarrow> (nat \<Rightarrow> nat) \<Rightarrow> nat set \<Rightarrow> nat \<Rightarrow> plugin_env \<Rightarrow> bool" where
  "prel_pre R k r D a e \<longleftrightarrow>
     env_ok R k r {} D e \<and> procs (pe_objs e) = D \<and> pe_objs e a \<noteq> None \<and>
     (\<forall>d \<in> D. r a < r d \<and> sta (pe_objs e) d = INSTALLED)"

definition loop_pre :: "(ident \<Rightarrow> nat) \<Rightarrow> nat \<Rightarrow> (nat \<Rightarrow> nat) \<Rightarrow> nat set \<Rightarrow> nat \<Rightarrow> cp_plugin \<Rightarrow> plugin_env \<Rightarrow> bool" where
  "loop_pre R k r D a p e \<longleftrightarrow>
     env_ok R k r {} D e \<and> procs (pe_objs e) = D \<and> pe_objs e a = Some p \<and> a \<in> D \<and> cp_imported p \<noteq> None \<and>
     (\<forall>d \<in> D. r a \<le> r d \<and> sta (pe_objs e) d = INSTALLED) \<and>
     (\<forall>b \<in> set (ims (pe_objs e) a). sta (pe_objs e) b \<noteq> INSTALLED)"

definition loop_post :: "(ident \<Rightarrow> nat) \<Rightarrow> nat \<Rightarrow> (nat \<Rightarrow> nat) \<Rightarrow> nat set \<Rightarrow> nat \<Rightarrow> cp_plugin \<Rightarrow> plugin_env \<Rightarrow> cp_status \<Rightarrow> plugin_env \<Rightarrow> bool" where
  "loop_post R k r D a p e s e' \<longleftrightarrow>
     grown (\<lambda>z. r a \<le> r z \<and> z \<noteq> a) e e' \<and> (\<exists>ys. pe_objs e' a = Some (p\<lparr>cp_imported := Some ys\<rparr>)) \<and>
     (if s = CP_OK
      then loop_pre R k r D a (the (pe_objs e' a)) e'
      else s \<noteq> CP_OK_PRELIMINARY \<and>
        (\<exists>C. left_over R k r D C e' \<and>
           (\<forall>c \<in> C. r c < r a \<and> (\<exists>b \<in> insert a C. c \<in> set (ims (pe_objs e') b)))))"

lemma env_ok_objs:
  assumes "env_ok R k r G D e" "same e e'" "\<And>a p. pe_objs e' a = Some p \<Longrightarrow> shape p" "graph r G' (pe_objs e')"
    "levels D' (pe_objs e') (pe_started_plugins e')"
  shows "env_ok R k r G' D' e'"
  using assms tabs_same unfolding env_ok_def by blast

lemma linked_shape:
  assumes "m a = Some p" "cp_imported p \<noteq> None" "m ip = Some q" "a \<noteq> ip" "\<And>z p. m z = Some p \<Longrightarrow> shape p" "tied a ip m z = Some p'"
  shows "shape p'"
proof -
  have pq: "shape p" "shape q" using assms(1,3,5) by blast+
  consider "z = ip" | "z = a" "z \<noteq> ip" | "z \<noteq> a" "z \<noteq> ip" by blast
  then show ?thesis
  proof cases
    case 1
    then have "\<exists>u. p' = q\<lparr>cp_importing := u\<rparr>" using assms(3,4,6) by (auto simp: tied_def Let_def)
    then show ?thesis using pq by auto
  next
    case 2
    then have "\<exists>i. p' = p\<lparr>cp_imported := i\<rparr>" using assms(1,6) by (auto simp: tied_def Let_def)
    then show ?thesis using pq by auto
  next
    case 3
    then show ?thesis using assms(5,6) by (auto simp: tied_def Let_def)
  qed
qed

lemma loop_link:
  assumes pre: "loop_pre R k r D a p e" and q: "pe_objs e ip = Some q" "r ip < r a"
  defines "e1 \<equiv> e\<lparr>pe_objs := tied a ip (pe_objs e)\<rparr>"
  shows "prel_pre R k r D ip e1" "grown (\<lambda>z. r a \<le> r z \<and> z \<noteq> a) e e1"
    "pe_objs e1 a = Some (p\<lparr>cp_imported := Some (ims (pe_objs e) a @ [ip])\<rparr>)" "sta (pe_objs e1) = sta (pe_objs e)"
proof -
  have ne: "a \<noteq> ip" using q(2) by auto
  have L: "env_ok R k r {} D e" "procs (pe_objs e) = D" "pe_objs e a = Some p" "cp_imported p \<noteq> None" "a \<in> D"
    "\<forall>d \<in> D. r a \<le> r d \<and> sta (pe_objs e) d = INSTALLED"
    using pre by (auto simp: loop_pre_def)
  note v = linked_views [OF L(3,4) q(1) ne]
  have same: "same e e1" using v(9) by (simp add: same_def e1_def)
  have "env_ok R k r {} D e1"
    unfolding e1_def
    using L q ne linked_graph [OF _ L(3,4) q] linked_levels [OF _ L(3,4) q(1) ne L(5)] linked_shape [OF L(3,4) q(1) ne]
    by (intro env_ok_objs [OF L(1)]) (auto simp: env_ok_def same [unfolded e1_def])
  moreover have "pe_objs e1 ip \<noteq> None" using v(6) q(1) by (auto simp: e1_def dom_def)
  ultimately show "prel_pre R k r D ip e1"
    using L q(2) v(3,4) unfolding prel_pre_def e1_def by fastforce
  show "grown (\<lambda>z. r a \<le> r z \<and> z \<noteq> a) e e1"
    using same v(3) v(8) q(2) unfolding grown_def e1_def by fastforce
  show "pe_objs e1 a = Some (p\<lparr>cp_imported := Some (ims (pe_objs e) a @ [ip])\<rparr>)" "sta (pe_objs e1) = sta (pe_objs e)"
    using v(3,7) by (simp_all add: e1_def)
qed

lemma loop_resolved:
  assumes pre: "loop_pre R k r D a p e" and p1: "pe_objs e1 a = Some p1" "cp_imported p1 = Some (ims (pe_objs e) a @ [ip])"
    and sta: "sta (pe_objs e1) = sta (pe_objs e)" and r: "r ip < r a" and post: "prel_post R k r D ip e1 CP_OK e2"
  shows "loop_pre R k r D a p1 e2"
proof -
  have g: "grown (\<lambda>z. r ip < r z) e1 e2" and i: "env_ok R k r {} D e2" "procs (pe_objs e2) = D" "sta (pe_objs e2) ip \<noteq> INSTALLED"
    using post by (auto simp: prel_post_def)
  have a2: "pe_objs e2 a = Some p1" using g r p1 by (auto simp: grown_def)
  have "sta (pe_objs e2) d = INSTALLED" if "d \<in> D" for d
  proof -
    have "r ip < r d" "sta (pe_objs e1) d = INSTALLED" using that pre r sta by (auto simp: loop_pre_def)
    then show ?thesis using g by (auto simp: grown_def sta_def)
  qed
  moreover have "sta (pe_objs e2) b \<noteq> INSTALLED" if "b \<in> set (ims (pe_objs e) a)" for b
    using that pre sta g by (auto simp: loop_pre_def grown_def)
  ultimately show ?thesis
    using pre i a2 p1(2) unfolding loop_pre_def by (auto simp: ims_def imps_def)
qed

lemma resolve_imports_post:
  assumes rec: "\<And>ip D e. prel_pre R k r D ip e \<Longrightarrow> r ip < r a \<Longrightarrow> wpe (rec ip) (prel_post R k r D ip e) (\<lambda>_. False) e"
  shows "loop_pre R k r D a p e \<Longrightarrow> pe_infos e (cp_info p) = Some ir \<Longrightarrow> set js \<subseteq> set (pi_imports (ir_resource ir)) \<Longrightarrow>
    wpe (resolve_imports rec a js) (loop_post R k r D a p e) (\<lambda>_. False) e"
proof (induction js arbitrary: p e)
  case Nil
  have "p\<lparr>cp_imported := Some (the (cp_imported p))\<rparr> = p" using Nil(1) by (cases p) (auto simp: loop_pre_def)
  moreover have "pe_objs e a = Some p" using Nil(1) by (simp add: loop_pre_def)
  ultimately have "loop_post R k r D a p e CP_OK e" using Nil(1) unfolding loop_post_def by (metis grown_refl option.sel)
  then show ?case by simp
next
  case (Cons im js)
  have L: "env_ok R k r {} D e" "procs (pe_objs e) = D" "pe_objs e a = Some p" "cp_imported p \<noteq> None"
    using Cons.prems(1) by (auto simp: loop_pre_def)
  have tabs: "tabs R k r e" and mem: "pe_mem e = []" using L(1) by (auto simp: env_ok_def tabs_def surroundings_def)
  have a0: "a \<noteq> 0" using tabs_info(1) [OF tabs L(3) Cons.prems(2)] .
  have self: "\<exists>ys. pe_objs e a = Some (p\<lparr>cp_imported := Some ys\<rparr>)"
    using L(3,4) by (intro exI [of _ "the (cp_imported p)"]) (cases p, auto)
  have fails: "loop_post R k r D a p e s e" if "s \<noteq> CP_OK" "s \<noteq> CP_OK_PRELIMINARY" for s
    using that L self unfolding loop_post_def left_over_def by (auto intro!: exI [of _ "{}"])
  have skip: "wpe (resolve_imports rec a js) (loop_post R k r D a p e) (\<lambda>_. False) e"
    using Cons by auto
  show ?case
    apply (simp add: leaf mem)
    apply (rule wpe_resolve_import [OF tabs L(3) Cons.prems(2)])
    subgoal using Cons.prems(3) by simp
    subgoal by (simp add: fails)
    subgoal using skip by simp
    subgoal premises prems for ip q
    proof -
      define e1 where "e1 = e\<lparr>pe_objs := tied a ip (pe_objs e)\<rparr>"
      define p1 where "p1 = p\<lparr>cp_imported := Some (ims (pe_objs e) a @ [ip])\<rparr>"
      note k = loop_link [OF Cons.prems(1) prems(1,3), folded e1_def p1_def]
      have p1: "cp_imported p1 = Some (ims (pe_objs e) a @ [ip])" "p1\<lparr>cp_imported := ys\<rparr> = p\<lparr>cp_imported := ys\<rparr>"
        "cp_info p1 = cp_info p" for ys
        by (simp_all add: p1_def)
      have after: "wpe (if t \<noteq> CP_OK \<and> t \<noteq> CP_OK_PRELIMINARY then ret t else resolve_imports rec a js) (loop_post R k r D a p e) (\<lambda>_. False) e2"
        if post: "prel_post R k r D ip e1 t e2" for t e2
      proof -
        have g: "grown (\<lambda>z. r ip < r z) e1 e2" using post by (simp add: prel_post_def)
        have g2: "grown (\<lambda>z. r a \<le> r z \<and> z \<noteq> a) e e2"
          using prems(3) by (intro grown_trans [OF k(2) g]) auto
        have a2: "pe_objs e2 a = Some p1" using g prems(3) k(3) by (auto simp: grown_def)
        show ?thesis
        proof (cases "t = CP_OK")
          case True
          have "loop_pre R k r D a p1 e2"
            using loop_resolved [OF Cons.prems(1) k(3) p1(1) k(4) prems(3)] post True by simp
          moreover have "pe_infos e2 (cp_info p1) = Some ir"
            using g2 Cons.prems(2) p1(3) by (simp add: grown_def same_def)
          ultimately have "wpe (resolve_imports rec a js) (loop_post R k r D a p1 e2) (\<lambda>_. False) e2"
            using Cons.IH Cons.prems(3) by auto
          then have "wpe (resolve_imports rec a js) (loop_post R k r D a p e) (\<lambda>_. False) e2"
            by (rule wpe_mono) (auto simp: loop_post_def p1(2) intro: grown_trans [OF g2])
          with True show ?thesis by simp
        next
          case False
          with post obtain C where C: "t \<noteq> CP_OK_PRELIMINARY" "left_over R k r D C e2"
            "\<forall>c \<in> C. r c \<le> r ip \<and> (c = ip \<or> (\<exists>b \<in> C. c \<in> set (ims (pe_objs e2) b)))"
            by (auto simp: prel_post_def)
          have "ip \<in> set (ims (pe_objs e2) a)" using a2 p1(1) by (simp add: ims_def imps_def)
          with C prems(3) have "\<forall>c \<in> C. r c < r a \<and> (\<exists>b \<in> insert a C. c \<in> set (ims (pe_objs e2) b))"
            by fastforce
          with C g2 a2 False have "loop_post R k r D a p e t e2"
            unfolding loop_post_def p1_def by auto
          with False C(1) show ?thesis by simp
        qed
      qed
      obtain xs where xs: "cp_imported p = Some xs" using L(4) by auto
      have ne: "a \<noteq> ip" using prems(3) by auto
      have "wpe (rec ip) (\<lambda>t. wpe (if t \<noteq> CP_OK \<and> t \<noteq> CP_OK_PRELIMINARY then ret t else resolve_imports rec a js) (loop_post R k r D a p e) (\<lambda>_. False)) (\<lambda>_. False) e1"
        by (rule wpe_mono [OF rec [OF k(1) prems(3)] after]) auto
      then show ?thesis
        using prems(2) a0 L(3) xs
        by (simp add: wpe_imported_list [OF L(3) a0 xs] wpe_link [OF L(3) xs prems(1) ne a0 prems(2) mem, folded e1_def]
            del: wpe_if wpe_sq)
    qed
    done
qed

section \<open>The recursion\<close>

lemma prel_begin:
  assumes pre: "prel_pre R k r D a e" and p: "pe_objs e a = Some p" "sta (pe_objs e) a = INSTALLED"
  defines "p0 \<equiv> p\<lparr>cp_processed := True, cp_imported := Some []\<rparr>"
  shows "loop_pre R k r (insert a D) a p0 (e\<lparr>pe_objs := (pe_objs e)(a \<mapsto> p0)\<rparr>)" "cp_imported p = None" "\<not> cp_processed p"
proof -
  let ?m = "(pe_objs e)(a \<mapsto> p0)"
  have P: "env_ok R k r {} D e" "procs (pe_objs e) = D" "\<forall>d \<in> D. r a < r d \<and> sta (pe_objs e) d = INSTALLED"
    using pre by (auto simp: prel_pre_def)
  then have aD: "a \<notin> D" by auto
  then show np: "\<not> cp_processed p" using P(2) p(1) by (auto simp: procs_def)
  have l: "levels D (pe_objs e) (pe_started_plugins e)" and g: "graph r {} (pe_objs e)" using P(1) by (auto simp: env_ok_def)
  have "shape p" using P(1) p(1) by (auto simp: env_ok_def)
  then have shape: "shape p0" "\<And>z q. pe_objs e z = Some q \<Longrightarrow> shape q" using P(1) by (auto simp: env_ok_def shape_def p0_def)
  show none: "cp_imported p = None" using levelsD(1) [OF l aD] p by (simp add: imps_def)
  have st: "cp_state p = INSTALLED" using p by (simp add: sta_def)
  have v: "ims ?m = ims (pe_objs e)" "users ?m = users (pe_objs e)" "sta ?m = sta (pe_objs e)"
    "imps ?m = (imps (pe_objs e))(a \<mapsto> [])" "procs ?m = insert a D"
    using p none st P(2) by (auto simp: p0_def fun_eq_iff ims_def imps_def users_def sta_def procs_def)
  have "env_ok R k r {} (insert a D) (e\<lparr>pe_objs := ?m\<rparr>)"
  proof (rule env_ok_objs [OF P(1)])
    show "same e (e\<lparr>pe_objs := ?m\<rparr>)" using p(1) by (simp add: same_def p0_def)
    show "shape q" if "pe_objs (e\<lparr>pe_objs := ?m\<rparr>) z = Some q" for z q
      using that shape p(1) by (auto simp: p0_def split: if_splits)
    show "graph r {} (pe_objs (e\<lparr>pe_objs := ?m\<rparr>))"
      by (rule graphI; (simp add: v)?) (auto simp: graphD(5) [OF g] dest: graphD(1-4) [OF g])
    show "levels (insert a D) (pe_objs (e\<lparr>pe_objs := ?m\<rparr>)) (pe_started_plugins (e\<lparr>pe_objs := ?m\<rparr>))"
      by (rule levelsI; (simp add: v)?) (auto simp: levelsD(4,5) [OF l] dest: levelsD(1-3) [OF l])
  qed
  then show "loop_pre R k r (insert a D) a p0 (e\<lparr>pe_objs := ?m\<rparr>)"
    using P(3) p(2) v none p(1) unfolding loop_pre_def by (auto simp: p0_def ims_def imps_def)
qed

lemma prel_done:
  assumes pre: "loop_pre R k r (insert a D) a q e" "a \<notin> D"
    and e': "same e e'" "pe_started_plugins e' = pe_started_plugins e"
      "pe_objs e' = (pe_objs e)(a \<mapsto> q\<lparr>cp_runtime_lib := l, cp_runtime_funcs := f, cp_processed := False, cp_state := RESOLVED\<rparr>)"
    and f: "\<forall>rt. f = Some rt \<longrightarrow> rt_create rt \<and> rt_destroy rt"
  shows "env_ok R k r {} D e'" "procs (pe_objs e') = D" "sta (pe_objs e') a = RESOLVED"
proof -
  have P: "env_ok R k r {} (insert a D) e" "procs (pe_objs e) = insert a D" "pe_objs e a = Some q" "cp_imported q \<noteq> None"
    "\<forall>d \<in> insert a D. r a \<le> r d \<and> sta (pe_objs e) d = INSTALLED"
    "\<forall>b \<in> set (ims (pe_objs e) a). sta (pe_objs e) b \<noteq> INSTALLED"
    using pre by (auto simp: loop_pre_def)
  have l: "levels (insert a D) (pe_objs e) (pe_started_plugins e)" and g: "graph r {} (pe_objs e)"
    using P(1) by (auto simp: env_ok_def)
  have sq: "cp_state q = INSTALLED" using P(3,5) by (auto simp: sta_def)
  have v: "ims (pe_objs e') = ims (pe_objs e)" "users (pe_objs e') = users (pe_objs e)" "imps (pe_objs e') = imps (pe_objs e)"
    "sta (pe_objs e') = (sta (pe_objs e))(a := RESOLVED)" "procs (pe_objs e') = D"
    using P(2,3) pre(2) by (auto simp: e' fun_eq_iff ims_def imps_def users_def procs_def sta_def)
  have la: "pe_objs e a \<noteq> None" "imps (pe_objs e) a \<noteq> None" using P(3,4) by (auto simp: imps_def)
  have users_a: "x \<in> D \<or> sta (pe_objs e) x = INSTALLED" if "a \<in> set (ims (pe_objs e) x)" for x
    using levelsD(2) [OF l that] P(5) by auto
  show "env_ok R k r {} D e'"
  proof (rule env_ok_objs [OF P(1) e'(1)])
    show "shape p" if "pe_objs e' z = Some p" for z p
    proof (cases "z = a")
      case True
      have "shape q" using P(1,3) by (auto simp: env_ok_def)
      with that True f sq show ?thesis by (auto simp: e' shape_def)
    next
      case False
      with that P(1) show ?thesis by (auto simp: e' env_ok_def)
    qed
    show "graph r {} (pe_objs e')"
      by (intro graphI; (simp add: v same_live [OF e'(1)])?) (auto simp: graphD(5) [OF g] dest: graphD(1-4) [OF g])
    show "levels D (pe_objs e') (pe_started_plugins e')"
      by (rule levelsI; (simp add: v same_live [OF e'(1)] e'(2))?)
        (use P(5,6) users_a la in \<open>auto simp: levelsD(1,4,5) [OF l] split: if_splits dest: levelsD(2,3) [OF l]\<close>)
  qed
  show "procs (pe_objs e') = D" "sta (pe_objs e') a = RESOLVED" using v by auto
qed

theorem prel_rec_post:
  "prel_pre R k r D a e \<Longrightarrow> r a < n \<Longrightarrow> wpe (resolve_plugin_prel_rec n a) (prel_post R k r D a e) (\<lambda>_. False) e"
proof (induction n arbitrary: D a e)
  case 0
  then show ?case by simp
next
  case (Suc n)
  note pre = Suc.prems(1)
  have P: "env_ok R k r {} D e" "procs (pe_objs e) = D" "\<forall>d \<in> D. r a < r d \<and> sta (pe_objs e) d = INSTALLED"
    using pre by (auto simp: prel_pre_def)
  obtain p where p: "pe_objs e a = Some p" using pre by (auto simp: prel_pre_def)
  have tabs: "tabs R k r e" and shape: "shape p" and mem: "pe_mem e = []" using P(1) p by (auto simp: env_ok_def tabs_def surroundings_def)
  obtain ir where ir: "a \<noteq> 0" "pe_infos e (cp_info p) = Some ir" using tabs_obj [OF tabs p] .
  have aD: "a \<notin> D" using P(3) by auto
  show ?case
  proof (cases "cp_state p = INSTALLED")
    case False
    then have "cp_state p \<ge> RESOLVED" using shape by (auto simp: shape_def less_eq_pstate_def)
    moreover have "prel_post R k r D a e CP_OK e" using P False p by (simp add: prel_post_def views_Some)
    ultimately show ?thesis using p ir by (simp add: leaf)
  next
    case True
    define p0 where "p0 = p\<lparr>cp_processed := True, cp_imported := Some []\<rparr>"
    define e0 where "e0 = e\<lparr>pe_objs := (pe_objs e)(a \<mapsto> p0)\<rparr>"
    have "sta (pe_objs e) a = INSTALLED" using p True by (simp add: sta_def)
    note start = prel_begin [OF pre p this, folded p0_def, folded e0_def]
    have info0: "pe_infos e0 (cp_info p0) = Some ir" using ir by (simp add: e0_def p0_def)
    have g0: "grown (\<lambda>z. r a < r z) e e0"
      using p True by (auto simp: grown_def same_def e0_def p0_def sta_def)
    have rest: "wpe (if s \<noteq> CP_OK then ret s
                else
                  bnd (the_plugin a) (\<lambda>q. sq (assert_p (cp_state q = INSTALLED))
                    (bnd (resolve_plugin_runtime a) (\<lambda>t. if t \<noteq> CP_OK then ret t
                    else
                      sq (set_plugin a (\<lambda>q. q\<lparr>cp_processed := False\<rparr>))
                        (sq (change_state a RESOLVED) (ret CP_OK))))))
      (prel_post R k r D a e) (\<lambda>_. False) e1"
      if post: "loop_post R k r (insert a D) a p0 e0 s e1" for s e1
    proof -
      obtain ys where a1: "pe_objs e1 a = Some (p0\<lparr>cp_imported := Some ys\<rparr>)" using post by (auto simp: loop_post_def)
      have g1: "grown (\<lambda>z. r a < r z) e e1"
      proof (rule grown_trans [OF g0])
        show "grown (\<lambda>z. r a \<le> r z \<and> z \<noteq> a) e0 e1" using post by (simp add: loop_post_def)
      qed auto
      show ?thesis
      proof (cases "s = CP_OK")
        case False
        with post obtain C where C: "s \<noteq> CP_OK_PRELIMINARY" "left_over R k r (insert a D) C e1"
          "\<forall>c \<in> C. r c < r a \<and> (\<exists>b \<in> insert a C. c \<in> set (ims (pe_objs e1) b))"
          by (auto simp: loop_post_def)
        have "sta (pe_objs e1) a = INSTALLED \<and> imps (pe_objs e1) a \<noteq> None" using a1 True by (simp add: p0_def views_Some)
        with C(2) have "left_over R k r D (insert a C) e1" by (simp add: left_over_def)
        with C g1 False have "prel_post R k r D a e s e1"
          unfolding prel_post_def by (auto intro!: exI [of _ "insert a C"])
        with False show ?thesis by simp
      next
        case True
        define q where "q = p0\<lparr>cp_imported := Some ys\<rparr>"
        have L: "loop_pre R k r (insert a D) a q e1" using post True a1 by (simp add: loop_post_def q_def)
        have q: "pe_objs e1 a = Some q" "cp_state q = INSTALLED" using a1 \<open>cp_state p = INSTALLED\<close> by (simp_all add: q_def p0_def)
        have i1: "env_ok R k r {} (insert a D) e1" using L by (simp add: loop_pre_def)
        then have t1: "tabs R k r e1" "shape q" using q by (auto simp: env_ok_def)
        have "wpe (resolve_plugin_runtime a) (\<lambda>t. wpe (if t \<noteq> CP_OK then ret t
                    else
                      sq (set_plugin a (\<lambda>q. q\<lparr>cp_processed := False\<rparr>))
                        (sq (change_state a RESOLVED) (ret CP_OK))) (prel_post R k r D a e) (\<lambda>_. False)) (\<lambda>_. False) e1"
        proof (rule wpe_resolve_runtime [OF t1(1) q(1) t1(2) q(2)])
          fix e2 l f
          assume e2: "pe_objs e2 = (pe_objs e1)(a \<mapsto> q\<lparr>cp_runtime_lib := l, cp_runtime_funcs := f\<rparr>)" "same e1 e2"
            "pe_started_plugins e2 = pe_started_plugins e1" "\<forall>rt. f = Some rt \<longrightarrow> rt_create rt \<and> rt_destroy rt"
          obtain i where i: "pe_infos e2 (cp_info q) = Some i"
            using tabs_obj [OF t1(1) q(1)] e2(2) by (metis same_def)
          let ?q = "q\<lparr>cp_runtime_lib := l, cp_runtime_funcs := f, cp_processed := False, cp_state := RESOLVED\<rparr>"
          have fin: "prel_post R k r D a e CP_OK e3"
            if e3: "pe_objs e3 = (pe_objs e1)(a \<mapsto> ?q)" "pe_started_plugins e3 = pe_started_plugins e1" "same e2 e3" for e3
          proof -
            have s: "same e1 e3" using e2(2) e3(3) by (rule same_trans)
            note fin1 = prel_done [OF L aD s e3(2,1) e2(4)]
            have "grown (\<lambda>z. r a < r z) e1 e3"
              using s e3 q by (auto simp: grown_def sta_upd views_Some)
            with fin1 g1 show ?thesis unfolding prel_post_def by (auto intro: grown_trans)
          qed
          show "wpe (if CP_OK \<noteq> CP_OK then ret CP_OK
                    else
                      sq (set_plugin a (\<lambda>q. q\<lparr>cp_processed := False\<rparr>))
                        (sq (change_state a RESOLVED) (ret CP_OK))) (prel_post R k r D a e) (\<lambda>_. False) e2"
            using i ir(1) by (simp add: leaf e2(1)) (rule fin; simp add: e2 same_def)
        next
          fix e2 t
          assume e2: "t \<noteq> CP_OK" "t \<noteq> CP_OK_PRELIMINARY" "pe_objs e2 = pe_objs e1" "same e1 e2"
            "pe_started_plugins e2 = pe_started_plugins e1"
          have "env_ok R k r {} (insert a D) e2"
            using i1 e2 by (intro env_ok_objs [OF i1 e2(4)]) (auto simp: env_ok_def)
          then have "left_over R k r D {a} e2"
            using L e2(3) q unfolding left_over_def loop_pre_def by (auto simp: views_Some)
          moreover have "grown (\<lambda>z. r a < r z) e1 e2" using e2 by (simp add: grown_def)
          ultimately have "prel_post R k r D a e t e2"
            using e2(1,2) unfolding prel_post_def by (auto intro!: exI [of _ "{a}"] intro: grown_trans [OF g1])
          with e2(1) show "wpe (if t \<noteq> CP_OK then ret t
                    else
                      sq (set_plugin a (\<lambda>q. q\<lparr>cp_processed := False\<rparr>))
                        (sq (change_state a RESOLVED) (ret CP_OK))) (prel_post R k r D a e) (\<lambda>_. False) e2"
            by simp
        qed
        with True q ir(1) show ?thesis by (simp add: leaf)
      qed
    qed
    have "wpe (resolve_imports (resolve_plugin_prel_rec n) a (pi_imports (ir_resource ir)))
      (loop_post R k r (insert a D) a p0 e0) (\<lambda>_. False) e0"
      using Suc.IH Suc.prems(2) by (intro resolve_imports_post [OF _ start(1) info0]) auto
    then have "wpe (resolve_imports (resolve_plugin_prel_rec n) a (pi_imports (ir_resource ir)))
      (\<lambda>s. wpe (if s \<noteq> CP_OK then ret s
                else
                  bnd (the_plugin a) (\<lambda>q. sq (assert_p (cp_state q = INSTALLED))
                    (bnd (resolve_plugin_runtime a) (\<lambda>t. if t \<noteq> CP_OK then ret t
                    else
                      sq (set_plugin a (\<lambda>q. q\<lparr>cp_processed := False\<rparr>))
                        (sq (change_state a RESOLVED) (ret CP_OK))))))
      (prel_post R k r D a e) (\<lambda>_. False)) (\<lambda>_. False) e0"
      by (rule wpe_mono) (erule rest, simp)
    moreover have "\<not> cp_state p \<ge> RESOLVED" using True by (simp add: less_eq_pstate_def)
    ultimately show ?thesis
      using p ir True start(2,3) mem by (simp add: leaf e0_def p0_def)
  qed
qed

end
