(* ===== verification/Cpluff_Failed.thy ===== *)
theory Cpluff_Failed
  imports Cpluff_Resolve
begin

text \<open>
  Taking plug-ins apart: the loop that empties a list of imported plug-ins, which cleaning up after
  a failed attempt and unresolving share, and then \<^verbatim>\<open>resolve_plugin\<close> as a whole.
\<close>

section \<open>Removing an edge\<close>

definition unlinked :: "nat \<Rightarrow> nat \<Rightarrow> objs \<Rightarrow> objs" where
  "unlinked a ip m =
     (let n = m(ip \<mapsto> (the (m ip))\<lparr>cp_importing := remove1 a (users m ip)\<rparr>)
      in n(a \<mapsto> (the (n a))\<lparr>cp_imported := Some (remove1 ip (ims n a))\<rparr>))"

lemma unlinked_views:
  assumes "m a = Some p" "cp_imported p \<noteq> None" "m ip = Some q" "a \<noteq> ip"
  shows "ims (unlinked a ip m) = (ims m)(a := remove1 ip (ims m a))"
    "users (unlinked a ip m) = (users m)(ip := remove1 a (users m ip))"
    "sta (unlinked a ip m) = sta m" "procs (unlinked a ip m) = procs m"
    "imps (unlinked a ip m) = (imps m)(a \<mapsto> remove1 ip (ims m a))"
    "dom (unlinked a ip m) = dom m" "unlinked a ip m a = Some (p\<lparr>cp_imported := Some (remove1 ip (ims m a))\<rparr>)"
    "unlinked a ip m ip = Some (q\<lparr>cp_importing := remove1 a (users m ip)\<rparr>)"
    "z \<noteq> a \<Longrightarrow> z \<noteq> ip \<Longrightarrow> unlinked a ip m z = m z"
    "map_option cp_info (unlinked a ip m z) = map_option cp_info (m z)"
  using assms by (auto simp: unlinked_def Let_def fun_eq_iff ims_def imps_def users_def sta_def procs_def)

lemma wpe_unlink:
  assumes "pe_objs e a = Some p" "cp_imported p = Some ys" "pe_objs e ip = Some q" "a \<noteq> ip" "a \<noteq> 0" "ip \<noteq> 0"
  shows "wpe (sq (importing_remove ip a) (bnd (imported_list a) (\<lambda>ys.
      sq (set_plugin a (\<lambda>q. q\<lparr>cp_imported := Some (remove1 ip ys)\<rparr>)) m))) Q E e =
    wpe m Q E (e\<lparr>pe_objs := unlinked a ip (pe_objs e)\<rparr>)"
proof -
  have "unlinked a ip (pe_objs e) = (pe_objs e)(ip \<mapsto> q\<lparr>cp_importing := remove1 a (cp_importing q)\<rparr>,
      a \<mapsto> p\<lparr>cp_imported := Some (remove1 ip ys)\<rparr>)"
    using assms(1-4) by (auto simp: unlinked_def Let_def users_def ims_def imps_def)
  then show ?thesis using assms by (simp add: leaf)
qed

lemma unlinked_ok:
  assumes i: "env_ok R k r G D e" and m: "pe_objs e a = Some p" "cp_imported p \<noteq> None" "ip \<in> set (ims (pe_objs e) a)"
    and a: "a \<in> G" "a \<in> D"
  shows "env_ok R k r G D (e\<lparr>pe_objs := unlinked a ip (pe_objs e)\<rparr>)"
proof -
  let ?m = "pe_objs e"
  have g: "graph r G ?m" and l: "levels D ?m (pe_started_plugins e)" using i by (auto simp: env_ok_def)
  have ne: "a \<noteq> ip" using graphD(2) [OF g m(3)] by auto
  obtain q where q: "?m ip = Some q" using graphD(1) [OF g m(3)] by auto
  note v = unlinked_views [OF m(1,2) q ne]
  have live: "unlinked a ip ?m b \<noteq> None \<longleftrightarrow> ?m b \<noteq> None" for b using v(6) by (metis domIff)
  have rem: "x \<in> set (remove1 y (users ?m b)) \<longleftrightarrow> x \<in> set (users ?m b) \<and> x \<noteq> y" for x y b
    using graphD(5) [OF g] by simp
  have sub: "x \<in> set (remove1 y (ims ?m a)) \<Longrightarrow> x \<in> set (ims ?m a)" for x y
    by (meson notin_set_remove1)
  show ?thesis
  proof (rule env_ok_objs [OF i])
    show "same e (e\<lparr>pe_objs := unlinked a ip ?m\<rparr>)" using v(10) by (simp add: same_def)
    show "shape p'" if "pe_objs (e\<lparr>pe_objs := unlinked a ip ?m\<rparr>) z = Some p'" for z p'
    proof -
      have old: "shape p" "shape q" "\<And>x. ?m z = Some x \<Longrightarrow> shape x" using i m(1) q by (auto simp: env_ok_def)
      consider "z = a" | "z = ip" "z \<noteq> a" | "z \<noteq> a" "z \<noteq> ip" by blast
      then show ?thesis using old that v(7-9) by cases auto
    qed
    show "graph r G (pe_objs (e\<lparr>pe_objs := unlinked a ip ?m\<rparr>))"
      by (rule graphI; simp add: v live rem del: not_None_eq)
        (use a(1) in \<open>auto simp: graphD(5) [OF g] in_set_remove1 dest!: sub split: if_splits dest: graphD(1-4) [OF g]\<close>)
    show "levels D (pe_objs (e\<lparr>pe_objs := unlinked a ip ?m\<rparr>)) (pe_started_plugins (e\<lparr>pe_objs := unlinked a ip ?m\<rparr>))"
      by (rule levelsI; (simp add: v live del: not_None_eq)?)
        (use a(2) in \<open>auto simp: levelsD(1,4,5) [OF l] dest!: sub split: if_splits dest: levelsD(2,3) [OF l]\<close>)
  qed
qed

section \<open>Emptying a list of imports\<close>

text \<open>Outside \<open>X\<close>, a plug-in only loses users.\<close>

definition shrunk :: "nat set \<Rightarrow> plugin_env \<Rightarrow> plugin_env \<Rightarrow> bool" where
  "shrunk X e e' \<longleftrightarrow>
     same e e' \<and> pe_started_plugins e' = pe_started_plugins e \<and> sta (pe_objs e') = sta (pe_objs e) \<and>
     (\<forall>z p. pe_objs e z = Some p \<and> z \<notin> X \<longrightarrow>
        (\<exists>l. pe_objs e' z = Some (p\<lparr>cp_importing := l\<rparr>) \<and> set l \<subseteq> set (cp_importing p)))"

lemma shrunk_refl [simp]: "shrunk X e e"
proof -
  have "p = p\<lparr>cp_importing := cp_importing p\<rparr>" for p by simp
  then show ?thesis unfolding shrunk_def by (metis same_refl subset_refl)
qed

lemma shrunk_obj:
  assumes "shrunk X e e'" "pe_objs e z = Some p" "z \<notin> X"
  obtains l where "pe_objs e' z = Some (p\<lparr>cp_importing := l\<rparr>)" "set l \<subseteq> set (cp_importing p)"
  using assms unfolding shrunk_def by blast

lemma shrunk_live: "shrunk X e e' \<Longrightarrow> pe_objs e' z = None \<longleftrightarrow> pe_objs e z = None"
  using same_live unfolding shrunk_def by blast

lemma shrunk_trans: assumes "shrunk X e f" "shrunk Y f g" "X \<subseteq> Z" "Y \<subseteq> Z" shows "shrunk Z e g"
proof -
  have "\<exists>l. pe_objs g z = Some (p\<lparr>cp_importing := l\<rparr>) \<and> set l \<subseteq> set (cp_importing p)"
    if z: "pe_objs e z = Some p" "z \<notin> Z" for z p
  proof -
    obtain l where l: "pe_objs f z = Some (p\<lparr>cp_importing := l\<rparr>)" "set l \<subseteq> set (cp_importing p)"
      using shrunk_obj [OF assms(1) z(1)] z(2) assms(3) by blast
    obtain l' where "pe_objs g z = Some (p\<lparr>cp_importing := l, cp_importing := l'\<rparr>)" "set l' \<subseteq> set l"
      using shrunk_obj [OF assms(2) l(1)] z(2) assms(4) by force
    with l(2) show ?thesis by auto
  qed
  then show ?thesis using assms(1,2) same_trans unfolding shrunk_def by auto
qed

lemma shrunk_ims: "shrunk X e e' \<Longrightarrow> z \<notin> X \<Longrightarrow> ims (pe_objs e') z = ims (pe_objs e) z"
proof (cases "pe_objs e z")
  case None
  moreover assume "shrunk X e e'"
  ultimately have "pe_objs e' z = None" using same_live unfolding shrunk_def by blast
  with None show ?thesis by (simp add: ims_def imps_def)
next
  case (Some p)
  assume "shrunk X e e'" "z \<notin> X"
  then obtain l where "pe_objs e' z = Some (p\<lparr>cp_importing := l\<rparr>)" using Some by (metis shrunk_obj)
  with Some show ?thesis by (simp add: ims_def imps_def)
qed

definition fail_pre :: "(ident \<Rightarrow> nat) \<Rightarrow> nat \<Rightarrow> (nat \<Rightarrow> nat) \<Rightarrow> nat set \<Rightarrow> nat set \<Rightarrow> nat set \<Rightarrow> plugin_env \<Rightarrow> bool" where
  "fail_pre R k r G D P e \<longleftrightarrow>
     env_ok R k r G D e \<and> procs (pe_objs e) = P \<and> P \<subseteq> D \<and> P \<inter> G = {} \<and>
     (\<forall>x \<in> P. sta (pe_objs e) x = INSTALLED \<and> imps (pe_objs e) x \<noteq> None)"

text \<open>\<open>X\<close> has been cleaned up, with all marked plug-ins that it imports; \<open>Y\<close> is what has changed.\<close>

definition cleaned :: "(ident \<Rightarrow> nat) \<Rightarrow> nat \<Rightarrow> (nat \<Rightarrow> nat) \<Rightarrow> nat set \<Rightarrow> nat set \<Rightarrow> nat set \<Rightarrow> nat set \<Rightarrow> nat set \<Rightarrow> plugin_env \<Rightarrow> plugin_env \<Rightarrow> bool" where
  "cleaned R k r G D P X Y e e' \<longleftrightarrow>
     shrunk Y e e' \<and> fail_pre R k r G (D - X) (P - X) e' \<and> X \<subseteq> P \<and>
     (\<forall>x \<in> X. set (ims (pe_objs e) x) \<inter> P \<subseteq> X)"

definition drained :: "(ident \<Rightarrow> nat) \<Rightarrow> nat \<Rightarrow> (nat \<Rightarrow> nat) \<Rightarrow> nat set \<Rightarrow> nat set \<Rightarrow> nat set \<Rightarrow> nat \<Rightarrow> cp_plugin \<Rightarrow> nat list \<Rightarrow>
  plugin_env \<Rightarrow> plugin_env \<Rightarrow> bool" where
  "drained R k r G D P a p ys e e' \<longleftrightarrow>
     (\<exists>X l. cleaned R k r G D P X (insert a X) e e' \<and> set ys \<inter> P \<subseteq> X \<and>
        pe_objs e' a = Some (p\<lparr>cp_imported := Some [], cp_importing := l\<rparr>) \<and> set l \<subseteq> set (cp_importing p))"

lemma drain_imported_cleaned:
  assumes rec: "\<And>ip D P e. P \<subseteq> M \<Longrightarrow> fail_pre R k r G D P e \<Longrightarrow> pe_objs e ip \<noteq> None \<Longrightarrow> r ip < r a \<Longrightarrow>
    wpe (rec ip) (\<lambda>_ e'. \<exists>X. cleaned R k r G D P X X e e' \<and> (ip \<in> P \<longrightarrow> ip \<in> X)) (\<lambda>_. False) e"
  assumes "a \<in> G"
  shows "fail_pre R k r G D P e \<Longrightarrow> a \<in> D \<Longrightarrow> pe_objs e a = Some p \<Longrightarrow> cp_imported p = Some ys \<Longrightarrow> length ys < n \<Longrightarrow> P \<subseteq> M \<Longrightarrow>
    wpe (drain_imported n rec a) (\<lambda>_. drained R k r G D P a p ys e) (\<lambda>_. False) e"
proof (induction n arbitrary: D P e p ys)
  case 0
  then show ?case by simp
next
  case (Suc n)
  have i: "env_ok R k r G D e" using Suc.prems(1) by (simp add: fail_pre_def)
  have tabs: "tabs R k r e" using i by (simp add: env_ok_def)
  have a0: "a \<noteq> 0" using tabs_obj [OF tabs Suc.prems(3)] .
  have aP: "a \<notin> P" using Suc.prems(1) assms(2) by (auto simp: fail_pre_def)
  show ?case
  proof (cases ys)
    case Nil
    have "p\<lparr>cp_imported := Some [], cp_importing := cp_importing p\<rparr> = p"
      using Suc.prems(4) Nil by (cases p) simp
    then have "cleaned R k r G D P {} {a} e e \<and>
      pe_objs e a = Some (p\<lparr>cp_imported := Some [], cp_importing := cp_importing p\<rparr>) \<and> set (cp_importing p) \<subseteq> set (cp_importing p)"
      using Suc.prems by (simp add: cleaned_def)
    then have "drained R k r G D P a p ys e e"
      unfolding drained_def using Nil by (intro exI [of _ "{}"] exI [of _ "cp_importing p"]) simp
    then show ?thesis using Suc.prems(3,4) a0 Nil by (simp add: wpe_imported_list)
  next
    case (Cons ip rest)
    have ip: "ip \<in> set (ims (pe_objs e) a)" using Suc.prems(3,4) Cons by (simp add: ims_Some)
    have g: "graph r G (pe_objs e)" using i by (simp add: env_ok_def)
    have rip: "r ip < r a" "pe_objs e ip \<noteq> None" using graphD(1,2) [OF g ip] by auto
    have step: "wpe (sq (importing_remove ip a) (bnd (imported_list a) (\<lambda>ys.
        sq (set_plugin a (\<lambda>q. q\<lparr>cp_imported := Some (remove1 ip ys)\<rparr>)) (drain_imported n rec a))))
      (\<lambda>_. drained R k r G D P a p ys e) (\<lambda>_. False) e1"
      if X: "cleaned R k r G D P X X e e1" "ip \<in> P \<longrightarrow> ip \<in> X" for X e1
    proof -
      have sh: "shrunk X e e1" and aX: "a \<notin> X" and f1: "fail_pre R k r G (D - X) (P - X) e1" "X \<subseteq> P"
        using X aP by (auto simp: cleaned_def)
      obtain l where l: "pe_objs e1 a = Some (p\<lparr>cp_importing := l\<rparr>)" "set l \<subseteq> set (cp_importing p)"
        using shrunk_obj [OF sh Suc.prems(3) aX] .
      have i1: "env_ok R k r G (D - X) e1" using f1 by (simp add: fail_pre_def)
      obtain q where q: "pe_objs e1 ip = Some q" using rip(2) shrunk_live [OF sh, of ip] by (cases "pe_objs e1 ip") auto
      have ip0: "ip \<noteq> 0" using i1 q by (auto simp: env_ok_def elim: tabs_obj)
      have im1: "ims (pe_objs e1) a = ip # rest" using l(1) Suc.prems(4) Cons by (simp add: ims_Some)
      define e2 where "e2 = e1\<lparr>pe_objs := unlinked a ip (pe_objs e1)\<rparr>"
      define p2 where "p2 = p\<lparr>cp_importing := l, cp_imported := Some rest\<rparr>"
      have ne: "a \<noteq> ip" using rip(1) by auto
      note v = unlinked_views [OF l(1) _ q ne, unfolded im1, simplified]
      have imp: "cp_imported p \<noteq> None" using Suc.prems(4) by simp
      have i2: "env_ok R k r G (D - X) e2"
        unfolding e2_def using Suc.prems(2) aX assms(2) imp im1 by (intro unlinked_ok [OF i1 l(1)]) auto
      have f2: "fail_pre R k r G (D - X) (P - X) e2"
        using f1(1) i2 v Suc.prems(4) aP unfolding fail_pre_def e2_def by auto
      have sh2: "shrunk {a} e1 e2"
      proof -
        have "cp_imported (p\<lparr>cp_importing := l\<rparr>) \<noteq> None" using imp by simp
        note w = unlinked_views [OF l(1) this q ne]
        have "\<exists>l'. pe_objs e2 z = Some (x\<lparr>cp_importing := l'\<rparr>) \<and> set l' \<subseteq> set (cp_importing x)"
          if "pe_objs e1 z = Some x" "z \<noteq> a" for z x
        proof (cases "z = ip")
          case True
          with that q w(8) show ?thesis by (auto simp: e2_def views_Some dest: set_remove1_subset [THEN subsetD])
        next
          case False
          with that w(9) show ?thesis by (intro exI [of _ "cp_importing x"]) (simp add: e2_def)
        qed
        moreover have "same e1 e2" using w(10) by (simp add: same_def e2_def)
        ultimately show ?thesis using w(3) by (simp add: shrunk_def e2_def)
      qed
      have "wpe (drain_imported n rec a) (\<lambda>_. drained R k r G (D - X) (P - X) a p2 rest e2) (\<lambda>_. False) e2"
        using v Suc.prems(2,4,5,6) Cons aX by (intro Suc.IH [OF f2]) (auto simp: e2_def p2_def)
      then have "wpe (drain_imported n rec a) (\<lambda>_. drained R k r G D P a p ys e) (\<lambda>_. False) e2"
      proof (rule wpe_mono)
        fix u e'
        assume "drained R k r G (D - X) (P - X) a p2 rest e2 e'"
        then obtain Y l' where Y: "cleaned R k r G (D - X) (P - X) Y (insert a Y) e2 e'" "set rest \<inter> (P - X) \<subseteq> Y"
          "pe_objs e' a = Some (p2\<lparr>cp_imported := Some [], cp_importing := l'\<rparr>)" "set l' \<subseteq> set (cp_importing p2)" unfolding drained_def by blast
        have "shrunk (insert a (X \<union> Y)) e e'"
          by (rule shrunk_trans [OF shrunk_trans [OF sh sh2, of "insert a X"]]) (use Y(1) in \<open>auto simp: cleaned_def\<close>)
        moreover have "set (ims (pe_objs e) x) \<inter> P \<subseteq> X \<union> Y" if "x \<in> X \<union> Y" for x
        proof (cases "x \<in> X")
          case True
          with X show ?thesis by (auto simp: cleaned_def)
        next
          case False
          with that Y(1) aP have "x \<in> Y" "x \<noteq> a" by (auto simp: cleaned_def)
          moreover have "ims (pe_objs e2) x = ims (pe_objs e) x"
            using shrunk_ims [OF sh False] shrunk_ims [OF sh2, of x] \<open>x \<noteq> a\<close> by simp
          moreover have "set (ims (pe_objs e2) x) \<inter> (P - X) \<subseteq> Y" using Y(1) \<open>x \<in> Y\<close> by (simp add: cleaned_def)
          ultimately show ?thesis by auto
        qed
        moreover have "D - X - Y = D - (X \<union> Y)" "P - X - Y = P - (X \<union> Y)" by auto
        ultimately have "cleaned R k r G D P (X \<union> Y) (insert a (X \<union> Y)) e e'"
          using X(1) Y(1) by (auto simp: cleaned_def)
        moreover have "set ys \<inter> P \<subseteq> X \<union> Y" using Y(2) X(2) Cons by auto
        ultimately show "drained R k r G D P a p ys e e'"
          unfolding drained_def using Y(3,4) l(2) by (intro exI [of _ "X \<union> Y"] exI [of _ l']) (auto simp: p2_def)
      qed simp
      then show ?thesis
        using Suc.prems(4) by (simp add: wpe_unlink [OF l(1) _ q ne a0 ip0, of ys] e2_def del: wpe_sq)
    qed
    have "wpe (rec ip) (\<lambda>_. wpe (sq (importing_remove ip a) (bnd (imported_list a) (\<lambda>ys.
        sq (set_plugin a (\<lambda>q. q\<lparr>cp_imported := Some (remove1 ip ys)\<rparr>)) (drain_imported n rec a))))
      (\<lambda>_. drained R k r G D P a p ys e) (\<lambda>_. False)) (\<lambda>_. False) e"
      by (rule wpe_mono [OF rec [OF Suc.prems(6,1) rip(2,1)]]) (elim exE conjE, rule step, assumption+)
    then show ?thesis
      using Suc.prems(3,4) a0 Cons by (simp add: wpe_imported_list [OF Suc.prems(3) a0 Suc.prems(4)])
  qed
qed

section \<open>Cleaning up\<close>

lemma shrunk_upd:
  "pe_objs e a = Some p \<Longrightarrow> cp_info p' = cp_info p \<Longrightarrow> cp_state p' = cp_state p \<Longrightarrow> shrunk {a} e (e\<lparr>pe_objs := (pe_objs e)(a \<mapsto> p')\<rparr>)"
proof -
  assume p: "pe_objs e a = Some p" "cp_info p' = cp_info p" "cp_state p' = cp_state p"
  have "x = x\<lparr>cp_importing := cp_importing x\<rparr>" for x :: cp_plugin by simp
  then have "\<exists>l. ((pe_objs e)(a \<mapsto> p')) z = Some (x\<lparr>cp_importing := l\<rparr>) \<and> set l \<subseteq> set (cp_importing x)"
    if "pe_objs e z = Some x" "z \<notin> {a}" for z x
    using that by (metis fun_upd_other insertI1 singletonD subset_refl)
  then show ?thesis using p unfolding shrunk_def by (simp add: same_def sta_upd fun_eq_iff sta_def) blast
qed

text \<open>An empty list of imports can be freed, and is not looked at any more.\<close>

lemma env_ok_forget:
  assumes i: "env_ok R k r (insert a G) D e" and p: "pe_objs e a = Some p" "cp_imported p = Some []"
    and D': "D - {a} \<subseteq> D'" "a \<notin> D' \<Longrightarrow> cp_state p = INSTALLED"
  shows "env_ok R k r G D' (e\<lparr>pe_objs := (pe_objs e)(a \<mapsto> p\<lparr>cp_imported := None\<rparr>)\<rparr>)"
proof -
  let ?e = "e\<lparr>pe_objs := (pe_objs e)(a \<mapsto> p\<lparr>cp_imported := None\<rparr>)\<rparr>"
  have g: "graph r (insert a G) (pe_objs e)" and l: "levels D (pe_objs e) (pe_started_plugins e)"
    using i by (auto simp: env_ok_def)
  have v: "ims (pe_objs ?e) = ims (pe_objs e)" "users (pe_objs ?e) = users (pe_objs e)" "sta (pe_objs ?e) = sta (pe_objs e)"
    "imps (pe_objs ?e) = (imps (pe_objs e))(a := None)"
    using p by (auto simp: fun_eq_iff ims_def imps_def users_def sta_def)
  have s: "same e ?e" using p(1) by (simp add: same_def)
  have no: "ims (pe_objs e) a = []" using p by (simp add: ims_Some)
  have sa: "sta (pe_objs e) a = cp_state p" using p by (simp add: sta_def)
  show ?thesis
  proof (rule env_ok_objs [OF i s])
    show "shape q" if "pe_objs ?e z = Some q" for z q
      using that i p(1) by (auto simp: env_ok_def split: if_splits)
    show "graph r G (pe_objs ?e)"
      using g no unfolding graph_def v same_live [OF s] by (metis empty_iff empty_set insertE)
    have "imps (pe_objs e) z = None \<longleftrightarrow> sta (pe_objs e) z = INSTALLED" if "z \<notin> D'" "pe_objs e z \<noteq> None" "z \<noteq> a" for z
      using levelsD(1) [OF l] that D'(1) by blast
    then show "levels D' (pe_objs ?e) (pe_started_plugins ?e)"
      by (intro levelsI; (unfold v same_live [OF s])?)
        (use D'(2) sa in \<open>auto simp: levelsD(4,5) [OF l] dest: levelsD(2,3) [OF l]\<close>)
  qed
qed

theorem failed_rec_cleaned:
  "fail_pre R k r G D P e \<Longrightarrow> pe_objs e a \<noteq> None \<Longrightarrow> r a < n \<Longrightarrow>
   wpe (resolve_plugin_failed_rec n a) (\<lambda>_ e'. \<exists>X. cleaned R k r G D P X X e e' \<and> (a \<in> P \<longrightarrow> a \<in> X)) (\<lambda>_. False) e"
proof (induction n arbitrary: G D P a e)
  case 0
  then show ?case by simp
next
  case (Suc n)
  have F: "env_ok R k r G D e" "procs (pe_objs e) = P" "P \<subseteq> D" "P \<inter> G = {}"
    "\<forall>x \<in> P. sta (pe_objs e) x = INSTALLED \<and> imps (pe_objs e) x \<noteq> None"
    using Suc.prems(1) by (auto simp: fail_pre_def)
  obtain p where p: "pe_objs e a = Some p" using Suc.prems(2) by auto
  have a0: "a \<noteq> 0" using F(1) p by (auto simp: env_ok_def elim: tabs_obj)
  show ?case
  proof (cases "a \<in> P")
    case False
    then have "\<not> cp_processed p" using F(2) p by (auto simp: procs_def)
    moreover have "cleaned R k r G D P {} {} e e" using Suc.prems(1) by (simp add: cleaned_def)
    ultimately show ?thesis using p a0 False by (auto simp: leaf)
  next
    case True
    have pr: "cp_processed p" using F(2) p True by (auto simp: procs_def)
    have st: "cp_state p = INSTALLED" using F(5) True p by (auto simp: sta_def)
    obtain ys where ys: "cp_imported p = Some ys" using F(5) True p by (auto simp: imps_def)
    define p0 where "p0 = p\<lparr>cp_processed := False\<rparr>"
    define e0 where "e0 = e\<lparr>pe_objs := (pe_objs e)(a \<mapsto> p0)\<rparr>"
    have v0: "ims (pe_objs e0) = ims (pe_objs e)" "users (pe_objs e0) = users (pe_objs e)" "sta (pe_objs e0) = sta (pe_objs e)"
      "imps (pe_objs e0) = imps (pe_objs e)" "procs (pe_objs e0) = P - {a}"
      using p F(2) by (auto simp: e0_def p0_def fun_eq_iff ims_def imps_def users_def sta_def procs_def)
    have s0: "same e e0" using p by (simp add: same_def e0_def p0_def)
    have g: "graph r G (pe_objs e)" and l: "levels D (pe_objs e) (pe_started_plugins e)" using F(1) by (auto simp: env_ok_def)
    have "env_ok R k r (insert a G) D e0"
    proof (rule env_ok_objs [OF F(1) s0])
      show "shape q" if "pe_objs e0 z = Some q" for z q
        using that F(1) p by (auto simp: env_ok_def e0_def p0_def split: if_splits)
      show "graph r (insert a G) (pe_objs e0)" using g unfolding graph_def v0 same_live [OF s0] by blast
      show "levels D (pe_objs e0) (pe_started_plugins e0)" using l unfolding levels_def v0 same_live [OF s0] by (simp add: e0_def)
    qed
    then have f0: "fail_pre R k r (insert a G) D (P - {a}) e0" using F v0 by (auto simp: fail_pre_def)
    have "wpe (drain_imported (Suc (length ys)) (resolve_plugin_failed_rec n) a)
      (\<lambda>_. drained R k r (insert a G) D (P - {a}) a p0 ys e0) (\<lambda>_. False) e0"
    proof (rule drain_imported_cleaned [where M = P])
      show "fail_pre R k r (insert a G) D (P - {a}) e0" by (rule f0)
    qed (use Suc.IH Suc.prems(3) ys F(3) True in \<open>auto simp: e0_def p0_def\<close>)
    then have "wpe (drain_imported (Suc (length ys)) (resolve_plugin_failed_rec n) a)
      (\<lambda>_. wpe (set_plugin a (\<lambda>q. q\<lparr>cp_imported := None\<rparr>))
        (\<lambda>_ e'. \<exists>X. cleaned R k r G D P X X e e' \<and> (a \<in> P \<longrightarrow> a \<in> X)) (\<lambda>_. False)) (\<lambda>_. False) e0"
    proof (rule wpe_mono)
      fix u e1
      assume "drained R k r (insert a G) D (P - {a}) a p0 ys e0 e1"
      then obtain X m where X: "cleaned R k r (insert a G) D (P - {a}) X (insert a X) e0 e1" "set ys \<inter> (P - {a}) \<subseteq> X"
        "pe_objs e1 a = Some (p0\<lparr>cp_imported := Some [], cp_importing := m\<rparr>)" unfolding drained_def by blast
      define p1 where "p1 = p0\<lparr>cp_imported := Some [], cp_importing := m\<rparr>"
      define e2 where "e2 = e1\<lparr>pe_objs := (pe_objs e1)(a \<mapsto> p1\<lparr>cp_imported := None\<rparr>)\<rparr>"
      have p1: "pe_objs e1 a = Some p1" "cp_imported p1 = Some []" "cp_state p1 = INSTALLED" "\<not> cp_processed p1"
        using X(3) st by (simp_all add: p1_def p0_def)
      have f1: "env_ok R k r (insert a G) (D - X) e1" "procs (pe_objs e1) = P - {a} - X" "X \<subseteq> P - {a}"
        "\<forall>x \<in> P - {a} - X. sta (pe_objs e1) x = INSTALLED \<and> imps (pe_objs e1) x \<noteq> None"
        using X(1) by (auto simp: cleaned_def fail_pre_def)
      have "env_ok R k r G (D - insert a X) e2"
        unfolding e2_def using p1 by (intro env_ok_forget [OF f1(1)]) auto
      moreover have "procs (pe_objs e2) = P - insert a X" using f1(2) p1(1,4) by (auto simp: e2_def procs_def)
      moreover have "sta (pe_objs e2) x = INSTALLED \<and> imps (pe_objs e2) x \<noteq> None" if "x \<in> P - insert a X" for x
        using f1(4) that by (auto simp: e2_def sta_upd imps_upd)
      ultimately have "fail_pre R k r G (D - insert a X) (P - insert a X) e2"
        using F(3,4) unfolding fail_pre_def by auto
      moreover have "shrunk (insert a X) e e2"
      proof (rule shrunk_trans)
        show "shrunk (insert a X) e e1"
          by (rule shrunk_trans [where X = "{a}" and Y = "insert a X" and f = e0])
            (use X(1) shrunk_upd [OF p] in \<open>auto simp: e0_def p0_def cleaned_def\<close>)
        show "shrunk {a} e1 e2" unfolding e2_def by (rule shrunk_upd [OF p1(1)]) simp_all
      qed auto
      moreover have "set (ims (pe_objs e) x) \<inter> P \<subseteq> insert a X" if "x \<in> insert a X" for x
      proof (cases "x = a")
        case True
        then show ?thesis using X(2) ims_Some [of "pe_objs e", OF p ys] by auto
      next
        case False
        then have "set (ims (pe_objs e0) x) \<inter> (P - {a}) \<subseteq> X" using X(1) that by (auto simp: cleaned_def)
        then show ?thesis by (auto simp: v0)
      qed
      ultimately have "cleaned R k r G D P (insert a X) (insert a X) e e2"
        using f1(3) True by (auto simp: cleaned_def)
      then show "wpe (set_plugin a (\<lambda>q. q\<lparr>cp_imported := None\<rparr>))
        (\<lambda>_ e'. \<exists>X. cleaned R k r G D P X X e e' \<and> (a \<in> P \<longrightarrow> a \<in> X)) (\<lambda>_. False) e1"
        unfolding wpe_set_plugin [OF p1(1) a0] e2_def [symmetric] by blast
    qed simp
    then show ?thesis
      using p a0 pr st ys by (simp add: leaf e0_def p0_def less_pstate_def)
  qed
qed

section \<open>Resolving a plug-in\<close>

lemma left_over_cleaned:
  assumes C: "\<forall>c \<in> C. r c \<le> r a \<and> (c = a \<or> (\<exists>b \<in> C. c \<in> set (ims (pe_objs e) b)))"
    and g: "graph r G (pe_objs e)" and X: "a \<in> X" "\<forall>x \<in> X. set (ims (pe_objs e) x) \<inter> C \<subseteq> X"
  shows "C \<subseteq> X"
proof
  fix c assume "c \<in> C"
  then show "c \<in> X"
  proof (induction "r a - r c" arbitrary: c rule: less_induct)
    case less
    show ?case
    proof (cases "c = a")
      case False
      with less(2) C obtain b where b: "b \<in> C" "c \<in> set (ims (pe_objs e) b)" by blast
      have "r c < r b" "r b \<le> r a" using graphD(2) [OF g b(2)] C b(1) by auto
      then have "b \<in> X" using less(1) b(1) by simp
      with X(2) b(2) less(2) show ?thesis by blast
    qed (simp add: X(1))
  qed
qed

definition resolved :: "(ident \<Rightarrow> nat) \<Rightarrow> nat \<Rightarrow> (nat \<Rightarrow> nat) \<Rightarrow> nat \<Rightarrow> plugin_env \<Rightarrow> cp_status \<Rightarrow> plugin_env \<Rightarrow> bool" where
  "resolved R k r a e s e' \<longleftrightarrow>
     env_ok R k r {} {} e' \<and> procs (pe_objs e') = {} \<and> grown (\<lambda>_. False) e e' \<and>
     (s = CP_OK \<longrightarrow> sta (pe_objs e') a \<noteq> INSTALLED)"

theorem resolve_plugin_resolved:
  assumes "env_ok R k r {} {} e" "procs (pe_objs e) = {}" "pe_objs e a \<noteq> None" "r a < n"
  shows "wpe (resolve_plugin n a) (resolved R k r a e) (\<lambda>_. False) e"
proof -
  have after: "wpe (if s = CP_OK \<or> s = CP_OK_PRELIMINARY
     then sq (resolve_plugin_commit_rec n a) (sq assert_processed_zero (ret CP_OK))
     else sq (resolve_plugin_failed_rec n a) (sq assert_processed_zero (ret s))) (resolved R k r a e) (\<lambda>_. False) e1"
    if post: "prel_post R k r {} a e s e1" for s e1
  proof (cases "s = CP_OK")
    case True
    then have i: "env_ok R k r {} {} e1" "procs (pe_objs e1) = {}" "sta (pe_objs e1) a \<noteq> INSTALLED"
      and g: "grown (\<lambda>z. r a < r z) e e1" using post by (auto simp: prel_post_def)
    have "same e e1" using g by (simp add: grown_def)
    then obtain p where p: "pe_objs e1 a = Some p" using assms(3) same_live by (metis not_None_eq)
    have t: "tabs R k r e1" using i(1) by (simp add: env_ok_def)
    have "a \<noteq> 0" "\<not> cp_processed p" using t p i(2) by (auto simp: procs_def elim: tabs_obj)
    moreover have "resolved R k r a e CP_OK e1" using i grown_trans [OF g grown_refl] by (auto simp: resolved_def)
    moreover obtain m where "n = Suc m" using assms(4) by (cases n) auto
    ultimately show ?thesis using True p wpe_assert_processed_zero [OF t i(2)] by (simp add: leaf)
  next
    case False
    with post obtain C where C: "a \<in> C" "left_over R k r {} C e1" "s \<noteq> CP_OK_PRELIMINARY"
      "\<forall>c \<in> C. r c \<le> r a \<and> (c = a \<or> (\<exists>b \<in> C. c \<in> set (ims (pe_objs e1) b)))"
      and g: "grown (\<lambda>z. r a < r z) e e1" by (auto simp: prel_post_def)
    have pre: "fail_pre R k r {} C C e1" using C(2) by (auto simp: left_over_def fail_pre_def)
    have gr: "graph r {} (pe_objs e1)" using C(2) by (auto simp: left_over_def env_ok_def)
    have "same e e1" using g by (simp add: grown_def)
    from same_live [OF this, of a] have "pe_objs e1 a \<noteq> None" using assms(3) by blast
    note failed_rec_cleaned [OF pre this assms(4)]
    then have "wpe (resolve_plugin_failed_rec n a) (\<lambda>_. wpe (sq assert_processed_zero (ret s)) (resolved R k r a e) (\<lambda>_. False)) (\<lambda>_. False) e1"
    proof (rule wpe_mono, goal_cases)
      case (1 u e2)
      then obtain X where X: "cleaned R k r {} C C X X e1 e2" "a \<in> X" using C(1) by blast
      then have "C \<subseteq> X" by (intro left_over_cleaned [OF C(4) gr]) (auto simp: cleaned_def)
      with X(1) have i: "env_ok R k r {} {} e2" "procs (pe_objs e2) = {}"
        by (auto simp: cleaned_def fail_pre_def)
      have t: "tabs R k r e2" using i(1) by (simp add: env_ok_def)
      have "grown (\<lambda>_. False) e1 e2" using X(1) by (auto simp: cleaned_def shrunk_def grown_def)
      then have "resolved R k r a e s e2"
        using i False grown_trans [OF g, of "\<lambda>_. False" e2 "\<lambda>_. False"] by (simp add: resolved_def)
      then show ?case using wpe_assert_processed_zero [OF t i(2)] by simp
    qed simp
    with False C(3) show ?thesis by simp
  qed
  have "prel_pre R k r {} a e" using assms(1-3) by (simp add: prel_pre_def)
  then have "wpe (resolve_plugin_prel_rec n a) (prel_post R k r {} a e) (\<lambda>_. False) e"
    using assms(4) by (rule prel_rec_post)
  then show ?thesis
    unfolding resolve_plugin_def wpe_bnd by (rule wpe_mono) (erule after, simp)
qed

end
