(* ===== verification/Cpluff_Start.thy ===== *)
theory Cpluff_Start
  imports Cpluff_Failed
begin

text \<open>
  Starting: \<^verbatim>\<open>cp_start_plugin\<close> resolves a plug-in and starts it after all it needs.  When it returns
  \<^verbatim>\<open>CP_OK\<close> the plug-in and everything it needs are active.
\<close>

section \<open>What starting and stopping leave alone\<close>

definition kept :: "plugin_env \<Rightarrow> plugin_env \<Rightarrow> bool" where
  "kept e e' \<longleftrightarrow> same e e' \<and> imps (pe_objs e') = imps (pe_objs e) \<and> users (pe_objs e') = users (pe_objs e)"

lemma kept_refl [simp]: "kept e e"
  by (simp add: kept_def)

lemma kept_trans: "kept e f \<Longrightarrow> kept f g \<Longrightarrow> kept e g"
  using same_trans unfolding kept_def by auto

lemma kept_ims: "kept e e' \<Longrightarrow> ims (pe_objs e') = ims (pe_objs e)"
  by (auto simp: kept_def ims_def fun_eq_iff)

lemma kept_live: "kept e e' \<Longrightarrow> pe_objs e' a = None \<longleftrightarrow> pe_objs e a = None"
  using same_live unfolding kept_def by blast

text \<open>One plug-in changes between resolved and active, with the list of the active ones.\<close>

lemma env_ok_level:
  assumes i: "env_ok R k r {} {} e" and p: "pe_objs e a = Some p" "cp_state p \<in> {RESOLVED, ACTIVE}"
    and e': "same e e'" "pe_objs e' = (pe_objs e)(a \<mapsto> p')" "shape p'" "cp_imported p' = cp_imported p" "cp_importing p' = cp_importing p"
      "cp_processed p' = cp_processed p"
    and s: "cp_state p' = ACTIVE \<and> (\<forall>b \<in> set (ims (pe_objs e) a). sta (pe_objs e) b = ACTIVE) \<and> cp_state p = RESOLVED \<and>
         pe_started_plugins e' = pe_started_plugins e @ [a] \<or>
       cp_state p' = RESOLVED \<and> (\<forall>x. a \<in> set (ims (pe_objs e) x) \<longrightarrow> sta (pe_objs e) x \<noteq> ACTIVE) \<and>
         pe_started_plugins e' = remove1 a (pe_started_plugins e)"
  shows "env_ok R k r {} {} e'" "kept e e'" "procs (pe_objs e') = procs (pe_objs e)" "sta (pe_objs e') = (sta (pe_objs e))(a := cp_state p')"
proof -
  have l: "levels {} (pe_objs e) (pe_started_plugins e)" and g: "graph r {} (pe_objs e)" using i by (auto simp: env_ok_def)
  have v: "ims (pe_objs e') = ims (pe_objs e)" "users (pe_objs e') = users (pe_objs e)" "imps (pe_objs e') = imps (pe_objs e)"
    "procs (pe_objs e') = procs (pe_objs e)"
    using p(1) e' by (auto simp: fun_eq_iff ims_def imps_def users_def procs_def)
  show st: "sta (pe_objs e') = (sta (pe_objs e))(a := cp_state p')" by (simp add: e'(2) sta_upd)
  have sa: "sta (pe_objs e) a = cp_state p" using p(1) by (simp add: sta_def)
  have up: "sta (pe_objs e) b \<noteq> INSTALLED" if "b \<in> set (ims (pe_objs e) a)" for b
    using levelsD(2) [OF l that] p(2) sa by auto
  have ns: "b \<noteq> a" if "b \<in> set (ims (pe_objs e) a)" for b
    using graphD(2) [OF g that] by auto
  show "env_ok R k r {} {} e'"
  proof (rule env_ok_objs [OF i e'(1)])
    show "shape q" if "pe_objs e' z = Some q" for z q
      using that i e'(2,3) by (auto simp: env_ok_def split: if_splits)
    show "graph r {} (pe_objs e')" using g unfolding graph_def v same_live [OF e'(1)] .
    show "levels {} (pe_objs e') (pe_started_plugins e')"
    proof (rule levelsI)
      fix x b
      show "imps (pe_objs e') x = None \<longleftrightarrow> sta (pe_objs e') x = INSTALLED" if "x \<notin> {}" "pe_objs e' x \<noteq> None"
        using levelsD(1) [OF l] that s p(2) sa unfolding v st same_live [OF e'(1)] by auto
      show "sta (pe_objs e') b \<noteq> INSTALLED" if "b \<in> set (ims (pe_objs e') x)" "sta (pe_objs e') x \<noteq> INSTALLED"
        using levelsD(2) [OF l] that s up unfolding v st by (auto split: if_splits)
      show "sta (pe_objs e') b = ACTIVE" if "b \<in> set (ims (pe_objs e') x)" "sta (pe_objs e') x = ACTIVE"
        using levelsD(3) [OF l] that s ns unfolding v st by (auto split: if_splits)
      show "distinct (pe_started_plugins e')" using levelsD(4,5) [OF l] s sa by auto
      show "x \<in> set (pe_started_plugins e') \<longleftrightarrow> sta (pe_objs e') x = ACTIVE"
        using levelsD(4,5) [OF l] s sa unfolding st by (auto simp: set_remove1_eq)
    qed
  qed
  show "kept e e'" "procs (pe_objs e') = procs (pe_objs e)" using e'(1) v by (simp_all add: kept_def)
qed

section \<open>The runtime of one plug-in\<close>

definition runtime_started :: "(ident \<Rightarrow> nat) \<Rightarrow> nat \<Rightarrow> (nat \<Rightarrow> nat) \<Rightarrow> nat \<Rightarrow> plugin_env \<Rightarrow> cp_status \<Rightarrow> plugin_env \<Rightarrow> bool" where
  "runtime_started R k r a e s e' \<longleftrightarrow>
     env_ok R k r {} {} e' \<and> kept e e' \<and> procs (pe_objs e') = procs (pe_objs e) \<and>
     sta (pe_objs e') = (sta (pe_objs e))(a := if s = CP_OK then ACTIVE else RESOLVED)"

lemma start_runtime:
  assumes i: "env_ok R k r {} {} e" and p: "pe_objs e a = Some p" "cp_state p = RESOLVED"
    and act: "\<forall>b \<in> set (ims (pe_objs e) a). sta (pe_objs e) b = ACTIVE"
  shows "wpe (start_plugin_runtime a) (runtime_started R k r a e) (\<lambda>_. False) e"
proof -
  have tabs: "tabs R k r e" and shape: "shape p" and mem: "pe_mem e = []" using i p by (auto simp: env_ok_def tabs_def surroundings_def)
  obtain ir where ir: "a \<noteq> 0" "pe_infos e (cp_info p) = Some ir" using tabs_obj [OF tabs p(1)] .
  have l: "levels {} (pe_objs e) (pe_started_plugins e)" using i by (auto simp: env_ok_def)
  have na: "a \<notin> set (pe_started_plugins e)" using levelsD(5) [OF l] p by (simp add: sta_def)
  have users: "sta (pe_objs e) x \<noteq> ACTIVE" if "a \<in> set (ims (pe_objs e) x)" for x
    using levelsD(3) [OF l that] p by (auto simp: sta_def)
  have ok: "runtime_started R k r a e CP_OK e'"
    if "same e e'" "pe_objs e' = (pe_objs e)(a \<mapsto> p')" "shape p'" "cp_imported p' = cp_imported p" "cp_importing p' = cp_importing p"
      "cp_processed p' = cp_processed p" "cp_state p' = ACTIVE" "pe_started_plugins e' = pe_started_plugins e @ [a]" for e' p'
    using env_ok_level [OF i p(1) _ that(1-6)] that p(2) act unfolding runtime_started_def by simp
  have no: "runtime_started R k r a e s e'"
    if "same e e'" "pe_objs e' = (pe_objs e)(a \<mapsto> p')" "shape p'" "cp_imported p' = cp_imported p" "cp_importing p' = cp_importing p"
      "cp_processed p' = cp_processed p" "cp_state p' = RESOLVED" "pe_started_plugins e' = pe_started_plugins e" "s \<noteq> CP_OK" for e' p' s
    using env_ok_level [OF i p(1) _ that(1-6)] that p(2) users na unfolding runtime_started_def by (simp add: remove1_idem)
  define step where "step e' \<longleftrightarrow> pe_objs e' = (pe_objs e)(a \<mapsto> the (pe_objs e' a)) \<and> shape (the (pe_objs e' a)) \<and>
     cp_imported (the (pe_objs e' a)) = cp_imported p \<and> cp_importing (the (pe_objs e' a)) = cp_importing p \<and>
     cp_processed (the (pe_objs e' a)) = cp_processed p \<and> cp_info (the (pe_objs e' a)) = cp_info p \<and>
     pe_mem e' = pe_mem e \<and> pe_infos e' = pe_infos e \<and> pe_plugins e' = pe_plugins e \<and> pe_next e' = pe_next e \<and>
     pe_scan e' = pe_scan e \<and> pe_cp_version e' = pe_cp_version e \<and> pe_cp_abi e' = pe_cp_abi e \<and>
     pe_ext_points e' = pe_ext_points e \<and> pe_extensions e' = pe_extensions e \<and>
     set (pe_run_funcs e') \<subseteq> set (pe_run_funcs e)" for e' :: plugin_env
  have sm: "same e e'" if "step e'" for e'
    using same_upd [OF p(1), of "the (pe_objs e' a)" e'] that by (simp add: step_def)
  have ok': "runtime_started R k r a e CP_OK e'"
    if "step e'" "cp_state (the (pe_objs e' a)) = ACTIVE" "pe_started_plugins e' = pe_started_plugins e @ [a]" for e'
    using ok [of e' "the (pe_objs e' a)"] sm [OF that(1)] that by (simp add: step_def)
  have no': "runtime_started R k r a e s e'"
    if "step e'" "cp_state (the (pe_objs e' a)) = RESOLVED" "pe_started_plugins e' = pe_started_plugins e" "s \<noteq> CP_OK" for e' s
    using no [of e' "the (pe_objs e' a)"] sm [OF that(1)] that by (simp add: step_def)
  show ?thesis
  proof (cases "cp_runtime_funcs p")
    case None
    then have "cp_context p = None" using shape by (auto simp: shape_def)
    with None p ir mem shape show ?thesis
      unfolding start_plugin_runtime_def start_instance_def
      by (simp add: leaf) (intro ok'; simp add: step_def shape_def)
  next
    case (Some rt)
    note rt = Some
    have f: "rt_create rt" "rt_destroy rt" using shape rt by (auto simp: shape_def)
    show ?thesis
    proof (cases "cp_context p")
      case None
      with rt f p ir mem shape show ?thesis
        unfolding start_plugin_runtime_def start_instance_def start_failed_def cpi_new_context_def
        by (simp add: leaf) (intro conjI impI ok' no'; simp add: step_def shape_def)
    next
      case (Some cx)
      then have cx: "cx_resolved_symbols cx = None" "cx_symbol_providers cx = None" using shape by (auto simp: shape_def)
      with rt f p ir mem shape Some show ?thesis
        unfolding start_plugin_runtime_def start_instance_def start_failed_def
        by (simp add: leaf) (intro conjI impI ok' no'; simp add: step_def shape_def)
    qed
  qed
qed

section \<open>The recursion\<close>

definition started :: "(ident \<Rightarrow> nat) \<Rightarrow> nat \<Rightarrow> (nat \<Rightarrow> nat) \<Rightarrow> nat \<Rightarrow> plugin_env \<Rightarrow> cp_status \<Rightarrow> plugin_env \<Rightarrow> bool" where
  "started R k r a e s e' \<longleftrightarrow>
     env_ok R k r {} {} e' \<and> kept e e' \<and> procs (pe_objs e') = procs (pe_objs e) \<and>
     (\<forall>z. sta (pe_objs e') z \<noteq> sta (pe_objs e) z \<longrightarrow> sta (pe_objs e) z = RESOLVED \<and> sta (pe_objs e') z = ACTIVE \<and> (a, z) \<in> needs (pe_objs e)) \<and>
     (s = CP_OK \<longrightarrow> sta (pe_objs e') a = ACTIVE)"

definition imports_started :: "(ident \<Rightarrow> nat) \<Rightarrow> nat \<Rightarrow> (nat \<Rightarrow> nat) \<Rightarrow> nat \<Rightarrow> nat list \<Rightarrow> plugin_env \<Rightarrow> cp_status \<Rightarrow> plugin_env \<Rightarrow> bool" where
  "imports_started R k r a ips e s e' \<longleftrightarrow>
     env_ok R k r {} {} e' \<and> kept e e' \<and> procs (pe_objs e') = procs (pe_objs e) \<and>
     (\<forall>z. sta (pe_objs e') z \<noteq> sta (pe_objs e) z \<longrightarrow>
        sta (pe_objs e) z = RESOLVED \<and> sta (pe_objs e') z = ACTIVE \<and> (a, z) \<in> needs (pe_objs e) \<and> r z < r a) \<and>
     (s = CP_OK \<longrightarrow> (\<forall>b \<in> set ips. sta (pe_objs e') b = ACTIVE))"

lemma needs_rank:
  assumes g: "graph r D m" and n: "(x, y) \<in> needs m"
  shows "r y \<le> r x"
  using n unfolding needs_def
proof (induction rule: rtrancl_induct)
  case (step y z)
  then have "r z < r y" by (auto dest: graphD(2) [OF g])
  with step show ?case by simp
qed simp

lemma kept_needs: "kept e e' \<Longrightarrow> needs (pe_objs e') = needs (pe_objs e)"
  by (simp add: needs_def kept_ims)

lemma needs_import: "b \<in> set (ims m a) \<Longrightarrow> (b, z) \<in> needs m \<Longrightarrow> (a, z) \<in> needs m"
  unfolding needs_def by (rule converse_rtrancl_into_rtrancl) auto

lemma start_imports_started:
  assumes rec: "\<And>ip e. env_ok R k r {} {} e \<Longrightarrow> procs (pe_objs e) = {} \<Longrightarrow> pe_objs e ip \<noteq> None \<Longrightarrow>
      sta (pe_objs e) ip \<noteq> INSTALLED \<Longrightarrow> r ip < r a \<Longrightarrow>
      wpe (rec ip stack) (\<lambda>x e'. snd x = stack \<and> started R k r ip e (fst x) e') (\<lambda>_. False) e"
  shows "env_ok R k r {} {} e \<Longrightarrow> procs (pe_objs e) = {} \<Longrightarrow> sta (pe_objs e) a \<noteq> INSTALLED \<Longrightarrow> set ips \<subseteq> set (ims (pe_objs e) a) \<Longrightarrow>
    wpe (start_imports rec ips stack) (\<lambda>x e'. snd x = stack \<and> imports_started R k r a ips e (fst x) e') (\<lambda>_. False) e"
proof (induction ips arbitrary: e)
  case Nil
  then show ?case by (simp add: imports_started_def)
next
  case (Cons ip ips)
  have g: "graph r {} (pe_objs e)" and l: "levels {} (pe_objs e) (pe_started_plugins e)"
    using Cons.prems(1) by (auto simp: env_ok_def)
  have ip: "ip \<in> set (ims (pe_objs e) a)" using Cons.prems(4) by simp
  have rest: "wpe (if s \<noteq> CP_OK then ret (s, stack) else start_imports rec ips stack)
      (\<lambda>x e'. snd x = stack \<and> imports_started R k r a (ip # ips) e (fst x) e') (\<lambda>_. False) e1"
    if S: "started R k r ip e s e1" for s e1
  proof -
    have ch: "sta (pe_objs e) z = RESOLVED \<and> sta (pe_objs e1) z = ACTIVE \<and> (a, z) \<in> needs (pe_objs e) \<and> r z < r a"
      if "sta (pe_objs e1) z \<noteq> sta (pe_objs e) z" for z
    proof -
      have "(ip, z) \<in> needs (pe_objs e)" using that S unfolding started_def by blast
      then have "(a, z) \<in> needs (pe_objs e)" "r z < r a"
        using needs_import [OF ip] needs_rank [OF g] graphD(2) [OF g ip] by force+
      with that S show ?thesis unfolding started_def by blast
    qed
    have k: "kept e e1" and i: "env_ok R k r {} {} e1" "procs (pe_objs e1) = {}" using S Cons.prems(2) by (auto simp: started_def)
    show ?thesis
    proof (cases "s = CP_OK")
      case False
      with ch k i Cons.prems(2) show ?thesis by (simp add: imports_started_def)
    next
      case True
      have act: "sta (pe_objs e1) ip = ACTIVE" using S True by (simp add: started_def)
      have "wpe (start_imports rec ips stack) (\<lambda>x e'. snd x = stack \<and> imports_started R k r a ips e1 (fst x) e') (\<lambda>_. False) e1"
      proof (intro Cons.IH i)
        have "sta (pe_objs e1) a = sta (pe_objs e) a" using ch [of a] by blast
        then show "sta (pe_objs e1) a \<noteq> INSTALLED" using Cons.prems(3) by simp
      qed (use Cons.prems(4) in \<open>simp add: kept_ims [OF k]\<close>)
      then have "wpe (start_imports rec ips stack) (\<lambda>x e'. snd x = stack \<and> imports_started R k r a (ip # ips) e (fst x) e') (\<lambda>_. False) e1"
      proof (rule wpe_mono)
        fix x e2
        assume x: "snd x = stack \<and> imports_started R k r a ips e1 (fst x) e2"
        have k2: "kept e e2" using k x kept_trans unfolding imports_started_def by blast
        have ch2: "sta (pe_objs e) z = RESOLVED \<and> sta (pe_objs e2) z = ACTIVE \<and> (a, z) \<in> needs (pe_objs e) \<and> r z < r a"
          if "sta (pe_objs e2) z \<noteq> sta (pe_objs e) z" for z
        proof (cases "sta (pe_objs e2) z = sta (pe_objs e1) z")
          case True
          with ch [of z] that show ?thesis by simp
        next
          case False
          then have "sta (pe_objs e1) z = RESOLVED \<and> sta (pe_objs e2) z = ACTIVE \<and> (a, z) \<in> needs (pe_objs e1) \<and> r z < r a"
            using x unfolding imports_started_def by blast
          moreover from this have "sta (pe_objs e1) z = sta (pe_objs e) z" using ch [of z] by (cases "sta (pe_objs e1) z = sta (pe_objs e) z") simp_all
          ultimately show ?thesis using kept_needs [OF k] by simp
        qed
        have "sta (pe_objs e2) ip = ACTIVE"
          using act x unfolding imports_started_def by (metis pstate.distinct(19))
        with x k2 ch2 i(2) Cons.prems(2) show "snd x = stack \<and> imports_started R k r a (ip # ips) e (fst x) e2"
          by (auto simp: imports_started_def)
      qed simp
      with True show ?thesis by simp
    qed
  qed
  have "pe_objs e ip \<noteq> None" "r ip < r a" "sta (pe_objs e) ip \<noteq> INSTALLED"
    using graphD(1,2) [OF g ip] levelsD(2) [OF l ip Cons.prems(3)] by auto
  then have "wpe (rec ip stack) (\<lambda>x e'. snd x = stack \<and> started R k r ip e (fst x) e') (\<lambda>_. False) e"
    using Cons.prems(1,2) by (intro rec)
  then have "wpe (rec ip stack) (\<lambda>x. wpe (if fst x \<noteq> CP_OK then ret (fst x, snd x) else start_imports rec ips (snd x))
      (\<lambda>x e'. snd x = stack \<and> imports_started R k r a (ip # ips) e (fst x) e') (\<lambda>_. False)) (\<lambda>_. False) e"
  proof (rule wpe_mono)
    fix x e1
    assume x: "snd x = stack \<and> started R k r ip e (fst x) e1"
    then show "wpe (if fst x \<noteq> CP_OK then ret (fst x, snd x) else start_imports rec ips (snd x))
      (\<lambda>x e'. snd x = stack \<and> imports_started R k r a (ip # ips) e (fst x) e') (\<lambda>_. False) e1"
      using rest [of "fst x" e1] by simp
  qed simp
  then show ?case by (simp add: case_prod_beta)
qed

text \<open>Starting a resolved plug-in; \<open>stack\<close> holds the plug-ins whose imports are being started.\<close>

theorem start_rec_started:
  "env_ok R k r {} {} e \<Longrightarrow> procs (pe_objs e) = {} \<Longrightarrow> pe_objs e a \<noteq> None \<Longrightarrow> sta (pe_objs e) a \<noteq> INSTALLED \<Longrightarrow>
   \<forall>x \<in> set stack. r a < r x \<Longrightarrow> r a < n \<Longrightarrow>
   wpe (start_plugin_rec n a stack) (\<lambda>x e'. snd x = stack \<and> started R k r a e (fst x) e') (\<lambda>_. False) e"
proof (induction n arbitrary: a stack e)
  case 0
  then show ?case by simp
next
  case (Suc n)
  have tabs: "tabs R k r e" and g: "graph r {} (pe_objs e)" and l: "levels {} (pe_objs e) (pe_started_plugins e)"
    using Suc.prems(1) by (auto simp: env_ok_def)
  have mem: "pe_mem e = []" using tabs by (simp add: tabs_def surroundings_def)
  obtain p where p: "pe_objs e a = Some p" using Suc.prems(3) by auto
  have a0: "a \<noteq> 0" using tabs_obj [OF tabs p] .
  have st: "cp_state p = RESOLVED \<or> cp_state p = ACTIVE"
    using Suc.prems(1,4) p by (auto simp: env_ok_def shape_def sta_def)
  show ?case
  proof (cases "cp_state p = ACTIVE")
    case True
    then have "started R k r a e CP_OK e" using Suc.prems(1) p by (auto simp: started_def sta_def)
    with True p a0 show ?thesis by (simp add: leaf)
  next
    case False
    with st have res: "cp_state p = RESOLVED" by simp
    have nin: "a \<notin> set stack" using Suc.prems(5) by auto
    have "imps (pe_objs e) a \<noteq> None" using levelsD(1) [OF l _ Suc.prems(3)] Suc.prems(4) by simp
    then obtain ips where ips: "cp_imported p = Some ips" using p by (auto simp: imps_def)
    have im: "ims (pe_objs e) a = ips" using p ips by (simp add: ims_Some)
    have "wpe (start_imports (start_plugin_rec n) ips (stack @ [a]))
      (\<lambda>x e'. snd x = stack @ [a] \<and> imports_started R k r a ips e (fst x) e') (\<lambda>_. False) e"
      using Suc.prems(5,6)
      by (intro start_imports_started Suc.IH Suc.prems) (auto simp: im)
    then have "wpe (start_imports (start_plugin_rec n) ips (stack @ [a]))
      (\<lambda>x. wpe (if fst x \<noteq> CP_OK then ret (fst x, remove1 a (snd x))
        else bnd (start_plugin_runtime a) (\<lambda>t. ret (t, remove1 a (snd x))))
      (\<lambda>x e'. snd x = stack \<and> started R k r a e (fst x) e') (\<lambda>_. False)) (\<lambda>_. False) e"
    proof (rule wpe_mono)
      fix x e1
      assume x: "snd x = stack @ [a] \<and> imports_started R k r a ips e (fst x) e1"
      then obtain s where xs: "x = (s, stack @ [a])" by (cases x) auto
      have stack: "remove1 a (stack @ [a]) = stack" using nin by (simp add: remove1_append)
      have I: "env_ok R k r {} {} e1" "kept e e1" "procs (pe_objs e1) = procs (pe_objs e)"
        using x by (auto simp: imports_started_def)
      have ch: "sta (pe_objs e) z = RESOLVED \<and> sta (pe_objs e1) z = ACTIVE \<and> (a, z) \<in> needs (pe_objs e) \<and> r z < r a"
        if "sta (pe_objs e1) z \<noteq> sta (pe_objs e) z" for z
        using x that unfolding imports_started_def by blast
      have "wpe (if s \<noteq> CP_OK then ret (s, stack)
        else bnd (start_plugin_runtime a) (\<lambda>t. ret (t, stack)))
      (\<lambda>x e'. snd x = stack \<and> started R k r a e (fst x) e') (\<lambda>_. False) e1"
      proof (cases "s = CP_OK")
        case False
        then have "started R k r a e s e1" using I ch by (simp add: started_def)
        with False show ?thesis by simp
      next
        case True
        have "pe_objs e1 a \<noteq> None" using Suc.prems(3) kept_live [OF I(2)] by simp
        then obtain q where q: "pe_objs e1 a = Some q" by auto
        have "sta (pe_objs e1) a = RESOLVED" using ch [of a] p res by (auto simp: sta_def)
        with q have rq: "cp_state q = RESOLVED" by (simp add: sta_def)
        have act: "\<forall>b \<in> set (ims (pe_objs e1) a). sta (pe_objs e1) b = ACTIVE"
          using x True xs by (simp add: imports_started_def kept_ims [OF I(2)] im)
        have "wpe (start_plugin_runtime a) (\<lambda>t e'. started R k r a e t e') (\<lambda>_. False) e1"
        proof (rule wpe_mono [OF start_runtime [OF I(1) q rq act]])
          fix t e2
          assume t: "runtime_started R k r a e1 t e2"
          have k2: "kept e e2" using I(2) t kept_trans unfolding runtime_started_def by blast
          have "sta (pe_objs e) a = RESOLVED" using p res by (simp add: sta_def)
          then show "started R k r a e t e2"
            using t k2 I(3) ch unfolding started_def runtime_started_def needs_def by auto
        qed simp
        with True show ?thesis by simp
      qed
      then show "wpe (if fst x \<noteq> CP_OK then ret (fst x, remove1 a (snd x))
          else bnd (start_plugin_runtime a) (\<lambda>t. ret (t, remove1 a (snd x))))
        (\<lambda>x e'. snd x = stack \<and> started R k r a e (fst x) e') (\<lambda>_. False) e1"
        by (simp only: xs fst_conv snd_conv stack)
    qed simp
    then show ?thesis
      using p a0 res nin mem ips by (simp add: leaf case_prod_beta)
  qed
qed

section \<open>Starting a plug-in\<close>

text \<open>Between two calls: nothing is under way and no plug-in is marked.\<close>

definition idle :: "(ident \<Rightarrow> nat) \<Rightarrow> nat \<Rightarrow> (nat \<Rightarrow> nat) \<Rightarrow> plugin_env \<Rightarrow> bool" where
  "idle R k r e \<longleftrightarrow> env_ok R k r {} {} e \<and> procs (pe_objs e) = {}"

lemma needs_levels:
  assumes l: "levels D m st" and n: "(a, z) \<in> needs m"
  shows "sta m a = ACTIVE \<Longrightarrow> sta m z = ACTIVE" "sta m a \<noteq> INSTALLED \<Longrightarrow> sta m z \<noteq> INSTALLED"
  using n unfolding needs_def
  by (induction rule: rtrancl_induct) (auto dest: levelsD(2,3) [OF l])

lemma idle_obj:
  assumes "idle R k r e" "pe_plugins e pid = Some a"
  shows "pe_objs e a \<noteq> None" "r a < k" "a \<noteq> 0"
proof -
  have t: "tabs R k r e" using assms(1) by (auto simp: idle_def env_ok_def)
  obtain p where p: "pe_objs e a = Some p" using tabs_plugin [OF t assms(2)] .
  then show "pe_objs e a \<noteq> None" by simp
  show "r a < k" "a \<noteq> 0" using tabs_obj [OF t p] by blast+
qed

definition start_spec :: "(ident \<Rightarrow> nat) \<Rightarrow> nat \<Rightarrow> (nat \<Rightarrow> nat) \<Rightarrow> nat \<Rightarrow> plugin_env \<Rightarrow> cp_status \<Rightarrow> plugin_env \<Rightarrow> bool" where
  "start_spec R k r a e s e' \<longleftrightarrow>
     idle R k r e' \<and> same e e' \<and> (\<forall>z. sta (pe_objs e) z \<le> sta (pe_objs e') z) \<and>
     (s = CP_OK \<longrightarrow> (\<forall>z. (a, z) \<in> needs (pe_objs e') \<longrightarrow> sta (pe_objs e') z = ACTIVE))"

theorem cpi_start_plugin_starts:
  assumes idle: "idle R k r e" and live: "pe_objs e a \<noteq> None" and n: "r a < n"
  shows "wpe (cpi_start_plugin n a) (start_spec R k r a e) (\<lambda>_. False) e"
proof -
  have i: "env_ok R k r {} {} e" "procs (pe_objs e) = {}" using idle by (auto simp: idle_def)
  have rest: "wpe (if s \<noteq> CP_OK then ret s
     else
       bnd malloc_p (\<lambda>b. if \<not> b then ret CP_ERR_RESOURCE
       else bnd (start_plugin_rec n a []) (\<lambda>(t, importing). sq (assert_p (importing = [])) (ret t))))
     (start_spec R k r a e) (\<lambda>_. False) e1" if R: "resolved R k r a e s e1" for s e1
  proof -
    have g: "same e e1" "pe_started_plugins e1 = pe_started_plugins e"
      "\<And>z. sta (pe_objs e) z \<noteq> INSTALLED \<Longrightarrow> sta (pe_objs e1) z = sta (pe_objs e) z"
      and i1: "env_ok R k r {} {} e1" "procs (pe_objs e1) = {}"
      using R by (auto simp: resolved_def grown_def)
    have live1: "pe_objs e1 z = None \<longleftrightarrow> pe_objs e z = None" for z using same_live [OF g(1)] .
    have up: "sta (pe_objs e) z \<le> sta (pe_objs e1) z" for z
    proof (cases "sta (pe_objs e) z = INSTALLED")
      case True
      then have "pe_objs e1 z \<noteq> None" using live1 by (cases "pe_objs e z") (auto simp: sta_def)
      note env_ok_sta [OF i1(1) this]
      with True show ?thesis by (auto simp: less_eq_pstate_def)
    qed (simp add: g(3))
    show ?thesis
    proof (cases "s = CP_OK")
      case False
      with i1 g(1) up show ?thesis by (simp add: start_spec_def idle_def)
    next
      case True
      have mem: "pe_mem e1 = []" using i1(1) by (simp add: env_ok_def tabs_def surroundings_def)
      have "wpe (start_plugin_rec n a []) (\<lambda>x. wpe (sq (assert_p (snd x = [])) (ret (fst x))) (start_spec R k r a e) (\<lambda>_. False)) (\<lambda>_. False) e1"
      proof (rule wpe_mono [OF start_rec_started [OF i1, of a "[]" n]])
        fix x e2
        assume x: "snd x = [] \<and> started R k r a e1 (fst x) e2"
        then have st: "idle R k r e2" "kept e1 e2"
          "\<And>z. sta (pe_objs e2) z \<noteq> sta (pe_objs e1) z \<Longrightarrow> sta (pe_objs e1) z = RESOLVED \<and> sta (pe_objs e2) z = ACTIVE"
          "fst x = CP_OK \<Longrightarrow> sta (pe_objs e2) a = ACTIVE"
          using i1 by (auto simp: started_def idle_def)
        have "sta (pe_objs e1) z \<le> sta (pe_objs e2) z" for z
          using st(3) [of z] by (cases "sta (pe_objs e2) z = sta (pe_objs e1) z") (auto simp: less_eq_pstate_def)
        then have "\<forall>z. sta (pe_objs e) z \<le> sta (pe_objs e2) z" using up order_trans by blast
        moreover have "levels {} (pe_objs e2) (pe_started_plugins e2)" using st(1) by (simp add: idle_def env_ok_def)
        moreover have "same e e2" using g(1) st(2) same_trans unfolding kept_def by blast
        ultimately show "wpe (sq (assert_p (snd x = [])) (ret (fst x))) (start_spec R k r a e) (\<lambda>_. False) e2"
          using st(1,4) x needs_levels(1) by (auto simp: start_spec_def)
      qed (use R True live live1 n in \<open>auto simp: resolved_def\<close>)
      with True mem show ?thesis by (simp add: leaf case_prod_beta)
    qed
  qed
  have "wpe (resolve_plugin n a) (\<lambda>s. wpe (if s \<noteq> CP_OK then ret s
     else
       bnd malloc_p (\<lambda>b. if \<not> b then ret CP_ERR_RESOURCE
       else bnd (start_plugin_rec n a []) (\<lambda>(t, importing). sq (assert_p (importing = [])) (ret t))))
     (start_spec R k r a e) (\<lambda>_. False)) (\<lambda>_. False) e"
    by (rule wpe_mono [OF resolve_plugin_resolved [OF i live n]]) (erule rest, simp)
  then show ?thesis by (simp only: cpi_start_plugin_def wpe_bnd)
qed

end
