(* ===== verification/Cpluff_Stop.thy ===== *)
theory Cpluff_Stop
  imports Cpluff_Start
begin

text \<open>
  Stopping: \<^verbatim>\<open>stop_plugin\<close> stops exactly the active plug-ins that need the plug-in, and the plug-in.
\<close>

section \<open>The runtime of one plug-in\<close>

definition runtime_stopped :: "(ident \<Rightarrow> nat) \<Rightarrow> nat \<Rightarrow> (nat \<Rightarrow> nat) \<Rightarrow> nat \<Rightarrow> plugin_env \<Rightarrow> plugin_env \<Rightarrow> bool" where
  "runtime_stopped R k r a e e' \<longleftrightarrow>
     env_ok R k r {} {} e' \<and> kept e e' \<and> procs (pe_objs e') = procs (pe_objs e) \<and>
     sta (pe_objs e') = (sta (pe_objs e))(a := RESOLVED)"

lemma stop_runtime:
  assumes i: "env_ok R k r {} {} e" and p: "pe_objs e a = Some p" "cp_state p = ACTIVE"
    and users: "\<And>x. a \<in> set (ims (pe_objs e) x) \<Longrightarrow> sta (pe_objs e) x \<noteq> ACTIVE"
  shows "wpe (stop_plugin_runtime n c a) (\<lambda>_. runtime_stopped R k r a e) (\<lambda>_. False) e"
proof -
  have tabs: "tabs R k r e" and shape: "shape p" and mem: "pe_mem e = []"
    and idlers: "\<not> (\<exists>rf \<in> set (pe_run_funcs e). rf_plugin rf = a \<and> rf_in_execution rf)"
    using i p by (auto simp: env_ok_def tabs_def surroundings_def)
  obtain ir where ir: "a \<noteq> 0" "pe_infos e (cp_info p) = Some ir" using tabs_obj [OF tabs p(1)] .
  have fin: "runtime_stopped R k r a e e'"
    if "pe_objs e' = (pe_objs e)(a \<mapsto> the (pe_objs e' a)) \<and> shape (the (pe_objs e' a)) \<and>
     cp_imported (the (pe_objs e' a)) = cp_imported p \<and> cp_importing (the (pe_objs e' a)) = cp_importing p \<and>
     cp_processed (the (pe_objs e' a)) = cp_processed p \<and> cp_info (the (pe_objs e' a)) = cp_info p \<and>
     pe_mem e' = pe_mem e \<and> pe_infos e' = pe_infos e \<and> pe_plugins e' = pe_plugins e \<and> pe_next e' = pe_next e \<and>
     pe_scan e' = pe_scan e \<and> pe_cp_version e' = pe_cp_version e \<and> pe_cp_abi e' = pe_cp_abi e \<and>
     pe_ext_points e' = pe_ext_points e \<and> pe_extensions e' = pe_extensions e \<and>
     set (pe_run_funcs e') \<subseteq> set (pe_run_funcs e)"
     "cp_state (the (pe_objs e' a)) = RESOLVED" "pe_started_plugins e' = remove1 a (pe_started_plugins e)" for e' :: plugin_env
  proof -
    have "same e e'" using same_upd [OF p(1), of "the (pe_objs e' a)" e'] that(1) by simp
    from env_ok_level [OF i p(1) _ this, of "the (pe_objs e' a)"] that p(2) users
    show ?thesis unfolding runtime_stopped_def by simp
  qed
  show ?thesis
  proof (cases "cp_context p")
    case None
    with p ir shape show ?thesis
      unfolding stop_plugin_runtime_def stop_instance_def
      by (simp add: leaf) (rule fin; simp add: shape_def)
  next
    case (Some cx)
    then have cx: "cx_resolved_symbols cx = None" "cx_symbol_providers cx = None" "cp_runtime_funcs p \<noteq> None"
      using shape by (auto simp: shape_def)
    obtain rt where rt: "cp_runtime_funcs p = Some rt" using cx(3) by auto
    have "wpe (cpi_stop_plugin_run a) Q E e = Q () (e\<lparr>
        pe_run_wait := length (filter (\<lambda>rf. rf_plugin rf \<noteq> a) (take (pe_run_wait e) (pe_run_funcs e))),
        pe_run_funcs := filter (\<lambda>rf. rf_plugin rf \<noteq> a) (pe_run_funcs e)\<rparr>)" for Q E
      using idlers by (auto simp: cpi_stop_plugin_run_def)
    with Some cx(1,2) rt p ir shape show ?thesis
      unfolding stop_plugin_runtime_def stop_instance_def get_context_def
      by (simp add: leaf table_empty_def) (intro conjI impI fin; simp add: shape_def)
  qed
qed

section \<open>The walk over the importing plug-ins\<close>

lemma next_of_mid: "distinct (d @ x # t) \<Longrightarrow> next_of x (d @ x # t) e = Inr (head_of t, e)"
  by (induction d) (auto simp: run head_of_def split: list.split)

lemma wpe_walk:
  assumes xs: "distinct xs" "0 \<notin> set xs" and get: "\<And>d e. I d e \<Longrightarrow> get e = Inr (xs, e)"
    and body: "\<And>d x t e. xs = d @ x # t \<Longrightarrow> I d e \<Longrightarrow> wpe (body x) (\<lambda>_. I (d @ [x])) F e"
  shows "xs = d @ t \<Longrightarrow> I d e \<Longrightarrow> length t < n \<Longrightarrow> wpe (walk n get body (head_of t)) (\<lambda>_. I xs) F e"
proof (induction n arbitrary: d t e)
  case 0
  then show ?case by simp
next
  case (Suc n)
  show ?case
  proof (cases t)
    case Nil
    with Suc.prems show ?thesis by (simp add: head_of_def)
  next
    case (Cons x u)
    have x: "head_of t = x" "x \<noteq> 0" using Cons Suc.prems(1) xs(2) by (auto simp: head_of_def)
    have "wpe (body x) (\<lambda>_. wpe (bnd get (\<lambda>xs. bnd (next_of x xs) (walk n get body))) (\<lambda>_. I xs) F) F e"
    proof (rule wpe_mono [OF body [of d x u]])
      fix y e1 assume e1: "I (d @ [x]) e1"
      then have "wpe (walk n get body (head_of u)) (\<lambda>_. I xs) F e1"
        using Suc.prems Cons by (intro Suc.IH [of "d @ [x]"]) auto
      then show "wpe (bnd get (\<lambda>xs. bnd (next_of x xs) (walk n get body))) (\<lambda>_. I xs) F e1"
        using get [OF e1] next_of_mid [of d x u e1] xs(1) Suc.prems(1) Cons by (simp add: wpe_def run)
    qed (use Suc.prems Cons in auto)
    with x show ?thesis by simp
  qed
qed

section \<open>The recursion\<close>

definition stopped :: "(ident \<Rightarrow> nat) \<Rightarrow> nat \<Rightarrow> (nat \<Rightarrow> nat) \<Rightarrow> nat \<Rightarrow> plugin_env \<Rightarrow> plugin_env \<Rightarrow> bool" where
  "stopped R k r a e e' \<longleftrightarrow>
     env_ok R k r {} {} e' \<and> kept e e' \<and> procs (pe_objs e') = procs (pe_objs e) \<and>
     (\<forall>z. sta (pe_objs e') z \<noteq> sta (pe_objs e) z \<longrightarrow>
        sta (pe_objs e) z = ACTIVE \<and> sta (pe_objs e') z = RESOLVED \<and> (z, a) \<in> needs (pe_objs e)) \<and>
     sta (pe_objs e') a \<noteq> ACTIVE"

lemma stopped_other: "stopped R k r a e e' \<Longrightarrow> (z, a) \<notin> needs (pe_objs e) \<Longrightarrow> sta (pe_objs e') z = sta (pe_objs e) z"
  unfolding stopped_def by blast

lemma env_ok_proc:
  fixes b :: bool
  assumes i: "env_ok R k r G D e" and p: "pe_objs e a = Some p"
  defines "e' \<equiv> e\<lparr>pe_objs := (pe_objs e)(a \<mapsto> p\<lparr>cp_processed := b\<rparr>)\<rparr>"
  shows "env_ok R k r G D e'" "kept e e'" "sta (pe_objs e') = sta (pe_objs e)"
    "procs (pe_objs e') = (if b then insert a (procs (pe_objs e)) else procs (pe_objs e) - {a})"
proof -
  have v: "ims (pe_objs e') = ims (pe_objs e)" "users (pe_objs e') = users (pe_objs e)" "imps (pe_objs e') = imps (pe_objs e)"
    using p by (auto simp: e'_def fun_eq_iff ims_def imps_def users_def)
  show s: "sta (pe_objs e') = sta (pe_objs e)" using p by (auto simp: e'_def fun_eq_iff sta_def)
  have sm: "same e e'" using p by (simp add: same_def e'_def)
  then show "kept e e'" by (simp add: kept_def v)
  show "env_ok R k r G D e'"
  proof (rule env_ok_objs [OF i sm])
    show "shape q" if "pe_objs e' z = Some q" for z q
      using that env_ok_shape [OF i] p by (auto simp: e'_def split: if_splits)
    show "graph r G (pe_objs e')" using i unfolding env_ok_def graph_def v same_live [OF sm] by blast
    show "levels D (pe_objs e') (pe_started_plugins e')"
      using i unfolding env_ok_def levels_def v s same_live [OF sm] by (simp add: e'_def)
  qed
  show "procs (pe_objs e') = (if b then insert a (procs (pe_objs e)) else procs (pe_objs e) - {a})"
    by (simp add: e'_def procs_upd)
qed

lemma stopped_trans:
  assumes S: "stopped R k r x e1 e2" and k: "kept e e1"
    and ch: "\<And>z. sta (pe_objs e1) z \<noteq> sta (pe_objs e) z \<Longrightarrow>
      sta (pe_objs e) z = ACTIVE \<and> sta (pe_objs e1) z = RESOLVED \<and> (z, a) \<in> needs (pe_objs e)"
    and x: "(x, a) \<in> needs (pe_objs e)" and z: "sta (pe_objs e2) z \<noteq> sta (pe_objs e) z"
  shows "sta (pe_objs e) z = ACTIVE \<and> sta (pe_objs e2) z = RESOLVED \<and> (z, a) \<in> needs (pe_objs e)"
proof (cases "sta (pe_objs e2) z = sta (pe_objs e1) z")
  case True
  with ch [of z] z show ?thesis by simp
next
  case False
  then have "sta (pe_objs e1) z = ACTIVE \<and> sta (pe_objs e2) z = RESOLVED \<and> (z, x) \<in> needs (pe_objs e1)"
    using S unfolding stopped_def by blast
  moreover from this have "sta (pe_objs e1) z = sta (pe_objs e) z"
    using ch [of z] by (cases "sta (pe_objs e1) z = sta (pe_objs e) z") simp_all
  moreover have "(z, a) \<in> needs (pe_objs e)" if "(z, x) \<in> needs (pe_objs e)"
    using that x unfolding needs_def by (rule rtrancl_trans)
  ultimately show ?thesis using kept_needs [OF k] by simp
qed

theorem stop_rec_stopped:
  "env_ok R k r {} {} e \<Longrightarrow> pe_objs e a \<noteq> None \<Longrightarrow> \<forall>z \<in> procs (pe_objs e). r z < r a \<Longrightarrow> k - r a \<le> n \<Longrightarrow>
   wpe (stop_plugin_rec n c a) (\<lambda>_. stopped R k r a e) (\<lambda>_. False) e"
proof (induction n arbitrary: a e)
  case 0
  obtain p where "pe_objs e a = Some p" using 0(2) by auto
  then have "r a < k" using 0(1) by (auto simp: env_ok_def elim: tabs_obj)
  with 0(4) show ?case by simp
next
  case (Suc n)
  have tabs: "tabs R k r e" using Suc.prems(1) by (simp add: env_ok_def)
  obtain p where p: "pe_objs e a = Some p" using Suc.prems(2) by auto
  have a0: "a \<noteq> 0" "r a < k" using tabs_obj [OF tabs p] by blast+
  show ?case
  proof (cases "cp_state p = ACTIVE")
    case False
    then have "cp_state p < ACTIVE" using env_ok_shape [OF Suc.prems(1) p] by (auto simp: shape_def less_pstate_def)
    moreover have "stopped R k r a e e" using Suc.prems(1) False p by (simp add: stopped_def sta_def)
    ultimately show ?thesis using p a0 by (simp add: leaf)
  next
    case True
    have np: "\<not> cp_processed p" using Suc.prems(3) p by (auto simp: procs_def)
    define p0 where "p0 = p\<lparr>cp_processed := True\<rparr>"
    define e0 where "e0 = e\<lparr>pe_objs := (pe_objs e)(a \<mapsto> p0)\<rparr>"
    note E0 = env_ok_proc [OF Suc.prems(1) p, of True, folded p0_def, folded e0_def]
    have g0: "graph r {} (pe_objs e0)" using E0(1) by (simp add: env_ok_def)
    have p0: "pe_objs e0 a = Some p0" "cp_importing p0 = cp_importing p" by (simp_all add: e0_def p0_def)
    have us: "users (pe_objs e0) a = cp_importing p" using p0 by (simp add: users_def)
    define I where "I d e1 \<longleftrightarrow> env_ok R k r {} {} e1 \<and> kept e0 e1 \<and> procs (pe_objs e1) = insert a (procs (pe_objs e)) \<and>
      (\<forall>z. sta (pe_objs e1) z \<noteq> sta (pe_objs e) z \<longrightarrow>
        sta (pe_objs e) z = ACTIVE \<and> sta (pe_objs e1) z = RESOLVED \<and> (z, a) \<in> needs (pe_objs e)) \<and>
      sta (pe_objs e1) a = ACTIVE \<and> (\<forall>x \<in> set d. sta (pe_objs e1) x \<noteq> ACTIVE)" for d e1
    have I0: "I [] e0" using E0 True p by (simp add: I_def views_Some)
    have get: "importing_list a e1 = Inr (cp_importing p, e1)" if "I d e1" for d e1
    proof -
      have k: "kept e0 e1" using that by (simp add: I_def)
      obtain q where q: "pe_objs e1 a = Some q" using kept_live [OF k, of a] p0(1) by (cases "pe_objs e1 a") auto
      have "users (pe_objs e1) a = cp_importing p" using k us by (simp add: kept_def)
      then show ?thesis using q a0 by (simp add: importing_list_def the_plugin_def run users_def)
    qed
    have body: "wpe (stop_plugin_rec n c x) (\<lambda>_. I (d @ [x])) (\<lambda>_. False) e1"
      if d: "cp_importing p = d @ x # t" and J: "I d e1" for d x t e1
    proof -
      have J': "env_ok R k r {} {} e1" "kept e0 e1" "procs (pe_objs e1) = insert a (procs (pe_objs e))" "sta (pe_objs e1) a = ACTIVE"
        using J by (auto simp: I_def)
      have k: "kept e e1" using kept_trans [OF E0(2) J'(2)] .
      have imp: "a \<in> set (ims (pe_objs e) x)"
        using graphD(3) [OF g0, of x a] us d kept_ims [OF E0(2)] by simp
      have g: "graph r {} (pe_objs e)" using Suc.prems(1) by (simp add: env_ok_def)
      have rx: "r a < r x" using graphD(2) [OF g imp] .
      have xa: "(x, a) \<in> needs (pe_objs e)" using imp unfolding needs_def by auto
      have "pe_objs e x \<noteq> None" using imp by (auto simp: ims_def imps_def split: option.splits)
      then have live: "pe_objs e1 x \<noteq> None" using kept_live [OF k] by simp
      have "k - r x \<le> n" using rx Suc.prems(4) a0(2) by linarith
      then have after: "wpe (stop_plugin_rec n c x) (\<lambda>_. stopped R k r x e1) (\<lambda>_. False) e1"
        using rx Suc.prems(3) J'(3) by (intro Suc.IH J'(1) live) auto
      have ch1: "sta (pe_objs e) z = ACTIVE \<and> sta (pe_objs e1) z = RESOLVED \<and> (z, a) \<in> needs (pe_objs e)"
        if "sta (pe_objs e1) z \<noteq> sta (pe_objs e) z" for z
        using J that unfolding I_def by blast
      from after show ?thesis
      proof (rule wpe_mono)
        fix u e2 assume S: "stopped R k r x e1 e2"
        have g1: "graph r {} (pe_objs e1)" using J'(1) by (simp add: env_ok_def)
        have "(a, x) \<notin> needs (pe_objs e1)" using needs_rank [OF g1] rx by fastforce
        with stopped_other [OF S] J'(4) have "sta (pe_objs e2) a = ACTIVE" by simp
        moreover have "sta (pe_objs e2) y \<noteq> ACTIVE" if "y \<in> set (d @ [x])" for y
        proof (cases "y = x")
          case True
          with S show ?thesis by (simp add: stopped_def)
        next
          case False
          then have "sta (pe_objs e1) y \<noteq> ACTIVE" using that J by (simp add: I_def)
          then show ?thesis using S by (cases "sta (pe_objs e2) y = sta (pe_objs e1) y") (auto simp: stopped_def)
        qed
        moreover have "\<forall>z. sta (pe_objs e2) z \<noteq> sta (pe_objs e) z \<longrightarrow>
            sta (pe_objs e) z = ACTIVE \<and> sta (pe_objs e2) z = RESOLVED \<and> (z, a) \<in> needs (pe_objs e)"
        proof (intro allI impI)
          fix z assume "sta (pe_objs e2) z \<noteq> sta (pe_objs e) z"
          from stopped_trans [OF S k ch1 xa this]
          show "sta (pe_objs e) z = ACTIVE \<and> sta (pe_objs e2) z = RESOLVED \<and> (z, a) \<in> needs (pe_objs e)" .
        qed
        ultimately show "I (d @ [x]) e2"
          using S J'(3) kept_trans [OF J'(2), of e2] unfolding I_def stopped_def by simp
      qed simp
    qed
    have "wpe (walk (Suc (length (cp_importing p))) (importing_list a) (stop_plugin_rec n c) (head_of (cp_importing p)))
      (\<lambda>_. I (cp_importing p)) (\<lambda>_. False) e0"
    proof (rule wpe_walk [where I = I and d = "[]"])
      show "distinct (cp_importing p)" using graphD(5) [OF g0, of a] us by simp
      show "0 \<notin> set (cp_importing p)"
      proof
        assume "0 \<in> set (cp_importing p)"
        then have "a \<in> set (ims (pe_objs e) 0)" using graphD(3) [OF g0, of 0 a] us kept_ims [OF E0(2)] by simp
        then have "pe_objs e 0 \<noteq> None" by (auto simp: ims_def imps_def split: option.splits)
        then obtain q where "pe_objs e 0 = Some q" by auto
        then show False using tabs_obj [OF tabs] by blast
      qed
      show "importing_list a e1 = Inr (cp_importing p, e1)" if "I d e1" for d e1 using get [OF that] .
      show "wpe (stop_plugin_rec n c x) (\<lambda>_. I (d @ [x])) (\<lambda>_. False) e1"
        if "cp_importing p = d @ x # t" "I d e1" for d x t e1 using body [OF that] .
      show "I [] e0" by (rule I0)
    qed simp_all
    then have "wpe (walk (Suc (length (cp_importing p))) (importing_list a) (stop_plugin_rec n c) (head_of (cp_importing p)))
      (\<lambda>_. wpe (bnd (the_plugin a) (\<lambda>q. sq (assert_p (cp_state q = ACTIVE))
              (sq (stop_plugin_runtime n c a)
                (bnd (the_plugin a) (\<lambda>r. sq (assert_p (cp_state r < ACTIVE))
                  (set_plugin a (\<lambda>q. q\<lparr>cp_processed := False\<rparr>)))))))
        (\<lambda>_. stopped R k r a e) (\<lambda>_. False)) (\<lambda>_. False) e0"
    proof (rule wpe_mono)
      fix u e1 assume J: "I (cp_importing p) e1"
      then have J': "env_ok R k r {} {} e1" "kept e0 e1" "procs (pe_objs e1) = insert a (procs (pe_objs e))" "sta (pe_objs e1) a = ACTIVE"
        by (auto simp: I_def)
      have k: "kept e e1" using kept_trans [OF E0(2) J'(2)] .
      obtain q where q: "pe_objs e1 a = Some q" using kept_live [OF k, of a] p by (cases "pe_objs e1 a") auto
      have sq: "cp_state q = ACTIVE" using J'(4) q by (simp add: sta_def)
      have no: "sta (pe_objs e1) x \<noteq> ACTIVE" if "a \<in> set (ims (pe_objs e1) x)" for x
      proof -
        have "x \<in> set (cp_importing p)" using graphD(4) [OF g0, of a x] that kept_ims [OF J'(2)] us by simp
        then show ?thesis using J by (simp add: I_def)
      qed
      have "wpe (stop_plugin_runtime n c a) (\<lambda>_. wpe (bnd (the_plugin a) (\<lambda>r. sq (assert_p (cp_state r < ACTIVE))
                  (set_plugin a (\<lambda>q. q\<lparr>cp_processed := False\<rparr>)))) (\<lambda>_. stopped R k r a e) (\<lambda>_. False)) (\<lambda>_. False) e1"
      proof (rule wpe_mono [OF stop_runtime [OF J'(1) q sq no]])
        fix v e2 assume S: "runtime_stopped R k r a e1 e2"
        then have S': "env_ok R k r {} {} e2" "kept e1 e2" "procs (pe_objs e2) = insert a (procs (pe_objs e))"
          "sta (pe_objs e2) = (sta (pe_objs e1))(a := RESOLVED)"
          using J'(3) by (auto simp: runtime_stopped_def)
        have k2: "kept e e2" using kept_trans [OF k S'(2)] .
        obtain q2 where q2: "pe_objs e2 a = Some q2" using kept_live [OF k2, of a] p by (cases "pe_objs e2 a") auto
        have "sta (pe_objs e2) a = RESOLVED" using S'(4) by simp
        then have st: "cp_state q2 < ACTIVE" using q2 by (simp add: sta_def less_pstate_def)
        have ap: "a \<notin> procs (pe_objs e)" using np p by (auto simp: procs_def)
        have aa: "(a, a) \<in> needs (pe_objs e)" by (simp add: needs_def)
        have sa: "sta (pe_objs e) a = ACTIVE" using p True by (simp add: sta_def)
        have ch1: "sta (pe_objs e) z = ACTIVE \<and> sta (pe_objs e1) z = RESOLVED \<and> (z, a) \<in> needs (pe_objs e)"
          if "sta (pe_objs e1) z \<noteq> sta (pe_objs e) z" for z
          using J that unfolding I_def by blast
        define e3 where "e3 = e2\<lparr>pe_objs := (pe_objs e2)(a \<mapsto> q2\<lparr>cp_processed := False\<rparr>)\<rparr>"
        note E3 = env_ok_proc [OF S'(1) q2, of False, folded e3_def]
        have "sta (pe_objs e) z = ACTIVE \<and> sta (pe_objs e3) z = RESOLVED \<and> (z, a) \<in> needs (pe_objs e)"
          if "sta (pe_objs e3) z \<noteq> sta (pe_objs e) z" for z
          using that ch1 [of z] aa sa by (cases "z = a") (simp_all add: E3(3) S'(4))
        then have "stopped R k r a e e3"
          using E3(1) kept_trans [OF k2 E3(2)] ap by (simp add: stopped_def E3(3,4) S'(3,4))
        then show "wpe (bnd (the_plugin a) (\<lambda>r. sq (assert_p (cp_state r < ACTIVE))
                  (set_plugin a (\<lambda>q. q\<lparr>cp_processed := False\<rparr>)))) (\<lambda>_. stopped R k r a e) (\<lambda>_. False) e2"
          using q2 a0 st by (simp add: leaf e3_def)
      qed simp
      then show "wpe (bnd (the_plugin a) (\<lambda>q. sq (assert_p (cp_state q = ACTIVE))
              (sq (stop_plugin_runtime n c a)
                (bnd (the_plugin a) (\<lambda>r. sq (assert_p (cp_state r < ACTIVE))
                  (set_plugin a (\<lambda>q. q\<lparr>cp_processed := False\<rparr>)))))))
        (\<lambda>_. stopped R k r a e) (\<lambda>_. False) e1"
        using q a0 sq by (simp add: leaf)
    qed simp
    then show ?thesis
      using p a0 np True p0 us by (simp add: leaf e0_def p0_def less_pstate_def del: walk.simps)
  qed
qed

section \<open>Stopping plug-ins\<close>

text \<open>Stopping a plug-in takes it and every active plug-in that needs it down to \<open>RESOLVED\<close>, and no other.\<close>

definition stop_spec :: "(ident \<Rightarrow> nat) \<Rightarrow> nat \<Rightarrow> (nat \<Rightarrow> nat) \<Rightarrow> nat \<Rightarrow> plugin_env \<Rightarrow> plugin_env \<Rightarrow> bool" where
  "stop_spec R k r a e e' \<longleftrightarrow>
     idle R k r e' \<and> kept e e' \<and>
     sta (pe_objs e') = (\<lambda>z. if sta (pe_objs e) z = ACTIVE \<and> (z, a) \<in> needs (pe_objs e) then RESOLVED else sta (pe_objs e) z)"

theorem stop_plugin_stops:
  assumes idle: "idle R k r e" and live: "pe_objs e a \<noteq> None" and n: "k \<le> n"
  shows "wpe (stop_plugin n c a) (\<lambda>_. stop_spec R k r a e) (\<lambda>_. False) e"
proof -
  have i: "env_ok R k r {} {} e" "procs (pe_objs e) = {}" using idle by (auto simp: idle_def)
  obtain p where p: "pe_objs e a = Some p" using live by auto
  have "wpe (stop_plugin_rec n c a) (\<lambda>_. stopped R k r a e) (\<lambda>_. False) e"
    using i n by (intro stop_rec_stopped live) auto
  then have "wpe (stop_plugin_rec n c a) (\<lambda>_. wpe assert_processed_zero (\<lambda>_. stop_spec R k r a e) (\<lambda>_. False)) (\<lambda>_. False) e"
  proof (rule wpe_mono)
    fix u e1 assume S: "stopped R k r a e e1"
    then have S': "env_ok R k r {} {} e1" "kept e e1" "procs (pe_objs e1) = {}" "sta (pe_objs e1) a \<noteq> ACTIVE"
      and ch: "\<And>z. sta (pe_objs e1) z \<noteq> sta (pe_objs e) z \<Longrightarrow>
        sta (pe_objs e) z = ACTIVE \<and> sta (pe_objs e1) z = RESOLVED \<and> (z, a) \<in> needs (pe_objs e)"
      using i(2) by (auto simp: stopped_def)
    have l: "levels {} (pe_objs e1) (pe_started_plugins e1)" and t: "tabs R k r e1" using S'(1) by (auto simp: env_ok_def)
    have "sta (pe_objs e1) z = (if sta (pe_objs e) z = ACTIVE \<and> (z, a) \<in> needs (pe_objs e) then RESOLVED else sta (pe_objs e) z)" for z
      using ch [of z] needs_levels(1) [OF l, of z a] S'(4) kept_needs [OF S'(2)]
      by (cases "sta (pe_objs e1) z = sta (pe_objs e) z") auto
    then have "stop_spec R k r a e e1" using S' by (auto simp: stop_spec_def idle_def)
    then show "wpe assert_processed_zero (\<lambda>_. stop_spec R k r a e) (\<lambda>_. False) e1"
      using wpe_assert_processed_zero [OF t S'(3)] by simp
  qed simp
  then show ?thesis by (simp add: stop_plugin_def)
qed

definition all_stopped :: "(ident \<Rightarrow> nat) \<Rightarrow> nat \<Rightarrow> (nat \<Rightarrow> nat) \<Rightarrow> plugin_env \<Rightarrow> plugin_env \<Rightarrow> bool" where
  "all_stopped R k r e e' \<longleftrightarrow>
     idle R k r e' \<and> kept e e' \<and>
     sta (pe_objs e') = (\<lambda>z. if sta (pe_objs e) z = ACTIVE then RESOLVED else sta (pe_objs e) z)"

lemma stop_all_stops:
  assumes n: "k \<le> n"
  shows "idle R k r e \<Longrightarrow> length (pe_started_plugins e) < m \<Longrightarrow>
    wpe (stop_all m n c) (\<lambda>_. all_stopped R k r e) (\<lambda>_. False) e"
proof (induction m arbitrary: e)
  case 0
  then show ?case by simp
next
  case (Suc m)
  let ?st = "pe_started_plugins e"
  have l: "levels {} (pe_objs e) ?st" using Suc.prems(1) by (auto simp: idle_def env_ok_def)
  show ?case
  proof (cases "?st = []")
    case True
    then have "sta (pe_objs e) z \<noteq> ACTIVE" for z using levelsD(5) [OF l, of z] by simp
    then have "all_stopped R k r e e" using Suc.prems(1) by (auto simp: all_stopped_def)
    with True show ?thesis by simp
  next
    case False
    have act: "sta (pe_objs e) (last ?st) = ACTIVE" using levelsD(5) [OF l, of "last ?st"] False by simp
    then have live: "pe_objs e (last ?st) \<noteq> None" by (auto simp: sta_def split: option.splits)
    have "wpe (stop_plugin n c (last ?st)) (\<lambda>_. wpe (stop_all m n c) (\<lambda>_. all_stopped R k r e) (\<lambda>_. False)) (\<lambda>_. False) e"
    proof (rule wpe_mono [OF stop_plugin_stops [OF Suc.prems(1) live n]])
      fix u e1 assume S: "stop_spec R k r (last ?st) e e1"
      then have S': "idle R k r e1" "kept e e1"
        "sta (pe_objs e1) = (\<lambda>z. if sta (pe_objs e) z = ACTIVE \<and> (z, last ?st) \<in> needs (pe_objs e) then RESOLVED else sta (pe_objs e) z)"
        by (auto simp: stop_spec_def)
      have l1: "levels {} (pe_objs e1) (pe_started_plugins e1)" using S'(1) by (auto simp: idle_def env_ok_def)
      have "(last ?st, last ?st) \<in> needs (pe_objs e)" by (simp add: needs_def)
      then have "set (pe_started_plugins e1) \<subset> set ?st"
        using levelsD(5) [OF l] levelsD(5) [OF l1] act S'(3) by (intro psubsetI subsetI) (auto split: if_splits)
      then have "length (pe_started_plugins e1) < length ?st"
        using levelsD(4) [OF l] levelsD(4) [OF l1] by (metis List.finite_set distinct_card psubset_card_mono)
      then have "wpe (stop_all m n c) (\<lambda>_. all_stopped R k r e1) (\<lambda>_. False) e1"
        using Suc.prems(2) by (intro Suc.IH S'(1)) simp
      then show "wpe (stop_all m n c) (\<lambda>_. all_stopped R k r e) (\<lambda>_. False) e1"
      proof (rule wpe_mono)
        fix v e2 assume "all_stopped R k r e1 e2"
        then show "all_stopped R k r e e2"
          using S' kept_trans [OF S'(2)] by (auto simp: all_stopped_def fun_eq_iff)
      qed simp
    qed simp
    with False show ?thesis by simp
  qed
qed

end
