(* ===== verification/Cpluff_Uninstall.thy ===== *)
theory Cpluff_Uninstall
  imports Cpluff_Stop
begin

text \<open>
  Unresolving takes a stopped plug-in and all plug-ins that need it back to \<open>INSTALLED\<close>; uninstalling
  removes the plug-in after that.
\<close>

section \<open>What unresolving changes\<close>

definition undone :: "(nat \<Rightarrow> bool) \<Rightarrow> nat \<Rightarrow> plugin_env \<Rightarrow> plugin_env \<Rightarrow> bool" where
  "undone F a e e' \<longleftrightarrow>
     same e e' \<and> pe_started_plugins e' = pe_started_plugins e \<and>
     (\<forall>z p. pe_objs e z = Some p \<and> F z \<longrightarrow>
        (\<exists>l. pe_objs e' z = Some (p\<lparr>cp_importing := l\<rparr>) \<and> set l \<subseteq> set (cp_importing p))) \<and>
     (\<forall>z. set (ims (pe_objs e') z) \<subseteq> set (ims (pe_objs e) z)) \<and>
     (\<forall>z. z = a \<or> ims (pe_objs e') z = ims (pe_objs e) z \<or> sta (pe_objs e') z = INSTALLED) \<and>
     (\<forall>z. sta (pe_objs e') z \<noteq> sta (pe_objs e) z \<longrightarrow>
        sta (pe_objs e) z = RESOLVED \<and> sta (pe_objs e') z = INSTALLED \<and> (z, a) \<in> needs (pe_objs e))"

lemma undoneD:
  assumes "undone F a e e'"
  shows "same e e'" "pe_started_plugins e' = pe_started_plugins e" "set (ims (pe_objs e') z) \<subseteq> set (ims (pe_objs e) z)"
    "z \<noteq> a \<Longrightarrow> sta (pe_objs e') z \<noteq> INSTALLED \<Longrightarrow> ims (pe_objs e') z = ims (pe_objs e) z"
    "sta (pe_objs e') z = sta (pe_objs e) z \<or> sta (pe_objs e) z = RESOLVED \<and> sta (pe_objs e') z = INSTALLED \<and> (z, a) \<in> needs (pe_objs e)"
  using assms unfolding undone_def by blast+

lemma undone_obj:
  assumes "undone F a e e'" "pe_objs e z = Some p" "F z"
  obtains l where "pe_objs e' z = Some (p\<lparr>cp_importing := l\<rparr>)" "set l \<subseteq> set (cp_importing p)"
  using assms unfolding undone_def by blast

lemma needs_mono: "(\<And>z. set (ims m' z) \<subseteq> set (ims m z)) \<Longrightarrow> needs m' \<subseteq> needs m"
  unfolding needs_def by (rule rtrancl_mono) blast

lemma undone_refl [simp]: "undone F a e e"
proof -
  have "p = p\<lparr>cp_importing := cp_importing p\<rparr>" for p by simp
  then show ?thesis unfolding undone_def by (metis same_refl subset_refl)
qed

lemma undone_trans:
  assumes E: "undone F a e f" and G: "undone F' b f g" and W: "\<And>z. W z \<Longrightarrow> F z \<and> F' z"
    and b: "b \<noteq> a \<Longrightarrow> (b, a) \<in> needs (pe_objs f) \<and> sta (pe_objs g) b = INSTALLED"
  shows "undone W a e g"
proof -
  have nf: "needs (pe_objs f) \<subseteq> needs (pe_objs e)" using undoneD(3) [OF E] by (rule needs_mono)
  have "\<exists>l. pe_objs g z = Some (p\<lparr>cp_importing := l\<rparr>) \<and> set l \<subseteq> set (cp_importing p)" if z: "pe_objs e z = Some p" "W z" for z p
  proof -
    obtain l where l: "pe_objs f z = Some (p\<lparr>cp_importing := l\<rparr>)" "set l \<subseteq> set (cp_importing p)"
      using undone_obj [OF E z(1)] W z(2) by blast
    obtain l' where "pe_objs g z = Some (p\<lparr>cp_importing := l, cp_importing := l'\<rparr>)" "set l' \<subseteq> set l"
      using undone_obj [OF G l(1)] W z(2) by force
    with l(2) show ?thesis by auto
  qed
  moreover have "z = a \<or> ims (pe_objs g) z = ims (pe_objs e) z \<or> sta (pe_objs g) z = INSTALLED" for z
    using undoneD(4) [OF E, of z] undoneD(4) [OF G, of z] undoneD(5) [OF G, of z] b by (cases "z = b") metis+
  moreover have "sta (pe_objs e) z = RESOLVED \<and> sta (pe_objs g) z = INSTALLED \<and> (z, a) \<in> needs (pe_objs e)"
    if "sta (pe_objs g) z \<noteq> sta (pe_objs e) z" for z
  proof (cases "sta (pe_objs g) z = sta (pe_objs f) z")
    case True
    with undoneD(5) [OF E, of z] that show ?thesis by auto
  next
    case False
    then have g: "sta (pe_objs f) z = RESOLVED" "sta (pe_objs g) z = INSTALLED" "(z, b) \<in> needs (pe_objs f)"
      using undoneD(5) [OF G, of z] by auto
    have "(z, a) \<in> needs (pe_objs f)"
    proof (cases "b = a")
      case False
      with g(3) b show ?thesis unfolding needs_def by (auto intro: rtrancl_trans)
    qed (use g(3) in simp)
    with nf g(1,2) undoneD(5) [OF E, of z] show ?thesis by auto
  qed
  moreover have "set (ims (pe_objs g) z) \<subseteq> set (ims (pe_objs e) z)" for z
    using undoneD(3) [OF E] undoneD(3) [OF G] by blast
  ultimately show ?thesis
    using same_trans [OF undoneD(1) [OF E] undoneD(1) [OF G]] undoneD(2) [OF E] undoneD(2) [OF G]
    unfolding undone_def by simp
qed

lemma levels_weaken:
  assumes l: "levels D m st" and D: "D \<subseteq> D'"
  shows "levels D' m st"
proof (rule levelsI)
  fix a show "imps m a = None \<longleftrightarrow> sta m a = INSTALLED" if "a \<notin> D'" "m a \<noteq> None"
    using levelsD(1) [OF l, of a] that D by blast
qed (use levelsD(2-5) [OF l] in blast)+

lemma graph_weaken:
  assumes g: "graph r G m" and G: "G \<subseteq> G'"
  shows "graph r G' m"
proof (rule graphI)
  fix a b show "a \<in> set (users m b)" if "a \<notin> G'" "b \<in> set (ims m a)"
    using graphD(4) [OF g that(2)] that(1) G by blast
qed (use graphD(1-3,5) [OF g] in blast)+

lemma env_ok_weaken: "env_ok R k r G D e \<Longrightarrow> G \<subseteq> G' \<Longrightarrow> D \<subseteq> D' \<Longrightarrow> env_ok R k r G' D' e"
  using levels_weaken graph_weaken unfolding env_ok_def by blast

text \<open>Nobody imports a plug-in that is only installed.\<close>

lemma installed_unused:
  assumes i: "env_ok R k r {} D e" and a: "sta (pe_objs e) a = INSTALLED" and D: "\<forall>d \<in> D. r d < r a"
  shows "users (pe_objs e) a = []" "a \<notin> set (ims (pe_objs e) x)"
proof -
  have g: "graph r {} (pe_objs e)" and l: "levels D (pe_objs e) (pe_started_plugins e)" using i by (auto simp: env_ok_def)
  show no: "a \<notin> set (ims (pe_objs e) x)" for x
  proof
    assume x: "a \<in> set (ims (pe_objs e) x)"
    then have "sta (pe_objs e) x = INSTALLED" using levelsD(2) [OF l x] a by blast
    moreover have "r a < r x" using graphD(2) [OF g x] .
    then have "x \<notin> D" using D by fastforce
    moreover have "pe_objs e x \<noteq> None" using x by (auto simp: ims_def imps_def split: option.splits)
    ultimately have "imps (pe_objs e) x = None" using levelsD(1) [OF l] by blast
    with x show False by (simp add: ims_def)
  qed
  have "x \<notin> set (users (pe_objs e) a)" for x using graphD(3) [OF g, of x a] no by blast
  then show "users (pe_objs e) a = []" by (cases "users (pe_objs e) a") auto
qed

section \<open>The imports of a plug-in\<close>

text \<open>Taking the imports of a resolved plug-in away.\<close>

definition bare :: "cp_plugin \<Rightarrow> nat list \<Rightarrow> cp_plugin" where
  "bare p l = p\<lparr>cp_imported := None, cp_importing := l\<rparr>"

lemma drain_resolved:
  assumes i: "env_ok R k r {} D e" "procs (pe_objs e) = {}" and p: "pe_objs e a = Some p" "cp_imported p = Some ys"
  defines "Q' \<equiv> \<lambda>e2. env_ok R k r {} (insert a D) e2 \<and> procs (pe_objs e2) = {} \<and> undone (\<lambda>z. z \<noteq> a) a e e2 \<and>
      (\<exists>l. pe_objs e2 a = Some (bare p l) \<and> set l \<subseteq> set (cp_importing p))"
  shows "wpe (sq (drain_imported (Suc (length ys)) (\<lambda>_. ret ()) a) (set_plugin a (\<lambda>q. q\<lparr>cp_imported := None\<rparr>)))
    (\<lambda>_. Q') (\<lambda>_. False) e"
proof -
  have a0: "a \<noteq> 0" using i(1) p(1) by (auto simp: env_ok_def elim: tabs_obj)
  have pre: "fail_pre R k r {a} (insert a D) {} e"
    using env_ok_weaken [OF i(1), of "{a}" "insert a D"] i(2) by (auto simp: fail_pre_def)
  have "wpe (drain_imported (Suc (length ys)) (\<lambda>_. ret ()) a) (\<lambda>_. drained R k r {a} (insert a D) {} a p ys e) (\<lambda>_. False) e"
    by (rule drain_imported_cleaned [where r = r and M = "{}"]) (use pre p in \<open>auto simp: cleaned_def fail_pre_def\<close>)
  then have "wpe (drain_imported (Suc (length ys)) (\<lambda>_. ret ()) a)
    (\<lambda>_. wpe (set_plugin a (\<lambda>q. q\<lparr>cp_imported := None\<rparr>)) (\<lambda>_. Q') (\<lambda>_. False)) (\<lambda>_. False) e"
  proof (rule wpe_mono)
    fix u e1 assume "drained R k r {a} (insert a D) {} a p ys e e1"
    then obtain l where d: "cleaned R k r {a} (insert a D) {} {} {a} e e1"
      "pe_objs e1 a = Some (p\<lparr>cp_imported := Some [], cp_importing := l\<rparr>)" "set l \<subseteq> set (cp_importing p)"
      unfolding drained_def by (auto simp: cleaned_def)
    define p1 where "p1 = p\<lparr>cp_imported := Some [], cp_importing := l\<rparr>"
    define e2 where "e2 = e1\<lparr>pe_objs := (pe_objs e1)(a \<mapsto> p1\<lparr>cp_imported := None\<rparr>)\<rparr>"
    have p1: "pe_objs e1 a = Some p1" "cp_imported p1 = Some []" "p1\<lparr>cp_imported := None\<rparr> = bare p l"
      using d(2) by (simp_all add: p1_def bare_def)
    have f1: "env_ok R k r (insert a {}) (insert a D) e1" "procs (pe_objs e1) = {}" "shrunk {a} e e1"
      using d(1) by (auto simp: cleaned_def fail_pre_def)
    have ok: "env_ok R k r {} (insert a D) e2"
      unfolding e2_def by (rule env_ok_forget [OF f1(1) p1(1,2)]) auto
    have pr: "procs (pe_objs e2) = {}" using f1(2) p1(1) by (auto simp: e2_def procs_upd procs_def split: if_splits)
    have sh: "shrunk {a} e e2"
      unfolding e2_def by (rule shrunk_trans [OF f1(3) shrunk_upd [OF p1(1)]]) auto
    have ims2: "ims (pe_objs e2) z = (if z = a then [] else ims (pe_objs e) z)" for z
      using shrunk_ims [OF sh, of z] by (auto simp: e2_def p1_def ims_upd)
    have "undone (\<lambda>z. z \<noteq> a) a e e2"
      using sh ims2 unfolding undone_def shrunk_def by simp
    moreover have "pe_objs e2 a = Some (bare p l)" using p1(3) by (simp add: e2_def)
    ultimately have "Q' e2" using ok pr d(3) unfolding Q'_def by blast
    then show "wpe (set_plugin a (\<lambda>q. q\<lparr>cp_imported := None\<rparr>)) (\<lambda>_. Q') (\<lambda>_. False) e1"
      unfolding wpe_set_plugin [OF p1(1) a0] e2_def .
  qed simp
  then show ?thesis by simp
qed

section \<open>The runtime of a plug-in\<close>

definition unresolved :: "(ident \<Rightarrow> nat) \<Rightarrow> nat \<Rightarrow> (nat \<Rightarrow> nat) \<Rightarrow> nat set \<Rightarrow> (nat \<Rightarrow> bool) \<Rightarrow> nat \<Rightarrow> plugin_env \<Rightarrow> plugin_env \<Rightarrow> bool" where
  "unresolved R k r D F a e e' \<longleftrightarrow>
     env_ok R k r {} D e' \<and> procs (pe_objs e') = {} \<and> undone F a e e' \<and> sta (pe_objs e') a = INSTALLED"

lemma unresolve_finish:
  assumes i: "env_ok R k r {} (insert a D) e" "procs (pe_objs e) = {}"
    and p: "pe_objs e a = Some p" "cp_imported p = None" "cp_importing p = []" "cp_state p = RESOLVED"
  shows "wpe (sq (unresolve_plugin_runtime a) (change_state a INSTALLED))
    (\<lambda>_. unresolved R k r D (\<lambda>z. z \<noteq> a) a e) (\<lambda>_. False) e"
proof -
  have shape: "shape p" and tabs: "tabs R k r e" using i(1) p(1) by (auto simp: env_ok_def)
  obtain ir where ir: "a \<noteq> 0" "pe_infos e (cp_info p) = Some ir" using tabs_obj [OF tabs p(1)] .
  have g: "graph r {} (pe_objs e)" and l: "levels (insert a D) (pe_objs e) (pe_started_plugins e)" using i(1) by (auto simp: env_ok_def)
  have np: "\<not> cp_processed p" using i(2) p(1) by (auto simp: procs_def)
  have sa: "sta (pe_objs e) a = RESOLVED" "ims (pe_objs e) a = []" "users (pe_objs e) a = []" "imps (pe_objs e) a = None"
    using p by (simp_all add: sta_def ims_def imps_def users_def)
  have un: "a \<notin> set (ims (pe_objs e) x)" for x using graphD(4) [OF g, of a x] sa(3) by auto
  have fin: "unresolved R k r D (\<lambda>z. z \<noteq> a) a e e'"
    if e': "pe_objs e' = (pe_objs e)(a \<mapsto> the (pe_objs e' a)) \<and> shape (the (pe_objs e' a)) \<and>
     cp_imported (the (pe_objs e' a)) = None \<and> cp_importing (the (pe_objs e' a)) = [] \<and>
     \<not> cp_processed (the (pe_objs e' a)) \<and> cp_info (the (pe_objs e' a)) = cp_info p \<and> cp_state (the (pe_objs e' a)) = INSTALLED \<and>
     pe_mem e' = pe_mem e \<and> pe_infos e' = pe_infos e \<and> pe_plugins e' = pe_plugins e \<and> pe_next e' = pe_next e \<and>
     pe_scan e' = pe_scan e \<and> pe_cp_version e' = pe_cp_version e \<and> pe_cp_abi e' = pe_cp_abi e \<and>
     pe_ext_points e' = pe_ext_points e \<and> pe_extensions e' = pe_extensions e \<and>
     set (pe_run_funcs e') \<subseteq> set (pe_run_funcs e) \<and> pe_started_plugins e' = pe_started_plugins e" for e' :: plugin_env
  proof -
    have sm: "same e e'" using same_upd [OF p(1), of "the (pe_objs e' a)" e'] e' by simp
    obtain p' where p': "pe_objs e' = (pe_objs e)(a \<mapsto> p')" "shape p'" "cp_imported p' = None" "cp_importing p' = []"
      "\<not> cp_processed p'" "cp_state p' = INSTALLED" "pe_started_plugins e' = pe_started_plugins e" using e' by blast
    have v: "ims (pe_objs e') = ims (pe_objs e)" "users (pe_objs e') = users (pe_objs e)" "imps (pe_objs e') = imps (pe_objs e)"
      "sta (pe_objs e') = (sta (pe_objs e))(a := INSTALLED)"
      using p p' by (auto simp: fun_eq_iff ims_def imps_def users_def sta_def)
    have "env_ok R k r {} D e'"
    proof (rule env_ok_objs [OF i(1) sm])
      show "shape q" if "pe_objs e' z = Some q" for z q
        using that env_ok_shape [OF i(1)] p'(1,2) by (auto split: if_splits)
      show "graph r {} (pe_objs e')" using g unfolding graph_def v same_live [OF sm] .
      show "levels D (pe_objs e') (pe_started_plugins e')"
      proof (rule levelsI)
        fix x b
        show "imps (pe_objs e') x = None \<longleftrightarrow> sta (pe_objs e') x = INSTALLED" if "x \<notin> D" "pe_objs e' x \<noteq> None"
          using levelsD(1) [OF l, of x] that sa(4) unfolding v same_live [OF sm] by auto
        show "sta (pe_objs e') b \<noteq> INSTALLED" if "b \<in> set (ims (pe_objs e') x)" "sta (pe_objs e') x \<noteq> INSTALLED"
          using levelsD(2) [OF l, of b x] that un sa(2) unfolding v by (auto split: if_splits)
        show "sta (pe_objs e') b = ACTIVE" if "b \<in> set (ims (pe_objs e') x)" "sta (pe_objs e') x = ACTIVE"
          using levelsD(3) [OF l, of b x] that un sa(2) unfolding v by (auto split: if_splits)
        show "distinct (pe_started_plugins e')" using levelsD(4) [OF l] p'(7) by simp
        show "x \<in> set (pe_started_plugins e') \<longleftrightarrow> sta (pe_objs e') x = ACTIVE"
          using levelsD(5) [OF l, of x] p'(7) sa(1) unfolding v by auto
      qed
    qed
    moreover have "procs (pe_objs e') = {}" using i(2) p' by (simp add: procs_upd)
    moreover have "undone (\<lambda>z. z \<noteq> a) a e e'"
    proof -
      have "x = x\<lparr>cp_importing := cp_importing x\<rparr>" for x :: cp_plugin by simp
      then have "\<forall>z q. pe_objs e z = Some q \<and> z \<noteq> a \<longrightarrow>
          (\<exists>l. pe_objs e' z = Some (q\<lparr>cp_importing := l\<rparr>) \<and> set l \<subseteq> set (cp_importing q))"
        using p'(1) by (metis fun_upd_other subset_refl)
      then show ?thesis using sm p'(7) v sa(1) unfolding undone_def needs_def by simp
    qed
    ultimately show ?thesis using v by (simp add: unresolved_def)
  qed
  show ?thesis
  proof (cases "cp_context p")
    case None
    then show ?thesis
      using p ir shape np unfolding unresolve_plugin_runtime_def
      by (simp add: leaf) (intro conjI impI; rule fin; simp add: shape_def)
  next
    case (Some cx)
    then have cx: "cx_resolved_symbols cx = None" "cx_symbol_providers cx = None" "cp_runtime_funcs p \<noteq> None"
      using shape by (auto simp: shape_def)
    obtain rt where rt: "cp_runtime_funcs p = Some rt" using cx(3) by auto
    have "rt_destroy rt" using shape rt by (simp add: shape_def)
    with Some cx(1,2) rt p ir shape np show ?thesis
      unfolding unresolve_plugin_runtime_def
      by (simp add: leaf) (intro conjI impI; rule fin; simp add: shape_def)
  qed
qed

section \<open>The recursion\<close>

lemma wpe_sq_fun: "wpe (sq m n) Q E = wpe m (\<lambda>_. wpe n Q E) E"
  by (rule ext) simp

theorem unresolve_rec_unresolved:
  "env_ok R k r {} D e \<Longrightarrow> procs (pe_objs e) = {} \<Longrightarrow> pe_objs e a \<noteq> None \<Longrightarrow> sta (pe_objs e) a \<noteq> ACTIVE \<Longrightarrow>
   \<forall>d \<in> D. r d < r a \<Longrightarrow> k - r a \<le> n \<Longrightarrow>
   wpe (unresolve_plugin_rec n a) (\<lambda>_. unresolved R k r D (\<lambda>z. r z \<le> r a \<and> z \<noteq> a) a e) (\<lambda>_. False) e"
proof (induction n arbitrary: D a e)
  case 0
  obtain p where "pe_objs e a = Some p" using 0(3) by auto
  then have "r a < k" using 0(1) by (auto simp: env_ok_def elim: tabs_obj)
  with 0(6) show ?case by simp
next
  case (Suc n)
  have tabs: "tabs R k r e" and l: "levels D (pe_objs e) (pe_started_plugins e)" using Suc.prems(1) by (auto simp: env_ok_def)
  obtain p where p: "pe_objs e a = Some p" using Suc.prems(3) by auto
  have a0: "a \<noteq> 0" "r a < k" using tabs_obj [OF tabs p] by blast+
  have aD: "a \<notin> D" using Suc.prems(5) by auto
  show ?case
  proof (cases "cp_state p = INSTALLED")
    case True
    then have "unresolved R k r D (\<lambda>z. r z \<le> r a \<and> z \<noteq> a) a e e" using Suc.prems p by (simp add: unresolved_def sta_def)
    with True p a0 show ?thesis by (simp add: leaf less_pstate_def)
  next
    case False
    with env_ok_sta [OF Suc.prems(1,3)] Suc.prems(4) p have res: "cp_state p = RESOLVED" by (auto simp: sta_def)
    obtain xs where xs: "cp_imported p = Some xs"
      using levelsD(1) [OF l aD Suc.prems(3)] p res by (auto simp: imps_def sta_def)
    define J where "J e2 \<longleftrightarrow> env_ok R k r {} (insert a D) e2 \<and> procs (pe_objs e2) = {} \<and> undone (\<lambda>z. r z \<le> r a \<and> z \<noteq> a) a e e2 \<and>
      (\<exists>l. pe_objs e2 a = Some (bare p l))" for e2
    have loop: "wpe (unresolve_loop m (unresolve_plugin_rec n) a) (\<lambda>_ e3. J e3 \<and> users (pe_objs e3) a = []) (\<lambda>_. False) e2"
      if "J e2" "length (users (pe_objs e2) a) < m" for m e2
      using that
    proof (induction m arbitrary: e2)
      case 0
      then show ?case by simp
    next
      case (Suc m)
      note J = Suc.prems(1)
      have i2: "env_ok R k r {} (insert a D) e2" "procs (pe_objs e2) = {}" and u2: "undone (\<lambda>z. r z \<le> r a \<and> z \<noteq> a) a e e2"
        using J by (auto simp: J_def)
      obtain l where p2: "pe_objs e2 a = Some (bare p l)" using J by (auto simp: J_def)
      have us: "users (pe_objs e2) a = l" using p2 by (simp add: users_def bare_def)
      have g2: "graph r {} (pe_objs e2)" and l2: "levels (insert a D) (pe_objs e2) (pe_started_plugins e2)"
        using i2(1) by (auto simp: env_ok_def)
      show ?case
      proof (cases l)
        case Nil
        with J us p2 a0 show ?thesis by (simp add: leaf bare_def)
      next
        case (Cons x rest)
        have imp: "a \<in> set (ims (pe_objs e2) x)" using graphD(3) [OF g2, of x a] us Cons by simp
        have rx: "r a < r x" using graphD(2) [OF g2 imp] .
        have live: "pe_objs e2 x \<noteq> None" using imp by (auto simp: ims_def imps_def split: option.splits)
        have sa: "sta (pe_objs e2) a = RESOLVED" using p2 res by (simp add: sta_def bare_def)
        have nx: "sta (pe_objs e2) x \<noteq> ACTIVE" using levelsD(3) [OF l2 imp] sa by auto
        have lower: "\<forall>d \<in> insert a D. r d < r x" using rx \<open>\<forall>d \<in> D. r d < r a\<close> by auto
        have fuel: "k - r x \<le> n" using rx \<open>k - r a \<le> Suc n\<close> a0(2) by linarith
        have "wpe (unresolve_plugin_rec n x) (\<lambda>_. wpe (unresolve_loop m (unresolve_plugin_rec n) a)
          (\<lambda>_ e3. J e3 \<and> users (pe_objs e3) a = []) (\<lambda>_. False)) (\<lambda>_. False) e2"
        proof (rule wpe_mono [OF \<open>\<And>D a e. env_ok R k r {} D e \<Longrightarrow> procs (pe_objs e) = {} \<Longrightarrow> pe_objs e a \<noteq> None \<Longrightarrow>
            sta (pe_objs e) a \<noteq> ACTIVE \<Longrightarrow> \<forall>d \<in> D. r d < r a \<Longrightarrow> k - r a \<le> n \<Longrightarrow>
            wpe (unresolve_plugin_rec n a) (\<lambda>_. unresolved R k r D (\<lambda>z. r z \<le> r a \<and> z \<noteq> a) a e) (\<lambda>_. False) e\<close> [OF i2 live nx lower fuel]])
          fix u e3 assume U: "unresolved R k r (insert a D) (\<lambda>z. r z \<le> r x \<and> z \<noteq> x) x e2 e3"
          then have i3: "env_ok R k r {} (insert a D) e3" "procs (pe_objs e3) = {}" "sta (pe_objs e3) x = INSTALLED"
            and u3: "undone (\<lambda>z. r z \<le> r x \<and> z \<noteq> x) x e2 e3" by (auto simp: unresolved_def)
          have "(x, a) \<in> needs (pe_objs e2)" using imp unfolding needs_def by auto
          then have "undone (\<lambda>z. r z \<le> r a \<and> z \<noteq> a) a e e3"
            using rx i3(3) by (intro undone_trans [OF u2 u3]) auto
          moreover obtain l3 where l3: "pe_objs e3 a = Some (bare p l3)" "set l3 \<subseteq> set l"
            using undone_obj [OF u3 p2] rx by (auto simp: bare_def)
          ultimately have J3: "J e3" using i3 by (auto simp: J_def)
          have us3: "users (pe_objs e3) a = l3" using l3(1) by (simp add: users_def bare_def)
          have g3: "graph r {} (pe_objs e3)" using i3(1) by (simp add: env_ok_def)
          have "x \<notin> insert a D" using lower by auto
          then have "imps (pe_objs e3) x = None"
            using i3(1,3) by (auto simp: env_ok_def sta_def imps_def dest!: levelsD(1) [of _ _ _ x] split: option.splits)
          then have "x \<notin> set l3" using graphD(3) [OF g3, of x a] us3 by (auto simp: ims_def)
          with l3(2) Cons have "set l3 \<subset> set l" by auto
          then have "length l3 < length l"
            using graphD(5) [OF g2, of a] graphD(5) [OF g3, of a] us us3
            by (metis List.finite_set distinct_card psubset_card_mono)
          with Suc.prems(2) us us3 show "wpe (unresolve_loop m (unresolve_plugin_rec n) a)
            (\<lambda>_ e3. J e3 \<and> users (pe_objs e3) a = []) (\<lambda>_. False) e3"
            by (intro Suc.IH J3) simp
        qed simp
        with p2 a0 Cons show ?thesis by (simp add: leaf bare_def)
      qed
    qed
    have fin: "wpe (sq (unresolve_plugin_runtime a) (change_state a INSTALLED))
      (\<lambda>_. unresolved R k r D (\<lambda>z. r z \<le> r a \<and> z \<noteq> a) a e) (\<lambda>_. False) e3"
      if J3: "J e3" and no: "users (pe_objs e3) a = []" for e3
    proof -
      obtain l3 where l3: "pe_objs e3 a = Some (bare p l3)" using J3 by (auto simp: J_def)
      have "l3 = []" using no l3 by (simp add: users_def bare_def)
      have i3: "env_ok R k r {} (insert a D) e3" "procs (pe_objs e3) = {}" and u3: "undone (\<lambda>z. r z \<le> r a \<and> z \<noteq> a) a e e3"
        using J3 by (auto simp: J_def)
      show ?thesis
      proof (rule wpe_mono [OF unresolve_finish [OF i3 l3]])
        fix u e4 assume "unresolved R k r D (\<lambda>z. z \<noteq> a) a e3 e4"
        then show "unresolved R k r D (\<lambda>z. r z \<le> r a \<and> z \<noteq> a) a e e4"
          using undone_trans [OF u3, of "\<lambda>z. z \<noteq> a" a e4 "\<lambda>z. r z \<le> r a \<and> z \<noteq> a"] by (simp add: unresolved_def)
      qed (use res \<open>l3 = []\<close> in \<open>simp_all add: bare_def\<close>)
    qed
    have "wpe (sq (drain_imported (Suc (length xs)) (\<lambda>_. ret ()) a) (set_plugin a (\<lambda>q. q\<lparr>cp_imported := None\<rparr>)))
      (\<lambda>_. wpe (bnd (importing_list a) (\<lambda>ys.
               sq (unresolve_loop (Suc (length ys)) (unresolve_plugin_rec n) a)
                 (sq (unresolve_plugin_runtime a) (change_state a INSTALLED))))
        (\<lambda>_. unresolved R k r D (\<lambda>z. r z \<le> r a \<and> z \<noteq> a) a e) (\<lambda>_. False)) (\<lambda>_. False) e"
    proof (rule wpe_mono [OF drain_resolved [OF Suc.prems(1,2) p xs]])
      fix u e2
      assume e2: "env_ok R k r {} (insert a D) e2 \<and> procs (pe_objs e2) = {} \<and> undone (\<lambda>z. z \<noteq> a) a e e2 \<and>
        (\<exists>l. pe_objs e2 a = Some (bare p l) \<and> set l \<subseteq> set (cp_importing p))"
      then have u2: "undone (\<lambda>z. z \<noteq> a) a e e2" by blast
      have J2: "J e2" using e2 undone_trans [OF undone_refl u2, of "\<lambda>z. r z \<le> r a \<and> z \<noteq> a"] by (auto simp: J_def)
      obtain l where l: "pe_objs e2 a = Some (bare p l)" using e2 by blast
      have us: "cp_importing (bare p l) = users (pe_objs e2) a" using l by (simp add: users_def bare_def)
      have "wpe (unresolve_loop (Suc (length (users (pe_objs e2) a))) (unresolve_plugin_rec n) a)
        (\<lambda>_. wpe (sq (unresolve_plugin_runtime a) (change_state a INSTALLED))
          (\<lambda>_. unresolved R k r D (\<lambda>z. r z \<le> r a \<and> z \<noteq> a) a e) (\<lambda>_. False)) (\<lambda>_. False) e2"
        by (rule wpe_mono [OF loop [OF J2]]) (use fin in auto)
      then show "wpe (bnd (importing_list a) (\<lambda>ys.
               sq (unresolve_loop (Suc (length ys)) (unresolve_plugin_rec n) a)
                 (sq (unresolve_plugin_runtime a) (change_state a INSTALLED))))
        (\<lambda>_. unresolved R k r D (\<lambda>z. r z \<le> r a \<and> z \<noteq> a) a e) (\<lambda>_. False) e2"
        using wpe_importing_list [OF l a0(1)] us by (simp del: unresolve_loop.simps)
    qed simp
    then show ?thesis
      using p a0 res xs by (simp add: leaf less_pstate_def wpe_sq_fun del: drain_imported.simps unresolve_loop.simps)
  qed
qed

end
