(* ===== verification/Cpluff_Session.thy ===== *)
theory Cpluff_Session
  imports Cpluff_Uninstall
begin

text \<open>
  The calls of the framework's interface on plug-ins, each of which returns without a fault and
  leaves the framework in order, and sequences of them.
\<close>

section \<open>Unresolving with everything that needs it\<close>

lemma undone_needs:
  assumes l: "levels {} (pe_objs e') st" and u: "undone F a e e'" and a: "sta (pe_objs e') a = INSTALLED"
    and n: "(z, a) \<in> needs (pe_objs e)"
  shows "sta (pe_objs e') z = INSTALLED"
  using n unfolding needs_def
proof (induction rule: converse_rtrancl_induct)
  case (step z y)
  have "y \<in> set (ims (pe_objs e) z)" using step(1) by simp
  then show ?case
    using undoneD(4) [OF u, of z] levelsD(2) [OF l, of y z] step(3) a by (cases "z = a") auto
qed (rule a)

definition unresolve_spec :: "(ident \<Rightarrow> nat) \<Rightarrow> nat \<Rightarrow> (nat \<Rightarrow> nat) \<Rightarrow> nat \<Rightarrow> plugin_env \<Rightarrow> plugin_env \<Rightarrow> bool" where
  "unresolve_spec R k r a e e' \<longleftrightarrow>
     idle R k r e' \<and> same e e' \<and>
     sta (pe_objs e') = (\<lambda>z. if (z, a) \<in> needs (pe_objs e) then INSTALLED else sta (pe_objs e) z)"

lemma needs_live: "graph r D m \<Longrightarrow> (z, a) \<in> needs m \<Longrightarrow> m a \<noteq> None \<Longrightarrow> m z \<noteq> None"
  unfolding needs_def
  by (erule converse_rtranclE) (auto simp: ims_def imps_def split: option.splits)

theorem unresolve_plugin_unresolves:
  assumes idle: "idle R k r e" and live: "pe_objs e a \<noteq> None" and n: "k \<le> n"
  shows "wpe (unresolve_plugin n c a) (\<lambda>_. unresolve_spec R k r a e) (\<lambda>_. False) e"
proof -
  have "wpe (stop_plugin n c a) (\<lambda>_. wpe (unresolve_plugin_rec n a) (\<lambda>_. unresolve_spec R k r a e) (\<lambda>_. False)) (\<lambda>_. False) e"
  proof (rule wpe_mono [OF stop_plugin_stops [OF idle live n]])
    fix u e1 assume "stop_spec R k r a e e1"
    then have S: "env_ok R k r {} {} e1" "procs (pe_objs e1) = {}" "kept e e1"
      "sta (pe_objs e1) = (\<lambda>z. if sta (pe_objs e) z = ACTIVE \<and> (z, a) \<in> needs (pe_objs e) then RESOLVED else sta (pe_objs e) z)"
      by (auto simp: stop_spec_def idle_def)
    have live1: "pe_objs e1 a \<noteq> None" using live kept_live [OF S(3)] by simp
    have na: "sta (pe_objs e1) a \<noteq> ACTIVE" using S(4) by (simp add: needs_def)
    have g: "graph r {} (pe_objs e)" using idle by (simp add: idle_def env_ok_def)
    have nd: "needs (pe_objs e1) = needs (pe_objs e)" using kept_needs [OF S(3)] .
    have "wpe (unresolve_plugin_rec n a) (\<lambda>_. unresolved R k r {} (\<lambda>z. r z \<le> r a \<and> z \<noteq> a) a e1) (\<lambda>_. False) e1"
      using n by (intro unresolve_rec_unresolved S live1 na) auto
    then show "wpe (unresolve_plugin_rec n a) (\<lambda>_. unresolve_spec R k r a e) (\<lambda>_. False) e1"
    proof (rule wpe_mono)
      fix v e2 assume "unresolved R k r {} (\<lambda>z. r z \<le> r a \<and> z \<noteq> a) a e1 e2"
      then have U: "env_ok R k r {} {} e2" "procs (pe_objs e2) = {}" "undone (\<lambda>z. r z \<le> r a \<and> z \<noteq> a) a e1 e2" "sta (pe_objs e2) a = INSTALLED"
        by (auto simp: unresolved_def)
      have l2: "levels {} (pe_objs e2) (pe_started_plugins e2)" using U(1) by (simp add: env_ok_def)
      have "sta (pe_objs e2) z = (if (z, a) \<in> needs (pe_objs e) then INSTALLED else sta (pe_objs e) z)" for z
        using undone_needs [OF l2 U(3,4), of z] undoneD(5) [OF U(3), of z] S(4) nd by auto
      moreover have "same e e2" using same_trans [OF _ undoneD(1) [OF U(3)]] S(3) by (simp add: kept_def)
      ultimately show "unresolve_spec R k r a e e2" using U(1,2) by (auto simp: unresolve_spec_def idle_def)
    qed simp
  qed simp
  then show ?thesis by (simp add: unresolve_plugin_def)
qed

section \<open>Uninstalling\<close>

text \<open>The extension points and extensions of a descriptor leave their tables; nothing else changes.\<close>

lemma fold_drop_ext_points:
  "\<exists>x. fold (\<lambda>(n, ep). drop_ext_point (i, n) ep) xs e = e\<lparr>pe_ext_points := x\<rparr>"
proof (induction xs arbitrary: e)
  case Nil
  then show ?case by (intro exI [of _ "pe_ext_points e"]) simp
next
  case (Cons y ys)
  obtain n ep where y: "y = (n, ep)" by force
  have "\<exists>x. drop_ext_point (i, n) ep e = e\<lparr>pe_ext_points := x\<rparr>"
    unfolding drop_ext_point_def by (cases "pe_ext_points e ep = Some (i, n)") (auto intro: exI [of _ "pe_ext_points e"])
  then obtain x where "drop_ext_point (i, n) ep e = e\<lparr>pe_ext_points := x\<rparr>" ..
  with Cons [of "e\<lparr>pe_ext_points := x\<rparr>"] y show ?case by auto
qed

lemma fold_drop_extensions:
  "\<exists>x. fold (\<lambda>(n, ep). drop_extension (i, n) ep) xs e = e\<lparr>pe_extensions := x\<rparr>"
proof (induction xs arbitrary: e)
  case Nil
  then show ?case by (intro exI [of _ "pe_extensions e"]) simp
next
  case (Cons y ys)
  obtain n ep where y: "y = (n, ep)" by force
  have "\<exists>x. drop_extension (i, n) ep e = e\<lparr>pe_extensions := x\<rparr>"
    unfolding drop_extension_def by (cases "pe_extensions e ep") (auto intro: exI [of _ "pe_extensions e"])
  then obtain x where "drop_extension (i, n) ep e = e\<lparr>pe_extensions := x\<rparr>" ..
  with Cons [of "e\<lparr>pe_extensions := x\<rparr>"] y show ?case by auto
qed

lemma wpe_unregister:
  assumes "pe_infos e i = Some ir" "\<And>x y. Q () (e\<lparr>pe_ext_points := x, pe_extensions := y\<rparr>)"
  shows "wpe (unregister_extensions i) Q E e"
proof -
  obtain x where x: "fold (\<lambda>(n, ep). drop_ext_point (i, n) ep) (enumerate 0 (pi_ext_points (ir_resource ir))) e = e\<lparr>pe_ext_points := x\<rparr>"
    using fold_drop_ext_points by blast
  obtain y where "fold (\<lambda>(n, ep). drop_extension (i, n) ep) (enumerate 0 (pi_extensions (ir_resource ir))) (e\<lparr>pe_ext_points := x\<rparr>) =
      e\<lparr>pe_ext_points := x, pe_extensions := y\<rparr>"
    using fold_drop_extensions by blast
  with x assms show ?thesis by (simp add: unregister_extensions_def the_info_def)
qed

lemma idle_remove:
  assumes idle: "idle R k r e" and q: "pe_objs e a = Some q" "sta (pe_objs e) a = INSTALLED" "pe_infos e (cp_info q) = Some ir"
    and e': "pe_objs e' = (pe_objs e)(a := None)" "pe_plugins e' = (pe_plugins e)(pi_identifier (ir_resource ir) := None)"
      "pe_infos e' = (pe_infos e)(cp_info q := x)" "pe_started_plugins e' = pe_started_plugins e"
      "pe_mem e' = pe_mem e" "pe_next e' = pe_next e" "pe_scan e' = pe_scan e" "pe_cp_version e' = pe_cp_version e"
      "pe_cp_abi e' = pe_cp_abi e" "pe_run_funcs e' = pe_run_funcs e"
  shows "idle R k r e'"
proof -
  let ?id = "pi_identifier (ir_resource ir)"
  have i: "env_ok R k r {} {} e" "procs (pe_objs e) = {}" using idle by (auto simp: idle_def)
  have tabs: "tabs R k r e" and g: "graph r {} (pe_objs e)" and l: "levels {} (pe_objs e) (pe_started_plugins e)"
    using i(1) by (auto simp: env_ok_def)
  have un: "users (pe_objs e) a = []" "\<And>z. a \<notin> set (ims (pe_objs e) z)"
    using installed_unused [OF i(1) q(2)] by auto
  have im: "imps (pe_objs e) a = None" using levelsD(1) [OF l, of a] q(1,2) by simp
  have v: "ims (pe_objs e') = ims (pe_objs e)" "users (pe_objs e') = users (pe_objs e)" "imps (pe_objs e') = imps (pe_objs e)"
    "sta (pe_objs e') = (sta (pe_objs e))(a := UNINSTALLED)"
    using un(1) im e'(1) by (auto simp: fun_eq_iff ims_def imps_def users_def sta_def)
  have ne: "cp_info p \<noteq> cp_info q" "pe_plugins e' (pi_identifier (ir_resource ip)) = pe_plugins e (pi_identifier (ir_resource ip))"
    if p: "pe_objs e b = Some p" "b \<noteq> a" "pe_infos e (cp_info p) = Some ip" for b p ip
  proof -
    have "pe_plugins e (pi_identifier (ir_resource ip)) = Some b" "pe_plugins e ?id = Some a"
      using tabs_info(3) [OF tabs p(1,3)] tabs_info(3) [OF tabs q(1,3)] .
    with p(2) have "pi_identifier (ir_resource ip) \<noteq> ?id" by auto
    then show "cp_info p \<noteq> cp_info q" "pe_plugins e' (pi_identifier (ir_resource ip)) = pe_plugins e (pi_identifier (ir_resource ip))"
      using p(3) q(3) e'(2) by auto
  qed
  have "tabs R k r e'"
  proof -
    have "0 < b \<and> b < pe_next e' \<and> described R k r e' b (cp_info p)" if p: "pe_objs e' b = Some p" for b p
    proof -
      have p': "pe_objs e b = Some p" "b \<noteq> a" using p e'(1) by (auto split: if_splits)
      then have d: "0 < b" "b < pe_next e" "described R k r e b (cp_info p)" using tabs unfolding tabs_def surroundings_def by auto
      obtain ip where ip: "pe_infos e (cp_info p) = Some ip" using tabs_obj [OF tabs p'(1)] .
      show ?thesis using d ne [OF p' ip] ip e'(3,6) unfolding described_def by auto
    qed
    moreover have "\<exists>p ir. pe_objs e' b = Some p \<and> pe_infos e' (cp_info p) = Some ir \<and> pi_identifier (ir_resource ir) = pid"
      if pid: "pe_plugins e' pid = Some b" for pid b
    proof -
      have old: "pe_plugins e pid = Some b" "pid \<noteq> ?id" using pid e'(2) by (auto split: if_splits)
      obtain p ip where p: "pe_objs e b = Some p" "pe_infos e (cp_info p) = Some ip" "pi_identifier (ir_resource ip) = pid"
        using tabs_plugin [OF tabs old(1)] .
      have "b \<noteq> a" using p q old(2) by auto
      with p ne [OF p(1) _ p(2)] e'(1,3) show ?thesis by auto
    qed
    ultimately show ?thesis using tabs e' unfolding tabs_def surroundings_def by simp
  qed
  moreover have "\<forall>b p. pe_objs e' b = Some p \<longrightarrow> shape p" using env_ok_shape [OF i(1)] e'(1) by auto
  moreover have "graph r {} (pe_objs e')"
    using g un(2) e'(1) unfolding graph_def v by auto
  moreover have "levels {} (pe_objs e') (pe_started_plugins e')"
  proof (rule levelsI)
    fix x b
    show "imps (pe_objs e') x = None \<longleftrightarrow> sta (pe_objs e') x = INSTALLED" if "x \<notin> {}" "pe_objs e' x \<noteq> None"
      using levelsD(1) [OF l, of x] that e'(1) unfolding v by (auto split: if_splits)
    show "sta (pe_objs e') b \<noteq> INSTALLED" if "b \<in> set (ims (pe_objs e') x)" "sta (pe_objs e') x \<noteq> INSTALLED"
      using levelsD(2) [OF l, of b x] that un im unfolding v by (auto simp: ims_def split: if_splits)
    show "sta (pe_objs e') b = ACTIVE" if "b \<in> set (ims (pe_objs e') x)" "sta (pe_objs e') x = ACTIVE"
      using levelsD(3) [OF l, of b x] that un unfolding v by (auto split: if_splits)
    show "distinct (pe_started_plugins e')" using levelsD(4) [OF l] e'(4) by simp
    show "x \<in> set (pe_started_plugins e') \<longleftrightarrow> sta (pe_objs e') x = ACTIVE"
      using levelsD(5) [OF l, of x] e'(4) q(2) unfolding v by auto
  qed
  moreover have "procs (pe_objs e') = {}" using i(2) e'(1) by (auto simp: procs_def split: if_splits)
  ultimately show ?thesis by (simp add: idle_def env_ok_def)
qed

definition uninstalled :: "(ident \<Rightarrow> nat) \<Rightarrow> nat \<Rightarrow> (nat \<Rightarrow> nat) \<Rightarrow> ident \<Rightarrow> nat \<Rightarrow> plugin_env \<Rightarrow> plugin_env \<Rightarrow> bool" where
  "uninstalled R k r pid a e e' \<longleftrightarrow>
     idle R k r e' \<and> pe_plugins e' = (pe_plugins e)(pid := None) \<and>
     sta (pe_objs e') = (\<lambda>z. if z = a then UNINSTALLED else if (z, a) \<in> needs (pe_objs e) then INSTALLED else sta (pe_objs e) z)"

theorem uninstall_plugin_uninstalls:
  assumes idle: "idle R k r e" and a: "pe_plugins e pid = Some a" and n: "k \<le> n"
  shows "wpe (uninstall_plugin n c a) (\<lambda>_. uninstalled R k r pid a e) (\<lambda>_. False) e"
proof -
  have i: "env_ok R k r {} {} e" and t: "tabs R k r e" using idle by (auto simp: idle_def env_ok_def)
  obtain p ip where p: "pe_objs e a = Some p" "pe_infos e (cp_info p) = Some ip" "pi_identifier (ir_resource ip) = pid"
    using tabs_plugin [OF t a] .
  have a0: "a \<noteq> 0" using tabs_info(1) [OF t p(1,2)] .
  have st: "\<not> cp_state p \<le> UNINSTALLED" using env_ok_shape [OF i p(1)] by (auto simp: shape_def less_eq_pstate_def)
  have "wpe (unresolve_plugin n c a) (\<lambda>_. wpe (bnd (the_plugin a) (\<lambda>q. sq (assert_p (cp_state q = INSTALLED))
           (sq (change_state a UNINSTALLED)
             (bnd (info_of a) (\<lambda>info.
              sq (unregister_extensions (cp_info q))
                (sq (upd (\<lambda>e. e\<lparr>pe_plugins := (pe_plugins e)(pi_identifier info := None)\<rparr>))
                  (free_registered_plugin a)))))))
       (\<lambda>_. uninstalled R k r pid a e) (\<lambda>_. False)) (\<lambda>_. False) e"
  proof (rule wpe_mono [OF unresolve_plugin_unresolves [OF idle _ n]])
    fix u e1 assume U: "unresolve_spec R k r a e e1"
    then have S: "idle R k r e1" "same e e1" and s1: "sta (pe_objs e1) a = INSTALLED"
      by (auto simp: unresolve_spec_def needs_def)
    obtain q where q: "pe_objs e1 a = Some q" "cp_info q = cp_info p" using same_info [OF S(2) p(1)] .
    have iq: "pe_infos e1 (cp_info q) = Some ip" using S(2) q(2) p(2) by (simp add: same_def)
    have sq: "cp_state q = INSTALLED" using s1 q(1) by (simp add: sta_def)
    have l1: "levels {} (pe_objs e1) (pe_started_plugins e1)" using S(1) by (simp add: idle_def env_ok_def)
    have im: "cp_imported q = None" using levelsD(1) [OF l1, of a] s1 q(1) by (simp add: imps_def)
    have us: "cp_importing q = []"
      using installed_unused(1) [of R k r "{}" e1 a] S(1) s1 q(1) by (simp add: idle_def users_def)
    have fin: "uninstalled R k r pid a e e2"
      if "pe_objs e2 = (pe_objs e1)(a := None)" "pe_plugins e2 = (pe_plugins e1)(pi_identifier (ir_resource ip) := None)"
        "pe_infos e2 = (pe_infos e1)(cp_info q := pe_infos e2 (cp_info q))" "pe_started_plugins e2 = pe_started_plugins e1"
        "pe_mem e2 = pe_mem e1 \<and> pe_next e2 = pe_next e1 \<and> pe_scan e2 = pe_scan e1 \<and> pe_cp_version e2 = pe_cp_version e1 \<and>
         pe_cp_abi e2 = pe_cp_abi e1 \<and> pe_run_funcs e2 = pe_run_funcs e1" for e2
    proof -
      have "idle R k r e2" using that by (intro idle_remove [OF S(1) q(1) s1 iq]) auto
      moreover have "sta (pe_objs e2) = (sta (pe_objs e1))(a := UNINSTALLED)"
        unfolding that(1) by (auto simp: fun_eq_iff sta_def)
      ultimately show ?thesis
        using U that(2) p(3) S(2) by (auto simp: uninstalled_def unresolve_spec_def same_def fun_eq_iff)
    qed
    show "wpe (bnd (the_plugin a) (\<lambda>q. sq (assert_p (cp_state q = INSTALLED))
           (sq (change_state a UNINSTALLED)
             (bnd (info_of a) (\<lambda>info.
              sq (unregister_extensions (cp_info q))
                (sq (upd (\<lambda>e. e\<lparr>pe_plugins := (pe_plugins e)(pi_identifier info := None)\<rparr>))
                  (free_registered_plugin a)))))))
       (\<lambda>_. uninstalled R k r pid a e) (\<lambda>_. False) e1"
      using q a0 iq sq
      by (simp add: leaf) (rule wpe_unregister [where ir = ip];
        simp add: free_registered_plugin_def leaf cpi_release_info_def im us; intro conjI impI; rule fin; simp)
  qed (use p in auto)
  then show ?thesis using p(1) a0 st by (simp add: uninstall_plugin_def leaf)
qed

lemma uninstall_all_uninstalls:
  assumes n: "k \<le> n"
  shows "idle R k r e \<Longrightarrow> card (dom (pe_plugins e)) < m \<Longrightarrow>
    wpe (uninstall_all m n c) (\<lambda>_ e'. idle R k r e' \<and> pe_plugins e' = Map.empty) (\<lambda>_. False) e"
proof (induction m arbitrary: e)
  case 0
  then show ?case by simp
next
  case (Suc m)
  have t: "tabs R k r e" using Suc.prems(1) by (simp add: idle_def env_ok_def)
  then have fin: "finite (dom (pe_plugins e))" and scan: "set (pe_scan e (pe_plugins e)) = dom (pe_plugins e)"
    by (simp_all add: tabs_scan) (simp add: tabs_def surroundings_def)
  show ?case
  proof (cases "pe_scan e (pe_plugins e)")
    case Nil
    with scan have "dom (pe_plugins e) = {}" by simp
    then have "pe_plugins e = Map.empty" by (simp only: dom_eq_empty_conv)
    with Nil Suc.prems(1) show ?thesis by simp
  next
    case (Cons pid rest)
    then obtain a where a: "pe_plugins e pid = Some a" using scan by (metis domD list.set_intros(1))
    have "wpe (uninstall_plugin n c a) (\<lambda>_. wpe (uninstall_all m n c)
      (\<lambda>_ e'. idle R k r e' \<and> pe_plugins e' = Map.empty) (\<lambda>_. False)) (\<lambda>_. False) e"
    proof (rule wpe_mono [OF uninstall_plugin_uninstalls [OF Suc.prems(1) a n]])
      fix u e1 assume "uninstalled R k r pid a e e1"
      then have U: "idle R k r e1" "dom (pe_plugins e1) = dom (pe_plugins e) - {pid}" by (auto simp: uninstalled_def)
      have "pid \<in> dom (pe_plugins e)" using a by auto
      from card_Diff1_less [OF fin this] have "card (dom (pe_plugins e1)) < m" using Suc.prems(2) U(2) by simp
      then show "wpe (uninstall_all m n c) (\<lambda>_ e'. idle R k r e' \<and> pe_plugins e' = Map.empty) (\<lambda>_. False) e1"
        by (rule Suc.IH [OF U(1)])
    qed simp
    with Cons a show ?thesis by simp
  qed
qed

theorem uninstall_plugins_uninstalls:
  assumes idle: "idle R k r e" and n: "k \<le> n"
  shows "wpe (cp_uninstall_plugins n c) (\<lambda>_ e'. idle R k r e' \<and> pe_plugins e' = Map.empty) (\<lambda>_. False) e"
proof -
  have "wpe (cp_stop_plugins n c) (\<lambda>_. all_stopped R k r e) (\<lambda>_. False) e"
    using stop_all_stops [OF n idle, of "Suc _"] by (simp add: cp_stop_plugins_def del: stop_all.simps)
  then have "wpe (cp_stop_plugins n c) (\<lambda>_. wpe (bnd (rd (\<lambda>e. pe_scan e (pe_plugins e))) (\<lambda>ids. uninstall_all (Suc (length ids)) n c))
    (\<lambda>_ e'. idle R k r e' \<and> pe_plugins e' = Map.empty) (\<lambda>_. False)) (\<lambda>_. False) e"
  proof (rule wpe_mono)
    fix u e1 assume "all_stopped R k r e e1"
    then have i: "idle R k r e1" by (simp add: all_stopped_def)
    then have "set (pe_scan e1 (pe_plugins e1)) = dom (pe_plugins e1)" by (auto simp: idle_def env_ok_def dest: tabs_scan)
    then have "card (dom (pe_plugins e1)) < Suc (length (pe_scan e1 (pe_plugins e1)))" by (metis card_length le_imp_less_Suc)
    from uninstall_all_uninstalls [OF n i this]
    show "wpe (bnd (rd (\<lambda>e. pe_scan e (pe_plugins e))) (\<lambda>ids. uninstall_all (Suc (length ids)) n c))
      (\<lambda>_ e'. idle R k r e' \<and> pe_plugins e' = Map.empty) (\<lambda>_. False) e1"
      by (simp del: uninstall_all.simps)
  qed simp
  then show ?thesis by (simp add: cp_uninstall_plugins_def)
qed

section \<open>Installing\<close>

lemma register_ext_points_ok:
  "pe_mem e = [] \<Longrightarrow> distinct (map snd eps) \<Longrightarrow> \<forall>ep \<in> set (map snd eps). pe_ext_points e ep = None \<Longrightarrow>
   (\<And>x. Q CP_OK (e\<lparr>pe_ext_points := x\<rparr>)) \<Longrightarrow> wpe (register_ext_points i eps) Q E e"
proof (induction eps arbitrary: e)
  case Nil
  have "Q CP_OK (e\<lparr>pe_ext_points := pe_ext_points e\<rparr>)" by (rule Nil)
  then show ?case by simp
next
  case (Cons y ys)
  obtain n ep where y: "y = (n, ep)" by force
  have "wpe (register_ext_points i ys) Q E (e\<lparr>pe_ext_points := (pe_ext_points e)(ep \<mapsto> (i, n))\<rparr>)"
    using Cons.prems y by (intro Cons.IH) (auto simp: image_iff)
  with Cons.prems y show ?case by (simp add: leaf)
qed

lemma register_extensions_ok:
  "pe_mem e = [] \<Longrightarrow> (\<And>y. Q CP_OK (e\<lparr>pe_extensions := y\<rparr>)) \<Longrightarrow> wpe (register_extensions i eps) Q E e"
proof (induction eps arbitrary: e)
  case Nil
  have "Q CP_OK (e\<lparr>pe_extensions := pe_extensions e\<rparr>)" by (rule Nil)
  then show ?case by simp
next
  case (Cons y ys)
  obtain n ep where y: "y = (n, ep)" by force
  have "wpe (register_extensions i ys) Q E (e\<lparr>pe_extensions := t\<rparr>)" for t
    using Cons.prems by (intro Cons.IH) auto
  with Cons.prems y show ?case by (auto simp: leaf new_extension_list_def)
qed

text \<open>A new plug-in at the next address, which imports nothing yet.\<close>

lemma idle_install:
  assumes idle: "idle R k r e" and i: "pe_infos e i = Some ir" "0 < ir_usage_count ir" "info_ok R k (ir_resource ir)"
    and free: "pe_plugins e (pi_identifier (ir_resource ir)) = None"
    and e': "pe_objs e' = (pe_objs e)(pe_next e \<mapsto> fresh_plugin i)" "pe_next e' = pe_next e + 1"
      "pe_plugins e' = (pe_plugins e)(pi_identifier (ir_resource ir) \<mapsto> pe_next e)"
      "pe_infos e' = (pe_infos e)(i \<mapsto> ir\<lparr>ir_usage_count := ir_usage_count ir + 1\<rparr>)" "pe_started_plugins e' = pe_started_plugins e"
      "pe_mem e' = pe_mem e" "pe_scan e' = pe_scan e" "pe_cp_version e' = pe_cp_version e" "pe_cp_abi e' = pe_cp_abi e"
      "pe_run_funcs e' = pe_run_funcs e"
  shows "idle R k (r(pe_next e := R (pi_identifier (ir_resource ir)))) e'"
proof -
  let ?id = "pi_identifier (ir_resource ir)" let ?a = "pe_next e" let ?r = "r(pe_next e := R (pi_identifier (ir_resource ir)))"
  have ok: "env_ok R k r {} {} e" "procs (pe_objs e) = {}" using idle by (auto simp: idle_def)
  have t: "tabs R k r e" and g: "graph r {} (pe_objs e)" and l: "levels {} (pe_objs e) (pe_started_plugins e)"
    using ok(1) by (auto simp: env_ok_def)
  have new: "pe_objs e ?a = None" using t unfolding tabs_def surroundings_def by (metis less_irrefl not_None_eq)
  have pos: "0 < ?a" using t by (simp add: tabs_def surroundings_def)
  have none: "ims (pe_objs e) ?a = []" "users (pe_objs e) ?a = []" "imps (pe_objs e) ?a = None"
    using new by (simp_all add: ims_def imps_def users_def)
  have v: "ims (pe_objs e') = ims (pe_objs e)" "users (pe_objs e') = users (pe_objs e)" "imps (pe_objs e') = imps (pe_objs e)"
    "sta (pe_objs e') = (sta (pe_objs e))(?a := INSTALLED)"
    unfolding e'(1) using none by (simp_all add: ims_upd imps_upd users_upd sta_upd fresh_plugin_def fun_upd_idem)
  have un: "?a \<notin> set (ims (pe_objs e) x)" for x using graphD(1) [OF g, of ?a x] new by auto
  have edge: "b \<noteq> ?a \<and> x \<noteq> ?a" if "b \<in> set (ims (pe_objs e) x)" for b x
    using that un none(1) by auto
  have "tabs R k ?r e'"
  proof -
    have "0 < b \<and> b < pe_next e' \<and> described R k ?r e' b (cp_info p)" if p: "pe_objs e' b = Some p" for b p
    proof (cases "b = ?a")
      case True
      then have "p = fresh_plugin i" using p e'(1) by simp
      with True pos i e'(2-4) show ?thesis by (simp add: described_def fresh_plugin_def)
    next
      case False
      then have p': "pe_objs e b = Some p" using p e'(1) by simp
      obtain ip where ip: "pe_infos e (cp_info p) = Some ip" using tabs_obj [OF t p'] .
      note q = tabs_info [OF t p' ip]
      have "pi_identifier (ir_resource ip) \<noteq> ?id" using q(3) free by auto
      moreover have "0 < b" "b < pe_next e" using t p' unfolding tabs_def surroundings_def by auto
      ultimately show ?thesis using q ip False i(1,2) e'(2-4) unfolding described_def by auto
    qed
    moreover have "\<exists>p ir. pe_objs e' b = Some p \<and> pe_infos e' (cp_info p) = Some ir \<and> pi_identifier (ir_resource ir) = pid"
      if pid: "pe_plugins e' pid = Some b" for pid b
    proof (cases "pid = ?id")
      case True
      with pid e' show ?thesis by (auto simp: fresh_plugin_def)
    next
      case False
      then have "pe_plugins e pid = Some b" using pid e'(3) by simp
      then obtain p ip where p: "pe_objs e b = Some p" "pe_infos e (cp_info p) = Some ip" "pi_identifier (ir_resource ip) = pid"
        using tabs_plugin [OF t] by metis
      have "b \<noteq> ?a" using p(1) new by auto
      with p False i(1) e'(1,4) show ?thesis by (cases "cp_info p = i") auto
    qed
    ultimately show ?thesis using t e' unfolding tabs_def surroundings_def by simp
  qed
  moreover have "\<forall>b p. pe_objs e' b = Some p \<longrightarrow> shape p"
    using env_ok_shape [OF ok(1)] e'(1) by (auto simp: shape_def fresh_plugin_def)
  moreover have "graph ?r {} (pe_objs e')"
    by (rule graphI; unfold v) (use edge e'(1) in \<open>auto simp: graphD(5) [OF g] dest: graphD(1-4) [OF g]\<close>)
  moreover have "levels {} (pe_objs e') (pe_started_plugins e')"
  proof (rule levelsI)
    fix x b
    show "imps (pe_objs e') x = None \<longleftrightarrow> sta (pe_objs e') x = INSTALLED" if "x \<notin> {}" "pe_objs e' x \<noteq> None"
      using levelsD(1) [OF l, of x] that e'(1) none unfolding v by (auto split: if_splits)
    show "sta (pe_objs e') b \<noteq> INSTALLED" if "b \<in> set (ims (pe_objs e') x)" "sta (pe_objs e') x \<noteq> INSTALLED"
      using levelsD(2) [OF l, of b x] that edge unfolding v by (auto split: if_splits)
    show "sta (pe_objs e') b = ACTIVE" if "b \<in> set (ims (pe_objs e') x)" "sta (pe_objs e') x = ACTIVE"
      using levelsD(3) [OF l, of b x] that edge unfolding v by (auto split: if_splits)
    show "distinct (pe_started_plugins e')" using levelsD(4) [OF l] e'(5) by simp
    show "x \<in> set (pe_started_plugins e') \<longleftrightarrow> sta (pe_objs e') x = ACTIVE"
      using levelsD(5) [OF l, of x] e'(5) new unfolding v by (auto simp: sta_def)
  qed
  moreover have "procs (pe_objs e') = {}" using ok(2) e'(1) new by (auto simp: procs_def fresh_plugin_def split: if_splits)
  ultimately show ?thesis by (simp add: idle_def env_ok_def)
qed

end
