(* ===== verification/Cpluff_Calls.thy ===== *)
theory Cpluff_Calls
  imports Cpluff_Session
begin

text \<open>
  Sequences of calls of the framework's interface: registering and releasing descriptors, installing,
  starting, stopping and uninstalling plug-ins, and asking for their states.  \<open>plug_ok\<close> is what the
  caller has to see to; every sequence of calls that keeps to it runs without a fault.
\<close>

section \<open>Installing a plug-in\<close>

text \<open>What is in the tables of extension points and extensions, and the log, do not matter to the invariant.\<close>

lemma idle_cong:
  assumes "idle R k r e"
    and "pe_objs e' = pe_objs e" "pe_plugins e' = pe_plugins e" "pe_infos e' = pe_infos e"
      "pe_started_plugins e' = pe_started_plugins e" "pe_mem e' = pe_mem e" "pe_next e' = pe_next e"
      "pe_scan e' = pe_scan e" "pe_cp_version e' = pe_cp_version e" "pe_cp_abi e' = pe_cp_abi e"
      "pe_run_funcs e' = pe_run_funcs e"
  shows "idle R k r e'"
  using assms unfolding idle_def env_ok_def tabs_def surroundings_def described_def by simp

lemma idle_ext_tables: "idle R k r e \<Longrightarrow> idle R k r (e\<lparr>pe_ext_points := x, pe_extensions := y\<rparr>)"
  by (erule idle_cong) simp_all

text \<open>A descriptor that may be installed, for a client that respects the graph of imports.\<close>

definition installable :: "(ident \<Rightarrow> nat) \<Rightarrow> nat \<Rightarrow> plugin_env \<Rightarrow> nat \<Rightarrow> info_resource \<Rightarrow> bool" where
  "installable R k e i ir \<longleftrightarrow> pe_infos e i = Some ir \<and> 0 < ir_usage_count ir \<and> info_ok R k (ir_resource ir)"

definition fresh_ext_points :: "plugin_env \<Rightarrow> plugin_info \<Rightarrow> bool" where
  "fresh_ext_points e info \<longleftrightarrow>
     distinct (pi_ext_points info) \<and> (\<forall>ep \<in> set (pi_ext_points info). pe_ext_points e ep = None)"

definition installed :: "(ident \<Rightarrow> nat) \<Rightarrow> nat \<Rightarrow> (nat \<Rightarrow> nat) \<Rightarrow> ident \<Rightarrow> plugin_env \<Rightarrow> cp_status \<Rightarrow> plugin_env \<Rightarrow> bool" where
  "installed R k r pid e s e' \<longleftrightarrow>
     s = CP_OK \<and> idle R k (r(pe_next e := R pid)) e' \<and> pe_plugins e' = (pe_plugins e)(pid \<mapsto> pe_next e) \<and>
     sta (pe_objs e') = (sta (pe_objs e))(pe_next e := INSTALLED)"

theorem install_plugin_installs:
  assumes idle: "idle R k r e" and i: "installable R k e i ir" and new: "pe_plugins e (pi_identifier (ir_resource ir)) = None"
    and eps: "fresh_ext_points e (ir_resource ir)"
  shows "wpe (cp_install_plugin i) (installed R k r (pi_identifier (ir_resource ir)) e) (\<lambda>_. False) e"
proof -
  let ?id = "pi_identifier (ir_resource ir)"
  have mem: "pe_mem e = []" using idle by (auto simp: idle_def env_ok_def dest: tabs_mem)
  have ir: "pe_infos e i = Some ir" "0 < ir_usage_count ir" "info_ok R k (ir_resource ir)"
    using i by (auto simp: installable_def)
  have fin: "installed R k r ?id e CP_OK e'"
    if "pe_objs e' = (pe_objs e)(pe_next e \<mapsto> fresh_plugin i)" "pe_next e' = pe_next e + 1"
      "pe_plugins e' = (pe_plugins e)(?id \<mapsto> pe_next e)"
      "pe_infos e' = (pe_infos e)(i \<mapsto> ir\<lparr>ir_usage_count := ir_usage_count ir + 1\<rparr>)"
      "pe_started_plugins e' = pe_started_plugins e" "pe_mem e' = pe_mem e" "pe_scan e' = pe_scan e"
      "pe_cp_version e' = pe_cp_version e" "pe_cp_abi e' = pe_cp_abi e" "pe_run_funcs e' = pe_run_funcs e" for e'
    unfolding installed_def
    using idle_install [OF idle ir new that] that(1,3) by (simp add: sta_upd fresh_plugin_def)
  have d: "distinct (map snd (enumerate 0 (pi_ext_points (ir_resource ir))))"
    and f: "\<forall>ep \<in> set (map snd (enumerate 0 (pi_ext_points (ir_resource ir)))). pe_ext_points e ep = None"
    using eps by (simp_all add: fresh_ext_points_def)
  have "wpe (register_ext_points i (enumerate 0 (pi_ext_points (ir_resource ir))))
      (\<lambda>s. wpe (if s \<noteq> CP_OK then ret (s, pe_next e)
         else bnd (register_extensions i (enumerate 0 (pi_extensions (ir_resource ir)))) (\<lambda>t. ret (t, pe_next e)))
        (\<lambda>(s, rp). wpe (if s = CP_OK then sq (log_p (PluginEvent ?id UNINSTALLED INSTALLED)) (ret CP_OK)
           else sq (when_p (rp \<noteq> 0) (upd (\<lambda>e. e\<lparr>pe_objs := (pe_objs e)(rp := None)\<rparr>))) (sq (unregister_extensions i) (ret s)))
          (installed R k r ?id e) (\<lambda>_. False)) (\<lambda>_. False)) (\<lambda>_. False) e1"
    if "e1 = e\<lparr>pe_infos := (pe_infos e)(i \<mapsto> ir\<lparr>ir_usage_count := ir_usage_count ir + 1\<rparr>), pe_next := pe_next e + 1,
      pe_objs := (pe_objs e)(pe_next e \<mapsto> fresh_plugin i), pe_plugins := (pe_plugins e)(?id \<mapsto> pe_next e)\<rparr>" for e1
    unfolding that
    by (rule register_ext_points_ok [OF _ d]; (use f mem in simp)?) (rule register_extensions_ok; simp add: mem leaf; rule fin; simp)
  then show ?thesis
    using ir(1) new mem
    by (simp add: cp_install_plugin_def the_info_def install_state_def cpi_use_info_def leaf)
      (erule wpe_mono; simp add: case_prod_beta)
qed

text \<open>A second plug-in of the same name is refused.\<close>

lemma install_plugin_conflicts:
  assumes idle: "idle R k r e" and i: "pe_infos e i = Some ir" and old: "pe_plugins e (pi_identifier (ir_resource ir)) \<noteq> None"
  shows "wpe (cp_install_plugin i) (\<lambda>s e'. s = CP_ERR_CONFLICT \<and> idle R k r e' \<and> pe_objs e' = pe_objs e \<and> pe_plugins e' = pe_plugins e)
    (\<lambda>_. False) e"
proof -
  obtain a where "pe_plugins e (pi_identifier (ir_resource ir)) = Some a" using old by blast
  with i show ?thesis
    by (simp add: cp_install_plugin_def the_info_def) (rule wpe_unregister [OF i], simp add: idle_ext_tables [OF idle])
qed

section \<open>Descriptors\<close>

definition in_use :: "plugin_env \<Rightarrow> nat \<Rightarrow> bool" where
  "in_use e i \<longleftrightarrow> (\<exists>a \<in> set [0..<pe_next e]. map_option cp_info (pe_objs e a) = Some i)"

lemma in_useI:
  assumes idle: "idle R k r e" and p: "pe_objs e a = Some p"
  shows "in_use e (cp_info p)"
proof -
  have "a < pe_next e" using idle p unfolding idle_def env_ok_def tabs_def by blast
  with p show ?thesis by (auto simp: in_use_def intro!: bexI [of _ a])
qed

text \<open>Only descriptors change that are no plug-in's, or their counts to another positive one.\<close>

lemma idle_infos:
  assumes idle: "idle R k r e"
    and x: "in_use e i \<Longrightarrow> \<exists>ir ir'. pe_infos e i = Some ir \<and> x = Some ir' \<and> ir_resource ir' = ir_resource ir \<and> 0 < ir_usage_count ir'"
  shows "idle R k r (e\<lparr>pe_infos := (pe_infos e)(i := x)\<rparr>)"
proof -
  let ?e = "e\<lparr>pe_infos := (pe_infos e)(i := x)\<rparr>"
  have t: "tabs R k r e" using idle by (simp add: idle_def env_ok_def)
  have keep: "\<exists>ip'. pe_infos ?e (cp_info p) = Some ip' \<and> ir_resource ip' = ir_resource ip \<and> 0 < ir_usage_count ip'"
    if p: "pe_objs e a = Some p" "pe_infos e (cp_info p) = Some ip" for a p ip
    using x in_useI [OF idle p(1)] tabs_info(6) [OF t p] p(2) by auto
  have "described R k r ?e a (cp_info p)" if p: "pe_objs e a = Some p" for a p
  proof -
    obtain ip where ip: "pe_infos e (cp_info p) = Some ip" using tabs_obj [OF t p] .
    obtain ip' where "pe_infos ?e (cp_info p) = Some ip'" "ir_resource ip' = ir_resource ip" "0 < ir_usage_count ip'"
      using keep [OF p ip] by blast
    with tabs_info [OF t p ip] show ?thesis unfolding described_def by simp
  qed
  moreover have "\<exists>p ir. pe_objs e a = Some p \<and> pe_infos ?e (cp_info p) = Some ir \<and> pi_identifier (ir_resource ir) = pid"
    if pid: "pe_plugins e pid = Some a" for pid a
  proof -
    obtain p ip where p: "pe_objs e a = Some p" "pe_infos e (cp_info p) = Some ip" "pi_identifier (ir_resource ip) = pid"
      using tabs_plugin [OF t pid] .
    with keep [OF p(1,2)] show ?thesis by fastforce
  qed
  moreover have "0 < a \<and> a < pe_next e" if "pe_objs e a = Some p" for a p
    using t that unfolding tabs_def by blast
  ultimately have "tabs R k r ?e" using t unfolding tabs_def surroundings_def by simp
  then show ?thesis using idle by (simp add: idle_def env_ok_def)
qed

section \<open>Calls\<close>

lemma pred_option_code [code]: "pred_option P None = True" "pred_option P (Some x) = P x"
  by simp_all

datatype plug_call =
    RegisterInfo nat plugin_info | ReleaseInfo nat | InstallPlugin nat
  | StartPlugin ident | StopPlugin nat ident | StopPlugins nat
  | UninstallPlugin nat ident | UninstallPlugins nat | PluginState ident

datatype plug_answer = PStatus cp_status | PState pstate | PDone

definition done_p :: "unit cp \<Rightarrow> plug_answer cp" where
  "done_p m = sq m (ret PDone)"

definition status_p :: "cp_status cp \<Rightarrow> plug_answer cp" where
  "status_p m = bnd m (\<lambda>s. ret (PStatus s))"

fun run_plug :: "nat \<Rightarrow> plug_call \<Rightarrow> plug_answer cp" where
  "run_plug n (RegisterInfo i info) = status_p (cpi_register_info i info)"
| "run_plug n (ReleaseInfo i) = done_p (cpi_release_info i)"
| "run_plug n (InstallPlugin i) = status_p (cp_install_plugin i)"
| "run_plug n (StartPlugin pid) = status_p (cp_start_plugin n pid)"
| "run_plug n (StopPlugin c pid) = status_p (cp_stop_plugin n c pid)"
| "run_plug n (StopPlugins c) = done_p (cp_stop_plugins n c)"
| "run_plug n (UninstallPlugin c pid) = status_p (cp_uninstall_plugin n c pid)"
| "run_plug n (UninstallPlugins c) = done_p (cp_uninstall_plugins n c)"
| "run_plug n (PluginState pid) = bnd (cp_get_plugin_state pid) (\<lambda>s. ret (PState s))"

text \<open>
  What the caller has to see to.  A descriptor is put at an address of its own; the client releases
  no reference that a plug-in holds; a plug-in imports plug-ins of smaller rank only, its versions
  can be compared, and its extension points are new.
\<close>

fun plug_ok :: "(ident \<Rightarrow> nat) \<Rightarrow> nat \<Rightarrow> plug_call \<Rightarrow> plugin_env \<Rightarrow> bool" where
  "plug_ok R k (RegisterInfo i info) e = (pe_infos e i = None)"
| "plug_ok R k (ReleaseInfo i) e =
     (case pe_infos e i of None \<Rightarrow> False | Some ir \<Rightarrow> 1 < ir_usage_count ir \<or> \<not> in_use e i)"
| "plug_ok R k (InstallPlugin i) e =
     (case pe_infos e i of None \<Rightarrow> False
      | Some ir \<Rightarrow> pe_plugins e (pi_identifier (ir_resource ir)) \<noteq> None \<or>
          0 < ir_usage_count ir \<and> info_ok R k (ir_resource ir) \<and> fresh_ext_points e (ir_resource ir))"
| "plug_ok R k c e = True"

definition plug_inv :: "(ident \<Rightarrow> nat) \<Rightarrow> nat \<Rightarrow> plugin_env \<Rightarrow> bool" where
  "plug_inv R k e \<longleftrightarrow> (\<exists>r. idle R k r e)"

lemma plug_invI: "idle R k r e \<Longrightarrow> plug_inv R k e"
  by (auto simp: plug_inv_def)

definition runs_well :: "(ident \<Rightarrow> nat) \<Rightarrow> nat \<Rightarrow> 'a cp \<Rightarrow> plugin_env \<Rightarrow> bool" where
  "runs_well R k m e \<longleftrightarrow> wpe m (\<lambda>_. plug_inv R k) (\<lambda>_. False) e"

lemma runs_wellI: "wpe m Q (\<lambda>_. False) e \<Longrightarrow> (\<And>x e'. Q x e' \<Longrightarrow> plug_inv R k e') \<Longrightarrow> runs_well R k m e"
  unfolding runs_well_def by (erule wpe_mono) simp_all

lemma runs_well_wrap [simp]:
  "runs_well R k (status_p m) e = runs_well R k m e" "runs_well R k (done_p m') e = runs_well R k m' e"
  by (simp_all add: runs_well_def status_p_def done_p_def)

lemma plugin_live:
  assumes "idle R k r e" "pe_plugins e pid = Some a"
  shows "a \<noteq> 0" "pe_objs e a \<noteq> None" "r a = R pid" "r a < k"
proof -
  have t: "tabs R k r e" using assms(1) by (simp add: idle_def env_ok_def)
  obtain p ir where p: "pe_objs e a = Some p" "pe_infos e (cp_info p) = Some ir" "pi_identifier (ir_resource ir) = pid"
    using tabs_plugin [OF t assms(2)] .
  with tabs_info [OF t p(1,2)] show "a \<noteq> 0" "pe_objs e a \<noteq> None" "r a = R pid" "r a < k" by auto
qed

lemma install_runs_well:
  assumes idle: "idle R k r e" and ok: "plug_ok R k (InstallPlugin i) e"
  shows "runs_well R k (cp_install_plugin i) e"
proof -
  obtain ir where ir: "pe_infos e i = Some ir" using ok by (auto split: option.splits)
  show ?thesis
  proof (cases "pe_plugins e (pi_identifier (ir_resource ir))")
    case None
    then have "installable R k e i ir" "fresh_ext_points e (ir_resource ir)" using ok ir by (auto simp: installable_def)
    then show ?thesis by (rule runs_wellI [OF install_plugin_installs [OF idle _ None]]) (auto simp: installed_def intro: plug_invI)
  next
    case (Some a)
    then show ?thesis by (intro runs_wellI [OF install_plugin_conflicts [OF idle ir]]) (auto intro: plug_invI)
  qed
qed

lemma release_runs_well:
  assumes idle: "idle R k r e" and ok: "plug_ok R k (ReleaseInfo i) e"
  shows "runs_well R k (cpi_release_info i) e"
proof -
  obtain ir where ir: "pe_infos e i = Some ir" "1 < ir_usage_count ir \<or> \<not> in_use e i" using ok by (auto split: option.splits)
  have "idle R k r (e\<lparr>pe_infos := (pe_infos e)(i := if ir_usage_count ir - 1 = 0 then None else Some (ir\<lparr>ir_usage_count := ir_usage_count ir - 1\<rparr>))\<rparr>)"
    using ir by (intro idle_infos [OF idle]) auto
  then show ?thesis using ir(1) by (auto simp: runs_well_def cpi_release_info_def intro: plug_invI)
qed

lemma register_runs_well:
  assumes idle: "idle R k r e" and ok: "pe_infos e i = None"
  shows "runs_well R k (cpi_register_info i info) e"
proof -
  have mem: "pe_mem e = []" and t: "tabs R k r e" using idle by (auto simp: idle_def env_ok_def dest: tabs_mem)
  have "\<not> in_use e i" using ok tabs_obj [OF t] by (force simp: in_use_def)
  then have "idle R k r (e\<lparr>pe_infos := (pe_infos e)(i := Some \<lparr>ir_resource = info, ir_usage_count = 1\<rparr>)\<rparr>)"
    by (intro idle_infos [OF idle]) simp
  then show ?thesis using mem by (auto simp: runs_well_def cpi_register_info_def leaf intro: plug_invI)
qed

text \<open>A call that names a plug-in does nothing when there is none of this name.\<close>

lemma runs_well_named:
  assumes "plug_inv R k e" and "\<And>a. pe_plugins e pid = Some a \<Longrightarrow> runs_well R k (m a) e"
  shows "runs_well R k (bnd (rd (\<lambda>e. pe_plugins e pid)) (\<lambda>node. case node of None \<Rightarrow> ret x | Some a \<Rightarrow> m a)) e"
  using assms by (cases "pe_plugins e pid") (simp_all add: runs_well_def)

lemma run_plug_runs_well:
  assumes inv: "plug_inv R k e" and ok: "plug_ok R k c e"
  shows "runs_well R k (run_plug k c) e"
proof -
  obtain r where idle: "idle R k r e" using inv by (auto simp: plug_inv_def)
  note live = plugin_live [OF idle]
  show ?thesis
  proof (cases c)
    case (StartPlugin pid)
    have "runs_well R k (cpi_start_plugin k a) e" if "pe_plugins e pid = Some a" for a
      by (rule runs_wellI [OF cpi_start_plugin_starts [OF idle live(2,4) [OF that]]]) (auto simp: start_spec_def intro: plug_invI)
    with StartPlugin show ?thesis by (simp add: cp_start_plugin_def runs_well_named [OF inv])
  next
    case (StopPlugin x pid)
    have "runs_well R k (sq (stop_plugin k x a) (ret CP_OK)) e" if "pe_plugins e pid = Some a" for a
      using runs_wellI [OF stop_plugin_stops [OF idle live(2) [OF that] order_refl], of R k] by (auto simp: stop_spec_def runs_well_def intro: plug_invI)
    with StopPlugin show ?thesis by (simp add: cp_stop_plugin_def runs_well_named [OF inv])
  next
    case (StopPlugins x)
    have "wpe (cp_stop_plugins k x) (\<lambda>_. all_stopped R k r e) (\<lambda>_. False) e"
      using stop_all_stops [OF order_refl idle, of "Suc _"] by (simp add: cp_stop_plugins_def del: stop_all.simps)
    then have "runs_well R k (cp_stop_plugins k x) e" by (rule runs_wellI) (auto simp: all_stopped_def intro: plug_invI)
    with StopPlugins show ?thesis by simp
  next
    case (UninstallPlugin x pid)
    have "runs_well R k (sq (uninstall_plugin k x a) (ret CP_OK)) e" if "pe_plugins e pid = Some a" for a
      using runs_wellI [OF uninstall_plugin_uninstalls [OF idle that order_refl], of R k] by (auto simp: uninstalled_def runs_well_def intro: plug_invI)
    with UninstallPlugin show ?thesis by (simp add: cp_uninstall_plugin_def runs_well_named [OF inv])
  next
    case (UninstallPlugins x)
    have "runs_well R k (cp_uninstall_plugins k x) e"
      by (rule runs_wellI [OF uninstall_plugins_uninstalls [OF idle order_refl]]) (auto intro: plug_invI)
    with UninstallPlugins show ?thesis by simp
  next
    case (PluginState pid)
    have "runs_well R k (bnd (the_plugin a) (\<lambda>p. ret (cp_state p))) e" if "pe_plugins e pid = Some a" for a
      using live(1,2) [OF that] inv by (auto simp: runs_well_def leaf)
    then have "runs_well R k (cp_get_plugin_state pid) e"
      unfolding cp_get_plugin_state_def by (rule runs_well_named [OF inv])
    with PluginState show ?thesis by (simp add: runs_well_def)
  qed (use ok in \<open>simp_all add: install_runs_well [OF idle] release_runs_well [OF idle] register_runs_well [OF idle]\<close>)
qed

interpretation plugins: total_session "plug_inv R k" "run_plug k" "plug_ok R k" for R k
proof unfold_locales
  fix e c assume "plug_inv R k e" "plug_ok R k c e"
  then have "wpe (run_plug k c) (\<lambda>_. plug_inv R k) (\<lambda>_. False) e" using run_plug_runs_well by (simp add: runs_well_def)
  then show "\<exists>x e'. run_plug k c e = Inr (x, e') \<and> plug_inv R k e'" by (rule wpe_no_fault)
qed

section \<open>Evaluation\<close>

text \<open>
  Programs unfold only where they meet a state, so that evaluation follows the run; \<open>plug_rec\<close> are the
  equations that would unfold elsewhere.
\<close>

lemma run_if: "(if b then m else n) e = (if b then m e else n e)"
  by simp

lemmas plug_run =
  malloc_p_def [THEN fun_cong] answer_def [THEN fun_cong] log_p_def [THEN fun_cong]
  the_plugin_def [THEN fun_cong] set_plugin_def [THEN fun_cong] the_info_def [THEN fun_cong]
  info_of_def [THEN fun_cong] change_state_def [THEN fun_cong] set_add_def [THEN fun_cong]
  imported_list_def [THEN fun_cong] importing_add_def [THEN fun_cong] importing_remove_def [THEN fun_cong]
  cpi_use_info_def [THEN fun_cong] cpi_release_info_def [THEN fun_cong] cpi_register_info_def [THEN fun_cong]
  cpi_new_context_def [THEN fun_cong] cpi_free_context_def [THEN fun_cong]
  unregister_extensions_def [THEN fun_cong] new_extension_list_def [THEN fun_cong]
  install_state_def [THEN fun_cong] cp_install_plugin_def [THEN fun_cong]
  unresolve_plugin_runtime_def [THEN fun_cong] cpluff_compatible_def [THEN fun_cong]
  load_runtime_def [THEN fun_cong] resolve_plugin_runtime_def [THEN fun_cong] version_clash_def [THEN fun_cong]
  resolve_plugin_import_def [THEN fun_cong] assert_processed_zero_def [THEN fun_cong]
  resolve_plugin_def [THEN fun_cong] start_failed_def [THEN fun_cong] start_instance_def [THEN fun_cong]
  start_plugin_runtime_def [THEN fun_cong] warn_dependency_loop_def [THEN fun_cong]
  cpi_start_plugin_def [THEN fun_cong] cp_start_plugin_def [THEN fun_cong] get_context_def [THEN fun_cong]
  set_context_def [THEN fun_cong] remove_dependency_def [THEN fun_cong] cp_release_symbol_def [THEN fun_cong]
  cpi_stop_plugin_run_def [THEN fun_cong] stop_instance_def [THEN fun_cong]
  stop_plugin_runtime_def [THEN fun_cong] importing_list_def [THEN fun_cong] stop_plugin_def [THEN fun_cong]
  cp_stop_plugin_def [THEN fun_cong] cp_stop_plugins_def [THEN fun_cong] unresolve_plugin_def [THEN fun_cong]
  free_registered_plugin_def [THEN fun_cong] uninstall_plugin_def [THEN fun_cong]
  cp_uninstall_plugin_def [THEN fun_cong] cp_uninstall_plugins_def [THEN fun_cong]
  cp_get_plugin_state_def [THEN fun_cong] next_of.simps [THEN fun_cong] register_ext_points.simps [THEN fun_cong]
  register_extensions.simps [THEN fun_cong] resolve_imports.simps [THEN fun_cong]
  resolve_plugin_prel_rec.simps [THEN fun_cong] each.simps [THEN fun_cong]
  resolve_plugin_commit_rec.simps [THEN fun_cong] drain_imported.simps [THEN fun_cong]
  resolve_plugin_failed_rec.simps [THEN fun_cong] start_imports.simps [THEN fun_cong]
  start_plugin_rec.simps [THEN fun_cong] release_loop.simps [THEN fun_cong] walk.simps [THEN fun_cong]
  stop_plugin_rec.simps [THEN fun_cong] stop_all.simps [THEN fun_cong] unresolve_loop.simps [THEN fun_cong]
  unresolve_plugin_rec.simps [THEN fun_cong] uninstall_all.simps [THEN fun_cong]
  status_p_def [THEN fun_cong] done_p_def [THEN fun_cong] run_plug.simps [THEN fun_cong] run_all.simps [THEN fun_cong] run run_if

lemmas plug_rec =
  next_of.simps register_ext_points.simps register_extensions.simps resolve_imports.simps
  resolve_plugin_prel_rec.simps each.simps resolve_plugin_commit_rec.simps drain_imported.simps
  resolve_plugin_failed_rec.simps start_imports.simps start_plugin_rec.simps release_loop.simps walk.simps
  stop_plugin_rec.simps stop_all.simps unresolve_loop.simps unresolve_plugin_rec.simps uninstall_all.simps
  run_plug.simps run_all.simps

lemmas plug_values = fresh_plugin_def less_eq_pstate_def less_pstate_def head_of_def table_empty_def
  drop_ext_point_def drop_extension_def

end
