(* ===== verification/Cpluff_Live.thy ===== *)
theory Cpluff_Live
  imports Cpluff_Start
begin

text \<open>
  When starting succeeds: the plug-ins that are needed are installed in versions that fit, their
  libraries load, and their create and start functions answer well.
\<close>

section \<open>What the surroundings do\<close>

text \<open>The linker stays what it is, and an empty script, of plug-ins that answer well, stays empty.\<close>

definition helpful :: "(ident \<Rightarrow> bool) \<Rightarrow> (ident \<Rightarrow> ident \<Rightarrow> plugin_runtime option) \<Rightarrow> ident \<Rightarrow> plugin_env \<Rightarrow> bool" where
  "helpful d f x e \<longleftrightarrow> pe_dlopen e = d \<and> pe_funcs e = f \<and> pe_shrext e = x \<and> pe_script e = []"

abbreviation stays :: "(ident \<Rightarrow> bool) \<Rightarrow> (ident \<Rightarrow> ident \<Rightarrow> plugin_runtime option) \<Rightarrow> ident \<Rightarrow> 'a cp \<Rightarrow> bool" where
  "stays d f x \<equiv> keeps (helpful d f x) (\<lambda>_. True)"

lemma stays_upd: "(\<And>e. pe_dlopen (g e) = pe_dlopen e \<and> pe_funcs (g e) = pe_funcs e \<and> pe_shrext (g e) = pe_shrext e \<and>
    pe_script (g e) = pe_script e) \<Longrightarrow> stays d f x (upd g)"
  by (rule keeps_upd) (simp add: helpful_def)

lemma stays_malloc [keeps_intro]: "stays d f x malloc_p"
  by (simp add: keeps_def wpe_def malloc_p_def helpful_def split: list.split)

lemma stays_answer [keeps_intro]: "stays d f x answer"
  by (simp add: keeps_def wpe_def answer_def helpful_def)

lemma stays_lift [keeps_intro]: "stays d f x (lift_r y)"
  by (rule keeps_lift_r) simp

lemma stays_access [keeps_intro]:
  "stays d f x (log_p y)" "stays d f x (the_plugin a)" "stays d f x (set_plugin a h)" "stays d f x (the_info i)"
  "stays d f x (info_of a)" "stays d f x (change_state a s)" "stays d f x (set_add a xs)" "stays d f x (imported_list a)"
  "stays d f x (importing_add a b)" "stays d f x (importing_remove a b)" "stays d f x cpi_new_context" "stays d f x (cpi_free_context a)"
  unfolding log_p_def the_plugin_def set_plugin_def the_info_def info_of_def change_state_def set_add_def imported_list_def
    importing_add_def importing_remove_def cpi_new_context_def cpi_free_context_def
  by (intro keeps_intro stays_upd; simp)+

lemma stays_runtime [keeps_intro]:
  "stays d f x (unresolve_plugin_runtime a)" "stays d f x (cpluff_compatible i)" "stays d f x (load_runtime a i lib)"
  "stays d f x (resolve_plugin_runtime a)" "stays d f x (resolve_plugin_import im)"
  unfolding resolve_plugin_runtime_def load_runtime_def unresolve_plugin_runtime_def cpluff_compatible_def
    resolve_plugin_import_def version_clash_def
  by (intro keeps_intro; simp)+

lemma stays_imports: "(\<And>ip. stays d f x (rec ip)) \<Longrightarrow> stays d f x (resolve_imports rec a js)"
  by (induction js) (auto intro!: keeps_intro)

lemma stays_prel_rec [keeps_intro]: "stays d f x (resolve_plugin_prel_rec n a)"
  by (induction n arbitrary: a) (auto intro!: keeps_intro stays_imports)

lemma stays_each: "(\<And>y. stays d f x (body y)) \<Longrightarrow> stays d f x (each body ys)"
  by (induction ys) (auto intro!: keeps_intro)

lemma stays_zero [keeps_intro]: "stays d f x assert_processed_zero"
  unfolding assert_processed_zero_def by (intro keeps_intro stays_each; simp)

lemma stays_commit_rec [keeps_intro]: "stays d f x (resolve_plugin_commit_rec n a)"
  by (induction n arbitrary: a) (auto intro!: keeps_intro stays_each)

lemma stays_drain: "(\<And>y. stays d f x (rec y)) \<Longrightarrow> stays d f x (drain_imported n rec a)"
  by (induction n) (auto intro!: keeps_intro split: list.split)

lemma stays_failed_rec [keeps_intro]: "stays d f x (resolve_plugin_failed_rec n a)"
  by (induction n arbitrary: a) (auto intro!: keeps_intro stays_drain simp del: drain_imported.simps)

lemma stays_resolve [keeps_intro]: "stays d f x (resolve_plugin n a)"
  unfolding resolve_plugin_def by (intro keeps_intro)

lemma stays_start [keeps_intro]: "stays d f x (start_plugin_runtime a)"
  unfolding start_plugin_runtime_def start_instance_def start_failed_def
  by (intro keeps_intro stays_upd; simp)

lemma stays_start_imports: "(\<And>ip st. stays d f x (rec ip st)) \<Longrightarrow> stays d f x (start_imports rec ips st)"
  by (induction ips arbitrary: st) (auto intro!: keeps_intro)

lemma stays_start_rec [keeps_intro]: "stays d f x (start_plugin_rec n a st)"
  by (induction n arbitrary: a st) (auto intro!: keeps_intro stays_start_imports simp: warn_dependency_loop_def)

section \<open>Plug-ins that can be resolved\<close>

definition in_range :: "str \<Rightarrow> str option \<Rightarrow> str \<Rightarrow> bool" where
  "in_range v low w \<longleftrightarrow>
     (case low of
        None \<Rightarrow> cpi_vercmp (Some v) (Some w) = Inr 0
      | Some l \<Rightarrow>
          (case (cpi_vercmp (Some v) (Some w), cpi_vercmp (Some v) (Some l)) of (Inr c, Inr d) \<Rightarrow> c \<le> 0 \<and> 0 \<le> d | _ \<Rightarrow> False))"

definition loads :: "plugin_env \<Rightarrow> plugin_info \<Rightarrow> bool" where
  "loads e i \<longleftrightarrow>
     (case pi_runtime_lib_name i of
        None \<Rightarrow> True
      | Some lib \<Rightarrow>
          (case pi_req_cpluff_version i of None \<Rightarrow> True | Some req \<Rightarrow> in_range req (pe_cp_abi e) (pe_cp_version e)) \<and>
          pe_dlopen e (runtime_path (pe_shrext e) i lib) \<and>
          (case pi_runtime_funcs_symbol i of
             None \<Rightarrow> True
           | Some name \<Rightarrow>
               (case pe_funcs e (runtime_path (pe_shrext e) i lib) name of
                  None \<Rightarrow> False
                | Some rt \<Rightarrow> rt_create rt \<and> rt_destroy rt)))"

definition installed_info :: "plugin_env \<Rightarrow> nat \<Rightarrow> plugin_info option" where
  "installed_info e a = Option.bind (map_option cp_info (pe_objs e a)) (\<lambda>i. map_option ir_resource (pe_infos e i))"

definition import_fits :: "plugin_env \<Rightarrow> nat set \<Rightarrow> plugin_import \<Rightarrow> bool" where
  "import_fits e S im \<longleftrightarrow>
     (case pe_plugins e (im_plugin_id im) of
        None \<Rightarrow> im_optional im
      | Some ip \<Rightarrow>
          ip \<in> S \<and>
          (case im_version im of
             None \<Rightarrow> True
           | Some v \<Rightarrow>
               (case Option.bind (installed_info e ip) (\<lambda>i. map_option (Pair i) (pi_version i)) of
                  None \<Rightarrow> False
                | Some (i, w) \<Rightarrow> in_range v (pi_abi_bw_compatibility i) w)))"

text \<open>A set of plug-ins that need nothing else, all of them fit to be loaded.\<close>

definition ready :: "plugin_env \<Rightarrow> nat set \<Rightarrow> bool" where
  "ready e S \<longleftrightarrow>
     pe_script e = [] \<and>
     (\<forall>a \<in> S. \<exists>i. installed_info e a = Some i \<and> loads e i \<and> (\<forall>im \<in> set (pi_imports i). import_fits e S im))"

lemma ready_script: "ready e S \<Longrightarrow> pe_script e = []"
  by (simp add: ready_def)

lemma ready_keep:
  assumes "ready e S" "same e e'" "helpful (pe_dlopen e) (pe_funcs e) (pe_shrext e) e'"
  shows "ready e' S"
proof -
  have "installed_info e' a = installed_info e a" for a
    using same_obj [OF assms(2), of a] assms(2) by (simp add: installed_info_def same_def)
  moreover have "pe_plugins e' = pe_plugins e" "pe_cp_abi e' = pe_cp_abi e" "pe_cp_version e' = pe_cp_version e"
    using assms(2) by (auto simp: same_def)
  ultimately show ?thesis
    using assms(1,3) by (simp add: ready_def helpful_def loads_def import_fits_def cong: option.case_cong)
qed

text \<open>A program that keeps to the invariant and the linker keeps the plug-ins ready.\<close>

lemma wpe_ready:
  assumes "wpe m Q (\<lambda>_. False) e" "ready e S" "\<And>d f x. stays d f x m" "\<And>y e'. Q y e' \<Longrightarrow> same e e'"
  shows "wpe m (\<lambda>y e'. Q y e' \<and> ready e' S) (\<lambda>_. False) e"
proof -
  let ?h = "helpful (pe_dlopen e) (pe_funcs e) (pe_shrext e)"
  have "?h e" using assms(2) by (simp add: helpful_def ready_script)
  with assms(3) have "wpe m (\<lambda>_. ?h) (\<lambda>_. True) e" by (rule keepsD)
  from wpe_conj [OF assms(1) this] show ?thesis
    by (rule wpe_mono) (use assms(2,4) ready_keep in auto)
qed

lemma loads_compatible:
  assumes "loads e i" "pi_runtime_lib_name i = Some lib"
  shows "wpe (cpluff_compatible i) Q E e = Q True e"
  using assms
  by (auto simp: wpe_def loads_def cpluff_compatible_def in_range_def run split: option.splits sum.splits)

lemma fits_found:
  assumes "import_fits e S im" "pe_plugins e (im_plugin_id im) = Some ip" "ip \<noteq> 0"
  shows "wpe (resolve_plugin_import im) Q E e = Q (CP_OK, ip) e" "ip \<in> S"
proof -
  show "ip \<in> S" using assms by (simp add: import_fits_def)
  have "version_clash im ip e = Inr (False, e)"
  proof (cases "im_version im")
    case None
    then show ?thesis by (simp add: version_clash_def run)
  next
    case (Some v)
    with assms obtain i w where i: "installed_info e ip = Some i" "pi_version i = Some w" "in_range v (pi_abi_bw_compatibility i) w"
      by (auto simp: import_fits_def bind_eq_Some_conv split: option.splits)
    have "info_of ip e = Inr (i, e)"
      using i(1) assms(3) by (auto simp: installed_info_def bind_eq_Some_conv info_of_def the_plugin_def the_info_def run)
    with Some i(2,3) show ?thesis
      by (auto simp: version_clash_def in_range_def run split: option.splits sum.splits)
  qed
  then show "wpe (resolve_plugin_import im) Q E e = Q (CP_OK, ip) e"
    using assms(2) by (simp add: wpe_def resolve_plugin_import_def run)
qed

lemma fits_missing:
  assumes "import_fits e S im" "pe_plugins e (im_plugin_id im) = None"
  shows "wpe (resolve_plugin_import im) Q E e = Q (CP_OK, 0) e"
  using assms by (simp add: wpe_def import_fits_def resolve_plugin_import_def run)

section \<open>Resolving succeeds\<close>

lemma runtime_loads:
  assumes t: "tabs R k r e" and p: "pe_objs e a = Some p" "shape p" "cp_state p = INSTALLED"
    and i: "installed_info e a = Some i" "loads e i"
  shows "wpe (resolve_plugin_runtime a) (\<lambda>s _. s = CP_OK) (\<lambda>_. False) e"
proof -
  obtain ir where ir: "a \<noteq> 0" "pe_infos e (cp_info p) = Some ir" using tabs_obj [OF t p(1)] .
  have ii: "ir_resource ir = i" using i(1) p(1) ir(2) by (simp add: installed_info_def)
  have none: "cp_runtime_lib p = None" using p by (auto simp: shape_def)
  have mem: "pe_mem e = []" using t by (rule tabs_mem)
  show ?thesis
  proof (cases "pi_runtime_lib_name i")
    case None
    with p(1) ir ii none show ?thesis by (simp add: resolve_plugin_runtime_def leaf)
  next
    case (Some lib)
    note c = loads_compatible [OF i(2) Some]
    have "pe_dlopen e (runtime_path (pe_shrext e) i lib)" using i(2) Some by (auto simp: loads_def)
    moreover have "pi_runtime_funcs_symbol i = Some name \<Longrightarrow>
        \<exists>rt. pe_funcs e (runtime_path (pe_shrext e) i lib) name = Some rt \<and> rt_create rt \<and> rt_destroy rt" for name
      using i(2) Some by (auto simp: loads_def split: option.splits)
    ultimately show ?thesis
      using Some p(1) ir ii none mem
      by (cases "pi_runtime_funcs_symbol i") (auto simp: resolve_plugin_runtime_def load_runtime_def leaf c)
  qed
qed

text \<open>A resolution that is known to succeed, with what it does to the invariant.\<close>

definition resolves :: "(ident \<Rightarrow> nat) \<Rightarrow> nat \<Rightarrow> (nat \<Rightarrow> nat) \<Rightarrow> nat set \<Rightarrow> nat set \<Rightarrow> nat \<Rightarrow> plugin_env \<Rightarrow> cp_status \<Rightarrow> plugin_env \<Rightarrow> bool" where
  "resolves R k r S D a e s e' \<longleftrightarrow> s = CP_OK \<and> prel_post R k r D a e CP_OK e' \<and> ready e' S"

lemma rec_resolves:
  assumes "prel_pre R k r D a e" "r a < n" "ready e S" "wpe (resolve_plugin_prel_rec n a) (\<lambda>s _. s = CP_OK) (\<lambda>_. True) e"
  shows "wpe (resolve_plugin_prel_rec n a) (resolves R k r S D a e) (\<lambda>_. False) e"
proof -
  have "wpe (resolve_plugin_prel_rec n a) (\<lambda>s e'. prel_post R k r D a e s e' \<and> ready e' S) (\<lambda>_. False) e"
    by (rule wpe_ready [OF prel_rec_post [OF assms(1,2)] assms(3)])
      (auto simp: prel_post_def grown_def intro: keeps_intro)
  from wpe_conj [OF this assms(4)] show ?thesis
    by (rule wpe_mono) (auto simp: resolves_def)
qed

lemma imports_succeed:
  assumes rec: "\<And>ip D e. prel_pre R k r D ip e \<Longrightarrow> r ip < r a \<Longrightarrow> ready e S \<Longrightarrow> ip \<in> S \<Longrightarrow>
      wpe (rec ip) (resolves R k r S D ip e) (\<lambda>_. False) e"
  shows "loop_pre R k r D a p e \<Longrightarrow> pe_infos e (cp_info p) = Some ir \<Longrightarrow> set js \<subseteq> set (pi_imports (ir_resource ir)) \<Longrightarrow> ready e S \<Longrightarrow> a \<in> S \<Longrightarrow>
    wpe (resolve_imports rec a js) (\<lambda>s e'. s = CP_OK \<and> ready e' S) (\<lambda>_. False) e"
proof (induction js arbitrary: p e)
  case Nil
  then show ?case by simp
next
  case (Cons im js)
  have L: "env_ok R k r {} D e" "pe_objs e a = Some p" "cp_imported p \<noteq> None"
    using Cons.prems(1) by (auto simp: loop_pre_def)
  have tabs: "tabs R k r e" using L(1) by (auto simp: env_ok_def)
  have mem: "pe_mem e = []" using tabs by (rule tabs_mem)
  have a0: "a \<noteq> 0" using tabs_info(1) [OF tabs L(2) Cons.prems(2)] .
  have fits: "import_fits e S im"
    using Cons.prems(2-5) L(2) by (auto simp: ready_def installed_info_def)
  show ?case
  proof (cases "pe_plugins e (im_plugin_id im)")
    case None
    have "wpe (resolve_imports rec a js) (\<lambda>s e'. s = CP_OK \<and> ready e' S) (\<lambda>_. False) e" using Cons by auto
    with mem show ?thesis by (simp add: leaf fits_missing [OF fits None])
  next
    case (Some ip)
    obtain q iq where q: "pe_objs e ip = Some q" "pe_infos e (cp_info q) = Some iq" "pi_identifier (ir_resource iq) = im_plugin_id im"
      using tabs_plugin [OF tabs Some] .
    have ip: "ip \<noteq> 0" "r ip < r a"
      using tabs_info [OF tabs q(1,2)] tabs_info [OF tabs L(2) Cons.prems(2)] q(3) Cons.prems(3) by (auto simp: info_ok_def)
    note found = fits_found [OF fits Some ip(1)]
    define e1 where "e1 = e\<lparr>pe_objs := tied a ip (pe_objs e)\<rparr>"
    define p1 where "p1 = p\<lparr>cp_imported := Some (ims (pe_objs e) a @ [ip])\<rparr>"
    note k = loop_link [OF Cons.prems(1) q(1) ip(2), folded e1_def p1_def]
    have p1: "cp_imported p1 = Some (ims (pe_objs e) a @ [ip])" "cp_info p1 = cp_info p" by (simp_all add: p1_def)
    have r1: "ready e1 S"
      using k(2) Cons.prems(4) by (intro ready_keep [OF Cons.prems(4)]) (auto simp: grown_def helpful_def e1_def ready_script)
    obtain xs where xs: "cp_imported p = Some xs" using L(3) by auto
    have ne: "a \<noteq> ip" using ip(2) by auto
    have "wpe (rec ip) (\<lambda>t. wpe (if t \<noteq> CP_OK \<and> t \<noteq> CP_OK_PRELIMINARY then ret t else resolve_imports rec a js)
      (\<lambda>s e'. s = CP_OK \<and> ready e' S) (\<lambda>_. False)) (\<lambda>_. False) e1"
    proof (rule wpe_mono [OF rec [OF k(1) ip(2) r1 found(2)]])
      fix t e2 assume "resolves R k r S D ip e1 t e2"
      then have t: "t = CP_OK" "prel_post R k r D ip e1 CP_OK e2" "ready e2 S" by (auto simp: resolves_def)
      have "loop_pre R k r D a p1 e2" using loop_resolved [OF Cons.prems(1) k(3) p1(1) k(4) ip(2) t(2)] .
      moreover have "pe_infos e2 (cp_info p1) = Some ir"
        using t(2) Cons.prems(2) p1(2) by (simp add: prel_post_def grown_def same_def e1_def)
      ultimately have "wpe (resolve_imports rec a js) (\<lambda>s e'. s = CP_OK \<and> ready e' S) (\<lambda>_. False) e2"
        using Cons.IH Cons.prems(3,5) t(3) by auto
      with t(1) show "wpe (if t \<noteq> CP_OK \<and> t \<noteq> CP_OK_PRELIMINARY then ret t else resolve_imports rec a js)
          (\<lambda>s e'. s = CP_OK \<and> ready e' S) (\<lambda>_. False) e2" by simp
    qed simp
    then show ?thesis
      using mem ip(1) a0 L(2) xs
      by (simp add: wpe_malloc_p found(1) wpe_imported_list [OF L(2) a0 xs]
          wpe_link [OF L(2) xs q(1) ne a0 ip(1) mem, folded e1_def] del: wpe_if wpe_sq)
  qed
qed

lemma prel_rec_succeeds:
  "prel_pre R k r D a e \<Longrightarrow> r a < n \<Longrightarrow> ready e S \<Longrightarrow> a \<in> S \<Longrightarrow>
   wpe (resolve_plugin_prel_rec n a) (\<lambda>s _. s = CP_OK) (\<lambda>_. True) e"
proof (induction n arbitrary: D a e)
  case 0
  then show ?case by simp
next
  case (Suc n)
  note pre = Suc.prems(1)
  have P: "env_ok R k r {} D e" "procs (pe_objs e) = D" "\<forall>d \<in> D. r a < r d" using pre by (auto simp: prel_pre_def)
  obtain p where p: "pe_objs e a = Some p" using pre by (auto simp: prel_pre_def)
  have tabs: "tabs R k r e" and shape: "shape p" using P(1) p by (auto simp: env_ok_def)
  have mem: "pe_mem e = []" using tabs by (rule tabs_mem)
  obtain ir where ir: "a \<noteq> 0" "pe_infos e (cp_info p) = Some ir" using tabs_obj [OF tabs p] .
  show ?case
  proof (cases "cp_state p = INSTALLED")
    case False
    then have "cp_state p \<ge> RESOLVED" using shape by (auto simp: shape_def less_eq_pstate_def)
    with p ir show ?thesis by (simp add: leaf)
  next
    case True
    define p0 where "p0 = p\<lparr>cp_processed := True, cp_imported := Some []\<rparr>"
    define e0 where "e0 = e\<lparr>pe_objs := (pe_objs e)(a \<mapsto> p0)\<rparr>"
    have "sta (pe_objs e) a = INSTALLED" using p True by (simp add: sta_def)
    note start = prel_begin [OF pre p this, folded p0_def, folded e0_def]
    have info0: "pe_infos e0 (cp_info p0) = Some ir" using ir by (simp add: e0_def p0_def)
    have r0: "ready e0 S"
      using p by (intro ready_keep [OF Suc.prems(3)]) (auto simp: same_def e0_def p0_def helpful_def ready_script [OF Suc.prems(3)])
    have rec: "wpe (resolve_plugin_prel_rec n ip) (resolves R k r S D ip e) (\<lambda>_. False) e"
      if "prel_pre R k r D ip e" "r ip < r a" "ready e S" "ip \<in> S" for ip D e
      using that Suc.prems(2) by (intro rec_resolves Suc.IH) auto
    have "wpe (resolve_imports (resolve_plugin_prel_rec n) a (pi_imports (ir_resource ir)))
        (\<lambda>s e'. loop_post R k r (insert a D) a p0 e0 s e' \<and> s = CP_OK \<and> ready e' S) (\<lambda>_. False) e0"
      using wpe_conj [OF
          resolve_imports_post [where rec = "resolve_plugin_prel_rec n", OF prel_rec_post start(1) info0 subset_refl]
          imports_succeed [where rec = "resolve_plugin_prel_rec n" and S = S, OF rec start(1) info0 subset_refl r0 Suc.prems(4)]]
        Suc.prems(2) by simp
    then have "wpe (resolve_imports (resolve_plugin_prel_rec n) a (pi_imports (ir_resource ir)))
      (\<lambda>s. wpe (if s \<noteq> CP_OK then ret s
                else
                  bnd (the_plugin a) (\<lambda>q. sq (assert_p (cp_state q = INSTALLED))
                    (bnd (resolve_plugin_runtime a) (\<lambda>t. if t \<noteq> CP_OK then ret t
                    else
                      sq (set_plugin a (\<lambda>q. q\<lparr>cp_processed := False\<rparr>))
                        (sq (change_state a RESOLVED) (ret CP_OK)))))) (\<lambda>s _. s = CP_OK) (\<lambda>_. True)) (\<lambda>_. True) e0"
    proof (rule wpe_mono)
      fix s e1
      assume A: "loop_post R k r (insert a D) a p0 e0 s e1 \<and> s = CP_OK \<and> ready e1 S"
      then obtain ys where a1: "pe_objs e1 a = Some (p0\<lparr>cp_imported := Some ys\<rparr>)"
        and L: "loop_pre R k r (insert a D) a (the (pe_objs e1 a)) e1" by (auto simp: loop_post_def)
      define q where "q = p0\<lparr>cp_imported := Some ys\<rparr>"
      have q: "pe_objs e1 a = Some q" "cp_state q = INSTALLED" using a1 True by (simp_all add: q_def p0_def)
      have t1: "tabs R k r e1" "shape q" using L q(1) by (auto simp: loop_pre_def env_ok_def)
      obtain i where i: "installed_info e1 a = Some i" "loads e1 i" using A Suc.prems(4) by (auto simp: ready_def)
      obtain jr where jr: "pe_infos e1 (cp_info q) = Some jr" using tabs_obj [OF t1(1) q(1)] .
      have "wpe (resolve_plugin_runtime a) (\<lambda>s e2. s = CP_OK \<and> pe_objs e2 a \<noteq> None \<and> same e1 e2) (\<lambda>_. False) e1"
        by (rule wpe_mono [OF wpe_conj [OF runtime_loads [OF t1(1) q(1) t1(2) q(2) i]
              wpe_resolve_runtime [where Q = "\<lambda>s e2. pe_objs e2 a \<noteq> None \<and> same e1 e2", OF t1(1) q(1) t1(2) q(2)]]])
          (auto simp: q(1))
      then have "wpe (resolve_plugin_runtime a) (\<lambda>t. wpe (if t \<noteq> CP_OK then ret t
                    else
                      sq (set_plugin a (\<lambda>q. q\<lparr>cp_processed := False\<rparr>))
                        (sq (change_state a RESOLVED) (ret CP_OK))) (\<lambda>s _. s = CP_OK) (\<lambda>_. True)) (\<lambda>_. True) e1"
      proof (rule wpe_mono)
        fix t e2 assume B: "t = CP_OK \<and> pe_objs e2 a \<noteq> None \<and> same e1 e2"
        then obtain q2 where q2: "pe_objs e2 a = Some q2" "cp_info q2 = cp_info q" using same_info [of e1 e2 a q] q(1) by auto
        have "pe_infos e2 (cp_info q2) = Some jr" using B q2(2) jr by (simp add: same_def)
        with B q2(1) ir(1) show "wpe (if t \<noteq> CP_OK then ret t
                    else
                      sq (set_plugin a (\<lambda>q. q\<lparr>cp_processed := False\<rparr>))
                        (sq (change_state a RESOLVED) (ret CP_OK))) (\<lambda>s _. s = CP_OK) (\<lambda>_. True) e2" by (simp add: leaf)
      qed simp
      with A q ir(1) show "wpe (if s \<noteq> CP_OK then ret s
                else
                  bnd (the_plugin a) (\<lambda>q. sq (assert_p (cp_state q = INSTALLED))
                    (bnd (resolve_plugin_runtime a) (\<lambda>t. if t \<noteq> CP_OK then ret t
                    else
                      sq (set_plugin a (\<lambda>q. q\<lparr>cp_processed := False\<rparr>))
                        (sq (change_state a RESOLVED) (ret CP_OK)))))) (\<lambda>s _. s = CP_OK) (\<lambda>_. True) e1"
        by (simp add: leaf)
    qed simp
    moreover have "\<not> cp_state p \<ge> RESOLVED" using True by (simp add: less_eq_pstate_def)
    ultimately show ?thesis
      using p ir True start(2,3) mem by (simp add: leaf e0_def p0_def)
  qed
qed

lemma wpe_status: "wpe (sq m (sq n (ret s))) (\<lambda>t _. t = s) (\<lambda>_. True) e"
  by (simp add: wpe_def run split: sum.split prod.split)

lemma resolve_succeeds:
  assumes "env_ok R k r {} {} e" "procs (pe_objs e) = {}" "pe_objs e a \<noteq> None" "r a < n" "ready e S" "a \<in> S"
  shows "wpe (resolve_plugin n a) (\<lambda>s e'. (resolved R k r a e s e' \<and> ready e' S) \<and> s = CP_OK) (\<lambda>_. False) e"
proof -
  have pre: "prel_pre R k r {} a e" using assms(1-3) by (simp add: prel_pre_def)
  have "wpe (resolve_plugin_prel_rec n a) (\<lambda>s. wpe (if s = CP_OK \<or> s = CP_OK_PRELIMINARY
     then sq (resolve_plugin_commit_rec n a) (sq assert_processed_zero (ret CP_OK))
     else sq (resolve_plugin_failed_rec n a) (sq assert_processed_zero (ret s))) (\<lambda>s _. s = CP_OK) (\<lambda>_. True)) (\<lambda>_. True) e"
    by (rule wpe_mono [OF prel_rec_succeeds [OF pre assms(4-6)]]) (simp_all add: wpe_status del: wpe_sq)
  then have ok: "wpe (resolve_plugin n a) (\<lambda>s _. s = CP_OK) (\<lambda>_. True) e" by (simp only: resolve_plugin_def wpe_bnd)
  have "wpe (resolve_plugin n a) (\<lambda>s e'. resolved R k r a e s e' \<and> ready e' S) (\<lambda>_. False) e"
    by (rule wpe_ready [OF resolve_plugin_resolved [OF assms(1-4)] assms(5)])
      (auto simp: resolved_def grown_def intro: keeps_intro)
  from wpe_conj [OF this ok] show ?thesis by simp
qed

section \<open>Starting succeeds\<close>

lemma runtime_starts:
  assumes i: "env_ok R k r {} {} e" and p: "pe_objs e a = Some p" "cp_state p = RESOLVED" and script: "pe_script e = []"
  shows "wpe (start_plugin_runtime a) (\<lambda>s _. s = CP_OK) (\<lambda>_. True) e"
proof -
  have tabs: "tabs R k r e" and shape: "shape p" using i p by (auto simp: env_ok_def)
  have mem: "pe_mem e = []" using tabs by (rule tabs_mem)
  obtain ir where ir: "a \<noteq> 0" "pe_infos e (cp_info p) = Some ir" using tabs_obj [OF tabs p(1)] .
  show ?thesis
  proof (cases "cp_runtime_funcs p")
    case None
    with p ir mem script show ?thesis by (simp add: start_plugin_runtime_def start_instance_def leaf)
  next
    case (Some rt)
    moreover have "rt_create rt" using shape Some by (auto simp: shape_def)
    ultimately show ?thesis
      using p ir mem script
      by (cases "cp_context p") (simp_all add: start_plugin_runtime_def start_instance_def cpi_new_context_def leaf)
  qed
qed

text \<open>Starting from a framework whose plug-ins answer well leaves it so.\<close>

lemma wpe_script:
  assumes "wpe m Q E e" "\<And>d f x. stays d f x m" "pe_script e = []"
  shows "wpe m (\<lambda>y e'. Q y e' \<and> pe_script e' = []) E e"
proof -
  have "helpful (pe_dlopen e) (pe_funcs e) (pe_shrext e) e" using assms(3) by (simp add: helpful_def)
  with assms(2) have "wpe m (\<lambda>_. helpful (pe_dlopen e) (pe_funcs e) (pe_shrext e)) (\<lambda>_. True) e" by (rule keepsD)
  from wpe_conj [OF assms(1) this] show ?thesis by (rule wpe_mono) (simp_all add: helpful_def)
qed

lemma start_imports_succeed:
  assumes rec: "\<And>ip e. env_ok R k r {} {} e \<Longrightarrow> procs (pe_objs e) = {} \<Longrightarrow> pe_objs e ip \<noteq> None \<Longrightarrow>
      sta (pe_objs e) ip \<noteq> INSTALLED \<Longrightarrow> r ip < r a \<Longrightarrow> pe_script e = [] \<Longrightarrow>
      wpe (rec ip stack) (\<lambda>x e'. (snd x = stack \<and> started R k r ip e (fst x) e') \<and> fst x = CP_OK \<and> pe_script e' = []) (\<lambda>_. False) e"
  shows "env_ok R k r {} {} e \<Longrightarrow> procs (pe_objs e) = {} \<Longrightarrow> sta (pe_objs e) a \<noteq> INSTALLED \<Longrightarrow> set ips \<subseteq> set (ims (pe_objs e) a) \<Longrightarrow>
    pe_script e = [] \<Longrightarrow> wpe (start_imports rec ips stack) (\<lambda>x e'. fst x = CP_OK \<and> pe_script e' = []) (\<lambda>_. True) e"
proof (induction ips arbitrary: e)
  case Nil
  then show ?case by simp
next
  case (Cons ip ips)
  have g: "graph r {} (pe_objs e)" and l: "levels {} (pe_objs e) (pe_started_plugins e)"
    using Cons.prems(1) by (auto simp: env_ok_def)
  have ip: "ip \<in> set (ims (pe_objs e) a)" using Cons.prems(4) by simp
  have "pe_objs e ip \<noteq> None" "r ip < r a" "sta (pe_objs e) ip \<noteq> INSTALLED"
    using graphD(1,2) [OF g ip] levelsD(2) [OF l ip Cons.prems(3)] by auto
  note rec [OF Cons.prems(1,2) this(1,3,2) Cons.prems(5)]
  then have "wpe (rec ip stack) (\<lambda>x. wpe (if fst x \<noteq> CP_OK then ret (fst x, snd x) else start_imports rec ips (snd x))
      (\<lambda>x e'. fst x = CP_OK \<and> pe_script e' = []) (\<lambda>_. True)) (\<lambda>_. True) e"
  proof (rule wpe_mono)
    fix x e1
    assume x: "(snd x = stack \<and> started R k r ip e (fst x) e1) \<and> fst x = CP_OK \<and> pe_script e1 = []"
    then have S: "env_ok R k r {} {} e1" "procs (pe_objs e1) = {}" "kept e e1"
      using Cons.prems(2) by (auto simp: started_def)
    have "sta (pe_objs e1) a = sta (pe_objs e) a \<or> sta (pe_objs e1) a = ACTIVE" using x unfolding started_def by blast
    then have ch: "sta (pe_objs e1) a \<noteq> INSTALLED" using Cons.prems(3) by auto
    have "wpe (start_imports rec ips stack) (\<lambda>x e'. fst x = CP_OK \<and> pe_script e' = []) (\<lambda>_. True) e1"
      using x Cons.prems(4) by (intro Cons.IH S ch) (auto simp: kept_ims [OF S(3)])
    with x show "wpe (if fst x \<noteq> CP_OK then ret (fst x, snd x) else start_imports rec ips (snd x))
      (\<lambda>x e'. fst x = CP_OK \<and> pe_script e' = []) (\<lambda>_. True) e1" by simp
  qed simp
  then show ?case by (simp add: case_prod_beta)
qed

lemma start_rec_succeeds:
  "env_ok R k r {} {} e \<Longrightarrow> procs (pe_objs e) = {} \<Longrightarrow> pe_objs e a \<noteq> None \<Longrightarrow> sta (pe_objs e) a \<noteq> INSTALLED \<Longrightarrow>
   \<forall>x \<in> set stack. r a < r x \<Longrightarrow> r a < n \<Longrightarrow> pe_script e = [] \<Longrightarrow>
   wpe (start_plugin_rec n a stack) (\<lambda>x e'. (snd x = stack \<and> started R k r a e (fst x) e') \<and> fst x = CP_OK \<and> pe_script e' = []) (\<lambda>_. False) e"
proof (induction n arbitrary: a stack e)
  case 0
  then show ?case by simp
next
  case (Suc n)
  have tabs: "tabs R k r e" and l: "levels {} (pe_objs e) (pe_started_plugins e)"
    using Suc.prems(1) by (auto simp: env_ok_def)
  have mem: "pe_mem e = []" using tabs by (rule tabs_mem)
  obtain p where p: "pe_objs e a = Some p" using Suc.prems(3) by auto
  have a0: "a \<noteq> 0" using tabs_obj [OF tabs p] .
  have st: "cp_state p = RESOLVED \<or> cp_state p = ACTIVE"
    using Suc.prems(1,4) p by (auto simp: env_ok_def shape_def sta_def)
  have "wpe (start_plugin_rec (Suc n) a stack) (\<lambda>x e'. fst x = CP_OK) (\<lambda>_. True) e"
  proof (cases "cp_state p = ACTIVE")
    case True
    with p a0 show ?thesis by (simp add: leaf)
  next
    case False
    with st have res: "cp_state p = RESOLVED" by simp
    have nin: "a \<notin> set stack" using Suc.prems(5) by auto
    have "imps (pe_objs e) a \<noteq> None" using levelsD(1) [OF l _ Suc.prems(3)] Suc.prems(4) by simp
    then obtain ips where ips: "cp_imported p = Some ips" using p by (auto simp: imps_def)
    have im: "ims (pe_objs e) a = ips" using p ips by (simp add: ims_Some)
    let ?m = "start_imports (start_plugin_rec n) ips (stack @ [a])"
    have I: "wpe ?m (\<lambda>x e'. snd x = stack @ [a] \<and> imports_started R k r a ips e (fst x) e') (\<lambda>_. False) e"
      by (rule start_imports_started [OF start_rec_started Suc.prems(1,2,4)]) (use Suc.prems(5,6) in \<open>auto simp: im\<close>)
    have "wpe ?m (\<lambda>x e'. fst x = CP_OK \<and> pe_script e' = []) (\<lambda>_. True) e"
      using Suc.prems(5,6) by (intro start_imports_succeed [where R = R and k = k and r = r and a = a] Suc.IH Suc.prems) (auto simp: im)
    from wpe_conj [OF I this] have "wpe ?m (\<lambda>x. wpe (if fst x \<noteq> CP_OK then ret (fst x, remove1 a (snd x))
        else bnd (start_plugin_runtime a) (\<lambda>t. ret (t, remove1 a (snd x)))) (\<lambda>x e'. fst x = CP_OK) (\<lambda>_. True)) (\<lambda>_. True) e"
    proof (rule wpe_mono)
      fix x e1
      assume x: "(snd x = stack @ [a] \<and> imports_started R k r a ips e (fst x) e1) \<and> fst x = CP_OK \<and> pe_script e1 = []"
      then have J: "env_ok R k r {} {} e1" "kept e e1" by (auto simp: imports_started_def)
      have "pe_objs e1 a \<noteq> None" using Suc.prems(3) kept_live [OF J(2)] by simp
      then obtain q where q: "pe_objs e1 a = Some q" by auto
      have "sta (pe_objs e1) a = sta (pe_objs e) a" using x unfolding imports_started_def by blast
      then have "cp_state q = RESOLVED" using p res q by (simp add: sta_def)
      then have "wpe (start_plugin_runtime a) (\<lambda>s _. s = CP_OK) (\<lambda>_. True) e1"
        using x by (intro runtime_starts [OF J(1) q]) auto
      with x show "wpe (if fst x \<noteq> CP_OK then ret (fst x, remove1 a (snd x))
        else bnd (start_plugin_runtime a) (\<lambda>t. ret (t, remove1 a (snd x)))) (\<lambda>x e'. fst x = CP_OK) (\<lambda>_. True) e1" by simp
    qed simp
    then show ?thesis using p a0 res nin mem ips by (simp add: leaf case_prod_beta)
  qed
  from wpe_script [OF wpe_conj [OF start_rec_started [OF Suc.prems(1-6)] this] stays_start_rec Suc.prems(7)]
  show ?case by (simp add: conj_assoc)
qed

theorem cpi_start_plugin_succeeds:
  assumes i: "idle R k r e" and live: "pe_objs e a \<noteq> None" and n: "r a < n" and S: "ready e S" "a \<in> S"
  shows "wpe (cpi_start_plugin n a) (\<lambda>s _. s = CP_OK) (\<lambda>_. True) e"
proof -
  have I: "env_ok R k r {} {} e" "procs (pe_objs e) = {}" using i by (auto simp: idle_def)
  have "wpe (resolve_plugin n a) (\<lambda>s. wpe (if s \<noteq> CP_OK then ret s
     else
       bnd malloc_p (\<lambda>b. if \<not> b then ret CP_ERR_RESOURCE
       else bnd (start_plugin_rec n a []) (\<lambda>(t, importing). sq (assert_p (importing = [])) (ret t)))) (\<lambda>s _. s = CP_OK) (\<lambda>_. True)) (\<lambda>_. True) e"
  proof (rule wpe_mono [OF resolve_succeeds [OF I live n S]])
    fix s e1 assume A: "(resolved R k r a e s e1 \<and> ready e1 S) \<and> s = CP_OK"
    then have J: "env_ok R k r {} {} e1" "procs (pe_objs e1) = {}" "sta (pe_objs e1) a \<noteq> INSTALLED" "same e e1"
      by (auto simp: resolved_def grown_def)
    have live1: "pe_objs e1 a \<noteq> None" using same_live [OF J(4), of a] live by blast
    have mem: "pe_mem e1 = []" using J(1) by (auto simp: env_ok_def dest: tabs_mem)
    have "wpe (start_plugin_rec n a []) (\<lambda>x e'. (snd x = [] \<and> started R k r a e1 (fst x) e') \<and> fst x = CP_OK \<and> pe_script e' = []) (\<lambda>_. False) e1"
      using A n by (intro start_rec_succeeds J live1) (auto simp: ready_script)
    then have "wpe (start_plugin_rec n a []) (\<lambda>x. wpe (sq (assert_p (snd x = [])) (ret (fst x))) (\<lambda>s _. s = CP_OK) (\<lambda>_. True)) (\<lambda>_. True) e1"
      by (rule wpe_mono) simp_all
    with A mem show "wpe (if s \<noteq> CP_OK then ret s
     else
       bnd malloc_p (\<lambda>b. if \<not> b then ret CP_ERR_RESOURCE
       else bnd (start_plugin_rec n a []) (\<lambda>(t, importing). sq (assert_p (importing = [])) (ret t)))) (\<lambda>s _. s = CP_OK) (\<lambda>_. True) e1"
      by (simp add: leaf case_prod_beta)
  qed simp
  then show ?thesis by (simp only: cpi_start_plugin_def wpe_bnd)
qed

end
