(* ===== verification/Cpluff_Props.thy ===== *)
theory Cpluff_Props
  imports Cpluff_Calls Cpluff_Live
begin

text \<open>
  What the framework promises about the life of plug-ins, over the invariant \<open>plug_inv\<close> and the calls
  of the theory on sequences of calls, with a framework of three plug-ins as the example; and what
  goes wrong where the code leaves the promise.
\<close>

section \<open>An example\<close>

definition ex_import :: "ident \<Rightarrow> plugin_import" where
  "ex_import i = \<lparr>im_plugin_id = i, im_version = None, im_optional = False\<rparr>"

definition ex_info :: "ident \<Rightarrow> ident list \<Rightarrow> ident list \<Rightarrow> plugin_info" where
  "ex_info i needed eps = \<lparr>pi_identifier = i, pi_version = None, pi_abi_bw_compatibility = None, pi_req_cpluff_version = None,
     pi_plugin_path = ''/p'', pi_imports = map ex_import needed, pi_runtime_lib_name = Some ''lib'',
     pi_runtime_funcs_symbol = Some ''funcs'', pi_ext_points = eps, pi_extensions = []\<rparr>"

definition ex_env :: "(nat \<times> plugin_info) list \<Rightarrow> plugin_env" where
  "ex_env infos = \<lparr>pe_infos = (\<lambda>i. map_option (\<lambda>x. \<lparr>ir_resource = x, ir_usage_count = 1\<rparr>) (map_of infos i)),
     pe_plugins = Map.empty, pe_objs = Map.empty, pe_next = 1, pe_started_plugins = [], pe_ext_points = Map.empty,
     pe_extensions = Map.empty, pe_run_funcs = [], pe_run_wait = 0,
     pe_main_context = \<lparr>cx_resolved_symbols = None, cx_symbol_providers = None\<rparr>, pe_mem = [], pe_script = [],
     pe_scan = (\<lambda>m. filter (\<lambda>i. m i \<noteq> None) [''a'', ''b'', ''c'']), pe_dlopen = (\<lambda>_. True),
     pe_funcs = (\<lambda>_ _. Some \<lparr>rt_create = True, rt_destroy = True, rt_start = True, rt_stop = True\<rparr>),
     pe_dlsym = (\<lambda>_ _. 0), pe_cp_version = [48, 46, 49, 46, 51], pe_cp_abi = None, pe_shrext = ''.so'', pe_log = []\<rparr>"

definition ex_rank :: "ident \<Rightarrow> nat" where
  "ex_rank i = (if i = ''a'' then 2 else if i = ''b'' then 1 else if i = ''c'' then 0 else 3)"

text \<open>\<open>a\<close> imports \<open>b\<close>, which imports \<open>c\<close>.\<close>

definition ex_chain :: plugin_env where
  "ex_chain = ex_env [(10, ex_info ''a'' [''b''] [''p'', ''q'']), (11, ex_info ''b'' [''c''] []), (12, ex_info ''c'' [] [''r''])]"

lemma ex_env_fields:
  "pe_mem (ex_env xs) = []" "pe_run_funcs (ex_env xs) = []" "pe_objs (ex_env xs) = Map.empty" "pe_plugins (ex_env xs) = Map.empty"
  "pe_next (ex_env xs) = 1" "pe_started_plugins (ex_env xs) = []" "pe_cp_abi (ex_env xs) = None"
  "pe_cp_version (ex_env xs) = [48, 46, 49, 46, 51]"
  "pe_scan (ex_env xs) = (\<lambda>m. filter (\<lambda>i. m i \<noteq> None) [''a'', ''b'', ''c''])"
  by (simp_all add: ex_env_def)

lemma ex_rank_below: "{i. ex_rank i < 3} = {''a'', ''b'', ''c''}"
  by (auto simp: ex_rank_def)

text \<open>A framework without plug-ins is in order.\<close>

lemma ex_env_inv: "plug_inv ex_rank 3 (ex_env xs)"
proof -
  have "version_ok [48, 46, 49, 46, 51]" by code_simp
  then have "surroundings ex_rank 3 (ex_env xs)" unfolding surroundings_def ex_env_fields ex_rank_below by auto
  then have "idle ex_rank 3 (\<lambda>_. 0) (ex_env xs)"
    by (simp add: idle_def env_ok_def tabs_def graph_def levels_def procs_def ims_def imps_def users_def sta_def ex_env_fields)
  then show ?thesis by (rule plug_invI)
qed

section \<open>Sessions\<close>

text \<open>What the invariant says of the states that a client can ask for.\<close>

definition consistent :: "plugin_env \<Rightarrow> bool" where
  "consistent e \<longleftrightarrow>
     (\<forall>a b. b \<in> set (ims (pe_objs e) a) \<longrightarrow> pe_objs e b \<noteq> None \<and> a \<in> set (users (pe_objs e) b)) \<and>
     (\<forall>a b. a \<in> set (users (pe_objs e) b) \<longrightarrow> b \<in> set (ims (pe_objs e) a)) \<and>
     (\<forall>a b. b \<in> set (ims (pe_objs e) a) \<and> sta (pe_objs e) a = ACTIVE \<longrightarrow> sta (pe_objs e) b = ACTIVE) \<and>
     (\<forall>a b. b \<in> set (ims (pe_objs e) a) \<and> sta (pe_objs e) a \<noteq> INSTALLED \<longrightarrow> sta (pe_objs e) b \<noteq> INSTALLED) \<and>
     distinct (pe_started_plugins e) \<and> set (pe_started_plugins e) = {a. sta (pe_objs e) a = ACTIVE} \<and>
     (\<forall>pid a. pe_plugins e pid = Some a \<longrightarrow> pe_objs e a \<noteq> None)"

lemma plug_inv_consistent:
  assumes "plug_inv R k e"
  shows "consistent e"
proof -
  obtain r where i: "idle R k r e" using assms by (auto simp: plug_inv_def)
  then have g: "graph r {} (pe_objs e)" and l: "levels {} (pe_objs e) (pe_started_plugins e)"
    by (auto simp: idle_def env_ok_def)
  show ?thesis
    unfolding consistent_def
    using graphD(1,3,4) [OF g] levelsD(2-5) [OF l] plugin_live(2) [OF i] by blast
qed

text \<open>
  C5: Any sequence of calls on plug-ins (registering and releasing descriptors, installing, starting,
  stopping, uninstalling, asking for states) whose caller keeps to \<open>plug_ok\<close> and whose imports have no
  cycle runs to its end without a fault: no assertion of pcontrol.c fails, no freed plug-in or
  descriptor is used, no recursion or loop goes on for ever.  At the end the lists of imported and
  importing plug-ins mirror each other, whatever an active plug-in imports is active, and the list of
  started plug-ins holds the active ones once each.
\<close>
theorem plugin_sessions_return:
  assumes "plug_inv R k e" and "ok_all (run_plug k) (plug_ok R k) cs e"
  shows "\<exists>rs e'. run_all (run_plug k) cs e = Inr (rs, e') \<and> length rs = length cs \<and> plug_inv R k e' \<and> consistent e'"
  using plugins.total_all [OF assms] plug_inv_consistent by blast

definition ex_calls :: "plug_call list" where
  "ex_calls = [InstallPlugin 11, InstallPlugin 12, StartPlugin ''b'', StopPlugin 0 ''c'', PluginState ''b'',
     InstallPlugin 11, UninstallPlugin 0 ''c'', PluginState ''b'']"

lemmas plug_ex_defs = ex_chain_def ex_env_def ex_info_def ex_import_def

theorem plugin_sessions_return_witness:
  "\<exists>rs e'. run_all (run_plug 3) ex_calls ex_chain = Inr (rs, e') \<and> length rs = length ex_calls \<and> plug_inv ex_rank 3 e' \<and> consistent e'"
proof (rule plugin_sessions_return)
  show "plug_inv ex_rank 3 ex_chain" unfolding ex_chain_def by (rule ex_env_inv)
  show "ok_all (run_plug 3) (plug_ok ex_rank 3) ex_calls ex_chain"
    by (simp add: ex_calls_def plug_run plug_values plug_ex_defs ex_rank_def info_ok_def fresh_ext_points_def in_use_def numeral_3_eq_3
      upt_rec del: plug_rec)
qed

text \<open>What the calls of the example answer.\<close>

lemma ex_calls_answers:
  "map_sum id fst (run_all (run_plug 3) ex_calls ex_chain) =
   Inr [PStatus CP_OK, PStatus CP_OK, PStatus CP_OK, PStatus CP_OK, PState RESOLVED, PStatus CP_ERR_CONFLICT,
     PStatus CP_OK, PState INSTALLED]"
  by (simp add: ex_calls_def plug_run plug_values plug_ex_defs numeral_3_eq_3 del: plug_rec)

section \<open>Single calls\<close>

text \<open>A call that names an installed plug-in is its operation on the plug-in.\<close>

lemma named_call:
  assumes "pe_plugins e pid = Some a" and "wpe (m a) Q (\<lambda>_. False) e"
  shows "\<exists>s e'. bnd (rd (\<lambda>e. pe_plugins e pid)) (\<lambda>node. case node of None \<Rightarrow> ret x | Some a \<Rightarrow> m a) e = Inr (s, e') \<and> Q s e'"
  using assms(1) wpe_no_fault [OF assms(2)] by (simp add: run)

text \<open>
  C6: Starting an installed plug-in returns and keeps the framework in order, whatever its create and
  start functions and its libraries do: no plug-in falls back to a lower state, and if the answer is
  \<open>CP_OK\<close>, the plug-in and everything it imports, directly or not, is active.
\<close>
theorem start_plugin_activates:
  assumes "plug_inv R k e" and "pe_plugins e pid = Some a" and "k \<le> n"
  shows "\<exists>s e'. cp_start_plugin n pid e = Inr (s, e') \<and> plug_inv R k e' \<and>
    (\<forall>z. sta (pe_objs e) z \<le> sta (pe_objs e') z) \<and>
    (s = CP_OK \<longrightarrow> (\<forall>z. (a, z) \<in> needs (pe_objs e') \<longrightarrow> sta (pe_objs e') z = ACTIVE))"
proof -
  obtain r where i: "idle R k r e" using assms(1) by (auto simp: plug_inv_def)
  have "wpe (cpi_start_plugin n a) (start_spec R k r a e) (\<lambda>_. False) e"
    using plugin_live [OF i assms(2)] assms(3) by (intro cpi_start_plugin_starts [OF i]) auto
  from named_call [where x = CP_ERR_UNKNOWN and m = "cpi_start_plugin n", OF assms(2) this] show ?thesis
    by (auto simp: cp_start_plugin_def start_spec_def intro: plug_invI)
qed

text \<open>
  C7: Starting an installed plug-in succeeds when it belongs to a set of plug-ins that is ready: the
  set holds what its members import, in versions that fit (optional imports may be missing), their
  libraries and functions can be loaded, and their create and start functions answer well.  Then the
  plug-in and everything it imports, directly or not, is active.
\<close>
theorem start_plugin_succeeds:
  assumes "plug_inv R k e" and "pe_plugins e pid = Some a" and "k \<le> n" and "ready e S" and "a \<in> S"
  shows "\<exists>e'. cp_start_plugin n pid e = Inr (CP_OK, e') \<and> plug_inv R k e' \<and>
    (\<forall>z. (a, z) \<in> needs (pe_objs e') \<longrightarrow> sta (pe_objs e') z = ACTIVE)"
proof -
  obtain r where i: "idle R k r e" using assms(1) by (auto simp: plug_inv_def)
  have n: "r a < n" using plugin_live(4) [OF i assms(2)] assms(3) by simp
  note live = plugin_live(2) [OF i assms(2)]
  have "wpe (cpi_start_plugin n a) (\<lambda>s e'. start_spec R k r a e s e' \<and> s = CP_OK) (\<lambda>_. False) e"
    using wpe_conj [OF cpi_start_plugin_starts [OF i live n] cpi_start_plugin_succeeds [OF i live n assms(4,5)]] by simp
  from named_call [where x = CP_ERR_UNKNOWN and m = "cpi_start_plugin n", OF assms(2) this] show ?thesis
    by (auto simp: cp_start_plugin_def start_spec_def intro: plug_invI)
qed

text \<open>
  C8: Stopping a plug-in a plug-in stops it and the active plug-ins that need it, directly or not, and changes
  no other plug-in's state; the imports stay resolved.
\<close>
theorem stop_plugin_exactly:
  assumes "plug_inv R k e" and "pe_plugins e pid = Some a" and "k \<le> n"
  shows "\<exists>e'. cp_stop_plugin n c pid e = Inr (CP_OK, e') \<and> plug_inv R k e' \<and> imps (pe_objs e') = imps (pe_objs e) \<and>
    sta (pe_objs e') = (\<lambda>z. if sta (pe_objs e) z = ACTIVE \<and> (z, a) \<in> needs (pe_objs e) then RESOLVED else sta (pe_objs e) z)"
proof -
  obtain r where i: "idle R k r e" using assms(1) by (auto simp: plug_inv_def)
  have "wpe (sq (stop_plugin n c a) (ret CP_OK)) (\<lambda>s e'. s = CP_OK \<and> stop_spec R k r a e e') (\<lambda>_. False) e"
    using stop_plugin_stops [OF i plugin_live(2) [OF i assms(2)] assms(3)] by simp
  from named_call [where x = CP_ERR_UNKNOWN and m = "\<lambda>a. sq (stop_plugin n c a) (ret CP_OK)", OF assms(2) this] show ?thesis
    by (auto simp: cp_stop_plugin_def stop_spec_def kept_def intro: plug_invI)
qed

text \<open>
  C9: Uninstalling a plug-in removes it and its name, brings every plug-in that needs it back to
  INSTALLED, and leaves the states of all others.  This is what the code does; \<^verbatim>\<open>cpluff.h\<close> documents
  that \<^verbatim>\<open>cp_uninstall_plugin\<close> uninstalls the dependent plug-ins too, which it does not: they stay
  installed, in the table of plug-ins, and without what they import.
\<close>
theorem uninstall_plugin_exactly:
  assumes "plug_inv R k e" and "pe_plugins e pid = Some a" and "k \<le> n"
  shows "\<exists>e'. cp_uninstall_plugin n c pid e = Inr (CP_OK, e') \<and> plug_inv R k e' \<and> pe_plugins e' = (pe_plugins e)(pid := None) \<and>
    sta (pe_objs e') = (\<lambda>z. if z = a then UNINSTALLED else if (z, a) \<in> needs (pe_objs e) then INSTALLED else sta (pe_objs e) z)"
proof -
  obtain r where i: "idle R k r e" using assms(1) by (auto simp: plug_inv_def)
  have "wpe (sq (uninstall_plugin n c a) (ret CP_OK)) (\<lambda>s e'. s = CP_OK \<and> uninstalled R k r pid a e e') (\<lambda>_. False) e"
    using uninstall_plugin_uninstalls [OF i assms(2,3)] by simp
  from named_call [where x = CP_ERR_UNKNOWN and m = "\<lambda>a. sq (uninstall_plugin n c a) (ret CP_OK)", OF assms(2) this] show ?thesis
    by (auto simp: cp_uninstall_plugin_def uninstalled_def intro: plug_invI)
qed

text \<open>C31: Uninstalling all plug-ins ends, with no plug-in left in the table and in the store.\<close>
theorem uninstall_plugins_empties:
  assumes "plug_inv R k e" and "k \<le> n"
  shows "\<exists>e'. cp_uninstall_plugins n c e = Inr ((), e') \<and> plug_inv R k e' \<and> pe_plugins e' = Map.empty \<and> pe_objs e' = Map.empty"
proof -
  obtain r where i: "idle R k r e" using assms(1) by (auto simp: plug_inv_def)
  obtain e' where e': "cp_uninstall_plugins n c e = Inr ((), e')" "idle R k r e'" "pe_plugins e' = Map.empty"
    using wpe_no_fault [OF uninstall_plugins_uninstalls [OF i assms(2)]] by auto
  have t: "tabs R k r e'" using e'(2) by (simp add: idle_def env_ok_def)
  have "pe_objs e' a = None" for a
  proof (cases "pe_objs e' a")
    case (Some p)
    show ?thesis using tabs_obj [OF t Some] e'(3) by auto
  qed
  with e' show ?thesis by (auto intro: plug_invI)
qed

section \<open>The calls in the example\<close>

text \<open>The framework after some calls, which were allowed.\<close>

lemma ex_reached:
  assumes "ok_all (run_plug 3) (plug_ok ex_rank 3) cs ex_chain" and "run_all (run_plug 3) cs ex_chain = Inr (rs, e)"
  shows "plug_inv ex_rank 3 e"
proof -
  have "plug_inv ex_rank 3 ex_chain" unfolding ex_chain_def by (rule ex_env_inv)
  from plugins.total_all [OF this assms(1)] assms(2) show ?thesis by auto
qed

definition ex_installs :: "plug_call list" where
  "ex_installs = [InstallPlugin 11, InstallPlugin 12]"

text \<open>\<open>b\<close> and \<open>c\<close> installed, at the addresses 1 and 2; after starting \<open>b\<close> both are active.\<close>

lemma ex_installed:
  obtains e rs where "plug_inv ex_rank 3 e" "pe_plugins e ''b'' = Some 1" "ready e {1, 2}" "sta (pe_objs e) 1 = INSTALLED"
proof -
  have "ok_all (run_plug 3) (plug_ok ex_rank 3) ex_installs ex_chain"
    by (simp add: ex_installs_def plug_run plug_values plug_ex_defs ex_rank_def info_ok_def fresh_ext_points_def numeral_3_eq_3 del: plug_rec)
  moreover have "\<exists>rs e. run_all (run_plug 3) ex_installs ex_chain = Inr (rs, e) \<and> pe_plugins e ''b'' = Some 1 \<and> ready e {1, 2} \<and>
      sta (pe_objs e) 1 = INSTALLED"
    by (simp add: ex_installs_def plug_run plug_values plug_ex_defs numeral_3_eq_3 ready_def installed_info_def loads_def import_fits_def
      sta_def del: plug_rec)
  ultimately show ?thesis using ex_reached that by blast
qed

lemma ex_started:
  obtains e rs where "run_all (run_plug 3) (ex_installs @ [StartPlugin ''b'']) ex_chain = Inr (rs, e)" "plug_inv ex_rank 3 e"
    "pe_plugins e ''c'' = Some 2" "sta (pe_objs e) 1 = ACTIVE" "1 \<in> set (users (pe_objs e) 2)"
proof -
  have "ok_all (run_plug 3) (plug_ok ex_rank 3) (ex_installs @ [StartPlugin ''b'']) ex_chain"
    by (simp add: ex_installs_def plug_run plug_values plug_ex_defs ex_rank_def info_ok_def fresh_ext_points_def numeral_3_eq_3 del: plug_rec)
  moreover have "\<exists>rs e. run_all (run_plug 3) (ex_installs @ [StartPlugin ''b'']) ex_chain = Inr (rs, e) \<and>
      pe_plugins e ''c'' = Some 2 \<and> sta (pe_objs e) 1 = ACTIVE \<and> 1 \<in> set (users (pe_objs e) 2)"
    by (simp add: ex_installs_def plug_run plug_values plug_ex_defs numeral_3_eq_3 sta_def users_def del: plug_rec)
  ultimately show ?thesis using ex_reached that by blast
qed

lemma users_need:
  assumes "plug_inv R k e" "z \<in> set (users (pe_objs e) a)"
  shows "(z, a) \<in> needs (pe_objs e)"
proof -
  have "consistent e" using assms(1) by (rule plug_inv_consistent)
  with assms(2) have "a \<in> set (ims (pe_objs e) z)" by (auto simp: consistent_def)
  then show ?thesis by (auto simp: needs_def)
qed

theorem start_plugin_activates_witness:
  "\<exists>e s e'. pe_plugins e ''b'' = Some 1 \<and> cp_start_plugin 3 ''b'' e = Inr (s, e') \<and> plug_inv ex_rank 3 e' \<and>
     (s = CP_OK \<longrightarrow> sta (pe_objs e') 1 = ACTIVE)"
proof -
  obtain e rs where e: "plug_inv ex_rank 3 e" "pe_plugins e ''b'' = Some 1" by (rule ex_installed)
  from start_plugin_activates [OF e order_refl] e(2) show ?thesis by (fastforce simp: needs_def)
qed

theorem start_plugin_succeeds_witness:
  "\<exists>e e'. sta (pe_objs e) 1 = INSTALLED \<and> cp_start_plugin 3 ''b'' e = Inr (CP_OK, e') \<and> sta (pe_objs e') 1 = ACTIVE"
proof -
  obtain e rs where e: "plug_inv ex_rank 3 e" "pe_plugins e ''b'' = Some 1" "ready e {1, 2}" "sta (pe_objs e) 1 = INSTALLED"
    by (rule ex_installed)
  from start_plugin_succeeds [OF e(1,2) order_refl e(3)] e(4) show ?thesis by (fastforce simp: needs_def)
qed

theorem stop_plugin_exactly_witness:
  "\<exists>e e'. sta (pe_objs e) 1 = ACTIVE \<and> cp_stop_plugin 3 0 ''c'' e = Inr (CP_OK, e') \<and> sta (pe_objs e') 1 = RESOLVED"
proof -
  obtain e rs where e: "plug_inv ex_rank 3 e" "pe_plugins e ''c'' = Some 2" "sta (pe_objs e) 1 = ACTIVE" "1 \<in> set (users (pe_objs e) 2)"
    by (rule ex_started)
  from stop_plugin_exactly [OF e(1,2) order_refl, of 0] users_need [OF e(1,4)] e(3) show ?thesis by auto
qed

theorem uninstall_plugin_exactly_witness:
  "\<exists>e e'. sta (pe_objs e) 1 = ACTIVE \<and> cp_uninstall_plugin 3 0 ''c'' e = Inr (CP_OK, e') \<and> sta (pe_objs e') 1 = INSTALLED \<and>
     pe_plugins e' ''c'' = None"
proof -
  obtain e rs where e: "plug_inv ex_rank 3 e" "pe_plugins e ''c'' = Some 2" "sta (pe_objs e) 1 = ACTIVE" "1 \<in> set (users (pe_objs e) 2)"
    by (rule ex_started)
  from uninstall_plugin_exactly [OF e(1,2) order_refl, of 0] users_need [OF e(1,4)] e(3) show ?thesis by auto
qed

theorem uninstall_plugins_empties_witness:
  "\<exists>e e'. pe_plugins e ''c'' = Some 2 \<and> cp_uninstall_plugins 3 0 e = Inr ((), e') \<and> pe_objs e' = Map.empty"
proof -
  obtain e rs where e: "plug_inv ex_rank 3 e" "pe_plugins e ''c'' = Some 2" by (rule ex_started)
  from uninstall_plugins_empties [OF e(1) order_refl, of 0] e(2) show ?thesis by blast
qed

section \<open>Where the promise is broken\<close>

lemma register_ext_points_conflict:
  "pe_mem e = [] \<Longrightarrow> \<exists>ep \<in> set (map snd eps). pe_ext_points e ep \<noteq> None \<Longrightarrow>
   (\<And>x. Q CP_ERR_CONFLICT (e\<lparr>pe_ext_points := x\<rparr>)) \<Longrightarrow> wpe (register_ext_points i eps) Q E e"
proof (induction eps arbitrary: e)
  case (Cons y ys)
  obtain n ep where y: "y = (n, ep)" by force
  show ?case
  proof (cases "pe_ext_points e ep")
    case None
    have "wpe (register_ext_points i ys) Q E (e\<lparr>pe_ext_points := (pe_ext_points e)(ep \<mapsto> (i, n))\<rparr>)"
      using Cons.prems y None by (intro Cons.IH) auto
    with Cons.prems(1) y None show ?thesis by (simp add: leaf)
  next
    case (Some x)
    have "Q CP_ERR_CONFLICT (e\<lparr>pe_ext_points := pe_ext_points e\<rparr>)" by (rule Cons.prems(3))
    with y Some show ?thesis by simp
  qed
qed simp

text \<open>
  C32: Installing a plug-in one of whose extension points is taken is refused, but leaves the freed
  plug-in in the table of plug-ins: the next call that looks at it uses freed memory.
\<close>
theorem install_conflict_dangles:
  assumes mem: "pe_mem e = []" and i: "pe_infos e i = Some ir" and new: "pe_plugins e (pi_identifier (ir_resource ir)) = None"
    and ep: "ep \<in> set (pi_ext_points (ir_resource ir))" "pe_ext_points e ep \<noteq> None" and pos: "0 < pe_next e"
  shows "\<exists>e'. cp_install_plugin i e = Inr (CP_ERR_CONFLICT, e') \<and>
    pe_plugins e' (pi_identifier (ir_resource ir)) = Some (pe_next e) \<and> pe_objs e' (pe_next e) = None \<and>
    cp_get_plugin_state (pi_identifier (ir_resource ir)) e' = Inl DanglingPtr"
proof -
  let ?id = "pi_identifier (ir_resource ir)"
  have c: "\<exists>ep \<in> set (map snd (enumerate 0 (pi_ext_points (ir_resource ir)))). pe_ext_points e ep \<noteq> None" using ep by auto
  have "wpe (register_ext_points i (enumerate 0 (pi_ext_points (ir_resource ir))))
      (\<lambda>s. wpe (if s \<noteq> CP_OK then ret (s, pe_next e)
         else bnd (register_extensions i (enumerate 0 (pi_extensions (ir_resource ir)))) (\<lambda>t. ret (t, pe_next e)))
        (\<lambda>(s, rp). wpe (if s = CP_OK then sq (log_p (PluginEvent ?id UNINSTALLED INSTALLED)) (ret CP_OK)
           else sq (when_p (rp \<noteq> 0) (upd (\<lambda>e. e\<lparr>pe_objs := (pe_objs e)(rp := None)\<rparr>))) (sq (unregister_extensions i) (ret s)))
          (\<lambda>s e'. s = CP_ERR_CONFLICT \<and> pe_plugins e' ?id = Some (pe_next e) \<and> pe_objs e' (pe_next e) = None) (\<lambda>_. False))
        (\<lambda>_. False)) (\<lambda>_. False) e1"
    if "e1 = e\<lparr>pe_infos := (pe_infos e)(i \<mapsto> ir\<lparr>ir_usage_count := ir_usage_count ir + 1\<rparr>), pe_next := pe_next e + 1,
      pe_objs := (pe_objs e)(pe_next e \<mapsto> fresh_plugin i), pe_plugins := (pe_plugins e)(?id \<mapsto> pe_next e)\<rparr>" for e1
    unfolding that
    by (rule register_ext_points_conflict; (use c mem in simp)?) (simp add: pos less_imp_neq [OF pos, symmetric]; rule wpe_unregister; simp)
  then have "wpe (cp_install_plugin i) (\<lambda>s e'. s = CP_ERR_CONFLICT \<and> pe_plugins e' ?id = Some (pe_next e) \<and> pe_objs e' (pe_next e) = None)
      (\<lambda>_. False) e"
    using i new mem
    by (simp add: cp_install_plugin_def the_info_def install_state_def cpi_use_info_def leaf) (erule wpe_mono; simp add: case_prod_beta)
  from wpe_no_fault [OF this] pos show ?thesis
    by (auto simp: cp_get_plugin_state_def the_plugin_def run)
qed

definition ex_clash :: plugin_env where
  "ex_clash = ex_env [(10, ex_info ''a'' [] [''x'']), (11, ex_info ''b'' [] [''x''])]"

theorem install_conflict_dangles_witness:
  "\<exists>rs e e'. run_all (run_plug 3) [InstallPlugin 10] ex_clash = Inr (rs, e) \<and> cp_install_plugin 11 e = Inr (CP_ERR_CONFLICT, e') \<and>
     cp_get_plugin_state ''b'' e' = Inl DanglingPtr"
proof -
  define ir where "ir = \<lparr>ir_resource = ex_info ''b'' [] [''x''], ir_usage_count = 1\<rparr>"
  have id: "pi_identifier (ir_resource ir) = ''b''" "pi_ext_points (ir_resource ir) = [''x'']" by (simp_all add: ir_def ex_info_def)
  have "\<exists>rs e. run_all (run_plug 3) [InstallPlugin 10] ex_clash = Inr (rs, e) \<and> pe_mem e = [] \<and> pe_infos e 11 = Some ir \<and>
      pe_plugins e ''b'' = None \<and> pe_ext_points e ''x'' \<noteq> None \<and> 0 < pe_next e"
    by (simp add: ir_def ex_clash_def plug_run plug_values ex_env_def ex_info_def ex_import_def del: plug_rec)
  then obtain rs e where e: "run_all (run_plug 3) [InstallPlugin 10] ex_clash = Inr (rs, e)" "pe_mem e = []" "pe_infos e 11 = Some ir"
    "pe_plugins e ''b'' = None" "pe_ext_points e ''x'' \<noteq> None" "0 < pe_next e" by blast
  from install_conflict_dangles [OF e(2,3), of "''x''"] e(1,4-6) id show ?thesis by auto
qed

text \<open>A second installation of the same descriptor is refused, and takes the installed plug-in's extension points away.\<close>

lemma reinstall_unregisters:
  "\<exists>e e'. cp_install_plugin 10 ex_chain = Inr (CP_OK, e) \<and> pe_ext_points e ''p'' = Some (10, 0) \<and>
     cp_install_plugin 10 e = Inr (CP_ERR_CONFLICT, e') \<and> pe_ext_points e' ''p'' = None \<and> pe_plugins e' ''a'' = Some 1"
  by (simp add: plug_run plug_values plug_ex_defs del: plug_rec)

text \<open>
  C34: When there is no memory for the list of imported plug-ins, resolving an installed plug-in
  dereferences the null pointer while it cleans up, in place of reporting the failure.
\<close>
theorem resolve_without_list_crashes:
  assumes "pe_objs e a = Some p" "a \<noteq> 0" "cp_state p = INSTALLED" "\<not> cp_processed p" "cp_imported p = None"
    and "pe_mem e = False # bs"
  shows "resolve_plugin (Suc n) a e = Inl NullDeref"
  using assms
  by (simp add: resolve_plugin_def run plug_values the_plugin_def set_plugin_def malloc_p_def imported_list_def run_if)

theorem resolve_without_list_crashes_witness:
  "\<exists>e. resolve_plugin 1 1 e = Inl NullDeref"
proof -
  let ?e = "ex_chain\<lparr>pe_objs := [1 \<mapsto> fresh_plugin 10], pe_mem := [False]\<rparr>"
  have "resolve_plugin (Suc 0) 1 ?e = Inl NullDeref"
    by (rule resolve_without_list_crashes [where p = "fresh_plugin 10"]) (simp_all add: fresh_plugin_def)
  then show ?thesis by auto
qed

text \<open>
  A restart for which there is no list node frees the context of the instance without a call of the
  plug-in's destroy function; the next start creates a second instance.
\<close>

lemma failed_restart_leaks:
  assumes "pe_objs e a = Some p" "a \<noteq> 0" "cp_state p = RESOLVED" "pe_infos e (cp_info p) = Some ir"
    and "cp_context p = Some \<lparr>cx_resolved_symbols = None, cx_symbol_providers = None\<rparr>" "pe_mem e = False # bs"
  shows "start_plugin_runtime a e =
    Inr (CP_ERR_RESOURCE, e\<lparr>pe_mem := bs, pe_objs := (pe_objs e)(a \<mapsto> p\<lparr>cp_context := None, cp_plugin_data := False\<rparr>)\<rparr>)"
  using assms
  by (simp add: start_plugin_runtime_def info_of_def the_info_def cpi_free_context_def run plug_values the_plugin_def set_plugin_def
    malloc_p_def run_if)

definition ex_ring :: plugin_env where
  "ex_ring = ex_env [(10, ex_info ''a'' [''b'', ''c''] []), (11, ex_info ''b'' [''a''] [])]"

text \<open>
  With a cycle of imports the invariant can be lost, for example when \<open>a\<close> imports \<open>b\<close> and a missing plug-in, \<open>b\<close>
  imports \<open>a\<close>: starting \<open>a\<close> fails for the missing one, but leaves \<open>b\<close> resolved with \<open>a\<close> among its
  imports and \<open>a\<close> only installed; then an assertion fails when \<open>b\<close> is started.
\<close>
lemma half_resolved_cycle_asserts:
  "\<exists>e. run_all (run_plug 3) [InstallPlugin 10, InstallPlugin 11, StartPlugin ''a''] ex_ring =
      Inr ([PStatus CP_OK, PStatus CP_OK, PStatus CP_ERR_DEPENDENCY], e) \<and>
     sta (pe_objs e) 1 = INSTALLED \<and> sta (pe_objs e) 2 = RESOLVED \<and> ims (pe_objs e) 2 = [1] \<and>
     cp_start_plugin 3 ''b'' e = Inl AssertFail"
  by (simp add: ex_ring_def ex_env_def ex_info_def ex_import_def plug_run plug_values numeral_3_eq_3 sta_def ims_def imps_def del: plug_rec)

end
