(* ===== verification/Spec2Isabelle.thy ===== *)
theory Spec2Isabelle
  imports Decoder_Props Vm_Tables Dvdnav_Time_Props Hdhr_Props
    Kazlib_Hash_Props Kazlib_List_Props Cpluff_Props
begin

text \<open>
  A verification development for the C libraries under \<^verbatim>\<open>lib\<close> that carry logic of this program's
  own: the DVD engine of \<^verbatim>\<open>lib/libdvd\<close>, the HDHomeRun client \<^verbatim>\<open>lib/libhdhomerun\<close> and the
  plug-in framework \<^verbatim>\<open>lib/cpluff\<close>.

  \<^bold>\<open>The program and its parts.\<close>  The application plays a DVD through one function,
  \<^verbatim>\<open>dvdnav_get_next_cache_block\<close>, which it calls again and again, and through the calls a
  viewer's remote control maps to.  Four layers answer them.

  \<^item> libdvdread reads the disc.  Of it the model has the bit reader
    (\<^verbatim>\<open>libdvdread/src/bitreader.c\<close>) and the parsers of the two packets in each navigation pack
    (\<^verbatim>\<open>nav_read.c\<close>), which are written in terms of the bit reader.
  \<^item> The virtual machine (\<^verbatim>\<open>libdvdnav/src/vm\<close>) holds the registers and the position in the disc's
    program chains.  \<^verbatim>\<open>decoder.c\<close> runs a table of commands and yields a link; \<^verbatim>\<open>vm.c\<close> follows
    links until one of them plays a cell, and changes the open tables and the position on the way.
  \<^item> libdvdnav (\<^verbatim>\<open>libdvdnav/src\<close>) holds one machine and drives it.  The block loop compares the
    position it has last reported with that of the machine, reports one difference per call as an
    event, and otherwise reads the next block; the packets of a navigation pack tell it where the
    next block is.  Menus run the command of a button on the machine; searches move the machine and
    leave it where it was when they fail.
  \<^item> The remap table (\<^verbatim>\<open>remap.c\<close>) redirects jumps into given ranges of sectors.

  The HDHomeRun client exchanges packets with a tuner: a header, elements of tag, length and
  value, and a checksum (\<^verbatim>\<open>hdhomerun_pkt.c\<close>).

  The plug-in framework installs, resolves, starts, stops and uninstalls plug-ins
  (\<^verbatim>\<open>libcpluff/pcontrol.c\<close>): each of these works recursively along the graph of imports, up to what a
  plug-in needs or down to what needs it.  It keeps plug-ins and symbols in hash tables
  (\<^verbatim>\<open>kazlib/hash.c\<close>), the graph in linked lists (\<^verbatim>\<open>kazlib/list.c\<close>) used as sets of pointers
  (\<^verbatim>\<open>util.c\<close>), and orders versions (\<^verbatim>\<open>cpi_vercmp\<close>).

  \<^bold>\<open>How the model reads.\<close>  \<open>Prelude\<close> fixes it: a C function that works on a struct through a pointer
  is a value of type \<open>('s, 'a) prog\<close>, a function from the struct to a fault or to its result and
  the new struct; \<open>bnd\<close> and \<open>sq\<close> put two of them in a row.  Unsigned integers are words of their
  width; an \<^verbatim>\<open>int32_t\<close> is an \<open>int\<close> whose overflow is the fault \<open>SignedOverflow\<close>.  A fault stands
  for what the C code must not do: a failed assertion, an access outside an array, a use of freed
  tables, a read of a variable that is not set.  \<open>OutOfFuel\<close> is none of the code's: it marks a
  recursion the model cut off.  Named collections (\<open>wp\<close>, \<open>run\<close>, \<open>keeps_intro\<close>, \<open>readonly_intro\<close>,
  \<open>yields_intro\<close>, \<open>fuel_intro\<close>, \<open>uncut_intro\<close>) carry the proofs through the program structure.
\<close>

text \<open>
  \<^bold>\<open>Theories.\<close>

  \<^item> \<open>Prelude\<close>: faults, programs, the predicate \<open>wpe\<close> and its relatives, checked arrays, and four
    interfaces: \<open>session\<close> (operations that keep an invariant, lifted to all reachable states of a
    sequence of calls), \<open>total_session\<close> (calls that return and keep an invariant wherever they are
    allowed; every \<open>simulation\<close> is one), \<open>simulation\<close> (operations that answer as an abstract specification, lifted
    to sequences) and \<open>rel_simulation\<close> (the same where the concrete state is related to the abstract
    one and a call has a precondition).  Every stateful component interprets one of them.
  \<^item> \<open>Decoder\<close>, \<open>Decoder_Lemmas\<close>, \<open>Decoder_Props\<close>: \<^verbatim>\<open>decoder.c\<close>.  Registers are \<open>registers\<close>, one
    instruction is \<open>eval_command\<close>, a table is \<open>vmEval_CMD\<close>.  Shown: what an instruction can return
    and the two faults it can meet, that exactly type 7 aborts, that tables end, and the arithmetic
    of the set instructions.
  \<^item> \<open>Vm_State\<close>, \<open>Vm_Nav\<close>, \<open>Vm_Play\<close>, \<open>Vm_Api\<close>, \<open>Vm_Query\<close>: \<^verbatim>\<open>vm.c\<close> in the order of its sections.
    A \<^verbatim>\<open>pgc_t\<close> is an object of an open handle and a pointer to it a pair of the handle's identity
    and an index, so that a pointer that outlives its handle is seen to dangle.
  \<^item> \<open>Vm_Inv\<close>, \<open>Vm_Playing\<close>, \<open>Vm_Session\<close>, \<open>Vm_Frame\<close>, \<open>Vm_Live\<close>: the invariant \<open>vm_inv\<close> of the
    machine, that a reported jump ends in an existing cell (\<open>playing\<close>), that sessions keep the
    invariant, what no session changes (copies that are merged back included), and on which discs
    links come to an end.  \<open>Vm_Example\<close> is the disc of the witnesses and \<open>Vm_Props\<close> holds the
    properties.  The invariant includes that the disc is well formed (\<open>wf_disc\<close>), which the IFO
    reader does not check; \<open>Vm_Tables\<close> has discs that are not, on which jumps miss or never end, and
    the first-play chain, whose saved state is not restored.
  \<^item> \<open>Bitreader\<close>: \<^verbatim>\<open>bitreader.c\<close>, and that it refines taking bits from a list.
  \<^item> \<open>Nav_Read\<close>, \<open>Nav_Layout\<close>: \<^verbatim>\<open>nav_read.c\<close> and the layout it implements, every field as a range of
    bits of the buffer.
  \<^item> \<open>Remap\<close>: \<^verbatim>\<open>remap.c\<close>; its binary search against a linear one, the table's order, the parser.
  \<^item> \<open>Dvdnav_State\<close>, \<open>Dvdnav_Block\<close>, \<open>Dvdnav_Menu\<close>, \<open>Dvdnav_Search\<close>, \<open>Dvdnav_Seek\<close>: \<^verbatim>\<open>dvdnav.c\<close>,
    \<^verbatim>\<open>highlight.c\<close>, \<^verbatim>\<open>navigation.c\<close>, \<^verbatim>\<open>settings.c\<close> and \<^verbatim>\<open>searching.c\<close> over the record \<open>dvdnav\<close>
    (\<^verbatim>\<open>struct dvdnav_s\<close>).  \<open>Dvdnav_Time\<close>, \<open>Dvdnav_Time_Props\<close>: the search by the time map of a title,
    in which cell and at which block a jump by time ends, and the table of chapters.
  \<^item> \<open>Dvdnav_Inv\<close>, \<open>Dvdnav_Session\<close>: the library's invariant \<open>dvdnav_inv\<close>, and that every session of
    its calls keeps it.  \<open>Dvdnav_Events\<close>: in which order changes are announced.  \<open>Dvdnav_Props\<close>: what
    searches, the mouse, the address map and the packet decoder do.
  \<^item> \<open>Hdhr_Pkt\<close>, \<open>Hdhr_Lemmas\<close>, \<open>Hdhr_Props\<close>: \<^verbatim>\<open>hdhomerun_pkt.c\<close>; its checksum is CRC-32, frames and
    elements come back as they were written, damaged frames are refused.
  \<^item> \<open>Kazlib_Hash\<close>, \<open>Kazlib_Hash_Inv\<close>, \<open>Kazlib_Hash_Props\<close>: \<^verbatim>\<open>hash.c\<close>; the representation invariant
    \<open>hash_ok\<close> and that a table used as C-Pluff uses it is a finite map.
  \<^item> \<open>Kazlib_List\<close>: \<^verbatim>\<open>list.c\<close> and the pointer sets of \<^verbatim>\<open>util.c\<close> over an explicit store of nodes and
    lists, with every pointer the code writes.  \<open>Kazlib_List_Inv\<close> relates a circular chain of nodes to
    a sequence; \<open>Kazlib_List_Ins\<close>, \<open>_Move\<close>, \<open>_Merge\<close>, \<open>_Sort\<close> and \<open>_Store\<close> show what each operation does to
    the sequences, \<open>Kazlib_List_Session\<close> lifts that to sequences of calls, \<open>Kazlib_Pool\<close> treats the
    pools of nodes.  \<open>Kazlib_List_Props\<close> has the properties: calls on lists are calls on sequences,
    sorting sorts, a pool is a stack of free nodes and a pointer set a set.
  \<^item> \<open>Cpluff_Vercmp\<close>: \<^verbatim>\<open>cpi_vercmp\<close> of \<^verbatim>\<open>util.c\<close> is the order of keys and so a total preorder.
  \<^item> \<open>Cpluff_State\<close>, \<open>Cpluff_Control\<close>: the plug-in environment (\<open>plugin_env\<close>) with the plug-ins and
    descriptors as objects at addresses, and \<^verbatim>\<open>pcontrol.c\<close> with what it calls of \<^verbatim>\<open>pinfo.c\<close>, \<^verbatim>\<open>context.c\<close>,
    \<^verbatim>\<open>psymbol.c\<close> and \<^verbatim>\<open>serial.c\<close>.
  \<^item> \<open>Cpluff_Inv\<close>: the invariant \<open>env_ok\<close> of the environment.  The lists of imported and importing
    plug-ins mirror each other except at the plug-ins being worked on, imports go down in a rank,
    and states agree along them.  \<open>Cpluff_Resolve\<close>, \<open>Cpluff_Failed\<close>, \<open>Cpluff_Start\<close>, \<open>Cpluff_Stop\<close>,
    \<open>Cpluff_Uninstall\<close> and \<open>Cpluff_Session\<close> prove of each recursion that it returns, keeps the invariant
    and changes the states it should.  \<open>Cpluff_Live\<close> shows when starting succeeds.  \<open>Cpluff_Calls\<close>
    puts the calls of a client into sequences, and \<open>Cpluff_Props\<close> has the properties, and the cases
    in which the code breaks its own promises.
\<close>

text \<open>
  \<^bold>\<open>Fuel.\<close>  Some recursions of the code need not end.  A table of commands may loop through Goto;
  \<open>vmEval_loop\<close> needs none of the model's fuel, because the code itself stops after 100,000
  instructions.  The play functions may walk through empty chains for ever
  (\<open>play_PGC_post_with\<close>), and so may the loop of \<^verbatim>\<open>process_command\<close>; both take fuel, one unit per
  chain and one per link, as an argument of every call above them.  A property that says a call
  returns is proved for enough fuel (\<open>process_command_plain\<close>: two units, on well-formed discs without pre- and
  post-commands; \<open>empty_chain_hangs\<close> shows that no amount is enough on others), a run that ends has the same result with more (\<open>process_command_fuel\<close>), and the
  safety properties hold for every amount.  The walks along the nodes of a list are cut off at
  \<open>lh_bound\<close>, one step more than the store has nodes, which a well-formed chain never needs.  The recursions over the graph of plug-ins
  (\<open>resolve_plugin_prel_rec\<close> and its like) take one unit per level; where imports have ranks below \<open>k\<close>,
  \<open>k\<close> units are enough for every call, as \<open>plugin_sessions_return\<close> shows.  Their inner loops, each of
  which empties a list, are cut off one round after the length of the list.  All
  other loops are structural recursions or \<open>function\<close>s with a termination proof.

  \<^bold>\<open>Parameters.\<close>  What the disc holds: the tables of its IFO files and which of them can be opened
  (\<open>disc\<close>), the sectors of its VOB files (\<open>media\<close>); the clock and the random source (\<open>os\<close>); the
  answers of allocations in the hash table, whose comparison and hash function are fields as in
  the code; the lines of the remap file.  For plug-ins: which libraries the linker opens and what
  functions they hold, what the create and start functions answer, the order in which a table is
  scanned, which allocations fail.

  \<^bold>\<open>Not modelled.\<close>  Of libdvdnav the read-ahead cache (transparent to its caller) and locks.  Of libdvdread the reading of whole IFO files from the disc, the
  file systems and the printing; libdvdcss, which talks to the drive.  Of libhdhomerun the sockets
  and the device control above the packets; of C-Pluff the XML loader, threads, the
  registries of loggers and listeners, and the resolution of symbols at run time.  The properties of
  sessions of plug-ins are about imports without cycles and enough memory; what happens outside is
  shown by example.  The vendored libraries under \<^verbatim>\<open>lib\<close> (image formats, codecs, UPnP, RAR, taglib and
  others) and the C++ application under \<^verbatim>\<open>xbmc\<close> are outside this development.
\<close>

end
